(* ===== verification/Prelude.thy ===== *)
theory Prelude
  imports Main "HOL-Library.AList" "HOL-Library.Sublist"
begin

text \<open>
  Shared vocabulary of the development: the model's readings of JavaScript strings,
  insertion-ordered \<open>Map\<close>/\<open>Set\<close> objects and truthiness, with the lemmas about them that
  the component theories use through the simplifier.

  A JavaScript string is a \<open>string\<close> (a list of \<open>char\<close>); one \<open>char\<close> stands for one UTF-16
  code unit, so the model speaks about the code units below 256. An insertion-ordered
  \<open>Map\<close> is an association list in insertion order with distinct keys.
\<close>

named_theorems policy_defs \<open>unfoldings of the policy components' operations\<close>
named_theorems registry_defs \<open>unfoldings of the task result registry's operations\<close>
named_theorems board_defs \<open>unfoldings of the work board operations\<close>

subsection \<open>Strings\<close>

definition is_js_space :: "char \<Rightarrow> bool" where
  "is_js_space c \<longleftrightarrow> (let n = (of_char c :: nat) in
     n = 9 \<or> n = 10 \<or> n = 11 \<or> n = 12 \<or> n = 13 \<or> n = 32 \<or> n = 160)"

definition trim :: "string \<Rightarrow> string" where
  "trim s = rev (dropWhile is_js_space (rev (dropWhile is_js_space s)))"

lemma trim_Nil [simp]: "trim [] = []"
  by (simp add: trim_def)

lemma hd_dropWhile_not: "dropWhile P xs = y # ys \<Longrightarrow> \<not> P y"
  by (metis hd_dropWhile list.distinct(1) list.sel(1))

lemma dropWhile_rev_cut:
  "dropWhile P xs = xs \<Longrightarrow> dropWhile P (rev (dropWhile P (rev xs))) = rev (dropWhile P (rev xs))"
proof -
  assume h: "dropWhile P xs = xs"
  obtain n where n: "dropWhile P (rev xs) = drop n (rev xs)"
    using dropWhile_eq_drop by blast
  then have "rev (dropWhile P (rev xs)) = take (length xs - n) xs"
    by (simp add: rev_drop)
  then show ?thesis using h
    by (cases xs; cases "length xs - n") (auto split: if_splits dest: hd_dropWhile_not)
qed

lemma trim_idem [simp]: "trim (trim s) = trim s"
proof -
  let ?t = "dropWhile is_js_space s"
  have t: "dropWhile is_js_space ?t = ?t" by (rule dropWhile_idem)
  have "dropWhile is_js_space (trim s) = trim s"
    using dropWhile_rev_cut [OF t] by (simp add: trim_def)
  then have "trim (trim s) = rev (dropWhile is_js_space (rev (trim s)))"
    by (simp add: trim_def)
  also have "\<dots> = trim s" by (simp add: trim_def)
  finally show ?thesis .
qed

lemma trim_plain: "\<forall>c \<in> set s. \<not> is_js_space c \<Longrightarrow> trim s = s"
proof -
  have d: "dropWhile is_js_space xs = xs" if "\<forall>c \<in> set xs. \<not> is_js_space c" for xs
    using that by (cases xs) auto
  assume "\<forall>c \<in> set s. \<not> is_js_space c"
  with d [of s] d [of "rev s"] show ?thesis by (simp add: trim_def)
qed

definition quoted :: "string \<Rightarrow> string" where
  "quoted s = [CHR 0x27] @ s @ [CHR 0x27]"

definition starts_with :: "string \<Rightarrow> string \<Rightarrow> bool" where
  "starts_with s p \<longleftrightarrow> take (length p) s = p"

lemma starts_with_append [simp]: "starts_with (p @ s) p"
  by (simp add: starts_with_def)

fun includes_str :: "string \<Rightarrow> string \<Rightarrow> bool" where
  "includes_str [] n \<longleftrightarrow> n = []"
| "includes_str (c # s) n \<longleftrightarrow> starts_with (c # s) n \<or> includes_str s n"

fun index_of :: "char \<Rightarrow> string \<Rightarrow> nat option" where
  "index_of c [] = None"
| "index_of c (d # s) = (if c = d then Some 0 else map_option Suc (index_of c s))"

lemma index_of_None [simp]: "index_of c s = None \<longleftrightarrow> c \<notin> set s"
  by (induction s) auto

fun split_on :: "char \<Rightarrow> string \<Rightarrow> string list" where
  "split_on c [] = [[]]"
| "split_on c (x # xs) =
    (if x = c then [] # split_on c xs
     else (case split_on c xs of [] \<Rightarrow> [[x]] | p # ps \<Rightarrow> (x # p) # ps))"

lemma split_on_not_Nil [simp]: "split_on c s \<noteq> []"
  by (induction s) (auto split: list.splits)

lemma split_on_plain: "c \<notin> set s \<Longrightarrow> split_on c s = [s]"
  by (induction s) auto

lemma split_on_append: "split_on c (xs @ c # ys) = split_on c xs @ split_on c ys"
  by (induction xs) (auto split: list.splits)

definition ends_with :: "string \<Rightarrow> string \<Rightarrow> bool" where
  "ends_with s p \<longleftrightarrow> starts_with (rev s) (rev p)"

fun join_with :: "string \<Rightarrow> string list \<Rightarrow> string" where
  "join_with sep [] = []"
| "join_with sep [x] = x"
| "join_with sep (x # y # xs) = x @ sep @ join_with sep (y # xs)"

function show_nat :: "nat \<Rightarrow> string" where
  "show_nat n = (if n < 10 then [char_of (48 + n)]
                 else show_nat (n div 10) @ [char_of (48 + n mod 10)])"
  by pat_completeness auto
termination by (relation "measure id") auto

declare show_nat.simps [simp del]

definition upper_char :: "char \<Rightarrow> char" where
  "upper_char c = (let n = (of_char c :: nat) in
     if 97 \<le> n \<and> n \<le> 122 then char_of (n - 32) else c)"

definition lower_char :: "char \<Rightarrow> char" where
  "lower_char c = (let n = (of_char c :: nat) in
     if 65 \<le> n \<and> n \<le> 90 then char_of (n + 32) else c)"

subsection \<open>Truthiness of optional strings\<close>

text \<open>\<open>or_default s d\<close> is \<open>s?.trim() || d\<close>.\<close>

definition or_default :: "string option \<Rightarrow> string \<Rightarrow> string" where
  "or_default s d = (case s of None \<Rightarrow> d | Some x \<Rightarrow> if trim x = [] then d else trim x)"

definition nonempty :: "string option \<Rightarrow> bool" where
  "nonempty s \<longleftrightarrow> (case s of None \<Rightarrow> False | Some x \<Rightarrow> x \<noteq> [])"

subsection \<open>Sets in insertion order\<close>

text \<open>\<open>dedup xs\<close> is \<open>[...new Set(xs)]\<close>: first occurrences, in order.\<close>

definition add_unique :: "'a list \<Rightarrow> 'a \<Rightarrow> 'a list" where
  "add_unique acc x = (if x \<in> set acc then acc else acc @ [x])"

definition dedup :: "'a list \<Rightarrow> 'a list" where
  "dedup xs = foldl add_unique [] xs"

lemma set_foldl_add_unique [simp]: "set (foldl add_unique acc xs) = set acc \<union> set xs"
  by (induction xs arbitrary: acc) (auto simp: add_unique_def)

lemma distinct_foldl_add_unique: "distinct acc \<Longrightarrow> distinct (foldl add_unique acc xs)"
  by (induction xs arbitrary: acc) (auto simp: add_unique_def)

lemma set_dedup [simp]: "set (dedup xs) = set xs"
  by (simp add: dedup_def)

lemma distinct_dedup [simp]: "distinct (dedup xs)"
  by (simp add: dedup_def distinct_foldl_add_unique)

subsection \<open>Maps in insertion order\<close>

text \<open>
  \<open>om_set\<close> overwrites in place or appends, \<open>om_del\<close> removes, \<open>om_evict\<close> drops the
  oldest entries until at most \<open>n\<close> are left.
\<close>

type_synonym ('k, 'v) omap = "('k \<times> 'v) list"

definition om_get :: "('k, 'v) omap \<Rightarrow> 'k \<Rightarrow> 'v option" where
  "om_get m k = map_of m k"

definition om_has :: "('k, 'v) omap \<Rightarrow> 'k \<Rightarrow> bool" where
  "om_has m k \<longleftrightarrow> k \<in> fst ` set m"

definition om_del :: "'k \<Rightarrow> ('k, 'v) omap \<Rightarrow> ('k, 'v) omap" where
  "om_del k m = filter (\<lambda>e. fst e \<noteq> k) m"

fun om_set :: "'k \<Rightarrow> 'v \<Rightarrow> ('k, 'v) omap \<Rightarrow> ('k, 'v) omap" where
  "om_set k v [] = [(k, v)]"
| "om_set k v (e # m) = (if fst e = k then (k, v) # m else e # om_set k v m)"

definition om_evict :: "nat \<Rightarrow> ('k, 'v) omap \<Rightarrow> ('k, 'v) omap" where
  "om_evict n m = drop (length m - n) m"

definition om_wf :: "('k, 'v) omap \<Rightarrow> bool" where
  "om_wf m \<longleftrightarrow> distinct (map fst m)"

lemma om_get_Nil [simp]: "om_get [] k = None"
  by (simp add: om_get_def)

lemma om_get_set [simp]: "om_get (om_set k v m) j = (if j = k then Some v else om_get m j)"
  by (induction m) (auto simp: om_get_def)

lemma om_get_del [simp]: "om_get (om_del k m) j = (if j = k then None else om_get m j)"
  by (induction m) (auto simp: om_get_def om_del_def)

lemma om_has_iff: "om_has m k \<longleftrightarrow> om_get m k \<noteq> None"
  by (auto simp: om_has_def om_get_def map_of_eq_None_iff image_iff)

lemma om_has_set [simp]: "om_has (om_set k v m) j \<longleftrightarrow> j = k \<or> om_has m j"
  by (simp add: om_has_iff)

lemma om_has_del [simp]: "om_has (om_del k m) j \<longleftrightarrow> j \<noteq> k \<and> om_has m j"
  by (simp add: om_has_iff)

lemma keys_om_set: "map fst (om_set k v m) = (if om_has m k then map fst m else map fst m @ [k])"
  by (induction m) (auto simp: om_has_def)

lemma om_wf_Nil [simp]: "om_wf []"
  by (simp add: om_wf_def)

lemma om_wf_set [simp]: "om_wf m \<Longrightarrow> om_wf (om_set k v m)"
  by (auto simp: om_wf_def keys_om_set om_has_def)

lemma om_wf_del [simp]: "om_wf m \<Longrightarrow> om_wf (om_del k m)"
  by (auto simp: om_wf_def om_del_def distinct_map inj_on_def)

lemma om_wf_evict [simp]: "om_wf m \<Longrightarrow> om_wf (om_evict n m)"
  by (simp add: om_wf_def om_evict_def drop_map [symmetric])

lemma length_om_evict [simp]: "length (om_evict n m) = min n (length m)"
  by (simp add: om_evict_def)

lemma om_del_absent: "\<not> om_has m k \<Longrightarrow> om_del k m = m"
  by (auto simp: om_del_def om_has_def intro!: filter_True)

lemma length_om_del_le: "length (om_del k m) \<le> length m"
  by (simp add: om_del_def)

lemma length_om_set: "length (om_set k v m) = (if om_has m k then length m else Suc (length m))"
  using arg_cong [OF keys_om_set, of length k v m] by (simp split: if_splits)

lemma om_evict_get: "om_wf m \<Longrightarrow> om_get (om_evict n m) k = Some v \<Longrightarrow> om_get m k = Some v"
  unfolding om_get_def om_evict_def om_wf_def
  by (metis in_set_dropD map_of_SomeD map_of_is_SomeI)

lemma om_set_fresh: "\<not> om_has m k \<Longrightarrow> om_set k v m = m @ [(k, v)]"
  by (induction m) (auto simp: om_has_def)

lemma om_evict_small: "length m \<le> n \<Longrightarrow> om_evict n m = m"
  by (simp add: om_evict_def)

lemma om_evict_snoc: "0 < n \<Longrightarrow> om_evict n (m @ [e]) = drop (Suc (length m) - n) m @ [e]"
  by (simp add: om_evict_def)

lemma om_evict_last:
  assumes "0 < n" "om_wf (m @ [(k, v)])"
  shows "om_get (om_evict n (m @ [(k, v)])) k = Some v"
proof -
  have "k \<notin> fst ` set (drop j m)" for j
    using assms(2) by (auto simp: om_wf_def dest: in_set_dropD)
  then have "map_of (drop j m) k = None" for j
    by (simp add: map_of_eq_None_iff)
  then show ?thesis
    using assms(1) by (simp add: om_evict_snoc om_get_def map_add_def)
qed

end
