(* ===== verification/Json_Value.thy ===== *)
theory Json_Value
  imports Prelude
begin

text \<open>
  Plain JSON values and what the approval code reads from them:
  \<open>gateway/src/modules/util/coerce.ts\<close> and the context functions of
  \<open>runtime-policy/src/review-policy.ts\<close>. An object is an insertion-ordered map; spreading one
  (\<open>{ ...x }\<close>) copies it, so values are shared freely.
\<close>

datatype json =
    JNull
  | JBool bool
  | JNum int
  | JStr string
  | JArr "json list"
  | JObj "(string \<times> json) list"

text \<open>
  \<open>JSON.stringify\<close> on these values (\<open>undefined\<close> members are left out before; keys that spell array
  indices, which JavaScript would move to the front, do not occur in the objects built here).
\<close>

definition show_int :: "int \<Rightarrow> string" where
  "show_int i = (if i < 0 then [CHR ''-''] @ show_nat (nat (- i)) else show_nat (nat i))"

definition hex_digit :: "nat \<Rightarrow> char" where
  "hex_digit n = (if n < 10 then char_of (48 + n) else char_of (87 + n))"

definition escape_char :: "char \<Rightarrow> string" where
  "escape_char c =
    (let n = (of_char c :: nat) in
     if n = 34 then [CHR 0x5C, CHR 0x22]
     else if n = 92 then [CHR 0x5C, CHR 0x5C]
     else if n = 8 then [CHR 0x5C, CHR ''b'']
     else if n = 9 then [CHR 0x5C, CHR ''t'']
     else if n = 10 then [CHR 0x5C, CHR ''n'']
     else if n = 12 then [CHR 0x5C, CHR ''f'']
     else if n = 13 then [CHR 0x5C, CHR ''r'']
     else if n < 32 then [CHR 0x5C] @ ''u00'' @ [hex_digit (n div 16), hex_digit (n mod 16)]
     else [c])"

definition json_string :: "string \<Rightarrow> string" where
  "json_string s = [CHR 0x22] @ concat (map escape_char s) @ [CHR 0x22]"

fun join :: "string \<Rightarrow> string list \<Rightarrow> string" where
  "join sep [] = []"
| "join sep [s] = s"
| "join sep (s # ss) = s @ sep @ join sep ss"

fun json_text :: "json \<Rightarrow> string" where
  "json_text JNull = ''null''"
| "json_text (JBool b) = (if b then ''true'' else ''false'')"
| "json_text (JNum i) = show_int i"
| "json_text (JStr s) = json_string s"
| "json_text (JArr vs) = ''['' @ join '','' (map json_text vs) @ '']''"
| "json_text (JObj m) = [CHR 0x7B] @ join '','' (map (\<lambda>(k, v). json_string k @ '':'' @ json_text v) m) @ [CHR 0x7D]"

text \<open>The text of a string or an integer determines it.\<close>

lemma of_char_cases:
  obtains "of_char c = (34::nat)" | "of_char c = (92::nat)" | "of_char c = (8::nat)" | "of_char c = (9::nat)"
  | "of_char c = (10::nat)" | "of_char c = (12::nat)" | "of_char c = (13::nat)"
  | "of_char c < (32::nat)" "of_char c \<notin> {8, 9, 10, 12, 13 :: nat}"
  | "\<not> of_char c < (32::nat)" "of_char c \<noteq> (34::nat)" "of_char c \<noteq> (92::nat)"
  by force

lemma escape_not_quote: "\<exists>x xs. escape_char c = x # xs \<and> x \<noteq> CHR 0x22"
proof (cases rule: of_char_cases [of c])
  case 9
  then have "c \<noteq> CHR 0x22" by auto
  with 9 show ?thesis by (simp add: escape_char_def)
qed (simp_all add: escape_char_def Let_def)

definition hex_value :: "char \<Rightarrow> nat" where
  "hex_value c = (let n = of_char c in if n < 58 then n - 48 else n - 87)"

definition unescape :: "string \<Rightarrow> char \<times> string" where
  "unescape s =
    (let x = hd s; y = hd (tl s); q = tl (tl s) in
     if x \<noteq> CHR 0x5C then (x, tl s)
     else if y = CHR ''b'' then (char_of (8 :: nat), q)
     else if y = CHR ''t'' then (char_of (9 :: nat), q)
     else if y = CHR ''n'' then (char_of (10 :: nat), q)
     else if y = CHR ''f'' then (char_of (12 :: nat), q)
     else if y = CHR ''r'' then (char_of (13 :: nat), q)
     else if y = CHR ''u'' then (char_of (16 * hex_value (q ! 2) + hex_value (q ! 3)), drop 4 q)
     else (y, q))"

lemma hex_value_digit: "n < 16 \<Longrightarrow> hex_value (hex_digit n) = n"
  by (simp add: hex_value_def hex_digit_def Let_def)

lemma unescape_escape: "unescape (escape_char c @ r) = (c, r)"
proof -
  have c: "d = c" if "(of_char d :: nat) = of_char c" for d :: char
    using that by simp
  show ?thesis
  proof (cases rule: of_char_cases [of c])
    case 8
    have "16 * (of_char c div 16) + of_char c mod 16 = (of_char c :: nat)" by simp
    moreover have "(of_char c :: nat) div 16 < 16" using 8 by linarith
    ultimately have "char_of (16 * hex_value (hex_digit (of_char c div 16)) + hex_value (hex_digit (of_char c mod 16))) = c"
      by (simp only: hex_value_digit mod_less_divisor zero_less_numeral char_of_char)
    with 8 show ?thesis by (simp add: escape_char_def unescape_def Let_def)
  next
    case 9
    have "c \<noteq> CHR 0x5C" using 9 by auto
    with 9 show ?thesis by (simp add: escape_char_def unescape_def Let_def)
  qed (simp_all add: escape_char_def unescape_def Let_def, (rule c; simp)+)
qed

lemma escape_inj: "escape_char c @ r = escape_char d @ r' \<Longrightarrow> c = d \<and> r = r'"
  by (metis unescape_escape prod.inject)

lemma escape_quote: "escape_char c @ r \<noteq> CHR 0x22 # r'"
  using escape_not_quote [of c] by auto

lemma json_string_eq [simp]:
  "json_string s @ r = json_string s' @ r' \<longleftrightarrow> s = s' \<and> r = r'"
proof -
  have "concat (map escape_char s) @ CHR 0x22 # r = concat (map escape_char s') @ CHR 0x22 # r' \<Longrightarrow> s = s' \<and> r = r'"
  proof (induction s arbitrary: s')
    case Nil
    then show ?case using escape_quote by (cases s') (auto, metis)
  next
    case (Cons c s)
    show ?case
    proof (cases s')
      case Nil
      with Cons.prems escape_quote show ?thesis by auto
    next
      case (Cons d s'')
      from Cons.prems have "escape_char c @ (concat (map escape_char s) @ CHR 0x22 # r) =
        escape_char d @ (concat (map escape_char s'') @ CHR 0x22 # r')" by (simp add: Cons)
      from escape_inj [OF this] Cons.IH show ?thesis by (simp add: Cons)
    qed
  qed
  then show ?thesis by (auto simp: json_string_def)
qed

lemma show_nat_digits: "c \<in> set (show_nat n) \<Longrightarrow> 48 \<le> (of_char c :: nat) \<and> of_char c \<le> (57 :: nat)"
proof (induction n rule: show_nat.induct)
  case (1 n)
  show ?case
  proof (cases "n < 10")
    case True
    with 1 show ?thesis by (simp add: show_nat.simps [of n])
  next
    case False
    with 1 show ?thesis by (auto simp: show_nat.simps [of n])
  qed
qed

lemma show_nat_not_Nil: "show_nat n \<noteq> []"
  by (subst show_nat.simps) simp

definition digits_value :: "string \<Rightarrow> nat" where
  "digits_value s = foldl (\<lambda>v c. 10 * v + (of_char c - 48)) 0 s"

definition is_digit :: "char \<Rightarrow> bool" where
  "is_digit c \<longleftrightarrow> 48 \<le> (of_char c :: nat) \<and> (of_char c :: nat) \<le> 57"

text \<open>\<open>parseInt(s, 10)\<close>: leading blanks, a sign, the longest run of digits; \<open>NaN\<close> is \<open>None\<close>.\<close>

definition parse_int :: "string \<Rightarrow> int option" where
  "parse_int s =
    (let u = dropWhile is_js_space s;
         negative = starts_with u ''-'';
         body = (if negative \<or> starts_with u ''+'' then tl u else u);
         digits = takeWhile is_digit body
     in if digits = [] then None
        else Some (if negative then - int (digits_value digits) else int (digits_value digits)))"

lemma digits_show: "digits_value (show_nat n) = n"
proof (induction n rule: show_nat.induct)
  case (1 n)
  show ?case
  proof (cases "n < 10")
    case True
    then show ?thesis by (simp add: show_nat.simps [of n] digits_value_def)
  next
    case False
    then have "digits_value (show_nat n) = 10 * digits_value (show_nat (n div 10)) + n mod 10"
      by (simp add: show_nat.simps [of n] digits_value_def)
    with 1 False show ?thesis by simp
  qed
qed

lemma show_nat_inj: "show_nat m = show_nat n \<longleftrightarrow> m = n"
  by (metis digits_show)

lemma show_nat_no_sign: "CHR ''-'' # s \<noteq> show_nat n"
proof
  assume "CHR ''-'' # s = show_nat n"
  then have "CHR ''-'' \<in> set (show_nat n)" by (metis list.set_intros(1))
  from show_nat_digits [OF this] show False by simp
qed

lemma show_int_eq [simp]: "show_int i = show_int j \<longleftrightarrow> i = j"
  using show_nat_no_sign [symmetric] by (auto simp: show_int_def show_nat_inj show_nat_no_sign)

definition is_record :: "json option \<Rightarrow> bool" where
  "is_record v \<longleftrightarrow> (case v of Some (JObj _) \<Rightarrow> True | _ \<Rightarrow> False)"

definition coerce_record :: "json option \<Rightarrow> (string, json) omap option" where
  "coerce_record v = (case v of Some (JObj m) \<Rightarrow> Some m | _ \<Rightarrow> None)"

text \<open>\<open>typeof x[k] === "string" ? x[k] : ""\<close>.\<close>

definition string_field :: "(string, json) omap \<Rightarrow> string \<Rightarrow> string" where
  "string_field m k = (case om_get m k of Some (JStr s) \<Rightarrow> s | _ \<Rightarrow> [])"

definition coerce_string :: "json option \<Rightarrow> string option" where
  "coerce_string v = (case v of Some (JStr s) \<Rightarrow> if trim s = [] then None else Some (trim s) | _ \<Rightarrow> None)"

definition read_record_string :: "json option \<Rightarrow> string \<Rightarrow> string option" where
  "read_record_string v k =
    (case coerce_record v of None \<Rightarrow> None | Some m \<Rightarrow> coerce_string (om_get m k))"

definition extract_policy_snapshot_id :: "json \<Rightarrow> string option" where
  "extract_policy_snapshot_id context =
    (case coerce_record (Some context) of
       None \<Rightarrow> None
     | Some m \<Rightarrow>
         (let direct = trim (string_field m ''policy_snapshot_id'');
              nested = (case coerce_record (om_get m ''policy'') of
                          None \<Rightarrow> [] | Some p \<Rightarrow> trim (string_field p ''policy_snapshot_id''))
          in if direct \<noteq> [] then Some direct
             else if nested \<noteq> [] then Some nested else None))"

definition fill_string :: "string \<Rightarrow> string \<Rightarrow> (string, json) omap \<Rightarrow> (string, json) omap" where
  "fill_string k v m = (if trim (string_field m k) = [] then om_set k (JStr v) m else m)"

definition with_policy_snapshot_context :: "json \<Rightarrow> string \<Rightarrow> string \<Rightarrow> string \<Rightarrow> json" where
  "with_policy_snapshot_context context snapshot_id agent workspace =
    (let base = (case coerce_record (Some context) of None \<Rightarrow> [] | Some m \<Rightarrow> m);
         policy = (case coerce_record (om_get base ''policy'') of None \<Rightarrow> [] | Some p \<Rightarrow> p)
     in JObj (om_set ''policy''
          (JObj (fill_string ''workspace_id'' workspace
                  (fill_string ''agent_id'' agent
                    (fill_string ''policy_snapshot_id'' snapshot_id policy)))) base))"

lemma string_field_fill [simp]:
  "string_field (fill_string k v m) j =
    (if j = k \<and> trim (string_field m k) = [] then v else string_field m j)"
  by (simp add: fill_string_def string_field_def)

definition record_or_empty :: "json option \<Rightarrow> (string, json) omap" where
  "record_or_empty v = (case coerce_record v of None \<Rightarrow> [] | Some m \<Rightarrow> m)"

lemma coerce_record_obj [simp]: "coerce_record (Some (JObj m)) = Some m"
  by (simp add: coerce_record_def)

lemma record_or_empty_obj [simp]: "record_or_empty (Some (JObj m)) = m"
  by (simp add: record_or_empty_def)

lemma string_field_Nil [simp]: "string_field [] k = []"
  by (simp add: string_field_def)

lemma string_field_other: "j \<noteq> k \<Longrightarrow> string_field (om_set k v m) j = string_field m j"
  by (simp add: string_field_def)

lemma extract_base:
  "extract_policy_snapshot_id context =
    (let base = record_or_empty (Some context);
         direct = trim (string_field base ''policy_snapshot_id'');
         nested = trim (string_field (record_or_empty (om_get base ''policy'')) ''policy_snapshot_id'')
     in if direct \<noteq> [] then Some direct else if nested \<noteq> [] then Some nested else None)"
  by (cases "coerce_record (Some context)")
    (auto simp: extract_policy_snapshot_id_def record_or_empty_def Let_def coerce_record_def [of None]
      split: option.splits)

lemma with_context_base:
  "with_policy_snapshot_context context sid agent workspace =
    JObj (om_set ''policy'' (JObj (fill_string ''workspace_id'' workspace (fill_string ''agent_id'' agent
      (fill_string ''policy_snapshot_id'' sid
        (record_or_empty (om_get (record_or_empty (Some context)) ''policy'')))))) (record_or_empty (Some context)))"
  by (simp add: with_policy_snapshot_context_def record_or_empty_def Let_def)

text \<open>
  Enriching an approval context pins the snapshot without overriding one: afterwards the
  extracted snapshot id is the one the context already carried, or else the given one, and every
  key other than \<open>policy\<close> is untouched.
\<close>

theorem snapshot_context_pinned:
  "extract_policy_snapshot_id (with_policy_snapshot_context context sid agent workspace) =
    (case extract_policy_snapshot_id context of
       Some i \<Rightarrow> Some i | None \<Rightarrow> if trim sid = [] then None else Some (trim sid)) \<and>
   (k \<noteq> ''policy'' \<longrightarrow>
      om_get (record_or_empty (Some (with_policy_snapshot_context context sid agent workspace))) k =
      om_get (record_or_empty (Some context)) k)"
  by (simp add: extract_base with_context_base string_field_other Let_def)

lemma snapshot_context_pinned_witness:
  "extract_policy_snapshot_id (with_policy_snapshot_context (JObj [(''a'', JNum 1)]) ''s1'' ''ag'' ''ws'') =
    Some ''s1''"
proof -
  have "extract_policy_snapshot_id (JObj [(''a'', JNum 1)]) = None" "trim ''s1'' = ''s1''"
    by code_simp+
  then show ?thesis using snapshot_context_pinned [of "JObj [(''a'', JNum 1)]" "''s1''" "''ag''" "''ws''" "''a''"]
    by simp
qed

end
