(* ===== verification/Table.thy ===== *)
theory Table
  imports Prelude "HOL-Library.List_Lexorder" "HOL-Library.Char_ord"
begin

text \<open>
  Database tables as the stores read and write them: a table is the list of its rows in insertion
  order, \<open>UPDATE ... WHERE\<close> is \<open>update_where\<close>, \<open>ORDER BY a, b\<close> is \<open>order_by\<close> (a stable sort by
  the minor key, then by the major one). \<open>table_evolves\<close> says that a table only grows and that
  every old row is related to its later self.
\<close>

definition update_where :: "('r \<Rightarrow> bool) \<Rightarrow> ('r \<Rightarrow> 'r) \<Rightarrow> 'r list \<Rightarrow> 'r list" where
  "update_where P f rows = map (\<lambda>r. if P r then f r else r) rows"

definition matches :: "('r \<Rightarrow> bool) \<Rightarrow> 'r list \<Rightarrow> bool" where
  "matches P rows \<longleftrightarrow> list_ex P rows"

definition order_by :: "('r \<Rightarrow> 'a::linorder) \<Rightarrow> ('r \<Rightarrow> 'b::linorder) \<Rightarrow> 'r list \<Rightarrow> 'r list" where
  "order_by major minor rows = sort_key major (sort_key minor rows)"

definition first_row :: "'r list \<Rightarrow> 'r option" where
  "first_row rows = (case rows of [] \<Rightarrow> None | r # _ \<Rightarrow> Some r)"

definition table_evolves :: "('r \<Rightarrow> 'r \<Rightarrow> bool) \<Rightarrow> 'r list \<Rightarrow> 'r list \<Rightarrow> bool" where
  "table_evolves R rows rows' \<longleftrightarrow> list_all2 R rows (take (length rows) rows')"

lemma length_update_where [simp]: "length (update_where P f rows) = length rows"
  by (simp add: update_where_def)

lemma set_update_where: "set (update_where P f rows) = (\<lambda>r. if P r then f r else r) ` set rows"
  by (simp add: update_where_def)

lemma map_update_where:
  "(\<And>r. P r \<Longrightarrow> k (f r) = k r) \<Longrightarrow> map k (update_where P f rows) = map k rows"
  by (auto simp: update_where_def)

lemma update_where_none: "\<not> matches P rows \<Longrightarrow> update_where P f rows = rows"
  by (auto simp: update_where_def matches_def list_ex_iff intro: map_idI)

lemma matches_iff: "matches P rows \<longleftrightarrow> (\<exists>r \<in> set rows. P r)"
  by (simp add: matches_def list_ex_iff)

lemma matches_key: "matches (\<lambda>r. k r = v) rows \<longleftrightarrow> v \<in> k ` set rows"
  by (auto simp: matches_iff)

lemma set_order_by [simp]: "set (order_by a b rows) = set rows"
  by (simp add: order_by_def)

lemma first_row_in: "first_row rows = Some r \<Longrightarrow> r \<in> set rows"
  by (cases rows) (simp_all add: first_row_def)

lemma first_row_None [simp]: "first_row rows = None \<longleftrightarrow> rows = []"
  by (cases rows) (simp_all add: first_row_def)

lemma order_by_Nil [simp]: "order_by a b rows = [] \<longleftrightarrow> rows = []"
  by (metis set_order_by set_empty)

lemma table_evolves_refl: "(\<And>r. R r r) \<Longrightarrow> table_evolves R rows rows"
  by (simp add: table_evolves_def list.rel_refl)

lemma table_evolves_snoc: "(\<And>r. R r r) \<Longrightarrow> table_evolves R rows (rows @ new)"
  by (simp add: table_evolves_def list.rel_refl)

lemma table_evolves_update:
  "(\<And>r. R r r) \<Longrightarrow> (\<And>r. r \<in> set rows \<Longrightarrow> P r \<Longrightarrow> R r (f r)) \<Longrightarrow> table_evolves R rows (update_where P f rows)"
  by (auto simp: table_evolves_def update_where_def list_all2_conv_all_nth)

lemma table_evolves_trans:
  assumes "\<And>a b c. R a b \<Longrightarrow> R b c \<Longrightarrow> R a c" "table_evolves R x y" "table_evolves R y z"
  shows "table_evolves R x z"
proof -
  from assms(2) have l: "length x \<le> length y"
    by (auto simp: table_evolves_def dest: list_all2_lengthD)
  from assms(3) have l': "length y \<le> length z"
    by (auto simp: table_evolves_def dest: list_all2_lengthD)
  have "R (x ! i) (z ! i)" if i: "i < length x" for i
  proof -
    have "R (x ! i) (y ! i)" "R (y ! i) (z ! i)"
      using assms(2,3) i l by (auto simp: table_evolves_def list_all2_conv_all_nth)
    then show ?thesis by (rule assms(1))
  qed
  then show ?thesis using l l' by (simp add: table_evolves_def list_all2_conv_all_nth)
qed

lemma distinct_keys_eq:
  "distinct (map k rows) \<Longrightarrow> a \<in> set rows \<Longrightarrow> b \<in> set rows \<Longrightarrow> k a = k b \<Longrightarrow> a = b"
  by (auto simp: distinct_map inj_on_def)

lemma find_only:
  assumes "a \<in> set xs" "P a" "\<And>b. b \<in> set xs \<Longrightarrow> P b \<Longrightarrow> b = a"
  shows "find P xs = Some a"
proof (cases "find P xs")
  case None
  with assms(1,2) show ?thesis by (auto simp: find_None_iff)
next
  case (Some b)
  then have "b \<in> set xs" "P b" by (auto simp: find_Some_iff)
  from assms(3) [OF this] Some show ?thesis by simp
qed

lemma find_in: "find P xs = Some x \<Longrightarrow> x \<in> set xs \<and> P x"
  by (auto simp: find_Some_iff)

lemma find_append: "find P (xs @ ys) = (case find P xs of None \<Rightarrow> find P ys | Some x \<Rightarrow> Some x)"
  by (induction xs) auto

lemma find_map_key:
  "(\<And>x. P (f x) = P x) \<Longrightarrow> find P (map f xs) = map_option f (find P xs)"
  by (induction xs) auto

lemma one_with_key:
  assumes "distinct (map k xs)" "v \<in> k ` set xs"
  shows "length (filter (\<lambda>x. k x = v) xs) = 1"
  using assms
proof (induction xs)
  case (Cons a xs)
  show ?case
  proof (cases "k a = v")
    case True
    with Cons.prems(1) have "v \<notin> k ` set xs" by simp
    then have "filter (\<lambda>x. k x = v) xs = []" by (auto simp: filter_empty_conv)
    with True show ?thesis by simp
  next
    case False
    with Cons show ?thesis by auto
  qed
qed simp

lemma filter_update_le:
  "(\<And>x. P x \<Longrightarrow> Q (f x) \<Longrightarrow> Q x) \<Longrightarrow> length (filter Q (update_where P f xs)) \<le> length (filter Q xs)"
  by (induction xs) (auto simp: update_where_def intro: le_SucI)

lemma filter_update_add:
  "length (filter Q (update_where P f xs)) \<le> length (filter Q xs) + length (filter P xs)"
  by (induction xs) (auto simp: update_where_def)

lemma filter_filter_le: "length (filter Q (filter P xs)) \<le> length (filter Q xs)"
  by (induction xs) (auto intro: le_SucI)

lemma at_most_one:
  assumes "distinct (map k xs)" "\<And>x. P x \<Longrightarrow> k x = v"
  shows "length (filter P xs) \<le> 1"
  using assms(1)
proof (induction xs)
  case (Cons x xs)
  show ?case
  proof (cases "P x")
    case True
    have "\<not> P y" if "y \<in> set xs" for y
    proof
      assume "P y"
      then have "k y = k x" using assms(2) True by simp
      then show False using Cons.prems that by (auto simp: image_iff)
    qed
    then have "filter P xs = []" by (auto simp: filter_empty_conv)
    then show ?thesis by simp
  next
    case False
    with Cons show ?thesis by simp
  qed
qed simp

lemma find_update_where:
  "(\<And>x. P x \<Longrightarrow> Q (f x) = Q x) \<Longrightarrow>
    find Q (update_where P f xs) = map_option (\<lambda>x. if P x then f x else x) (find Q xs)"
  by (induction xs) (auto simp: update_where_def)

lemma insort_key_snoc: "f y \<le> f x \<Longrightarrow> insort_key f y (zs @ [x]) = insort_key f y zs @ [x]"
  by (induction zs) auto

lemma sort_key_snoc:
  "(\<And>y. y \<in> set xs \<Longrightarrow> f y \<le> f x) \<Longrightarrow> sort_key f (xs @ [x]) = sort_key f xs @ [x]"
  by (induction xs) (auto simp: insort_key_snoc)

lemma list_all2_in_set1: "list_all2 R xs ys \<Longrightarrow> x \<in> set xs \<Longrightarrow> \<exists>y \<in> set ys. R x y"
  by (metis in_set_conv_nth list_all2_conv_all_nth)

end
