(* ===== verification/Js_Value.thy ===== *)
theory Js_Value
  imports Json_Value Table "HOL-Library.Multiset"
begin

text \<open>
  What property reads and comparisons of JSON values do in JavaScript beyond the values
  themselves: \<open>x[name]\<close> reaches the members inherited from \<open>Object.prototype\<close> and
  \<open>Array.prototype\<close>, and \<open>sortValue\<close>
  (\<open>runtime-policy/src/canonical-json.ts\<close>) orders the keys of objects. Objects are maps with
  distinct keys (\<open>json_wf\<close>), as \<open>JSON.parse\<close> builds them.
\<close>

subsection \<open>Property reads\<close>

text \<open>\<open>JsFunction\<close> is any inherited function; the two prototype objects are values of their own.\<close>

datatype js_value = JsUndefined | JsValue json | JsFunction | JsObjectProto | JsArrayProto

definition object_members :: "string list" where
  "object_members = [''constructor'', ''__defineGetter__'', ''__defineSetter__'', ''hasOwnProperty'',
     ''__lookupGetter__'', ''__lookupSetter__'', ''isPrototypeOf'', ''propertyIsEnumerable'',
     ''toString'', ''valueOf'', ''toLocaleString'']"

definition array_members :: "string list" where
  "array_members = [''at'', ''concat'', ''copyWithin'', ''fill'', ''find'', ''findIndex'', ''findLast'',
     ''findLastIndex'', ''lastIndexOf'', ''pop'', ''push'', ''reverse'', ''shift'', ''unshift'', ''slice'',
     ''sort'', ''splice'', ''includes'', ''indexOf'', ''join'', ''keys'', ''entries'', ''values'', ''forEach'',
     ''filter'', ''flat'', ''flatMap'', ''map'', ''every'', ''some'', ''reduce'', ''reduceRight'',
     ''toReversed'', ''toSorted'', ''toSpliced'', ''with'']"

definition proto_key :: string where
  "proto_key = ''__proto__''"

text \<open>A canonical array index: the decimal text of a number.\<close>

definition array_index :: "string \<Rightarrow> nat option" where
  "array_index name =
    (if name \<noteq> [] \<and> list_all is_digit name \<and> show_nat (digits_value name) = name
     then Some (digits_value name) else None)"

definition element :: "json list \<Rightarrow> nat \<Rightarrow> js_value" where
  "element vs i = (if i < length vs then JsValue (vs ! i) else JsUndefined)"

definition inherited_object :: "string \<Rightarrow> js_value" where
  "inherited_object name =
    (if name = proto_key then JsObjectProto
     else if name \<in> set object_members then JsFunction else JsUndefined)"

definition inherited_array :: "string \<Rightarrow> js_value" where
  "inherited_array name =
    (if name = proto_key then JsArrayProto
     else if name \<in> set array_members \<or> name \<in> set object_members then JsFunction else JsUndefined)"

fun member_of :: "js_value \<Rightarrow> string \<Rightarrow> js_value" where
  "member_of (JsValue (JObj m)) name =
    (case om_get m name of Some v \<Rightarrow> JsValue v | None \<Rightarrow> inherited_object name)"
| "member_of (JsValue (JArr vs)) name =
    (if name = ''length'' then JsValue (JNum (int (length vs)))
     else (case array_index name of Some i \<Rightarrow> element vs i | None \<Rightarrow> inherited_array name))"
| "member_of JsObjectProto name = (if name = proto_key then JsValue JNull else inherited_object name)"
| "member_of JsArrayProto name =
    (if name = ''length'' then JsValue (JNum 0)
     else if name = proto_key then JsObjectProto else inherited_array name)"
| "member_of _ name = JsUndefined"

subsection \<open>Well-formed values and canonical key order\<close>

fun json_wf :: "json \<Rightarrow> bool" where
  "json_wf (JArr vs) \<longleftrightarrow> (\<forall>v \<in> set vs. json_wf v)"
| "json_wf (JObj m) \<longleftrightarrow> distinct (map fst m) \<and> (\<forall>kv \<in> set m. json_wf (snd kv))"
| "json_wf _ \<longleftrightarrow> True"

text \<open>No object has the key \<open>__proto__\<close>.\<close>

fun plain_keys :: "json \<Rightarrow> bool" where
  "plain_keys (JArr vs) \<longleftrightarrow> (\<forall>v \<in> set vs. plain_keys v)"
| "plain_keys (JObj m) \<longleftrightarrow> proto_key \<notin> fst ` set m \<and> (\<forall>kv \<in> set m. plain_keys (snd kv))"
| "plain_keys _ \<longleftrightarrow> True"

text \<open>
  \<open>sortValue\<close>: the keys are inserted in their order, but an object lists the keys that spell array
  indices first, by number. Assigning \<open>out["__proto__"]\<close> changes the prototype instead of adding
  a key, so such a key is lost.
\<close>

definition index_key :: "string \<Rightarrow> nat option" where
  "index_key name = (case array_index name of Some n \<Rightarrow> if n < 2 ^ 32 - 1 then Some n else None | None \<Rightarrow> None)"

definition object_order :: "(string \<times> 'a) list \<Rightarrow> (string \<times> 'a) list" where
  "object_order m =
    sort_key (\<lambda>kv. the (index_key (fst kv))) (filter (\<lambda>kv. index_key (fst kv) \<noteq> None) m) @
    sort_key fst (filter (\<lambda>kv. index_key (fst kv) = None) m)"

fun sort_value :: "json \<Rightarrow> json" where
  "sort_value (JArr vs) = JArr (map sort_value vs)"
| "sort_value (JObj m) =
    JObj (object_order (filter (\<lambda>kv. fst kv \<noteq> proto_key) (map (\<lambda>(k, v). (k, sort_value v)) m)))"
| "sort_value v = v"

definition stable_json_stringify :: "json \<Rightarrow> string" where
  "stable_json_stringify v = json_text (sort_value v)"

lemma om_get_map_snd: "om_get (map (\<lambda>(k, v). (k, f v)) m) j = map_option f (om_get m j)"
  by (simp add: om_get_def map_of_map)

text \<open>The order of an object depends on its entries only.\<close>

lemma digits_of_show_nat [simp]: "takeWhile is_digit (show_nat n) = show_nat n"
  using show_nat_digits by (auto simp: is_digit_def)

lemma parse_int_show_nat: "parse_int (show_nat n) = Some (int n)"
proof -
  obtain c cs where s: "show_nat n = c # cs" using show_nat_not_Nil by (cases "show_nat n") auto
  have d: "48 \<le> (of_char c :: nat) \<and> of_char c \<le> (57 :: nat)" by (rule show_nat_digits [of c n]) (simp add: s)
  then have "\<not> is_js_space c" "c \<noteq> CHR ''-''" "c \<noteq> CHR ''+''" by (auto simp: is_js_space_def Let_def)
  moreover have "is_digit c" "takeWhile is_digit cs = cs"
    using digits_of_show_nat [of n] s by (auto split: if_splits)
  moreover have "digits_value (c # cs) = n" using digits_show [of n] by (simp only: s)
  ultimately show ?thesis unfolding s parse_int_def Let_def starts_with_def
    by (simp add: takeWhile_eq_all_conv [THEN iffD2])
qed

lemma array_index_name: "array_index a = Some n \<Longrightarrow> show_nat n = a"
  by (auto simp: array_index_def Let_def split: if_splits)

lemma index_key_name: "index_key a = Some n \<Longrightarrow> show_nat n = a"
  by (auto simp: index_key_def split: option.splits if_splits dest: array_index_name)

lemma sort_key_set_unique:
  assumes "distinct xs" "distinct ys" "set xs = set ys" "inj_on f (set xs)"
  shows "sort_key f xs = sort_key f ys"
proof (rule sort_key_inj_key_eq)
  show "mset xs = mset (sort_key f ys)" using assms by (simp add: set_eq_iff_mset_eq_distinct [symmetric])
qed (use assms in simp_all)

lemma index_key_inj: "inj_on (\<lambda>kv. the (index_key (fst kv))) {kv \<in> set m. index_key (fst kv) \<noteq> None}"
  if "distinct (map fst m)"
proof (rule inj_onI, clarsimp)
  fix a v b w n k
  assume h: "(a, v) \<in> set m" "(b, w) \<in> set m" "index_key a = Some n" "index_key b = Some n"
  then have "a = b" using index_key_name [OF h(3)] index_key_name [OF h(4)] by simp
  with h that show "a = b \<and> v = w" by (auto dest: eq_key_imp_eq_value)
qed

lemma object_order_unique:
  assumes "distinct (map fst m)" "distinct (map fst n)" "set m = set n"
  shows "object_order m = object_order n"
proof -
  have d: "distinct m" "distinct n" using assms(1,2) by (simp_all add: distinct_map)
  have i: "inj_on fst (set m)" using assms(1) by (simp add: distinct_map)
  show ?thesis unfolding object_order_def
    using d assms(3) index_key_inj [OF assms(1)] inj_on_subset [OF i]
    by (intro arg_cong2 [of _ _ _ _ "(@)"] sort_key_set_unique) auto
qed

lemma set_object_order [simp]: "set (object_order m) = set m"
  by (auto simp: object_order_def)

end
