(* ===== verification/Postcondition.thy ===== *)
theory Postcondition
  imports Js_Value
begin

text \<open>
  \<open>contracts/src/postcondition.ts\<close>: the evaluation of a step's postcondition against the evidence the
  executor returned. A thrown \<open>PostconditionError\<close> is the left summand. The evidence holds an HTTP
  status, a JSON value (\<open>undefined\<close> is \<open>None\<close>) and a DOM excerpt; numbers are integers.
\<close>

subsection \<open>Data\<close>

datatype assertion_kind = HttpStatusKind | DomContainsKind | JsonPathKind

datatype failure_code = HttpStatusMismatch | DomTextMissing | JsonPathMissing | JsonPathPredicateFailed

text \<open>
  The detail of a result, field by field, as the value that is serialized; \<open>undefined\<close> members are
  left out. An observed function is left out, an observed prototype object is an empty one.
\<close>

datatype assertion_outcome =
    AssertionPassed "json option"
  | AssertionFailed failure_code string "json option" "json option"

record assertion_result =
  ar_kind :: assertion_kind
  ar_outcome :: assertion_outcome

record postcondition_report =
  po_passed :: bool
  po_assertions :: "assertion_result list"
  po_metadata :: "json option"

definition redacted :: string where
  "redacted = ''[REDACTED]''"

record dom_context =
  dc_selector :: "string option"
  dc_html :: string

record evaluation_context =
  ec_http :: "int option"
  ec_json :: "json option"
  ec_dom :: "dom_context option"

datatype postcondition_error_kind = InvalidPostcondition | UnsupportedPostcondition | MissingEvidence

datatype postcondition_error = PostconditionError postcondition_error_kind string

datatype assertion_spec =
    HttpStatus int
  | DomContains string "string option" bool
  | JsonPathEquals string json

record parsed_spec =
  sp_assertions :: "assertion_spec list"
  sp_metadata :: "json option"

subsection \<open>Parsing\<close>

definition invalid :: "string \<Rightarrow> postcondition_error + 'a" where
  "invalid msg = Inl (PostconditionError InvalidPostcondition msg)"

text \<open>Reading a named member of a value that is an object or an array; the names used are not inherited.\<close>

definition own_member :: "json \<Rightarrow> string \<Rightarrow> json option" where
  "own_member v name = (case v of JObj m \<Rightarrow> om_get m name | _ \<Rightarrow> None)"

definition is_object :: "json \<Rightarrow> bool" where
  "is_object v \<longleftrightarrow> (case v of JObj _ \<Rightarrow> True | JArr _ \<Rightarrow> True | _ \<Rightarrow> False)"

definition parse_assertion :: "json \<Rightarrow> postcondition_error + assertion_spec" where
  "parse_assertion value =
    (if \<not> is_object value then invalid ''postcondition assertion must be an object''
     else case own_member value ''type'' of
       Some (JStr ty) \<Rightarrow>
         (if ty = ''http_status'' then
            (case own_member value ''equals'' of
               Some (JNum n) \<Rightarrow>
                 if n < 0 \<or> 65535 < n then invalid (''http_status '' @ quoted ''equals'' @ '' must fit in u16'')
                 else Inr (HttpStatus n)
             | _ \<Rightarrow> invalid (''http_status assertion requires numeric '' @ quoted ''equals''))
          else if ty = ''dom_contains'' then
            (case own_member value ''text'' of
               Some (JStr txt) \<Rightarrow>
                 Inr (DomContains txt
                   (case own_member value ''selector'' of Some (JStr s) \<Rightarrow> Some s | _ \<Rightarrow> None)
                   (case own_member value ''case_insensitive'' of Some (JBool b) \<Rightarrow> b | _ \<Rightarrow> False))
             | _ \<Rightarrow> invalid (''dom_contains assertion requires '' @ quoted ''text''))
          else if ty = ''json_path'' then
            (case own_member value ''path'' of
               Some (JStr path) \<Rightarrow>
                 (case own_member value ''equals'' of
                    None \<Rightarrow> invalid (''json_path assertion requires '' @ quoted ''equals'')
                  | Some expected \<Rightarrow> Inr (JsonPathEquals path expected))
             | _ \<Rightarrow> invalid (''json_path assertion requires '' @ quoted ''path''))
          else Inl (PostconditionError UnsupportedPostcondition ty))
     | _ \<Rightarrow> invalid (''postcondition assertion missing '' @ quoted ''type'' @ '' field''))"

text \<open>\<open>items.map(parseAssertion)\<close>: the first error is thrown.\<close>

fun parse_items :: "json list \<Rightarrow> postcondition_error + assertion_spec list" where
  "parse_items [] = Inr []"
| "parse_items (v # vs) =
    (case parse_assertion v of
       Inl e \<Rightarrow> Inl e
     | Inr a \<Rightarrow> (case parse_items vs of Inl e \<Rightarrow> Inl e | Inr as \<Rightarrow> Inr (a # as)))"

definition parse_assertion_array :: "json list \<Rightarrow> postcondition_error + assertion_spec list" where
  "parse_assertion_array items =
    (if items = [] then invalid ''assertions array must not be empty'' else parse_items items)"

definition parse_spec :: "json \<Rightarrow> postcondition_error + parsed_spec" where
  "parse_spec raw =
    (case raw of
       JArr items \<Rightarrow> map_sum id (\<lambda>as. \<lparr>sp_assertions = as, sp_metadata = None\<rparr>) (parse_assertion_array items)
     | JObj obj \<Rightarrow>
         (case om_get obj ''assertions'' of
            Some (JArr items) \<Rightarrow>
              (let rest = filter (\<lambda>kv. fst kv \<noteq> ''assertions'') obj
               in map_sum id (\<lambda>as. \<lparr>sp_assertions = as,
                    sp_metadata = (if rest = [] then None
                      else Some (JObj (filter (\<lambda>kv. fst kv \<noteq> proto_key) rest)))\<rparr>)
                    (parse_assertion_array items))
          | Some _ \<Rightarrow> invalid ''`assertions` must be an array''
          | None \<Rightarrow>
              if om_has obj ''type''
              then map_sum id (\<lambda>a. \<lparr>sp_assertions = [a], sp_metadata = None\<rparr>) (parse_assertion raw)
              else Inl (PostconditionError UnsupportedPostcondition
                     (''object_with_fields:'' @ join_with '','' (sort (map fst obj)))))
     | _ \<Rightarrow> invalid ''postcondition must be an object or array'')"

subsection \<open>JSON paths\<close>

datatype path_token = PathField string | PathIndex nat

text \<open>The tokens of what follows the dollar sign.\<close>

function path_tokens :: "string \<Rightarrow> postcondition_error + path_token list" where
  "path_tokens [] = Inr []"
| "path_tokens (c # rest) =
    (if c = CHR ''.'' then
       (if rest = [] then invalid (''path cannot end with '' @ quoted ''.'')
        else (let name = takeWhile (\<lambda>c. c \<noteq> CHR ''.'' \<and> c \<noteq> CHR ''['') rest
              in if name = [] then invalid (''field name after '' @ quoted ''.'' @ '' cannot be empty'')
                 else (case path_tokens (drop (length name) rest) of
                         Inl e \<Rightarrow> Inl e | Inr ts \<Rightarrow> Inr (PathField name # ts))))
     else if c = CHR ''['' then
       (case index_of (CHR '']'') rest of
          None \<Rightarrow> invalid (''missing closing '' @ quoted '']'' @ '' in index'')
        | Some closing \<Rightarrow>
            if closing = 0 then invalid ''array index cannot be empty''
            else (case parse_int (take closing rest) of
                    Some i \<Rightarrow>
                      if i < 0 then invalid ''array index must be a non-negative integer''
                      else (case path_tokens (drop (closing + 1) rest) of
                              Inl e \<Rightarrow> Inl e | Inr ts \<Rightarrow> Inr (PathIndex (nat i) # ts))
                  | None \<Rightarrow> invalid ''array index must be a non-negative integer''))
     else invalid (''unexpected character '' @ quoted [c] @ '' in path''))"
  by pat_completeness auto
termination by (relation "measure length") auto

definition parse_json_path :: "string \<Rightarrow> postcondition_error + path_token list" where
  "parse_json_path path =
    (let trimmed = trim path in
     if trimmed = [] then invalid ''path cannot be empty''
     else if hd trimmed \<noteq> CHR ''$'' then invalid (''path must start with '' @ quoted ''$'')
     else path_tokens (tl trimmed))"

text \<open>Only objects and arrays are read from: \<open>null\<close>, primitives and functions end the resolution.\<close>

definition js_container :: "js_value \<Rightarrow> bool" where
  "js_container v \<longleftrightarrow> (case v of JsValue (JObj _) \<Rightarrow> True | JsValue (JArr _) \<Rightarrow> True
     | JsObjectProto \<Rightarrow> True | JsArrayProto \<Rightarrow> True | _ \<Rightarrow> False)"

fun resolve_json_path :: "js_value \<Rightarrow> path_token list \<Rightarrow> js_value" where
  "resolve_json_path v [] = v"
| "resolve_json_path v (t # ts) =
    (if \<not> js_container v then JsUndefined
     else resolve_json_path
       (case t of
          PathField name \<Rightarrow> member_of v name
        | PathIndex i \<Rightarrow> (case v of JsValue (JArr vs) \<Rightarrow> element vs i | _ \<Rightarrow> JsUndefined)) ts)"

subsection \<open>Values\<close>

fun sanitise_value :: "json \<Rightarrow> json" where
  "sanitise_value (JStr s) = JStr redacted"
| "sanitise_value (JArr vs) = JArr (map sanitise_value vs)"
| "sanitise_value (JObj m) =
    JObj (filter (\<lambda>kv. fst kv \<noteq> proto_key) (map (\<lambda>(k, v). (k, sanitise_value v)) m))"
| "sanitise_value v = v"

definition sanitise_observed :: "js_value \<Rightarrow> json option" where
  "sanitise_observed v = (case v of JsValue w \<Rightarrow> Some (sanitise_value w)
     | JsObjectProto \<Rightarrow> Some (JObj []) | JsArrayProto \<Rightarrow> Some (JArr []) | _ \<Rightarrow> None)"

text \<open>
  \<open>deepEqual(a, b)\<close>. The members of \<open>b\<close> are read with the inherited ones, so \<open>__proto__\<close> that is no
  own key of \<open>b\<close> is the empty \<open>Object.prototype\<close>; inherited functions equal nothing.
\<close>

fun deep_equal :: "json \<Rightarrow> json \<Rightarrow> bool"
  and deep_items :: "json list \<Rightarrow> json list \<Rightarrow> bool"
  and deep_members :: "(string \<times> json) list \<Rightarrow> (string \<times> json) list \<Rightarrow> bool"
where
  "deep_equal JNull b \<longleftrightarrow> b = JNull"
| "deep_equal (JBool x) b \<longleftrightarrow> b = JBool x"
| "deep_equal (JNum x) b \<longleftrightarrow> b = JNum x"
| "deep_equal (JStr x) b \<longleftrightarrow> b = JStr x"
| "deep_equal (JArr as) b \<longleftrightarrow> (case b of JArr bs \<Rightarrow> length as = length bs \<and> deep_items as bs | _ \<Rightarrow> False)"
| "deep_equal (JObj m) b \<longleftrightarrow> (case b of JObj n \<Rightarrow> length m = length n \<and> deep_members m n | _ \<Rightarrow> False)"
| "deep_items [] bs \<longleftrightarrow> True"
| "deep_items (a # as) bs \<longleftrightarrow> (case bs of [] \<Rightarrow> False | b # bs' \<Rightarrow> deep_equal a b \<and> deep_items as bs')"
| "deep_members [] n \<longleftrightarrow> True"
| "deep_members ((k, v) # m) n \<longleftrightarrow>
    (case om_get n k of
       Some w \<Rightarrow> deep_equal v w
     | None \<Rightarrow> k = proto_key \<and> v = JObj []) \<and> deep_members m n"

text \<open>What was observed may itself be a prototype object.\<close>

definition observed_equal :: "js_value \<Rightarrow> json \<Rightarrow> bool" where
  "observed_equal observed expected =
    (case observed of
       JsValue v \<Rightarrow> deep_equal v expected
     | JsObjectProto \<Rightarrow> expected = JObj []
     | JsArrayProto \<Rightarrow> expected = JArr []
     | _ \<Rightarrow> False)"

subsection \<open>Evaluation\<close>

definition present_members :: "(string \<times> json option) list \<Rightarrow> json" where
  "present_members fs = JObj (map (\<lambda>(k, v). (k, the v)) (filter (\<lambda>kv. snd kv \<noteq> None) fs))"

definition missing_evidence :: "string \<Rightarrow> postcondition_error + 'a" where
  "missing_evidence msg = Inl (PostconditionError MissingEvidence msg)"

definition evaluate_assertion ::
  "assertion_spec \<Rightarrow> evaluation_context \<Rightarrow> postcondition_error + assertion_result" where
  "evaluate_assertion spec context =
    (case spec of
       HttpStatus expected \<Rightarrow>
         (case ec_http context of
            None \<Rightarrow> missing_evidence ''http context required for http_status assertion''
          | Some status \<Rightarrow> Inr \<lparr>ar_kind = HttpStatusKind, ar_outcome =
              (let shown = (\<lambda>n. Some (JObj [(''status'', JNum n)])) in
               if status = expected then AssertionPassed (shown status)
               else AssertionFailed HttpStatusMismatch
                 (''expected status '' @ show_int expected @ '', observed '' @ show_int status)
                 (shown expected) (shown status))\<rparr>)
     | DomContains needle selector ci \<Rightarrow>
         (case ec_dom context of
            None \<Rightarrow> missing_evidence ''dom context required for dom_contains assertion''
          | Some page \<Rightarrow> Inr \<lparr>ar_kind = DomContainsKind, ar_outcome =
              (let found = (if ci then includes_str (map lower_char (dc_html page)) (map lower_char needle)
                            else includes_str (dc_html page) needle);
                   wanted = map_option JStr selector; seen = map_option JStr (dc_selector page)
               in if found
                  then AssertionPassed (Some (present_members
                         [(''expected_selector'', wanted), (''selector'', seen), (''matched'', Some (JBool True))]))
                  else AssertionFailed DomTextMissing ''expected DOM excerpt to contain target text''
                         (Some (JStr redacted)) (Some (present_members
                         [(''selector'', seen), (''expected_selector'', wanted),
                          (''matched'', Some (JBool False))])))\<rparr>)
     | JsonPathEquals path expected \<Rightarrow>
         (case ec_json context of
            None \<Rightarrow> missing_evidence ''json context required for json_path assertion''
          | Some JNull \<Rightarrow> missing_evidence ''json context required for json_path assertion''
          | Some root \<Rightarrow>
              (case parse_json_path path of
                 Inl e \<Rightarrow> Inl e
               | Inr tokens \<Rightarrow> Inr \<lparr>ar_kind = JsonPathKind, ar_outcome =
                   (let observed = resolve_json_path (JsValue root) tokens in
                    if observed = JsUndefined
                    then AssertionFailed JsonPathMissing
                      (''json path '' @ quoted path @ '' did not resolve'')
                      (Some (sanitise_value expected)) None
                    else if observed_equal observed expected
                    then AssertionPassed (Some (present_members
                      [(''path'', Some (JStr path)), (''value'', sanitise_observed observed)]))
                    else AssertionFailed JsonPathPredicateFailed
                      (''json path '' @ quoted path @ '' value mismatch'')
                      (Some (sanitise_value expected)) (sanitise_observed observed))\<rparr>)))"

definition result_passed :: "assertion_result \<Rightarrow> bool" where
  "result_passed r \<longleftrightarrow> (case ar_outcome r of AssertionPassed _ \<Rightarrow> True | _ \<Rightarrow> False)"

fun evaluate_assertions ::
  "assertion_spec list \<Rightarrow> evaluation_context \<Rightarrow> postcondition_error + assertion_result list" where
  "evaluate_assertions [] context = Inr []"
| "evaluate_assertions (a # as) context =
    (case evaluate_assertion a context of
       Inl e \<Rightarrow> Inl e
     | Inr r \<Rightarrow> (case evaluate_assertions as context of Inl e \<Rightarrow> Inl e | Inr rs \<Rightarrow> Inr (r # rs)))"

definition evaluate_postcondition ::
  "json \<Rightarrow> evaluation_context \<Rightarrow> postcondition_error + postcondition_report" where
  "evaluate_postcondition raw context =
    (case parse_spec raw of
       Inl e \<Rightarrow> Inl e
     | Inr spec \<Rightarrow>
         (case evaluate_assertions (sp_assertions spec) context of
            Inl e \<Rightarrow> Inl e
          | Inr rs \<Rightarrow> Inr \<lparr>po_passed = list_all result_passed rs, po_assertions = rs,
                          po_metadata = sp_metadata spec\<rparr>))"

subsection \<open>Checking\<close>

record postcondition_check =
  ck_passed :: bool
  ck_error :: "string option"
  ck_report :: "postcondition_report option"

fun falsy :: "json \<Rightarrow> bool" where
  "falsy JNull = True"
| "falsy (JBool b) = (\<not> b)"
| "falsy (JNum n) = (n = 0)"
| "falsy (JStr s) = (s = [])"
| "falsy _ = False"

fun kind_name :: "assertion_kind \<Rightarrow> string" where
  "kind_name HttpStatusKind = ''http_status''"
| "kind_name DomContainsKind = ''dom_contains''"
| "kind_name JsonPathKind = ''json_path_equals''"

definition failure_lines :: "assertion_result list \<Rightarrow> string list" where
  "failure_lines rs = concat (map (\<lambda>r. case ar_outcome r of
     AssertionFailed _ msg _ _ \<Rightarrow> [kind_name (ar_kind r) @ '': '' @ msg] | _ \<Rightarrow> []) rs)"

definition check_postcondition :: "json option \<Rightarrow> evaluation_context \<Rightarrow> postcondition_check" where
  "check_postcondition spec context =
    (case spec of
       None \<Rightarrow> \<lparr>ck_passed = True, ck_error = None, ck_report = None\<rparr>
     | Some raw \<Rightarrow>
         if falsy raw then \<lparr>ck_passed = True, ck_error = None, ck_report = None\<rparr>
         else (case evaluate_postcondition raw context of
             Inr report \<Rightarrow>
               if po_passed report then \<lparr>ck_passed = True, ck_error = None, ck_report = Some report\<rparr>
               else (let failed = join_with ''; '' (failure_lines (po_assertions report))
                     in \<lparr>ck_passed = False, ck_error = Some (''postcondition failed: '' @
                           (if failed = [] then ''assertions failed'' else failed)), ck_report = Some report\<rparr>)
           | Inl (PostconditionError _ msg) \<Rightarrow>
               \<lparr>ck_passed = False, ck_error = Some (''postcondition error: '' @ msg), ck_report = None\<rparr>))"

subsection \<open>Equality of values\<close>

lemma sort_value_obj_eq:
  assumes "distinct (map fst m)" "distinct (map fst n)"
    and "proto_key \<notin> fst ` set m" "proto_key \<notin> fst ` set n"
  shows "sort_value (JObj m) = sort_value (JObj n) \<longleftrightarrow>
    (\<lambda>(k, v). (k, sort_value v)) ` set m = (\<lambda>(k, v). (k, sort_value v)) ` set n"
proof -
  let ?f = "\<lambda>(k :: string, v). (k, sort_value v)"
  have keep: "filter (\<lambda>kv. fst kv \<noteq> proto_key) (map ?f x) = map ?f x" if "proto_key \<notin> fst ` set x" for x
    using that by (force intro!: filter_True)
  have keys: "map fst (map ?f x) = map fst x" for x by (induction x) auto
  have "object_order (map ?f m) = object_order (map ?f n) \<longleftrightarrow> set (map ?f m) = set (map ?f n)"
  proof
    assume "object_order (map ?f m) = object_order (map ?f n)"
    then have "set (object_order (map ?f m)) = set (object_order (map ?f n))" by (rule arg_cong)
    then show "set (map ?f m) = set (map ?f n)" by (simp only: set_object_order)
  next
    assume "set (map ?f m) = set (map ?f n)"
    then show "object_order (map ?f m) = object_order (map ?f n)"
      by (rule object_order_unique [rotated 2]) (simp_all only: keys assms(1,2))
  qed
  then show ?thesis using keep [OF assms(3)] keep [OF assms(4)] by simp
qed

lemma deep_members_all:
  "deep_members m n \<longleftrightarrow> (\<forall>(k, v) \<in> set m. case om_get n k of
     Some w \<Rightarrow> deep_equal v w | None \<Rightarrow> k = proto_key \<and> v = JObj [])"
  by (induction m) auto

text \<open>Equally many entries, and every entry of the one found in the other: then the entries are the same.\<close>

lemma same_entries:
  assumes "distinct (map fst m)" "distinct (map fst n)" "length m = length n"
    and "\<forall>(k, v) \<in> set m. \<exists>w. (k, w) \<in> set n \<and> f w = f v"
  shows "(\<lambda>(k, v). (k, f v)) ` set m = (\<lambda>(k, v). (k, f v)) ` set n"
proof -
  let ?g = "\<lambda>(k, v). (k, f v)"
  have keys: "map fst (map ?g x) = map fst x" for x :: "('a \<times> 'b) list" by (induction x) auto
  have "card (?g ` set x) = length x" if "distinct (map fst x)" for x :: "('a \<times> 'b) list"
  proof -
    have "distinct (map fst (map ?g x))" using that keys [of x] by (simp only:)
    then have "distinct (map ?g x)" by (simp only: distinct_map [of fst])
    then show ?thesis using distinct_card [of "map ?g x"] by (simp only: set_map length_map)
  qed
  with assms(1-3) have "card (?g ` set m) = card (?g ` set n)" by simp
  moreover have "?g ` set m \<subseteq> ?g ` set n" using assms(4) by force
  ultimately show ?thesis by (simp add: card_subset_eq)
qed

lemma deep_equal_sorted:
  "json_wf a \<Longrightarrow> plain_keys a \<Longrightarrow> json_wf b \<Longrightarrow> plain_keys b \<Longrightarrow>
    deep_equal a b \<longleftrightarrow> sort_value a = sort_value b"
  "\<forall>v \<in> set as. json_wf v \<and> plain_keys v \<Longrightarrow> \<forall>v \<in> set bs. json_wf v \<and> plain_keys v \<Longrightarrow>
    length as = length bs \<Longrightarrow> deep_items as bs \<longleftrightarrow> map sort_value as = map sort_value bs"
  "\<forall>kv \<in> set m. json_wf (snd kv) \<and> plain_keys (snd kv) \<Longrightarrow> proto_key \<notin> fst ` set m \<Longrightarrow>
    \<forall>kv \<in> set n. json_wf (snd kv) \<and> plain_keys (snd kv) \<Longrightarrow>
    deep_members m n \<longleftrightarrow> (\<forall>(k, v) \<in> set m. \<exists>w. om_get n k = Some w \<and> sort_value w = sort_value v)"
proof (induction a b and as bs and m n rule: deep_equal_deep_items_deep_members.induct)
  case (5 as b)
  then show ?case
  proof (cases b)
    case (JArr bs)
    have "map sort_value as = map sort_value bs \<Longrightarrow> length as = length bs" by (rule map_eq_imp_length_eq)
    with 5 JArr show ?thesis by auto
  qed auto
next
  case (6 m b)
  show ?case
  proof (cases b)
    case (JObj n)
    have d: "distinct (map fst m)" "distinct (map fst n)" "proto_key \<notin> fst ` set m" "proto_key \<notin> fst ` set n"
      using "6.prems" JObj by auto
    have members: "deep_members m n \<longleftrightarrow>
        (\<forall>(k, v) \<in> set m. \<exists>w. (k, w) \<in> set n \<and> sort_value w = sort_value v)"
      using "6.IH" [OF JObj] "6.prems" JObj d(2) by (simp add: om_get_def)
    show ?thesis
    proof
      assume "deep_equal (JObj m) b"
      then have "length m = length n" "deep_members m n" using JObj by simp_all
      with members have "(\<lambda>(k, v). (k, sort_value v)) ` set m = (\<lambda>(k, v). (k, sort_value v)) ` set n"
        by (intro same_entries [OF d(1,2)]) simp_all
      then show "sort_value (JObj m) = sort_value b" unfolding JObj by (rule sort_value_obj_eq [OF d, THEN iffD2])
    next
      assume "sort_value (JObj m) = sort_value b"
      then have e: "(\<lambda>(k, v). (k, sort_value v)) ` set m = (\<lambda>(k, v). (k, sort_value v)) ` set n"
        using sort_value_obj_eq [OF d] JObj by blast
      have "fst ` (\<lambda>(k, v). (k, sort_value v)) ` set x = set (map fst x)" for x by force
      with e have "set (map fst m) = set (map fst n)" by metis
      with d(1,2) have "length m = length n" by (metis distinct_card length_map)
      moreover have "\<exists>w. (k, w) \<in> set n \<and> sort_value w = sort_value v" if "(k, v) \<in> set m" for k v
      proof -
        have "(k, sort_value v) \<in> (\<lambda>(k, v). (k, sort_value v)) ` set m"
          using that by (rule rev_image_eqI) simp
        then show ?thesis unfolding e by (elim imageE) auto
      qed
      ultimately show "deep_equal (JObj m) b" using members JObj by auto
    qed
  qed (use "6.prems" in auto)
next
  case (8 a as bs)
  then show ?case by (cases bs) auto
next
  case (10 k v m n)
  then have "proto_key \<noteq> k" "deep_members m n \<longleftrightarrow>
      (\<forall>(k, v) \<in> set m. \<exists>w. om_get n k = Some w \<and> sort_value w = sort_value v)" by auto
  moreover have "deep_equal v w \<longleftrightarrow> sort_value w = sort_value v" if "om_get n k = Some w" for w
  proof -
    have "(k, w) \<in> set n" using that by (simp add: om_get_def map_of_SomeD)
    with "10.prems" have "json_wf v" "plain_keys v" "json_wf w" "plain_keys w" by auto
    from "10.IH"(1) [OF that this] show ?thesis by (simp only: eq_commute [of "sort_value v"])
  qed
  ultimately show ?case by (cases "om_get n k") auto
next
  case (1 b) show ?case by (cases b) auto
next
  case (2 x b) show ?case by (cases b) auto
next
  case (3 x b) show ?case by (cases b) auto
next
  case (4 x b) show ?case by (cases b) auto
qed simp_all

text \<open>
  On values without the key \<open>__proto__\<close>, \<open>deepEqual\<close> decides equality up to the order of object
  keys: it says yes exactly when the canonical forms are the same value.
\<close>

theorem deep_equal_iff_canonical:
  assumes "json_wf a" "plain_keys a" "json_wf b" "plain_keys b"
  shows "deep_equal a b \<longleftrightarrow> sort_value a = sort_value b"
  using assms by (rule deep_equal_sorted(1))

lemma deep_equal_iff_canonical_witness:
  "deep_equal (JObj [(''a'', JNum 1), (''b'', JArr [JStr ''x''])]) (JObj [(''b'', JArr [JStr ''x'']), (''a'', JNum 1)]) \<longleftrightarrow>
   sort_value (JObj [(''a'', JNum 1), (''b'', JArr [JStr ''x''])]) =
   sort_value (JObj [(''b'', JArr [JStr ''x'']), (''a'', JNum 1)])"
  by (rule deep_equal_iff_canonical) (simp_all add: proto_key_def)

text \<open>
  A response body whose only key is \<open>__proto__\<close>, with an empty object as its value, passes a
  \<open>json_path\<close> postcondition that expects any object with one key: \<open>deepEqual\<close> looks the observed key
  up in the expected object, where the inherited prototype answers.
\<close>

theorem proto_body_passes:
  "\<exists>report. evaluate_postcondition
      (JObj [(''type'', JStr ''json_path''), (''path'', JStr ''$''), (''equals'', JObj [(''status'', v)])])
      \<lparr>ec_http = None, ec_json = Some (JObj [(proto_key, JObj [])]), ec_dom = None\<rparr> = Inr report \<and>
    po_passed report"
proof -
  have path: "parse_json_path ''$'' = Inr []" by code_simp
  have key: "proto_key \<noteq> ''status''" by (simp add: proto_key_def)
  show ?thesis
    by (simp add: evaluate_postcondition_def parse_spec_def parse_assertion_def own_member_def om_get_def
        om_has_def is_object_def evaluate_assertion_def path observed_equal_def key Let_def
        result_passed_def)
qed

subsection \<open>Paths\<close>

fun show_token :: "path_token \<Rightarrow> string" where
  "show_token (PathField name) = CHR ''.'' # name"
| "show_token (PathIndex i) = CHR ''['' # show_nat i @ '']''"

definition show_path :: "path_token list \<Rightarrow> string" where
  "show_path ts = CHR ''$'' # concat (map show_token ts)"

definition field_name :: "string \<Rightarrow> bool" where
  "field_name name \<longleftrightarrow> name \<noteq> [] \<and> (\<forall>c \<in> set name. c \<noteq> CHR ''.'' \<and> c \<noteq> CHR ''['' \<and> \<not> is_js_space c)"

definition token_ok :: "path_token \<Rightarrow> bool" where
  "token_ok t \<longleftrightarrow> (case t of PathField name \<Rightarrow> field_name name | PathIndex i \<Rightarrow> True)"

lemma tokens_start: "concat (map show_token ts) = [] \<or>
    hd (concat (map show_token ts)) = CHR ''.'' \<or> hd (concat (map show_token ts)) = CHR ''[''"
proof (cases ts)
  case (Cons t ts')
  then show ?thesis by (cases t) simp_all
qed simp

lemma field_prefix:
  assumes "field_name name" "rest = [] \<or> hd rest = CHR ''.'' \<or> hd rest = CHR ''[''"
  shows "takeWhile (\<lambda>c. c \<noteq> CHR ''.'' \<and> c \<noteq> CHR ''['') (name @ rest) = name"
proof -
  have "takeWhile (\<lambda>c. c \<noteq> CHR ''.'' \<and> c \<noteq> CHR ''['') rest = []" using assms(2) by (cases rest) auto
  then show ?thesis using assms(1) by (simp add: field_name_def takeWhile_append)
qed

lemma closing_bracket: "index_of (CHR '']'') (show_nat i @ CHR '']'' # rest) = Some (length (show_nat i))"
proof -
  have "CHR '']'' \<notin> set s \<Longrightarrow> index_of (CHR '']'') (s @ CHR '']'' # rest) = Some (length s)" for s
    by (induction s) auto
  moreover have "CHR '']'' \<notin> set (show_nat i)" using show_nat_digits [of "CHR '']''" i] by auto
  ultimately show ?thesis by blast
qed

lemma path_tokens_show:
  "list_all token_ok ts \<Longrightarrow> path_tokens (concat (map show_token ts)) = Inr ts"
proof (induction ts)
  case (Cons t ts)
  show ?case
  proof (cases t)
    case (PathField name)
    have n: "field_name name" using Cons.prems PathField by (simp add: token_ok_def)
    then have "name \<noteq> []" by (simp add: field_name_def)
    with Cons PathField show ?thesis
      by (simp add: field_prefix [OF n tokens_start] Let_def)
  next
    case (PathIndex i)
    with Cons show ?thesis
      by (simp add: closing_bracket parse_int_show_nat show_nat_not_Nil)
  qed
qed simp

lemma token_no_space: "token_ok t \<Longrightarrow> \<forall>c \<in> set (show_token t). \<not> is_js_space c"
proof (cases t)
  case (PathIndex i)
  then show ?thesis using show_nat_digits by (fastforce simp: is_js_space_def Let_def)
qed (auto simp: token_ok_def field_name_def is_js_space_def Let_def)

text \<open>Every path of field names and indices is read back from its text.\<close>

theorem json_path_roundtrip:
  assumes "list_all token_ok ts"
  shows "parse_json_path (show_path ts) = Inr ts"
proof -
  have "\<forall>c \<in> set (show_path ts). \<not> is_js_space c"
    using assms token_no_space by (fastforce simp: show_path_def list_all_iff is_js_space_def Let_def)
  then have "trim (show_path ts) = show_path ts" by (rule trim_plain)
  then show ?thesis using path_tokens_show [OF assms] by (simp add: parse_json_path_def show_path_def)
qed

lemma json_path_roundtrip_witness:
  "parse_json_path (show_path [PathField ''data'', PathIndex 12, PathField ''id'']) =
    Inr [PathField ''data'', PathIndex 12, PathField ''id'']"
  by (rule json_path_roundtrip) (simp add: token_ok_def field_name_def is_js_space_def Let_def)

subsection \<open>Reports\<close>

fun leaf_strings :: "json \<Rightarrow> string set" where
  "leaf_strings (JStr s) = {s}"
| "leaf_strings (JArr vs) = (\<Union>v \<in> set vs. leaf_strings v)"
| "leaf_strings (JObj m) = (\<Union>kv \<in> set m. leaf_strings (snd kv))"
| "leaf_strings _ = {}"

definition option_strings :: "json option \<Rightarrow> string set" where
  "option_strings v = (case v of None \<Rightarrow> {} | Some w \<Rightarrow> leaf_strings w)"

definition result_strings :: "assertion_result \<Rightarrow> string set" where
  "result_strings r = (case ar_outcome r of
     AssertionPassed detail \<Rightarrow> option_strings detail
   | AssertionFailed _ _ expected observed \<Rightarrow> option_strings expected \<union> option_strings observed)"

text \<open>What a result may quote: the path or the selectors, nothing of the evidence's contents.\<close>

definition quotable :: "evaluation_context \<Rightarrow> assertion_spec \<Rightarrow> string set" where
  "quotable context a = (case a of
     HttpStatus _ \<Rightarrow> {}
   | DomContains _ selector _ \<Rightarrow> set_option selector \<union>
       (case ec_dom context of None \<Rightarrow> {} | Some page \<Rightarrow> set_option (dc_selector page))
   | JsonPathEquals path _ \<Rightarrow> {path})"

lemma sanitised_leaves: "leaf_strings (sanitise_value v) \<subseteq> {redacted}"
  by (induction v rule: sanitise_value.induct) fastforce+

lemma observed_leaves: "option_strings (sanitise_observed v) \<subseteq> {redacted}"
  using sanitised_leaves by (auto simp: option_strings_def sanitise_observed_def split: js_value.splits)

lemma present_leaves: "leaf_strings (present_members fs) = (\<Union>kv \<in> set fs. option_strings (snd kv))"
  by (auto simp: present_members_def option_strings_def split: option.splits)

lemma result_masked:
  assumes "evaluate_assertion a context = Inr r"
  shows "result_strings r \<subseteq> {redacted} \<union> quotable context a"
proof (cases a)
  case (HttpStatus n)
  with assms show ?thesis
    by (auto simp: evaluate_assertion_def missing_evidence_def result_strings_def option_strings_def Let_def
      split: option.splits if_splits)
next
  case (DomContains needle selector ci)
  with assms show ?thesis
    by (auto simp: evaluate_assertion_def missing_evidence_def result_strings_def option_strings_def Let_def
        present_leaves quotable_def split: option.splits if_splits)
next
  case (JsonPathEquals path expected)
  with assms obtain root tokens where "ec_json context = Some root" "parse_json_path path = Inr tokens"
    by (auto simp: evaluate_assertion_def missing_evidence_def split: option.splits json.splits sum.splits)
  with assms JsonPathEquals have "result_strings r \<subseteq>
      leaf_strings (sanitise_value expected) \<union>
      option_strings (sanitise_observed (resolve_json_path (JsValue root) tokens)) \<union> {path}"
    by (auto simp: evaluate_assertion_def missing_evidence_def result_strings_def option_strings_def Let_def
        present_leaves split: json.splits if_splits)
  then show ?thesis using sanitised_leaves observed_leaves JsonPathEquals by (fastforce simp: quotable_def)
qed

lemma evaluate_assertions_all:
  "evaluate_assertions as context = Inr rs \<longleftrightarrow> list_all2 (\<lambda>a r. evaluate_assertion a context = Inr r) as rs"
proof (induction as arbitrary: rs)
  case (Cons a as)
  show ?case
  proof (cases "evaluate_assertion a context")
    case (Inr r)
    then show ?thesis using Cons.IH by (cases rs; cases "evaluate_assertions as context") auto
  qed (cases rs; simp)
qed auto

text \<open>
  Reports mask what they observed: every string in the details, the expected and the observed
  values of a report is \<open>[REDACTED]\<close>, the path of the assertion or a DOM selector.
\<close>

theorem report_masks_strings:
  assumes "evaluate_postcondition raw context = Inr report" "r \<in> set (po_assertions report)"
  shows "\<exists>spec. parse_spec raw = Inr spec \<and>
    (\<exists>a \<in> set (sp_assertions spec). result_strings r \<subseteq> {redacted} \<union> quotable context a)"
proof -
  from assms(1) obtain spec rs where s: "parse_spec raw = Inr spec"
    "evaluate_assertions (sp_assertions spec) context = Inr rs" "po_assertions report = rs"
    by (auto simp: evaluate_postcondition_def split: sum.splits)
  then have "list_all2 (\<lambda>a r. evaluate_assertion a context = Inr r) (sp_assertions spec) rs"
    by (simp add: evaluate_assertions_all)
  moreover have "r \<in> set rs" using assms(2) s(3) by simp
  ultimately obtain a where "a \<in> set (sp_assertions spec)" "evaluate_assertion a context = Inr r"
    by (induction rule: list_all2_induct) auto
  with s(1) result_masked show ?thesis by blast
qed

definition demo_context :: evaluation_context where
  "demo_context = \<lparr>ec_http = Some 200, ec_json = Some (JObj [(''token'', JStr ''s3cret'')]), ec_dom = None\<rparr>"

definition demo_postcondition :: json where
  "demo_postcondition = JArr [JObj [(''type'', JStr ''http_status''), (''equals'', JNum 200)],
     JObj [(''type'', JStr ''json_path''), (''path'', JStr ''$.token''), (''equals'', JStr ''other'')]]"

definition demo_results :: "assertion_result list" where
  "demo_results =
    [\<lparr>ar_kind = HttpStatusKind, ar_outcome = AssertionPassed (Some (JObj [(''status'', JNum 200)]))\<rparr>,
     \<lparr>ar_kind = JsonPathKind, ar_outcome = AssertionFailed JsonPathPredicateFailed
        (''json path '' @ quoted ''$.token'' @ '' value mismatch'') (Some (JStr redacted)) (Some (JStr redacted))\<rparr>]"

lemma demo_report: "evaluate_postcondition demo_postcondition demo_context =
    Inr \<lparr>po_passed = False, po_assertions = demo_results, po_metadata = None\<rparr>"
proof -
  have "parse_json_path ''$.token'' = Inr [PathField ''token'']" by code_simp
  then show ?thesis
    by (simp add: demo_postcondition_def demo_context_def evaluate_postcondition_def parse_spec_def
        parse_assertion_array_def parse_assertion_def own_member_def om_get_def is_object_def
        evaluate_assertion_def js_container_def observed_equal_def result_passed_def sanitise_observed_def
        demo_results_def)
qed

lemma report_masks_strings_witness:
  "\<exists>spec. parse_spec demo_postcondition = Inr spec \<and>
    (\<exists>a \<in> set (sp_assertions spec). result_strings (demo_results ! 1) \<subseteq> {redacted} \<union> quotable demo_context a)"
  by (rule report_masks_strings [OF demo_report]) (simp add: demo_results_def)

text \<open>The declarative reading of an assertion; the evidence it needs must be there.\<close>

definition assertion_holds :: "evaluation_context \<Rightarrow> assertion_spec \<Rightarrow> bool" where
  "assertion_holds context a = (case a of
     HttpStatus n \<Rightarrow> ec_http context = Some n
   | DomContains needle _ ci \<Rightarrow> (\<exists>page f. ec_dom context = Some page \<and>
       f = (if ci then map lower_char else id) \<and> (\<exists>p s. f (dc_html page) = p @ f needle @ s))
   | JsonPathEquals path expected \<Rightarrow> (\<exists>root tokens v. ec_json context = Some root \<and>
       parse_json_path path = Inr tokens \<and> resolve_json_path (JsValue root) tokens = JsValue v \<and>
       sort_value v = sort_value expected))"

definition plain_path :: "path_token list \<Rightarrow> bool" where
  "plain_path ts \<longleftrightarrow> PathField proto_key \<notin> set ts"

definition plain_assertion :: "assertion_spec \<Rightarrow> bool" where
  "plain_assertion a = (case a of
     JsonPathEquals path expected \<Rightarrow> json_wf expected \<and> plain_keys expected \<and>
       (case parse_json_path path of Inr ts \<Rightarrow> plain_path ts | Inl _ \<Rightarrow> True)
   | _ \<Rightarrow> True)"

definition plain_js :: "js_value \<Rightarrow> bool" where
  "plain_js v = (case v of JsValue w \<Rightarrow> json_wf w \<and> plain_keys w | JsUndefined \<Rightarrow> True | JsFunction \<Rightarrow> True
     | _ \<Rightarrow> False)"

lemma member_plain:
  assumes "plain_js v" "name \<noteq> proto_key"
  shows "plain_js (member_of v name)"
proof (cases "(v, name)" rule: member_of.cases)
  case (1 m n)
  with assms show ?thesis
    by (auto simp: plain_js_def inherited_object_def om_get_def split: option.split dest!: map_of_SomeD)
next
  case (2 vs n)
  with assms show ?thesis
    by (auto simp: plain_js_def inherited_array_def element_def split: option.split)
qed (use assms in \<open>auto simp: plain_js_def\<close>)

lemma resolve_plain: "plain_js v \<Longrightarrow> plain_path ts \<Longrightarrow> plain_js (resolve_json_path v ts)"
proof (induction ts arbitrary: v)
  case (Cons t ts)
  have "plain_js (case t of PathField name \<Rightarrow> member_of v name
      | PathIndex i \<Rightarrow> (case v of JsValue (JArr vs) \<Rightarrow> element vs i | _ \<Rightarrow> JsUndefined))"
  proof (cases t)
    case (PathField name)
    with Cons.prems show ?thesis by (auto simp: plain_path_def intro: member_plain)
  next
    case (PathIndex i)
    with Cons.prems(1) show ?thesis
      by (auto simp: plain_js_def element_def split: js_value.splits json.splits)
  qed
  with Cons show ?case by (auto simp: plain_path_def plain_js_def [of JsUndefined])
qed simp

lemma includes_iff: "includes_str s n \<longleftrightarrow> (\<exists>p t. s = p @ n @ t)"
proof (induction s)
  case (Cons c s)
  have "starts_with (c # s) n \<longleftrightarrow> (\<exists>t. c # s = n @ t)"
    by (metis append_take_drop_id starts_with_append starts_with_def)
  then show ?case using Cons
    by (auto simp: Cons_eq_append_conv)
qed auto

lemma observed_plain_equal:
  "plain_js v \<Longrightarrow> json_wf e \<Longrightarrow> plain_keys e \<Longrightarrow>
    observed_equal v e \<longleftrightarrow> (\<exists>w. v = JsValue w \<and> sort_value w = sort_value e)"
  by (cases v) (auto simp: observed_equal_def plain_js_def deep_equal_sorted(1))

lemma assertion_passed_iff:
  assumes "evaluate_assertion a context = Inr r" "plain_assertion a"
    and "\<forall>root. ec_json context = Some root \<longrightarrow> json_wf root \<and> plain_keys root"
  shows "result_passed r \<longleftrightarrow> assertion_holds context a"
proof (cases a)
  case (HttpStatus n)
  with assms(1) show ?thesis
    by (auto simp: evaluate_assertion_def missing_evidence_def result_passed_def assertion_holds_def Let_def
      split: option.splits if_splits)
next
  case (DomContains needle selector ci)
  with assms(1) obtain page where "ec_dom context = Some page"
    by (auto simp: evaluate_assertion_def missing_evidence_def split: option.splits)
  with DomContains assms(1) show ?thesis
    by (auto simp: evaluate_assertion_def result_passed_def assertion_holds_def Let_def includes_iff
      split: if_splits)
next
  case (JsonPathEquals path expected)
  with assms(1) obtain root tokens where j: "ec_json context = Some root" "parse_json_path path = Inr tokens"
    by (auto simp: evaluate_assertion_def missing_evidence_def split: option.splits json.splits sum.splits)
  with assms(2,3) JsonPathEquals have p: "plain_js (JsValue root)" "plain_path tokens" "json_wf expected" "plain_keys expected"
    by (auto simp: plain_js_def plain_assertion_def)
  let ?v = "resolve_json_path (JsValue root) tokens"
  have "observed_equal ?v expected \<longleftrightarrow> (\<exists>w. ?v = JsValue w \<and> sort_value w = sort_value expected)"
    by (rule observed_plain_equal [OF resolve_plain [OF p(1,2)] p(3,4)])
  moreover have "result_passed r \<longleftrightarrow> ?v \<noteq> JsUndefined \<and> observed_equal ?v expected"
    using assms(1) j JsonPathEquals
    by (auto simp: evaluate_assertion_def missing_evidence_def result_passed_def Let_def
      split: json.splits if_splits)
  ultimately show ?thesis using j JsonPathEquals by (auto simp: assertion_holds_def)
qed

text \<open>
  A report passes exactly when every assertion of the postcondition holds of the evidence: the status
  is the expected one, the text occurs in the page, the value at the path is the expected value up to
  the order of keys. (Evidence, expected values and paths without \<open>__proto__\<close>.)
\<close>

theorem report_passed_iff:
  assumes "evaluate_postcondition raw context = Inr report" "parse_spec raw = Inr spec"
    and "\<forall>a \<in> set (sp_assertions spec). plain_assertion a"
    and "\<forall>root. ec_json context = Some root \<longrightarrow> json_wf root \<and> plain_keys root"
  shows "po_passed report \<longleftrightarrow> (\<forall>a \<in> set (sp_assertions spec). assertion_holds context a)"
proof -
  from assms(1,2) obtain rs where
    l: "list_all2 (\<lambda>a r. evaluate_assertion a context = Inr r) (sp_assertions spec) rs"
    and p: "po_passed report = list_all result_passed rs"
    by (auto simp: evaluate_postcondition_def evaluate_assertions_all split: sum.splits)
  have "list_all2 (\<lambda>a r. result_passed r \<longleftrightarrow> assertion_holds context a) (sp_assertions spec) rs"
    using assms(3) by (intro list.rel_mono_strong [OF l] assertion_passed_iff [OF _ _ assms(4)]) auto
  then have "list_all result_passed rs \<longleftrightarrow> list_all (assertion_holds context) (sp_assertions spec)"
    by (induction rule: list_all2_induct) auto
  with p show ?thesis by (simp add: list_all_iff)
qed

lemma report_passed_iff_witness:
  "\<exists>spec. parse_spec demo_postcondition = Inr spec \<and>
    (False \<longleftrightarrow> (\<forall>a \<in> set (sp_assertions spec). assertion_holds demo_context a))"
proof -
  have path: "parse_json_path ''$.token'' = Inr [PathField ''token'']" by code_simp
  let ?s = "\<lparr>sp_assertions = [HttpStatus 200, JsonPathEquals ''$.token'' (JStr ''other'')], sp_metadata = None\<rparr>"
  have s: "parse_spec demo_postcondition = Inr ?s"
    by (simp add: demo_postcondition_def parse_spec_def parse_assertion_array_def parse_assertion_def
        own_member_def om_get_def is_object_def)
  have "po_passed \<lparr>po_passed = False, po_assertions = demo_results, po_metadata = None\<rparr> \<longleftrightarrow>
      (\<forall>a \<in> set (sp_assertions ?s). assertion_holds demo_context a)"
    by (rule report_passed_iff [OF demo_report s])
      (auto simp: plain_assertion_def path plain_path_def proto_key_def demo_context_def)
  with s show ?thesis by auto
qed

end
