(* ===== verification/Actions.thy ===== *)
theory Actions
  imports Json_Value
begin

text \<open>
  The action primitives exchanged between planner and executors (\<open>contracts/src/planner.ts\<close>): the
  kinds, which of them change external state, and the primitive with its arguments, its postcondition
  (\<open>undefined\<close> is \<open>None\<close>) and its idempotency key.
\<close>

datatype action_kind =
    Research | Decide | Llm | Web | Browser | IOS | Android | Desktop | Filesystem | CLI | Http | Mcp | Node
  | Message | Pay | Store | Watch | Confirm

definition requires_postcondition :: "action_kind \<Rightarrow> bool" where
  "requires_postcondition k \<longleftrightarrow> k \<in> set [Web, Browser, IOS, Android, Desktop, Filesystem, CLI, Http, Mcp, Node, Message,
    Pay, Store, Watch]"

record action_primitive =
  at_kind :: action_kind
  at_args :: "(string, json) omap"
  at_postcondition :: "json option"
  at_idempotency_key :: "string option"

fun kind_text :: "action_kind \<Rightarrow> string" where
  "kind_text Research = ''Research''"
| "kind_text Decide = ''Decide''"
| "kind_text Llm = ''Llm''"
| "kind_text Web = ''Web''"
| "kind_text Browser = ''Browser''"
| "kind_text IOS = ''IOS''"
| "kind_text Android = ''Android''"
| "kind_text Desktop = ''Desktop''"
| "kind_text Filesystem = ''Filesystem''"
| "kind_text CLI = ''CLI''"
| "kind_text Http = ''Http''"
| "kind_text Mcp = ''Mcp''"
| "kind_text Node = ''Node''"
| "kind_text Message = ''Message''"
| "kind_text Pay = ''Pay''"
| "kind_text Store = ''Store''"
| "kind_text Watch = ''Watch''"
| "kind_text Confirm = ''Confirm''"

end
