(* ===== verification/Policy_Wildcard.thy ===== *)
theory Policy_Wildcard
  imports Prelude "HOL-Library.While_Combinator"
begin

text \<open>
  \<open>packages/runtime-policy/src/wildcard.ts\<close>: the backtracking matcher that every policy
  domain, tool override and connector override goes through. The loop is kept as a loop
  (\<open>while_option\<close> over the loop's four variables and its early return), shown to stop,
  and compared with the declarative reading of patterns (\<open>glob\<close>).
\<close>

subsection \<open>The loop\<close>

record wm =
  wm_pi :: nat
  wm_si :: nat
  wm_star :: "nat option"
  wm_match :: nat
  wm_failed :: bool

definition wm_start :: wm where
  "wm_start = \<lparr>wm_pi = 0, wm_si = 0, wm_star = None, wm_match = 0, wm_failed = False\<rparr>"

definition wm_continue :: "string \<Rightarrow> wm \<Rightarrow> bool" where
  "wm_continue s st \<longleftrightarrow> \<not> wm_failed st \<and> wm_si st < length s"

definition wm_step :: "string \<Rightarrow> string \<Rightarrow> wm \<Rightarrow> wm" where
  "wm_step p s st =
    (let pc = (if wm_pi st < length p then Some (p ! wm_pi st) else None) in
     if pc = Some (CHR ''?'') \<or> pc = Some (s ! wm_si st)
     then st\<lparr>wm_pi := wm_pi st + 1, wm_si := wm_si st + 1\<rparr>
     else if pc = Some (CHR ''*'')
     then st\<lparr>wm_star := Some (wm_pi st), wm_match := wm_si st, wm_pi := wm_pi st + 1\<rparr>
     else case wm_star st of
       Some star \<Rightarrow>
         st\<lparr>wm_pi := star + 1, wm_match := wm_match st + 1, wm_si := wm_match st + 1\<rparr>
     | None \<Rightarrow> st\<lparr>wm_failed := True\<rparr>)"

definition wm_loop :: "string \<Rightarrow> string \<Rightarrow> wm option" where
  "wm_loop p s = while_option (wm_continue s) (wm_step p s) wm_start"

definition skip_stars :: "string \<Rightarrow> nat \<Rightarrow> nat" where
  "skip_stars p i = i + length (takeWhile (\<lambda>c. c = CHR ''*'') (drop i p))"

definition wildcard_match_opt :: "string \<Rightarrow> string \<Rightarrow> bool option" where
  "wildcard_match_opt p s =
    (if p = s then Some True
     else map_option (\<lambda>st. \<not> wm_failed st \<and> skip_stars p (wm_pi st) = length p)
            (wm_loop p s))"

definition wildcard_match :: "string \<Rightarrow> string \<Rightarrow> bool" where
  "wildcard_match p s = (wildcard_match_opt p s = Some True)"

subsection \<open>The declarative reading\<close>

fun glob :: "string \<Rightarrow> string \<Rightarrow> bool" where
  "glob [] s \<longleftrightarrow> s = []"
| "glob (c # p) s \<longleftrightarrow>
    (if c = CHR ''*'' then glob p s \<or> (case s of [] \<Rightarrow> False | _ # t \<Rightarrow> glob (c # p) t)
     else (case s of [] \<Rightarrow> False | d # t \<Rightarrow> (c = CHR ''?'' \<or> c = d) \<and> glob p t))"

declare glob.simps(2) [simp del]

lemma glob_Cons [simp]:
  "glob (CHR ''*'' # p) [] \<longleftrightarrow> glob p []"
  "glob (CHR ''*'' # p) (d # t) \<longleftrightarrow> glob p (d # t) \<or> glob (CHR ''*'' # p) t"
  "c \<noteq> CHR ''*'' \<Longrightarrow> \<not> glob (c # p) []"
  "c \<noteq> CHR ''*'' \<Longrightarrow> glob (c # p) (d # t) \<longleftrightarrow> (c = CHR ''?'' \<or> c = d) \<and> glob p t"
  by (simp_all add: glob.simps(2))

lemma glob_star_iff: "glob (CHR ''*'' # p) s \<longleftrightarrow> (\<exists>k \<le> length s. glob p (drop k s))"
proof (induction s)
  case Nil
  then show ?case by simp
next
  case (Cons c s)
  have "(\<exists>k \<le> length (c # s). glob p (drop k (c # s))) \<longleftrightarrow>
        glob p (c # s) \<or> (\<exists>k \<le> length s. glob p (drop k s))"
    by (metis (no_types, lifting) Suc_le_mono drop0 drop_Suc_Cons le0 length_Cons not0_implies_Suc)
  with Cons show ?case by simp
qed

lemma glob_refl: "glob s s"
proof (induction s)
  case Nil
  then show ?case by simp
next
  case (Cons c s)
  have "glob (CHR ''*'' # s) s" using Cons by (auto simp: glob_star_iff intro!: exI [of _ 0])
  with Cons show ?case by (cases "c = CHR ''*''") simp_all
qed

lemma glob_star_skip: "glob (CHR ''*'' # p) t \<Longrightarrow> glob (CHR ''*'' # p) (u @ t)"
  by (induction u) simp_all

lemma glob_append: "glob p s \<Longrightarrow> glob q t \<Longrightarrow> glob (p @ q) (s @ t)"
proof (induction p arbitrary: s)
  case Nil
  then show ?case by simp
next
  case (Cons c p)
  show ?case
  proof (cases "c = CHR ''*''")
    case True
    with Cons.prems obtain k where "k \<le> length s" "glob p (drop k s)"
      by (auto simp: glob_star_iff)
    with Cons have "k \<le> length (s @ t)" "glob (p @ q) (drop k (s @ t))" by simp_all
    with True show ?thesis by (simp only: append_Cons glob_star_iff) blast
  next
    case False
    with Cons show ?thesis by (cases s) simp_all
  qed
qed

lemma glob_snoc_char: "glob p s \<Longrightarrow> c = CHR ''?'' \<or> c = d \<Longrightarrow> glob (p @ [c]) (s @ [d])"
  by (rule glob_append) (auto simp: glob.simps(2))

lemma glob_snoc_star: "glob p s \<Longrightarrow> glob (p @ [CHR ''*'']) s"
  using glob_append [of p s "''*''" "[]"] by simp

lemma glob_star_absorb: "glob (p @ [CHR ''*'']) s \<Longrightarrow> glob (p @ [CHR ''*'']) (s @ [d])"
proof (induction p arbitrary: s)
  case Nil
  show ?case by (auto simp: glob_star_iff intro!: exI [of _ "Suc (length s)"])
next
  case (Cons c p)
  show ?case
  proof (cases "c = CHR ''*''")
    case True
    with Cons.prems obtain k where "k \<le> length s" "glob (p @ [CHR ''*'']) (drop k s)"
      by (auto simp: glob_star_iff)
    with Cons.IH [of "drop k s"]
    have "k \<le> length (s @ [d])" "glob (p @ [CHR ''*'']) (drop k (s @ [d]))" by simp_all
    with True show ?thesis by (simp only: append_Cons glob_star_iff) blast
  next
    case False
    with Cons show ?thesis by (cases s) simp_all
  qed
qed

lemma glob_Nil_iff: "glob p [] \<longleftrightarrow> set p \<subseteq> {CHR ''*''}"
proof (induction p)
  case Nil
  then show ?case by simp
next
  case (Cons c p)
  then show ?case by (cases "c = CHR ''*''") simp_all
qed

lemma skip_stars_end: "i \<le> length p \<Longrightarrow> skip_stars p i = length p \<longleftrightarrow> set (drop i p) \<subseteq> {CHR ''*''}"
proof -
  assume "i \<le> length p"
  then have "skip_stars p i = length p \<longleftrightarrow>
      length (takeWhile (\<lambda>c. c = CHR ''*'') (drop i p)) = length (drop i p)"
    by (auto simp: skip_stars_def)
  also have "\<dots> \<longleftrightarrow> takeWhile (\<lambda>c. c = CHR ''*'') (drop i p) = drop i p"
    by (metis takeWhile_eq_take take_all_iff order_refl)
  also have "\<dots> \<longleftrightarrow> set (drop i p) \<subseteq> {CHR ''*''}"
    by (auto simp: takeWhile_eq_all_conv)
  finally show ?thesis .
qed

subsection \<open>The loop stops\<close>

definition wm_bounds :: "string \<Rightarrow> string \<Rightarrow> wm \<Rightarrow> bool" where
  "wm_bounds p s st \<longleftrightarrow>
    wm_pi st \<le> length p \<and> wm_si st \<le> length s \<and> wm_match st \<le> wm_si st \<and>
    (\<forall>i. wm_star st = Some i \<longrightarrow> i < wm_pi st \<and> p ! i = CHR ''*'')"

definition wm_measure :: "string \<Rightarrow> string \<Rightarrow> wm \<Rightarrow> nat" where
  "wm_measure p s st =
    (if wm_failed st then 0
     else Suc ((length s - wm_match st) * (length p + length s + 1)
          + (length p - wm_pi st) + (length s - wm_si st)))"

lemma wm_step_cases [case_names advance star retry fail]:
  assumes "wm_continue s st"
  obtains
    (advance) "wm_pi st < length p" "p ! wm_pi st = CHR ''?'' \<or> p ! wm_pi st = s ! wm_si st"
      "wm_step p s st = st\<lparr>wm_pi := wm_pi st + 1, wm_si := wm_si st + 1\<rparr>"
  | (star) "wm_pi st < length p" "p ! wm_pi st = CHR ''*''" "s ! wm_si st \<noteq> CHR ''*''"
      "wm_step p s st =
        st\<lparr>wm_star := Some (wm_pi st), wm_match := wm_si st, wm_pi := wm_pi st + 1\<rparr>"
  | (retry) i where "wm_star st = Some i"
      "wm_pi st < length p \<longrightarrow> p ! wm_pi st \<noteq> CHR ''?'' \<and>
         p ! wm_pi st \<noteq> s ! wm_si st \<and> p ! wm_pi st \<noteq> CHR ''*''"
      "wm_step p s st =
        st\<lparr>wm_pi := i + 1, wm_match := wm_match st + 1, wm_si := wm_match st + 1\<rparr>"
  | (fail) "wm_star st = None"
      "wm_pi st < length p \<longrightarrow> p ! wm_pi st \<noteq> CHR ''?'' \<and>
         p ! wm_pi st \<noteq> s ! wm_si st \<and> p ! wm_pi st \<noteq> CHR ''*''"
      "wm_step p s st = st\<lparr>wm_failed := True\<rparr>"
proof (cases "wm_pi st < length p \<and> (p ! wm_pi st = CHR ''?'' \<or> p ! wm_pi st = s ! wm_si st)")
  case True
  then show thesis by (intro advance) (auto simp: wm_step_def)
next
  case no: False
  show thesis
  proof (cases "wm_pi st < length p \<and> p ! wm_pi st = CHR ''*''")
    case True
    with no show thesis by (intro star) (auto simp: wm_step_def)
  next
    case False
    with no show thesis
      by (cases "wm_star st") (rule fail retry; auto simp: wm_step_def)+
  qed
qed

lemma wm_bounds_step:
  assumes "wm_continue s st" "wm_bounds p s st"
  shows "wm_bounds p s (wm_step p s st)"
  using assms(1)
proof (cases rule: wm_step_cases [where p = p])
  case advance
  with assms show ?thesis by (auto simp: wm_bounds_def wm_continue_def)
next
  case star
  with assms show ?thesis by (auto simp: wm_bounds_def wm_continue_def)
next
  case (retry i)
  with assms show ?thesis by (auto simp: wm_bounds_def wm_continue_def)
next
  case fail
  with assms show ?thesis by (auto simp: wm_bounds_def)
qed

lemma wm_measure_step:
  assumes "wm_continue s st" "wm_bounds p s st"
  shows "wm_measure p s (wm_step p s st) < wm_measure p s st"
  using assms(1)
proof (cases rule: wm_step_cases [where p = p])
  case advance
  with assms show ?thesis by (auto simp: wm_measure_def wm_bounds_def wm_continue_def)
next
  case star
  have "(length s - wm_si st) * (length p + length s + 1)
      \<le> (length s - wm_match st) * (length p + length s + 1)"
    using assms(2) by (intro mult_le_mono1) (auto simp: wm_bounds_def)
  with star assms show ?thesis by (auto simp: wm_measure_def wm_bounds_def wm_continue_def)
next
  case (retry i)
  have m: "wm_match st < length s" and i: "i < length p"
    using assms retry by (auto simp: wm_bounds_def wm_continue_def)
  then obtain d where d: "length s - wm_match st = Suc d" by (metis Suc_diff_Suc)
  then have "length s - (wm_match st + 1) = d" by simp
  with d m i retry assms show ?thesis by (auto simp: wm_measure_def wm_continue_def)
next
  case fail
  with assms show ?thesis by (auto simp: wm_measure_def wm_continue_def)
qed

lemma wm_bounds_start: "wm_bounds p s wm_start"
  by (simp add: wm_bounds_def wm_start_def)

lemma wm_loop_stops: "\<exists>st. wm_loop p s = Some st"
  unfolding wm_loop_def
  by (rule measure_while_option_Some [where P = "wm_bounds p s" and f = "wm_measure p s"])
    (auto simp: wm_bounds_step wm_measure_step wm_bounds_start)

lemma wm_loop_rule:
  assumes "wm_loop p s = Some st"
    and "I wm_start"
    and "\<And>t. wm_continue s t \<Longrightarrow> wm_bounds p s t \<Longrightarrow> I t \<Longrightarrow> I (wm_step p s t)"
  shows "I st \<and> wm_bounds p s st \<and> \<not> wm_continue s st"
proof -
  have "wm_bounds p s st \<and> I st"
    using assms(1) unfolding wm_loop_def
    by (rule while_option_rule [rotated]) (auto simp: wm_bounds_step wm_bounds_start assms(2,3))
  moreover have "\<not> wm_continue s st"
    using assms(1) unfolding wm_loop_def by (rule while_option_stop)
  ultimately show ?thesis by simp
qed

subsection \<open>A reported match is a match\<close>

definition wm_sound :: "string \<Rightarrow> string \<Rightarrow> wm \<Rightarrow> bool" where
  "wm_sound p s st \<longleftrightarrow>
    glob (take (wm_pi st) p) (take (wm_si st) s) \<and>
    (\<forall>i. wm_star st = Some i \<longrightarrow> glob (take (Suc i) p) (take (wm_match st) s))"

lemma wm_sound_step:
  assumes c: "wm_continue s st" and b: "wm_bounds p s st" and i: "wm_sound p s st"
  shows "wm_sound p s (wm_step p s st)"
  using c
proof (cases rule: wm_step_cases [where p = p])
  case advance
  have "glob (take (wm_pi st) p @ [p ! wm_pi st]) (take (wm_si st) s @ [s ! wm_si st])"
    using i advance(2) by (intro glob_snoc_char) (auto simp: wm_sound_def)
  with advance c i show ?thesis
    by (simp add: wm_sound_def wm_continue_def take_Suc_conv_app_nth)
next
  case star
  have "glob (take (wm_pi st) p @ [CHR ''*'']) (take (wm_si st) s)"
    using i by (intro glob_snoc_star) (simp add: wm_sound_def)
  with star show ?thesis by (simp add: wm_sound_def take_Suc_conv_app_nth)
next
  case (retry j)
  have j: "j < length p" "p ! j = CHR ''*''" and m: "wm_match st < length s"
    using b retry(1) c by (auto simp: wm_bounds_def wm_continue_def)
  have "glob (take j p @ [CHR ''*'']) (take (wm_match st) s)"
    using i retry(1) j by (simp add: wm_sound_def take_Suc_conv_app_nth)
  then have "glob (take (Suc j) p) (take (Suc (wm_match st)) s)"
    using j m glob_star_absorb by (simp add: take_Suc_conv_app_nth)
  with retry show ?thesis by (simp add: wm_sound_def)
next
  case fail
  with i show ?thesis by (simp add: wm_sound_def)
qed

lemma wildcard_sound: "wildcard_match p s \<Longrightarrow> glob p s"
proof (cases "p = s")
  case True
  then show ?thesis by (simp add: glob_refl)
next
  case False
  assume "wildcard_match p s"
  with False obtain st where st: "wm_loop p s = Some st" and nf: "\<not> wm_failed st"
    and e: "skip_stars p (wm_pi st) = length p"
    by (auto simp: wildcard_match_def wildcard_match_opt_def)
  have "wm_sound p s st \<and> wm_bounds p s st \<and> \<not> wm_continue s st"
    using st by (rule wm_loop_rule) (auto simp: wm_sound_step, simp add: wm_sound_def wm_start_def)
  with nf e have "glob (take (wm_pi st) p) s" "glob (drop (wm_pi st) p) []"
    by (auto simp: wm_sound_def wm_continue_def wm_bounds_def skip_stars_end glob_Nil_iff)
  from glob_append [OF this] show ?thesis by simp
qed

subsection \<open>Star-free inputs: every match is reported\<close>

lemma glob_star_back:
  assumes "glob (CHR ''*'' # r) (drop j s)" "i \<le> j"
  shows "glob (CHR ''*'' # r) (drop i s)"
proof -
  have "drop i s = take (j - i) (drop i s) @ drop j s"
    using assms(2) by (metis append_take_drop_id drop_drop le_add_diff_inverse2)
  with glob_star_skip [OF assms(1)] show ?thesis by metis
qed

lemma glob_segment:
  "CHR ''*'' \<notin> set q \<Longrightarrow> glob (q @ r) t \<Longrightarrow> glob r (drop (length q) t)"
proof (induction q arbitrary: t)
  case Nil
  then show ?case by simp
next
  case (Cons c q)
  then show ?case by (cases t) auto
qed

lemma glob_star_segment:
  assumes "glob (CHR ''*'' # q @ r) (drop m s)" "CHR ''*'' \<notin> set q"
  obtains k where "m \<le> k" "glob (q @ r) (drop k s)" "glob r (drop (k + length q) s)"
proof -
  from assms(1) obtain k where k: "glob (q @ r) (drop k (drop m s))"
    by (auto simp only: glob_star_iff)
  then have "glob (q @ r) (drop (m + k) s)" by (simp add: add.commute)
  moreover have "glob r (drop (m + k + length q) s)"
    using glob_segment [OF assms(2) calculation] by (simp add: add.commute add.left_commute)
  ultimately show thesis by (intro that [of "m + k"]) auto
qed

definition wm_segment :: "string \<Rightarrow> nat \<Rightarrow> nat \<Rightarrow> string" where
  "wm_segment p i j = drop (Suc i) (take j p)"

lemma wm_segment_split:
  assumes "i < j" "j \<le> length p"
  shows "drop i p = p ! i # wm_segment p i j @ drop j p"
proof -
  have "drop i p = p ! i # drop (Suc i) p"
    using assms by (simp add: Cons_nth_drop_Suc)
  also have "drop (Suc i) p = wm_segment p i j @ drop j p"
    using drop_append [of "Suc i" "take j p" "drop j p"] assms by (simp add: wm_segment_def)
  finally show ?thesis .
qed

lemma length_wm_segment: "j \<le> length p \<Longrightarrow> length (wm_segment p i j) = j - Suc i"
  by (simp add: wm_segment_def)

lemma set_wm_segment_Suc:
  "i < j \<Longrightarrow> j < length p \<Longrightarrow> set (wm_segment p i (Suc j)) = insert (p ! j) (set (wm_segment p i j))"
  by (simp add: wm_segment_def take_Suc_conv_app_nth)

definition wm_complete :: "string \<Rightarrow> string \<Rightarrow> wm \<Rightarrow> bool" where
  "wm_complete p s st \<longleftrightarrow> \<not> wm_failed st \<and>
    (case wm_star st of
       None \<Rightarrow> glob (drop (wm_pi st) p) (drop (wm_si st) s)
     | Some i \<Rightarrow> glob (drop i p) (drop (wm_match st) s) \<and>
         wm_si st = wm_match st + (wm_pi st - Suc i) \<and>
         CHR ''*'' \<notin> set (wm_segment p i (wm_pi st)))"

lemma glob_mismatch:
  assumes "glob (drop j p) (drop i s)" "i < length s"
    and "j < length p \<longrightarrow> p ! j \<noteq> CHR ''?'' \<and> p ! j \<noteq> s ! i \<and> p ! j \<noteq> CHR ''*''"
  shows False
proof (cases "j < length p")
  case True
  then have "drop j p = p ! j # drop (Suc j) p" "drop i s = s ! i # drop (Suc i) s"
    using assms(2) by (simp_all add: Cons_nth_drop_Suc)
  with True assms show ?thesis by simp
next
  case False
  with assms show ?thesis by simp
qed

lemma wm_complete_step:
  assumes star_free: "CHR ''*'' \<notin> set s"
    and c: "wm_continue s st" and b: "wm_bounds p s st" and i: "wm_complete p s st"
  shows "wm_complete p s (wm_step p s st)"
  using c
proof (cases rule: wm_step_cases [where p = p])
  case advance
  have lt: "wm_si st < length s" using c by (simp add: wm_continue_def)
  then have ns: "p ! wm_pi st \<noteq> CHR ''*''" using star_free advance(2) by (auto simp: in_set_conv_nth)
  show ?thesis
  proof (cases "wm_star st")
    case None
    have "drop (wm_pi st) p = p ! wm_pi st # drop (Suc (wm_pi st)) p"
      "drop (wm_si st) s = s ! wm_si st # drop (Suc (wm_si st)) s"
      using advance(1) lt by (simp_all add: Cons_nth_drop_Suc)
    with None i ns show ?thesis by (simp add: advance(3) wm_complete_def)
  next
    case (Some j)
    with b have "j < wm_pi st" by (simp add: wm_bounds_def)
    with Some i ns advance(1) show ?thesis
      by (auto simp: advance(3) wm_complete_def set_wm_segment_Suc Suc_diff_le)
  qed
next
  case star
  have split: "drop (wm_pi st) p = CHR ''*'' # drop (Suc (wm_pi st)) p"
    using star by (simp add: Cons_nth_drop_Suc [symmetric])
  have "glob (drop (wm_pi st) p) (drop (wm_si st) s)"
  proof (cases "wm_star st")
    case None
    with i show ?thesis by (simp add: wm_complete_def)
  next
    case (Some j)
    let ?q = "wm_segment p j (wm_pi st)"
    have j: "j < wm_pi st" "p ! j = CHR ''*''" "wm_pi st \<le> length p"
      using b Some by (auto simp: wm_bounds_def)
    with i Some have "glob (CHR ''*'' # ?q @ drop (wm_pi st) p) (drop (wm_match st) s)"
      "CHR ''*'' \<notin> set ?q"
      by (auto simp: wm_complete_def wm_segment_split [of j "wm_pi st" p])
    then obtain k where "wm_match st \<le> k" "glob (drop (wm_pi st) p) (drop (k + length ?q) s)"
      by (rule glob_star_segment)
    moreover have "wm_si st = wm_match st + length ?q"
      using i Some j by (simp add: wm_complete_def length_wm_segment)
    ultimately show ?thesis unfolding split by (auto intro: glob_star_back)
  qed
  with i show ?thesis
    by (simp add: star(4) wm_complete_def wm_segment_def)
next
  case (retry j)
  let ?q = "wm_segment p j (wm_pi st)"
  have j: "j < wm_pi st" "p ! j = CHR ''*''" "wm_pi st \<le> length p"
    using b retry(1) by (auto simp: wm_bounds_def)
  have g: "glob (CHR ''*'' # ?q @ drop (wm_pi st) p) (drop (wm_match st) s)"
      and q: "CHR ''*'' \<notin> set ?q" and si: "wm_si st = wm_match st + length ?q"
    using i retry(1) j by (auto simp: wm_complete_def wm_segment_split [of j "wm_pi st" p] length_wm_segment)
  from g q obtain k where k: "wm_match st \<le> k" "glob (?q @ drop (wm_pi st) p) (drop k s)"
      "glob (drop (wm_pi st) p) (drop (k + length ?q) s)"
    by (rule glob_star_segment)
  have "k \<noteq> wm_match st"
    using glob_mismatch [of "wm_pi st" p "wm_si st" s] k(3) retry(2) c si
    by (auto simp: wm_continue_def)
  with k(1) have "Suc (wm_match st) \<le> k" by simp
  moreover have "glob (CHR ''*'' # ?q @ drop (wm_pi st) p) (drop k s)"
    using k(2) by (cases "drop k s") auto
  ultimately have "glob (drop j p) (drop (Suc (wm_match st)) s)"
    using j by (simp add: wm_segment_split [of j "wm_pi st" p] glob_star_back)
  with i retry show ?thesis by (simp add: wm_complete_def wm_segment_def)
next
  case fail
  have "glob (drop (wm_pi st) p) (drop (wm_si st) s)"
    using i fail(1) by (simp add: wm_complete_def)
  then have False using glob_mismatch c fail(2) by (auto simp: wm_continue_def)
  then show ?thesis ..
qed

lemma wildcard_complete:
  assumes star_free: "CHR ''*'' \<notin> set s" and g: "glob p s"
  shows "wildcard_match p s"
proof (cases "p = s")
  case True
  then show ?thesis by (simp add: wildcard_match_def wildcard_match_opt_def)
next
  case False
  obtain st where st: "wm_loop p s = Some st" using wm_loop_stops by blast
  have "wm_complete p s st \<and> wm_bounds p s st \<and> \<not> wm_continue s st"
    using st by (rule wm_loop_rule)
      (auto simp: wm_complete_step [OF star_free], simp add: wm_complete_def wm_start_def g)
  then have cm: "wm_complete p s st" and b: "wm_bounds p s st" and e: "wm_si st = length s"
    by (auto simp: wm_continue_def wm_complete_def wm_bounds_def)
  have "glob (drop (wm_pi st) p) []"
  proof (cases "wm_star st")
    case None
    with cm e show ?thesis by (simp add: wm_complete_def)
  next
    case (Some j)
    let ?q = "wm_segment p j (wm_pi st)"
    have j: "j < wm_pi st" "p ! j = CHR ''*''" "wm_pi st \<le> length p"
      using b Some by (auto simp: wm_bounds_def)
    with cm Some have gl: "glob (CHR ''*'' # ?q @ drop (wm_pi st) p) (drop (wm_match st) s)"
      and ns: "CHR ''*'' \<notin> set ?q" and q: "length s = wm_match st + length ?q"
      using e by (auto simp: wm_complete_def wm_segment_split [of j "wm_pi st" p] length_wm_segment)
    from gl ns obtain k where "wm_match st \<le> k" "glob (drop (wm_pi st) p) (drop (k + length ?q) s)"
      by (rule glob_star_segment)
    with q show ?thesis by simp
  qed
  with cm b st False show ?thesis
    by (simp add: wildcard_match_def wildcard_match_opt_def wm_complete_def wm_bounds_def
        skip_stars_end glob_Nil_iff)
qed

subsection \<open>Properties\<close>

text \<open>
  Every pattern is matched in finitely many steps: the loop of \<open>wildcardMatch\<close> stops on
  every pattern and input, so the function always returns a boolean.
\<close>

theorem wildcard_match_returns: "\<exists>b. wildcard_match_opt p s = Some b"
  using wm_loop_stops by (auto simp: wildcard_match_opt_def)

text \<open>
  C5. On inputs without the character \<open>*\<close> the backtracking matcher decides exactly the
  declarative meaning of wildcard patterns.
\<close>

theorem wildcard_match_iff_glob:
  assumes "CHR ''*'' \<notin> set s"
  shows "wildcard_match p s \<longleftrightarrow> glob p s"
  using wildcard_sound wildcard_complete [OF assms] by blast

theorem wildcard_match_iff_glob_witness:
  "CHR ''*'' \<notin> set ''abXYZcd'' \<and> wildcard_match ''ab*cd'' ''abXYZcd''"
proof -
  have "CHR ''*'' \<notin> set ''abXYZcd''" by simp
  from wildcard_match_iff_glob [OF this, of "''ab*cd''"] show ?thesis by simp
qed

text \<open>
  A \<open>*\<close> in the input can be consumed as a literal, after which no backtracking point
  exists: the pattern \<open>rm *\<close> does not match \<open>rm *.txt\<close>, although \<open>*\<close> stands for any text.
\<close>

theorem wildcard_match_misses_literal_star:
  "glob ''rm *'' ''rm *.txt'' \<and> wildcard_match_opt ''rm *'' ''rm *.txt'' = Some False"
proof
  show "glob ''rm *'' ''rm *.txt''" by simp
  show "wildcard_match_opt ''rm *'' ''rm *.txt'' = Some False"
    by (simp add: wildcard_match_opt_def wm_loop_def wm_start_def while_option_unfold
        wm_continue_def wm_step_def skip_stars_def)
qed

end
