(* ===== verification/Policy_Domain.thy ===== *)
theory Policy_Domain
  imports Policy_Wildcard
begin

text \<open>
  \<open>packages/runtime-policy/src/domain.ts\<close> and \<open>contracts/src/policy.ts\<close>: the decision
  vocabulary, the most-restrictive combination, policy domains and their evaluation.
  The order \<open>Allow < RequireApproval < Deny\<close> makes the combination the maximum.
\<close>

subsection \<open>Decisions\<close>

datatype decision = Allow | RequireApproval | Deny

definition most_restrictive_decision :: "decision \<Rightarrow> decision \<Rightarrow> decision" where
  "most_restrictive_decision a b =
    (if a = Deny \<or> b = Deny then Deny
     else if a = RequireApproval \<or> b = RequireApproval then RequireApproval
     else Allow)"

fun decision_rank :: "decision \<Rightarrow> nat" where
  "decision_rank Allow = 0"
| "decision_rank RequireApproval = 1"
| "decision_rank Deny = 2"

lemma decision_rank_inject [simp]: "decision_rank a = decision_rank b \<longleftrightarrow> a = b"
  by (cases a; cases b) auto

instantiation decision :: linorder
begin

definition less_eq_decision :: "decision \<Rightarrow> decision \<Rightarrow> bool" where
  "less_eq_decision a b \<longleftrightarrow> decision_rank a \<le> decision_rank b"

definition less_decision :: "decision \<Rightarrow> decision \<Rightarrow> bool" where
  "less_decision a b \<longleftrightarrow> decision_rank a < decision_rank b"

instance
  by standard (auto simp: less_eq_decision_def less_decision_def)

end

lemma decision_order [simp]:
  "Allow \<le> d" "d \<le> Deny" "d \<le> Allow \<longleftrightarrow> d = Allow" "Deny \<le> d \<longleftrightarrow> d = Deny"
  "RequireApproval \<le> d \<longleftrightarrow> d \<noteq> Allow" "d \<le> RequireApproval \<longleftrightarrow> d \<noteq> Deny"
  by (cases d; simp add: less_eq_decision_def)+

lemma most_restrictive_max: "most_restrictive_decision a b = max a b"
  by (cases a; cases b) (auto simp: most_restrictive_decision_def max_def less_eq_decision_def)

text \<open>
  The interface of a conservative combination of verdicts: a join with a neutral verdict.
  Every loop of the policy code that accumulates a verdict is a fold of such a join.
\<close>

locale verdict_join =
  fixes join :: "'d::linorder \<Rightarrow> 'd \<Rightarrow> 'd" and neutral :: 'd
  assumes join_max: "join a b = max a b"
    and neutral_least: "neutral \<le> a"
begin

lemma foldl_ge_acc: "a \<le> foldl join a xs"
  by (induction xs arbitrary: a) (auto simp: join_max intro: order_trans [OF max.cobounded1])

lemma foldl_ge_member: "x \<in> set xs \<Longrightarrow> x \<le> foldl join a xs"
proof (induction xs arbitrary: a)
  case Nil
  then show ?case by simp
next
  case (Cons y ys)
  have "y \<le> foldl join (join a y) ys"
    by (metis foldl_ge_acc join_max max.cobounded2 order_trans)
  with Cons show ?case by auto
qed

lemma foldl_reached: "foldl join a xs = a \<or> foldl join a xs \<in> set xs"
proof (induction xs arbitrary: a)
  case Nil
  then show ?case by simp
next
  case (Cons y ys)
  from Cons [of "join a y"] show ?case by (auto simp: join_max max_def split: if_splits)
qed

lemma foldl_le_iff: "foldl join a xs \<le> b \<longleftrightarrow> a \<le> b \<and> (\<forall>x \<in> set xs. x \<le> b)"
  by (induction xs arbitrary: a) (auto simp: join_max)

lemma foldl_neutral_iff: "foldl join neutral xs = neutral \<longleftrightarrow> (\<forall>x \<in> set xs. x = neutral)"
  using foldl_le_iff [of neutral xs neutral] neutral_least by (metis order_antisym order_refl)

end

interpretation restrict: verdict_join most_restrictive_decision Allow
  by unfold_locales (simp_all add: most_restrictive_max)

subsection \<open>Domains\<close>

record raw_domain =
  rd_default :: "decision option"
  rd_allow :: "string list"
  rd_require_approval :: "string list"
  rd_deny :: "string list"

record policy_domain =
  pd_default :: decision
  pd_allow :: "string list"
  pd_require_approval :: "string list"
  pd_deny :: "string list"

definition normalize_domain :: "raw_domain option \<Rightarrow> decision \<Rightarrow> policy_domain" where
  "normalize_domain v fallback =
    (case v of
       None \<Rightarrow> \<lparr>pd_default = fallback, pd_allow = [], pd_require_approval = [], pd_deny = []\<rparr>
     | Some d \<Rightarrow>
         \<lparr>pd_default = (case rd_default d of None \<Rightarrow> fallback | Some x \<Rightarrow> x),
          pd_allow = rd_allow d,
          pd_require_approval = rd_require_approval d,
          pd_deny = rd_deny d\<rparr>)"

definition matches_any :: "string list \<Rightarrow> string \<Rightarrow> bool" where
  "matches_any ps t \<longleftrightarrow> list_ex (\<lambda>p. wildcard_match p t) ps"

text \<open>The explicit rules alone: \<open>None\<close> when no pattern matches.\<close>

definition evaluate_tool_decision_override :: "policy_domain \<Rightarrow> string \<Rightarrow> decision option" where
  "evaluate_tool_decision_override d match_target =
    (let target = trim match_target in
     if matches_any (pd_deny d) target then Some Deny
     else if matches_any (pd_require_approval d) target then Some RequireApproval
     else if matches_any (pd_allow d) target then Some Allow
     else None)"

definition evaluate_domain :: "policy_domain \<Rightarrow> string \<Rightarrow> decision" where
  "evaluate_domain d match_target =
    (let target = trim match_target in
     if matches_any (pd_deny d) target then Deny
     else if matches_any (pd_require_approval d) target then RequireApproval
     else if matches_any (pd_allow d) target then Allow
     else pd_default d)"

lemma matches_any_iff: "matches_any ps t \<longleftrightarrow> (\<exists>p \<in> set ps. wildcard_match p t)"
  by (simp add: matches_any_def list_ex_iff)

lemma evaluate_domain_explicit:
  "evaluate_domain d t =
    (case evaluate_tool_decision_override d t of None \<Rightarrow> pd_default d | Some x \<Rightarrow> x)"
  by (simp add: evaluate_domain_def evaluate_tool_decision_override_def Let_def)

lemma explicit_mono:
  assumes "set (pd_deny d) \<subseteq> set (pd_deny e)"
    and "set (pd_require_approval d) \<subseteq> set (pd_require_approval e)"
    and "set (pd_allow d) \<subseteq> set (pd_allow e)"
    and "evaluate_tool_decision_override d t = Some x"
  shows "\<exists>y. evaluate_tool_decision_override e t = Some y \<and> x \<le> y"
proof -
  have m: "matches_any (pd_deny d) u \<Longrightarrow> matches_any (pd_deny e) u"
    "matches_any (pd_require_approval d) u \<Longrightarrow> matches_any (pd_require_approval e) u"
    "matches_any (pd_allow d) u \<Longrightarrow> matches_any (pd_allow e) u" for u
    using assms(1-3) by (auto simp: matches_any_iff)
  show ?thesis
    using assms(4) m [of "trim t"]
    by (auto simp: evaluate_tool_decision_override_def Let_def split: if_splits)
qed

text \<open>
  \<open>normalizeUrlForPolicy\<close>: the WHATWG parser behind \<open>new URL\<close> is a parameter that yields
  protocol, host and path, or nothing where the constructor throws.
\<close>

type_synonym url_parser = "string \<Rightarrow> (string \<times> string \<times> string) option"

definition normalize_url_for_policy :: "url_parser \<Rightarrow> string \<Rightarrow> string" where
  "normalize_url_for_policy url_parse raw =
    (let trimmed = trim raw in
     if trimmed = [] then []
     else case url_parse trimmed of
       Some (protocol, host, pathname) \<Rightarrow>
         protocol @ ''//'' @ host @ (if pathname = [] then ''/'' else pathname)
     | None \<Rightarrow>
         (case index_of (CHR ''?'') trimmed of
            None \<Rightarrow> trimmed
          | Some i \<Rightarrow> take i trimmed))"

lemma take_index_of: "index_of c s = Some i \<Longrightarrow> c \<notin> set (take i s)"
  by (induction s arbitrary: i) (auto split: if_splits)

end
