(* ===== verification/Policy_Tool_Id.thy ===== *)
theory Policy_Tool_Id
  imports Policy_Domain
begin

text \<open>
  Tool identifiers: \<open>contracts/src/tool-id.ts\<close> (canonical names of legacy tools),
  \<open>runtime-policy/src/tool-id-rollout.ts\<close> (matching across the memory-tool rename),
  \<open>override-guardrails.ts\<close> and \<open>suggested-overrides.ts\<close> (which override patterns the
  approval prompt may suggest).
\<close>

subsection \<open>Canonical tool ids\<close>

definition legacy_tool_id_map :: "(string \<times> string) list" where
  "legacy_tool_id_map =
    [(''tool.fs.read'', ''read''), (''tool.fs.write'', ''write''), (''tool.exec'', ''bash''),
     (''tool.http.fetch'', ''webfetch''), (''mcp.memory.seed'', ''memory.seed''),
     (''mcp.memory.search'', ''memory.search''), (''mcp.memory.write'', ''memory.write'')]"

definition legacy_tool_id_list_map :: "(string \<times> string list) list" where
  "legacy_tool_id_list_map =
    [(''tool.*'', [''*'']),
     (''tool.fs.*'', [''read'', ''write'', ''edit'', ''apply_patch'', ''glob'', ''grep''])]"

definition canonicalize_tool_id :: "string \<Rightarrow> string" where
  "canonicalize_tool_id tool_id =
    (let normalized = trim tool_id in
     case map_of legacy_tool_id_map normalized of Some c \<Rightarrow> c | None \<Rightarrow> normalized)"

definition expand_tool_id :: "string \<Rightarrow> string list" where
  "expand_tool_id normalized =
    (case map_of legacy_tool_id_list_map normalized of
       Some l \<Rightarrow> l | None \<Rightarrow> [canonicalize_tool_id normalized])"

definition canonicalize_tool_id_list :: "string list \<Rightarrow> string list" where
  "canonicalize_tool_id_list tool_ids =
    foldl (\<lambda>result raw.
      let normalized = trim raw in
      if normalized = [] then result
      else foldl add_unique result (expand_tool_id normalized)) [] tool_ids"

definition normalize_string_id_list :: "string list \<Rightarrow> string list" where
  "normalize_string_id_list tool_ids =
    foldl (\<lambda>result raw. let normalized = trim raw in
      if normalized = [] then result else add_unique result normalized) [] tool_ids"

definition canonicalize_exact_tool_id_list :: "string list \<Rightarrow> string list" where
  "canonicalize_exact_tool_id_list tool_ids =
    foldl (\<lambda>result raw. let tool_id = canonicalize_tool_id raw in
      if tool_id = [] \<or> tool_id \<in> set result then result else result @ [tool_id]) [] tool_ids"

lemma canonicalize_unlisted:
  "map_of legacy_tool_id_map (trim t) = None \<Longrightarrow> canonicalize_tool_id t = trim t"
  by (simp add: canonicalize_tool_id_def)

lemma canonicalize_listed:
  "map_of legacy_tool_id_map (trim t) = Some c \<Longrightarrow> canonicalize_tool_id t = c"
  by (simp add: canonicalize_tool_id_def)

lemma canonicalize_cases:
  "canonicalize_tool_id t = trim t \<and> trim t \<notin> fst ` set legacy_tool_id_map \<or>
   (trim t, canonicalize_tool_id t) \<in> set legacy_tool_id_map"
proof (cases "map_of legacy_tool_id_map (trim t)")
  case None
  then show ?thesis
    using canonicalize_unlisted [OF None] by (simp add: map_of_eq_None_iff)
next
  case (Some c)
  then show ?thesis using canonicalize_listed [OF Some] map_of_SomeD [OF Some] by simp
qed

text \<open>The two tables, evaluated: their targets are canonical, trimmed and not empty.\<close>

definition settled_tool_id :: "string \<Rightarrow> bool" where
  "settled_tool_id x \<longleftrightarrow>
    canonicalize_tool_id x = x \<and> expand_tool_id x = [x] \<and> trim x = x \<and> x \<noteq> []"

lemma legacy_targets_settled:
  "list_all (\<lambda>e. settled_tool_id (snd e)) legacy_tool_id_map"
  "list_all (\<lambda>e. list_all settled_tool_id (snd e)) legacy_tool_id_list_map"
  by code_simp+

lemma legacy_target_settled: "(k, v) \<in> set legacy_tool_id_map \<Longrightarrow> settled_tool_id v"
  using legacy_targets_settled(1) by (auto simp: list_all_iff)

lemma legacy_list_target_settled:
  "(k, l) \<in> set legacy_tool_id_list_map \<Longrightarrow> x \<in> set l \<Longrightarrow> settled_tool_id x"
  using legacy_targets_settled(2) by (auto simp: list_all_iff)

lemma canonicalize_idem: "canonicalize_tool_id (canonicalize_tool_id t) = canonicalize_tool_id t"
  using canonicalize_cases [of t]
proof
  assume "canonicalize_tool_id t = trim t \<and> trim t \<notin> fst ` set legacy_tool_id_map"
  then show ?thesis using canonicalize_unlisted [of "trim t"] by (simp add: map_of_eq_None_iff)
next
  assume "(trim t, canonicalize_tool_id t) \<in> set legacy_tool_id_map"
  then show ?thesis using legacy_target_settled by (auto simp: settled_tool_id_def)
qed

lemma expand_settled:
  assumes "x \<in> set (expand_tool_id n)" "trim n = n" "n \<noteq> []"
  shows "settled_tool_id x"
proof (cases "map_of legacy_tool_id_list_map n")
  case (Some l)
  then have "x \<in> set l" using assms by (simp add: expand_tool_id_def)
  with map_of_SomeD [OF Some] show ?thesis by (rule legacy_list_target_settled)
next
  case None
  then have x: "x = canonicalize_tool_id n" using assms by (simp add: expand_tool_id_def)
  show ?thesis
    using canonicalize_cases [of n]
  proof
    assume "canonicalize_tool_id n = trim n \<and> trim n \<notin> fst ` set legacy_tool_id_map"
    with None x assms show ?thesis by (simp add: settled_tool_id_def expand_tool_id_def)
  next
    assume "(trim n, canonicalize_tool_id n) \<in> set legacy_tool_id_map"
    with x show ?thesis using legacy_target_settled by blast
  qed
qed

lemma set_canonicalize_tool_id_list:
  "set (canonicalize_tool_id_list xs) =
    (\<Union>x \<in> set xs. if trim x = [] then {} else set (expand_tool_id (trim x)))"
proof -
  have "set (foldl (\<lambda>result raw.
      let normalized = trim raw in
      if normalized = [] then result
      else foldl add_unique result (expand_tool_id normalized)) acc xs) =
    set acc \<union> (\<Union>x \<in> set xs. if trim x = [] then {} else set (expand_tool_id (trim x)))" for acc
    by (induction xs arbitrary: acc) (auto simp: Let_def)
  from this [of "[]"] show ?thesis by (simp add: canonicalize_tool_id_list_def)
qed

lemma distinct_canonicalize_tool_id_list: "distinct (canonicalize_tool_id_list xs)"
proof -
  have "distinct acc \<Longrightarrow> distinct (foldl (\<lambda>result raw.
      let normalized = trim raw in
      if normalized = [] then result
      else foldl add_unique result (expand_tool_id normalized)) acc xs)" for acc
    by (induction xs arbitrary: acc) (auto simp: Let_def distinct_foldl_add_unique)
  then show ?thesis by (simp add: canonicalize_tool_id_list_def)
qed

lemma foldl_add_unique_fixed:
  "distinct (acc @ xs) \<Longrightarrow> foldl add_unique acc xs = acc @ xs"
  by (induction xs arbitrary: acc) (auto simp: add_unique_def)

lemma canonicalize_list_fixed:
  assumes "distinct (acc @ xs)" "\<forall>x \<in> set xs. settled_tool_id x"
  shows "foldl (\<lambda>result raw.
      let normalized = trim raw in
      if normalized = [] then result
      else foldl add_unique result (expand_tool_id normalized)) acc xs = acc @ xs"
  using assms
  by (induction xs arbitrary: acc) (auto simp: Let_def add_unique_def settled_tool_id_def)

text \<open>
  Canonicalising a list of tool ids is idempotent: parsing an already parsed policy bundle
  leaves its tool lists unchanged (legacy names and legacy wildcards expand only once).
\<close>

theorem canonicalize_tool_id_list_idem:
  "canonicalize_tool_id_list (canonicalize_tool_id_list xs) = canonicalize_tool_id_list xs"
proof -
  have "\<forall>x \<in> set (canonicalize_tool_id_list xs). settled_tool_id x"
    by (auto simp: set_canonicalize_tool_id_list intro: expand_settled split: if_splits)
  with distinct_canonicalize_tool_id_list [of xs]
  have "foldl (\<lambda>result raw.
      let normalized = trim raw in
      if normalized = [] then result
      else foldl add_unique result (expand_tool_id normalized)) [] (canonicalize_tool_id_list xs) =
      [] @ canonicalize_tool_id_list xs"
    by (intro canonicalize_list_fixed) auto
  then show ?thesis by (simp add: canonicalize_tool_id_list_def)
qed

subsection \<open>Matching across the memory tool rename\<close>

definition memory_tool_verbs :: "string list" where
  "memory_tool_verbs = [''seed'', ''search'', ''write'']"

definition legacy_memory_prefix :: string where "legacy_memory_prefix = ''mcp.memory.''"
definition canonical_memory_prefix :: string where "canonical_memory_prefix = ''memory.''"

definition extract_memory_tool_verb :: "string \<Rightarrow> string option" where
  "extract_memory_tool_verb tool_id =
    (let normalized = trim tool_id in
     if starts_with normalized legacy_memory_prefix then
       (let verb = drop (length legacy_memory_prefix) normalized in
        if verb \<in> set memory_tool_verbs then Some verb else None)
     else if starts_with normalized canonical_memory_prefix then
       (let verb = drop (length canonical_memory_prefix) normalized in
        if verb \<in> set memory_tool_verbs then Some verb else None)
     else None)"

definition canonicalize_tool_id_for_rollout :: "string \<Rightarrow> string" where
  "canonicalize_tool_id_for_rollout tool_id =
    (let normalized = trim tool_id in
     case extract_memory_tool_verb normalized of
       Some verb \<Rightarrow> canonical_memory_prefix @ verb
     | None \<Rightarrow> normalized)"

definition tool_id_match_candidates :: "string \<Rightarrow> string list" where
  "tool_id_match_candidates tool_id =
    (let normalized = trim tool_id in
     if normalized = [] then []
     else let canonical = canonicalize_tool_id_for_rollout normalized in
       if \<not> starts_with canonical canonical_memory_prefix then [normalized]
       else let legacy = legacy_memory_prefix @ drop (length canonical_memory_prefix) canonical in
         if normalized = canonical then [canonical, legacy] else [normalized, canonical])"

definition tool_ids_match_for_rollout :: "string \<Rightarrow> string \<Rightarrow> bool" where
  "tool_ids_match_for_rollout left right \<longleftrightarrow>
    canonicalize_tool_id_for_rollout left = canonicalize_tool_id_for_rollout right"

subsection \<open>Suggested overrides\<close>

definition is_safe_suggested_override_pattern :: "string \<Rightarrow> bool" where
  "is_safe_suggested_override_pattern pattern =
    (let trimmed = trim pattern in
     if trimmed = [] then False
     else if CHR ''?'' \<in> set trimmed then False
     else case index_of (CHR ''*'') trimmed of
       None \<Rightarrow> True
     | Some star \<Rightarrow>
         if CHR ''*'' \<in> set (drop (Suc star) trimmed) then False
         else if star \<noteq> length trimmed - 1 then False
         else if star = 0 then False
         else \<not> is_js_space (trimmed ! (star - 1)))"

record suggested_override =
  so_tool_id :: string
  so_pattern :: string
  so_workspace_id :: string

definition suggested_overrides_for_tool_call ::
  "string \<Rightarrow> string \<Rightarrow> string \<Rightarrow> suggested_override list option" where
  "suggested_overrides_for_tool_call tool_id match_target workspace_id =
    (let trimmed = canonicalize_tool_id_for_rollout match_target in
     if trimmed = [] then None
     else if tool_id = ''tool.automation.schedule.create'' \<and>
             includes_str trimmed ''execution:steps'' then None
     else let patterns = (if is_safe_suggested_override_pattern trimmed then [trimmed] else []) in
       if patterns = [] then None
       else Some (map (\<lambda>p. \<lparr>so_tool_id = tool_id, so_pattern = p,
                             so_workspace_id = workspace_id\<rparr>) patterns))"

end
