(* ===== verification/Match_Target.thy ===== *)
theory Match_Target
  imports Actions Policy_Tool_Id
begin

text \<open>
  \<open>gateway/src/modules/policy/match-target.ts\<close> and \<open>execution/engine/tool-call.ts\<close>: the text of a tool
  call that policy patterns and overrides are matched against, and the tool call an action stands for.
  Node's \<open>path.posix\<close> and \<open>path.win32\<close> functions are modelled on segments; case is folded on ASCII
  letters.
\<close>

subsection \<open>Node paths\<close>

definition segments :: "string \<Rightarrow> string list" where
  "segments p = split_on (CHR ''/'') p"

definition dot :: string where "dot = ''.''"
definition dotdot :: string where "dotdot = ''..''"

text \<open>\<open>normalizeString\<close>, on the stack of segments read so far (topmost first).\<close>

definition norm_step :: "bool \<Rightarrow> string list \<Rightarrow> string \<Rightarrow> string list" where
  "norm_step up acc seg =
    (if seg = [] \<or> seg = dot then acc
     else if seg = dotdot then
       (case acc of
          s # r \<Rightarrow> if s \<noteq> dotdot then r else if up then dotdot # acc else acc
        | [] \<Rightarrow> if up then [dotdot] else [])
     else seg # acc)"

definition norm_segments :: "bool \<Rightarrow> string list \<Rightarrow> string list" where
  "norm_segments up segs = rev (foldl (norm_step up) [] segs)"

definition join_path :: "string list \<Rightarrow> string" where
  "join_path segs = join_with ''/'' segs"

definition is_posix_absolute :: "string \<Rightarrow> bool" where
  "is_posix_absolute p \<longleftrightarrow> starts_with p ''/''"

definition posix_normalize :: "string \<Rightarrow> string" where
  "posix_normalize p =
    (if p = [] then dot
     else (let absolute = is_posix_absolute p;
               trailing = (last p = CHR ''/'');
               body = join_path (norm_segments (\<not> absolute) (segments p))
           in if body = [] then (if absolute then ''/'' else if trailing then ''./'' else dot)
              else (if absolute then ''/'' else []) @ body @ (if trailing then ''/'' else [])))"

text \<open>\<open>relative\<close> of two absolute paths: the segments of the resolved paths, compared by \<open>f\<close>.\<close>

fun common_length :: "('a \<Rightarrow> 'b) \<Rightarrow> 'a list \<Rightarrow> 'a list \<Rightarrow> nat" where
  "common_length f (x # xs) (y # ys) = (if f x = f y then Suc (common_length f xs ys) else 0)"
| "common_length f _ _ = 0"

definition relative_segments :: "(string \<Rightarrow> string) \<Rightarrow> string list \<Rightarrow> string list \<Rightarrow> string list" where
  "relative_segments f src dst =
    (let k = common_length f src dst in replicate (length src - k) dotdot @ drop k dst)"

definition posix_relative :: "string \<Rightarrow> string \<Rightarrow> string" where
  "posix_relative src dst =
    join_path (relative_segments id (norm_segments False (segments src)) (norm_segments False (segments dst)))"

definition is_letter :: "char \<Rightarrow> bool" where
  "is_letter c \<longleftrightarrow> (let n = (of_char c :: nat) in 65 \<le> n \<and> n \<le> 90 \<or> 97 \<le> n \<and> n \<le> 122)"

text \<open>\<open>/^[a-zA-Z]:\//\<close>.\<close>

definition is_windows_absolute :: "string \<Rightarrow> bool" where
  "is_windows_absolute p \<longleftrightarrow>
    (case p of c # colon # slash # _ \<Rightarrow> is_letter c \<and> colon = CHR '':'' \<and> slash = CHR ''/'' | _ \<Rightarrow> False)"

text \<open>
  The drive and the segments below it. Relative to another drive \<open>win32.relative\<close> answers the absolute
  path; the backslashes of the answer are already turned into slashes.
\<close>

definition drive_segments :: "string \<Rightarrow> string list" where
  "drive_segments p = take 2 p # norm_segments False (segments (drop 3 p))"

definition win32_relative_slashed :: "string \<Rightarrow> string \<Rightarrow> string" where
  "win32_relative_slashed src dst =
    (let fs = drive_segments src; ds = drive_segments dst; fold_case = map lower_char
     in if fold_case (hd fs) \<noteq> fold_case (hd ds) then hd ds @ ''/'' @ join_path (tl ds)
        else join_path (relative_segments fold_case fs ds))"

subsection \<open>File paths\<close>

text \<open>\<open>p.replace(/^\.\/+/, "")\<close>.\<close>

definition strip_dot_slash :: "string \<Rightarrow> string" where
  "strip_dot_slash p = (if starts_with p ''./'' then dropWhile (\<lambda>c. c = CHR ''/'') (drop 1 p) else p)"

definition slashed :: "string \<Rightarrow> string" where
  "slashed p = map (\<lambda>c. if c = CHR 0x5C then CHR ''/'' else c) p"

definition finish_fs_path :: "string \<Rightarrow> string" where
  "finish_fs_path candidate =
    (let normalized = posix_normalize (strip_dot_slash candidate)
     in if normalized = dot then dot
        else if is_posix_absolute normalized then []
        else if dotdot \<in> set (segments normalized) then []
        else strip_dot_slash normalized)"

definition workspace_candidate :: "string \<Rightarrow> string option \<Rightarrow> string option" where
  "workspace_candidate p workspace_root =
    (let root = (case workspace_root of None \<Rightarrow> [] | Some r \<Rightarrow> slashed (trim r))
     in if root = [] then None
        else (let rel = (if is_posix_absolute p \<and> is_posix_absolute root
                         then Some (posix_relative (posix_normalize root) (posix_normalize p))
                         else if is_windows_absolute p \<and> is_windows_absolute root
                         then Some (win32_relative_slashed root p)
                         else None)
              in case rel of
                   None \<Rightarrow> None
                 | Some r \<Rightarrow>
                     (let candidate = (if r = [] then dot else r)
                      in if is_windows_absolute candidate \<or> is_posix_absolute candidate then None
                         else Some candidate)))"

definition normalize_fs_path :: "string \<Rightarrow> string option \<Rightarrow> string" where
  "normalize_fs_path raw_path workspace_root =
    (let trimmed = trim raw_path in
     if trimmed = [] then []
     else (let p = slashed trimmed in
           if is_windows_absolute p \<or> is_posix_absolute p
           then (case workspace_candidate p workspace_root of None \<Rightarrow> [] | Some c \<Rightarrow> finish_fs_path c)
           else finish_fs_path p))"

subsection \<open>Reading arguments\<close>

text \<open>\<open>normalizeToken(parsed?.[k])\<close>: \<open>parsed\<close> is the record of arguments, if there is one.\<close>

definition normalize_token :: "json option \<Rightarrow> string option" where
  "normalize_token v = (case v of Some (JStr s) \<Rightarrow> if trim s = [] then None else Some (trim s) | _ \<Rightarrow> None)"

type_synonym fields = "(string, json) omap option"

definition field :: "fields \<Rightarrow> string \<Rightarrow> json option" where
  "field parsed k = (case parsed of None \<Rightarrow> None | Some m \<Rightarrow> om_get m k)"

definition token :: "fields \<Rightarrow> string \<Rightarrow> string option" where
  "token parsed k = normalize_token (field parsed k)"

definition token_or :: "string option \<Rightarrow> string \<Rightarrow> string" where
  "token_or v d = (case v of None \<Rightarrow> d | Some s \<Rightarrow> s)"

fun first_token :: "fields \<Rightarrow> string list \<Rightarrow> string option" where
  "first_token parsed [] = None"
| "first_token parsed (k # ks) = (case token parsed k of Some s \<Rightarrow> Some s | None \<Rightarrow> first_token parsed ks)"

text \<open>\<open>value.replace(/\s+/g, " ")\<close>: \<open>gap\<close> says that the last character was a blank.\<close>

fun squeeze :: "bool \<Rightarrow> string \<Rightarrow> string" where
  "squeeze gap [] = []"
| "squeeze gap (c # s) =
    (if is_js_space c then (if gap then squeeze True s else CHR '' '' # squeeze True s)
     else c # squeeze False s)"

definition collapse_whitespace :: "string \<Rightarrow> string" where
  "collapse_whitespace s = squeeze False (trim s)"

subsection \<open>MCP tools and messages\<close>

definition normalize_mcp_tool_id :: "string \<Rightarrow> string" where
  "normalize_mcp_tool_id raw =
    (case filter (\<lambda>p. p \<noteq> []) (map trim (split_on (CHR ''.'') (trim raw))) of
       [] \<Rightarrow> ''mcp''
     | [p] \<Rightarrow> p
     | pre # server # tool_parts \<Rightarrow>
         if pre \<noteq> ''mcp'' then trim raw
         else if tool_parts = [] then ''mcp.'' @ server
         else ''mcp.'' @ server @ ''.'' @ join_with ''.'' tool_parts)"

definition is_messaging_tool_class :: "string \<Rightarrow> bool" where
  "is_messaging_tool_class tool \<longleftrightarrow>
    starts_with tool ''tool.messaging.'' \<or> starts_with tool ''tool.message.'' \<or>
    tool = ''tool.channel.send'' \<or> starts_with tool ''tool.channel.send.''"

definition canonicalize_messaging_target :: "string \<Rightarrow> fields \<Rightarrow> string" where
  "canonicalize_messaging_target tool parsed =
    (let action = (if ends_with tool ''.send'' then ''send''
           else token_or (normalize_token (Some (JStr (last (split_on (CHR ''.'') tool))))) ''send'');
         connector = first_token parsed [''connector'', ''channel'', ''source'', ''provider''];
         account = first_token parsed [''account_id'', ''account'', ''workspace_id''];
         destination = first_token parsed [''destination_id'', ''recipient_id'', ''thread_id'', ''channel_id'',
           ''conversation_id'']
     in case (connector, account, destination) of
          (Some c, Some a, Some d) \<Rightarrow> action @ '':'' @ c @ '':'' @ a @ '':'' @ d
        | (Some c, None, Some d) \<Rightarrow> action @ '':'' @ c @ '':'' @ d
        | _ \<Rightarrow> action @ '':'' @ tool)"

subsection \<open>Node dispatch\<close>

fun op_within :: "nat \<Rightarrow> fields \<Rightarrow> string option" where
  "op_within 0 current = None"
| "op_within (Suc n) None = None"
| "op_within (Suc n) (Some m) =
    (case token (Some m) ''op'' of
       Some opn \<Rightarrow> Some opn
     | None \<Rightarrow> op_within n (coerce_record (om_get m ''args'')))"

definition normalize_node_dispatch_op :: "fields \<Rightarrow> string option" where
  "normalize_node_dispatch_op parsed = op_within 3 parsed"

text \<open>The operation and, for \<open>act\<close>, its subtype.\<close>

definition canonicalize_desktop_op :: "fields \<Rightarrow> string \<times> string option" where
  "canonicalize_desktop_op parsed =
    (case normalize_node_dispatch_op parsed of
       None \<Rightarrow> (''unknown'', None)
     | Some opn \<Rightarrow>
         if opn = ''screenshot'' then (''snapshot'', None)
         else if opn \<in> set [''snapshot'', ''query'', ''wait_for''] then (opn, None)
         else if opn = ''mouse'' then (''act'', Some ''mouse'')
         else if opn = ''keyboard'' then (''act'', Some ''keyboard'')
         else if opn = ''act'' then (''act'', Some ''ui'')
         else (''unknown'', None))"

definition canonicalize_capture_op :: "fields \<Rightarrow> string" where
  "canonicalize_capture_op parsed =
    (case normalize_node_dispatch_op parsed of
       Some opn \<Rightarrow> if opn \<in> set [''get'', ''capture_photo'', ''record''] then opn else ''unknown''
     | None \<Rightarrow> ''unknown'')"

definition canonicalize_node_dispatch_match_target :: "action_kind \<Rightarrow> json \<Rightarrow> string" where
  "canonicalize_node_dispatch_match_target kind args =
    (let parsed = coerce_record (Some args);
         target = ''action:'' @ kind_text kind
     in if kind = Desktop
        then (case canonicalize_desktop_op parsed of (opn, sub) \<Rightarrow>
                target @ '';op:'' @ opn @ (if opn = ''act'' then '';act:'' @ token_or sub ''unknown'' else []))
        else if kind \<in> set [Browser, IOS, Android] then target @ '';op:'' @ canonicalize_capture_op parsed
        else target)"

subsection \<open>Schedules and places\<close>

definition subrecord :: "fields \<Rightarrow> string \<Rightarrow> fields" where
  "subrecord parsed k = coerce_record (field parsed k)"

definition schedule_execution_kinds :: "string list" where
  "schedule_execution_kinds = [''agent_turn'', ''playbook'', ''steps'']"

definition normalize_schedule_execution_kind :: "fields \<Rightarrow> string" where
  "normalize_schedule_execution_kind parsed =
    (case token (subrecord parsed ''execution'') ''kind'' of
       Some k \<Rightarrow> if k \<in> set schedule_execution_kinds then k else ''unknown''
     | None \<Rightarrow> ''unknown'')"

definition delivery_mode :: "fields \<Rightarrow> string option" where
  "delivery_mode parsed =
    (case token (subrecord parsed ''delivery'') ''mode'' of
       Some m \<Rightarrow> if m = ''quiet'' \<or> m = ''notify'' then Some m else None
     | None \<Rightarrow> None)"

definition normalize_schedule_delivery_mode :: "fields \<Rightarrow> string \<Rightarrow> string" where
  "normalize_schedule_delivery_mode parsed fallback_kind =
    (case delivery_mode parsed of
       Some m \<Rightarrow> m
     | None \<Rightarrow> if fallback_kind = ''heartbeat'' then ''quiet''
              else if fallback_kind = ''cron'' then ''notify'' else ''unknown'')"

definition labelled :: "string \<Rightarrow> string option \<Rightarrow> string list" where
  "labelled label v = (case v of None \<Rightarrow> [] | Some s \<Rightarrow> [label @ '':'' @ s])"

definition build_schedule_scope_tokens :: "fields \<Rightarrow> string list" where
  "build_schedule_scope_tokens parsed =
    labelled ''agent_key'' (token parsed ''agent_key'') @ labelled ''workspace_key'' (token parsed ''workspace_key'')"

definition playbook_token :: "fields \<Rightarrow> string" where
  "playbook_token parsed = ''playbook_id:'' @ token_or (token (subrecord parsed ''execution'') ''playbook_id'') ''unknown''"

definition canonicalize_schedule_create :: "fields \<Rightarrow> string" where
  "canonicalize_schedule_create parsed =
    (let kind = token_or (token parsed ''kind'') ''unknown'';
         execution = normalize_schedule_execution_kind parsed
     in join_with '';'' ([''kind:'' @ kind, ''execution:'' @ execution,
          ''delivery:'' @ normalize_schedule_delivery_mode parsed kind] @
          build_schedule_scope_tokens parsed @
          (if execution = ''playbook'' then [playbook_token parsed] else [])))"

definition canonicalize_schedule_update :: "fields \<Rightarrow> string" where
  "canonicalize_schedule_update parsed =
    (let execution = (case token (subrecord parsed ''execution'') ''kind'' of
           Some k \<Rightarrow> if k \<in> set schedule_execution_kinds then Some k else None | None \<Rightarrow> None)
     in join_with '';''
          ([''schedule_id:'' @ token_or (token parsed ''schedule_id'') []] @
           labelled ''kind'' (token parsed ''kind'') @
           labelled ''execution'' execution @
           (if execution = Some ''playbook'' then [playbook_token parsed] else []) @
           labelled ''delivery'' (delivery_mode parsed)))"

definition canonicalize_location_place_scope :: "fields \<Rightarrow> string option \<Rightarrow> string" where
  "canonicalize_location_place_scope parsed current_agent_key =
    ''agent_key:'' @ (case token parsed ''agent_key'' of
       Some k \<Rightarrow> k
     | None \<Rightarrow> token_or (normalize_token (map_option JStr current_agent_key)) ''current'')"

subsection \<open>Match targets\<close>

definition url_target :: "string \<Rightarrow> string" where
  "url_target url = trim (takeWhile (\<lambda>c. c \<noteq> CHR ''?'' \<and> c \<noteq> CHR ''#'') url)"

definition canonicalize_tool_match_target :: "string \<Rightarrow> json \<Rightarrow> string option \<Rightarrow> string option \<Rightarrow> string" where
  "canonicalize_tool_match_target tool_id args workspace_root current_agent_key =
    (let tool = canonicalize_tool_id (trim tool_id);
         parsed = coerce_record (Some args);
         rollout = canonicalize_tool_id_for_rollout tool
     in if tool = ''bash'' then (case token parsed ''command'' of None \<Rightarrow> [] | Some c \<Rightarrow> collapse_whitespace c)
        else if tool = ''webfetch'' then (case token parsed ''url'' of None \<Rightarrow> [] | Some u \<Rightarrow> url_target u)
        else if tool = ''apply_patch'' then ''apply_patch''
        else if tool = ''glob'' then ''glob:'' @ token_or (token parsed ''pattern'') []
        else if tool = ''grep'' then ''grep:'' @ token_or (token parsed ''pattern'') []
        else if tool \<in> set [''read'', ''write'', ''edit'']
        then tool @ '':'' @ normalize_fs_path (token_or (token parsed ''path'') []) workspace_root
        else if tool = ''tool.automation.schedule.create'' then canonicalize_schedule_create parsed
        else if tool = ''tool.automation.schedule.update'' then canonicalize_schedule_update parsed
        else if tool \<in> set [''tool.automation.schedule.get'', ''tool.automation.schedule.pause'',
                  ''tool.automation.schedule.resume'', ''tool.automation.schedule.delete'']
        then ''schedule_id:'' @ token_or (token parsed ''schedule_id'') []
        else if tool \<in> set [''tool.location.place.list'', ''tool.location.place.create'']
        then canonicalize_location_place_scope parsed current_agent_key
        else if tool \<in> set [''tool.location.place.update'', ''tool.location.place.delete'']
        then ''place_id:'' @ token_or (token parsed ''place_id'') []
        else if rollout \<noteq> tool then rollout
        else if starts_with tool ''mcp.'' then normalize_mcp_tool_id tool
        else if is_messaging_tool_class tool then canonicalize_messaging_target tool parsed
        else tool)"

subsection \<open>The tool call of an action\<close>

record action_call =
  cl_tool :: string
  cl_target :: string
  cl_url :: "string option"

definition trimmed_field :: "(string, json) omap \<Rightarrow> string \<Rightarrow> string" where
  "trimmed_field m k = trim (string_field m k)"

definition web_call :: "string \<Rightarrow> action_call" where
  "web_call url =
    \<lparr>cl_tool = ''webfetch'',
     cl_target = canonicalize_tool_match_target ''webfetch'' (JObj [(''url'', JStr url)]) None None,
     cl_url = (if url = [] then None else Some url)\<rparr>"

definition query_call :: "string \<Rightarrow> string \<Rightarrow> action_call" where
  "query_call tool query =
    \<lparr>cl_tool = tool, cl_target = canonicalize_tool_match_target tool (JObj [(''query'', JStr query)]) None None,
     cl_url = None\<rparr>"

definition cli_command :: "(string, json) omap \<Rightarrow> string" where
  "cli_command m =
    (let argv = (case om_get m ''args'' of
           Some (JArr vs) \<Rightarrow> concat (map (\<lambda>v. case v of JStr s \<Rightarrow> [s] | _ \<Rightarrow> []) vs) | _ \<Rightarrow> [])
     in trim (join_with '' '' (filter (\<lambda>t. trim t \<noteq> []) (trimmed_field m ''cmd'' # argv))))"

definition tool_call_from_action :: "action_primitive \<Rightarrow> action_call" where
  "tool_call_from_action a =
    (let m = at_args a in
     if at_kind a = CLI
     then \<lparr>cl_tool = ''bash'',
           cl_target = canonicalize_tool_match_target ''bash'' (JObj [(''command'', JStr (cli_command m))]) None None,
           cl_url = None\<rparr>
     else if at_kind a = Http then web_call (trimmed_field m ''url'')
     else if at_kind a = Mcp
     then (let server = trimmed_field m ''server_id'';
               tool = trimmed_field m ''tool_name'';
               input = record_or_empty (om_get m ''input'')
           in if server = ''exa'' \<and> tool = ''web_search_exa'' then query_call ''websearch'' (string_field input ''query'')
              else if server = ''exa'' \<and> tool = ''get_code_context_exa''
              then query_call ''codesearch'' (string_field input ''query'')
              else if server = ''exa'' \<and> tool = ''crawling_exa'' then web_call (trimmed_field input ''url'')
              else (let tid = (if server \<noteq> [] \<and> tool \<noteq> [] then ''mcp.'' @ server @ ''.'' @ tool else ''mcp'')
                    in \<lparr>cl_tool = tid, cl_target = canonicalize_tool_match_target tid (JObj input) None None,
                        cl_url = None\<rparr>))
     else (let tid = ''action.'' @ kind_text (at_kind a)
           in \<lparr>cl_tool = tid, cl_target = canonicalize_tool_match_target tid (JObj m) None None, cl_url = None\<rparr>))"

end
