(* ===== verification/Match_Paths.thy ===== *)
theory Match_Paths
  imports Match_Target
begin

text \<open>
  What the canonical path of a file tool denotes: it names the file the call names, and that file lies
  in the workspace.
\<close>

subsection \<open>Segments\<close>

lemma segments_append: "segments (xs @ CHR ''/'' # ys) = segments xs @ segments ys"
  by (simp add: segments_def split_on_append)

lemma segments_Cons_slash: "segments (CHR ''/'' # ys) = [] # segments ys"
  by (simp add: segments_def)

lemma segments_Nil [simp]: "segments [] = [[]]"
  by (simp add: segments_def)

lemma segments_no_slash: "s \<in> set (segments p) \<Longrightarrow> CHR ''/'' \<notin> set s"
proof (induction p arbitrary: s)
  case (Cons c p)
  then show ?case
    by (cases "split_on (CHR ''/'') p") (auto simp: segments_def split: if_splits)
qed simp

lemma segments_join:
  "segs \<noteq> [] \<Longrightarrow> \<forall>s \<in> set segs. CHR ''/'' \<notin> set s \<Longrightarrow> segments (join_path segs) = segs"
proof (induction segs rule: join_with.induct [of _ "''/''"])
  case (2 x)
  then show ?case by (simp add: join_path_def segments_def split_on_plain)
next
  case (3 x y xs)
  then show ?case by (simp add: join_path_def segments_append segments_def [where p = x] segments_def [where p = y] split_on_plain)
qed simp

definition clean :: "string \<Rightarrow> bool" where
  "clean s \<longleftrightarrow> s \<noteq> [] \<and> s \<noteq> dot \<and> s \<noteq> dotdot"

abbreviation walk :: "bool \<Rightarrow> string list \<Rightarrow> string list \<Rightarrow> string list" where
  "walk up \<equiv> foldl (norm_step up)"

lemma norm_step_clean: "clean s \<Longrightarrow> norm_step up acc s = s # acc"
  by (simp add: norm_step_def clean_def)

lemma walk_clean: "\<forall>s \<in> set segs. clean s \<Longrightarrow> walk up acc segs = rev segs @ acc"
  by (induction segs arbitrary: acc) (simp_all add: norm_step_clean)

lemma walk_elems:
  "s \<in> set (walk up acc segs) \<Longrightarrow> \<forall>s \<in> set acc. s \<noteq> [] \<and> s \<noteq> dot \<Longrightarrow>
    (s \<in> set acc \<union> set segs \<or> s = dotdot) \<and> s \<noteq> [] \<and> s \<noteq> dot"
proof (induction segs arbitrary: acc)
  case (Cons a segs)
  have "\<forall>s \<in> set (norm_step up acc a). s \<noteq> [] \<and> s \<noteq> dot"
    using Cons.prems(2) by (auto simp: norm_step_def dot_def dotdot_def split: list.splits)
  moreover have "set (norm_step up acc a) \<subseteq> insert dotdot (insert a (set acc))"
    by (auto simp: norm_step_def split: list.splits if_splits)
  ultimately show ?case using Cons.IH [of "norm_step up acc a"] Cons.prems(1) by auto
qed auto

lemma walk_down_clean: "dotdot \<notin> set acc \<Longrightarrow> dotdot \<notin> set (walk False acc segs)"
proof (induction segs arbitrary: acc)
  case (Cons a segs)
  have "dotdot \<notin> set (norm_step False acc a)"
    using Cons.prems by (auto simp: norm_step_def split: list.splits)
  with Cons.IH show ?case by simp
qed simp

lemma dotdot_stays: "dotdot \<in> set acc \<Longrightarrow> dotdot \<in> set (walk True acc segs)"
proof (induction segs arbitrary: acc)
  case (Cons a segs)
  have "dotdot \<in> set (norm_step True acc a)"
    using Cons.prems by (auto simp: norm_step_def split: list.splits)
  with Cons.IH show ?case by simp
qed simp

text \<open>A relative walk that never leaves its start is the same walk from anywhere.\<close>

lemma walk_from:
  "dotdot \<notin> set (walk True acc segs) \<Longrightarrow> walk False (acc @ base) segs = walk True acc segs @ base"
proof (induction segs arbitrary: acc)
  case (Cons a segs)
  have nd: "dotdot \<notin> set (norm_step True acc a)"
    using Cons.prems dotdot_stays [of "norm_step True acc a" segs] by auto
  then have "norm_step False (acc @ base) a = norm_step True acc a @ base"
    by (cases acc) (auto simp: norm_step_def split: if_splits)
  with Cons show ?case by simp
qed simp

lemma strip_walk: "walk up acc (segments (strip_dot_slash p)) = walk up acc (segments p)"
proof (cases "starts_with p ''./''")
  case True
  then obtain q where q: "p = dot @ CHR ''/'' # q"
    by (metis append_Cons append_Nil append_take_drop_id dot_def starts_with_def)
  have drop_slashes: "walk up acc (segments (dropWhile (\<lambda>c. c = CHR ''/'') s)) = walk up acc (segments s)" for s
    by (induction s) (auto simp: segments_Cons_slash norm_step_def)
  have "walk up acc (segments p) = walk up acc (segments q)"
    unfolding q segments_append by (simp add: segments_def dot_def norm_step_def)
  moreover have "strip_dot_slash p = dropWhile (\<lambda>c. c = CHR ''/'') q"
    using True by (simp add: strip_dot_slash_def q dot_def)
  ultimately show ?thesis by (simp add: drop_slashes)
qed (simp add: strip_dot_slash_def)

subsection \<open>Normal forms\<close>

lemma norm_elems:
  "s \<in> set (norm_segments up segs) \<Longrightarrow> (s \<in> set segs \<or> s = dotdot) \<and> s \<noteq> [] \<and> s \<noteq> dot"
  using walk_elems [of s up "[]" segs] by (auto simp: norm_segments_def)

lemma norm_no_slash: "s \<in> set (norm_segments up (segments p)) \<Longrightarrow> CHR ''/'' \<notin> set s"
  using norm_elems [of s up "segments p"] segments_no_slash [of s p] by (auto simp: dotdot_def)

lemma norm_down_clean: "s \<in> set (norm_segments False segs) \<Longrightarrow> clean s"
  using norm_elems [of s False segs] walk_down_clean [of "[]" segs] by (auto simp: norm_segments_def clean_def)

lemma join_path_Nil [simp]: "join_path [] = []"
  by (simp add: join_path_def)

lemma join_start: "segs \<noteq> [] \<Longrightarrow> hd segs \<noteq> [] \<Longrightarrow> join_path segs \<noteq> [] \<and> hd (join_path segs) = hd (hd segs)"
  by (cases segs rule: join_with.cases [of "(''/'', segs)" for segs]) (auto simp: join_path_def)

text \<open>What \<open>finish_fs_path\<close> accepts leads, from any directory, to where the candidate leads, downwards.\<close>

lemma finish_walk:
  assumes "finish_fs_path c \<noteq> []"
  shows "\<exists>N. (\<forall>s \<in> set N. clean s) \<and> \<not> is_posix_absolute (finish_fs_path c) \<and>
    dotdot \<notin> set (segments (finish_fs_path c)) \<and>
    (\<forall>base. walk False base (segments (finish_fs_path c)) = rev N @ base \<and> walk False base (segments c) = rev N @ base)"
proof -
  let ?c = "strip_dot_slash c" and ?N = "norm_segments True (segments (strip_dot_slash c))"
  let ?n = "posix_normalize ?c"
  have walk: "walk False base (segments c) = rev ?N @ base" if "dotdot \<notin> set ?N" for base
    using walk_from [of "[]" "segments ?c" base] that strip_walk [of False base c] by (simp add: norm_segments_def)
  have cleanN: "\<forall>s \<in> set ?N. clean s" if "dotdot \<notin> set ?N"
    using that norm_elems [of _ True "segments ?c"] by (auto simp: clean_def)
  have at_dot: "walk False base (segments dot) = base" "\<not> is_posix_absolute dot" "dotdot \<notin> set (segments dot)" for base
    by (simp_all add: segments_def dot_def dotdot_def norm_step_def is_posix_absolute_def starts_with_def)
  show ?thesis
  proof (cases "?n = dot")
    case True
    then have r: "finish_fs_path c = dot" by (simp add: finish_fs_path_def)
    have "?N = []"
    proof (rule ccontr)
      have empty: "norm_segments True [[]] = []" by (simp add: norm_segments_def norm_step_def)
      assume ne: "?N \<noteq> []"
      then have "hd ?N \<noteq> []" using norm_elems [of "hd ?N"] by (metis list.set_sel(1))
      from True ne join_start [OF ne this] have b: "join_path ?N = dot" "?c \<noteq> []"
        by (auto simp: empty posix_normalize_def dot_def Let_def Cons_eq_append_conv append_eq_Cons_conv split: if_splits)
      have "segments (join_path ?N) = ?N" using ne norm_no_slash by (intro segments_join) auto
      with b have "?N = [dot]" by (simp add: segments_def dot_def)
      then show False using norm_elems [of dot True "segments ?c"] by simp
    qed
    then show ?thesis using walk at_dot by (intro exI [of _ "[]"]) (simp add: r)
  next
    case False
    then have d: "\<not> is_posix_absolute ?n" "dotdot \<notin> set (segments ?n)" and r: "finish_fs_path c = strip_dot_slash ?n"
      using assms by (auto simp: finish_fs_path_def Let_def split: if_splits)
    have cne: "?c \<noteq> []" using False by (auto simp: posix_normalize_def)
    then have rel: "\<not> is_posix_absolute ?c"
      using d(1) by (auto simp: posix_normalize_def is_posix_absolute_def Let_def starts_with_def split: if_splits)
    have ne: "?N \<noteq> []"
    proof
      assume "?N = []"
      with False cne rel have "?n = ''./''" by (auto simp: posix_normalize_def Let_def split: if_splits)
      with r assms show False by (simp add: strip_dot_slash_def starts_with_def)
    qed
    then have h: "hd ?N \<in> set ?N" by simp
    have hd: "hd ?N \<noteq> []" "hd ?N \<noteq> dot" using norm_elems [OF h] by auto
    have sj: "segments (join_path ?N) = ?N" using ne norm_no_slash by (intro segments_join) auto
    have n: "?n = join_path ?N @ (if last ?c = CHR ''/'' then ''/'' else [])"
      using cne rel join_start [OF ne hd(1)] by (auto simp: posix_normalize_def Let_def)
    have sn: "segments ?n = ?N @ (if last ?c = CHR ''/'' then [[]] else [])"
      using sj segments_append [of "join_path ?N" "[]"] by (simp add: n)
    have nodd: "dotdot \<notin> set ?N" using d(2) sn by auto
    have "\<not> starts_with ?n ''./''"
    proof
      assume "starts_with ?n ''./''"
      then obtain q where "?n = dot @ CHR ''/'' # q"
        by (metis append_Cons append_Nil append_take_drop_id dot_def starts_with_def)
      then have "segments ?n = dot # segments q"
        using segments_append [of dot q] by (simp add: segments_def [of "''.''"] dot_def)
      with sn ne hd(2) show False by (cases ?N) auto
    qed
    then have rn: "finish_fs_path c = ?n" using r by (simp add: strip_dot_slash_def)
    have "walk False base (segments ?n) = rev ?N @ base" for base
      using walk_clean [OF cleanN [OF nodd]] by (simp add: sn norm_step_def)
    then show ?thesis using walk [OF nodd] cleanN [OF nodd] d rn by (intro exI [of _ ?N]) simp
  qed
qed

subsection \<open>Files in the workspace\<close>

text \<open>Where a path leads when the current directory is the workspace.\<close>

definition resolve_in :: "string \<Rightarrow> string \<Rightarrow> string list" where
  "resolve_in root p = norm_segments False (segments (if is_posix_absolute p then p else root @ CHR ''/'' # p))"

lemma absolute_segments: "is_posix_absolute p \<Longrightarrow> segments p = [] # segments (drop 1 p)"
  by (cases p) (auto simp: is_posix_absolute_def starts_with_def segments_Cons_slash)

lemma norm_of_clean: "\<forall>s \<in> set segs. clean s \<Longrightarrow> norm_segments up ([] # segs @ tail) = norm_segments up (segs @ tail)"
  by (simp add: norm_segments_def norm_step_def)

lemma norm_normalize:
  assumes "is_posix_absolute p"
  shows "norm_segments False (segments (posix_normalize p)) = norm_segments False (segments p)"
proof (cases "norm_segments False (segments p) = []")
  case True
  with assms have "posix_normalize p = ''/''"
    by (auto simp: posix_normalize_def Let_def is_posix_absolute_def starts_with_def)
  with True show ?thesis by (simp add: segments_def norm_segments_def norm_step_def)
next
  case False
  let ?N = "norm_segments False (segments p)"
  have c: "\<forall>s \<in> set ?N. clean s" by (simp add: norm_down_clean)
  have h: "hd ?N \<noteq> []" using c False by (simp add: clean_def)
  from assms False join_start [OF False h] have n: "posix_normalize p =
      CHR ''/'' # join_path ?N @ (if last p = CHR ''/'' then ''/'' else [])"
    by (auto simp: posix_normalize_def Let_def is_posix_absolute_def starts_with_def)
  have "segments (join_path ?N) = ?N" using False norm_no_slash by (intro segments_join) auto
  then have "segments (posix_normalize p) = [] # ?N @ (if last p = CHR ''/'' then [[]] else [])"
    using segments_append [of "join_path ?N" "[]"] by (simp add: n segments_Cons_slash)
  then show ?thesis using walk_clean [OF c, of False]
    by (simp add: norm_segments_def norm_step_def)
qed

lemma common_prefix: "take (common_length id xs ys) ys = take (common_length id xs ys) xs"
  by (induction "id :: 'a \<Rightarrow> 'a" xs ys rule: common_length.induct) auto

lemma common_le: "common_length f xs ys \<le> length xs \<and> common_length f xs ys \<le> length ys"
  by (induction f xs ys rule: common_length.induct) auto

lemma walk_dotdots: "\<forall>s \<in> set acc. clean s \<Longrightarrow> n \<le> length acc \<Longrightarrow>
    walk False acc (replicate n dotdot) = drop n acc"
proof (induction n arbitrary: acc)
  case (Suc n)
  then show ?case by (cases acc) (auto simp: norm_step_def clean_def dot_def dotdot_def)
qed simp

text \<open>The relative path leads from the one to the other.\<close>

lemma relative_walk:
  assumes "\<forall>s \<in> set R. clean s" "\<forall>s \<in> set T. clean s"
  shows "walk False (rev R) (relative_segments id R T) = rev T"
proof -
  let ?k = "common_length id R T"
  have "drop (length R - ?k) (rev R) = rev (take ?k R)" using common_le [of id R T] by (simp add: drop_rev)
  then have "walk False (rev R) (relative_segments id R T) = rev (drop ?k T) @ rev (take ?k T)"
    using assms walk_dotdots [of "rev R" "length R - ?k"] walk_clean [of "drop ?k T" False "rev (take ?k R)"]
    by (auto simp: relative_segments_def common_prefix Let_def dest: in_set_dropD)
  then show ?thesis by (metis append_take_drop_id rev_append)
qed

text \<open>
  For a workspace with an absolute path: if a file tool's canonical path is not empty, then it is
  relative, without \<open>..\<close>, it leads to the same file as the path in the call, and that file lies in the
  workspace.
\<close>

theorem fs_target_names_file:
  assumes "is_posix_absolute (slashed (trim root))"
    and "normalize_fs_path raw (Some root) = r" "r \<noteq> []"
    and "R = norm_segments False (segments (slashed (trim root)))"
  shows "\<not> is_posix_absolute r \<and> dotdot \<notin> set (segments r) \<and>
    resolve_in (slashed (trim root)) r = resolve_in (slashed (trim root)) (slashed (trim raw)) \<and>
    take (length R) (resolve_in (slashed (trim root)) (slashed (trim raw))) = R"
proof -
  let ?root = "slashed (trim root)" and ?p = "slashed (trim raw)"
  have cR: "\<forall>s \<in> set R. clean s" by (simp add: assms(4) norm_down_clean)
  have R: "walk False [] (segments ?root) = rev R" by (simp add: assms(4) norm_segments_def)
  have in_root: "resolve_in ?root q = rev (walk False (rev R) (segments q))" if "\<not> is_posix_absolute q" for q
    using that R by (simp add: resolve_in_def norm_segments_def segments_append)
  obtain c where c: "r = finish_fs_path c" "rev (walk False (rev R) (segments c)) = resolve_in ?root ?p"
  proof (cases "is_posix_absolute ?p")
    case True
    let ?T = "norm_segments False (segments ?p)"
    have nw: "\<not> is_windows_absolute ?p"
      using True by (cases ?p) (auto simp: is_posix_absolute_def starts_with_def is_windows_absolute_def is_letter_def
        split: list.splits)
    have cT: "\<forall>s \<in> set ?T. clean s" by (simp add: norm_down_clean)
    from assms(1,2,3) True obtain c where f: "r = finish_fs_path c" and w: "workspace_candidate ?p (Some root) = Some c"
      by (auto simp: normalize_fs_path_def Let_def split: if_splits option.splits)
    let ?rel = "relative_segments id R ?T"
    have "c = (if join_path ?rel = [] then dot else join_path ?rel)"
      using w True assms(1,4) by (auto simp: workspace_candidate_def Let_def posix_relative_def norm_normalize
        split: if_splits)
    moreover have "walk False (rev R) (segments dot) = walk False (rev R) [[]]"
      by (simp add: segments_def dot_def norm_step_def)
    moreover have "walk False (rev R) (segments (join_path ?rel)) = rev ?T"
    proof (cases "?rel = []")
      case False
      have "\<forall>s \<in> set ?rel. CHR ''/'' \<notin> set s"
        using norm_no_slash [of _ False ?p] by (auto simp: relative_segments_def Let_def dotdot_def dest: in_set_dropD)
      with relative_walk [OF cR cT] segments_join [OF False] show ?thesis by simp
    qed (use relative_walk [OF cR cT] in \<open>simp add: norm_step_def\<close>)
    ultimately have "walk False (rev R) (segments c) = rev ?T"
      by (auto split: if_splits)
    with True f show ?thesis by (intro that [of c]) (simp_all add: resolve_in_def)
  next
    case False
    have "\<not> is_windows_absolute ?p"
    proof
      assume "is_windows_absolute ?p"
      with assms(1,2,3) False show False
        by (auto simp: normalize_fs_path_def workspace_candidate_def Let_def is_windows_absolute_def
            is_posix_absolute_def starts_with_def is_letter_def split: if_splits option.splits list.splits)
    qed
    with False assms(2,3) have "r = finish_fs_path ?p"
      by (auto simp: normalize_fs_path_def Let_def split: if_splits)
    with in_root [OF False] show ?thesis by (intro that [of ?p]) simp_all
  qed
  with assms(3) have "finish_fs_path c \<noteq> []" by simp
  from finish_walk [OF this] c(1) obtain N where N: "\<not> is_posix_absolute r" "dotdot \<notin> set (segments r)"
    "walk False (rev R) (segments r) = rev N @ rev R" "walk False (rev R) (segments c) = rev N @ rev R" by blast
  then have "resolve_in ?root r = R @ N" "resolve_in ?root ?p = R @ N"
    using in_root [of r] c(2) by simp_all
  with N(1,2) show ?thesis by simp
qed

lemma fs_target_names_file_witness:
  "\<not> is_posix_absolute ''src/a.ts'' \<and> dotdot \<notin> set (segments ''src/a.ts'') \<and>
   resolve_in (slashed (trim ''/home/ws'')) ''src/a.ts'' =
     resolve_in (slashed (trim ''/home/ws'')) (slashed (trim '' /home/ws/lib/../src/a.ts'')) \<and>
   take 2 (resolve_in (slashed (trim ''/home/ws'')) (slashed (trim '' /home/ws/lib/../src/a.ts''))) = [''home'', ''ws'']"
proof -
  have "is_posix_absolute (slashed (trim ''/home/ws''))"
    "normalize_fs_path '' /home/ws/lib/../src/a.ts'' (Some ''/home/ws'') = ''src/a.ts''"
    "[''home'', ''ws''] = norm_segments False (segments (slashed (trim ''/home/ws'')))"
    by code_simp+
  from fs_target_names_file [OF this(1,2) _ this(3)] show ?thesis by (simp add: numeral_2_eq_2)
qed

subsection \<open>Commands\<close>

text \<open>The blank-separated words of a command line.\<close>

definition command_words :: "string \<Rightarrow> string list" where
  "command_words s =
    filter (\<lambda>w. w \<noteq> []) (split_on (CHR '' '') (map (\<lambda>c. if is_js_space c then CHR '' '' else c) s))"

lemma space_is_space [simp]: "is_js_space (CHR '' '')"
  by (simp add: is_js_space_def)

lemma words_blank: "is_js_space c \<Longrightarrow> command_words (a @ c # b) = command_words a @ command_words b"
  by (simp add: command_words_def split_on_append)

lemma words_Nil [simp]: "command_words [] = []"
  by (simp add: command_words_def)

lemma words_word: "\<forall>c \<in> set w. \<not> is_js_space c \<Longrightarrow> w \<noteq> [] \<Longrightarrow> command_words w = [w]"
proof -
  assume h: "\<forall>c \<in> set w. \<not> is_js_space c" "w \<noteq> []"
  then have "map (\<lambda>c. if is_js_space c then CHR '' '' else c) w = w" by (auto intro: map_idI)
  moreover have "CHR '' '' \<notin> set w" using h(1) space_is_space by blast
  ultimately show "command_words w = [w]" using h(2) by (simp add: command_words_def split_on_plain)
qed

lemma words_nonempty: "c \<in> set s \<Longrightarrow> \<not> is_js_space c \<Longrightarrow> command_words s \<noteq> []"
proof (induction s rule: length_induct)
  case (1 s)
  show ?case
  proof (cases "\<exists>b \<in> set s. is_js_space b")
    case True
    then obtain b x y where s: "s = x @ b # y" "is_js_space b" by (meson split_list)
    with 1 have "command_words x \<noteq> [] \<or> command_words y \<noteq> []" by auto
    with s show ?thesis by (simp add: words_blank)
  next
    case False
    with 1 have "command_words s = [s]" by (intro words_word) auto
    then show ?thesis by simp
  qed
qed

lemma squeeze_word: "\<forall>c \<in> set w. \<not> is_js_space c \<Longrightarrow>
    squeeze gap (w @ s) = w @ squeeze (if w = [] then gap else False) s"
  by (induction w arbitrary: gap) simp_all

lemma squeeze_words: "s = [] \<or> \<not> is_js_space (last s) \<Longrightarrow> squeeze True s = join_with '' '' (command_words s)"
proof (induction s rule: length_induct)
  case (1 s)
  show ?case
  proof (cases s)
    case (Cons c s')
    show ?thesis
    proof (cases "is_js_space c")
      case True
      have "command_words s = command_words s'" using words_blank [OF True, of "[]" s'] Cons by simp
      moreover have "squeeze True s' = join_with '' '' (command_words s')"
      proof -
        have "length s' < length s" "s' = [] \<or> \<not> is_js_space (last s')" using 1(2) Cons by auto
        with 1(1) show ?thesis by blast
      qed
      ultimately show ?thesis using Cons True by simp
    next
      case False
      let ?w = "takeWhile (\<lambda>c. \<not> is_js_space c) s" and ?r = "dropWhile (\<lambda>c. \<not> is_js_space c) s"
      have w: "\<forall>c \<in> set ?w. \<not> is_js_space c" "?w \<noteq> []" using False Cons by (auto dest: set_takeWhileD)
      have s: "s = ?w @ ?r" by simp
      show ?thesis
      proof (cases ?r)
        case Nil
        then have e: "?w = s" using s by (metis append_Nil2)
        show ?thesis using squeeze_word [OF w(1), of True "[]"] words_word [OF w] unfolding e by simp
      next
        case (Cons b t)
        then have b: "is_js_space b" using hd_dropWhile [of "\<lambda>c. \<not> is_js_space c" s] by auto
        have st: "s = ?w @ b # t" using s Cons by simp
        have "last s = last (b # t)" by (subst st) simp
        with b 1(2) \<open>s = c # s'\<close> have t: "t \<noteq> []" "\<not> is_js_space (last t)" by (auto split: if_splits)
        have "length t < length s" by (subst st) simp
        with 1(1) t have IH: "squeeze True t = join_with '' '' (command_words t)" by blast
        have "command_words t \<noteq> []" using words_nonempty [of "last t" t] t by simp
        then have j: "join_with '' '' (?w # command_words t) = ?w @ '' '' @ join_with '' '' (command_words t)"
          by (cases "command_words t") simp_all
        have "squeeze True s = ?w @ squeeze False (b # t)" using squeeze_word [OF w(1), of True "b # t"] w(2) st by simp
        moreover have "command_words s = ?w # command_words t"
          by (subst st) (simp add: words_blank [OF b] words_word [OF w])
        ultimately show ?thesis using b IH j by simp
      qed
    qed
  qed simp
qed

lemma trim_ends: "trim s = [] \<or> \<not> is_js_space (hd (trim s)) \<and> \<not> is_js_space (last (trim s))"
proof (cases "trim s")
  case (Cons c t)
  have "rev (dropWhile is_js_space (rev (trim s))) = trim s" "dropWhile is_js_space (trim s) = trim s"
    using dropWhile_idem [of is_js_space "rev (dropWhile is_js_space s)"] trim_idem [of s]
    by (simp_all add: trim_def dropWhile_rev_cut [OF dropWhile_idem])
  then show ?thesis
    by (metis dropWhile_eq_self_iff hd_rev rev_is_Nil_conv rev_rev_ident)
qed simp

lemma words_trim: "command_words (trim s) = command_words s"
proof -
  have lead: "command_words (dropWhile is_js_space s) = command_words s" for s
  proof (induction s)
    case (Cons c s)
    then show ?case using words_blank [of c "[]" s] by simp
  qed simp
  have trail: "command_words (rev (dropWhile is_js_space (rev s))) = command_words s" for s
  proof (induction s rule: rev_induct)
    case (snoc c s)
    then show ?case using words_blank [of c s "[]"] by simp
  qed simp
  show ?thesis by (simp add: trim_def lead trail)
qed

lemma collapse_is_words: "collapse_whitespace s = join_with '' '' (command_words s)"
proof -
  have "squeeze False (trim s) = squeeze True (trim s)"
    using trim_ends [of s] by (cases "trim s") auto
  then show ?thesis using squeeze_words [of "trim s"] trim_ends [of s] words_trim [of s]
    by (auto simp: collapse_whitespace_def)
qed

lemma token_command: "token (coerce_record (Some (JObj [(''command'', JStr s)]))) ''command'' =
    (if trim s = [] then None else Some (trim s))"
  by (simp add: token_def normalize_token_def field_def om_get_def)

lemma bash_target: "canonicalize_tool_match_target ''bash'' (JObj [(''command'', JStr s)]) root agent =
    join_with '' '' (command_words s)"
proof -
  have t: "canonicalize_tool_id (trim ''bash'') = ''bash''" by code_simp
  show ?thesis
    using words_trim [of s] by (auto simp: canonicalize_tool_match_target_def t token_command collapse_is_words Let_def
        simp del: coerce_record_obj)
qed

text \<open>
  Any blank in a command, a newline too, counts as a space: a command of two lines has the match
  target of the single line with a space instead of the line break, so a grant for the one covers
  the other.
\<close>

theorem line_break_is_blank:
  assumes "is_js_space c" "is_js_space c'"
  shows "canonicalize_tool_match_target ''bash'' (JObj [(''command'', JStr (a @ c # b))]) root agent =
    canonicalize_tool_match_target ''bash'' (JObj [(''command'', JStr (a @ c' # b))]) root agent"
  by (simp add: bash_target words_blank [OF assms(1)] words_blank [OF assms(2)])

lemma line_break_is_blank_witness:
  "canonicalize_tool_match_target ''bash'' (JObj [(''command'', JStr (''git status'' @ CHR 0x0A # ''rm -r x''))]) None None =
   canonicalize_tool_match_target ''bash'' (JObj [(''command'', JStr (''git status'' @ CHR '' '' # ''rm -r x''))]) None None"
  by (rule line_break_is_blank) (simp_all add: is_js_space_def)

text \<open>
  The parts of a message target are joined with colons that the parts may contain: a message to
  destination \<open>d\<close> of account \<open>a\<close> has the target of a message without account to destination \<open>a:d\<close>.
\<close>

theorem message_target_ambiguous:
  assumes "trim a = a" "a \<noteq> []" "trim d = d" "d \<noteq> []" "trim c = c" "c \<noteq> []"
  shows "canonicalize_messaging_target tool (Some [(''connector'', JStr c), (''account_id'', JStr a), (''destination_id'', JStr d)]) =
    canonicalize_messaging_target tool (Some [(''connector'', JStr c), (''destination_id'', JStr (a @ '':'' @ d))])"
proof -
  have "\<not> is_js_space (hd a)" "\<not> is_js_space (last d)"
    using trim_ends [of a] trim_ends [of d] assms by auto
  then have "dropWhile is_js_space (a @ '':'' @ d) = a @ '':'' @ d"
    "dropWhile is_js_space (rev (a @ '':'' @ d)) = rev (a @ '':'' @ d)"
    using assms(2,4) by (simp_all add: dropWhile_eq_self_iff hd_rev hd_append)
  then have "trim (a @ '':'' @ d) = a @ '':'' @ d" by (simp add: trim_def)
  then show ?thesis using assms
    by (simp add: canonicalize_messaging_target_def token_def normalize_token_def field_def om_get_def)
qed

lemma message_target_ambiguous_witness:
  "canonicalize_messaging_target ''tool.channel.send''
     (Some [(''connector'', JStr ''slack''), (''account_id'', JStr ''a1''), (''destination_id'', JStr ''general'')]) =
   canonicalize_messaging_target ''tool.channel.send''
     (Some [(''connector'', JStr ''slack''), (''destination_id'', JStr (''a1'' @ '':'' @ ''general''))])"
  by (rule message_target_ambiguous) (simp_all add: trim_def is_js_space_def)

end
