(* ===== verification/Policy_Merge.thy ===== *)
theory Policy_Merge
  imports Policy_Tool_Id
begin

text \<open>
  \<open>contracts/src/policy-bundle.ts\<close> and \<open>runtime-policy/src/bundle-merge.ts\<close>: the policy
  bundle, its schema (\<open>parse_bundle\<close>, \<open>None\<close> where \<open>PolicyBundle.parse\<close> throws) and the merge
  of deployment, agent and playbook bundles into the effective bundle. Absent optional
  fields are \<open>None\<close>; records keyed by label are insertion-ordered maps.
\<close>

subsection \<open>Bundles\<close>

record tool_lists =
  tl_allow :: "string list"
  tl_require_approval :: "string list"
  tl_deny :: "string list"

record sensitivity_limits =
  sl_normal :: "int option"
  sl_sensitive :: "int option"

record artifact_limits =
  al_default :: "int option"
  al_by_label :: "(string, int) omap option"
  al_by_sensitivity :: "sensitivity_limits option"
  al_by_label_sensitivity :: "(string, sensitivity_limits) omap option"

record artifacts_policy =
  ar_default :: "decision option"
  ar_retention :: "artifact_limits option"
  ar_quota :: "artifact_limits option"

datatype review_mode = AutoReview | ManualOnly

record policy_bundle =
  pb_tools :: "tool_lists option"
  pb_network_egress :: "raw_domain option"
  pb_secrets :: "raw_domain option"
  pb_connectors :: "raw_domain option"
  pb_artifacts :: "artifacts_policy option"
  pb_untrusted_shell_requires_approval :: "bool option option"
  pb_auto_review_mode :: "review_mode option"

subsection \<open>The schema\<close>

definition parse_strings :: "string list \<Rightarrow> string list option" where
  "parse_strings xs = (if list_all (\<lambda>x. trim x \<noteq> []) xs then Some (map trim xs) else None)"

definition parse_tools :: "tool_lists \<Rightarrow> tool_lists option" where
  "parse_tools t =
    (case (parse_strings (tl_allow t), parse_strings (tl_require_approval t), parse_strings (tl_deny t)) of
       (Some a, Some r, Some d) \<Rightarrow>
         Some \<lparr>tl_allow = canonicalize_tool_id_list a,
               tl_require_approval = canonicalize_tool_id_list r,
               tl_deny = canonicalize_tool_id_list d\<rparr>
     | _ \<Rightarrow> None)"

definition parse_domain :: "raw_domain \<Rightarrow> raw_domain option" where
  "parse_domain v =
    (case (parse_strings (rd_allow v), parse_strings (rd_require_approval v), parse_strings (rd_deny v)) of
       (Some a, Some r, Some d) \<Rightarrow>
         Some \<lparr>rd_default = (case rd_default v of None \<Rightarrow> Some Deny | Some x \<Rightarrow> Some x),
               rd_allow = a, rd_require_approval = r, rd_deny = d\<rparr>
     | _ \<Rightarrow> None)"

definition positive_opt :: "int option \<Rightarrow> bool" where
  "positive_opt v \<longleftrightarrow> (case v of None \<Rightarrow> True | Some n \<Rightarrow> 0 < n)"

definition valid_sensitivity :: "sensitivity_limits \<Rightarrow> bool" where
  "valid_sensitivity v \<longleftrightarrow> positive_opt (sl_normal v) \<and> positive_opt (sl_sensitive v)"

definition valid_limits :: "artifact_limits \<Rightarrow> bool" where
  "valid_limits v \<longleftrightarrow>
    positive_opt (al_default v) \<and>
    (case al_by_label v of None \<Rightarrow> True | Some m \<Rightarrow> list_all (\<lambda>e. 0 < snd e) m) \<and>
    (case al_by_sensitivity v of None \<Rightarrow> True | Some s \<Rightarrow> valid_sensitivity s) \<and>
    (case al_by_label_sensitivity v of None \<Rightarrow> True
     | Some m \<Rightarrow> list_all (\<lambda>e. valid_sensitivity (snd e)) m)"

definition opt_all :: "('a \<Rightarrow> bool) \<Rightarrow> 'a option \<Rightarrow> bool" where
  "opt_all P v \<longleftrightarrow> (case v of None \<Rightarrow> True | Some x \<Rightarrow> P x)"

lemma opt_all_simps [simp]: "opt_all P None" "opt_all P (Some x) \<longleftrightarrow> P x"
  by (simp_all add: opt_all_def)

definition parse_artifacts :: "artifacts_policy \<Rightarrow> artifacts_policy option" where
  "parse_artifacts v =
    (if opt_all valid_limits (ar_retention v) \<and> opt_all valid_limits (ar_quota v)
     then Some (v\<lparr>ar_default := (case ar_default v of None \<Rightarrow> Some Allow | Some x \<Rightarrow> Some x)\<rparr>)
     else None)"

text \<open>\<open>.optional()\<close>: an absent section stays absent, a present one must parse.\<close>

definition parse_section :: "('a \<Rightarrow> 'b option) \<Rightarrow> 'a option \<Rightarrow> 'b option option" where
  "parse_section p v = (case v of None \<Rightarrow> Some None | Some x \<Rightarrow> map_option Some (p x))"

definition parse_bundle :: "policy_bundle \<Rightarrow> policy_bundle option" where
  "parse_bundle b =
    (case parse_section parse_tools (pb_tools b) of None \<Rightarrow> None | Some tools \<Rightarrow>
     (case parse_section parse_domain (pb_network_egress b) of None \<Rightarrow> None | Some egress \<Rightarrow>
      (case parse_section parse_domain (pb_secrets b) of None \<Rightarrow> None | Some secrets \<Rightarrow>
       (case parse_section parse_domain (pb_connectors b) of None \<Rightarrow> None | Some connectors \<Rightarrow>
        (case parse_section parse_artifacts (pb_artifacts b) of None \<Rightarrow> None | Some artifacts \<Rightarrow>
          Some \<lparr>pb_tools = tools, pb_network_egress = egress, pb_secrets = secrets,
                pb_connectors = connectors, pb_artifacts = artifacts,
                pb_untrusted_shell_requires_approval =
                  map_option (\<lambda>v. case v of None \<Rightarrow> Some True | Some x \<Rightarrow> Some x)
                    (pb_untrusted_shell_requires_approval b),
                pb_auto_review_mode =
                  (case pb_auto_review_mode b of None \<Rightarrow> Some AutoReview | Some m \<Rightarrow> Some m)\<rparr>)))))"

definition empty_bundle :: policy_bundle where
  "empty_bundle = \<lparr>pb_tools = None, pb_network_egress = None, pb_secrets = None,
    pb_connectors = None, pb_artifacts = None,
    pb_untrusted_shell_requires_approval = None, pb_auto_review_mode = None\<rparr>"

definition default_policy_bundle :: "policy_bundle option" where
  "default_policy_bundle = parse_bundle
    \<lparr>pb_tools = Some \<lparr>tl_allow = [], tl_require_approval = [], tl_deny = []\<rparr>,
     pb_network_egress = Some \<lparr>rd_default = Some RequireApproval, rd_allow = [],
       rd_require_approval = [], rd_deny = []\<rparr>,
     pb_secrets = Some \<lparr>rd_default = Some RequireApproval, rd_allow = [],
       rd_require_approval = [], rd_deny = []\<rparr>,
     pb_connectors = Some \<lparr>rd_default = Some RequireApproval, rd_allow = [''telegram:*''],
       rd_require_approval = [], rd_deny = []\<rparr>,
     pb_artifacts = Some \<lparr>ar_default = Some Allow, ar_retention = None, ar_quota = None\<rparr>,
     pb_untrusted_shell_requires_approval = Some (Some True),
     pb_auto_review_mode = None\<rparr>"

subsection \<open>Merging domains\<close>

definition union_strings :: "string list \<Rightarrow> string list \<Rightarrow> string list" where
  "union_strings a b = (if a = [] then b else if b = [] then a else dedup (a @ b))"

lemma set_union_strings [simp]: "set (union_strings a b) = set a \<union> set b"
  by (simp add: union_strings_def)

definition merge_domain_step :: "policy_domain \<Rightarrow> policy_domain option \<Rightarrow> policy_domain" where
  "merge_domain_step acc sec =
    (case sec of None \<Rightarrow> acc
     | Some d \<Rightarrow>
        \<lparr>pd_default = most_restrictive_decision (pd_default acc) (pd_default d),
         pd_allow = union_strings (pd_allow acc) (pd_allow d),
         pd_require_approval = union_strings (pd_require_approval acc) (pd_require_approval d),
         pd_deny = union_strings (pd_deny acc) (pd_deny d)\<rparr>)"

definition merge_domain :: "policy_domain option list \<Rightarrow> decision \<Rightarrow> policy_domain" where
  "merge_domain domains fallback =
    foldl merge_domain_step
      \<lparr>pd_default = fallback, pd_allow = [], pd_require_approval = [], pd_deny = []\<rparr> domains"

definition merge_tool_step :: "tool_lists \<Rightarrow> tool_lists option \<Rightarrow> tool_lists" where
  "merge_tool_step acc sec =
    (case sec of None \<Rightarrow> acc
     | Some d \<Rightarrow>
        \<lparr>tl_allow = union_strings (tl_allow acc) (tl_allow d),
         tl_require_approval = union_strings (tl_require_approval acc) (tl_require_approval d),
         tl_deny = union_strings (tl_deny acc) (tl_deny d)\<rparr>)"

definition merge_tool_domain :: "tool_lists option list \<Rightarrow> tool_lists" where
  "merge_tool_domain domains =
    foldl merge_tool_step \<lparr>tl_allow = [], tl_require_approval = [], tl_deny = []\<rparr> domains"

subsection \<open>Merging artifact limits\<close>

definition positive_values :: "int option list \<Rightarrow> int list" where
  "positive_values vs = filter (\<lambda>n. 0 < n) (List.map_filter (\<lambda>v. v) vs)"

definition min_or_undefined :: "int list \<Rightarrow> int option" where
  "min_or_undefined vs = (case vs of [] \<Rightarrow> None | v # ws \<Rightarrow> Some (foldl min v ws))"

definition min_opt :: "int option \<Rightarrow> int \<Rightarrow> int option" where
  "min_opt acc n = (case acc of None \<Rightarrow> Some n | Some m \<Rightarrow> Some (min m n))"

definition merge_by_sensitivity :: "sensitivity_limits list \<Rightarrow> sensitivity_limits" where
  "merge_by_sensitivity vs =
    \<lparr>sl_normal = foldl min_opt None (positive_values (map sl_normal vs)),
     sl_sensitive = foldl min_opt None (positive_values (map sl_sensitive vs))\<rparr>"

definition merge_label_entry :: "(string, int) omap \<Rightarrow> string \<times> int \<Rightarrow> (string, int) omap" where
  "merge_label_entry merged e =
    (if 0 < snd e
     then om_set (fst e) (case om_get merged (fst e) of None \<Rightarrow> snd e
                          | Some prev \<Rightarrow> min prev (snd e)) merged
     else merged)"

definition merge_by_label :: "(string, int) omap option list \<Rightarrow> (string, int) omap" where
  "merge_by_label raws =
    foldl (\<lambda>merged raw. case raw of None \<Rightarrow> merged | Some m \<Rightarrow> foldl merge_label_entry merged m) [] raws"

definition merge_pos :: "int option \<Rightarrow> int option \<Rightarrow> int option" where
  "merge_pos acc v = (case v of None \<Rightarrow> acc | Some n \<Rightarrow> if 0 < n then min_opt acc n else acc)"

definition merge_label_sens_entry ::
  "(string, sensitivity_limits) omap \<Rightarrow> string \<times> sensitivity_limits
    \<Rightarrow> (string, sensitivity_limits) omap" where
  "merge_label_sens_entry merged e =
    (let entry = (case om_get merged (fst e) of
                    None \<Rightarrow> \<lparr>sl_normal = None, sl_sensitive = None\<rparr> | Some x \<Rightarrow> x)
     in om_set (fst e)
          \<lparr>sl_normal = merge_pos (sl_normal entry) (sl_normal (snd e)),
           sl_sensitive = merge_pos (sl_sensitive entry) (sl_sensitive (snd e))\<rparr> merged)"

definition merge_by_label_sensitivity ::
  "(string, sensitivity_limits) omap option list \<Rightarrow> (string, sensitivity_limits) omap" where
  "merge_by_label_sensitivity raws =
    foldl (\<lambda>merged raw. case raw of None \<Rightarrow> merged
                         | Some m \<Rightarrow> foldl merge_label_sens_entry merged m) [] raws"

text \<open>The object built for \<open>retention\<close> and, with its own fields, for \<open>quota\<close>.\<close>

definition merge_limits :: "artifact_limits option list \<Rightarrow> artifact_limits option" where
  "merge_limits ls =
    (let default = min_or_undefined (positive_values (map (\<lambda>l. Option.bind l al_default) ls));
         by_sens = merge_by_sensitivity (List.map_filter (\<lambda>l. Option.bind l al_by_sensitivity) ls);
         by_label = merge_by_label (map (\<lambda>l. Option.bind l al_by_label) ls);
         by_label_sens = merge_by_label_sensitivity (map (\<lambda>l. Option.bind l al_by_label_sensitivity) ls);
         has_sens = (sl_normal by_sens \<noteq> None \<or> sl_sensitive by_sens \<noteq> None)
     in if default \<noteq> None \<or> by_label \<noteq> [] \<or> has_sens \<or> by_label_sens \<noteq> []
        then Some \<lparr>al_default = default,
                   al_by_label = (if by_label \<noteq> [] then Some by_label else None),
                   al_by_sensitivity = (if has_sens then Some by_sens else None),
                   al_by_label_sensitivity =
                     (if by_label_sens \<noteq> [] then Some by_label_sens else None)\<rparr>
        else None)"

subsection \<open>Merging bundles\<close>

definition to_raw :: "policy_domain \<Rightarrow> raw_domain" where
  "to_raw d = \<lparr>rd_default = Some (pd_default d), rd_allow = pd_allow d,
    rd_require_approval = pd_require_approval d, rd_deny = pd_deny d\<rparr>"

definition section_domain ::
  "(policy_bundle \<Rightarrow> raw_domain option) \<Rightarrow> policy_bundle option \<Rightarrow> policy_domain option" where
  "section_domain sec b =
    (case Option.bind b sec of None \<Rightarrow> None | Some d \<Rightarrow> Some (normalize_domain (Some d) RequireApproval))"

definition merge_section ::
  "(policy_bundle \<Rightarrow> raw_domain option) \<Rightarrow> policy_bundle option list \<Rightarrow> policy_domain" where
  "merge_section sec bundles =
    merge_domain (map (section_domain sec) bundles)
      (pd_default (normalize_domain (sec empty_bundle) RequireApproval))"

definition merge_artifacts_default :: "policy_bundle option list \<Rightarrow> decision" where
  "merge_artifacts_default bundles =
    foldl (\<lambda>decision b.
      case Option.bind (Option.bind b pb_artifacts) ar_default of
        None \<Rightarrow> decision | Some d \<Rightarrow> most_restrictive_decision decision d) Allow bundles"

definition merge_provenance :: "policy_bundle option list \<Rightarrow> bool" where
  "merge_provenance bundles =
    (let vs = List.map_filter (\<lambda>b. Option.bind (Option.bind b pb_untrusted_shell_requires_approval) id) bundles
     in True \<in> set vs \<or> False \<notin> set vs)"

definition merged_object :: "policy_bundle option list \<Rightarrow> policy_bundle" where
  "merged_object bundles =
    \<lparr>pb_tools = Some (merge_tool_domain (map (\<lambda>b. Option.bind b pb_tools) bundles)),
     pb_network_egress = Some (to_raw (merge_section pb_network_egress bundles)),
     pb_secrets = Some (to_raw (merge_section pb_secrets bundles)),
     pb_connectors = Some (to_raw (merge_section pb_connectors bundles)),
     pb_artifacts = Some
       \<lparr>ar_default = Some (merge_artifacts_default bundles),
        ar_retention = merge_limits (map (\<lambda>b. Option.bind (Option.bind b pb_artifacts) ar_retention) bundles),
        ar_quota = merge_limits (map (\<lambda>b. Option.bind (Option.bind b pb_artifacts) ar_quota) bundles)\<rparr>,
     pb_untrusted_shell_requires_approval = Some (Some (merge_provenance bundles)),
     pb_auto_review_mode = None\<rparr>"

definition merge_policy_bundles :: "policy_bundle option list \<Rightarrow> policy_bundle option" where
  "merge_policy_bundles bundles = parse_bundle (merged_object bundles)"

subsection \<open>The merged domain\<close>

lemma merge_domain_fields:
  "pd_default (foldl merge_domain_step acc ds) =
     foldl most_restrictive_decision (pd_default acc) (map pd_default (List.map_filter (\<lambda>d. d) ds))"
  "set (pd_allow (foldl merge_domain_step acc ds)) =
     set (pd_allow acc) \<union> (\<Union>d \<in> {d. Some d \<in> set ds}. set (pd_allow d))"
  "set (pd_require_approval (foldl merge_domain_step acc ds)) =
     set (pd_require_approval acc) \<union> (\<Union>d \<in> {d. Some d \<in> set ds}. set (pd_require_approval d))"
  "set (pd_deny (foldl merge_domain_step acc ds)) =
     set (pd_deny acc) \<union> (\<Union>d \<in> {d. Some d \<in> set ds}. set (pd_deny d))"
proof (induction ds arbitrary: acc)
  case Nil
  { case 1 show ?case by (simp add: List.map_filter_def) }
  { case 2 show ?case by simp }
  { case 3 show ?case by simp }
  { case 4 show ?case by simp }
next
  case (Cons d ds)
  have split: "{x. Some x \<in> set (d # ds)} = set_option d \<union> {x. Some x \<in> set ds}"
    by (cases d) auto
  { case 1 show ?case using Cons.IH(1)
      by (cases d) (simp_all add: merge_domain_step_def List.map_filter_def) }
  { case 2 show ?case unfolding split foldl_Cons Cons.IH(2)
      by (cases d) (auto simp: merge_domain_step_def) }
  { case 3 show ?case unfolding split foldl_Cons Cons.IH(3)
      by (cases d) (auto simp: merge_domain_step_def) }
  { case 4 show ?case unfolding split foldl_Cons Cons.IH(4)
      by (cases d) (auto simp: merge_domain_step_def) }
qed

lemma explicit_iff:
  "evaluate_tool_decision_override d t = Some Deny \<longleftrightarrow> matches_any (pd_deny d) (trim t)"
  "evaluate_tool_decision_override d t = Some RequireApproval \<longleftrightarrow>
     \<not> matches_any (pd_deny d) (trim t) \<and> matches_any (pd_require_approval d) (trim t)"
  "evaluate_tool_decision_override d t = Some Allow \<longleftrightarrow>
     \<not> matches_any (pd_deny d) (trim t) \<and> \<not> matches_any (pd_require_approval d) (trim t) \<and>
     matches_any (pd_allow d) (trim t)"
  "evaluate_tool_decision_override d t = None \<longleftrightarrow>
     \<not> matches_any (pd_deny d) (trim t) \<and> \<not> matches_any (pd_require_approval d) (trim t) \<and>
     \<not> matches_any (pd_allow d) (trim t)"
  by (auto simp: evaluate_tool_decision_override_def Let_def)

text \<open>The verdicts that the members give explicitly, in order.\<close>

definition explicit_verdicts :: "policy_domain option list \<Rightarrow> string \<Rightarrow> decision list" where
  "explicit_verdicts ds t =
    List.map_filter (\<lambda>d. Option.bind d (\<lambda>x. evaluate_tool_decision_override x t)) ds"

lemma set_explicit_verdicts:
  "v \<in> set (explicit_verdicts ds t) \<longleftrightarrow>
    (\<exists>d. Some d \<in> set ds \<and> evaluate_tool_decision_override d t = Some v)"
proof -
  have "v \<in> set (List.map_filter f ds) \<longleftrightarrow> (\<exists>x \<in> set ds. f x = Some v)" for f
    by (auto simp: List.map_filter_def image_iff)
  then show ?thesis by (auto simp: explicit_verdicts_def bind_eq_Some_conv)
qed

lemma merge_domain_matches:
  "matches_any (pd_deny (merge_domain ds f)) u \<longleftrightarrow> (\<exists>d. Some d \<in> set ds \<and> matches_any (pd_deny d) u)"
  "matches_any (pd_require_approval (merge_domain ds f)) u \<longleftrightarrow>
     (\<exists>d. Some d \<in> set ds \<and> matches_any (pd_require_approval d) u)"
  "matches_any (pd_allow (merge_domain ds f)) u \<longleftrightarrow> (\<exists>d. Some d \<in> set ds \<and> matches_any (pd_allow d) u)"
  by (auto simp: merge_domain_def matches_any_iff merge_domain_fields)

lemma decision_fold_cases:
  "foldl most_restrictive_decision Allow vs =
    (if Deny \<in> set vs then Deny else if RequireApproval \<in> set vs then RequireApproval else Allow)"
  using restrict.foldl_ge_member [of _ vs Allow] restrict.foldl_reached [of Allow vs]
  by (cases "foldl most_restrictive_decision Allow vs") (auto split: if_splits; force)+

lemma merged_explicit:
  "evaluate_tool_decision_override (merge_domain ds f) t =
    (if explicit_verdicts ds t = [] then None
     else Some (foldl most_restrictive_decision Allow (explicit_verdicts ds t)))"
proof -
  have mem: "explicit_verdicts ds t = [] \<longleftrightarrow>
      (\<forall>d. Some d \<in> set ds \<longrightarrow> evaluate_tool_decision_override d t = None)"
    using set_explicit_verdicts [of _ ds t]
    by (metis list.set_intros(1) neq_Nil_conv not_Some_eq empty_iff list.set(1))
  show ?thesis
  proof (cases "evaluate_tool_decision_override (merge_domain ds f) t")
    case None
    then show ?thesis unfolding mem explicit_iff by (auto simp: merge_domain_matches mem explicit_iff)
  next
    case (Some v)
    then have "explicit_verdicts ds t \<noteq> []"
      by (cases v) (auto simp: mem explicit_iff merge_domain_matches)
    with Some show ?thesis
      by (cases v) (auto simp: decision_fold_cases set_explicit_verdicts explicit_iff merge_domain_matches)
  qed
qed

text \<open>
  The verdict of a merged domain: when any member has a matching pattern, the most
  restrictive of the members' explicit verdicts; otherwise the most restrictive of the
  fallback and the members' defaults.
\<close>

theorem merged_domain_verdict:
  "evaluate_domain (merge_domain ds f) t =
    (if explicit_verdicts ds t = []
     then foldl most_restrictive_decision f (map pd_default (List.map_filter (\<lambda>d. d) ds))
     else foldl most_restrictive_decision Allow (explicit_verdicts ds t))"
  by (simp add: evaluate_domain_explicit merged_explicit)
    (simp add: merge_domain_def merge_domain_fields)

subsection \<open>The schema accepts what it produced\<close>

definition clean :: "string list \<Rightarrow> bool" where
  "clean xs \<longleftrightarrow> (\<forall>x \<in> set xs. trim x = x \<and> x \<noteq> [])"

lemma map_fixed_iff: "map f xs = xs \<longleftrightarrow> (\<forall>x \<in> set xs. f x = x)"
  by (induction xs) auto

lemma parse_strings_fixed: "parse_strings xs = Some xs \<longleftrightarrow> clean xs"
proof -
  have "list_all (\<lambda>x. trim x \<noteq> []) xs \<and> map trim xs = xs \<longleftrightarrow> clean xs"
    unfolding list_all_iff map_fixed_iff clean_def by (metis (full_types))
  then show ?thesis by (auto simp: parse_strings_def)
qed

lemma parse_strings_clean: "parse_strings xs = Some ys \<Longrightarrow> clean ys"
  unfolding parse_strings_def clean_def list_all_iff
  by (metis (no_types, lifting) imageE list.set_map option.discI option.inject trim_idem)

lemma settled_clean: "\<forall>x \<in> set xs. settled_tool_id x \<Longrightarrow> clean xs"
  by (auto simp: clean_def settled_tool_id_def)

lemma canonical_list_fixed_iff:
  "canonicalize_tool_id_list xs = xs \<longleftrightarrow> distinct xs \<and> (\<forall>x \<in> set xs. settled_tool_id x)"
proof
  assume h: "canonicalize_tool_id_list xs = xs"
  have "\<forall>x \<in> set (canonicalize_tool_id_list xs). settled_tool_id x"
    by (auto simp: set_canonicalize_tool_id_list intro: expand_settled split: if_splits)
  with h distinct_canonicalize_tool_id_list [of xs]
  show "distinct xs \<and> (\<forall>x \<in> set xs. settled_tool_id x)" by simp
next
  assume "distinct xs \<and> (\<forall>x \<in> set xs. settled_tool_id x)"
  then show "canonicalize_tool_id_list xs = xs"
    using canonicalize_list_fixed [of "[]" xs] by (simp add: canonicalize_tool_id_list_def)
qed

lemma canonicalize_list_settled: "\<forall>x \<in> set (canonicalize_tool_id_list xs). settled_tool_id x"
  by (auto simp: set_canonicalize_tool_id_list intro: expand_settled split: if_splits)

definition tool_list_ok :: "string list \<Rightarrow> bool" where
  "tool_list_ok xs \<longleftrightarrow> distinct xs \<and> (\<forall>x \<in> set xs. settled_tool_id x)"

lemma tool_list_ok_canonicalize [simp]: "tool_list_ok (canonicalize_tool_id_list xs)"
  by (simp add: tool_list_ok_def distinct_canonicalize_tool_id_list canonicalize_list_settled)

lemma tool_list_ok_clean: "tool_list_ok xs \<Longrightarrow> clean xs"
  by (simp add: tool_list_ok_def settled_clean)

lemma tool_list_ok_union [simp]: "tool_list_ok a \<Longrightarrow> tool_list_ok b \<Longrightarrow> tool_list_ok (union_strings a b)"
  by (auto simp: tool_list_ok_def union_strings_def)

lemma clean_union [simp]: "clean a \<Longrightarrow> clean b \<Longrightarrow> clean (union_strings a b)"
  by (auto simp: clean_def)

definition tools_ok :: "tool_lists \<Rightarrow> bool" where
  "tools_ok t \<longleftrightarrow> tool_list_ok (tl_allow t) \<and> tool_list_ok (tl_require_approval t) \<and>
    tool_list_ok (tl_deny t)"

definition domain_ok :: "raw_domain \<Rightarrow> bool" where
  "domain_ok d \<longleftrightarrow> rd_default d \<noteq> None \<and> clean (rd_allow d) \<and>
    clean (rd_require_approval d) \<and> clean (rd_deny d)"

definition artifacts_ok :: "artifacts_policy \<Rightarrow> bool" where
  "artifacts_ok a \<longleftrightarrow> ar_default a \<noteq> None \<and> opt_all valid_limits (ar_retention a) \<and>
    opt_all valid_limits (ar_quota a)"

lemma parse_tools_ok: "parse_tools t = Some u \<Longrightarrow> tools_ok u"
  by (auto simp: parse_tools_def tools_ok_def split: option.splits)

lemma parse_tools_fixed: "tools_ok t \<Longrightarrow> parse_tools t = Some t"
  using canonical_list_fixed_iff
  by (simp add: parse_tools_def tools_ok_def tool_list_ok_clean parse_strings_fixed tool_list_ok_def
      parse_strings_fixed [THEN iffD2, OF settled_clean])

lemma parse_domain_ok: "parse_domain d = Some e \<Longrightarrow> domain_ok e"
  by (auto simp: parse_domain_def domain_ok_def parse_strings_clean split: option.splits)

lemma parse_domain_fixed: "domain_ok d \<Longrightarrow> parse_domain d = Some d"
  by (cases d) (auto simp: parse_domain_def domain_ok_def parse_strings_fixed [THEN iffD2])

lemma parse_artifacts_ok: "parse_artifacts a = Some b \<Longrightarrow> artifacts_ok b"
  by (auto simp: parse_artifacts_def artifacts_ok_def split: if_splits option.splits)

lemma parse_artifacts_fixed: "artifacts_ok a \<Longrightarrow> parse_artifacts a = Some a"
  by (cases a) (auto simp: parse_artifacts_def artifacts_ok_def)

text \<open>The shape of a parsed bundle.\<close>

definition bundle_ok :: "policy_bundle \<Rightarrow> bool" where
  "bundle_ok b \<longleftrightarrow>
    opt_all tools_ok (pb_tools b) \<and> opt_all domain_ok (pb_network_egress b) \<and>
    opt_all domain_ok (pb_secrets b) \<and> opt_all domain_ok (pb_connectors b) \<and>
    opt_all artifacts_ok (pb_artifacts b) \<and>
    opt_all (\<lambda>v. v \<noteq> None) (pb_untrusted_shell_requires_approval b) \<and>
    pb_auto_review_mode b \<noteq> None"

lemma parse_section_ok:
  "parse_section p v = Some w \<Longrightarrow> (\<And>x y. p x = Some y \<Longrightarrow> P y) \<Longrightarrow> opt_all P w"
  by (auto simp: parse_section_def opt_all_def split: option.splits)

lemma parse_section_fixed:
  "opt_all P v \<Longrightarrow> (\<And>x. P x \<Longrightarrow> p x = Some x) \<Longrightarrow> parse_section p v = Some v"
  by (auto simp: parse_section_def opt_all_def split: option.splits)

lemma shell_default_ok:
  "opt_all (\<lambda>v. \<exists>y. v = Some y) (map_option (case_option (Some True) Some) w)"
  by (cases w) (auto simp: opt_all_def split: option.splits)

lemma parse_bundle_ok: "parse_bundle a = Some b \<Longrightarrow> bundle_ok b"
  by (auto simp: parse_bundle_def bundle_ok_def shell_default_ok
      elim!: parse_section_ok intro: parse_tools_ok parse_domain_ok parse_artifacts_ok
      split: option.splits)

lemma parse_bundle_fixed: "bundle_ok b \<Longrightarrow> parse_bundle b = Some b"
proof -
  assume b: "bundle_ok b"
  then have "parse_section parse_tools (pb_tools b) = Some (pb_tools b)"
    "parse_section parse_domain (pb_network_egress b) = Some (pb_network_egress b)"
    "parse_section parse_domain (pb_secrets b) = Some (pb_secrets b)"
    "parse_section parse_domain (pb_connectors b) = Some (pb_connectors b)"
    "parse_section parse_artifacts (pb_artifacts b) = Some (pb_artifacts b)"
    by (auto simp: bundle_ok_def intro: parse_section_fixed parse_tools_fixed parse_domain_fixed
        parse_artifacts_fixed)
  moreover have "map_option (\<lambda>v. case v of None \<Rightarrow> Some True | Some x \<Rightarrow> Some x)
      (pb_untrusted_shell_requires_approval b) = pb_untrusted_shell_requires_approval b"
    using b by (auto simp: bundle_ok_def opt_all_def split: option.splits)
  moreover have "(case pb_auto_review_mode b of None \<Rightarrow> Some AutoReview | Some m \<Rightarrow> Some m) =
      pb_auto_review_mode b"
    by (simp split: option.splits add: b [unfolded bundle_ok_def])
  ultimately show ?thesis by (simp add: parse_bundle_def)
qed

text \<open>
  The bundle schema is idempotent: parsing its own output returns it unchanged, so a
  bundle stored as JSON and parsed again is the same policy.
\<close>

theorem parse_bundle_idem:
  assumes "parse_bundle a = Some b"
  shows "parse_bundle b = Some b"
  using parse_bundle_fixed [OF parse_bundle_ok [OF assms]] .

theorem parse_bundle_idem_witness:
  "\<exists>b. default_policy_bundle = Some b \<and> parse_bundle b = Some b"
proof -
  obtain b where b: "default_policy_bundle = Some b"
    by (auto simp: default_policy_bundle_def parse_bundle_def parse_section_def parse_tools_def
        parse_domain_def parse_artifacts_def parse_strings_def opt_all_def trim_def is_js_space_def)
  with parse_bundle_idem [of _ b] show ?thesis
    unfolding default_policy_bundle_def by blast
qed

subsection \<open>Merged limits are the tightest ones\<close>

lemma foldl_min_opt:
  "foldl min_opt (Some m) vs = Some (foldl min m vs)"
  by (induction vs arbitrary: m) (auto simp: min_opt_def)

lemma foldl_min_Min: "foldl min (m::int) vs = Min (insert m (set vs))"
proof (induction vs arbitrary: m)
  case Nil
  then show ?case by simp
next
  case (Cons v vs)
  have "foldl min m (v # vs) = Min (insert (min m v) (set vs))" using Cons by simp
  also have "\<dots> = Min (insert m (insert v (set vs)))"
    by (cases "set vs = {}") (simp_all add: min.assoc)
  finally show ?case by simp
qed

definition tightest :: "int list \<Rightarrow> int option" where
  "tightest vs = (if vs = [] then None else Some (Min (set vs)))"

lemma foldl_min_opt_tightest: "foldl min_opt None vs = tightest vs"
  by (cases vs) (simp_all add: tightest_def foldl_min_opt foldl_min_Min min_opt_def [of None])

lemma min_or_undefined_tightest: "min_or_undefined vs = tightest vs"
  by (cases vs) (simp_all add: tightest_def min_or_undefined_def foldl_min_Min)

lemma merge_pos_eq: "merge_pos acc v = foldl min_opt acc (positive_values [v])"
  by (cases v) (auto simp: merge_pos_def positive_values_def List.map_filter_def)

lemma tightest_positive: "\<forall>v \<in> set vs. 0 < v \<Longrightarrow> positive_opt (tightest vs)"
  by (auto simp: positive_opt_def tightest_def)

lemma positive_values_pos: "\<forall>v \<in> set (positive_values vs). 0 < v"
  by (simp add: positive_values_def)

definition label_values :: "string \<Rightarrow> (string \<times> int) list \<Rightarrow> int list" where
  "label_values k es = map snd (filter (\<lambda>e. fst e = k \<and> 0 < snd e) es)"

lemma merge_label_entries:
  "om_get (foldl merge_label_entry acc es) k = foldl min_opt (om_get acc k) (label_values k es)"
  by (induction es arbitrary: acc)
    (auto simp: merge_label_entry_def label_values_def min_opt_def split: option.splits)

definition raw_entries :: "'a list option list \<Rightarrow> 'a list" where
  "raw_entries raws = concat (List.map_filter (\<lambda>r. r) raws)"

lemma foldl_raws:
  "foldl (\<lambda>m raw. case raw of None \<Rightarrow> m | Some es \<Rightarrow> foldl f m es) acc raws =
    foldl f acc (raw_entries raws)"
  by (induction raws arbitrary: acc) (auto simp: raw_entries_def List.map_filter_def split: option.splits)

lemma merge_by_label_entries: "merge_by_label raws = foldl merge_label_entry [] (raw_entries raws)"
  unfolding merge_by_label_def by (rule foldl_raws)

lemma merge_by_label_sensitivity_entries:
  "merge_by_label_sensitivity raws = foldl merge_label_sens_entry [] (raw_entries raws)"
  unfolding merge_by_label_sensitivity_def by (rule foldl_raws)

text \<open>
  Merged retention and quota limits per label are exactly the smallest positive limit any
  bundle sets for that label, and absent when no bundle sets one.
\<close>

theorem merge_by_label_tightest:
  "om_get (merge_by_label raws) k = tightest (label_values k (raw_entries raws))"
  by (simp add: merge_by_label_entries merge_label_entries foldl_min_opt_tightest)

subsection \<open>Merging parsed bundles succeeds\<close>

lemma merge_label_entries_positive:
  "\<forall>e \<in> set acc. 0 < snd e \<Longrightarrow> \<forall>e \<in> set (foldl merge_label_entry acc es). 0 < snd e"
proof (induction es arbitrary: acc)
  case Nil
  then show ?case by simp
next
  case (Cons e es)
  have set_upd: "snd x = v \<or> x \<in> set m" if "x \<in> set (om_set k v m)" for x k v and m :: "(string, int) omap"
    using that by (induction m) (auto split: if_splits)
  have "\<forall>x \<in> set (merge_label_entry acc e). 0 < snd x"
    using Cons.prems set_upd [of _ "fst e" _ acc]
    by (auto simp: merge_label_entry_def om_get_def split: option.splits dest!: map_of_SomeD) force+
  then show ?case using Cons.IH by simp
qed

lemma positive_opt_min: "positive_opt a \<Longrightarrow> positive_opt (merge_pos a v)"
  by (auto simp: positive_opt_def merge_pos_def min_opt_def split: option.splits)

lemma merge_label_sens_entries_valid:
  "\<forall>e \<in> set acc. valid_sensitivity (snd e) \<Longrightarrow>
    \<forall>e \<in> set (foldl merge_label_sens_entry acc es). valid_sensitivity (snd e)"
proof (induction es arbitrary: acc)
  case Nil
  then show ?case by simp
next
  case (Cons e es)
  have set_upd: "snd x = v \<or> x \<in> set m" if "x \<in> set (om_set k v m)"
    for x k v and m :: "(string, sensitivity_limits) omap"
    using that by (induction m) (auto split: if_splits)
  let ?entry = "case om_get acc (fst e) of
    None \<Rightarrow> \<lparr>sl_normal = None, sl_sensitive = None\<rparr> | Some x \<Rightarrow> x"
  have "valid_sensitivity ?entry"
    using Cons.prems
    by (auto simp: om_get_def valid_sensitivity_def positive_opt_def split: option.split dest!: map_of_SomeD)
  then have new: "valid_sensitivity \<lparr>sl_normal = merge_pos (sl_normal ?entry) u,
      sl_sensitive = merge_pos (sl_sensitive ?entry) v\<rparr>" for u v
    by (simp add: valid_sensitivity_def positive_opt_min)
  have "valid_sensitivity (snd x)" if x: "x \<in> set (merge_label_sens_entry acc e)" for x
    using set_upd [OF x [unfolded merge_label_sens_entry_def Let_def]] new Cons.prems by auto
  then show ?case using Cons.IH [of "merge_label_sens_entry acc e"] by auto
qed

lemma valid_merge_limits: "opt_all valid_limits (merge_limits ls)"
proof -
  have "positive_opt (min_or_undefined (positive_values vs))" for vs
    by (simp add: min_or_undefined_tightest tightest_positive positive_values_pos)
  moreover have "valid_sensitivity (merge_by_sensitivity vs)" for vs
    by (simp add: valid_sensitivity_def merge_by_sensitivity_def foldl_min_opt_tightest
        tightest_positive positive_values_pos)
  moreover have "\<forall>e \<in> set (merge_by_label raws). 0 < snd e" for raws
    using merge_label_entries_positive [of "[]" "raw_entries raws"] by (simp add: merge_by_label_entries)
  moreover have "\<forall>e \<in> set (merge_by_label_sensitivity raws). valid_sensitivity (snd e)" for raws
    using merge_label_sens_entries_valid [of "[]" "raw_entries raws"]
    by (simp add: merge_by_label_sensitivity_entries)
  ultimately show ?thesis
    unfolding merge_limits_def Let_def opt_all_def valid_limits_def by (simp add: list_all_iff)
qed

lemma merge_tools_ok:
  "tools_ok acc \<Longrightarrow> \<forall>t. Some t \<in> set ts \<longrightarrow> tools_ok t \<Longrightarrow> tools_ok (foldl merge_tool_step acc ts)"
proof (induction ts arbitrary: acc)
  case Nil
  then show ?case by simp
next
  case (Cons t ts)
  then have "tools_ok (merge_tool_step acc t)"
    by (cases t) (auto simp: merge_tool_step_def tools_ok_def)
  with Cons show ?case by simp
qed

definition patterns_clean :: "policy_domain \<Rightarrow> bool" where
  "patterns_clean d \<longleftrightarrow> clean (pd_allow d) \<and> clean (pd_require_approval d) \<and> clean (pd_deny d)"

lemma merge_domain_clean:
  "patterns_clean acc \<Longrightarrow> \<forall>d. Some d \<in> set ds \<longrightarrow> patterns_clean d \<Longrightarrow>
    patterns_clean (foldl merge_domain_step acc ds)"
proof (induction ds arbitrary: acc)
  case Nil
  then show ?case by simp
next
  case (Cons d ds)
  then have "patterns_clean (merge_domain_step acc d)"
    by (cases d) (auto simp: merge_domain_step_def patterns_clean_def)
  with Cons show ?case by simp
qed

lemma section_domain_clean:
  "opt_all domain_ok (sec b) \<Longrightarrow> section_domain sec (Some b) = Some d \<Longrightarrow> patterns_clean d"
  by (auto simp: section_domain_def opt_all_def domain_ok_def patterns_clean_def normalize_domain_def
      split: option.splits)

lemma merge_section_ok:
  assumes "\<And>b. Some b \<in> set bs \<Longrightarrow> opt_all domain_ok (sec b)"
  shows "domain_ok (to_raw (merge_section sec bs))"
proof -
  have "patterns_clean d" if d: "Some d \<in> set (map (section_domain sec) bs)" for d
  proof -
    from d obtain b where b: "b \<in> set bs" "section_domain sec b = Some d" by force
    have "section_domain sec None = None" by (simp add: section_domain_def)
    with b(2) obtain x where "b = Some x" by (cases b) auto
    with b assms show ?thesis using section_domain_clean by blast
  qed
  then have "patterns_clean (merge_section sec bs)"
    unfolding merge_section_def merge_domain_def
    by (intro merge_domain_clean) (auto simp: patterns_clean_def clean_def)
  then show ?thesis by (simp add: domain_ok_def to_raw_def patterns_clean_def)
qed

lemma parse_bundle_default_mode:
  "pb_auto_review_mode b = None \<Longrightarrow>
    parse_bundle b = parse_bundle (b\<lparr>pb_auto_review_mode := Some AutoReview\<rparr>)"
  by (simp add: parse_bundle_def cong: option.case_cong)

lemma merge_policy_bundles_parsed:
  assumes "\<And>b. Some b \<in> set bs \<Longrightarrow> parse_bundle b = Some b"
  shows "merge_policy_bundles bs =
    Some ((merged_object bs)\<lparr>pb_auto_review_mode := Some AutoReview\<rparr>)"
proof -
  have ok: "Some b \<in> set bs \<Longrightarrow> bundle_ok b" for b
    using assms parse_bundle_ok by blast
  let ?m = "(merged_object bs)\<lparr>pb_auto_review_mode := Some AutoReview\<rparr>"
  have tools: "tools_ok (merge_tool_domain (map (\<lambda>b. Option.bind b pb_tools) bs))"
    unfolding merge_tool_domain_def
  proof (rule merge_tools_ok)
    show "\<forall>t. Some t \<in> set (map (\<lambda>b. Option.bind b pb_tools) bs) \<longrightarrow> tools_ok t"
    proof (intro allI impI)
      fix t assume "Some t \<in> set (map (\<lambda>b. Option.bind b pb_tools) bs)"
      then obtain x where x: "Some x \<in> set bs" "pb_tools x = Some t"
        by (metis (no_types, lifting) bind_eq_Some_conv imageE list.set_map)
      from ok [OF x(1)] x(2) show "tools_ok t" by (simp add: bundle_ok_def opt_all_def)
    qed
  qed (simp add: tools_ok_def tool_list_ok_def)
  have "bundle_ok ?m"
    unfolding bundle_ok_def merged_object_def
    using tools merge_section_ok [of bs pb_network_egress] merge_section_ok [of bs pb_secrets]
      merge_section_ok [of bs pb_connectors] ok valid_merge_limits
    by (simp add: bundle_ok_def artifacts_ok_def)
  then have "parse_bundle ?m = Some ?m" by (rule parse_bundle_fixed)
  moreover have "parse_bundle (merged_object bs) = parse_bundle ?m"
    by (rule parse_bundle_default_mode) (simp add: merged_object_def)
  ultimately show ?thesis by (simp add: merge_policy_bundles_def)
qed

text \<open>
  Merging bundles that passed the schema never fails the schema again: the effective
  bundle exists, and it is the merged object with the review mode reset to its default.
\<close>

theorem merge_policy_bundles_total:
  assumes "\<And>b. Some b \<in> set bs \<Longrightarrow> parse_bundle b = Some b"
  shows "merge_policy_bundles bs =
    Some ((merged_object bs)\<lparr>pb_auto_review_mode := Some AutoReview\<rparr>)"
  by (rule merge_policy_bundles_parsed [OF assms])

lemma merge_policy_bundles_total_witness:
  "merge_policy_bundles [Some (the default_policy_bundle), None] =
    Some ((merged_object [Some (the default_policy_bundle), None])
      \<lparr>pb_auto_review_mode := Some AutoReview\<rparr>)"
proof (rule merge_policy_bundles_total)
  fix b assume "Some b \<in> set [Some (the default_policy_bundle), None]"
  then have "b = the default_policy_bundle" by simp
  moreover have "parse_bundle (the default_policy_bundle) = Some (the default_policy_bundle)"
    by code_simp
  ultimately show "parse_bundle b = Some b" by simp
qed

end
