(* ===== verification/Policy_Override_Store.thy ===== *)
theory Policy_Override_Store
  imports Policy_Tool_Id
begin

text \<open>
  \<open>gateway/src/modules/policy/override-dal.ts\<close> and \<open>runtime-policy/src/admin-service.ts\<close>: the
  table of policy overrides ("approve always" rules) and the operations on it. The table is
  a list of rows in insertion order; times are milliseconds; JSON columns are carried as
  text; \<open>randomUUID()\<close> and the clock are arguments. The UUID syntax that the schema library
  checks is the parameter \<open>uuid\<close>. A thrown exception is \<open>Inl\<close>.
\<close>

subsection \<open>Rows\<close>

datatype override_status = OverrideActive | OverrideRevoked | OverrideExpired

record override_row =
  ov_tenant :: string
  ov_id :: string
  ov_status :: override_status
  ov_agent :: string
  ov_workspace :: "string option"
  ov_tool :: string
  ov_pattern :: string
  ov_from_approval :: "string option"
  ov_from_snapshot :: "string option"
  ov_created_by :: string
  ov_expires_at :: "nat option"
  ov_revoked_at :: "nat option"
  ov_revoked_by :: "string option"
  ov_revoked_reason :: "string option"
  ov_created_at :: nat
  ov_updated_at :: nat

record override_event =
  oe_tenant :: string
  oe_at :: nat
  oe_override :: override_row

record override_db =
  od_rows :: "override_row list"
  od_outbox :: "override_event list"

datatype store_error = SchemaError | UniqueViolation

text \<open>\<open>toOverrideRow\<close>: \<open>None\<close> where \<open>PolicyOverride.parse\<close> throws.\<close>

definition to_override_row :: "(string \<Rightarrow> bool) \<Rightarrow> override_row \<Rightarrow> override_row option" where
  "to_override_row uuid raw =
    (if uuid (ov_id raw) \<and> uuid (ov_agent raw) \<and>
        (\<forall>w \<in> set_option (ov_workspace raw). uuid w) \<and>
        (\<forall>a \<in> set_option (ov_from_approval raw). uuid a) \<and>
        (\<forall>p \<in> set_option (ov_from_snapshot raw). uuid p) \<and>
        trim (ov_tool raw) \<noteq> [] \<and> trim (ov_pattern raw) \<noteq> []
     then Some (raw\<lparr>ov_tool := canonicalize_tool_id (ov_tool raw),
                    ov_pattern := trim (ov_pattern raw),
                    ov_revoked_by := Some (case ov_revoked_by raw of None \<Rightarrow> ''{}'' | Some j \<Rightarrow> j)\<rparr>)
     else None)"

definition to_override_rows ::
  "(string \<Rightarrow> bool) \<Rightarrow> override_row list \<Rightarrow> store_error + override_row list" where
  "to_override_rows uuid raws =
    (case those (map (to_override_row uuid) raws) of None \<Rightarrow> Inl SchemaError | Some rows \<Rightarrow> Inr rows)"

text \<open>\<open>ORDER BY created_at DESC\<close>, ties in insertion order.\<close>

definition newest_first :: "override_row list \<Rightarrow> override_row list" where
  "newest_first rows = sort_key (\<lambda>r. - int (ov_created_at r)) rows"

lemma set_newest_first [simp]: "set (newest_first rows) = set rows"
  by (simp add: newest_first_def)

subsection \<open>Operations\<close>

definition list_overrides ::
  "(string \<Rightarrow> bool) \<Rightarrow> string \<Rightarrow> string option \<Rightarrow> string option \<Rightarrow> override_status option \<Rightarrow> int option
    \<Rightarrow> override_db \<Rightarrow> store_error + override_row list" where
  "list_overrides uuid tenant agent tool status limit db =
    to_override_rows uuid
      (take (nat (max 1 (min 500 (case limit of None \<Rightarrow> 100 | Some n \<Rightarrow> n))))
        (newest_first (filter (\<lambda>r.
           ov_tenant r = tenant \<and>
           (nonempty agent \<longrightarrow> ov_agent r = the agent) \<and>
           (nonempty tool \<longrightarrow> ov_tool r = canonicalize_tool_id (the tool)) \<and>
           (case status of None \<Rightarrow> True | Some st \<Rightarrow> ov_status r = st)) (od_rows db))))"

definition get_override ::
  "(string \<Rightarrow> bool) \<Rightarrow> string \<Rightarrow> string \<Rightarrow> override_db \<Rightarrow> store_error + override_row option" where
  "get_override uuid tenant oid db =
    (case find (\<lambda>r. ov_tenant r = tenant \<and> ov_id r = oid) (od_rows db) of
       None \<Rightarrow> Inr None
     | Some raw \<Rightarrow>
         (case to_override_row uuid raw of None \<Rightarrow> Inl SchemaError | Some r \<Rightarrow> Inr (Some r)))"

record create_params =
  cp_tenant :: string
  cp_agent :: string
  cp_workspace :: "string option"
  cp_tool :: string
  cp_pattern :: string
  cp_created_by :: "string option"
  cp_from_approval :: "string option"
  cp_from_snapshot :: "string option"
  cp_expires_at :: "nat option"

definition inserted_override :: "string \<Rightarrow> nat \<Rightarrow> create_params \<Rightarrow> override_row" where
  "inserted_override new_id now p =
    \<lparr>ov_tenant = cp_tenant p, ov_id = new_id, ov_status = OverrideActive,
     ov_agent = cp_agent p, ov_workspace = cp_workspace p,
     ov_tool = canonicalize_tool_id (cp_tool p), ov_pattern = trim (cp_pattern p),
     ov_from_approval = cp_from_approval p, ov_from_snapshot = cp_from_snapshot p,
     ov_created_by = (case cp_created_by p of None \<Rightarrow> ''{}'' | Some j \<Rightarrow> j),
     ov_expires_at = cp_expires_at p, ov_revoked_at = None, ov_revoked_by = None,
     ov_revoked_reason = None, ov_created_at = now, ov_updated_at = now\<rparr>"

definition create_override ::
  "(string \<Rightarrow> bool) \<Rightarrow> string \<Rightarrow> nat \<Rightarrow> create_params \<Rightarrow> override_db
    \<Rightarrow> (store_error + override_row) \<times> override_db" where
  "create_override uuid new_id now p db =
    (let row = inserted_override new_id now p in
     if \<exists>r \<in> set (od_rows db). ov_tenant r = cp_tenant p \<and> ov_id r = new_id
     then (Inl UniqueViolation, db)
     else ((case to_override_row uuid row of None \<Rightarrow> Inl SchemaError | Some r \<Rightarrow> Inr r),
           db\<lparr>od_rows := od_rows db @ [row]\<rparr>))"

definition revocable :: "string \<Rightarrow> string \<Rightarrow> override_row \<Rightarrow> bool" where
  "revocable tenant oid r \<longleftrightarrow> ov_tenant r = tenant \<and> ov_id r = oid \<and> ov_status r = OverrideActive"

definition revoked_row :: "nat \<Rightarrow> string option \<Rightarrow> string option \<Rightarrow> override_row \<Rightarrow> override_row" where
  "revoked_row now revoked_by reason r =
    r\<lparr>ov_status := OverrideRevoked, ov_revoked_at := Some now,
      ov_revoked_by := Some (case revoked_by of None \<Rightarrow> ''{}'' | Some j \<Rightarrow> j),
      ov_revoked_reason := reason, ov_updated_at := now\<rparr>"

definition revoke_override ::
  "(string \<Rightarrow> bool) \<Rightarrow> nat \<Rightarrow> string \<Rightarrow> string \<Rightarrow> string option \<Rightarrow> string option \<Rightarrow> override_db
    \<Rightarrow> (store_error + override_row option) \<times> override_db" where
  "revoke_override uuid now tenant oid revoked_by reason db =
    (if \<exists>r \<in> set (od_rows db). revocable tenant oid r
     then (let db' = db\<lparr>od_rows := map (\<lambda>r. if revocable tenant oid r
                          then revoked_row now revoked_by reason r else r) (od_rows db)\<rparr>
           in (get_override uuid tenant oid db', db'))
     else (Inr None, db))"

definition stale :: "string \<Rightarrow> nat \<Rightarrow> override_row \<Rightarrow> bool" where
  "stale tenant now r \<longleftrightarrow> ov_tenant r = tenant \<and> ov_status r = OverrideActive \<and>
    (case ov_expires_at r of None \<Rightarrow> False | Some t \<Rightarrow> t \<le> now)"

definition expired_row :: "nat \<Rightarrow> override_row \<Rightarrow> override_row" where
  "expired_row now r = r\<lparr>ov_status := OverrideExpired, ov_updated_at := now\<rparr>"

text \<open>One transaction: a row that fails the schema rolls the update back.\<close>

definition expire_stale ::
  "(string \<Rightarrow> bool) \<Rightarrow> string \<Rightarrow> nat \<Rightarrow> override_db \<Rightarrow> (store_error + override_row list) \<times> override_db" where
  "expire_stale uuid tenant now db =
    (case to_override_rows uuid (map (expired_row now) (filter (stale tenant now) (od_rows db))) of
       Inl e \<Rightarrow> (Inl e, db)
     | Inr rows \<Rightarrow>
         (Inr rows,
          \<lparr>od_rows = map (\<lambda>r. if stale tenant now r then expired_row now r else r) (od_rows db),
           od_outbox = od_outbox db @
             map (\<lambda>r. \<lparr>oe_tenant = tenant, oe_at = now, oe_override = r\<rparr>) rows\<rparr>))"

definition applicable ::
  "string \<Rightarrow> string \<Rightarrow> string option \<Rightarrow> string \<Rightarrow> nat \<Rightarrow> override_row \<Rightarrow> bool" where
  "applicable tenant agent workspace tool now r \<longleftrightarrow>
    ov_tenant r = tenant \<and> ov_status r = OverrideActive \<and> ov_agent r = agent \<and> ov_tool r = tool \<and>
    (ov_workspace r = None \<or> (workspace \<noteq> None \<and> ov_workspace r = workspace)) \<and>
    (case ov_expires_at r of None \<Rightarrow> True | Some t \<Rightarrow> now < t)"

definition list_active_for_tool ::
  "(string \<Rightarrow> bool) \<Rightarrow> nat \<Rightarrow> string \<Rightarrow> string \<Rightarrow> string option \<Rightarrow> string \<Rightarrow> override_db
    \<Rightarrow> (store_error + override_row list) \<times> override_db" where
  "list_active_for_tool uuid now tenant agent workspace tool db =
    (case expire_stale uuid tenant now db of
       (Inl e, db') \<Rightarrow> (Inl e, db')
     | (Inr _, db') \<Rightarrow>
         (to_override_rows uuid
            (newest_first (filter (applicable tenant agent workspace tool now) (od_rows db'))), db'))"

subsection \<open>The admin service\<close>

definition admin_list_overrides ::
  "(string \<Rightarrow> bool) \<Rightarrow> nat \<Rightarrow> string \<Rightarrow> string option \<Rightarrow> string option \<Rightarrow> override_status option
    \<Rightarrow> int option \<Rightarrow> override_db \<Rightarrow> (store_error + override_row list) \<times> override_db" where
  "admin_list_overrides uuid now tenant agent tool status limit db =
    (case expire_stale uuid tenant now db of
       (Inl e, db') \<Rightarrow> (Inl e, db')
     | (Inr _, db') \<Rightarrow> (list_overrides uuid tenant agent tool status limit db', db'))"

definition admin_create_override ::
  "(string \<Rightarrow> bool) \<Rightarrow> string \<Rightarrow> nat \<Rightarrow> create_params \<Rightarrow> override_db
    \<Rightarrow> (store_error + override_row) \<times> override_db" where
  "admin_create_override = create_override"

definition admin_revoke_override ::
  "(string \<Rightarrow> bool) \<Rightarrow> nat \<Rightarrow> string \<Rightarrow> string \<Rightarrow> string option \<Rightarrow> string option \<Rightarrow> override_db
    \<Rightarrow> (store_error + override_row option) \<times> override_db" where
  "admin_revoke_override = revoke_override"


lemmas override_defs = create_override_def revoke_override_def expire_stale_def
  list_active_for_tool_def admin_list_overrides_def admin_create_override_def
  admin_revoke_override_def

subsection \<open>What the table promises its readers\<close>

text \<open>
  The interface that policy evaluation uses. \<open>granted s tn ag ws tool raw\<close> says that the store
  holds \<open>raw\<close> as a live override for that scope; a listing shows exactly those.
\<close>

locale override_store =
  fixes list_active :: "string \<Rightarrow> string \<Rightarrow> string option \<Rightarrow> string \<Rightarrow> 's
      \<Rightarrow> (store_error + override_row list) \<times> 's"
    and granted :: "'s \<Rightarrow> string \<Rightarrow> string \<Rightarrow> string option \<Rightarrow> string \<Rightarrow> override_row \<Rightarrow> bool"
  assumes listed_granted: "list_active tn ag ws tool s = (Inr rows, s') \<Longrightarrow> r \<in> set rows \<Longrightarrow>
      \<exists>raw. granted s tn ag ws tool raw \<and> ov_id r = ov_id raw \<and> ov_pattern r = trim (ov_pattern raw)"
    and granted_listed: "list_active tn ag ws tool s = (Inr rows, s') \<Longrightarrow> granted s tn ag ws tool raw \<Longrightarrow>
      \<exists>r \<in> set rows. ov_id r = ov_id raw \<and> ov_pattern r = trim (ov_pattern raw)"
begin

text \<open>Some override whose pattern covers the target is listed, exactly when one is granted.\<close>

lemma covering_override:
  assumes "list_active tn ag ws tool s = (Inr rows, s')"
  shows "(\<exists>r \<in> set rows. P (ov_pattern r)) \<longleftrightarrow>
    (\<exists>raw. granted s tn ag ws tool raw \<and> P (trim (ov_pattern raw)))"
  using listed_granted [OF assms] granted_listed [OF assms] by metis

end

lemma those_SomeD: "those xs = Some ys \<Longrightarrow> xs = map Some ys"
  by (induction xs arbitrary: ys) (auto split: option.splits)

lemma to_override_rows_Inr:
  "to_override_rows uuid raws = Inr rows \<longleftrightarrow> map (to_override_row uuid) raws = map Some rows"
proof -
  have "those (map Some rows) = Some rows" for rows :: "override_row list"
    by (induction rows) auto
  then show ?thesis
    by (auto simp: to_override_rows_def split: option.splits dest: those_SomeD)
qed

lemma to_override_row_fields:
  assumes "to_override_row uuid raw = Some r"
  shows "ov_id r = ov_id raw" "ov_pattern r = trim (ov_pattern raw)" "ov_status r = ov_status raw"
    "ov_tool r = canonicalize_tool_id (ov_tool raw)"
  using assms by (auto simp: to_override_row_def split: if_splits)

lemma mem_to_override_rows:
  assumes "to_override_rows uuid raws = Inr rows"
  shows "r \<in> set rows \<longleftrightarrow> (\<exists>raw \<in> set raws. to_override_row uuid raw = Some r)"
proof -
  have "set (map (to_override_row uuid) raws) = Some ` set rows"
    using assms by (simp add: to_override_rows_Inr)
  then show ?thesis by (metis (no_types, lifting) image_iff list.set_map option.inject)
qed

lemma to_override_rows_total:
  assumes "to_override_rows uuid raws = Inr rows" "raw \<in> set raws"
  shows "\<exists>r. to_override_row uuid raw = Some r"
proof -
  have "set (map (to_override_row uuid) raws) = Some ` set rows"
    using assms(1) by (simp add: to_override_rows_Inr)
  then show ?thesis using assms(2) by auto
qed

lemma applicable_not_stale: "applicable tn ag ws tool now r \<Longrightarrow> \<not> stale tn now r"
  by (auto simp: applicable_def stale_def split: option.splits)

lemma applicable_expired [simp]: "\<not> applicable tn ag ws tool now (expired_row now' r)"
  by (simp add: applicable_def expired_row_def)

lemma applicable_after_expiry:
  "filter (applicable tn ag ws tool now)
     (map (\<lambda>r. if stale tn now r then expired_row now r else r) rows) =
   filter (applicable tn ag ws tool now) rows"
  by (induction rows) (auto dest: applicable_not_stale)

lemma list_active_Inr:
  assumes "list_active_for_tool uuid now tn ag ws tool db = (Inr rows, db')"
  shows "to_override_rows uuid (newest_first (filter (applicable tn ag ws tool now) (od_rows db))) = Inr rows"
  using assms
  by (auto simp: list_active_for_tool_def expire_stale_def applicable_after_expiry
      split: sum.splits prod.splits)

definition dal_granted ::
  "nat \<Rightarrow> override_db \<Rightarrow> string \<Rightarrow> string \<Rightarrow> string option \<Rightarrow> string \<Rightarrow> override_row \<Rightarrow> bool" where
  "dal_granted now db tn ag ws tool raw \<longleftrightarrow> raw \<in> set (od_rows db) \<and> applicable tn ag ws tool now raw"

interpretation dal: override_store "list_active_for_tool uuid now" "dal_granted now" for uuid now
proof
  fix tn ag ws tool s rows s' r
  assume "list_active_for_tool uuid now tn ag ws tool s = (Inr rows, s')" "r \<in> set rows"
  then show "\<exists>raw. dal_granted now s tn ag ws tool raw \<and> ov_id r = ov_id raw \<and>
      ov_pattern r = trim (ov_pattern raw)"
    by (auto simp: mem_to_override_rows [OF list_active_Inr] dal_granted_def
        dest: to_override_row_fields)
next
  fix tn ag ws tool s rows s' raw
  assume l: "list_active_for_tool uuid now tn ag ws tool s = (Inr rows, s')"
    and g: "dal_granted now s tn ag ws tool raw"
  from g have "raw \<in> set (newest_first (filter (applicable tn ag ws tool now) (od_rows s)))"
    by (simp add: dal_granted_def)
  then obtain r where "to_override_row uuid raw = Some r" "r \<in> set rows"
    using to_override_rows_total [OF list_active_Inr [OF l]] mem_to_override_rows [OF list_active_Inr [OF l]]
    by blast
  then show "\<exists>r \<in> set rows. ov_id r = ov_id raw \<and> ov_pattern r = trim (ov_pattern raw)"
    using to_override_row_fields by blast
qed

subsection \<open>The life of an override\<close>

inductive override_step :: "(string \<Rightarrow> bool) \<Rightarrow> override_db \<Rightarrow> override_db \<Rightarrow> bool" for uuid where
  step_create: "override_step uuid db (snd (create_override uuid i now p db))"
| step_revoke: "override_step uuid db (snd (revoke_override uuid now tn i by_json why db))"
| step_expire: "override_step uuid db (snd (expire_stale uuid tn now db))"
| step_list: "override_step uuid db (snd (list_active_for_tool uuid now tn ag ws tool db))"

inductive_cases override_stepE: "override_step uuid db db'"

definition row_key :: "override_row \<Rightarrow> string \<times> string" where
  "row_key r = (ov_tenant r, ov_id r)"

definition override_db_wf :: "override_db \<Rightarrow> bool" where
  "override_db_wf db \<longleftrightarrow> distinct (map row_key (od_rows db))"

text \<open>What a later version of a row may differ in, and when it may differ at all.\<close>

definition row_evolves :: "override_row \<Rightarrow> override_row \<Rightarrow> bool" where
  "row_evolves r r' \<longleftrightarrow>
    row_key r' = row_key r \<and> ov_agent r' = ov_agent r \<and> ov_workspace r' = ov_workspace r \<and>
    ov_tool r' = ov_tool r \<and> ov_pattern r' = ov_pattern r \<and> ov_expires_at r' = ov_expires_at r \<and>
    (ov_status r \<noteq> OverrideActive \<longrightarrow> r' = r)"

lemma row_evolves_refl [simp]: "row_evolves r r"
  by (simp add: row_evolves_def)

lemma row_evolves_trans: "row_evolves r s \<Longrightarrow> row_evolves s t \<Longrightarrow> row_evolves r t"
  by (auto simp: row_evolves_def)

lemma row_evolves_revoked: "revocable tn i r \<Longrightarrow> row_evolves r (revoked_row now b w r)"
  by (simp add: row_evolves_def revocable_def revoked_row_def row_key_def)

lemma row_evolves_expired: "stale tn now r \<Longrightarrow> row_evolves r (expired_row now r)"
  by (simp add: row_evolves_def stale_def expired_row_def row_key_def)

definition db_evolves :: "override_db \<Rightarrow> override_db \<Rightarrow> bool" where
  "db_evolves db db' \<longleftrightarrow>
    (\<forall>i < length (od_rows db). i < length (od_rows db') \<and> row_evolves (od_rows db ! i) (od_rows db' ! i))"

lemma db_evolves_refl [simp]: "db_evolves db db"
  by (simp add: db_evolves_def)

lemma db_evolves_trans: "db_evolves a b \<Longrightarrow> db_evolves b c \<Longrightarrow> db_evolves a c"
  unfolding db_evolves_def using row_evolves_trans by blast

lemma db_evolves_map:
  "(\<And>r. row_evolves r (f r)) \<Longrightarrow> od_rows db' = map f (od_rows db) \<Longrightarrow> db_evolves db db'"
  by (simp add: db_evolves_def)

lemma db_evolves_append: "od_rows db' = od_rows db @ rows \<Longrightarrow> db_evolves db db'"
  by (simp add: db_evolves_def nth_append)

text \<open>A step in_place rows in place or appends one row under a fresh key.\<close>

definition in_place :: "override_db \<Rightarrow> override_db \<Rightarrow> bool" where
  "in_place db db' \<longleftrightarrow> (\<exists>f. (\<forall>r. row_evolves r (f r)) \<and> od_rows db' = map f (od_rows db))"

definition appends :: "override_db \<Rightarrow> override_db \<Rightarrow> bool" where
  "appends db db' \<longleftrightarrow>
    (\<exists>row. od_rows db' = od_rows db @ [row] \<and> row_key row \<notin> row_key ` set (od_rows db))"

lemma in_place_refl: "in_place db db"
  unfolding in_place_def by (rule exI [of _ "\<lambda>r. r"]) simp

lemma expire_stale_in_place: "in_place db (snd (expire_stale uuid tn now db))"
proof -
  let ?f = "\<lambda>r. if stale tn now r then expired_row now r else r"
  have "\<forall>r. row_evolves r (?f r)" by (simp add: row_evolves_expired)
  then have "in_place db \<lparr>od_rows = map ?f (od_rows db), od_outbox = ob\<rparr>" for ob
    unfolding in_place_def by auto
  then show ?thesis by (simp add: expire_stale_def in_place_refl split: sum.splits)
qed

lemma revoke_in_place: "in_place db (snd (revoke_override uuid now tn i by_json why db))"
proof -
  let ?f = "\<lambda>r. if revocable tn i r then revoked_row now by_json why r else r"
  have "\<forall>r. row_evolves r (?f r)" by (simp add: row_evolves_revoked)
  then have "in_place db (db\<lparr>od_rows := map ?f (od_rows db)\<rparr>)"
    unfolding in_place_def by auto
  then show ?thesis by (simp add: revoke_override_def Let_def in_place_refl)
qed

lemma create_appends:
  "snd (create_override uuid i now p db) = db \<or> appends db (snd (create_override uuid i now p db))"
  by (auto simp: create_override_def Let_def appends_def row_key_def inserted_override_def)

lemma snd_list_active: "snd (list_active_for_tool uuid now tn ag ws tool db) = snd (expire_stale uuid tn now db)"
  by (auto simp: list_active_for_tool_def split: sum.splits prod.splits)

lemma override_step_shape: "override_step uuid db db' \<Longrightarrow> in_place db db' \<or> appends db db'"
proof (erule override_stepE, goal_cases)
  case (1 i now p)
  then show ?case using create_appends in_place_refl by metis
qed (simp_all add: snd_list_active expire_stale_in_place revoke_in_place)

lemma in_place_evolves: "in_place db db' \<Longrightarrow> db_evolves db db'"
  unfolding in_place_def using db_evolves_map by blast

lemma in_place_wf: "in_place db db' \<Longrightarrow> override_db_wf db \<Longrightarrow> override_db_wf db'"
proof -
  assume "in_place db db'"
  then obtain f where f: "\<forall>r. row_evolves r (f r)" "od_rows db' = map f (od_rows db)"
    unfolding in_place_def by blast
  then have "map row_key (od_rows db') = map row_key (od_rows db)"
    by (simp add: row_evolves_def)
  then show "override_db_wf db \<Longrightarrow> override_db_wf db'" by (simp only: override_db_wf_def)
qed

lemma override_step_evolves: "override_step uuid db db' \<Longrightarrow> db_evolves db db'"
  using override_step_shape [of uuid db db'] in_place_evolves
  by (auto simp: appends_def intro: db_evolves_append)

lemma override_step_wf: "override_step uuid db db' \<Longrightarrow> override_db_wf db \<Longrightarrow> override_db_wf db'"
  using override_step_shape [of uuid db db'] in_place_wf
  by (auto simp: appends_def override_db_wf_def)

text \<open>
  C6. Over any sequence of creates, revokes, expiries and listings, override ids stay unique
  per tenant, no override disappears, what an override grants (its scope, tool, pattern and
  expiry) never changes, and once revoked or expired it never changes again.
\<close>

theorem override_history:
  assumes "(override_step uuid)\<^sup>*\<^sup>* db db'" "override_db_wf db"
  shows "override_db_wf db' \<and> db_evolves db db'"
  using assms
  by (induction rule: rtranclp_induct)
    (auto intro: override_step_wf db_evolves_trans override_step_evolves)

definition demo_uuid :: "string \<Rightarrow> bool" where
  "demo_uuid s \<longleftrightarrow> s \<noteq> []"

definition demo_params :: create_params where
  "demo_params = \<lparr>cp_tenant = ''t'', cp_agent = ''a'', cp_workspace = None, cp_tool = ''tool.exec'',
    cp_pattern = '' git *'', cp_created_by = None, cp_from_approval = None, cp_from_snapshot = None,
    cp_expires_at = Some 50\<rparr>"

definition demo_db :: override_db where
  "demo_db = snd (create_override demo_uuid ''o1'' 10 demo_params \<lparr>od_rows = [], od_outbox = []\<rparr>)"

lemma override_history_witness:
  "override_db_wf (snd (expire_stale demo_uuid ''t'' 60 demo_db)) \<and>
   db_evolves demo_db (snd (expire_stale demo_uuid ''t'' 60 demo_db))"
proof (rule override_history)
  show "(override_step demo_uuid)\<^sup>*\<^sup>* demo_db (snd (expire_stale demo_uuid ''t'' 60 demo_db))"
    by (rule r_into_rtranclp) (rule step_expire)
  show "override_db_wf demo_db" by code_simp
qed

text \<open>
  "Approve always" takes effect under every spelling of the tool: after a successful
  create, each listing for the same tenant, agent and tool (canonical or legacy name), in the
  override's workspace and before its expiry, contains it with its trimmed pattern.
\<close>

theorem created_override_listed:
  assumes "create_override uuid i now p db = (Inr r, db')"
    and "list_active_for_tool uuid now' (cp_tenant p) (cp_agent p) ws (canonicalize_tool_id t) db' =
      (Inr rows, db'')"
    and "canonicalize_tool_id t = canonicalize_tool_id (cp_tool p)"
    and "cp_workspace p = None \<or> cp_workspace p = ws"
    and "\<forall>e. cp_expires_at p = Some e \<longrightarrow> now' < e"
  shows "\<exists>r' \<in> set rows. ov_id r' = i \<and> ov_pattern r' = trim (cp_pattern p)"
proof -
  have "od_rows db' = od_rows db @ [inserted_override i now p]"
    using assms(1) by (auto simp: create_override_def Let_def split: if_splits)
  then have "dal_granted now' db' (cp_tenant p) (cp_agent p) ws (canonicalize_tool_id t)
      (inserted_override i now p)"
    using assms(3-5)
    by (auto simp: dal_granted_def applicable_def inserted_override_def split: option.splits)
  from dal.granted_listed [OF assms(2) this] show ?thesis
    by (simp add: inserted_override_def)
qed

lemma created_override_listed_witness:
  "\<exists>r' \<in> set (projr (fst (list_active_for_tool demo_uuid 40 ''t'' ''a'' (Some ''w'')
      (canonicalize_tool_id ''bash'') demo_db))).
    ov_id r' = ''o1'' \<and> ov_pattern r' = trim (cp_pattern demo_params)"
proof (rule created_override_listed [where p = demo_params and t = "''bash''" and now' = 40
      and ws = "Some ''w''" and uuid = demo_uuid and now = 10 and db = "\<lparr>od_rows = [], od_outbox = []\<rparr>"
      and db' = demo_db and i = "''o1''"
      and r = "projr (fst (create_override demo_uuid ''o1'' 10 demo_params \<lparr>od_rows = [], od_outbox = []\<rparr>))"
      and db'' = "snd (list_active_for_tool demo_uuid 40 ''t'' ''a'' (Some ''w'')
        (canonicalize_tool_id ''bash'') demo_db)"])
  show "create_override demo_uuid ''o1'' 10 demo_params \<lparr>od_rows = [], od_outbox = []\<rparr> =
      (Inr (projr (fst (create_override demo_uuid ''o1'' 10 demo_params \<lparr>od_rows = [], od_outbox = []\<rparr>))),
       demo_db)"
    by code_simp
  show "list_active_for_tool demo_uuid 40 (cp_tenant demo_params) (cp_agent demo_params) (Some ''w'')
      (canonicalize_tool_id ''bash'') demo_db =
      (Inr (projr (fst (list_active_for_tool demo_uuid 40 ''t'' ''a'' (Some ''w'')
         (canonicalize_tool_id ''bash'') demo_db))),
       snd (list_active_for_tool demo_uuid 40 ''t'' ''a'' (Some ''w'')
         (canonicalize_tool_id ''bash'') demo_db))"
    by code_simp
  show "canonicalize_tool_id ''bash'' = canonicalize_tool_id (cp_tool demo_params)" by code_simp
  show "cp_workspace demo_params = None \<or> cp_workspace demo_params = Some ''w''"
    by (simp add: demo_params_def)
  show "\<forall>e. cp_expires_at demo_params = Some e \<longrightarrow> 40 < e" by (simp add: demo_params_def)
qed

text \<open>
  Expiry is complete and is announced once: after a successful sweep no override of the
  tenant is past its expiry, exactly one event per expired override was queued, and sweeping
  again at the same time changes nothing.
\<close>

theorem expire_stale_once:
  assumes "expire_stale uuid tn now db = (Inr rows, db')"
  shows "filter (stale tn now) (od_rows db') = [] \<and>
    map oe_override (od_outbox db') = map oe_override (od_outbox db) @ rows \<and>
    length rows = length (filter (stale tn now) (od_rows db)) \<and>
    expire_stale uuid tn now db' = (Inr [], db')"
proof -
  have rows: "map (to_override_row uuid) (map (expired_row now) (filter (stale tn now) (od_rows db))) =
      map Some rows"
    and db': "db' = \<lparr>od_rows = map (\<lambda>r. if stale tn now r then expired_row now r else r) (od_rows db),
      od_outbox = od_outbox db @ map (\<lambda>r. \<lparr>oe_tenant = tn, oe_at = now, oe_override = r\<rparr>) rows\<rparr>"
    using assms by (auto simp: expire_stale_def to_override_rows_Inr split: sum.splits)
  have settled: "\<not> stale tn now (expired_row now r)" for r
    by (simp add: stale_def expired_row_def)
  then have none: "filter (stale tn now) (od_rows db') = []"
    by (auto simp: db' filter_empty_conv)
  then have "map (\<lambda>r. if stale tn now r then expired_row now r else r) (od_rows db') = od_rows db'"
    by (auto simp: filter_empty_conv intro: map_idI)
  with none have "expire_stale uuid tn now db' = (Inr [], db')"
    by (simp add: expire_stale_def to_override_rows_def)
  then show ?thesis
    using none arg_cong [OF rows, of length] by (simp add: db' comp_def)
qed

lemma expire_stale_once_witness:
  "filter (stale ''t'' 60) (od_rows (snd (expire_stale demo_uuid ''t'' 60 demo_db))) = [] \<and>
   length (od_outbox (snd (expire_stale demo_uuid ''t'' 60 demo_db))) = 1"
proof -
  let ?r = "expire_stale demo_uuid ''t'' 60 demo_db"
  have "?r = (Inr (projr (fst ?r)), snd ?r)" by code_simp
  from expire_stale_once [OF this] have "filter (stale ''t'' 60) (od_rows (snd ?r)) = []" by blast
  moreover have "length (od_outbox (snd ?r)) = 1" by code_simp
  ultimately show ?thesis by blast
qed

end
