(* ===== verification/Policy_Tool_Eval.thy ===== *)
theory Policy_Tool_Eval
  imports Policy_Merge Policy_Override_Store
begin

text \<open>
  \<open>runtime-policy/src/tool-evaluation.ts\<close>: the decision on one tool call. Every rule that
  fired is recorded with its detail text; the override store is consulted through the
  interface \<open>override_store\<close>, whose state is threaded through, and whose exceptions
  propagate (\<open>Inl\<close>).
\<close>

subsection \<open>Calls, rules and evaluations\<close>

datatype tool_effect = ReadOnly | StateChanging

datatype rule_kind =
    SpendLimitRule | PiiGuardrailRule | LegalComplianceRule | ConnectorScopeRule
  | ToolPolicyRule | NetworkEgressRule | SecretsRule | ProvenanceRule | PolicyOverrideRule

record policy_rule =
  pr_rule :: rule_kind
  pr_outcome :: decision
  pr_detail :: string

record provenance =
  pv_source :: string
  pv_trusted :: bool

record tool_call =
  tc_tenant :: string
  tc_agent :: string
  tc_workspace :: "string option"
  tc_tool :: string
  tc_match_target :: string
  tc_url :: "string option"
  tc_secret_scopes :: "string list option"
  tc_provenance :: "provenance option"
  tc_effect :: "tool_effect option"
  tc_role_allowed :: "bool option"

record evaluation =
  ev_decision :: decision
  ev_applied_overrides :: "string list option"
  ev_rules :: "policy_rule list"

subsection \<open>The implicit decision\<close>

definition tools_domain :: "policy_bundle \<Rightarrow> policy_domain" where
  "tools_domain b = normalize_domain
    (map_option (\<lambda>t. \<lparr>rd_default = None, rd_allow = tl_allow t,
       rd_require_approval = tl_require_approval t, rd_deny = tl_deny t\<rparr>) (pb_tools b))
    RequireApproval"

definition is_default_allowed_state_changing_tool :: "string \<Rightarrow> bool" where
  "is_default_allowed_state_changing_tool tool \<longleftrightarrow> tool_ids_match_for_rollout tool ''mcp.memory.write''"

definition resolve_implicit_tool_decision ::
  "string \<Rightarrow> tool_effect option \<Rightarrow> policy_domain \<Rightarrow> decision \<times> string" where
  "resolve_implicit_tool_decision tool effect dmn =
    (case effect of
       Some ReadOnly \<Rightarrow> (Allow, ''read_only'')
     | Some StateChanging \<Rightarrow>
         if is_default_allowed_state_changing_tool tool then (Allow, ''mcp_memory_write'')
         else (RequireApproval, ''state_changing'')
     | None \<Rightarrow> (evaluate_domain dmn tool, ''bundle''))"

subsection \<open>The evaluation, stage by stage\<close>

definition tool_stage :: "policy_bundle \<Rightarrow> tool_call \<Rightarrow> decision \<times> policy_rule list" where
  "tool_stage b c =
    (let dmn = tools_domain b;
         explicit = evaluate_tool_decision_override dmn (tc_tool c)
     in if tc_role_allowed c = Some False
        then (Deny, [\<lparr>pr_rule = ToolPolicyRule, pr_outcome = Deny,
                pr_detail = ''tool_id='' @ tc_tool c @ '';source=role_ceiling''\<rparr>])
        else (let implicit = resolve_implicit_tool_decision (tc_tool c) (tc_effect c) dmn;
                  d = (case explicit of None \<Rightarrow> fst implicit | Some x \<Rightarrow> x)
              in (d, [\<lparr>pr_rule = ToolPolicyRule, pr_outcome = d,
                   pr_detail = (case explicit of
                       None \<Rightarrow> ''tool_id='' @ tc_tool c @ '';default='' @ snd implicit
                     | Some _ \<Rightarrow> ''tool_id='' @ tc_tool c @ '';source=explicit_rule'')\<rparr>])))"

definition provenance_stage ::
  "policy_bundle \<Rightarrow> tool_call \<Rightarrow> decision \<times> policy_rule list \<Rightarrow> decision \<times> policy_rule list" where
  "provenance_stage b c acc =
    (case tc_provenance c of
       Some pv \<Rightarrow>
         if pb_untrusted_shell_requires_approval b = Some (Some True) \<and> \<not> pv_trusted pv \<and>
            trim (tc_tool c) = ''bash''
         then (most_restrictive_decision (fst acc) RequireApproval,
               snd acc @ [\<lparr>pr_rule = ProvenanceRule, pr_outcome = RequireApproval,
                 pr_detail = ''untrusted_shell_requires_approval=true (source='' @ pv_source pv @ '')''\<rparr>])
         else acc
     | None \<Rightarrow> acc)"

definition egress_stage ::
  "url_parser \<Rightarrow> policy_bundle \<Rightarrow> tool_call \<Rightarrow> decision \<times> policy_rule list" where
  "egress_stage url_parse b c =
    (if nonempty (tc_url c)
     then (let u = normalize_url_for_policy url_parse (the (tc_url c)) in
           if u \<noteq> []
           then (let d = evaluate_domain (normalize_domain (pb_network_egress b) RequireApproval) u
                 in (d, [\<lparr>pr_rule = NetworkEgressRule, pr_outcome = d, pr_detail = u\<rparr>]))
           else (Allow, []))
     else (Allow, []))"

definition secrets_decision :: "policy_bundle \<Rightarrow> string list \<Rightarrow> decision" where
  "secrets_decision b scopes =
    foldl (\<lambda>d sc. most_restrictive_decision d
        (evaluate_domain (normalize_domain (pb_secrets b) RequireApproval) sc)) Allow scopes"

definition secrets_stage :: "policy_bundle \<Rightarrow> tool_call \<Rightarrow> decision \<times> policy_rule list" where
  "secrets_stage b c =
    (case tc_secret_scopes c of
       Some (sc # scs) \<Rightarrow>
         (let d = secrets_decision b (sc # scs)
          in (d, [\<lparr>pr_rule = SecretsRule, pr_outcome = d,
               pr_detail = ''scopes='' @ show_nat (length (sc # scs))\<rparr>]))
     | _ \<Rightarrow> (Allow, []))"

definition applied_overrides :: "string \<Rightarrow> override_row list \<Rightarrow> string list" where
  "applied_overrides target rows = map ov_id (filter (\<lambda>r. wildcard_match (ov_pattern r) target) rows)"

type_synonym 's active_lister =
  "string \<Rightarrow> string \<Rightarrow> string option \<Rightarrow> string \<Rightarrow> 's \<Rightarrow> (store_error + override_row list) \<times> 's"

definition evaluate_tool_call_against_bundle ::
  "url_parser \<Rightarrow> 's active_lister \<Rightarrow> policy_bundle \<Rightarrow> tool_call \<Rightarrow> 's \<Rightarrow> (store_error + evaluation) \<times> 's" where
  "evaluate_tool_call_against_bundle url_parse list_active b c s =
    (let tool = provenance_stage b c (tool_stage b c);
         egress = egress_stage url_parse b c;
         secrets = secrets_stage b c;
         others = most_restrictive_decision (fst egress) (fst secrets);
         d = most_restrictive_decision (fst tool) others;
         rules = snd tool @ snd egress @ snd secrets
     in if tc_role_allowed c \<noteq> Some False \<and> d = RequireApproval \<and> fst tool = RequireApproval
        then (case list_active (tc_tenant c) (tc_agent c) (tc_workspace c) (tc_tool c) s of
                (Inl e, s') \<Rightarrow> (Inl e, s')
              | (Inr rows, s') \<Rightarrow>
                  (let applied = applied_overrides (tc_match_target c) rows
                   in if applied \<noteq> []
                      then (Inr \<lparr>ev_decision = most_restrictive_decision Allow others,
                                 ev_applied_overrides = Some applied,
                                 ev_rules = rules @ [\<lparr>pr_rule = PolicyOverrideRule, pr_outcome = Allow,
                                   pr_detail = ''applied_overrides='' @ join_with '','' applied\<rparr>]\<rparr>, s')
                      else (Inr \<lparr>ev_decision = d, ev_applied_overrides = None, ev_rules = rules\<rparr>, s')))
        else (Inr \<lparr>ev_decision = d, ev_applied_overrides = None, ev_rules = rules\<rparr>, s))"


subsection \<open>How the stages combine\<close>

definition tool_verdict :: "policy_bundle \<Rightarrow> tool_call \<Rightarrow> decision" where
  "tool_verdict b c = fst (provenance_stage b c (tool_stage b c))"

definition outer_verdict :: "url_parser \<Rightarrow> policy_bundle \<Rightarrow> tool_call \<Rightarrow> decision" where
  "outer_verdict url_parse b c =
    most_restrictive_decision (fst (egress_stage url_parse b c)) (fst (secrets_stage b c))"

definition asks_store :: "url_parser \<Rightarrow> policy_bundle \<Rightarrow> tool_call \<Rightarrow> bool" where
  "asks_store url_parse b c \<longleftrightarrow>
    tc_role_allowed c \<noteq> Some False \<and> tool_verdict b c = RequireApproval \<and>
    outer_verdict url_parse b c \<noteq> Deny"

lemma join_eq_require: "most_restrictive_decision RequireApproval v = RequireApproval \<longleftrightarrow> v \<noteq> Deny"
  by (cases v) (simp_all add: most_restrictive_decision_def)

lemma join_Allow [simp]: "most_restrictive_decision Allow v = v"
  by (cases v) (simp_all add: most_restrictive_decision_def)

lemma join_eq_Allow: "most_restrictive_decision a b = Allow \<longleftrightarrow> a = Allow \<and> b = Allow"
  by (cases a; cases b) (simp_all add: most_restrictive_decision_def)

lemma join_eq_Deny: "most_restrictive_decision a b = Deny \<longleftrightarrow> a = Deny \<or> b = Deny"
  by (cases a; cases b) (simp_all add: most_restrictive_decision_def)

lemma evaluate_silent:
  "\<not> asks_store url_parse b c \<Longrightarrow>
    evaluate_tool_call_against_bundle url_parse la b c s =
      (Inr \<lparr>ev_decision = most_restrictive_decision (tool_verdict b c) (outer_verdict url_parse b c),
            ev_applied_overrides = None,
            ev_rules = snd (provenance_stage b c (tool_stage b c)) @ snd (egress_stage url_parse b c) @
              snd (secrets_stage b c)\<rparr>, s)"
  unfolding evaluate_tool_call_against_bundle_def Let_def
  by (auto simp: asks_store_def tool_verdict_def outer_verdict_def join_eq_require)

lemma evaluate_asking:
  "asks_store url_parse b c \<Longrightarrow>
    evaluate_tool_call_against_bundle url_parse la b c s =
      (case la (tc_tenant c) (tc_agent c) (tc_workspace c) (tc_tool c) s of
         (Inl e, s') \<Rightarrow> (Inl e, s')
       | (Inr rows, s') \<Rightarrow>
          (let applied = applied_overrides (tc_match_target c) rows;
               rules = snd (provenance_stage b c (tool_stage b c)) @ snd (egress_stage url_parse b c) @
                 snd (secrets_stage b c)
           in if applied \<noteq> []
              then (Inr \<lparr>ev_decision = outer_verdict url_parse b c,
                         ev_applied_overrides = Some applied,
                         ev_rules = rules @ [\<lparr>pr_rule = PolicyOverrideRule, pr_outcome = Allow,
                           pr_detail = ''applied_overrides='' @ join_with '','' applied\<rparr>]\<rparr>, s')
              else (Inr \<lparr>ev_decision = RequireApproval, ev_applied_overrides = None,
                         ev_rules = rules\<rparr>, s')))"
  unfolding evaluate_tool_call_against_bundle_def Let_def
  by (auto simp: asks_store_def tool_verdict_def outer_verdict_def join_eq_require
      split: prod.splits sum.splits)

lemma applied_Nil_iff:
  "applied_overrides target rows = [] \<longleftrightarrow> \<not> (\<exists>r \<in> set rows. wildcard_match (ov_pattern r) target)"
  by (auto simp: applied_overrides_def filter_empty_conv)

lemma silent_deny: "outer_verdict url_parse b c = Deny \<or> tool_verdict b c = Deny \<Longrightarrow>
    \<not> asks_store url_parse b c"
  by (auto simp: asks_store_def)

text \<open>
  C1. A denial is final: when the role ceiling, the tool rules, the egress rules or the secret
  rules deny, the call is denied whatever the override store holds, and the store is not even
  consulted; and a call is denied in no other case.
\<close>

theorem deny_is_final:
  "(\<exists>ev s'. evaluate_tool_call_against_bundle url_parse la b c s = (Inr ev, s') \<and> ev_decision ev = Deny)
    \<longleftrightarrow> tc_role_allowed c = Some False \<or> tool_verdict b c = Deny \<or>
      fst (egress_stage url_parse b c) = Deny \<or> fst (secrets_stage b c) = Deny"
proof -
  have role: "tc_role_allowed c = Some False \<Longrightarrow> tool_verdict b c = Deny"
    by (auto simp: tool_verdict_def tool_stage_def provenance_stage_def Let_def join_eq_Deny
        split: option.splits)
  show ?thesis
  proof (cases "asks_store url_parse b c")
    case True
    then have no: "outer_verdict url_parse b c \<noteq> Deny" "tool_verdict b c \<noteq> Deny"
      by (auto simp: asks_store_def)
    show ?thesis
      using no role
      by (auto simp: evaluate_asking [OF True] Let_def outer_verdict_def join_eq_Deny
          split: prod.splits sum.splits if_splits)
  next
    case False
    then show ?thesis
      using role by (auto simp: evaluate_silent join_eq_Deny outer_verdict_def)
  qed
qed

context override_store
begin

lemma allowed_iff:
  assumes "evaluate_tool_call_against_bundle url_parse list_active b c s = (Inr ev, s')"
  shows "ev_decision ev = Allow \<longleftrightarrow> outer_verdict url_parse b c = Allow \<and>
    (tool_verdict b c = Allow \<or>
     tool_verdict b c = RequireApproval \<and> tc_role_allowed c \<noteq> Some False \<and>
     (\<exists>raw. granted s (tc_tenant c) (tc_agent c) (tc_workspace c) (tc_tool c) raw \<and>
        wildcard_match (trim (ov_pattern raw)) (tc_match_target c)))"
proof (cases "asks_store url_parse b c")
  case False
  with assms show ?thesis
    by (auto simp: evaluate_silent join_eq_Allow asks_store_def)
next
  case True
  then obtain rows where l: "list_active (tc_tenant c) (tc_agent c) (tc_workspace c) (tc_tool c) s =
      (Inr rows, s')"
    using assms by (auto simp: evaluate_asking Let_def split: prod.splits sum.splits if_splits)
  show ?thesis
    using assms True covering_override [OF l, of "\<lambda>p. wildcard_match p (tc_match_target c)"]
    by (auto simp: evaluate_asking l Let_def asks_store_def applied_Nil_iff split: if_splits)
qed

end

text \<open>
  C2. What makes a call allowed: egress and secrets allow, and either the tool verdict allows,
  or it asks for approval, the role ceiling does not forbid it, and the table holds a live
  override for exactly this tenant, agent, workspace and tool whose pattern covers the target.
\<close>

theorem allow_requires_grant:
  assumes "evaluate_tool_call_against_bundle url_parse (list_active_for_tool uuid now) b c db = (Inr ev, db')"
  shows "ev_decision ev = Allow \<longleftrightarrow> outer_verdict url_parse b c = Allow \<and>
    (tool_verdict b c = Allow \<or>
     tool_verdict b c = RequireApproval \<and> tc_role_allowed c \<noteq> Some False \<and>
     (\<exists>raw \<in> set (od_rows db).
        applicable (tc_tenant c) (tc_agent c) (tc_workspace c) (tc_tool c) now raw \<and>
        wildcard_match (trim (ov_pattern raw)) (tc_match_target c)))"
  using dal.allowed_iff [OF assms] by (auto simp: dal_granted_def)

definition demo_call :: tool_call where
  "demo_call = \<lparr>tc_tenant = ''t'', tc_agent = ''a'', tc_workspace = None, tc_tool = ''bash'',
    tc_match_target = ''git status'', tc_url = None, tc_secret_scopes = None, tc_provenance = None,
    tc_effect = Some StateChanging, tc_role_allowed = None\<rparr>"

definition demo_evaluation :: "(store_error + evaluation) \<times> override_db" where
  "demo_evaluation = evaluate_tool_call_against_bundle (\<lambda>_. None) (list_active_for_tool demo_uuid 40)
    empty_bundle demo_call demo_db"

lemma demo_evaluation_allows:
  "demo_evaluation = (Inr (projr (fst demo_evaluation)), snd demo_evaluation)"
  "ev_decision (projr (fst demo_evaluation)) = Allow"
  by code_simp+

lemma allow_requires_grant_witness:
  "\<exists>raw \<in> set (od_rows demo_db). applicable ''t'' ''a'' None ''bash'' 40 raw \<and>
    wildcard_match (trim (ov_pattern raw)) ''git status''"
proof -
  have t: "tool_verdict empty_bundle demo_call = RequireApproval" by code_simp
  from allow_requires_grant [OF demo_evaluation_allows(1) [unfolded demo_evaluation_def]]
    demo_evaluation_allows(2) [unfolded demo_evaluation_def]
  show ?thesis by (simp add: t) (simp add: demo_call_def)
qed

subsection \<open>The record explains the decision\<close>

definition outcomes :: "(rule_kind \<Rightarrow> bool) \<Rightarrow> policy_rule list \<Rightarrow> decision" where
  "outcomes P rules = foldl most_restrictive_decision Allow (map pr_outcome (filter (\<lambda>r. P (pr_rule r)) rules))"

definition is_tool_rule :: "rule_kind \<Rightarrow> bool" where
  "is_tool_rule k \<longleftrightarrow> k = ToolPolicyRule \<or> k = ProvenanceRule"

lemma not_tool_rule: "\<not> is_tool_rule PolicyOverrideRule"
  by (simp add: is_tool_rule_def)

lemma join_assoc: "most_restrictive_decision (most_restrictive_decision a b) c =
    most_restrictive_decision a (most_restrictive_decision b c)"
  by (simp add: most_restrictive_max max.assoc)

lemma foldl_join_append: "foldl most_restrictive_decision a xs =
    most_restrictive_decision a (foldl most_restrictive_decision Allow xs)"
proof (induction xs arbitrary: a)
  case Nil
  then show ?case by (cases a) (simp_all add: most_restrictive_decision_def)
next
  case (Cons x xs)
  show ?case using Cons [of "most_restrictive_decision a x"] Cons [of x] by (simp add: join_assoc)
qed

lemma outcomes_append [simp]:
  "outcomes P (xs @ ys) = most_restrictive_decision (outcomes P xs) (outcomes P ys)"
  unfolding outcomes_def by (simp add: foldl_join_append [of "foldl most_restrictive_decision Allow _"])

lemma outcomes_Cons [simp]:
  "outcomes P (r # rs) = (if P (pr_rule r) then most_restrictive_decision (pr_outcome r) (outcomes P rs)
    else outcomes P rs)"
  unfolding outcomes_def by (simp add: foldl_join_append [of "pr_outcome r"])

lemma outcomes_Nil [simp]: "outcomes P [] = Allow"
  by (simp add: outcomes_def)

lemma join_right_Allow [simp]: "most_restrictive_decision v Allow = v"
  by (cases v) (simp_all add: most_restrictive_decision_def)

lemma stage_records:
  "outcomes (\<lambda>_. True) (snd (provenance_stage b c (tool_stage b c))) = tool_verdict b c"
  "outcomes (\<lambda>k. \<not> is_tool_rule k) (snd (provenance_stage b c (tool_stage b c))) = Allow"
  "outcomes (\<lambda>_. True) (snd (egress_stage url_parse b c)) = fst (egress_stage url_parse b c)"
  "outcomes (\<lambda>k. \<not> is_tool_rule k) (snd (egress_stage url_parse b c)) = fst (egress_stage url_parse b c)"
  "outcomes (\<lambda>_. True) (snd (secrets_stage b c)) = fst (secrets_stage b c)"
  "outcomes (\<lambda>k. \<not> is_tool_rule k) (snd (secrets_stage b c)) = fst (secrets_stage b c)"
  by (auto simp: provenance_stage_def tool_stage_def tool_verdict_def egress_stage_def
      secrets_stage_def is_tool_rule_def Let_def split: option.split list.split)

text \<open>
  The decision record explains the decision: without overrides the decision is the most
  restrictive outcome among all recorded rules; with overrides applied it is the most
  restrictive outcome among the rules other than the tool and provenance rules.
\<close>

theorem record_explains_decision:
  assumes "evaluate_tool_call_against_bundle url_parse la b c s = (Inr ev, s')"
  shows "ev_decision ev = (if ev_applied_overrides ev = None then outcomes (\<lambda>_. True) (ev_rules ev)
    else outcomes (\<lambda>k. \<not> is_tool_rule k) (ev_rules ev))"
proof (cases "asks_store url_parse b c")
  case False
  from assms show ?thesis
    by (auto simp: evaluate_silent [OF False] stage_records outer_verdict_def)
next
  case True
  then have o: "most_restrictive_decision (tool_verdict b c) (outer_verdict url_parse b c) = RequireApproval"
    by (simp add: asks_store_def join_eq_require)
  from assms show ?thesis
    using o
    by (auto simp: evaluate_asking [OF True] Let_def stage_records not_tool_rule outer_verdict_def
        split: prod.splits sum.splits if_splits)
qed

lemma record_explains_decision_witness:
  "ev_decision (projr (fst demo_evaluation)) =
    outcomes (\<lambda>k. \<not> is_tool_rule k) (ev_rules (projr (fst demo_evaluation)))"
proof -
  have "ev_applied_overrides (projr (fst demo_evaluation)) \<noteq> None" by code_simp
  then show ?thesis
    using record_explains_decision
      [OF demo_evaluation_allows(1) [unfolded demo_evaluation_def], folded demo_evaluation_def]
    by (simp only: if_False)
qed

end
