(* ===== verification/Policy_Stores.thy ===== *)
theory Policy_Stores
  imports Policy_Merge "HOL-Library.List_Lexorder" "HOL-Library.Char_ord"
begin

text \<open>
  The durable bundles: \<open>gateway/src/modules/policy/config-dal.ts\<close> (revisions of deployment and
  agent bundles) behind \<open>gateway/src/modules/runtime-state/gateway-config-store.ts\<close>, and
  \<open>gateway/src/modules/policy/snapshot-dal.ts\<close> with \<open>runtime-policy/src/canonical-json.ts\<close>
  (content-addressed snapshots). A JSON column is the value its text denotes, \<open>None\<close> for
  text that does not parse; the SHA-256 of the canonical text is the parameter \<open>sha\<close>.
\<close>

subsection \<open>Bundle revisions\<close>

datatype bundle_scope = DeploymentScope | AgentScope string

record config_row =
  cr_revision :: nat
  cr_tenant :: string
  cr_scope :: bundle_scope
  cr_bundle_json :: "policy_bundle option"
  cr_created_at :: nat
  cr_created_by :: string
  cr_reason :: "string option"
  cr_reverted_from :: "nat option"

record config_db =
  cd_next_revision :: nat
  cd_rows :: "config_row list"

record bundle_revision =
  br_revision :: nat
  br_bundle :: policy_bundle
  br_reverted_from :: "nat option"

datatype config_error = RevisionInvalid nat | RevisionNotFound nat | BundleRejected

definition parse_bundle_or_throw :: "config_row \<Rightarrow> config_error + policy_bundle" where
  "parse_bundle_or_throw row =
    (case Option.bind (cr_bundle_json row) parse_bundle of
       None \<Rightarrow> Inl (RevisionInvalid (cr_revision row))
     | Some b \<Rightarrow> Inr b)"

definition row_to_revision :: "config_row \<Rightarrow> config_error + bundle_revision" where
  "row_to_revision row =
    (case parse_bundle_or_throw row of
       Inl e \<Rightarrow> Inl e
     | Inr b \<Rightarrow> Inr \<lparr>br_revision = cr_revision row, br_bundle = b,
                     br_reverted_from = cr_reverted_from row\<rparr>)"

definition scope_where :: "string \<Rightarrow> bundle_scope \<Rightarrow> config_row \<Rightarrow> bool" where
  "scope_where tenant scope row \<longleftrightarrow> cr_tenant row = tenant \<and> cr_scope row = scope"

definition revisions_desc :: "string \<Rightarrow> bundle_scope \<Rightarrow> config_db \<Rightarrow> config_row list" where
  "revisions_desc tenant scope db =
    sort_key (\<lambda>r. - int (cr_revision r)) (filter (scope_where tenant scope) (cd_rows db))"

definition optional_row :: "config_row option \<Rightarrow> config_error + bundle_revision option" where
  "optional_row row =
    (case row of None \<Rightarrow> Inr None
     | Some r \<Rightarrow> (case row_to_revision r of Inl e \<Rightarrow> Inl e | Inr v \<Rightarrow> Inr (Some v)))"

definition get_latest :: "string \<Rightarrow> bundle_scope \<Rightarrow> config_db \<Rightarrow> config_error + bundle_revision option" where
  "get_latest tenant scope db =
    optional_row (case revisions_desc tenant scope db of [] \<Rightarrow> None | r # _ \<Rightarrow> Some r)"

definition get_by_revision ::
  "string \<Rightarrow> bundle_scope \<Rightarrow> nat \<Rightarrow> config_db \<Rightarrow> config_error + bundle_revision option" where
  "get_by_revision tenant scope rv db =
    optional_row (find (\<lambda>r. scope_where tenant scope r \<and> cr_revision r = rv) (cd_rows db))"

fun collect_revisions :: "config_row list \<Rightarrow> config_error + bundle_revision list" where
  "collect_revisions [] = Inr []"
| "collect_revisions (r # rs) =
    (case row_to_revision r of Inl e \<Rightarrow> Inl e
     | Inr v \<Rightarrow> (case collect_revisions rs of Inl e \<Rightarrow> Inl e | Inr vs \<Rightarrow> Inr (v # vs)))"

definition list_revisions ::
  "string \<Rightarrow> bundle_scope \<Rightarrow> int \<Rightarrow> config_db \<Rightarrow> config_error + bundle_revision list" where
  "list_revisions tenant scope limit db =
    collect_revisions (take (nat (max 1 (min 200 limit))) (revisions_desc tenant scope db))"

definition set_bundle ::
  "string \<Rightarrow> bundle_scope \<Rightarrow> policy_bundle \<Rightarrow> nat \<Rightarrow> string \<Rightarrow> string option \<Rightarrow> nat option \<Rightarrow> config_db
    \<Rightarrow> (config_error + bundle_revision) \<times> config_db" where
  "set_bundle tenant scope b now by_json reason reverted db =
    (case parse_bundle b of
       None \<Rightarrow> (Inl BundleRejected, db)
     | Some parsed \<Rightarrow>
         (let row = \<lparr>cr_revision = cd_next_revision db, cr_tenant = tenant, cr_scope = scope,
                     cr_bundle_json = Some parsed, cr_created_at = now, cr_created_by = by_json,
                     cr_reason = reason, cr_reverted_from = reverted\<rparr>
          in (row_to_revision row,
              \<lparr>cd_next_revision = Suc (cd_next_revision db), cd_rows = cd_rows db @ [row]\<rparr>)))"

definition revert_to_revision ::
  "string \<Rightarrow> bundle_scope \<Rightarrow> nat \<Rightarrow> nat \<Rightarrow> string \<Rightarrow> string option \<Rightarrow> config_db
    \<Rightarrow> (config_error + bundle_revision) \<times> config_db" where
  "revert_to_revision tenant scope rv now by_json reason db =
    (case get_by_revision tenant scope rv db of
       Inl e \<Rightarrow> (Inl e, db)
     | Inr None \<Rightarrow> (Inl (RevisionNotFound rv), db)
     | Inr (Some target) \<Rightarrow>
         set_bundle tenant scope (br_bundle target) now by_json reason (Some rv) db)"

text \<open>\<open>DbGatewayConfigStore\<close>: the latest bundle of the scope, if any.\<close>

definition scope_bundle :: "string \<Rightarrow> bundle_scope \<Rightarrow> config_db \<Rightarrow> config_error + policy_bundle option" where
  "scope_bundle tenant scope db =
    (case get_latest tenant scope db of Inl e \<Rightarrow> Inl e | Inr v \<Rightarrow> Inr (map_option br_bundle v))"

definition get_deployment_policy_bundle :: "string \<Rightarrow> config_db \<Rightarrow> config_error + policy_bundle option" where
  "get_deployment_policy_bundle tenant db = scope_bundle tenant DeploymentScope db"

definition get_agent_policy_bundle ::
  "string \<Rightarrow> string \<Rightarrow> config_db \<Rightarrow> config_error + policy_bundle option" where
  "get_agent_policy_bundle tenant agent db = scope_bundle tenant (AgentScope agent) db"

subsection \<open>Snapshots\<close>

record snapshot_row =
  ss_tenant :: string
  ss_id :: string
  ss_sha :: string
  ss_bundle_json :: "policy_bundle option"
  ss_created_at :: nat

record snapshot =
  sn_id :: string
  sn_sha :: string
  sn_created_at :: nat
  sn_bundle :: policy_bundle

text \<open>
  \<open>sortValue\<close> on a bundle: the label maps are the only objects whose keys are data; every
  other object has the schema's fixed keys.
\<close>

definition sort_labels :: "(string, 'v) omap option \<Rightarrow> (string, 'v) omap option" where
  "sort_labels m = map_option (sort_key fst) m"

definition canonical_limits :: "artifact_limits \<Rightarrow> artifact_limits" where
  "canonical_limits v = v\<lparr>al_by_label := sort_labels (al_by_label v),
    al_by_label_sensitivity := sort_labels (al_by_label_sensitivity v)\<rparr>"

definition canonical_bundle :: "policy_bundle \<Rightarrow> policy_bundle" where
  "canonical_bundle b = b\<lparr>pb_artifacts := map_option (\<lambda>a. a
     \<lparr>ar_retention := map_option canonical_limits (ar_retention a),
      ar_quota := map_option canonical_limits (ar_quota a)\<rparr>) (pb_artifacts b)\<rparr>"

text \<open>An unreadable stored bundle is treated as the empty one.\<close>

definition parse_stored_bundle :: "policy_bundle option \<Rightarrow> policy_bundle" where
  "parse_stored_bundle j =
    (case Option.bind j parse_bundle of None \<Rightarrow> the (parse_bundle empty_bundle) | Some b \<Rightarrow> b)"

definition to_snapshot :: "snapshot_row \<Rightarrow> snapshot" where
  "to_snapshot r = \<lparr>sn_id = ss_id r, sn_sha = ss_sha r, sn_created_at = ss_created_at r,
    sn_bundle = parse_stored_bundle (ss_bundle_json r)\<rparr>"

definition snapshot_by_id :: "string \<Rightarrow> string \<Rightarrow> snapshot_row list \<Rightarrow> snapshot option" where
  "snapshot_by_id tenant sid rows =
    map_option to_snapshot (find (\<lambda>r. ss_tenant r = tenant \<and> ss_id r = sid) rows)"

definition snapshot_by_sha :: "string \<Rightarrow> string \<Rightarrow> snapshot_row list \<Rightarrow> snapshot option" where
  "snapshot_by_sha tenant h rows =
    map_option to_snapshot (find (\<lambda>r. ss_tenant r = tenant \<and> ss_sha r = h) rows)"

definition get_or_create_snapshot ::
  "(policy_bundle \<Rightarrow> string) \<Rightarrow> string \<Rightarrow> nat \<Rightarrow> string \<Rightarrow> policy_bundle \<Rightarrow> snapshot_row list
    \<Rightarrow> snapshot \<times> snapshot_row list" where
  "get_or_create_snapshot sha new_id now tenant b rows =
    (let canonical = canonical_bundle b; h = sha canonical in
     case snapshot_by_sha tenant h rows of
       Some s \<Rightarrow> (s, rows)
     | None \<Rightarrow>
         (let row = \<lparr>ss_tenant = tenant, ss_id = new_id, ss_sha = h,
                     ss_bundle_json = Some canonical, ss_created_at = now\<rparr>
          in (to_snapshot row, rows @ [row])))"

subsection \<open>Revisions: the last write of a scope wins\<close>

definition config_wf :: "config_db \<Rightarrow> bool" where
  "config_wf db \<longleftrightarrow> (\<forall>r \<in> set (cd_rows db). cr_revision r < cd_next_revision db)"

lemma set_bundle_wf: "config_wf db \<Longrightarrow> config_wf (snd (set_bundle tn sc b now j why rv db))"
  by (auto simp: config_wf_def set_bundle_def Let_def less_Suc_eq split: option.splits)

text \<open>
  The interface behind \<open>PolicyBundleStore\<close>: writing a scope is seen by that scope and no other.
\<close>

locale bundle_store =
  fixes current :: "'k \<Rightarrow> 'd \<Rightarrow> 'b option" and put :: "'k \<Rightarrow> 'b \<Rightarrow> 'd \<Rightarrow> 'd" and ok :: "'d \<Rightarrow> bool"
    and fits :: "'b \<Rightarrow> bool"
  assumes current_put: "ok d \<Longrightarrow> fits b \<Longrightarrow> current k (put k b d) = Some b"
    and current_put_other: "ok d \<Longrightarrow> fits b \<Longrightarrow> j \<noteq> k \<Longrightarrow> current j (put k b d) = current j d"
    and put_ok: "ok d \<Longrightarrow> fits b \<Longrightarrow> ok (put k b d)"
begin

lemma last_write_wins:
  assumes "ok d" "\<forall>w \<in> set ws. fits (snd w)"
  shows "current k (fold (\<lambda>w. put (fst w) (snd w)) ws d) =
    (case map_of (rev ws) k of None \<Rightarrow> current k d | Some b \<Rightarrow> Some b)"
  using assms
proof (induction ws arbitrary: d)
  case Nil
  then show ?case by simp
next
  case (Cons w ws)
  have "ok (put (fst w) (snd w) d)" using Cons.prems by (simp add: put_ok)
  with Cons show ?case
    by (cases "k = fst w")
      (auto simp: current_put current_put_other map_add_def split: option.splits)
qed

end

definition write_bundle :: "string \<times> bundle_scope \<Rightarrow> policy_bundle \<Rightarrow> config_db \<Rightarrow> config_db" where
  "write_bundle k b db = snd (set_bundle (fst k) (snd k) b 0 ''{}'' None None db)"

definition current_bundle :: "string \<times> bundle_scope \<Rightarrow> config_db \<Rightarrow> policy_bundle option" where
  "current_bundle k db = (case scope_bundle (fst k) (snd k) db of Inl _ \<Rightarrow> None | Inr b \<Rightarrow> b)"

lemma sort_key_snoc_least:
  fixes f :: "'a \<Rightarrow> int"
  assumes "\<And>y. y \<in> set xs \<Longrightarrow> f x < f y"
  shows "sort_key f (xs @ [x]) = x # sort_key f xs"
  using assms
proof (induction xs)
  case Nil
  then show ?case by simp
next
  case (Cons a xs)
  then have "sort_key f (xs @ [x]) = x # sort_key f xs" by simp
  moreover have "f x < f a" using Cons.prems by simp
  ultimately show ?case by simp
qed

lemma revisions_desc_snoc:
  assumes "config_wf db" "cr_revision row = cd_next_revision db"
  shows "revisions_desc tn sc \<lparr>cd_next_revision = n, cd_rows = cd_rows db @ [row]\<rparr> =
    (if scope_where tn sc row then row # revisions_desc tn sc db else revisions_desc tn sc db)"
proof -
  have "sort_key (\<lambda>r. - int (cr_revision r)) (filter (scope_where tn sc) (cd_rows db) @ [row]) =
      row # sort_key (\<lambda>r. - int (cr_revision r)) (filter (scope_where tn sc) (cd_rows db))"
    using assms by (intro sort_key_snoc_least) (auto simp: config_wf_def)
  then show ?thesis by (simp add: revisions_desc_def)
qed

lemma scope_bundle_set:
  assumes "config_wf db" "parse_bundle b = Some b"
  shows "scope_bundle tn' sc' (snd (set_bundle tn sc b now j why rvt db)) =
    (if tn' = tn \<and> sc' = sc then Inr (Some b) else scope_bundle tn' sc' db)"
  using assms
  by (auto simp: scope_bundle_def get_latest_def set_bundle_def Let_def revisions_desc_snoc
      scope_where_def optional_row_def row_to_revision_def parse_bundle_or_throw_def)

interpretation config: bundle_store current_bundle write_bundle config_wf "\<lambda>b. parse_bundle b = Some b"
  by unfold_locales
    (auto simp: current_bundle_def write_bundle_def scope_bundle_set set_bundle_wf prod_eq_iff)

text \<open>
  After any sequence of writes of schema-valid bundles, the bundle served for a tenant and
  scope is the last one written for exactly that tenant and scope, else the one served before.
\<close>

theorem latest_write_served:
  assumes "config_wf db" "\<forall>w \<in> set ws. parse_bundle (snd w) = Some (snd w)"
  shows "current_bundle k (fold (\<lambda>w. write_bundle (fst w) (snd w)) ws db) =
    (case map_of (rev ws) k of None \<Rightarrow> current_bundle k db | Some b \<Rightarrow> Some b)"
  by (rule config.last_write_wins [OF assms])

definition demo_bundle :: policy_bundle where
  "demo_bundle = the default_policy_bundle"

lemma demo_bundle_parsed: "parse_bundle demo_bundle = Some demo_bundle"
  by code_simp

lemma latest_write_served_witness:
  "current_bundle (''t'', DeploymentScope)
     (fold (\<lambda>w. write_bundle (fst w) (snd w))
        [((''t'', DeploymentScope), demo_bundle), ((''t'', AgentScope ''a''), demo_bundle)]
        \<lparr>cd_next_revision = 1, cd_rows = []\<rparr>) = Some demo_bundle"
  by (subst latest_write_served) (simp_all add: config_wf_def demo_bundle_parsed)

text \<open>
  Reverting serves the old content under a new revision: if the revision exists and is
  valid for the scope, afterwards the scope serves that revision's bundle, and every other
  tenant and scope serves what it served before.
\<close>

theorem revert_restores:
  assumes "config_wf db" "get_by_revision tn sc rv db = Inr (Some target)"
  shows "\<exists>v db'. revert_to_revision tn sc rv now j why db = (Inr v, db') \<and>
    br_bundle v = br_bundle target \<and> br_revision v = cd_next_revision db \<and>
    br_reverted_from v = Some rv \<and>
    scope_bundle tn' sc' db' =
      (if tn' = tn \<and> sc' = sc then Inr (Some (br_bundle target)) else scope_bundle tn' sc' db)"
proof -
  from assms(2) obtain raw where "parse_bundle raw = Some (br_bundle target)"
    by (auto simp: get_by_revision_def optional_row_def row_to_revision_def parse_bundle_or_throw_def
        bind_eq_Some_conv split: option.splits sum.splits)
  then have p: "parse_bundle (br_bundle target) = Some (br_bundle target)"
    using parse_bundle_ok parse_bundle_fixed by blast
  then show ?thesis
    using scope_bundle_set [OF assms(1) p]
    by (auto simp: revert_to_revision_def assms(2) set_bundle_def Let_def row_to_revision_def
        parse_bundle_or_throw_def)
qed

lemma revert_restores_witness:
  "\<exists>v db'. revert_to_revision ''t'' DeploymentScope 1 0 ''{}'' None
     (write_bundle (''t'', DeploymentScope) demo_bundle \<lparr>cd_next_revision = 1, cd_rows = []\<rparr>) = (Inr v, db') \<and>
    br_bundle v = demo_bundle"
proof -
  let ?db = "write_bundle (''t'', DeploymentScope) demo_bundle \<lparr>cd_next_revision = 1, cd_rows = []\<rparr>"
  have "config_wf ?db"
    by (rule config.put_ok) (simp_all add: config_wf_def demo_bundle_parsed)
  moreover have "get_by_revision ''t'' DeploymentScope 1 ?db =
      Inr (Some \<lparr>br_revision = 1, br_bundle = demo_bundle, br_reverted_from = None\<rparr>)"
    by (simp add: write_bundle_def set_bundle_def demo_bundle_parsed Let_def get_by_revision_def
        scope_where_def optional_row_def row_to_revision_def parse_bundle_or_throw_def)
  ultimately show ?thesis using revert_restores by fastforce
qed


subsection \<open>Snapshots: one immutable row per content\<close>

lemma valid_canonical_limits: "valid_limits (canonical_limits v) \<longleftrightarrow> valid_limits v"
  by (auto simp: valid_limits_def canonical_limits_def sort_labels_def list_all_iff split: option.splits)

lemma bundle_ok_canonical: "bundle_ok b \<Longrightarrow> bundle_ok (canonical_bundle b)"
  by (cases "pb_artifacts b")
    (auto simp: bundle_ok_def canonical_bundle_def artifacts_ok_def opt_all_def
      valid_canonical_limits split: option.splits)

lemma canonical_parsed: "parse_bundle b = Some b \<Longrightarrow> parse_bundle (canonical_bundle b) = Some (canonical_bundle b)"
  using parse_bundle_ok parse_bundle_fixed bundle_ok_canonical by blast

definition snapshots_wf :: "snapshot_row list \<Rightarrow> bool" where
  "snapshots_wf rows \<longleftrightarrow> distinct (map (\<lambda>r. (ss_tenant r, ss_id r)) rows)"

lemma find_unique:
  assumes "distinct (map f xs)" "x \<in> set xs" "\<And>y. P y \<longleftrightarrow> f y = f x"
  shows "find P xs = Some x"
  using assms(1,2)
  by (induction xs) (auto simp: assms(3) image_iff)

lemma snapshot_by_sha_row:
  "snapshot_by_sha tn h rows = Some s \<Longrightarrow>
    \<exists>r \<in> set rows. ss_tenant r = tn \<and> ss_sha r = h \<and> s = to_snapshot r"
  by (auto simp: snapshot_by_sha_def find_Some_iff)

lemma find_append_some: "find P xs = Some x \<Longrightarrow> find P (xs @ ys) = Some x"
  by (induction xs) auto

lemma find_append_none: "find P xs = None \<Longrightarrow> find P (xs @ ys) = find P ys"
  by (induction xs) auto

lemma snapshot_recorded:
  assumes "parse_bundle b = Some b" "snapshots_wf rows"
    and "\<forall>r \<in> set rows. ss_tenant r = tn \<longrightarrow> ss_id r \<noteq> new_id"
    and "\<forall>r \<in> set rows. ss_sha r = sha (canonical_bundle b) \<longrightarrow>
      ss_bundle_json r = Some (canonical_bundle b)"
    and "get_or_create_snapshot sha new_id now tn b rows = (s, rows')"
  shows "sn_bundle s = canonical_bundle b \<and> snapshot_by_id tn (sn_id s) rows' = Some s \<and>
    get_or_create_snapshot sha i' now' tn b rows' = (s, rows') \<and> prefix rows rows'"
proof (cases "snapshot_by_sha tn (sha (canonical_bundle b)) rows")
  case (Some s0)
  then have e: "s = s0" "rows' = rows"
    using assms(5) by (simp_all add: get_or_create_snapshot_def Let_def)
  from snapshot_by_sha_row [OF Some] obtain r where r: "r \<in> set rows" "ss_tenant r = tn"
    "ss_sha r = sha (canonical_bundle b)" "s0 = to_snapshot r" by blast
  have "find (\<lambda>x. ss_tenant x = tn \<and> ss_id x = ss_id r) rows = Some r"
    by (rule find_unique [where f = "\<lambda>r. (ss_tenant r, ss_id r)"])
      (use assms(2) r in \<open>auto simp: snapshots_wf_def\<close>)
  then show ?thesis
    using r assms(4) e Some
    by (simp add: to_snapshot_def parse_stored_bundle_def canonical_parsed [OF assms(1)]
        snapshot_by_id_def get_or_create_snapshot_def Let_def)
next
  case None
  let ?row = "\<lparr>ss_tenant = tn, ss_id = new_id, ss_sha = sha (canonical_bundle b),
    ss_bundle_json = Some (canonical_bundle b), ss_created_at = now\<rparr>"
  from None have e: "s = to_snapshot ?row" "rows' = rows @ [?row]"
    using assms(5) by (simp_all add: get_or_create_snapshot_def Let_def)
  have "find (\<lambda>x. ss_tenant x = tn \<and> ss_id x = new_id) rows = None"
    using assms(3) by (simp add: find_None_iff)
  then have "snapshot_by_id tn new_id rows' = Some s"
    by (simp add: snapshot_by_id_def e find_append_none)
  moreover have "snapshot_by_sha tn (sha (canonical_bundle b)) rows' = Some s"
    using None by (simp add: snapshot_by_sha_def e find_append_none)
  ultimately show ?thesis
    by (simp add: get_or_create_snapshot_def Let_def e to_snapshot_def parse_stored_bundle_def
        canonical_parsed [OF assms(1)])
qed

text \<open>
  Snapshots are content addressed and durable. When no other stored content has the same
  hash, recording a schema-valid bundle yields a snapshot that holds exactly that bundle (up to
  the order of label maps), that is found by its id from then on, that is reused when the same
  content is recorded again, and no earlier row is touched.
\<close>

theorem snapshot_faithful:
  assumes "parse_bundle b = Some b" "snapshots_wf rows"
    and "\<forall>r \<in> set rows. ss_tenant r = tn \<longrightarrow> ss_id r \<noteq> new_id"
    and "\<forall>r \<in> set rows. ss_sha r = sha (canonical_bundle b) \<longrightarrow>
      ss_bundle_json r = Some (canonical_bundle b)"
    and "get_or_create_snapshot sha new_id now tn b rows = (s, rows')"
  shows "sn_bundle s = canonical_bundle b \<and> snapshot_by_id tn (sn_id s) rows' = Some s \<and>
    get_or_create_snapshot sha i' now' tn b rows' = (s, rows') \<and> prefix rows rows'"
  by (rule snapshot_recorded [OF assms])

lemma snapshot_faithful_witness:
  "sn_bundle (fst (get_or_create_snapshot (\<lambda>_. ''h'') ''s1'' 5 ''t'' demo_bundle [])) =
    canonical_bundle demo_bundle"
  using snapshot_faithful [OF demo_bundle_parsed, of "[]" "''t''" "''s1''" "\<lambda>_. ''h''" 5
      "fst (get_or_create_snapshot (\<lambda>_. ''h'') ''s1'' 5 ''t'' demo_bundle [])"
      "snd (get_or_create_snapshot (\<lambda>_. ''h'') ''s1'' 5 ''t'' demo_bundle [])"]
  by (simp add: snapshots_wf_def)

end
