(* ===== verification/Policy_Service.thy ===== *)
theory Policy_Service
  imports Policy_Tool_Eval Policy_Stores
begin

text \<open>
  \<open>runtime-policy/src/service.ts\<close> and \<open>runtime-policy/src/review-policy.ts\<close>: the policy
  service composes the stored bundles, the merge, the snapshots and the overrides. Its state
  is the two caches together with the stores behind it; \<open>None\<close> as configuration store models
  the optional \<open>configStore\<close>. Exceptions are \<open>Inl\<close>; fresh ids and the clock are
  arguments.
\<close>

subsection \<open>State\<close>

record deployment_entry =
  de_path :: "string option"
  de_bundle :: policy_bundle
  de_sha :: string

record agent_entry =
  ae_path :: "string option"
  ae_bundle :: "policy_bundle option"
  ae_sha :: "string option"

record service =
  sv_mode :: "string option"
  sv_config :: "config_db option"
  sv_deployment_cache :: "(string, deployment_entry) omap"
  sv_agent_cache :: "(string, agent_entry) omap"
  sv_snapshots :: "snapshot_row list"
  sv_overrides :: override_db

datatype service_error =
    TenantRequired | ConfigFailed config_error | MergeRejected | OverrideStoreFailed store_error

text \<open>What lies outside the service: the hash, the URL parser, the UUID syntax.\<close>

record platform =
  pl_sha :: "policy_bundle \<Rightarrow> string"
  pl_url :: url_parser
  pl_uuid :: "string \<Rightarrow> bool"

definition sha_of :: "platform \<Rightarrow> policy_bundle \<Rightarrow> string" where
  "sha_of pl b = pl_sha pl (canonical_bundle b)"

definition is_observe_only :: "service \<Rightarrow> bool" where
  "is_observe_only sv =
    (case sv_mode sv of None \<Rightarrow> False
     | Some m \<Rightarrow> (let mode = map lower_char (trim m)
                 in mode = ''observe'' \<or> mode = ''observe-only''))"

subsection \<open>Loading bundles\<close>

definition load_deployment_bundle ::
  "platform \<Rightarrow> string \<Rightarrow> service \<Rightarrow> (service_error + deployment_entry) \<times> service" where
  "load_deployment_bundle pl tenant sv =
    (case (case sv_config sv of None \<Rightarrow> Inr None | Some db \<Rightarrow> get_deployment_policy_bundle tenant db) of
       Inl e \<Rightarrow> (Inl (ConfigFailed e), sv)
     | Inr (Some b) \<Rightarrow>
         (let entry = \<lparr>de_path = Some ''shared'', de_bundle = b, de_sha = sha_of pl b\<rparr>
          in (Inr entry, sv\<lparr>sv_deployment_cache := om_set tenant entry (sv_deployment_cache sv)\<rparr>))
     | Inr None \<Rightarrow>
         (let fresh = (let b = the default_policy_bundle
                       in \<lparr>de_path = None, de_bundle = b, de_sha = sha_of pl b\<rparr>);
              refreshed = (Inr fresh,
                sv\<lparr>sv_deployment_cache := om_set tenant fresh (sv_deployment_cache sv)\<rparr>)
          in case om_get (sv_deployment_cache sv) tenant of
               Some cached \<Rightarrow> if de_path cached = None then (Inr cached, sv) else refreshed
             | None \<Rightarrow> refreshed))"

definition agent_cache_key :: "string \<Rightarrow> string option \<Rightarrow> string" where
  "agent_cache_key tenant agent = tenant @ '':'' @ (case agent of None \<Rightarrow> ''*'' | Some a \<Rightarrow> a)"

definition load_agent_bundle ::
  "platform \<Rightarrow> string \<Rightarrow> string option \<Rightarrow> service \<Rightarrow> (service_error + agent_entry) \<times> service" where
  "load_agent_bundle pl tenant agent sv =
    (let key = agent_cache_key tenant agent;
         stored = (case (agent, sv_config sv) of
                     (Some a, Some db) \<Rightarrow> get_agent_policy_bundle tenant a db
                   | _ \<Rightarrow> Inr None);
         none = \<lparr>ae_path = None, ae_bundle = None, ae_sha = None\<rparr>;
         refreshed = (Inr none, sv\<lparr>sv_agent_cache := om_set key none (sv_agent_cache sv)\<rparr>)
     in case stored of
          Inl e \<Rightarrow> (Inl (ConfigFailed e), sv)
        | Inr (Some b) \<Rightarrow>
            (let entry = \<lparr>ae_path = Some ''shared'', ae_bundle = Some b, ae_sha = Some (sha_of pl b)\<rparr>
             in (Inr entry, sv\<lparr>sv_agent_cache := om_set key entry (sv_agent_cache sv)\<rparr>))
        | Inr None \<Rightarrow>
            (case om_get (sv_agent_cache sv) key of
               Some cached \<Rightarrow> if ae_path cached = None then (Inr cached, sv) else refreshed
             | None \<Rightarrow> refreshed))"

record effective =
  ef_bundle :: policy_bundle
  ef_sha :: string
  ef_deployment_source :: string
  ef_agent_source :: "string option"
  ef_playbook_inline :: bool

definition trimmed_agent :: "string option \<Rightarrow> string option" where
  "trimmed_agent agent = (case agent of None \<Rightarrow> None | Some a \<Rightarrow> if trim a = [] then None else Some (trim a))"

definition load_effective_bundle ::
  "platform \<Rightarrow> policy_bundle option \<Rightarrow> string \<Rightarrow> string option \<Rightarrow> service
    \<Rightarrow> (service_error + effective) \<times> service" where
  "load_effective_bundle pl playbook tenant agent sv =
    (if trim tenant = [] then (Inl TenantRequired, sv)
     else case load_deployment_bundle pl (trim tenant) sv of
       (Inl e, sv1) \<Rightarrow> (Inl e, sv1)
     | (Inr dep, sv1) \<Rightarrow>
         (case load_agent_bundle pl (trim tenant) (trimmed_agent agent) sv1 of
            (Inl e, sv2) \<Rightarrow> (Inl e, sv2)
          | (Inr ag, sv2) \<Rightarrow>
              (case merge_policy_bundles [Some (de_bundle dep), ae_bundle ag, playbook] of
                 None \<Rightarrow> (Inl MergeRejected, sv2)
               | Some merged \<Rightarrow>
                   (Inr \<lparr>ef_bundle = merged, ef_sha = sha_of pl merged,
                         ef_deployment_source = (case de_path dep of None \<Rightarrow> ''default'' | Some p \<Rightarrow> p),
                         ef_agent_source = ae_path ag,
                         ef_playbook_inline = (playbook \<noteq> None)\<rparr>, sv2))))"

definition service_snapshot ::
  "platform \<Rightarrow> string \<Rightarrow> nat \<Rightarrow> string \<Rightarrow> policy_bundle \<Rightarrow> service \<Rightarrow> snapshot \<times> service" where
  "service_snapshot pl new_id now tenant b sv =
    (case get_or_create_snapshot (pl_sha pl) new_id now tenant b (sv_snapshots sv) of
       (s, rows) \<Rightarrow> (s, sv\<lparr>sv_snapshots := rows\<rparr>))"

subsection \<open>Evaluations\<close>

record policy_evaluation =
  pe_decision :: decision
  pe_snapshot :: "snapshot option"
  pe_applied_overrides :: "string list option"
  pe_rules :: "policy_rule list option"

definition evaluate_with ::
  "platform \<Rightarrow> nat \<Rightarrow> policy_bundle \<Rightarrow> snapshot \<Rightarrow> tool_call \<Rightarrow> service
    \<Rightarrow> (service_error + policy_evaluation) \<times> service" where
  "evaluate_with pl now b snap c sv =
    (case evaluate_tool_call_against_bundle (pl_url pl) (list_active_for_tool (pl_uuid pl) now) b
        (c\<lparr>tc_tool := canonicalize_tool_id (tc_tool c)\<rparr>) (sv_overrides sv) of
       (Inl e, db) \<Rightarrow> (Inl (OverrideStoreFailed e), sv\<lparr>sv_overrides := db\<rparr>)
     | (Inr ev, db) \<Rightarrow>
         (Inr \<lparr>pe_decision = ev_decision ev, pe_snapshot = Some snap,
               pe_applied_overrides = ev_applied_overrides ev, pe_rules = Some (ev_rules ev)\<rparr>,
          sv\<lparr>sv_overrides := db\<rparr>))"

definition evaluate_tool_call ::
  "platform \<Rightarrow> string \<Rightarrow> nat \<Rightarrow> policy_bundle option \<Rightarrow> tool_call \<Rightarrow> service
    \<Rightarrow> (service_error + policy_evaluation) \<times> service" where
  "evaluate_tool_call pl new_id now playbook c sv =
    (case load_effective_bundle pl playbook (tc_tenant c) (Some (tc_agent c)) sv of
       (Inl e, sv1) \<Rightarrow> (Inl e, sv1)
     | (Inr eff, sv1) \<Rightarrow>
         (case service_snapshot pl new_id now (tc_tenant c) (ef_bundle eff) sv1 of
            (snap, sv2) \<Rightarrow> evaluate_with pl now (ef_bundle eff) snap c sv2))"

definition missing_snapshot :: "rule_kind \<Rightarrow> string \<Rightarrow> policy_evaluation" where
  "missing_snapshot k detail =
    \<lparr>pe_decision = RequireApproval, pe_snapshot = None, pe_applied_overrides = None,
     pe_rules = Some [\<lparr>pr_rule = k, pr_outcome = RequireApproval, pr_detail = detail\<rparr>]\<rparr>"

definition evaluate_tool_call_from_snapshot ::
  "platform \<Rightarrow> nat \<Rightarrow> string \<Rightarrow> tool_call \<Rightarrow> service \<Rightarrow> (service_error + policy_evaluation) \<times> service" where
  "evaluate_tool_call_from_snapshot pl now sid c sv =
    (case snapshot_by_id (tc_tenant c) sid (sv_snapshots sv) of
       None \<Rightarrow> (Inr (missing_snapshot ToolPolicyRule (''missing policy snapshot: '' @ sid)), sv)
     | Some snap \<Rightarrow> evaluate_with pl now (sn_bundle snap) snap c sv)"

definition evaluate_secrets_from_snapshot ::
  "string \<Rightarrow> string option \<Rightarrow> string list \<Rightarrow> service \<Rightarrow> policy_evaluation" where
  "evaluate_secrets_from_snapshot tenant sid scopes sv =
    (if scopes = []
     then \<lparr>pe_decision = Allow, pe_snapshot = None, pe_applied_overrides = None, pe_rules = Some []\<rparr>
     else (let i = (case sid of None \<Rightarrow> [] | Some x \<Rightarrow> trim x) in
           if i = [] then missing_snapshot SecretsRule ''missing policy snapshot id''
           else case snapshot_by_id tenant i (sv_snapshots sv) of
             None \<Rightarrow> missing_snapshot SecretsRule (''missing policy snapshot: '' @ i)
           | Some snap \<Rightarrow>
               (let d = secrets_decision (sn_bundle snap) scopes
                in \<lparr>pe_decision = d, pe_snapshot = Some snap, pe_applied_overrides = None,
                    pe_rules = Some [\<lparr>pr_rule = SecretsRule, pr_outcome = d,
                      pr_detail = ''scopes='' @ show_nat (length scopes)\<rparr>]\<rparr>)))"

definition evaluate_connector_action ::
  "platform \<Rightarrow> string \<Rightarrow> nat \<Rightarrow> policy_bundle option \<Rightarrow> string \<Rightarrow> string \<Rightarrow> string option \<Rightarrow> string \<Rightarrow> service
    \<Rightarrow> (service_error + policy_evaluation) \<times> service" where
  "evaluate_connector_action pl new_id now playbook tenant agent workspace target sv =
    (case load_effective_bundle pl playbook tenant (Some agent) sv of
       (Inl e, sv1) \<Rightarrow> (Inl e, sv1)
     | (Inr eff, sv1) \<Rightarrow>
         (case service_snapshot pl new_id now tenant (ef_bundle eff) sv1 of
            (snap, sv2) \<Rightarrow>
              (let d = evaluate_domain
                         (normalize_domain (pb_connectors (ef_bundle eff)) RequireApproval) target;
                   verdict = (\<lambda>d ids. \<lparr>pe_decision = d, pe_snapshot = Some snap,
                     pe_applied_overrides = ids, pe_rules = None\<rparr>)
               in if d = RequireApproval
                  then (case list_active_for_tool (pl_uuid pl) now tenant agent workspace
                            ''connector.send'' (sv_overrides sv2) of
                          (Inl e, db) \<Rightarrow> (Inl (OverrideStoreFailed e), sv2\<lparr>sv_overrides := db\<rparr>)
                        | (Inr rows, db) \<Rightarrow>
                            (let applied = applied_overrides target rows
                             in (Inr (if applied \<noteq> [] then verdict Allow (Some applied)
                                      else verdict d None), sv2\<lparr>sv_overrides := db\<rparr>)))
                  else (Inr (verdict d None), sv2))))"

record policy_status =
  st_observe_only :: bool
  st_effective_sha :: string
  st_deployment_source :: string
  st_agent_source :: "string option"

definition get_status ::
  "platform \<Rightarrow> string \<Rightarrow> string option \<Rightarrow> service \<Rightarrow> (service_error + policy_status) \<times> service" where
  "get_status pl tenant agent sv =
    (if trim tenant = [] then (Inl TenantRequired, sv)
     else case load_effective_bundle pl None (trim tenant) agent sv of
       (Inl e, sv1) \<Rightarrow> (Inl e, sv1)
     | (Inr eff, sv1) \<Rightarrow>
         (Inr \<lparr>st_observe_only = is_observe_only sv1, st_effective_sha = ef_sha eff,
               st_deployment_source = ef_deployment_source eff,
               st_agent_source = ef_agent_source eff\<rparr>, sv1))"

subsection \<open>Review modes\<close>

text \<open>\<open>resolveAutoReviewMode\<close>: no service, and any failure, mean automatic review.\<close>

definition resolve_auto_review_mode ::
  "platform \<Rightarrow> string \<Rightarrow> string option \<Rightarrow> service option \<Rightarrow> review_mode \<times> service option" where
  "resolve_auto_review_mode pl tenant agent psv =
    (case psv of
       None \<Rightarrow> (AutoReview, None)
     | Some sv \<Rightarrow>
         (case load_effective_bundle pl None tenant
                 (if nonempty agent then agent else None) sv of
            (Inl e, sv1) \<Rightarrow> (AutoReview, Some sv1)
          | (Inr eff, sv1) \<Rightarrow>
              ((case pb_auto_review_mode (ef_bundle eff) of None \<Rightarrow> AutoReview | Some m \<Rightarrow> m), Some sv1)))"


subsection \<open>The caches are invisible\<close>

definition default_entry :: "platform \<Rightarrow> deployment_entry" where
  "default_entry pl = \<lparr>de_path = None, de_bundle = the default_policy_bundle,
    de_sha = sha_of pl (the default_policy_bundle)\<rparr>"

definition no_agent_entry :: agent_entry where
  "no_agent_entry = \<lparr>ae_path = None, ae_bundle = None, ae_sha = None\<rparr>"

definition caches_ok :: "platform \<Rightarrow> service \<Rightarrow> bool" where
  "caches_ok pl sv \<longleftrightarrow>
    (\<forall>k e. om_get (sv_deployment_cache sv) k = Some e \<longrightarrow> de_path e = None \<longrightarrow> e = default_entry pl) \<and>
    (\<forall>k e. om_get (sv_agent_cache sv) k = Some e \<longrightarrow> ae_path e = None \<longrightarrow> e = no_agent_entry)"

text \<open>The part of the state that is not a cache.\<close>

definition durable :: "service \<Rightarrow> string option \<times> config_db option \<times> snapshot_row list \<times> override_db" where
  "durable sv = (sv_mode sv, sv_config sv, sv_snapshots sv, sv_overrides sv)"

definition stored_deployment :: "string \<Rightarrow> service \<Rightarrow> config_error + policy_bundle option" where
  "stored_deployment tenant sv =
    (case sv_config sv of None \<Rightarrow> Inr None | Some db \<Rightarrow> get_deployment_policy_bundle tenant db)"

definition stored_agent :: "string \<Rightarrow> string option \<Rightarrow> service \<Rightarrow> config_error + policy_bundle option" where
  "stored_agent tenant agent sv =
    (case (agent, sv_config sv) of (Some a, Some db) \<Rightarrow> get_agent_policy_bundle tenant a db | _ \<Rightarrow> Inr None)"

definition deployment_spec :: "platform \<Rightarrow> string \<Rightarrow> service \<Rightarrow> service_error + deployment_entry" where
  "deployment_spec pl tenant sv =
    (case stored_deployment tenant sv of
       Inl e \<Rightarrow> Inl (ConfigFailed e)
     | Inr (Some b) \<Rightarrow> Inr \<lparr>de_path = Some ''shared'', de_bundle = b, de_sha = sha_of pl b\<rparr>
     | Inr None \<Rightarrow> Inr (default_entry pl))"

definition agent_spec :: "platform \<Rightarrow> string \<Rightarrow> string option \<Rightarrow> service \<Rightarrow> service_error + agent_entry" where
  "agent_spec pl tenant agent sv =
    (case stored_agent tenant agent sv of
       Inl e \<Rightarrow> Inl (ConfigFailed e)
     | Inr (Some b) \<Rightarrow> Inr \<lparr>ae_path = Some ''shared'', ae_bundle = Some b, ae_sha = Some (sha_of pl b)\<rparr>
     | Inr None \<Rightarrow> Inr no_agent_entry)"

definition effective_spec ::
  "platform \<Rightarrow> policy_bundle option \<Rightarrow> string \<Rightarrow> string option \<Rightarrow> service \<Rightarrow> service_error + effective" where
  "effective_spec pl playbook tenant agent sv =
    (if trim tenant = [] then Inl TenantRequired
     else case deployment_spec pl (trim tenant) sv of
       Inl e \<Rightarrow> Inl e
     | Inr dep \<Rightarrow>
         (case agent_spec pl (trim tenant) (trimmed_agent agent) sv of
            Inl e \<Rightarrow> Inl e
          | Inr ag \<Rightarrow>
              (case merge_policy_bundles [Some (de_bundle dep), ae_bundle ag, playbook] of
                 None \<Rightarrow> Inl MergeRejected
               | Some merged \<Rightarrow>
                   Inr \<lparr>ef_bundle = merged, ef_sha = sha_of pl merged,
                        ef_deployment_source = (case de_path dep of None \<Rightarrow> ''default'' | Some p \<Rightarrow> p),
                        ef_agent_source = ae_path ag,
                        ef_playbook_inline = (playbook \<noteq> None)\<rparr>)))"

lemma load_deployment_refines:
  assumes "caches_ok pl sv" "load_deployment_bundle pl tenant sv = (r, sv')"
  shows "r = deployment_spec pl tenant sv \<and> caches_ok pl sv' \<and> durable sv' = durable sv"
  using assms
  by (auto simp: load_deployment_bundle_def deployment_spec_def stored_deployment_def caches_ok_def
      durable_def Let_def default_entry_def split: sum.splits option.splits if_splits)

lemma load_agent_refines:
  assumes "caches_ok pl sv" "load_agent_bundle pl tenant agent sv = (r, sv')"
  shows "r = agent_spec pl tenant agent sv \<and> caches_ok pl sv' \<and> durable sv' = durable sv"
  using assms
  by (auto simp: load_agent_bundle_def agent_spec_def stored_agent_def caches_ok_def
      durable_def Let_def no_agent_entry_def split: sum.splits option.splits if_splits)

lemma agent_spec_durable: "durable sv' = durable sv \<Longrightarrow> agent_spec pl tenant agent sv' = agent_spec pl tenant agent sv"
  by (simp add: agent_spec_def stored_agent_def durable_def)

lemma load_effective_refines:
  assumes "caches_ok pl sv" "load_effective_bundle pl playbook tenant agent sv = (r, sv')"
  shows "r = effective_spec pl playbook tenant agent sv \<and> caches_ok pl sv' \<and> durable sv' = durable sv"
proof (cases "trim tenant = []")
  case True
  with assms show ?thesis by (simp add: load_effective_bundle_def effective_spec_def)
next
  case False
  obtain r1 sv1 where 1: "load_deployment_bundle pl (trim tenant) sv = (r1, sv1)" by fastforce
  obtain r2 sv2 where 2: "load_agent_bundle pl (trim tenant) (trimmed_agent agent) sv1 = (r2, sv2)"
    by fastforce
  note d = load_deployment_refines [OF assms(1) 1]
  note a = load_agent_refines [OF _ 2]
  show ?thesis
    using assms(2) False d a agent_spec_durable [of sv1 sv]
    by (auto simp: load_effective_bundle_def effective_spec_def 1 2 split: sum.splits option.splits)
qed

text \<open>
  C4. The bundle caches are invisible: from any state whose caches hold only fallback entries
  under a null path, loading the effective bundle returns exactly what the stores and the merge
  determine, leaves every store untouched, and re-establishes the cache invariant.
\<close>

theorem effective_bundle_ignores_caches:
  assumes "caches_ok pl sv" "load_effective_bundle pl playbook tenant agent sv = (r, sv')"
  shows "r = effective_spec pl playbook tenant agent sv \<and> caches_ok pl sv' \<and> durable sv' = durable sv"
  by (rule load_effective_refines [OF assms])

definition demo_platform :: platform where
  "demo_platform = \<lparr>pl_sha = (\<lambda>_. ''h''), pl_url = (\<lambda>_. None), pl_uuid = demo_uuid\<rparr>"

definition demo_service :: service where
  "demo_service = \<lparr>sv_mode = Some ''observe'', sv_config = None, sv_deployment_cache = [],
    sv_agent_cache = [], sv_snapshots = [], sv_overrides = demo_db\<rparr>"

lemma demo_caches_ok: "caches_ok pl demo_service"
  by (simp add: caches_ok_def demo_service_def)

lemma effective_bundle_ignores_caches_witness:
  "fst (load_effective_bundle demo_platform None ''t'' None demo_service) =
    effective_spec demo_platform None ''t'' None demo_service"
  using effective_bundle_ignores_caches [OF demo_caches_ok, of demo_platform None "''t''" None]
  by (metis prod.collapse)


subsection \<open>Every source of policy can deny\<close>

lemma parse_bundle_again: "parse_bundle a = Some b \<Longrightarrow> parse_bundle b = Some b"
  using parse_bundle_ok parse_bundle_fixed by blast

lemma served_parsed: "scope_bundle tn sc db = Inr (Some b) \<Longrightarrow> parse_bundle b = Some b"
  by (auto simp: scope_bundle_def get_latest_def optional_row_def row_to_revision_def
      parse_bundle_or_throw_def bind_eq_Some_conv
      dest: parse_bundle_again split: sum.splits option.splits list.splits)

lemma default_parsed: "parse_bundle (the default_policy_bundle) = Some (the default_policy_bundle)"
  by code_simp

lemma deployment_spec_parsed: "deployment_spec pl tenant sv = Inr dep \<Longrightarrow> parse_bundle (de_bundle dep) = Some (de_bundle dep)"
  by (auto simp: deployment_spec_def stored_deployment_def get_deployment_policy_bundle_def
      default_entry_def default_parsed intro: served_parsed split: sum.splits option.splits)

lemma agent_spec_parsed: "agent_spec pl tenant agent sv = Inr ag \<Longrightarrow> ae_bundle ag = Some b \<Longrightarrow> parse_bundle b = Some b"
  by (auto simp: agent_spec_def stored_agent_def get_agent_policy_bundle_def no_agent_entry_def
      intro: served_parsed split: sum.splits option.splits)

text \<open>The bundles that an evaluation for this tenant and agent merges.\<close>

definition sources :: "platform \<Rightarrow> policy_bundle option \<Rightarrow> string \<Rightarrow> string option \<Rightarrow> service
    \<Rightarrow> policy_bundle option list" where
  "sources pl playbook tenant agent sv =
    (case (deployment_spec pl (trim tenant) sv, agent_spec pl (trim tenant) (trimmed_agent agent) sv) of
       (Inr dep, Inr ag) \<Rightarrow> [Some (de_bundle dep), ae_bundle ag, playbook]
     | _ \<Rightarrow> [])"

lemma effective_spec_merges:
  assumes "effective_spec pl playbook tenant agent sv = Inr eff"
    and "\<And>b. playbook = Some b \<Longrightarrow> parse_bundle b = Some b"
  shows "ef_bundle eff = (merged_object (sources pl playbook tenant agent sv))
    \<lparr>pb_auto_review_mode := Some AutoReview\<rparr>"
proof -
  from assms(1) obtain dep ag where d: "deployment_spec pl (trim tenant) sv = Inr dep"
    "agent_spec pl (trim tenant) (trimmed_agent agent) sv = Inr ag"
    "merge_policy_bundles [Some (de_bundle dep), ae_bundle ag, playbook] = Some (ef_bundle eff)"
    by (auto simp: effective_spec_def split: if_splits sum.splits option.splits)
  have "merge_policy_bundles [Some (de_bundle dep), ae_bundle ag, playbook] =
      Some ((merged_object [Some (de_bundle dep), ae_bundle ag, playbook])
        \<lparr>pb_auto_review_mode := Some AutoReview\<rparr>)"
    using assms(2) deployment_spec_parsed [OF d(1)] agent_spec_parsed [OF d(2)]
    by (intro merge_policy_bundles_parsed) auto
  with d show ?thesis by (simp add: sources_def)
qed

lemma merge_tool_lists:
  "set (tl_deny (foldl merge_tool_step acc ts)) = set (tl_deny acc) \<union> (\<Union>t \<in> {t. Some t \<in> set ts}. set (tl_deny t))"
proof (induction ts arbitrary: acc)
  case Nil
  then show ?case by simp
next
  case (Cons t ts)
  have split: "{x. Some x \<in> set (t # ts)} = set_option t \<union> {x. Some x \<in> set ts}"
    by (cases t) auto
  show ?case unfolding split foldl_Cons Cons
    by (cases t) (auto simp: merge_tool_step_def)
qed

lemma merged_tool_deny:
  assumes "Some b \<in> set bs" "evaluate_tool_decision_override (tools_domain b) tool = Some Deny"
  shows "evaluate_tool_decision_override (tools_domain (merged_object bs)) tool = Some Deny"
proof -
  from assms(2) obtain t where t: "pb_tools b = Some t" "matches_any (tl_deny t) (trim tool)"
    by (cases "pb_tools b")
      (auto simp: explicit_iff tools_domain_def normalize_domain_def matches_any_def)
  have "Some t \<in> set (map (\<lambda>b. Option.bind b pb_tools) bs)"
    using assms(1) t(1) by force
  with t(2) have "matches_any (tl_deny (merge_tool_domain (map (\<lambda>b. Option.bind b pb_tools) bs))) (trim tool)"
    by (auto simp: matches_any_iff merge_tool_domain_def merge_tool_lists)
  then show ?thesis
    by (simp add: explicit_iff tools_domain_def merged_object_def normalize_domain_def)
qed

lemma tool_verdict_explicit_deny:
  "evaluate_tool_decision_override (tools_domain b) (tc_tool c) = Some Deny \<Longrightarrow> tool_verdict b c = Deny"
  by (auto simp: tool_verdict_def tool_stage_def provenance_stage_def Let_def join_eq_Deny
      split: option.splits)

lemma tools_domain_mode: "tools_domain (b\<lparr>pb_auto_review_mode := m\<rparr>) = tools_domain b"
  by (simp add: tools_domain_def)

lemma evaluate_with_denied:
  assumes "tool_verdict b (c\<lparr>tc_tool := canonicalize_tool_id (tc_tool c)\<rparr>) = Deny"
    and "evaluate_with pl now b snap c sv = (Inr ev, sv')"
  shows "pe_decision ev = Deny"
  using assms by (auto simp: evaluate_with_def evaluate_silent [OF silent_deny] join_eq_Deny)

text \<open>
  C3. Any one source can forbid a tool: if the stored deployment bundle (or its default), the
  stored agent bundle or the playbook bundle explicitly denies the canonical tool id, the call
  is denied, whatever the other sources allow, whatever the caches hold and whatever overrides
  are granted.
\<close>

theorem any_source_denies:
  assumes "caches_ok pl sv"
    and "\<And>b. playbook = Some b \<Longrightarrow> parse_bundle b = Some b"
    and "evaluate_tool_call pl i now playbook c sv = (Inr ev, sv')"
    and "Some src \<in> set (sources pl playbook (tc_tenant c) (Some (tc_agent c)) sv)"
    and "evaluate_tool_decision_override (tools_domain src) (canonicalize_tool_id (tc_tool c)) = Some Deny"
  shows "pe_decision ev = Deny"
proof -
  obtain r sv1 where l: "load_effective_bundle pl playbook (tc_tenant c) (Some (tc_agent c)) sv = (r, sv1)"
    by fastforce
  with assms(3) obtain eff where r: "r = Inr eff"
    by (auto simp: evaluate_tool_call_def split: sum.splits)
  from load_effective_refines [OF assms(1) l]
  have e: "effective_spec pl playbook (tc_tenant c) (Some (tc_agent c)) sv = Inr eff"
    by (simp add: r)
  have "tool_verdict (ef_bundle eff) (c\<lparr>tc_tool := canonicalize_tool_id (tc_tool c)\<rparr>) = Deny"
    using merged_tool_deny [OF assms(4,5)]
    by (intro tool_verdict_explicit_deny) (simp add: effective_spec_merges [OF e assms(2)] tools_domain_mode)
  with assms(3) show ?thesis
    by (auto simp: evaluate_tool_call_def l r split: prod.splits intro: evaluate_with_denied)
qed

definition lockdown_bundle :: policy_bundle where
  "lockdown_bundle = empty_bundle\<lparr>pb_tools := Some \<lparr>tl_allow = [], tl_require_approval = [],
     tl_deny = [''bash'']\<rparr>, pb_auto_review_mode := Some AutoReview\<rparr>"

lemma any_source_denies_witness:
  "pe_decision (projr (fst (evaluate_tool_call demo_platform ''s1'' 40 (Some lockdown_bundle) demo_call
      demo_service))) = Deny"
proof (rule any_source_denies [OF demo_caches_ok])
  show "parse_bundle b = Some b" if "Some lockdown_bundle = Some b" for b
  proof -
    have "parse_bundle lockdown_bundle = Some lockdown_bundle" by code_simp
    then show ?thesis using that by simp
  qed
  show "evaluate_tool_call demo_platform ''s1'' 40 (Some lockdown_bundle) demo_call demo_service =
      (Inr (projr (fst (evaluate_tool_call demo_platform ''s1'' 40 (Some lockdown_bundle) demo_call
        demo_service))), snd (evaluate_tool_call demo_platform ''s1'' 40 (Some lockdown_bundle) demo_call
        demo_service))"
    by code_simp
  show "Some lockdown_bundle \<in> set (sources demo_platform (Some lockdown_bundle) (tc_tenant demo_call)
      (Some (tc_agent demo_call)) demo_service)"
    by code_simp
  show "evaluate_tool_decision_override (tools_domain lockdown_bundle)
      (canonicalize_tool_id (tc_tool demo_call)) = Some Deny"
    by code_simp
qed

subsection \<open>The review mode never reaches the effective bundle\<close>

lemma merged_review_mode:
  "merge_policy_bundles bs = Some b \<Longrightarrow> pb_auto_review_mode b = Some AutoReview"
  by (auto simp: merge_policy_bundles_def parse_bundle_def merged_object_def split: option.splits)

lemma effective_review_mode:
  "load_effective_bundle pl playbook tenant agent sv = (Inr eff, sv') \<Longrightarrow>
    pb_auto_review_mode (ef_bundle eff) = Some AutoReview"
  by (auto simp: load_effective_bundle_def merged_review_mode
      split: if_splits sum.splits option.splits prod.splits)

text \<open>
  The resolved review mode is always automatic: a stored bundle that selects
  \<open>manual_only\<close> has no effect, because the merge drops the \<open>approvals\<close> section and the schema
  restores its default.
\<close>

theorem review_mode_always_automatic:
  "fst (resolve_auto_review_mode pl tenant agent psv) = AutoReview"
  by (auto simp: resolve_auto_review_mode_def effective_review_mode
      split: option.splits sum.splits prod.splits)

subsection \<open>Secrets are released only on a known snapshot\<close>

text \<open>
  C7. Secret resolution fails closed: it is allowed exactly when no scope is requested, or the
  snapshot id names a stored snapshot of the tenant and its secret rules allow every requested
  scope.
\<close>

theorem secrets_allowed_iff:
  "pe_decision (evaluate_secrets_from_snapshot tenant sid scopes sv) = Allow \<longleftrightarrow>
    scopes = [] \<or>
    (\<exists>i snap. sid = Some i \<and> trim i \<noteq> [] \<and>
      snapshot_by_id tenant (trim i) (sv_snapshots sv) = Some snap \<and>
      (\<forall>sc \<in> set scopes.
        evaluate_domain (normalize_domain (pb_secrets (sn_bundle snap)) RequireApproval) sc = Allow))"
proof -
  have fold: "secrets_decision b scopes = foldl most_restrictive_decision Allow
      (map (evaluate_domain (normalize_domain (pb_secrets b) RequireApproval)) scopes)" for b
    by (simp add: secrets_decision_def foldl_map)
  have "secrets_decision b scopes = Allow \<longleftrightarrow>
      (\<forall>sc \<in> set scopes. evaluate_domain (normalize_domain (pb_secrets b) RequireApproval) sc = Allow)" for b
    unfolding fold by (simp add: restrict.foldl_neutral_iff)
  then show ?thesis
    by (auto simp: evaluate_secrets_from_snapshot_def missing_snapshot_def Let_def split: option.splits)
qed

lemma secrets_allowed_iff_witness:
  "pe_decision (evaluate_secrets_from_snapshot ''t'' (Some '' '') [''db''] demo_service) \<noteq> Allow"
proof -
  have "trim '' '' = []" by code_simp
  then show ?thesis unfolding secrets_allowed_iff by auto
qed


subsection \<open>Decisions can be replayed from their snapshot\<close>

lemma canonical_fields [simp]:
  "pb_tools (canonical_bundle b) = pb_tools b"
  "pb_network_egress (canonical_bundle b) = pb_network_egress b"
  "pb_secrets (canonical_bundle b) = pb_secrets b"
  "pb_connectors (canonical_bundle b) = pb_connectors b"
  "pb_untrusted_shell_requires_approval (canonical_bundle b) = pb_untrusted_shell_requires_approval b"
  by (simp_all add: canonical_bundle_def)

lemma stages_canonical:
  "tool_stage (canonical_bundle b) c = tool_stage b c"
  "provenance_stage (canonical_bundle b) c acc = provenance_stage b c acc"
  "egress_stage u (canonical_bundle b) c = egress_stage u b c"
  "secrets_stage (canonical_bundle b) c = secrets_stage b c"
proof -
  have "tools_domain (canonical_bundle b) = tools_domain b" by (simp add: tools_domain_def)
  then show "tool_stage (canonical_bundle b) c = tool_stage b c" by (simp only: tool_stage_def)
  show "provenance_stage (canonical_bundle b) c acc = provenance_stage b c acc"
    unfolding provenance_stage_def canonical_fields ..
  show "egress_stage u (canonical_bundle b) c = egress_stage u b c"
    unfolding egress_stage_def canonical_fields ..
  have "secrets_decision (canonical_bundle b) scs = secrets_decision b scs" for scs
    by (simp add: secrets_decision_def)
  then show "secrets_stage (canonical_bundle b) c = secrets_stage b c"
    by (simp only: secrets_stage_def)
qed

lemma evaluate_with_canonical: "evaluate_with pl now (canonical_bundle b) snap c sv = evaluate_with pl now b snap c sv"
  by (simp only: evaluate_with_def evaluate_tool_call_against_bundle_def stages_canonical)

text \<open>
  A recorded decision can be replayed: evaluating the same call at the same time against
  the snapshot that the evaluation returned, with the override table as it was, gives the same
  evaluation, rule for rule.
\<close>

theorem decision_replayable:
  assumes "caches_ok pl sv" "snapshots_wf (sv_snapshots sv)"
    and "\<And>b. playbook = Some b \<Longrightarrow> parse_bundle b = Some b"
    and "\<forall>r \<in> set (sv_snapshots sv). ss_id r \<noteq> i"
    and "\<And>b. \<forall>r \<in> set (sv_snapshots sv). ss_sha r = sha_of pl b \<longrightarrow>
      ss_bundle_json r = Some (canonical_bundle b)"
    and "evaluate_tool_call pl i now playbook c sv = (Inr ev, sv')"
  shows "\<exists>snap. pe_snapshot ev = Some snap \<and>
    evaluate_tool_call_from_snapshot pl now (sn_id snap) c (sv'\<lparr>sv_overrides := sv_overrides sv\<rparr>) =
      (Inr ev, sv')"
proof -
  obtain r sv1 where l: "load_effective_bundle pl playbook (tc_tenant c) (Some (tc_agent c)) sv = (r, sv1)"
    by fastforce
  with assms(6) obtain eff where r: "r = Inr eff"
    by (auto simp: evaluate_tool_call_def split: sum.splits)
  note ref = load_effective_refines [OF assms(1) l]
  then have dur: "sv_snapshots sv1 = sv_snapshots sv" "sv_overrides sv1 = sv_overrides sv"
    by (simp_all add: durable_def)
  from ref have e: "effective_spec pl playbook (tc_tenant c) (Some (tc_agent c)) sv = Inr eff"
    by (simp add: r)
  have p: "parse_bundle (ef_bundle eff) = Some (ef_bundle eff)"
    using l by (auto simp: r load_effective_bundle_def merge_policy_bundles_def
        split: if_splits sum.splits option.splits prod.splits dest: parse_bundle_again)
  obtain snap rows where g:
    "get_or_create_snapshot (pl_sha pl) i now (tc_tenant c) (ef_bundle eff) (sv_snapshots sv) = (snap, rows)"
    by fastforce
  from snapshot_recorded [OF p assms(2) _ _ g] assms(4,5)
  have s: "sn_bundle snap = canonical_bundle (ef_bundle eff)"
    "snapshot_by_id (tc_tenant c) (sn_id snap) rows = Some snap"
    by (simp_all add: sha_of_def)
  from assms(6) have ev: "evaluate_with pl now (ef_bundle eff) snap c (sv1\<lparr>sv_snapshots := rows\<rparr>) = (Inr ev, sv')"
    by (simp add: evaluate_tool_call_def l r service_snapshot_def dur g)
  then have fields: "pe_snapshot ev = Some snap" "sv'\<lparr>sv_overrides := sv_overrides sv\<rparr> = sv1\<lparr>sv_snapshots := rows\<rparr>"
    by (auto simp: evaluate_with_def dur split: prod.splits sum.splits)
  then show ?thesis
    using ev s by (simp add: evaluate_tool_call_from_snapshot_def evaluate_with_canonical)
qed

definition demo_run :: "(service_error + policy_evaluation) \<times> service" where
  "demo_run = evaluate_tool_call demo_platform ''s1'' 40 None demo_call demo_service"

lemma decision_replayable_witness:
  "\<exists>snap. pe_snapshot (projr (fst demo_run)) = Some snap \<and>
    evaluate_tool_call_from_snapshot demo_platform 40 (sn_id snap) demo_call
      ((snd demo_run)\<lparr>sv_overrides := demo_db\<rparr>) = (Inr (projr (fst demo_run)), snd demo_run)"
proof -
  have run: "evaluate_tool_call demo_platform ''s1'' 40 None demo_call demo_service =
      (Inr (projr (fst demo_run)), snd demo_run)"
    by code_simp
  have empty: "sv_snapshots demo_service = []" "sv_overrides demo_service = demo_db"
    by (simp_all add: demo_service_def)
  show ?thesis
    using decision_replayable [OF demo_caches_ok _ _ _ _ run]
    by (simp add: empty snapshots_wf_def)
qed

end
