(* ===== verification/Task_Results.thy ===== *)
theory Task_Results
  imports Prelude
begin

text \<open>
  \<open>runtime-execution/src/task-result-registry.ts\<close>: results of dispatched tasks meet their
  waiters. A promise is a number; settling it appends to \<open>rg_settled\<close>, so that "settled at
  most once" is a statement about that log. Timers are the operation \<open>fire_timeout\<close>: every
  path that removes a pending entry clears its timer, so a timer acts only on a task that is
  still pending, and the callback itself checks that again.
\<close>

subsection \<open>State\<close>

record task_result =
  tr_ok :: bool
  tr_result :: "string option"
  tr_evidence :: "string option"
  tr_error :: "string option"

datatype outcome = Resolved task_result | Rejected string

datatype wait_result = Settled outcome | Waiting nat

record pending_entry =
  pn_promise :: nat
  pn_connection :: "string option"

record registry =
  rg_pending :: "(string, pending_entry) omap"
  rg_buffered :: "(string, task_result) omap"
  rg_pre_errors :: "(string, string) omap"
  rg_terminal :: "(string, unit) omap"
  rg_by_connection :: "(string, string list) omap"
  rg_by_task :: "(string, string) omap"
  rg_settled :: "(nat \<times> outcome) list"
  rg_next :: nat
  rg_max_buffered :: nat
  rg_max_terminal :: nat
  rg_max_associations :: nat

definition at_least_one :: "int option \<Rightarrow> int \<Rightarrow> nat" where
  "at_least_one v dflt = nat (max 1 (case v of None \<Rightarrow> dflt | Some n \<Rightarrow> n))"

definition new_registry :: "int option \<Rightarrow> int option \<Rightarrow> int option \<Rightarrow> registry" where
  "new_registry max_buffered max_terminal max_associations =
    (let t = at_least_one max_terminal 50000 in
     \<lparr>rg_pending = [], rg_buffered = [], rg_pre_errors = [], rg_terminal = [],
      rg_by_connection = [], rg_by_task = [], rg_settled = [], rg_next = 0,
      rg_max_buffered = at_least_one max_buffered 10000, rg_max_terminal = t,
      rg_max_associations = at_least_one max_associations (int t)\<rparr>)"

subsection \<open>Associations\<close>

definition remove_task_from_connection_index :: "string \<Rightarrow> string \<Rightarrow> registry \<Rightarrow> registry" where
  "remove_task_from_connection_index t c r =
    (case om_get (rg_by_connection r) c of
       None \<Rightarrow> r
     | Some ts \<Rightarrow>
         (let left = filter (\<lambda>x. x \<noteq> t) ts in
          r\<lparr>rg_by_connection := (if left = [] then om_del c (rg_by_connection r)
                                else om_set c left (rg_by_connection r))\<rparr>))"

definition clear_association :: "string \<Rightarrow> string option \<Rightarrow> registry \<Rightarrow> registry" where
  "clear_association t fallback r =
    (let conn = (case om_get (rg_by_task r) t of None \<Rightarrow> fallback | Some c \<Rightarrow> Some c);
         r1 = r\<lparr>rg_by_task := om_del t (rg_by_task r)\<rparr>
     in case conn of None \<Rightarrow> r1
        | Some c \<Rightarrow> if c = [] then r1 else remove_task_from_connection_index t c r1)"

text \<open>One round of the loop that drops the oldest association.\<close>

definition drop_association :: "registry \<Rightarrow> string \<times> string \<Rightarrow> registry" where
  "drop_association r e =
    remove_task_from_connection_index (fst e) (snd e)
      (r\<lparr>rg_by_task := om_del (fst e) (rg_by_task r),
         rg_pre_errors := om_del (fst e) (rg_pre_errors r)\<rparr>)"

definition link :: "string \<Rightarrow> string \<Rightarrow> registry \<Rightarrow> registry" where
  "link t c r =
    (let ts = (case om_get (rg_by_connection r) c of None \<Rightarrow> [] | Some ts \<Rightarrow> ts) in
     r\<lparr>rg_by_task := om_del t (rg_by_task r) @ [(t, c)],
       rg_by_connection := om_set c (add_unique ts t) (rg_by_connection r)\<rparr>)"

definition relink :: "string \<Rightarrow> string \<Rightarrow> registry \<Rightarrow> registry" where
  "relink t c r =
    link t c (case om_get (rg_by_task r) t of
                Some prev \<Rightarrow> if prev \<noteq> c then remove_task_from_connection_index t prev r else r
              | None \<Rightarrow> r)"

definition set_association :: "string \<Rightarrow> string \<Rightarrow> registry \<Rightarrow> registry" where
  "set_association t c r =
    (let r2 = relink t c r
     in foldl drop_association r2
          (take (length (rg_by_task r2) - rg_max_associations r2) (rg_by_task r2)))"

subsection \<open>Operations\<close>

definition mark_terminal :: "string \<Rightarrow> registry \<Rightarrow> registry" where
  "mark_terminal t r =
    r\<lparr>rg_terminal := om_evict (rg_max_terminal r) (om_del t (rg_terminal r) @ [(t, ())])\<rparr>"

definition settle :: "nat \<Rightarrow> outcome \<Rightarrow> registry \<Rightarrow> registry" where
  "settle p v r = r\<lparr>rg_settled := rg_settled r @ [(p, v)]\<rparr>"

definition get_associated_connection_id :: "string \<Rightarrow> registry \<Rightarrow> string option" where
  "get_associated_connection_id task r =
    (if trim task = [] then None else om_get (rg_by_task r) (trim task))"

definition associate :: "string \<Rightarrow> string \<Rightarrow> registry \<Rightarrow> registry" where
  "associate task connection r =
    (let t = trim task; c = trim connection in
     if t = [] \<or> c = [] \<or> om_has (rg_terminal r) t then r
     else (let r1 = set_association t c r in
           case om_get (rg_pending r) t of
             Some e \<Rightarrow>
               if nonempty (pn_connection e) then r1
               else r1\<lparr>rg_pending := om_set t (e\<lparr>pn_connection := Some c\<rparr>) (rg_pending r1)\<rparr>
           | None \<Rightarrow> r1))"

definition wait :: "string \<Rightarrow> string option \<Rightarrow> registry \<Rightarrow> wait_result \<times> registry" where
  "wait task connection r =
    (let t = trim task in
     if t = [] then (Settled (Rejected ''taskId is required''), r)
     else case om_get (rg_pre_errors r) t of
       Some err \<Rightarrow>
         (Settled (Rejected err),
          mark_terminal t (clear_association t None
            (r\<lparr>rg_pre_errors := om_del t (rg_pre_errors r)\<rparr>)))
     | None \<Rightarrow>
         if om_has (rg_terminal r) t
         then (Settled (Rejected (''task result no longer available: '' @ t)), r)
         else (case om_get (rg_buffered r) t of
           Some v \<Rightarrow>
             (Settled (Resolved v),
              mark_terminal t (clear_association t None
                (r\<lparr>rg_buffered := om_del t (rg_buffered r),
                   rg_pre_errors := om_del t (rg_pre_errors r)\<rparr>)))
         | None \<Rightarrow>
             (case om_get (rg_pending r) t of
                Some e \<Rightarrow> (Waiting (pn_promise e), r)
              | None \<Rightarrow>
                  (let explicit = map_option trim connection;
                       conn = (if nonempty explicit then explicit else om_get (rg_by_task r) t);
                       conn' = (if nonempty conn then conn else None);
                       r1 = r\<lparr>rg_pending := om_set t \<lparr>pn_promise = rg_next r, pn_connection = conn'\<rparr>
                                (rg_pending r),
                              rg_next := Suc (rg_next r)\<rparr>
                   in (Waiting (rg_next r),
                       case conn' of None \<Rightarrow> r1 | Some c \<Rightarrow> set_association t c r1)))))"

definition fire_timeout :: "string \<Rightarrow> registry \<Rightarrow> registry" where
  "fire_timeout t r =
    (case om_get (rg_pending r) t of
       None \<Rightarrow> r
     | Some e \<Rightarrow>
         settle (pn_promise e) (Rejected (''task result timeout: '' @ t))
           (mark_terminal t (clear_association t (pn_connection e)
             (r\<lparr>rg_pending := om_del t (rg_pending r)\<rparr>))))"

definition resolve_task :: "string \<Rightarrow> task_result \<Rightarrow> registry \<Rightarrow> bool \<times> registry" where
  "resolve_task task v r =
    (let t = trim task in
     if t = [] \<or> om_has (rg_terminal r) t then (False, r)
     else case om_get (rg_pending r) t of
       Some e \<Rightarrow>
         (True, settle (pn_promise e) (Resolved v)
            (mark_terminal t (clear_association t (pn_connection e)
              (r\<lparr>rg_pending := om_del t (rg_pending r),
                 rg_pre_errors := om_del t (rg_pre_errors r)\<rparr>))))
     | None \<Rightarrow>
         if om_has (rg_buffered r) t then (False, r)
         else (True,
           (let r1 = clear_association t None
                       (r\<lparr>rg_buffered := om_set t v (rg_buffered r),
                          rg_pre_errors := om_del t (rg_pre_errors r)\<rparr>)
            in r1\<lparr>rg_buffered := om_evict (rg_max_buffered r1) (rg_buffered r1)\<rparr>)))"

definition reject_step :: "string \<Rightarrow> nat \<times> registry \<Rightarrow> string \<Rightarrow> nat \<times> registry" where
  "reject_step c acc t =
    (let n = fst acc; r = snd acc; msg = ''task connection disconnected: '' @ c in
     case om_get (rg_pending r) t of
       Some e \<Rightarrow>
         (Suc n, settle (pn_promise e) (Rejected msg)
            (mark_terminal t (clear_association t (pn_connection e)
              (r\<lparr>rg_pending := om_del t (rg_pending r),
                 rg_pre_errors := om_del t (rg_pre_errors r)\<rparr>))))
     | None \<Rightarrow>
         if om_has (rg_buffered r) t then (n, clear_association t None r)
         else (n, mark_terminal t (clear_association t None
                (r\<lparr>rg_pre_errors :=
                    om_evict (rg_max_terminal r) (om_del t (rg_pre_errors r) @ [(t, msg)])\<rparr>))))"

definition reject_all_for_connection :: "string \<Rightarrow> registry \<Rightarrow> nat \<times> registry" where
  "reject_all_for_connection connection r =
    (let c = trim connection in
     if c = [] then (0, r)
     else case om_get (rg_by_connection r) c of
       None \<Rightarrow> (0, r)
     | Some ts \<Rightarrow>
         if ts = [] then (0, r)
         else foldl (reject_step c) (0, r\<lparr>rg_by_connection := om_del c (rg_by_connection r)\<rparr>) ts)"


subsection \<open>What the helpers leave alone\<close>

lemma remove_task_fields [simp]:
  "rg_pending (remove_task_from_connection_index t c r) = rg_pending r"
  "rg_buffered (remove_task_from_connection_index t c r) = rg_buffered r"
  "rg_pre_errors (remove_task_from_connection_index t c r) = rg_pre_errors r"
  "rg_terminal (remove_task_from_connection_index t c r) = rg_terminal r"
  "rg_by_task (remove_task_from_connection_index t c r) = rg_by_task r"
  "rg_settled (remove_task_from_connection_index t c r) = rg_settled r"
  "rg_next (remove_task_from_connection_index t c r) = rg_next r"
  "rg_max_buffered (remove_task_from_connection_index t c r) = rg_max_buffered r"
  "rg_max_terminal (remove_task_from_connection_index t c r) = rg_max_terminal r"
  "rg_max_associations (remove_task_from_connection_index t c r) = rg_max_associations r"
  by (simp_all add: remove_task_from_connection_index_def Let_def split: option.split)

lemma clear_association_fields [simp]:
  "rg_pending (clear_association t fb r) = rg_pending r"
  "rg_buffered (clear_association t fb r) = rg_buffered r"
  "rg_pre_errors (clear_association t fb r) = rg_pre_errors r"
  "rg_terminal (clear_association t fb r) = rg_terminal r"
  "rg_by_task (clear_association t fb r) = om_del t (rg_by_task r)"
  "rg_settled (clear_association t fb r) = rg_settled r"
  "rg_next (clear_association t fb r) = rg_next r"
  "rg_max_buffered (clear_association t fb r) = rg_max_buffered r"
  "rg_max_terminal (clear_association t fb r) = rg_max_terminal r"
  "rg_max_associations (clear_association t fb r) = rg_max_associations r"
  by (simp_all add: clear_association_def Let_def split: option.split)

lemma drop_association_fields [simp]:
  "rg_pending (drop_association r e) = rg_pending r"
  "rg_buffered (drop_association r e) = rg_buffered r"
  "rg_pre_errors (drop_association r e) = om_del (fst e) (rg_pre_errors r)"
  "rg_terminal (drop_association r e) = rg_terminal r"
  "rg_by_task (drop_association r e) = om_del (fst e) (rg_by_task r)"
  "rg_settled (drop_association r e) = rg_settled r"
  "rg_next (drop_association r e) = rg_next r"
  "rg_max_buffered (drop_association r e) = rg_max_buffered r"
  "rg_max_terminal (drop_association r e) = rg_max_terminal r"
  "rg_max_associations (drop_association r e) = rg_max_associations r"
  by (simp_all add: drop_association_def)

lemma drop_associations_fields [simp]:
  "rg_pending (foldl drop_association r es) = rg_pending r"
  "rg_buffered (foldl drop_association r es) = rg_buffered r"
  "rg_terminal (foldl drop_association r es) = rg_terminal r"
  "rg_settled (foldl drop_association r es) = rg_settled r"
  "rg_next (foldl drop_association r es) = rg_next r"
  "rg_max_buffered (foldl drop_association r es) = rg_max_buffered r"
  "rg_max_terminal (foldl drop_association r es) = rg_max_terminal r"
  "rg_max_associations (foldl drop_association r es) = rg_max_associations r"
  by (induction es arbitrary: r) simp_all

lemma drop_associations_pre_errors:
  "rg_pre_errors (foldl drop_association r es) = filter (\<lambda>e. fst e \<notin> fst ` set es) (rg_pre_errors r)"
  by (induction es arbitrary: r) (simp_all add: om_del_def conj_commute)

lemma link_fields [simp]:
  "rg_pending (link t c r) = rg_pending r"
  "rg_buffered (link t c r) = rg_buffered r"
  "rg_pre_errors (link t c r) = rg_pre_errors r"
  "rg_terminal (link t c r) = rg_terminal r"
  "rg_by_task (link t c r) = om_del t (rg_by_task r) @ [(t, c)]"
  "rg_settled (link t c r) = rg_settled r"
  "rg_next (link t c r) = rg_next r"
  "rg_max_buffered (link t c r) = rg_max_buffered r"
  "rg_max_terminal (link t c r) = rg_max_terminal r"
  "rg_max_associations (link t c r) = rg_max_associations r"
  by (simp_all add: link_def Let_def)

lemma relink_fields [simp]:
  "rg_pending (relink t c r) = rg_pending r"
  "rg_buffered (relink t c r) = rg_buffered r"
  "rg_pre_errors (relink t c r) = rg_pre_errors r"
  "rg_terminal (relink t c r) = rg_terminal r"
  "rg_settled (relink t c r) = rg_settled r"
  "rg_next (relink t c r) = rg_next r"
  "rg_max_buffered (relink t c r) = rg_max_buffered r"
  "rg_max_terminal (relink t c r) = rg_max_terminal r"
  "rg_max_associations (relink t c r) = rg_max_associations r"
  "rg_by_task (relink t c r) = om_del t (rg_by_task r) @ [(t, c)]"
  by (simp_all add: relink_def split: option.split)

lemma set_association_fields [simp]:
  "rg_pending (set_association t c r) = rg_pending r"
  "rg_buffered (set_association t c r) = rg_buffered r"
  "rg_terminal (set_association t c r) = rg_terminal r"
  "rg_settled (set_association t c r) = rg_settled r"
  "rg_next (set_association t c r) = rg_next r"
  "rg_max_buffered (set_association t c r) = rg_max_buffered r"
  "rg_max_terminal (set_association t c r) = rg_max_terminal r"
  "rg_max_associations (set_association t c r) = rg_max_associations r"
  by (simp_all add: set_association_def Let_def)

lemma set_association_pre_errors:
  "\<exists>P. rg_pre_errors (set_association t c r) = filter P (rg_pre_errors r)"
  unfolding set_association_def Let_def drop_associations_pre_errors relink_fields by blast

subsection \<open>The two association maps mirror each other\<close>

definition linked :: "registry \<Rightarrow> string \<Rightarrow> string \<Rightarrow> bool" where
  "linked r c t \<longleftrightarrow> (\<exists>ts. om_get (rg_by_connection r) c = Some ts \<and> t \<in> set ts)"

text \<open>
  \<open>D\<close> is the set of associations whose index entry is already gone, as in the middle of
  \<open>rejectAllForConnection\<close>; between operations it is empty.
\<close>

definition index_rel :: "(string \<times> string) set \<Rightarrow> registry \<Rightarrow> bool" where
  "index_rel D r \<longleftrightarrow>
    (\<forall>t c. om_get (rg_by_task r) t = Some c \<longleftrightarrow> linked r c t \<or> (t, c) \<in> D) \<and>
    (\<forall>t c. (t, c) \<in> D \<longrightarrow> \<not> linked r c t) \<and>
    (\<forall>t. om_get (rg_by_task r) t \<noteq> Some []) \<and>
    (\<forall>c. om_get (rg_by_connection r) c \<noteq> Some []) \<and> om_wf (rg_by_task r)"

lemma linked_remove [simp]:
  "linked (remove_task_from_connection_index t c r) c' t' \<longleftrightarrow> linked r c' t' \<and> (c', t') \<noteq> (c, t)"
  by (auto simp: linked_def remove_task_from_connection_index_def Let_def filter_empty_conv
      split: option.splits)

lemma remove_nonempty:
  "\<forall>c. om_get (rg_by_connection r) c \<noteq> Some [] \<Longrightarrow>
    om_get (rg_by_connection (remove_task_from_connection_index t c r)) c' \<noteq> Some []"
  by (auto simp: remove_task_from_connection_index_def Let_def split: option.splits)

lemma linked_update [simp]:
  "linked (r\<lparr>rg_by_task := m\<rparr>) c t = linked r c t"
  "linked (r\<lparr>rg_pre_errors := e\<rparr>) c t = linked r c t"
  "linked (r\<lparr>rg_pending := p\<rparr>) c t = linked r c t"
  "linked (r\<lparr>rg_buffered := b\<rparr>) c t = linked r c t"
  "linked (r\<lparr>rg_terminal := e'\<rparr>) c t = linked r c t"
  "linked (r\<lparr>rg_settled := s\<rparr>) c t = linked r c t"
  "linked (r\<lparr>rg_next := n\<rparr>) c t = linked r c t"
  by (simp_all add: linked_def)

lemma linked_unchanged [simp]:
  "linked (mark_terminal u r) c t = linked r c t"
  "linked (settle q v r) c t = linked r c t"
  by (simp_all add: mark_terminal_def settle_def)

lemma linked_link [simp]: "linked (link u d r) c t \<longleftrightarrow> linked r c t \<or> (c = d \<and> t = u)"
  by (cases "om_get (rg_by_connection r) d") (auto simp: linked_def link_def Let_def add_unique_def)

lemma index_rel_cong:
  "rg_by_task r' = rg_by_task r \<Longrightarrow> rg_by_connection r' = rg_by_connection r \<Longrightarrow>
    index_rel D r' = index_rel D r"
  by (simp add: index_rel_def linked_def)

lemma index_relI:
  assumes "\<And>t c. om_get (rg_by_task r) t = Some c \<longleftrightarrow> linked r c t \<or> (t, c) \<in> D"
    and "\<And>t c. (t, c) \<in> D \<Longrightarrow> \<not> linked r c t"
    and "\<And>t. om_get (rg_by_task r) t \<noteq> Some []"
    and "\<And>c. om_get (rg_by_connection r) c \<noteq> Some []" and "om_wf (rg_by_task r)"
  shows "index_rel D r"
  using assms unfolding index_rel_def by (intro conjI allI impI) assumption+

lemma index_relD:
  assumes "index_rel D r"
  shows "om_get (rg_by_task r) t = Some c \<longleftrightarrow> linked r c t \<or> (t, c) \<in> D"
    and "(t, c) \<in> D \<Longrightarrow> \<not> linked r c t"
    and "om_get (rg_by_task r) t \<noteq> Some []"
    and "om_get (rg_by_connection r) c \<noteq> Some []" and "om_wf (rg_by_task r)"
  using assms unfolding index_rel_def by blast+

lemma linked_task: "index_rel D r \<Longrightarrow> linked r c t \<Longrightarrow> om_get (rg_by_task r) t = Some c"
  by (simp add: index_rel_def)

lemma linked_unique:
  assumes "index_rel D r" "linked r c t"
  shows "linked r c' t \<Longrightarrow> c' = c" "(t, c') \<in> D \<Longrightarrow> c' = c"
  using assms unfolding index_rel_def by (metis option.inject)+

lemma filter_other_keys: "t \<notin> fst ` set m \<Longrightarrow> filter (\<lambda>e. fst e \<noteq> t) m = m"
  by (auto intro!: filter_True)

lemma index_rel_clear:
  assumes "index_rel D r"
  shows "index_rel {d \<in> D. fst d \<noteq> t} (clear_association t fb r)"
proof -
  have nonempty_key: "om_get (rg_by_task r) u \<noteq> Some []" for u
    using assms unfolding index_rel_def by blast
  have linked': "linked (clear_association t fb r) c t' \<longleftrightarrow> linked r c t' \<and> t' \<noteq> t" for c t'
    using nonempty_key
    by (cases "om_get (rg_by_task r) t"; cases fb)
      (auto simp: clear_association_def Let_def dest: linked_task [OF assms])
  have ne: "om_get (rg_by_connection (clear_association t fb r)) c \<noteq> Some []" for c
    using assms remove_nonempty
    by (auto simp: clear_association_def Let_def index_rel_def split: option.splits)
  show ?thesis
    using assms ne by (auto simp: index_rel_def linked')
qed

lemma om_get_snoc: "om_get (m @ [(t, c)]) k = (case om_get m k of None \<Rightarrow> if k = t then Some c else None | Some x \<Rightarrow> Some x)"
  by (auto simp: om_get_def map_add_def split: option.split)

lemma om_get_move: "om_get (om_del t m @ [(t, c)]) k = (if k = t then Some c else om_get m k)"
  by (simp add: om_get_snoc split: option.split)

lemma om_wf_snoc: "om_wf m \<Longrightarrow> om_wf (om_del t m @ [(t, c)])"
  by (auto simp: om_wf_def om_del_def distinct_map inj_on_def)

lemma index_rel_drop:
  assumes "index_rel D r" "om_get (rg_by_task r) t = Some c" "(t, c) \<notin> D"
  shows "index_rel D (drop_association r (t, c))"
proof -
  have linked': "linked (drop_association r (t, c)) c' t' \<longleftrightarrow> linked r c' t' \<and> (c', t') \<noteq> (c, t)" for c' t'
    by (simp add: drop_association_def)
  have only: "linked r c' t \<or> (t, c') \<in> D \<Longrightarrow> c' = c" for c'
    using assms(2) index_relD(1) [OF assms(1), of t c'] by simp
  show ?thesis
  proof (rule index_relI)
    fix t' c'
    show "om_get (rg_by_task (drop_association r (t, c))) t' = Some c' \<longleftrightarrow>
        linked (drop_association r (t, c)) c' t' \<or> (t', c') \<in> D"
      using only assms(3) by (auto simp: linked' index_relD(1) [OF assms(1)])
    show "(t', c') \<in> D \<Longrightarrow> \<not> linked (drop_association r (t, c)) c' t'"
      using index_relD(2) [OF assms(1)] by (simp add: linked')
    show "om_get (rg_by_task (drop_association r (t, c))) t' \<noteq> Some []"
      using index_relD(3) [OF assms(1)] by simp
    show "om_get (rg_by_connection (drop_association r (t, c))) c' \<noteq> Some []"
      unfolding drop_association_def
      by (rule remove_nonempty) (use index_relD(4) [OF assms(1)] in simp)
    show "om_wf (rg_by_task (drop_association r (t, c)))"
      using index_relD(5) [OF assms(1)] by simp
  qed
qed

lemma index_rel_drops:
  assumes "index_rel {} r" "rg_by_task r = es @ m"
  shows "index_rel {} (foldl drop_association r es) \<and> rg_by_task (foldl drop_association r es) = m"
  using assms
proof (induction es arbitrary: r)
  case Nil
  then show ?case by simp
next
  case (Cons e es)
  obtain t c where e: "e = (t, c)" by fastforce
  have "om_del t (rg_by_task r) = es @ m"
    using Cons.prems by (simp add: index_rel_def om_wf_def om_del_def e filter_other_keys)
  moreover have "index_rel {} (drop_association r e)"
    unfolding e by (rule index_rel_drop) (use Cons.prems in \<open>auto simp: e om_get_def\<close>)
  ultimately show ?case using Cons.IH [of "drop_association r e"] by (simp add: e)
qed

lemma linked_relink:
  assumes "index_rel {} r"
  shows "linked (relink t c r) c' t' \<longleftrightarrow> (if t' = t then c' = c else linked r c' t')"
  by (cases "om_get (rg_by_task r) t") (auto simp: relink_def dest: linked_task [OF assms])

lemma link_nonempty:
  "\<forall>d. om_get (rg_by_connection r) d \<noteq> Some [] \<Longrightarrow> om_get (rg_by_connection (link t c r)) d \<noteq> Some []"
  by (cases "om_get (rg_by_connection r) c") (auto simp: link_def Let_def add_unique_def)

lemma relink_nonempty:
  assumes "index_rel {} r"
  shows "om_get (rg_by_connection (relink t c r)) d \<noteq> Some []"
proof -
  have ne: "\<forall>d. om_get (rg_by_connection r) d \<noteq> Some []" using assms by (simp add: index_rel_def)
  then show ?thesis
    unfolding relink_def
    by (cases "om_get (rg_by_task r) t") (auto intro!: link_nonempty simp: remove_nonempty)
qed

lemma index_rel_relink:
  assumes "index_rel {} r" "c \<noteq> []"
  shows "index_rel {} (relink t c r)"
proof (rule index_relI)
  fix t' c'
  show "om_get (rg_by_task (relink t c r)) t' = Some c' \<longleftrightarrow> linked (relink t c r) c' t' \<or> (t', c') \<in> {}"
    using index_relD(1) [OF assms(1)] by (auto simp: om_get_move linked_relink [OF assms(1)])
  show "om_get (rg_by_task (relink t c r)) t' \<noteq> Some []"
    using index_relD(3) [OF assms(1)] assms(2) by (simp add: om_get_move)
  show "om_get (rg_by_connection (relink t c r)) c' \<noteq> Some []"
    by (rule relink_nonempty [OF assms(1)])
  show "om_wf (rg_by_task (relink t c r))"
    using index_relD(5) [OF assms(1)] by (simp add: om_wf_snoc)
qed simp

lemma index_rel_set_association:
  assumes "index_rel {} r" "c \<noteq> []"
  shows "index_rel {} (set_association t c r) \<and>
    length (rg_by_task (set_association t c r)) \<le> rg_max_associations r"
proof -
  define m where "m = rg_by_task (relink t c r)"
  define n where "n = length m - rg_max_associations r"
  have "set_association t c r = foldl drop_association (relink t c r) (take n m)"
    by (simp add: set_association_def Let_def n_def m_def)
  moreover have "rg_by_task (relink t c r) = take n m @ drop n m"
    by (simp only: m_def [symmetric] append_take_drop_id)
  note index_rel_drops [OF index_rel_relink [OF assms] this]
  ultimately show ?thesis by (simp add: n_def)
qed


subsection \<open>The registry invariant\<close>

definition live :: "registry \<Rightarrow> nat list" where
  "live r = map (\<lambda>e. pn_promise (snd e)) (rg_pending r)"

text \<open>
  Every promise that was handed out is either pending or has been settled, and never both and never
  settled twice.
\<close>

definition promises_ok :: "registry \<Rightarrow> bool" where
  "promises_ok r \<longleftrightarrow> distinct (map fst (rg_settled r) @ live r) \<and>
    set (map fst (rg_settled r) @ live r) = {..<rg_next r} \<and> om_wf (rg_pending r)"

text \<open>A task is pending, buffered or terminal, never two of them.\<close>

definition phases_ok :: "registry \<Rightarrow> bool" where
  "phases_ok r \<longleftrightarrow> (\<forall>t.
    \<not> (om_has (rg_pending r) t \<and> om_has (rg_terminal r) t) \<and>
    \<not> (om_has (rg_pending r) t \<and> om_has (rg_buffered r) t) \<and>
    \<not> (om_has (rg_buffered r) t \<and> om_has (rg_terminal r) t) \<and>
    \<not> (om_has (rg_pre_errors r) t \<and> om_has (rg_pending r) t) \<and>
    \<not> (om_has (rg_pre_errors r) t \<and> om_has (rg_buffered r) t))"

definition bounds_ok :: "registry \<Rightarrow> bool" where
  "bounds_ok r \<longleftrightarrow> length (rg_buffered r) \<le> rg_max_buffered r \<and>
    length (rg_terminal r) \<le> rg_max_terminal r \<and> length (rg_pre_errors r) \<le> rg_max_terminal r \<and>
    length (rg_by_task r) \<le> rg_max_associations r"

definition registry_ok :: "registry \<Rightarrow> bool" where
  "registry_ok r \<longleftrightarrow> promises_ok r \<and> phases_ok r \<and> bounds_ok r \<and> index_rel {} r"

lemmas registry_ok_defs = promises_ok_def phases_ok_def bounds_ok_def live_def

lemma om_has_evict: "om_has (om_evict n m) t \<Longrightarrow> om_has m t"
  by (auto simp: om_has_def om_evict_def dest: in_set_dropD)

lemma om_has_append [simp]: "om_has (m @ [(t, v)]) u \<longleftrightarrow> om_has m u \<or> u = t"
  by (auto simp: om_has_def)

lemma om_has_filter: "om_has (filter P m) t \<Longrightarrow> om_has m t"
  by (auto simp: om_has_def)

lemma promise_gone:
  assumes "om_get m t = Some e" "distinct (map (\<lambda>x. f (snd x)) m)"
  shows "f e \<in> set (map (\<lambda>x. f (snd x)) m)" "f e \<notin> set (map (\<lambda>x. f (snd x)) (om_del t m))"
proof -
  have mem: "(t, e) \<in> set m" using assms(1) by (simp add: om_get_def map_of_SomeD)
  then show "f e \<in> set (map (\<lambda>x. f (snd x)) m)" by force
  have inj: "inj_on (\<lambda>x. f (snd x)) (set m)" using assms(2) by (simp add: distinct_map)
  have "x = (t, e)" if "x \<in> set m" "f (snd x) = f e" for x
    using inj_onD [OF inj, of x "(t, e)"] that mem by simp
  then show "f e \<notin> set (map (\<lambda>x. f (snd x)) (om_del t m))"
    by (fastforce simp: om_del_def)
qed

lemma promise_rest:
  assumes "om_get m t = Some e" "om_wf m"
  shows "set (map (\<lambda>x. f (snd x)) m) = insert (f e) (set (map (\<lambda>x. f (snd x)) (om_del t m)))"
proof -
  have mem: "(t, e) \<in> set m" using assms(1) by (simp add: om_get_def map_of_SomeD)
  have "inj_on fst (set m)" using assms(2) by (simp add: om_wf_def distinct_map)
  then have only: "x = (t, e)" if "x \<in> set m" "fst x = t" for x
    using inj_onD [of fst "set m" x "(t, e)"] that mem by simp
  have eq: "set m = insert (t, e) (set (om_del t m))"
  proof (intro equalityI subsetI)
    fix x assume "x \<in> set m"
    then show "x \<in> insert (t, e) (set (om_del t m))"
      using only by (cases "fst x = t") (simp_all add: om_del_def)
  qed (use mem in \<open>auto simp: om_del_def\<close>)
  from arg_cong [OF eq, of "\<lambda>S. (\<lambda>x. f (snd x)) ` S"] show ?thesis by simp
qed

lemma live_reconnect:
  "om_get m t = Some e \<Longrightarrow> pn_promise v = pn_promise e \<Longrightarrow>
    map (\<lambda>x. pn_promise (snd x)) (om_set t v m) = map (\<lambda>x. pn_promise (snd x)) m"
  by (induction m) (auto simp: om_get_def split: if_splits)

lemma mark_terminal_fields [simp]:
  "rg_pending (mark_terminal t r) = rg_pending r"
  "rg_buffered (mark_terminal t r) = rg_buffered r"
  "rg_pre_errors (mark_terminal t r) = rg_pre_errors r"
  "rg_by_task (mark_terminal t r) = rg_by_task r"
  "rg_by_connection (mark_terminal t r) = rg_by_connection r"
  "rg_settled (mark_terminal t r) = rg_settled r"
  "rg_next (mark_terminal t r) = rg_next r"
  "rg_max_buffered (mark_terminal t r) = rg_max_buffered r"
  "rg_max_terminal (mark_terminal t r) = rg_max_terminal r"
  "rg_max_associations (mark_terminal t r) = rg_max_associations r"
  by (simp_all add: mark_terminal_def)

lemma mark_terminal_has: "om_has (rg_terminal (mark_terminal t r)) u \<Longrightarrow> u = t \<or> om_has (rg_terminal r) u"
  by (auto simp: mark_terminal_def dest!: om_has_evict)

lemma mark_terminal_length: "length (rg_terminal (mark_terminal t r)) \<le> rg_max_terminal r"
  by (simp add: mark_terminal_def)

lemma settle_fields [simp]:
  "rg_pending (settle p v r) = rg_pending r"
  "rg_buffered (settle p v r) = rg_buffered r"
  "rg_pre_errors (settle p v r) = rg_pre_errors r"
  "rg_terminal (settle p v r) = rg_terminal r"
  "rg_by_task (settle p v r) = rg_by_task r"
  "rg_by_connection (settle p v r) = rg_by_connection r"
  "rg_settled (settle p v r) = rg_settled r @ [(p, v)]"
  "rg_next (settle p v r) = rg_next r"
  "rg_max_buffered (settle p v r) = rg_max_buffered r"
  "rg_max_terminal (settle p v r) = rg_max_terminal r"
  "rg_max_associations (settle p v r) = rg_max_associations r"
  by (simp_all add: settle_def)

text \<open>
  Every way in which a pending entry ends has one shape: it leaves \<open>rg_pending\<close>, its
  association goes, the task is marked terminal, its promise is settled.
\<close>

definition finish :: "string \<Rightarrow> pending_entry \<Rightarrow> outcome \<Rightarrow> registry \<Rightarrow> registry" where
  "finish t e v r = settle (pn_promise e) v (mark_terminal t (clear_association t (pn_connection e)
    (r\<lparr>rg_pending := om_del t (rg_pending r)\<rparr>)))"

definition core_ok :: "(string \<times> string) set \<Rightarrow> registry \<Rightarrow> bool" where
  "core_ok D r \<longleftrightarrow> promises_ok r \<and> phases_ok r \<and> bounds_ok r \<and> index_rel D r"

lemma registry_ok_core: "registry_ok r = core_ok {} r"
  by (simp add: registry_ok_def core_ok_def)

lemma promises_finish:
  assumes "promises_ok r" "om_get (rg_pending r) t = Some e"
    and "rg_pending r' = om_del t (rg_pending r)" "rg_settled r' = rg_settled r @ [(pn_promise e, v)]"
    "rg_next r' = rg_next r"
  shows "promises_ok r'"
proof -
  have d: "distinct (map (\<lambda>x. pn_promise (snd x)) (rg_pending r))"
    using assms(1) by (simp add: registry_ok_defs)
  have live': "live r' = map (\<lambda>x. pn_promise (snd x)) (om_del t (rg_pending r))"
    by (simp add: live_def assms(3))
  have sub: "set (live r) = insert (pn_promise e) (set (live r'))"
    unfolding live' unfolding live_def by (rule promise_rest [OF assms(2)]) (use assms(1) in \<open>simp add: promises_ok_def\<close>)
  have dist: "distinct (live r')"
    using d unfolding live' by (auto simp: om_del_def distinct_map inj_on_def)
  have gone: "pn_promise e \<in> set (live r)" "pn_promise e \<notin> set (live r')"
    using promise_gone [OF assms(2) d] unfolding live' by (simp_all only: live_def [of r] not_False_eq_True)
  show ?thesis
    using gone sub dist assms(1) unfolding promises_ok_def assms(3-5) by auto
qed

lemma promises_same:
  "promises_ok r \<Longrightarrow> live r' = live r \<Longrightarrow> rg_settled r' = rg_settled r \<Longrightarrow> rg_next r' = rg_next r \<Longrightarrow>
    (om_wf (rg_pending r) \<Longrightarrow> om_wf (rg_pending r')) \<Longrightarrow> promises_ok r'"
  by (simp add: promises_ok_def)

lemma om_has_get: "om_get m t = Some e \<Longrightarrow> om_has m t"
  by (simp add: om_has_iff)

lemma phases_terminal:
  assumes "phases_ok r" "\<not> om_has (rg_pending r) t" "\<not> om_has (rg_buffered r) t"
    and "rg_pending r' = rg_pending r" "rg_buffered r' = rg_buffered r"
    "rg_pre_errors r' = rg_pre_errors r"
    "rg_terminal r' = om_evict (rg_max_terminal r) (om_del t (rg_terminal r) @ [(t, ())])"
  shows "phases_ok r'"
proof -
  have "om_has (rg_terminal r') u \<Longrightarrow> u = t \<or> om_has (rg_terminal r) u" for u
    unfolding assms(7) using om_has_evict by force
  then show ?thesis
    using assms(1-3) unfolding phases_ok_def assms(4-6) by metis
qed

lemma finish_ok:
  assumes "core_ok D r" "om_get (rg_pending r) t = Some e"
  shows "core_ok {d \<in> D. fst d \<noteq> t} (finish t e v r)"
proof -
  have "index_rel {d \<in> D. fst d \<noteq> t} (finish t e v r)"
    unfolding finish_def
    using index_rel_clear [of D "r\<lparr>rg_pending := om_del t (rg_pending r)\<rparr>" t "pn_connection e"] assms(1)
    by (subst index_rel_cong) (simp_all add: core_ok_def index_rel_cong [of "r\<lparr>rg_pending := om_del t (rg_pending r)\<rparr>" r])
  moreover have "promises_ok (finish t e v r)"
    by (rule promises_finish [OF _ assms(2)]) (use assms(1) in \<open>simp_all add: finish_def core_ok_def\<close>)
  moreover have "phases_ok (finish t e v r)"
    by (rule phases_terminal [of "r\<lparr>rg_pending := om_del t (rg_pending r)\<rparr>" t])
      (use assms om_has_get [OF assms(2)] in \<open>auto simp: finish_def core_ok_def phases_ok_def mark_terminal_def\<close>)
  moreover have "bounds_ok (finish t e v r)"
    using assms(1) length_om_del_le [of t "rg_by_task r"] le_trans mark_terminal_length
    by (fastforce simp: finish_def core_ok_def bounds_ok_def
        intro: le_trans [OF mark_terminal_length])
  ultimately show ?thesis by (simp add: core_ok_def)
qed


text \<open>The other shapes: a change of associations only, and a task ended without a promise.\<close>

lemma core_ok_change:
  assumes "core_ok D r" "index_rel E r'"
    and "live r' = live r" "rg_settled r' = rg_settled r" "rg_next r' = rg_next r"
    and "\<And>t. om_has (rg_pending r') t = om_has (rg_pending r) t"
    and "rg_buffered r' = rg_buffered r" "rg_terminal r' = rg_terminal r"
    and "\<exists>P. rg_pre_errors r' = filter P (rg_pre_errors r)"
    and "rg_max_buffered r' = rg_max_buffered r" "rg_max_terminal r' = rg_max_terminal r"
    and "length (rg_by_task r') \<le> rg_max_associations r'"
    and "om_wf (rg_pending r) \<Longrightarrow> om_wf (rg_pending r')"
  shows "core_ok E r'"
proof -
  from assms(9) obtain P where P: "rg_pre_errors r' = filter P (rg_pre_errors r)" by blast
  have "length (rg_pre_errors r') \<le> length (rg_pre_errors r)" by (simp add: P)
  then have "bounds_ok r'"
    using assms(1,7,8,10-12) by (simp add: core_ok_def bounds_ok_def)
  moreover have "phases_ok r'"
    using assms(1,6-8) om_has_filter [of P "rg_pre_errors r"]
    unfolding core_ok_def phases_ok_def P by metis
  moreover have "promises_ok r'"
    using assms(1) by (intro promises_same [OF _ assms(3-5,13)]) (simp_all add: core_ok_def)
  ultimately show ?thesis using assms(2) by (simp add: core_ok_def)
qed

lemma set_association_ok:
  assumes "core_ok {} r" "c \<noteq> []"
  shows "core_ok {} (set_association t c r)"
  using index_rel_set_association [OF _ assms(2), of r t] assms(1) set_association_pre_errors [of t c r]
  by (intro core_ok_change [OF assms(1)]) (simp_all add: core_ok_def live_def)

lemma reconnect_ok:
  assumes "core_ok {} r" "om_get (rg_pending r) t = Some e"
  shows "core_ok {} (r\<lparr>rg_pending := om_set t (e\<lparr>pn_connection := x\<rparr>) (rg_pending r)\<rparr>)" (is "core_ok {} ?r")
proof (rule core_ok_change [OF assms(1)])
  have "index_rel {} r" using assms(1) by (simp add: core_ok_def)
  then show "index_rel {} ?r" by (subst index_rel_cong [of _ r]) simp_all
  show "live ?r = live r"
    using live_reconnect [OF assms(2), of "e\<lparr>pn_connection := x\<rparr>"] by (simp add: live_def)
  show "om_has (rg_pending ?r) u = om_has (rg_pending r) u" for u
    using om_has_get [OF assms(2)] by auto
  show "\<exists>P. rg_pre_errors ?r = filter P (rg_pre_errors r)"
    by (rule exI [of _ "\<lambda>_. True"]) simp
  show "length (rg_by_task ?r) \<le> rg_max_associations ?r"
    using assms(1) by (simp add: core_ok_def bounds_ok_def)
qed simp_all

lemma associate_ok: "registry_ok r \<Longrightarrow> registry_ok (associate task c r)"
  using set_association_ok [of r "trim c" "trim task"]
    reconnect_ok [of "set_association (trim task) (trim c) r" "trim task"]
  by (auto simp: associate_def Let_def registry_ok_core split: option.splits)

text \<open>\<open>retire t\<close> ends a task that has no pending entry.\<close>

lemma retire_ok:
  assumes "core_ok D r" "\<not> om_has (rg_pending r) t" "\<not> om_has (rg_buffered r) t"
  shows "core_ok {d \<in> D. fst d \<noteq> t} (mark_terminal t (clear_association t fb r))"
proof -
  have "index_rel {d \<in> D. fst d \<noteq> t} (clear_association t fb r)"
    using index_rel_clear assms(1) by (simp add: core_ok_def)
  then have "index_rel {d \<in> D. fst d \<noteq> t} (mark_terminal t (clear_association t fb r))"
    by (subst index_rel_cong [of _ "clear_association t fb r"]) simp_all
  moreover have "promises_ok (mark_terminal t (clear_association t fb r))"
    by (rule promises_same [of r]) (use assms(1) in \<open>simp_all add: core_ok_def live_def\<close>)
  moreover have "phases_ok (mark_terminal t (clear_association t fb r))"
    by (rule phases_terminal [of r t]) (use assms in \<open>simp_all add: core_ok_def mark_terminal_def\<close>)
  moreover have "bounds_ok (mark_terminal t (clear_association t fb r))"
    using assms(1) length_om_del_le [of t "rg_by_task r"] mark_terminal_length [of t "clear_association t fb r"]
    by (auto simp: core_ok_def bounds_ok_def)
  ultimately show ?thesis by (simp add: core_ok_def)
qed

lemma clear_ok:
  assumes "core_ok D r"
  shows "core_ok {d \<in> D. fst d \<noteq> t} (clear_association t fb r)"
proof (rule core_ok_change [OF assms])
  show "index_rel {d \<in> D. fst d \<noteq> t} (clear_association t fb r)"
    using assms index_rel_clear by (simp add: core_ok_def)
  show "\<exists>P. rg_pre_errors (clear_association t fb r) = filter P (rg_pre_errors r)"
    by (rule exI [of _ "\<lambda>_. True"]) simp
  show "length (rg_by_task (clear_association t fb r)) \<le> rg_max_associations (clear_association t fb r)"
    using assms length_om_del_le [of t "rg_by_task r"] by (simp add: core_ok_def bounds_ok_def)
qed (simp_all add: live_def)

lemma fire_timeout_ok: "registry_ok r \<Longrightarrow> registry_ok (fire_timeout t r)"
  using finish_ok [of "{}" r t]
  by (auto simp: fire_timeout_def registry_ok_core finish_def [symmetric] split: option.split)


text \<open>Entries may leave \<open>rg_pre_errors\<close> and \<open>rg_buffered\<close> at any time.\<close>

lemma shrink_ok:
  assumes "core_ok D r"
  shows "core_ok D (r\<lparr>rg_buffered := filter Q (rg_buffered r), rg_pre_errors := filter P (rg_pre_errors r)\<rparr>)"
    (is "core_ok D ?r")
proof -
  have "index_rel D r" using assms by (simp add: core_ok_def)
  then have "index_rel D ?r" by (subst index_rel_cong [of _ r]) simp_all
  moreover have "promises_ok ?r"
    by (rule promises_same [of r]) (use assms in \<open>simp_all add: core_ok_def live_def\<close>)
  moreover have "phases_ok ?r"
    using assms om_has_filter [of P "rg_pre_errors r"] om_has_filter [of Q "rg_buffered r"]
    unfolding core_ok_def phases_ok_def by auto
  moreover have "bounds_ok ?r"
    using assms by (auto simp: core_ok_def bounds_ok_def intro: le_trans [OF length_filter_le])
  ultimately show ?thesis by (simp add: core_ok_def)
qed

lemma drop_pre_error_ok: "core_ok D r \<Longrightarrow> core_ok D (r\<lparr>rg_pre_errors := om_del t (rg_pre_errors r)\<rparr>)"
  using shrink_ok [where D = D and r = r and P = "\<lambda>e. fst e \<noteq> t" and Q = "\<lambda>_. True"] by (simp add: om_del_def)

lemma drop_buffered_ok:
  "core_ok D r \<Longrightarrow> core_ok D (r\<lparr>rg_buffered := om_del t (rg_buffered r),
      rg_pre_errors := om_del t (rg_pre_errors r)\<rparr>)"
  using shrink_ok [of D r "\<lambda>e. fst e \<noteq> t" "\<lambda>e. fst e \<noteq> t"] by (simp add: om_del_def)

lemma new_promise_ok:
  assumes "core_ok {} r" "om_get (rg_pending r) t = None" "om_get (rg_buffered r) t = None"
    and "\<not> om_has (rg_terminal r) t" "om_get (rg_pre_errors r) t = None"
  shows "core_ok {} (r\<lparr>rg_pending := om_set t \<lparr>pn_promise = rg_next r, pn_connection = c\<rparr> (rg_pending r),
    rg_next := Suc (rg_next r)\<rparr>)" (is "core_ok {} ?r")
proof -
  have "live ?r = live r @ [rg_next r]"
    using assms(2) by (simp add: live_def om_set_fresh om_has_iff)
  moreover have "promises_ok r" using assms(1) by (simp add: core_ok_def)
  ultimately have "promises_ok ?r"
    unfolding promises_ok_def by (auto simp: lessThan_Suc)
  moreover have "index_rel {} ?r"
    using assms(1) by (subst index_rel_cong [of _ r]) (simp_all add: core_ok_def)
  moreover have "phases_ok ?r"
    using assms unfolding core_ok_def phases_ok_def by (simp add: om_has_iff)
  moreover have "bounds_ok ?r"
    using assms(1) by (simp add: core_ok_def bounds_ok_def)
  ultimately show ?thesis by (simp add: core_ok_def)
qed

lemma wait_ok:
  assumes "registry_ok r"
  shows "registry_ok (snd (wait task c r))"
proof -
  let ?t = "trim task"
  note ok = assms [unfolded registry_ok_core]
  consider "?t = []" | err where "?t \<noteq> []" "om_get (rg_pre_errors r) ?t = Some err"
    | "?t \<noteq> []" "om_get (rg_pre_errors r) ?t = None" "om_has (rg_terminal r) ?t"
    | v where "?t \<noteq> []" "om_get (rg_pre_errors r) ?t = None" "\<not> om_has (rg_terminal r) ?t"
        "om_get (rg_buffered r) ?t = Some v"
    | e where "?t \<noteq> []" "om_get (rg_pre_errors r) ?t = None" "\<not> om_has (rg_terminal r) ?t"
        "om_get (rg_buffered r) ?t = None" "om_get (rg_pending r) ?t = Some e"
    | "?t \<noteq> []" "om_get (rg_pre_errors r) ?t = None" "\<not> om_has (rg_terminal r) ?t"
        "om_get (rg_buffered r) ?t = None" "om_get (rg_pending r) ?t = None"
    by (cases "om_get (rg_pre_errors r) ?t"; cases "om_get (rg_buffered r) ?t";
        cases "om_get (rg_pending r) ?t") blast+
  then show ?thesis
  proof cases
    case 2
    then have "\<not> om_has (rg_pending r) ?t" "\<not> om_has (rg_buffered r) ?t"
      using ok om_has_get [OF 2(2)] by (auto simp: core_ok_def phases_ok_def)
    then show ?thesis
      using 2 retire_ok [OF drop_pre_error_ok [OF ok]] by (simp add: wait_def Let_def registry_ok_core)
  next
    case 4
    then have "\<not> om_has (rg_pending r) ?t"
      using ok om_has_get [OF 4(4)] by (auto simp: core_ok_def phases_ok_def)
    then show ?thesis
      using 4 retire_ok [OF drop_buffered_ok [OF ok], of ?t] by (simp add: wait_def Let_def registry_ok_core)
  next
    case 6
    then show ?thesis
      using new_promise_ok [OF ok 6(5) 6(4) 6(3) 6(2)] set_association_ok
      by (auto simp: wait_def Let_def registry_ok_core nonempty_def split: option.split)
  qed (use assms in \<open>simp_all add: wait_def Let_def\<close>)
qed

lemma buffer_ok:
  assumes "core_ok {} r" "\<not> om_has (rg_pending r) t" "\<not> om_has (rg_terminal r) t"
  shows "core_ok {} (r\<lparr>rg_buffered := om_evict (rg_max_buffered r) (om_set t v (rg_buffered r)),
    rg_pre_errors := om_del t (rg_pre_errors r)\<rparr>)" (is "core_ok {} ?r")
proof -
  have "index_rel {} r" using assms by (simp add: core_ok_def)
  then have "index_rel {} ?r" by (subst index_rel_cong [of _ r]) simp_all
  moreover have "promises_ok ?r"
    by (rule promises_same [of r]) (use assms in \<open>simp_all add: core_ok_def live_def\<close>)
  moreover have "om_has (rg_buffered ?r) u \<Longrightarrow> u = t \<or> om_has (rg_buffered r) u" for u
    using om_has_evict [of "rg_max_buffered r" "om_set t v (rg_buffered r)" u] by simp
  then have "phases_ok ?r"
    using assms unfolding core_ok_def phases_ok_def by (auto simp del: om_has_set)
  moreover have "bounds_ok ?r"
    using assms(1) length_om_del_le [of t "rg_pre_errors r"] by (simp add: core_ok_def bounds_ok_def)
  ultimately show ?thesis by (simp add: core_ok_def)
qed


lemma update_swap:
  "r\<lparr>rg_pending := a, rg_pre_errors := b\<rparr> = r\<lparr>rg_pre_errors := b, rg_pending := a\<rparr>"
  "r\<lparr>rg_buffered := d, rg_pre_errors := b\<rparr> = r\<lparr>rg_pre_errors := b, rg_buffered := d\<rparr>"
  by (cases r; simp)+

lemma finish_of:
  "settle (pn_promise e) v (mark_terminal t (clear_association t (pn_connection e)
     (r\<lparr>rg_pending := om_del t (rg_pending r), rg_pre_errors := om_del t (rg_pre_errors r)\<rparr>))) =
   finish t e v (r\<lparr>rg_pre_errors := om_del t (rg_pre_errors r)\<rparr>)"
  by (simp add: finish_def update_swap)

lemma clear_buffered:
  "clear_association t fb (r\<lparr>rg_buffered := b\<rparr>) = (clear_association t fb r)\<lparr>rg_buffered := b\<rparr>"
  by (simp add: clear_association_def remove_task_from_connection_index_def Let_def split: option.split)

lemma finish_pre_ok:
  assumes "core_ok D r" "om_get (rg_pending r) t = Some e"
  shows "core_ok {d \<in> D. fst d \<noteq> t} (finish t e v (r\<lparr>rg_pre_errors := om_del t (rg_pre_errors r)\<rparr>))"
  by (rule finish_ok [OF drop_pre_error_ok [OF assms(1)]]) (simp add: assms(2))

lemma resolve_ok:
  assumes "registry_ok r"
  shows "registry_ok (snd (resolve_task task v r))"
proof -
  let ?t = "trim task"
  note ok = assms [unfolded registry_ok_core]
  show ?thesis
  proof (cases "?t = [] \<or> om_has (rg_terminal r) ?t")
    case True
    with assms show ?thesis by (simp add: resolve_task_def Let_def)
  next
    case open_task: False
    show ?thesis
    proof (cases "om_get (rg_pending r) ?t")
      case (Some e)
      then show ?thesis
        using open_task finish_pre_ok [OF ok Some]
        by (simp add: resolve_task_def Let_def finish_of registry_ok_core)
    next
      case None
      have "core_ok {} (clear_association ?t None
          (r\<lparr>rg_buffered := om_evict (rg_max_buffered r) (om_set ?t v (rg_buffered r)),
             rg_pre_errors := om_del ?t (rg_pre_errors r)\<rparr>))"
        using clear_ok [OF buffer_ok [OF ok, of ?t v], of ?t None] None open_task
        by (simp add: om_has_iff)
      then have "core_ok {} ((clear_association ?t None
          (r\<lparr>rg_pre_errors := om_del ?t (rg_pre_errors r)\<rparr>))
            \<lparr>rg_buffered := om_evict (rg_max_buffered r) (om_set ?t v (rg_buffered r))\<rparr>)"
        by (simp add: clear_buffered [symmetric] update_swap)
      moreover have "clear_association ?t None
          (r\<lparr>rg_buffered := om_set ?t v (rg_buffered r), rg_pre_errors := om_del ?t (rg_pre_errors r)\<rparr>) =
          (clear_association ?t None (r\<lparr>rg_pre_errors := om_del ?t (rg_pre_errors r)\<rparr>))
            \<lparr>rg_buffered := om_set ?t v (rg_buffered r)\<rparr>"
        by (simp add: clear_buffered [symmetric] update_swap)
      ultimately show ?thesis
        using open_task None assms
        by (simp add: resolve_task_def Let_def registry_ok_core)
    qed
  qed
qed

lemma pre_error_ok:
  assumes "core_ok D r" "\<not> om_has (rg_pending r) t" "\<not> om_has (rg_buffered r) t"
  shows "core_ok D (r\<lparr>rg_pre_errors := om_evict (rg_max_terminal r) (om_del t (rg_pre_errors r) @ [(t, m)])\<rparr>)"
    (is "core_ok D ?r")
proof -
  have "index_rel D ?r"
    using assms(1) by (subst index_rel_cong [of _ r]) (simp_all add: core_ok_def)
  moreover have "promises_ok ?r"
    by (rule promises_same [of r]) (use assms in \<open>simp_all add: core_ok_def live_def\<close>)
  moreover have "om_has (rg_pre_errors ?r) u \<Longrightarrow> u = t \<or> om_has (rg_pre_errors r) u" for u
    using om_has_evict [of "rg_max_terminal r" "om_del t (rg_pre_errors r) @ [(t, m)]" u] by auto
  then have "phases_ok ?r"
    using assms unfolding core_ok_def phases_ok_def by (auto simp del: om_has_append)
  moreover have "bounds_ok ?r"
    using assms(1) by (simp add: core_ok_def bounds_ok_def)
  ultimately show ?thesis by (simp add: core_ok_def)
qed

lemma reject_step_ok:
  assumes "core_ok D (snd acc)"
  shows "core_ok {d \<in> D. fst d \<noteq> t} (snd (reject_step c acc t))"
proof (cases "om_get (rg_pending (snd acc)) t")
  case (Some e)
  then show ?thesis
    using finish_pre_ok [OF assms Some] by (simp add: reject_step_def Let_def finish_of)
next
  case None
  then have "\<not> om_has (rg_pending (snd acc)) t" by (simp add: om_has_iff)
  with None show ?thesis
    using clear_ok [OF assms] retire_ok [OF pre_error_ok [OF assms]]
    by (simp add: reject_step_def Let_def)
qed

lemma reject_steps_ok:
  "core_ok D (snd acc) \<Longrightarrow> core_ok {d \<in> D. fst d \<notin> set ts} (snd (foldl (reject_step c) acc ts))"
proof (induction ts arbitrary: D acc)
  case Nil
  then show ?case by simp
next
  case (Cons t ts)
  have "{d \<in> {d \<in> D. fst d \<noteq> t}. fst d \<notin> set ts} = {d \<in> D. fst d \<notin> set (t # ts)}" by auto
  with Cons.IH [OF reject_step_ok [OF Cons.prems, of t c]] show ?case by simp
qed

lemma unlink_connection_ok:
  assumes "core_ok {} r" "om_get (rg_by_connection r) c = Some ts"
  shows "core_ok (set ts \<times> {c}) (r\<lparr>rg_by_connection := om_del c (rg_by_connection r)\<rparr>)" (is "core_ok ?D ?r")
proof -
  have i: "index_rel {} r" using assms(1) by (simp add: core_ok_def)
  have linked': "linked ?r c' t \<longleftrightarrow> linked r c' t \<and> c' \<noteq> c" for c' t
    by (auto simp: linked_def)
  have D: "(t, c') \<in> ?D \<longleftrightarrow> c' = c \<and> linked r c t" for t c'
    using assms(2) by (auto simp: linked_def)
  have "index_rel ?D ?r"
  proof (rule index_relI)
    fix t c'
    show "om_get (rg_by_task ?r) t = Some c' \<longleftrightarrow> linked ?r c' t \<or> (t, c') \<in> ?D"
      using index_relD(1) [OF i, of t c'] by (auto simp only: linked' D) (simp_all)
    show "(t, c') \<in> ?D \<Longrightarrow> \<not> linked ?r c' t" by (simp add: linked' D)
    show "om_get (rg_by_task ?r) t \<noteq> Some []" using index_relD(3) [OF i] by simp
    show "om_get (rg_by_connection ?r) c' \<noteq> Some []" using index_relD(4) [OF i] by simp
    show "om_wf (rg_by_task ?r)" using index_relD(5) [OF i] by simp
  qed
  moreover have "promises_ok ?r" "phases_ok ?r" "bounds_ok ?r"
    using assms(1) by (simp_all add: core_ok_def registry_ok_defs)
  ultimately show ?thesis by (simp add: core_ok_def)
qed

lemma reject_all_ok:
  assumes "registry_ok r"
  shows "registry_ok (snd (reject_all_for_connection connection r))"
proof (cases "om_get (rg_by_connection r) (trim connection)")
  case None
  with assms show ?thesis by (simp add: reject_all_for_connection_def Let_def)
next
  case (Some ts)
  let ?c = "trim connection"
  let ?r = "r\<lparr>rg_by_connection := om_del ?c (rg_by_connection r)\<rparr>"
  have none: "{d \<in> set ts \<times> {?c}. fst d \<notin> set ts} = {}" by auto
  have "core_ok (set ts \<times> {?c}) (snd (0 :: nat, ?r))"
    using unlink_connection_ok [OF _ Some] assms by (simp add: registry_ok_core)
  from reject_steps_ok [OF this, of ts ?c]
  have "core_ok {} (snd (foldl (reject_step ?c) (0, ?r) ts))" unfolding none .
  with Some assms show ?thesis
    by (simp add: reject_all_for_connection_def Let_def registry_ok_core)
qed


subsection \<open>Reachable registries\<close>

inductive registry_reach :: "registry \<Rightarrow> bool" where
  reach_new: "registry_reach (new_registry mb mt ma)"
| reach_associate: "registry_reach r \<Longrightarrow> registry_reach (associate t c r)"
| reach_wait: "registry_reach r \<Longrightarrow> registry_reach (snd (wait t c r))"
| reach_timeout: "registry_reach r \<Longrightarrow> registry_reach (fire_timeout t r)"
| reach_resolve: "registry_reach r \<Longrightarrow> registry_reach (snd (resolve_task t v r))"
| reach_disconnect: "registry_reach r \<Longrightarrow> registry_reach (snd (reject_all_for_connection c r))"

lemma new_registry_ok: "registry_ok (new_registry mb mt ma)"
  by (simp add: registry_ok_def registry_ok_defs new_registry_def Let_def index_rel_def linked_def om_has_def)

lemma reach_ok: "registry_reach r \<Longrightarrow> registry_ok r"
  by (induction rule: registry_reach.induct)
    (simp_all add: new_registry_ok associate_ok wait_ok fire_timeout_ok resolve_ok reject_all_ok)

lemma wait_Waiting:
  assumes "wait task c r = (Waiting p, r')"
  shows "trim task \<noteq> [] \<and> om_get (rg_pre_errors r) (trim task) = None \<and>
    \<not> om_has (rg_terminal r') (trim task) \<and> om_get (rg_buffered r) (trim task) = None \<and>
    (\<exists>e. om_get (rg_pending r') (trim task) = Some e \<and> pn_promise e = p)"
  using assms
  by (auto simp: wait_def Let_def split: if_splits option.splits)

text \<open>
  C16. In every reachable registry: every promise that was ever handed out is either still pending or
  has been settled, never both and never settled twice, and \<open>wait\<close> hands out pending ones only, so no
  waiter is lost; a task is in at most one of the phases pending, buffered and terminal; the buffer,
  the terminal marks, the early errors and the associations respect their configured bounds; and the
  two association maps mirror each other.
\<close>

theorem registry_invariant:
  assumes "registry_reach r"
  shows "distinct (map fst (rg_settled r) @ live r) \<and> set (map fst (rg_settled r)) \<union> set (live r) = {..<rg_next r} \<and>
    (\<forall>task c p. fst (wait task c r) = Waiting p \<longrightarrow> p \<in> set (live (snd (wait task c r)))) \<and>
    phases_ok r \<and> bounds_ok r \<and> index_rel {} r"
proof -
  have "p \<in> set (live (snd (wait task c r)))" if "fst (wait task c r) = Waiting p" for task c p
    using wait_Waiting [of task c r p "snd (wait task c r)"] that
    by (force simp: live_def om_get_def image_iff dest!: map_of_SomeD intro: prod_eqI)
  then show ?thesis using reach_ok [OF assms] by (simp add: registry_ok_def promises_ok_def)
qed

definition demo_result :: task_result where
  "demo_result = \<lparr>tr_ok = True, tr_result = None, tr_evidence = None, tr_error = None\<rparr>"

definition demo_registry :: registry where
  "demo_registry = snd (wait ''job'' (Some ''conn'') (associate ''other'' ''conn'' (new_registry (Some 1) (Some 2) (Some 2))))"

lemma demo_registry_reach: "registry_reach demo_registry"
  unfolding demo_registry_def by (intro registry_reach.intros)

lemma registry_invariant_witness:
  "distinct (map fst (rg_settled demo_registry) @ live demo_registry) \<and>
    set (map fst (rg_settled demo_registry)) \<union> set (live demo_registry) = {..<rg_next demo_registry}"
  using registry_invariant [OF demo_registry_reach] by blast

subsection \<open>Delivery\<close>

lemma reject_step_limits: "rg_max_terminal (snd (reject_step c acc t)) = rg_max_terminal (snd acc)"
  by (simp add: reject_step_def Let_def split: option.split)

lemma reject_steps_limits: "rg_max_terminal (snd (foldl (reject_step c) acc ts)) = rg_max_terminal (snd acc)"
  by (induction ts arbitrary: acc) (simp_all add: reject_step_limits)

lemma reach_limits: "registry_reach r \<Longrightarrow> 0 < rg_max_terminal r"
proof (induction rule: registry_reach.induct)
  case (reach_new mb mt ma)
  then show ?case
    by (simp add: new_registry_def Let_def at_least_one_def less_max_iff_disj split: option.split)
qed (simp_all add: associate_def wait_def fire_timeout_def resolve_task_def reject_all_for_connection_def
    reject_steps_limits Let_def split: option.split)

lemma om_has_evict_last: "0 < n \<Longrightarrow> om_has (om_evict n (m @ [(t, v)])) t"
  by (simp add: om_evict_snoc)

lemma terminal_marked: "0 < rg_max_terminal r \<Longrightarrow> om_has (rg_terminal (mark_terminal t r)) t"
  by (simp add: mark_terminal_def om_has_evict_last)

lemma resolve_pending:
  assumes "om_get (rg_pending r) (trim task) = Some e" "trim task \<noteq> []" "\<not> om_has (rg_terminal r) (trim task)"
  shows "resolve_task task v r =
    (True, finish (trim task) e (Resolved v) (r\<lparr>rg_pre_errors := om_del (trim task) (rg_pre_errors r)\<rparr>))"
  using assms by (simp add: resolve_task_def Let_def finish_of)

lemma finish_effects:
  assumes "0 < rg_max_terminal r"
  shows "om_has (rg_terminal (finish t e v r)) t" "(pn_promise e, v) \<in> set (rg_settled (finish t e v r))"
    "rg_pre_errors (finish t e v r) = rg_pre_errors r"
  using assms by (simp_all add: finish_def terminal_marked)

subsection \<open>The rounds of a disconnection\<close>

lemma clear_association_absent:
  "om_get (rg_by_connection r) d = None \<Longrightarrow> om_get (rg_by_connection (clear_association t fb r)) d = None"
  by (auto simp: clear_association_def remove_task_from_connection_index_def Let_def split: option.split)

lemma reject_step_effects:
  "rg_pending (snd (reject_step c acc t)) = om_del t (rg_pending (snd acc))"
  "rg_settled (snd (reject_step c acc t)) = rg_settled (snd acc) @
    (case om_get (rg_pending (snd acc)) t of None \<Rightarrow> []
     | Some e \<Rightarrow> [(pn_promise e, Rejected (''task connection disconnected: '' @ c))])"
  "om_get (rg_by_connection (snd acc)) d = None \<Longrightarrow>
    om_get (rg_by_connection (snd (reject_step c acc t))) d = None"
proof -
  have "om_get (rg_pending (snd acc)) t = None \<Longrightarrow> om_del t (rg_pending (snd acc)) = rg_pending (snd acc)"
    by (simp add: om_del_absent om_has_iff)
  then show "rg_pending (snd (reject_step c acc t)) = om_del t (rg_pending (snd acc))"
    by (simp add: reject_step_def Let_def split: option.split)
qed (simp_all add: reject_step_def Let_def clear_association_absent split: option.split)

lemma reject_steps_settled: "set (rg_settled (snd acc)) \<subseteq> set (rg_settled (snd (foldl (reject_step c) acc ts)))"
proof (induction ts arbitrary: acc)
  case Nil
  then show ?case by simp
next
  case (Cons t ts)
  have "set (rg_settled (snd acc)) \<subseteq> set (rg_settled (snd (reject_step c acc t)))"
    by (simp add: reject_step_effects(2))
  with Cons [of "reject_step c acc t"] show ?case by auto
qed

lemma reject_steps_effects:
  "om_get (rg_pending (snd (foldl (reject_step c) acc ts))) u =
     (if u \<in> set ts then None else om_get (rg_pending (snd acc)) u)"
  "om_get (rg_by_connection (snd acc)) d = None \<Longrightarrow>
     om_get (rg_by_connection (snd (foldl (reject_step c) acc ts))) d = None"
  "u \<in> set ts \<Longrightarrow> om_get (rg_pending (snd acc)) u = Some e \<Longrightarrow>
     (pn_promise e, Rejected (''task connection disconnected: '' @ c)) \<in>
       set (rg_settled (snd (foldl (reject_step c) acc ts)))"
proof (induction ts arbitrary: acc)
  case Nil
  { case 1 show ?case by simp }
  { case 2 then show ?case by simp }
  { case 3 then show ?case by simp }
next
  case (Cons t ts)
  { case 1 show ?case using Cons.IH(1) by (simp add: reject_step_effects(1)) }
  { case 2 then show ?case using Cons.IH(2) by (simp add: reject_step_effects(3)) }
  { case 3
    show ?case
    proof (cases "u = t")
      case True
      then have "(pn_promise e, Rejected (''task connection disconnected: '' @ c)) \<in>
          set (rg_settled (snd (reject_step c acc t)))"
        using 3(2) by (simp add: reject_step_effects(2))
      then show ?thesis using reject_steps_settled [of "reject_step c acc t" c ts] by auto
    next
      case False
      then show ?thesis using 3 Cons.IH(3) [of "reject_step c acc t"]
        by (simp add: reject_step_effects(1))
    qed }
qed

subsection \<open>Histories\<close>

inductive registry_step :: "registry \<Rightarrow> registry \<Rightarrow> bool" where
  rs_associate: "registry_step r (associate t c r)"
| rs_wait: "registry_step r (snd (wait t c r))"
| rs_timeout: "registry_step r (fire_timeout t r)"
| rs_resolve: "registry_step r (snd (resolve_task t v r))"
| rs_disconnect: "registry_step r (snd (reject_all_for_connection c r))"

lemma steps_reach: "registry_step\<^sup>*\<^sup>* r r' \<Longrightarrow> registry_reach r \<Longrightarrow> registry_reach r'"
  by (induction rule: rtranclp_induct) (auto elim!: registry_step.cases intro: registry_reach.intros)

text \<open>What was settled stays settled, and a pending promise of a task stays or is settled.\<close>

definition promise_at :: "string \<Rightarrow> nat \<Rightarrow> registry \<Rightarrow> bool" where
  "promise_at t p r \<longleftrightarrow> (\<exists>e. om_get (rg_pending r) t = Some e \<and> pn_promise e = p) \<or> p \<in> fst ` set (rg_settled r)"

definition goes_on :: "registry \<Rightarrow> registry \<Rightarrow> bool" where
  "goes_on r r' \<longleftrightarrow> set (rg_settled r) \<subseteq> set (rg_settled r') \<and> (\<forall>t p. promise_at t p r \<longrightarrow> promise_at t p r')"

lemma goes_on_trans: "goes_on a b \<Longrightarrow> goes_on b c \<Longrightarrow> goes_on a c"
  by (auto simp: goes_on_def)

lemma goes_on_same: "rg_settled r' = rg_settled r \<Longrightarrow>
    (\<And>t e. om_get (rg_pending r) t = Some e \<Longrightarrow> \<exists>e'. om_get (rg_pending r') t = Some e' \<and> pn_promise e' = pn_promise e) \<Longrightarrow>
    goes_on r r'"
  by (fastforce simp: goes_on_def promise_at_def)

lemma goes_on_finish: "om_get (rg_pending r) t = Some e \<Longrightarrow> goes_on r (finish t e v (r\<lparr>rg_pre_errors := x\<rparr>))"
  by (auto simp: goes_on_def promise_at_def finish_def image_iff)

lemma goes_on_reject: "goes_on (snd acc) (snd (reject_step c acc t))"
  by (auto simp: goes_on_def promise_at_def reject_step_effects(1,2) image_iff split: option.splits)

lemma goes_on_rejects: "goes_on (snd acc) (snd (foldl (reject_step c) acc ts))"
proof (induction ts arbitrary: acc)
  case (Cons t ts)
  show ?case using goes_on_trans [OF goes_on_reject Cons] by simp
qed (simp add: goes_on_def)

lemma step_goes_on: "registry_step r r' \<Longrightarrow> goes_on r r'"
proof (induction rule: registry_step.induct)
  case (rs_associate r t c)
  show ?case by (rule goes_on_same) (auto simp: associate_def Let_def split: option.splits)
next
  case (rs_wait r t c)
  show ?case by (rule goes_on_same) (auto simp: wait_def Let_def split: option.splits)
next
  case (rs_timeout r t)
  show ?case
  proof (cases "om_get (rg_pending r) t")
    case (Some e)
    then show ?thesis
      using goes_on_finish [OF Some, of "Rejected (''task result timeout: '' @ t)" "rg_pre_errors r"]
      by (simp add: fire_timeout_def finish_def)
  qed (simp add: fire_timeout_def goes_on_def)
next
  case (rs_resolve r t v)
  show ?case
  proof (cases "trim t = [] \<or> om_has (rg_terminal r) (trim t)")
    case False
    show ?thesis
    proof (cases "om_get (rg_pending r) (trim t)")
      case (Some e)
      with False goes_on_finish [OF Some] show ?thesis by (simp add: resolve_pending)
    next
      case None
      with False show ?thesis by (intro goes_on_same) (simp_all add: resolve_task_def Let_def)
    qed
  qed (auto simp: resolve_task_def Let_def goes_on_def)
next
  case (rs_disconnect r c)
  show ?case
  proof (cases "trim c = [] \<or> om_get (rg_by_connection r) (trim c) \<in> {None, Some []}")
    case False
    then obtain ts where "om_get (rg_by_connection r) (trim c) = Some ts" "ts \<noteq> []" "trim c \<noteq> []" by auto
    moreover have "goes_on r (r\<lparr>rg_by_connection := om_del (trim c) (rg_by_connection r)\<rparr>)"
      by (rule goes_on_same) simp_all
    ultimately show ?thesis
      using goes_on_trans goes_on_rejects [of "(0, r\<lparr>rg_by_connection := om_del (trim c) (rg_by_connection r)\<rparr>)" "trim c" ts]
      by (simp add: reject_all_for_connection_def Let_def)
  qed (auto simp: reject_all_for_connection_def Let_def goes_on_def)
qed

lemma steps_go_on: "registry_step\<^sup>*\<^sup>* r r' \<Longrightarrow> goes_on r r'"
proof (induction rule: rtranclp_induct)
  case base
  then show ?case by (simp add: goes_on_def)
next
  case (step y z)
  from goes_on_trans [OF step.IH step_goes_on [OF step.hyps(2)]] show ?case .
qed

lemma settled_once: "distinct (map fst xs) \<Longrightarrow> (p, v) \<in> set xs \<Longrightarrow> filter (\<lambda>e. fst e = p) xs = [(p, v)]"
proof (induction xs)
  case (Cons x xs)
  show ?case
  proof (cases "fst x = p")
    case True
    with Cons.prems have "x = (p, v)" "p \<notin> fst ` set xs" by (auto simp: image_iff intro: rev_image_eqI)
    then show ?thesis by (auto simp: filter_empty_conv)
  qed (use Cons in auto)
qed simp

text \<open>
  C17. A result is delivered once. All who wait for a task share one promise. When the first result
  arrives while it is pending, whatever has happened since, that promise is settled with this result,
  and in every later history it has been settled exactly once, with this result. The task is marked
  terminal, and as long as the mark has not been evicted by the limit, every further result of the task
  is refused and nobody can wait for it again.
\<close>

theorem result_delivered_once:
  assumes "registry_reach r" "wait task c r = (Waiting p, r1)" "registry_step\<^sup>*\<^sup>* r1 r2"
    and "p \<notin> fst ` set (rg_settled r2)" "resolve_task task v r2 = (b, r3)" "registry_step\<^sup>*\<^sup>* r3 r4"
  shows "wait task c' r2 = (Waiting p, r2) \<and> b \<and> om_has (rg_terminal r3) (trim task) \<and>
    filter (\<lambda>e. fst e = p) (rg_settled r4) = [(p, Resolved v)] \<and>
    (om_has (rg_terminal r4) (trim task) \<longrightarrow>
      resolve_task task v' r4 = (False, r4) \<and> (\<exists>msg. fst (wait task c' r4) = Settled (Rejected msg)))"
proof -
  have reach2: "registry_reach r2" using steps_reach [OF assms(3)] reach_wait [OF assms(1), of task c] assms(2) by simp
  from wait_Waiting [OF assms(2)] have t: "trim task \<noteq> []" "promise_at (trim task) p r1" by (auto simp: promise_at_def)
  with steps_go_on [OF assms(3)] assms(4) obtain e where e: "om_get (rg_pending r2) (trim task) = Some e" "pn_promise e = p"
    unfolding goes_on_def promise_at_def by blast
  have "om_has (rg_pending r2) (trim task)" using om_has_get [OF e(1)] .
  moreover have "phases_ok r2" using reach_ok [OF reach2] by (simp add: registry_ok_def)
  ultimately have "\<not> om_has (rg_terminal r2) (trim task)" "\<not> om_has (rg_pre_errors r2) (trim task)"
    "\<not> om_has (rg_buffered r2) (trim task)" unfolding phases_ok_def by blast+
  then have free: "\<not> om_has (rg_terminal r2) (trim task)" "om_get (rg_pre_errors r2) (trim task) = None"
    "om_get (rg_buffered r2) (trim task) = None" by (simp_all add: om_has_iff)
  have w: "wait task c' r2 = (Waiting p, r2)" using e t(1) free by (simp add: wait_def Let_def)
  have r3: "b" "r3 = finish (trim task) e (Resolved v) (r2\<lparr>rg_pre_errors := om_del (trim task) (rg_pre_errors r2)\<rparr>)"
    using assms(5) resolve_pending [OF e(1) t(1) free(1)] by simp_all
  have lim: "0 < rg_max_terminal (r2\<lparr>rg_pre_errors := om_del (trim task) (rg_pre_errors r2)\<rparr>)"
    using reach_limits [OF reach2] by simp
  note eff = finish_effects [OF lim, where t = "trim task" and e = e and v = "Resolved v", folded r3(2)]
  have "registry_reach r4" using steps_reach [OF assms(6)] reach_resolve [OF reach2, of task v] assms(5) by simp
  then have "distinct (map fst (rg_settled r4))" using reach_ok by (simp add: registry_ok_def promises_ok_def)
  moreover have "(p, Resolved v) \<in> set (rg_settled r4)"
    using steps_go_on [OF assms(6)] eff(2) e(2) by (auto simp: goes_on_def)
  ultimately have "filter (\<lambda>e. fst e = p) (rg_settled r4) = [(p, Resolved v)]" by (rule settled_once)
  with w r3(1) eff(1) t(1) show ?thesis
    by (auto simp: resolve_task_def wait_def Let_def split: option.split)
qed

lemma result_delivered_once_witness:
  "filter (\<lambda>e. fst e = 0) (rg_settled (fire_timeout ''job'' (snd (resolve_task ''job'' demo_result
      (associate ''job'' ''d'' demo_registry))))) = [(0, Resolved demo_result)]"
proof -
  have r: "registry_reach (associate ''other'' ''conn'' (new_registry (Some 1) (Some 2) (Some 2)))"
    by (intro registry_reach.intros)
  have w: "wait ''job'' (Some ''conn'') (associate ''other'' ''conn'' (new_registry (Some 1) (Some 2) (Some 2))) =
      (Waiting 0, demo_registry)"
    by code_simp
  let ?r2 = "associate ''job'' ''d'' demo_registry"
  have s: "registry_step\<^sup>*\<^sup>* demo_registry ?r2" by (rule r_into_rtranclp) (rule rs_associate)
  have n: "0 \<notin> fst ` set (rg_settled ?r2)" by code_simp
  obtain b r3 where e: "resolve_task ''job'' demo_result ?r2 = (b, r3)" by fastforce
  have s2: "registry_step\<^sup>*\<^sup>* r3 (fire_timeout ''job'' r3)" by (rule r_into_rtranclp) (rule rs_timeout)
  from result_delivered_once [OF r w s n e s2] show ?thesis by (simp add: e)
qed

subsection \<open>Disconnection\<close>

text \<open>
  A disconnected node leaves nobody waiting: after \<open>rejectAllForConnection\<close> every promise
  of a task that was associated with the connection is rejected and no longer pending, no task
  stays associated with it, and the tasks of other connections stay pending.
\<close>

theorem disconnect_rejects_all:
  assumes "registry_reach r" "reject_all_for_connection connection r = (n, r')"
  shows "(\<forall>t e. om_get (rg_by_task r) t = Some (trim connection) \<longrightarrow> om_get (rg_pending r) t = Some e \<longrightarrow>
      om_get (rg_pending r') t = None \<and>
      (pn_promise e, Rejected (''task connection disconnected: '' @ trim connection)) \<in> set (rg_settled r')) \<and>
    (\<forall>t. om_get (rg_by_task r') t \<noteq> Some (trim connection)) \<and>
    (\<forall>t. om_get (rg_by_task r) t \<noteq> Some (trim connection) \<longrightarrow>
      om_get (rg_pending r') t = om_get (rg_pending r) t)"
proof -
  let ?c = "trim connection"
  have i: "index_rel {} r" using reach_ok [OF assms(1)] by (simp add: registry_ok_def)
  have i': "index_rel {} r'"
    using reach_ok [OF reach_disconnect [OF assms(1), of connection]] assms(2) by (simp add: registry_ok_def)
  show ?thesis
  proof (cases "om_get (rg_by_connection r) ?c")
    case None
    then have none: "\<not> linked r ?c t" for t by (simp add: linked_def)
    have "r' = r" using assms(2) None by (auto simp: reject_all_for_connection_def Let_def split: if_splits)
    with none show ?thesis using index_relD(1) [OF i] by simp
  next
    case (Some ts)
    have ne: "?c \<noteq> []" "ts \<noteq> []"
      using index_relD(4) [OF i, of ?c] Some index_relD(1) [OF i, of "hd ts" "[]"] index_relD(3) [OF i, of "hd ts"]
      by (auto simp: linked_def)
    let ?r = "r\<lparr>rg_by_connection := om_del ?c (rg_by_connection r)\<rparr>"
    have r': "r' = snd (foldl (reject_step ?c) (0, ?r) ts)"
      using assms(2) Some ne by (simp add: reject_all_for_connection_def Let_def)
    have ts: "om_get (rg_by_task r) t = Some ?c \<longleftrightarrow> t \<in> set ts" for t
      using index_relD(1) [OF i, of t ?c] Some by (simp add: linked_def)
    have "om_get (rg_by_connection r') ?c = None"
      unfolding r' by (rule reject_steps_effects(2)) simp
    then have "om_get (rg_by_task r') t \<noteq> Some ?c" for t
      using index_relD(1) [OF i', of t ?c] by (simp add: linked_def)
    then show ?thesis
      unfolding ts using reject_steps_effects(1,3) [where acc = "(0, ?r)" and ts = ts and c = ?c]
      by (simp add: r')
  qed
qed

lemma disconnect_rejects_all_witness:
  "(0, Rejected ''task connection disconnected: conn'') \<in>
    set (rg_settled (snd (reject_all_for_connection '' conn'' demo_registry)))"
proof -
  have c: "trim '' conn'' = ''conn''" by code_simp
  have t: "om_get (rg_by_task demo_registry) ''job'' = Some ''conn''" by code_simp
  have p: "om_get (rg_pending demo_registry) ''job'' = Some \<lparr>pn_promise = 0, pn_connection = Some ''conn''\<rparr>"
    by code_simp
  obtain n r' where e: "reject_all_for_connection '' conn'' demo_registry = (n, r')" by fastforce
  from disconnect_rejects_all [OF demo_registry_reach e, unfolded c] t p
  have "(pn_promise \<lparr>pn_promise = 0, pn_connection = Some ''conn''\<rparr>,
      Rejected (''task connection disconnected: '' @ ''conn'')) \<in> set (rg_settled r')"
    by blast
  then show ?thesis by (simp add: e)
qed

end
