(* ===== verification/Approvals.thy ===== *)
theory Approvals
  imports Json_Value Table
begin

text \<open>
  \<open>gateway/src/modules/approval/status.ts\<close>, \<open>dal.ts\<close>, \<open>dal-support.ts\<close> and the inserting half of
  \<open>gateway/src/modules/review/dal.ts\<close>: approvals move through review states, every move is
  recorded as a review entry. A transition reads the current status and then updates under the
  condition that it is unchanged; the two halves are separate definitions
  (\<open>transition_guard\<close>, \<open>transition_commit\<close>), so that interleavings of transitions are
  sequences of commits whose status was read at any earlier time. Times are milliseconds, JSON
  payloads of reviews are text, fresh ids are arguments.
\<close>

subsection \<open>Statuses\<close>

datatype approval_status =
  Queued | Reviewing | AwaitingHuman | Approved | Denied | Expired | Cancelled

datatype approval_kind =
  WorkflowStep | Intent | Retry | Policy | Budget | Takeover | ConnectorSend | WorkIntervention

definition normalize_approval_status :: "string \<Rightarrow> approval_status" where
  "normalize_approval_status raw =
    (if raw = ''queued'' then Queued
     else if raw = ''reviewing'' then Reviewing
     else if raw = ''awaiting_human'' then AwaitingHuman
     else if raw = ''approved'' then Approved
     else if raw = ''denied'' then Denied
     else if raw = ''expired'' then Expired
     else if raw = ''cancelled'' then Cancelled
     else AwaitingHuman)"

definition normalize_approval_kind :: "string \<Rightarrow> approval_kind" where
  "normalize_approval_kind raw =
    (if raw = ''workflow_step'' then WorkflowStep
     else if raw = ''intent'' then Intent
     else if raw = ''retry'' then Retry
     else if raw = ''policy'' then Policy
     else if raw = ''budget'' then Budget
     else if raw = ''takeover'' then Takeover
     else if raw = ''connector.send'' then ConnectorSend
     else if raw = ''work.intervention'' then WorkIntervention
     else Policy)"

fun is_approval_blocked_status :: "approval_status \<Rightarrow> bool" where
  "is_approval_blocked_status Queued = True"
| "is_approval_blocked_status Reviewing = True"
| "is_approval_blocked_status AwaitingHuman = True"
| "is_approval_blocked_status _ = False"

definition approval_needs_human_decision :: "approval_status \<Rightarrow> bool" where
  "approval_needs_human_decision s \<longleftrightarrow> s = AwaitingHuman"

definition is_approval_terminal_status :: "approval_status \<Rightarrow> bool" where
  "is_approval_terminal_status s \<longleftrightarrow> s = Approved \<or> s = Denied \<or> s = Expired \<or> s = Cancelled"

lemma blocked_or_terminal: "is_approval_blocked_status s \<longleftrightarrow> \<not> is_approval_terminal_status s"
  by (cases s) (simp_all add: is_approval_terminal_status_def)

subsection \<open>Rows\<close>

record approval =
  ap_tenant :: string
  ap_id :: string
  ap_key :: string
  ap_agent :: string
  ap_workspace :: string
  ap_kind :: approval_kind
  ap_status :: approval_status
  ap_prompt :: string
  ap_motivation :: string
  ap_context :: json
  ap_created_at :: nat
  ap_expires_at :: "nat option"
  ap_latest_review :: "string option"
  ap_conversation :: "string option"
  ap_plan :: "string option"
  ap_turn :: "string option"
  ap_turn_item :: "string option"
  ap_step :: "string option"
  ap_work_item :: "string option"
  ap_work_item_task :: "string option"
  ap_resume_token :: "string option"

datatype reviewer_kind = GuardianReviewer | HumanReviewer | SystemReviewer

datatype review_state =
    ReviewQueued | ReviewRunning | RequestedHuman | ReviewApproved | ReviewDenied | ReviewExpired
  | ReviewCancelled | ReviewRevoked | ReviewFailed | ReviewSuperseded

record review =
  rv_tenant :: string
  rv_id :: string
  rv_target :: string
  rv_reviewer :: reviewer_kind
  rv_reviewer_id :: "string option"
  rv_state :: review_state
  rv_reason :: "string option"
  rv_risk_level :: "string option"
  rv_risk_score :: "int option"
  rv_evidence :: "string option"
  rv_payload :: "string option"
  rv_created_at :: nat
  rv_started_at :: "nat option"
  rv_completed_at :: "nat option"

record approvals_db =
  ad_approvals :: "approval list"
  ad_reviews :: "review list"

datatype approval_error = FieldRequired string | ApprovalMissing | ReviewMismatch

definition normalize_string :: "string option \<Rightarrow> string option" where
  "normalize_string v = (case v of None \<Rightarrow> None | Some s \<Rightarrow> if trim s = [] then None else Some (trim s))"

definition get_reviews_by_ids :: "string \<Rightarrow> string list \<Rightarrow> review list \<Rightarrow> review list" where
  "get_reviews_by_ids tenant ids rvs =
    (let wanted = filter (\<lambda>i. i \<noteq> []) (map trim ids) in
     filter (\<lambda>r. rv_tenant r = trim tenant \<and> rv_id r \<in> set wanted) rvs)"

definition list_reviews_by_target :: "string \<Rightarrow> string \<Rightarrow> review list \<Rightarrow> review list" where
  "list_reviews_by_target tenant target rvs =
    order_by rv_created_at rv_id
      (filter (\<lambda>r. rv_tenant r = trim tenant \<and> rv_target r = trim target) rvs)"

text \<open>\<open>hydrate\<close>: the row together with its latest review, if that review exists.\<close>

definition latest_review :: "approvals_db \<Rightarrow> approval \<Rightarrow> review option" where
  "latest_review db a =
    (case ap_latest_review a of None \<Rightarrow> None
     | Some i \<Rightarrow> find (\<lambda>r. rv_id r = i) (get_reviews_by_ids (ap_tenant a) [i] (ad_reviews db)))"

text \<open>The contract object: the row, its latest review, and on request all its reviews.\<close>

definition hydrate :: "bool \<Rightarrow> approvals_db \<Rightarrow> approval \<Rightarrow> approval \<times> review option \<times> review list option" where
  "hydrate include_reviews db a =
    (a, latest_review db a,
     if include_reviews then Some (list_reviews_by_target (ap_tenant a) (ap_id a) (ad_reviews db))
     else None)"

definition oldest_first :: "approval list \<Rightarrow> approval list" where
  "oldest_first as = order_by ap_created_at ap_id as"

definition get_approval :: "string \<Rightarrow> string \<Rightarrow> approvals_db \<Rightarrow> approval option" where
  "get_approval tenant aid db = find (\<lambda>a. ap_tenant a = tenant \<and> ap_id a = aid) (ad_approvals db)"

definition get_approval_by_key :: "string \<Rightarrow> string \<Rightarrow> approvals_db \<Rightarrow> approval option" where
  "get_approval_by_key tenant key db =
    find (\<lambda>a. ap_tenant a = trim tenant \<and> ap_key a = trim key) (ad_approvals db)"

definition get_approvals_by_ids :: "string \<Rightarrow> string list \<Rightarrow> approvals_db \<Rightarrow> approval list" where
  "get_approvals_by_ids tenant ids db =
    (let wanted = filter (\<lambda>i. i \<noteq> []) (map trim ids) in
     oldest_first (filter (\<lambda>a. ap_tenant a = trim tenant \<and> ap_id a \<in> set wanted) (ad_approvals db)))"

definition get_by_status :: "string \<Rightarrow> approval_status \<Rightarrow> bool \<Rightarrow> approvals_db \<Rightarrow> approval list" where
  "get_by_status tenant s newest_first db =
    (let rows = oldest_first (filter (\<lambda>a. ap_tenant a = trim tenant \<and> ap_status a = s) (ad_approvals db))
     in if newest_first then rev rows else rows)"

definition get_by_resume_token :: "string \<Rightarrow> string \<Rightarrow> approvals_db \<Rightarrow> approval option" where
  "get_by_resume_token tenant token db =
    (if trim token = [] then None
     else find (\<lambda>a. ap_tenant a = trim tenant \<and> ap_resume_token a = Some (trim token)) (ad_approvals db))"

definition get_latest_by_turn :: "string \<Rightarrow> string \<Rightarrow> approval_status list \<Rightarrow> approvals_db \<Rightarrow> approval option" where
  "get_latest_by_turn tenant turn statuses db =
    (if trim turn = [] then None
     else (case rev (oldest_first (filter (\<lambda>a. ap_tenant a = trim tenant \<and>
              ap_turn a = Some (trim turn) \<and> (statuses = [] \<or> ap_status a \<in> set statuses))
              (ad_approvals db))) of
             [] \<Rightarrow> None | a # _ \<Rightarrow> Some a))"

definition get_pending :: "string \<Rightarrow> approvals_db \<Rightarrow> approval list" where
  "get_pending tenant db =
    oldest_first (filter (\<lambda>a. ap_tenant a = trim tenant \<and>
      (ap_status a = Queued \<or> ap_status a = AwaitingHuman)) (ad_approvals db))"

definition list_blocked :: "string \<Rightarrow> approvals_db \<Rightarrow> approval list" where
  "list_blocked tenant db =
    sort_key (\<lambda>a. - int (ap_created_at a)) (filter (\<lambda>a. ap_tenant a = trim tenant \<and>
      is_approval_blocked_status (ap_status a)) (ad_approvals db))"

subsection \<open>Creating\<close>

record approval_params =
  app_tenant :: string
  app_agent :: string
  app_workspace :: string
  app_key :: string
  app_prompt :: string
  app_motivation :: "string option"
  app_kind :: "approval_kind option"
  app_status :: "approval_status option"
  app_context :: "json option"
  app_expires_at :: "nat option"
  app_conversation :: "string option"
  app_plan :: "string option"
  app_turn :: "string option"
  app_turn_item :: "string option"
  app_step :: "string option"
  app_work_item :: "string option"
  app_work_item_task :: "string option"
  app_resume_token :: "string option"

definition new_approval :: "string \<Rightarrow> nat \<Rightarrow> approval_params \<Rightarrow> approval" where
  "new_approval new_id now p =
    \<lparr>ap_tenant = trim (app_tenant p), ap_id = new_id, ap_key = trim (app_key p),
     ap_agent = trim (app_agent p), ap_workspace = trim (app_workspace p),
     ap_kind = (case app_kind p of None \<Rightarrow> Policy | Some k \<Rightarrow> k),
     ap_status = (case app_status p of None \<Rightarrow> Queued | Some s \<Rightarrow> s),
     ap_prompt = trim (app_prompt p),
     ap_motivation = trim (case app_motivation p of None \<Rightarrow> trim (app_prompt p) | Some m \<Rightarrow> m),
     ap_context = (case app_context p of None \<Rightarrow> JObj [] | Some c \<Rightarrow> c),
     ap_created_at = now, ap_expires_at = app_expires_at p, ap_latest_review = None,
     ap_conversation = app_conversation p, ap_plan = app_plan p, ap_turn = app_turn p,
     ap_turn_item = app_turn_item p, ap_step = app_step p, ap_work_item = app_work_item p,
     ap_work_item_task = app_work_item_task p, ap_resume_token = app_resume_token p\<rparr>"

definition missing_field :: "approval \<Rightarrow> string option" where
  "missing_field a =
    (if ap_tenant a = [] then Some ''tenantId''
     else if ap_agent a = [] then Some ''agentId''
     else if ap_workspace a = [] then Some ''workspaceId''
     else if ap_key a = [] then Some ''approvalKey''
     else if ap_prompt a = [] then Some ''prompt''
     else if ap_motivation a = [] then Some ''motivation''
     else None)"

text \<open>\<open>ON CONFLICT (tenant_id, approval_key) DO NOTHING\<close>, then the existing row is returned.\<close>

definition create_approval ::
  "string \<Rightarrow> nat \<Rightarrow> approval_params \<Rightarrow> approvals_db \<Rightarrow> (approval_error + approval) \<times> approvals_db" where
  "create_approval new_id now p db =
    (let a = new_approval new_id now p in
     case missing_field a of
       Some f \<Rightarrow> (Inl (FieldRequired f), db)
     | None \<Rightarrow>
         (case get_approval_by_key (ap_tenant a) (ap_key a) db of
            Some existing \<Rightarrow> (Inr existing, db)
          | None \<Rightarrow> (Inr a, db\<lparr>ad_approvals := ad_approvals db @ [a]\<rparr>)))"

subsection \<open>Transitions\<close>

record transition_input =
  ti_tenant :: string
  ti_id :: string
  ti_status :: approval_status
  ti_reviewer :: reviewer_kind
  ti_reviewer_id :: "string option"
  ti_review_state :: review_state
  ti_reason :: "string option"
  ti_risk_level :: "string option"
  ti_risk_score :: "int option"
  ti_evidence :: "string option"
  ti_payload :: "string option"
  ti_allowed :: "approval_status list option"

definition transition_guard :: "transition_input \<Rightarrow> approval_status \<Rightarrow> bool" where
  "transition_guard i current \<longleftrightarrow>
    (case ti_allowed i of None \<Rightarrow> True | Some ss \<Rightarrow> current \<in> set ss) \<and>
    \<not> is_approval_terminal_status current"

definition transition_review :: "string \<Rightarrow> nat \<Rightarrow> transition_input \<Rightarrow> review" where
  "transition_review review_id now i =
    \<lparr>rv_tenant = trim (ti_tenant i), rv_id = review_id, rv_target = trim (ti_id i),
     rv_reviewer = ti_reviewer i, rv_reviewer_id = normalize_string (ti_reviewer_id i),
     rv_state = ti_review_state i, rv_reason = normalize_string (ti_reason i),
     rv_risk_level = ti_risk_level i, rv_risk_score = ti_risk_score i,
     rv_evidence = ti_evidence i, rv_payload = ti_payload i, rv_created_at = now,
     rv_started_at = (if ti_review_state i = ReviewRunning then Some now else None),
     rv_completed_at = (if ti_review_state i = ReviewRunning \<or> ti_review_state i = ReviewQueued
                        then None else Some now)\<rparr>"

definition moves :: "transition_input \<Rightarrow> approval_status \<Rightarrow> approval \<Rightarrow> bool" where
  "moves i seen a \<longleftrightarrow> ap_tenant a = ti_tenant i \<and> ap_id a = ti_id i \<and> ap_status a = seen"

definition moved :: "transition_input \<Rightarrow> string \<Rightarrow> approval \<Rightarrow> approval" where
  "moved i review_id a = a\<lparr>ap_status := ti_status i, ap_latest_review := Some review_id\<rparr>"

definition committed :: "string \<Rightarrow> nat \<Rightarrow> transition_input \<Rightarrow> approval_status \<Rightarrow> approvals_db \<Rightarrow> approvals_db" where
  "committed review_id now i seen db =
    \<lparr>ad_approvals = map (\<lambda>a. if moves i seen a then moved i review_id a else a) (ad_approvals db),
     ad_reviews = ad_reviews db @ [transition_review review_id now i]\<rparr>"

text \<open>
  The second half: insert the review, update under \<open>status = seen\<close>; a lost race deletes the
  review again and returns the approval as it is now.
\<close>

definition transition_commit ::
  "string \<Rightarrow> nat \<Rightarrow> transition_input \<Rightarrow> approval_status \<Rightarrow> approvals_db
    \<Rightarrow> (approval_error + approval \<times> bool) \<times> approvals_db" where
  "transition_commit review_id now i seen db =
    (let rv = transition_review review_id now i in
     if rv_tenant rv = [] then (Inl (FieldRequired ''tenantId''), db)
     else if rv_target rv = [] then (Inl (FieldRequired ''targetId''), db)
     else if \<exists>a \<in> set (ad_approvals db). moves i seen a
     then (let db' = committed review_id now i seen db
           in (case get_approval (ti_tenant i) (ti_id i) db' of
                 None \<Rightarrow> (Inl ApprovalMissing, db)
               | Some a \<Rightarrow> (Inr (a, True), db')))
     else (case get_approval (ti_tenant i) (ti_id i) db of
             None \<Rightarrow> (Inl ApprovalMissing, db)
           | Some a \<Rightarrow> (Inr (a, False), db)))"

definition transition_with_review ::
  "string \<Rightarrow> nat \<Rightarrow> transition_input \<Rightarrow> approvals_db
    \<Rightarrow> (approval_error + (approval \<times> bool) option) \<times> approvals_db" where
  "transition_with_review review_id now i db =
    (case get_approval (ti_tenant i) (ti_id i) db of
       None \<Rightarrow> (Inr None, db)
     | Some current \<Rightarrow>
         if transition_guard i (ap_status current)
         then (case transition_commit review_id now i (ap_status current) db of
                 (Inl e, db') \<Rightarrow> (Inl e, db')
               | (Inr r, db') \<Rightarrow> (Inr (Some r), db'))
         else (Inr (Some (current, False)), db))"

definition expire_input :: "string \<Rightarrow> string \<Rightarrow> transition_input" where
  "expire_input tenant aid =
    \<lparr>ti_tenant = tenant, ti_id = aid, ti_status = Expired, ti_reviewer = SystemReviewer,
     ti_reviewer_id = None, ti_review_state = ReviewExpired, ti_reason = Some ''approval timed out'',
     ti_risk_level = None, ti_risk_score = None, ti_evidence = None, ti_payload = None,
     ti_allowed = Some [Queued, Reviewing, AwaitingHuman]\<rparr>"

definition expire_by_id ::
  "string \<Rightarrow> nat \<Rightarrow> string \<Rightarrow> string \<Rightarrow> approvals_db
    \<Rightarrow> (approval_error + (approval \<times> bool) option) \<times> approvals_db" where
  "expire_by_id review_id now tenant aid = transition_with_review review_id now (expire_input tenant aid)"

subsection \<open>The expiry sweep\<close>

definition overdue :: "string \<Rightarrow> nat \<Rightarrow> approval \<Rightarrow> bool" where
  "overdue tenant now a \<longleftrightarrow> ap_tenant a = tenant \<and>
    (case ap_expires_at a of None \<Rightarrow> False | Some t \<Rightarrow> t \<le> now) \<and> is_approval_blocked_status (ap_status a)"

definition expiry_review :: "string \<Rightarrow> nat \<Rightarrow> string \<Rightarrow> approval \<Rightarrow> review" where
  "expiry_review tenant now review_id a =
    \<lparr>rv_tenant = tenant, rv_id = review_id, rv_target = ap_id a, rv_reviewer = SystemReviewer,
     rv_reviewer_id = None, rv_state = ReviewExpired, rv_reason = Some ''approval timed out'',
     rv_risk_level = None, rv_risk_score = None, rv_evidence = None, rv_payload = None,
     rv_created_at = now, rv_started_at = None, rv_completed_at = Some now\<rparr>"

text \<open>\<open>fresh\<close> assigns an approval the UUID drawn for its review.\<close>

definition expire_stale_approvals ::
  "(approval \<Rightarrow> string) \<Rightarrow> string \<Rightarrow> nat \<Rightarrow> approvals_db \<Rightarrow> nat \<times> approvals_db" where
  "expire_stale_approvals fresh tenant now db =
    (let rows = filter (overdue tenant now) (ad_approvals db) in
     if rows = [] then (0, db)
     else (length rows,
       \<lparr>ad_approvals = map (\<lambda>a. if overdue tenant now a
            then a\<lparr>ap_status := Expired, ap_latest_review := Some (fresh a)\<rparr> else a) (ad_approvals db),
        ad_reviews = ad_reviews db @ map (\<lambda>a. expiry_review tenant now (fresh a) a) rows\<rparr>))"


subsection \<open>Interleaved transitions\<close>

text \<open>
  A commit may use a status that was read in an earlier state, as long as the guard accepted it
  then: that is every interleaving of concurrent \<open>transitionWithReview\<close> calls.
\<close>

inductive approval_step :: "approvals_db \<Rightarrow> approvals_db \<Rightarrow> bool" where
  step_create: "trim new_id = new_id \<Longrightarrow> \<forall>a \<in> set (ad_approvals db). ap_id a \<noteq> new_id \<Longrightarrow>
    approval_step db (snd (create_approval new_id now p db))"
| step_commit: "transition_guard i seen \<Longrightarrow>
    approval_step db (snd (transition_commit review_id now i seen db))"
| step_sweep: "approval_step db (snd (expire_stale_approvals fresh tenant now db))"

inductive_cases approval_stepE: "approval_step db db'"

definition approval_row_evolves :: "approval \<Rightarrow> approval \<Rightarrow> bool" where
  "approval_row_evolves a a' \<longleftrightarrow>
    a' = a\<lparr>ap_status := ap_status a', ap_latest_review := ap_latest_review a'\<rparr> \<and>
    (is_approval_terminal_status (ap_status a) \<longrightarrow> a' = a)"

definition approvals_evolve :: "approvals_db \<Rightarrow> approvals_db \<Rightarrow> bool" where
  "approvals_evolve db db' \<longleftrightarrow>
    (\<forall>k < length (ad_approvals db). k < length (ad_approvals db') \<and>
      approval_row_evolves (ad_approvals db ! k) (ad_approvals db' ! k)) \<and>
    prefix (ad_reviews db) (ad_reviews db')"

definition approvals_wf :: "approvals_db \<Rightarrow> bool" where
  "approvals_wf db \<longleftrightarrow> distinct (map ap_id (ad_approvals db)) \<and>
    distinct (map (\<lambda>a. (ap_tenant a, ap_key a)) (ad_approvals db)) \<and>
    (\<forall>a \<in> set (ad_approvals db). trim (ap_id a) = ap_id a \<and> trim (ap_tenant a) = ap_tenant a \<and>
      trim (ap_key a) = ap_key a \<and>
      (\<forall>i. ap_latest_review a = Some i \<longrightarrow>
        (\<exists>rv \<in> set (ad_reviews db). rv_id rv = i \<and> rv_target rv = ap_id a \<and> rv_tenant rv = ap_tenant a)))"

lemma approval_row_evolves_refl [simp]: "approval_row_evolves a a"
  by (simp add: approval_row_evolves_def)

lemma approval_row_evolves_trans:
  "approval_row_evolves a b \<Longrightarrow> approval_row_evolves b c \<Longrightarrow> approval_row_evolves a c"
  unfolding approval_row_evolves_def by (cases a; cases b; cases c) auto

lemma approvals_evolve_refl [simp]: "approvals_evolve db db"
  by (simp add: approvals_evolve_def)

lemma approvals_evolve_trans: "approvals_evolve a b \<Longrightarrow> approvals_evolve b c \<Longrightarrow> approvals_evolve a c"
  unfolding approvals_evolve_def
  using approval_row_evolves_trans prefix_order.order_trans by blast

lemma approvals_evolve_map:
  assumes "\<And>a. approval_row_evolves a (f a)" "ad_approvals db' = map f (ad_approvals db)"
    "ad_reviews db' = ad_reviews db @ rs"
  shows "approvals_evolve db db'"
  using assms by (simp add: approvals_evolve_def)

lemma moved_evolves: "transition_guard i seen \<Longrightarrow> moves i seen a \<Longrightarrow> approval_row_evolves a (moved i r a)"
  by (simp add: approval_row_evolves_def moved_def moves_def transition_guard_def)

lemma overdue_evolves:
  "overdue tenant now a \<Longrightarrow> approval_row_evolves a (a\<lparr>ap_status := Expired, ap_latest_review := Some i\<rparr>)"
  by (simp add: approval_row_evolves_def overdue_def blocked_or_terminal)

text \<open>What the two in-place operations do to the table.\<close>

lemma commit_cases:
  assumes "transition_commit rid now i seen db = (res, db')"
  shows "db' = db \<or>
    (db' = committed rid now i seen db \<and> (\<exists>a \<in> set (ad_approvals db). moves i seen a))"
  using assms by (auto simp: transition_commit_def Let_def split: if_splits option.splits)

lemma commit_evolves:
  assumes "transition_guard i seen"
  shows "approvals_evolve db (snd (transition_commit rid now i seen db))"
proof -
  let ?f = "\<lambda>a. if moves i seen a then moved i rid a else a"
  obtain res db' where c: "transition_commit rid now i seen db = (res, db')" by fastforce
  have "approval_row_evolves a (?f a)" for a by (simp add: moved_evolves [OF assms])
  then show ?thesis
    using commit_cases [OF c] approvals_evolve_map [of ?f db' db] by (auto simp: c committed_def)
qed

lemma sweep_evolves: "approvals_evolve db (snd (expire_stale_approvals fresh tenant now db))"
proof -
  let ?f = "\<lambda>a. if overdue tenant now a then a\<lparr>ap_status := Expired, ap_latest_review := Some (fresh a)\<rparr> else a"
  have "approval_row_evolves a (?f a)" for a by (simp add: overdue_evolves)
  then have "approvals_evolve db \<lparr>ad_approvals = map ?f (ad_approvals db), ad_reviews = ad_reviews db @ rs\<rparr>" for rs
    by (rule approvals_evolve_map) simp_all
  then show ?thesis by (simp add: expire_stale_approvals_def Let_def)
qed

lemma create_cases:
  assumes "create_approval new_id now p db = (res, db')"
  shows "db' = db \<or> (db' = db\<lparr>ad_approvals := ad_approvals db @ [new_approval new_id now p]\<rparr> \<and>
    get_approval_by_key (ap_tenant (new_approval new_id now p)) (ap_key (new_approval new_id now p)) db = None)"
  using assms by (auto simp: create_approval_def Let_def split: option.splits)

lemma create_evolves: "approvals_evolve db (snd (create_approval new_id now p db))"
proof -
  obtain res db' where c: "create_approval new_id now p db = (res, db')" by fastforce
  show ?thesis using create_cases [OF c] by (auto simp: c approvals_evolve_def nth_append)
qed

lemma approval_step_evolves: "approval_step db db' \<Longrightarrow> approvals_evolve db db'"
  by (erule approval_stepE) (simp_all add: create_evolves commit_evolves sweep_evolves)

lemma wf_in_place:
  assumes "approvals_wf db" "ad_approvals db' = map f (ad_approvals db)" "ad_reviews db' = ad_reviews db @ rs"
    and "\<And>a. a \<in> set (ad_approvals db) \<Longrightarrow>
      ap_id (f a) = ap_id a \<and> ap_tenant (f a) = ap_tenant a \<and> ap_key (f a) = ap_key a \<and>
      (f a \<noteq> a \<longrightarrow> (\<exists>rv \<in> set rs. ap_latest_review (f a) = Some (rv_id rv) \<and> rv_target rv = ap_id a \<and>
        rv_tenant rv = ap_tenant a))"
  shows "approvals_wf db'"
proof -
  have ids: "map ap_id (ad_approvals db') = map ap_id (ad_approvals db)"
    "map (\<lambda>a. (ap_tenant a, ap_key a)) (ad_approvals db') = map (\<lambda>a. (ap_tenant a, ap_key a)) (ad_approvals db)"
    using assms(2,4) by simp_all
  have "\<exists>rv \<in> set (ad_reviews db'). rv_id rv = i \<and> rv_target rv = ap_id (f a) \<and> rv_tenant rv = ap_tenant (f a)"
    if "a \<in> set (ad_approvals db)" "ap_latest_review (f a) = Some i" for a i
    using assms(4) [OF that(1)] that assms(1) unfolding assms(3) approvals_wf_def
    by (cases "f a = a") auto
  moreover have "distinct (map ap_id (ad_approvals db'))"
    "distinct (map (\<lambda>a. (ap_tenant a, ap_key a)) (ad_approvals db'))"
    unfolding ids using assms(1) by (simp_all add: approvals_wf_def)
  moreover have "trim (ap_id (f a)) = ap_id (f a) \<and> trim (ap_tenant (f a)) = ap_tenant (f a) \<and>
      trim (ap_key (f a)) = ap_key (f a)" if "a \<in> set (ad_approvals db)" for a
    using assms(1) assms(4) [OF that] that by (simp add: approvals_wf_def)
  ultimately show ?thesis
    unfolding approvals_wf_def by (auto simp: assms(2))
qed

lemma wf_append:
  assumes "approvals_wf db" "\<forall>b \<in> set (ad_approvals db). ap_id b \<noteq> ap_id a"
    and "\<forall>b \<in> set (ad_approvals db). (ap_tenant b, ap_key b) \<noteq> (ap_tenant a, ap_key a)"
    and "trim (ap_id a) = ap_id a" "trim (ap_tenant a) = ap_tenant a" "trim (ap_key a) = ap_key a"
    and "ap_latest_review a = None"
  shows "approvals_wf (db\<lparr>ad_approvals := ad_approvals db @ [a]\<rparr>)"
proof -
  have "distinct (map ap_id (ad_approvals db @ [a]))"
    using assms(1,2) by (auto simp: approvals_wf_def)
  moreover have "distinct (map (\<lambda>a. (ap_tenant a, ap_key a)) (ad_approvals db @ [a]))"
    using assms(1,3) by (auto simp: approvals_wf_def)
  ultimately show ?thesis using assms(1,4-7) by (simp add: approvals_wf_def)
qed

lemma committed_wf:
  assumes "approvals_wf db"
  shows "approvals_wf (committed rid now i seen db)"
  by (rule wf_in_place [OF assms, where f = "\<lambda>a. if moves i seen a then moved i rid a else a"
        and rs = "[transition_review rid now i]"])
    (use assms in \<open>auto simp: committed_def moved_def moves_def transition_review_def approvals_wf_def\<close>)

lemma approval_step_wf: "approval_step db db' \<Longrightarrow> approvals_wf db \<Longrightarrow> approvals_wf db'"
proof (erule approval_stepE, goal_cases)
  case (1 new_id now p)
  obtain res db'' where c: "create_approval new_id now p db = (res, db'')" by fastforce
  let ?a = "new_approval new_id now p"
  have fields: "ap_id ?a = new_id" "trim (ap_tenant ?a) = ap_tenant ?a" "trim (ap_key ?a) = ap_key ?a"
    "ap_latest_review ?a = None"
    by (simp_all add: new_approval_def)
  from create_cases [OF c] show ?case
  proof
    assume "db'' = db" with 1 c show ?thesis by simp
  next
    assume h: "db'' = db\<lparr>ad_approvals := ad_approvals db @ [?a]\<rparr> \<and>
      get_approval_by_key (ap_tenant ?a) (ap_key ?a) db = None"
    then have "\<forall>b \<in> set (ad_approvals db). (ap_tenant b, ap_key b) \<noteq> (ap_tenant ?a, ap_key ?a)"
      by (auto simp: get_approval_by_key_def find_None_iff fields)
    with wf_append [OF 1(1), of ?a] h 1 c fields show ?thesis by simp
  qed
next
  case (2 i seen review_id now)
  obtain res db'' where c: "transition_commit review_id now i seen db = (res, db'')" by fastforce
  from commit_cases [OF c] committed_wf [OF 2(1)] 2 show ?case by (auto simp: c)
next
  case (3 fresh tenant now)
  show ?case
    unfolding 3(2) expire_stale_approvals_def Let_def
    by (auto simp: 3(1)
        intro!: wf_in_place [OF 3(1), where f = "\<lambda>a. if overdue tenant now a
          then a\<lparr>ap_status := Expired, ap_latest_review := Some (fresh a)\<rparr> else a"
          and rs = "map (\<lambda>a. expiry_review tenant now (fresh a) a)
            (filter (overdue tenant now) (ad_approvals db))"])
      (auto simp: expiry_review_def overdue_def)
qed


text \<open>
  C18. Decisions are final under every interleaving: along any sequence of creations, transition
  commits (each with a status read at any earlier time) and expiry sweeps, approval ids and keys
  stay unique, no approval or review disappears, nothing but status and latest review ever
  changes, an approval that is approved, denied, expired or cancelled never changes again, and
  every latest review is a stored review of that approval.
\<close>

theorem approval_history:
  assumes "approval_step\<^sup>*\<^sup>* db db'" "approvals_wf db"
  shows "approvals_wf db' \<and> approvals_evolve db db'"
  using assms
  by (induction rule: rtranclp_induct)
    (auto intro: approval_step_wf approvals_evolve_trans approval_step_evolves)

definition demo_approval_params :: approval_params where
  "demo_approval_params = \<lparr>app_tenant = ''t'', app_agent = ''a'', app_workspace = ''w'', app_key = ''k'',
    app_prompt = ''ok?'', app_motivation = None, app_kind = None, app_status = Some AwaitingHuman,
    app_context = None, app_expires_at = Some 9, app_conversation = None, app_plan = None,
    app_turn = Some ''turn'', app_turn_item = None, app_step = None, app_work_item = None,
    app_work_item_task = None, app_resume_token = Some ''tok''\<rparr>"

definition demo_approvals :: approvals_db where
  "demo_approvals = snd (create_approval ''i'' 1 demo_approval_params \<lparr>ad_approvals = [], ad_reviews = []\<rparr>)"

definition demo_decision :: "approval_status \<Rightarrow> review_state \<Rightarrow> transition_input" where
  "demo_decision s rs = \<lparr>ti_tenant = ''t'', ti_id = ''i'', ti_status = s, ti_reviewer = HumanReviewer,
    ti_reviewer_id = None, ti_review_state = rs, ti_reason = None, ti_risk_level = None,
    ti_risk_score = None, ti_evidence = None, ti_payload = None, ti_allowed = Some [AwaitingHuman]\<rparr>"

lemma approvals_wf_empty: "approvals_wf \<lparr>ad_approvals = [], ad_reviews = []\<rparr>"
  by (simp add: approvals_wf_def)

lemma demo_approvals_wf: "approvals_wf demo_approvals"
  unfolding demo_approvals_def
  by (rule approval_step_wf [OF step_create approvals_wf_empty]) (simp_all, code_simp)

lemma approval_history_witness:
  "approvals_evolve demo_approvals (snd (transition_commit ''r'' 2 (demo_decision Denied ReviewDenied)
    AwaitingHuman demo_approvals))"
proof -
  have "transition_guard (demo_decision Denied ReviewDenied) AwaitingHuman" by code_simp
  from step_commit [OF this] have st: "approval_step demo_approvals
      (snd (transition_commit ''r'' 2 (demo_decision Denied ReviewDenied) AwaitingHuman demo_approvals))" .
  show ?thesis
    by (rule approval_history [OF r_into_rtranclp [where r = approval_step, OF st] demo_approvals_wf,
        THEN conjunct2])
qed

subsection \<open>One transition\<close>

lemma wf_get:
  assumes "approvals_wf db" "a \<in> set (ad_approvals db)"
  shows "get_approval (ap_tenant a) (ap_id a) db = Some a"
  unfolding get_approval_def
  by (rule find_only) (use assms in \<open>auto simp: approvals_wf_def distinct_map inj_on_def\<close>)

lemma get_approval_Some:
  "get_approval tenant aid db = Some a \<Longrightarrow> a \<in> set (ad_approvals db) \<and> ap_tenant a = tenant \<and> ap_id a = aid"
  by (auto simp: get_approval_def find_Some_iff)

lemma commit_wins:
  assumes "approvals_wf db" "get_approval (ti_tenant i) (ti_id i) db = Some a" "ap_status a = seen"
    and "ti_id i \<noteq> []" "ti_tenant i \<noteq> []"
  shows "transition_commit rid now i seen db = (Inr (moved i rid a, True), committed rid now i seen db)"
proof -
  note a = get_approval_Some [OF assms(2)]
  then have m: "moves i seen a" using assms(3) by (simp add: moves_def)
  have "trim (ti_tenant i) = ti_tenant i" "trim (ti_id i) = ti_id i"
    using assms(1) a by (auto simp: approvals_wf_def)
  then have ne: "trim (ti_tenant i) \<noteq> []" "trim (ti_id i) \<noteq> []" using assms(4,5) by simp_all
  have "moved i rid a \<in> set (ad_approvals (committed rid now i seen db))"
    using a m by (force simp: committed_def)
  from wf_get [OF committed_wf [OF assms(1)] this] a
  have "get_approval (ti_tenant i) (ti_id i) (committed rid now i seen db) = Some (moved i rid a)"
    by (simp add: moved_def)
  then show ?thesis
    using a m ne by (auto simp: transition_commit_def Let_def transition_review_def)
qed

text \<open>
  The effect of \<open>transitionWithReview\<close> on a stored approval: it transitions exactly when the
  current status is not terminal and is one of the allowed ones; then the approval has the new
  status, points to the new review, and that one review was added; otherwise nothing changes.
\<close>

theorem transition_effect:
  assumes "approvals_wf db" "get_approval (ti_tenant i) (ti_id i) db = Some a"
    and "ti_id i \<noteq> []" "ti_tenant i \<noteq> []"
  shows "transition_with_review rid now i db =
    (if transition_guard i (ap_status a)
     then (Inr (Some (moved i rid a, True)),
           \<lparr>ad_approvals = map (\<lambda>x. if x = a then moved i rid x else x) (ad_approvals db),
            ad_reviews = ad_reviews db @ [transition_review rid now i]\<rparr>)
     else (Inr (Some (a, False)), db))"
proof -
  note a = get_approval_Some [OF assms(2)]
  have "moves i (ap_status a) x \<longleftrightarrow> x = a" if "x \<in> set (ad_approvals db)" for x
    using wf_get [OF assms(1) that] assms(2) a by (auto simp: moves_def)
  then have "map (\<lambda>x. if moves i (ap_status a) x then moved i rid x else x) (ad_approvals db) =
      map (\<lambda>x. if x = a then moved i rid x else x) (ad_approvals db)"
    by simp
  then show ?thesis
    using commit_wins [OF assms(1,2) refl assms(3,4), of rid now]
    by (simp add: transition_with_review_def assms(2) committed_def)
qed

lemma transition_effect_witness:
  "fst (transition_with_review ''r'' 2 (demo_decision Approved ReviewApproved) demo_approvals) =
    Inr (Some (moved (demo_decision Approved ReviewApproved) ''r'' (hd (ad_approvals demo_approvals)), True))"
proof -
  let ?i = "demo_decision Approved ReviewApproved"
  have g: "get_approval (ti_tenant ?i) (ti_id ?i) demo_approvals = Some (hd (ad_approvals demo_approvals))"
    "transition_guard ?i (ap_status (hd (ad_approvals demo_approvals)))"
    by code_simp+
  have n: "ti_id ?i \<noteq> []" "ti_tenant ?i \<noteq> []" by (simp_all add: demo_decision_def)
  show ?thesis using transition_effect [OF demo_approvals_wf g(1) n, of "''r''" 2] g(2) by simp
qed

text \<open>
  C19. Two concurrent transitions read the same status and the first has committed. When it changed
  the status, it is the only winner: the second changes nothing, leaves no review behind and reports
  the approval as the first left it. When the first kept the status (a review that is put back, say),
  the guard of the UPDATE does not see it: the second commits as well, and both reviews stay.
\<close>

theorem concurrent_transitions_one_winner:
  assumes "approvals_wf db" "transition_guard i seen" "transition_guard j seen"
    and "transition_commit r1 n1 i seen db = (Inr (a, True), db1)"
    and "ti_tenant j = ti_tenant i" "ti_id j = ti_id i"
  shows "if ti_status i \<noteq> seen
    then transition_commit r2 n2 j seen db1 = (Inr (a, False), db1)
    else fst (transition_commit r2 n2 j seen db1) = Inr (moved j r2 a, True) \<and>
      ad_reviews (snd (transition_commit r2 n2 j seen db1)) =
        ad_reviews db @ [transition_review r1 n1 i, transition_review r2 n2 j]"
proof -
  from assms(4) have ne: "trim (ti_tenant i) \<noteq> []" "trim (ti_id i) \<noteq> []"
    and ex: "\<exists>x \<in> set (ad_approvals db). moves i seen x"
    by (auto simp: transition_commit_def Let_def transition_review_def split: if_splits option.splits)
  then obtain x where x: "x \<in> set (ad_approvals db)" "moves i seen x" by blast
  then have get: "get_approval (ti_tenant i) (ti_id i) db = Some x"
    using wf_get [OF assms(1) x(1)] by (simp add: moves_def)
  have given: "ti_id i \<noteq> []" "ti_tenant i \<noteq> []" using ne by auto
  note win = commit_wins [OF assms(1) get _ this, of seen r1 n1]
  then have a: "a = moved i r1 x"
    and db1: "ad_approvals db1 = map (\<lambda>y. if moves i seen y then moved i r1 y else y) (ad_approvals db)"
      "ad_reviews db1 = ad_reviews db @ [transition_review r1 n1 i]"
    using x assms(4) by (simp_all add: moves_def committed_def)
  have wf1: "approvals_wf db1"
    using approval_step_wf [OF step_commit [OF assms(2)] assms(1), of r1 n1] assms(4) by simp
  have mem: "a \<in> set (ad_approvals db1)" using x by (force simp: a db1)
  have get1: "get_approval (ti_tenant j) (ti_id j) db1 = Some a"
    using wf_get [OF wf1 mem] x(2) assms(5,6) by (simp add: a moved_def moves_def)
  show ?thesis
  proof (cases "ti_status i = seen")
    case True
    then have "ap_status a = seen" by (simp add: a moved_def)
    from commit_wins [OF wf1 get1 this, of r2 n2] given assms(5,6) True show ?thesis
      by (simp add: committed_def db1)
  next
    case False
    have "\<not> moves j seen y" if "y \<in> set (ad_approvals db1)" for y
    proof
      assume m: "moves j seen y"
      then have "y = a" using wf_get [OF wf1 that] get1 by (simp add: moves_def)
      with m False show False by (simp add: a moved_def moves_def)
    qed
    then show ?thesis
      using ne get1 assms(5,6) False by (auto simp: transition_commit_def Let_def transition_review_def)
  qed
qed

lemma concurrent_transitions_one_winner_witness:
  "snd (transition_commit ''r2'' 3 (demo_decision Denied ReviewDenied) AwaitingHuman
      (snd (transition_commit ''r1'' 2 (demo_decision Approved ReviewApproved) AwaitingHuman demo_approvals))) =
    snd (transition_commit ''r1'' 2 (demo_decision Approved ReviewApproved) AwaitingHuman demo_approvals) \<and>
   map rv_id (ad_reviews (snd (transition_commit ''r2'' 3 (demo_decision AwaitingHuman ReviewQueued) AwaitingHuman
      (snd (transition_commit ''r1'' 2 (demo_decision AwaitingHuman ReviewQueued) AwaitingHuman demo_approvals))))) =
    map rv_id (ad_reviews demo_approvals) @ [''r1'', ''r2'']"
proof -
  let ?i = "demo_decision Approved ReviewApproved" and ?j = "demo_decision Denied ReviewDenied"
  let ?k = "demo_decision AwaitingHuman ReviewQueued"
  have g: "transition_guard ?i AwaitingHuman" "transition_guard ?j AwaitingHuman"
    and gk: "transition_guard ?k AwaitingHuman" by code_simp+
  have c: "transition_commit ''r1'' 2 ?i AwaitingHuman demo_approvals =
      (Inr (moved ?i ''r1'' (hd (ad_approvals demo_approvals)), True),
       snd (transition_commit ''r1'' 2 ?i AwaitingHuman demo_approvals))"
    by code_simp
  have ck: "transition_commit ''r1'' 2 ?k AwaitingHuman demo_approvals =
      (Inr (moved ?k ''r1'' (hd (ad_approvals demo_approvals)), True),
       snd (transition_commit ''r1'' 2 ?k AwaitingHuman demo_approvals))"
    by code_simp
  from concurrent_transitions_one_winner [OF demo_approvals_wf gk gk ck, of "''r2''" 3]
    concurrent_transitions_one_winner [OF demo_approvals_wf g c, of "''r2''" 3]
  show ?thesis by (simp add: demo_decision_def transition_review_def)
qed

text \<open>
  The sweep expires exactly the blocked approvals of the tenant whose deadline has passed,
  writes one expiry review for each, leaves none of them overdue, and finds nothing the second
  time.
\<close>

theorem approval_sweep_complete:
  assumes "expire_stale_approvals fresh tenant now db = (n, db')"
  shows "n = length (filter (overdue tenant now) (ad_approvals db)) \<and>
    length (ad_reviews db') = length (ad_reviews db) + n \<and>
    filter (overdue tenant now) (ad_approvals db') = [] \<and>
    expire_stale_approvals fresh' tenant now db' = (0, db')"
proof (cases "filter (overdue tenant now) (ad_approvals db) = []")
  case True
  with assms show ?thesis by (simp add: expire_stale_approvals_def Let_def)
next
  case False
  with assms have n: "n = length (filter (overdue tenant now) (ad_approvals db))"
    and as: "ad_approvals db' = map (\<lambda>a. if overdue tenant now a
        then a\<lparr>ap_status := Expired, ap_latest_review := Some (fresh a)\<rparr> else a) (ad_approvals db)"
    and rs: "length (ad_reviews db') = length (ad_reviews db) + n"
    by (auto simp: expire_stale_approvals_def Let_def)
  have settled: "\<not> overdue tenant now (a\<lparr>ap_status := Expired, ap_latest_review := Some i\<rparr>)" for a i
    by (simp add: overdue_def)
  have none: "filter (overdue tenant now) (ad_approvals db') = []"
    by (auto simp: filter_empty_conv as settled)
  then have "expire_stale_approvals fresh' tenant now db' = (0, db')"
    by (simp add: expire_stale_approvals_def Let_def)
  with n rs none show ?thesis by simp
qed

lemma approval_sweep_complete_witness:
  "fst (expire_stale_approvals ap_id ''t'' 9 demo_approvals) = 1 \<and>
   filter (overdue ''t'' 9) (ad_approvals (snd (expire_stale_approvals ap_id ''t'' 9 demo_approvals))) = []"
proof -
  obtain n db' where e: "expire_stale_approvals ap_id ''t'' 9 demo_approvals = (n, db')" by fastforce
  have "filter (overdue ''t'' 9) (ad_approvals demo_approvals) = ad_approvals demo_approvals"
    "length (ad_approvals demo_approvals) = 1"
    by code_simp+
  with approval_sweep_complete [OF e] show ?thesis by (simp add: e)
qed

end
