(* ===== verification/Approval_Actions.thy ===== *)
theory Approval_Actions
  imports Approvals
begin

text \<open>
  \<open>gateway/src/modules/approval/engine-action-dal.ts\<close>, the resolving half of \<open>dal.ts\<close> and
  \<open>engine-action-processor.ts\<close>: a resolved approval leaves a durable action (resume or cancel the
  blocked turn) which processors claim under a lease, execute and settle. The workflow runner and
  the turn controller that the processor is constructed with are parameters over an abstract
  world; times are milliseconds, and one clock reading stands for the pair
  \<open>nowMs\<close>/\<open>nowIso\<close>.
\<close>

subsection \<open>Actions\<close>

datatype engine_action_kind = ResumeTurn | CancelTurn

datatype engine_action_status = ActionQueued | ActionProcessing | ActionSucceeded | ActionFailed

record engine_action =
  ac_tenant :: string
  ac_id :: string
  ac_approval :: string
  ac_kind :: engine_action_kind
  ac_resume_token :: "string option"
  ac_turn :: "string option"
  ac_reason :: "string option"
  ac_status :: engine_action_status
  ac_attempts :: nat
  ac_last_error :: "string option"
  ac_lease_owner :: "string option"
  ac_lease_expires :: "nat option"
  ac_created_at :: nat
  ac_updated_at :: nat
  ac_processed_at :: "nat option"

datatype resolved_action = Resume string | Cancel "string option" string

definition is_resume_on_denied_context :: "json \<Rightarrow> bool" where
  "is_resume_on_denied_context context =
    (case coerce_record (Some context) of
       None \<Rightarrow> False
     | Some m \<Rightarrow> om_get m ''source'' = Some (JStr ''agent-tool-execution'') \<or>
                om_get m ''source'' = Some (JStr ''llm-step-tool-execution''))"

text \<open>\<open>x?.trim() || fallback\<close>.\<close>

definition trimmed_or :: "string option \<Rightarrow> string \<Rightarrow> string" where
  "trimmed_or v fallback = (case normalize_string v of None \<Rightarrow> fallback | Some s \<Rightarrow> s)"

definition resolve_action_from_resolved_approval :: "approval \<Rightarrow> string option \<Rightarrow> resolved_action option" where
  "resolve_action_from_resolved_approval a reason =
    (let token = normalize_string (ap_resume_token a);
         turn = normalize_string (ap_turn a);
         has_step = (normalize_string (ap_step a) \<noteq> None)
     in case ap_status a of
          Approved \<Rightarrow>
            (case token of
               Some t \<Rightarrow> Some (Resume t)
             | None \<Rightarrow> if turn \<noteq> None \<or> has_step
                       then Some (Cancel turn (trimmed_or reason ''approval approved but missing resume token''))
                       else None)
        | Denied \<Rightarrow>
            (if token \<noteq> None \<and> is_resume_on_denied_context (ap_context a)
             then Some (Resume (the token))
             else if turn \<noteq> None \<or> has_step
             then Some (Cancel turn (trimmed_or reason ''approval denied''))
             else None)
        | _ \<Rightarrow> None)"

fun action_kind_of :: "resolved_action \<Rightarrow> engine_action_kind" where
  "action_kind_of (Resume _) = ResumeTurn"
| "action_kind_of (Cancel _ _) = CancelTurn"

definition new_action :: "string \<Rightarrow> nat \<Rightarrow> string \<Rightarrow> string \<Rightarrow> resolved_action \<Rightarrow> engine_action" where
  "new_action new_id now tenant approval act =
    \<lparr>ac_tenant = tenant, ac_id = new_id, ac_approval = approval, ac_kind = action_kind_of act,
     ac_resume_token = (case act of Resume t \<Rightarrow> Some t | Cancel _ _ \<Rightarrow> None),
     ac_turn = (case act of Resume _ \<Rightarrow> None | Cancel t _ \<Rightarrow> t),
     ac_reason = (case act of Resume _ \<Rightarrow> None | Cancel _ r \<Rightarrow> Some r),
     ac_status = ActionQueued, ac_attempts = 0, ac_last_error = None, ac_lease_owner = None,
     ac_lease_expires = None, ac_created_at = now, ac_updated_at = now, ac_processed_at = None\<rparr>"

definition get_action_by_approval ::
  "string \<Rightarrow> string \<Rightarrow> engine_action_kind \<Rightarrow> engine_action list \<Rightarrow> engine_action option" where
  "get_action_by_approval tenant approval kind acts =
    find (\<lambda>x. ac_tenant x = tenant \<and> ac_approval x = approval \<and> ac_kind x = kind) acts"

text \<open>The result carries the row and \<open>deduped\<close>.\<close>

definition enqueue_for_resolved_approval ::
  "string \<Rightarrow> nat \<Rightarrow> string \<Rightarrow> approval \<Rightarrow> string option \<Rightarrow> engine_action list
    \<Rightarrow> (engine_action \<times> bool) option \<times> engine_action list" where
  "enqueue_for_resolved_approval new_id now tenant a reason acts =
    (case resolve_action_from_resolved_approval a reason of
       None \<Rightarrow> (None, acts)
     | Some act \<Rightarrow>
         (case get_action_by_approval tenant (ap_id a) (action_kind_of act) acts of
            Some existing \<Rightarrow> (Some (existing, True), acts)
          | None \<Rightarrow> (let row = new_action new_id now tenant (ap_id a) act
                     in (Some (row, False), acts @ [row]))))"

definition claimable :: "string \<Rightarrow> nat \<Rightarrow> nat \<Rightarrow> engine_action \<Rightarrow> bool" where
  "claimable tenant max_attempts now x \<longleftrightarrow> ac_tenant x = tenant \<and> ac_attempts x < max_attempts \<and>
    (ac_status x = ActionQueued \<or>
     ac_status x = ActionProcessing \<and> (case ac_lease_expires x of None \<Rightarrow> False | Some t \<Rightarrow> t \<le> now))"

definition claimed :: "string \<Rightarrow> nat \<Rightarrow> nat \<Rightarrow> engine_action \<Rightarrow> engine_action" where
  "claimed owner now ttl x =
    x\<lparr>ac_status := ActionProcessing, ac_lease_owner := Some owner,
      ac_lease_expires := Some (now + max 1 ttl), ac_attempts := ac_attempts x + 1,
      ac_updated_at := now\<rparr>"

definition has_action_id :: "string \<Rightarrow> string \<Rightarrow> engine_action \<Rightarrow> bool" where
  "has_action_id tenant aid x \<longleftrightarrow> ac_tenant x = tenant \<and> ac_id x = aid"

definition claim_next ::
  "string \<Rightarrow> string \<Rightarrow> nat \<Rightarrow> nat \<Rightarrow> nat \<Rightarrow> engine_action list \<Rightarrow> engine_action option \<times> engine_action list" where
  "claim_next tenant owner now ttl max_attempts acts =
    (case first_row (order_by ac_updated_at ac_id (filter (claimable tenant max_attempts now) acts)) of
       None \<Rightarrow> (None, acts)
     | Some c \<Rightarrow>
         (let acts' = update_where (\<lambda>x. has_action_id tenant (ac_id c) x \<and> claimable tenant max_attempts now x)
                        (claimed owner now ttl) acts
          in (find (has_action_id tenant (ac_id c)) acts', acts')))"

text \<open>The guard shared by the three settling updates.\<close>

definition leased_by :: "string \<Rightarrow> string \<Rightarrow> string \<Rightarrow> engine_action \<Rightarrow> bool" where
  "leased_by tenant aid owner x \<longleftrightarrow> has_action_id tenant aid x \<and> ac_status x = ActionProcessing \<and>
    ac_lease_owner x = Some owner"

definition first_processed :: "nat \<Rightarrow> engine_action \<Rightarrow> nat option" where
  "first_processed now x = (case ac_processed_at x of None \<Rightarrow> Some now | Some t \<Rightarrow> Some t)"

definition error_text :: "string \<Rightarrow> string" where
  "error_text e = take 10000 (trim e)"

definition succeeded :: "nat \<Rightarrow> engine_action \<Rightarrow> engine_action" where
  "succeeded now x =
    x\<lparr>ac_status := ActionSucceeded, ac_last_error := None, ac_lease_owner := None,
      ac_lease_expires := None, ac_processed_at := first_processed now x, ac_updated_at := now\<rparr>"

definition requeued :: "string \<Rightarrow> nat \<Rightarrow> engine_action \<Rightarrow> engine_action" where
  "requeued e now x =
    x\<lparr>ac_status := ActionQueued, ac_last_error := Some (error_text e), ac_lease_owner := None,
      ac_lease_expires := None, ac_updated_at := now\<rparr>"

definition failed :: "string \<Rightarrow> nat \<Rightarrow> engine_action \<Rightarrow> engine_action" where
  "failed e now x =
    x\<lparr>ac_status := ActionFailed, ac_last_error := Some (error_text e), ac_lease_owner := None,
      ac_lease_expires := None, ac_processed_at := first_processed now x, ac_updated_at := now\<rparr>"

definition mark_succeeded ::
  "string \<Rightarrow> string \<Rightarrow> string \<Rightarrow> nat \<Rightarrow> engine_action list \<Rightarrow> bool \<times> engine_action list" where
  "mark_succeeded tenant aid owner now acts =
    (matches (leased_by tenant aid owner) acts, update_where (leased_by tenant aid owner) (succeeded now) acts)"

definition requeue_with_error ::
  "string \<Rightarrow> string \<Rightarrow> string \<Rightarrow> nat \<Rightarrow> string \<Rightarrow> engine_action list \<Rightarrow> bool \<times> engine_action list" where
  "requeue_with_error tenant aid owner now e acts =
    (matches (leased_by tenant aid owner) acts, update_where (leased_by tenant aid owner) (requeued e now) acts)"

definition mark_failed ::
  "string \<Rightarrow> string \<Rightarrow> string \<Rightarrow> nat \<Rightarrow> string \<Rightarrow> engine_action list \<Rightarrow> bool \<times> engine_action list" where
  "mark_failed tenant aid owner now e acts =
    (matches (leased_by tenant aid owner) acts, update_where (leased_by tenant aid owner) (failed e now) acts)"

subsection \<open>Resolving an approval\<close>

datatype decision_input = DecideApproved | DecideDenied

record resolve_input =
  ri_tenant :: string
  ri_id :: string
  ri_decision :: decision_input
  ri_reason :: "string option"
  ri_reviewer :: "reviewer_kind option"
  ri_reviewer_id :: "string option"
  ri_allowed :: "approval_status list option"
  ri_resolved_by :: "string option"
  ri_payload :: "string option"

definition resolve_transition :: "resolve_input \<Rightarrow> transition_input" where
  "resolve_transition r =
    \<lparr>ti_tenant = ri_tenant r, ti_id = ri_id r,
     ti_status = (if ri_decision r = DecideApproved then Approved else Denied),
     ti_reviewer = (case ri_reviewer r of None \<Rightarrow> HumanReviewer | Some k \<Rightarrow> k),
     ti_reviewer_id = ri_reviewer_id r,
     ti_review_state = (if ri_decision r = DecideApproved then ReviewApproved else ReviewDenied),
     ti_reason = ri_reason r, ti_risk_level = None, ti_risk_score = None, ti_evidence = None,
     ti_payload = (case ri_payload r of None \<Rightarrow> ri_resolved_by r | Some p \<Rightarrow> Some p),
     ti_allowed = Some (case ri_allowed r of None \<Rightarrow> [AwaitingHuman] | Some ss \<Rightarrow> ss)\<rparr>"

record approval_store =
  as_db :: approvals_db
  as_actions :: "engine_action list"

definition resolve_with_engine_action ::
  "string \<Rightarrow> string \<Rightarrow> nat \<Rightarrow> resolve_input \<Rightarrow> approval_store
    \<Rightarrow> (approval_error + (approval \<times> bool) option) \<times> approval_store" where
  "resolve_with_engine_action review_id action_id now r st =
    (case transition_with_review review_id now (resolve_transition r) (as_db st) of
       (Inl e, _) \<Rightarrow> (Inl e, st)
     | (Inr None, _) \<Rightarrow> (Inr None, st)
     | (Inr (Some (a, m)), db') \<Rightarrow>
         (Inr (Some (a, m)),
          \<lparr>as_db = db',
           as_actions = (if m
              then snd (enqueue_for_resolved_approval action_id now (ri_tenant r) a (ri_reason r) (as_actions st))
              else as_actions st)\<rparr>))"

definition respond ::
  "string \<Rightarrow> string \<Rightarrow> nat \<Rightarrow> resolve_input \<Rightarrow> approval_store \<Rightarrow> (approval_error + approval option) \<times> approval_store" where
  "respond review_id action_id now r st =
    (case resolve_with_engine_action review_id action_id now
        (r\<lparr>ri_allowed := Some [Queued, AwaitingHuman], ri_resolved_by := None, ri_payload := None\<rparr>) st of
       (Inl e, st') \<Rightarrow> (Inl e, st')
     | (Inr None, st') \<Rightarrow> (Inr None, st')
     | (Inr (Some (a, _)), st') \<Rightarrow> (Inr (Some a), st'))"

subsection \<open>The processor\<close>

text \<open>The injected runner and controller: each call answers with an error message or its result.\<close>

record 'w engine =
  en_resume_run :: "(string \<Rightarrow> 'w \<Rightarrow> (string + string option) \<times> 'w) option"
  en_cancel_run :: "string \<Rightarrow> string option \<Rightarrow> 'w \<Rightarrow> (string + unit) \<times> 'w"
  en_controller :: bool
  en_resume_turn :: "string \<Rightarrow> 'w \<Rightarrow> (string + unit) \<times> 'w"
  en_cancel_turn :: "string \<Rightarrow> string option \<Rightarrow> 'w \<Rightarrow> (string + unit) \<times> 'w"
  en_run_of_action :: "engine_action \<Rightarrow> string option"

definition run_turn :: "'w engine \<Rightarrow> engine_action \<Rightarrow> string \<Rightarrow> 'w \<Rightarrow> (string + unit) \<times> 'w" where
  "run_turn en x token w =
    (if en_controller en then en_resume_turn en token w
     else (Inl (''resume_turn action '' @ quoted (ac_approval x) @ '' has no conversation-turn controller''), w))"

definition execute_action :: "'w engine \<Rightarrow> engine_action \<Rightarrow> 'w \<Rightarrow> (string + unit) \<times> 'w" where
  "execute_action en x w =
    (case ac_kind x of
       ResumeTurn \<Rightarrow>
         (case normalize_string (ac_resume_token x) of
            None \<Rightarrow> (Inl ''resume_turn action missing resume_token'', w)
          | Some token \<Rightarrow>
              (case en_resume_run en of
                 None \<Rightarrow> run_turn en x token w
               | Some resume \<Rightarrow>
                   (case resume token w of
                      (Inl e, w') \<Rightarrow> (Inl e, w')
                    | (Inr (Some _), w') \<Rightarrow> (Inr (), w')
                    | (Inr None, w') \<Rightarrow> run_turn en x token w')))
     | CancelTurn \<Rightarrow>
         (case (normalize_string (en_run_of_action en x), en_resume_run en) of
            (Some run, Some _) \<Rightarrow> en_cancel_run en run (ac_reason x) w
          | _ \<Rightarrow>
              (case normalize_string (ac_turn x) of
                 None \<Rightarrow> (Inl ''cancel_turn action missing turn_id and workflow_run_id'', w)
               | Some turn \<Rightarrow>
                   if en_controller en then en_cancel_turn en turn (ac_reason x) w
                   else (Inl (''cancel_turn action '' @ quoted (ac_approval x) @ '' has no conversation-turn controller''), w))))"

record processor =
  pr_owner :: string
  pr_tenant :: string
  pr_lease_ttl :: nat
  pr_max_attempts :: nat
  pr_batch :: nat

text \<open>\<open>resolvePositiveInt\<close> on the integers.\<close>

definition resolve_positive_int :: "int option \<Rightarrow> nat \<Rightarrow> nat" where
  "resolve_positive_int explicit default_value =
    (case explicit of None \<Rightarrow> default_value | Some n \<Rightarrow> if n > 0 then nat n else default_value)"

definition new_processor ::
  "string \<Rightarrow> string \<Rightarrow> int option \<Rightarrow> int option \<Rightarrow> int option \<Rightarrow> processor" where
  "new_processor owner tenant lease_ttl max_attempts batch =
    \<lparr>pr_owner = owner, pr_tenant = tenant, pr_lease_ttl = resolve_positive_int lease_ttl 30000,
     pr_max_attempts = resolve_positive_int max_attempts 10,
     pr_batch = resolve_positive_int batch 10\<rparr>"

text \<open>What happens with a claimed action: executed, then settled by the outcome.\<close>

definition settle_action ::
  "processor \<Rightarrow> nat \<Rightarrow> engine_action \<Rightarrow> string + unit \<Rightarrow> engine_action list \<Rightarrow> engine_action list" where
  "settle_action p now x outcome acts =
    (case outcome of
       Inr _ \<Rightarrow> snd (mark_succeeded (pr_tenant p) (ac_id x) (pr_owner p) now acts)
     | Inl e \<Rightarrow>
         if pr_max_attempts p \<le> ac_attempts x
         then snd (mark_failed (pr_tenant p) (ac_id x) (pr_owner p) now e acts)
         else snd (requeue_with_error (pr_tenant p) (ac_id x) (pr_owner p) now e acts))"

text \<open>
  \<open>tickOnce\<close>: \<open>clock k\<close> is the \<open>k\<close>-th reading of the clock, two of them per round.
\<close>

fun tick_rounds ::
  "nat \<Rightarrow> nat \<Rightarrow> processor \<Rightarrow> 'w engine \<Rightarrow> (nat \<Rightarrow> nat) \<Rightarrow> engine_action list \<times> 'w \<Rightarrow> engine_action list \<times> 'w" where
  "tick_rounds 0 k p en clock (acts, w) = (acts, w)"
| "tick_rounds (Suc n) k p en clock (acts, w) =
    (case claim_next (pr_tenant p) (pr_owner p) (clock k) (pr_lease_ttl p) (pr_max_attempts p) acts of
       (None, acts') \<Rightarrow> (acts', w)
     | (Some x, acts') \<Rightarrow>
         (case execute_action en x w of (outcome, w') \<Rightarrow>
            tick_rounds n (Suc (Suc k)) p en clock
              (settle_action p (clock (Suc k)) x outcome acts', w')))"

definition tick_once ::
  "processor \<Rightarrow> 'w engine \<Rightarrow> (nat \<Rightarrow> nat) \<Rightarrow> engine_action list \<times> 'w \<Rightarrow> engine_action list \<times> 'w" where
  "tick_once p en clock st = tick_rounds (pr_batch p) 0 p en clock st"

subsection \<open>The table invariant\<close>

definition action_done :: "engine_action \<Rightarrow> bool" where
  "action_done x \<longleftrightarrow> ac_status x = ActionSucceeded \<or> ac_status x = ActionFailed"

definition action_ok :: "nat \<Rightarrow> engine_action \<Rightarrow> bool" where
  "action_ok mx x \<longleftrightarrow> ac_attempts x \<le> mx \<and>
    (ac_status x = ActionProcessing \<longleftrightarrow> ac_lease_owner x \<noteq> None) \<and>
    (ac_lease_owner x = None \<longleftrightarrow> ac_lease_expires x = None) \<and>
    (action_done x \<longleftrightarrow> ac_processed_at x \<noteq> None) \<and>
    (ac_status x \<noteq> ActionQueued \<longrightarrow> 0 < ac_attempts x)"

definition action_row_key :: "engine_action \<Rightarrow> string \<times> string" where
  "action_row_key x = (ac_tenant x, ac_id x)"

definition action_subject :: "engine_action \<Rightarrow> string \<times> string \<times> engine_action_kind" where
  "action_subject x = (ac_tenant x, ac_approval x, ac_kind x)"

definition actions_wf :: "nat \<Rightarrow> engine_action list \<Rightarrow> bool" where
  "actions_wf mx acts \<longleftrightarrow> distinct (map action_row_key acts) \<and> distinct (map action_subject acts) \<and>
    (\<forall>x \<in> set acts. action_ok mx x)"

text \<open>
  A step of the table: any processor, at any time, with any clock; the ids of new actions are
  fresh.
\<close>

inductive action_step :: "nat \<Rightarrow> engine_action list \<Rightarrow> engine_action list \<Rightarrow> bool" for mx where
  act_enqueue: "\<forall>x \<in> set acts. ac_id x \<noteq> new_id \<Longrightarrow>
    action_step mx acts (snd (enqueue_for_resolved_approval new_id now tenant a reason acts))"
| act_claim: "action_step mx acts (snd (claim_next tenant owner now ttl mx acts))"
| act_succeed: "action_step mx acts (snd (mark_succeeded tenant aid owner now acts))"
| act_requeue: "action_step mx acts (snd (requeue_with_error tenant aid owner now e acts))"
| act_fail: "action_step mx acts (snd (mark_failed tenant aid owner now e acts))"

inductive_cases action_stepE: "action_step mx acts acts'"

definition action_evolves :: "engine_action \<Rightarrow> engine_action \<Rightarrow> bool" where
  "action_evolves x x' \<longleftrightarrow> action_row_key x' = action_row_key x \<and> action_subject x' = action_subject x \<and>
    ac_resume_token x' = ac_resume_token x \<and> ac_turn x' = ac_turn x \<and> ac_reason x' = ac_reason x \<and>
    ac_created_at x' = ac_created_at x \<and> ac_attempts x \<le> ac_attempts x' \<and>
    (action_done x \<longrightarrow> x' = x)"

lemmas settled_defs = claimed_def succeeded_def requeued_def failed_def

lemma action_evolves_refl [simp]: "action_evolves x x"
  by (simp add: action_evolves_def)

lemma action_evolves_trans: "action_evolves x y \<Longrightarrow> action_evolves y z \<Longrightarrow> action_evolves x z"
  by (auto simp: action_evolves_def)

lemma actions_refl [simp]: "table_evolves action_evolves acts acts"
  by (rule table_evolves_refl) simp

lemma actions_snoc [simp]: "table_evolves action_evolves acts (acts @ new)"
  by (rule table_evolves_snoc) simp

lemma actions_trans:
  "table_evolves action_evolves x y \<Longrightarrow> table_evolves action_evolves y z \<Longrightarrow> table_evolves action_evolves x z"
  by (rule table_evolves_trans [where R = action_evolves]) (rule action_evolves_trans)

text \<open>Each update keeps the row's invariant and relates it to the old row.\<close>

definition good_update :: "nat \<Rightarrow> (engine_action \<Rightarrow> bool) \<Rightarrow> (engine_action \<Rightarrow> engine_action) \<Rightarrow> bool" where
  "good_update mx P f \<longleftrightarrow>
    (\<forall>x. P x \<longrightarrow> action_evolves x (f x) \<and> (action_ok mx x \<longrightarrow> action_ok mx (f x)))"

lemma good_claim: "good_update mx (\<lambda>x. Q x \<and> claimable tenant mx now x) (claimed owner now ttl)"
  by (auto simp: good_update_def claimable_def settled_defs action_evolves_def action_row_key_def
      action_subject_def action_done_def action_ok_def)

lemma good_settle:
  "good_update mx (leased_by tenant aid owner) (succeeded now)"
  "good_update mx (leased_by tenant aid owner) (requeued e now)"
  "good_update mx (leased_by tenant aid owner) (failed e now)"
  by (auto simp: good_update_def leased_by_def settled_defs action_evolves_def action_row_key_def
      action_subject_def action_done_def action_ok_def first_processed_def split: option.splits)

lemma good_update_wf:
  assumes "good_update mx P f" "actions_wf mx acts"
  shows "actions_wf mx (update_where P f acts)"
proof -
  have "map action_row_key (update_where P f acts) = map action_row_key acts"
    "map action_subject (update_where P f acts) = map action_subject acts"
    by (rule map_update_where, use assms(1) in \<open>simp add: good_update_def action_evolves_def\<close>)+
  then show ?thesis
    using assms by (auto simp: actions_wf_def set_update_where good_update_def)
qed

lemma good_update_evolves:
  "good_update mx P f \<Longrightarrow> table_evolves action_evolves acts (update_where P f acts)"
  by (rule table_evolves_update) (simp_all add: good_update_def)

lemma claim_next_cases:
  assumes "claim_next tenant owner now ttl mx acts = (r, acts')"
  obtains (none) "r = None" "acts' = acts" "\<forall>x \<in> set acts. \<not> claimable tenant mx now x"
  | (some) c where "c \<in> set acts" "claimable tenant mx now c"
      "acts' = update_where (\<lambda>x. has_action_id tenant (ac_id c) x \<and> claimable tenant mx now x)
                 (claimed owner now ttl) acts"
      "r = find (has_action_id tenant (ac_id c)) acts'"
proof (cases "first_row (order_by ac_updated_at ac_id (filter (claimable tenant mx now) acts))")
  case None
  with assms show ?thesis by (auto simp: claim_next_def filter_empty_conv intro: none)
next
  case (Some c)
  with first_row_in [OF Some] assms show ?thesis
    by (auto simp: claim_next_def Let_def intro: some)
qed

lemma enqueue_cases:
  "snd (enqueue_for_resolved_approval new_id now tenant a reason acts) = acts \<or>
   (\<exists>act. resolve_action_from_resolved_approval a reason = Some act \<and>
     get_action_by_approval tenant (ap_id a) (action_kind_of act) acts = None \<and>
     snd (enqueue_for_resolved_approval new_id now tenant a reason acts) =
       acts @ [new_action new_id now tenant (ap_id a) act])"
  by (auto simp: enqueue_for_resolved_approval_def Let_def split: option.splits)

lemma get_action_in:
  "get_action_by_approval tenant approval kind acts = Some x \<Longrightarrow>
    x \<in> set acts \<and> ac_tenant x = tenant \<and> ac_approval x = approval \<and> ac_kind x = kind"
  by (auto simp: get_action_by_approval_def find_Some_iff)

lemma enqueue_subjects:
  assumes "distinct (map action_subject acts)"
  shows "distinct (map action_subject (snd (enqueue_for_resolved_approval new_id now tenant a reason acts)))"
  using enqueue_cases [of new_id now tenant a reason acts]
proof (elim disjE exE conjE)
  fix act
  assume "get_action_by_approval tenant (ap_id a) (action_kind_of act) acts = None"
    and s: "snd (enqueue_for_resolved_approval new_id now tenant a reason acts) =
       acts @ [new_action new_id now tenant (ap_id a) act]"
  then have "action_subject (new_action new_id now tenant (ap_id a) act) \<notin> action_subject ` set acts"
    by (auto simp: get_action_by_approval_def find_None_iff action_subject_def new_action_def)
  then show ?thesis using assms by (simp add: s)
qed (use assms in simp)

lemma enqueue_wf:
  assumes "actions_wf mx acts" "\<forall>x \<in> set acts. ac_id x \<noteq> new_id"
  shows "actions_wf mx (snd (enqueue_for_resolved_approval new_id now tenant a reason acts))"
proof -
  have n: "action_ok mx (new_action new_id now tenant (ap_id a) act)"
    "action_row_key (new_action new_id now tenant (ap_id a) act) \<notin> action_row_key ` set acts" for act
    using assms(2) by (auto simp: action_ok_def action_done_def action_row_key_def new_action_def)
  show ?thesis
    using assms(1) enqueue_subjects [of acts new_id now tenant a reason]
      enqueue_cases [of new_id now tenant a reason acts] n
    by (auto simp: actions_wf_def)
qed

lemma action_step_ok:
  assumes "action_step mx acts acts'" "actions_wf mx acts"
  shows "actions_wf mx acts' \<and> table_evolves action_evolves acts acts'"
  using assms(1)
proof cases
  case (act_enqueue new_id now tenant a reason)
  then show ?thesis
    using enqueue_cases [of new_id now tenant a reason acts] enqueue_wf [OF assms(2), of new_id]
    by auto
next
  case (act_claim tenant owner now ttl)
  obtain r acts'' where c: "claim_next tenant owner now ttl mx acts = (r, acts'')" by fastforce
  then have e: "acts' = acts''" using act_claim by simp
  from c show ?thesis
  proof (cases rule: claim_next_cases)
    case none
    then show ?thesis using assms(2) e by simp
  next
    case (some c)
    show ?thesis unfolding e some(3)
      by (rule conjI [OF good_update_wf [OF good_claim assms(2)] good_update_evolves [OF good_claim]])
  qed
next
  case act_succeed
  then show ?thesis
    by (simp add: mark_succeeded_def good_update_wf [OF good_settle(1) assms(2)]
        good_update_evolves [OF good_settle(1)])
next
  case act_requeue
  then show ?thesis
    by (simp add: requeue_with_error_def good_update_wf [OF good_settle(2) assms(2)]
        good_update_evolves [OF good_settle(2)])
next
  case act_fail
  then show ?thesis
    by (simp add: mark_failed_def good_update_wf [OF good_settle(3) assms(2)]
        good_update_evolves [OF good_settle(3)])
qed

lemma action_steps_ok:
  assumes "(action_step mx)\<^sup>*\<^sup>* acts acts'" "actions_wf mx acts"
  shows "actions_wf mx acts' \<and> table_evolves action_evolves acts acts'"
  using assms
proof (induction rule: rtranclp_induct)
  case base
  then show ?case by simp
next
  case (step y z)
  then show ?case
    using action_step_ok [OF step.hyps(2)] actions_trans by blast
qed

text \<open>
  C20. The life of engine actions: whatever processors do in whatever order, there is never a
  second action for the same approval and kind, attempts never exceed the maximum, an action is
  leased exactly while it is processing, a settled action never changes again, no action
  disappears, and its target is fixed when it is queued.
\<close>

theorem action_history:
  assumes "(action_step mx)\<^sup>*\<^sup>* acts acts'" "actions_wf mx acts"
  shows "actions_wf mx acts' \<and> table_evolves action_evolves acts acts'"
  by (rule action_steps_ok [OF assms])

definition demo_approval :: approval where
  "demo_approval = (hd (ad_approvals demo_approvals))\<lparr>ap_status := Approved\<rparr>"

definition demo_actions :: "engine_action list" where
  "demo_actions = snd (enqueue_for_resolved_approval ''x'' 3 ''t'' demo_approval None [])"

lemma demo_actions_wf: "actions_wf 2 demo_actions"
  unfolding demo_actions_def by (rule enqueue_wf) (simp_all add: actions_wf_def)

lemma action_history_witness:
  "table_evolves action_evolves demo_actions (snd (claim_next ''t'' ''p'' 5 9 2 demo_actions)) \<and>
   actions_wf 2 (snd (claim_next ''t'' ''p'' 5 9 2 demo_actions))"
  using action_history [OF r_into_rtranclp [where r = "action_step 2", OF act_claim] demo_actions_wf]
  by simp

subsection \<open>Leases\<close>

lemma claimed_row:
  assumes "actions_wf mx acts" "claim_next tenant owner now ttl mx acts = (Some x, acts')"
  obtains c where "c \<in> set acts" "claimable tenant mx now c" "x = claimed owner now ttl c"
    "acts' = update_where (\<lambda>y. y = c) (claimed owner now ttl) acts" "x \<in> set acts'"
  using assms(2)
proof (cases rule: claim_next_cases)
  case (some c)
  have t: "ac_tenant c = tenant" using some(2) by (simp add: claimable_def)
  have "has_action_id tenant (ac_id c) y \<and> claimable tenant mx now y \<longleftrightarrow> y = c" if "y \<in> set acts" for y
    using distinct_keys_eq [of action_row_key acts y c] assms(1) that some(1,2) t
    by (auto simp: actions_wf_def action_row_key_def has_action_id_def)
  then have e: "acts' = update_where (\<lambda>y. y = c) (claimed owner now ttl) acts"
    unfolding some(3) by (simp add: update_where_def)
  from some(4) have "x \<in> set acts'" and h: "has_action_id tenant (ac_id c) x"
    using find_in [OF some(4) [symmetric]] by simp_all
  then obtain y where y: "y \<in> set acts" "x = (if y = c then claimed owner now ttl y else y)"
    by (auto simp: e set_update_where)
  then have "action_row_key y = action_row_key c"
    using h t by (auto simp: action_row_key_def has_action_id_def claimed_def split: if_splits)
  then have "y = c" using distinct_keys_eq [of action_row_key acts y c] assms(1) y some(1)
    by (simp add: actions_wf_def)
  with y \<open>x \<in> set acts'\<close> some e show ?thesis by (auto intro: that)
qed simp

text \<open>
  Steps by others: settling steps are not the holder's own steps on this action, and claims (by
  anybody, the holder included) are before the limit, if there is one.
\<close>

inductive foreign_step ::
  "nat \<Rightarrow> nat option \<Rightarrow> engine_action \<Rightarrow> engine_action list \<Rightarrow> engine_action list \<Rightarrow> bool"
  for mx limit x where
  f_enqueue: "foreign_step mx limit x acts (snd (enqueue_for_resolved_approval new_id now tenant a reason acts))"
| f_claim: "(\<And>t. limit = Some t \<Longrightarrow> now < t) \<Longrightarrow>
    foreign_step mx limit x acts (snd (claim_next tenant owner now ttl mx acts))"
| f_succeed: "\<not> leased_by tenant aid owner x \<Longrightarrow>
    foreign_step mx limit x acts (snd (mark_succeeded tenant aid owner now acts))"
| f_requeue: "\<not> leased_by tenant aid owner x \<Longrightarrow>
    foreign_step mx limit x acts (snd (requeue_with_error tenant aid owner now e acts))"
| f_fail: "\<not> leased_by tenant aid owner x \<Longrightarrow>
    foreign_step mx limit x acts (snd (mark_failed tenant aid owner now e acts))"

definition held :: "nat \<Rightarrow> nat option \<Rightarrow> engine_action \<Rightarrow> bool" where
  "held mx limit x \<longleftrightarrow> ac_status x = ActionProcessing \<and>
    (case limit of None \<Rightarrow> mx \<le> ac_attempts x | Some t \<Rightarrow> ac_lease_expires x = Some t)"

lemma untouched: "x \<in> set acts \<Longrightarrow> \<not> P x \<Longrightarrow> x \<in> set (update_where P f acts)"
  by (force simp: set_update_where)

lemma foreign_step_keeps:
  assumes "foreign_step mx limit x acts acts'" "x \<in> set acts" "held mx limit x"
  shows "x \<in> set acts'"
  using assms(1)
proof cases
  case (f_enqueue new_id now tenant a reason)
  then show ?thesis using enqueue_cases [of new_id now tenant a reason acts] assms(2) by auto
next
  case (f_claim now tenant owner ttl)
  have n: "\<not> claimable tenant mx now x"
    using f_claim(2) assms(3) by (auto simp: claimable_def held_def split: option.splits)
  obtain r acts'' where c: "claim_next tenant owner now ttl mx acts = (r, acts'')" by fastforce
  then have "acts' = acts''" using f_claim by simp
  with c assms(2) n show ?thesis by (cases rule: claim_next_cases) (auto intro: untouched)
qed (use assms(2) untouched in \<open>simp_all add: mark_succeeded_def requeue_with_error_def mark_failed_def\<close>)

lemma foreign_steps_keep:
  "(foreign_step mx limit x)\<^sup>*\<^sup>* acts acts' \<Longrightarrow> x \<in> set acts \<Longrightarrow> held mx limit x \<Longrightarrow> x \<in> set acts'"
  by (induction rule: rtranclp_induct) (auto intro: foreign_step_keeps)

text \<open>
  A lease protects its holder: from a claim until its deadline, nothing that other processors
  do, nor any claim, touches the claimed action, so the holder's settling update applies.
\<close>

theorem lease_protects:
  assumes "actions_wf mx acts" "claim_next tenant owner now ttl mx acts = (Some x, acts1)"
    and "(foreign_step mx (Some (now + max 1 ttl)) x)\<^sup>*\<^sup>* acts1 acts2"
  shows "x \<in> set acts2 \<and> fst (mark_succeeded tenant (ac_id x) owner later acts2)"
proof -
  from assms(1,2) obtain c where c: "claimable tenant mx now c" "x = claimed owner now ttl c" "x \<in> set acts1"
    by (rule claimed_row)
  have "x \<in> set acts2"
    by (rule foreign_steps_keep [OF assms(3) c(3)]) (simp add: held_def c(2) claimed_def)
  moreover have "leased_by tenant (ac_id x) owner x"
    using c(1) by (auto simp: leased_by_def has_action_id_def c(2) claimed_def claimable_def)
  ultimately show ?thesis by (auto simp: mark_succeeded_def matches_iff)
qed

definition demo_claimed :: engine_action where
  "demo_claimed = claimed ''p'' 5 9 (hd demo_actions)"

lemma demo_claim: "claim_next ''t'' ''p'' 5 9 1 demo_actions = (Some demo_claimed, [demo_claimed])"
  by code_simp

lemma demo_foreign:
  "foreign_step 1 (Some 14) demo_claimed [demo_claimed] (snd (claim_next ''t'' ''q'' 8 9 1 [demo_claimed]))"
  "foreign_step 1 None demo_claimed [demo_claimed] (snd (claim_next ''t'' ''q'' 80 9 1 [demo_claimed]))"
  by (rule f_claim, simp)+

lemma lease_protects_witness:
  "demo_claimed \<in> set (snd (claim_next ''t'' ''q'' 8 9 1 [demo_claimed]))"
proof -
  have wf: "actions_wf 1 demo_actions"
    unfolding demo_actions_def by (rule enqueue_wf) (simp_all add: actions_wf_def)
  have "(foreign_step 1 (Some (5 + max 1 9)) demo_claimed)\<^sup>*\<^sup>* [demo_claimed]
      (snd (claim_next ''t'' ''q'' 8 9 1 [demo_claimed]))"
    using demo_foreign(1) by (auto intro: r_into_rtranclp)
  from lease_protects [OF wf demo_claim this] show ?thesis by (rule conjunct1)
qed

text \<open>
  An action whose last attempt never settles is stuck: once the attempts are used up, no
  claim at any time takes it again, and no other processor can settle it, so it stays in
  processing for ever after its holder has died.
\<close>

theorem exhausted_action_stuck:
  assumes "(foreign_step mx None x)\<^sup>*\<^sup>* acts acts'" "x \<in> set acts"
    and "ac_status x = ActionProcessing" "mx \<le> ac_attempts x"
  shows "x \<in> set acts' \<and> \<not> claimable tenant mx now x"
  using foreign_steps_keep [OF assms(1,2)] assms(3,4) by (simp add: held_def claimable_def)

lemma exhausted_action_stuck_witness:
  "demo_claimed \<in> set (snd (claim_next ''t'' ''q'' 80 9 1 [demo_claimed]))"
proof -
  have "ac_status demo_claimed = ActionProcessing" "1 \<le> ac_attempts demo_claimed"
    by (simp_all add: demo_claimed_def claimed_def)
  from exhausted_action_stuck [OF r_into_rtranclp [where r = "foreign_step 1 None demo_claimed",
      OF demo_foreign(2)] _ this]
  show ?thesis by simp
qed

subsection \<open>One tick\<close>

definition held_by :: "processor \<Rightarrow> engine_action \<Rightarrow> bool" where
  "held_by p y \<longleftrightarrow> ac_tenant y = pr_tenant p \<and> ac_status y = ActionProcessing \<and>
    ac_lease_owner y = Some (pr_owner p)"

lemma settle_step: "action_step mx acts (settle_action p now x outcome acts)"
  by (cases outcome) (simp_all add: settle_action_def action_step.intros)

lemma settle_held:
  "y \<in> set (settle_action p now x outcome acts) \<Longrightarrow> held_by p y \<Longrightarrow>
    y \<in> set acts \<and> \<not> leased_by (pr_tenant p) (ac_id x) (pr_owner p) y"
  by (auto simp: settle_action_def mark_succeeded_def mark_failed_def requeue_with_error_def
      set_update_where settled_defs held_by_def split: sum.splits if_splits)

lemma claim_next_None:
  assumes "claim_next tenant owner now ttl mx acts = (None, acts')"
  shows "acts' = acts"
  using assms
proof (cases rule: claim_next_cases)
  case (some c)
  have h: "has_action_id tenant (ac_id c) c" using some(2) by (simp add: claimable_def has_action_id_def)
  then have "has_action_id tenant (ac_id c) (claimed owner now ttl c)"
    by (simp add: has_action_id_def claimed_def)
  moreover have "claimed owner now ttl c \<in> set acts'"
    using some(1,2) h by (force simp: some(3) set_update_where)
  ultimately show ?thesis using some(4) by (metis find_None_iff)
qed simp

lemma tick_rounds_settles:
  assumes "actions_wf (pr_max_attempts p) acts" "tick_rounds n k p en clock (acts, w) = (acts', w')"
  shows "(action_step (pr_max_attempts p))\<^sup>*\<^sup>* acts acts' \<and> (\<forall>y \<in> set acts'. held_by p y \<longrightarrow> y \<in> set acts)"
  using assms
proof (induction n arbitrary: k acts w)
  case 0
  then show ?case by simp
next
  case (Suc n)
  let ?mx = "pr_max_attempts p"
  obtain r a1 where c: "claim_next (pr_tenant p) (pr_owner p) (clock k) (pr_lease_ttl p) ?mx acts = (r, a1)"
    by fastforce
  have s1: "action_step ?mx acts a1"
    using act_claim [of ?mx acts "pr_tenant p" "pr_owner p" "clock k" "pr_lease_ttl p"] c by simp
  show ?case
  proof (cases r)
    case None
    with c have "a1 = acts" by (simp add: claim_next_None)
    with Suc.prems(2) c None show ?thesis by simp
  next
    case (Some x)
    obtain outcome w1 where e: "execute_action en x w = (outcome, w1)" by fastforce
    let ?a2 = "settle_action p (clock (Suc k)) x outcome a1"
    have s2: "action_step ?mx a1 ?a2" by (rule settle_step)
    from Suc.prems(1) c [unfolded Some] obtain c0 where c0: "claimable (pr_tenant p) ?mx (clock k) c0"
      "x = claimed (pr_owner p) (clock k) (pr_lease_ttl p) c0"
      "a1 = update_where (\<lambda>y. y = c0) (claimed (pr_owner p) (clock k) (pr_lease_ttl p)) acts"
      by (rule claimed_row)
    have lx: "leased_by (pr_tenant p) (ac_id x) (pr_owner p) x"
      using c0(1) by (auto simp: c0(2) leased_by_def has_action_id_def claimed_def claimable_def)
    have earlier: "y \<in> set acts" if "y \<in> set ?a2" "held_by p y" for y
      using settle_held [OF that] lx by (auto simp: c0(2,3) set_update_where split: if_splits)
    have "actions_wf ?mx ?a2"
      using action_step_ok [OF s2] action_step_ok [OF s1 Suc.prems(1)] by blast
    moreover have "tick_rounds n (Suc (Suc k)) p en clock (?a2, w1) = (acts', w')"
      using Suc.prems(2) by (simp add: c Some e)
    ultimately have "(action_step ?mx)\<^sup>*\<^sup>* ?a2 acts'" "\<forall>y \<in> set acts'. held_by p y \<longrightarrow> y \<in> set ?a2"
      using Suc.IH by blast+
    then show ?thesis
      using earlier s1 s2 by (meson converse_rtranclp_into_rtranclp)
  qed
qed

text \<open>
  A tick settles everything it claims: whatever the executed calls answer, when the tick is
  over no action claimed by it is still leased to this processor (a leased one was left over
  from before, untouched), and the table went through regular steps only.
\<close>

theorem tick_settles:
  assumes "actions_wf (pr_max_attempts p) acts" "tick_once p en clock (acts, w) = (acts', w')"
  shows "(action_step (pr_max_attempts p))\<^sup>*\<^sup>* acts acts' \<and> (\<forall>y \<in> set acts'. held_by p y \<longrightarrow> y \<in> set acts)"
  by (rule tick_rounds_settles [OF assms(1)]) (use assms(2) in \<open>simp add: tick_once_def\<close>)

definition demo_engine :: "unit engine" where
  "demo_engine = \<lparr>en_resume_run = None, en_cancel_run = (\<lambda>_ _ w. (Inr (), w)), en_controller = True,
    en_resume_turn = (\<lambda>_ w. (Inr (), w)), en_cancel_turn = (\<lambda>_ _ w. (Inr (), w)),
    en_run_of_action = (\<lambda>_. None)\<rparr>"

lemma tick_settles_witness:
  "let p = \<lparr>pr_owner = ''p'', pr_tenant = ''t'', pr_lease_ttl = 9, pr_max_attempts = 2, pr_batch = 3\<rparr>;
       acts' = fst (tick_once p demo_engine (\<lambda>k. 5 + k) (demo_actions, ()))
   in (\<forall>y \<in> set acts'. held_by p y \<longrightarrow> y \<in> set demo_actions) \<and> map ac_status acts' = [ActionSucceeded]"
proof -
  let ?p = "\<lparr>pr_owner = ''p'', pr_tenant = ''t'', pr_lease_ttl = 9, pr_max_attempts = 2, pr_batch = 3\<rparr>"
  obtain acts' w' where t: "tick_once ?p demo_engine (\<lambda>k. 5 + k) (demo_actions, ()) = (acts', w')"
    by (rule prod.exhaust)
  have wf: "actions_wf (pr_max_attempts ?p) demo_actions"
    using demo_actions_wf by simp
  have "map ac_status (fst (tick_once ?p demo_engine (\<lambda>k. 5 + k) (demo_actions, ()))) = [ActionSucceeded]"
    by code_simp
  with tick_settles [OF wf t] show ?thesis by (simp add: Let_def t)
qed

subsection \<open>Resolving once\<close>

lemma transitioned_moved:
  assumes "approvals_wf db" "transition_with_review rid now i db = (Inr (Some (a, True)), db')"
  shows "\<exists>a0. get_approval (ti_tenant i) (ti_id i) db = Some a0 \<and> transition_guard i (ap_status a0) \<and>
    a = moved i rid a0 \<and> get_approval (ti_tenant i) (ti_id i) db' = Some a"
proof -
  from assms(2) obtain a0 where a0: "get_approval (ti_tenant i) (ti_id i) db = Some a0"
    "transition_guard i (ap_status a0)"
    "transition_commit rid now i (ap_status a0) db = (Inr (a, True), db')"
    by (auto simp: transition_with_review_def split: option.splits if_splits prod.splits sum.splits)
  then have ne: "trim (ti_tenant i) \<noteq> []" "trim (ti_id i) \<noteq> []"
    by (auto simp: transition_commit_def Let_def transition_review_def split: if_splits)
  then have "ti_id i \<noteq> []" "ti_tenant i \<noteq> []" by auto
  from commit_wins [OF assms(1) a0(1) refl this, of rid now] a0(3)
  have "a = moved i rid a0" "db' = committed rid now i (ap_status a0) db" by simp_all
  then show ?thesis
    using a0 by (auto simp: transition_commit_def Let_def split: if_splits option.splits)
qed

lemma transitioned_result:
  assumes "approvals_wf db" "transition_with_review rid now i db = (Inr (Some (a, True)), db')"
  shows "ap_status a = ti_status i \<and> get_approval (ti_tenant i) (ti_id i) db' = Some a"
  using transitioned_moved [OF assms] by (auto simp: moved_def)

lemma not_transitioned:
  assumes "transition_with_review rid now i db = (Inr (Some (a, False)), db')"
  shows "db' = db \<and> get_approval (ti_tenant i) (ti_id i) db = Some a"
  using assms
  by (auto simp: transition_with_review_def transition_commit_def Let_def
      split: option.splits if_splits prod.splits sum.splits)

text \<open>Seen alone, a transition that did not happen was not allowed.\<close>

lemma not_transitioned_guard:
  assumes "transition_with_review rid now i db = (Inr (Some (a, False)), db')"
  shows "\<not> transition_guard i (ap_status a)"
proof
  assume g: "transition_guard i (ap_status a)"
  note a = not_transitioned [OF assms]
  then have "moves i (ap_status a) a" "a \<in> set (ad_approvals db)"
    using get_approval_Some [of "ti_tenant i" "ti_id i" db a] by (auto simp: moves_def)
  then have "\<exists>x \<in> set (ad_approvals db). moves i (ap_status a) x" by blast
  then show False using assms a g
    by (auto simp: transition_with_review_def transition_commit_def Let_def split: if_splits option.splits)
qed

text \<open>
  Everything that happens to the tables: approvals are created, moved by any transition and swept,
  processors claim and settle actions with any clock and any settings, and decisions are resolved
  by way of either entry.
\<close>

inductive store_step :: "approval_store \<Rightarrow> approval_store \<Rightarrow> bool" where
  st_approvals: "approval_step (as_db st) db' \<Longrightarrow> store_step st (st\<lparr>as_db := db'\<rparr>)"
| st_claim: "store_step st (st\<lparr>as_actions := snd (claim_next tenant owner now ttl mx (as_actions st))\<rparr>)"
| st_succeed: "store_step st (st\<lparr>as_actions := snd (mark_succeeded tenant aid owner now (as_actions st))\<rparr>)"
| st_requeue: "store_step st (st\<lparr>as_actions := snd (requeue_with_error tenant aid owner now e (as_actions st))\<rparr>)"
| st_fail: "store_step st (st\<lparr>as_actions := snd (mark_failed tenant aid owner now e (as_actions st))\<rparr>)"
| st_resolve: "store_step st (snd (resolve_with_engine_action rid aid now r st))"
| st_respond: "store_step st (snd (respond rid aid now r st))"

definition empty_store :: approval_store where
  "empty_store = \<lparr>as_db = \<lparr>ad_approvals = [], ad_reviews = []\<rparr>, as_actions = []\<rparr>"

text \<open>An action exists only for an approval that is decided.\<close>

definition decided :: "string \<Rightarrow> string \<Rightarrow> approvals_db \<Rightarrow> bool" where
  "decided t i db \<longleftrightarrow> (case get_approval t i db of None \<Rightarrow> False | Some a \<Rightarrow> is_approval_terminal_status (ap_status a))"

definition store_ok :: "approval_store \<Rightarrow> bool" where
  "store_ok st \<longleftrightarrow> approvals_wf (as_db st) \<and>
    (\<forall>x \<in> set (as_actions st). decided (ac_tenant x) (ac_approval x) (as_db st))"

text \<open>The continuations queued for an approval, with what they resume or cancel.\<close>

definition continuations ::
  "string \<Rightarrow> string \<Rightarrow> engine_action list \<Rightarrow> (engine_action_kind \<times> string option \<times> string option \<times> string option) list" where
  "continuations t i acts = map (\<lambda>x. (ac_kind x, ac_resume_token x, ac_turn x, ac_reason x))
    (filter (\<lambda>x. ac_tenant x = t \<and> ac_approval x = i) acts)"

lemma continuations_update:
  assumes "good_update mx P f"
  shows "continuations t i (update_where P f acts) = continuations t i acts"
proof -
  have "action_evolves x (f x)" if "P x" for x using assms that by (simp add: good_update_def)
  then show ?thesis
    by (induction acts) (auto simp: continuations_def update_where_def action_evolves_def action_subject_def)
qed

lemma subjects_update:
  assumes "good_update mx P f" "y \<in> set (update_where P f acts)"
  shows "\<exists>x \<in> set acts. ac_tenant y = ac_tenant x \<and> ac_approval y = ac_approval x"
  using assms by (auto simp: good_update_def set_update_where action_evolves_def action_subject_def)

lemma claim_updates:
  "\<exists>P f mx'. good_update mx' P f \<and> snd (claim_next tenant owner now ttl mx acts) = update_where P f acts"
proof -
  obtain r acts' where c: "claim_next tenant owner now ttl mx acts = (r, acts')" by fastforce
  then show ?thesis
  proof (cases rule: claim_next_cases)
    case none
    have "good_update mx (\<lambda>_. False) id" "acts = update_where (\<lambda>_. False) id acts"
      by (simp_all add: good_update_def update_where_def)
    with none c show ?thesis by (metis snd_conv)
  next
    case (some k)
    with c good_claim show ?thesis by (metis (no_types) snd_conv)
  qed
qed

lemma approval_step_keeps:
  assumes "approval_step db db'" "approvals_wf db" "get_approval t i db = Some a" "is_approval_terminal_status (ap_status a)"
  shows "get_approval t i db' = Some a"
proof -
  note a = get_approval_Some [OF assms(3)]
  then obtain k where "k < length (ad_approvals db)" "ad_approvals db ! k = a" by (meson in_set_conv_nth)
  with approval_step_evolves [OF assms(1)] assms(4) have "a \<in> set (ad_approvals db')"
    by (auto simp: approvals_evolve_def approval_row_evolves_def in_set_conv_nth)
  from wf_get [OF approval_step_wf [OF assms(1,2)] this] a show ?thesis by simp
qed

lemma approval_step_decided: "approval_step db db' \<Longrightarrow> approvals_wf db \<Longrightarrow> decided t i db \<Longrightarrow> decided t i db'"
  using approval_step_keeps [of db db' t i] by (auto simp: decided_def split: option.splits)

lemma transition_step:
  assumes "transition_with_review rid now i db = (Inr (Some (a, True)), db')"
  shows "approval_step db db'"
proof -
  from assms obtain seen where "transition_guard i seen" "transition_commit rid now i seen db = (Inr (a, True), db')"
    by (auto simp: transition_with_review_def split: option.splits if_splits prod.splits sum.splits)
  then show ?thesis using step_commit [of i seen db rid now] by simp
qed

text \<open>What a resolution does to the store.\<close>

lemma resolve_moved:
  assumes "approvals_wf (as_db st)" "resolve_with_engine_action rid aid now r st = (Inr (Some (a, True)), st')"
  obtains db' where "st' = \<lparr>as_db = db', as_actions =
        snd (enqueue_for_resolved_approval aid now (ri_tenant r) a (ri_reason r) (as_actions st))\<rparr>"
      "approval_step (as_db st) db'" "\<not> decided (ri_tenant r) (ri_id r) (as_db st)"
      "get_approval (ri_tenant r) (ri_id r) db' = Some a" "is_approval_terminal_status (ap_status a)" "ap_id a = ri_id r"
      "ap_status a = (if ri_decision r = DecideApproved then Approved else Denied)"
proof -
  from assms(2) obtain db' where t: "transition_with_review rid now (resolve_transition r) (as_db st) =
      (Inr (Some (a, True)), db')"
    and st': "st' = \<lparr>as_db = db', as_actions =
      snd (enqueue_for_resolved_approval aid now (ri_tenant r) a (ri_reason r) (as_actions st))\<rparr>"
    by (auto simp: resolve_with_engine_action_def split: prod.splits sum.splits option.splits if_splits)
  have k: "ti_tenant (resolve_transition r) = ri_tenant r" "ti_id (resolve_transition r) = ri_id r"
    "ti_status (resolve_transition r) = (if ri_decision r = DecideApproved then Approved else Denied)"
    by (simp_all add: resolve_transition_def)
  from transitioned_result [OF assms(1) t] have g: "get_approval (ri_tenant r) (ri_id r) db' = Some a"
    and s: "ap_status a = (if ri_decision r = DecideApproved then Approved else Denied)"
    by (simp_all add: k)
  have "\<not> decided (ri_tenant r) (ri_id r) (as_db st)"
    using transitioned_moved [OF assms(1) t] by (auto simp: k decided_def transition_guard_def)
  with st' transition_step [OF t] g s get_approval_Some [OF g] show ?thesis
    by (intro that) (auto simp: is_approval_terminal_status_def)
qed

lemma resolve_unmoved:
  assumes "\<nexists>a st'. resolve_with_engine_action rid aid now r st = (Inr (Some (a, True)), st')"
  shows "snd (resolve_with_engine_action rid aid now r st) = st"
proof -
  obtain out db' where t: "transition_with_review rid now (resolve_transition r) (as_db st) = (out, db')" by fastforce
  with assms not_transitioned [of rid now "resolve_transition r" "as_db st"] show ?thesis
    by (auto simp: resolve_with_engine_action_def split: sum.splits option.splits)
qed

lemma no_continuation:
  assumes "store_ok st" "\<not> decided t i (as_db st)"
  shows "continuations t i (as_actions st) = []" "x \<in> set (as_actions st) \<Longrightarrow> ac_tenant x = t \<Longrightarrow> ac_approval x \<noteq> i"
  using assms by (auto simp: store_ok_def continuations_def filter_empty_conv)

lemma resolve_continuations:
  assumes "store_ok st" "\<not> decided t (ap_id a) (as_db st)"
  shows "snd (enqueue_for_resolved_approval aid now t a reason (as_actions st)) = as_actions st @
    (case resolve_action_from_resolved_approval a reason of None \<Rightarrow> [] | Some act \<Rightarrow> [new_action aid now t (ap_id a) act])"
  using no_continuation(2) [OF assms]
  by (auto simp: enqueue_for_resolved_approval_def Let_def dest: get_action_in split: option.splits)

definition keeps_decided :: "string \<Rightarrow> string \<Rightarrow> approval_store \<Rightarrow> approval_store \<Rightarrow> bool" where
  "keeps_decided t i st st' \<longleftrightarrow>
    (\<forall>a. get_approval t i (as_db st) = Some a \<longrightarrow> is_approval_terminal_status (ap_status a) \<longrightarrow>
      get_approval t i (as_db st') = Some a \<and> continuations t i (as_actions st') = continuations t i (as_actions st))"

lemma actions_updated_ok:
  assumes "store_ok st" "good_update mx P f"
  shows "store_ok (st\<lparr>as_actions := update_where P f (as_actions st)\<rparr>) \<and>
    keeps_decided t i st (st\<lparr>as_actions := update_where P f (as_actions st)\<rparr>)"
  using assms(1) subjects_update [OF assms(2)]
  by (auto simp: store_ok_def keeps_decided_def continuations_update [OF assms(2)]) metis

lemma resolve_step_ok:
  assumes "store_ok st"
  shows "store_ok (snd (resolve_with_engine_action rid aid now r st)) \<and>
    keeps_decided t i st (snd (resolve_with_engine_action rid aid now r st))"
proof (cases "\<exists>a st'. resolve_with_engine_action rid aid now r st = (Inr (Some (a, True)), st')")
  case False
  with assms resolve_unmoved [OF False] show ?thesis by (simp add: keeps_decided_def)
next
  case True
  then obtain a st' where r: "resolve_with_engine_action rid aid now r st = (Inr (Some (a, True)), st')" by blast
  have wf: "approvals_wf (as_db st)" using assms by (simp add: store_ok_def)
  obtain db' where st': "st' = \<lparr>as_db = db', as_actions =
        snd (enqueue_for_resolved_approval aid now (ri_tenant r) a (ri_reason r) (as_actions st))\<rparr>"
    and m: "approval_step (as_db st) db'" "\<not> decided (ri_tenant r) (ri_id r) (as_db st)"
      "get_approval (ri_tenant r) (ri_id r) db' = Some a" "is_approval_terminal_status (ap_status a)" "ap_id a = ri_id r"
    by (rule resolve_moved [OF wf r])
  have nd: "\<not> decided (ri_tenant r) (ap_id a) (as_db st)" using m(2,5) by simp
  have "decided (ri_tenant r) (ri_id r) db'" using m(3,4) by (simp add: decided_def)
  then have "store_ok st'"
    using assms approval_step_wf [OF m(1) wf] approval_step_decided [OF m(1) wf] m(5)
    by (auto simp: st' resolve_continuations [OF assms nd] store_ok_def new_action_def split: option.splits)
  moreover have "keeps_decided t i st st'"
    using approval_step_keeps [OF m(1) wf] m(2,5)
    by (auto simp: st' resolve_continuations [OF assms nd] keeps_decided_def continuations_def new_action_def
        decided_def split: option.splits)
  ultimately show ?thesis by (simp add: r)
qed

lemma respond_resolves: "\<exists>r'. snd (respond rid aid now r st) = snd (resolve_with_engine_action rid aid now r' st)"
proof -
  let ?r = "r\<lparr>ri_allowed := Some [Queued, AwaitingHuman], ri_resolved_by := None, ri_payload := None\<rparr>"
  have "snd (respond rid aid now r st) = snd (resolve_with_engine_action rid aid now ?r st)"
    by (simp add: respond_def split: prod.splits sum.splits option.splits)
  then show ?thesis by blast
qed

lemma store_step_ok:
  assumes "store_step st st'" "store_ok st"
  shows "store_ok st' \<and> keeps_decided t i st st'"
  using assms(1)
proof cases
  case (st_approvals db')
  with assms(2) approval_step_wf approval_step_decided approval_step_keeps show ?thesis
    by (auto simp: store_ok_def keeps_decided_def)
next
  case (st_claim tenant owner now ttl mx)
  with claim_updates [of tenant owner now ttl mx "as_actions st"] actions_updated_ok [OF assms(2)] show ?thesis by metis
next
  case st_respond
  with respond_resolves resolve_step_ok [OF assms(2)] show ?thesis by metis
qed (simp_all add: mark_succeeded_def requeue_with_error_def mark_failed_def actions_updated_ok [OF assms(2) good_settle(1)]
    actions_updated_ok [OF assms(2) good_settle(2)] actions_updated_ok [OF assms(2) good_settle(3)] resolve_step_ok [OF assms(2)])

lemma store_steps_ok:
  "store_step\<^sup>*\<^sup>* st st' \<Longrightarrow> store_ok st \<Longrightarrow> store_ok st' \<and> keeps_decided t i st st'"
proof (induction rule: rtranclp_induct)
  case base
  then show ?case by (simp add: keeps_decided_def)
next
  case (step y z)
  with store_step_ok [OF step.hyps(2)] show ?case by (auto simp: keeps_decided_def)
qed

lemma empty_store_ok: "store_ok empty_store"
  using approvals_wf_empty by (simp add: store_ok_def empty_store_def)

text \<open>
  C21. An approval is resolved once. In any history of the tables from the start, when a decision
  transitions an approval then it is decided as asked, and whatever happens later (transitions,
  sweeps, processors, further decisions by anybody), the approval stays as it was decided, the
  continuations queued for it are the one the decision called for, or none when it called for
  none, and another decision reports the first outcome and changes nothing.
\<close>

theorem resolved_once:
  assumes "store_step\<^sup>*\<^sup>* empty_store st"
    and "resolve_with_engine_action rid aid now r st = (Inr (Some (a, True)), st1)"
    and "store_step\<^sup>*\<^sup>* st1 st2" "ri_tenant r2 = ri_tenant r" "ri_id r2 = ri_id r"
  shows "ap_status a = (if ri_decision r = DecideApproved then Approved else Denied) \<and>
    get_approval (ri_tenant r) (ri_id r) (as_db st2) = Some a \<and>
    continuations (ri_tenant r) (ri_id r) (as_actions st2) =
      (case resolve_action_from_resolved_approval a (ri_reason r) of
         None \<Rightarrow> []
       | Some (Resume token) \<Rightarrow> [(ResumeTurn, Some token, None, None)]
       | Some (Cancel turn reason) \<Rightarrow> [(CancelTurn, None, turn, Some reason)]) \<and>
    resolve_with_engine_action rid2 aid2 now2 r2 st2 = (Inr (Some (a, False)), st2)"
proof -
  have ok: "store_ok st" using store_steps_ok [OF assms(1) empty_store_ok] by blast
  then have wf: "approvals_wf (as_db st)" by (simp add: store_ok_def)
  obtain db' where st1: "st1 = \<lparr>as_db = db', as_actions =
        snd (enqueue_for_resolved_approval aid now (ri_tenant r) a (ri_reason r) (as_actions st))\<rparr>"
    and m: "\<not> decided (ri_tenant r) (ri_id r) (as_db st)" "get_approval (ri_tenant r) (ri_id r) db' = Some a"
      "is_approval_terminal_status (ap_status a)" "ap_id a = ri_id r"
      "ap_status a = (if ri_decision r = DecideApproved then Approved else Denied)"
    by (rule resolve_moved [OF wf assms(2)])
  have nd: "\<not> decided (ri_tenant r) (ap_id a) (as_db st)" using m(1,4) by simp
  have "store_ok st1" using resolve_step_ok [OF ok, of rid aid now r] assms(2) by simp
  from store_steps_ok [OF assms(3) this, of "ri_tenant r" "ri_id r"] m(2,3)
  have g: "get_approval (ri_tenant r) (ri_id r) (as_db st2) = Some a"
    and c: "continuations (ri_tenant r) (ri_id r) (as_actions st2) = continuations (ri_tenant r) (ri_id r) (as_actions st1)"
    by (simp_all add: keeps_decided_def st1)
  have "continuations (ri_tenant r) (ri_id r) (as_actions st) = []"
    using no_continuation(1) [OF ok m(1)] .
  then have "continuations (ri_tenant r) (ri_id r) (as_actions st1) =
      (case resolve_action_from_resolved_approval a (ri_reason r) of None \<Rightarrow> []
       | Some (Resume token) \<Rightarrow> [(ResumeTurn, Some token, None, None)]
       | Some (Cancel turn reason) \<Rightarrow> [(CancelTurn, None, turn, Some reason)])"
    by (auto simp: st1 resolve_continuations [OF ok nd] continuations_def new_action_def m(4)
        split: option.splits resolved_action.splits)
  moreover have "resolve_with_engine_action rid2 aid2 now2 r2 st2 = (Inr (Some (a, False)), st2)"
    using g m(3) assms(4,5) by (simp add: resolve_with_engine_action_def transition_with_review_def
        transition_guard_def resolve_transition_def)
  ultimately show ?thesis using g c m(5) by simp
qed

definition demo_resolution :: resolve_input where
  "demo_resolution = \<lparr>ri_tenant = ''t'', ri_id = ''i'', ri_decision = DecideApproved, ri_reason = None,
    ri_reviewer = None, ri_reviewer_id = None, ri_allowed = None, ri_resolved_by = None, ri_payload = None\<rparr>"

definition demo_store :: approval_store where
  "demo_store = empty_store\<lparr>as_db := demo_approvals\<rparr>"

lemma demo_store_reached: "store_step\<^sup>*\<^sup>* empty_store demo_store"
proof -
  have "approval_step (as_db empty_store) demo_approvals"
    unfolding demo_approvals_def empty_store_def approval_store.simps by (rule step_create) (simp_all, code_simp)
  then show ?thesis unfolding demo_store_def using st_approvals [of empty_store demo_approvals] by (simp add: r_into_rtranclp)
qed

text \<open>Resolved, then claimed by a processor: one continuation, and the decision stands.\<close>

lemma resolved_once_witness:
  "let st1 = snd (resolve_with_engine_action ''r1'' ''x1'' 8 demo_resolution demo_store);
       st2 = st1\<lparr>as_actions := snd (claim_next ''t'' ''p'' 9 5 2 (as_actions st1))\<rparr>
   in map ac_status (as_actions st2) = [ActionProcessing] \<and>
      continuations ''t'' ''i'' (as_actions st2) = [(ResumeTurn, Some ''tok'', None, None)] \<and>
      snd (resolve_with_engine_action ''r2'' ''x2'' 9 (demo_resolution\<lparr>ri_decision := DecideDenied\<rparr>) st2) = st2"
proof -
  let ?a = "moved (resolve_transition demo_resolution) ''r1'' (hd (ad_approvals demo_approvals))"
  let ?st1 = "snd (resolve_with_engine_action ''r1'' ''x1'' 8 demo_resolution demo_store)"
  have r: "resolve_with_engine_action ''r1'' ''x1'' 8 demo_resolution demo_store = (Inr (Some (?a, True)), ?st1)"
    by code_simp
  have s: "store_step\<^sup>*\<^sup>* ?st1 (?st1\<lparr>as_actions := snd (claim_next ''t'' ''p'' 9 5 2 (as_actions ?st1))\<rparr>)"
    by (rule r_into_rtranclp [where r = store_step, OF st_claim])
  have act: "resolve_action_from_resolved_approval ?a (ri_reason demo_resolution) = Some (Resume ''tok'')" by code_simp
  have st: "map ac_status (snd (claim_next ''t'' ''p'' 9 5 2 (as_actions ?st1))) = [ActionProcessing]" by code_simp
  from resolved_once [OF demo_store_reached r s, of "demo_resolution\<lparr>ri_decision := DecideDenied\<rparr>" "''r2''" "''x2''" 9] act st
  show ?thesis by (simp add: Let_def) (simp add: demo_resolution_def)
qed

end
