(* ===== verification/Approval_Resolve.thy ===== *)
theory Approval_Resolve
  imports Approval_Actions Policy_Override_Store
begin

text \<open>
  \<open>gateway/src/modules/approval/resolve-service.ts\<close>: how a human decision is checked, applied and
  turned into policy overrides. Broadcasts and the hand-over to the work board are recorded in a
  log of effects. The UUID check and the contract conversion (\<open>toApprovalContract\<close>, which only
  decides whether an event is sent) are parameters of the dependencies.
\<close>

subsection \<open>Requests and results\<close>

record override_request =
  or_tool :: "json option"
  or_pattern :: "json option"
  or_workspace :: "json option"

record selected_override =
  sel_tool :: string
  sel_pattern :: string
  sel_workspace :: "string option"

datatype resolve_mode = Once | Always

record resolve_request =
  rq_tenant :: string
  rq_id :: string
  rq_decision :: decision_input
  rq_reason :: "string option"
  rq_mode :: "resolve_mode option"
  rq_overrides :: "override_request list option"
  rq_resolved_by :: "json option"

datatype refusal =
    NotFound
  | InterventionAlways
  | StillReviewing
  | LookupMissing
  | OverridesMissing
  | NothingSelected
  | NotSuggested
  | UnsafePattern
  | WorkspaceNotUuid

datatype refusal_code = InvalidRequest | NotFoundCode | Unsupported

fun refusal_code_of :: "refusal \<Rightarrow> refusal_code" where
  "refusal_code_of NotFound = NotFoundCode"
| "refusal_code_of LookupMissing = Unsupported"
| "refusal_code_of OverridesMissing = Unsupported"
| "refusal_code_of _ = InvalidRequest"

datatype resolve_result =
    Done approval "override_row list option" bool
  | Refused refusal

datatype resolve_effect =
    ApprovalUpdated approval
  | OverrideCreated override_row
  | InterventionResolved approval decision_input "string option"

datatype thrown = ApprovalThrew approval_error | OverrideThrew store_error

record resolve_deps =
  rd_lookup :: bool
  rd_overrides :: bool
  rd_emits :: bool
  rd_intervention :: bool
  rd_contract :: "approval \<Rightarrow> bool"
  rd_uuid :: "string \<Rightarrow> bool"

record resolve_state =
  rs_store :: approval_store
  rs_overrides :: override_db
  rs_effects :: "resolve_effect list"

text \<open>The values drawn while handling one request: the ids of new rows and the time.\<close>

record fresh =
  fr_review :: string
  fr_action :: string
  fr_override :: "nat \<Rightarrow> string"
  fr_now :: nat

subsection \<open>What is suggested and what is selected\<close>

definition extract_suggested_overrides :: "json \<Rightarrow> selected_override list" where
  "extract_suggested_overrides context =
    (case coerce_record (Some context) of
       None \<Rightarrow> []
     | Some m \<Rightarrow>
         (case coerce_record (om_get m ''policy'') of
            None \<Rightarrow> []
          | Some p \<Rightarrow>
              (case om_get p ''suggested_overrides'' of
                 Some (JArr entries) \<Rightarrow>
                   List.map_filter (\<lambda>e.
                     case coerce_record (Some e) of
                       None \<Rightarrow> None
                     | Some o' \<Rightarrow>
                         (case (om_get o' ''tool_id'', om_get o' ''pattern'') of
                            (Some (JStr tool), Some (JStr pattern)) \<Rightarrow>
                              Some \<lparr>sel_tool = canonicalize_tool_id tool, sel_pattern = pattern,
                                sel_workspace = (case om_get o' ''workspace_id'' of
                                  Some (JStr w) \<Rightarrow> Some w | _ \<Rightarrow> None)\<rparr>
                          | _ \<Rightarrow> None)) entries
               | _ \<Rightarrow> [])))"

definition policy_snapshot_of :: "json \<Rightarrow> string option" where
  "policy_snapshot_of context =
    (case coerce_record (Some context) of
       None \<Rightarrow> None
     | Some m \<Rightarrow>
         (case coerce_record (om_get m ''policy'') of
            None \<Rightarrow> None
          | Some p \<Rightarrow>
              (case om_get p ''policy_snapshot_id'' of
                 Some (JStr s) \<Rightarrow> if trim s = [] then None else Some s
               | _ \<Rightarrow> None)))"

definition text_or_empty :: "json option \<Rightarrow> string" where
  "text_or_empty v = (case v of Some (JStr s) \<Rightarrow> s | _ \<Rightarrow> [])"

definition normalize_selected_overrides :: "override_request list option \<Rightarrow> selected_override list" where
  "normalize_selected_overrides overrides =
    List.map_filter (\<lambda>e.
      let tool = trim (canonicalize_tool_id (text_or_empty (or_tool e)));
          pattern = trim (text_or_empty (or_pattern e));
          workspace = trim (text_or_empty (or_workspace e))
      in if tool = [] \<or> pattern = [] then None
         else Some \<lparr>sel_tool = tool, sel_pattern = pattern,
                sel_workspace = (if workspace = [] then None else Some workspace)\<rparr>)
      (case overrides of None \<Rightarrow> [] | Some l \<Rightarrow> l)"

definition selection_key :: "selected_override \<Rightarrow> string" where
  "selection_key s = sel_tool s @ ''::'' @ sel_pattern s @ ''::'' @
    (case sel_workspace s of None \<Rightarrow> [] | Some w \<Rightarrow> w)"

definition check_selected ::
  "(string \<Rightarrow> bool) \<Rightarrow> string list \<Rightarrow> selected_override \<Rightarrow> refusal option" where
  "check_selected uuid allowed s =
    (if selection_key s \<notin> set allowed then Some NotSuggested
     else if \<not> is_safe_suggested_override_pattern (sel_pattern s) then Some UnsafePattern
     else if \<exists>w \<in> set_option (sel_workspace s). w \<noteq> [] \<and> \<not> uuid w then Some WorkspaceNotUuid
     else None)"

text \<open>The loop returns at the first offending selection.\<close>

fun check_all :: "(string \<Rightarrow> bool) \<Rightarrow> string list \<Rightarrow> selected_override list \<Rightarrow> refusal option" where
  "check_all uuid allowed [] = None"
| "check_all uuid allowed (s # ss) =
    (case check_selected uuid allowed s of Some r \<Rightarrow> Some r | None \<Rightarrow> check_all uuid allowed ss)"

definition is_human_resolvable :: "approval_status \<Rightarrow> bool" where
  "is_human_resolvable s \<longleftrightarrow> s = Queued \<or> s = AwaitingHuman"

subsection \<open>Applying the decision\<close>

definition nullable :: "string option \<Rightarrow> json" where
  "nullable v = (case v of None \<Rightarrow> JNull | Some s \<Rightarrow> JStr s)"

definition decision_text :: "decision_input \<Rightarrow> string" where
  "decision_text d = (if d = DecideApproved then ''approved'' else ''denied'')"

definition selected_json :: "selected_override \<Rightarrow> json" where
  "selected_json s = JObj ([(''tool_id'', JStr (sel_tool s)), (''pattern'', JStr (sel_pattern s))] @
    (case sel_workspace s of None \<Rightarrow> [] | Some w \<Rightarrow> [(''workspace_id'', JStr w)]))"

definition actor_json :: "resolve_request \<Rightarrow> json" where
  "actor_json q = (case rq_resolved_by q of None \<Rightarrow> JNull | Some j \<Rightarrow> j)"

definition decision_payload :: "resolve_request \<Rightarrow> selected_override list \<Rightarrow> string" where
  "decision_payload q sel = json_text (JObj
    [(''decision'', JStr (decision_text (rq_decision q))), (''reason'', nullable (rq_reason q)),
     (''mode'', JStr (if rq_mode q = Some Always then ''always'' else ''once'')),
     (''selected_overrides'', JArr (map selected_json sel)), (''actor'', actor_json q)])"

definition intervention_payload :: "resolve_request \<Rightarrow> string" where
  "intervention_payload q = json_text (JObj
    [(''decision'', JStr (decision_text (rq_decision q))), (''reason'', nullable (rq_reason q)),
     (''mode'', JStr ''once''), (''actor'', actor_json q)])"

definition intervention_transition :: "resolve_request \<Rightarrow> transition_input" where
  "intervention_transition q =
    \<lparr>ti_tenant = rq_tenant q, ti_id = rq_id q,
     ti_status = (if rq_decision q = DecideApproved then Approved else Denied),
     ti_reviewer = HumanReviewer, ti_reviewer_id = None,
     ti_review_state = (if rq_decision q = DecideApproved then ReviewApproved else ReviewDenied),
     ti_reason = rq_reason q, ti_risk_level = None, ti_risk_score = None, ti_evidence = None,
     ti_payload = Some (intervention_payload q), ti_allowed = Some [Queued, AwaitingHuman]\<rparr>"

definition announce :: "resolve_deps \<Rightarrow> approval \<Rightarrow> bool \<Rightarrow> resolve_state \<Rightarrow> resolve_state" where
  "announce d a transitioned st =
    (if transitioned \<and> rd_emits d \<and> rd_contract d a
     then st\<lparr>rs_effects := rs_effects st @ [ApprovalUpdated a]\<rparr> else st)"

definition hand_over :: "resolve_deps \<Rightarrow> resolve_request \<Rightarrow> approval \<Rightarrow> bool \<Rightarrow> resolve_state \<Rightarrow> resolve_state" where
  "hand_over d q a transitioned st =
    (if transitioned \<and> ap_work_item a \<notin> {None, Some []} \<and> ap_work_item_task a \<notin> {None, Some []} \<and>
        rd_intervention d
     then st\<lparr>rs_effects := rs_effects st @ [InterventionResolved a (rq_decision q) (rq_reason q)]\<rparr>
     else st)"

definition resolve_intervention ::
  "resolve_deps \<Rightarrow> fresh \<Rightarrow> resolve_request \<Rightarrow> approval \<Rightarrow> resolve_state \<Rightarrow> (thrown + resolve_result) \<times> resolve_state" where
  "resolve_intervention d f q existing st =
    (if rq_mode q = Some Always then (Inr (Refused InterventionAlways), st)
     else if ap_status existing = Reviewing then (Inr (Refused StillReviewing), st)
     else if \<not> is_human_resolvable (ap_status existing) then (Inr (Done existing None False), st)
     else
       (case transition_with_review (fr_review f) (fr_now f) (intervention_transition q) (as_db (rs_store st)) of
          (Inl e, _) \<Rightarrow> (Inl (ApprovalThrew e), st)
        | (Inr None, _) \<Rightarrow> (Inr (Refused NotFound), st)
        | (Inr (Some (a, t)), db') \<Rightarrow>
            (Inr (Done a None t),
             announce d a t (hand_over d q a t (st\<lparr>rs_store := (rs_store st)\<lparr>as_db := db'\<rparr>\<rparr>)))))"

definition override_params ::
  "resolve_request \<Rightarrow> approval \<Rightarrow> string option \<Rightarrow> selected_override \<Rightarrow> create_params" where
  "override_params q a snapshot s =
    \<lparr>cp_tenant = rq_tenant q, cp_agent = ap_agent a, cp_workspace = sel_workspace s,
     cp_tool = sel_tool s, cp_pattern = sel_pattern s,
     cp_created_by = map_option json_text (rq_resolved_by q),
     cp_from_approval = Some (ap_id a), cp_from_snapshot = snapshot, cp_expires_at = None\<rparr>"

fun create_selected ::
  "resolve_deps \<Rightarrow> fresh \<Rightarrow> resolve_request \<Rightarrow> approval \<Rightarrow> string option \<Rightarrow> nat \<Rightarrow> selected_override list
    \<Rightarrow> resolve_state \<Rightarrow> (thrown + override_row list) \<times> resolve_state" where
  "create_selected d f q a snapshot n [] st = (Inr [], st)"
| "create_selected d f q a snapshot n (s # ss) st =
    (case create_override (rd_uuid d) (fr_override f n) (fr_now f) (override_params q a snapshot s) (rs_overrides st) of
       (Inl e, db') \<Rightarrow> (Inl (OverrideThrew e), st\<lparr>rs_overrides := db'\<rparr>)
     | (Inr row, db') \<Rightarrow>
         (let st' = st\<lparr>rs_overrides := db', rs_effects :=
                rs_effects st @ (if rd_emits d then [OverrideCreated row] else [])\<rparr>
          in case create_selected d f q a snapshot (Suc n) ss st' of
               (Inl e, st'') \<Rightarrow> (Inl e, st'')
             | (Inr rows, st'') \<Rightarrow> (Inr (row # rows), st'')))"

definition resolve_input_of :: "resolve_request \<Rightarrow> selected_override list option \<Rightarrow> resolve_input" where
  "resolve_input_of q sel =
    \<lparr>ri_tenant = rq_tenant q, ri_id = rq_id q, ri_decision = rq_decision q, ri_reason = rq_reason q,
     ri_reviewer = None, ri_reviewer_id = None, ri_allowed = Some [Queued, AwaitingHuman],
     ri_resolved_by = map_option json_text (rq_resolved_by q),
     ri_payload = Some (decision_payload q (case sel of None \<Rightarrow> [] | Some l \<Rightarrow> l))\<rparr>"

text \<open>The second half of \<open>resolveApproval\<close>, after the selection has been checked.\<close>

definition apply_resolution ::
  "resolve_deps \<Rightarrow> fresh \<Rightarrow> resolve_request \<Rightarrow> selected_override list option \<Rightarrow> string option \<Rightarrow> resolve_state
    \<Rightarrow> (thrown + resolve_result) \<times> resolve_state" where
  "apply_resolution d f q sel snapshot st =
    (case resolve_with_engine_action (fr_review f) (fr_action f) (fr_now f) (resolve_input_of q sel) (rs_store st) of
       (Inl e, _) \<Rightarrow> (Inl (ApprovalThrew e), st)
     | (Inr None, _) \<Rightarrow> (Inr (Refused NotFound), st)
     | (Inr (Some (a, t)), store') \<Rightarrow>
         if \<not> t \<and> ap_status a = Reviewing then (Inr (Refused StillReviewing), st\<lparr>rs_store := store'\<rparr>)
         else (let st1 = st\<lparr>rs_store := store'\<rparr>;
                   wanted = (case sel of None \<Rightarrow> [] | Some l \<Rightarrow> l)
               in if t \<and> ap_status a = Approved \<and> wanted \<noteq> [] \<and> rd_overrides d
                  then (case create_selected d f q a snapshot 0 wanted st1 of
                          (Inl e, st2) \<Rightarrow> (Inl e, st2)
                        | (Inr rows, st2) \<Rightarrow> (Inr (Done a (Some rows) t), announce d a t st2))
                  else (Inr (Done a None t), announce d a t st1)))"

definition resolve_approval ::
  "resolve_deps \<Rightarrow> fresh \<Rightarrow> resolve_request \<Rightarrow> resolve_state \<Rightarrow> (thrown + resolve_result) \<times> resolve_state" where
  "resolve_approval d f q st =
    (let existing = (if rd_lookup d then get_approval (rq_tenant q) (rq_id q) (as_db (rs_store st)) else None) in
     if rd_lookup d \<and> existing = None then (Inr (Refused NotFound), st)
     else if (\<exists>a \<in> set_option existing. ap_kind a = WorkIntervention)
     then resolve_intervention d f q (the existing) st
     else if rq_decision q = DecideApproved \<and> rq_mode q = Some Always
     then (case existing of
             None \<Rightarrow> (Inr (Refused LookupMissing), st)
           | Some a \<Rightarrow>
               if ap_status a = Reviewing then (Inr (Refused StillReviewing), st)
               else if \<not> is_human_resolvable (ap_status a) then (Inr (Done a None False), st)
               else if \<not> rd_overrides d then (Inr (Refused OverridesMissing), st)
               else (let sel = normalize_selected_overrides (rq_overrides q) in
                     if sel = [] then (Inr (Refused NothingSelected), st)
                     else (case check_all (rd_uuid d)
                                  (map selection_key (extract_suggested_overrides (ap_context a))) sel of
                             Some r \<Rightarrow> (Inr (Refused r), st)
                           | None \<Rightarrow> apply_resolution d f q (Some sel) (policy_snapshot_of (ap_context a)) st)))
     else apply_resolution d f q None None st)"

subsection \<open>Refusals\<close>

lemma resolve_untransitioned:
  assumes "resolve_with_engine_action rid aid now r st = (Inr (Some (a, False)), st')"
  shows "st' = st \<and> \<not> transition_guard (resolve_transition r) (ap_status a)"
proof -
  from assms obtain db' where t: "transition_with_review rid now (resolve_transition r) (as_db st) =
      (Inr (Some (a, False)), db')" and st': "st' = \<lparr>as_db = db', as_actions = as_actions st\<rparr>"
    by (auto simp: resolve_with_engine_action_def split: prod.splits sum.splits option.splits if_splits)
  from not_transitioned [OF t] not_transitioned_guard [OF t] st' show ?thesis by simp
qed

lemma apply_refused:
  assumes "apply_resolution d f q sel snapshot st = (Inr (Refused r), st')"
  shows "st' = st"
  using assms resolve_untransitioned [of "fr_review f" "fr_action f" "fr_now f" "resolve_input_of q sel" "rs_store st"]
  by (auto simp: apply_resolution_def Let_def split: sum.splits option.splits prod.splits if_splits)

text \<open>
  A refused decision leaves no trace: when the service refuses a decision, for whatever
  reason, approvals, reviews, engine actions, overrides and broadcasts are as before.
\<close>

theorem refusal_changes_nothing:
  assumes "resolve_approval d f q st = (Inr (Refused r), st')"
  shows "st' = st"
  using assms
  by (auto simp: resolve_approval_def resolve_intervention_def Let_def
      split: if_splits option.splits sum.splits prod.splits dest: apply_refused)

subsection \<open>Overrides\<close>

lemma create_selected_rows:
  assumes "create_selected d f q a snapshot n ss st = (res, st')"
    and "r \<in> set (od_rows (rs_overrides st'))" "r \<notin> set (od_rows (rs_overrides st))"
  shows "\<exists>s k. s \<in> set ss \<and> r = inserted_override (fr_override f k) (fr_now f) (override_params q a snapshot s)"
  using assms
proof (induction ss arbitrary: n st res)
  case (Cons s ss)
  obtain c db where c: "create_override (rd_uuid d) (fr_override f n) (fr_now f)
      (override_params q a snapshot s) (rs_overrides st) = (c, db)" by fastforce
  then have new: "r = inserted_override (fr_override f n) (fr_now f) (override_params q a snapshot s)"
    if "r \<in> set (od_rows db)"
    using that Cons.prems(3) by (auto simp: create_override_def Let_def split: if_splits option.splits)
  show ?case
  proof (cases "r \<in> set (od_rows db)")
    case True
    with new show ?thesis by auto
  next
    case False
    show ?thesis
    proof (cases c)
      case (Inl e)
      with c Cons.prems False show ?thesis by auto
    next
      case (Inr row)
      let ?st = "st\<lparr>rs_overrides := db, rs_effects :=
        rs_effects st @ (if rd_emits d then [OverrideCreated row] else [])\<rparr>"
      obtain res1 st1 where rec: "create_selected d f q a snapshot (Suc n) ss ?st = (res1, st1)" by fastforce
      then have "st1 = st'" using Cons.prems(1) c Inr by (auto simp: Let_def split: sum.splits)
      from Cons.IH [OF rec [unfolded this] Cons.prems(2)] False show ?thesis by auto
    qed
  qed
qed simp

lemma announce_overrides [simp]: "rs_overrides (announce d a t st) = rs_overrides st"
  by (simp add: announce_def)

lemma hand_over_overrides [simp]: "rs_overrides (hand_over d q a t st) = rs_overrides st"
  by (simp add: hand_over_def)

lemma resolved_agent:
  assumes "approvals_wf (as_db st)" "resolve_with_engine_action rid aid now r st = (Inr (Some (a, True)), st')"
    and "get_approval (ri_tenant r) (ri_id r) (as_db st) = Some a0"
  shows "ap_agent a = ap_agent a0 \<and> ap_id a = ri_id r \<and>
    ap_status a = (if ri_decision r = DecideApproved then Approved else Denied)"
proof -
  from assms(2) obtain db' where t: "transition_with_review rid now (resolve_transition r) (as_db st) =
      (Inr (Some (a, True)), db')"
    by (auto simp: resolve_with_engine_action_def split: prod.splits sum.splits option.splits if_splits)
  from transitioned_moved [OF assms(1) t] assms(3) get_approval_Some [OF assms(3)] show ?thesis
    by (auto simp: moved_def resolve_transition_def)
qed

lemma check_all_None:
  "check_all uuid allowed ss = None \<Longrightarrow> s \<in> set ss \<Longrightarrow>
    selection_key s \<in> set allowed \<and> is_safe_suggested_override_pattern (sel_pattern s)"
  by (induction ss) (auto simp: check_selected_def split: option.splits if_splits)

lemma apply_overrides:
  assumes "apply_resolution d f q sel snapshot st = (res, st')" "approvals_wf (as_db (rs_store st))"
    and "get_approval (rq_tenant q) (rq_id q) (as_db (rs_store st)) = Some a0"
    and "r \<in> set (od_rows (rs_overrides st'))" "r \<notin> set (od_rows (rs_overrides st))"
  shows "\<exists>l s k a. sel = Some l \<and> s \<in> set l \<and> ap_agent a = ap_agent a0 \<and> ap_id a = rq_id q \<and>
    r = inserted_override (fr_override f k) (fr_now f) (override_params q a snapshot s)"
proof -
  obtain out store' where o: "resolve_with_engine_action (fr_review f) (fr_action f) (fr_now f)
      (resolve_input_of q sel) (rs_store st) = (out, store')" by fastforce
  with assms(1,4,5) obtain a l res2 st2 where r: "out = Inr (Some (a, True))" "sel = Some l"
    and c: "create_selected d f q a snapshot 0 l (st\<lparr>rs_store := store'\<rparr>) = (res2, st2)"
    and e: "rs_overrides st' = rs_overrides st2"
    by (auto simp: apply_resolution_def Let_def split: sum.splits option.splits prod.splits if_splits)
  from resolved_agent [OF assms(2) o [unfolded r(1)]] assms(3)
  have "ap_agent a = ap_agent a0" "ap_id a = rq_id q" by (simp_all add: resolve_input_of_def)
  moreover have "\<exists>s k. s \<in> set l \<and>
      r = inserted_override (fr_override f k) (fr_now f) (override_params q a snapshot s)"
    using create_selected_rows [OF c] assms(4,5) e by simp
  ultimately show ?thesis using r(2) by blast
qed

lemma selected_source:
  assumes "resolve_approval d f q st = (res, st')" "approvals_wf (as_db (rs_store st))"
    and "r \<in> set (od_rows (rs_overrides st'))" "r \<notin> set (od_rows (rs_overrides st))"
  shows "rq_decision q = DecideApproved \<and> rq_mode q = Some Always \<and>
    (\<exists>a0 s k a. get_approval (rq_tenant q) (rq_id q) (as_db (rs_store st)) = Some a0 \<and>
      s \<in> set (normalize_selected_overrides (rq_overrides q)) \<and>
      check_all (rd_uuid d) (map selection_key (extract_suggested_overrides (ap_context a0)))
        (normalize_selected_overrides (rq_overrides q)) = None \<and>
      ap_agent a = ap_agent a0 \<and> ap_id a = rq_id q \<and>
      r = inserted_override (fr_override f k) (fr_now f)
        (override_params q a (policy_snapshot_of (ap_context a0)) s))"
proof -
  let ?sel = "normalize_selected_overrides (rq_overrides q)"
  have plain: "apply_resolution d f q None None st \<noteq> (res, st')"
  proof
    assume "apply_resolution d f q None None st = (res, st')"
    with assms(3,4) show False
      by (auto simp: apply_resolution_def Let_def split: sum.splits option.splits prod.splits if_splits)
  qed
  with assms(1,3,4) obtain a0 where a0: "get_approval (rq_tenant q) (rq_id q) (as_db (rs_store st)) = Some a0"
    "rq_decision q = DecideApproved" "rq_mode q = Some Always"
    "check_all (rd_uuid d) (map selection_key (extract_suggested_overrides (ap_context a0))) ?sel = None"
    "apply_resolution d f q (Some ?sel) (policy_snapshot_of (ap_context a0)) st = (res, st')"
    by (auto simp: resolve_approval_def resolve_intervention_def Let_def
        split: if_splits option.splits sum.splits prod.splits)
  from apply_overrides [OF a0(5) assms(2) a0(1) assms(3,4)] a0 show ?thesis by auto
qed

text \<open>
  Overrides come from suggestions only: an override that exists after a decision and did not
  before was created because the decision approves with \<open>mode=always\<close>; it was selected in the
  request, its key is among the keys suggested in the stored context of the approval, its pattern
  is a safe one, and it is scoped to the tenant of the request and the agent of the approval.
\<close>

theorem overrides_from_suggestions:
  assumes "resolve_approval d f q st = (res, st')" "approvals_wf (as_db (rs_store st))"
    and "r \<in> set (od_rows (rs_overrides st'))" "r \<notin> set (od_rows (rs_overrides st))"
  shows "rq_decision q = DecideApproved \<and> rq_mode q = Some Always \<and>
    (\<exists>a0 s. get_approval (rq_tenant q) (rq_id q) (as_db (rs_store st)) = Some a0 \<and>
      s \<in> set (normalize_selected_overrides (rq_overrides q)) \<and>
      selection_key s \<in> selection_key ` set (extract_suggested_overrides (ap_context a0)) \<and>
      is_safe_suggested_override_pattern (sel_pattern s) \<and>
      ov_tenant r = rq_tenant q \<and> ov_agent r = ap_agent a0 \<and> ov_workspace r = sel_workspace s \<and>
      ov_tool r = canonicalize_tool_id (sel_tool s) \<and> ov_pattern r = trim (sel_pattern s) \<and>
      ov_status r = OverrideActive \<and> ov_from_approval r = Some (rq_id q))"
proof -
  from selected_source [OF assms] obtain a0 s k a where s:
    "rq_decision q = DecideApproved" "rq_mode q = Some Always"
    "get_approval (rq_tenant q) (rq_id q) (as_db (rs_store st)) = Some a0"
    "s \<in> set (normalize_selected_overrides (rq_overrides q))"
    "check_all (rd_uuid d) (map selection_key (extract_suggested_overrides (ap_context a0)))
        (normalize_selected_overrides (rq_overrides q)) = None"
    "ap_agent a = ap_agent a0" "ap_id a = rq_id q"
    "r = inserted_override (fr_override f k) (fr_now f)
        (override_params q a (policy_snapshot_of (ap_context a0)) s)"
    by blast
  from check_all_None [OF s(5,4)] s show ?thesis
    by (auto simp: inserted_override_def override_params_def)
qed

subsection \<open>Decisions\<close>

lemma apply_done:
  assumes "apply_resolution d f q sel snapshot st = (Inr (Done a rows t), st')" "approvals_wf (as_db (rs_store st))"
  shows "is_approval_terminal_status (ap_status a) \<and>
    (t \<longrightarrow> ap_status a = (if rq_decision q = DecideApproved then Approved else Denied))"
proof -
  obtain out store' where o: "resolve_with_engine_action (fr_review f) (fr_action f) (fr_now f)
      (resolve_input_of q sel) (rs_store st) = (out, store')" by fastforce
  with assms(1) have r: "out = Inr (Some (a, t))" and n: "\<not> (\<not> t \<and> ap_status a = Reviewing)"
    by (auto simp: apply_resolution_def Let_def split: sum.splits option.splits prod.splits if_splits)
  show ?thesis
  proof (cases t)
    case True
    from o r True obtain db' where "transition_with_review (fr_review f) (fr_now f)
        (resolve_transition (resolve_input_of q sel)) (as_db (rs_store st)) = (Inr (Some (a, True)), db')"
      by (auto simp: resolve_with_engine_action_def split: prod.splits sum.splits option.splits if_splits)
    from transitioned_result [OF assms(2) this] show ?thesis
      by (auto simp: resolve_transition_def resolve_input_of_def is_approval_terminal_status_def)
  next
    case False
    with o r have "resolve_with_engine_action (fr_review f) (fr_action f) (fr_now f)
      (resolve_input_of q sel) (rs_store st) = (Inr (Some (a, False)), store')" by simp
    from resolve_untransitioned [OF this] n False show ?thesis
      by (cases "ap_status a") (auto simp: transition_guard_def resolve_transition_def
          resolve_input_of_def is_approval_terminal_status_def)
  qed
qed

text \<open>
  An answered decision is final: whenever the service answers with an approval, that approval
  has a terminal status, and it is the requested one when the request is the one that decided.
\<close>

theorem done_is_decided:
  assumes "resolve_approval d f q st = (Inr (Done a rows t), st')" "approvals_wf (as_db (rs_store st))"
  shows "is_approval_terminal_status (ap_status a) \<and>
    (t \<longrightarrow> ap_status a = (if rq_decision q = DecideApproved then Approved else Denied))"
proof -
  have inter: ?thesis if "resolve_intervention d f q x st = (Inr (Done a rows t), st')"
    "get_approval (rq_tenant q) (rq_id q) (as_db (rs_store st)) = Some x" for x
  proof (cases "ap_status x = Reviewing \<or> is_human_resolvable (ap_status x)")
    case False
    with that(1) show ?thesis
      by (cases "ap_status x") (auto simp: resolve_intervention_def is_human_resolvable_def
          is_approval_terminal_status_def split: if_splits)
  next
    case True
    then have resolvable: "is_human_resolvable (ap_status x)"
      using that(1) by (auto simp: resolve_intervention_def split: if_splits)
    with that(1) obtain db' where tr: "transition_with_review (fr_review f) (fr_now f) (intervention_transition q)
        (as_db (rs_store st)) = (Inr (Some (a, t)), db')"
      by (auto simp: resolve_intervention_def split: if_splits sum.splits option.splits prod.splits)
    show ?thesis
    proof (cases t)
      case True
      with tr have "transition_with_review (fr_review f) (fr_now f) (intervention_transition q)
        (as_db (rs_store st)) = (Inr (Some (a, True)), db')" by simp
      from transitioned_result [OF assms(2) this] show ?thesis
        by (auto simp: intervention_transition_def is_approval_terminal_status_def)
    next
      case False
      with tr have n: "transition_with_review (fr_review f) (fr_now f) (intervention_transition q)
        (as_db (rs_store st)) = (Inr (Some (a, False)), db')" by simp
      from not_transitioned [OF this] that(2) have "a = x" by (simp add: intervention_transition_def)
      with not_transitioned_guard [OF n] resolvable show ?thesis
        by (auto simp: transition_guard_def intervention_transition_def is_human_resolvable_def
            is_approval_terminal_status_def)
    qed
  qed
  have early: ?thesis if "ap_status a \<noteq> Reviewing" "\<not> is_human_resolvable (ap_status a)" "\<not> t"
    using that by (cases "ap_status a") (auto simp: is_human_resolvable_def is_approval_terminal_status_def)
  have "(\<exists>x. resolve_intervention d f q x st = (Inr (Done a rows t), st') \<and>
        get_approval (rq_tenant q) (rq_id q) (as_db (rs_store st)) = Some x) \<or>
      ap_status a \<noteq> Reviewing \<and> \<not> is_human_resolvable (ap_status a) \<and> \<not> t \<or>
      (\<exists>sel snapshot. apply_resolution d f q sel snapshot st = (Inr (Done a rows t), st'))"
    using assms(1) by (auto simp: resolve_approval_def Let_def split: if_splits option.splits)
  then show ?thesis using inter early apply_done [OF _ assms(2)] by blast
qed

definition demo_deps :: resolve_deps where
  "demo_deps = \<lparr>rd_lookup = True, rd_overrides = True, rd_emits = True, rd_intervention = True,
    rd_contract = (\<lambda>_. True), rd_uuid = (\<lambda>_. True)\<rparr>"

definition demo_fresh :: fresh where
  "demo_fresh = \<lparr>fr_review = ''r'', fr_action = ''x'', fr_override = (\<lambda>n. ''o''), fr_now = 3\<rparr>"

definition demo_context :: json where
  "demo_context = JObj [(''policy'', JObj [(''suggested_overrides'', JArr
    [JObj [(''tool_id'', JStr ''bash''), (''pattern'', JStr ''ls*'')]])])]"

definition demo_state :: resolve_state where
  "demo_state = \<lparr>rs_store = \<lparr>as_db =
      snd (create_approval ''i'' 1 (demo_approval_params\<lparr>app_context := Some demo_context\<rparr>) \<lparr>ad_approvals = [], ad_reviews = []\<rparr>),
      as_actions = []\<rparr>,
    rs_overrides = \<lparr>od_rows = [], od_outbox = []\<rparr>, rs_effects = []\<rparr>"

definition demo_request :: resolve_request where
  "demo_request = \<lparr>rq_tenant = ''t'', rq_id = ''i'', rq_decision = DecideApproved, rq_reason = None,
    rq_mode = Some Always,
    rq_overrides = Some [\<lparr>or_tool = Some (JStr ''bash''), or_pattern = Some (JStr ''ls*''), or_workspace = None\<rparr>],
    rq_resolved_by = None\<rparr>"

lemma demo_state_wf: "approvals_wf (as_db (rs_store demo_state))"
proof -
  have "trim ''i'' = ''i''" by code_simp
  from approval_step_wf [OF approval_step.step_create [OF this] approvals_wf_empty] show ?thesis
    by (simp add: demo_state_def)
qed

lemma refusal_changes_nothing_witness:
  "snd (resolve_approval demo_deps demo_fresh (demo_request\<lparr>rq_overrides := None\<rparr>) demo_state) = demo_state"
proof -
  obtain res st' where r: "resolve_approval demo_deps demo_fresh (demo_request\<lparr>rq_overrides := None\<rparr>) demo_state =
    (res, st')" by fastforce
  have "fst (resolve_approval demo_deps demo_fresh (demo_request\<lparr>rq_overrides := None\<rparr>) demo_state) =
    Inr (Refused NothingSelected)" by code_simp
  with r have "res = Inr (Refused NothingSelected)" by simp
  from refusal_changes_nothing [OF r [unfolded this]] r show ?thesis by simp
qed

lemma demo_resolved:
  obtains a rows st' where "resolve_approval demo_deps demo_fresh demo_request demo_state = (Inr (Done a rows True), st')"
    "length (od_rows (rs_overrides st')) = 1"
proof -
  obtain res st' where r: "resolve_approval demo_deps demo_fresh demo_request demo_state = (res, st')" by fastforce
  have "(case fst (resolve_approval demo_deps demo_fresh demo_request demo_state) of
      Inr (Done _ _ True) \<Rightarrow> True | _ \<Rightarrow> False)"
    "length (od_rows (rs_overrides (snd (resolve_approval demo_deps demo_fresh demo_request demo_state)))) = 1"
    by code_simp+
  with r show ?thesis by (auto intro: that split: sum.splits resolve_result.splits bool.splits)
qed

lemma overrides_from_suggestions_witness:
  "\<exists>r. r \<in> set (od_rows (rs_overrides (snd (resolve_approval demo_deps demo_fresh demo_request demo_state)))) \<and>
    ov_agent r = ''a'' \<and> ov_pattern r = ''ls*''"
proof -
  obtain a rows st' where r: "resolve_approval demo_deps demo_fresh demo_request demo_state = (Inr (Done a rows True), st')"
    "length (od_rows (rs_overrides st')) = 1" by (rule demo_resolved)
  then obtain row where row: "od_rows (rs_overrides st') = [row]" by (auto simp: length_Suc_conv)
  have new: "row \<notin> set (od_rows (rs_overrides demo_state))" by (simp add: demo_state_def)
  have norm: "normalize_selected_overrides (rq_overrides demo_request) =
      [\<lparr>sel_tool = ''bash'', sel_pattern = ''ls*'', sel_workspace = None\<rparr>]"
    "map_option ap_agent (get_approval (rq_tenant demo_request) (rq_id demo_request) (as_db (rs_store demo_state))) =
      Some ''a''" "trim ''ls*'' = ''ls*''"
    by code_simp+
  from overrides_from_suggestions [OF r(1) demo_state_wf _ new] row norm show ?thesis
    by (auto simp: r(1))
qed

lemma done_is_decided_witness:
  "\<exists>a. fst (resolve_approval demo_deps demo_fresh demo_request demo_state) = Inr a \<and>
    (case a of Done x _ _ \<Rightarrow> is_approval_terminal_status (ap_status x) | Refused _ \<Rightarrow> False)"
proof -
  obtain a rows st' where r: "resolve_approval demo_deps demo_fresh demo_request demo_state = (Inr (Done a rows True), st')"
    by (rule demo_resolved)
  from done_is_decided [OF r demo_state_wf, THEN conjunct1] r show ?thesis by simp
qed

end
