(* ===== verification/Work_Items.thy ===== *)
theory Work_Items
  imports Json_Value Table
begin

text \<open>
  The work board's items: \<open>gateway/src/modules/workboard/items-dal.ts\<close>,
  \<open>item-transitions-dal.ts\<close>, the row types of \<open>dal-helpers.ts\<close> and
  \<open>runtime-workboard/src/transition-errors.ts\<close>. The board is a record of the tables the item
  operations read and write; JSON columns are the values their text denotes, SQL NULL is
  \<open>None\<close>, times are milliseconds, fresh ids are arguments. \<open>work_artifacts\<close>, \<open>work_decisions\<close>
  and \<open>work_signals\<close> rows, whose link to a deleted item is cleared, are not part of the board.
\<close>

subsection \<open>States and rows\<close>

datatype item_state = Backlog | Ready | Doing | Blocked | ItemDone | ItemFailed | ItemCancelled

datatype task_state =
  TQueued | TLeased | TRunning | TPaused | TCompleted | TFailed | TCancelled | TSkipped

datatype subagent_status = SRunning | SPaused | SClosing | SClosed | SFailed

datatype clarification_status = COpen | CAnswered | CCancelled

fun item_state_text :: "item_state \<Rightarrow> string" where
  "item_state_text Backlog = ''backlog''"
| "item_state_text Ready = ''ready''"
| "item_state_text Doing = ''doing''"
| "item_state_text Blocked = ''blocked''"
| "item_state_text ItemDone = ''done''"
| "item_state_text ItemFailed = ''failed''"
| "item_state_text ItemCancelled = ''cancelled''"

fun work_item_transitions :: "item_state \<Rightarrow> item_state list" where
  "work_item_transitions Backlog = [Ready]"
| "work_item_transitions Ready = [Doing, ItemCancelled]"
| "work_item_transitions Doing = [Ready, Blocked, ItemDone, ItemFailed, ItemCancelled]"
| "work_item_transitions Blocked = [Ready, Doing, ItemCancelled]"
| "work_item_transitions ItemDone = []"
| "work_item_transitions ItemFailed = []"
| "work_item_transitions ItemCancelled = []"

definition is_terminal_item_state :: "item_state \<Rightarrow> bool" where
  "is_terminal_item_state s \<longleftrightarrow> s = ItemDone \<or> s = ItemFailed \<or> s = ItemCancelled"

lemma terminal_no_transition: "is_terminal_item_state s \<longleftrightarrow> work_item_transitions s = []"
  by (cases s) (simp_all add: is_terminal_item_state_def)

record work_scope =
  sc_tenant :: string
  sc_agent :: string
  sc_workspace :: string

datatype item_kind = ActionItem | InitiativeItem

record work_item =
  wi_id :: string
  wi_scope :: work_scope
  wi_kind :: item_kind
  wi_title :: string
  wi_status :: item_state
  wi_priority :: int
  wi_acceptance :: "json option"
  wi_fingerprint :: "json option"
  wi_budgets :: "json option"
  wi_created_from :: string
  wi_created_at :: nat
  wi_updated_at :: nat
  wi_last_active_at :: "nat option"
  wi_parent :: "string option"

record work_task =
  wt_tenant :: string
  wt_id :: string
  wt_item :: string
  wt_status :: task_state
  wt_lease_owner :: "string option"
  wt_lease_expires :: "nat option"
  wt_depends_on :: "string list"
  wt_profile :: string
  wt_side_effect :: string
  wt_turn :: "string option"
  wt_approval :: "string option"
  wt_subagent :: "string option"
  wt_pause_reason :: "string option"
  wt_pause_detail :: "string option"
  wt_artifacts :: "json list"
  wt_started_at :: "nat option"
  wt_finished_at :: "nat option"
  wt_result :: "string option"
  wt_created_at :: nat
  wt_updated_at :: nat

record subagent =
  sb_id :: string
  sb_scope :: work_scope
  sb_parent_conversation :: "string option"
  sb_item :: "string option"
  sb_task :: "string option"
  sb_profile :: string
  sb_conversation :: string
  sb_status :: subagent_status
  sb_desktop :: "string option"
  sb_node :: "string option"
  sb_created_at :: nat
  sb_updated_at :: nat
  sb_heartbeat_at :: "nat option"
  sb_closed_at :: "nat option"
  sb_close_reason :: "string option"

record clarification =
  cl_id :: string
  cl_scope :: work_scope
  cl_item :: string
  cl_status :: clarification_status
  cl_question :: string
  cl_requested_by :: "string option"
  cl_requested_for :: string
  cl_requested_at :: nat
  cl_answered_at :: "nat option"
  cl_answer :: "string option"
  cl_answered_by :: "string option"
  cl_updated_at :: nat

record state_kv =
  kv_scope :: work_scope
  kv_item :: string
  kv_key :: string
  kv_value :: json
  kv_updated_at :: nat
  kv_updated_by :: "string option"
  kv_provenance :: "json option"

record item_event =
  ie_tenant :: string
  ie_id :: string
  ie_item :: string
  ie_created_at :: nat
  ie_kind :: string
  ie_payload :: json

record queue_signal =
  qs_kind :: string
  qs_inbox :: "int option"
  qs_queue_mode :: string
  qs_message :: string
  qs_created_at :: nat

record ws_event =
  we_id :: string
  we_type :: string
  we_at :: nat
  we_scope :: work_scope
  we_payload :: json

record board =
  wb_items :: "work_item list"
  wb_tasks :: "work_task list"
  wb_subagents :: "subagent list"
  wb_clarifications :: "clarification list"
  wb_kv :: "state_kv list"
  wb_events :: "item_event list"
  wb_signals :: "(string \<times> string, queue_signal) omap"
  wb_outbox :: "ws_event list"

datatype board_error =
    InvalidTransition item_state item_state "item_state list"
  | ReadinessGateFailed item_state item_state "string list"
  | WipLimitExceeded item_state nat nat
  | BoardError string

subsection \<open>Items\<close>

definition item_at :: "work_scope \<Rightarrow> string \<Rightarrow> work_item \<Rightarrow> bool" where
  "item_at sc iid i \<longleftrightarrow> wi_scope i = sc \<and> wi_id i = iid"

definition get_item :: "work_scope \<Rightarrow> string \<Rightarrow> board \<Rightarrow> work_item option" where
  "get_item sc iid b = find (item_at sc iid) (wb_items b)"

record item_input =
  ii_kind :: item_kind
  ii_title :: string
  ii_priority :: "int option"
  ii_acceptance :: "json option"
  ii_fingerprint :: "json option"
  ii_budgets :: "json option"
  ii_parent :: "string option"
  ii_created_from :: "string option"

definition trimmed :: "string option \<Rightarrow> string option" where
  "trimmed v = (case v of None \<Rightarrow> None | Some s \<Rightarrow> if trim s = [] then None else Some (trim s))"

definition new_item :: "work_scope \<Rightarrow> string \<Rightarrow> nat \<Rightarrow> string \<Rightarrow> item_input \<Rightarrow> work_item" where
  "new_item sc iid now from p =
    \<lparr>wi_id = iid, wi_scope = sc, wi_kind = ii_kind p, wi_title = ii_title p, wi_status = Backlog,
     wi_priority = (case ii_priority p of None \<Rightarrow> 0 | Some n \<Rightarrow> n),
     wi_acceptance = ii_acceptance p, wi_fingerprint = ii_fingerprint p, wi_budgets = ii_budgets p,
     wi_created_from = from, wi_created_at = now, wi_updated_at = now, wi_last_active_at = None,
     wi_parent = ii_parent p\<rparr>"

text \<open>\<open>default_from\<close> is the caller's \<open>createdFromConversationKey\<close>, \<open>new_id\<close> the given or drawn id.\<close>

definition create_item ::
  "work_scope \<Rightarrow> string \<Rightarrow> nat \<Rightarrow> string option \<Rightarrow> item_input \<Rightarrow> board \<Rightarrow> (board_error + work_item) \<times> board" where
  "create_item sc new_id now default_from p b =
    (case (case trimmed (ii_created_from p) of Some k \<Rightarrow> Some k | None \<Rightarrow> trimmed default_from) of
       None \<Rightarrow> (Inl (BoardError ''created_from_conversation_key is required''), b)
     | Some from \<Rightarrow>
         if (case ii_parent p of None \<Rightarrow> False | Some x \<Rightarrow> x \<noteq> [] \<and> get_item sc x b = None)
         then (Inl (BoardError ''parent_work_item_id is outside scope''), b)
         else if matches (\<lambda>i. sc_tenant (wi_scope i) = sc_tenant sc \<and> wi_id i = new_id) (wb_items b)
         then (Inl (BoardError ''unique violation''), b)
         else (let i = new_item sc new_id now from p
               in (Inr i, b\<lparr>wb_items := wb_items b @ [i]\<rparr>)))"

record item_patch =
  ip_title :: "string option"
  ip_priority :: "int option"
  ip_acceptance :: "json option"
  ip_fingerprint :: "json option"
  ip_budgets :: "json option option"
  ip_last_active_at :: "nat option option"

definition patched :: "'a option \<Rightarrow> 'a \<Rightarrow> 'a" where
  "patched p old = (case p of None \<Rightarrow> old | Some new \<Rightarrow> new)"

definition patch_item :: "item_patch \<Rightarrow> nat \<Rightarrow> work_item \<Rightarrow> work_item" where
  "patch_item p now i =
    i\<lparr>wi_title := patched (ip_title p) (wi_title i), wi_priority := patched (ip_priority p) (wi_priority i),
      wi_acceptance := patched (map_option Some (ip_acceptance p)) (wi_acceptance i),
      wi_fingerprint := patched (map_option Some (ip_fingerprint p)) (wi_fingerprint i),
      wi_budgets := patched (ip_budgets p) (wi_budgets i),
      wi_updated_at := now, wi_last_active_at := patched (ip_last_active_at p) (wi_last_active_at i)\<rparr>"

definition empty_item_patch :: "item_patch \<Rightarrow> bool" where
  "empty_item_patch p \<longleftrightarrow> ip_title p = None \<and> ip_priority p = None \<and> ip_acceptance p = None \<and>
    ip_fingerprint p = None \<and> ip_budgets p = None \<and> ip_last_active_at p = None"

definition update_item ::
  "work_scope \<Rightarrow> string \<Rightarrow> item_patch \<Rightarrow> nat \<Rightarrow> board \<Rightarrow> work_item option \<times> board" where
  "update_item sc iid p now b =
    (if empty_item_patch p then (get_item sc iid b, b)
     else (let b' = b\<lparr>wb_items := update_where (item_at sc iid) (patch_item p now) (wb_items b)\<rparr>
           in (get_item sc iid b', b')))"

text \<open>
  Deleting an item cascades to its tasks, events, state and clarifications (foreign keys), after
  the references of other items and of subagents have been cleared.
\<close>

definition active_subagent :: "work_scope \<Rightarrow> string \<Rightarrow> subagent \<Rightarrow> bool" where
  "active_subagent sc iid s \<longleftrightarrow> sb_scope s = sc \<and> sb_item s = Some iid \<and>
    sb_status s \<in> {SRunning, SPaused, SClosing}"

definition active_task :: "work_scope \<Rightarrow> string \<Rightarrow> work_task \<Rightarrow> bool" where
  "active_task sc iid t \<longleftrightarrow> wt_tenant t = sc_tenant sc \<and> wt_item t = iid \<and>
    wt_status t \<in> {TLeased, TRunning, TPaused}"

definition remove_item :: "work_scope \<Rightarrow> string \<Rightarrow> board \<Rightarrow> board" where
  "remove_item sc iid b =
    b\<lparr>wb_items := filter (\<lambda>i. \<not> item_at sc iid i)
        (update_where (\<lambda>i. wi_scope i = sc \<and> wi_parent i = Some iid) (\<lambda>i. i\<lparr>wi_parent := None\<rparr>) (wb_items b)),
      wb_tasks := filter (\<lambda>t. \<not> (wt_tenant t = sc_tenant sc \<and> wt_item t = iid)) (wb_tasks b),
      wb_subagents := update_where (\<lambda>s. sb_scope s = sc \<and> sb_item s = Some iid)
        (\<lambda>s. s\<lparr>sb_item := None, sb_task := None\<rparr>) (wb_subagents b),
      wb_clarifications := filter (\<lambda>c. \<not> (sc_tenant (cl_scope c) = sc_tenant sc \<and> cl_item c = iid)) (wb_clarifications b),
      wb_kv := filter (\<lambda>k. \<not> (sc_tenant (kv_scope k) = sc_tenant sc \<and> kv_item k = iid)) (wb_kv b),
      wb_events := filter (\<lambda>e. \<not> (ie_tenant e = sc_tenant sc \<and> ie_item e = iid)) (wb_events b)\<rparr>"

definition delete_item ::
  "work_scope \<Rightarrow> string \<Rightarrow> board \<Rightarrow> (board_error + work_item option) \<times> board" where
  "delete_item sc iid b =
    (case get_item sc iid b of
       None \<Rightarrow> (Inr None, b)
     | Some i \<Rightarrow>
         if matches (active_subagent sc iid) (wb_subagents b)
         then (Inl (BoardError ''cannot delete work item with active subagents''), b)
         else if matches (active_task sc iid) (wb_tasks b)
         then (Inl (BoardError ''cannot delete work item with active tasks''), b)
         else (Inr (Some (if wi_parent i = Some iid then i\<lparr>wi_parent := None\<rparr> else i)), remove_item sc iid b))"

subsection \<open>Transitions\<close>

definition default_wip_limit :: nat where
  "default_wip_limit = 2"

definition assert_transition_allowed :: "item_state \<Rightarrow> item_state \<Rightarrow> board_error option" where
  "assert_transition_allowed from to =
    (if to \<in> set (work_item_transitions from) then None
     else Some (InvalidTransition from to (work_item_transitions from)))"

definition item_state_string :: "work_scope \<Rightarrow> string \<Rightarrow> string \<Rightarrow> board \<Rightarrow> string option" where
  "item_state_string sc iid key b =
    coerce_string (map_option kv_value
      (find (\<lambda>k. kv_scope k = sc \<and> kv_item k = iid \<and> kv_key k = key) (wb_kv b)))"

definition open_clarifications :: "work_scope \<Rightarrow> string \<Rightarrow> board \<Rightarrow> nat" where
  "open_clarifications sc iid b =
    length (filter (\<lambda>c. cl_scope c = sc \<and> cl_item c = iid \<and> cl_status c = COpen) (wb_clarifications b))"

definition child_items :: "work_scope \<Rightarrow> string \<Rightarrow> board \<Rightarrow> nat" where
  "child_items sc iid b = length (filter (\<lambda>i. wi_scope i = sc \<and> wi_parent i = Some iid) (wb_items b))"

text \<open>Tasks of an item, joined with the item to check its scope.\<close>

definition task_in_scope :: "work_scope \<Rightarrow> board \<Rightarrow> work_task \<Rightarrow> bool" where
  "task_in_scope sc b t \<longleftrightarrow> wt_tenant t = sc_tenant sc \<and>
    matches (\<lambda>i. wi_scope i = sc \<and> wi_id i = wt_item t) (wb_items b)"

definition execution_tasks :: "work_scope \<Rightarrow> string \<Rightarrow> board \<Rightarrow> nat" where
  "execution_tasks sc iid b =
    length (filter (\<lambda>t. task_in_scope sc b t \<and> wt_item t = iid \<and> wt_profile t \<noteq> ''planner'') (wb_tasks b))"

definition readiness_reasons :: "work_scope \<Rightarrow> work_item \<Rightarrow> string \<Rightarrow> board \<Rightarrow> string list" where
  "readiness_reasons sc i phase b =
    (let iid = wi_id i; size = item_state_string sc iid ''work.size.class'' b in
     (if wi_acceptance i = None then [''acceptance_missing''] else []) @
     (if open_clarifications sc iid b > 0 then [''open_clarifications''] else []) @
     (if size \<in> {Some ''small'', Some ''medium'', Some ''large'', Some ''split_required''}
      then [] else [''size_missing'']) @
     (if phase = ''awaiting_clarification'' then [''awaiting_clarification''] else []) @
     (case item_state_string sc iid ''work.readiness.reason'' b of
        None \<Rightarrow> [] | Some r \<Rightarrow> [''readiness_blocker:'' @ r]) @
     (if size = Some ''split_required'' \<and> child_items sc iid b = 0 \<and> execution_tasks sc iid b = 0
      then [''split_required_without_children_or_execution_tasks''] else []))"

definition enforce_ready_gate :: "work_scope \<Rightarrow> work_item \<Rightarrow> item_state \<Rightarrow> board \<Rightarrow> board_error option" where
  "enforce_ready_gate sc i to b =
    (if to \<noteq> Ready \<and> to \<noteq> Doing then None
     else if to = Ready \<and> wi_status i = Doing then None
     else (case item_state_string sc (wi_id i) ''work.refinement.phase'' b of
             None \<Rightarrow> None
           | Some phase \<Rightarrow>
               (let reasons = readiness_reasons sc i phase b
                in if reasons = [] then None
                   else Some (ReadinessGateFailed (wi_status i) to reasons))))"

definition doing_count :: "work_scope \<Rightarrow> work_item list \<Rightarrow> nat" where
  "doing_count sc items = length (filter (\<lambda>i. wi_scope i = sc \<and> wi_status i = Doing) items)"

definition enforce_doing_limit :: "work_scope \<Rightarrow> item_state \<Rightarrow> item_state \<Rightarrow> board \<Rightarrow> board_error option" where
  "enforce_doing_limit sc from to b =
    (if to \<noteq> Doing then None
     else if doing_count sc (wb_items b) < default_wip_limit then None
     else Some (WipLimitExceeded from default_wip_limit (doing_count sc (wb_items b))))"

definition transition_event ::
  "work_scope \<Rightarrow> string \<Rightarrow> string \<Rightarrow> item_state \<Rightarrow> item_state \<Rightarrow> string option \<Rightarrow> nat \<Rightarrow> item_event" where
  "transition_event sc event_id iid from to reason now =
    \<lparr>ie_tenant = sc_tenant sc, ie_id = event_id, ie_item = iid, ie_created_at = now,
     ie_kind = ''status.transition'',
     ie_payload = JObj [(''from'', JStr (item_state_text from)), (''to'', JStr (item_state_text to)),
       (''reason'', case reason of None \<Rightarrow> JNull | Some r \<Rightarrow> JStr r)]\<rparr>"

definition live_task :: "task_state \<Rightarrow> bool" where
  "live_task s \<longleftrightarrow> s \<in> {TQueued, TLeased, TRunning, TPaused}"

definition coalesce :: "'a option \<Rightarrow> 'a \<Rightarrow> 'a option" where
  "coalesce v d = (case v of None \<Rightarrow> Some d | Some x \<Rightarrow> Some x)"

definition cancelled_task :: "nat \<Rightarrow> work_task \<Rightarrow> work_task" where
  "cancelled_task now t =
    t\<lparr>wt_status := TCancelled, wt_lease_owner := None, wt_lease_expires := None,
      wt_finished_at := coalesce (wt_finished_at t) now, wt_updated_at := now\<rparr>"

definition closed_subagent :: "nat \<Rightarrow> string \<Rightarrow> subagent \<Rightarrow> subagent" where
  "closed_subagent now reason s =
    s\<lparr>sb_status := SClosed, sb_updated_at := now, sb_closed_at := coalesce (sb_closed_at s) now,
      sb_close_reason := coalesce (sb_close_reason s) reason\<rparr>"

definition interrupt_signal :: "string \<Rightarrow> nat \<Rightarrow> queue_signal" where
  "interrupt_signal text now =
    \<lparr>qs_kind = ''interrupt'', qs_inbox = None, qs_queue_mode = ''interrupt'', qs_message = text,
     qs_created_at = now\<rparr>"

definition item_subagent :: "work_scope \<Rightarrow> string \<Rightarrow> subagent \<Rightarrow> bool" where
  "item_subagent sc iid s \<longleftrightarrow> sb_scope s = sc \<and> sb_item s = Some iid"

definition apply_terminal_cleanup ::
  "work_scope \<Rightarrow> string \<Rightarrow> item_state \<Rightarrow> string option \<Rightarrow> nat \<Rightarrow> board \<Rightarrow> board" where
  "apply_terminal_cleanup sc iid status reason now b =
    (let text = (case trimmed reason of None \<Rightarrow> ''work item '' @ item_state_text status | Some r \<Rightarrow> r);
         running = filter (\<lambda>s. item_subagent sc iid s \<and> sb_status s = SRunning) (wb_subagents b)
     in b\<lparr>wb_tasks := update_where (\<lambda>t. wt_tenant t = sc_tenant sc \<and> wt_item t = iid \<and> live_task (wt_status t))
            (cancelled_task now) (wb_tasks b),
          wb_subagents := update_where (\<lambda>s. item_subagent sc iid s \<and> sb_status s \<notin> {SClosed, SFailed})
            (closed_subagent now text) (wb_subagents b),
          wb_signals := foldl (\<lambda>m s. om_set (sc_tenant sc, sb_conversation s) (interrupt_signal text now) m)
            (wb_signals b) running\<rparr>)"

definition set_item_status :: "work_scope \<Rightarrow> string \<Rightarrow> item_state \<Rightarrow> nat \<Rightarrow> board \<Rightarrow> board" where
  "set_item_status sc iid to now b =
    b\<lparr>wb_items := update_where (item_at sc iid) (\<lambda>i. i\<lparr>wi_status := to, wi_updated_at := now\<rparr>) (wb_items b)\<rparr>"

definition transition_item ::
  "work_scope \<Rightarrow> string \<Rightarrow> string \<Rightarrow> item_state \<Rightarrow> string option \<Rightarrow> nat \<Rightarrow> board
    \<Rightarrow> (board_error + work_item option) \<times> board" where
  "transition_item sc event_id iid to reason now b =
    (case get_item sc iid b of
       None \<Rightarrow> (Inr None, b)
     | Some existing \<Rightarrow>
         (case assert_transition_allowed (wi_status existing) to of
            Some e \<Rightarrow> (Inl e, b)
          | None \<Rightarrow>
              (case enforce_ready_gate sc existing to b of
                 Some e \<Rightarrow> (Inl e, b)
               | None \<Rightarrow>
                   (case enforce_doing_limit sc (wi_status existing) to b of
                      Some e \<Rightarrow> (Inl e, b)
                    | None \<Rightarrow>
                        (let b1 = set_item_status sc iid to now b;
                             b2 = b1\<lparr>wb_events := wb_events b1 @
                               [transition_event sc event_id iid (wi_status existing) to reason now]\<rparr>;
                             b3 = (if is_terminal_item_state to
                                   then apply_terminal_cleanup sc iid to reason now b2 else b2)
                         in (Inr (get_item sc iid b1), b3))))))"

subsection \<open>Histories\<close>

definition item_key :: "work_item \<Rightarrow> string \<times> string" where
  "item_key i = (sc_tenant (wi_scope i), wi_id i)"

definition items_ok :: "work_item list \<Rightarrow> bool" where
  "items_ok items \<longleftrightarrow> distinct (map item_key items) \<and> (\<forall>sc. doing_count sc items \<le> default_wip_limit)"

text \<open>
  A step of the board: an item operation in any scope, or anything else that leaves the items
  alone. Deletions are steps only where \<open>deletes\<close> allows them.
\<close>

inductive board_step :: "bool \<Rightarrow> board \<Rightarrow> board \<Rightarrow> bool" for deletes where
  board_create: "board_step deletes b (snd (create_item sc new_id now src p b))"
| board_update: "board_step deletes b (snd (update_item sc iid p now b))"
| board_transition: "board_step deletes b (snd (transition_item sc event_id iid to reason now b))"
| board_delete: "deletes \<Longrightarrow> board_step deletes b (snd (delete_item sc iid b))"
| board_other: "wb_items b' = wb_items b \<Longrightarrow> board_step deletes b b'"

lemma create_item_items:
  "wb_items (snd (create_item sc new_id now src p b)) = wb_items b \<or>
   (\<exists>k. wb_items (snd (create_item sc new_id now src p b)) = wb_items b @ [new_item sc new_id now k p] \<and>
     (sc_tenant sc, new_id) \<notin> item_key ` set (wb_items b))"
  by (auto simp: create_item_def Let_def matches_iff item_key_def split: option.splits if_splits)

lemma update_item_items:
  "wb_items (snd (update_item sc iid p now b)) = wb_items b \<or>
   wb_items (snd (update_item sc iid p now b)) = update_where (item_at sc iid) (patch_item p now) (wb_items b)"
  by (simp add: update_item_def Let_def)

lemma cleanup_items [simp]: "wb_items (apply_terminal_cleanup sc iid to reason now b) = wb_items b"
  by (simp add: apply_terminal_cleanup_def Let_def)

lemma transition_item_cases:
  assumes "transition_item sc event_id iid to reason now b = (res, b')"
  obtains (none) "b' = b" "\<And>i. res \<noteq> Inr (Some i)"
  | (moved) i where "get_item sc iid b = Some i" "to \<in> set (work_item_transitions (wi_status i))"
      "enforce_ready_gate sc i to b = None" "enforce_doing_limit sc (wi_status i) to b = None"
      "res = Inr (get_item sc iid (set_item_status sc iid to now b))"
      "wb_items b' = wb_items (set_item_status sc iid to now b)"
proof (cases "get_item sc iid b")
  case None
  with assms show ?thesis by (auto simp: transition_item_def intro: none)
next
  case (Some i)
  show ?thesis
  proof (cases "to \<in> set (work_item_transitions (wi_status i)) \<and> enforce_ready_gate sc i to b = None \<and>
      enforce_doing_limit sc (wi_status i) to b = None")
    case True
    with assms Some show ?thesis
      by (auto simp: transition_item_def assert_transition_allowed_def Let_def intro!: moved)
  next
    case False
    with assms Some show ?thesis
      by (auto simp: transition_item_def assert_transition_allowed_def Let_def
          split: if_splits option.splits intro!: none)
  qed
qed

definition status_path :: "item_state \<Rightarrow> item_state \<Rightarrow> bool" where
  "status_path = (\<lambda>s t. t \<in> set (work_item_transitions s))\<^sup>*\<^sup>*"

definition item_evolves :: "work_item \<Rightarrow> work_item \<Rightarrow> bool" where
  "item_evolves i j \<longleftrightarrow> item_key j = item_key i \<and> wi_scope j = wi_scope i \<and> wi_kind j = wi_kind i \<and>
    wi_parent j = wi_parent i \<and> wi_created_from j = wi_created_from i \<and>
    wi_created_at j = wi_created_at i \<and> status_path (wi_status i) (wi_status j) \<and>
    (is_terminal_item_state (wi_status i) \<longrightarrow> wi_status j = wi_status i)"

lemma path_terminal: "status_path s t \<Longrightarrow> is_terminal_item_state s \<Longrightarrow> t = s"
  unfolding status_path_def by (induction rule: rtranclp_induct) (auto simp: terminal_no_transition)

lemma item_evolves_refl [simp]: "item_evolves i i"
  by (simp add: item_evolves_def status_path_def)

lemma item_evolves_trans: "item_evolves i j \<Longrightarrow> item_evolves j k \<Longrightarrow> item_evolves i k"
  by (auto simp: item_evolves_def status_path_def)

lemma items_refl [simp]: "table_evolves item_evolves xs xs"
  by (rule table_evolves_refl) simp

lemma items_snoc [simp]: "table_evolves item_evolves xs (xs @ new)"
  by (rule table_evolves_snoc) simp

lemma items_trans:
  "table_evolves item_evolves x y \<Longrightarrow> table_evolves item_evolves y z \<Longrightarrow> table_evolves item_evolves x z"
  by (rule table_evolves_trans [where R = item_evolves]) (rule item_evolves_trans)

lemma patch_evolves [simp]: "item_evolves i (patch_item p now i)"
  by (simp add: item_evolves_def patch_item_def item_key_def status_path_def)

lemma get_item_unique:
  assumes "distinct (map item_key (wb_items b))" "get_item sc iid b = Some i" "j \<in> set (wb_items b)"
    "item_at sc iid j"
  shows "j = i"
proof -
  from assms(2) have "i \<in> set (wb_items b)" "item_at sc iid i"
    by (auto simp: get_item_def find_Some_iff)
  then show ?thesis
    using distinct_keys_eq [OF assms(1), of j i] assms(3,4) by (simp add: item_key_def item_at_def)
qed

lemma status_evolves:
  assumes "to \<in> set (work_item_transitions (wi_status i))"
  shows "item_evolves i (i\<lparr>wi_status := to, wi_updated_at := now\<rparr>)"
  using assms by (auto simp: item_evolves_def item_key_def status_path_def terminal_no_transition)

lemma item_step_evolves:
  assumes "board_step False b b'" "distinct (map item_key (wb_items b))"
  shows "table_evolves item_evolves (wb_items b) (wb_items b')"
  using assms(1)
proof cases
  case (board_create sc new_id now src p)
  then show ?thesis using create_item_items [of sc new_id now src p b] by auto
next
  case (board_update sc iid p now)
  moreover have "table_evolves item_evolves (wb_items b) (update_where (item_at sc iid) (patch_item p now) (wb_items b))"
    by (rule table_evolves_update) simp_all
  ultimately show ?thesis using update_item_items [of sc iid p now b] by auto
next
  case (board_transition sc event_id iid to reason now)
  obtain res b'' where t: "transition_item sc event_id iid to reason now b = (res, b'')" by fastforce
  then have e: "b' = b''" using board_transition by simp
  from t show ?thesis
  proof (cases rule: transition_item_cases)
    case none
    then show ?thesis by (simp add: e)
  next
    case (moved i)
    have "table_evolves item_evolves (wb_items b) (wb_items (set_item_status sc iid to now b))"
      unfolding set_item_status_def
      by (simp, rule table_evolves_update)
        (use get_item_unique [OF assms(2) moved(1)] status_evolves [OF moved(2)] in auto)
    then show ?thesis by (simp add: e moved(6))
  qed
next
  case board_other
  then show ?thesis by simp
qed simp

lemma remove_keys:
  "distinct (map item_key (wb_items b)) \<Longrightarrow> distinct (map item_key (wb_items (remove_item sc iid b)))"
proof -
  assume d: "distinct (map item_key (wb_items b))"
  let ?u = "update_where (\<lambda>i. wi_scope i = sc \<and> wi_parent i = Some iid) (\<lambda>i. i\<lparr>wi_parent := None\<rparr>) (wb_items b)"
  have "map item_key ?u = map item_key (wb_items b)"
    by (rule map_update_where) (simp add: item_key_def)
  then have "distinct (map item_key ?u)" using d by simp
  then show ?thesis by (simp add: remove_item_def distinct_map_filter)
qed

lemma remove_doing: "doing_count sc' (wb_items (remove_item sc iid b)) \<le> doing_count sc' (wb_items b)"
proof -
  let ?u = "update_where (\<lambda>i. wi_scope i = sc \<and> wi_parent i = Some iid) (\<lambda>i. i\<lparr>wi_parent := None\<rparr>) (wb_items b)"
  have "doing_count sc' (filter P ?u) \<le> doing_count sc' ?u" for P
    unfolding doing_count_def by (rule filter_filter_le)
  moreover have "doing_count sc' ?u \<le> doing_count sc' (wb_items b)"
    unfolding doing_count_def by (rule filter_update_le) simp
  ultimately show ?thesis unfolding remove_item_def by (simp, meson le_trans)
qed

lemma transition_doing:
  assumes "distinct (map item_key (wb_items b))" "\<forall>sc. doing_count sc (wb_items b) \<le> default_wip_limit"
    and "enforce_doing_limit sc old to b = None"
  shows "doing_count sc' (wb_items (set_item_status sc iid to now b)) \<le> default_wip_limit"
proof (cases "to = Doing \<and> sc' = sc")
  case True
  have "length (filter (item_at sc iid) (wb_items b)) \<le> 1"
    by (rule at_most_one [OF assms(1), where v = "(sc_tenant sc, iid)"]) (auto simp: item_at_def item_key_def)
  moreover have "doing_count sc (wb_items b) < default_wip_limit"
    using assms(3) True by (simp add: enforce_doing_limit_def split: if_splits)
  moreover have "doing_count sc' (wb_items (set_item_status sc iid to now b)) \<le>
      doing_count sc' (wb_items b) + length (filter (item_at sc iid) (wb_items b))"
    unfolding doing_count_def set_item_status_def by (simp add: filter_update_add)
  ultimately show ?thesis using True by auto
next
  case False
  have "doing_count sc' (wb_items (set_item_status sc iid to now b)) \<le> doing_count sc' (wb_items b)"
    unfolding doing_count_def set_item_status_def
    by (simp, rule filter_update_le) (use False in \<open>auto simp: item_at_def\<close>)
  then show ?thesis using assms(2) le_trans by blast
qed

lemma item_step_ok:
  assumes "board_step True b b'" "items_ok (wb_items b)"
  shows "items_ok (wb_items b')"
  using assms(1)
proof cases
  case (board_create sc new_id now src p)
  have "doing_count s (wb_items b @ [new_item sc new_id now k p]) = doing_count s (wb_items b)" for s k
    by (simp add: doing_count_def new_item_def)
  moreover have "item_key (new_item sc new_id now k p) = (sc_tenant sc, new_id)" for k
    by (simp add: item_key_def new_item_def)
  ultimately show ?thesis
    using assms(2) board_create create_item_items [of sc new_id now src p b] by (auto simp: items_ok_def)
next
  case (board_update sc iid p now)
  let ?u = "update_where (item_at sc iid) (patch_item p now) (wb_items b)"
  have "map item_key ?u = map item_key (wb_items b)"
    by (rule map_update_where) (simp add: item_key_def patch_item_def)
  moreover have "doing_count s ?u \<le> doing_count s (wb_items b)" for s
    unfolding doing_count_def by (rule filter_update_le) (simp add: patch_item_def)
  ultimately have "items_ok ?u" using assms(2) by (auto simp: items_ok_def intro: le_trans)
  then show ?thesis using update_item_items [of sc iid p now b] assms(2) board_update by auto
next
  case (board_transition sc event_id iid to reason now)
  obtain res b'' where t: "transition_item sc event_id iid to reason now b = (res, b'')" by fastforce
  then have e: "b' = b''" using board_transition by simp
  from t show ?thesis
  proof (cases rule: transition_item_cases)
    case none
    then show ?thesis using assms(2) by (simp add: e)
  next
    case (moved i)
    have "map item_key (wb_items (set_item_status sc iid to now b)) = map item_key (wb_items b)"
      unfolding set_item_status_def by (simp, rule map_update_where) (simp add: item_key_def)
    then show ?thesis
      using assms(2) transition_doing [OF _ _ moved(4)] by (auto simp: items_ok_def e moved(6))
  qed
next
  case (board_delete sc iid)
  have "items_ok (wb_items (remove_item sc iid b))"
    using assms(2) remove_keys remove_doing unfolding items_ok_def by (meson le_trans)
  then show ?thesis using assms(2) board_delete
    by (auto simp: delete_item_def split: option.splits)
next
  case board_other
  then show ?thesis using assms(2) by simp
qed

lemma item_steps_ok:
  "(board_step True)\<^sup>*\<^sup>* b b' \<Longrightarrow> items_ok (wb_items b) \<Longrightarrow> items_ok (wb_items b')"
  by (induction rule: rtranclp_induct) (auto intro: item_step_ok)

text \<open>
  C9. The WIP limit holds always: whatever operations run on the board, in whatever order and
  scope, no scope ever has more than two items in doing.
\<close>

theorem wip_limit:
  assumes "(board_step True)\<^sup>*\<^sup>* b b'" "items_ok (wb_items b)"
  shows "doing_count sc (wb_items b') \<le> default_wip_limit"
  using item_steps_ok [OF assms] by (simp add: items_ok_def)

text \<open>
  C8. The life of work items: as long as an item is not deleted, its identity, kind, parent and
  origin never change, its status only moves along the transition table, and a done, failed or
  cancelled item stays what it is.
\<close>

theorem item_history:
  assumes "(board_step False)\<^sup>*\<^sup>* b b'" "items_ok (wb_items b)"
  shows "table_evolves item_evolves (wb_items b) (wb_items b')"
  using assms(1)
proof (induction rule: rtranclp_induct)
  case base
  show ?case by simp
next
  case (step y z)
  have "(board_step True)\<^sup>*\<^sup>* b y"
    using step.hyps(1) by (rule rtranclp_mono [THEN predicate2D, rotated])
      (auto elim!: board_step.cases intro: board_step.intros)
  then have "distinct (map item_key (wb_items y))"
    using item_steps_ok assms(2) by (auto simp: items_ok_def)
  from item_step_evolves [OF step.hyps(2) this] show ?case using step.IH items_trans by blast
qed

definition demo_scope :: work_scope where
  "demo_scope = \<lparr>sc_tenant = ''t'', sc_agent = ''a'', sc_workspace = ''w''\<rparr>"

definition empty_board :: board where
  "empty_board = \<lparr>wb_items = [], wb_tasks = [], wb_subagents = [], wb_clarifications = [], wb_kv = [],
    wb_events = [], wb_signals = [], wb_outbox = []\<rparr>"

definition demo_item :: item_input where
  "demo_item = \<lparr>ii_kind = ActionItem, ii_title = ''x'', ii_priority = None, ii_acceptance = None,
    ii_fingerprint = None, ii_budgets = None, ii_parent = None, ii_created_from = Some ''c''\<rparr>"

definition demo_board :: board where
  "demo_board = snd (transition_item demo_scope ''e1'' ''i'' Ready None 2
     (snd (create_item demo_scope ''i'' 1 None demo_item empty_board)))"

lemma empty_items_ok: "items_ok (wb_items empty_board)"
  by (simp add: items_ok_def empty_board_def doing_count_def)

lemma demo_board_reached: "(board_step d)\<^sup>*\<^sup>* empty_board demo_board"
  unfolding demo_board_def
  by (rule rtranclp.rtrancl_into_rtrancl [OF r_into_rtranclp]) (rule board_create, rule board_transition)

lemma demo_items_ok: "items_ok (wb_items demo_board)"
  by (rule item_steps_ok [OF demo_board_reached empty_items_ok])

lemma wip_limit_witness:
  "doing_count demo_scope (wb_items demo_board) \<le> default_wip_limit"
  by (rule wip_limit [OF demo_board_reached empty_items_ok])

lemma item_history_witness:
  "table_evolves item_evolves (wb_items demo_board)
    (wb_items (snd (transition_item demo_scope ''e2'' ''i'' Doing None 3 demo_board)))"
  by (rule item_history [OF r_into_rtranclp demo_items_ok]) (rule board_transition)

subsection \<open>The ready gate\<close>

text \<open>
  The readiness gate: an item under refinement that gets into ready or doing (other than by
  falling back from doing to ready) has acceptance criteria, no open clarification, a known size
  and no readiness blocker, is not awaiting clarification, and if it must be split it has a child
  item or an execution task.
\<close>

theorem ready_gate:
  assumes "transition_item sc event_id iid to reason now b = (Inr (Some i'), b')"
    and "get_item sc iid b = Some i" "to = Ready \<or> to = Doing" "\<not> (to = Ready \<and> wi_status i = Doing)"
    and "item_state_string sc iid ''work.refinement.phase'' b = Some phase"
  shows "wi_acceptance i \<noteq> None \<and> open_clarifications sc iid b = 0 \<and>
    item_state_string sc iid ''work.size.class'' b \<in>
      {Some ''small'', Some ''medium'', Some ''large'', Some ''split_required''} \<and>
    phase \<noteq> ''awaiting_clarification'' \<and> item_state_string sc iid ''work.readiness.reason'' b = None \<and>
    (item_state_string sc iid ''work.size.class'' b = Some ''split_required'' \<longrightarrow>
      0 < child_items sc iid b \<or> 0 < execution_tasks sc iid b)"
proof -
  from assms(2) have iid: "wi_id i = iid" by (auto simp: get_item_def item_at_def find_Some_iff)
  from assms(1) have "enforce_ready_gate sc i to b = None"
    by (cases rule: transition_item_cases) (use assms(2) in auto)
  then have "readiness_reasons sc i phase b = []"
    using assms(3-5) iid by (auto simp: enforce_ready_gate_def Let_def split: if_splits)
  then show ?thesis by (auto simp: readiness_reasons_def Let_def iid split: if_splits option.splits)
qed

definition demo_kv :: "string \<Rightarrow> string \<Rightarrow> state_kv" where
  "demo_kv k v = \<lparr>kv_scope = demo_scope, kv_item = ''i'', kv_key = k, kv_value = JStr v,
    kv_updated_at = 0, kv_updated_by = None, kv_provenance = None\<rparr>"

definition refined_board :: board where
  "refined_board = (snd (create_item demo_scope ''i'' 1 None (demo_item\<lparr>ii_acceptance := Some JNull\<rparr>) empty_board))
    \<lparr>wb_kv := [demo_kv ''work.refinement.phase'' ''done'', demo_kv ''work.size.class'' ''small'']\<rparr>"

lemma ready_gate_witness: "open_clarifications demo_scope ''i'' refined_board = 0"
proof -
  obtain i where i: "get_item demo_scope ''i'' refined_board = Some i" "wi_status i = Backlog"
    by (rule that [of "hd (wb_items refined_board)"]) code_simp+
  obtain res b' where r: "transition_item demo_scope ''e'' ''i'' Ready None 2 refined_board = (res, b')" by fastforce
  have "(case fst (transition_item demo_scope ''e'' ''i'' Ready None 2 refined_board) of
      Inr (Some _) \<Rightarrow> True | _ \<Rightarrow> False)" by code_simp
  with r obtain i' where "res = Inr (Some i')" by (auto split: sum.splits option.splits)
  moreover have "item_state_string demo_scope ''i'' ''work.refinement.phase'' refined_board = Some ''done''"
    by code_simp
  ultimately show ?thesis
    using ready_gate [of demo_scope "''e''" "''i''" Ready None 2 refined_board i' b' i "''done''"] r i by simp
qed

subsection \<open>The end of an item\<close>

lemma cancelled_not_live [simp]: "\<not> live_task (wt_status (cancelled_task now t))"
  by (simp add: cancelled_task_def live_task_def)

lemma closed_is_closed [simp]: "sb_status (closed_subagent now msg s) = SClosed"
  by (simp add: closed_subagent_def)

lemma fold_signals:
  "om_get (foldl (\<lambda>m s. om_set (tn, sb_conversation s) sig m) m ss) (tn, k) =
    (if k \<in> sb_conversation ` set ss then Some sig else om_get m (tn, k))"
  by (induction ss arbitrary: m) auto

text \<open>
  Finishing an item stops its work: when an item becomes done, failed or cancelled, none of
  its tasks is queued, leased, running or paused any more and none of its subagents is open, the
  conversation of every subagent that was running has an interrupt signal, and the tasks of other
  items are untouched.
\<close>

theorem terminal_cleanup:
  assumes "transition_item sc event_id iid to reason now b = (Inr (Some i), b')" "is_terminal_item_state to"
  shows "(\<forall>t \<in> set (wb_tasks b'). wt_tenant t = sc_tenant sc \<and> wt_item t = iid \<longrightarrow>
      \<not> live_task (wt_status t) ) \<and>
    (\<forall>s \<in> set (wb_subagents b'). item_subagent sc iid s \<longrightarrow> sb_status s \<in> {SClosed, SFailed}) \<and>
    (\<forall>s \<in> set (wb_subagents b). item_subagent sc iid s \<and> sb_status s = SRunning \<longrightarrow>
      map_option qs_kind (om_get (wb_signals b') (sc_tenant sc, sb_conversation s)) = Some ''interrupt'') \<and>
    filter (\<lambda>t. \<not> (wt_tenant t = sc_tenant sc \<and> wt_item t = iid)) (wb_tasks b') =
      filter (\<lambda>t. \<not> (wt_tenant t = sc_tenant sc \<and> wt_item t = iid)) (wb_tasks b)"
proof -
  have keep: "filter Q (update_where P f xs) = filter Q xs"
    if "\<And>x. P x \<Longrightarrow> \<not> Q x \<and> \<not> Q (f x)" for P Q f and xs :: "work_task list"
    using that by (induction xs) (auto simp: update_where_def)
  have others: "filter (\<lambda>t. \<not> (wt_tenant t = sc_tenant sc \<and> wt_item t = iid))
      (update_where (\<lambda>t. wt_tenant t = sc_tenant sc \<and> wt_item t = iid \<and> live_task (wt_status t))
        (cancelled_task now) xs) =
      filter (\<lambda>t. \<not> (wt_tenant t = sc_tenant sc \<and> wt_item t = iid)) xs" for xs
    by (rule keep) (simp add: cancelled_task_def)
  from assms obtain b2 where b2: "b' = apply_terminal_cleanup sc iid to reason now b2"
    "wb_tasks b2 = wb_tasks b" "wb_subagents b2 = wb_subagents b"
    by (auto simp: transition_item_def set_item_status_def Let_def split: option.splits)
  define msg where "msg = (case trimmed reason of None \<Rightarrow> ''work item '' @ item_state_text to | Some r \<Rightarrow> r)"
  have tasks: "wb_tasks b' = update_where (\<lambda>t. wt_tenant t = sc_tenant sc \<and> wt_item t = iid \<and> live_task (wt_status t))
      (cancelled_task now) (wb_tasks b)"
    and subs: "wb_subagents b' = update_where (\<lambda>s. item_subagent sc iid s \<and> sb_status s \<notin> {SClosed, SFailed})
      (closed_subagent now msg) (wb_subagents b)"
    and sigs: "wb_signals b' = foldl (\<lambda>m s. om_set (sc_tenant sc, sb_conversation s) (interrupt_signal msg now) m)
      (wb_signals b2) (filter (\<lambda>s. item_subagent sc iid s \<and> sb_status s = SRunning) (wb_subagents b))"
    by (simp_all add: b2 apply_terminal_cleanup_def Let_def msg_def)
  have "\<forall>t \<in> set (wb_tasks b'). wt_tenant t = sc_tenant sc \<and> wt_item t = iid \<longrightarrow> \<not> live_task (wt_status t)"
    unfolding tasks set_update_where by auto
  moreover have "\<forall>s \<in> set (wb_subagents b'). item_subagent sc iid s \<longrightarrow> sb_status s \<in> {SClosed, SFailed}"
    unfolding subs set_update_where by auto
  moreover have "\<forall>s \<in> set (wb_subagents b). item_subagent sc iid s \<and> sb_status s = SRunning \<longrightarrow>
      map_option qs_kind (om_get (wb_signals b') (sc_tenant sc, sb_conversation s)) = Some ''interrupt''"
    by (auto simp: sigs fold_signals interrupt_signal_def)
  ultimately show ?thesis using others [of "wb_tasks b"] by (simp add: tasks)
qed

definition worked_board :: board where
  "worked_board = demo_board\<lparr>wb_subagents := [\<lparr>sb_id = ''s'', sb_scope = demo_scope, sb_parent_conversation = None,
    sb_item = Some ''i'', sb_task = None, sb_profile = ''p'', sb_conversation = ''k'', sb_status = SRunning,
    sb_desktop = None, sb_node = None, sb_created_at = 0, sb_updated_at = 0, sb_heartbeat_at = None,
    sb_closed_at = None, sb_close_reason = None\<rparr>]\<rparr>"

lemma terminal_cleanup_witness:
  "map_option qs_kind (om_get (wb_signals (snd (transition_item demo_scope ''e3'' ''i'' ItemCancelled None 5 worked_board)))
    (''t'', ''k'')) = Some ''interrupt''"
proof -
  obtain res b' where r: "transition_item demo_scope ''e3'' ''i'' ItemCancelled None 5 worked_board = (res, b')" by fastforce
  have "(case fst (transition_item demo_scope ''e3'' ''i'' ItemCancelled None 5 worked_board) of
      Inr (Some _) \<Rightarrow> True | _ \<Rightarrow> False)" by code_simp
  with r obtain i where "res = Inr (Some i)" by (auto split: sum.splits option.splits)
  from terminal_cleanup [OF r [unfolded this]] r show ?thesis
    by (simp add: is_terminal_item_state_def worked_board_def item_subagent_def demo_scope_def)
qed

end
