(* ===== verification/Work_Tasks.thy ===== *)
theory Work_Tasks
  imports Work_Items
begin

text \<open>
  Tasks of work items: \<open>gateway/src/modules/workboard/tasks-dal.ts\<close>, \<open>task-updates-dal.ts\<close>,
  \<open>task-leasing-dal.ts\<close>, \<open>task-helpers.ts\<close> and the dependency functions of \<open>dal-helpers.ts\<close>.
  The recursive depth-first search of the cycle check runs on fuel; one more than the number of
  nodes is always enough. Ids are text: the JSON column of dependencies is a list of strings.
\<close>

subsection \<open>Dependencies\<close>

definition is_terminal_task_state :: "task_state option \<Rightarrow> bool" where
  "is_terminal_task_state s \<longleftrightarrow>
    s = Some TCompleted \<or> s = Some TSkipped \<or> s = Some TCancelled \<or> s = Some TFailed"

definition normalize_task_deps :: "string list \<Rightarrow> string list" where
  "normalize_task_deps ids =
    foldl (\<lambda>out raw. let i = trim raw in if i = [] then out else add_unique out i) [] ids"

type_synonym graph = "(string, string list) omap"

definition deps_of :: "graph \<Rightarrow> string \<Rightarrow> string list" where
  "deps_of adj n = (case om_get adj n of None \<Rightarrow> [] | Some ds \<Rightarrow> ds)"

datatype mark = Visiting | Finished

text \<open>\<open>None\<close> is running out of fuel; the flag says that a cycle was found.\<close>

fun dfs :: "nat \<Rightarrow> graph \<Rightarrow> string \<Rightarrow> (string \<Rightarrow> mark option) \<Rightarrow> (bool \<times> (string \<Rightarrow> mark option)) option"
  and dfs_list :: "nat \<Rightarrow> graph \<Rightarrow> string list \<Rightarrow> (string \<Rightarrow> mark option) \<Rightarrow> (bool \<times> (string \<Rightarrow> mark option)) option"
where
  "dfs 0 adj node st = None"
| "dfs (Suc k) adj node st =
    (case st node of
       Some Visiting \<Rightarrow> Some (True, st)
     | Some Finished \<Rightarrow> Some (False, st)
     | None \<Rightarrow>
         (case dfs_list k adj (deps_of adj node) (st(node \<mapsto> Visiting)) of
            None \<Rightarrow> None
          | Some (True, st') \<Rightarrow> Some (True, st')
          | Some (False, st') \<Rightarrow> Some (False, st'(node \<mapsto> Finished))))"
| "dfs_list k adj [] st = Some (False, st)"
| "dfs_list k adj (d # ds) st =
    (case dfs k adj d st of
       None \<Rightarrow> None
     | Some (True, st') \<Rightarrow> Some (True, st')
     | Some (False, st') \<Rightarrow> dfs_list k adj ds st')"

fun search_roots :: "nat \<Rightarrow> graph \<Rightarrow> string list \<Rightarrow> (string \<Rightarrow> mark option) \<Rightarrow> bool option" where
  "search_roots k adj [] st = Some False"
| "search_roots k adj (n # ns) st =
    (if st n \<noteq> None then search_roots k adj ns st
     else case dfs k adj n st of
       None \<Rightarrow> None
     | Some (True, _) \<Rightarrow> Some True
     | Some (False, st') \<Rightarrow> search_roots k adj ns st')"

definition graph_nodes :: "graph \<Rightarrow> string list" where
  "graph_nodes adj = map fst adj @ concat (map snd adj)"

definition search_cycle :: "graph \<Rightarrow> bool option" where
  "search_cycle adj = search_roots (Suc (length (graph_nodes adj))) adj (map fst adj) Map.empty"

definition has_task_dependency_cycle :: "graph \<Rightarrow> bool" where
  "has_task_dependency_cycle adj = (search_cycle adj = Some True)"

subsection \<open>The search is right\<close>

definition dep_edges :: "graph \<Rightarrow> (string \<times> string) set" where
  "dep_edges adj = {(n, d). d \<in> set (deps_of adj n)}"

definition search_ok :: "graph \<Rightarrow> (string \<Rightarrow> mark option) \<Rightarrow> bool" where
  "search_ok adj st \<longleftrightarrow> (\<forall>n. st n = Some Finished \<longrightarrow>
    (n, n) \<notin> (dep_edges adj)\<^sup>+ \<and> (\<forall>d \<in> set (deps_of adj n). st d = Some Finished))"

definition grows :: "(string \<Rightarrow> mark option) \<Rightarrow> (string \<Rightarrow> mark option) \<Rightarrow> bool" where
  "grows st st' \<longleftrightarrow> (\<forall>v. st v = Some Visiting \<longleftrightarrow> st' v = Some Visiting) \<and>
    (\<forall>v. st v = Some Finished \<longrightarrow> st' v = Some Finished)"

lemma finished_closed:
  assumes "search_ok adj st" "(n, m) \<in> (dep_edges adj)\<^sup>+" "st n = Some Finished"
  shows "st m = Some Finished"
  using assms(2,3)
  by (induction rule: trancl_induct) (use assms(1) in \<open>auto simp: search_ok_def dep_edges_def\<close>)

lemma finish_node:
  assumes ok: "search_ok adj st" and vis: "st node = Some Visiting"
    and deps: "\<forall>d \<in> set (deps_of adj node). st d = Some Finished"
  shows "search_ok adj (st(node \<mapsto> Finished))"
proof -
  have "(node, node) \<notin> (dep_edges adj)\<^sup>+"
  proof
    assume "(node, node) \<in> (dep_edges adj)\<^sup>+"
    then obtain d where d: "(node, d) \<in> dep_edges adj" "(d, node) \<in> (dep_edges adj)\<^sup>*"
      by (meson tranclD)
    then have f: "st d = Some Finished" using deps by (simp add: dep_edges_def)
    then have "d \<noteq> node" using vis by auto
    then have "(d, node) \<in> (dep_edges adj)\<^sup>+" using d(2) by (simp add: rtrancl_eq_or_trancl)
    from finished_closed [OF ok this f] vis show False by simp
  qed
  then show ?thesis using ok deps by (auto simp: search_ok_def)
qed

lemma dfs_sound:
  "dfs k adj node st = Some (r, st') \<Longrightarrow> search_ok adj st \<Longrightarrow>
    (\<forall>v. st v = Some Visiting \<longrightarrow> (v, node) \<in> (dep_edges adj)\<^sup>+) \<Longrightarrow>
    (if r then \<exists>n. (n, n) \<in> (dep_edges adj)\<^sup>+
     else search_ok adj st' \<and> grows st st' \<and> st' node = Some Finished)"
  "dfs_list k adj ds st = Some (r, st') \<Longrightarrow> search_ok adj st \<Longrightarrow>
    (\<forall>v d. st v = Some Visiting \<longrightarrow> d \<in> set ds \<longrightarrow> (v, d) \<in> (dep_edges adj)\<^sup>+) \<Longrightarrow>
    (if r then \<exists>n. (n, n) \<in> (dep_edges adj)\<^sup>+
     else search_ok adj st' \<and> grows st st' \<and> (\<forall>d \<in> set ds. st' d = Some Finished))"
proof (induction k adj node st and k adj ds st arbitrary: r st' and r st' rule: dfs_dfs_list.induct)
  case (1 adj node st)
  then show ?case by simp
next
  case (2 k adj node st)
  consider (v) "st node = Some Visiting" | (f) "st node = Some Finished" | (n) "st node = None"
    by (cases "st node") (auto intro: mark.exhaust)
  then show ?case
  proof cases
    case v
    then show ?thesis using 2 by auto
  next
    case f
    then show ?thesis using 2 by (auto simp: grows_def)
  next
    case n
    let ?st = "st(node \<mapsto> Visiting)"
    from 2(2) n obtain r1 st1 where l: "dfs_list k adj (deps_of adj node) ?st = Some (r1, st1)"
      and r: "r = r1" "st' = (if r1 then st1 else st1(node \<mapsto> Finished))"
      by (auto split: option.splits bool.splits prod.splits)
    have ok: "search_ok adj ?st" using 2(3) n by (auto simp: search_ok_def)
    have path: "\<forall>v d. ?st v = Some Visiting \<longrightarrow> d \<in> set (deps_of adj node) \<longrightarrow> (v, d) \<in> (dep_edges adj)\<^sup>+"
    proof (intro allI impI)
      fix v d
      assume v: "?st v = Some Visiting" and d: "d \<in> set (deps_of adj node)"
      then have e: "(node, d) \<in> dep_edges adj" by (simp add: dep_edges_def)
      show "(v, d) \<in> (dep_edges adj)\<^sup>+"
      proof (cases "v = node")
        case True
        with e show ?thesis by blast
      next
        case False
        with v 2(4) have "(v, node) \<in> (dep_edges adj)\<^sup>+" by simp
        with e show ?thesis by (rule trancl_into_trancl [rotated])
      qed
    qed
    from 2(1) [OF n l ok path] show ?thesis
    proof (cases r1)
      case False
      with \<open>if r1 then _ else _\<close> have a: "search_ok adj st1" "grows ?st st1"
        "\<forall>d \<in> set (deps_of adj node). st1 d = Some Finished" by simp_all
      then have "st1 node = Some Visiting" by (simp add: grows_def) (metis fun_upd_same)
      from finish_node [OF a(1) this a(3)] a(2) n show ?thesis
        by (auto simp: r False grows_def split: if_splits)
    qed (simp add: r)
  qed
next
  case (3 k adj st)
  then show ?case by (auto simp: grows_def)
next
  case (4 k adj d ds st)
  from 4(3) obtain r1 st1 where l: "dfs k adj d st = Some (r1, st1)"
    and r: "r1 \<Longrightarrow> r" "\<not> r1 \<Longrightarrow> dfs_list k adj ds st1 = Some (r, st')"
    by (auto split: option.splits bool.splits prod.splits)
  have a: "if r1 then \<exists>n. (n, n) \<in> (dep_edges adj)\<^sup>+
     else search_ok adj st1 \<and> grows st st1 \<and> st1 d = Some Finished"
    by (rule 4(1) [OF l 4(4)]) (use 4(5) in simp)
  show ?case
  proof (cases r1)
    case True
    with a r show ?thesis by simp
  next
    case False
    with a have b: "search_ok adj st1" "grows st st1" "st1 d = Some Finished" by simp_all
    have "if r then \<exists>n. (n, n) \<in> (dep_edges adj)\<^sup>+
      else search_ok adj st' \<and> grows st1 st' \<and> (\<forall>d \<in> set ds. st' d = Some Finished)"
      by (rule 4(2) [OF l refl _ r(2) [OF False] b(1)]) (use False 4(5) b(2) in \<open>auto simp: grows_def\<close>)
    with b show ?thesis by (auto simp: grows_def split: if_splits)
  qed
qed

text \<open>Fuel: a call marks a node before it descends, so unmarked nodes bound the depth.\<close>

definition unmarked :: "string set \<Rightarrow> (string \<Rightarrow> mark option) \<Rightarrow> nat" where
  "unmarked U st = card {n \<in> U. st n = None}"

lemma unmarked_mono: "finite U \<Longrightarrow> (\<And>n. st' n = None \<Longrightarrow> st n = None) \<Longrightarrow> unmarked U st' \<le> unmarked U st"
  unfolding unmarked_def by (rule card_mono) auto

lemma unmarked_visit:
  assumes "finite U" "node \<in> U" "st node = None"
  shows "unmarked U (st(node \<mapsto> m)) < unmarked U st"
  unfolding unmarked_def by (rule psubset_card_mono) (use assms in auto)

lemma dfs_marks:
  "dfs k adj node st = Some (r, st') \<Longrightarrow> st n \<noteq> None \<Longrightarrow> st' n \<noteq> None"
  "dfs_list k adj ds st = Some (r, st') \<Longrightarrow> st n \<noteq> None \<Longrightarrow> st' n \<noteq> None"
  by (induction k adj node st and k adj ds st arbitrary: r st' and r st' rule: dfs_dfs_list.induct)
    (fastforce split: option.splits mark.splits prod.splits bool.splits if_splits)+

lemma dfs_total:
  "\<lbrakk>finite U; \<forall>n \<in> U. set (deps_of adj n) \<subseteq> U; node \<in> U; unmarked U st < k\<rbrakk> \<Longrightarrow> dfs k adj node st \<noteq> None"
  "\<lbrakk>finite U; \<forall>n \<in> U. set (deps_of adj n) \<subseteq> U; set ds \<subseteq> U; unmarked U st < k\<rbrakk> \<Longrightarrow> dfs_list k adj ds st \<noteq> None"
proof (induction k adj node st and k adj ds st rule: dfs_dfs_list.induct)
  case (2 k adj node st)
  show ?case
  proof (cases "st node")
    case None
    have "unmarked U (st(node \<mapsto> Visiting)) < k"
      using unmarked_visit [OF 2(2) 2(4), of st Visiting] None 2(5) by linarith
    from 2(1) [OF None 2(2,3) _ this] 2(3,4)
    have "dfs_list k adj (deps_of adj node) (st(node \<mapsto> Visiting)) \<noteq> None" by blast
    then obtain r1 st1 where "dfs_list k adj (deps_of adj node) (st(node \<mapsto> Visiting)) = Some (r1, st1)" by auto
    with None show ?thesis by (cases r1) simp_all
  qed (auto split: mark.splits)
next
  case (4 k adj d ds st)
  have "dfs k adj d st \<noteq> None" by (rule 4(1)) (use 4 in auto)
  then obtain r1 st1 where l: "dfs k adj d st = Some (r1, st1)" by auto
  have "unmarked U st1 < k"
    using unmarked_mono [OF 4(3), of st1 st] dfs_marks(1) [OF l] 4(6) by (meson le_less_trans)
  then show ?case using 4(2) [OF l refl _ 4(3,4)] 4(5) l by (cases r1) auto
qed simp_all

lemma search_roots_sound:
  "search_roots k adj ns st = Some r \<Longrightarrow> search_ok adj st \<Longrightarrow> (\<forall>v. st v \<noteq> Some Visiting) \<Longrightarrow>
    if r then \<exists>n. (n, n) \<in> (dep_edges adj)\<^sup>+ else \<forall>n \<in> set ns. (n, n) \<notin> (dep_edges adj)\<^sup>+"
proof (induction ns arbitrary: st)
  case (Cons n ns)
  show ?case
  proof (cases "st n")
    case None
    with Cons.prems(1) have "dfs k adj n st \<noteq> None" by (cases "dfs k adj n st") simp_all
    then obtain r1 st1 where l: "dfs k adj n st = Some (r1, st1)" by auto
    have r: "r1 \<Longrightarrow> r" "\<not> r1 \<Longrightarrow> search_roots k adj ns st1 = Some r"
      using Cons.prems(1) None l by simp_all
    have a: "if r1 then \<exists>n. (n, n) \<in> (dep_edges adj)\<^sup>+ else search_ok adj st1 \<and> grows st st1 \<and> st1 n = Some Finished"
      by (rule dfs_sound(1) [OF l Cons.prems(2)]) (use Cons.prems(3) in simp)
    show ?thesis
    proof (cases r1)
      case True
      with a r show ?thesis by simp
    next
      case False
      with a have b: "search_ok adj st1" "\<forall>v. st1 v \<noteq> Some Visiting" "st1 n = Some Finished"
        using Cons.prems(3) by (auto simp: grows_def)
      have "(n, n) \<notin> (dep_edges adj)\<^sup>+" using b by (simp add: search_ok_def)
      with Cons.IH [OF r(2) [OF False] b(1,2)] show ?thesis by simp
    qed
  next
    case (Some m)
    with Cons.prems(3) have "st n = Some Finished" by (cases m) auto
    then have "(n, n) \<notin> (dep_edges adj)\<^sup>+" using Cons.prems(2) by (simp add: search_ok_def)
    with Cons.IH [OF _ Cons.prems(2,3)] Cons.prems(1) Some show ?thesis by simp
  qed
qed simp

lemma search_roots_total:
  assumes "finite U" "\<forall>n \<in> U. set (deps_of adj n) \<subseteq> U"
  shows "set ns \<subseteq> U \<Longrightarrow> unmarked U st < k \<Longrightarrow> search_roots k adj ns st \<noteq> None"
proof (induction ns arbitrary: st)
  case (Cons n ns)
  have "dfs k adj n st \<noteq> None" by (rule dfs_total(1) [OF assms]) (use Cons.prems in auto)
  then obtain r1 st1 where l: "dfs k adj n st = Some (r1, st1)" by auto
  have "unmarked U st1 < k"
    using unmarked_mono [OF assms(1), of st1 st] dfs_marks(1) [OF l] Cons.prems(2) by (meson le_less_trans)
  with Cons l show ?case by (cases r1) auto
qed simp

lemma deps_found:
  assumes "d \<in> set (deps_of adj n)"
  shows "\<exists>ds. (n, ds) \<in> set adj \<and> d \<in> set ds"
  using assms by (cases "map_of adj n") (auto simp: deps_of_def om_get_def dest: map_of_SomeD)

lemma edge_from_key: "(n, d) \<in> dep_edges adj \<Longrightarrow> n \<in> fst ` set adj"
  by (force simp: dep_edges_def dest: deps_found)

lemma graph_closed: "set (deps_of adj n) \<subseteq> set (graph_nodes adj)"
  by (force simp: graph_nodes_def dest: deps_found)

lemma search_cycle_correct:
  "search_cycle adj = Some (\<not> acyclic (dep_edges adj))"
proof -
  let ?U = "set (graph_nodes adj)"
  have "unmarked ?U Map.empty \<le> length (graph_nodes adj)"
    by (simp add: unmarked_def card_length)
  then have "search_cycle adj \<noteq> None"
    unfolding search_cycle_def
    by (intro search_roots_total [where U = ?U]) (simp_all add: graph_closed, simp add: graph_nodes_def)
  then obtain r where r: "search_cycle adj = Some r" by auto
  have "if r then \<exists>n. (n, n) \<in> (dep_edges adj)\<^sup>+ else \<forall>n \<in> fst ` set adj. (n, n) \<notin> (dep_edges adj)\<^sup>+"
    using search_roots_sound [OF r [unfolded search_cycle_def]] by (simp add: search_ok_def)
  moreover have "n \<in> fst ` set adj" if "(n, n) \<in> (dep_edges adj)\<^sup>+" for n
    using that by (meson edge_from_key tranclD)
  ultimately show ?thesis using r by (auto simp: acyclic_def split: if_splits)
qed

text \<open>
  C10. The cycle check decides cyclicity: the depth-first search always returns within its fuel,
  and it reports a cycle exactly when the dependency graph has one.
\<close>

theorem cycle_check_correct:
  "search_cycle adj = Some (\<not> acyclic (dep_edges adj)) \<and>
   (has_task_dependency_cycle adj \<longleftrightarrow> \<not> acyclic (dep_edges adj))"
  by (simp add: search_cycle_correct has_task_dependency_cycle_def)

subsection \<open>Task operations\<close>

fun task_state_text :: "task_state \<Rightarrow> string" where
  "task_state_text TQueued = ''queued''"
| "task_state_text TLeased = ''leased''"
| "task_state_text TRunning = ''running''"
| "task_state_text TPaused = ''paused''"
| "task_state_text TCompleted = ''completed''"
| "task_state_text TFailed = ''failed''"
| "task_state_text TCancelled = ''cancelled''"
| "task_state_text TSkipped = ''skipped''"

definition task_at :: "work_scope \<Rightarrow> string \<Rightarrow> work_task \<Rightarrow> bool" where
  "task_at sc tid t \<longleftrightarrow> wt_tenant t = sc_tenant sc \<and> wt_id t = tid"

definition get_task :: "work_scope \<Rightarrow> string \<Rightarrow> board \<Rightarrow> work_task option" where
  "get_task sc tid b = find (\<lambda>t. task_at sc tid t \<and> task_in_scope sc b t) (wb_tasks b)"

definition list_tasks :: "work_scope \<Rightarrow> string \<Rightarrow> board \<Rightarrow> work_task list" where
  "list_tasks sc iid b =
    order_by wt_created_at wt_id (filter (\<lambda>t. task_in_scope sc b t \<and> wt_item t = iid) (wb_tasks b))"

text \<open>The first offending dependency decides the error.\<close>

fun assert_deps_in_item :: "work_scope \<Rightarrow> string \<Rightarrow> string list \<Rightarrow> board \<Rightarrow> board_error option" where
  "assert_deps_in_item sc iid [] b = None"
| "assert_deps_in_item sc iid (d # ds) b =
    (case get_task sc d b of
       None \<Rightarrow> Some (BoardError (''depends_on task not found: '' @ d))
     | Some t \<Rightarrow>
         if wt_item t \<noteq> iid then Some (BoardError ''depends_on task is outside work_item_id'')
         else assert_deps_in_item sc iid ds b)"

definition task_graph :: "work_scope \<Rightarrow> string \<Rightarrow> board \<Rightarrow> graph" where
  "task_graph sc iid b =
    map (\<lambda>t. (wt_id t, normalize_task_deps (wt_depends_on t)))
      (filter (\<lambda>t. task_in_scope sc b t \<and> wt_item t = iid) (wb_tasks b))"

definition assert_no_cycle :: "work_scope \<Rightarrow> string \<Rightarrow> string \<Rightarrow> string list \<Rightarrow> board \<Rightarrow> board_error option" where
  "assert_no_cycle sc iid tid deps b =
    (if has_task_dependency_cycle (om_set tid deps (task_graph sc iid b))
     then Some (BoardError ''task dependency cycle detected'') else None)"

record task_input =
  tin_item :: string
  tin_status :: "task_state option"
  tin_depends_on :: "string list"
  tin_profile :: string
  tin_side_effect :: string
  tin_turn :: "string option"
  tin_approval :: "string option"
  tin_artifacts :: "json list"
  tin_started_at :: "nat option"
  tin_finished_at :: "nat option"
  tin_result :: "string option"

definition new_task :: "work_scope \<Rightarrow> string \<Rightarrow> nat \<Rightarrow> string list \<Rightarrow> task_input \<Rightarrow> work_task" where
  "new_task sc tid now deps p =
    \<lparr>wt_tenant = sc_tenant sc, wt_id = tid, wt_item = tin_item p,
     wt_status = (case tin_status p of None \<Rightarrow> TQueued | Some s \<Rightarrow> s), wt_lease_owner = None,
     wt_lease_expires = None, wt_depends_on = deps, wt_profile = tin_profile p,
     wt_side_effect = tin_side_effect p, wt_turn = tin_turn p, wt_approval = tin_approval p,
     wt_subagent = None, wt_pause_reason = None, wt_pause_detail = None,
     wt_artifacts = tin_artifacts p, wt_started_at = tin_started_at p, wt_finished_at = tin_finished_at p,
     wt_result = tin_result p, wt_created_at = now, wt_updated_at = now\<rparr>"

definition create_task ::
  "work_scope \<Rightarrow> string \<Rightarrow> nat \<Rightarrow> task_input \<Rightarrow> board \<Rightarrow> (board_error + work_task) \<times> board" where
  "create_task sc tid now p b =
    (let deps = normalize_task_deps (tin_depends_on p) in
     if tid \<in> set deps then (Inl (BoardError ''work item task depends_on cannot include itself''), b)
     else (case get_item sc (tin_item p) b of
       None \<Rightarrow> (Inl (BoardError ''work item not found for task''), b)
     | Some i \<Rightarrow>
         if is_terminal_item_state (wi_status i)
         then (Inl (BoardError (''cannot create task for terminal work item ('' @ item_state_text (wi_status i) @ '')'')), b)
         else (case assert_deps_in_item sc (tin_item p) deps b of
                 Some e \<Rightarrow> (Inl e, b)
               | None \<Rightarrow>
                   if matches (task_at sc tid) (wb_tasks b) then (Inl (BoardError ''unique violation''), b)
                   else (let t = new_task sc tid now deps p
                         in (Inr t, b\<lparr>wb_tasks := wb_tasks b @ [t]\<rparr>)))))"

definition delete_task ::
  "work_scope \<Rightarrow> string \<Rightarrow> board \<Rightarrow> (board_error + work_task option) \<times> board" where
  "delete_task sc tid b =
    (case get_task sc tid b of
       None \<Rightarrow> (Inr None, b)
     | Some t \<Rightarrow>
         if wt_status t \<in> {TLeased, TRunning, TPaused}
         then (Inl (BoardError (''cannot delete active task ('' @ task_state_text (wt_status t) @ '')'')), b)
         else (Inr (Some t), b\<lparr>wb_tasks := filter (\<lambda>t. \<not> (task_at sc tid t \<and> task_in_scope sc b t)) (wb_tasks b)\<rparr>))"

subsection \<open>Leasing\<close>

definition lease_free :: "nat \<Rightarrow> work_task \<Rightarrow> bool" where
  "lease_free now t \<longleftrightarrow> wt_status t = TQueued \<or>
    wt_status t = TLeased \<and> (case wt_lease_expires t of None \<Rightarrow> True | Some x \<Rightarrow> x \<le> now)"

definition status_by_id :: "work_task list \<Rightarrow> string \<Rightarrow> task_state option" where
  "status_by_id rows tid = map_option wt_status (find (\<lambda>t. wt_id t = tid) (rev rows))"

definition runnable :: "work_task list \<Rightarrow> nat \<Rightarrow> work_task \<Rightarrow> bool" where
  "runnable rows now t \<longleftrightarrow> lease_free now t \<and>
    (\<forall>d \<in> set (normalize_task_deps (wt_depends_on t)). is_terminal_task_state (status_by_id rows d))"

definition find_runnable_task_ids :: "work_task list \<Rightarrow> nat \<Rightarrow> string list" where
  "find_runnable_task_ids rows now = map wt_id (filter (runnable rows now) rows)"

definition lease_row :: "string \<Rightarrow> nat \<Rightarrow> nat \<Rightarrow> work_task \<Rightarrow> work_task" where
  "lease_row owner expires updated_at t =
    t\<lparr>wt_status := TLeased, wt_lease_owner := Some owner, wt_lease_expires := Some expires,
      wt_updated_at := updated_at\<rparr>"

fun lease_tasks ::
  "work_scope \<Rightarrow> string \<Rightarrow> nat \<Rightarrow> nat \<Rightarrow> nat \<Rightarrow> string list \<Rightarrow> work_task list \<Rightarrow> work_task list \<times> work_task list" where
  "lease_tasks sc owner expires updated_at now [] rows = ([], rows)"
| "lease_tasks sc owner expires updated_at now (i # ids) rows =
    (let P = (\<lambda>t. task_at sc i t \<and> lease_free now t);
         rows' = update_where P (lease_row owner expires updated_at) rows;
         hit = map (lease_row owner expires updated_at) (filter P rows)
     in case lease_tasks sc owner expires updated_at now ids rows' of
          (leased, rows'') \<Rightarrow> (hit @ leased, rows''))"

definition leased_event :: "work_scope \<Rightarrow> string \<Rightarrow> (nat \<Rightarrow> string) \<Rightarrow> nat \<Rightarrow> nat \<Rightarrow> nat \<times> work_task \<Rightarrow> ws_event" where
  "leased_event sc iid fresh expires at e =
    \<lparr>we_id = fresh (fst e), we_type = ''work.task.leased'', we_at = at, we_scope = sc,
     we_payload = JObj [(''work_item_id'', JStr iid), (''task_id'', JStr (wt_id (snd e))),
       (''lease_expires_at_ms'', JNum (int expires))]\<rparr>"

definition lease_ttl :: "int option \<Rightarrow> nat" where
  "lease_ttl v = nat (max 1000 (case v of None \<Rightarrow> 60000 | Some n \<Rightarrow> n))"

definition lease_limit :: "int option \<Rightarrow> nat" where
  "lease_limit v = nat (max 1 (min 200 (case v of None \<Rightarrow> 25 | Some n \<Rightarrow> n)))"

definition lease_runnable_tasks ::
  "work_scope \<Rightarrow> string \<Rightarrow> string \<Rightarrow> (nat \<Rightarrow> string) \<Rightarrow> nat \<Rightarrow> int option \<Rightarrow> int option \<Rightarrow> board
    \<Rightarrow> (board_error + work_task list) \<times> board" where
  "lease_runnable_tasks sc iid owner fresh now ttl limit b =
    (case get_item sc iid b of
       None \<Rightarrow> (Inl (BoardError ''work item not found for lease''), b)
     | Some i \<Rightarrow>
         if is_terminal_item_state (wi_status i)
         then (Inl (BoardError (''cannot lease tasks for terminal work item ('' @ item_state_text (wi_status i) @ '')'')), b)
         else (let expires = now + lease_ttl ttl;
                   ids = take (lease_limit limit) (find_runnable_task_ids (list_tasks sc iid b) now)
               in case lease_tasks sc owner expires now now ids (wb_tasks b) of
                    (leased, rows) \<Rightarrow>
                      (Inr leased,
                       b\<lparr>wb_tasks := rows,
                         wb_outbox := wb_outbox b @
                           map (leased_event sc iid fresh expires now) (zip [0..<length leased] leased)\<rparr>)))"

subsection \<open>Updating\<close>

record task_patch =
  tp_status :: "task_state option"
  tp_depends_on :: "string list option"
  tp_profile :: "string option"
  tp_side_effect :: "string option"
  tp_turn :: "string option option"
  tp_subagent :: "string option option"
  tp_approval :: "string option option"
  tp_pause_reason :: "string option option"
  tp_pause_detail :: "string option option"
  tp_artifacts :: "json list option"
  tp_started_at :: "nat option option"
  tp_finished_at :: "nat option option"
  tp_result :: "string option option"

definition is_leaving_lease :: "task_state \<Rightarrow> task_state option \<Rightarrow> bool" where
  "is_leaving_lease previous next_status \<longleftrightarrow>
    previous = TLeased \<and> next_status \<noteq> None \<and> next_status \<noteq> Some TLeased"

definition assert_lease_mutation_allowed ::
  "work_task \<Rightarrow> string option \<Rightarrow> nat \<Rightarrow> bool \<Rightarrow> bool \<Rightarrow> board_error option" where
  "assert_lease_mutation_allowed existing owner now leaving allow_expired =
    (if \<not> leaving then None
     else case trimmed owner of
       None \<Rightarrow> Some (BoardError ''lease_owner is required to update leased tasks'')
     | Some o' \<Rightarrow>
         if wt_lease_owner existing \<noteq> Some o' then Some (BoardError ''lease_owner mismatch'')
         else (case wt_lease_expires existing of
                 None \<Rightarrow> Some (BoardError ''task lease expired'')
               | Some x \<Rightarrow> if x \<le> now \<and> \<not> allow_expired then Some (BoardError ''task lease expired'') else None))"

text \<open>The outer option is the error, the inner one the absent patch.\<close>

definition resolve_depends_on ::
  "work_scope \<Rightarrow> string \<Rightarrow> work_task \<Rightarrow> task_patch \<Rightarrow> board \<Rightarrow> board_error + string list option" where
  "resolve_depends_on sc tid existing p b =
    (case tp_depends_on p of
       None \<Rightarrow> Inr None
     | Some ds \<Rightarrow>
         (let deps = normalize_task_deps ds in
          if tid \<in> set deps then Inl (BoardError ''work item task depends_on cannot include itself'')
          else (case assert_deps_in_item sc (wt_item existing) deps b of
                  Some e \<Rightarrow> Inl e
                | None \<Rightarrow>
                    (case assert_no_cycle sc (wt_item existing) tid deps b of
                       Some e \<Rightarrow> Inl e
                     | None \<Rightarrow> Inr (Some deps)))))"

definition empty_task_patch :: "task_patch \<Rightarrow> bool" where
  "empty_task_patch p \<longleftrightarrow> tp_status p = None \<and> tp_depends_on p = None \<and> tp_profile p = None \<and>
    tp_side_effect p = None \<and> tp_turn p = None \<and> tp_subagent p = None \<and> tp_approval p = None \<and>
    tp_pause_reason p = None \<and> tp_pause_detail p = None \<and> tp_artifacts p = None \<and>
    tp_started_at p = None \<and> tp_finished_at p = None \<and> tp_result p = None"

definition patch_task :: "task_patch \<Rightarrow> string list option \<Rightarrow> bool \<Rightarrow> nat \<Rightarrow> work_task \<Rightarrow> work_task" where
  "patch_task p deps leaving now t =
    \<lparr>wt_tenant = wt_tenant t, wt_id = wt_id t, wt_item = wt_item t,
     wt_status = patched (tp_status p) (wt_status t),
     wt_lease_owner = (if leaving then None else wt_lease_owner t),
     wt_lease_expires = (if leaving then None else wt_lease_expires t),
     wt_depends_on = patched deps (wt_depends_on t), wt_profile = patched (tp_profile p) (wt_profile t),
     wt_side_effect = patched (tp_side_effect p) (wt_side_effect t), wt_turn = patched (tp_turn p) (wt_turn t),
     wt_approval = patched (tp_approval p) (wt_approval t), wt_subagent = patched (tp_subagent p) (wt_subagent t),
     wt_pause_reason = patched (tp_pause_reason p) (wt_pause_reason t),
     wt_pause_detail = patched (tp_pause_detail p) (wt_pause_detail t),
     wt_artifacts = patched (tp_artifacts p) (wt_artifacts t),
     wt_started_at = patched (tp_started_at p) (wt_started_at t),
     wt_finished_at = patched (tp_finished_at p) (wt_finished_at t),
     wt_result = patched (tp_result p) (wt_result t), wt_created_at = wt_created_at t, wt_updated_at = now\<rparr>"

fun status_event_type :: "task_state \<Rightarrow> string option" where
  "status_event_type TRunning = Some ''work.task.started''"
| "status_event_type TPaused = Some ''work.task.paused''"
| "status_event_type TCompleted = Some ''work.task.completed''"
| "status_event_type TFailed = Some ''work.task.failed''"
| "status_event_type TCancelled = Some ''work.task.cancelled''"
| "status_event_type _ = None"

definition opt_field :: "string \<Rightarrow> string option \<Rightarrow> (string \<times> json) list" where
  "opt_field k v = (case v of None \<Rightarrow> [] | Some s \<Rightarrow> if s = [] then [] else [(k, JStr s)])"

definition flat :: "'a option option \<Rightarrow> 'a option" where
  "flat v = (case v of None \<Rightarrow> None | Some x \<Rightarrow> x)"

definition status_fields :: "task_patch \<Rightarrow> work_task \<Rightarrow> (string \<times> json) list" where
  "status_fields p t =
    (case wt_status t of
       TRunning \<Rightarrow> opt_field ''turn_id'' (wt_turn t) @ opt_field ''subagent_id'' (flat (tp_subagent p))
     | TPaused \<Rightarrow> opt_field ''approval_id'' (wt_approval t) @
         opt_field ''pause_reason'' (flat (tp_pause_reason p)) @ opt_field ''pause_detail'' (flat (tp_pause_detail p))
     | _ \<Rightarrow> opt_field ''result_summary'' (wt_result t))"

definition emit_status_change ::
  "work_scope \<Rightarrow> string \<Rightarrow> nat \<Rightarrow> task_state \<Rightarrow> work_task \<Rightarrow> task_patch \<Rightarrow> ws_event list" where
  "emit_status_change sc event_id now previous t p =
    (if wt_status t = previous then []
     else case status_event_type (wt_status t) of
       None \<Rightarrow> []
     | Some ty \<Rightarrow>
         [\<lparr>we_id = event_id, we_type = ty, we_at = now, we_scope = sc,
           we_payload = JObj ([(''work_item_id'', JStr (wt_item t)), (''task_id'', JStr (wt_id t))] @ status_fields p t)\<rparr>])"

definition update_task ::
  "work_scope \<Rightarrow> string \<Rightarrow> string \<Rightarrow> string option \<Rightarrow> nat \<Rightarrow> bool \<Rightarrow> task_patch \<Rightarrow> nat \<Rightarrow> board
    \<Rightarrow> (board_error + work_task option) \<times> board" where
  "update_task sc event_id tid owner now allow_expired p updated_at b =
    (case get_task sc tid b of
       None \<Rightarrow> (Inr None, b)
     | Some existing \<Rightarrow>
         (let leaving = is_leaving_lease (wt_status existing) (tp_status p) in
          case assert_lease_mutation_allowed existing owner now leaving allow_expired of
            Some e \<Rightarrow> (Inl e, b)
          | None \<Rightarrow>
              (case resolve_depends_on sc tid existing p b of
                 Inl e \<Rightarrow> (Inl e, b)
               | Inr deps \<Rightarrow>
                   if empty_task_patch p then (Inr (Some existing), b)
                   else (let t = patch_task p deps leaving updated_at existing
                         in (Inr (Some t),
                             b\<lparr>wb_tasks := update_where (task_at sc tid) (patch_task p deps leaving updated_at) (wb_tasks b),
                               wb_outbox := wb_outbox b @
                                 emit_status_change sc event_id updated_at (wt_status existing) t p\<rparr>)))))"

subsection \<open>Dependencies stay acyclic\<close>

definition task_key :: "work_task \<Rightarrow> string \<times> string" where
  "task_key t = (wt_tenant t, wt_id t)"

definition task_deps :: "work_task \<Rightarrow> string list" where
  "task_deps t = normalize_task_deps (wt_depends_on t)"

definition task_edges :: "string \<Rightarrow> string \<Rightarrow> work_task list \<Rightarrow> (string \<times> string) set" where
  "task_edges tn iid tasks =
    {(wt_id t, d) |t d. t \<in> set tasks \<and> wt_tenant t = tn \<and> wt_item t = iid \<and> d \<in> set (task_deps t)}"

definition tasks_ok :: "work_task list \<Rightarrow> bool" where
  "tasks_ok tasks \<longleftrightarrow> distinct (map task_key tasks) \<and> (\<forall>tn iid. acyclic (task_edges tn iid tasks))"

definition task_shape :: "work_task \<Rightarrow> string \<times> string \<times> string \<times> string list" where
  "task_shape t = (wt_tenant t, wt_id t, wt_item t, wt_depends_on t)"

text \<open>
  A step of the task table: a task operation in any scope, where the id of a new task is fresh,
  or anything else that keeps what is left of the tasks' ids and dependencies (finishing or
  deleting an item, for one).
\<close>

inductive task_step :: "board \<Rightarrow> board \<Rightarrow> bool" where
  task_create: "\<forall>t \<in> set (wb_tasks b). wt_id t \<noteq> tid \<and> tid \<notin> set (task_deps t) \<Longrightarrow>
    task_step b (snd (create_task sc tid now p b))"
| task_delete: "task_step b (snd (delete_task sc tid b))"
| task_lease: "task_step b (snd (lease_runnable_tasks sc iid owner fresh now ttl limit b))"
| task_update: "task_step b (snd (update_task sc event_id tid owner now allow p updated_at b))"
| task_other: "distinct (map task_key (wb_tasks b')) \<Longrightarrow>
    task_shape ` set (wb_tasks b') \<subseteq> task_shape ` set (wb_tasks b) \<Longrightarrow> task_step b b'"

lemma edges_mono:
  "task_shape ` set tasks' \<subseteq> task_shape ` set tasks \<Longrightarrow> task_edges tn iid tasks' \<subseteq> task_edges tn iid tasks"
  unfolding task_edges_def task_deps_def task_shape_def by (auto simp: image_subset_iff image_iff) metis

lemma shape_ok:
  "tasks_ok tasks \<Longrightarrow> distinct (map task_key tasks') \<Longrightarrow>
    task_shape ` set tasks' \<subseteq> task_shape ` set tasks \<Longrightarrow> tasks_ok tasks'"
  unfolding tasks_ok_def using edges_mono acyclic_subset by metis

lemma acyclic_source:
  assumes "acyclic E" "\<forall>(a, b) \<in> E \<union> N. b \<noteq> v" "\<forall>(a, b) \<in> N. a = v"
  shows "acyclic (E \<union> N)"
proof -
  have path: "(a, b) \<in> (E \<union> N)\<^sup>+ \<Longrightarrow> a \<noteq> v \<Longrightarrow> (a, b) \<in> E\<^sup>+ \<and> b \<noteq> v" for a b
    by (induction rule: trancl_induct) (use assms(2,3) in \<open>auto intro: trancl_into_trancl\<close>)
  have "(n, n) \<notin> (E \<union> N)\<^sup>+" for n
  proof (cases "n = v")
    case True
    have "\<not> (z, n) \<in> E \<union> N" for z using assms(2) True by auto
    then show ?thesis by (meson tranclD2)
  next
    case False
    then show ?thesis using path assms(1) by (auto simp: acyclic_def)
  qed
  then show ?thesis by (simp add: acyclic_def)
qed

lemma edges_snoc:
  "task_edges tn iid (tasks @ [t]) = task_edges tn iid tasks \<union>
    (if wt_tenant t = tn \<and> wt_item t = iid then {(wt_id t, d) |d. d \<in> set (task_deps t)} else {})"
  by (auto simp: task_edges_def)

lemma normalize_set: "set (normalize_task_deps ids) = {trim i |i. i \<in> set ids \<and> trim i \<noteq> []}"
proof -
  have "set (foldl (\<lambda>out raw. let i = trim raw in if i = [] then out else add_unique out i) acc ids) =
      set acc \<union> {trim i |i. i \<in> set ids \<and> trim i \<noteq> []}" for acc
    by (induction ids arbitrary: acc) (auto simp: Let_def add_unique_def)
  then show ?thesis by (simp add: normalize_task_deps_def)
qed

lemma normalize_idem_set [simp]: "set (normalize_task_deps (normalize_task_deps ids)) = set (normalize_task_deps ids)"
  by (auto simp: normalize_set) (metis trim_idem)

lemma create_task_tasks:
  "wb_tasks (snd (create_task sc tid now p b)) = wb_tasks b \<or>
   wb_tasks (snd (create_task sc tid now p b)) =
     wb_tasks b @ [new_task sc tid now (normalize_task_deps (tin_depends_on p)) p] \<and>
   tid \<notin> set (normalize_task_deps (tin_depends_on p))"
  by (auto simp: create_task_def Let_def split: option.splits)

lemma create_ok:
  assumes "tasks_ok (wb_tasks b)" "\<forall>t \<in> set (wb_tasks b). wt_id t \<noteq> tid \<and> tid \<notin> set (task_deps t)"
  shows "tasks_ok (wb_tasks (snd (create_task sc tid now p b)))"
proof -
  let ?deps = "normalize_task_deps (tin_depends_on p)" and ?t = "new_task sc tid now (normalize_task_deps (tin_depends_on p)) p"
  consider (same) "wb_tasks (snd (create_task sc tid now p b)) = wb_tasks b"
    | (new) "wb_tasks (snd (create_task sc tid now p b)) = wb_tasks b @ [?t]" "tid \<notin> set ?deps"
    using create_task_tasks [of sc tid now p b] by blast
  then show ?thesis
  proof cases
    case same
    then show ?thesis using assms(1) by simp
  next
    case new
    have t: "wt_id ?t = tid" "set (task_deps ?t) = set ?deps"
      by (simp_all add: new_task_def task_deps_def)
    have "acyclic (task_edges tn iid (wb_tasks b @ [?t]))" for tn iid
      unfolding edges_snoc
    proof (rule acyclic_source [where v = tid])
      show "acyclic (task_edges tn iid (wb_tasks b))" using assms(1) by (simp add: tasks_ok_def)
      show "\<forall>(a, b) \<in> task_edges tn iid (wb_tasks b) \<union>
        (if wt_tenant ?t = tn \<and> wt_item ?t = iid then {(wt_id ?t, d) |d. d \<in> set (task_deps ?t)} else {}). b \<noteq> tid"
        using assms(2) new(2) t by (auto simp: task_edges_def)
      show "\<forall>(a, b) \<in> (if wt_tenant ?t = tn \<and> wt_item ?t = iid
          then {(wt_id ?t, d) |d. d \<in> set (task_deps ?t)} else {}). a = tid"
        using t by auto
    qed
    moreover have "distinct (map task_key (wb_tasks b @ [?t]))"
      using assms t by (auto simp: tasks_ok_def task_key_def)
    ultimately show ?thesis by (simp add: tasks_ok_def new(1))
  qed
qed

text \<open>The graph that the cycle check builds is the item's graph.\<close>

lemma graph_edges:
  assumes "distinct (map task_key (wb_tasks b))" "get_task sc tid b = Some t"
  shows "task_edges (sc_tenant sc) (wt_item t) (update_where (task_at sc tid) (patch_task p (Some deps) l u) (wb_tasks b))
    \<subseteq> dep_edges (om_set tid (normalize_task_deps deps) (task_graph sc (wt_item t) b))"
proof
  fix e
  assume "e \<in> task_edges (sc_tenant sc) (wt_item t) (update_where (task_at sc tid) (patch_task p (Some deps) l u) (wb_tasks b))"
  then obtain x d where x: "x \<in> set (update_where (task_at sc tid) (patch_task p (Some deps) l u) (wb_tasks b))"
    "wt_tenant x = sc_tenant sc" "wt_item x = wt_item t" "d \<in> set (task_deps x)" "e = (wt_id x, d)"
    by (auto simp: task_edges_def)
  then obtain y where y: "y \<in> set (wb_tasks b)" "x = (if task_at sc tid y then patch_task p (Some deps) l u y else y)"
    by (auto simp: set_update_where)
  show "e \<in> dep_edges (om_set tid (normalize_task_deps deps) (task_graph sc (wt_item t) b))"
  proof (cases "task_at sc tid y")
    case True
    then show ?thesis using x y by (auto simp: dep_edges_def deps_of_def task_deps_def patch_task_def patched_def task_at_def)
  next
    case False
    then have xy: "x = y" and n: "wt_id y \<noteq> tid" using y x(2) by (auto simp: task_at_def)
    from assms(2) have "task_in_scope sc b t" by (auto simp: get_task_def find_Some_iff)
    then have "task_in_scope sc b y" using x(2,3) xy by (simp add: task_in_scope_def)
    then have "(wt_id y, task_deps y) \<in> set (task_graph sc (wt_item t) b)"
      using y(1) x(3) xy by (auto simp: task_graph_def task_deps_def)
    moreover have "distinct (map fst (task_graph sc (wt_item t) b))"
    proof -
      have "distinct (map wt_id (filter (\<lambda>t'. task_in_scope sc b t' \<and> wt_item t' = wt_item t) (wb_tasks b)))"
        using assms(1) by (auto simp: distinct_map inj_on_def task_key_def task_in_scope_def distinct_map_filter)
      then show ?thesis by (simp add: task_graph_def comp_def)
    qed
    ultimately have "om_get (task_graph sc (wt_item t) b) (wt_id y) = Some (task_deps y)"
      by (simp add: om_get_def)
    then show ?thesis using x(4,5) xy n by (simp add: dep_edges_def deps_of_def)
  qed
qed

lemma resolve_depends:
  assumes "resolve_depends_on sc tid t p b = Inr deps"
  shows "deps = map_option normalize_task_deps (tp_depends_on p) \<and>
    (\<forall>ds. deps = Some ds \<longrightarrow> acyclic (dep_edges (om_set tid ds (task_graph sc (wt_item t) b))))"
  using assms
  by (auto simp: resolve_depends_on_def assert_no_cycle_def has_task_dependency_cycle_def
      search_cycle_correct Let_def split: option.splits if_splits)

lemma get_task_in: "get_task sc tid b = Some t \<Longrightarrow> t \<in> set (wb_tasks b) \<and> task_at sc tid t \<and> task_in_scope sc b t"
  by (auto simp: get_task_def find_Some_iff)

lemma update_ok:
  assumes "tasks_ok (wb_tasks b)"
  shows "tasks_ok (wb_tasks (snd (update_task sc event_id tid owner now allow p u b)))"
proof -
  obtain res b' where r: "update_task sc event_id tid owner now allow p u b = (res, b')" by fastforce
  then consider (same) "wb_tasks b' = wb_tasks b"
    | (upd) t deps l where "get_task sc tid b = Some t" "resolve_depends_on sc tid t p b = Inr deps"
        "wb_tasks b' = update_where (task_at sc tid) (patch_task p deps l u) (wb_tasks b)"
    by (auto simp: update_task_def Let_def split: option.splits sum.splits if_splits)
  then show ?thesis
  proof cases
    case same
    then show ?thesis using assms r by simp
  next
    case upd
    let ?new = "update_where (task_at sc tid) (patch_task p deps l u) (wb_tasks b)"
    have d: "distinct (map task_key (wb_tasks b))" using assms by (simp add: tasks_ok_def)
    have keys: "map task_key ?new = map task_key (wb_tasks b)"
      by (rule map_update_where) (simp add: task_key_def patch_task_def)
    show ?thesis
    proof (cases deps)
      case None
      then have "task_shape ` set ?new \<subseteq> task_shape ` set (wb_tasks b)"
        by (force simp: set_update_where task_shape_def patch_task_def patched_def)
      then show ?thesis using shape_ok [OF assms, of ?new] d keys r upd(3) by simp
    next
      case (Some ds)
      have at: "task_at sc tid x \<Longrightarrow> x \<in> set (wb_tasks b) \<Longrightarrow> x = t" for x
        using distinct_keys_eq [OF d, of x t] get_task_in [OF upd(1)] by (auto simp: task_key_def task_at_def)
      have "acyclic (task_edges tn iid ?new)" for tn iid
      proof (cases "tn = sc_tenant sc \<and> iid = wt_item t")
        case True
        from resolve_depends [OF upd(2)] Some
        have "acyclic (dep_edges (om_set tid ds (task_graph sc (wt_item t) b)))" "ds = normalize_task_deps (the (tp_depends_on p))"
          by (cases "tp_depends_on p"; auto)+
        moreover have "set (normalize_task_deps ds) = set ds" using calculation(2) by simp
        then have "dep_edges (om_set tid (normalize_task_deps ds) (task_graph sc (wt_item t) b)) =
            dep_edges (om_set tid ds (task_graph sc (wt_item t) b))"
          by (auto simp: dep_edges_def deps_of_def split: if_splits)
        ultimately show ?thesis
          using graph_edges [OF d upd(1), of p ds l u] Some True acyclic_subset by auto
      next
        case False
        have "task_edges tn iid ?new \<subseteq> task_edges tn iid (wb_tasks b)"
        proof
          fix e
          assume "e \<in> task_edges tn iid ?new"
          then obtain x d where x: "x \<in> set ?new" "wt_tenant x = tn" "wt_item x = iid"
            "d \<in> set (task_deps x)" "e = (wt_id x, d)" by (auto simp: task_edges_def)
          then obtain y where y: "y \<in> set (wb_tasks b)" "x = (if task_at sc tid y then patch_task p deps l u y else y)"
            by (auto simp: set_update_where)
          have "\<not> task_at sc tid y"
            using at [of y] y x(2,3) False by (auto simp: patch_task_def task_at_def split: if_splits)
          with x y show "e \<in> task_edges tn iid (wb_tasks b)" by (auto simp: task_edges_def)
        qed
        then show ?thesis using assms unfolding tasks_ok_def by (meson acyclic_subset)
      qed
      then show ?thesis using d keys r upd(3) by (simp add: tasks_ok_def)
    qed
  qed
qed

lemma lease_tasks_shape:
  "map task_shape (snd (lease_tasks sc owner e u now ids rows)) = map task_shape rows"
proof (induction ids arbitrary: rows)
  case (Cons i ids)
  have "map task_shape (update_where P (lease_row owner e u) rs) = map task_shape rs" for P rs
    by (rule map_update_where) (simp add: task_shape_def lease_row_def)
  then show ?case using Cons by (simp add: Let_def split: prod.splits) (metis snd_conv)
qed simp

lemma lease_runnable_tasks_rows:
  assumes "lease_runnable_tasks sc iid owner fresh now ttl limit b = (Inr leased, b')"
  shows "lease_tasks sc owner (now + lease_ttl ttl) now now
    (take (lease_limit limit) (find_runnable_task_ids (list_tasks sc iid b) now)) (wb_tasks b) = (leased, wb_tasks b')"
  using assms
  by (auto simp: lease_runnable_tasks_def Let_def split: option.splits if_splits prod.splits)

lemma shape_key: "map task_shape xs = map task_shape ys \<Longrightarrow> map task_key xs = map task_key ys"
proof -
  assume "map task_shape xs = map task_shape ys"
  then have "map (\<lambda>s. (fst s, fst (snd s))) (map task_shape xs) = map (\<lambda>s. (fst s, fst (snd s))) (map task_shape ys)"
    by simp
  then show ?thesis by (simp add: task_shape_def task_key_def [abs_def] comp_def)
qed

lemma lease_ok:
  assumes "tasks_ok (wb_tasks b)"
  shows "tasks_ok (wb_tasks (snd (lease_runnable_tasks sc iid owner fresh now ttl limit b)))"
proof -
  obtain res b' where r: "lease_runnable_tasks sc iid owner fresh now ttl limit b = (res, b')" by fastforce
  show ?thesis
  proof (cases res)
    case (Inl e)
    with r have "b' = b"
      by (auto simp: lease_runnable_tasks_def Let_def split: option.splits if_splits prod.splits)
    with r assms show ?thesis by simp
  next
    case (Inr leased)
    from lease_runnable_tasks_rows [OF r [unfolded Inr]] lease_tasks_shape
    have m: "map task_shape (wb_tasks b') = map task_shape (wb_tasks b)" by (metis snd_conv)
    then have "task_shape ` set (wb_tasks b') = task_shape ` set (wb_tasks b)" by (metis list.set_map)
    then show ?thesis
      using shape_ok [OF assms, of "wb_tasks b'"] shape_key [OF m] assms r by (simp add: tasks_ok_def)
  qed
qed

lemma task_step_ok: "task_step b b' \<Longrightarrow> tasks_ok (wb_tasks b) \<Longrightarrow> tasks_ok (wb_tasks b')"
proof (induction rule: task_step.induct)
  case (task_delete b sc tid)
  have "tasks_ok (filter P (wb_tasks b))" for P
    by (rule shape_ok [OF task_delete]) (use task_delete in \<open>auto simp: tasks_ok_def distinct_map_filter\<close>)
  then show ?case using task_delete by (auto simp: delete_task_def split: option.splits)
qed (auto intro: create_ok lease_ok update_ok shape_ok)

lemma task_steps_ok: "task_step\<^sup>*\<^sup>* b b' \<Longrightarrow> tasks_ok (wb_tasks b) \<Longrightarrow> tasks_ok (wb_tasks b')"
  by (induction rule: rtranclp_induct) (auto intro: task_step_ok)

text \<open>
  C11. Dependencies stay acyclic: whatever sequence of task creations, updates, leases, deletions and
  other changes runs on the board, where the id of a created task is fresh (it belongs to no task and
  stands in no dependency list), task ids stay unique in each tenant and no item ever has a cycle
  among the dependencies of its tasks, so there is always an order in which they can run.
\<close>

theorem dependencies_acyclic:
  assumes "task_step\<^sup>*\<^sup>* b b'" "tasks_ok (wb_tasks b)"
  shows "distinct (map task_key (wb_tasks b')) \<and> acyclic (task_edges tn iid (wb_tasks b'))"
  using task_steps_ok [OF assms] by (simp add: tasks_ok_def)

definition demo_task :: "string list \<Rightarrow> task_input" where
  "demo_task deps = \<lparr>tin_item = ''i'', tin_status = None, tin_depends_on = deps, tin_profile = ''p'',
    tin_side_effect = ''none'', tin_turn = None, tin_approval = None, tin_artifacts = [],
    tin_started_at = None, tin_finished_at = None, tin_result = None\<rparr>"

definition task_board :: board where
  "task_board = snd (create_task demo_scope ''B'' 4 (demo_task [''A''])
    (snd (create_task demo_scope ''A'' 3 (demo_task []) demo_board)))"

lemma demo_tasks_ok: "tasks_ok (wb_tasks demo_board)"
  by (rule shape_ok [of "[]"]) (simp_all add: tasks_ok_def task_edges_def acyclic_def, code_simp+)

lemma task_board_reached: "task_step\<^sup>*\<^sup>* demo_board task_board"
  unfolding task_board_def
  by (rule rtranclp.rtrancl_into_rtrancl [OF r_into_rtranclp]; rule task_create; code_simp)

lemma task_board_ok: "tasks_ok (wb_tasks task_board)"
  by (rule task_steps_ok [OF task_board_reached demo_tasks_ok])

lemma dependencies_acyclic_witness:
  "distinct (map task_key (wb_tasks task_board)) \<and> acyclic (task_edges ''t'' ''i'' (wb_tasks task_board))"
  by (rule dependencies_acyclic [OF task_board_reached demo_tasks_ok])

subsection \<open>What a lease grants\<close>

lemma not_free_after: "now < e \<Longrightarrow> \<not> lease_free now (lease_row owner e u t)"
  by (simp add: lease_free_def lease_row_def)

definition granted :: "work_scope \<Rightarrow> string set \<Rightarrow> nat \<Rightarrow> work_task \<Rightarrow> bool" where
  "granted sc ids now t \<longleftrightarrow> wt_tenant t = sc_tenant sc \<and> wt_id t \<in> ids \<and> lease_free now t"

lemma lease_tasks_effect:
  assumes "now < e" "distinct ids" "distinct (map task_key rows)"
    and "lease_tasks sc owner e u now ids rows = (leased, rows')"
  shows "rows' = update_where (granted sc (set ids) now) (lease_row owner e u) rows \<and>
    set leased = lease_row owner e u ` {t \<in> set rows. granted sc (set ids) now t} \<and>
    length leased \<le> length ids \<and> distinct (map wt_id leased)"
  using assms(2-)
proof (induction ids arbitrary: rows leased rows')
  case Nil
  then show ?case by (auto simp: update_where_def granted_def)
next
  case (Cons i ids)
  let ?P = "\<lambda>t. task_at sc i t \<and> lease_free now t" and ?f = "lease_row owner e u"
  let ?rows = "update_where ?P ?f rows"
  obtain l1 where l1: "lease_tasks sc owner e u now ids ?rows = (l1, rows')"
    and leased: "leased = map ?f (filter ?P rows) @ l1"
    using Cons.prems(3) by (auto simp: Let_def split: prod.splits)
  have keys: "map task_key ?rows = map task_key rows"
    by (rule map_update_where) (simp add: task_key_def lease_row_def)
  from Cons.IH [OF _ _ l1] Cons.prems(1,2) keys
  have ih: "rows' = update_where (granted sc (set ids) now) ?f ?rows"
    "set l1 = ?f ` {t \<in> set ?rows. granted sc (set ids) now t}"
    "length l1 \<le> length ids" "distinct (map wt_id l1)" by simp_all
  have g: "granted sc (set ids) now (?f t) = False" for t
    using not_free_after [OF assms(1)] by (simp add: granted_def)
  have split: "granted sc (set (i # ids)) now t \<longleftrightarrow> ?P t \<or> granted sc (set ids) now t" for t
    by (auto simp: granted_def task_at_def)
  have excl: "\<not> granted sc (set ids) now t" if "?P t" for t
    using that Cons.prems(1) by (auto simp: granted_def task_at_def)
  have r: "rows' = update_where (granted sc (set (i # ids)) now) ?f rows"
    unfolding ih(1) update_where_def using g split by simp
  have "{t \<in> set ?rows. granted sc (set ids) now t} = {t \<in> set rows. granted sc (set ids) now t}"
    using g excl by (auto simp: set_update_where)
  then have s: "set leased = ?f ` {t \<in> set rows. granted sc (set (i # ids)) now t}"
    unfolding leased using ih(2) split by auto
  have one: "length (filter ?P rows) \<le> 1"
    by (rule at_most_one [OF Cons.prems(2), where v = "(sc_tenant sc, i)"]) (simp add: task_key_def task_at_def)
  have "wt_id t = i" if "t \<in> set (map ?f (filter ?P rows))" for t
    using that by (auto simp: lease_row_def task_at_def)
  moreover have "wt_id t \<noteq> i" if "t \<in> set l1" for t
    using that ih(2) Cons.prems(1) by (auto simp: granted_def lease_row_def)
  moreover have "distinct (map wt_id (map ?f (filter ?P rows)))"
    using one by (cases "filter ?P rows") auto
  ultimately have "distinct (map wt_id leased)"
    unfolding leased using ih(4) by (auto simp: image_iff) (metis)
  then show ?case using r s one ih(3) leased by simp
qed

lemma runnable_ids_distinct:
  assumes "distinct (map task_key (wb_tasks b))"
  shows "distinct (take n (find_runnable_task_ids (list_tasks sc iid b) now))"
proof -
  have "inj_on wt_id (set (filter (\<lambda>t. task_in_scope sc b t \<and> wt_item t = iid) (wb_tasks b)))"
    using assms by (auto simp: inj_on_def distinct_map task_key_def task_in_scope_def)
  moreover have "distinct (wb_tasks b)" using assms by (simp add: distinct_map)
  ultimately have "distinct (map wt_id (list_tasks sc iid b))"
    by (simp add: list_tasks_def order_by_def distinct_map)
  then show ?thesis
    unfolding find_runnable_task_ids_def by (intro distinct_take distinct_map_filter)
qed

lemma set_list_tasks: "set (list_tasks sc iid b) = {t \<in> set (wb_tasks b). task_in_scope sc b t \<and> wt_item t = iid}"
  by (auto simp: list_tasks_def)

lemma status_by_id_found:
  assumes "status_by_id rows d = Some s"
  shows "\<exists>u \<in> set rows. wt_id u = d \<and> wt_status u = s"
proof -
  from assms obtain u where u: "find (\<lambda>t. wt_id t = d) (rev rows) = Some u" "wt_status u = s"
    by (auto simp: status_by_id_def)
  from find_in [OF u(1)] u(2) show ?thesis by auto
qed

lemma lease_grants:
  assumes "distinct (map task_key (wb_tasks b))" "lease_runnable_tasks sc iid owner fresh now ttl limit b = (Inr leased, b')"
  shows "length leased \<le> lease_limit limit \<and> distinct (map wt_id leased) \<and>
    (\<forall>t \<in> set leased. \<exists>t0 \<in> set (wb_tasks b). t = lease_row owner (now + lease_ttl ttl) now t0 \<and>
      task_in_scope sc b t0 \<and> wt_item t0 = iid \<and> lease_free now t0 \<and>
      (\<forall>d \<in> set (task_deps t0). \<exists>u \<in> set (wb_tasks b). wt_tenant u = sc_tenant sc \<and> wt_item u = iid \<and> wt_id u = d \<and>
        is_terminal_task_state (Some (wt_status u)))) \<and>
    set leased \<subseteq> set (wb_tasks b')"
proof -
  let ?ids = "take (lease_limit limit) (find_runnable_task_ids (list_tasks sc iid b) now)"
  note d = assms(1)
  have later: "now < now + lease_ttl ttl" by (simp add: lease_ttl_def)
  from lease_tasks_effect [OF later runnable_ids_distinct [OF d] d lease_runnable_tasks_rows [OF assms(2)]]
  have eff: "wb_tasks b' = update_where (granted sc (set ?ids) now) (lease_row owner (now + lease_ttl ttl) now) (wb_tasks b)"
    "set leased = lease_row owner (now + lease_ttl ttl) now ` {t \<in> set (wb_tasks b). granted sc (set ?ids) now t}"
    "length leased \<le> length ?ids" "distinct (map wt_id leased)" by blast+
  have grant: "task_in_scope sc b t0 \<and> wt_item t0 = iid \<and> lease_free now t0 \<and>
      (\<forall>d \<in> set (task_deps t0). \<exists>u \<in> set (wb_tasks b). wt_tenant u = sc_tenant sc \<and> wt_item u = iid \<and> wt_id u = d \<and>
        is_terminal_task_state (Some (wt_status u)))"
    if t0: "t0 \<in> set (wb_tasks b)" "granted sc (set ?ids) now t0" for t0
  proof -
    have "wt_id t0 \<in> set (find_runnable_task_ids (list_tasks sc iid b) now)"
      using t0(2) set_take_subset by (fastforce simp: granted_def)
    then obtain x where x: "x \<in> set (list_tasks sc iid b)" "runnable (list_tasks sc iid b) now x" "wt_id x = wt_id t0"
      by (auto simp: find_runnable_task_ids_def)
    have "x = t0"
      using distinct_keys_eq [OF d, of x t0] x t0 by (auto simp: set_list_tasks task_key_def task_in_scope_def granted_def)
    have "\<exists>u \<in> set (wb_tasks b). wt_tenant u = sc_tenant sc \<and> wt_item u = iid \<and> wt_id u = k \<and>
        is_terminal_task_state (Some (wt_status u))" if "k \<in> set (task_deps t0)" for k
    proof -
      have t: "is_terminal_task_state (status_by_id (list_tasks sc iid b) k)"
        using x(2) that \<open>x = t0\<close> by (simp add: runnable_def task_deps_def)
      then obtain st where st: "status_by_id (list_tasks sc iid b) k = Some st"
        by (auto simp: is_terminal_task_state_def)
      from status_by_id_found [OF this] t st show ?thesis
        by (auto simp: set_list_tasks task_in_scope_def)
    qed
    then show ?thesis using x \<open>x = t0\<close> by (simp add: set_list_tasks runnable_def)
  qed
  have "length leased \<le> lease_limit limit" using eff(3) by simp
  moreover have "\<forall>t \<in> set leased. \<exists>t0 \<in> set (wb_tasks b). t = lease_row owner (now + lease_ttl ttl) now t0 \<and>
      granted sc (set ?ids) now t0" using eff(2) by auto
  moreover have "set leased \<subseteq> set (wb_tasks b')" using eff(1,2) by (auto simp: set_update_where)
  ultimately show ?thesis using eff(4) grant by blast
qed

text \<open>
  Only the holder moves a leased task on: an update that takes a task out of leased names the
  stored owner, comes before the deadline (unless a late release is allowed), and clears the
  lease; without those it fails and changes nothing.
\<close>

theorem lease_update_guarded:
  assumes "get_task sc tid b = Some t" "wt_status t = TLeased" "tp_status p = Some s" "s \<noteq> TLeased"
  shows "case update_task sc event_id tid owner now allow p u b of
      (Inl _, b') \<Rightarrow> b' = b
    | (Inr None, b') \<Rightarrow> False
    | (Inr (Some t'), b') \<Rightarrow> trimmed owner \<noteq> None \<and> wt_lease_owner t = trimmed owner \<and>
        (\<exists>x. wt_lease_expires t = Some x \<and> (now < x \<or> allow)) \<and>
        wt_status t' = s \<and> wt_lease_owner t' = None \<and> wt_lease_expires t' = None \<and> t' \<in> set (wb_tasks b')"
proof (cases "assert_lease_mutation_allowed t owner now True allow")
  case (Some e)
  then show ?thesis using assms by (simp add: update_task_def Let_def is_leaving_lease_def)
next
  case None
  then have own: "trimmed owner \<noteq> None" "wt_lease_owner t = trimmed owner"
    "\<exists>x. wt_lease_expires t = Some x \<and> (now < x \<or> allow)"
    by (auto simp: assert_lease_mutation_allowed_def split: option.splits if_splits)
  note t = get_task_in [OF assms(1)]
  show ?thesis
  proof (cases "resolve_depends_on sc tid t p b")
    case (Inl e)
    with None assms show ?thesis by (simp add: update_task_def Let_def is_leaving_lease_def)
  next
    case (Inr deps)
    let ?t = "patch_task p deps True u t"
    have "?t \<in> set (update_where (task_at sc tid) (patch_task p deps True u) (wb_tasks b))"
      using t by (auto simp: set_update_where image_iff intro!: bexI [of _ t])
    moreover have "\<not> empty_task_patch p" using assms(3) by (simp add: empty_task_patch_def)
    ultimately show ?thesis
      using None Inr assms own
      by (simp add: update_task_def Let_def is_leaving_lease_def patch_task_def patched_def)
  qed
qed

definition start_patch :: task_patch where
  "start_patch = \<lparr>tp_status = Some TRunning, tp_depends_on = None, tp_profile = None, tp_side_effect = None,
    tp_turn = None, tp_subagent = None, tp_approval = None, tp_pause_reason = None, tp_pause_detail = None,
    tp_artifacts = None, tp_started_at = None, tp_finished_at = None, tp_result = None\<rparr>"

lemma lease_update_guarded_witness:
  "\<exists>b t. get_task demo_scope ''A'' b = Some t \<and>
    (case update_task demo_scope ''e'' ''A'' (Some ''o'') 10 False start_patch 10 b of
       (Inr (Some t'), b') \<Rightarrow> wt_status t' = TRunning \<and> wt_lease_owner t = Some ''o'' | _ \<Rightarrow> False)"
proof -
  let ?b = "snd (lease_runnable_tasks demo_scope ''i'' ''o'' (\<lambda>_. ''v'') 9 (Some 2000) None task_board)"
  have "(case get_task demo_scope ''A'' ?b of None \<Rightarrow> False | Some t \<Rightarrow> wt_status t = TLeased)"
    "(case fst (update_task demo_scope ''e'' ''A'' (Some ''o'') 10 False start_patch 10 ?b) of Inl _ \<Rightarrow> False | Inr _ \<Rightarrow> True)"
    "trimmed (Some ''o'') = Some ''o''"
    by code_simp+
  then obtain t r b' where t: "get_task demo_scope ''A'' ?b = Some t" "wt_status t = TLeased"
    and r: "update_task demo_scope ''e'' ''A'' (Some ''o'') 10 False start_patch 10 ?b = (Inr r, b')"
    and o': "trimmed (Some ''o'') = Some ''o''"
    by (auto split: option.splits sum.splits) (metis prod.collapse)
  have "tp_status start_patch = Some TRunning" "TRunning \<noteq> TLeased" by (simp_all add: start_patch_def)
  from lease_update_guarded [OF t this, where event_id = "''e''" and owner = "Some ''o''" and now = 10
    and allow = False and u = 10] t(1) r o'
  show ?thesis by (intro exI [of _ ?b] exI [of _ t]) (auto split: option.splits)
qed

end
