(* ===== verification/Task_Leases.thy ===== *)
theory Task_Leases
  imports Work_Tasks
begin

text \<open>
  Leases and dependencies of tasks over whole histories of the board: what keeps a lease and what a
  deleted task means for those that depend on it. The operations are those of \<open>Work_Items\<close> and
  \<open>Work_Tasks\<close>, and the requeueing of orphaned tasks
  (\<open>gateway/src/modules/workboard/runtime-workboard-adapters.ts\<close>).
\<close>

subsection \<open>Requeueing\<close>

definition orphan_requeued :: "nat \<Rightarrow> work_task \<Rightarrow> work_task" where
  "orphan_requeued at t =
    t\<lparr>wt_status := (if wt_status t \<in> {TLeased, TRunning, TPaused} then TQueued else wt_status t),
      wt_lease_owner := None, wt_lease_expires := None, wt_updated_at := at\<rparr>"

definition requeue_orphaned_tasks :: "work_scope \<Rightarrow> string \<Rightarrow> nat \<Rightarrow> board \<Rightarrow> board" where
  "requeue_orphaned_tasks sc iid at b =
    b\<lparr>wb_tasks := update_where (\<lambda>t. wt_tenant t = sc_tenant sc \<and> wt_item t = iid) (orphan_requeued at) (wb_tasks b)\<rparr>"

subsection \<open>What each operation does to the table of tasks\<close>

definition task_keys_ok :: "board \<Rightarrow> bool" where
  "task_keys_ok b \<longleftrightarrow> distinct (map task_key (wb_tasks b))"

lemma task_unique: "task_keys_ok b \<Longrightarrow> x \<in> set (wb_tasks b) \<Longrightarrow> y \<in> set (wb_tasks b) \<Longrightarrow> task_key x = task_key y \<Longrightarrow> x = y"
  unfolding task_keys_ok_def by (rule distinct_keys_eq)

text \<open>
  The shapes of a change: nothing, a new row with a new key, rows taken away, rows changed without
  their key and item.
\<close>

datatype table_change = Unchanged | Added work_task | Removed "work_task \<Rightarrow> bool" | Changed "work_task \<Rightarrow> bool" "work_task \<Rightarrow> work_task"

fun changed_tasks :: "table_change \<Rightarrow> work_task list \<Rightarrow> work_task list" where
  "changed_tasks Unchanged ts = ts"
| "changed_tasks (Added t) ts = ts @ [t]"
| "changed_tasks (Removed P) ts = filter (\<lambda>t. \<not> P t) ts"
| "changed_tasks (Changed P f) ts = update_where P f ts"

fun change_ok :: "table_change \<Rightarrow> work_task list \<Rightarrow> bool" where
  "change_ok (Added t) ts \<longleftrightarrow> task_key t \<notin> task_key ` set ts"
| "change_ok (Changed P f) ts \<longleftrightarrow> (\<forall>t. task_key (f t) = task_key t \<and> wt_item (f t) = wt_item t)"
| "change_ok _ ts \<longleftrightarrow> True"

lemma keys_changed: "change_ok c ts \<Longrightarrow> distinct (map task_key ts) \<Longrightarrow> distinct (map task_key (changed_tasks c ts))"
  by (cases c) (auto simp: distinct_map_filter map_update_where [where k = task_key])

lemma create_change:
  obtains c where "wb_tasks (snd (create_task sc tid now p b)) = changed_tasks c (wb_tasks b)" "change_ok c (wb_tasks b)"
    "c = Unchanged \<or> (\<exists>deps. c = Added (new_task sc tid now deps p))"
proof -
  let ?r = "create_task sc tid now p b" and ?t = "new_task sc tid now (normalize_task_deps (tin_depends_on p)) p"
  have "wb_tasks (snd ?r) = wb_tasks b \<or>
      wb_tasks (snd ?r) = wb_tasks b @ [?t] \<and> \<not> matches (task_at sc tid) (wb_tasks b)"
    by (auto simp: create_task_def Let_def split: option.splits)
  moreover have "task_key ?t \<notin> task_key ` set (wb_tasks b)" if "\<not> matches (task_at sc tid) (wb_tasks b)"
    using that by (auto simp: matches_iff task_at_def task_key_def new_task_def)
  ultimately show ?thesis using that [of Unchanged] that [of "Added ?t"] by auto
qed

lemma delete_change:
  assumes "task_keys_ok b"
  obtains c where "wb_tasks (snd (delete_task sc tid b)) = changed_tasks c (wb_tasks b)"
    "c = Unchanged \<or> (\<exists>P. c = Removed P \<and> (\<forall>t \<in> set (wb_tasks b). P t \<longrightarrow> wt_status t \<notin> {TLeased, TRunning, TPaused}))"
proof (cases "get_task sc tid b")
  case None
  with that [of Unchanged] show ?thesis by (simp add: delete_task_def)
next
  case (Some t)
  note t = get_task_in [OF Some]
  let ?P = "\<lambda>t. task_at sc tid t \<and> task_in_scope sc b t"
  have only: "u = t" if "u \<in> set (wb_tasks b)" "?P u" for u
    using task_unique [OF assms that(1)] t that(2) by (auto simp: task_at_def task_key_def)
  show ?thesis
  proof (cases "wt_status t \<in> {TLeased, TRunning, TPaused}")
    case True
    with Some that [of Unchanged] show ?thesis by (simp add: delete_task_def)
  next
    case False
    with only Some that [of "Removed ?P"] show ?thesis by (auto simp: delete_task_def)
  qed
qed

lemma update_change:
  obtains c where "wb_tasks (snd (update_task sc ev tid u now allow p at b)) = changed_tasks c (wb_tasks b)"
    "change_ok c (wb_tasks b)"
    "c = Unchanged \<or> (\<exists>t deps. get_task sc tid b = Some t \<and> resolve_depends_on sc tid t p b = Inr deps \<and>
      assert_lease_mutation_allowed t u now (is_leaving_lease (wt_status t) (tp_status p)) allow = None \<and>
      c = Changed (task_at sc tid) (patch_task p deps (is_leaving_lease (wt_status t) (tp_status p)) at))"
proof -
  obtain res b' where r: "update_task sc ev tid u now allow p at b = (res, b')" by fastforce
  then consider (same) "wb_tasks b' = wb_tasks b"
    | (upd) t deps where "get_task sc tid b = Some t" "resolve_depends_on sc tid t p b = Inr deps"
        "assert_lease_mutation_allowed t u now (is_leaving_lease (wt_status t) (tp_status p)) allow = None"
        "wb_tasks b' = update_where (task_at sc tid) (patch_task p deps (is_leaving_lease (wt_status t) (tp_status p)) at) (wb_tasks b)"
    by (auto simp: update_task_def Let_def split: option.splits sum.splits if_splits)
  then show ?thesis
  proof cases
    case same
    then show ?thesis using that [of Unchanged] r by simp
  next
    case upd
    then show ?thesis using r
      by (intro that [of "Changed (task_at sc tid) (patch_task p deps (is_leaving_lease (wt_status t) (tp_status p)) at)"])
        (auto simp: task_key_def patch_task_def)
  qed
qed

lemma lease_change:
  assumes "task_keys_ok b"
  obtains c where "wb_tasks (snd (lease_runnable_tasks sc iid owner fresh now ttl limit b)) = changed_tasks c (wb_tasks b)"
    "change_ok c (wb_tasks b)"
    "c = Unchanged \<or> (\<exists>ids. c = Changed (granted sc ids now) (lease_row owner (now + lease_ttl ttl) now))"
proof -
  obtain res b' where r: "lease_runnable_tasks sc iid owner fresh now ttl limit b = (res, b')" by fastforce
  show ?thesis
  proof (cases res)
    case (Inl e)
    with r have "b' = b"
      by (auto simp: lease_runnable_tasks_def Let_def split: option.splits if_splits prod.splits)
    then show ?thesis using r that [of Unchanged] by simp
  next
    case (Inr leased)
    let ?ids = "set (take (lease_limit limit) (find_runnable_task_ids (list_tasks sc iid b) now))"
    have d: "distinct (map task_key (wb_tasks b))" using assms by (simp add: task_keys_ok_def)
    have later: "now < now + lease_ttl ttl" by (simp add: lease_ttl_def)
    from lease_tasks_effect [OF later runnable_ids_distinct [OF d] d lease_runnable_tasks_rows [OF r [unfolded Inr]]]
    have "wb_tasks b' = update_where (granted sc ?ids now) (lease_row owner (now + lease_ttl ttl) now) (wb_tasks b)" by blast
    then show ?thesis using r
      by (intro that [of "Changed (granted sc ?ids now) (lease_row owner (now + lease_ttl ttl) now)"])
        (auto simp: task_key_def lease_row_def)
  qed
qed

lemma transition_change:
  obtains c where "wb_tasks (snd (transition_item sc ev iid to reason now b)) = changed_tasks c (wb_tasks b)"
    "change_ok c (wb_tasks b)"
    "c = Unchanged \<or> is_terminal_item_state to \<and>
      c = Changed (\<lambda>t. wt_tenant t = sc_tenant sc \<and> wt_item t = iid \<and> live_task (wt_status t)) (cancelled_task now)"
proof -
  let ?P = "\<lambda>t. wt_tenant t = sc_tenant sc \<and> wt_item t = iid \<and> live_task (wt_status t)"
  have "wb_tasks (snd (transition_item sc ev iid to reason now b)) = wb_tasks b \<or> is_terminal_item_state to \<and>
      wb_tasks (snd (transition_item sc ev iid to reason now b)) = update_where ?P (cancelled_task now) (wb_tasks b)"
    by (auto simp: transition_item_def set_item_status_def apply_terminal_cleanup_def Let_def split: option.splits)
  then show ?thesis
    using that [of Unchanged] that [of "Changed ?P (cancelled_task now)"] by (auto simp: cancelled_task_def task_key_def)
qed

lemma item_delete_change:
  obtains c where "wb_tasks (snd (delete_item sc iid b)) = changed_tasks c (wb_tasks b)"
    "c = Unchanged \<or> c = Removed (\<lambda>t. wt_tenant t = sc_tenant sc \<and> wt_item t = iid) \<and>
      (\<forall>t \<in> set (wb_tasks b). wt_tenant t = sc_tenant sc \<and> wt_item t = iid \<longrightarrow> wt_status t \<notin> {TLeased, TRunning, TPaused})"
proof -
  let ?P = "\<lambda>t. wt_tenant t = sc_tenant sc \<and> wt_item t = iid"
  have "wb_tasks (snd (delete_item sc iid b)) = wb_tasks b \<or>
      wb_tasks (snd (delete_item sc iid b)) = filter (\<lambda>t. \<not> ?P t) (wb_tasks b) \<and> \<not> matches (active_task sc iid) (wb_tasks b)"
    by (auto simp: delete_item_def remove_item_def split: option.splits)
  then show ?thesis using that [of Unchanged] that [of "Removed ?P"]
    by (auto simp: matches_iff active_task_def)
qed

lemma item_tasks [simp]:
  "wb_tasks (snd (create_item sc new_id now src p b)) = wb_tasks b"
  "wb_tasks (snd (update_item sc iid ip now b)) = wb_tasks b"
  by (auto simp: create_item_def update_item_def Let_def split: option.splits)

lemma requeue_change:
  "wb_tasks (requeue_orphaned_tasks sc iid at b) =
     changed_tasks (Changed (\<lambda>t. wt_tenant t = sc_tenant sc \<and> wt_item t = iid) (orphan_requeued at)) (wb_tasks b)"
  "change_ok (Changed P (orphan_requeued at)) ts"
  by (simp_all add: requeue_orphaned_tasks_def orphan_requeued_def task_key_def)

subsection \<open>Leases\<close>

text \<open>The task of the key is leased to \<open>owner\<close> until \<open>x\<close>.\<close>

definition leased_until :: "string \<times> string \<Rightarrow> string \<Rightarrow> string \<Rightarrow> nat \<Rightarrow> board \<Rightarrow> bool" where
  "leased_until k iid owner x b \<longleftrightarrow> (\<exists>t \<in> set (wb_tasks b). task_key t = k \<and> wt_item t = iid \<and>
    wt_status t = TLeased \<and> wt_lease_owner t = Some owner \<and> wt_lease_expires t = Some x)"

text \<open>
  What may happen to the board before \<open>x\<close>: every operation on tasks and items, in any scope and by
  anybody, but for three that give the lease up: an update in the name of \<open>owner\<close> that changes the
  status, requeueing the orphans of the item, and ending the item.
\<close>

inductive keeps_lease :: "string \<Rightarrow> string \<Rightarrow> string \<Rightarrow> nat \<Rightarrow> board \<Rightarrow> board \<Rightarrow> bool" for tn iid owner x where
  kl_create: "keeps_lease tn iid owner x b (snd (create_task sc tid now p b))"
| kl_delete: "keeps_lease tn iid owner x b (snd (delete_task sc tid b))"
| kl_lease: "now < x \<Longrightarrow> keeps_lease tn iid owner x b (snd (lease_runnable_tasks sc i u fresh now ttl limit b))"
| kl_update: "trimmed u \<noteq> Some owner \<or> tp_status q = None \<or> tp_status q = Some TLeased \<Longrightarrow>
    keeps_lease tn iid owner x b (snd (update_task sc ev tid u now allow q at b))"
| kl_requeue: "sc_tenant sc \<noteq> tn \<or> i \<noteq> iid \<Longrightarrow> keeps_lease tn iid owner x b (requeue_orphaned_tasks sc i at b)"
| kl_item_create: "keeps_lease tn iid owner x b (snd (create_item sc new_id now src ip b))"
| kl_item_update: "keeps_lease tn iid owner x b (snd (update_item sc i iq now b))"
| kl_transition: "sc_tenant sc \<noteq> tn \<or> i \<noteq> iid \<or> \<not> is_terminal_item_state to \<Longrightarrow>
    keeps_lease tn iid owner x b (snd (transition_item sc ev i to reason now b))"
| kl_item_delete: "keeps_lease tn iid owner x b (snd (delete_item sc i b))"

definition spares :: "table_change \<Rightarrow> work_task \<Rightarrow> bool" where
  "spares c t \<longleftrightarrow> (case c of Removed P \<Rightarrow> \<not> P t
     | Changed P f \<Rightarrow> P t \<longrightarrow> wt_status (f t) = wt_status t \<and> wt_lease_owner (f t) = wt_lease_owner t \<and>
         wt_lease_expires (f t) = wt_lease_expires t
     | _ \<Rightarrow> True)"

lemma change_keeps:
  assumes "task_keys_ok b" "leased_until k iid owner x b" "wb_tasks b' = changed_tasks c (wb_tasks b)" "change_ok c (wb_tasks b)"
    and "\<And>t. t \<in> set (wb_tasks b) \<Longrightarrow> task_key t = k \<Longrightarrow> wt_item t = iid \<Longrightarrow> wt_status t = TLeased \<Longrightarrow>
      wt_lease_owner t = Some owner \<Longrightarrow> wt_lease_expires t = Some x \<Longrightarrow> spares c t"
  shows "task_keys_ok b' \<and> leased_until k iid owner x b'"
proof
  show "task_keys_ok b'" using keys_changed [OF assms(4)] assms(1,3) by (simp add: task_keys_ok_def)
  from assms(2) obtain t where t: "t \<in> set (wb_tasks b)" "task_key t = k" "wt_item t = iid" "wt_status t = TLeased"
    "wt_lease_owner t = Some owner" "wt_lease_expires t = Some x" by (auto simp: leased_until_def)
  from assms(5) [OF t] have s: "spares c t" .
  show "leased_until k iid owner x b'"
  proof (cases c)
    case (Changed P f)
    have "(if P t then f t else t) \<in> set (wb_tasks b')"
      using t(1) assms(3) Changed by (auto simp: set_update_where)
    with Changed s t assms(4) show ?thesis unfolding leased_until_def
      by (intro bexI [of _ "if P t then f t else t"]) (auto simp: spares_def)
  qed (use t s assms(3) in \<open>auto simp: leased_until_def spares_def\<close>)
qed

lemma lease_kept:
  assumes "keeps_lease (fst k) iid owner x b b'" "task_keys_ok b" "leased_until k iid owner x b"
  shows "task_keys_ok b' \<and> leased_until k iid owner x b'"
  using assms(1)
proof cases
  case (kl_create sc tid now p)
  obtain c where "wb_tasks b' = changed_tasks c (wb_tasks b)" "change_ok c (wb_tasks b)"
    "c = Unchanged \<or> (\<exists>deps. c = Added (new_task sc tid now deps p))" using create_change [of sc tid now p b] kl_create by metis
  then show ?thesis by (intro change_keeps [OF assms(2,3)]) (auto simp: spares_def)
next
  case (kl_delete sc tid)
  obtain c where "wb_tasks b' = changed_tasks c (wb_tasks b)"
    "c = Unchanged \<or> (\<exists>P. c = Removed P \<and> (\<forall>t \<in> set (wb_tasks b). P t \<longrightarrow> wt_status t \<notin> {TLeased, TRunning, TPaused}))"
    using delete_change [OF assms(2), of sc tid] kl_delete by metis
  then show ?thesis by (intro change_keeps [OF assms(2,3)]) (auto simp: spares_def)
next
  case (kl_lease now sc i u fresh ttl limit)
  obtain c where c: "wb_tasks b' = changed_tasks c (wb_tasks b)" "change_ok c (wb_tasks b)"
    "c = Unchanged \<or> (\<exists>ids. c = Changed (granted sc ids now) (lease_row u (now + lease_ttl ttl) now))"
    using lease_change [OF assms(2), of sc i u fresh now ttl limit] kl_lease by metis
  show ?thesis by (rule change_keeps [OF assms(2,3) c(1,2)]) (use c(3) kl_lease in \<open>auto simp: spares_def granted_def lease_free_def\<close>)
next
  case (kl_update u q sc ev tid now allow at)
  obtain c where c: "wb_tasks b' = changed_tasks c (wb_tasks b)" "change_ok c (wb_tasks b)"
    "c = Unchanged \<or> (\<exists>t deps. get_task sc tid b = Some t \<and> resolve_depends_on sc tid t q b = Inr deps \<and>
      assert_lease_mutation_allowed t u now (is_leaving_lease (wt_status t) (tp_status q)) allow = None \<and>
      c = Changed (task_at sc tid) (patch_task q deps (is_leaving_lease (wt_status t) (tp_status q)) at))"
    using update_change [of sc ev tid u now allow q at b] kl_update by metis
  have "spares c t" if t: "t \<in> set (wb_tasks b)" "task_key t = k" "wt_status t = TLeased" "wt_lease_owner t = Some owner" for t
    using c(3)
  proof
    assume "\<exists>t deps. get_task sc tid b = Some t \<and> resolve_depends_on sc tid t q b = Inr deps \<and>
      assert_lease_mutation_allowed t u now (is_leaving_lease (wt_status t) (tp_status q)) allow = None \<and>
      c = Changed (task_at sc tid) (patch_task q deps (is_leaving_lease (wt_status t) (tp_status q)) at)"
    then obtain t0 deps where e: "get_task sc tid b = Some t0"
      "assert_lease_mutation_allowed t0 u now (is_leaving_lease (wt_status t0) (tp_status q)) allow = None"
      "c = Changed (task_at sc tid) (patch_task q deps (is_leaving_lease (wt_status t0) (tp_status q)) at)" by blast
    note m = get_task_in [OF e(1)]
    show ?thesis
    proof (cases "task_at sc tid t")
      case True
      with m t have "t = t0" using task_unique [OF assms(2), of t t0] by (auto simp: task_at_def task_key_def)
      with t e(2) kl_update(2) have "\<not> is_leaving_lease (wt_status t0) (tp_status q)"
        by (auto simp: assert_lease_mutation_allowed_def is_leaving_lease_def split: option.splits if_splits)
      with e(3) \<open>t = t0\<close> t show ?thesis
        by (cases "tp_status q") (auto simp: spares_def patch_task_def patched_def is_leaving_lease_def)
    qed (simp add: e(3) spares_def)
  qed (simp add: spares_def)
  then show ?thesis by (intro change_keeps [OF assms(2,3) c(1,2)]) blast
next
  case (kl_requeue sc i at)
  show ?thesis by (rule change_keeps [OF assms(2,3), where c = "Changed (\<lambda>t. wt_tenant t = sc_tenant sc \<and> wt_item t = i) (orphan_requeued at)"])
      (use kl_requeue in \<open>auto simp: requeue_change spares_def task_key_def orphan_requeued_def\<close>)
next
  case (kl_item_create sc new_id now src ip)
  then show ?thesis by (intro change_keeps [OF assms(2,3), where c = Unchanged]) (simp_all add: spares_def)
next
  case (kl_item_update sc i iq now)
  then show ?thesis by (intro change_keeps [OF assms(2,3), where c = Unchanged]) (simp_all add: spares_def)
next
  case (kl_transition sc i to ev reason now)
  obtain c where c: "wb_tasks b' = changed_tasks c (wb_tasks b)" "change_ok c (wb_tasks b)"
    "c = Unchanged \<or> is_terminal_item_state to \<and>
      c = Changed (\<lambda>t. wt_tenant t = sc_tenant sc \<and> wt_item t = i \<and> live_task (wt_status t)) (cancelled_task now)"
    unfolding kl_transition(1) using transition_change [of sc ev i to reason now b] .
  show ?thesis by (rule change_keeps [OF assms(2,3) c(1,2)]) (use c(3) kl_transition(2) in \<open>auto simp: spares_def task_key_def\<close>)
next
  case (kl_item_delete sc i)
  obtain c where c: "wb_tasks b' = changed_tasks c (wb_tasks b)"
    "c = Unchanged \<or> c = Removed (\<lambda>t. wt_tenant t = sc_tenant sc \<and> wt_item t = i) \<and>
      (\<forall>t \<in> set (wb_tasks b). wt_tenant t = sc_tenant sc \<and> wt_item t = i \<longrightarrow> wt_status t \<notin> {TLeased, TRunning, TPaused})"
    unfolding kl_item_delete(1) using item_delete_change [of sc i b] .
  show ?thesis by (rule change_keeps [OF assms(2,3) c(1)]) (use c(2) in \<open>auto simp: spares_def\<close>)
qed

lemma lease_kept_steps:
  "(keeps_lease (fst k) iid owner x)\<^sup>*\<^sup>* b b' \<Longrightarrow> task_keys_ok b \<Longrightarrow> leased_until k iid owner x b \<Longrightarrow>
    task_keys_ok b' \<and> leased_until k iid owner x b'"
  by (induction rule: rtranclp_induct) (blast dest: lease_kept)+

text \<open>
  C12. A lease grants at most the limit of distinct tasks of the item, each queued or with a lapsed
  lease, and each with every dependency present in the same item and finished; they are stored as
  leased to the caller until the deadline. Until then, whatever operations on tasks and items run,
  by anybody, they stay leased to the caller and no lease grants them again; only an update in the
  caller's name that changes the status, requeueing the item's orphans, or ending the item gives
  them up.
\<close>

theorem lease_exclusive:
  assumes "task_keys_ok b" "lease_runnable_tasks sc iid owner fresh now ttl limit b = (Inr leased, b1)"
    and "(keeps_lease (sc_tenant sc) iid owner (now + lease_ttl ttl))\<^sup>*\<^sup>* b1 b2"
  shows "length leased \<le> lease_limit limit \<and> distinct (map wt_id leased) \<and>
    (\<forall>t \<in> set leased. \<exists>t0 \<in> set (wb_tasks b). t = lease_row owner (now + lease_ttl ttl) now t0 \<and>
      task_in_scope sc b t0 \<and> wt_item t0 = iid \<and> lease_free now t0 \<and>
      (\<forall>d \<in> set (task_deps t0). \<exists>u \<in> set (wb_tasks b). wt_tenant u = sc_tenant sc \<and> wt_item u = iid \<and> wt_id u = d \<and>
        is_terminal_task_state (Some (wt_status u)))) \<and>
    (\<forall>t \<in> set leased. leased_until (task_key t) iid owner (now + lease_ttl ttl) b2) \<and>
    (\<forall>sc2 iid2 owner2 fresh2 now2 ttl2 limit2 leased2 b3.
      lease_runnable_tasks sc2 iid2 owner2 fresh2 now2 ttl2 limit2 b2 = (Inr leased2, b3) \<longrightarrow>
      now2 < now + lease_ttl ttl \<longrightarrow> task_key ` set leased \<inter> task_key ` set leased2 = {})"
proof -
  let ?x = "now + lease_ttl ttl"
  note g = lease_grants [OF assms(1) [unfolded task_keys_ok_def] assms(2)]
  have ok1: "task_keys_ok b1"
    using lease_change [OF assms(1), of sc iid owner fresh now ttl limit] assms(1,2) keys_changed
    unfolding task_keys_ok_def by (metis snd_conv)
  have k: "task_keys_ok b2 \<and> leased_until (task_key t) iid owner ?x b2" if "t \<in> set leased" for t
  proof -
    from g that obtain t0 where t0: "t = lease_row owner ?x now t0" "task_in_scope sc b t0" "wt_item t0 = iid" by blast
    then have "fst (task_key t) = sc_tenant sc" "wt_item t = iid" "wt_status t = TLeased" "wt_lease_owner t = Some owner"
      "wt_lease_expires t = Some ?x" by (simp_all add: lease_row_def task_in_scope_def task_key_def)
    moreover from g that have "t \<in> set (wb_tasks b1)" by blast
    ultimately have "leased_until (task_key t) iid owner ?x b1" "fst (task_key t) = sc_tenant sc"
      by (auto simp: leased_until_def)
    with lease_kept_steps [of "task_key t"] assms(3) ok1 show ?thesis by simp
  qed
  have "task_key x \<noteq> task_key y"
    if l: "lease_runnable_tasks sc2 iid2 owner2 fresh2 now2 ttl2 limit2 b2 = (Inr leased2, b3)"
      and n: "now2 < ?x" and x: "x \<in> set leased" and y: "y \<in> set leased2"
    for sc2 iid2 owner2 fresh2 now2 ttl2 limit2 leased2 b3 x y
  proof
    assume e: "task_key x = task_key y"
    from k [OF x] have ok2: "task_keys_ok b2" and lu: "leased_until (task_key x) iid owner ?x b2" by blast+
    from lease_grants [OF ok2 [unfolded task_keys_ok_def] l] y obtain y0 where y0: "y0 \<in> set (wb_tasks b2)"
      "y = lease_row owner2 (now2 + lease_ttl ttl2) now2 y0" "lease_free now2 y0" by blast
    from lu obtain z where z: "z \<in> set (wb_tasks b2)" "task_key z = task_key x" "wt_status z = TLeased" "wt_lease_expires z = Some ?x"
      by (auto simp: leased_until_def)
    have "z = y0" using task_unique [OF ok2 z(1) y0(1)] z(2) e y0(2) by (simp add: task_key_def lease_row_def)
    with z y0(3) n show False by (simp add: lease_free_def)
  qed
  then have "task_key ` set leased \<inter> task_key ` set leased2 = {}"
    if "lease_runnable_tasks sc2 iid2 owner2 fresh2 now2 ttl2 limit2 b2 = (Inr leased2, b3)" "now2 < ?x"
    for sc2 iid2 owner2 fresh2 now2 ttl2 limit2 leased2 b3
    using that by blast
  then show ?thesis using g k by (simp del: Int_iff)
qed

lemma lease_exclusive_witness:
  "\<exists>leased b1. lease_runnable_tasks demo_scope ''i'' ''o'' (\<lambda>_. ''v'') 9 (Some 2000) None task_board = (Inr leased, b1) \<and>
    map task_key leased = [(''t'', ''A'')] \<and>
    leased_until (''t'', ''A'') ''i'' ''o'' 2009
      (snd (update_task demo_scope ''e'' ''A'' (Some ''p'') 10 True start_patch 10 (requeue_orphaned_tasks demo_scope ''j'' 9 b1)))"
proof -
  obtain res b1 where r: "lease_runnable_tasks demo_scope ''i'' ''o'' (\<lambda>_. ''v'') 9 (Some 2000) None task_board = (res, b1)"
    by fastforce
  have "(case fst (lease_runnable_tasks demo_scope ''i'' ''o'' (\<lambda>_. ''v'') 9 (Some 2000) None task_board) of
    Inl _ \<Rightarrow> False | Inr l \<Rightarrow> map task_key l = [(''t'', ''A'')])" by code_simp
  with r obtain leased where l: "res = Inr leased" "map task_key leased = [(''t'', ''A'')]" by (auto split: sum.splits)
  note r' = r [unfolded l(1)]
  have ok: "task_keys_ok task_board" using task_board_ok by (simp add: tasks_ok_def task_keys_ok_def)
  let ?b = "snd (update_task demo_scope ''e'' ''A'' (Some ''p'') 10 True start_patch 10 (requeue_orphaned_tasks demo_scope ''j'' 9 b1))"
  have x: "9 + lease_ttl (Some 2000) = 2009" by (simp add: lease_ttl_def)
  let ?step = "keeps_lease (sc_tenant demo_scope) ''i'' ''o'' (9 + lease_ttl (Some 2000))"
  have "trimmed (Some ''p'') \<noteq> Some ''o''" by code_simp
  then have "?step (requeue_orphaned_tasks demo_scope ''j'' 9 b1) ?b" by (intro kl_update disjI1)
  moreover have "?step b1 (requeue_orphaned_tasks demo_scope ''j'' 9 b1)" by (rule kl_requeue) simp
  ultimately have "?step\<^sup>*\<^sup>* b1 ?b" by (meson converse_rtranclp_into_rtranclp r_into_rtranclp)
  from lease_exclusive [OF ok r' this] l(2) x have "leased_until (''t'', ''A'') ''i'' ''o'' 2009 ?b" by (auto simp: map_eq_Cons_conv)
  with r' l(2) show ?thesis by (intro exI [of _ leased] exI [of _ b1] conjI)
qed

subsection \<open>Deleted dependencies\<close>

text \<open>
  What may happen to the board while nobody rewrites the dependencies of the task \<open>k\<close> and no task is
  created with the id \<open>k\<close> or \<open>d\<close> (the code draws a fresh one): every operation, at any time.
\<close>

inductive leaves_deps :: "string \<Rightarrow> string \<Rightarrow> string \<Rightarrow> board \<Rightarrow> board \<Rightarrow> bool" for tn k d where
  ld_create: "sc_tenant sc \<noteq> tn \<or> tid \<notin> {k, d} \<Longrightarrow> leaves_deps tn k d b (snd (create_task sc tid now p b))"
| ld_delete: "leaves_deps tn k d b (snd (delete_task sc tid b))"
| ld_lease: "leaves_deps tn k d b (snd (lease_runnable_tasks sc i u fresh now ttl limit b))"
| ld_update: "sc_tenant sc \<noteq> tn \<or> tid \<noteq> k \<or> tp_depends_on q = None \<Longrightarrow>
    leaves_deps tn k d b (snd (update_task sc ev tid u now allow q at b))"
| ld_requeue: "leaves_deps tn k d b (requeue_orphaned_tasks sc i at b)"
| ld_item_create: "leaves_deps tn k d b (snd (create_item sc new_id now src ip b))"
| ld_item_update: "leaves_deps tn k d b (snd (update_item sc i iq now b))"
| ld_transition: "leaves_deps tn k d b (snd (transition_item sc ev i to reason now b))"
| ld_item_delete: "leaves_deps tn k d b (snd (delete_item sc i b))"

definition waits_for_missing :: "string \<Rightarrow> string \<Rightarrow> string \<Rightarrow> work_task \<Rightarrow> bool" where
  "waits_for_missing tn k d t \<longleftrightarrow> task_key t \<noteq> (tn, d) \<and> (task_key t = (tn, k) \<longrightarrow> d \<in> set (task_deps t))"

definition dangling :: "string \<Rightarrow> string \<Rightarrow> string \<Rightarrow> board \<Rightarrow> bool" where
  "dangling tn k d b \<longleftrightarrow> task_keys_ok b \<and> (\<forall>t \<in> set (wb_tasks b). waits_for_missing tn k d t)"

fun dangling_change :: "string \<Rightarrow> string \<Rightarrow> string \<Rightarrow> table_change \<Rightarrow> bool" where
  "dangling_change tn k d (Added t) \<longleftrightarrow> task_key t \<notin> {(tn, k), (tn, d)}"
| "dangling_change tn k d (Changed P f) \<longleftrightarrow>
    (\<forall>t. P t \<longrightarrow> task_key (f t) = task_key t \<and> (task_key t = (tn, k) \<longrightarrow> wt_depends_on (f t) = wt_depends_on t))"
| "dangling_change tn k d _ \<longleftrightarrow> True"

lemma dangling_changed:
  assumes "dangling tn k d b" "wb_tasks b' = changed_tasks c (wb_tasks b)" "change_ok c (wb_tasks b)" "dangling_change tn k d c"
  shows "dangling tn k d b'"
proof -
  have "task_keys_ok b'" using keys_changed [OF assms(3)] assms(1,2) by (simp add: task_keys_ok_def dangling_def)
  moreover have "\<forall>t \<in> set (changed_tasks c (wb_tasks b)). waits_for_missing tn k d t"
    using assms(1,4) unfolding dangling_def
    by (cases c) (auto simp: set_update_where waits_for_missing_def task_deps_def)
  ultimately show ?thesis using assms(2) by (simp add: dangling_def)
qed

lemma leaves_dangling: "leaves_deps tn k d b b' \<Longrightarrow> dangling tn k d b \<Longrightarrow> dangling tn k d b'"
proof (induction rule: leaves_deps.induct)
  case (ld_create sc tid b now p)
  obtain c where c: "wb_tasks (snd (create_task sc tid now p b)) = changed_tasks c (wb_tasks b)" "change_ok c (wb_tasks b)"
    "c = Unchanged \<or> (\<exists>deps. c = Added (new_task sc tid now deps p))" using create_change [of sc tid now p b] .
  show ?case by (rule dangling_changed [OF ld_create(2) c(1)]) (use c ld_create in \<open>auto simp: task_key_def new_task_def\<close>)
next
  case (ld_delete b sc tid)
  obtain c where c: "wb_tasks (snd (delete_task sc tid b)) = changed_tasks c (wb_tasks b)" "c = Unchanged \<or> (\<exists>P. c = Removed P)"
    using delete_change [of b sc tid] ld_delete unfolding dangling_def by metis
  show ?case by (rule dangling_changed [OF ld_delete c(1)]) (use c ld_delete in \<open>auto\<close>)
next
  case (ld_lease b sc i u fresh now ttl limit)
  obtain c where c: "wb_tasks (snd (lease_runnable_tasks sc i u fresh now ttl limit b)) = changed_tasks c (wb_tasks b)"
    "change_ok c (wb_tasks b)" "c = Unchanged \<or> (\<exists>ids. c = Changed (granted sc ids now) (lease_row u (now + lease_ttl ttl) now))"
    using lease_change [of b sc i u fresh now ttl limit] ld_lease unfolding dangling_def by metis
  show ?case by (rule dangling_changed [OF ld_lease c(1)]) (use c ld_lease in \<open>auto simp: task_key_def lease_row_def\<close>)
next
  case (ld_update sc tid q b ev u now allow at)
  obtain c where c: "wb_tasks (snd (update_task sc ev tid u now allow q at b)) = changed_tasks c (wb_tasks b)"
    "change_ok c (wb_tasks b)"
    "c = Unchanged \<or> (\<exists>t deps. get_task sc tid b = Some t \<and> resolve_depends_on sc tid t q b = Inr deps \<and>
      assert_lease_mutation_allowed t u now (is_leaving_lease (wt_status t) (tp_status q)) allow = None \<and>
      c = Changed (task_at sc tid) (patch_task q deps (is_leaving_lease (wt_status t) (tp_status q)) at))"
    using update_change [of sc ev tid u now allow q at b] .
  have "dangling_change tn k d c" using c(3) ld_update(1) resolve_depends [of sc tid _ q b]
    by (fastforce simp: task_key_def patch_task_def task_at_def patched_def)
  with dangling_changed [OF ld_update(2) c(1,2)] show ?case by blast
next
  case (ld_requeue b sc i at)
  show ?case by (rule dangling_changed [OF ld_requeue requeue_change]) (simp add: task_key_def orphan_requeued_def)
next
  case (ld_item_create b sc new_id now src ip)
  then show ?case by (simp add: dangling_def task_keys_ok_def)
next
  case (ld_item_update b sc i iq now)
  then show ?case by (simp add: dangling_def task_keys_ok_def)
next
  case (ld_transition b sc ev i to reason now)
  obtain c where c: "wb_tasks (snd (transition_item sc ev i to reason now b)) = changed_tasks c (wb_tasks b)"
    "change_ok c (wb_tasks b)" "c = Unchanged \<or> (\<exists>P. c = Changed P (cancelled_task now))"
    using transition_change [of sc ev i to reason now b] by blast
  show ?case by (rule dangling_changed [OF ld_transition c(1)]) (use c ld_transition in \<open>auto simp: task_key_def cancelled_task_def\<close>)
next
  case (ld_item_delete b sc i)
  obtain c where c: "wb_tasks (snd (delete_item sc i b)) = changed_tasks c (wb_tasks b)" "c = Unchanged \<or> (\<exists>P. c = Removed P)"
    using item_delete_change [of sc i b] by metis
  show ?case by (rule dangling_changed [OF ld_item_delete c(1)]) (use c ld_item_delete in \<open>auto\<close>)
qed

text \<open>
  C40. A deleted dependency blocks: after a task is deleted, a task that depended on it is granted by
  no lease, at any time and after any further operations, as long as nobody rewrites its
  dependencies (ids of new tasks are fresh). Nothing cleans the dependency list up.
\<close>

theorem deleted_dependency_blocks:
  assumes "task_keys_ok b" "delete_task sc d b = (Inr (Some gone), b1)"
    and "t \<in> set (wb_tasks b1)" "d \<in> set (task_deps t)" "wt_tenant t = sc_tenant sc"
    and "(leaves_deps (sc_tenant sc) (wt_id t) d)\<^sup>*\<^sup>* b1 b2"
    and "lease_runnable_tasks sc2 iid owner fresh now ttl limit b2 = (Inr leased, b3)"
  shows "task_key t \<notin> task_key ` set leased"
proof
  assume "task_key t \<in> task_key ` set leased"
  then obtain x where x: "x \<in> set leased" "task_key x = task_key t" by auto
  from assms(2) have g: "get_task sc d b = Some gone"
    and b1: "wb_tasks b1 = filter (\<lambda>t. \<not> (task_at sc d t \<and> task_in_scope sc b t)) (wb_tasks b)"
    by (auto simp: delete_task_def split: option.splits if_splits)
  note m = get_task_in [OF g]
  have "waits_for_missing (sc_tenant sc) (wt_id t) d u" if u: "u \<in> set (wb_tasks b1)" for u
  proof -
    have "task_key u \<noteq> (sc_tenant sc, d)"
      using task_unique [OF assms(1), of u gone] u b1 m by (auto simp: task_key_def task_at_def)
    moreover have "task_key u = (sc_tenant sc, wt_id t) \<Longrightarrow> u = t"
      using task_unique [OF assms(1), of u t] u assms(3,5) b1 by (simp add: task_key_def)
    ultimately show ?thesis using assms(4) by (auto simp: waits_for_missing_def)
  qed
  moreover have "task_keys_ok b1" using assms(1) b1 by (simp add: task_keys_ok_def distinct_map_filter)
  ultimately have "dangling (sc_tenant sc) (wt_id t) d b1" by (simp add: dangling_def)
  with assms(6) have dd: "dangling (sc_tenant sc) (wt_id t) d b2"
    by (induction rule: rtranclp_induct) (blast dest: leaves_dangling)+
  have ok: "distinct (map task_key (wb_tasks b2))" using dd by (simp add: dangling_def task_keys_ok_def)
  from lease_grants [OF ok assms(7)] x(1) obtain t0 where t0: "t0 \<in> set (wb_tasks b2)"
    "x = lease_row owner (now + lease_ttl ttl) now t0" "task_in_scope sc2 b2 t0"
    and deps: "\<forall>d \<in> set (task_deps t0). \<exists>u \<in> set (wb_tasks b2). wt_tenant u = sc_tenant sc2 \<and> wt_item u = iid \<and> wt_id u = d \<and>
      is_terminal_task_state (Some (wt_status u))"
    by blast
  have k: "task_key t0 = (sc_tenant sc, wt_id t)" "sc_tenant sc2 = sc_tenant sc"
    using t0(2,3) x(2) assms(5) by (auto simp: task_key_def lease_row_def task_in_scope_def)
  with dd t0(1) have "d \<in> set (task_deps t0)" by (auto simp: dangling_def waits_for_missing_def)
  with deps k obtain u where "u \<in> set (wb_tasks b2)" "task_key u = (sc_tenant sc, d)" by (auto simp: task_key_def)
  with dd show False by (auto simp: dangling_def waits_for_missing_def)
qed

lemma deleted_dependency_blocks_witness:
  "\<exists>leased b3. lease_runnable_tasks demo_scope ''i'' ''o'' (\<lambda>_. ''v'') 9 (Some 2000) None
      (requeue_orphaned_tasks demo_scope ''i'' 8 (snd (delete_task demo_scope ''A'' task_board))) = (Inr leased, b3) \<and>
    (''t'', ''B'') \<notin> task_key ` set leased"
proof -
  obtain res b1 where d: "delete_task demo_scope ''A'' task_board = (res, b1)" by fastforce
  have "(case fst (delete_task demo_scope ''A'' task_board) of Inr (Some _) \<Rightarrow> True | _ \<Rightarrow> False)"
    "(case wb_tasks (snd (delete_task demo_scope ''A'' task_board)) of [t] \<Rightarrow>
      ''A'' \<in> set (task_deps t) \<and> wt_tenant t = sc_tenant demo_scope \<and> wt_id t = ''B'' | _ \<Rightarrow> False)"
    by code_simp+
  note ev = this [unfolded d fst_conv snd_conv]
  obtain gone where g: "res = Inr (Some gone)"
    using ev(1) by (cases res; simp split: option.splits)
  obtain t where t: "wb_tasks b1 = [t]" "''A'' \<in> set (task_deps t)" "wt_tenant t = sc_tenant demo_scope" "wt_id t = ''B''"
    using ev(2) by (cases "wb_tasks b1"; simp split: list.splits)
  let ?b2 = "requeue_orphaned_tasks demo_scope ''i'' 8 b1"
  obtain out b3 where l: "lease_runnable_tasks demo_scope ''i'' ''o'' (\<lambda>_. ''v'') 9 (Some 2000) None ?b2 = (out, b3)" by fastforce
  have "(case fst (lease_runnable_tasks demo_scope ''i'' ''o'' (\<lambda>_. ''v'') 9 (Some 2000) None
      (requeue_orphaned_tasks demo_scope ''i'' 8 (snd (delete_task demo_scope ''A'' task_board)))) of Inr _ \<Rightarrow> True | Inl _ \<Rightarrow> False)"
    by code_simp
  from this [unfolded d snd_conv l fst_conv] obtain leased where o': "out = Inr leased" by (cases out) simp_all
  have ok: "task_keys_ok task_board" using task_board_ok by (simp add: tasks_ok_def task_keys_ok_def)
  have m: "t \<in> set (wb_tasks b1)" using t(1) by simp
  have st: "(leaves_deps (sc_tenant demo_scope) (wt_id t) ''A'')\<^sup>*\<^sup>* b1 ?b2" by (rule r_into_rtranclp) (rule ld_requeue)
  have "sc_tenant demo_scope = ''t''" by code_simp
  then have "task_key t = (''t'', ''B'')" using t(3,4) by (simp add: task_key_def)
  with deleted_dependency_blocks [OF ok d [unfolded g] m t(2,3) st l [unfolded o']] l o'
  show ?thesis unfolding d snd_conv by (intro exI [of _ leased] exI [of _ b3] conjI) simp_all
qed

end
