(* ===== verification/Policy_Engine.thy ===== *)
theory Policy_Engine
  imports Json_Value Policy_Tool_Eval
begin

text \<open>
  The request policy \<open>runtime-policy/src/engine.ts\<close> (spend, personal data, legal flags, connector
  scopes) and the wallet authorization \<open>gateway/src/modules/wallet/authorization.ts\<close>. Amounts are
  integers in minor units. \<open>toFixed\<close> on a quotient of an integer by a power of ten is the decimal
  text of the quotient as long as the integer is exact (below \<open>2 ^ 53\<close>).
\<close>

subsection \<open>Money\<close>

definition to_upper :: "string \<Rightarrow> string" where
  "to_upper s = map upper_char s"

definition zero_decimal :: "string list" where
  "zero_decimal = [''BIF'', ''CLP'', ''DJF'', ''GNF'', ''JPY'', ''KMF'', ''KRW'', ''MGA'', ''PYG'', ''RWF'', ''UGX'',
    ''VND'', ''VUV'', ''XAF'', ''XOF'', ''XPF'']"

definition three_decimal :: "string list" where
  "three_decimal = [''BHD'', ''IQD'', ''JOD'', ''KWD'', ''LYD'', ''OMR'', ''TND'']"

definition currency_minor_units :: "string \<Rightarrow> nat" where
  "currency_minor_units currency =
    (if to_upper currency \<in> set zero_decimal then 0
     else if to_upper currency \<in> set three_decimal then 3
     else 2)"

definition pad_zeros :: "nat \<Rightarrow> string \<Rightarrow> string" where
  "pad_zeros d s = replicate (d - length s) (CHR ''0'') @ s"

text \<open>\<open>(amount / 10 ** d).toFixed(d)\<close>.\<close>

definition to_fixed :: "int \<Rightarrow> nat \<Rightarrow> string" where
  "to_fixed amount d =
    (let n = nat \<bar>amount\<bar> in
     (if amount < 0 then ''-'' else []) @ show_nat (n div 10 ^ d) @
     (if d = 0 then [] else ''.'' @ pad_zeros d (show_nat (n mod 10 ^ d))))"

definition format_money :: "int \<Rightarrow> string \<Rightarrow> string" where
  "format_money amount currency = to_upper currency @ '' '' @ to_fixed amount (currency_minor_units currency)"

subsection \<open>Requests\<close>

datatype pii_category = BasicContact | Location | Financial | Health | Biometric | GovernmentId | OtherPii

datatype legal_flag = ProhibitedContent | RequiresReview | TermsUnknown | ExportControlled | OtherLegal

record spend_context =
  sc_amount :: int
  sc_currency :: string
  sc_user_limit :: "int option"

record policy_check =
  pc_spend :: "spend_context option"
  pc_pii :: "pii_category list option"
  pc_legal :: "legal_flag list option"
  pc_connector :: "string option option"

record policy_verdict =
  vd_decision :: decision
  vd_rules :: "policy_rule list"

fun pii_text :: "pii_category \<Rightarrow> string" where
  "pii_text BasicContact = ''basic_contact''"
| "pii_text Location = ''location''"
| "pii_text Financial = ''financial''"
| "pii_text Health = ''health''"
| "pii_text Biometric = ''biometric''"
| "pii_text GovernmentId = ''government_id''"
| "pii_text OtherPii = ''other''"

fun legal_text :: "legal_flag \<Rightarrow> string" where
  "legal_text ProhibitedContent = ''prohibited_content''"
| "legal_text RequiresReview = ''requires_review''"
| "legal_text TermsUnknown = ''terms_unknown''"
| "legal_text ExportControlled = ''export_controlled''"
| "legal_text OtherLegal = ''other''"

definition describe_categories :: "pii_category list \<Rightarrow> string" where
  "describe_categories cs = join_with '', '' (map pii_text cs)"

definition describe_legal_flags :: "legal_flag list \<Rightarrow> string" where
  "describe_legal_flags fs = join_with '', '' (map legal_text fs)"

definition auto_approve_limit :: int where
  "auto_approve_limit = 10000"

definition hard_deny_limit :: int where
  "hard_deny_limit = 50000"

definition auto_approve_scopes :: "string list" where
  "auto_approve_scopes = [''mcp://calendar'', ''mcp://crm'', ''mcp://email'', ''mcp://files'', ''mcp://support'', ''mcp://tasks'']"

definition hard_deny_scopes :: "string list" where
  "hard_deny_scopes = [''mcp://root'', ''mcp://secrets'', ''mcp://admin'']"

subsection \<open>The rules\<close>

abbreviation ruling :: "rule_kind \<Rightarrow> decision \<Rightarrow> string \<Rightarrow> policy_rule" where
  "ruling k d text' \<equiv> \<lparr>pr_rule = k, pr_outcome = d, pr_detail = text'\<rparr>"

definition evaluate_spend :: "spend_context option \<Rightarrow> policy_rule" where
  "evaluate_spend ctx =
    (case ctx of
       None \<Rightarrow> ruling SpendLimitRule RequireApproval ''Spend context missing; escalate for confirmation.''
     | Some c \<Rightarrow>
         (let amount = sc_amount c;
              user_limit = (case sc_user_limit c of None \<Rightarrow> auto_approve_limit | Some l \<Rightarrow> l);
              money = (\<lambda>n. format_money n (sc_currency c))
          in if hard_deny_limit < amount
             then ruling SpendLimitRule Deny
               (''Amount '' @ money amount @ '' exceeds hard limit '' @ money hard_deny_limit @ ''.'')
             else if user_limit < amount
             then ruling SpendLimitRule RequireApproval
               (''Amount '' @ money amount @ '' exceeds user limit '' @ money user_limit @ ''.'')
             else ruling SpendLimitRule Allow
               (''Amount '' @ money amount @ '' within auto-approval limit '' @ money user_limit @ ''.'')))"

definition evaluate_pii :: "pii_category list option \<Rightarrow> policy_rule" where
  "evaluate_pii ctx =
    (case ctx of
       None \<Rightarrow> ruling PiiGuardrailRule RequireApproval ''PII context missing; escalate to request confirmation.''
     | Some cs \<Rightarrow>
         if cs = [] then ruling PiiGuardrailRule Allow ''No PII categories declared.''
         else if list_ex (\<lambda>c. c = Biometric \<or> c = GovernmentId) cs
         then ruling PiiGuardrailRule Deny
           (''Detected protected PII categories: '' @ describe_categories cs @ ''.'')
         else if list_ex (\<lambda>c. c = Financial \<or> c = Health) cs
         then ruling PiiGuardrailRule RequireApproval
           (''Detected sensitive PII categories requiring consent: '' @ describe_categories cs @ ''.'')
         else ruling PiiGuardrailRule Allow
           (''PII categories acceptable for automated handling: '' @ describe_categories cs @ ''.''))"

definition evaluate_legal :: "legal_flag list option \<Rightarrow> policy_rule" where
  "evaluate_legal ctx =
    (case ctx of
       None \<Rightarrow> ruling LegalComplianceRule RequireApproval ''Legal context missing; escalate for review.''
     | Some fs \<Rightarrow>
         if fs = [] then ruling LegalComplianceRule Allow ''No legal flags raised.''
         else if list_ex (\<lambda>f. f = ProhibitedContent) fs
         then ruling LegalComplianceRule Deny
           (''Prohibited legal flags present: '' @ describe_legal_flags fs @ ''.'')
         else if list_ex (\<lambda>f. f = RequiresReview \<or> f = ExportControlled \<or> f = TermsUnknown) fs
         then ruling LegalComplianceRule RequireApproval
           (''Legal flags require human review: '' @ describe_legal_flags fs @ ''.'')
         else ruling LegalComplianceRule Allow
           (''Legal flags acceptable: '' @ describe_legal_flags fs @ ''.''))"

definition evaluate_connector_scope :: "string option option \<Rightarrow> policy_rule option" where
  "evaluate_connector_scope ctx =
    (case ctx of
       None \<Rightarrow> None
     | Some given \<Rightarrow>
         (let scope = (case given of None \<Rightarrow> [] | Some s \<Rightarrow> trim s)
          in Some
            (if scope = []
             then ruling ConnectorScopeRule RequireApproval ''Connector scope missing; escalate for consent.''
             else if scope \<in> set hard_deny_scopes
             then ruling ConnectorScopeRule Deny (''Connector scope '' @ scope @ '' prohibited by policy.'')
             else if scope \<in> set auto_approve_scopes
             then ruling ConnectorScopeRule Allow (''Connector scope '' @ scope @ '' already granted.'')
             else ruling ConnectorScopeRule RequireApproval
               (''Consent required before activating connector scope '' @ scope @ ''.''))))"

definition overall_decision :: "policy_rule list \<Rightarrow> decision" where
  "overall_decision rules =
    (if list_ex (\<lambda>r. pr_outcome r = Deny) rules then Deny
     else if list_ex (\<lambda>r. pr_outcome r = RequireApproval) rules then RequireApproval
     else Allow)"

definition evaluate_policy :: "policy_check \<Rightarrow> policy_verdict" where
  "evaluate_policy request =
    (let rules = [evaluate_spend (pc_spend request), evaluate_pii (pc_pii request),
           evaluate_legal (pc_legal request)] @
           (case evaluate_connector_scope (pc_connector request) of None \<Rightarrow> [] | Some r \<Rightarrow> [r])
     in \<lparr>vd_decision = overall_decision rules, vd_rules = rules\<rparr>)"

subsection \<open>The wallet\<close>

datatype authorization_decision = WalletApprove | WalletEscalate | WalletDeny

record thresholds =
  th_auto_approve :: int
  th_hard_deny :: int

record authorize_response =
  wr_request_id :: "string option"
  wr_decision :: authorization_decision
  wr_reason :: string
  wr_limits :: thresholds

definition default_thresholds :: thresholds where
  "default_thresholds = \<lparr>th_auto_approve = 10000, th_hard_deny = 50000\<rparr>"

definition authorize_with_thresholds ::
  "string option \<Rightarrow> int \<Rightarrow> string \<Rightarrow> thresholds \<Rightarrow> authorize_response" where
  "authorize_with_thresholds request_id amount currency th =
    (let money = (\<lambda>n. format_money n currency);
         result = (\<lambda>d reason. \<lparr>wr_request_id = request_id, wr_decision = d, wr_reason = reason, wr_limits = th\<rparr>)
     in if th_hard_deny th < amount
        then result WalletDeny
          (''Amount '' @ money amount @ '' exceeds hard limit '' @ money (th_hard_deny th) @ ''.'')
        else if th_auto_approve th < amount
        then result WalletEscalate
          (''Amount '' @ money amount @ '' exceeds auto-approval limit '' @ money (th_auto_approve th) @
           ''; escalate to human review.'')
        else result WalletApprove
          (''Amount '' @ money amount @ '' within auto-approval limit '' @ money (th_auto_approve th) @ ''.''))"

subsection \<open>The verdict\<close>

lemma overall_is_most_restrictive:
  "overall_decision rules = foldl most_restrictive_decision Allow (map pr_outcome rules)"
proof (induction rules rule: rev_induct)
  case (snoc r rules)
  then have e: "foldl most_restrictive_decision Allow (map pr_outcome (rules @ [r])) =
      most_restrictive_decision (overall_decision rules) (pr_outcome r)" by simp
  show ?case
    unfolding e by (cases "pr_outcome r") (auto simp: overall_decision_def most_restrictive_decision_def)
qed (simp add: overall_decision_def)

definition escalating_pii :: "pii_category list \<Rightarrow> bool" where
  "escalating_pii cs \<longleftrightarrow> Financial \<in> set cs \<or> Health \<in> set cs"

definition protected_pii :: "pii_category list \<Rightarrow> bool" where
  "protected_pii cs \<longleftrightarrow> Biometric \<in> set cs \<or> GovernmentId \<in> set cs"

definition spend_cap :: "spend_context \<Rightarrow> int" where
  "spend_cap s = min hard_deny_limit (case sc_user_limit s of None \<Rightarrow> auto_approve_limit | Some l \<Rightarrow> l)"

lemma spend_outcome:
  "pr_outcome (evaluate_spend ctx) = Deny \<longleftrightarrow> (\<exists>s. ctx = Some s \<and> hard_deny_limit < sc_amount s)"
  "pr_outcome (evaluate_spend ctx) = Allow \<longleftrightarrow> (\<exists>s. ctx = Some s \<and> sc_amount s \<le> spend_cap s)"
  by (auto simp: evaluate_spend_def spend_cap_def Let_def split: option.splits)

lemma pii_outcome:
  "pr_outcome (evaluate_pii ctx) = Deny \<longleftrightarrow> (\<exists>cs. ctx = Some cs \<and> protected_pii cs)"
  "pr_outcome (evaluate_pii ctx) = Allow \<longleftrightarrow> (\<exists>cs. ctx = Some cs \<and> \<not> protected_pii cs \<and> \<not> escalating_pii cs)"
  by (auto simp: evaluate_pii_def protected_pii_def escalating_pii_def list_ex_iff split: option.splits)

lemma legal_outcome:
  "pr_outcome (evaluate_legal ctx) = Deny \<longleftrightarrow> (\<exists>fs. ctx = Some fs \<and> ProhibitedContent \<in> set fs)"
  "pr_outcome (evaluate_legal ctx) = Allow \<longleftrightarrow> (\<exists>fs. ctx = Some fs \<and> set fs \<subseteq> {OtherLegal})"
proof -
  have f: "f = OtherLegal \<longleftrightarrow>
      f \<noteq> ProhibitedContent \<and> f \<noteq> RequiresReview \<and> f \<noteq> ExportControlled \<and> f \<noteq> TermsUnknown" for f
    by (cases f) auto
  show "pr_outcome (evaluate_legal ctx) = Allow \<longleftrightarrow> (\<exists>fs. ctx = Some fs \<and> set fs \<subseteq> {OtherLegal})"
    unfolding subset_iff singleton_iff f by (auto simp: evaluate_legal_def list_ex_iff split: option.splits)
qed (auto simp: evaluate_legal_def list_ex_iff split: option.splits)

definition granted_scope :: "string option option \<Rightarrow> bool" where
  "granted_scope ctx \<longleftrightarrow> ctx = None \<or> (\<exists>s. ctx = Some (Some s) \<and> trim s \<in> set auto_approve_scopes)"

definition forbidden_scope :: "string option option \<Rightarrow> bool" where
  "forbidden_scope ctx \<longleftrightarrow> (\<exists>s. ctx = Some (Some s) \<and> trim s \<in> set hard_deny_scopes)"

lemma scope_lists: "[] \<notin> set auto_approve_scopes" "[] \<notin> set hard_deny_scopes"
  "s \<in> set auto_approve_scopes \<Longrightarrow> s \<notin> set hard_deny_scopes"
  by (auto simp: auto_approve_scopes_def hard_deny_scopes_def)

lemma connector_outcome:
  "(\<exists>r. evaluate_connector_scope ctx = Some r \<and> pr_outcome r = Deny) \<longleftrightarrow> forbidden_scope ctx"
  "(\<forall>r. evaluate_connector_scope ctx = Some r \<longrightarrow> pr_outcome r = Allow) \<longleftrightarrow> granted_scope ctx"
  using scope_lists by (auto simp: evaluate_connector_scope_def forbidden_scope_def granted_scope_def Let_def split: option.splits)

lemma overall_Deny: "overall_decision rules = Deny \<longleftrightarrow> (\<exists>r \<in> set rules. pr_outcome r = Deny)"
  by (simp add: overall_decision_def list_ex_iff)

lemma overall_Allow: "overall_decision rules = Allow \<longleftrightarrow> (\<forall>r \<in> set rules. pr_outcome r = Allow)"
proof -
  have "d = Allow \<longleftrightarrow> d \<noteq> Deny \<and> d \<noteq> RequireApproval" for d by (cases d) auto
  then show ?thesis by (auto simp: overall_decision_def list_ex_iff)
qed

lemma set_verdict_rules: "set (vd_rules (evaluate_policy r)) =
    {evaluate_spend (pc_spend r), evaluate_pii (pc_pii r), evaluate_legal (pc_legal r)} \<union>
    set_option (evaluate_connector_scope (pc_connector r))"
  by (auto simp: evaluate_policy_def Let_def split: option.splits)

lemma verdict_decision: "vd_decision (evaluate_policy r) = overall_decision (vd_rules (evaluate_policy r))"
  by (simp add: evaluate_policy_def Let_def)

text \<open>
  The verdict on a request, exactly: it is denied when the amount is over the hard limit, a
  protected category or prohibited content is declared, or a forbidden connector scope is asked for;
  it is allowed only when every context is declared and harmless and the amount is within the user's
  limit, which can never lift the hard limit. Everything else, above all an undeclared context, asks
  for approval.
\<close>

theorem request_verdict:
  "(vd_decision (evaluate_policy r) = Deny \<longleftrightarrow>
    (\<exists>s. pc_spend r = Some s \<and> hard_deny_limit < sc_amount s) \<or>
    (\<exists>cs. pc_pii r = Some cs \<and> protected_pii cs) \<or>
    (\<exists>fs. pc_legal r = Some fs \<and> ProhibitedContent \<in> set fs) \<or>
    forbidden_scope (pc_connector r)) \<and>
   (vd_decision (evaluate_policy r) = Allow \<longleftrightarrow>
    (\<exists>s. pc_spend r = Some s \<and> sc_amount s \<le> spend_cap s) \<and>
    (\<exists>cs. pc_pii r = Some cs \<and> \<not> protected_pii cs \<and> \<not> escalating_pii cs) \<and>
    (\<exists>fs. pc_legal r = Some fs \<and> set fs \<subseteq> {OtherLegal}) \<and>
    granted_scope (pc_connector r))"
  unfolding verdict_decision overall_Deny overall_Allow set_verdict_rules
    connector_outcome [symmetric] spend_outcome [symmetric] pii_outcome [symmetric] legal_outcome [symmetric]
  by auto

subsection \<open>Money texts are exact\<close>

definition read_minor :: "string \<Rightarrow> int" where
  "read_minor s =
    (if starts_with s ''-'' then - int (digits_value (filter (\<lambda>c. c \<noteq> CHR ''.'') (tl s)))
     else int (digits_value (filter (\<lambda>c. c \<noteq> CHR ''.'') s)))"

lemma digits_value_from: "foldl (\<lambda>v c. 10 * v + (of_char c - 48)) a s = a * 10 ^ length s + digits_value s"
proof (induction s arbitrary: a)
  case (Cons c s)
  let ?k = "of_char c - 48 :: nat"
  from Cons.IH [of "10 * a + ?k"] Cons.IH [of ?k] show ?case
    by (simp add: digits_value_def algebra_simps)
qed (simp add: digits_value_def)

lemma digits_value_append: "digits_value (s @ u) = digits_value s * 10 ^ length u + digits_value u"
  using digits_value_from [of "digits_value s" u] by (simp add: digits_value_def)

lemma digits_value_zeros: "digits_value (replicate k (CHR ''0'') @ s) = digits_value s"
  by (induction k) (simp_all add: digits_value_def)

lemma length_show_nat: "n < 10 ^ d \<Longrightarrow> 0 < d \<Longrightarrow> length (show_nat n) \<le> d"
proof (induction d arbitrary: n)
  case (Suc d)
  show ?case
  proof (cases "n < 10")
    case True
    then show ?thesis by (simp add: show_nat.simps [of n])
  next
    case False
    with Suc.prems have "n div 10 < 10 ^ d" by auto
    moreover have "0 < d" using False Suc.prems by (cases d) auto
    ultimately show ?thesis using Suc.IH [of "n div 10"] False by (simp add: show_nat.simps [of n])
  qed
qed simp

lemma digits_pad: "n < 10 ^ d \<Longrightarrow> 0 < d \<Longrightarrow> length (pad_zeros d (show_nat n)) = d \<and> digits_value (pad_zeros d (show_nat n)) = n"
  using length_show_nat [of n d] by (simp add: pad_zeros_def digits_value_zeros digits_show)

lemma no_dot: "filter (\<lambda>c. c \<noteq> CHR ''.'') (show_nat n) = show_nat n"
proof -
  have "c \<noteq> CHR ''.''" if "c \<in> set (show_nat n)" for c
    using show_nat_digits [OF that] by auto
  then show ?thesis by (simp add: filter_id_conv)
qed

lemma no_dot_pad: "filter (\<lambda>c. c \<noteq> CHR ''.'') (pad_zeros d (show_nat n)) = pad_zeros d (show_nat n)"
  by (simp add: pad_zeros_def no_dot filter_replicate)

definition magnitude_text :: "nat \<Rightarrow> nat \<Rightarrow> string" where
  "magnitude_text n d = show_nat (n div 10 ^ d) @ (if d = 0 then [] else ''.'' @ pad_zeros d (show_nat (n mod 10 ^ d)))"

lemma read_magnitude: "digits_value (filter (\<lambda>c. c \<noteq> CHR ''.'') (magnitude_text n d)) = n"
proof (cases "d = 0")
  case False
  with digits_pad [of "n mod 10 ^ d" d]
  show ?thesis
    by (simp add: magnitude_text_def no_dot no_dot_pad digits_value_append digits_show) (rule div_mult_mod_eq)
qed (simp add: magnitude_text_def no_dot digits_show)

lemma magnitude_unsigned: "\<not> starts_with (magnitude_text n d) ''-''"
proof -
  obtain c cs where s: "show_nat (n div 10 ^ d) = c # cs" by (metis neq_Nil_conv show_nat_not_Nil)
  then have "c \<noteq> CHR ''-''" using show_nat_digits [of c "n div 10 ^ d"] by auto
  with s show ?thesis by (simp add: magnitude_text_def starts_with_def)
qed

text \<open>
  The money texts shown for approval are exact: reading the digits of a formatted amount back
  gives the amount, for every currency and sign.
\<close>

theorem money_text_exact: "read_minor (to_fixed amount (currency_minor_units currency)) = amount"
proof -
  have "to_fixed amount d = (if amount < 0 then ''-'' else []) @ magnitude_text (nat \<bar>amount\<bar>) d" for d
    by (simp add: to_fixed_def magnitude_text_def Let_def)
  then show ?thesis
    using magnitude_unsigned by (simp add: read_minor_def read_magnitude) (simp add: starts_with_def)
qed

end
