(* ===== verification/Redaction.thy ===== *)
theory Redaction
  imports Json_Value Table
begin

text \<open>
  The redaction engine, \<open>gateway/src/modules/redaction/engine.ts\<close>: registered secrets are replaced
  by a marker in every string of a value, longest secret first. \<open>localeCompare\<close> compares
  collation keys, so the collation is a parameter that maps a string to its key.
\<close>

definition redaction_marker :: string where
  "redaction_marker = ''[REDACTED]''"

definition replace_char :: "char \<Rightarrow> string \<Rightarrow> string \<Rightarrow> string" where
  "replace_char c new s = concat (map (\<lambda>d. if d = c then new else [d]) s)"

definition escape_json_pointer_token :: "string \<Rightarrow> string" where
  "escape_json_pointer_token token = replace_char (CHR ''/'') ''~1'' (replace_char (CHR ''~'') ''~0'' token)"

definition normalized_secrets :: "(string \<Rightarrow> string) \<Rightarrow> string list \<Rightarrow> string list" where
  "normalized_secrets collate input =
    order_by (\<lambda>s. - int (length s)) collate (dedup (filter (\<lambda>s. s \<noteq> []) input))"

text \<open>\<open>s.replaceAll(secret, marker)\<close> for a non-empty \<open>secret\<close>: matches from the left, without overlap.\<close>

function replace_all :: "string \<Rightarrow> string \<Rightarrow> string \<Rightarrow> string" where
  "replace_all old new [] = []"
| "replace_all old new (c # s) =
    (if old \<noteq> [] \<and> starts_with (c # s) old then new @ replace_all old new (drop (length old) (c # s))
     else c # replace_all old new s)"
  by pat_completeness auto
termination
  by (relation "measure (\<lambda>(old, new, s). length s)") (auto simp: neq_Nil_conv)

fun redact_loop :: "string list \<Rightarrow> string \<times> bool \<Rightarrow> string \<times> bool" where
  "redact_loop [] r = r"
| "redact_loop (x # xs) (result, changed) =
    (if includes_str result x then redact_loop xs (replace_all x redaction_marker result, True)
     else redact_loop xs (result, changed))"

definition redact_text :: "(string \<Rightarrow> string) \<Rightarrow> string \<Rightarrow> string list \<Rightarrow> string \<times> bool" where
  "redact_text collate txt secrets =
    (if txt = [] then (txt, False)
     else if normalized_secrets collate secrets = [] then (txt, False)
     else redact_loop (normalized_secrets collate secrets) (txt, False))"

text \<open>The walk returns the copied value and the JSON pointers it appended.\<close>

fun redact_walk :: "(string \<Rightarrow> string) \<Rightarrow> string list \<Rightarrow> json \<Rightarrow> string \<Rightarrow> json \<times> string list"
  and redact_elems :: "(string \<Rightarrow> string) \<Rightarrow> string list \<Rightarrow> json list \<Rightarrow> nat \<Rightarrow> string \<Rightarrow> json list \<times> string list"
  and redact_fields :: "(string \<Rightarrow> string) \<Rightarrow> string list \<Rightarrow> (string \<times> json) list \<Rightarrow> string \<Rightarrow>
    (string \<times> json) list \<times> string list"
where
  "redact_walk collate ss (JStr s) path =
    (case redact_text collate s ss of (t, changed) \<Rightarrow> (JStr t, if changed then [path] else []))"
| "redact_walk collate ss (JArr vs) path =
    (case redact_elems collate ss vs 0 path of (vs', ps) \<Rightarrow> (JArr vs', ps))"
| "redact_walk collate ss (JObj m) path =
    (case redact_fields collate ss m path of (m', ps) \<Rightarrow> (JObj m', ps))"
| "redact_walk collate ss JNull path = (JNull, [])"
| "redact_walk collate ss (JBool b) path = (JBool b, [])"
| "redact_walk collate ss (JNum n) path = (JNum n, [])"
| "redact_elems collate ss [] i path = ([], [])"
| "redact_elems collate ss (v # vs) i path =
    (case redact_walk collate ss v (path @ ''/'' @ show_nat i) of (v', ps) \<Rightarrow>
     case redact_elems collate ss vs (Suc i) path of (vs', qs) \<Rightarrow> (v' # vs', ps @ qs))"
| "redact_fields collate ss [] path = ([], [])"
| "redact_fields collate ss ((k, v) # m) path =
    (case redact_walk collate ss v (path @ ''/'' @ escape_json_pointer_token k) of (v', ps) \<Rightarrow>
     case redact_fields collate ss m path of (m', qs) \<Rightarrow> ((k, v') # m', ps @ qs))"

definition redact_unknown :: "(string \<Rightarrow> string) \<Rightarrow> json \<Rightarrow> string list \<Rightarrow> json \<times> string list" where
  "redact_unknown collate v secrets = redact_walk collate (normalized_secrets collate secrets) v []"

text \<open>The engine's set of secrets, in insertion order.\<close>

definition register_secrets :: "string list \<Rightarrow> string list \<Rightarrow> string list" where
  "register_secrets secrets values = foldl add_unique secrets (filter (\<lambda>v. v \<noteq> []) values)"

subsection \<open>No secret is left\<close>

lemma includes_sublist: "includes_str s n \<longleftrightarrow> sublist n s"
proof (induction s)
  case (Cons c s)
  have "starts_with (c # s) n \<longleftrightarrow> prefix n (c # s)"
    by (metis append_eq_conv_conj prefix_def starts_with_def)
  with Cons show ?case by (simp add: sublist_Cons_right)
qed simp

lemma starts_with_prefix: "starts_with s n \<longleftrightarrow> prefix n s"
  by (metis append_eq_conv_conj prefix_def starts_with_def)

lemma sublist_around:
  assumes "x \<notin> set s"
  shows "sublist s (a @ x # b) \<longleftrightarrow> sublist s a \<or> sublist s b"
proof
  assume "sublist s (a @ x # b)"
  then obtain p q where e: "a @ x # b = p @ s @ q" by (auto simp: sublist_def)
  show "sublist s a \<or> sublist s b"
  proof (cases "length p + length s \<le> length a")
    case True
    have "take (length a) (a @ x # b) = take (length a) ((p @ s) @ q)" using e by simp
    then have "a = p @ s @ take (length a - length (p @ s)) q" using True by (simp only: take_append) simp
    then show ?thesis by (auto simp: sublist_def)
  next
    case False
    have "length a < length p"
    proof (rule ccontr)
      assume "\<not> length a < length p"
      then have l: "length a - length p < length s" "length p \<le> length a" using False by linarith+
      have "(p @ s @ q) ! length a = s ! (length a - length p)" using l by (simp add: nth_append)
      moreover have "(a @ x # b) ! length a = x" by simp
      ultimately show False using assms l e by (metis nth_mem)
    qed
    then have "drop (Suc (length a)) (a @ x # b) = drop (Suc (length a)) p @ s @ q" using e by simp
    then show ?thesis by (auto simp: sublist_def)
  qed
qed (auto simp: sublist_def, metis append.assoc append_Cons, metis append.assoc append_Cons)

text \<open>A secret is clean if it has no bracket and no part of the marker spells it.\<close>

definition clean_secret :: "string \<Rightarrow> bool" where
  "clean_secret s \<longleftrightarrow> s \<noteq> [] \<and> CHR ''['' \<notin> set s \<and> CHR '']'' \<notin> set s \<and> \<not> sublist s ''REDACTED''"

lemma marker_split: "redaction_marker @ r = [] @ CHR ''['' # (''REDACTED'' @ CHR '']'' # r)"
  by (simp add: redaction_marker_def)

lemma sublist_marker:
  "clean_secret s \<Longrightarrow> sublist s (redaction_marker @ r) \<longleftrightarrow> sublist s r"
  unfolding marker_split clean_secret_def
  using sublist_around [of "CHR ''[''" s "[]" "''REDACTED'' @ CHR '']'' # r"]
    sublist_around [of "CHR '']''" s "''REDACTED''" r] by simp

lemma prefix_marker: "CHR ''['' \<notin> set s \<Longrightarrow> prefix s (redaction_marker @ r) \<Longrightarrow> s = []"
  by (cases s) (auto simp: redaction_marker_def)

lemma replace_prefix:
  "CHR ''['' \<notin> set s \<Longrightarrow> prefix s (replace_all old redaction_marker t) \<Longrightarrow> prefix s t"
proof (induction t arbitrary: s)
  case (Cons c t)
  show ?case
  proof (cases "old \<noteq> [] \<and> starts_with (c # t) old")
    case True
    with Cons.prems have "s = []" by (auto dest: prefix_marker)
    then show ?thesis by simp
  next
    case False
    with Cons.prems(2) have p: "prefix s (c # replace_all old redaction_marker t)" by auto
    then show ?thesis using Cons.prems(1) Cons.IH by (cases s) auto
  qed
qed simp

text \<open>Replacing a secret brings no clean secret in, and removes the replaced one if it is clean.\<close>

lemma replace_sublist:
  "clean_secret s \<Longrightarrow> sublist s (replace_all old redaction_marker t) \<Longrightarrow> sublist s t"
proof (induction old "redaction_marker :: string" t rule: replace_all.induct)
  case (2 old c t)
  show ?case
  proof (cases "old \<noteq> [] \<and> starts_with (c # t) old")
    case True
    with 2 have "sublist s (drop (length old) (c # t))" by (simp add: sublist_marker del: drop_Cons)
    then show ?thesis using sublist_drop [of "length old" "c # t"] by (rule sublist_order.order_trans)
  next
    case False
    with 2(4) have "prefix s (c # replace_all old redaction_marker t) \<or> sublist s (replace_all old redaction_marker t)"
      by (auto simp: sublist_Cons_right)
    then show ?thesis
    proof
      assume "prefix s (c # replace_all old redaction_marker t)"
      moreover have "c # replace_all old redaction_marker t = replace_all old redaction_marker (c # t)"
        using False by auto
      ultimately have "prefix s (c # t)"
        using replace_prefix [of s old "c # t"] 2(3) by (simp add: clean_secret_def del: replace_all.simps)
      then show ?thesis by (rule prefix_imp_sublist)
    next
      assume "sublist s (replace_all old redaction_marker t)"
      with 2 False have "sublist s t" by blast
      then show ?thesis by (simp add: sublist_Cons_right)
    qed
  qed
qed simp

lemma replace_removes:
  "clean_secret s \<Longrightarrow> \<not> sublist s (replace_all s redaction_marker t)"
proof (induction s "redaction_marker :: string" t rule: replace_all.induct)
  case (1 old)
  then show ?case by (simp add: clean_secret_def)
next
  case (2 s c t)
  show ?case
  proof (cases "starts_with (c # t) s")
    case True
    with 2 show ?thesis by (simp add: sublist_marker clean_secret_def del: drop_Cons)
  next
    case False
    have e: "replace_all s redaction_marker (c # t) = c # replace_all s redaction_marker t"
      using False by simp
    have "\<not> prefix s (replace_all s redaction_marker (c # t))"
      using replace_prefix [of s s "c # t"] 2(3) False by (auto simp: clean_secret_def starts_with_prefix)
    with 2 False show ?thesis unfolding e by (simp add: sublist_Cons_right)
  qed
qed

lemma redact_loop_clean:
  assumes "clean_secret s"
  shows "s \<in> set xs \<or> \<not> sublist s t \<Longrightarrow> \<not> sublist s (fst (redact_loop xs (t, ch)))"
proof (induction xs arbitrary: t ch)
  case (Cons x xs)
  have "s \<in> set xs \<or> \<not> sublist s (if includes_str t x then replace_all x redaction_marker t else t)"
    using Cons.prems replace_removes [OF assms, of t] replace_sublist [OF assms, of x t]
    by (auto simp: includes_sublist)
  then show ?case using Cons.IH by (auto split: if_splits)
qed simp

lemma set_normalized [simp]: "set (normalized_secrets collate ss) = set ss - {[]}"
  by (auto simp: normalized_secrets_def)

lemma normalized_Nil: "normalized_secrets collate ss = [] \<longleftrightarrow> set ss \<subseteq> {[]}"
  using set_normalized [of collate ss] by (metis Diff_eq_empty_iff set_empty)

lemma redact_text_clean:
  assumes "clean_secret s" "s \<in> set ss"
  shows "\<not> sublist s (fst (redact_text collate t ss))"
proof -
  have "s \<in> set (normalized_secrets collate ss)" using assms by (simp add: clean_secret_def)
  moreover from this have "normalized_secrets collate ss \<noteq> []" by (metis empty_iff empty_set)
  ultimately show ?thesis
    using redact_loop_clean [OF assms(1), of "normalized_secrets collate ss" t False] assms(1)
    by (auto simp: redact_text_def clean_secret_def)
qed

lemma redact_loop_changed:
  "snd (redact_loop xs (t, ch)) \<longleftrightarrow> ch \<or> (\<exists>x \<in> set xs. includes_str t x)"
proof (induction xs arbitrary: t ch)
  case (Cons x xs)
  show ?case
  proof (cases "includes_str t x")
    case True
    then have "snd (redact_loop (x # xs) (t, ch))" using Cons.IH by simp
    with True show ?thesis by auto
  next
    case False
    then show ?thesis using Cons.IH by auto
  qed
qed simp

lemma redact_loop_same: "(\<And>x. x \<in> set xs \<Longrightarrow> \<not> includes_str t x) \<Longrightarrow> redact_loop xs (t, ch) = (t, ch)"
  by (induction xs) auto

text \<open>The strings of a value, with the pointers to them.\<close>

fun leaves :: "json \<Rightarrow> string \<Rightarrow> (string \<times> string) list"
  and elem_leaves :: "json list \<Rightarrow> nat \<Rightarrow> string \<Rightarrow> (string \<times> string) list"
  and field_leaves :: "(string \<times> json) list \<Rightarrow> string \<Rightarrow> (string \<times> string) list"
where
  "leaves (JStr s) path = [(path, s)]"
| "leaves (JArr vs) path = elem_leaves vs 0 path"
| "leaves (JObj m) path = field_leaves m path"
| "leaves JNull path = []"
| "leaves (JBool b) path = []"
| "leaves (JNum n) path = []"
| "elem_leaves [] i path = []"
| "elem_leaves (v # vs) i path = leaves v (path @ ''/'' @ show_nat i) @ elem_leaves vs (Suc i) path"
| "field_leaves [] path = []"
| "field_leaves ((k, v) # m) path =
    leaves v (path @ ''/'' @ escape_json_pointer_token k) @ field_leaves m path"

lemma walk_leaves:
  "leaves (fst (redact_walk collate ss v path)) path =
    map (\<lambda>e. (fst e, fst (redact_text collate (snd e) ss))) (leaves v path)"
  "elem_leaves (fst (redact_elems collate ss vs i path)) i path =
    map (\<lambda>e. (fst e, fst (redact_text collate (snd e) ss))) (elem_leaves vs i path)"
  "field_leaves (fst (redact_fields collate ss m path)) path =
    map (\<lambda>e. (fst e, fst (redact_text collate (snd e) ss))) (field_leaves m path)"
  by (induction collate ss v path and collate ss vs i path and collate ss m path
      rule: redact_walk_redact_elems_redact_fields.induct)
    (auto split: prod.splits)

lemma walk_pointers:
  "snd (redact_walk collate ss v path) =
    map fst (filter (\<lambda>e. snd (redact_text collate (snd e) ss)) (leaves v path))"
  "snd (redact_elems collate ss vs i path) =
    map fst (filter (\<lambda>e. snd (redact_text collate (snd e) ss)) (elem_leaves vs i path))"
  "snd (redact_fields collate ss m path) =
    map fst (filter (\<lambda>e. snd (redact_text collate (snd e) ss)) (field_leaves m path))"
  by (induction collate ss v path and collate ss vs i path and collate ss m path
      rule: redact_walk_redact_elems_redact_fields.induct)
    (auto split: prod.splits)

lemma redact_text_changed:
  "snd (redact_text collate t ss) \<longleftrightarrow> (\<exists>s \<in> set ss - {[]}. sublist s t)"
  by (auto simp: redact_text_def redact_loop_changed includes_sublist normalized_Nil)

text \<open>
  C15. Redaction leaves no secret behind: in the redacted value no string contains a registered
  secret, provided that secret has no bracket and is not part of the marker text; the reported
  pointers are exactly those of the strings that contained a secret, and a value whose strings
  contain none is returned unchanged in every string.
\<close>

theorem redaction_complete:
  assumes "clean_secret s" "s \<in> set secrets"
  shows "(\<forall>(p, t) \<in> set (leaves (fst (redact_unknown collate v secrets)) []). \<not> sublist s t) \<and>
    snd (redact_unknown collate v secrets) =
      map fst (filter (\<lambda>(p, t). \<exists>x \<in> set secrets - {[]}. sublist x t) (leaves v [])) \<and>
    map fst (leaves (fst (redact_unknown collate v secrets)) []) = map fst (leaves v [])"
proof -
  have "s \<in> set (normalized_secrets collate secrets)" using assms by (simp add: clean_secret_def)
  from redact_text_clean [OF assms(1) this] show ?thesis
    by (auto simp: redact_unknown_def walk_leaves walk_pointers redact_text_changed split_def
        intro!: arg_cong [where f = "map fst"] filter_cong)
qed

lemma redaction_complete_witness:
  "snd (redact_unknown id (JObj [(''a'', JStr ''key=s3cret''), (''b'', JStr ''x'')]) [''s3cret'']) = [''/a'']"
proof -
  have "clean_secret ''s3cret''" by code_simp
  moreover have "map fst (filter (\<lambda>(p, t). \<exists>x \<in> set [''s3cret''] - {[]}. sublist x t)
      (leaves (JObj [(''a'', JStr ''key=s3cret''), (''b'', JStr ''x'')]) [])) = [''/a'']"
    by code_simp
  ultimately show ?thesis
    using redaction_complete [of "''s3cret''" "[''s3cret'']" id "JObj [(''a'', JStr ''key=s3cret''), (''b'', JStr ''x'')]"]
    by simp
qed

end
