(* ===== verification/Audit_Log.thy ===== *)
theory Audit_Log
  imports Redaction
begin

text \<open>
  The hash-chained audit log: \<open>gateway/src/modules/audit/hash-chain.ts\<close>,
  \<open>modules/planner/event-log.ts\<close>, \<open>planner-events.ts\<close>, \<open>plan-dal.ts\<close> and the forget operation of
  \<open>routes/audit.ts\<close>. SHA-256 is the parameter \<open>sha\<close>, \<open>JSON.parse\<close> the parameter \<open>parse\<close>; a
  transaction is atomic, so a plan inserted by nobody else cannot conflict on its key.
\<close>

subsection \<open>The chain\<close>

record chain_event =
  ce_id :: int
  ce_plan :: string
  ce_step :: int
  ce_occurred :: string
  ce_action :: string
  ce_prev :: "string option"
  ce_hash :: "string option"

definition json_opt :: "string option \<Rightarrow> json" where
  "json_opt v = (case v of None \<Rightarrow> JNull | Some s \<Rightarrow> JStr s)"

definition event_json :: "string \<Rightarrow> string \<Rightarrow> string \<Rightarrow> string option \<Rightarrow> int \<Rightarrow> json" where
  "event_json action occurred plan prev step =
    JObj [(''action'', JStr action), (''occurred_at'', JStr occurred), (''plan_id'', JStr plan),
      (''prev_hash'', json_opt prev), (''step_index'', JNum step)]"

definition compute_event_hash ::
  "(string \<Rightarrow> string) \<Rightarrow> string \<Rightarrow> int \<Rightarrow> string \<Rightarrow> string \<Rightarrow> string option \<Rightarrow> string" where
  "compute_event_hash sha plan step occurred action prev =
    sha (json_text (event_json action occurred plan prev step))"

abbreviation expected_hash :: "(string \<Rightarrow> string) \<Rightarrow> chain_event \<Rightarrow> string" where
  "expected_hash sha e \<equiv>
    compute_event_hash sha (ce_plan e) (ce_step e) (ce_occurred e) (ce_action e) (ce_prev e)"

record verification =
  vf_valid :: bool
  vf_checked :: nat
  vf_broken_index :: "nat option"
  vf_broken_id :: "int option"

definition broken_at :: "nat \<Rightarrow> nat \<Rightarrow> chain_event \<Rightarrow> verification" where
  "broken_at checked i e =
    \<lparr>vf_valid = False, vf_checked = checked, vf_broken_index = Some i, vf_broken_id = Some (ce_id e)\<rparr>"

fun verify_loop ::
  "(string \<Rightarrow> string) \<Rightarrow> nat \<Rightarrow> nat \<Rightarrow> string option \<Rightarrow> chain_event list \<Rightarrow> verification" where
  "verify_loop sha i checked prev [] =
    \<lparr>vf_valid = True, vf_checked = checked, vf_broken_index = None, vf_broken_id = None\<rparr>"
| "verify_loop sha i checked prev (e # es) =
    (case ce_hash e of
       None \<Rightarrow> broken_at checked i e
     | Some h \<Rightarrow>
         if h \<noteq> expected_hash sha e then broken_at (Suc checked) i e
         else if prev \<noteq> None \<and> ce_prev e \<noteq> prev then broken_at (Suc checked) i e
         else verify_loop sha (Suc i) (Suc checked) (Some h) es)"

definition verify_chain :: "(string \<Rightarrow> string) \<Rightarrow> chain_event list \<Rightarrow> verification" where
  "verify_chain sha es = verify_loop sha 0 0 None es"

record audit_event =
  ae_id :: int
  ae_plan :: string
  ae_step :: int
  ae_occurred :: string
  ae_action :: json
  ae_prev :: "string option"
  ae_hash :: "string option"

record receipt_bundle =
  rb_plan :: string
  rb_events :: "audit_event list"
  rb_verification :: verification
  rb_exported_at :: nat

text \<open>An action whose text does not parse makes the export throw (\<open>None\<close>).\<close>

definition audit_event_of :: "(string \<Rightarrow> json option) \<Rightarrow> chain_event \<Rightarrow> audit_event option" where
  "audit_event_of parse e =
    (case parse (ce_action e) of
       None \<Rightarrow> None
     | Some a \<Rightarrow> Some \<lparr>ae_id = ce_id e, ae_plan = ce_plan e, ae_step = ce_step e, ae_occurred = ce_occurred e,
         ae_action = a, ae_prev = ce_prev e, ae_hash = ce_hash e\<rparr>)"

fun audit_events_of :: "(string \<Rightarrow> json option) \<Rightarrow> chain_event list \<Rightarrow> audit_event list option" where
  "audit_events_of parse [] = Some []"
| "audit_events_of parse (e # es) =
    (case audit_event_of parse e of
       None \<Rightarrow> None
     | Some a \<Rightarrow> map_option (Cons a) (audit_events_of parse es))"

definition export_receipt_bundle ::
  "(string \<Rightarrow> string) \<Rightarrow> (string \<Rightarrow> json option) \<Rightarrow> nat \<Rightarrow> string \<Rightarrow> chain_event list \<Rightarrow> receipt_bundle option" where
  "export_receipt_bundle sha parse now plan es =
    map_option (\<lambda>as. \<lparr>rb_plan = plan, rb_events = as, rb_verification = verify_chain sha es, rb_exported_at = now\<rparr>)
      (audit_events_of parse es)"

subsection \<open>The event table\<close>

record plan_row =
  pl_tenant :: string
  pl_id :: string
  pl_key :: string
  pl_agent :: string
  pl_workspace :: string
  pl_kind :: string
  pl_status :: string

record planner_event =
  pv_tenant :: string
  pv_plan :: string
  pv_step :: int
  pv_replay :: string
  pv_occurred :: string
  pv_action :: string
  pv_created :: nat
  pv_prev :: "string option"
  pv_hash :: "string option"

text \<open>\<open>au_postgres\<close>: the database is PostgreSQL, where \<open>step_index\<close> is a 32-bit INTEGER.\<close>

record audit_db =
  au_postgres :: bool
  au_plans :: "plan_row list"
  au_events :: "planner_event list"

datatype audit_error = AuditError string | UniqueViolation

definition plan_by_key :: "string \<Rightarrow> string \<Rightarrow> audit_db \<Rightarrow> string option" where
  "plan_by_key tenant key db =
    (case find (\<lambda>p. pl_tenant p = tenant \<and> pl_key p = key) (au_plans db) of
       None \<Rightarrow> None | Some p \<Rightarrow> if pl_id p = [] then None else Some (pl_id p))"

definition get_by_key :: "string \<Rightarrow> string \<Rightarrow> audit_db \<Rightarrow> string option" where
  "get_by_key tenant key db = (if trim key = [] then None else plan_by_key tenant (trim key) db)"

text \<open>
  \<open>fresh\<close> is the drawn UUID. \<open>ON CONFLICT (tenant_id, plan_key) DO NOTHING\<close> returns no row, and the
  plan is read again.
\<close>

definition ensure_plan_id ::
  "string \<Rightarrow> string \<Rightarrow> string \<Rightarrow> string \<Rightarrow> string \<Rightarrow> string \<Rightarrow> string \<Rightarrow> audit_db
    \<Rightarrow> (audit_error + string) \<times> audit_db" where
  "ensure_plan_id tenant plan_key agent workspace kind status fresh db =
    (let key = trim plan_key in
     if key = [] then (Inl (AuditError ''planKey is required''), db)
     else case plan_by_key tenant key db of
       Some i \<Rightarrow> (Inr i, db)
     | None \<Rightarrow>
         if matches (\<lambda>p. pl_tenant p = tenant \<and> pl_key p = key) (au_plans db)
         then (case plan_by_key tenant key db of
                 Some i \<Rightarrow> (Inr i, db) | None \<Rightarrow> (Inl (AuditError ''failed to ensure plan''), db))
         else if matches (\<lambda>p. pl_tenant p = tenant \<and> pl_id p = fresh) (au_plans db)
         then (Inl UniqueViolation, db)
         else (Inr fresh, db\<lparr>au_plans := au_plans db @
           [\<lparr>pl_tenant = tenant, pl_id = fresh, pl_key = key, pl_agent = agent, pl_workspace = workspace,
             pl_kind = kind, pl_status = status\<rparr>]\<rparr>))"

definition plan_events :: "string \<Rightarrow> string \<Rightarrow> audit_db \<Rightarrow> planner_event list" where
  "plan_events tenant plan db =
    sort_key pv_step (filter (\<lambda>e. pv_tenant e = tenant \<and> pv_plan e = plan) (au_events db))"

text \<open>\<open>ORDER BY step_index DESC LIMIT 1\<close>.\<close>

definition last_event :: "string \<Rightarrow> string \<Rightarrow> audit_db \<Rightarrow> planner_event option" where
  "last_event tenant plan db =
    (case plan_events tenant plan db of [] \<Rightarrow> None | e # es \<Rightarrow> Some (last (e # es)))"

definition last_hash :: "string \<Rightarrow> string \<Rightarrow> audit_db \<Rightarrow> string option" where
  "last_hash tenant plan db = (case last_event tenant plan db of None \<Rightarrow> None | Some e \<Rightarrow> pv_hash e)"

definition next_step :: "string \<Rightarrow> string \<Rightarrow> audit_db \<Rightarrow> int" where
  "next_step tenant plan db = (case last_event tenant plan db of None \<Rightarrow> 0 | Some e \<Rightarrow> pv_step e + 1)"

definition event_row ::
  "(string \<Rightarrow> string) \<Rightarrow> string \<Rightarrow> string \<Rightarrow> int \<Rightarrow> string \<Rightarrow> string \<Rightarrow> string \<Rightarrow> nat \<Rightarrow> string option \<Rightarrow> planner_event" where
  "event_row sha tenant plan step replay occurred action now prev =
    \<lparr>pv_tenant = tenant, pv_plan = plan, pv_step = step, pv_replay = replay, pv_occurred = occurred,
     pv_action = action, pv_created = now, pv_prev = prev,
     pv_hash = Some (compute_event_hash sha plan step occurred action prev)\<rparr>"

text \<open>
  The primary key is tenant, plan and step; a negative step violates a CHECK constraint, a step of
  more than 32 bits does not fit into the PostgreSQL column.
\<close>

definition max_step :: int where
  "max_step = 2147483647"

definition insert_event :: "planner_event \<Rightarrow> audit_db \<Rightarrow> (audit_error + planner_event) \<times> audit_db" where
  "insert_event e db =
    (if pv_step e < 0 then (Inl (AuditError ''check constraint''), db)
     else if au_postgres db \<and> max_step < pv_step e then (Inl (AuditError ''integer out of range''), db)
     else if matches (\<lambda>x. pv_tenant x = pv_tenant e \<and> pv_plan x = pv_plan e \<and> pv_step x = pv_step e) (au_events db)
     then (Inl UniqueViolation, db)
     else (Inr e, db\<lparr>au_events := au_events db @ [e]\<rparr>))"

record new_event =
  ne_tenant :: string
  ne_replay :: string
  ne_plan_key :: string
  ne_occurred :: string
  ne_action :: json

definition default_agent_id :: string where
  "default_agent_id = ''00000000-0000-4000-8000-000000000002''"

definition default_workspace_id :: string where
  "default_workspace_id = ''00000000-0000-4000-8000-000000000003''"

definition redacted_action :: "(string \<Rightarrow> string) \<Rightarrow> string list option \<Rightarrow> json \<Rightarrow> json" where
  "redacted_action collate secrets action =
    (case secrets of None \<Rightarrow> action | Some ss \<Rightarrow> fst (redact_unknown collate action ss))"

text \<open>
  \<open>append\<close>: \<open>Inr None\<close> is the duplicate. The database is rolled back on an error, also the plan row
  the transaction inserted.
\<close>

definition planned :: "new_event \<Rightarrow> string \<Rightarrow> audit_db \<Rightarrow> (audit_error + string) \<times> audit_db" where
  "planned ev fresh db = ensure_plan_id (ne_tenant ev) (ne_plan_key ev) default_agent_id default_workspace_id
    ''audit'' ''active'' fresh db"

definition append_row ::
  "(string \<Rightarrow> string) \<Rightarrow> (string \<Rightarrow> string) \<Rightarrow> string list option \<Rightarrow> new_event \<Rightarrow> string \<Rightarrow> int \<Rightarrow> nat \<Rightarrow> audit_db
    \<Rightarrow> planner_event" where
  "append_row sha collate secrets ev plan step now db =
    event_row sha (ne_tenant ev) plan step (ne_replay ev) (ne_occurred ev)
      (json_text (redacted_action collate secrets (ne_action ev))) now (last_hash (ne_tenant ev) plan db)"

definition append_tx ::
  "(string \<Rightarrow> string) \<Rightarrow> (string \<Rightarrow> string) \<Rightarrow> string list option \<Rightarrow> new_event \<Rightarrow> int \<Rightarrow> string \<Rightarrow> nat \<Rightarrow> audit_db
    \<Rightarrow> (audit_error + planner_event option) \<times> audit_db" where
  "append_tx sha collate secrets ev step fresh now db =
    (case planned ev fresh db of
       (Inl e, db1) \<Rightarrow> (Inl e, db)
     | (Inr plan, db1) \<Rightarrow>
         if matches (\<lambda>x. pv_tenant x = ne_tenant ev \<and> pv_plan x = plan \<and> pv_step x = step) (au_events db1)
         then (Inr None, db1)
         else (case insert_event (append_row sha collate secrets ev plan step now db1) db1 of
                 (Inr e, db2) \<Rightarrow> (Inr (Some e), db2)
               | (Inl UniqueViolation, db2) \<Rightarrow> (Inr None, db2)
               | (Inl e, db2) \<Rightarrow> (Inl e, db)))"

definition append_event ::
  "(string \<Rightarrow> string) \<Rightarrow> (string \<Rightarrow> string) \<Rightarrow> string list option \<Rightarrow> new_event \<Rightarrow> int \<Rightarrow> string \<Rightarrow> nat \<Rightarrow> audit_db
    \<Rightarrow> (audit_error + planner_event option) \<times> audit_db" where
  "append_event sha collate secrets ev step fresh now db =
    (if step < 0 then (Inl (AuditError (''step_index must be non-negative, got '' @ show_int step)), db)
     else if trim (ne_tenant ev) = [] then (Inl (AuditError ''tenantId is required''), db)
     else if trim (ne_plan_key ev) = [] then (Inl (AuditError ''planKey is required''), db)
     else append_tx sha collate secrets ev step fresh now db)"

definition insert_planner_event_next ::
  "(string \<Rightarrow> string) \<Rightarrow> string \<Rightarrow> string \<Rightarrow> string \<Rightarrow> string \<Rightarrow> string \<Rightarrow> nat \<Rightarrow> audit_db
    \<Rightarrow> (audit_error + planner_event) \<times> audit_db" where
  "insert_planner_event_next sha tenant replay plan occurred action now db =
    (let step = next_step tenant plan db in
     if step < 0 then (Inl (AuditError ''planner_events step_index overflow''), db)
     else insert_event (event_row sha tenant plan step replay occurred action now (last_hash tenant plan db)) db)"

text \<open>\<open>attempt\<close> runs a transaction on the current database; only unique violations are retried.\<close>

fun retry_on_unique_violation ::
  "nat \<Rightarrow> string \<Rightarrow> (nat \<Rightarrow> audit_db \<Rightarrow> (audit_error + 'a) \<times> audit_db) \<Rightarrow> nat \<Rightarrow> audit_db
    \<Rightarrow> (audit_error + 'a) \<times> audit_db" where
  "retry_on_unique_violation 0 msg attempt k db = (Inl (AuditError msg), db)"
| "retry_on_unique_violation (Suc n) msg attempt k db =
    (case attempt k db of
       (Inr r, db') \<Rightarrow> (Inr r, db')
     | (Inl UniqueViolation, db') \<Rightarrow> retry_on_unique_violation n msg attempt (Suc k) db'
     | (Inl e, db') \<Rightarrow> (Inl e, db'))"

definition append_next_tx ::
  "(string \<Rightarrow> string) \<Rightarrow> (string \<Rightarrow> string) \<Rightarrow> string list option \<Rightarrow> new_event \<Rightarrow> nat \<Rightarrow> string \<Rightarrow> audit_db
    \<Rightarrow> (audit_error + planner_event) \<times> audit_db" where
  "append_next_tx sha collate secrets ev now fresh db =
    (case planned ev fresh db of
       (Inl e, db1) \<Rightarrow> (Inl e, db)
     | (Inr plan, db1) \<Rightarrow>
         (case insert_planner_event_next sha (ne_tenant ev) (ne_replay ev) plan (ne_occurred ev)
            (json_text (redacted_action collate secrets (ne_action ev))) now db1 of
            (Inl e, db2) \<Rightarrow> (Inl e, db)
          | (Inr e, db2) \<Rightarrow> (Inr e, db2)))"

text \<open>\<open>fresh k\<close> is the UUID drawn in the attempt \<open>k\<close>.\<close>

definition append_next ::
  "(string \<Rightarrow> string) \<Rightarrow> (string \<Rightarrow> string) \<Rightarrow> string list option \<Rightarrow> new_event \<Rightarrow> (nat \<Rightarrow> string) \<Rightarrow> nat \<Rightarrow> audit_db
    \<Rightarrow> (audit_error + planner_event) \<times> audit_db" where
  "append_next sha collate secrets ev fresh now db =
    (if trim (ne_tenant ev) = [] then (Inl (AuditError ''tenantId is required''), db)
     else if trim (ne_plan_key ev) = [] then (Inl (AuditError ''planKey is required''), db)
     else retry_on_unique_violation 10 ''failed to append planner event after retries''
       (\<lambda>k. append_next_tx sha collate secrets ev now (fresh k)) 0 db)"

definition chain_event_of :: "planner_event \<Rightarrow> chain_event" where
  "chain_event_of e =
    \<lparr>ce_id = pv_step e, ce_plan = pv_plan e, ce_step = pv_step e, ce_occurred = pv_occurred e,
     ce_action = pv_action e, ce_prev = pv_prev e, ce_hash = pv_hash e\<rparr>"

definition events_for_verification :: "string \<Rightarrow> string \<Rightarrow> audit_db \<Rightarrow> chain_event list" where
  "events_for_verification tenant plan_key db =
    (case get_by_key tenant plan_key db of
       None \<Rightarrow> [] | Some plan \<Rightarrow> map chain_event_of (plan_events tenant plan db))"

subsection \<open>Forgetting\<close>

datatype forget_decision = ForgetDelete | ForgetAnonymize | ForgetRetain

text \<open>Of the decision only whether it is \<open>retain\<close> matters. The deletion count goes into the proof.\<close>

fun forget_decision_text :: "forget_decision \<Rightarrow> string" where
  "forget_decision_text ForgetDelete = ''delete''"
| "forget_decision_text ForgetAnonymize = ''anonymize''"
| "forget_decision_text ForgetRetain = ''retain''"

record forget_result =
  fr_decision :: forget_decision
  fr_deleted :: nat
  fr_proof :: int

definition proof_action :: "forget_decision \<Rightarrow> string \<Rightarrow> string \<Rightarrow> nat \<Rightarrow> json" where
  "proof_action decision entity_type entity_id deleted =
    JObj [(''type'', JStr ''forget.proof''), (''decision'', JStr (forget_decision_text decision)),
      (''entity_type'', JStr entity_type), (''entity_id'', JStr entity_id), (''deleted_count'', JNum (int deleted))]"

text \<open>The DELETE, which a decision to retain skips.\<close>

definition forget_prep :: "string \<Rightarrow> string \<Rightarrow> forget_decision \<Rightarrow> audit_db \<Rightarrow> audit_db" where
  "forget_prep tn p decision db =
    (if decision = ForgetRetain then db
     else db\<lparr>au_events := filter (\<lambda>e. \<not> (pv_tenant e = tn \<and> pv_plan e = p)) (au_events db)\<rparr>)"

definition forget_events ::
  "(string \<Rightarrow> string) \<Rightarrow> string \<Rightarrow> string \<Rightarrow> string \<Rightarrow> string \<Rightarrow> string \<Rightarrow> forget_decision
    \<Rightarrow> string \<Rightarrow> string \<Rightarrow> string \<Rightarrow> nat \<Rightarrow> audit_db \<Rightarrow> (audit_error + forget_result) \<times> audit_db" where
  "forget_events sha tenant agent workspace entity_type entity_id decision fresh replay occurred now db =
    (case ensure_plan_id tenant entity_id agent workspace ''audit'' ''active'' fresh db of
       (Inl e, db1) \<Rightarrow> (Inl e, db)
     | (Inr plan, db1) \<Rightarrow>
         (let prev = last_hash tenant plan db1; step = next_step tenant plan db1;
              db2 = forget_prep tenant plan decision db1;
              deleted = length (au_events db1) - length (au_events db2)
          in if step < 0 then (Inl (AuditError ''planner_events step_index overflow''), db)
             else case insert_event (event_row sha tenant plan step (''forget-'' @ replay) occurred
                 (json_text (proof_action decision entity_type entity_id deleted)) now prev) db2 of
               (Inl e, db3) \<Rightarrow> (Inl e, db)
             | (Inr e, db3) \<Rightarrow> (Inr \<lparr>fr_decision = decision, fr_deleted = deleted, fr_proof = step\<rparr>, db3)))"

text \<open>The most recently active plans: grouped by plan, latest event first, at most 100.\<close>

record plan_summary =
  ps_key :: string
  ps_id :: string
  ps_kind :: string
  ps_status :: string
  ps_count :: nat
  ps_last :: string

definition plan_summary_of :: "audit_db \<Rightarrow> plan_row \<Rightarrow> plan_summary" where
  "plan_summary_of db p =
    (let es = plan_events (pl_tenant p) (pl_id p) db
     in \<lparr>ps_key = pl_key p, ps_id = pl_id p, ps_kind = pl_kind p, ps_status = pl_status p,
         ps_count = length es, ps_last = last (sort (map pv_occurred es))\<rparr>)"

definition list_recent_plans :: "string \<Rightarrow> int option \<Rightarrow> audit_db \<Rightarrow> plan_summary list" where
  "list_recent_plans tenant limit db =
    (let rows = map (plan_summary_of db)
          (filter (\<lambda>p. pl_tenant p = tenant \<and> plan_events tenant (pl_id p) db \<noteq> []) (au_plans db));
         by_key = sort_key ps_key rows
     in take (nat (max 1 (min 100 (case limit of None \<Rightarrow> 100 | Some n \<Rightarrow> n))))
          (rev (sort_key ps_last (rev by_key))))"

subsection \<open>The hash covers the event\<close>

lemma json_opt_text: "json_text (json_opt v) @ r = json_text (json_opt v') @ r' \<longleftrightarrow> v = v' \<and> r = r'"
proof -
  have q: "''null'' @ x \<noteq> json_string s @ y" for x y s by (simp add: json_string_def)
  show ?thesis using q q [symmetric] by (cases v; cases v') (auto simp: json_opt_def)
qed

lemma event_json_eq:
  "json_text (event_json a oc p pr s) = json_text (event_json a' oc' p' pr' s') \<longleftrightarrow>
    a = a' \<and> oc = oc' \<and> p = p' \<and> pr = pr' \<and> s = s'"
  by (auto simp: event_json_def json_opt_text)

definition content :: "chain_event \<Rightarrow> string \<times> int \<times> string \<times> string \<times> string option \<times> string option" where
  "content e = (ce_plan e, ce_step e, ce_occurred e, ce_action e, ce_prev e, ce_hash e)"

fun chained :: "(string \<Rightarrow> string) \<Rightarrow> string option \<Rightarrow> chain_event list \<Rightarrow> bool" where
  "chained sha prev [] \<longleftrightarrow> True"
| "chained sha prev (e # es) \<longleftrightarrow> ce_hash e = Some (expected_hash sha e) \<and>
    (prev = None \<or> ce_prev e = prev) \<and> chained sha (ce_hash e) es"

lemma verify_loop_valid: "vf_valid (verify_loop sha i c prev es) \<longleftrightarrow> chained sha prev es"
  by (induction sha i c prev es rule: verify_loop.induct)
    (auto simp: broken_at_def split: option.splits)

lemma verify_chain_valid: "vf_valid (verify_chain sha es) \<longleftrightarrow> chained sha None es"
  by (simp add: verify_chain_def verify_loop_valid)

lemma chained_snoc:
  "chained sha prev (es @ [e]) \<longleftrightarrow> chained sha prev es \<and> ce_hash e = Some (expected_hash sha e) \<and>
    (if es = [] then prev = None \<or> ce_prev e = prev else ce_prev e = ce_hash (last es))"
  by (induction sha prev es rule: chained.induct) auto

lemma chained_nth:
  "chained sha prev es \<Longrightarrow> i < length es \<Longrightarrow> ce_hash (es ! i) = Some (expected_hash sha (es ! i))"
  by (induction sha prev es arbitrary: i rule: chained.induct) (auto simp: nth_Cons split: nat.splits)

lemma chained_link:
  "chained sha prev es \<Longrightarrow> Suc i < length es \<Longrightarrow> ce_prev (es ! Suc i) = ce_hash (es ! i)"
  by (induction sha prev es arbitrary: i rule: chained.induct)
    (auto simp: nth_Cons neq_Nil_conv split: nat.splits)

text \<open>The text of an event that is hashed.\<close>

definition hashed_text :: "chain_event \<Rightarrow> string" where
  "hashed_text e = json_text (event_json (ce_action e) (ce_occurred e) (ce_plan e) (ce_prev e) (ce_step e))"

lemma expected_hash_text: "expected_hash sha e = sha (hashed_text e)"
  by (simp add: compute_event_hash_def hashed_text_def)

lemma hash_content:
  assumes "ce_hash e = Some (expected_hash sha e)" "ce_hash e' = Some (expected_hash sha e')"
    and "ce_hash e = ce_hash e'" "inj_on sha T" "hashed_text e \<in> T" "hashed_text e' \<in> T"
  shows "content e = content e'"
proof -
  have "hashed_text e = hashed_text e'"
    using assms by (simp add: expected_hash_text inj_on_def)
  then show ?thesis using assms(3) by (simp add: hashed_text_def event_json_eq content_def)
qed

lemma chain_determined:
  assumes inj: "inj_on sha T"
  shows "length es = length es' \<Longrightarrow> chained sha None es \<Longrightarrow> chained sha None es' \<Longrightarrow>
    hashed_text ` set es \<subseteq> T \<Longrightarrow> hashed_text ` set es' \<subseteq> T \<Longrightarrow>
    map ce_hash (take 1 (rev es)) = map ce_hash (take 1 (rev es')) \<Longrightarrow> map content es = map content es'"
proof (induction es arbitrary: es' rule: rev_induct)
  case (snoc e es)
  from snoc.prems(1) obtain fs f where f: "es' = fs @ [f]" by (cases es' rule: rev_cases) auto
  have l: "length es = length fs" using snoc.prems(1) f by simp
  have c: "content e = content f"
    by (rule hash_content [OF _ _ _ inj]) (use snoc.prems f in \<open>auto simp: chained_snoc\<close>)
  then have "ce_prev e = ce_prev f" by (simp add: content_def)
  moreover have "es \<noteq> [] \<Longrightarrow> fs \<noteq> []" using l by auto
  moreover have "es \<noteq> [] \<Longrightarrow> ce_prev e = ce_hash (last es)" "fs \<noteq> [] \<Longrightarrow> ce_prev f = ce_hash (last fs)"
    using snoc.prems(2,3) f by (simp_all add: chained_snoc)
  ultimately have "map ce_hash (take 1 (rev es)) = map ce_hash (take 1 (rev fs))"
    using l by (cases es rule: rev_cases; cases fs rule: rev_cases) auto
  then show ?case using snoc.IH [OF l] snoc.prems(2-5) f c by (simp add: chained_snoc)
qed simp

text \<open>
  C13. Tampering is evident: take a log that verifies and a second one of the same length that ends in
  the same hash. If any hashed field of any event differs, the second does not verify, unless the
  hash function maps two different texts hashed for these two logs to the same value. So whoever
  keeps the last hash and the length notices every change.
\<close>

theorem chain_tamper_evident:
  assumes "vf_valid (verify_chain sha es)" "length es' = length es" "ce_hash (last es') = ce_hash (last es)"
    and "map content es' \<noteq> map content es" "inj_on sha (hashed_text ` (set es \<union> set es'))"
  shows "\<not> vf_valid (verify_chain sha es')"
proof
  assume v: "vf_valid (verify_chain sha es')"
  have "es \<noteq> []" "es' \<noteq> []" using assms(2,4) by auto
  then have "map ce_hash (take 1 (rev es)) = map ce_hash (take 1 (rev es'))"
    using assms(3) by (cases es rule: rev_cases; cases es' rule: rev_cases) auto
  moreover have "hashed_text ` set es \<subseteq> hashed_text ` (set es \<union> set es')"
    "hashed_text ` set es' \<subseteq> hashed_text ` (set es \<union> set es')" by auto
  ultimately show False
    using chain_determined [OF assms(5), of es es'] v assms(1,2,4) by (simp add: verify_chain_valid)
qed

text \<open>What the report says of a broken chain.\<close>

lemma verify_loop_report:
  assumes "\<not> chained sha prev es"
  shows "\<exists>j < length es. vf_broken_index (verify_loop sha i c prev es) = Some (i + j) \<and>
    vf_broken_id (verify_loop sha i c prev es) = Some (ce_id (es ! j)) \<and>
    chained sha prev (take j es) \<and> \<not> chained sha prev (take (Suc j) es)"
  using assms
proof (induction sha i c prev es rule: verify_loop.induct)
  case (2 sha i c prev e es)
  show ?case
  proof (cases "ce_hash e = Some (expected_hash sha e) \<and> (prev = None \<or> ce_prev e = prev)")
    case True
    then have "\<not> chained sha (ce_hash e) es" using 2(2) by simp
    with 2(1) True obtain j where "j < length es"
      "vf_broken_index (verify_loop sha (Suc i) (Suc c) (ce_hash e) es) = Some (Suc i + j)"
      "vf_broken_id (verify_loop sha (Suc i) (Suc c) (ce_hash e) es) = Some (ce_id (es ! j))"
      "chained sha (ce_hash e) (take j es)" "\<not> chained sha (ce_hash e) (take (Suc j) es)"
      by auto
    with True show ?thesis by (intro exI [of _ "Suc j"]) auto
  next
    case False
    then show ?thesis by (intro exI [of _ 0]) (auto simp: broken_at_def split: option.splits)
  qed
qed simp

lemma verify_chain_report:
  assumes "\<not> vf_valid (verify_chain sha es)"
  shows "\<exists>j < length es. vf_broken_index (verify_chain sha es) = Some j \<and>
    vf_broken_id (verify_chain sha es) = Some (ce_id (es ! j)) \<and>
    vf_valid (verify_chain sha (take j es)) \<and> \<not> vf_valid (verify_chain sha (take (Suc j) es))"
  using verify_loop_report [of sha None es 0 0] assms
  by (simp add: verify_chain_valid) (simp add: verify_chain_def)

subsection \<open>The log always verifies\<close>

definition log_ok :: "(string \<Rightarrow> string) \<Rightarrow> audit_db \<Rightarrow> bool" where
  "log_ok sha db \<longleftrightarrow> (\<forall>tn p. chained sha None (map chain_event_of (plan_events tn p db)))"

lemma last_event_None [simp]: "last_event tn p db = None \<longleftrightarrow> plan_events tn p db = []"
  by (simp add: last_event_def split: list.splits)

lemma last_event_last: "plan_events tn p db \<noteq> [] \<Longrightarrow> last_event tn p db = Some (last (plan_events tn p db))"
  by (cases "plan_events tn p db") (simp_all add: last_event_def)

lemma plan_events_sorted: "sorted (map pv_step (plan_events tn p db))"
  by (simp add: plan_events_def)

lemma step_below_next:
  assumes "e \<in> set (plan_events tn p db)"
  shows "pv_step e < next_step tn p db"
proof -
  obtain es x where es: "plan_events tn p db = es @ [x]"
    using assms by (cases "plan_events tn p db" rule: rev_cases) auto
  then have "pv_step e \<le> pv_step x"
    using plan_events_sorted [of tn p db] assms by (auto simp: sorted_append)
  with es show ?thesis by (simp add: next_step_def last_event_last)
qed

lemma plan_events_append:
  assumes "\<And>x. x \<in> set (plan_events (pv_tenant e) (pv_plan e) db) \<Longrightarrow> pv_step x \<le> pv_step e"
  shows "plan_events tn p (db\<lparr>au_events := au_events db @ [e]\<rparr>) =
    plan_events tn p db @ (if pv_tenant e = tn \<and> pv_plan e = p then [e] else [])"
  using assms by (auto simp: plan_events_def intro!: sort_key_snoc)

lemma last_hash_is:
  "log_ok sha db \<Longrightarrow> plan_events tn p db \<noteq> [] \<Longrightarrow>
    last_hash tn p db = pv_hash (last (plan_events tn p db)) \<and> last_hash tn p db \<noteq> None"
proof -
  assume ok: "log_ok sha db" and ne: "plan_events tn p db \<noteq> []"
  let ?es = "plan_events tn p db"
  have "chained sha None (map chain_event_of ?es)" using ok by (simp add: log_ok_def)
  from chained_nth [OF this, of "length ?es - 1"] ne
  have "ce_hash (chain_event_of (last ?es)) \<noteq> None" by (simp add: last_conv_nth)
  then show ?thesis using ne by (simp add: last_hash_def last_event_last chain_event_of_def)
qed

text \<open>Appending a row linked to the last one, in order, keeps every chain.\<close>

lemma linked_event_ok:
  assumes ok: "log_ok sha db" and ord: "next_step (pv_tenant e) (pv_plan e) db \<le> pv_step e"
    and h: "ce_hash (chain_event_of e) = Some (expected_hash sha (chain_event_of e))"
    and prev: "pv_prev e = last_hash (pv_tenant e) (pv_plan e) db"
  shows "log_ok sha (db\<lparr>au_events := au_events db @ [e]\<rparr>)"
proof -
  have ps: "plan_events tn' p' (db\<lparr>au_events := au_events db @ [e]\<rparr>) =
      plan_events tn' p' db @ (if pv_tenant e = tn' \<and> pv_plan e = p' then [e] else [])" for tn' p'
    using plan_events_append [of e db tn' p'] step_below_next [of _ "pv_tenant e" "pv_plan e" db] ord by force
  have "ce_prev (chain_event_of e) = ce_hash (last (map chain_event_of (plan_events (pv_tenant e) (pv_plan e) db)))"
    if "plan_events (pv_tenant e) (pv_plan e) db \<noteq> []"
    using last_hash_is [OF ok that] that prev by (simp add: last_map chain_event_of_def)
  then show ?thesis using ok h unfolding log_ok_def by (auto simp: ps chained_snoc)
qed

lemma linked_row_ok:
  "log_ok sha db \<Longrightarrow> next_step tn p db \<le> step \<Longrightarrow> log_ok sha (db\<lparr>au_events := au_events db @
    [event_row sha tn p step replay occurred action now (last_hash tn p db)]\<rparr>)"
  by (rule linked_event_ok) (simp_all add: event_row_def chain_event_of_def)

lemma plan_events_drop:
  "plan_events tn p (db\<lparr>au_events := filter (\<lambda>e. \<not> (pv_tenant e = tn' \<and> pv_plan e = p')) (au_events db)\<rparr>) =
    (if tn = tn' \<and> p = p' then [] else plan_events tn p db)"
proof (cases "tn = tn' \<and> p = p'")
  case True
  then have "filter (\<lambda>e. pv_tenant e = tn \<and> pv_plan e = p)
    (filter (\<lambda>e. \<not> (pv_tenant e = tn' \<and> pv_plan e = p')) (au_events db)) = []"
    by (auto simp: filter_empty_conv)
  with True show ?thesis by (simp add: plan_events_def)
next
  case False
  then have "filter (\<lambda>e. pv_tenant e = tn \<and> pv_plan e = p)
    (filter (\<lambda>e. \<not> (pv_tenant e = tn' \<and> pv_plan e = p')) (au_events db)) =
    filter (\<lambda>e. pv_tenant e = tn \<and> pv_plan e = p) (au_events db)"
    by (auto intro: filter_cong)
  with False show ?thesis by (auto simp: plan_events_def)
qed

lemma ensure_plan_events:
  "ensure_plan_id t k a w kd st f db = (r, db') \<Longrightarrow> au_events db' = au_events db \<and> au_postgres db' = au_postgres db"
  by (auto simp: ensure_plan_id_def Let_def split: option.splits if_splits)

lemma log_ok_events: "au_events db' = au_events db \<Longrightarrow> log_ok sha db' = log_ok sha db"
  by (simp add: log_ok_def plan_events_def)

lemma insert_event_cases:
  assumes "insert_event e db = (r, db')"
  obtains (failed) x where "r = Inl x" "db' = db"
  | (inserted) "r = Inr e" "db' = db\<lparr>au_events := au_events db @ [e]\<rparr>" "0 \<le> pv_step e"
      "au_postgres db \<longrightarrow> pv_step e \<le> max_step"
  using assms by (auto simp: insert_event_def split: if_splits)

lemma append_next_loop_ok:
  assumes step: "\<And>k db r db'. attempt k db = (r, db') \<Longrightarrow> log_ok sha db \<Longrightarrow> log_ok sha db'"
  shows "log_ok sha db \<Longrightarrow> log_ok sha (snd (retry_on_unique_violation n msg attempt k db))"
proof (induction n arbitrary: k db)
  case (Suc n)
  obtain r db' where a: "attempt k db = (r, db')" by fastforce
  have ok': "log_ok sha db'" by (rule step [OF a Suc.prems])
  show ?case
  proof (cases r)
    case (Inl e)
    then show ?thesis using a ok' Suc.IH [OF ok'] by (cases e) simp_all
  qed (use a ok' in simp)
qed simp

lemma next_step_events: "au_events db' = au_events db \<Longrightarrow> next_step tn p db' = next_step tn p db"
  by (simp add: next_step_def last_event_def plan_events_def)

lemma last_hash_events: "au_events db' = au_events db \<Longrightarrow> last_hash tn p db' = last_hash tn p db"
  by (simp add: last_hash_def last_event_def plan_events_def)

lemma insert_linked_ok:
  assumes "log_ok sha db" "next_step tn p db \<le> step"
    and "insert_event (event_row sha tn p step replay occurred action now (last_hash tn p db)) db = (r, db')"
  shows "log_ok sha db'"
  using assms(3) by (cases rule: insert_event_cases) (use assms linked_row_ok in simp_all)

lemma planned_events:
  "planned ev f db = (r, db') \<Longrightarrow> au_events db' = au_events db \<and> au_postgres db' = au_postgres db"
  unfolding planned_def by (rule ensure_plan_events)

lemma append_next_tx_ok:
  assumes a: "append_next_tx sha collate secrets ev now f db = (r, db')" and ok: "log_ok sha db"
  shows "log_ok sha db'"
proof -
  obtain r1 db1 where e: "planned ev f db = (r1, db1)" by fastforce
  have ok1: "log_ok sha db1" using planned_events [OF e] log_ok_events ok by blast
  show ?thesis
  proof (cases r1)
    case (Inl x)
    with a e ok show ?thesis by (simp add: append_next_tx_def)
  next
    case (Inr plan)
    let ?step = "next_step (ne_tenant ev) plan db1"
    obtain r2 db2 where i: "insert_planner_event_next sha (ne_tenant ev) (ne_replay ev) plan (ne_occurred ev)
      (json_text (redacted_action collate secrets (ne_action ev))) now db1 = (r2, db2)" by fastforce
    have "log_ok sha db2"
    proof (cases "?step < 0")
      case True
      with i ok1 show ?thesis by (simp add: insert_planner_event_next_def)
    next
      case False
      with i have "insert_event (event_row sha (ne_tenant ev) plan ?step (ne_replay ev) (ne_occurred ev)
        (json_text (redacted_action collate secrets (ne_action ev))) now (last_hash (ne_tenant ev) plan db1)) db1 =
        (r2, db2)" by (simp add: insert_planner_event_next_def)
      then show ?thesis by (rule insert_linked_ok [OF ok1 order_refl])
    qed
    with a e Inr i ok show ?thesis by (cases r2) (simp_all add: append_next_tx_def)
  qed
qed

lemma append_next_ok:
  "log_ok sha db \<Longrightarrow> log_ok sha (snd (append_next sha collate secrets ev fresh now db))"
  by (auto simp: append_next_def intro!: append_next_loop_ok intro: append_next_tx_ok)

lemma append_tx_cases:
  assumes a: "append_tx sha collate secrets ev step f now db = (r, db')"
  obtains (failed) x where "r = Inl x" "db' = db"
  | (duplicate) plan where "r = Inr None" "planned ev f db = (Inr plan, db')"
  | (inserted) plan db1 e where "r = Inr (Some e)" "planned ev f db = (Inr plan, db1)"
      "e = append_row sha collate secrets ev plan step now db1" "insert_event e db1 = (Inr e, db')"
proof -
  obtain r1 db1 where e: "planned ev f db = (r1, db1)" by fastforce
  show thesis
  proof (cases r1)
    case (Inl x)
    with a e show ?thesis by (intro failed) (auto simp: append_tx_def)
  next
    case (Inr plan)
    obtain r2 db2 where i: "insert_event (append_row sha collate secrets ev plan step now db1) db1 = (r2, db2)"
      by fastforce
    show ?thesis
    proof (cases "matches (\<lambda>x. pv_tenant x = ne_tenant ev \<and> pv_plan x = plan \<and> pv_step x = step) (au_events db1)")
      case True
      with a e Inr show ?thesis by (intro duplicate) (auto simp: append_tx_def)
    next
      case False
      note a' = a [unfolded append_tx_def e Inr prod.case sum.case if_not_P [OF False] i]
      from i show ?thesis
      proof (cases rule: insert_event_cases)
        case (failed x)
        with a' e Inr show ?thesis
          by (cases x) (auto intro: duplicate \<open>\<And>x. r = Inl x \<Longrightarrow> db' = db \<Longrightarrow> thesis\<close>)
      next
        case inserted
        with a' e Inr i show ?thesis
          using \<open>\<And>plan db1 e. r = Inr (Some e) \<Longrightarrow> planned ev f db = (Inr plan, db1) \<Longrightarrow>
            e = append_row sha collate secrets ev plan step now db1 \<Longrightarrow> insert_event e db1 = (Inr e, db') \<Longrightarrow> thesis\<close>
          by auto
      qed
    qed
  qed
qed

lemma append_row_ok:
  assumes "log_ok sha db" "next_step (ne_tenant ev) plan db \<le> step" "insert_event e db = (r, db')"
    and "e = append_row sha collate secrets ev plan step now db"
  shows "log_ok sha db'"
  using assms(3) unfolding assms(4) append_row_def by (rule insert_linked_ok [OF assms(1,2)])

lemma append_event_ok:
  assumes ok: "log_ok sha db"
    and ord: "\<forall>p. fst (planned ev f db) = Inr p \<longrightarrow> next_step (ne_tenant ev) p db \<le> step"
  shows "log_ok sha (snd (append_event sha collate secrets ev step f now db))"
proof -
  obtain r db' where a: "append_tx sha collate secrets ev step f now db = (r, db')" by fastforce
  from a have "log_ok sha db'"
  proof (cases rule: append_tx_cases)
    case failed
    then show ?thesis using ok by simp
  next
    case (duplicate plan)
    then show ?thesis using planned_events log_ok_events ok by blast
  next
    case (inserted plan db1 e)
    have same: "au_events db1 = au_events db" using planned_events [OF inserted(2)] by simp
    have ok1: "log_ok sha db1" using same log_ok_events ok by blast
    have "fst (planned ev f db) = Inr plan" using inserted(2) by simp
    with ord have "next_step (ne_tenant ev) plan db \<le> step" by blast
    then have "next_step (ne_tenant ev) plan db1 \<le> step" by (simp only: next_step_events [OF same])
    from append_row_ok [OF ok1 this inserted(4,3)] show ?thesis .
  qed
  moreover have "snd (append_event sha collate secrets ev step f now db) \<in> {db, db'}"
    unfolding append_event_def a by (simp del: append_Cons append.simps)
  ultimately show ?thesis using ok by auto
qed

inductive audit_step :: "(string \<Rightarrow> string) \<Rightarrow> audit_db \<Rightarrow> audit_db \<Rightarrow> bool" for sha where
  audit_next: "audit_step sha db (snd (append_next sha collate secrets ev fresh now db))"
| audit_forget: "audit_step sha db
    (snd (forget_events sha tenant agent workspace ty entity decision fresh replay occurred now db))"
| audit_append: "\<forall>p. fst (planned ev fresh db) = Inr p \<longrightarrow> next_step (ne_tenant ev) p db \<le> step \<Longrightarrow>
    audit_step sha db (snd (append_event sha collate secrets ev step fresh now db))"

lemma plan_events_prep:
  "plan_events tn p (forget_prep tn' p' decision db) =
    (if decision \<noteq> ForgetRetain \<and> tn = tn' \<and> p = p' then [] else plan_events tn p db)"
  using plan_events_drop [of tn p tn' p' db] by (auto simp: forget_prep_def)

lemma forget_cases:
  assumes "forget_events sha tn agent ws ty entity decision f replay occurred now db = (r, db')"
  obtains (failed) x where "r = Inl x" "db' = db"
  | (forgotten) plan db1 e where "ensure_plan_id tn entity agent ws ''audit'' ''active'' f db = (Inr plan, db1)"
      "pv_tenant e = tn" "pv_plan e = plan" "pv_step e = next_step tn plan db1" "pv_prev e = last_hash tn plan db1"
      "ce_hash (chain_event_of e) = Some (expected_hash sha (chain_event_of e))"
      "pv_action e = json_text (proof_action decision ty entity
        (if decision = ForgetRetain then 0 else length (plan_events tn plan db1)))"
      "db' = (forget_prep tn plan decision db1)\<lparr>au_events := au_events (forget_prep tn plan decision db1) @ [e]\<rparr>"
      "r = Inr \<lparr>fr_decision = decision,
        fr_deleted = (if decision = ForgetRetain then 0 else length (plan_events tn plan db1)), fr_proof = pv_step e\<rparr>"
      "au_postgres db \<longrightarrow> pv_step e \<le> max_step"
proof -
  obtain r1 db1 where e: "ensure_plan_id tn entity agent ws ''audit'' ''active'' f db = (r1, db1)" by fastforce
  show thesis
  proof (cases r1)
    case (Inl x)
    with assms e show ?thesis by (intro failed) (auto simp: forget_events_def)
  next
    case (Inr plan)
    let ?d = "if decision = ForgetRetain then 0 else length (plan_events tn plan db1)"
    let ?e = "event_row sha tn plan (next_step tn plan db1) (''forget-'' @ replay) occurred
      (json_text (proof_action decision ty entity ?d)) now (last_hash tn plan db1)"
    have d: "length (au_events db1) - length (au_events (forget_prep tn plan decision db1)) = ?d"
      using sum_length_filter_compl [of "\<lambda>e. pv_tenant e = tn \<and> pv_plan e = plan" "au_events db1"]
      by (auto simp: forget_prep_def plan_events_def)
    have f: "forget_events sha tn agent ws ty entity decision f replay occurred now db =
      (if next_step tn plan db1 < 0 then (Inl (AuditError ''planner_events step_index overflow''), db)
       else case insert_event ?e (forget_prep tn plan decision db1) of
         (Inl e, db3) \<Rightarrow> (Inl e, db)
       | (Inr e, db3) \<Rightarrow> (Inr \<lparr>fr_decision = decision, fr_deleted = ?d, fr_proof = next_step tn plan db1\<rparr>, db3))"
      unfolding forget_events_def e Inr Let_def prod.case sum.case d by (rule refl)
    obtain r2 db3 where i: "insert_event ?e (forget_prep tn plan decision db1) = (r2, db3)" by fastforce
    show ?thesis
    proof (cases "next_step tn plan db1 < 0")
      case True
      with assms f show ?thesis by (intro failed) auto
    next
      case False
      with assms f i have a: "(case r2 of Inl e \<Rightarrow> (Inl e, db)
        | Inr e \<Rightarrow> (Inr \<lparr>fr_decision = decision, fr_deleted = ?d, fr_proof = next_step tn plan db1\<rparr>, db3)) = (r, db')"
        by (cases r2) simp_all
      from i show ?thesis
      proof (cases rule: insert_event_cases)
        case (failed x)
        with a show ?thesis by (intro \<open>\<And>x. r = Inl x \<Longrightarrow> db' = db \<Longrightarrow> thesis\<close>) auto
      next
        case inserted
        have "au_postgres db \<longrightarrow> pv_step ?e \<le> max_step"
          using inserted(4) ensure_plan_events [OF e] by (simp add: forget_prep_def split: if_splits)
        with a inserted e Inr show ?thesis
          by (intro forgotten [of plan db1 ?e]) (auto simp: event_row_def chain_event_of_def)
      qed
    qed
  qed
qed

lemma first_event_ok:
  assumes "log_ok sha db" "plan_events (pv_tenant e) (pv_plan e) db = []"
    and "ce_hash (chain_event_of e) = Some (expected_hash sha (chain_event_of e))"
  shows "log_ok sha (db\<lparr>au_events := au_events db @ [e]\<rparr>)"
proof -
  have "plan_events tn p (db\<lparr>au_events := au_events db @ [e]\<rparr>) =
      plan_events tn p db @ (if pv_tenant e = tn \<and> pv_plan e = p then [e] else [])" for tn p
    using plan_events_append [of e db tn p] assms(2) by simp
  then show ?thesis using assms unfolding log_ok_def by (auto simp: chained_snoc)
qed

lemma forget_ok:
  assumes ok: "log_ok sha db"
  shows "log_ok sha (snd (forget_events sha tn agent ws ty entity decision f replay occurred now db))"
proof -
  obtain r db' where a: "forget_events sha tn agent ws ty entity decision f replay occurred now db = (r, db')"
    by fastforce
  from a have "log_ok sha db'"
  proof (cases rule: forget_cases)
    case failed
    then show ?thesis using ok by simp
  next
    case (forgotten plan db1 e)
    have ok1: "log_ok sha db1" using ensure_plan_events [OF forgotten(1)] log_ok_events ok by blast
    show ?thesis
    proof (cases "decision = ForgetRetain")
      case True
      then show ?thesis using linked_event_ok [OF ok1, of e] forgotten by (simp add: forget_prep_def)
    next
      case False
      have "log_ok sha (forget_prep tn plan decision db1)"
        using ok1 by (simp add: log_ok_def plan_events_prep)
      from first_event_ok [OF this, of e] False forgotten show ?thesis by (simp add: plan_events_prep)
    qed
  qed
  then show ?thesis using a by simp
qed

lemma audit_steps_ok: "(audit_step sha)\<^sup>*\<^sup>* db db' \<Longrightarrow> log_ok sha db \<Longrightarrow> log_ok sha db'"
proof (induction rule: rtranclp_induct)
  case (step y z)
  from step.hyps(2) step.IH [OF step.prems] show ?case
    by cases (auto intro: append_next_ok forget_ok append_event_ok)
qed simp

text \<open>
  C14. An honest log always verifies: whatever sequence of next-step appends, appends in step order
  and forget requests runs on an empty log, for every plan the exported chain is valid.
\<close>

theorem log_verifies:
  assumes "(audit_step sha)\<^sup>*\<^sup>* db db'" "au_events db = []"
  shows "vf_valid (verify_chain sha (events_for_verification tenant plan_key db'))"
proof -
  have "log_ok sha db" using assms(2) by (simp add: log_ok_def plan_events_def)
  with audit_steps_ok [OF assms(1)] have "log_ok sha db'" by simp
  then show ?thesis by (simp add: events_for_verification_def verify_chain_valid log_ok_def split: option.splits)
qed

definition empty_audit :: audit_db where
  "empty_audit = \<lparr>au_postgres = True, au_plans = [], au_events = []\<rparr>"

definition demo_event :: "string \<Rightarrow> new_event" where
  "demo_event at = \<lparr>ne_tenant = ''t'', ne_replay = ''r'', ne_plan_key = ''k'', ne_occurred = at, ne_action = JNum 1\<rparr>"

definition demo_log :: audit_db where
  "demo_log = snd (append_next id id None (demo_event ''2'') (\<lambda>_. ''p'') 2
    (snd (append_next id id None (demo_event ''1'') (\<lambda>_. ''p'') 1 empty_audit)))"

lemma demo_log_reached: "(audit_step sha)\<^sup>*\<^sup>* empty_audit (snd (append_next sha id None (demo_event ''2'') (\<lambda>_. ''p'') 2
    (snd (append_next sha id None (demo_event ''1'') (\<lambda>_. ''p'') 1 empty_audit))))"
  by (rule rtranclp.rtrancl_into_rtrancl [OF r_into_rtranclp]) (rule audit_next)+

lemma log_verifies_witness:
  "vf_valid (verify_chain id (events_for_verification ''t'' ''k'' demo_log)) \<and>
    length (events_for_verification ''t'' ''k'' demo_log) = 2"
proof -
  have "length (events_for_verification ''t'' ''k'' demo_log) = 2" by code_simp
  then show ?thesis
    using log_verifies [OF demo_log_reached, of id "''t''" "''k''"] by (simp add: demo_log_def empty_audit_def)
qed

text \<open>
  A witness with a checksum that ignores the first eight characters, so it has collisions, but none
  on the texts of these two logs: the first of two events of a log is changed
  after the fact and its own hash brought up to date; the link of the second gives it away.
\<close>

definition checksum :: "string \<Rightarrow> string" where
  "checksum s = drop 8 s"

definition demo_link :: "int \<Rightarrow> string option \<Rightarrow> string \<Rightarrow> chain_event" where
  "demo_link step prev action =
    \<lparr>ce_id = step, ce_plan = ''p'', ce_step = step, ce_occurred = ''1'', ce_action = action, ce_prev = prev,
     ce_hash = Some (compute_event_hash checksum ''p'' step ''1'' action prev)\<rparr>"

definition demo_chain :: "chain_event list" where
  "demo_chain = (let e = demo_link 0 None ''1'' in [e, demo_link 1 (ce_hash e) ''1''])"

definition forged_event :: chain_event where
  "forged_event = demo_link 0 None ''2''"

lemma chain_tamper_evident_witness:
  "vf_valid (verify_chain checksum demo_chain) \<and> vf_valid (verify_chain checksum [forged_event]) \<and>
    \<not> vf_valid (verify_chain checksum (forged_event # tl demo_chain))"
proof (intro conjI)
  show v: "vf_valid (verify_chain checksum demo_chain)" by code_simp
  show "vf_valid (verify_chain checksum [forged_event])" by code_simp
  show "\<not> vf_valid (verify_chain checksum (forged_event # tl demo_chain))"
  proof (rule chain_tamper_evident [OF v])
    show "length (forged_event # tl demo_chain) = length demo_chain"
      "ce_hash (last (forged_event # tl demo_chain)) = ce_hash (last demo_chain)"
      "map content (forged_event # tl demo_chain) \<noteq> map content demo_chain"
      by code_simp+
    show "inj_on checksum (hashed_text ` (set demo_chain \<union> set (forged_event # tl demo_chain)))"
      by code_simp
  qed
qed

text \<open>
  Forgetting keeps the chain's thread: after a deletion the plan's log is exactly one proof
  event, which continues the step count and carries the last hash of what was deleted, and states
  how many events went; after a retention the proof is appended. Other plans' events are untouched.
\<close>

theorem forget_continuity:
  assumes "forget_events sha tn agent ws ty entity decision f replay occurred now db = (Inr r, db')"
    and "get_by_key tn entity db = Some plan"
  shows "\<exists>e. plan_events tn plan db' = (if decision = ForgetRetain then plan_events tn plan db else []) @ [e] \<and>
    pv_step e = next_step tn plan db \<and> pv_prev e = last_hash tn plan db \<and>
    pv_action e = json_text (proof_action decision ty entity (fr_deleted r)) \<and>
    fr_deleted r = (if decision = ForgetRetain then 0 else length (plan_events tn plan db)) \<and>
    fr_proof r = pv_step e \<and>
    (\<forall>tn' p. (tn', p) \<noteq> (tn, plan) \<longrightarrow> plan_events tn' p db' = plan_events tn' p db)"
  using assms(1)
proof (cases rule: forget_cases)
  case (forgotten p db1 e)
  have ens: "ensure_plan_id tn entity agent ws ''audit'' ''active'' f db = (Inr plan, db)"
    using assms(2) by (simp add: ensure_plan_id_def get_by_key_def Let_def split: if_splits)
  with forgotten(1) have p: "p = plan" "db1 = db" by simp_all
  let ?d = "forget_prep tn plan decision db"
  have below: "pv_step x \<le> pv_step e" if "x \<in> set (plan_events tn plan ?d)" for x
  proof -
    have "x \<in> set (plan_events tn plan db)" using that by (simp add: plan_events_prep split: if_splits)
    then show ?thesis using step_below_next [of x tn plan db] forgotten(4) p by simp
  qed
  have ps: "plan_events tn' p' db' = plan_events tn' p' ?d @ (if tn = tn' \<and> plan = p' then [e] else [])" for tn' p'
    using plan_events_append [of e ?d tn' p'] below forgotten(2,3,8) p by simp
  have "pv_step e = next_step tn plan db" "pv_prev e = last_hash tn plan db" "fr_proof r = pv_step e"
    "pv_action e = json_text (proof_action decision ty entity (fr_deleted r))"
    "fr_deleted r = (if decision = ForgetRetain then 0 else length (plan_events tn plan db))"
    using forgotten(4,5,7,9) p by simp_all
  then show ?thesis
    by (intro exI [of _ e]) (auto simp: ps plan_events_prep)
qed simp

lemma forget_continuity_witness:
  "\<exists>e db'. plan_events ''t'' ''p'' db' = [e] \<and> pv_step e = 2"
proof -
  obtain r db' where f: "forget_events id ''t'' ''a'' ''w'' ''user'' ''k'' ForgetDelete ''q'' ''x'' ''3'' 3 demo_log = (r, db')"
    by fastforce
  have "(case fst (forget_events id ''t'' ''a'' ''w'' ''user'' ''k'' ForgetDelete ''q'' ''x'' ''3'' 3 demo_log) of
      Inr _ \<Rightarrow> True | Inl _ \<Rightarrow> False)" "get_by_key ''t'' ''k'' demo_log = Some ''p''" "next_step ''t'' ''p'' demo_log = 2"
    by code_simp+
  with f obtain res where "r = Inr res" and g: "get_by_key ''t'' ''k'' demo_log = Some ''p''" "next_step ''t'' ''p'' demo_log = 2"
    by (cases r) auto
  from forget_continuity [OF f [unfolded this(1)] g(1)] g(2) show ?thesis by auto
qed

lemma forget_blocked:
  assumes "au_postgres db" "get_by_key tn entity db = Some plan"
    and "e \<in> set (plan_events tn plan db)" "pv_step e = max_step"
  shows "\<exists>x. forget_events sha tn agent ws ty entity decision f replay occurred now db = (Inl x, db)"
proof -
  obtain r db' where a: "forget_events sha tn agent ws ty entity decision f replay occurred now db = (r, db')"
    by fastforce
  from a show ?thesis
  proof (cases rule: forget_cases)
    case (failed x)
    with a show ?thesis by simp
  next
    case (forgotten p db1 e')
    have "ensure_plan_id tn entity agent ws ''audit'' ''active'' f db = (Inr plan, db)"
      using assms(2) by (simp add: ensure_plan_id_def get_by_key_def Let_def split: if_splits)
    with forgotten(1) have "p = plan" "db1 = db" by simp_all
    then have "pv_step e < pv_step e'" using step_below_next [OF assms(3)] forgotten(4) by simp
    with forgotten(10) assms(1,4) show ?thesis by simp
  qed
qed

text \<open>
  A plan that holds an event at the largest 32-bit step (where the plan service files its
  decision audit) can never be forgotten on PostgreSQL: every forget request on it fails and
  leaves the database as it was.
\<close>

theorem decision_audit_blocks_forget:
  assumes "au_postgres db" "get_by_key tn entity db = Some plan"
    and "e \<in> set (plan_events tn plan db)" "pv_step e = max_step"
  shows "\<exists>x. forget_events sha tn agent ws ty entity decision f replay occurred now db = (Inl x, db)"
  using assms by (rule forget_blocked)

definition audited_plan :: audit_db where
  "audited_plan = \<lparr>au_postgres = True,
    au_plans = [\<lparr>pl_tenant = ''t'', pl_id = ''p'', pl_key = ''k'', pl_agent = ''a'', pl_workspace = ''w'',
      pl_kind = ''audit'', pl_status = ''active''\<rparr>],
    au_events = [event_row id ''t'' ''p'' max_step ''r'' ''1'' ''1'' 1 None]\<rparr>"

lemma decision_audit_blocks_forget_witness:
  "\<exists>x. forget_events id ''t'' ''a'' ''w'' ''user'' ''k'' ForgetDelete ''q'' ''x'' ''3'' 3 audited_plan = (Inl x, audited_plan)"
proof (rule decision_audit_blocks_forget)
  have "trim ''k'' = ''k''" by code_simp
  then show "au_postgres audited_plan" "get_by_key ''t'' ''k'' audited_plan = Some ''p''"
    by (simp_all add: audited_plan_def get_by_key_def plan_by_key_def)
  show "event_row id ''t'' ''p'' max_step ''r'' ''1'' ''1'' 1 None \<in> set (plan_events ''t'' ''p'' audited_plan)"
    "pv_step (event_row id ''t'' ''p'' max_step ''r'' ''1'' ''1'' 1 None) = max_step"
    by (simp_all add: audited_plan_def plan_events_def event_row_def)
qed

text \<open>
  Appending out of step order breaks the chain: when an event is inserted below an existing
  step of its plan, the exported chain verifies only if some later event already carried the hash
  of the new event as its previous hash.
\<close>

theorem out_of_order_breaks_chain:
  assumes "append_event sha collate secrets ev step f now db = (Inr (Some e), db')"
    and "b \<in> set (plan_events (pv_tenant e) (pv_plan e) db)" "step < pv_step b"
    and "vf_valid (verify_chain sha (map chain_event_of (plan_events (pv_tenant e) (pv_plan e) db')))"
  shows "\<exists>c \<in> set (plan_events (pv_tenant e) (pv_plan e) db). step \<le> pv_step c \<and> pv_prev c = pv_hash e"
proof -
  let ?tn = "pv_tenant e" and ?p = "pv_plan e"
  let ?es = "plan_events ?tn ?p db'"
  have "append_tx sha collate secrets ev step f now db = (Inr (Some e), db')"
    using assms(1) by (simp add: append_event_def split: if_splits)
  then obtain db1 where new: "pv_step e = step" "insert_event e db1 = (Inr e, db')" "au_events db1 = au_events db"
    by (cases rule: append_tx_cases) (auto simp: append_row_def event_row_def dest: planned_events)
  then have db': "au_events db' = au_events db @ [e]"
    "\<forall>x \<in> set (au_events db). pv_tenant x = ?tn \<longrightarrow> pv_plan x = ?p \<longrightarrow> pv_step x \<noteq> pv_step e"
    by (auto simp: insert_event_def matches_iff split: if_splits)
  have only: "filter (\<lambda>x. pv_step x = step) ?es = [e]"
  proof -
    have "filter (\<lambda>x. pv_step x = step) ?es =
        filter (\<lambda>x. pv_step x = step) (filter (\<lambda>x. pv_tenant x = ?tn \<and> pv_plan x = ?p) (au_events db @ [e]))"
      by (simp add: plan_events_def sort_key_stable db'(1))
    also have "\<dots> = [e]" using db'(2) new(1) by (auto simp: filter_empty_conv)
    finally show ?thesis .
  qed
  have s: "set ?es = insert e (set (plan_events ?tn ?p db))" using db'(1) by (auto simp: plan_events_def)
  then obtain us vs where es: "?es = us @ e # vs" by (metis insertI1 split_list)
  have old: "\<forall>x \<in> set vs. pv_step x \<noteq> step" using only new(1) unfolding es by (auto simp: append_eq_Cons_conv filter_empty_conv)
  have sorted: "\<forall>x \<in> set us. pv_step x \<le> step" "\<forall>x \<in> set vs. step \<le> pv_step x"
    using plan_events_sorted [of ?tn ?p db'] new(1) unfolding es by (auto simp: sorted_append)
  have "b \<in> set us \<union> insert e (set vs)" using s assms(2) unfolding es by auto
  then have "b \<in> set vs" using sorted(1) assms(3) new(1) by auto
  then obtain c ws where vs: "vs = c # ws" by (cases vs) auto
  have "chained sha None (map chain_event_of (us @ e # c # ws))"
    using assms(4) by (simp add: verify_chain_valid es vs)
  from chained_link [OF this, of "length us"] have "pv_prev c = pv_hash e"
    by (simp add: nth_append chain_event_of_def)
  moreover have "c \<in> set (plan_events ?tn ?p db)" "step \<le> pv_step c"
    using s old new(1) sorted(2) unfolding es vs by auto
  ultimately show ?thesis by blast
qed

lemma out_of_order_breaks_chain_witness:
  "\<not> vf_valid (verify_chain id (map chain_event_of (plan_events ''t'' ''p''
      (snd (append_event id id None (demo_event ''2'') 3 ''p'' 2
        (snd (append_event id id None (demo_event ''1'') 5 ''p'' 1 empty_audit)))))))"
proof
  let ?db = "snd (append_event id id None (demo_event ''1'') 5 ''p'' 1 empty_audit)"
  assume v: "vf_valid (verify_chain id (map chain_event_of (plan_events ''t'' ''p''
    (snd (append_event id id None (demo_event ''2'') 3 ''p'' 2 ?db)))))"
  obtain r db' where a: "append_event id id None (demo_event ''2'') 3 ''p'' 2 ?db = (r, db')" by fastforce
  have ev: "(case fst (append_event id id None (demo_event ''2'') 3 ''p'' 2 ?db) of
      Inr (Some e) \<Rightarrow> pv_tenant e = ''t'' \<and> pv_plan e = ''p'' \<and> pv_hash e \<noteq> None | _ \<Rightarrow> False)"
    "\<forall>c \<in> set (plan_events ''t'' ''p'' ?db). pv_prev c = None \<and> 3 < pv_step c"
    "plan_events ''t'' ''p'' ?db \<noteq> []"
    by code_simp+
  obtain e where e: "r = Inr (Some e)" "pv_tenant e = ''t''" "pv_plan e = ''p''" "pv_hash e \<noteq> None"
    using ev(1) unfolding a fst_conv by (cases r; simp split: option.splits)
  have "hd (plan_events ''t'' ''p'' ?db) \<in> set (plan_events (pv_tenant e) (pv_plan e) ?db)"
    unfolding e(2,3) using ev(3) by (rule hd_in_set)
  moreover from this have "3 < pv_step (hd (plan_events ''t'' ''p'' ?db))" using ev(2) unfolding e(2,3) by blast
  moreover have "vf_valid (verify_chain id (map chain_event_of (plan_events (pv_tenant e) (pv_plan e) db')))"
    using v unfolding a snd_conv e(2,3) .
  ultimately have "\<exists>c \<in> set (plan_events (pv_tenant e) (pv_plan e) ?db). 3 \<le> pv_step c \<and> pv_prev c = pv_hash e"
    by (rule out_of_order_breaks_chain [OF a [unfolded e(1)]])
  then show False using ev(2) e(4) unfolding e(2,3) by force
qed

end
