(* ===== verification/Identity_Scope.thy ===== *)
theory Identity_Scope
  imports Table
begin

text \<open>
  Tenants, agents, workspaces and memberships: \<open>gateway/src/modules/identity/scope.ts\<close> with its
  five caches, and the creation, renaming and deletion of agents in
  \<open>modules/agent/admin-service.ts\<close>, which keep the caches up to date. An operation reads the clock
  once (\<open>now\<close>) and draws its UUIDs as parameters; a transaction is atomic.
\<close>

subsection \<open>Tables\<close>

record tenant_row =
  te_id :: string
  te_key :: string

record agent_row =
  ar_tenant :: string
  ar_id :: string
  ar_key :: string
  ar_primary :: bool

record workspace_row =
  ws_tenant :: string
  ws_id :: string
  ws_key :: string

record identity_db =
  id_tenants :: "tenant_row list"
  id_agents :: "agent_row list"
  id_workspaces :: "workspace_row list"
  id_members :: "(string \<times> string \<times> string) list"

datatype scope_error =
    ForeignKeyViolation
  | DuplicateRow
  | EnsureFailed string
  | ScopeNotFound string
  | AgentAlreadyExists
  | AgentDeleteConflict string
  | AgentRenameConflict
  | BadAgentKey

definition default_key :: string where
  "default_key = ''default''"

definition truthy :: "string option \<Rightarrow> string option" where
  "truthy v = (case v of Some x \<Rightarrow> if x = [] then None else Some x | None \<Rightarrow> None)"

definition tenant_by_key :: "identity_db \<Rightarrow> string \<Rightarrow> string option" where
  "tenant_by_key db key = truthy (map_option te_id (find (\<lambda>r. te_key r = key) (id_tenants db)))"

definition agent_row_of :: "identity_db \<Rightarrow> string \<Rightarrow> string \<Rightarrow> agent_row option" where
  "agent_row_of db tenant key = find (\<lambda>r. (ar_tenant r, ar_key r) = (tenant, key)) (id_agents db)"

definition agent_by_key :: "identity_db \<Rightarrow> string \<Rightarrow> string \<Rightarrow> string option" where
  "agent_by_key db tenant key = truthy (map_option ar_id (agent_row_of db tenant key))"

definition agent_key_by_id :: "identity_db \<Rightarrow> string \<Rightarrow> string \<Rightarrow> string option" where
  "agent_key_by_id db tenant i =
    truthy (map_option ar_key (find (\<lambda>r. (ar_tenant r, ar_id r) = (tenant, i)) (id_agents db)))"

definition primary_of :: "identity_db \<Rightarrow> string \<Rightarrow> (string \<times> string) option" where
  "primary_of db tenant =
    (case find (\<lambda>r. ar_tenant r = tenant \<and> ar_primary r) (id_agents db) of
       None \<Rightarrow> None
     | Some r \<Rightarrow> if ar_id r = [] \<or> ar_key r = [] then None else Some (ar_id r, ar_key r))"

definition workspace_by_key :: "identity_db \<Rightarrow> string \<Rightarrow> string \<Rightarrow> string option" where
  "workspace_by_key db tenant key =
    truthy (map_option ws_id (find (\<lambda>r. (ws_tenant r, ws_key r) = (tenant, key)) (id_workspaces db)))"

text \<open>
  Statements with their constraints: primary keys, one primary agent per tenant, foreign keys.
\<close>

definition insert_agent :: "agent_row \<Rightarrow> identity_db \<Rightarrow> scope_error + identity_db" where
  "insert_agent r db =
    (if matches (\<lambda>x. (ar_tenant x, ar_key x) = (ar_tenant r, ar_key r)) (id_agents db) \<or>
        matches (\<lambda>x. (ar_tenant x, ar_id x) = (ar_tenant r, ar_id r)) (id_agents db) \<or>
        ar_primary r \<and> matches (\<lambda>x. ar_tenant x = ar_tenant r \<and> ar_primary x) (id_agents db)
     then Inl DuplicateRow
     else if \<not> matches (\<lambda>t. te_id t = ar_tenant r) (id_tenants db) then Inl ForeignKeyViolation
     else Inr (db\<lparr>id_agents := id_agents db @ [r]\<rparr>))"

definition insert_workspace :: "workspace_row \<Rightarrow> identity_db \<Rightarrow> scope_error + identity_db" where
  "insert_workspace r db =
    (if matches (\<lambda>x. (ws_tenant x, ws_key x) = (ws_tenant r, ws_key r)) (id_workspaces db) \<or>
        matches (\<lambda>x. (ws_tenant x, ws_id x) = (ws_tenant r, ws_id r)) (id_workspaces db)
     then Inl DuplicateRow
     else if \<not> matches (\<lambda>t. te_id t = ws_tenant r) (id_tenants db) then Inl ForeignKeyViolation
     else Inr (db\<lparr>id_workspaces := id_workspaces db @ [r]\<rparr>))"

definition ensure_membership :: "string \<Rightarrow> string \<Rightarrow> string \<Rightarrow> identity_db \<Rightarrow> scope_error + identity_db" where
  "ensure_membership tenant agent workspace db =
    (if (tenant, agent, workspace) \<in> set (id_members db) then Inr db
     else if \<not> matches (\<lambda>x. (ar_tenant x, ar_id x) = (tenant, agent)) (id_agents db) \<or>
        \<not> matches (\<lambda>x. (ws_tenant x, ws_id x) = (tenant, workspace)) (id_workspaces db)
     then Inl ForeignKeyViolation
     else Inr (db\<lparr>id_members := id_members db @ [(tenant, agent, workspace)]\<rparr>))"

definition has_membership :: "identity_db \<Rightarrow> string \<Rightarrow> string \<Rightarrow> string \<Rightarrow> bool" where
  "has_membership db tenant agent workspace \<longleftrightarrow> (tenant, agent, workspace) \<in> set (id_members db)"

subsection \<open>Caches\<close>

record 'a cached =
  ca_value :: 'a
  ca_expires :: nat

record scope_state =
  ss_db :: identity_db
  ss_tenants :: "(string, string cached) omap"
  ss_agents :: "(string, string cached) omap"
  ss_primary :: "(string, (string \<times> string) cached) omap"
  ss_keys :: "(string, string cached) omap"
  ss_workspaces :: "(string, string cached) omap"

definition cache_ttl :: "nat option \<Rightarrow> nat" where
  "cache_ttl opt = max 5000 (case opt of None \<Rightarrow> 5 * 60000 | Some t \<Rightarrow> t)"

definition get_cached :: "nat \<Rightarrow> ('k, 'a cached) omap \<Rightarrow> 'k \<Rightarrow> 'a option \<times> ('k, 'a cached) omap" where
  "get_cached now m k =
    (case om_get m k of
       None \<Rightarrow> (None, m)
     | Some c \<Rightarrow> if ca_expires c \<le> now then (None, om_del k m) else (Some (ca_value c), m))"

definition set_cached :: "nat \<Rightarrow> nat \<Rightarrow> 'k \<Rightarrow> 'a \<Rightarrow> ('k, 'a cached) omap \<Rightarrow> ('k, 'a cached) omap" where
  "set_cached now ttl k v m = om_set k \<lparr>ca_value = v, ca_expires = now + ttl\<rparr> m"

definition cache_key :: "string \<Rightarrow> string \<Rightarrow> string" where
  "cache_key tenant key = tenant @ '':'' @ key"

definition norm_key :: "string \<Rightarrow> string" where
  "norm_key key = (if trim key = [] then default_key else trim key)"

text \<open>The two agent caches are always written together.\<close>

definition note_agent :: "nat \<Rightarrow> nat \<Rightarrow> string \<Rightarrow> string \<Rightarrow> string \<Rightarrow> scope_state \<Rightarrow> scope_state" where
  "note_agent now ttl tenant key i s =
    s\<lparr>ss_agents := set_cached now ttl (cache_key tenant key) i (ss_agents s),
      ss_keys := set_cached now ttl (cache_key tenant i) key (ss_keys s)\<rparr>"

definition remember_agent_id :: "nat \<Rightarrow> nat \<Rightarrow> string \<Rightarrow> string \<Rightarrow> string \<Rightarrow> scope_state \<Rightarrow> scope_state" where
  "remember_agent_id now ttl tenant agent_key i s = note_agent now ttl tenant (norm_key agent_key) i s"

definition remember_primary_agent :: "nat \<Rightarrow> nat \<Rightarrow> string \<Rightarrow> string \<Rightarrow> string \<Rightarrow> scope_state \<Rightarrow> scope_state" where
  "remember_primary_agent now ttl tenant agent_key i s =
    note_agent now ttl tenant (norm_key agent_key) i
      (s\<lparr>ss_primary := set_cached now ttl tenant (i, norm_key agent_key) (ss_primary s)\<rparr>)"

definition forget_agent_id :: "nat \<Rightarrow> string \<Rightarrow> string \<Rightarrow> scope_state \<Rightarrow> scope_state" where
  "forget_agent_id now tenant agent_key s =
    (let ck = cache_key tenant (norm_key agent_key) in
     case get_cached now (ss_agents s) ck of
       (hit, m) \<Rightarrow>
         s\<lparr>ss_agents := om_del ck m,
           ss_keys := (case truthy hit of None \<Rightarrow> ss_keys s | Some i \<Rightarrow> om_del (cache_key tenant i) (ss_keys s))\<rparr>)"

subsection \<open>Resolving\<close>

text \<open>\<open>requireTenantIdValue\<close>.\<close>

definition require_tenant_id :: "string option \<Rightarrow> string option" where
  "require_tenant_id t = (case t of None \<Rightarrow> None | Some x \<Rightarrow> if trim x = [] then None else Some (trim x))"

definition resolve_tenant_id :: "nat \<Rightarrow> nat \<Rightarrow> string \<Rightarrow> scope_state \<Rightarrow> string option \<times> scope_state" where
  "resolve_tenant_id now ttl tenant_key s =
    (let key = norm_key tenant_key in
     case get_cached now (ss_tenants s) key of
       (hit, m) \<Rightarrow>
         (case truthy hit of
            Some i \<Rightarrow> (Some i, s\<lparr>ss_tenants := m\<rparr>)
          | None \<Rightarrow>
              (case tenant_by_key (ss_db s) key of
                 None \<Rightarrow> (None, s\<lparr>ss_tenants := m\<rparr>)
               | Some i \<Rightarrow> (Some i, s\<lparr>ss_tenants := set_cached now ttl key i m\<rparr>))))"

definition resolve_agent_id :: "nat \<Rightarrow> nat \<Rightarrow> string \<Rightarrow> string \<Rightarrow> scope_state \<Rightarrow> string option \<times> scope_state" where
  "resolve_agent_id now ttl tenant agent_key s =
    (let key = norm_key agent_key in
     case get_cached now (ss_agents s) (cache_key tenant key) of
       (hit, m) \<Rightarrow>
         (case truthy hit of
            Some i \<Rightarrow> (Some i, s\<lparr>ss_agents := m\<rparr>)
          | None \<Rightarrow>
              (case agent_by_key (ss_db s) tenant key of
                 None \<Rightarrow> (None, s\<lparr>ss_agents := m\<rparr>)
               | Some i \<Rightarrow> (Some i, note_agent now ttl tenant key i (s\<lparr>ss_agents := m\<rparr>)))))"

definition resolve_primary_agent :: "nat \<Rightarrow> nat \<Rightarrow> string \<Rightarrow> scope_state \<Rightarrow> (string \<times> string) option \<times> scope_state" where
  "resolve_primary_agent now ttl tenant s =
    (case get_cached now (ss_primary s) tenant of
       (Some p, m) \<Rightarrow> (Some p, s\<lparr>ss_primary := m\<rparr>)
     | (None, m) \<Rightarrow>
         (case primary_of (ss_db s) tenant of
            None \<Rightarrow> (None, s\<lparr>ss_primary := m\<rparr>)
          | Some (i, key) \<Rightarrow>
              (Some (i, key),
               note_agent now ttl tenant key i (s\<lparr>ss_primary := set_cached now ttl tenant (i, key) m\<rparr>))))"

definition resolve_agent_key :: "nat \<Rightarrow> nat \<Rightarrow> string \<Rightarrow> string \<Rightarrow> scope_state \<Rightarrow> string option \<times> scope_state" where
  "resolve_agent_key now ttl tenant agent_id s =
    (let i = trim agent_id in
     if i = [] then (None, s)
     else case get_cached now (ss_keys s) (cache_key tenant i) of
       (hit, m) \<Rightarrow>
         (case truthy hit of
            Some key \<Rightarrow> (Some key, s\<lparr>ss_keys := m\<rparr>)
          | None \<Rightarrow>
              (case agent_key_by_id (ss_db s) tenant i of
                 None \<Rightarrow> (None, s\<lparr>ss_keys := m\<rparr>)
               | Some key \<Rightarrow> (Some key, note_agent now ttl tenant key i (s\<lparr>ss_keys := m\<rparr>)))))"

definition resolve_workspace_id :: "nat \<Rightarrow> nat \<Rightarrow> string \<Rightarrow> string \<Rightarrow> scope_state \<Rightarrow> string option \<times> scope_state" where
  "resolve_workspace_id now ttl tenant workspace_key s =
    (let key = norm_key workspace_key; ck = cache_key tenant key in
     case get_cached now (ss_workspaces s) ck of
       (hit, m) \<Rightarrow>
         (case truthy hit of
            Some i \<Rightarrow> (Some i, s\<lparr>ss_workspaces := m\<rparr>)
          | None \<Rightarrow>
              (case workspace_by_key (ss_db s) tenant key of
                 None \<Rightarrow> (None, s\<lparr>ss_workspaces := m\<rparr>)
               | Some i \<Rightarrow> (Some i, s\<lparr>ss_workspaces := set_cached now ttl ck i m\<rparr>))))"

subsection \<open>Ensuring\<close>

text \<open>
  Every \<open>ensure\<close> first resolves as above; a missing row is inserted with \<open>ON CONFLICT DO NOTHING\<close>
  and read again when the insert returned nothing. \<open>fresh\<close> is the drawn UUID.
\<close>

definition ensure_tenant_id :: "nat \<Rightarrow> nat \<Rightarrow> string \<Rightarrow> string \<Rightarrow> scope_state \<Rightarrow> (scope_error + string) \<times> scope_state" where
  "ensure_tenant_id now ttl fresh tenant_key s =
    (case resolve_tenant_id now ttl tenant_key s of
       (Some i, s1) \<Rightarrow> (Inr i, s1)
     | (None, s1) \<Rightarrow>
         (let key = norm_key tenant_key; db = ss_db s1 in
          if matches (\<lambda>r. te_key r = key) (id_tenants db)
          then (Inl (EnsureFailed ''tenant''), s1)
          else if matches (\<lambda>r. te_id r = fresh) (id_tenants db) then (Inl DuplicateRow, s1)
          else (Inr fresh, s1\<lparr>ss_db := db\<lparr>id_tenants := id_tenants db @ [\<lparr>te_id = fresh, te_key = key\<rparr>]\<rparr>,
            ss_tenants := set_cached now ttl key fresh (ss_tenants s1)\<rparr>)))"

definition maybe_promote_default :: "nat \<Rightarrow> nat \<Rightarrow> string \<Rightarrow> string \<Rightarrow> string \<Rightarrow> scope_state \<Rightarrow> (scope_error + unit) \<times> scope_state" where
  "maybe_promote_default now ttl tenant key i s =
    (if key \<noteq> default_key then (Inr (), s)
     else case resolve_primary_agent now ttl tenant s of
       (Some _, s1) \<Rightarrow> (Inr (), s1)
     | (None, s1) \<Rightarrow>
         (let db = ss_db s1 in
          if matches (\<lambda>r. ar_tenant r = tenant \<and> ar_primary r \<and> ar_id r \<noteq> i) (id_agents db)
          then (Inl DuplicateRow, s1)
          else (Inr (), remember_primary_agent now ttl tenant key i
            (s1\<lparr>ss_db := db\<lparr>id_agents := update_where (\<lambda>r. (ar_tenant r, ar_id r) = (tenant, i))
               (\<lambda>r. r\<lparr>ar_primary := True\<rparr>) (id_agents db)\<rparr>\<rparr>))))"

definition settle_agent :: "nat \<Rightarrow> nat \<Rightarrow> string \<Rightarrow> string \<Rightarrow> string \<Rightarrow> scope_state \<Rightarrow> (scope_error + string) \<times> scope_state" where
  "settle_agent now ttl tenant key i s =
    (case maybe_promote_default now ttl tenant key i s of
       (Inl e, s1) \<Rightarrow> (Inl e, s1)
     | (Inr _, s1) \<Rightarrow> (Inr i, note_agent now ttl tenant key i s1))"

definition ensure_agent_id ::
  "nat \<Rightarrow> nat \<Rightarrow> string \<Rightarrow> string \<Rightarrow> string \<Rightarrow> scope_state \<Rightarrow> (scope_error + string) \<times> scope_state" where
  "ensure_agent_id now ttl fresh tenant agent_key s =
    (let key = norm_key agent_key in
     case get_cached now (ss_agents s) (cache_key tenant key) of
       (hit, m) \<Rightarrow>
         (let s1 = s\<lparr>ss_agents := m\<rparr>; db = ss_db s1 in
          case truthy hit of
            Some i \<Rightarrow> (Inr i, s1)
          | None \<Rightarrow>
              (case agent_by_key db tenant key of
                 Some i \<Rightarrow> settle_agent now ttl tenant key i s1
               | None \<Rightarrow>
                   if matches (\<lambda>r. (ar_tenant r, ar_key r) = (tenant, key)) (id_agents db)
                   then (Inl (EnsureFailed ''agent''), s1)
                   else (case insert_agent \<lparr>ar_tenant = tenant, ar_id = fresh, ar_key = key, ar_primary = False\<rparr> db of
                           Inl e \<Rightarrow> (Inl e, s1)
                         | Inr db' \<Rightarrow> settle_agent now ttl tenant key fresh (s1\<lparr>ss_db := db'\<rparr>)))))"

definition ensure_workspace_id ::
  "nat \<Rightarrow> nat \<Rightarrow> string \<Rightarrow> string \<Rightarrow> string \<Rightarrow> scope_state \<Rightarrow> (scope_error + string) \<times> scope_state" where
  "ensure_workspace_id now ttl fresh tenant workspace_key s =
    (case resolve_workspace_id now ttl tenant workspace_key s of
       (Some i, s1) \<Rightarrow> (Inr i, s1)
     | (None, s1) \<Rightarrow>
         (let key = norm_key workspace_key; db = ss_db s1 in
          if matches (\<lambda>r. (ws_tenant r, ws_key r) = (tenant, key)) (id_workspaces db)
          then (Inl (EnsureFailed ''workspace''), s1)
          else (case insert_workspace \<lparr>ws_tenant = tenant, ws_id = fresh, ws_key = key\<rparr> db of
                  Inl e \<Rightarrow> (Inl e, s1)
                | Inr db' \<Rightarrow> (Inr fresh, s1\<lparr>ss_db := db',
                    ss_workspaces := set_cached now ttl (cache_key tenant key) fresh (ss_workspaces s1)\<rparr>))))"

subsection \<open>Scopes\<close>

record scope_keys =
  sk_tenant :: "string option"
  sk_agent :: "string option"
  sk_workspace :: "string option"

record scope_ids =
  si_tenant :: string
  si_agent :: string
  si_workspace :: string

definition normalize_scope_keys :: "scope_keys \<Rightarrow> string \<times> string \<times> string" where
  "normalize_scope_keys k =
    (or_default (sk_tenant k) default_key, or_default (sk_agent k) default_key, or_default (sk_workspace k) default_key)"

definition resolve_scope_ids ::
  "nat \<Rightarrow> nat \<Rightarrow> string \<Rightarrow> string \<Rightarrow> string \<Rightarrow> scope_keys \<Rightarrow> scope_state \<Rightarrow> (scope_error + scope_ids) \<times> scope_state" where
  "resolve_scope_ids now ttl fresh_t fresh_a fresh_w keys s =
    (case normalize_scope_keys keys of (tk, ak, wk) \<Rightarrow>
      (case ensure_tenant_id now ttl fresh_t tk s of
         (Inl e, s1) \<Rightarrow> (Inl e, s1)
       | (Inr tn, s1) \<Rightarrow>
           (case ensure_agent_id now ttl fresh_a tn ak s1 of
              (Inl e, s2) \<Rightarrow> (Inl e, s2)
            | (Inr a, s2) \<Rightarrow>
                (case ensure_workspace_id now ttl fresh_w tn wk s2 of
                   (Inl e, s3) \<Rightarrow> (Inl e, s3)
                 | (Inr w, s3) \<Rightarrow>
                     (case ensure_membership tn a w (ss_db s3) of
                        Inl e \<Rightarrow> (Inl e, s3)
                      | Inr db \<Rightarrow> (Inr \<lparr>si_tenant = tn, si_agent = a, si_workspace = w\<rparr>, s3\<lparr>ss_db := db\<rparr>))))))"

definition resolve_existing_for_tenant ::
  "nat \<Rightarrow> nat \<Rightarrow> string \<Rightarrow> string \<Rightarrow> string \<Rightarrow> scope_state \<Rightarrow> scope_ids option \<times> scope_state" where
  "resolve_existing_for_tenant now ttl tenant agent_key workspace_key s =
    (case resolve_agent_id now ttl tenant agent_key s of
       (None, s1) \<Rightarrow> (None, s1)
     | (Some a, s1) \<Rightarrow>
         (case resolve_workspace_id now ttl tenant workspace_key s1 of
            (None, s2) \<Rightarrow> (None, s2)
          | (Some w, s2) \<Rightarrow>
              (if has_membership (ss_db s2) tenant a w
               then Some \<lparr>si_tenant = tenant, si_agent = a, si_workspace = w\<rparr> else None, s2)))"

definition resolve_existing_scope_ids ::
  "nat \<Rightarrow> nat \<Rightarrow> scope_keys \<Rightarrow> scope_state \<Rightarrow> scope_ids option \<times> scope_state" where
  "resolve_existing_scope_ids now ttl keys s =
    (case normalize_scope_keys keys of (tk, ak, wk) \<Rightarrow>
      (case resolve_tenant_id now ttl tk s of
         (None, s1) \<Rightarrow> (None, s1)
       | (Some tn, s1) \<Rightarrow> resolve_existing_for_tenant now ttl tn ak wk s1))"

definition require_primary_agent_id :: "nat \<Rightarrow> nat \<Rightarrow> string \<Rightarrow> scope_state \<Rightarrow> (scope_error + string) \<times> scope_state" where
  "require_primary_agent_id now ttl tenant s =
    (case resolve_primary_agent now ttl tenant s of
       (None, s1) \<Rightarrow> (Inl (ScopeNotFound ''primary agent not found''), s1)
     | (Some (i, _), s1) \<Rightarrow>
         (if i = [] then Inl (ScopeNotFound ''primary agent not found'') else Inr i, s1))"

definition require_primary_agent_key :: "nat \<Rightarrow> nat \<Rightarrow> string \<Rightarrow> scope_state \<Rightarrow> (scope_error + string) \<times> scope_state" where
  "require_primary_agent_key now ttl tenant s =
    (case resolve_primary_agent now ttl tenant s of
       (None, s1) \<Rightarrow> (Inl (ScopeNotFound ''primary agent not found''), s1)
     | (Some (_, k), s1) \<Rightarrow>
         (if k = [] then Inl (ScopeNotFound ''primary agent not found'') else Inr k, s1))"

definition resolve_requested_agent_key ::
  "nat \<Rightarrow> nat \<Rightarrow> string \<Rightarrow> string option \<Rightarrow> scope_state \<Rightarrow> (scope_error + string) \<times> scope_state" where
  "resolve_requested_agent_key now ttl tenant agent_key s =
    (case agent_key of
       None \<Rightarrow> require_primary_agent_key now ttl tenant s
     | Some k \<Rightarrow> (if trim k = [] then Inl BadAgentKey else Inr (trim k), s))"

subsection \<open>Administration of agents\<close>

text \<open>
  \<open>create\<close>, \<open>delete\<close> and \<open>rename\<close> of the admin service, on the tables above. Configuration and
  identity revisions, artifacts and OAuth requests, which the same transactions write, are kept
  elsewhere; \<open>busy\<close> says whether the agent has active turns.
\<close>

definition list_agents :: "identity_db \<Rightarrow> string \<Rightarrow> agent_row list" where
  "list_agents db tenant =
    order_by (\<lambda>r. if ar_primary r then 0 else 1 :: nat) ar_key (filter (\<lambda>r. ar_tenant r = tenant) (id_agents db))"

definition admin_create ::
  "nat \<Rightarrow> nat \<Rightarrow> string \<Rightarrow> string \<Rightarrow> string \<Rightarrow> string \<Rightarrow> bool \<Rightarrow> scope_state \<Rightarrow> (scope_error + string) \<times> scope_state" where
  "admin_create now ttl fresh_w fresh_a tenant key primary s =
    (case ensure_workspace_id now ttl fresh_w tenant default_key s of
       (Inl e, s1) \<Rightarrow> (Inl e, s1)
     | (Inr w, s1) \<Rightarrow>
         (let db = ss_db s1;
              db1 = (if primary then db\<lparr>id_agents := update_where (\<lambda>r. ar_tenant r = tenant \<and> ar_primary r)
                       (\<lambda>r. r\<lparr>ar_primary := False\<rparr>) (id_agents db)\<rparr> else db)
          in case insert_agent \<lparr>ar_tenant = tenant, ar_id = fresh_a, ar_key = key, ar_primary = primary\<rparr> db1 of
               Inl e \<Rightarrow> (Inl (if e = DuplicateRow then AgentAlreadyExists else e), s1)
             | Inr db2 \<Rightarrow>
                 (case ensure_membership tenant fresh_a w db2 of
                    Inl e \<Rightarrow> (Inl e, s1)
                  | Inr db3 \<Rightarrow>
                      (let s2 = remember_agent_id now ttl tenant key fresh_a (s1\<lparr>ss_db := db3\<rparr>)
                       in (Inr fresh_a, if primary then remember_primary_agent now ttl tenant key fresh_a s2 else s2)))))"

definition admin_delete ::
  "nat \<Rightarrow> string \<Rightarrow> string \<Rightarrow> bool \<Rightarrow> scope_state \<Rightarrow> (scope_error + string option) \<times> scope_state" where
  "admin_delete now tenant key busy s =
    (let db = ss_db s in
     case agent_row_of db tenant key of
       None \<Rightarrow> (Inr None, s)
     | Some r \<Rightarrow>
         if ar_primary r then (Inl (AgentDeleteConflict ''primary agent cannot be deleted''), s)
         else if busy then (Inl (AgentDeleteConflict ''agent has active execution turns''), s)
         else (Inr (Some (ar_id r)), forget_agent_id now tenant key
           (s\<lparr>ss_db := db\<lparr>id_agents := filter (\<lambda>x. (ar_tenant x, ar_id x) \<noteq> (tenant, ar_id r)) (id_agents db),
              id_members := filter (\<lambda>(t', a, w). (t', a) \<noteq> (tenant, ar_id r)) (id_members db)\<rparr>\<rparr>)))"

definition admin_rename ::
  "nat \<Rightarrow> nat \<Rightarrow> string \<Rightarrow> string \<Rightarrow> string \<Rightarrow> scope_state \<Rightarrow> (scope_error + string option) \<times> scope_state" where
  "admin_rename now ttl tenant key next_key s =
    (let db = ss_db s in
     case agent_row_of db tenant key of
       None \<Rightarrow> (Inr None, s)
     | Some r \<Rightarrow>
         if ar_key r = next_key then (Inr (Some (ar_id r)), s)
         else if matches (\<lambda>x. (ar_tenant x, ar_key x) = (tenant, next_key) \<and> ar_id x \<noteq> ar_id r) (id_agents db)
         then (Inl AgentRenameConflict, s)
         else (let s1 = s\<lparr>ss_db := db\<lparr>id_agents := update_where (\<lambda>x. (ar_tenant x, ar_id x) = (tenant, ar_id r))
                      (\<lambda>x. x\<lparr>ar_key := next_key\<rparr>) (id_agents db)\<rparr>\<rparr>;
                   s2 = remember_agent_id now ttl tenant next_key (ar_id r) (forget_agent_id now tenant (ar_key r) s1)
               in (Inr (Some (ar_id r)),
                   if ar_primary r then remember_primary_agent now ttl tenant next_key (ar_id r) s2 else s2)))"

end
