(* ===== verification/Identity_Coherence.thy ===== *)
theory Identity_Coherence
  imports Identity_Scope
begin

text \<open>
  What the identity scope guarantees: the tables stay well-formed, and the caches answer what the
  tables say whatever sequence of operations has run. \<open>scope_inv\<close> is the invariant: every cached
  entry that has not expired agrees with its row, and an agent cached under its id is cached under
  its key for as long (which is what \<open>forgetAgentId\<close> relies on). Each operation keeps it.
\<close>

subsection \<open>Keys and rows\<close>

definition split_key :: "string \<Rightarrow> string \<times> string" where
  "split_key ck = (takeWhile (\<lambda>c. c \<noteq> CHR '':'') ck, tl (dropWhile (\<lambda>c. c \<noteq> CHR '':'') ck))"

definition tenant_ok :: "string \<Rightarrow> bool" where
  "tenant_ok t \<longleftrightarrow> t \<noteq> [] \<and> CHR '':'' \<notin> set t"

definition key_ok :: "string \<Rightarrow> bool" where
  "key_ok k \<longleftrightarrow> k \<noteq> [] \<and> trim k = k"

lemma split_cache_key [simp]: "tenant_ok t \<Longrightarrow> split_key (cache_key t k) = (t, k)"
  by (auto simp: split_key_def cache_key_def tenant_ok_def takeWhile_append dropWhile_append)

lemma cache_key_split: "split_key ck = (t, k) \<Longrightarrow> k \<noteq> [] \<Longrightarrow> ck = cache_key t k"
proof -
  assume s: "split_key ck = (t, k)" "k \<noteq> []"
  then obtain c cs where d: "dropWhile (\<lambda>c. c \<noteq> CHR '':'') ck = c # cs"
    by (cases "dropWhile (\<lambda>c. c \<noteq> CHR '':'') ck") (auto simp: split_key_def)
  from hd_dropWhile_not [OF d] have "c = CHR '':''" by simp
  with d s takeWhile_dropWhile_id [of "\<lambda>c. c \<noteq> CHR '':''" ck] show ?thesis
    by (auto simp: split_key_def cache_key_def)
qed

lemma cache_key_eq [simp]: "tenant_ok t \<Longrightarrow> cache_key t k = cache_key t k' \<longleftrightarrow> k = k'"
  by (metis prod.inject split_cache_key)

lemma default_key_ok [simp]: "key_ok default_key"
  by code_simp

lemma norm_key_ok [simp]: "key_ok (norm_key k)"
  using default_key_ok by (auto simp: norm_key_def key_ok_def)

lemma norm_key_id: "key_ok k \<Longrightarrow> norm_key k = k"
  by (simp add: norm_key_def key_ok_def)

lemma or_default_ok: "key_ok (or_default k default_key)"
  using default_key_ok by (auto simp: or_default_def key_ok_def split: option.splits)

definition agent_in :: "identity_db \<Rightarrow> string \<Rightarrow> string \<Rightarrow> string \<Rightarrow> bool \<Rightarrow> bool" where
  "agent_in db t i k p \<longleftrightarrow> \<lparr>ar_tenant = t, ar_id = i, ar_key = k, ar_primary = p\<rparr> \<in> set (id_agents db)"

definition agents_ok :: "agent_row list \<Rightarrow> bool" where
  "agents_ok rows \<longleftrightarrow>
    distinct (map (\<lambda>r. (ar_tenant r, ar_key r)) rows) \<and>
    distinct (map (\<lambda>r. (ar_tenant r, ar_id r)) rows) \<and>
    (\<forall>r \<in> set rows. \<forall>r' \<in> set rows. ar_primary r \<and> ar_primary r' \<and> ar_tenant r = ar_tenant r' \<longrightarrow> r = r') \<and>
    (\<forall>r \<in> set rows. tenant_ok (ar_tenant r) \<and> key_ok (ar_key r) \<and> key_ok (ar_id r))"

definition workspaces_ok :: "workspace_row list \<Rightarrow> bool" where
  "workspaces_ok rows \<longleftrightarrow>
    distinct (map (\<lambda>r. (ws_tenant r, ws_key r)) rows) \<and>
    distinct (map (\<lambda>r. (ws_tenant r, ws_id r)) rows) \<and>
    (\<forall>r \<in> set rows. ws_id r \<noteq> [])"

definition tenants_ok :: "tenant_row list \<Rightarrow> bool" where
  "tenants_ok rows \<longleftrightarrow> distinct (map te_key rows) \<and> (\<forall>r \<in> set rows. tenant_ok (te_id r))"

text \<open>No membership of a missing agent or workspace, no agent or workspace of a missing tenant.\<close>

definition references_ok :: "identity_db \<Rightarrow> bool" where
  "references_ok db \<longleftrightarrow>
    (\<forall>(t, a, w) \<in> set (id_members db).
       (t, a) \<in> (\<lambda>r. (ar_tenant r, ar_id r)) ` set (id_agents db) \<and>
       (t, w) \<in> (\<lambda>r. (ws_tenant r, ws_id r)) ` set (id_workspaces db)) \<and>
    ar_tenant ` set (id_agents db) \<subseteq> te_id ` set (id_tenants db) \<and>
    ws_tenant ` set (id_workspaces db) \<subseteq> te_id ` set (id_tenants db)"

definition identity_ok :: "identity_db \<Rightarrow> bool" where
  "identity_ok db \<longleftrightarrow> agents_ok (id_agents db) \<and> workspaces_ok (id_workspaces db) \<and>
    tenants_ok (id_tenants db) \<and> references_ok db"

lemma agent_in_ok:
  assumes "identity_ok db" "agent_in db t i k p"
  shows "tenant_ok t" "key_ok k" "key_ok i" "i \<noteq> []" "k \<noteq> []"
  using assms by (auto simp: identity_ok_def agents_ok_def agent_in_def key_ok_def)

lemma row_agent_in: "r \<in> set (id_agents db) \<Longrightarrow> agent_in db (ar_tenant r) (ar_id r) (ar_key r) (ar_primary r)"
  by (cases r) (simp add: agent_in_def)

lemma agent_in_row: "agent_in db t i k p \<Longrightarrow> \<lparr>ar_tenant = t, ar_id = i, ar_key = k, ar_primary = p\<rparr> \<in> set (id_agents db)"
  by (simp add: agent_in_def)

lemma agent_in_unique:
  assumes "identity_ok db" "agent_in db t i k p"
  shows "agent_in db t i' k p' \<longleftrightarrow> i' = i \<and> p' = p" "agent_in db t i k' p' \<longleftrightarrow> k' = k \<and> p' = p"
proof -
  have d: "distinct (map (\<lambda>r. (ar_tenant r, ar_key r)) (id_agents db))"
    "distinct (map (\<lambda>r. (ar_tenant r, ar_id r)) (id_agents db))"
    using assms(1) by (auto simp: identity_ok_def agents_ok_def)
  show "agent_in db t i' k p' \<longleftrightarrow> i' = i \<and> p' = p"
    using distinct_keys_eq [OF d(1)] assms(2) by (fastforce simp: agent_in_def)
  show "agent_in db t i k' p' \<longleftrightarrow> k' = k \<and> p' = p"
    using distinct_keys_eq [OF d(2)] assms(2) by (fastforce simp: agent_in_def)
qed

lemma primary_unique:
  assumes "identity_ok db" "agent_in db t i k True" "agent_in db t i' k' True"
  shows "i' = i \<and> k' = k"
  using assms by (fastforce simp: identity_ok_def agents_ok_def agent_in_def)

lemma agent_row_iff:
  assumes "identity_ok db"
  shows "agent_row_of db t k = Some r \<longleftrightarrow> ar_tenant r = t \<and> ar_key r = k \<and> r \<in> set (id_agents db)"
proof
  assume "agent_row_of db t k = Some r"
  from find_in [OF this [unfolded agent_row_of_def]]
  show "ar_tenant r = t \<and> ar_key r = k \<and> r \<in> set (id_agents db)" by simp
next
  assume r: "ar_tenant r = t \<and> ar_key r = k \<and> r \<in> set (id_agents db)"
  have "distinct (map (\<lambda>r. (ar_tenant r, ar_key r)) (id_agents db))"
    using assms by (auto simp: identity_ok_def agents_ok_def)
  from distinct_keys_eq [OF this] r show "agent_row_of db t k = Some r"
    unfolding agent_row_of_def by (intro find_only) simp_all
qed

lemma agent_by_key_iff:
  assumes "identity_ok db"
  shows "agent_by_key db t k = Some i \<longleftrightarrow> (\<exists>p. agent_in db t i k p)"
proof
  assume "agent_by_key db t k = Some i"
  then obtain r where "agent_row_of db t k = Some r" "ar_id r = i"
    by (auto simp: agent_by_key_def truthy_def split: option.splits if_splits)
  with agent_row_iff [OF assms] row_agent_in [of r db] show "\<exists>p. agent_in db t i k p" by auto
next
  assume "\<exists>p. agent_in db t i k p"
  then obtain p where a: "agent_in db t i k p" ..
  then have "agent_row_of db t k = Some \<lparr>ar_tenant = t, ar_id = i, ar_key = k, ar_primary = p\<rparr>"
    by (simp add: agent_row_iff [OF assms] agent_in_def)
  with agent_in_ok [OF assms a] show "agent_by_key db t k = Some i"
    by (simp add: agent_by_key_def truthy_def)
qed

lemma agent_key_iff:
  assumes "identity_ok db"
  shows "agent_key_by_id db t i = Some k \<longleftrightarrow> (\<exists>p. agent_in db t i k p)"
proof
  assume "agent_key_by_id db t i = Some k"
  then obtain r where "find (\<lambda>r. (ar_tenant r, ar_id r) = (t, i)) (id_agents db) = Some r" "ar_key r = k"
    by (auto simp: agent_key_by_id_def truthy_def split: option.splits if_splits)
  with find_in [OF this(1)] row_agent_in [of r db] show "\<exists>p. agent_in db t i k p" by auto
next
  assume "\<exists>p. agent_in db t i k p"
  then obtain p where a: "agent_in db t i k p" ..
  have "find (\<lambda>r. (ar_tenant r, ar_id r) = (t, i)) (id_agents db) =
      Some \<lparr>ar_tenant = t, ar_id = i, ar_key = k, ar_primary = p\<rparr>"
  proof (rule find_only)
    fix b
    assume b: "b \<in> set (id_agents db)" "(ar_tenant b, ar_id b) = (t, i)"
    then have "agent_in db t i (ar_key b) (ar_primary b)" using row_agent_in by fastforce
    with agent_in_unique(2) [OF assms a] b(2) show "b = \<lparr>ar_tenant = t, ar_id = i, ar_key = k, ar_primary = p\<rparr>"
      by (cases b) simp
  qed (use a in \<open>simp_all add: agent_in_row\<close>)
  with agent_in_ok [OF assms a] show "agent_key_by_id db t i = Some k"
    by (simp add: agent_key_by_id_def truthy_def)
qed

lemma primary_iff:
  assumes "identity_ok db"
  shows "primary_of db t = Some (i, k) \<longleftrightarrow> agent_in db t i k True"
proof
  assume "primary_of db t = Some (i, k)"
  then obtain r where "find (\<lambda>r. ar_tenant r = t \<and> ar_primary r) (id_agents db) = Some r" "ar_id r = i" "ar_key r = k"
    by (auto simp: primary_of_def split: option.splits if_splits)
  with find_in [OF this(1)] row_agent_in [of r db] show "agent_in db t i k True" by auto
next
  assume a: "agent_in db t i k True"
  have "find (\<lambda>r. ar_tenant r = t \<and> ar_primary r) (id_agents db) =
      Some \<lparr>ar_tenant = t, ar_id = i, ar_key = k, ar_primary = True\<rparr>"
  proof (rule find_only)
    fix b
    assume b: "b \<in> set (id_agents db)" "ar_tenant b = t \<and> ar_primary b"
    then have "agent_in db t (ar_id b) (ar_key b) True" using row_agent_in by fastforce
    with primary_unique [OF assms a] b(2) show "b = \<lparr>ar_tenant = t, ar_id = i, ar_key = k, ar_primary = True\<rparr>"
      by (cases b) simp
  qed (use a in \<open>simp_all add: agent_in_row\<close>)
  with agent_in_ok [OF assms a] show "primary_of db t = Some (i, k)"
    by (simp add: primary_of_def)
qed

subsection \<open>Coherent caches\<close>

definition coherent :: "nat \<Rightarrow> ('k, 'a cached) omap \<Rightarrow> ('k \<Rightarrow> 'a option) \<Rightarrow> bool" where
  "coherent now m look \<longleftrightarrow> (\<forall>k c. om_get m k = Some c \<longrightarrow> now < ca_expires c \<longrightarrow> look k = Some (ca_value c))"

lemma coherentD: "coherent now m look \<Longrightarrow> om_get m k = Some c \<Longrightarrow> now < ca_expires c \<Longrightarrow> look k = Some (ca_value c)"
  by (auto simp: coherent_def)

lemma coherent_later: "coherent now m look \<Longrightarrow> now \<le> now' \<Longrightarrow> coherent now' m look"
  by (auto simp: coherent_def)

lemma coherent_set: "coherent now m look \<Longrightarrow> look k = Some v \<Longrightarrow> coherent now (set_cached now ttl k v m) look"
  by (auto simp: coherent_def set_cached_def)

lemma coherent_del: "coherent now m look \<Longrightarrow> coherent now (om_del k m) look"
  by (auto simp: coherent_def)

lemma coherent_grow:
  "coherent now m look \<Longrightarrow> (\<And>k v. look k = Some v \<Longrightarrow> look' k = Some v) \<Longrightarrow> coherent now m look'"
  by (auto simp: coherent_def)

text \<open>A change of the table at one key, which is written or dropped.\<close>

lemma coherent_set_change:
  "coherent now m look \<Longrightarrow> (\<And>j u. j \<noteq> k \<Longrightarrow> look j = Some u \<Longrightarrow> look' j = Some u) \<Longrightarrow> look' k = Some v \<Longrightarrow>
    coherent now (set_cached now ttl k v m) look'"
  by (auto simp: coherent_def set_cached_def)

lemma coherent_del_change:
  "coherent now m look \<Longrightarrow> (\<And>j u. j \<noteq> k \<Longrightarrow> look j = Some u \<Longrightarrow> look' j = Some u) \<Longrightarrow>
    coherent now (om_del k m) look'"
  by (auto simp: coherent_def)

lemma get_cached_coherent:
  assumes "get_cached now m k = (hit, m')" "coherent now m look"
  shows "coherent now m' look" "hit = Some v \<Longrightarrow> look k = Some v"
  using assms by (auto simp: get_cached_def coherent_def split: option.splits if_splits)

lemma get_cached_keeps:
  assumes "get_cached now m k = (hit, m')" "om_get m j = Some c" "now < ca_expires c"
  shows "om_get m' j = Some c"
  using assms by (auto simp: get_cached_def split: option.splits if_splits)

lemma get_cached_shrinks:
  assumes "get_cached now m k = (hit, m')" "om_get m' j = Some c"
  shows "om_get m j = Some c"
  using assms by (auto simp: get_cached_def split: option.splits if_splits)

definition look_agent :: "identity_db \<Rightarrow> string \<Rightarrow> string option" where
  "look_agent db ck = (case split_key ck of (t, k) \<Rightarrow> agent_by_key db t k)"

definition look_key :: "identity_db \<Rightarrow> string \<Rightarrow> string option" where
  "look_key db ck = (case split_key ck of (t, i) \<Rightarrow> agent_key_by_id db t i)"

definition look_workspace :: "identity_db \<Rightarrow> string \<Rightarrow> string option" where
  "look_workspace db ck = (case split_key ck of (t, k) \<Rightarrow> workspace_by_key db t k)"

text \<open>Whoever is cached under its id is cached under its key, and for at least as long.\<close>

definition paired :: "nat \<Rightarrow> (string, string cached) omap \<Rightarrow> (string, string cached) omap \<Rightarrow> bool" where
  "paired now agents keys \<longleftrightarrow>
    (\<forall>ck c. om_get keys ck = Some c \<longrightarrow> now < ca_expires c \<longrightarrow>
      (\<exists>c'. om_get agents (cache_key (fst (split_key ck)) (ca_value c)) = Some c' \<and>
        ca_value c' = snd (split_key ck) \<and> ca_expires c \<le> ca_expires c'))"

lemma pairedD:
  assumes "paired now agents keys" "om_get keys ck = Some c" "now < ca_expires c"
  obtains c' where "om_get agents (cache_key (fst (split_key ck)) (ca_value c)) = Some c'"
    "ca_value c' = snd (split_key ck)" "ca_expires c \<le> ca_expires c'"
  using assms by (auto simp: paired_def)

definition scope_inv :: "nat \<Rightarrow> scope_state \<Rightarrow> bool" where
  "scope_inv now s \<longleftrightarrow> identity_ok (ss_db s) \<and>
    coherent now (ss_tenants s) (tenant_by_key (ss_db s)) \<and>
    coherent now (ss_agents s) (look_agent (ss_db s)) \<and>
    coherent now (ss_primary s) (primary_of (ss_db s)) \<and>
    coherent now (ss_keys s) (look_key (ss_db s)) \<and>
    coherent now (ss_workspaces s) (look_workspace (ss_db s)) \<and>
    paired now (ss_agents s) (ss_keys s)"

lemma scope_inv_later: "scope_inv now s \<Longrightarrow> now \<le> now' \<Longrightarrow> scope_inv now' s"
  by (auto simp: scope_inv_def paired_def intro: coherent_later)

lemma truthy_coherent:
  assumes "get_cached now m k = (hit, m')" "coherent now m look" "truthy hit = Some v"
  shows "look k = Some v"
  using get_cached_coherent(2) [OF assms(1,2)] assms(3) by (auto simp: truthy_def split: option.splits if_splits)

lemma paired_get_agents:
  assumes "paired now m keys" "get_cached now m k = (hit, m')"
  shows "paired now m' keys"
  unfolding paired_def
proof (intro allI impI)
  fix ck c assume c: "om_get keys ck = Some c" "now < ca_expires c"
  from pairedD [OF assms(1) c] obtain c' where
    "om_get m (cache_key (fst (split_key ck)) (ca_value c)) = Some c'" "ca_value c' = snd (split_key ck)"
    "ca_expires c \<le> ca_expires c'" .
  with get_cached_keeps [OF assms(2) this(1)] c(2)
  show "\<exists>c'. om_get m' (cache_key (fst (split_key ck)) (ca_value c)) = Some c' \<and>
      ca_value c' = snd (split_key ck) \<and> ca_expires c \<le> ca_expires c'" by auto
qed

lemma paired_get_keys: "paired now m keys \<Longrightarrow> get_cached now keys k = (hit, keys') \<Longrightarrow> paired now m keys'"
  by (auto simp: paired_def dest: get_cached_shrinks)

lemma note_agent_inv:
  assumes inv: "scope_inv now s" and row: "agent_in (ss_db s) t i k p"
  shows "scope_inv now (note_agent now ttl t k i s)"
proof -
  have ok: "identity_ok (ss_db s)" using inv by (simp add: scope_inv_def)
  note row_ok = agent_in_ok [OF ok row]
  have look: "look_agent (ss_db s) (cache_key t k) = Some i" "look_key (ss_db s) (cache_key t i) = Some k"
    using row row_ok agent_by_key_iff [OF ok] agent_key_iff [OF ok] by (auto simp: look_agent_def look_key_def)
  have "paired now (set_cached now ttl (cache_key t k) i (ss_agents s)) (set_cached now ttl (cache_key t i) k (ss_keys s))"
    unfolding paired_def
  proof (intro allI impI)
    fix ck c
    assume c: "om_get (set_cached now ttl (cache_key t i) k (ss_keys s)) ck = Some c" "now < ca_expires c"
    let ?agents = "set_cached now ttl (cache_key t k) i (ss_agents s)"
    show "\<exists>c'. om_get ?agents (cache_key (fst (split_key ck)) (ca_value c)) = Some c' \<and>
        ca_value c' = snd (split_key ck) \<and> ca_expires c \<le> ca_expires c'"
    proof (cases "ck = cache_key t i")
      case True
      with c row_ok show ?thesis by (auto simp: set_cached_def)
    next
      case False
      with c have old: "om_get (ss_keys s) ck = Some c" by (simp add: set_cached_def)
      obtain t' i' where sp: "split_key ck = (t', i')" by fastforce
      have "look_key (ss_db s) ck = Some (ca_value c)" using inv old c(2) by (auto simp: scope_inv_def dest: coherentD)
      then obtain p' where r: "agent_in (ss_db s) t' i' (ca_value c) p'"
        using agent_key_iff [OF ok] by (auto simp: look_key_def sp)
      have "cache_key t' (ca_value c) \<noteq> cache_key t k"
      proof
        assume "cache_key t' (ca_value c) = cache_key t k"
        then have "t' = t \<and> ca_value c = k"
          using agent_in_ok(1) [OF ok r] row_ok(1) by (metis prod.inject split_cache_key)
        moreover from this have "i' = i" using agent_in_unique(1) [OF ok row] r by auto
        ultimately show False using cache_key_split [OF sp] agent_in_ok [OF ok r] False by simp
      qed
      moreover obtain c' where "om_get (ss_agents s) (cache_key t' (ca_value c)) = Some c'"
        "ca_value c' = i'" "ca_expires c \<le> ca_expires c'"
        using inv pairedD [OF _ old c(2)] by (auto simp: scope_inv_def sp)
      ultimately show ?thesis by (auto simp: set_cached_def sp)
    qed
  qed
  with inv look show ?thesis
    by (auto simp: scope_inv_def note_agent_def intro: coherent_set)
qed

subsection \<open>Resolving reads the tables\<close>

lemma look_agent_key [simp]: "tenant_ok t \<Longrightarrow> look_agent db (cache_key t k) = agent_by_key db t k"
  "tenant_ok t \<Longrightarrow> look_key db (cache_key t k) = agent_key_by_id db t k"
  "tenant_ok t \<Longrightarrow> look_workspace db (cache_key t k) = workspace_by_key db t k"
  by (simp_all add: look_agent_def look_key_def look_workspace_def)

lemma inv_agents: "scope_inv now s \<Longrightarrow> get_cached now (ss_agents s) k = (hit, m) \<Longrightarrow> scope_inv now (s\<lparr>ss_agents := m\<rparr>)"
  by (auto simp: scope_inv_def intro: paired_get_agents get_cached_coherent)

lemma inv_keys: "scope_inv now s \<Longrightarrow> get_cached now (ss_keys s) k = (hit, m) \<Longrightarrow> scope_inv now (s\<lparr>ss_keys := m\<rparr>)"
  by (auto simp: scope_inv_def intro: paired_get_keys get_cached_coherent)

lemma inv_primary: "scope_inv now s \<Longrightarrow> coherent now m (primary_of (ss_db s)) \<Longrightarrow> scope_inv now (s\<lparr>ss_primary := m\<rparr>)"
  by (simp add: scope_inv_def)

lemma inv_tenants: "scope_inv now s \<Longrightarrow> coherent now m (tenant_by_key (ss_db s)) \<Longrightarrow> scope_inv now (s\<lparr>ss_tenants := m\<rparr>)"
  by (simp add: scope_inv_def)

lemma inv_workspaces:
  "scope_inv now s \<Longrightarrow> coherent now m (look_workspace (ss_db s)) \<Longrightarrow> scope_inv now (s\<lparr>ss_workspaces := m\<rparr>)"
  by (simp add: scope_inv_def)

lemma note_agent_db [simp]: "ss_db (note_agent now ttl t k i s) = ss_db s"
  by (simp add: note_agent_def)

text \<open>Shared shape of the answers: what the table says, tables untouched, caches still coherent.\<close>

definition reads :: "nat \<Rightarrow> 'a \<Rightarrow> scope_state \<Rightarrow> 'a \<times> scope_state \<Rightarrow> bool" where
  "reads now v s out \<longleftrightarrow> fst out = v \<and> ss_db (snd out) = ss_db s \<and> scope_inv now (snd out)"

lemma readsD:
  assumes "reads now v s out" "out = (r, s')"
  shows "r = v" "ss_db s' = ss_db s" "scope_inv now s'"
  using assms by (simp_all add: reads_def)

lemma resolve_tenant_reads:
  assumes inv: "scope_inv now s"
  shows "reads now (tenant_by_key (ss_db s) (norm_key k)) s (resolve_tenant_id now ttl k s)"
proof -
  obtain hit m where g: "get_cached now (ss_tenants s) (norm_key k) = (hit, m)" by fastforce
  have co: "coherent now (ss_tenants s) (tenant_by_key (ss_db s))" using inv by (simp add: scope_inv_def)
  note m = get_cached_coherent(1) [OF g co]
  show ?thesis
    using truthy_coherent [OF g co] inv_tenants [OF inv m] inv_tenants [OF inv coherent_set [OF m]]
    by (auto simp: resolve_tenant_id_def reads_def g Let_def split: option.splits)
qed

lemma resolve_workspace_reads:
  assumes inv: "scope_inv now s" and t: "tenant_ok t"
  shows "reads now (workspace_by_key (ss_db s) t (norm_key k)) s (resolve_workspace_id now ttl t k s)"
proof -
  let ?ck = "cache_key t (norm_key k)"
  obtain hit m where g: "get_cached now (ss_workspaces s) ?ck = (hit, m)" by fastforce
  have co: "coherent now (ss_workspaces s) (look_workspace (ss_db s))" using inv by (simp add: scope_inv_def)
  note m = get_cached_coherent(1) [OF g co]
  show ?thesis
    using truthy_coherent [OF g co] inv_workspaces [OF inv m] inv_workspaces [OF inv coherent_set [OF m, of ?ck]] t
    by (auto simp: resolve_workspace_id_def reads_def g Let_def split: option.splits)
qed

lemma resolve_agent_reads:
  assumes inv: "scope_inv now s" and t: "tenant_ok t"
  shows "reads now (agent_by_key (ss_db s) t (norm_key k)) s (resolve_agent_id now ttl t k s)"
proof -
  let ?ck = "cache_key t (norm_key k)"
  obtain hit m where g: "get_cached now (ss_agents s) ?ck = (hit, m)" by fastforce
  have co: "coherent now (ss_agents s) (look_agent (ss_db s))" and ok: "identity_ok (ss_db s)"
    using inv by (simp_all add: scope_inv_def)
  note i = inv_agents [OF inv g]
  have "scope_inv now (note_agent now ttl t (norm_key k) a (s\<lparr>ss_agents := m\<rparr>))"
    if "agent_by_key (ss_db s) t (norm_key k) = Some a" for a
    using that note_agent_inv [OF i] by (auto simp: agent_by_key_iff [OF ok])
  then show ?thesis
    using truthy_coherent [OF g co] i t
    by (auto simp: resolve_agent_id_def reads_def g Let_def split: option.splits)
qed

lemma resolve_key_reads:
  assumes inv: "scope_inv now s" and t: "tenant_ok t"
  shows "reads now (agent_key_by_id (ss_db s) t (trim i)) s (resolve_agent_key now ttl t i s)"
proof -
  let ?ck = "cache_key t (trim i)"
  obtain hit m where g: "get_cached now (ss_keys s) ?ck = (hit, m)" by fastforce
  have co: "coherent now (ss_keys s) (look_key (ss_db s))" and ok: "identity_ok (ss_db s)"
    using inv by (simp_all add: scope_inv_def)
  note inv' = inv_keys [OF inv g]
  have "scope_inv now (note_agent now ttl t k (trim i) (s\<lparr>ss_keys := m\<rparr>))"
    if "agent_key_by_id (ss_db s) t (trim i) = Some k" for k
    using that note_agent_inv [OF inv'] by (auto simp: agent_key_iff [OF ok])
  moreover have "agent_key_by_id (ss_db s) t [] = None"
  proof (cases "agent_key_by_id (ss_db s) t []")
    case (Some k)
    then obtain p where "agent_in (ss_db s) t [] k p" using agent_key_iff [OF ok] by blast
    from agent_in_ok(4) [OF ok this] show ?thesis by simp
  qed
  ultimately show ?thesis
    using truthy_coherent [OF g co] inv inv' t
    by (auto simp: resolve_agent_key_def reads_def g Let_def split: option.splits)
qed

lemma resolve_primary_reads:
  assumes inv: "scope_inv now s"
  shows "reads now (primary_of (ss_db s) t) s (resolve_primary_agent now ttl t s)"
proof -
  obtain hit m where g: "get_cached now (ss_primary s) t = (hit, m)" by fastforce
  have co: "coherent now (ss_primary s) (primary_of (ss_db s))" and ok: "identity_ok (ss_db s)"
    using inv by (simp_all add: scope_inv_def)
  note m = get_cached_coherent(1) [OF g co]
  have "scope_inv now (note_agent now ttl t k i (s\<lparr>ss_primary := set_cached now ttl t (i, k) m\<rparr>))"
    if p: "primary_of (ss_db s) t = Some (i, k)" for i k
    using note_agent_inv [OF inv_primary [OF inv coherent_set [OF m p]]] p by (simp add: primary_iff [OF ok])
  note noted = this
  show ?thesis
  proof (cases hit)
    case (Some v)
    with get_cached_coherent(2) [OF g co Some] inv_primary [OF inv m] show ?thesis
      by (simp add: resolve_primary_agent_def reads_def g)
  next
    case None
    with noted inv_primary [OF inv m] show ?thesis
      by (cases "primary_of (ss_db s) t") (auto simp: resolve_primary_agent_def reads_def g)
  qed
qed

subsection \<open>Changes of the tables\<close>

lemma find_grow: "find P xs = Some x \<Longrightarrow> find P (xs @ ys) = Some x"
  by (simp add: find_append)

lemma workspace_grow:
  "id_workspaces db' = id_workspaces db @ new \<Longrightarrow> workspace_by_key db t k = Some i \<Longrightarrow> workspace_by_key db' t k = Some i"
  by (auto simp: workspace_by_key_def truthy_def find_append split: option.splits if_splits)

lemma tenant_grow:
  "id_tenants db' = id_tenants db @ new \<Longrightarrow> tenant_by_key db k = Some i \<Longrightarrow> tenant_by_key db' k = Some i"
  by (auto simp: tenant_by_key_def truthy_def find_append split: option.splits if_splits)

lemma look_agent_grow:
  assumes "identity_ok db" "identity_ok db'"
    and "\<And>t i k p. agent_in db t i k p \<Longrightarrow> \<exists>p'. agent_in db' t i k p'"
  shows "look_agent db ck = Some v \<Longrightarrow> look_agent db' ck = Some v"
    "look_key db ck = Some v \<Longrightarrow> look_key db' ck = Some v"
  using assms(3) by (auto simp: look_agent_def look_key_def agent_by_key_iff assms(1,2) agent_key_iff split: prod.splits)

text \<open>A change that keeps every agent under its id and key; the primary cache is given.\<close>

lemma inv_change:
  assumes inv: "scope_inv now s" and ok: "identity_ok db'"
    and "id_tenants db' = id_tenants (ss_db s) @ ts" "id_workspaces db' = id_workspaces (ss_db s) @ ws"
    and "\<And>t i k p. agent_in (ss_db s) t i k p \<Longrightarrow> \<exists>p'. agent_in db' t i k p'"
    and "coherent now m (primary_of db')"
  shows "scope_inv now (s\<lparr>ss_db := db', ss_primary := m\<rparr>)"
proof -
  have old: "identity_ok (ss_db s)" using inv by (simp add: scope_inv_def)
  note grow = look_agent_grow [OF old ok assms(5)]
  have "coherent now (ss_tenants s) (tenant_by_key db')"
    using inv tenant_grow [OF assms(3)] by (auto simp: scope_inv_def intro: coherent_grow)
  moreover have "coherent now (ss_workspaces s) (look_workspace db')"
    using inv workspace_grow [OF assms(4)]
    by (auto simp: scope_inv_def look_workspace_def split: prod.splits intro: coherent_grow)
  moreover have "coherent now (ss_agents s) (look_agent db')" "coherent now (ss_keys s) (look_key db')"
    using inv grow by (auto simp: scope_inv_def intro: coherent_grow)
  ultimately show ?thesis using inv ok assms(6) by (simp add: scope_inv_def)
qed

lemma same_primary: "(s::scope_state)\<lparr>ss_db := db', ss_primary := ss_primary s\<rparr> = s\<lparr>ss_db := db'\<rparr>"
  by simp

text \<open>The same when every primary agent stays primary.\<close>

lemma inv_grow:
  assumes inv: "scope_inv now s" and ok: "identity_ok db'"
    and "id_tenants db' = id_tenants (ss_db s) @ ts" "id_workspaces db' = id_workspaces (ss_db s) @ ws"
    and "\<And>t i k p. agent_in (ss_db s) t i k p \<Longrightarrow> agent_in db' t i k p"
  shows "scope_inv now (s\<lparr>ss_db := db'\<rparr>)"
proof -
  have "coherent now (ss_primary s) (primary_of db')"
  proof (rule coherent_grow [of _ _ "primary_of (ss_db s)"])
    show "coherent now (ss_primary s) (primary_of (ss_db s))" using inv by (simp add: scope_inv_def)
    fix t v assume "primary_of (ss_db s) t = Some v"
    then show "primary_of db' t = Some v"
      using inv ok assms(5) by (cases v) (auto simp: scope_inv_def primary_iff)
  qed
  from inv_change [OF inv ok assms(3,4) _ this] assms(5) show ?thesis unfolding same_primary by blast
qed

text \<open>An agent's row goes or gets another key, and the agent is forgotten under the old one.\<close>

lemma inv_forget:
  assumes inv: "scope_inv now s" and row: "agent_in (ss_db s) t i k p" and ok: "identity_ok db'"
    and "id_tenants db' = id_tenants (ss_db s)" "id_workspaces db' = id_workspaces (ss_db s)"
    and other: "\<And>t' i' k' p'. agent_in (ss_db s) t' i' k' p' \<Longrightarrow> (t', i') \<noteq> (t, i) \<Longrightarrow> agent_in db' t' i' k' p'"
    and prim: "coherent now m (primary_of db')"
  shows "scope_inv now (forget_agent_id now t k (s\<lparr>ss_db := db', ss_primary := m\<rparr>))"
proof -
  let ?ck = "cache_key t k"
  have old: "identity_ok (ss_db s)" using inv by (simp add: scope_inv_def)
  note row_ok = agent_in_ok [OF old row]
  obtain hit a where g: "get_cached now (ss_agents s) ?ck = (hit, a)" by fastforce
  define keys where "keys = (case truthy hit of None \<Rightarrow> ss_keys s | Some j \<Rightarrow> om_del (cache_key t j) (ss_keys s))"
  have co: "coherent now a (look_agent (ss_db s))" "coherent now (ss_keys s) (look_key (ss_db s))"
    "paired now a (ss_keys s)"
    using inv get_cached_coherent(1) [OF g] paired_get_agents [OF _ g] by (auto simp: scope_inv_def)
  have at_row: "i' = i \<longleftrightarrow> k' = k" if "agent_in (ss_db s) t i' k' p'" for i' k' p'
    using that agent_in_unique [OF old row] by blast
  have agents: "coherent now (om_del ?ck a) (look_agent db')"
  proof (rule coherent_del_change [OF co(1)])
    fix ck v assume ck: "ck \<noteq> ?ck" "look_agent (ss_db s) ck = Some v"
    obtain t' k' where sp: "split_key ck = (t', k')" by fastforce
    with ck(2) obtain p' where r: "agent_in (ss_db s) t' v k' p'"
      by (auto simp: look_agent_def agent_by_key_iff [OF old])
    have "(t', v) \<noteq> (t, i)"
      using ck(1) cache_key_split [OF sp] agent_in_ok [OF old r] at_row r by auto
    from other [OF r this] show "look_agent db' ck = Some v"
      by (auto simp: look_agent_def sp agent_by_key_iff [OF ok])
  qed
  have hit: "\<exists>c. om_get keys ck = Some c \<and> now < ca_expires c \<Longrightarrow> ck \<noteq> cache_key t i" for ck
  proof
    assume "\<exists>c. om_get keys ck = Some c \<and> now < ca_expires c" "ck = cache_key t i"
    then obtain c where c: "om_get keys (cache_key t i) = Some c" "now < ca_expires c" by blast
    then have ks: "om_get (ss_keys s) (cache_key t i) = Some c"
      by (auto simp: keys_def split: option.splits if_splits)
    from coherentD [OF co(2) ks c(2)] have "ca_value c = k"
      using row_ok row at_row by (auto simp: agent_key_iff [OF old])
    with pairedD [OF _ ks c(2)] inv row_ok obtain c' where
      c': "om_get (ss_agents s) ?ck = Some c'" "ca_value c' = i" "ca_expires c \<le> ca_expires c'"
      by (auto simp: scope_inv_def)
    with c(2) g have "hit = Some i" by (auto simp: get_cached_def)
    with c(1) row_ok show False by (simp add: keys_def truthy_def)
  qed
  have keys_sub: "om_get keys ck = Some c \<Longrightarrow> om_get (ss_keys s) ck = Some c" for ck c
    by (auto simp: keys_def split: option.splits if_splits)
  have keys_row: "\<exists>t' i' p'. split_key ck = (t', i') \<and> agent_in (ss_db s) t' i' (ca_value c) p' \<and> (t', i') \<noteq> (t, i)"
    if c: "om_get keys ck = Some c" "now < ca_expires c" for ck c
  proof -
    obtain t' i' where sp: "split_key ck = (t', i')" by fastforce
    with coherentD [OF co(2) keys_sub [OF c(1)] c(2)] obtain p' where r: "agent_in (ss_db s) t' i' (ca_value c) p'"
      by (auto simp: look_key_def agent_key_iff [OF old])
    have "(t', i') \<noteq> (t, i)"
      using hit [of ck] c cache_key_split [OF sp] agent_in_ok [OF old r] by blast
    with sp r show ?thesis by blast
  qed
  have "coherent now keys (look_key db')"
    unfolding coherent_def using keys_row other by (fastforce simp: look_key_def agent_key_iff [OF ok])
  moreover have "paired now (om_del ?ck a) keys"
    unfolding paired_def
  proof (intro allI impI)
    fix ck c assume c: "om_get keys ck = Some c" "now < ca_expires c"
    from keys_row [OF this] obtain t' i' p' where r: "split_key ck = (t', i')"
      "agent_in (ss_db s) t' i' (ca_value c) p'" "(t', i') \<noteq> (t, i)" by blast
    have "cache_key t' (ca_value c) \<noteq> ?ck"
    proof
      assume "cache_key t' (ca_value c) = ?ck"
      then have "t' = t \<and> ca_value c = k"
        using agent_in_ok(1) [OF old r(2)] row_ok(1) by (metis prod.inject split_cache_key)
      with r(2,3) at_row show False by auto
    qed
    moreover obtain c' where "om_get a (cache_key t' (ca_value c)) = Some c'" "ca_value c' = i'" "ca_expires c \<le> ca_expires c'"
      using pairedD [OF co(3) keys_sub [OF c(1)] c(2)] r(1) by auto
    ultimately show "\<exists>c'. om_get (om_del ?ck a) (cache_key (fst (split_key ck)) (ca_value c)) = Some c' \<and>
        ca_value c' = snd (split_key ck) \<and> ca_expires c \<le> ca_expires c'" using r(1) by auto
  qed
  moreover have "coherent now (ss_tenants s) (tenant_by_key db')" "coherent now (ss_workspaces s) (look_workspace db')"
  proof -
    have "tenant_by_key db' = tenant_by_key (ss_db s)" "look_workspace db' = look_workspace (ss_db s)"
      by (simp_all add: fun_eq_iff tenant_by_key_def look_workspace_def workspace_by_key_def assms(4,5))
    with inv show "coherent now (ss_tenants s) (tenant_by_key db')" "coherent now (ss_workspaces s) (look_workspace db')"
      by (simp_all add: scope_inv_def)
  qed
  ultimately show ?thesis
    using agents ok prim row_ok
    by (cases "truthy hit") (simp_all add: forget_agent_id_def norm_key_id g scope_inv_def keys_def)
qed

subsection \<open>The tables stay well-formed\<close>

lemma distinct_map_snoc: "distinct (map f (xs @ [x])) \<longleftrightarrow> distinct (map f xs) \<and> f x \<notin> f ` set xs"
  by auto

lemma insert_agent_ok:
  assumes ok: "identity_ok db" and new: "insert_agent r db = Inr db'"
    and "tenant_ok (ar_tenant r)" "key_ok (ar_key r)" "key_ok (ar_id r)"
  shows "identity_ok db'" "db' = db\<lparr>id_agents := id_agents db @ [r]\<rparr>"
proof -
  show db': "db' = db\<lparr>id_agents := id_agents db @ [r]\<rparr>"
    using new by (auto simp: insert_agent_def split: if_splits)
  obtain x where "x \<in> set (id_tenants db)" "te_id x = ar_tenant r"
    using new by (auto simp: insert_agent_def matches_iff split: if_splits)
  then have "ar_tenant r \<in> te_id ` set (id_tenants db)" by (metis imageI)
  moreover have "agents_ok (id_agents db @ [r])"
    using ok new assms(3-5)
    by (auto simp: insert_agent_def identity_ok_def agents_ok_def matches_iff split: if_splits)
  ultimately show "identity_ok db'"
    using ok unfolding db' by (fastforce simp: identity_ok_def references_ok_def)
qed

lemma insert_workspace_ok:
  assumes ok: "identity_ok db" and new: "insert_workspace r db = Inr db'" and "ws_id r \<noteq> []"
  shows "identity_ok db'" "db' = db\<lparr>id_workspaces := id_workspaces db @ [r]\<rparr>"
proof -
  show db': "db' = db\<lparr>id_workspaces := id_workspaces db @ [r]\<rparr>"
    using new by (auto simp: insert_workspace_def split: if_splits)
  obtain x where "x \<in> set (id_tenants db)" "te_id x = ws_tenant r"
    using new by (auto simp: insert_workspace_def matches_iff split: if_splits)
  then have "ws_tenant r \<in> te_id ` set (id_tenants db)" by (metis imageI)
  moreover have "workspaces_ok (id_workspaces db @ [r])"
    using ok new assms(3)
    by (auto simp: insert_workspace_def identity_ok_def workspaces_ok_def matches_iff split: if_splits)
  ultimately show "identity_ok db'"
    using ok unfolding db' by (fastforce simp: identity_ok_def references_ok_def)
qed

lemma membership_ok:
  assumes ok: "identity_ok db" and m: "ensure_membership t a w db = Inr db'"
  shows "identity_ok db'" "db' = db\<lparr>id_members := id_members db'\<rparr>" "has_membership db' t a w"
    "set (id_members db) \<subseteq> set (id_members db')"
proof -
  have "identity_ok db' \<and> db' = db\<lparr>id_members := id_members db'\<rparr> \<and> has_membership db' t a w \<and>
    set (id_members db) \<subseteq> set (id_members db')"
  proof (cases "(t, a, w) \<in> set (id_members db)")
    case True
    with assms show ?thesis by (simp add: ensure_membership_def has_membership_def)
  next
    case False
    with m [unfolded ensure_membership_def matches_key]
    have "(t, a) \<in> (\<lambda>r. (ar_tenant r, ar_id r)) ` set (id_agents db)"
      "(t, w) \<in> (\<lambda>r. (ws_tenant r, ws_id r)) ` set (id_workspaces db)"
      and db': "db' = db\<lparr>id_members := id_members db @ [(t, a, w)]\<rparr>"
      by (simp_all split: if_splits)
    with ok show ?thesis
      unfolding db' by (simp add: identity_ok_def references_ok_def has_membership_def subset_insertI)
  qed
  then show "identity_ok db'" "db' = db\<lparr>id_members := id_members db'\<rparr>" "has_membership db' t a w"
    "set (id_members db) \<subseteq> set (id_members db')" by simp_all
qed

text \<open>Updating the primary flags or the key of agents.\<close>

lemma update_agents_ok:
  assumes ok: "identity_ok db"
    and same: "\<And>r. (ar_tenant (f r), ar_id (f r)) = (ar_tenant r, ar_id r)"
    and agents: "agents_ok (update_where P f (id_agents db))"
  shows "identity_ok (db\<lparr>id_agents := update_where P f (id_agents db)\<rparr>)"
proof -
  have "map (\<lambda>r. (ar_tenant r, ar_id r)) (update_where P f (id_agents db)) = map (\<lambda>r. (ar_tenant r, ar_id r)) (id_agents db)"
    by (rule map_update_where) (rule same)
  then have images: "(\<lambda>r. (ar_tenant r, ar_id r)) ` set (update_where P f (id_agents db)) = (\<lambda>r. (ar_tenant r, ar_id r)) ` set (id_agents db)"
    by (metis set_map)
  moreover have "ar_tenant ` S = fst ` (\<lambda>r. (ar_tenant r, ar_id r)) ` S" for S
    by (simp add: image_image)
  ultimately have "ar_tenant ` set (update_where P f (id_agents db)) = ar_tenant ` set (id_agents db)"
    by metis
  with images show ?thesis using ok agents by (simp add: identity_ok_def references_ok_def)
qed

lemma flags_ok:
  assumes ok: "agents_ok rows"
    and "\<And>r r'. r \<in> set rows \<Longrightarrow> r' \<in> set rows \<Longrightarrow> ar_tenant r = ar_tenant r' \<Longrightarrow>
      (if P r then flag else ar_primary r) \<Longrightarrow> (if P r' then flag else ar_primary r') \<Longrightarrow> r = r'"
  shows "agents_ok (update_where P (\<lambda>r. r\<lparr>ar_primary := flag\<rparr>) rows)"
  unfolding agents_ok_def
proof (intro conjI ballI impI)
  let ?f = "\<lambda>r. if P r then r\<lparr>ar_primary := flag\<rparr> else r"
  show "distinct (map (\<lambda>r. (ar_tenant r, ar_key r)) (update_where P (\<lambda>r. r\<lparr>ar_primary := flag\<rparr>) rows))"
    "distinct (map (\<lambda>r. (ar_tenant r, ar_id r)) (update_where P (\<lambda>r. r\<lparr>ar_primary := flag\<rparr>) rows))"
    using ok by (simp_all add: map_update_where agents_ok_def)
  fix r assume r: "r \<in> set (update_where P (\<lambda>r. r\<lparr>ar_primary := flag\<rparr>) rows)"
  then obtain a where a: "a \<in> set rows" "r = ?f a" by (auto simp: set_update_where)
  then show "tenant_ok (ar_tenant r)" "key_ok (ar_key r)" "key_ok (ar_id r)"
    using ok by (auto simp: agents_ok_def)
  fix r' assume r': "r' \<in> set (update_where P (\<lambda>r. r\<lparr>ar_primary := flag\<rparr>) rows)"
    "ar_primary r \<and> ar_primary r' \<and> ar_tenant r = ar_tenant r'"
  then obtain b where b: "b \<in> set rows" "r' = ?f b" by (auto simp: set_update_where)
  have "a = b" by (rule assms(2)) (use a b r'(2) in \<open>auto split: if_splits\<close>)
  with a b show "r = r'" by simp
qed

lemma demote_ok:
  assumes ok: "identity_ok db"
  shows "identity_ok (db\<lparr>id_agents := update_where (\<lambda>r. ar_tenant r = t \<and> ar_primary r)
    (\<lambda>r. r\<lparr>ar_primary := False\<rparr>) (id_agents db)\<rparr>)"
proof (rule update_agents_ok [OF ok])
  have "agents_ok (id_agents db)" using ok by (simp add: identity_ok_def)
  then show "agents_ok (update_where (\<lambda>r. ar_tenant r = t \<and> ar_primary r) (\<lambda>r. r\<lparr>ar_primary := False\<rparr>) (id_agents db))"
    by (rule flags_ok) (use \<open>agents_ok (id_agents db)\<close> in \<open>auto simp: agents_ok_def split: if_splits\<close>)
qed simp

lemma promote_ok:
  assumes ok: "identity_ok db" and none: "primary_of db t = None"
  shows "identity_ok (db\<lparr>id_agents := update_where (\<lambda>r. (ar_tenant r, ar_id r) = (t, i))
    (\<lambda>r. r\<lparr>ar_primary := True\<rparr>) (id_agents db)\<rparr>)"
proof (rule update_agents_ok [OF ok])
  have rows: "agents_ok (id_agents db)" using ok by (simp add: identity_ok_def)
  have no: "\<not> ar_primary r" if "r \<in> set (id_agents db)" "ar_tenant r = t" for r
    using row_agent_in [OF that(1)] that(2) none primary_iff [OF ok, of t "ar_id r" "ar_key r"] by auto
  show "agents_ok (update_where (\<lambda>r. (ar_tenant r, ar_id r) = (t, i)) (\<lambda>r. r\<lparr>ar_primary := True\<rparr>) (id_agents db))"
  proof (rule flags_ok [OF rows])
    fix r r' assume r: "r \<in> set (id_agents db)" "r' \<in> set (id_agents db)" "ar_tenant r = ar_tenant r'"
      "if (ar_tenant r, ar_id r) = (t, i) then True else ar_primary r"
      "if (ar_tenant r', ar_id r') = (t, i) then True else ar_primary r'"
    have d: "distinct (map (\<lambda>r. (ar_tenant r, ar_id r)) (id_agents db))" using rows by (simp add: agents_ok_def)
    show "r = r'"
    proof (cases "ar_tenant r = t")
      case True
      with r no have "ar_id r = i" "ar_id r' = i" by (auto split: if_splits)
      with r True show ?thesis by (intro distinct_keys_eq [OF d]) simp_all
    next
      case False
      with r rows show ?thesis by (auto simp: agents_ok_def)
    qed
  qed
qed simp

subsection \<open>Every operation keeps the invariant\<close>

text \<open>Rows are only added, and primary agents stay primary.\<close>

definition grows :: "identity_db \<Rightarrow> identity_db \<Rightarrow> bool" where
  "grows db db' \<longleftrightarrow>
    (\<exists>ts. id_tenants db' = id_tenants db @ ts) \<and> (\<exists>ws. id_workspaces db' = id_workspaces db @ ws) \<and>
    (\<forall>t i k p. agent_in db t i k p \<longrightarrow> (\<exists>p'. agent_in db' t i k p' \<and> (p \<longrightarrow> p'))) \<and>
    set (id_members db) \<subseteq> set (id_members db')"

lemma grows_refl [simp]: "grows db db"
  by (auto simp: grows_def)

lemma grows_trans: "grows a b \<Longrightarrow> grows b c \<Longrightarrow> grows a c"
  unfolding grows_def by (fastforce dest: subset_trans)

lemma grows_reads:
  assumes "grows db db'" "identity_ok db" "identity_ok db'"
  shows "agent_by_key db t k = Some i \<Longrightarrow> agent_by_key db' t k = Some i"
    "workspace_by_key db t k = Some i \<Longrightarrow> workspace_by_key db' t k = Some i"
    "tenant_by_key db k = Some i \<Longrightarrow> tenant_by_key db' k = Some i"
    "has_membership db t a w \<Longrightarrow> has_membership db' t a w"
    "primary_of db t \<noteq> None \<Longrightarrow> primary_of db' t \<noteq> None"
proof -
  show "agent_by_key db t k = Some i \<Longrightarrow> agent_by_key db' t k = Some i"
    using assms(1) unfolding grows_def agent_by_key_iff [OF assms(2)] agent_by_key_iff [OF assms(3)] by blast
  show "workspace_by_key db t k = Some i \<Longrightarrow> workspace_by_key db' t k = Some i"
    "tenant_by_key db k = Some i \<Longrightarrow> tenant_by_key db' k = Some i"
    using assms(1) workspace_grow tenant_grow by (auto simp: grows_def)
  show "has_membership db t a w \<Longrightarrow> has_membership db' t a w"
    using assms(1) by (auto simp: grows_def has_membership_def)
  assume "primary_of db t \<noteq> None"
  then obtain i k where "agent_in db t i k True" using primary_iff [OF assms(2)] by auto
  then have "agent_in db' t i k True" using assms(1) by (fastforce simp: grows_def)
  then show "primary_of db' t \<noteq> None" using primary_iff [OF assms(3)] by auto
qed

lemma tenant_by_key_new:
  "\<not> matches (\<lambda>r. te_key r = k) (id_tenants db) \<Longrightarrow> f \<noteq> [] \<Longrightarrow>
    id_tenants db' = id_tenants db @ [\<lparr>te_id = f, te_key = k\<rparr>] \<Longrightarrow> tenant_by_key db' k = Some f"
  using find_None_iff2 [of "\<lambda>r. te_key r = k" "id_tenants db"]
  by (simp add: tenant_by_key_def truthy_def find_append matches_iff)

lemma tenant_by_key_ok: "identity_ok db \<Longrightarrow> tenant_by_key db k = Some i \<Longrightarrow> tenant_ok i"
  by (auto simp: tenant_by_key_def truthy_def identity_ok_def tenants_ok_def split: option.splits if_splits dest!: find_in)

lemma ensure_tenant_inv:
  assumes inv: "scope_inv now s" and fresh: "tenant_ok f" and e: "ensure_tenant_id now ttl f k s = (r, s')"
  shows "scope_inv now s' \<and> grows (ss_db s) (ss_db s') \<and>
    (\<forall>i. r = Inr i \<longrightarrow> tenant_ok i \<and> tenant_by_key (ss_db s') (norm_key k) = Some i)"
proof -
  obtain hit s1 where r1: "resolve_tenant_id now ttl k s = (hit, s1)" by fastforce
  note r = readsD [OF resolve_tenant_reads [OF inv] r1]
  have ok: "identity_ok (ss_db s)" using inv by (simp add: scope_inv_def)
  show ?thesis
  proof (cases hit)
    case (Some i)
    with r(1) have "tenant_by_key (ss_db s) (norm_key k) = Some i" by simp
    with e r1 [unfolded Some] r(2,3) tenant_by_key_ok [OF ok this] this show ?thesis
      by (auto simp: ensure_tenant_id_def)
  next
    case None
    let ?k = "norm_key k"
    let ?db = "ss_db s\<lparr>id_tenants := id_tenants (ss_db s) @ [\<lparr>te_id = f, te_key = ?k\<rparr>]\<rparr>"
    consider "r \<noteq> Inr f" "s' = s1" "\<forall>i. r \<noteq> Inr i"
      | "\<not> matches (\<lambda>r. te_key r = ?k) (id_tenants (ss_db s))" "r = Inr f"
        "s' = s1\<lparr>ss_db := ?db, ss_tenants := set_cached now ttl ?k f (ss_tenants s1)\<rparr>"
      using e r1 None r(2) by (auto simp: ensure_tenant_id_def Let_def split: if_splits)
    then show ?thesis
    proof cases
      case 1
      with r show ?thesis by simp
    next
      case 2
      have "tenants_ok (id_tenants (ss_db s) @ [\<lparr>te_id = f, te_key = ?k\<rparr>])"
        using ok fresh 2(1) by (auto simp: identity_ok_def tenants_ok_def matches_iff)
      then have ok': "identity_ok ?db" using ok by (auto simp: identity_ok_def references_ok_def)
      have inv': "scope_inv now (s1\<lparr>ss_db := ?db\<rparr>)"
        by (rule inv_grow [OF r(3) ok', of "[\<lparr>te_id = f, te_key = ?k\<rparr>]" "[]"]) (simp_all add: r(2) agent_in_def)
      have f: "tenant_by_key ?db ?k = Some f"
        using tenant_by_key_new [OF 2(1), of f ?db] fresh by (simp add: tenant_ok_def)
      have "coherent now (set_cached now ttl ?k f (ss_tenants s1)) (tenant_by_key ?db)"
        by (rule coherent_set) (use inv' f in \<open>simp_all add: scope_inv_def\<close>)
      then have "scope_inv now (s1\<lparr>ss_db := ?db, ss_tenants := set_cached now ttl ?k f (ss_tenants s1)\<rparr>)"
        using inv' by (simp add: scope_inv_def)
      moreover have "grows (ss_db s) ?db" by (auto simp: grows_def agent_in_def)
      ultimately show ?thesis using 2 f fresh by simp
    qed
  qed
qed

lemma workspace_by_key_new:
  "\<not> matches (\<lambda>r. (ws_tenant r, ws_key r) = (t, k)) (id_workspaces db) \<Longrightarrow> f \<noteq> [] \<Longrightarrow>
    id_workspaces db' = id_workspaces db @ [\<lparr>ws_tenant = t, ws_id = f, ws_key = k\<rparr>] \<Longrightarrow> workspace_by_key db' t k = Some f"
  using find_None_iff2 [of "\<lambda>r. (ws_tenant r, ws_key r) = (t, k)" "id_workspaces db"]
  by (simp add: workspace_by_key_def truthy_def find_append matches_iff)

lemma ensure_workspace_inv:
  assumes inv: "scope_inv now s" and t: "tenant_ok t" and fresh: "key_ok f"
    and e: "ensure_workspace_id now ttl f t k s = (r, s')"
  shows "scope_inv now s' \<and> grows (ss_db s) (ss_db s') \<and>
    (\<forall>i. r = Inr i \<longrightarrow> workspace_by_key (ss_db s') t (norm_key k) = Some i)"
proof -
  let ?k = "norm_key k"
  obtain hit s1 where r1: "resolve_workspace_id now ttl t k s = (hit, s1)" by fastforce
  note r = readsD [OF resolve_workspace_reads [OF inv t] r1]
  have ok: "identity_ok (ss_db s)" using inv by (simp add: scope_inv_def)
  consider i where "hit = Some i" "r = Inr i" "s' = s1" | "s' = s1" "\<forall>i. r \<noteq> Inr i"
    | db' where "\<not> matches (\<lambda>r. (ws_tenant r, ws_key r) = (t, ?k)) (id_workspaces (ss_db s))" "r = Inr f"
      "insert_workspace \<lparr>ws_tenant = t, ws_id = f, ws_key = ?k\<rparr> (ss_db s) = Inr db'"
      "s' = s1\<lparr>ss_db := db', ss_workspaces := set_cached now ttl (cache_key t ?k) f (ss_workspaces s1)\<rparr>"
    using e r1 r(2)
    by (cases hit) (auto simp: ensure_workspace_id_def Let_def simp del: prod.inject split: if_splits sum.splits)
  then show ?thesis
  proof cases
    case 3
    have ne: "f \<noteq> []" using fresh by (simp add: key_ok_def)
    note new = insert_workspace_ok [OF ok 3(3)]
    have db': "db' = ss_db s\<lparr>id_workspaces := id_workspaces (ss_db s) @ [\<lparr>ws_tenant = t, ws_id = f, ws_key = ?k\<rparr>]\<rparr>"
      using new(2) ne by simp
    have inv': "scope_inv now (s1\<lparr>ss_db := db'\<rparr>)"
      by (rule inv_grow [OF r(3), of _ "[]" "[\<lparr>ws_tenant = t, ws_id = f, ws_key = ?k\<rparr>]"])
        (use new(1) ne db' in \<open>simp_all add: r(2) agent_in_def\<close>)
    have f: "workspace_by_key db' t ?k = Some f"
      using workspace_by_key_new [OF 3(1) ne, of db'] db' by simp
    have "coherent now (set_cached now ttl (cache_key t ?k) f (ss_workspaces s1)) (look_workspace db')"
      by (rule coherent_set) (use inv' f t in \<open>simp_all add: scope_inv_def\<close>)
    then have "scope_inv now s'" using inv' by (simp add: scope_inv_def 3(4))
    moreover have "grows (ss_db s) db'" by (auto simp: grows_def agent_in_def db')
    ultimately show ?thesis using 3 f by simp
  qed (use r in auto)
qed

lemma remember_db [simp]:
  "ss_db (remember_agent_id now ttl t k i s) = ss_db s" "ss_db (remember_primary_agent now ttl t k i s) = ss_db s"
  by (simp_all add: remember_agent_id_def remember_primary_agent_def)

lemma note_agent_primary: "(note_agent now ttl t k i s)\<lparr>ss_primary := m\<rparr> = note_agent now ttl t k i (s\<lparr>ss_primary := m\<rparr>)"
  by (simp add: note_agent_def)

lemma update_row: "r \<in> set rows \<Longrightarrow> (if P r then f r else r) \<in> set (update_where P f rows)"
  unfolding update_where_def set_map by (rule rev_image_eqI) simp_all

lemma primary_kept:
  assumes "identity_ok db" "identity_ok db'" "\<And>i k. agent_in db t i k True \<Longrightarrow> agent_in db' t i k True"
  shows "primary_of db t = Some u \<Longrightarrow> primary_of db' t = Some u"
  using assms(3) by (cases u) (simp add: primary_iff [OF assms(1)] primary_iff [OF assms(2)])

lemma promote_inv:
  assumes inv: "scope_inv now s" and t: "tenant_ok t" and row: "agent_in (ss_db s) t i k p"
    and e: "maybe_promote_default now ttl t k i s = (r, s')"
  shows "scope_inv now s' \<and> grows (ss_db s) (ss_db s') \<and> (\<exists>p'. agent_in (ss_db s') t i k p') \<and>
    (r = Inr () \<and> k = default_key \<longrightarrow> primary_of (ss_db s') t \<noteq> None)"
proof -
  obtain hit s1 where r1: "resolve_primary_agent now ttl t s = (hit, s1)" by fastforce
  note r = readsD [OF resolve_primary_reads [OF inv] r1]
  have ok: "identity_ok (ss_db s)" using inv by (simp add: scope_inv_def)
  let ?db = "ss_db s\<lparr>id_agents := update_where (\<lambda>r. (ar_tenant r, ar_id r) = (t, i)) (\<lambda>r. r\<lparr>ar_primary := True\<rparr>)
    (id_agents (ss_db s))\<rparr>"
  consider "k \<noteq> default_key" "s' = s" | "s' = s1" "hit \<noteq> None \<or> r \<noteq> Inr ()"
    | "hit = None" "s' = remember_primary_agent now ttl t k i (s1\<lparr>ss_db := ?db\<rparr>)" "k = default_key"
    using e r1 r(2) by (cases hit) (auto simp: maybe_promote_default_def Let_def split: if_splits)
  then show ?thesis
  proof cases
    case 1
    with inv row show ?thesis by auto
  next
    case 2
    with r row show ?thesis by auto
  next
    case 3
    have none: "primary_of (ss_db s) t = None" using 3(1) r(1) by simp
    note ok' = promote_ok [OF ok none, of i]
    have keeps: "\<exists>p'. agent_in ?db t' i' k' p' \<and> (p0 \<longrightarrow> p')" if a: "agent_in (ss_db s) t' i' k' p0" for t' i' k' p0
    proof (cases "(t', i') = (t, i)")
      case True
      with update_row [OF agent_in_row [OF a], of "\<lambda>r. (ar_tenant r, ar_id r) = (t, i)" "\<lambda>r. r\<lparr>ar_primary := True\<rparr>"]
      show ?thesis by (auto simp: agent_in_def)
    next
      case False
      with update_row [OF agent_in_row [OF a], of "\<lambda>r. (ar_tenant r, ar_id r) = (t, i)" "\<lambda>r. r\<lparr>ar_primary := True\<rparr>"]
      show ?thesis by (auto simp: agent_in_def)
    qed
    have new: "agent_in ?db t i k True"
      using update_row [OF agent_in_row [OF row], of "\<lambda>r. (ar_tenant r, ar_id r) = (t, i)" "\<lambda>r. r\<lparr>ar_primary := True\<rparr>"]
      by (simp add: agent_in_def)
    have nk: "norm_key k = k" using 3(3) by (simp add: norm_key_id)
    let ?m = "set_cached now ttl t (i, k) (ss_primary s1)"
    have "coherent now ?m (primary_of ?db)"
    proof (rule coherent_set_change)
      show "coherent now (ss_primary s1) (primary_of (ss_db s))" using r(2,3) by (simp add: scope_inv_def)
      show "primary_of ?db t = Some (i, k)" by (rule primary_iff [OF ok', THEN iffD2, OF new])
      fix j u assume "j \<noteq> t" "primary_of (ss_db s) j = Some u"
      show "primary_of ?db j = Some u"
      proof (rule primary_kept [OF ok ok'])
        fix a b assume "agent_in (ss_db s) j a b True"
        from keeps [OF this] show "agent_in ?db j a b True" by auto
      qed fact
    qed
    with inv_change [OF r(3) ok', of "[]" "[]" ?m] keeps have "scope_inv now (s1\<lparr>ss_db := ?db, ss_primary := ?m\<rparr>)"
      by (fastforce simp: r(2))
    from note_agent_inv [OF this, of t i k True ttl] new have "scope_inv now s'"
      by (simp add: 3(2) remember_primary_agent_def nk)
    moreover have "primary_of ?db t \<noteq> None" using primary_iff [OF ok', THEN iffD2, OF new] by simp
    moreover have "grows (ss_db s) ?db" using keeps by (auto simp: grows_def)
    ultimately show ?thesis using 3 new by auto
  qed
qed

lemma settle_inv:
  assumes inv: "scope_inv now s" and t: "tenant_ok t" and row: "agent_in (ss_db s) t i k p"
    and e: "settle_agent now ttl t k i s = (r, s')"
  shows "scope_inv now s' \<and> grows (ss_db s) (ss_db s') \<and>
    (\<forall>j. r = Inr j \<longrightarrow> j = i \<and> agent_by_key (ss_db s') t k = Some i \<and>
      (k = default_key \<longrightarrow> primary_of (ss_db s') t \<noteq> None))"
proof -
  obtain x s1 where m: "maybe_promote_default now ttl t k i s = (x, s1)" by fastforce
  from promote_inv [OF inv t row m] obtain p' where
    s1: "scope_inv now s1" "grows (ss_db s) (ss_db s1)" "agent_in (ss_db s1) t i k p'"
    "x = Inr () \<and> k = default_key \<longrightarrow> primary_of (ss_db s1) t \<noteq> None" by blast
  have "agent_by_key (ss_db s1) t k = Some i"
    using s1(1,3) by (auto simp: scope_inv_def agent_by_key_iff)
  then show ?thesis
    using e m s1 note_agent_inv [OF s1(1,3), of ttl] by (cases x) (auto simp: settle_agent_def)
qed

lemma agent_in_insert:
  assumes "insert_agent \<lparr>ar_tenant = t, ar_id = f, ar_key = k, ar_primary = p\<rparr> db = Inr db'"
    "identity_ok db" "tenant_ok t" "key_ok k" "key_ok f"
  shows "identity_ok db'" "agent_in db' t f k p" "\<And>t i k p. agent_in db t i k p \<Longrightarrow> agent_in db' t i k p"
    "id_tenants db' = id_tenants db" "id_workspaces db' = id_workspaces db" "id_members db' = id_members db"
  using insert_agent_ok [OF assms(2,1)] assms(3-5) by (simp_all add: agent_in_def)

lemma ensure_agent_inv:
  assumes inv: "scope_inv now s" and t: "tenant_ok t" and fresh: "key_ok f"
    and e: "ensure_agent_id now ttl f t k s = (r, s')"
  shows "scope_inv now s' \<and> grows (ss_db s) (ss_db s') \<and>
    (\<forall>i. r = Inr i \<longrightarrow> agent_by_key (ss_db s') t (norm_key k) = Some i)"
proof -
  let ?k = "norm_key k"
  obtain hit m where g: "get_cached now (ss_agents s) (cache_key t ?k) = (hit, m)" by fastforce
  let ?s = "s\<lparr>ss_agents := m\<rparr>"
  have ok: "identity_ok (ss_db s)" and co: "coherent now (ss_agents s) (look_agent (ss_db s))"
    using inv by (simp_all add: scope_inv_def)
  note inv' = inv_agents [OF inv g]
  consider i where "truthy hit = Some i" "r = Inr i" "s' = ?s"
    | i where "agent_by_key (ss_db s) t ?k = Some i" "settle_agent now ttl t ?k i ?s = (r, s')"
    | "s' = ?s" "\<forall>i. r \<noteq> Inr i"
    | db' where "insert_agent \<lparr>ar_tenant = t, ar_id = f, ar_key = ?k, ar_primary = False\<rparr> (ss_db s) = Inr db'"
      "settle_agent now ttl t ?k f (?s\<lparr>ss_db := db'\<rparr>) = (r, s')"
    using e by (auto simp: ensure_agent_id_def Let_def g split: option.splits if_splits sum.splits)
  then show ?thesis
  proof cases
    case 1
    with truthy_coherent [OF g co 1(1)] t inv' show ?thesis by simp
  next
    case 2
    then obtain p where "agent_in (ss_db ?s) t i ?k p" using agent_by_key_iff [OF ok] by auto
    from settle_inv [OF inv' t this 2(2)] show ?thesis by auto
  next
    case 3
    with inv' show ?thesis by simp
  next
    case 4
    note new = agent_in_insert [OF 4(1) ok t norm_key_ok fresh]
    have "scope_inv now (?s\<lparr>ss_db := db'\<rparr>)"
      by (rule inv_grow [OF inv' new(1), of "[]" "[]"]) (use new(3-5) in auto)
    moreover have "grows (ss_db s) db'" using new(4-6) by (simp add: grows_def) (blast intro: new(3))
    moreover have "agent_in (ss_db (?s\<lparr>ss_db := db'\<rparr>)) t f ?k False" using new(2) by simp
    ultimately show ?thesis using settle_inv [OF _ t _ 4(2)] grows_trans by fastforce
  qed
qed

lemma demote_agent:
  assumes "agent_in db t' i k p"
  shows "\<exists>p'. agent_in (db\<lparr>id_agents := update_where (\<lambda>r. ar_tenant r = t \<and> ar_primary r)
    (\<lambda>r. r\<lparr>ar_primary := False\<rparr>) (id_agents db)\<rparr>) t' i k p' \<and> (t' \<noteq> t \<longrightarrow> p' = p)"
  using update_row [OF agent_in_row [OF assms], of "\<lambda>r. ar_tenant r = t \<and> ar_primary r" "\<lambda>r. r\<lparr>ar_primary := False\<rparr>"]
  by (auto simp: agent_in_def split: if_splits)

lemma admin_create_inv:
  assumes inv: "scope_inv now s" and t: "tenant_ok t" and fresh: "key_ok fw" "key_ok fa" and k: "key_ok k"
    and e: "admin_create now ttl fw fa t k primary s = (r, s')"
  shows "scope_inv now s' \<and> (primary_of (ss_db s) t0 \<noteq> None \<longrightarrow> primary_of (ss_db s') t0 \<noteq> None)"
proof -
  obtain w s1 where ew: "ensure_workspace_id now ttl fw t default_key s = (w, s1)" by fastforce
  from ensure_workspace_inv [OF inv t fresh(1) ew]
  have s1: "scope_inv now s1" "grows (ss_db s) (ss_db s1)" by simp_all
  have ok: "identity_ok (ss_db s)" "identity_ok (ss_db s1)" using inv s1(1) by (simp_all add: scope_inv_def)
  note prim1 = grows_reads(5) [OF s1(2) ok, of t0]
  define db1 where "db1 = (if primary then ss_db s1\<lparr>id_agents := update_where (\<lambda>r. ar_tenant r = t \<and> ar_primary r)
    (\<lambda>r. r\<lparr>ar_primary := False\<rparr>) (id_agents (ss_db s1))\<rparr> else ss_db s1)"
  have ok1: "identity_ok db1" using ok(2) demote_ok by (simp add: db1_def)
  have kept1: "\<exists>p'. agent_in db1 t' i k' p' \<and> (t' \<noteq> t \<or> \<not> primary \<longrightarrow> p' = p)" if "agent_in (ss_db s1) t' i k' p" for t' i k' p
    using demote_agent [OF that] that by (auto simp: db1_def)
  have lists: "id_tenants db1 = id_tenants (ss_db s1)" "id_workspaces db1 = id_workspaces (ss_db s1)"
    by (simp_all add: db1_def)
  consider "s' = s1" | wid db2 db3 where "w = Inr wid"
      "insert_agent \<lparr>ar_tenant = t, ar_id = fa, ar_key = k, ar_primary = primary\<rparr> db1 = Inr db2"
      "ensure_membership t fa wid db2 = Inr db3"
      "s' = (let s2 = remember_agent_id now ttl t k fa (s1\<lparr>ss_db := db3\<rparr>)
        in if primary then remember_primary_agent now ttl t k fa s2 else s2)"
    using e ew by (auto simp: admin_create_def Let_def db1_def [symmetric] split: sum.splits)
  then show ?thesis
  proof cases
    case 1
    with s1 prim1 show ?thesis by simp
  next
    case 2
    note new = agent_in_insert [OF 2(2) ok1 t k fresh(2)]
    note mem = membership_ok [OF new(1) 2(3)]
    have in3: "agent_in db2 t' i k' p \<Longrightarrow> agent_in db3 t' i k' p" for t' i k' p
      by (subst mem(2)) (simp add: agent_in_def)
    have lists3: "id_tenants db3 = id_tenants (ss_db s1) @ []" "id_workspaces db3 = id_workspaces (ss_db s1) @ []"
      by (subst mem(2), simp add: new(4,5) lists)+
    have row: "agent_in db3 t fa k primary" by (rule in3 [OF new(2)])
    have kept: "\<exists>p'. agent_in db3 t' i k' p' \<and> (t' \<noteq> t \<or> \<not> primary \<longrightarrow> p' = p)" if "agent_in (ss_db s1) t' i k' p" for t' i k' p
      using kept1 [OF that] new(3) in3 by blast
    define m where "m = (if primary then set_cached now ttl t (fa, k) (ss_primary s1) else ss_primary s1)"
    have still: "primary_of db3 j = Some u" if "primary_of (ss_db s1) j = Some u" "j \<noteq> t \<or> \<not> primary" for j u
    proof (rule primary_kept [OF ok(2) mem(1) _ that(1)])
      fix a b assume "agent_in (ss_db s1) j a b True"
      from kept [OF this] that(2) show "agent_in db3 j a b True" by auto
    qed
    have is_primary: "primary_of db3 t = Some (fa, k)" if primary
      using primary_iff [OF mem(1), THEN iffD2, of t fa k] row that by simp
    have old: "coherent now (ss_primary s1) (primary_of (ss_db s1))" using s1(1) by (simp add: scope_inv_def)
    have "coherent now m (primary_of db3)"
    proof (cases primary)
      case True
      with still is_primary show ?thesis
        by (auto simp: m_def intro: coherent_set_change [OF old])
    next
      case False
      with still show ?thesis by (auto simp: m_def intro: coherent_grow [OF old])
    qed
    with inv_change [OF s1(1) mem(1) lists3, of m] kept
    have base: "scope_inv now (s1\<lparr>ss_db := db3, ss_primary := m\<rparr>)" by blast
    have row': "agent_in (ss_db (s1\<lparr>ss_db := db3, ss_primary := m\<rparr>)) t fa k primary" using row by simp
    note noted = note_agent_inv [OF base row', of ttl]
    have "s' = (if primary then note_agent now ttl t k fa (note_agent now ttl t k fa (s1\<lparr>ss_db := db3, ss_primary := m\<rparr>))
      else note_agent now ttl t k fa (s1\<lparr>ss_db := db3, ss_primary := m\<rparr>))"
      unfolding 2(4) m_def
      by (simp add: Let_def remember_agent_id_def remember_primary_agent_def norm_key_id [OF k] note_agent_primary)
        (simp add: note_agent_def)
    moreover have "scope_inv now (note_agent now ttl t k fa (note_agent now ttl t k fa (s1\<lparr>ss_db := db3, ss_primary := m\<rparr>)))"
      by (rule note_agent_inv [OF noted, of t fa k primary]) (use row in simp)
    moreover have "primary_of db3 t0 \<noteq> None" if "primary_of (ss_db s1) t0 \<noteq> None"
      using still [of t0] is_primary that by (cases "t0 = t \<and> primary") auto
    ultimately show ?thesis using noted prim1 by auto
  qed
qed

lemma image_filter_neq: "v \<in> g ` set rows \<Longrightarrow> v \<noteq> w \<Longrightarrow> v \<in> g ` set (filter (\<lambda>x. g x \<noteq> w) rows)"
  by auto

lemma admin_delete_inv:
  assumes inv: "scope_inv now s" and t: "tenant_ok t" and e: "admin_delete now t k busy s = (r, s')"
  shows "scope_inv now s' \<and> (primary_of (ss_db s) t0 \<noteq> None \<longrightarrow> primary_of (ss_db s') t0 \<noteq> None)"
proof -
  have ok: "identity_ok (ss_db s)" using inv by (simp add: scope_inv_def)
  define db' where "db' i = ss_db s\<lparr>id_agents := filter (\<lambda>x. (ar_tenant x, ar_id x) \<noteq> (t, i)) (id_agents (ss_db s)),
    id_members := filter (\<lambda>(t', a, w). (t', a) \<noteq> (t, i)) (id_members (ss_db s))\<rparr>" for i
  consider "s' = s" | row where "agent_row_of (ss_db s) t k = Some row" "\<not> ar_primary row"
    "s' = forget_agent_id now t k (s\<lparr>ss_db := db' (ar_id row)\<rparr>)"
    using e by (auto simp: admin_delete_def Let_def db'_def split: option.splits if_splits)
  then show ?thesis
  proof cases
    case 1
    with inv show ?thesis by simp
  next
    case 2
    let ?i = "ar_id row" and ?db = "db' (ar_id row)"
    have row: "agent_in (ss_db s) t ?i k False"
      using 2(1,2) row_agent_in [of row "ss_db s"] by (auto simp: agent_row_iff [OF ok])
    have "agents_ok (id_agents ?db)"
      using ok by (auto simp: identity_ok_def agents_ok_def db'_def distinct_map_filter)
    moreover have "references_ok ?db"
    proof -
      have refs: "references_ok (ss_db s)" using ok by (simp add: identity_ok_def)
      have "case m of (t', a, w) \<Rightarrow>
          (t', a) \<in> (\<lambda>r. (ar_tenant r, ar_id r)) ` set (id_agents ?db) \<and>
          (t', w) \<in> (\<lambda>r. (ws_tenant r, ws_id r)) ` set (id_workspaces ?db)" if m: "m \<in> set (id_members ?db)" for m
      proof -
        obtain t' a w where tup: "m = (t', a, w)" by (cases m)
        with m have "(t', a, w) \<in> set (id_members (ss_db s))" "(t', a) \<noteq> (t, ?i)" by (auto simp: db'_def)
        with refs have "(t', a) \<in> (\<lambda>r. (ar_tenant r, ar_id r)) ` set (id_agents (ss_db s))"
          "(t', w) \<in> (\<lambda>r. (ws_tenant r, ws_id r)) ` set (id_workspaces (ss_db s))"
          by (auto simp: references_ok_def)
        with image_filter_neq [OF this(1) \<open>(t', a) \<noteq> (t, ?i)\<close>] show ?thesis by (simp add: tup db'_def)
      qed
      moreover have "ar_tenant ` set (id_agents ?db) \<subseteq> te_id ` set (id_tenants ?db)"
        "ws_tenant ` set (id_workspaces ?db) \<subseteq> te_id ` set (id_tenants ?db)"
        using refs unfolding references_ok_def db'_def by auto
      ultimately show ?thesis unfolding references_ok_def by blast
    qed
    ultimately have ok': "identity_ok ?db" using ok by (simp add: identity_ok_def db'_def)
    have other: "agent_in ?db t' i' k' p'" if "agent_in (ss_db s) t' i' k' p'" "(t', i') \<noteq> (t, ?i)" for t' i' k' p'
      using that by (auto simp: agent_in_def db'_def)
    have still: "primary_of ?db j = Some u" if "primary_of (ss_db s) j = Some u" for j u
    proof (rule primary_kept [OF ok ok' _ that])
      fix a b assume a: "agent_in (ss_db s) j a b True"
      moreover have "(j, a) \<noteq> (t, ?i)" using a agent_in_unique(2) [OF ok row, of b True] by auto
      ultimately show "agent_in ?db j a b True" by (rule other)
    qed
    have "coherent now (ss_primary s) (primary_of ?db)"
      by (rule coherent_grow [of _ _ "primary_of (ss_db s)"]) (use inv still in \<open>auto simp: scope_inv_def\<close>)
    from inv_forget [OF inv row ok' _ _ other this] have "scope_inv now s'"
      unfolding 2(3) same_primary by (simp add: db'_def)
    moreover have "ss_db s' = ?db" by (simp add: 2(3) forget_agent_id_def Let_def split_def)
    ultimately show ?thesis using still by auto
  qed
qed

lemma forget_db [simp]: "ss_db (forget_agent_id now t k s) = ss_db s"
  by (simp add: forget_agent_id_def Let_def split_def)

lemma forget_primary: "(forget_agent_id now t k s)\<lparr>ss_primary := m\<rparr> = forget_agent_id now t k (s\<lparr>ss_primary := m\<rparr>)"
  by (simp add: forget_agent_id_def Let_def split_def split: option.split)

lemma rename_ok:
  assumes ok: "identity_ok db" and row: "agent_in db t i k p" and k': "key_ok k'"
    and free: "\<not> matches (\<lambda>x. (ar_tenant x, ar_key x) = (t, k') \<and> ar_id x \<noteq> i) (id_agents db)"
  shows "identity_ok (db\<lparr>id_agents := update_where (\<lambda>x. (ar_tenant x, ar_id x) = (t, i)) (\<lambda>x. x\<lparr>ar_key := k'\<rparr>) (id_agents db)\<rparr>)"
proof (rule update_agents_ok [OF ok])
  let ?rows = "id_agents db" and ?P = "\<lambda>x. (ar_tenant x, ar_id x) = (t, i)"
  let ?new = "update_where ?P (\<lambda>x. x\<lparr>ar_key := k'\<rparr>) ?rows"
  have rows: "agents_ok ?rows" using ok by (simp add: identity_ok_def)
  then have ids: "distinct (map (\<lambda>r. (ar_tenant r, ar_id r)) ?rows)" and keys: "distinct (map (\<lambda>r. (ar_tenant r, ar_key r)) ?rows)"
    by (simp_all add: agents_ok_def)
  have inj: "inj_on (\<lambda>r. (ar_tenant (if ?P r then r\<lparr>ar_key := k'\<rparr> else r), ar_key (if ?P r then r\<lparr>ar_key := k'\<rparr> else r))) (set ?rows)"
  proof (rule inj_onI)
    fix a b assume ab: "a \<in> set ?rows" "b \<in> set ?rows"
      "(ar_tenant (if ?P a then a\<lparr>ar_key := k'\<rparr> else a), ar_key (if ?P a then a\<lparr>ar_key := k'\<rparr> else a)) =
       (ar_tenant (if ?P b then b\<lparr>ar_key := k'\<rparr> else b), ar_key (if ?P b then b\<lparr>ar_key := k'\<rparr> else b))"
    show "a = b"
    proof (cases "?P a = ?P b")
      case True
      with ab show ?thesis
        using distinct_keys_eq [OF ids ab(1,2)] distinct_keys_eq [OF keys ab(1,2)] by (cases "?P a") auto
    next
      case False
      with ab free show ?thesis by (auto simp: matches_iff split: if_splits)
    qed
  qed
  have "distinct ?rows" using ids by (simp add: distinct_map)
  then have d: "distinct (map (\<lambda>r. (ar_tenant r, ar_key r)) ?new)"
    unfolding update_where_def map_map o_def using inj by (simp only: distinct_map)
  show "agents_ok ?new"
    unfolding agents_ok_def
  proof (intro conjI ballI impI)
    show "distinct (map (\<lambda>r. (ar_tenant r, ar_key r)) ?new)" by (rule d)
    show "distinct (map (\<lambda>r. (ar_tenant r, ar_id r)) ?new)" using ids by (simp add: map_update_where)
    fix r assume "r \<in> set ?new"
    then obtain a where a: "a \<in> set ?rows" "r = (if ?P a then a\<lparr>ar_key := k'\<rparr> else a)" by (auto simp: set_update_where)
    then show "tenant_ok (ar_tenant r)" "key_ok (ar_key r)" "key_ok (ar_id r)"
      using rows k' by (auto simp: agents_ok_def)
    fix r' assume r': "r' \<in> set ?new" "ar_primary r \<and> ar_primary r' \<and> ar_tenant r = ar_tenant r'"
    then obtain b where b: "b \<in> set ?rows" "r' = (if ?P b then b\<lparr>ar_key := k'\<rparr> else b)" by (auto simp: set_update_where)
    have "a = b" using rows a b r'(2) by (auto simp: agents_ok_def split: if_splits)
    with a b show "r = r'" by simp
  qed
qed simp

lemma admin_rename_inv:
  assumes inv: "scope_inv now s" and t: "tenant_ok t" and k': "key_ok k'" and e: "admin_rename now ttl t k k' s = (r, s')"
  shows "scope_inv now s' \<and> (primary_of (ss_db s) t0 \<noteq> None \<longrightarrow> primary_of (ss_db s') t0 \<noteq> None)"
proof -
  have ok: "identity_ok (ss_db s)" using inv by (simp add: scope_inv_def)
  define db' where "db' i = ss_db s\<lparr>id_agents := update_where (\<lambda>x. (ar_tenant x, ar_id x) = (t, i))
    (\<lambda>x. x\<lparr>ar_key := k'\<rparr>) (id_agents (ss_db s))\<rparr>" for i
  consider "s' = s" | row where "agent_row_of (ss_db s) t k = Some row"
    "\<not> matches (\<lambda>x. (ar_tenant x, ar_key x) = (t, k') \<and> ar_id x \<noteq> ar_id row) (id_agents (ss_db s))"
    "s' = (let s2 = remember_agent_id now ttl t k' (ar_id row) (forget_agent_id now t (ar_key row) (s\<lparr>ss_db := db' (ar_id row)\<rparr>))
      in if ar_primary row then remember_primary_agent now ttl t k' (ar_id row) s2 else s2)"
    using e by (auto simp: admin_rename_def Let_def db'_def split: option.splits if_splits)
  then show ?thesis
  proof cases
    case 1
    with inv show ?thesis by simp
  next
    case 2
    let ?i = "ar_id row" and ?p = "ar_primary row" and ?db = "db' (ar_id row)"
    have at: "ar_tenant row = t" "ar_key row = k" "row \<in> set (id_agents (ss_db s))"
      using 2(1) by (simp_all add: agent_row_iff [OF ok])
    have row: "agent_in (ss_db s) t ?i k ?p" using row_agent_in [OF at(3)] at by simp
    have ok': "identity_ok ?db" using rename_ok [OF ok row k' 2(2)] by (simp only: db'_def)
    have other: "agent_in ?db t' i' l p'" if "agent_in (ss_db s) t' i' l p'" "(t', i') \<noteq> (t, ?i)" for t' i' l p'
      using update_row [OF agent_in_row [OF that(1)], of "\<lambda>x. (ar_tenant x, ar_id x) = (t, ?i)" "\<lambda>x. x\<lparr>ar_key := k'\<rparr>"] that(2)
      by (auto simp: agent_in_def db'_def split: if_splits)
    have new: "agent_in ?db t ?i k' ?p"
      using update_row [OF agent_in_row [OF row], of "\<lambda>x. (ar_tenant x, ar_id x) = (t, ?i)" "\<lambda>x. x\<lparr>ar_key := k'\<rparr>"]
      by (simp add: agent_in_def db'_def)
    have still: "primary_of ?db j = Some u" if "primary_of (ss_db s) j = Some u" "j \<noteq> t \<or> \<not> ?p" for j u
    proof (rule primary_kept [OF ok ok' _ that(1)])
      fix a b assume a: "agent_in (ss_db s) j a b True"
      moreover have "(j, a) \<noteq> (t, ?i)"
        using a that(2) agent_in_unique(2) [OF ok row, of b True] by auto
      ultimately show "agent_in ?db j a b True" by (rule other)
    qed
    have is_primary: "primary_of ?db t = Some (?i, k')" if ?p
      using primary_iff [OF ok', THEN iffD2, of t ?i k'] new that by simp
    define m where "m = (if ?p then set_cached now ttl t (?i, k') (ss_primary s) else ss_primary s)"
    have old: "coherent now (ss_primary s) (primary_of (ss_db s))" using inv by (simp add: scope_inv_def)
    have "coherent now m (primary_of ?db)"
    proof (cases ?p)
      case True
      with still is_primary show ?thesis by (auto simp: m_def intro: coherent_set_change [OF old])
    next
      case False
      with still show ?thesis by (auto simp: m_def intro: coherent_grow [OF old])
    qed
    from inv_forget [OF inv row ok' _ _ other this]
    have base: "scope_inv now (forget_agent_id now t k (s\<lparr>ss_db := ?db, ss_primary := m\<rparr>))" by (simp add: db'_def)
    let ?base = "forget_agent_id now t k (s\<lparr>ss_db := ?db, ss_primary := m\<rparr>)"
    have noted: "scope_inv now (note_agent now ttl t k' ?i ?base)"
      by (rule note_agent_inv [OF base, of t ?i k' ?p]) (use new in simp)
    have "scope_inv now (note_agent now ttl t k' ?i (note_agent now ttl t k' ?i ?base))"
      by (rule note_agent_inv [OF noted, of t ?i k' ?p]) (use new in simp)
    moreover have "s' = (if ?p then note_agent now ttl t k' ?i (note_agent now ttl t k' ?i ?base)
      else note_agent now ttl t k' ?i ?base)"
      unfolding 2(3) m_def at(2)
      by (simp add: Let_def remember_agent_id_def remember_primary_agent_def norm_key_id [OF k'] note_agent_primary
          forget_primary) (simp add: note_agent_def forget_agent_id_def Let_def split_def)
    moreover have "primary_of ?db t0 \<noteq> None" if "primary_of (ss_db s) t0 \<noteq> None"
      using still [of t0] is_primary that by (cases "t0 = t \<and> ?p") auto
    ultimately show ?thesis using noted by auto
  qed
qed

lemma resolve_scope_inv:
  assumes inv: "scope_inv now s" and fresh: "tenant_ok ft" "key_ok fa" "key_ok fw"
    and e: "resolve_scope_ids now ttl ft fa fw keys s = (r, s')"
  shows "scope_inv now s' \<and> grows (ss_db s) (ss_db s') \<and>
    (\<forall>ids. r = Inr ids \<longrightarrow> (case normalize_scope_keys keys of (tk, ak, wk) \<Rightarrow>
      tenant_ok (si_tenant ids) \<and> tenant_by_key (ss_db s') tk = Some (si_tenant ids) \<and>
      agent_by_key (ss_db s') (si_tenant ids) ak = Some (si_agent ids) \<and>
      workspace_by_key (ss_db s') (si_tenant ids) wk = Some (si_workspace ids) \<and>
      has_membership (ss_db s') (si_tenant ids) (si_agent ids) (si_workspace ids)))"
proof -
  obtain tk ak wk where n: "normalize_scope_keys keys = (tk, ak, wk)" by (cases "normalize_scope_keys keys")
  then have nk: "norm_key tk = tk" "norm_key ak = ak" "norm_key wk = wk"
    using or_default_ok by (auto simp: normalize_scope_keys_def norm_key_id)
  obtain rt s1 where et: "ensure_tenant_id now ttl ft tk s = (rt, s1)" by fastforce
  from ensure_tenant_inv [OF inv fresh(1) et] nk
  have s1: "scope_inv now s1" "grows (ss_db s) (ss_db s1)" "\<forall>i. rt = Inr i \<longrightarrow> tenant_ok i \<and> tenant_by_key (ss_db s1) tk = Some i"
    by auto
  show ?thesis
  proof (cases rt)
    case (Inl x)
    with e et n s1 show ?thesis by (auto simp: resolve_scope_ids_def)
  next
    case (Inr tn)
    with s1 have tn: "tenant_ok tn" "tenant_by_key (ss_db s1) tk = Some tn" by simp_all
    obtain ra s2 where ea: "ensure_agent_id now ttl fa tn ak s1 = (ra, s2)" by fastforce
    from ensure_agent_inv [OF s1(1) tn(1) fresh(2) ea] nk
    have s2: "scope_inv now s2" "grows (ss_db s1) (ss_db s2)" "\<forall>i. ra = Inr i \<longrightarrow> agent_by_key (ss_db s2) tn ak = Some i" by auto
    show ?thesis
    proof (cases ra)
      case (Inl x)
      with e et ea n s1 s2 Inr show ?thesis by (auto simp: resolve_scope_ids_def intro: grows_trans)
    next
      case (Inr a)
      obtain rw s3 where ew: "ensure_workspace_id now ttl fw tn wk s2 = (rw, s3)" by fastforce
      from ensure_workspace_inv [OF s2(1) tn(1) fresh(3) ew] nk
      have s3: "scope_inv now s3" "grows (ss_db s2) (ss_db s3)" "\<forall>i. rw = Inr i \<longrightarrow> workspace_by_key (ss_db s3) tn wk = Some i" by auto
      have ok: "identity_ok (ss_db s1)" "identity_ok (ss_db s2)" "identity_ok (ss_db s3)"
        using s1 s2 s3 by (simp_all add: scope_inv_def)
      have g: "grows (ss_db s) (ss_db s3)" "grows (ss_db s1) (ss_db s3)" using s1 s2 s3 grows_trans by blast+
      have e': "(case rw of Inl x \<Rightarrow> (Inl x, s3) | Inr w \<Rightarrow>
          (case ensure_membership tn a w (ss_db s3) of Inl x \<Rightarrow> (Inl x, s3)
           | Inr db \<Rightarrow> (Inr \<lparr>si_tenant = tn, si_agent = a, si_workspace = w\<rparr>, s3\<lparr>ss_db := db\<rparr>))) = (r, s')"
        using e by (simp only: resolve_scope_ids_def n et ea ew \<open>rt = Inr tn\<close> Inr prod.case sum.case)
      show ?thesis
      proof (cases "\<exists>w db. rw = Inr w \<and> ensure_membership tn a w (ss_db s3) = Inr db")
        case False
        have "s' = s3 \<and> (\<forall>ids. r \<noteq> Inr ids)"
        proof (cases rw)
          case (Inl x)
          with e' show ?thesis by auto
        next
          case (Inr w)
          with False obtain x where "ensure_membership tn a w (ss_db s3) = Inl x"
            by (cases "ensure_membership tn a w (ss_db s3)") auto
          with e' Inr show ?thesis by auto
        qed
        with s3 g show ?thesis by simp
      next
        case True
        then obtain w db where 2: "rw = Inr w" "ensure_membership tn a w (ss_db s3) = Inr db" by blast
        with e' have 3: "s' = s3\<lparr>ss_db := db\<rparr>" "r = Inr \<lparr>si_tenant = tn, si_agent = a, si_workspace = w\<rparr>" by simp_all
        note mem = membership_ok [OF ok(3) 2(2)]
        have same: "id_tenants db = id_tenants (ss_db s3)" "id_workspaces db = id_workspaces (ss_db s3)"
          "id_agents db = id_agents (ss_db s3)" by (subst mem(2), simp)+
        have inv': "scope_inv now s'"
          unfolding 3(1) by (rule inv_grow [OF s3(1) mem(1), of "[]" "[]"]) (use same in \<open>simp_all add: agent_in_def\<close>)
        have g3: "grows (ss_db s3) db" using same mem(4) by (auto simp: grows_def agent_in_def)
        have "tenant_by_key db tk = Some tn"
          by (rule grows_reads(3) [OF g3 ok(3) mem(1)], rule grows_reads(3) [OF g(2) ok(1,3)], rule tn(2))
        moreover have "agent_by_key db tn ak = Some a"
          by (rule grows_reads(1) [OF g3 ok(3) mem(1)], rule grows_reads(1) [OF s3(2) ok(2,3)]) (use s2(3) Inr in simp)
        moreover have "workspace_by_key db tn wk = Some w"
          by (rule grows_reads(2) [OF g3 ok(3) mem(1)]) (use s3(3) 2(1) in simp)
        ultimately have found: "tenant_by_key db tk = Some tn" "agent_by_key db tn ak = Some a"
          "workspace_by_key db tn wk = Some w" by simp_all
        show ?thesis using found inv' mem(3) tn(1) grows_trans [OF g(1) g3] n by (simp add: 3)
      qed
    qed
  qed
qed

subsection \<open>Any sequence of operations\<close>

text \<open>
  A step runs one operation at a time \<open>now\<close> not before the last one. Drawn ids are UUIDs (no
  colon, no surrounding blanks), keys given to the administration have passed the key schema.
\<close>

inductive scope_step :: "nat \<Rightarrow> nat \<times> scope_state \<Rightarrow> nat \<times> scope_state \<Rightarrow> bool" for ttl where
  step_tenant: "t0 \<le> now \<Longrightarrow> scope_step ttl (t0, s) (now, snd (resolve_tenant_id now ttl k s))"
| step_agent: "t0 \<le> now \<Longrightarrow> tenant_ok t \<Longrightarrow> scope_step ttl (t0, s) (now, snd (resolve_agent_id now ttl t k s))"
| step_key: "t0 \<le> now \<Longrightarrow> tenant_ok t \<Longrightarrow> scope_step ttl (t0, s) (now, snd (resolve_agent_key now ttl t i s))"
| step_primary: "t0 \<le> now \<Longrightarrow> scope_step ttl (t0, s) (now, snd (resolve_primary_agent now ttl t s))"
| step_workspace: "t0 \<le> now \<Longrightarrow> tenant_ok t \<Longrightarrow> scope_step ttl (t0, s) (now, snd (resolve_workspace_id now ttl t k s))"
| step_ensure: "t0 \<le> now \<Longrightarrow> tenant_ok ft \<Longrightarrow> key_ok fa \<Longrightarrow> key_ok fw \<Longrightarrow>
    scope_step ttl (t0, s) (now, snd (resolve_scope_ids now ttl ft fa fw keys s))"
| step_ensure_agent: "t0 \<le> now \<Longrightarrow> tenant_ok t \<Longrightarrow> key_ok f \<Longrightarrow>
    scope_step ttl (t0, s) (now, snd (ensure_agent_id now ttl f t k s))"
| step_ensure_workspace: "t0 \<le> now \<Longrightarrow> tenant_ok t \<Longrightarrow> key_ok f \<Longrightarrow>
    scope_step ttl (t0, s) (now, snd (ensure_workspace_id now ttl f t k s))"
| step_create: "t0 \<le> now \<Longrightarrow> tenant_ok t \<Longrightarrow> key_ok fw \<Longrightarrow> key_ok fa \<Longrightarrow> key_ok k \<Longrightarrow>
    scope_step ttl (t0, s) (now, snd (admin_create now ttl fw fa t k primary s))"
| step_delete: "t0 \<le> now \<Longrightarrow> tenant_ok t \<Longrightarrow> scope_step ttl (t0, s) (now, snd (admin_delete now t k busy s))"
| step_rename: "t0 \<le> now \<Longrightarrow> tenant_ok t \<Longrightarrow> key_ok k' \<Longrightarrow>
    scope_step ttl (t0, s) (now, snd (admin_rename now ttl t k k' s))"

lemma reads_step: "reads now v s out \<Longrightarrow> scope_inv now (snd out) \<and> primary_of (ss_db (snd out)) t = primary_of (ss_db s) t"
  by (simp add: reads_def)

lemma grows_step:
  "scope_inv now s \<Longrightarrow> scope_inv now s' \<Longrightarrow> grows (ss_db s) (ss_db s') \<Longrightarrow>
    primary_of (ss_db s) t \<noteq> None \<Longrightarrow> primary_of (ss_db s') t \<noteq> None"
  using grows_reads(5) by (auto simp: scope_inv_def)

lemma scope_step_inv:
  assumes "scope_step ttl (t0, s) (now, s')" "scope_inv t0 s"
  shows "scope_inv now s' \<and> (primary_of (ss_db s) tn \<noteq> None \<longrightarrow> primary_of (ss_db s') tn \<noteq> None)"
  using assms(1)
proof (cases rule: scope_step.cases)
  case (step_tenant k)
  with reads_step [OF resolve_tenant_reads [OF scope_inv_later [OF assms(2)]]] show ?thesis by simp
next
  case (step_agent t k)
  with reads_step [OF resolve_agent_reads [OF scope_inv_later [OF assms(2)]]] show ?thesis by simp
next
  case (step_key t i)
  with reads_step [OF resolve_key_reads [OF scope_inv_later [OF assms(2)]]] show ?thesis by simp
next
  case (step_primary t)
  with reads_step [OF resolve_primary_reads [OF scope_inv_later [OF assms(2)]]] show ?thesis by simp
next
  case (step_workspace t k)
  with reads_step [OF resolve_workspace_reads [OF scope_inv_later [OF assms(2)]]] show ?thesis by simp
next
  case (step_ensure ft fa fw keys)
  note inv = scope_inv_later [OF assms(2) step_ensure(2)]
  from resolve_scope_inv [OF inv step_ensure(3-5) prod.collapse [symmetric], of ttl keys] grows_step [OF inv]
  show ?thesis unfolding step_ensure(1) by blast
next
  case (step_ensure_agent t f k)
  note inv = scope_inv_later [OF assms(2) step_ensure_agent(2)]
  from ensure_agent_inv [OF inv step_ensure_agent(3,4) prod.collapse [symmetric], of ttl k] grows_step [OF inv]
  show ?thesis unfolding step_ensure_agent(1) by blast
next
  case (step_ensure_workspace t f k)
  note inv = scope_inv_later [OF assms(2) step_ensure_workspace(2)]
  from ensure_workspace_inv [OF inv step_ensure_workspace(3,4) prod.collapse [symmetric], of ttl k] grows_step [OF inv]
  show ?thesis unfolding step_ensure_workspace(1) by blast
next
  case (step_create t fw fa k primary)
  note inv = scope_inv_later [OF assms(2) step_create(2)]
  from admin_create_inv [OF inv step_create(3-6) prod.collapse [symmetric], of ttl primary tn]
  show ?thesis unfolding step_create(1) .
next
  case (step_delete t k busy)
  note inv = scope_inv_later [OF assms(2) step_delete(2)]
  from admin_delete_inv [OF inv step_delete(3) prod.collapse [symmetric], of k busy tn]
  show ?thesis unfolding step_delete(1) .
next
  case (step_rename t k' k)
  note inv = scope_inv_later [OF assms(2) step_rename(2)]
  from admin_rename_inv [OF inv step_rename(3,4) prod.collapse [symmetric], of ttl k tn]
  show ?thesis unfolding step_rename(1) .
qed

lemma scope_steps_inv:
  assumes "(scope_step ttl)\<^sup>*\<^sup>* (t0, s) (now, s')" "scope_inv t0 s"
  shows "scope_inv now s' \<and> (primary_of (ss_db s) tn \<noteq> None \<longrightarrow> primary_of (ss_db s') tn \<noteq> None)"
  using assms by (induction rule: rtranclp_induct2) (use scope_step_inv in blast)+

definition started :: "identity_db \<Rightarrow> scope_state" where
  "started db = \<lparr>ss_db = db, ss_tenants = [], ss_agents = [], ss_primary = [], ss_keys = [], ss_workspaces = []\<rparr>"

lemma started_inv: "identity_ok db \<Longrightarrow> scope_inv now (started db)"
  by (simp add: scope_inv_def started_def coherent_def paired_def)

text \<open>
  C22. The caches never lie: after any sequence of lookups, inserts, promotions, creations,
  renamings and deletions by one process, at any later time, every lookup through the caches
  answers what the tables say at that moment, and changes no table.
\<close>

theorem scope_caches_coherent:
  assumes "(scope_step ttl)\<^sup>*\<^sup>* (t0, started db) (now, s)" "identity_ok db" "now \<le> later" "tenant_ok t"
  shows "fst (resolve_agent_id later ttl t k s) = agent_by_key (ss_db s) t (norm_key k) \<and>
    fst (resolve_agent_key later ttl t i s) = agent_key_by_id (ss_db s) t (trim i) \<and>
    fst (resolve_primary_agent later ttl t s) = primary_of (ss_db s) t \<and>
    fst (resolve_workspace_id later ttl t k s) = workspace_by_key (ss_db s) t (norm_key k) \<and>
    fst (resolve_tenant_id later ttl k s) = tenant_by_key (ss_db s) (norm_key k) \<and>
    ss_db (snd (resolve_agent_id later ttl t k s)) = ss_db s \<and>
    ss_db (snd (resolve_primary_agent later ttl t s)) = ss_db s"
proof -
  have inv: "scope_inv later s"
    using scope_steps_inv [OF assms(1) started_inv [OF assms(2)]] assms(3) by (blast intro: scope_inv_later)
  then show ?thesis
    using resolve_agent_reads [OF inv assms(4), of k ttl] resolve_key_reads [OF inv assms(4), of i ttl]
      resolve_primary_reads [OF inv, of t ttl] resolve_workspace_reads [OF inv assms(4), of k ttl]
      resolve_tenant_reads [OF inv, of k ttl]
    by (simp add: reads_def)
qed

definition demo_identity :: identity_db where
  "demo_identity = \<lparr>id_tenants = [\<lparr>te_id = ''t'', te_key = ''default''\<rparr>],
    id_agents = [\<lparr>ar_tenant = ''t'', ar_id = ''1'', ar_key = ''default'', ar_primary = True\<rparr>,
      \<lparr>ar_tenant = ''t'', ar_id = ''2'', ar_key = ''b'', ar_primary = False\<rparr>],
    id_workspaces = [\<lparr>ws_tenant = ''t'', ws_id = ''w'', ws_key = ''default''\<rparr>],
    id_members = [(''t'', ''1'', ''w'')]\<rparr>"

lemma demo_keys [simp]: "tenant_ok ''t''" "key_ok ''default''" "key_ok ''b''" "key_ok ''c''" "key_ok ''1''" "key_ok ''2''"
  "key_ok ''w''" "norm_key ''c'' = ''c''"
  by code_simp+

lemma demo_identity_ok: "identity_ok demo_identity"
  by (simp add: identity_ok_def demo_identity_def agents_ok_def workspaces_ok_def tenants_ok_def references_ok_def)

lemma demo_renamed:
  "(scope_step 5)\<^sup>*\<^sup>* (0, started demo_identity)
    (2, snd (admin_rename 2 5 ''t'' ''b'' ''c'' (snd (resolve_agent_id 1 5 ''t'' ''b'' (started demo_identity)))))"
proof (rule rtranclp.rtrancl_into_rtrancl [OF r_into_rtranclp])
  show "scope_step 5 (0, started demo_identity) (1, snd (resolve_agent_id 1 5 ''t'' ''b'' (started demo_identity)))"
    by (rule step_agent) simp_all
  show "scope_step 5 (1, snd (resolve_agent_id 1 5 ''t'' ''b'' (started demo_identity)))
    (2, snd (admin_rename 2 5 ''t'' ''b'' ''c'' (snd (resolve_agent_id 1 5 ''t'' ''b'' (started demo_identity)))))"
    by (rule step_rename) simp_all
qed

lemma scope_caches_coherent_witness:
  "fst (resolve_agent_id 3 5 ''t'' ''c''
    (snd (admin_rename 2 5 ''t'' ''b'' ''c'' (snd (resolve_agent_id 1 5 ''t'' ''b'' (started demo_identity)))))) = Some ''2''"
proof -
  let ?s = "snd (admin_rename 2 5 ''t'' ''b'' ''c'' (snd (resolve_agent_id 1 5 ''t'' ''b'' (started demo_identity))))"
  have "agent_by_key (ss_db ?s) ''t'' ''c'' = Some ''2''" by code_simp
  with scope_caches_coherent [OF demo_renamed demo_identity_ok, of 3 "''t''" "''c''"] show ?thesis by simp
qed

text \<open>
  C23. The tables stay well-formed: in every reachable state ids and keys are unique, a tenant has
  at most one primary agent, no row refers to a missing one; and a tenant that has a primary agent
  never loses it.
\<close>

theorem identity_tables_wellformed:
  assumes "(scope_step ttl)\<^sup>*\<^sup>* (t0, started db) (now, s)" "identity_ok db"
  shows "identity_ok (ss_db s) \<and>
    (primary_of db t \<noteq> None \<longrightarrow> length (filter (\<lambda>r. ar_tenant r = t \<and> ar_primary r) (id_agents (ss_db s))) = 1)"
proof -
  from scope_steps_inv [OF assms(1) started_inv [OF assms(2)], of t]
  have ok: "identity_ok (ss_db s)" and p: "primary_of db t \<noteq> None \<longrightarrow> primary_of (ss_db s) t \<noteq> None"
    by (simp_all add: scope_inv_def started_def)
  let ?rows = "id_agents (ss_db s)" and ?P = "\<lambda>r. ar_tenant r = t \<and> ar_primary r"
  have "distinct ?rows" using ok by (auto simp: identity_ok_def agents_ok_def distinct_map)
  have "length (filter ?P ?rows) = 1" if "primary_of (ss_db s) t = Some (i, k)" for i k
  proof -
    let ?r = "\<lparr>ar_tenant = t, ar_id = i, ar_key = k, ar_primary = True\<rparr>"
    have a: "?r \<in> set ?rows" using that primary_iff [OF ok] by (simp add: agent_in_def)
    have u: "\<forall>r \<in> set ?rows. \<forall>r' \<in> set ?rows. ar_primary r \<and> ar_primary r' \<and> ar_tenant r = ar_tenant r' \<longrightarrow> r = r'"
      using ok by (simp add: identity_ok_def agents_ok_def)
    have "b = ?r" if b: "b \<in> set ?rows" "?P b" for b
      using u [rule_format, OF b(1) a] b(2) by simp
    then have "b \<in> {?r}" if "b \<in> set (filter ?P ?rows)" for b using that by force
    then have "set (filter ?P ?rows) \<subseteq> {?r}" by (rule subsetI)
    moreover have "{?r} \<subseteq> set (filter ?P ?rows)" using a by simp
    ultimately have "set (filter ?P ?rows) = {?r}" by (rule subset_antisym)
    with distinct_card [OF distinct_filter [OF \<open>distinct ?rows\<close>], of ?P] show ?thesis by simp
  qed
  with ok p show ?thesis by auto
qed

lemma identity_tables_wellformed_witness:
  "length (filter (\<lambda>r. ar_tenant r = ''t'' \<and> ar_primary r) (id_agents (ss_db
    (snd (admin_rename 2 5 ''t'' ''b'' ''c'' (snd (resolve_agent_id 1 5 ''t'' ''b'' (started demo_identity)))))))) = 1"
proof -
  have "primary_of demo_identity ''t'' \<noteq> None" by (simp add: primary_of_def demo_identity_def)
  with identity_tables_wellformed [OF demo_renamed demo_identity_ok, of "''t''"] show ?thesis by blast
qed

text \<open>
  What is ensured is found again: when the ids of a scope have been ensured, resolving the same
  keys at any later time finds exactly these ids and writes no row.
\<close>

theorem scope_roundtrip:
  assumes "(scope_step ttl)\<^sup>*\<^sup>* (t0, started db) (now, s)" "identity_ok db"
    and fresh: "tenant_ok ft" "key_ok fa" "key_ok fw"
    and e: "resolve_scope_ids now ttl ft fa fw keys s = (Inr ids, s')" and "now \<le> later"
  shows "fst (resolve_existing_scope_ids later ttl keys s') = Some ids \<and>
    ss_db (snd (resolve_existing_scope_ids later ttl keys s')) = ss_db s'"
proof -
  have "scope_inv now s" using scope_steps_inv [OF assms(1) started_inv [OF assms(2)]] by blast
  note raw = resolve_scope_inv [OF this fresh e]
  have all: "scope_inv now s'" "case normalize_scope_keys keys of (tk, ak, wk) \<Rightarrow>
      tenant_ok (si_tenant ids) \<and> tenant_by_key (ss_db s') tk = Some (si_tenant ids) \<and>
      agent_by_key (ss_db s') (si_tenant ids) ak = Some (si_agent ids) \<and>
      workspace_by_key (ss_db s') (si_tenant ids) wk = Some (si_workspace ids) \<and>
      has_membership (ss_db s') (si_tenant ids) (si_agent ids) (si_workspace ids)"
    by (rule raw [THEN conjunct1], rule raw [THEN conjunct2, THEN conjunct2, rule_format, OF refl])
  obtain tk ak wk where n: "normalize_scope_keys keys = (tk, ak, wk)" by (cases "normalize_scope_keys keys")
  then have nk: "norm_key tk = tk" "norm_key ak = ak" "norm_key wk = wk"
    using or_default_ok by (auto simp: normalize_scope_keys_def norm_key_id)
  note found = all(2) [unfolded n prod.case]
  have inv: "scope_inv later s'" using all(1) assms(7) by (rule scope_inv_later)
  obtain r1 s1 where e1: "resolve_tenant_id later ttl tk s' = (r1, s1)" by fastforce
  note r1 = readsD [OF resolve_tenant_reads [OF inv] e1]
  obtain r2 s2 where e2: "resolve_agent_id later ttl (si_tenant ids) ak s1 = (r2, s2)" by fastforce
  note r2 = readsD [OF resolve_agent_reads [OF r1(3)] e2]
  obtain r3 s3 where e3: "resolve_workspace_id later ttl (si_tenant ids) wk s2 = (r3, s3)" by fastforce
  note r3 = readsD [OF resolve_workspace_reads [OF r2(3)] e3]
  have "r1 = Some (si_tenant ids)" "r2 = Some (si_agent ids)" "r3 = Some (si_workspace ids)" "ss_db s3 = ss_db s'"
    using found r1 r2 r3 nk by simp_all
  with e1 e2 e3 n found show ?thesis
    by (simp add: resolve_existing_scope_ids_def resolve_existing_for_tenant_def)
qed

lemma scope_roundtrip_witness:
  "fst (resolve_existing_scope_ids 9 5 \<lparr>sk_tenant = None, sk_agent = Some ''c'', sk_workspace = None\<rparr>
    (snd (resolve_scope_ids 1 5 ''u'' ''3'' ''v'' \<lparr>sk_tenant = None, sk_agent = Some ''c'', sk_workspace = None\<rparr>
      (started demo_identity)))) = Some \<lparr>si_tenant = ''t'', si_agent = ''3'', si_workspace = ''w''\<rparr>"
proof -
  let ?keys = "\<lparr>sk_tenant = None, sk_agent = Some ''c'', sk_workspace = None\<rparr>"
  obtain r s where e: "resolve_scope_ids 1 5 ''u'' ''3'' ''v'' ?keys (started demo_identity) = (r, s)" by fastforce
  have "fst (resolve_scope_ids 1 5 ''u'' ''3'' ''v'' ?keys (started demo_identity)) =
      Inr \<lparr>si_tenant = ''t'', si_agent = ''3'', si_workspace = ''w''\<rparr>" by code_simp
  then have r: "r = Inr \<lparr>si_tenant = ''t'', si_agent = ''3'', si_workspace = ''w''\<rparr>" unfolding e fst_conv .
  have "tenant_ok ''u''" "key_ok ''3''" "key_ok ''v''" by code_simp+
  from scope_roundtrip [OF rtranclp.rtrancl_refl demo_identity_ok this e [unfolded r], of 9]
  show ?thesis unfolding e snd_conv by simp
qed

end
