(* ===== verification/Plan_Service.thy ===== *)
theory Plan_Service
  imports Actions Policy_Engine Audit_Log Identity_Coherence
begin

text \<open>
  The plan service \<open>gateway/src/modules/planner/service.ts\<close>: it reads a spend directive from the
  request's tags, asks the policy and the wallet, builds the steps and files the decision in the audit
  log. The service takes its policy evaluator and wallet as arguments, and so does the model; the risk
  classifier (floating point) is the parameter \<open>classify\<close>.
\<close>

subsection \<open>Actions and plans\<close>

record plan_action =
  pa_type :: action_kind
  pa_args :: "(string, json) omap"
  pa_post :: "json option"

record plan_escalation =
  ps_step_index :: nat
  ps_action :: plan_action
  ps_rationale :: "string option"

record plan_error =
  px_code :: string
  px_message :: string
  px_detail :: "string option"
  px_retryable :: bool

datatype plan_outcome =
    PlanSuccess "plan_action list" string
  | PlanEscalate plan_escalation
  | PlanFailure plan_error

fun outcome_status :: "plan_outcome \<Rightarrow> string" where
  "outcome_status (PlanSuccess _ _) = ''success''"
| "outcome_status (PlanEscalate _) = ''escalate''"
| "outcome_status (PlanFailure _) = ''failure''"

record plan_request =
  pq_request_id :: string
  pq_tags :: "string list"

subsection \<open>Spend directives\<close>

record spend_directive =
  sd_amount :: int
  sd_currency :: string
  sd_merchant :: "string option"

definition parse_spend_tag :: "string \<Rightarrow> spend_directive option" where
  "parse_spend_tag tag =
    (if \<not> starts_with tag ''spend:'' \<or> drop 6 tag = [] then None
     else case split_on (CHR '':'') (drop 6 tag) of
       amount # currency # rest \<Rightarrow>
         if amount = [] \<or> currency = [] then None
         else (case parse_int amount of
                 None \<Rightarrow> None
               | Some n \<Rightarrow> Some \<lparr>sd_amount = n, sd_currency = to_upper currency,
                   sd_merchant = (case rest of [] \<Rightarrow> None
                     | m # _ \<Rightarrow> if m = [] then None
                         else Some (map (\<lambda>c. if c = CHR ''_'' then CHR '' '' else c) m))\<rparr>)
     | _ \<Rightarrow> None)"

fun extract_spend_directive :: "string list \<Rightarrow> spend_directive option" where
  "extract_spend_directive [] = None"
| "extract_spend_directive (tag # tags) =
    (case parse_spend_tag tag of Some d \<Rightarrow> Some d | None \<Rightarrow> extract_spend_directive tags)"

definition sanitize_detail :: "string \<Rightarrow> string" where
  "sanitize_detail s = map (\<lambda>c. if is_digit c then CHR ''*'' else c) s"

definition wallet_guardrail_note :: string where
  "wallet_guardrail_note = ''Spend guardrail enforced by wallet authorization.''"

definition guardrail_message :: "string \<Rightarrow> string" where
  "guardrail_message reason =
    (if reason = [] then wallet_guardrail_note else reason @ [CHR 0x0A] @ wallet_guardrail_note)"

subsection \<open>Steps\<close>

definition research_step :: plan_action where
  "research_step = \<lparr>pa_type = Research, pa_args = [(''intent'', JStr ''collect_clarifying_details''),
    (''notes'', JStr ''Review memory and prior commitments'')], pa_post = None\<rparr>"

definition fallback_execution_step :: plan_action where
  "fallback_execution_step = \<lparr>pa_type = Web, pa_args = [(''executor'', JStr ''generic-web''), (''intent'', JStr ''fallback_automation'')],
    pa_post = Some (JObj [(''assertions'', JArr [JObj [(''type'', JStr ''dom_contains''), (''text'', JStr ''<'')]]),
      (''metadata'', JObj [(''status'', JStr ''completed''), (''executor'', JStr ''generic-web'')])])\<rparr>"

definition follow_up_step :: "plan_request \<Rightarrow> plan_action" where
  "follow_up_step request = \<lparr>pa_type = Message, pa_args = [(''channel'', JStr ''internal''),
    (''body'', JStr (''Summarize discovery path for single-user workspace request '' @ pq_request_id request))],
    pa_post = Some (JObj [(''status'', JStr ''queued'')])\<rparr>"

definition wallet_pay_step :: "spend_directive \<Rightarrow> plan_action" where
  "wallet_pay_step d = \<lparr>pa_type = Pay,
    pa_args = [(''amount_minor_units'', JNum (sd_amount d)), (''currency'', JStr (sd_currency d))] @
      (case sd_merchant d of None \<Rightarrow> [] | Some m \<Rightarrow> if m = [] then [] else [(''merchant'', JStr m)]),
    pa_post = Some (JObj [(''status'', JStr ''authorized''), (''provider'', JStr ''wallet_stub'')])\<rparr>"

definition build_plan_steps :: "plan_request \<Rightarrow> spend_directive option \<Rightarrow> plan_action list" where
  "build_plan_steps request directive =
    [research_step, fallback_execution_step] @
    (case directive of None \<Rightarrow> [] | Some d \<Rightarrow> [wallet_pay_step d]) @ [follow_up_step request]"

record spend_request =
  sq_step_index :: nat
  sq_amount :: int
  sq_currency :: string
  sq_merchant :: "string option"

fun first_spend_request :: "nat \<Rightarrow> plan_action list \<Rightarrow> spend_request option" where
  "first_spend_request idx [] = None"
| "first_spend_request idx (step # steps) =
    (if pa_type step \<noteq> Pay then first_spend_request (Suc idx) steps
     else case (om_get (pa_args step) ''amount_minor_units'', om_get (pa_args step) ''currency'') of
       (Some (JNum amount), Some (JStr currency)) \<Rightarrow>
         Some \<lparr>sq_step_index = idx, sq_amount = amount, sq_currency = currency,
           sq_merchant = (case om_get (pa_args step) ''merchant'' of Some (JStr m) \<Rightarrow> Some m | _ \<Rightarrow> None)\<rparr>
     | _ \<Rightarrow> first_spend_request (Suc idx) steps)"

record risk_spend =
  rk_amount :: int
  rk_currency :: string
  rk_merchant :: "string option"

definition spend_request_to_context :: "spend_request \<Rightarrow> risk_spend" where
  "spend_request_to_context r = \<lparr>rk_amount = sq_amount r, rk_currency = sq_currency r, rk_merchant = sq_merchant r\<rparr>"

definition directive_to_spend_context :: "spend_directive \<Rightarrow> risk_spend" where
  "directive_to_spend_context d = \<lparr>rk_amount = sd_amount d, rk_currency = sd_currency d, rk_merchant = sd_merchant d\<rparr>"

subsection \<open>Escalations and failures\<close>

fun rule_text :: "rule_kind \<Rightarrow> string" where
  "rule_text SpendLimitRule = ''spend_limit''"
| "rule_text PiiGuardrailRule = ''pii_guardrail''"
| "rule_text LegalComplianceRule = ''legal_compliance''"
| "rule_text ConnectorScopeRule = ''connector_scope''"
| "rule_text ToolPolicyRule = ''tool_policy''"
| "rule_text NetworkEgressRule = ''network_egress''"
| "rule_text SecretsRule = ''secrets''"
| "rule_text ProvenanceRule = ''provenance''"
| "rule_text PolicyOverrideRule = ''policy_override''"

definition relevant_rules :: "decision \<Rightarrow> policy_verdict \<Rightarrow> policy_rule list" where
  "relevant_rules d v =
    (let rs = filter (\<lambda>r. pr_outcome r = d) (vd_rules v) in if rs = [] then vd_rules v else rs)"

definition newline :: string where
  "newline = [CHR 0x0A]"

definition text_or_none :: "string \<Rightarrow> string option" where
  "text_or_none s = (if s = [] then None else Some s)"

definition build_policy_escalation :: "policy_verdict \<Rightarrow> plan_escalation" where
  "build_policy_escalation v =
    (let rules = relevant_rules RequireApproval v in
     \<lparr>ps_step_index = 0,
      ps_action = \<lparr>pa_type = Confirm,
        pa_args = [(''prompt'', JStr ''Policy review required before execution.''),
          (''context'', JObj [(''decision'', JStr ''escalate''),
            (''rules'', JArr (map (\<lambda>r. JObj [(''rule'', JStr (rule_text (pr_rule r))), (''detail'', JStr (pr_detail r))]) rules))])],
        pa_post = None\<rparr>,
      ps_rationale = text_or_none (join_with newline (map (\<lambda>r. rule_text (pr_rule r) @ '': '' @ pr_detail r) rules))\<rparr>)"

definition build_policy_failure :: "policy_verdict \<Rightarrow> plan_error" where
  "build_policy_failure v =
    (let rules = relevant_rules Deny v in
     \<lparr>px_code = ''policy_denied'', px_message = ''Policy gate denied the plan'',
      px_detail = (if rules = [] then None
        else text_or_none (join_with newline (map (\<lambda>r. rule_text (pr_rule r) @ '': '' @ sanitize_detail (pr_detail r)) rules))),
      px_retryable = False\<rparr>)"

definition build_wallet_escalation :: "nat \<Rightarrow> string \<Rightarrow> plan_escalation" where
  "build_wallet_escalation step reason =
    \<lparr>ps_step_index = step,
     ps_action = \<lparr>pa_type = Confirm,
       pa_args = [(''prompt'', JStr ''Confirm wallet spend before continuing execution.''),
         (''context'', JObj [(''decision'', JStr ''escalate''), (''reason'', JStr reason), (''note'', JStr wallet_guardrail_note)])],
       pa_post = None\<rparr>,
     ps_rationale = Some (guardrail_message reason)\<rparr>"

definition build_wallet_denial_error :: "string \<Rightarrow> plan_error" where
  "build_wallet_denial_error reason =
    \<lparr>px_code = ''policy_denied'', px_message = ''Wallet authorization denied'',
     px_detail = Some (guardrail_message reason), px_retryable = False\<rparr>"

subsection \<open>The outcome\<close>

datatype bus_event =
    BusEscalated string nat
  | BusFailed string string
  | BusCompleted string nat

type_synonym evaluator = "policy_check \<Rightarrow> policy_verdict"
type_synonym authorizer = "string option \<Rightarrow> int \<Rightarrow> string \<Rightarrow> thresholds \<Rightarrow> authorize_response"

record outcome_resolution =
  or_outcome :: plan_outcome
  or_verdict :: policy_verdict
  or_risk_spend :: "risk_spend option"
  or_events :: "bus_event list"

definition policy_request :: "spend_directive option \<Rightarrow> policy_check" where
  "policy_request directive =
    \<lparr>pc_spend = map_option (\<lambda>d. \<lparr>sc_amount = sd_amount d, sc_currency = sd_currency d, sc_user_limit = None\<rparr>) directive,
     pc_pii = Some [], pc_legal = Some [], pc_connector = None\<rparr>"

definition allowed_outcome ::
  "string \<Rightarrow> authorizer \<Rightarrow> thresholds \<Rightarrow> plan_request \<Rightarrow> spend_directive option \<Rightarrow> plan_outcome \<times> risk_spend option \<times> bus_event list" where
  "allowed_outcome plan_id authorize th request directive =
    (let steps = build_plan_steps request directive;
         success = PlanSuccess steps (''Falling back to automation for the local workspace'' @
           (case directive of None \<Rightarrow> [] | Some d \<Rightarrow> ''; collect authorized spend in '' @ sd_currency d))
     in case first_spend_request 0 steps of
          None \<Rightarrow> (success, None, [])
        | Some spend \<Rightarrow>
            (let answer = authorize (Some plan_id) (sq_amount spend) (sq_currency spend) th;
                 reason = sanitize_detail (wr_reason answer);
                 captured = Some (spend_request_to_context spend)
             in case wr_decision answer of
                  WalletApprove \<Rightarrow> (success, captured, [])
                | WalletEscalate \<Rightarrow> (PlanEscalate (build_wallet_escalation (sq_step_index spend) reason), captured,
                    [BusEscalated plan_id (sq_step_index spend)])
                | WalletDeny \<Rightarrow> (PlanFailure (build_wallet_denial_error reason), captured,
                    [BusFailed plan_id ''wallet_denied''])))"

definition resolve_plan_outcome ::
  "string \<Rightarrow> evaluator \<Rightarrow> authorizer \<Rightarrow> thresholds \<Rightarrow> plan_request \<Rightarrow> outcome_resolution" where
  "resolve_plan_outcome plan_id evaluate authorize th request =
    (let directive = extract_spend_directive (pq_tags request);
         verdict = evaluate (policy_request directive);
         fallback = map_option directive_to_spend_context directive
     in case vd_decision verdict of
          Allow \<Rightarrow>
            (case allowed_outcome plan_id authorize th request directive of
               (outcome, captured, events) \<Rightarrow>
                 \<lparr>or_outcome = outcome, or_verdict = verdict,
                  or_risk_spend = (if captured = None then fallback else captured), or_events = events\<rparr>)
        | RequireApproval \<Rightarrow>
            \<lparr>or_outcome = PlanEscalate (build_policy_escalation verdict), or_verdict = verdict,
             or_risk_spend = fallback, or_events = [BusEscalated plan_id 0]\<rparr>
        | Deny \<Rightarrow>
            \<lparr>or_outcome = PlanFailure (build_policy_failure verdict), or_verdict = verdict,
             or_risk_spend = fallback, or_events = [BusFailed plan_id ''policy_denied'']\<rparr>)"

subsection \<open>Creating a plan\<close>

datatype plan_log =
    LogEnsureFailed string audit_error
  | LogAuditFailed string audit_error
  | LogCreated string string string string string nat

record plan_world =
  pw_scope :: scope_state
  pw_audit :: audit_db
  pw_bus :: "bus_event list"
  pw_log :: "plan_log list"

text \<open>The collaborators of the service, and what one call draws from the clock and the generators.\<close>

record plan_deps =
  dp_evaluate :: evaluator
  dp_authorize :: authorizer
  dp_thresholds :: thresholds
  dp_classify :: "string list \<Rightarrow> risk_spend option \<Rightarrow> json"
  dp_sha :: "string \<Rightarrow> string"
  dp_collate :: "string \<Rightarrow> string"
  dp_secrets :: "string list option"
  dp_ttl :: nat

record plan_draw =
  dr_now :: nat
  dr_created_at :: string
  dr_plan_id :: string
  dr_trace_id :: string
  dr_replay_id :: string
  dr_workspace_uuid :: string
  dr_plan_uuid :: string
  dr_audit_uuid :: string

record plan_result =
  pt_plan_id :: string
  pt_request_id :: string
  pt_created_at :: string
  pt_trace_id :: string
  pt_outcome :: plan_outcome

definition format_plan_id :: "string \<Rightarrow> string" where
  "format_plan_id uuid = ''plan-'' @ filter (\<lambda>c. c \<noteq> CHR ''-'') uuid"

fun verdict_text :: "decision \<Rightarrow> string" where
  "verdict_text Allow = ''allow''"
| "verdict_text RequireApproval = ''require_approval''"
| "verdict_text Deny = ''deny''"

text \<open>The plan row; a failure of \<open>ensurePlanId\<close> is logged, one of the scope is thrown.\<close>

definition ensure_planner_plan_record ::
  "plan_deps \<Rightarrow> plan_draw \<Rightarrow> string \<Rightarrow> string \<Rightarrow> string \<Rightarrow> plan_world \<Rightarrow> (scope_error + unit) \<times> plan_world" where
  "ensure_planner_plan_record d r tenant agent status w =
    (case ensure_workspace_id (dr_now r) (dp_ttl d) (dr_workspace_uuid r) tenant default_key (pw_scope w) of
       (Inl e, s) \<Rightarrow> (Inl e, w\<lparr>pw_scope := s\<rparr>)
     | (Inr ws, s) \<Rightarrow>
         (case ensure_membership tenant agent ws (ss_db s) of
            Inl e \<Rightarrow> (Inl e, w\<lparr>pw_scope := s\<rparr>)
          | Inr db \<Rightarrow>
              (case ensure_plan_id tenant (dr_plan_id r) agent ws ''planner'' status (dr_plan_uuid r) (pw_audit w) of
                 (Inr _, a) \<Rightarrow> (Inr (), w\<lparr>pw_scope := s\<lparr>ss_db := db\<rparr>, pw_audit := a\<rparr>)
               | (Inl e, a) \<Rightarrow> (Inr (), w\<lparr>pw_scope := s\<lparr>ss_db := db\<rparr>, pw_audit := a,
                   pw_log := pw_log w @ [LogEnsureFailed (dr_plan_id r) e]\<rparr>))))"

definition append_decision_audit ::
  "plan_deps \<Rightarrow> plan_draw \<Rightarrow> string \<Rightarrow> json \<Rightarrow> plan_world \<Rightarrow> plan_world" where
  "append_decision_audit d r tenant action w =
    (case append_event (dp_sha d) (dp_collate d) (dp_secrets d)
       \<lparr>ne_tenant = tenant, ne_replay = dr_replay_id r, ne_plan_key = dr_plan_id r, ne_occurred = dr_created_at r,
        ne_action = action\<rparr> max_step (dr_audit_uuid r) (dr_now r) (pw_audit w) of
       (Inr _, a) \<Rightarrow> w\<lparr>pw_audit := a\<rparr>
     | (Inl e, a) \<Rightarrow> w\<lparr>pw_audit := a, pw_log := pw_log w @ [LogAuditFailed (dr_plan_id r) e]\<rparr>)"

definition decision_action :: "plan_deps \<Rightarrow> plan_draw \<Rightarrow> plan_request \<Rightarrow> outcome_resolution \<Rightarrow> json" where
  "decision_action d r request res =
    JObj [(''plan_id'', JStr (dr_plan_id r)), (''request_id'', JStr (pq_request_id request)),
      (''policy_decision'', JStr (verdict_text (vd_decision (or_verdict res)))),
      (''risk'', dp_classify d (pq_tags request) (or_risk_spend res)),
      (''outcome_status'', JStr (outcome_status (or_outcome res)))]"

definition steps_count :: "plan_outcome \<Rightarrow> nat" where
  "steps_count o' = (case o' of PlanSuccess steps _ \<Rightarrow> length steps | _ \<Rightarrow> 0)"

definition announce_plan :: "plan_draw \<Rightarrow> plan_request \<Rightarrow> outcome_resolution \<Rightarrow> plan_world \<Rightarrow> plan_world" where
  "announce_plan r request res w =
    w\<lparr>pw_bus := pw_bus w @ (case or_outcome res of PlanSuccess steps _ \<Rightarrow> [BusCompleted (dr_plan_id r) (length steps)] | _ \<Rightarrow> []),
      pw_log := pw_log w @ [LogCreated (pq_request_id request) (dr_plan_id r) (dr_trace_id r)
        (verdict_text (vd_decision (or_verdict res))) (outcome_status (or_outcome res)) (steps_count (or_outcome res))]\<rparr>"

definition create_plan ::
  "plan_deps \<Rightarrow> plan_draw \<Rightarrow> string \<Rightarrow> plan_request \<Rightarrow> plan_world \<Rightarrow> (scope_error + plan_result) \<times> plan_world" where
  "create_plan d r tenant request w =
    (let res = resolve_plan_outcome (dr_plan_id r) (dp_evaluate d) (dp_authorize d) (dp_thresholds d) request;
         w1 = w\<lparr>pw_bus := pw_bus w @ or_events res\<rparr>
     in case require_primary_agent_id (dr_now r) (dp_ttl d) tenant (pw_scope w1) of
          (Inl e, s) \<Rightarrow> (Inl e, w1\<lparr>pw_scope := s\<rparr>)
        | (Inr agent, s) \<Rightarrow>
            (case ensure_planner_plan_record d r tenant agent (outcome_status (or_outcome res)) (w1\<lparr>pw_scope := s\<rparr>) of
               (Inl e, w2) \<Rightarrow> (Inl e, w2)
             | (Inr _, w2) \<Rightarrow>
                 (Inr \<lparr>pt_plan_id = dr_plan_id r, pt_request_id = pq_request_id request, pt_created_at = dr_created_at r,
                    pt_trace_id = dr_trace_id r, pt_outcome = or_outcome res\<rparr>,
                  announce_plan r request res (append_decision_audit d r tenant (decision_action d r request res) w2))))"

definition default_deps ::
  "(string list \<Rightarrow> risk_spend option \<Rightarrow> json) \<Rightarrow> (string \<Rightarrow> string) \<Rightarrow> (string \<Rightarrow> string) \<Rightarrow> string list option \<Rightarrow> nat \<Rightarrow> plan_deps" where
  "default_deps classify sha collate secrets ttl =
    \<lparr>dp_evaluate = evaluate_policy, dp_authorize = authorize_with_thresholds, dp_thresholds = default_thresholds,
     dp_classify = classify, dp_sha = sha, dp_collate = collate, dp_secrets = secrets, dp_ttl = ttl\<rparr>"

subsection \<open>What a plan's outcome depends on\<close>

lemma first_spend_built:
  "first_spend_request 0 (build_plan_steps request directive) =
    map_option (\<lambda>d. \<lparr>sq_step_index = 2, sq_amount = sd_amount d, sq_currency = sd_currency d,
      sq_merchant = (case sd_merchant d of Some m \<Rightarrow> text_or_none m | None \<Rightarrow> None)\<rparr>) directive"
  by (cases directive) (auto simp: build_plan_steps_def research_step_def fallback_execution_step_def
      follow_up_step_def wallet_pay_step_def om_get_def text_or_none_def numeral_2_eq_2 split: option.split)

lemma policy_on_plan:
  "vd_decision (evaluate_policy (policy_request directive)) =
    (case directive of None \<Rightarrow> RequireApproval
     | Some d \<Rightarrow> if hard_deny_limit < sd_amount d then Deny
         else if auto_approve_limit < sd_amount d then RequireApproval else Allow)"
  by (cases directive) (auto simp: verdict_decision evaluate_policy_def policy_request_def evaluate_spend_def evaluate_pii_def
      evaluate_legal_def evaluate_connector_scope_def overall_decision_def Let_def)

lemma allowed_default:
  assumes "sd_amount d \<le> 10000"
  shows "fst (allowed_outcome i authorize_with_thresholds default_thresholds request (Some d)) =
    PlanSuccess [research_step, fallback_execution_step, wallet_pay_step d, follow_up_step request]
      (''Falling back to automation for the local workspace; collect authorized spend in '' @ sd_currency d)"
proof -
  have "wr_decision (authorize_with_thresholds (Some i) (sd_amount d) (sd_currency d) default_thresholds) = WalletApprove"
    using assms by (simp add: authorize_with_thresholds_def default_thresholds_def Let_def)
  then show ?thesis
    by (simp add: allowed_outcome_def first_spend_built Let_def) (simp add: build_plan_steps_def)
qed

text \<open>
  With the default policy and wallet a plan's outcome is decided by the first tag that parses as
  a spend directive: up to the auto-approval limit the plan succeeds and pays exactly that amount in
  that currency, up to the hard limit it is escalated, above it fails. Without such a tag the plan is
  always escalated.
\<close>

theorem plan_outcome_by_spend:
  "case extract_spend_directive (pq_tags request) of
     None \<Rightarrow> outcome_status (or_outcome (resolve_plan_outcome i evaluate_policy authorize_with_thresholds default_thresholds request)) = ''escalate''
   | Some d \<Rightarrow>
       or_outcome (resolve_plan_outcome i evaluate_policy authorize_with_thresholds default_thresholds request) =
         (if sd_amount d \<le> 10000
          then PlanSuccess [research_step, fallback_execution_step, wallet_pay_step d, follow_up_step request]
            (''Falling back to automation for the local workspace; collect authorized spend in '' @ sd_currency d)
          else if sd_amount d \<le> 50000
          then PlanEscalate (build_policy_escalation (evaluate_policy (policy_request (Some d))))
          else PlanFailure (build_policy_failure (evaluate_policy (policy_request (Some d)))))"
proof (cases "extract_spend_directive (pq_tags request)")
  case None
  with policy_on_plan [of None] show ?thesis by (simp add: resolve_plan_outcome_def Let_def)
next
  case (Some d)
  note verdict = policy_on_plan [of "Some d", unfolded option.case hard_deny_limit_def auto_approve_limit_def]
  consider "sd_amount d \<le> 10000" | "10000 < sd_amount d" "sd_amount d \<le> 50000" | "50000 < sd_amount d" by linarith
  then show ?thesis
  proof cases
    case 1
    with verdict have "vd_decision (evaluate_policy (policy_request (Some d))) = Allow" by simp
    with allowed_default [OF 1] Some 1 show ?thesis by (simp add: resolve_plan_outcome_def split_def Let_def)
  next
    case 2
    with verdict have "vd_decision (evaluate_policy (policy_request (Some d))) = RequireApproval" by simp
    with Some 2 show ?thesis by (simp add: resolve_plan_outcome_def Let_def)
  next
    case 3
    with verdict have "vd_decision (evaluate_policy (policy_request (Some d))) = Deny" by simp
    with Some 3 show ?thesis by (simp add: resolve_plan_outcome_def Let_def)
  qed
qed

lemma outcome_cases:
  obtains
    (allowed) outcome captured events where "vd_decision (evaluate (policy_request (extract_spend_directive (pq_tags request)))) = Allow"
      "allowed_outcome i authorize th request (extract_spend_directive (pq_tags request)) = (outcome, captured, events)"
      "or_outcome (resolve_plan_outcome i evaluate authorize th request) = outcome"
  | (escalated) "vd_decision (evaluate (policy_request (extract_spend_directive (pq_tags request)))) = RequireApproval"
      "or_outcome (resolve_plan_outcome i evaluate authorize th request) =
        PlanEscalate (build_policy_escalation (evaluate (policy_request (extract_spend_directive (pq_tags request)))))"
  | (denied) "vd_decision (evaluate (policy_request (extract_spend_directive (pq_tags request)))) = Deny"
      "or_outcome (resolve_plan_outcome i evaluate authorize th request) =
        PlanFailure (build_policy_failure (evaluate (policy_request (extract_spend_directive (pq_tags request)))))"
proof (cases "vd_decision (evaluate (policy_request (extract_spend_directive (pq_tags request))))")
  case Allow
  obtain outcome captured events where
    "allowed_outcome i authorize th request (extract_spend_directive (pq_tags request)) = (outcome, captured, events)"
    by (cases "allowed_outcome i authorize th request (extract_spend_directive (pq_tags request))")
  with Allow show ?thesis by (intro allowed) (simp_all add: resolve_plan_outcome_def Let_def)
next
  case RequireApproval
  then show ?thesis by (intro escalated) (simp_all add: resolve_plan_outcome_def Let_def)
next
  case Deny
  then show ?thesis by (intro denied) (simp_all add: resolve_plan_outcome_def Let_def)
qed

text \<open>What a wallet approved of: a payment of exactly this amount and currency.\<close>

definition authorized :: "authorizer \<Rightarrow> thresholds \<Rightarrow> string \<Rightarrow> plan_action \<Rightarrow> bool" where
  "authorized authorize th i step \<longleftrightarrow>
    (case (om_get (pa_args step) ''amount_minor_units'', om_get (pa_args step) ''currency'') of
       (Some (JNum n), Some (JStr c)) \<Rightarrow> wr_decision (authorize (Some i) n c th) = WalletApprove
     | _ \<Rightarrow> False)"

definition step_safe :: "authorizer \<Rightarrow> thresholds \<Rightarrow> string \<Rightarrow> plan_action \<Rightarrow> bool" where
  "step_safe authorize th i step \<longleftrightarrow>
    (requires_postcondition (pa_type step) \<longrightarrow> pa_post step \<noteq> None) \<and>
    (pa_type step = Pay \<longrightarrow> authorized authorize th i step)"

lemma built_steps_safe:
  assumes "\<And>d. directive = Some d \<Longrightarrow> wr_decision (authorize (Some i) (sd_amount d) (sd_currency d) th) = WalletApprove"
  shows "list_all (step_safe authorize th i) (build_plan_steps request directive)"
  using assms by (cases directive) (simp_all add: build_plan_steps_def research_step_def fallback_execution_step_def
      follow_up_step_def wallet_pay_step_def step_safe_def authorized_def requires_postcondition_def om_get_def)

text \<open>
  C39. Whatever policy and wallet the service is given: a plan succeeds only if the policy allowed
  the request; every payment among its steps was approved by the wallet for exactly its amount and
  currency; and every step that changes external state states a postcondition.
\<close>

theorem success_is_authorized:
  assumes "or_outcome (resolve_plan_outcome i evaluate authorize th request) = PlanSuccess steps synopsis"
  shows "vd_decision (evaluate (policy_request (extract_spend_directive (pq_tags request)))) = Allow \<and>
    list_all (step_safe authorize th i) steps"
proof (cases rule: outcome_cases [of evaluate request i authorize th])
  case (allowed outcome captured events)
  let ?d = "extract_spend_directive (pq_tags request)"
  have o: "fst (allowed_outcome i authorize th request ?d) = PlanSuccess steps synopsis"
    using allowed(2,3) assms by simp
  have "steps = build_plan_steps request ?d \<and>
      (\<forall>d. ?d = Some d \<longrightarrow> wr_decision (authorize (Some i) (sd_amount d) (sd_currency d) th) = WalletApprove)"
  proof (cases ?d)
    case None
    with o show ?thesis by (simp add: allowed_outcome_def first_spend_built Let_def)
  next
    case (Some d)
    with o show ?thesis
      by (cases "wr_decision (authorize (Some i) (sd_amount d) (sd_currency d) th)")
        (simp_all add: allowed_outcome_def first_spend_built Let_def)
  qed
  with allowed(1) built_steps_safe [of ?d authorize i th request] show ?thesis by simp
qed (use assms in simp_all)

lemma success_is_authorized_witness:
  "list_all (step_safe authorize_with_thresholds \<lparr>th_auto_approve = 7, th_hard_deny = 9\<rparr> ''p'')
    (build_plan_steps \<lparr>pq_request_id = ''r'', pq_tags = [''spend:5:eur'']\<rparr> (Some \<lparr>sd_amount = 5, sd_currency = ''EUR'', sd_merchant = None\<rparr>))"
proof -
  define r where "r = \<lparr>pq_request_id = ''r'', pq_tags = [''spend:5:eur'']\<rparr>"
  let ?d = "\<lparr>sd_amount = 5, sd_currency = ''EUR'', sd_merchant = None\<rparr>"
  let ?th = "\<lparr>th_auto_approve = 7, th_hard_deny = 9\<rparr>"
  have tag: "extract_spend_directive (pq_tags r) = Some ?d"
    unfolding r_def by code_simp
  have "vd_decision (evaluate_policy (policy_request (Some ?d))) = Allow"
    unfolding policy_on_plan by (simp add: hard_deny_limit_def auto_approve_limit_def)
  then have "\<exists>synopsis. or_outcome (resolve_plan_outcome ''p'' evaluate_policy authorize_with_thresholds ?th r) =
      PlanSuccess (build_plan_steps r (Some ?d)) synopsis"
    by (simp add: resolve_plan_outcome_def tag allowed_outcome_def first_spend_built authorize_with_thresholds_def Let_def)
  with success_is_authorized have "list_all (step_safe authorize_with_thresholds ?th ''p'') (build_plan_steps r (Some ?d))"
    by blast
  then show ?thesis unfolding r_def .
qed

text \<open>
  Failures tell no amounts: whatever policy and wallet the service is given, the detail of a
  failed plan contains no digit, and neither does the rationale of an escalation the wallet asked for.
\<close>

theorem failure_details_masked:
  "case or_outcome (resolve_plan_outcome i evaluate authorize th request) of
     PlanFailure x \<Rightarrow> filter is_digit (case px_detail x of None \<Rightarrow> [] | Some s \<Rightarrow> s) = []
   | PlanEscalate e \<Rightarrow>
       vd_decision (evaluate (policy_request (extract_spend_directive (pq_tags request)))) \<noteq> Allow \<or>
       filter is_digit (case ps_rationale e of None \<Rightarrow> [] | Some s \<Rightarrow> s) = []
   | PlanSuccess _ _ \<Rightarrow> True"
proof -
  have masked: "filter is_digit (sanitize_detail s) = []" for s
    by (auto simp: sanitize_detail_def filter_empty_conv is_digit_def)
  have rule: "filter is_digit (rule_text k) = []" for k
    by (induction k) code_simp+
  have joined: "filter is_digit (join_with newline ss) = []" if "\<forall>s \<in> set ss. filter is_digit s = []" for ss
    using that by (induction newline ss rule: join_with.induct) (simp_all add: newline_def is_digit_def)
  have guard: "filter is_digit (guardrail_message s) = []" if "filter is_digit s = []" for s
  proof -
    have "filter is_digit ([CHR 0x0A] @ wallet_guardrail_note) = []" "filter is_digit wallet_guardrail_note = []"
      by code_simp+
    with that show ?thesis by (simp add: guardrail_message_def)
  qed
  have policy: "filter is_digit (case px_detail (build_policy_failure v) of None \<Rightarrow> [] | Some s \<Rightarrow> s) = []" for v
  proof -
    have "filter is_digit (join_with newline (map (\<lambda>r. rule_text (pr_rule r) @ '': '' @ sanitize_detail (pr_detail r)) (relevant_rules Deny v))) = []"
      by (rule joined) (simp add: rule masked is_digit_def)
    then show ?thesis by (simp add: build_policy_failure_def Let_def text_or_none_def)
  qed
  have wallet: "case outcome of
      PlanFailure x \<Rightarrow> filter is_digit (case px_detail x of None \<Rightarrow> [] | Some s \<Rightarrow> s) = []
    | PlanEscalate e \<Rightarrow> filter is_digit (case ps_rationale e of None \<Rightarrow> [] | Some s \<Rightarrow> s) = []
    | PlanSuccess _ _ \<Rightarrow> True" if "allowed_outcome i authorize th request d = (outcome, captured, events)" for outcome captured events d
    using that guard [OF masked]
    by (auto simp: allowed_outcome_def Let_def build_wallet_denial_error_def build_wallet_escalation_def
        split: option.splits authorization_decision.splits)
  show ?thesis
  proof (cases rule: outcome_cases [of evaluate request i authorize th])
    case (allowed outcome captured events)
    from wallet [OF allowed(2)] allowed(3) show ?thesis by (cases outcome) simp_all
  next
    case escalated
    then show ?thesis by simp
  next
    case denied
    with policy show ?thesis by simp
  qed
qed

subsection \<open>The decision is filed in the audit log\<close>

lemma create_plan_cases:
  assumes "create_plan d r tn request w = (Inr result, w')"
  obtains agent ws w2 where
    "ensure_planner_plan_record d r tn agent
       (outcome_status (or_outcome (resolve_plan_outcome (dr_plan_id r) (dp_evaluate d) (dp_authorize d) (dp_thresholds d) request)))
       w2 = (Inr (), ws)"
    "pw_audit w2 = pw_audit w"
    "pw_audit w' = pw_audit (append_decision_audit d r tn (decision_action d r request
       (resolve_plan_outcome (dr_plan_id r) (dp_evaluate d) (dp_authorize d) (dp_thresholds d) request)) ws)"
proof -
  let ?res = "resolve_plan_outcome (dr_plan_id r) (dp_evaluate d) (dp_authorize d) (dp_thresholds d) request"
  let ?w1 = "w\<lparr>pw_bus := pw_bus w @ or_events ?res\<rparr>"
  obtain agent s where a: "require_primary_agent_id (dr_now r) (dp_ttl d) tn (pw_scope ?w1) = (Inr agent, s)"
    using assms by (cases "require_primary_agent_id (dr_now r) (dp_ttl d) tn (pw_scope ?w1)")
      (auto simp: create_plan_def Let_def split: sum.splits)
  obtain ws where e: "ensure_planner_plan_record d r tn agent (outcome_status (or_outcome ?res)) (?w1\<lparr>pw_scope := s\<rparr>) = (Inr (), ws)"
    using assms a by (cases "ensure_planner_plan_record d r tn agent (outcome_status (or_outcome ?res)) (?w1\<lparr>pw_scope := s\<rparr>)")
      (auto simp: create_plan_def Let_def split: sum.splits)
  have "pw_audit w' = pw_audit (append_decision_audit d r tn (decision_action d r request ?res) ws)"
    using assms a e by (auto simp: create_plan_def Let_def announce_plan_def)
  then show ?thesis by (intro that [OF e]) simp_all
qed

lemma plan_record_audit:
  assumes "ensure_planner_plan_record d r tn agent status w = (Inr (), w')"
  shows "\<exists>ws. pw_audit w' = snd (ensure_plan_id tn (dr_plan_id r) agent ws ''planner'' status (dr_plan_uuid r) (pw_audit w))"
  using assms by (auto simp: ensure_planner_plan_record_def split: prod.splits sum.splits) (metis snd_conv)+

lemma new_plan_row:
  assumes "trim k = k" "k \<noteq> []" "\<not> matches (\<lambda>p. pl_tenant p = tn \<and> pl_key p = k) (au_plans db)"
    and "\<not> matches (\<lambda>p. pl_tenant p = tn \<and> pl_id p = f) (au_plans db)" "f \<noteq> []"
    and "db' = snd (ensure_plan_id tn k agent ws kind status f db)"
  shows "plan_by_key tn k db' = Some f" "au_events db' = au_events db" "au_postgres db' = au_postgres db"
proof -
  have "find (\<lambda>p. pl_tenant p = tn \<and> pl_key p = k) (au_plans db) = None"
    using assms(3) by (simp add: matches_iff find_None_iff)
  then have "plan_by_key tn k db = None" by (simp add: plan_by_key_def)
  with assms have db': "db' = db\<lparr>au_plans := au_plans db @ [\<lparr>pl_tenant = tn, pl_id = f, pl_key = k, pl_agent = agent,
      pl_workspace = ws, pl_kind = kind, pl_status = status\<rparr>]\<rparr>"
    by (simp add: ensure_plan_id_def Let_def)
  show "plan_by_key tn k db' = Some f" "au_events db' = au_events db" "au_postgres db' = au_postgres db"
    unfolding db' plan_by_key_def
    using \<open>find _ _ = None\<close> assms(5) by (simp_all add: find_append)
qed

text \<open>A draw is fresh for a log when neither the plan's key nor its row id is in use.\<close>

definition fresh_draw :: "plan_draw \<Rightarrow> string \<Rightarrow> audit_db \<Rightarrow> bool" where
  "fresh_draw r tn db \<longleftrightarrow> trim tn \<noteq> [] \<and> trim (dr_plan_id r) = dr_plan_id r \<and> dr_plan_id r \<noteq> [] \<and> dr_plan_uuid r \<noteq> [] \<and>
    \<not> matches (\<lambda>p. pl_tenant p = tn \<and> pl_key p = dr_plan_id r) (au_plans db) \<and>
    \<not> matches (\<lambda>p. pl_tenant p = tn \<and> pl_id p = dr_plan_uuid r) (au_plans db) \<and>
    \<not> matches (\<lambda>e. pv_tenant e = tn \<and> pv_plan e = dr_plan_uuid r) (au_events db)"

lemma fresh_no_events:
  assumes "\<not> matches (\<lambda>e. pv_tenant e = tn \<and> pv_plan e = u) (au_events db)" "au_events db' = au_events db"
  shows "plan_events tn u db' = []"
  using assms by (auto simp: plan_events_def matches_iff filter_empty_conv)

lemma created_plan_log:
  assumes created: "create_plan d r tn request w = (Inr result, w')" and fresh: "fresh_draw r tn (pw_audit w)"
  shows "get_by_key tn (dr_plan_id r) (pw_audit w') = Some (dr_plan_uuid r) \<and> au_postgres (pw_audit w') = au_postgres (pw_audit w) \<and>
    (\<exists>e. plan_events tn (dr_plan_uuid r) (pw_audit w') = [e] \<and> pv_step e = max_step \<and> pv_prev e = None \<and>
      pv_action e = json_text (redacted_action (dp_collate d) (dp_secrets d) (decision_action d r request
        (resolve_plan_outcome (dr_plan_id r) (dp_evaluate d) (dp_authorize d) (dp_thresholds d) request))))"
proof -
  let ?res = "resolve_plan_outcome (dr_plan_id r) (dp_evaluate d) (dp_authorize d) (dp_thresholds d) request"
  let ?k = "dr_plan_id r" and ?u = "dr_plan_uuid r"
  from create_plan_cases [OF created] obtain agent w1 w2 where
    c: "ensure_planner_plan_record d r tn agent (outcome_status (or_outcome ?res)) w2 = (Inr (), w1)"
    "pw_audit w2 = pw_audit w"
    "pw_audit w' = pw_audit (append_decision_audit d r tn (decision_action d r request ?res) w1)" .
  from plan_record_audit [OF c(1)] obtain ws where
    a1: "pw_audit w1 = snd (ensure_plan_id tn ?k agent ws ''planner'' (outcome_status (or_outcome ?res)) ?u (pw_audit w))"
    unfolding c(2) by blast
  have f: "trim ?k = ?k" "?k \<noteq> []" "?u \<noteq> []" "trim tn \<noteq> []"
    "\<not> matches (\<lambda>p. pl_tenant p = tn \<and> pl_key p = ?k) (au_plans (pw_audit w))"
    "\<not> matches (\<lambda>p. pl_tenant p = tn \<and> pl_id p = ?u) (au_plans (pw_audit w))"
    "\<not> matches (\<lambda>e. pv_tenant e = tn \<and> pv_plan e = ?u) (au_events (pw_audit w))"
    using fresh by (simp_all add: fresh_draw_def)
  note row = new_plan_row [OF f(1,2,5,6,3) a1]
  have none: "plan_events tn ?u (pw_audit w1) = []" by (rule fresh_no_events [OF f(7) row(2)])
  define ev where "ev = \<lparr>ne_tenant = tn, ne_replay = dr_replay_id r, ne_plan_key = ?k, ne_occurred = dr_created_at r,
    ne_action = decision_action d r request ?res\<rparr>"
  define e where "e = append_row (dp_sha d) (dp_collate d) (dp_secrets d) ev ?u max_step (dr_now r) (pw_audit w1)"
  have planned: "planned ev (dr_audit_uuid r) (pw_audit w1) = (Inr ?u, pw_audit w1)"
    using f(1,2) row(1) by (simp add: planned_def ev_def ensure_plan_id_def)
  have e: "pv_tenant e = tn" "pv_plan e = ?u" "pv_step e = max_step" "pv_prev e = None"
    "pv_action e = json_text (redacted_action (dp_collate d) (dp_secrets d) (decision_action d r request ?res))"
    using none by (simp_all add: e_def append_row_def event_row_def ev_def last_hash_def last_event_def)
  have unused: "\<not> matches (\<lambda>x. pv_tenant x = tn \<and> pv_plan x = ?u \<and> pv_step x = max_step) (au_events (pw_audit w1))"
    using f(7) row(2) by (auto simp: matches_iff)
  have ins: "insert_event e (pw_audit w1) = (Inr e, (pw_audit w1)\<lparr>au_events := au_events (pw_audit w1) @ [e]\<rparr>)"
    using unused e by (simp add: insert_event_def max_step_def)
  have "append_event (dp_sha d) (dp_collate d) (dp_secrets d) ev max_step (dr_audit_uuid r) (dr_now r) (pw_audit w1) =
      (Inr (Some e), (pw_audit w1)\<lparr>au_events := au_events (pw_audit w1) @ [e]\<rparr>)"
    using f(1,2,4) planned unused ins
    by (simp add: append_event_def append_tx_def e_def [symmetric]) (simp add: ev_def max_step_def)
  then have a2: "pw_audit w' = (pw_audit w1)\<lparr>au_events := au_events (pw_audit w1) @ [e]\<rparr>"
    by (simp add: c(3) append_decision_audit_def ev_def)
  have "plan_events tn ?u (pw_audit w') = [e]"
    using f(7) row(2) e(1,2) unfolding a2 plan_events_def by (simp add: matches_iff filter_empty_conv)
  moreover have "get_by_key tn ?k (pw_audit w') = Some ?u"
    using row(1) f(1,2) by (simp add: a2 get_by_key_def plan_by_key_def)
  ultimately show ?thesis using e row(3) by (simp add: a2)
qed

text \<open>
  Every created plan leaves exactly one decision in the audit log: under the plan's key, at
  the last step, unlinked to earlier events, with the policy decision, risk and outcome that were
  resolved, as far as redaction leaves them.
\<close>

theorem created_plan_audited:
  assumes "create_plan d r tn request w = (Inr result, w')" and "fresh_draw r tn (pw_audit w)"
  shows "get_by_key tn (dr_plan_id r) (pw_audit w') = Some (dr_plan_uuid r) \<and>
    (\<exists>e. plan_events tn (dr_plan_uuid r) (pw_audit w') = [e] \<and> pv_step e = max_step \<and> pv_prev e = None \<and>
      pv_action e = json_text (redacted_action (dp_collate d) (dp_secrets d) (decision_action d r request
        (resolve_plan_outcome (dr_plan_id r) (dp_evaluate d) (dp_authorize d) (dp_thresholds d) request))))"
  using created_plan_log [OF assms] by blast

text \<open>
  What the plan service files can never be forgotten on PostgreSQL: after a plan has been
  created, every forget request for its key, with whatever decision, fails and leaves the log as it was.
\<close>

theorem created_plan_unforgettable:
  assumes "create_plan d r tn request w = (Inr result, w')" and "fresh_draw r tn (pw_audit w)"
    and "au_postgres (pw_audit w)"
  shows "\<exists>x. forget_events sha tn agent ws ty (dr_plan_id r) decision f replay occurred now (pw_audit w') = (Inl x, pw_audit w')"
proof -
  from created_plan_log [OF assms(1,2)] obtain e where
    l: "get_by_key tn (dr_plan_id r) (pw_audit w') = Some (dr_plan_uuid r)" "au_postgres (pw_audit w') = au_postgres (pw_audit w)"
    "plan_events tn (dr_plan_uuid r) (pw_audit w') = [e]" "pv_step e = max_step" by blast
  show ?thesis by (rule forget_blocked [OF _ l(1) _ l(4)]) (use l assms(3) in simp_all)
qed

lemma create_plan_succeeds:
  assumes "require_primary_agent_id (dr_now r) (dp_ttl d) tn (pw_scope w) = (Inr agent, s)"
    and "\<And>status bus. fst (ensure_planner_plan_record d r tn agent status (w\<lparr>pw_bus := bus, pw_scope := s\<rparr>)) = Inr ()"
  shows "\<exists>result w'. create_plan d r tn request w = (Inr result, w')"
proof -
  let ?res = "resolve_plan_outcome (dr_plan_id r) (dp_evaluate d) (dp_authorize d) (dp_thresholds d) request"
  obtain w2 where "ensure_planner_plan_record d r tn agent (outcome_status (or_outcome ?res))
      (w\<lparr>pw_bus := pw_bus w @ or_events ?res, pw_scope := s\<rparr>) = (Inr (), w2)"
    using assms(2) by (metis prod.collapse)
  with assms(1) show ?thesis by (simp add: create_plan_def Let_def)
qed

definition demo_deps :: plan_deps where
  "demo_deps = default_deps (\<lambda>_ _. JNull) id id None 5"

definition demo_draw :: plan_draw where
  "demo_draw = \<lparr>dr_now = 1, dr_created_at = ''1'', dr_plan_id = ''p'', dr_trace_id = ''x'', dr_replay_id = ''y'',
    dr_workspace_uuid = ''v'', dr_plan_uuid = ''u'', dr_audit_uuid = ''z''\<rparr>"

definition demo_world :: plan_world where
  "demo_world = \<lparr>pw_scope = started demo_identity, pw_audit = empty_audit, pw_bus = [], pw_log = []\<rparr>"

lemma demo_created: "\<exists>result w'. create_plan demo_deps demo_draw ''t'' request demo_world = (Inr result, w')"
proof (rule create_plan_succeeds)
  show "require_primary_agent_id (dr_now demo_draw) (dp_ttl demo_deps) ''t'' (pw_scope demo_world) =
      (Inr ''1'', snd (require_primary_agent_id (dr_now demo_draw) (dp_ttl demo_deps) ''t'' (pw_scope demo_world)))"
    by code_simp
  show "fst (ensure_planner_plan_record demo_deps demo_draw ''t'' ''1'' status (demo_world\<lparr>pw_bus := bus,
      pw_scope := snd (require_primary_agent_id (dr_now demo_draw) (dp_ttl demo_deps) ''t'' (pw_scope demo_world))\<rparr>)) = Inr ()"
    for status bus by code_simp
qed

lemma demo_fresh: "fresh_draw demo_draw ''t'' (pw_audit demo_world)" "au_postgres (pw_audit demo_world)"
  by code_simp+

lemma created_plan_audited_witness:
  "\<exists>w' e. plan_events ''t'' ''u'' (pw_audit w') = [e] \<and> pv_step e = max_step \<and>
    (\<exists>result. create_plan demo_deps demo_draw ''t'' \<lparr>pq_request_id = ''r'', pq_tags = [''spend:5:EUR'']\<rparr> demo_world = (Inr result, w'))"
proof -
  obtain result w' where c: "create_plan demo_deps demo_draw ''t'' \<lparr>pq_request_id = ''r'', pq_tags = [''spend:5:EUR'']\<rparr> demo_world =
      (Inr result, w')" using demo_created by blast
  have "dr_plan_uuid demo_draw = ''u''" by (simp add: demo_draw_def)
  with created_plan_audited [OF c demo_fresh(1)] c show ?thesis by auto
qed

lemma created_plan_unforgettable_witness:
  "\<exists>w' x. forget_events id ''t'' ''1'' ''w'' ''plan'' ''p'' ForgetDelete ''f'' ''y'' ''2'' 2 (pw_audit w') = (Inl x, pw_audit w') \<and>
    (\<exists>result. create_plan demo_deps demo_draw ''t'' \<lparr>pq_request_id = ''r'', pq_tags = [''spend:5:EUR'']\<rparr> demo_world = (Inr result, w'))"
proof -
  obtain result w' where c: "create_plan demo_deps demo_draw ''t'' \<lparr>pq_request_id = ''r'', pq_tags = [''spend:5:EUR'']\<rparr> demo_world =
      (Inr result, w')" using demo_created by blast
  have "dr_plan_id demo_draw = ''p''" by (simp add: demo_draw_def)
  with created_plan_unforgettable [OF c demo_fresh, of id "''1''" "''w''" "''plan''" ForgetDelete "''f''" "''y''" "''2''" 2] c
  show ?thesis by auto
qed

end
