(* ===== verification/Plan_Machine.thy ===== *)
theory Plan_Machine
  imports Prelude
begin

text \<open>
  The plan state machine, \<open>gateway/src/modules/planner/state-machine.ts\<close>. Times are arguments;
  an event that does not fit the state throws, which is \<open>Inl\<close>, and leaves the machine as it is.
\<close>

datatype failure_reason = PolicyDenied | UserDeclined | PostconditionFailed | ExecutorFailed | PlanCancelled

datatype plan_status =
    Draft
  | AwaitingPolicyReview
  | PlanReady int
  | AwaitingHumanConfirmation int
  | AwaitingPostcondition int
  | Succeeded nat int
  | Failed nat "int option" failure_reason "string option"

datatype plan_event =
    SubmittedForPolicy
  | PolicyApproved
  | PolicyDenial string
  | StepDispatched int
  | RequiresHumanConfirmation int
  | HumanApproved int
  | HumanRejected int "string option"
  | PostconditionSatisfied int
  | PostconditionFailure int string
  | ExecutorFailure int string
  | Cancellation "string option"

record plan_machine =
  pm_total :: int
  pm_executed :: int
  pm_status :: plan_status

datatype transition_error = PlanTransitionError plan_status plan_event

definition new_machine :: "int \<Rightarrow> plan_machine" where
  "new_machine all = \<lparr>pm_total = all, pm_executed = 0, pm_status = Draft\<rparr>"

definition advance_or_complete :: "nat \<Rightarrow> plan_machine \<Rightarrow> plan_machine" where
  "advance_or_complete now m =
    m\<lparr>pm_status := if pm_total m \<le> pm_executed m then Succeeded now (pm_executed m) else PlanReady (pm_executed m)\<rparr>"

definition step_done :: "nat \<Rightarrow> plan_machine \<Rightarrow> plan_machine" where
  "step_done now m = advance_or_complete now (m\<lparr>pm_executed := pm_executed m + 1\<rparr>)"

definition apply_event :: "nat \<Rightarrow> plan_event \<Rightarrow> plan_machine \<Rightarrow> transition_error + plan_machine" where
  "apply_event now event m =
    (let fail = Inl (PlanTransitionError (pm_status m) event);
         to = (\<lambda>s. Inr (m\<lparr>pm_status := s\<rparr>))
     in case pm_status m of
       Draft \<Rightarrow> (case event of SubmittedForPolicy \<Rightarrow> to AwaitingPolicyReview | _ \<Rightarrow> fail)
     | AwaitingPolicyReview \<Rightarrow>
         (case event of
            PolicyApproved \<Rightarrow> to (if pm_total m = 0 then Succeeded now 0 else PlanReady (pm_executed m))
          | PolicyDenial d \<Rightarrow> to (Failed now None PolicyDenied (Some d))
          | _ \<Rightarrow> fail)
     | PlanReady next \<Rightarrow>
         (case event of
            StepDispatched i \<Rightarrow> if i = next then to (AwaitingPostcondition i) else fail
          | RequiresHumanConfirmation i \<Rightarrow> if i = next then to (AwaitingHumanConfirmation i) else fail
          | Cancellation d \<Rightarrow> to (Failed now None PlanCancelled d)
          | _ \<Rightarrow> fail)
     | AwaitingHumanConfirmation step \<Rightarrow>
         (case event of
            HumanApproved i \<Rightarrow> if i = step then Inr (step_done now m) else fail
          | HumanRejected i d \<Rightarrow> if i = step then to (Failed now (Some step) UserDeclined d) else fail
          | Cancellation d \<Rightarrow> to (Failed now (Some step) PlanCancelled d)
          | _ \<Rightarrow> fail)
     | AwaitingPostcondition step \<Rightarrow>
         (case event of
            PostconditionSatisfied i \<Rightarrow> if i = step then Inr (step_done now m) else fail
          | PostconditionFailure i d \<Rightarrow>
              if i = step then to (Failed now (Some step) PostconditionFailed (Some d)) else fail
          | ExecutorFailure i d \<Rightarrow> if i = step then to (Failed now (Some step) ExecutorFailed (Some d)) else fail
          | Cancellation d \<Rightarrow> to (Failed now (Some step) PlanCancelled d)
          | _ \<Rightarrow> fail)
     | Succeeded _ _ \<Rightarrow> fail
     | Failed _ _ _ _ \<Rightarrow> fail)"

subsection \<open>Every step is confirmed once and in order\<close>

text \<open>The steps an accepted event completes.\<close>

fun completes :: "plan_event \<Rightarrow> int list" where
  "completes (HumanApproved i) = [i]"
| "completes (PostconditionSatisfied i) = [i]"
| "completes _ = []"

text \<open>A run applies events and skips the refused ones; it records the steps completed by accepted ones.\<close>

fun run_plan :: "(nat \<times> plan_event) list \<Rightarrow> plan_machine \<Rightarrow> int list \<times> plan_machine" where
  "run_plan [] m = ([], m)"
| "run_plan ((now, e) # es) m =
    (case apply_event now e m of
       Inl _ \<Rightarrow> run_plan es m
     | Inr m' \<Rightarrow> (case run_plan es m' of (steps, m'') \<Rightarrow> (completes e @ steps, m'')))"

definition machine_inv :: "int \<Rightarrow> int list \<Rightarrow> plan_machine \<Rightarrow> bool" where
  "machine_inv all steps m \<longleftrightarrow> pm_total m = all \<and> 0 \<le> all \<and> 0 \<le> pm_executed m \<and>
    steps = [0..pm_executed m - 1] \<and>
    (case pm_status m of
       Draft \<Rightarrow> pm_executed m = 0
     | AwaitingPolicyReview \<Rightarrow> pm_executed m = 0
     | PlanReady i \<Rightarrow> i = pm_executed m \<and> i < all
     | AwaitingHumanConfirmation i \<Rightarrow> i = pm_executed m \<and> i < all
     | AwaitingPostcondition i \<Rightarrow> i = pm_executed m \<and> i < all
     | Succeeded _ n \<Rightarrow> n = all \<and> pm_executed m = all
     | Failed _ i _ _ \<Rightarrow> pm_executed m \<le> all \<and> (i = None \<or> i = Some (pm_executed m)))"

lemma inv_new: "0 \<le> all \<Longrightarrow> machine_inv all [] (new_machine all)"
  by (simp add: machine_inv_def new_machine_def)

lemma upto_snoc: "0 \<le> (n :: int) \<Longrightarrow> [0..n - 1] @ [n] = [0..n]"
  by (simp add: upto_rec2)

lemma inv_step_done:
  assumes "machine_inv all steps m" "pm_executed m < all"
  shows "machine_inv all (steps @ [pm_executed m]) (step_done now m)"
  using assms upto_snoc [of "pm_executed m"]
  by (auto simp: machine_inv_def step_done_def advance_or_complete_def)

lemma inv_apply:
  assumes "machine_inv all steps m" "apply_event now e m = Inr m'"
  shows "machine_inv all (steps @ completes e) m'"
proof (cases "completes e")
  case Nil
  with assms show ?thesis
    by (cases "pm_status m"; cases e) (auto simp: apply_event_def machine_inv_def Let_def split: if_splits)
next
  case (Cons i rest)
  with assms have "m' = step_done now m" "completes e = [pm_executed m]" "pm_executed m < all"
    by (cases "pm_status m"; cases e; auto simp: apply_event_def machine_inv_def Let_def split: if_splits)+
  then show ?thesis using inv_step_done assms(1) by simp
qed

lemma plan_run_inv: "machine_inv all steps m \<Longrightarrow> run_plan es m = (steps', m') \<Longrightarrow> machine_inv all (steps @ steps') m'"
proof (induction es m arbitrary: steps steps' m' rule: run_plan.induct)
  case (2 now e es m)
  show ?case
  proof (cases "apply_event now e m")
    case (Inl x)
    with 2 show ?thesis by simp
  next
    case (Inr m1)
    obtain s1 m2 where r: "run_plan es m1 = (s1, m2)" by fastforce
    from 2(2) [OF Inr inv_apply [OF 2(3) Inr] r] 2(4) Inr r show ?thesis by simp
  qed
qed simp

text \<open>
  A plan succeeds only through all its steps: whatever events arrive, in whatever order, the
  steps that were confirmed are 0, 1, 2, ... each once and in order; the plan is successful only when
  these are all its steps, and the step it waits for is always the next one.
\<close>

theorem plan_steps_in_order:
  assumes "0 \<le> all" "run_plan events (new_machine all) = (steps, m)"
  shows "steps = [0..int (length steps) - 1] \<and> int (length steps) \<le> all \<and>
    (case pm_status m of
       Succeeded _ n \<Rightarrow> n = all \<and> steps = [0..all - 1]
     | PlanReady i \<Rightarrow> i = int (length steps) \<and> i < all
     | AwaitingHumanConfirmation i \<Rightarrow> i = int (length steps) \<and> i < all
     | AwaitingPostcondition i \<Rightarrow> i = int (length steps) \<and> i < all
     | _ \<Rightarrow> True)"
proof -
  have inv: "machine_inv all steps m"
    using plan_run_inv [OF inv_new [OF assms(1)] assms(2)] by simp
  then have "int (length steps) = pm_executed m" "pm_executed m \<le> all"
    by (auto simp: machine_inv_def split: plan_status.splits)
  with inv show ?thesis by (auto simp: machine_inv_def split: plan_status.splits)
qed

lemma plan_steps_in_order_witness:
  "fst (run_plan [(1, SubmittedForPolicy), (2, PolicyApproved), (3, StepDispatched 0), (4, PostconditionSatisfied 0),
     (5, StepDispatched 0), (6, RequiresHumanConfirmation 1), (7, HumanApproved 1)] (new_machine 2)) = [0..2 - 1]"
proof -
  let ?es = "[(1, SubmittedForPolicy), (2, PolicyApproved), (3, StepDispatched 0), (4, PostconditionSatisfied 0),
     (5, StepDispatched 0), (6, RequiresHumanConfirmation 1), (7, HumanApproved 1)]"
  obtain steps m where r: "run_plan ?es (new_machine 2) = (steps, m)" by fastforce
  have "pm_status (snd (run_plan ?es (new_machine 2))) = Succeeded 7 2" by code_simp
  then have "pm_status m = Succeeded 7 2" unfolding r snd_conv .
  with plan_steps_in_order [OF _ r] have "steps = [0..2 - 1]" by simp
  then show ?thesis unfolding r fst_conv .
qed

text \<open>A finished plan stays as it is, and a refused event changes nothing.\<close>

lemma finished_refuses:
  assumes "(\<exists>t n. pm_status m = Succeeded t n) \<or> (\<exists>t i r d. pm_status m = Failed t i r d)"
  shows "apply_event now e m = Inl (PlanTransitionError (pm_status m) e)"
  using assms by (auto simp: apply_event_def)

fun drive :: "nat \<Rightarrow> nat \<Rightarrow> int \<Rightarrow> (nat \<times> plan_event) list" where
  "drive now 0 i = []"
| "drive now (Suc k) i = (now, StepDispatched i) # (now, PostconditionSatisfied i) # drive now k (i + 1)"

lemma length_drive: "length (drive now k i) = 2 * k"
  by (induction k arbitrary: i) simp_all

lemma drive_ready:
  "machine_inv all steps m \<Longrightarrow> pm_status m = PlanReady i \<Longrightarrow> nat (all - i) = Suc k \<Longrightarrow>
    pm_status (snd (run_plan (drive now (Suc k) i) m)) = Succeeded now all"
proof (induction k arbitrary: i m steps)
  case 0
  then have "i = pm_executed m" "pm_executed m + 1 = all" "pm_total m = all"
    by (auto simp: machine_inv_def)
  with 0 show ?case by (simp add: apply_event_def step_done_def advance_or_complete_def)
next
  case (Suc k)
  then have e: "i = pm_executed m" "pm_executed m + 1 < all" "pm_total m = all"
    by (auto simp: machine_inv_def)
  let ?m1 = "m\<lparr>pm_status := AwaitingPostcondition i\<rparr>"
  let ?m2 = "step_done now ?m1"
  have d: "apply_event now (StepDispatched i) m = Inr ?m1"
    using Suc.prems by (simp add: apply_event_def)
  have p: "apply_event now (PostconditionSatisfied i) ?m1 = Inr ?m2"
    by (simp add: apply_event_def)
  have inv: "machine_inv all ((steps @ []) @ [i]) ?m2"
    using inv_apply [OF inv_apply [OF Suc.prems(1) d] p] by simp
  have st: "pm_status ?m2 = PlanReady (i + 1)" using e by (simp add: step_done_def advance_or_complete_def)
  have "nat (all - (i + 1)) = Suc k" using Suc.prems(3) by simp
  from Suc.IH [OF inv st this] d p show ?case by (simp only: drive.simps run_plan.simps sum.case split_def snd_conv)
qed

text \<open>What is left to do in a state that is not final.\<close>

definition way_out :: "nat \<Rightarrow> plan_machine \<Rightarrow> (nat \<times> plan_event) list" where
  "way_out now m =
    (case pm_status m of
       Draft \<Rightarrow> (now, SubmittedForPolicy) # (now, PolicyApproved) # drive now (nat (pm_total m)) 0
     | AwaitingPolicyReview \<Rightarrow> (now, PolicyApproved) # drive now (nat (pm_total m)) 0
     | PlanReady i \<Rightarrow> drive now (nat (pm_total m - i)) i
     | AwaitingHumanConfirmation i \<Rightarrow> (now, HumanApproved i) # drive now (nat (pm_total m - i - 1)) (i + 1)
     | AwaitingPostcondition i \<Rightarrow> (now, PostconditionSatisfied i) # drive now (nat (pm_total m - i - 1)) (i + 1)
     | _ \<Rightarrow> [])"

lemma drive_from:
  assumes "machine_inv all steps m" "pm_status m = PlanReady i \<or> pm_status m = Succeeded now all \<and> i = all"
  shows "pm_status (snd (run_plan (drive now (nat (all - i)) i) m)) = Succeeded now all"
proof (cases "nat (all - i)")
  case 0
  with assms show ?thesis by (auto simp: machine_inv_def)
next
  case (Suc k)
  with assms drive_ready [OF assms(1) _ Suc] show ?thesis by auto
qed

lemma step_done_status:
  assumes "machine_inv all steps m" "pm_executed m < all" "i = pm_executed m"
  shows "pm_status (step_done now m) = PlanReady (i + 1) \<or>
    pm_status (step_done now m) = Succeeded now all \<and> i + 1 = all"
  using assms by (auto simp: machine_inv_def step_done_def advance_or_complete_def)

lemma way_out_succeeds:
  assumes inv: "machine_inv all steps m" and open_plan: "\<forall>t i r d. pm_status m \<noteq> Failed t i r d" "\<forall>t n. pm_status m \<noteq> Succeeded t n"
  shows "pm_status (snd (run_plan (way_out now m) m)) = Succeeded now all"
proof -
  have total: "pm_total m = all" using inv by (simp add: machine_inv_def)
  have after: "pm_status (snd (run_plan ((now, e) # drive now (nat (all - i)) i) m0)) = Succeeded now all"
    if "apply_event now e m0 = Inr m'" "machine_inv all steps0 m0"
      "pm_status m' = PlanReady i \<or> pm_status m' = Succeeded now all \<and> i = all" for e i m0 m' steps0
    using drive_from [OF inv_apply [OF that(2,1)] that(3)] that(1) by (simp add: split_def)
  have ready: "apply_event now PolicyApproved m1 = Inr (m1\<lparr>pm_status := if all = 0 then Succeeded now 0 else PlanReady 0\<rparr>)"
    if "machine_inv all steps m1" "pm_status m1 = AwaitingPolicyReview" for m1
    using that by (simp add: apply_event_def machine_inv_def)
  show ?thesis
  proof (cases "pm_status m")
    case Draft
    let ?m1 = "m\<lparr>pm_status := AwaitingPolicyReview\<rparr>"
    have d: "apply_event now SubmittedForPolicy m = Inr ?m1" using Draft by (simp add: apply_event_def)
    have inv1: "machine_inv all steps ?m1" using inv_apply [OF inv d] by simp
    have "pm_status (snd (run_plan ((now, PolicyApproved) # drive now (nat (all - 0)) 0) ?m1)) = Succeeded now all"
      by (rule after [OF ready [OF inv1] inv1]) simp_all
    with d Draft total show ?thesis by (simp add: way_out_def split_def del: run_plan.simps(2)) (simp add: split_def)
  next
    case AwaitingPolicyReview
    have "pm_status (snd (run_plan ((now, PolicyApproved) # drive now (nat (all - 0)) 0) m)) = Succeeded now all"
      by (rule after [OF ready [OF inv AwaitingPolicyReview] inv]) simp
    with AwaitingPolicyReview total show ?thesis by (simp add: way_out_def del: run_plan.simps(2))
  next
    case (PlanReady i)
    with drive_from [OF inv, of i now] total show ?thesis by (simp add: way_out_def)
  next
    case (AwaitingHumanConfirmation i)
    have "apply_event now (HumanApproved i) m = Inr (step_done now m)"
      using AwaitingHumanConfirmation by (simp add: apply_event_def)
    from after [OF this inv, of "i + 1"] step_done_status [OF inv, of i now] AwaitingHumanConfirmation inv total
    show ?thesis by (simp add: way_out_def machine_inv_def algebra_simps del: run_plan.simps(2))
  next
    case (AwaitingPostcondition i)
    have "apply_event now (PostconditionSatisfied i) m = Inr (step_done now m)"
      using AwaitingPostcondition by (simp add: apply_event_def)
    from after [OF this inv, of "i + 1"] step_done_status [OF inv, of i now] AwaitingPostcondition inv total
    show ?thesis by (simp add: way_out_def machine_inv_def algebra_simps del: run_plan.simps(2))
  qed (use open_plan in simp_all)
qed

text \<open>
  No plan gets stuck: from every reachable state that is not final there is a sequence of at
  most two events per step, and two more, that ends in success. A final state accepts nothing.
\<close>

theorem plan_progress:
  assumes "0 \<le> all" "run_plan events (new_machine all) = (steps, m)"
  shows "case pm_status m of
      Succeeded _ _ \<Rightarrow> \<forall>e. \<exists>x. apply_event now e m = Inl x
    | Failed _ _ _ _ \<Rightarrow> \<forall>e. \<exists>x. apply_event now e m = Inl x
    | _ \<Rightarrow> \<exists>more. length more \<le> 2 * nat all + 2 \<and> pm_status (snd (run_plan more m)) = Succeeded now all"
proof -
  have inv: "machine_inv all steps m" using plan_run_inv [OF inv_new [OF assms(1)] assms(2)] by simp
  have "length (way_out now m) \<le> 2 * nat all + 2"
    using inv by (cases "pm_status m") (auto simp: way_out_def length_drive machine_inv_def)
  then show ?thesis
    using way_out_succeeds [OF inv, of now] by (cases "pm_status m") (auto simp: apply_event_def)
qed

lemma plan_progress_witness:
  "\<exists>more. length more \<le> 6 \<and>
    pm_status (snd (run_plan more (snd (run_plan [(1, SubmittedForPolicy), (2, PolicyApproved)] (new_machine 2))))) = Succeeded 9 2"
proof -
  obtain steps m where r: "run_plan [(1, SubmittedForPolicy), (2, PolicyApproved)] (new_machine 2) = (steps, m)" by fastforce
  have "pm_status (snd (run_plan [(1, SubmittedForPolicy), (2, PolicyApproved)] (new_machine 2))) = PlanReady 0"
    by code_simp
  then have "pm_status m = PlanReady 0" unfolding r snd_conv .
  with plan_progress [OF _ r, of 9] show ?thesis unfolding r snd_conv by simp
qed

end
