(* ===== verification/Leases.thy ===== *)
theory Leases
  imports Table
begin

text \<open>
  Leases on workspaces and conversations and the concurrency slots of the execution engine:
  \<open>gateway/src/modules/workspace/lease.ts\<close> and \<open>execution/engine/concurrency-manager.ts\<close>, with the
  two other places that write the tables: the cancellation of turns (\<open>turn-controller.ts\<close>) and the
  pruning of expired leases (\<open>statestore/lifecycle.ts\<close>). Both lease tables keep one row per key; the
  locale \<open>lease_table\<close> states what their operations promise, and mutual exclusion is proved from that
  once.
\<close>

subsection \<open>What a lease table promises\<close>

locale lease_table =
  fixes ok :: "'s \<Rightarrow> bool"
    and holder :: "'k \<Rightarrow> 's \<Rightarrow> (string \<times> int) option"
    and acquire :: "'k \<Rightarrow> string \<Rightarrow> int \<Rightarrow> int \<Rightarrow> 's \<Rightarrow> bool \<times> 's"
    and release :: "'k \<Rightarrow> string \<Rightarrow> 's \<Rightarrow> 's"
  assumes acquire_ok: "ok s \<Longrightarrow> ok (snd (acquire k u now ttl s))"
    and release_ok: "ok s \<Longrightarrow> ok (release k u s)"
    and acquire_granted: "ok s \<Longrightarrow> fst (acquire k u now ttl s) \<longleftrightarrow>
      (case holder k s of None \<Rightarrow> True | Some (v, x) \<Rightarrow> x \<le> now \<or> v = u)"
    and acquire_holder: "ok s \<Longrightarrow> holder j (snd (acquire k u now ttl s)) =
      (if j = k \<and> fst (acquire k u now ttl s) then Some (u, now + max 1 ttl) else holder j s)"
    and release_holder: "ok s \<Longrightarrow> holder j (release k u s) =
      (if j = k \<and> map_option fst (holder k s) = Some u then None else holder j s)"
begin

text \<open>
  A step that respects the lease of \<open>u\<close> on \<open>k\<close> until \<open>x\<close>; the operations of others do, and any
  other operation of the client that does may be mixed with them.
\<close>

definition keeps_holder :: "'k \<Rightarrow> string \<Rightarrow> int \<Rightarrow> 's \<Rightarrow> 's \<Rightarrow> bool" where
  "keeps_holder k u x s s' \<longleftrightarrow> (ok s \<longrightarrow> ok s') \<and> (ok s \<longrightarrow> holder k s = Some (u, x) \<longrightarrow> holder k s' = Some (u, x))"

lemma acquire_respects: "v \<noteq> u \<Longrightarrow> now < x \<Longrightarrow> keeps_holder k u x s (snd (acquire j v now ttl s))"
  by (auto simp: keeps_holder_def acquire_ok acquire_holder acquire_granted)

lemma release_respects: "v \<noteq> u \<Longrightarrow> keeps_holder k u x s (release j v s)"
  by (auto simp: keeps_holder_def release_ok release_holder)

lemma steps_respect:
  assumes "R\<^sup>*\<^sup>* s s'" "\<And>a b. R a b \<Longrightarrow> keeps_holder k u x a b"
  shows "ok s \<Longrightarrow> holder k s = Some (u, x) \<Longrightarrow> ok s' \<and> holder k s' = Some (u, x)"
  using assms(1)
proof (induction rule: rtranclp_induct)
  case (step y z)
  with assms(2) [OF step.hyps(2)] show ?case by (simp add: keeps_holder_def)
qed simp

lemma exclusive:
  assumes "ok s" "acquire k u now ttl s = (True, s1)" "R\<^sup>*\<^sup>* s1 s2"
    and "\<And>a b. R a b \<Longrightarrow> keeps_holder k u (now + max 1 ttl) a b" "v \<noteq> u" "t < now + max 1 ttl"
  shows "ok s2 \<and> holder k s2 = Some (u, now + max 1 ttl) \<and> \<not> fst (acquire k v t ttl' s2)"
proof -
  have "ok s1" "holder k s1 = Some (u, now + max 1 ttl)"
    using acquire_ok [OF assms(1), of k u now ttl] acquire_holder [OF assms(1), of k k u now ttl] assms(2) by simp_all
  from steps_respect [OF assms(3,4) this] show ?thesis using acquire_granted assms(5,6) by simp
qed

lemma expired_granted:
  "ok s \<Longrightarrow> (\<And>v x. holder k s = Some (v, x) \<Longrightarrow> x \<le> now) \<Longrightarrow> fst (acquire k u now ttl s)"
  by (auto simp: acquire_granted split: option.splits)

lemma reentrant:
  "ok s \<Longrightarrow> holder k s = Some (u, x) \<Longrightarrow> fst (acquire k u now ttl s)"
  by (simp add: acquire_granted)

end

subsection \<open>The tables\<close>

record lease_entry =
  le_tenant :: string
  le_key :: string
  le_owner :: string
  le_expires :: int

record slot =
  sl_tenant :: string
  sl_scope :: string
  sl_scope_id :: string
  sl_slot :: nat
  sl_owner :: "string option"
  sl_expires :: "int option"
  sl_attempt :: "string option"
  sl_updated_at :: nat

record lease_db =
  ld_workspaces :: "lease_entry list"
  ld_conversations :: "lease_entry list"
  ld_slots :: "slot list"

definition le_id :: "lease_entry \<Rightarrow> string \<times> string" where
  "le_id r = (le_tenant r, le_key r)"

lemma le_id_simps [simp]:
  "le_id (r\<lparr>le_owner := u\<rparr>) = le_id r" "le_id (r\<lparr>le_expires := x\<rparr>) = le_id r"
  "le_id \<lparr>le_tenant = a, le_key = b, le_owner = u, le_expires = x\<rparr> = (a, b)"
  by (simp_all add: le_id_def)

text \<open>\<open>INSERT ... ON CONFLICT DO NOTHING\<close>, then the conditional \<open>UPDATE\<close>; the same statements on both tables.\<close>

definition take_lease ::
  "string \<times> string \<Rightarrow> string \<Rightarrow> int \<Rightarrow> int \<Rightarrow> lease_entry list \<Rightarrow> bool \<times> lease_entry list" where
  "take_lease k owner now ttl rows =
    (let expires = now + max 1 ttl in
     if \<not> matches (\<lambda>r. le_id r = k) rows
     then (True, rows @ [\<lparr>le_tenant = fst k, le_key = snd k, le_owner = owner, le_expires = expires\<rparr>])
     else (let P = (\<lambda>r. le_id r = k \<and> (le_expires r \<le> now \<or> le_owner r = owner))
           in (length (filter P rows) = 1,
               update_where P (\<lambda>r. r\<lparr>le_owner := owner, le_expires := expires\<rparr>) rows)))"

definition drop_lease :: "string \<times> string \<Rightarrow> string \<Rightarrow> lease_entry list \<Rightarrow> lease_entry list" where
  "drop_lease k owner rows = filter (\<lambda>r. \<not> (le_id r = k \<and> le_owner r = owner)) rows"

definition try_acquire_workspace_lease ::
  "string \<times> string \<Rightarrow> string \<Rightarrow> int \<Rightarrow> int \<Rightarrow> lease_db \<Rightarrow> bool \<times> lease_db" where
  "try_acquire_workspace_lease k owner now ttl db =
    (case take_lease k owner now ttl (ld_workspaces db) of (granted, rows) \<Rightarrow> (granted, db\<lparr>ld_workspaces := rows\<rparr>))"

definition release_workspace_lease :: "string \<times> string \<Rightarrow> string \<Rightarrow> lease_db \<Rightarrow> lease_db" where
  "release_workspace_lease k owner db = db\<lparr>ld_workspaces := drop_lease k owner (ld_workspaces db)\<rparr>"

definition try_acquire_conversation_lease ::
  "string \<times> string \<Rightarrow> string \<Rightarrow> int \<Rightarrow> int \<Rightarrow> lease_db \<Rightarrow> bool \<times> lease_db" where
  "try_acquire_conversation_lease k owner now ttl db =
    (case take_lease k owner now ttl (ld_conversations db) of
       (granted, rows) \<Rightarrow> (granted, db\<lparr>ld_conversations := rows\<rparr>))"

definition release_conversation_lease :: "string \<times> string \<Rightarrow> string \<Rightarrow> lease_db \<Rightarrow> lease_db" where
  "release_conversation_lease k owner db = db\<lparr>ld_conversations := drop_lease k owner (ld_conversations db)\<rparr>"

definition release_conversation_and_workspace_leases ::
  "string \<Rightarrow> string \<Rightarrow> string \<Rightarrow> string \<Rightarrow> lease_db \<Rightarrow> lease_db" where
  "release_conversation_and_workspace_leases tenant key workspace owner db =
    release_workspace_lease (tenant, workspace) owner (release_conversation_lease (tenant, key) owner db)"

definition touch_conversation_lease :: "string \<times> string \<Rightarrow> string \<Rightarrow> int \<Rightarrow> lease_db \<Rightarrow> lease_db" where
  "touch_conversation_lease k owner expires db =
    db\<lparr>ld_conversations := update_where (\<lambda>r. le_id r = k \<and> le_owner r = owner)
      (\<lambda>r. r\<lparr>le_expires := expires\<rparr>) (ld_conversations db)\<rparr>"

text \<open>Cancelling a turn (\<open>turn-controller.ts\<close>) deletes the lease of its conversation, whoever holds it.\<close>

definition cancel_conversation_lease :: "string \<times> string \<Rightarrow> lease_db \<Rightarrow> lease_db" where
  "cancel_conversation_lease k db = db\<lparr>ld_conversations := filter (\<lambda>r. le_id r \<noteq> k) (ld_conversations db)\<rparr>"

text \<open>The lifecycle scheduler deletes expired leases (\<open>statestore/lifecycle.ts\<close>), the earliest first, a batch at a time.\<close>

definition prune_expired :: "int \<Rightarrow> nat \<Rightarrow> lease_entry list \<Rightarrow> lease_entry list" where
  "prune_expired now batch rows =
    (let chosen = take batch (sort_key le_expires (sort_key le_tenant (sort_key le_key
           (filter (\<lambda>r. le_expires r \<le> now) rows))))
     in filter (\<lambda>r. le_id r \<notin> le_id ` set chosen) rows)"

definition prune_conversation_leases :: "int \<Rightarrow> nat \<Rightarrow> lease_db \<Rightarrow> lease_db" where
  "prune_conversation_leases now batch db = db\<lparr>ld_conversations := prune_expired now batch (ld_conversations db)\<rparr>"

definition prune_workspace_leases :: "int \<Rightarrow> nat \<Rightarrow> lease_db \<Rightarrow> lease_db" where
  "prune_workspace_leases now batch db = db\<lparr>ld_workspaces := prune_expired now batch (ld_workspaces db)\<rparr>"

text \<open>A conditional update of the one row of a key, for both lease tables.\<close>

lemma keyed_update_count:
  assumes "distinct (map key rows)" "find (\<lambda>r. key r = k) rows = Some r"
  shows "length (filter (\<lambda>r. key r = k \<and> Q r) rows) = (if Q r then 1 else 0)"
proof -
  have r: "r \<in> set rows" "key r = k" using find_in [OF assms(2)] by auto
  have "length (filter (\<lambda>x. key x = k) rows) = 1" using one_with_key [OF assms(1)] r by auto
  moreover have "r \<in> set (filter (\<lambda>x. key x = k) rows)" using r by simp
  ultimately have "filter (\<lambda>x. key x = k) rows = [r]"
    by (metis One_nat_def Suc_length_conv length_0_conv list.set_intros(1) set_ConsD empty_iff empty_set)
  then have "filter Q (filter (\<lambda>x. key x = k) rows) = (if Q r then [r] else [])" by simp
  then show ?thesis by (simp add: conj_commute)
qed

lemma keyed_find_update:
  assumes "\<And>r. key (f r) = key r"
  shows "find (\<lambda>r. key r = j) (update_where (\<lambda>r. key r = k \<and> Q r) f rows) =
    map_option (\<lambda>r. if j = k \<and> Q r then f r else r) (find (\<lambda>r. key r = j) rows)"
  by (induction rows) (auto simp: update_where_def assms)

lemma find_filter_other: "(\<And>r. P r \<Longrightarrow> Q r) \<Longrightarrow> find P (filter Q xs) = find P xs"
  by (induction xs) auto

lemma keyed_find_delete:
  assumes "distinct (map key rows)"
  shows "find (\<lambda>r. key r = j) (filter (\<lambda>r. \<not> (key r = k \<and> Q r)) rows) =
    (case find (\<lambda>r. key r = j) rows of None \<Rightarrow> None | Some r \<Rightarrow> if j = k \<and> Q r then None else Some r)"
  using assms
proof (induction rows)
  case (Cons r rows)
  show ?case
  proof (cases "key r = j")
    case True
    with Cons.prems have "find (\<lambda>x. key x = j) rows = None" by (auto simp: find_None_iff) (metis imageI)
    with Cons True show ?thesis by auto
  qed (use Cons in auto)
qed simp

subsection \<open>Both tables keep the promise\<close>

definition rows_ok :: "lease_entry list \<Rightarrow> bool" where
  "rows_ok rows \<longleftrightarrow> distinct (map le_id rows)"

definition rows_holder :: "string \<times> string \<Rightarrow> lease_entry list \<Rightarrow> (string \<times> int) option" where
  "rows_holder k rows = map_option (\<lambda>r. (le_owner r, le_expires r)) (find (\<lambda>r. le_id r = k) rows)"

interpretation rows: lease_table rows_ok rows_holder take_lease drop_lease
proof
  fix s :: "lease_entry list" and k j :: "string \<times> string" and u now ttl
  assume ok: "rows_ok s"
  have none: "matches (\<lambda>r. le_id r = k) s \<longleftrightarrow> find (\<lambda>r. le_id r = k) s \<noteq> None" for k
    by (auto simp: matches_iff find_None_iff)
  show "rows_ok (snd (take_lease k u now ttl s))"
    using ok by (auto simp: take_lease_def Let_def rows_ok_def matches_iff
        map_update_where [where k = le_id] image_iff)
  show "rows_ok (drop_lease k u s)"
    using ok by (simp add: drop_lease_def rows_ok_def distinct_map_filter)
  show granted: "fst (take_lease k u now ttl s) \<longleftrightarrow>
      (case rows_holder k s of None \<Rightarrow> True | Some (v, x) \<Rightarrow> x \<le> now \<or> v = u)" for k
    using keyed_update_count [OF ok [unfolded rows_ok_def], of k _ "\<lambda>r. le_expires r \<le> now \<or> le_owner r = u"]
    by (cases "find (\<lambda>r. le_id r = k) s") (auto simp: take_lease_def Let_def none rows_holder_def)
  show "rows_holder j (snd (take_lease k u now ttl s)) =
      (if j = k \<and> fst (take_lease k u now ttl s) then Some (u, now + max 1 ttl) else rows_holder j s)"
  proof (cases "find (\<lambda>r. le_id r = k) s")
    case None
    then show ?thesis
      by (auto simp: take_lease_def Let_def none rows_holder_def find_append split: option.splits)
  next
    case (Some r)
    then show ?thesis
      unfolding granted
      using keyed_find_update [of le_id "\<lambda>r. r\<lparr>le_owner := u, le_expires := now + max 1 ttl\<rparr>" j k
          "\<lambda>r. le_expires r \<le> now \<or> le_owner r = u" s]
      by (cases "find (\<lambda>r. le_id r = j) s") (auto simp: take_lease_def Let_def none rows_holder_def)
  qed
  show "rows_holder j (drop_lease k u s) =
      (if j = k \<and> map_option fst (rows_holder k s) = Some u then None else rows_holder j s)"
    using keyed_find_delete [OF ok [unfolded rows_ok_def], of j k "\<lambda>r. le_owner r = u"]
    by (auto simp: drop_lease_def rows_holder_def split: option.splits)
qed

lemmas rows_laws = rows.acquire_ok rows.release_ok rows.acquire_granted rows.acquire_holder rows.release_holder

interpretation wl: lease_table "\<lambda>db. rows_ok (ld_workspaces db)" "\<lambda>k db. rows_holder k (ld_workspaces db)"
  try_acquire_workspace_lease release_workspace_lease
  by unfold_locales
    (simp_all add: try_acquire_workspace_lease_def release_workspace_lease_def split_def rows_laws)

interpretation cl: lease_table "\<lambda>db. rows_ok (ld_conversations db)" "\<lambda>k db. rows_holder k (ld_conversations db)"
  try_acquire_conversation_lease release_conversation_lease
  by unfold_locales
    (simp_all add: try_acquire_conversation_lease_def release_conversation_lease_def split_def rows_laws)

subsection \<open>Waiting for a workspace\<close>

text \<open>
  The polling loop: \<open>now\<close> is the reading of the clock before the attempt \<open>i\<close>, \<open>others i\<close> what other
  processes have done to the table until then. Between attempts the loop sleeps the smaller of the
  poll interval and what is left until the deadline; \<open>lag i\<close> is by how much the next reading exceeds
  the sleep (what the attempt and a late timer take, or a clock that was set). The loop runs on fuel:
  \<open>None\<close> is still polling.
\<close>

fun acquire_loop ::
  "nat \<Rightarrow> (nat \<Rightarrow> int) \<Rightarrow> (nat \<Rightarrow> lease_db \<Rightarrow> lease_db) \<Rightarrow> string \<times> string \<Rightarrow> string \<Rightarrow> int
    \<Rightarrow> int \<Rightarrow> int \<Rightarrow> int \<Rightarrow> int \<Rightarrow> nat \<Rightarrow> lease_db \<Rightarrow> (bool \<times> lease_db) option" where
  "acquire_loop 0 lag others k owner ttl wait poll deadline now i db = None"
| "acquire_loop (Suc n) lag others k owner ttl wait poll deadline now i db =
    (case try_acquire_workspace_lease k owner now ttl (others i db) of
       (granted, db') \<Rightarrow>
         if granted then Some (True, db')
         else if wait = 0 \<or> deadline \<le> now then Some (False, db')
         else (let remaining = max 0 (deadline - now); sleep = min poll remaining
               in acquire_loop n lag others k owner ttl wait poll deadline (now + sleep + lag i) (Suc i) db'))"

definition wait_ms :: "int option \<Rightarrow> int" where
  "wait_ms w = max 0 (case w of None \<Rightarrow> 0 | Some n \<Rightarrow> n)"

definition poll_ms :: "int option \<Rightarrow> int" where
  "poll_ms p = max 10 (case p of None \<Rightarrow> 50 | Some n \<Rightarrow> n)"

text \<open>The clock is read for the deadline, and again (\<open>lag0\<close> later) before the first attempt.\<close>

definition acquire_workspace_lease ::
  "nat \<Rightarrow> int \<Rightarrow> int \<Rightarrow> (nat \<Rightarrow> int) \<Rightarrow> (nat \<Rightarrow> lease_db \<Rightarrow> lease_db) \<Rightarrow> string \<times> string \<Rightarrow> string
    \<Rightarrow> int \<Rightarrow> int option \<Rightarrow> int option \<Rightarrow> lease_db \<Rightarrow> (bool \<times> lease_db) option" where
  "acquire_workspace_lease fuel start lag0 lag others k owner ttl wait poll db =
    acquire_loop fuel lag others k owner ttl (wait_ms wait) (poll_ms poll) (start + wait_ms wait) (start + lag0) 0 db"

lemma acquire_loop_returns:
  assumes "\<forall>i. 0 \<le> lag i" "0 < poll"
  shows "deadline - now \<le> poll * int n \<Longrightarrow> acquire_loop (Suc n) lag others k owner ttl wait poll deadline now i db \<noteq> None"
proof (induction n arbitrary: now i db)
  case 0
  then show ?case by (auto split: prod.splits if_splits)
next
  case (Suc n)
  obtain granted db' where a: "try_acquire_workspace_lease k owner now ttl (others i db) = (granted, db')" by fastforce
  let ?now = "now + min poll (max 0 (deadline - now)) + lag i"
  have "0 \<le> lag i" using assms(1) by blast
  have "deadline - ?now \<le> poll * int n" if "now < deadline"
  proof (cases "poll \<le> deadline - now")
    case True
    with Suc.prems that \<open>0 \<le> lag i\<close> show ?thesis by (simp add: algebra_simps)
  next
    case False
    with that \<open>0 \<le> lag i\<close> have "deadline - ?now \<le> 0" by simp
    moreover have "0 \<le> poll * int n" using assms(2) by simp
    ultimately show ?thesis by linarith
  qed
  note later = Suc.IH [OF this, of "Suc i" db']
  show ?case
  proof (cases "granted \<or> wait = 0 \<or> deadline \<le> now")
    case True
    with a show ?thesis by auto
  next
    case False
    with a have "acquire_loop (Suc (Suc n)) lag others k owner ttl wait poll deadline now i db =
        acquire_loop (Suc n) lag others k owner ttl wait poll deadline ?now (Suc i) db'"
      by (subst acquire_loop.simps) (simp add: Let_def del: acquire_loop.simps)
    with later False show ?thesis by (simp del: acquire_loop.simps)
  qed
qed

text \<open>
  C38. Waiting for a workspace ends, on a clock that is not set back while the process waits
  (\<open>0 \<le> lag i\<close>: a sleep takes at least as long as asked): whatever other processes do to the lease
  table meanwhile, the polling loop returns after at most two attempts more than the waiting time has
  poll intervals.
\<close>

theorem acquire_workspace_lease_returns:
  assumes "\<forall>i. 0 \<le> lag i" "0 \<le> lag0"
  shows "\<exists>r. acquire_workspace_lease (nat (wait_ms wait div poll_ms poll) + 2) start lag0 lag others k owner ttl wait poll db = Some r"
proof -
  let ?n = "nat (wait_ms wait div poll_ms poll) + 1"
  have p: "0 < poll_ms poll" "0 \<le> wait_ms wait" by (simp_all add: poll_ms_def wait_ms_def)
  have "wait_ms wait = poll_ms poll * (wait_ms wait div poll_ms poll) + wait_ms wait mod poll_ms poll" by simp
  also have "\<dots> \<le> poll_ms poll * (wait_ms wait div poll_ms poll) + poll_ms poll"
    using pos_mod_bound [OF p(1), of "wait_ms wait"] by linarith
  also have "\<dots> = poll_ms poll * int ?n" using p by (simp add: pos_imp_zdiv_nonneg_iff distrib_left)
  finally have "start + wait_ms wait - (start + lag0) \<le> poll_ms poll * int ?n" using assms(2) by linarith
  from acquire_loop_returns [OF assms(1) p(1) this] show ?thesis
    by (auto simp: acquire_workspace_lease_def simp del: acquire_loop.simps)
qed

lemma acquire_workspace_lease_returns_witness:
  "\<exists>r. acquire_workspace_lease (nat (wait_ms (Some 25) div poll_ms (Some 10)) + 2) 0 1 (\<lambda>i. int (i mod 2)) (\<lambda>_. id)
    (''t'', ''w'') ''o'' 5 (Some 25) (Some 10)
    \<lparr>ld_workspaces = [\<lparr>le_tenant = ''t'', le_key = ''w'', le_owner = ''v'', le_expires = 99\<rparr>], ld_conversations = [], ld_slots = []\<rparr> = Some r"
  by (rule acquire_workspace_lease_returns) simp_all

text \<open>
  What others than \<open>u\<close> do to the leases before \<open>x\<close>: acquire and release in both tables, touch and
  release leases of conversations, delete expired leases, claim and release concurrency slots. A turn
  may be cancelled only in other conversations than \<open>k\<close>.
\<close>

inductive lease_other :: "string \<times> string \<Rightarrow> string \<Rightarrow> int \<Rightarrow> lease_db \<Rightarrow> lease_db \<Rightarrow> bool" for k u x where
  lo_workspace: "v \<noteq> u \<Longrightarrow> now < x \<Longrightarrow> lease_other k u x db (snd (try_acquire_workspace_lease j v now ttl db))"
| lo_workspace_release: "v \<noteq> u \<Longrightarrow> lease_other k u x db (release_workspace_lease j v db)"
| lo_conversation: "v \<noteq> u \<Longrightarrow> now < x \<Longrightarrow> lease_other k u x db (snd (try_acquire_conversation_lease j v now ttl db))"
| lo_conversation_release: "v \<noteq> u \<Longrightarrow> lease_other k u x db (release_conversation_lease j v db)"
| lo_release_both: "v \<noteq> u \<Longrightarrow> lease_other k u x db (release_conversation_and_workspace_leases tn j ws v db)"
| lo_touch: "v \<noteq> u \<Longrightarrow> lease_other k u x db (touch_conversation_lease j v e db)"
| lo_cancel: "j \<noteq> k \<Longrightarrow> lease_other k u x db (cancel_conversation_lease j db)"
| lo_prune_conversations: "now < x \<Longrightarrow> lease_other k u x db (prune_conversation_leases now batch db)"
| lo_prune_workspaces: "now < x \<Longrightarrow> lease_other k u x db (prune_workspace_leases now batch db)"
| lo_slots: "lease_other k u x db (db\<lparr>ld_slots := slots\<rparr>)"

lemma touch_respects: "v \<noteq> u \<Longrightarrow> cl.keeps_holder k u x db (touch_conversation_lease j v e db)"
  using keyed_find_update [of le_id "\<lambda>r. r\<lparr>le_expires := e\<rparr>" k j "\<lambda>r. le_owner r = v" "ld_conversations db"]
  unfolding cl.keeps_holder_def by (auto simp: touch_conversation_lease_def rows_ok_def rows_holder_def
      map_update_where [where k = le_id])

lemma cancel_respects: "j \<noteq> k \<Longrightarrow> cl.keeps_holder k u x db (cancel_conversation_lease j db)"
  using find_filter_other [of "\<lambda>r. le_id r = k" "\<lambda>r. le_id r \<noteq> j" "ld_conversations db"]
  unfolding cl.keeps_holder_def by (auto simp: cancel_conversation_lease_def rows_ok_def rows_holder_def distinct_map_filter)

lemma prune_keeps:
  assumes "rows_ok rows" "rows_holder k rows = Some (u, x)" "now < x"
  shows "rows_ok (prune_expired now batch rows) \<and> rows_holder k (prune_expired now batch rows) = Some (u, x)"
proof -
  define chosen where "chosen = take batch (sort_key le_expires (sort_key le_tenant (sort_key le_key
    (filter (\<lambda>r. le_expires r \<le> now) rows))))"
  have p: "prune_expired now batch rows = filter (\<lambda>r. le_id r \<notin> le_id ` set chosen) rows"
    by (simp add: prune_expired_def chosen_def)
  from assms(2) obtain r where r: "find (\<lambda>r. le_id r = k) rows = Some r" "le_expires r = x"
    by (auto simp: rows_holder_def)
  have "le_id c \<noteq> k" if "c \<in> set chosen" for c
  proof
    assume "le_id c = k"
    have c: "le_expires c \<le> now" "c \<in> set rows" using that unfolding chosen_def by (auto dest: in_set_takeD)
    have "c = r" by (rule distinct_keys_eq [OF assms(1) [unfolded rows_ok_def] c(2)])
        (use find_in [OF r(1)] \<open>le_id c = k\<close> in simp_all)
    with c(1) r(2) assms(3) show False by simp
  qed
  then have "k \<notin> le_id ` set chosen" by (metis imageE)
  then have "find (\<lambda>r. le_id r = k) (filter (\<lambda>r. le_id r \<notin> le_id ` set chosen) rows) = find (\<lambda>r. le_id r = k) rows"
    by (intro find_filter_other) simp
  then have "rows_holder k (prune_expired now batch rows) = rows_holder k rows"
    unfolding p rows_holder_def by (rule arg_cong)
  then show ?thesis using assms by (simp add: p rows_ok_def distinct_map_filter)
qed

lemma prune_ok: "rows_ok rows \<Longrightarrow> rows_ok (prune_expired now batch rows)"
  by (simp add: prune_expired_def Let_def rows_ok_def distinct_map_filter)

lemma conversation_tables [simp]:
  "ld_conversations (snd (try_acquire_workspace_lease j v now ttl db)) = ld_conversations db"
  "ld_conversations (release_workspace_lease j v db) = ld_conversations db"
  "ld_workspaces (snd (try_acquire_conversation_lease j v now ttl db)) = ld_workspaces db"
  "ld_workspaces (release_conversation_lease j v db) = ld_workspaces db"
  "ld_workspaces (touch_conversation_lease j v e db) = ld_workspaces db"
  "ld_workspaces (cancel_conversation_lease j db) = ld_workspaces db"
  "ld_workspaces (prune_conversation_leases now batch db) = ld_workspaces db"
  "ld_conversations (prune_conversation_leases now batch db) = prune_expired now batch (ld_conversations db)"
  "ld_conversations (prune_workspace_leases now batch db) = ld_conversations db"
  "ld_workspaces (prune_workspace_leases now batch db) = prune_expired now batch (ld_workspaces db)"
  by (simp_all add: prune_conversation_leases_def prune_workspace_leases_def try_acquire_workspace_lease_def release_workspace_lease_def try_acquire_conversation_lease_def
      release_conversation_lease_def touch_conversation_lease_def cancel_conversation_lease_def split_def)

lemma other_respects: "lease_other k u x a b \<Longrightarrow> cl.keeps_holder k u x a b \<and> wl.keeps_holder k u x a b"
proof (induction rule: lease_other.induct)
  case (lo_release_both v db tn j ws)
  then show ?case
    using cl.release_respects [OF lo_release_both, of k x db "(tn, j)"]
      wl.release_respects [OF lo_release_both, of k x "release_conversation_lease (tn, j) v db" "(tn, ws)"]
    by (simp add: release_conversation_and_workspace_leases_def cl.keeps_holder_def wl.keeps_holder_def)
next
  case lo_prune_conversations
  then show ?case by (simp add: cl.keeps_holder_def wl.keeps_holder_def prune_keeps prune_ok)
next
  case lo_prune_workspaces
  then show ?case by (simp add: cl.keeps_holder_def wl.keeps_holder_def prune_keeps prune_ok)
qed (use cl.acquire_respects cl.release_respects wl.acquire_respects wl.release_respects touch_respects cancel_respects in
    \<open>auto simp: cl.keeps_holder_def wl.keeps_holder_def\<close>)

text \<open>
  C37. A granted lease is exclusive: from the grant on and until its deadline, whatever others do to
  both lease tables and the slots, the table names the owner as the holder and no other owner's
  attempt succeeds. For the lease of a conversation this holds as long as no turn of the conversation
  is cancelled: cancelling deletes the lease without looking at its owner, and anybody gets the
  conversation at once.
\<close>

theorem leases_exclusive:
  assumes "rows_ok (ld_workspaces db)" "rows_ok (ld_conversations db)" "v \<noteq> u" "t < now + max 1 ttl"
    and "(lease_other k u (now + max 1 ttl))\<^sup>*\<^sup>* db1 db2"
  shows "(try_acquire_workspace_lease k u now ttl db = (True, db1) \<longrightarrow>
      rows_holder k (ld_workspaces db2) = Some (u, now + max 1 ttl) \<and>
      \<not> fst (try_acquire_workspace_lease k v t ttl' db2)) \<and>
    (try_acquire_conversation_lease k u now ttl db = (True, db1) \<longrightarrow>
      rows_holder k (ld_conversations db2) = Some (u, now + max 1 ttl) \<and>
      \<not> fst (try_acquire_conversation_lease k v t ttl' db2) \<and>
      fst (try_acquire_conversation_lease k v t ttl' (cancel_conversation_lease k db2)))"
proof (intro conjI impI)
  assume "try_acquire_workspace_lease k u now ttl db = (True, db1)"
  from wl.exclusive [OF assms(1) this assms(5) _ assms(3,4)] other_respects
  show "rows_holder k (ld_workspaces db2) = Some (u, now + max 1 ttl)" "\<not> fst (try_acquire_workspace_lease k v t ttl' db2)"
    by blast+
next
  assume "try_acquire_conversation_lease k u now ttl db = (True, db1)"
  from cl.exclusive [OF assms(2) this assms(5) _ assms(3,4)] other_respects
  show "rows_holder k (ld_conversations db2) = Some (u, now + max 1 ttl)" "\<not> fst (try_acquire_conversation_lease k v t ttl' db2)"
    by blast+
next
  show "fst (try_acquire_conversation_lease k v t ttl' (cancel_conversation_lease k db2))"
    by (simp add: try_acquire_conversation_lease_def cancel_conversation_lease_def take_lease_def matches_iff split_def)
qed

definition no_leases :: lease_db where
  "no_leases = \<lparr>ld_workspaces = [], ld_conversations = [], ld_slots = []\<rparr>"

lemma leases_exclusive_witness:
  "\<not> fst (try_acquire_conversation_lease (''t'', ''w'') ''v'' 14 5
    (touch_conversation_lease (''t'', ''w'') ''v'' 0 (snd (try_acquire_conversation_lease (''t'', ''w'') ''u'' 10 5 no_leases))))"
proof -
  have ok: "rows_ok (ld_workspaces no_leases)" "rows_ok (ld_conversations no_leases)"
    by (simp_all add: rows_ok_def no_leases_def)
  let ?db1 = "snd (try_acquire_conversation_lease (''t'', ''w'') ''u'' 10 5 no_leases)"
  have a: "try_acquire_conversation_lease (''t'', ''w'') ''u'' 10 5 no_leases = (True, ?db1)"
    by (simp add: try_acquire_conversation_lease_def take_lease_def no_leases_def matches_def)
  have v: "''v'' \<noteq> ''u''" "(14::int) < 10 + max 1 5" by simp_all
  have "(lease_other (''t'', ''w'') ''u'' (10 + max 1 5))\<^sup>*\<^sup>* ?db1 (touch_conversation_lease (''t'', ''w'') ''v'' 0 ?db1)"
    by (rule r_into_rtranclp) (rule lo_touch [OF v(1)])
  from leases_exclusive [OF ok v this] a show ?thesis by blast
qed

subsection \<open>Concurrency slots\<close>

record execution_limits =
  xl_global :: "int option"
  xl_per_agent :: "int option"
  xl_per_capability :: "(string \<rightharpoonup> int) option"

definition slot_in :: "string \<Rightarrow> string \<Rightarrow> string \<Rightarrow> slot \<Rightarrow> bool" where
  "slot_in tenant scope scope_id r \<longleftrightarrow> sl_tenant r = tenant \<and> sl_scope r = scope \<and> sl_scope_id r = scope_id"

definition slot_free :: "int \<Rightarrow> slot \<Rightarrow> bool" where
  "slot_free now r \<longleftrightarrow> (case sl_expires r of None \<Rightarrow> True | Some x \<Rightarrow> x \<le> now)"

definition release_slots :: "string \<Rightarrow> string \<Rightarrow> nat \<Rightarrow> execution_limits option \<Rightarrow> slot list \<Rightarrow> slot list" where
  "release_slots tenant attempt at limits rows =
    (if attempt = [] \<or> limits = None then rows
     else update_where (\<lambda>r. sl_tenant r = tenant \<and> sl_attempt r = Some attempt)
       (\<lambda>r. r\<lparr>sl_owner := None, sl_expires := None, sl_attempt := None, sl_updated_at := at\<rparr>) rows)"

fun ensure_slots :: "string \<Rightarrow> string \<Rightarrow> string \<Rightarrow> nat list \<Rightarrow> nat \<Rightarrow> slot list \<Rightarrow> slot list" where
  "ensure_slots tenant scope scope_id [] at rows = rows"
| "ensure_slots tenant scope scope_id (i # is) at rows =
    ensure_slots tenant scope scope_id is at
      (if matches (\<lambda>r. slot_in tenant scope scope_id r \<and> sl_slot r = i) rows then rows
       else rows @ [\<lparr>sl_tenant = tenant, sl_scope = scope, sl_scope_id = scope_id, sl_slot = i,
         sl_owner = None, sl_expires = None, sl_attempt = None, sl_updated_at = at\<rparr>])"

text \<open>The subselect: the slot whose lease ended first, then the lowest.\<close>

definition pick_slot :: "string \<Rightarrow> string \<Rightarrow> string \<Rightarrow> int \<Rightarrow> int \<Rightarrow> slot list \<Rightarrow> nat option" where
  "pick_slot tenant scope scope_id limit now rows =
    map_option sl_slot (first_row (order_by (\<lambda>r. case sl_expires r of None \<Rightarrow> 0 | Some x \<Rightarrow> x) sl_slot
      (filter (\<lambda>r. slot_in tenant scope scope_id r \<and> int (sl_slot r) < limit \<and> slot_free now r) rows)))"

record claim_opts =
  co_tenant :: string
  co_attempt :: string
  co_owner :: string
  co_now :: int
  co_at :: nat
  co_ttl :: int

definition take_slot :: "claim_opts \<Rightarrow> string \<Rightarrow> string \<Rightarrow> int \<Rightarrow> slot list \<Rightarrow> bool \<times> slot list" where
  "take_slot c scope scope_id limit rows =
    (let P = (\<lambda>r. slot_in (co_tenant c) scope scope_id r \<and>
           pick_slot (co_tenant c) scope scope_id limit (co_now c) rows = Some (sl_slot r) \<and> slot_free (co_now c) r)
     in (length (filter P rows) = 1,
         update_where P (\<lambda>r. r\<lparr>sl_owner := Some (co_owner c), sl_expires := Some (co_now c + max 1 (co_ttl c)),
           sl_attempt := Some (co_attempt c), sl_updated_at := co_at c\<rparr>) rows))"

fun take_tries :: "nat \<Rightarrow> claim_opts \<Rightarrow> string \<Rightarrow> string \<Rightarrow> int \<Rightarrow> slot list \<Rightarrow> bool \<times> slot list" where
  "take_tries 0 c scope scope_id limit rows = (False, rows)"
| "take_tries (Suc n) c scope scope_id limit rows =
    (case take_slot c scope scope_id limit rows of
       (taken, rows') \<Rightarrow> if taken then (True, rows') else take_tries n c scope scope_id limit rows')"

definition try_acquire_slot :: "claim_opts \<Rightarrow> string \<Rightarrow> string \<Rightarrow> int \<Rightarrow> slot list \<Rightarrow> bool \<times> slot list" where
  "try_acquire_slot c scope scope_id limit rows =
    (if limit \<le> 0 then (False, rows)
     else take_tries (nat (min 10 (max 1 limit))) c scope scope_id limit
       (ensure_slots (co_tenant c) scope scope_id [0..<nat limit] (co_at c) rows))"

definition claim_scope :: "claim_opts \<Rightarrow> string \<Rightarrow> string \<Rightarrow> int option \<Rightarrow> slot list \<Rightarrow> bool \<times> slot list" where
  "claim_scope c scope scope_id limit rows =
    (case limit of None \<Rightarrow> (True, rows) | Some n \<Rightarrow> try_acquire_slot c scope scope_id n rows)"

definition capability_limit :: "execution_limits \<Rightarrow> string option \<Rightarrow> int option" where
  "capability_limit l capability =
    (case capability of
       None \<Rightarrow> None
     | Some cap \<Rightarrow> if cap = [] then None else (case xl_per_capability l of None \<Rightarrow> None | Some m \<Rightarrow> m cap))"

text \<open>The claims in order; the first that fails gives back everything the attempt holds.\<close>

fun claim_all :: "claim_opts \<Rightarrow> execution_limits \<Rightarrow> (string \<times> string \<times> int option) list \<Rightarrow> slot list \<Rightarrow> bool \<times> slot list" where
  "claim_all c l [] rows = (True, rows)"
| "claim_all c l ((scope, scope_id, limit) # claims) rows =
    (case claim_scope c scope scope_id limit rows of
       (True, rows') \<Rightarrow> claim_all c l claims rows'
     | (False, rows') \<Rightarrow> (False, release_slots (co_tenant c) (co_attempt c) (co_at c) (Some l) rows'))"

definition claims_of ::
  "execution_limits \<Rightarrow> string \<Rightarrow> string option \<Rightarrow> (string \<times> string \<times> int option) list" where
  "claims_of l agent capability =
    [(''global'', ''global'', xl_global l), (''agent'', agent, xl_per_agent l)] @
    (case capability of
       None \<Rightarrow> []
     | Some k \<Rightarrow> if capability_limit l capability = None then []
         else [(''capability'', k, capability_limit l capability)])"

definition try_acquire_concurrency ::
  "claim_opts \<Rightarrow> string \<Rightarrow> string option \<Rightarrow> execution_limits option \<Rightarrow> slot list \<Rightarrow> bool \<times> slot list" where
  "try_acquire_concurrency c agent capability limits rows =
    (case limits of
       None \<Rightarrow> (True, rows)
     | Some l \<Rightarrow>
         if xl_global l = None \<and> xl_per_agent l = None \<and> capability_limit l capability = None then (True, rows)
         else claim_all c l (claims_of l agent capability) rows)"

text \<open>\<open>executeWithTimeout\<close>: a thrown error becomes a failed step.\<close>

record 'a step_result =
  sr_success :: bool
  sr_value :: "'a option"
  sr_error :: "string option"

definition execute_with_timeout :: "string + 'a step_result \<Rightarrow> 'a step_result" where
  "execute_with_timeout outcome =
    (case outcome of
       Inr r \<Rightarrow> r
     | Inl msg \<Rightarrow> \<lparr>sr_success = False, sr_value = None, sr_error = Some msg\<rparr>)"

subsection \<open>Slots are bounded and kept\<close>

definition slot_key :: "slot \<Rightarrow> string \<times> string \<times> string \<times> nat" where
  "slot_key r = (sl_tenant r, sl_scope r, sl_scope_id r, sl_slot r)"

definition limit_for :: "execution_limits \<Rightarrow> string \<Rightarrow> string \<Rightarrow> int option" where
  "limit_for l scope scope_id =
    (if scope = ''global'' then xl_global l else if scope = ''agent'' then xl_per_agent l
     else case xl_per_capability l of None \<Rightarrow> None | Some m \<Rightarrow> m scope_id)"

definition slot_bound :: "execution_limits \<Rightarrow> slot \<Rightarrow> bool" where
  "slot_bound l r \<longleftrightarrow> (\<exists>n. limit_for l (sl_scope r) (sl_scope_id r) = Some n \<and> int (sl_slot r) < n)"

definition slots_inv :: "execution_limits \<Rightarrow> slot list \<Rightarrow> bool" where
  "slots_inv l rows \<longleftrightarrow> distinct (map slot_key rows) \<and> (\<forall>r \<in> set rows. slot_bound l r)"

text \<open>An update that keeps keys.\<close>

lemma slots_update:
  "(\<And>r. slot_key (f r) = slot_key r) \<Longrightarrow> slots_inv l rows \<Longrightarrow> slots_inv l (update_where P f rows)"
  unfolding slots_inv_def
  by (auto simp: map_update_where set_update_where slot_bound_def slot_key_def split: if_splits)

lemma release_inv: "slots_inv l rows \<Longrightarrow> slots_inv l (release_slots tn a at l' rows)"
  by (simp add: release_slots_def slots_update slot_key_def)

lemma take_inv: "slots_inv l rows \<Longrightarrow> slots_inv l (snd (take_slot c scope sid limit rows))"
  by (simp add: take_slot_def Let_def slots_update slot_key_def)

lemma tries_inv: "slots_inv l rows \<Longrightarrow> slots_inv l (snd (take_tries n c scope sid limit rows))"
proof (induction n arbitrary: rows)
  case (Suc n)
  obtain taken rows' where t: "take_slot c scope sid limit rows = (taken, rows')" by fastforce
  have "slots_inv l rows'" using take_inv [OF Suc.prems, of c scope sid limit] t by simp
  with Suc.IH t show ?case by simp
qed simp

lemma ensure_inv:
  "slots_inv l rows \<Longrightarrow> limit_for l scope sid = Some n \<Longrightarrow> \<forall>i \<in> set is. int i < n \<Longrightarrow>
    slots_inv l (ensure_slots tn scope sid is at rows)"
proof (induction "is" arbitrary: rows)
  case (Cons i "is")
  have "slots_inv l (if matches (\<lambda>r. slot_in tn scope sid r \<and> sl_slot r = i) rows then rows
    else rows @ [\<lparr>sl_tenant = tn, sl_scope = scope, sl_scope_id = sid, sl_slot = i,
      sl_owner = None, sl_expires = None, sl_attempt = None, sl_updated_at = at\<rparr>])"
    using Cons.prems by (auto simp: slots_inv_def slot_bound_def slot_key_def matches_iff slot_in_def)
  with Cons show ?case by simp
qed simp

lemma claim_inv:
  "slots_inv l rows \<Longrightarrow> limit = None \<or> limit_for l scope sid = limit \<Longrightarrow>
    slots_inv l (snd (claim_scope c scope sid limit rows))"
  by (auto simp: claim_scope_def try_acquire_slot_def intro!: tries_inv ensure_inv split: option.splits)

lemma claim_all_inv:
  "slots_inv l rows \<Longrightarrow> \<forall>(scope, sid, limit) \<in> set claims. limit = None \<or> limit_for l scope sid = limit \<Longrightarrow>
    slots_inv l (snd (claim_all c l claims rows))"
proof (induction c l claims rows rule: claim_all.induct)
  case (2 c l scope sid limit claims rows)
  obtain taken rows' where t: "claim_scope c scope sid limit rows = (taken, rows')" by fastforce
  have "slots_inv l rows'" using claim_inv [OF 2(2), of limit scope sid c] 2(3) t by auto
  with 2 t release_inv show ?case by (cases taken) auto
qed simp

lemma claims_limits:
  "\<forall>(scope, sid, limit) \<in> set (claims_of l agent capability). limit = None \<or> limit_for l scope sid = limit"
  by (auto simp: claims_of_def limit_for_def capability_limit_def split: option.splits)

lemma concurrency_inv:
  "slots_inv l rows \<Longrightarrow> slots_inv l (snd (try_acquire_concurrency c agent capability (Some l) rows))"
  using claim_all_inv [OF _ claims_limits] by (simp add: try_acquire_concurrency_def)

inductive slot_step :: "execution_limits \<Rightarrow> slot list \<Rightarrow> slot list \<Rightarrow> bool" for l where
  slot_acquire: "slot_step l rows (snd (try_acquire_concurrency c agent capability (Some l) rows))"
| slot_release: "slot_step l rows (release_slots tenant attempt at (Some l) rows)"

lemma slot_steps_inv: "(slot_step l)\<^sup>*\<^sup>* rows rows' \<Longrightarrow> slots_inv l rows \<Longrightarrow> slots_inv l rows'"
  by (induction rule: rtranclp_induct) (auto elim!: slot_step.cases intro: concurrency_inv release_inv)

lemma slots_count:
  assumes "slots_inv l rows" "limit_for l scope sid = Some n"
  shows "length (filter (slot_in tn scope sid) rows) \<le> nat n"
proof -
  let ?xs = "filter (slot_in tn scope sid) rows"
  have "distinct (map slot_key ?xs)" using assms(1) by (simp add: slots_inv_def distinct_map_filter)
  then have d: "distinct (map sl_slot ?xs)"
    by (auto simp: distinct_map inj_on_def slot_in_def slot_key_def)
  have "set (map sl_slot ?xs) \<subseteq> {..<nat n}"
    using assms by (auto simp: slots_inv_def slot_bound_def slot_in_def)
  then have "card (set (map sl_slot ?xs)) \<le> nat n" by (metis card_lessThan card_mono finite_lessThan)
  with distinct_card [OF d] show ?thesis by simp
qed

text \<open>
  Concurrency stays bounded: whatever claims and releases run under fixed limits, in every
  scope with a limit no more slots than the limit exist, let alone are held at any time, and no
  slot exists twice.
\<close>

theorem concurrency_bounded:
  assumes "(slot_step l)\<^sup>*\<^sup>* [] rows" "limit_for l scope sid = Some n"
  shows "length (filter (\<lambda>r. slot_in tenant scope sid r \<and> \<not> slot_free now r) rows) \<le> nat n \<and>
    distinct (map slot_key rows)"
proof -
  have inv: "slots_inv l rows" using slot_steps_inv [OF assms(1)] by (simp add: slots_inv_def)
  have "length (filter (\<lambda>r. slot_in tenant scope sid r \<and> \<not> slot_free now r) rows) \<le>
    length (filter (slot_in tenant scope sid) rows)"
    by (induction rows) auto
  with slots_count [OF inv assms(2), of tenant] inv show ?thesis by (simp add: slots_inv_def)
qed

definition demo_limits :: execution_limits where
  "demo_limits = \<lparr>xl_global = Some 1, xl_per_agent = Some 1, xl_per_capability = None\<rparr>"

definition demo_claim :: "string \<Rightarrow> claim_opts" where
  "demo_claim a = \<lparr>co_tenant = ''t'', co_attempt = a, co_owner = ''o'', co_now = 10, co_at = 10, co_ttl = 5\<rparr>"

lemma concurrency_bounded_witness:
  "length (filter (\<lambda>r. slot_in ''t'' ''global'' ''global'' r \<and> \<not> slot_free 11 r)
    (snd (try_acquire_concurrency (demo_claim ''a'') ''g'' None (Some demo_limits) []))) \<le> nat 1"
  by (rule concurrency_bounded [THEN conjunct1, OF r_into_rtranclp])
    (rule slot_acquire, simp add: limit_for_def demo_limits_def)

text \<open>Claims of another attempt leave a held slot as it is until its lease has run out.\<close>

definition held_by :: "string \<Rightarrow> int \<Rightarrow> slot \<Rightarrow> bool" where
  "held_by a now r \<longleftrightarrow> sl_attempt r = Some a \<and> (\<exists>x. sl_expires r = Some x \<and> now < x)"

lemma held_update: "r \<in> set rows \<Longrightarrow> \<not> P r \<Longrightarrow> r \<in> set (update_where P f rows)"
  by (auto simp: set_update_where image_iff intro: bexI [of _ r])

lemma held_take: "r \<in> set rows \<Longrightarrow> held_by a (co_now c) r \<Longrightarrow> r \<in> set (snd (take_slot c scope sid limit rows))"
  by (auto simp: take_slot_def Let_def held_by_def slot_free_def intro!: held_update)

lemma held_tries:
  "r \<in> set rows \<Longrightarrow> held_by a (co_now c) r \<Longrightarrow> r \<in> set (snd (take_tries n c scope sid limit rows))"
proof (induction n arbitrary: rows)
  case (Suc n)
  obtain taken rows' where t: "take_slot c scope sid limit rows = (taken, rows')" by fastforce
  have "r \<in> set rows'" using held_take [OF Suc.prems, of scope sid limit] t by simp
  with Suc t show ?case by simp
qed simp

lemma ensure_subset: "set rows \<subseteq> set (ensure_slots tn scope sid is at rows)"
  by (induction "is" arbitrary: rows) (auto, metis Un_iff in_mono set_append)

lemma held_claim:
  "r \<in> set rows \<Longrightarrow> held_by a (co_now c) r \<Longrightarrow> r \<in> set (snd (claim_scope c scope sid limit rows))"
  by (auto simp: claim_scope_def try_acquire_slot_def intro!: held_tries subsetD [OF ensure_subset] split: option.splits)

lemma held_claims:
  "r \<in> set rows \<Longrightarrow> held_by a (co_now c) r \<Longrightarrow> a \<noteq> co_attempt c \<Longrightarrow> r \<in> set (snd (claim_all c l claims rows))"
proof (induction c l claims rows rule: claim_all.induct)
  case (2 c l scope sid limit claims rows)
  obtain taken rows' where t: "claim_scope c scope sid limit rows = (taken, rows')" by fastforce
  have r: "r \<in> set rows'" using held_claim [OF 2(2,3), of scope sid limit] t by simp
  then have "r \<in> set (release_slots (co_tenant c) (co_attempt c) (co_at c) (Some l) rows')"
    using 2(3,4) by (auto simp: release_slots_def held_by_def intro!: held_update)
  with 2 t r show ?case by (cases taken) auto
qed simp

text \<open>What a claim leaves behind.\<close>

definition holds_in :: "claim_opts \<Rightarrow> string \<Rightarrow> string \<Rightarrow> int \<Rightarrow> slot list \<Rightarrow> bool" where
  "holds_in c scope sid n rows \<longleftrightarrow> (\<exists>r \<in> set rows. slot_in (co_tenant c) scope sid r \<and> int (sl_slot r) < n \<and>
    sl_attempt r = Some (co_attempt c) \<and> sl_expires r = Some (co_now c + max 1 (co_ttl c)))"

lemma pick_below: "pick_slot tn scope sid limit now rows = Some i \<Longrightarrow> int i < limit"
  by (auto simp: pick_slot_def dest!: first_row_in)

lemma take_holds: "take_slot c scope sid limit rows = (True, rows') \<Longrightarrow> holds_in c scope sid limit rows'"
proof -
  let ?P = "\<lambda>r. slot_in (co_tenant c) scope sid r \<and>
    pick_slot (co_tenant c) scope sid limit (co_now c) rows = Some (sl_slot r) \<and> slot_free (co_now c) r"
  assume t: "take_slot c scope sid limit rows = (True, rows')"
  then have "filter ?P rows \<noteq> []" by (auto simp: take_slot_def Let_def)
  then have "\<exists>r \<in> set rows. ?P r" by (simp only: filter_empty_conv) blast
  then obtain r where r: "r \<in> set rows" "?P r" by blast
  from t have "rows' = update_where ?P (\<lambda>r. r\<lparr>sl_owner := Some (co_owner c),
      sl_expires := Some (co_now c + max 1 (co_ttl c)), sl_attempt := Some (co_attempt c), sl_updated_at := co_at c\<rparr>) rows"
    by (simp add: take_slot_def Let_def)
  then have "r\<lparr>sl_owner := Some (co_owner c), sl_expires := Some (co_now c + max 1 (co_ttl c)),
      sl_attempt := Some (co_attempt c), sl_updated_at := co_at c\<rparr> \<in> set rows'" (is "?r \<in> _")
    using r by (auto simp: set_update_where image_iff intro!: bexI [of _ r])
  then show ?thesis using r pick_below by (auto simp: holds_in_def slot_in_def intro!: bexI [of _ ?r])
qed

lemma tries_holds: "take_tries n c scope sid limit rows = (True, rows') \<Longrightarrow> holds_in c scope sid limit rows'"
proof (induction n arbitrary: rows)
  case (Suc n)
  obtain taken rows1 where t: "take_slot c scope sid limit rows = (taken, rows1)" by fastforce
  with Suc take_holds show ?case by (cases taken) auto
qed simp

lemma claim_holds:
  "claim_scope c scope sid (Some n) rows = (True, rows') \<Longrightarrow> holds_in c scope sid n rows'"
  by (auto simp: claim_scope_def try_acquire_slot_def dest: tries_holds split: if_splits)

text \<open>A claim in one scope leaves the rows of the others.\<close>

lemma other_take:
  "r \<in> set rows \<Longrightarrow> \<not> slot_in (co_tenant c) scope sid r \<Longrightarrow> r \<in> set (snd (take_slot c scope sid limit rows))"
  by (auto simp: take_slot_def Let_def intro!: held_update)

lemma other_tries:
  "r \<in> set rows \<Longrightarrow> \<not> slot_in (co_tenant c) scope sid r \<Longrightarrow> r \<in> set (snd (take_tries n c scope sid limit rows))"
proof (induction n arbitrary: rows)
  case (Suc n)
  obtain taken rows' where t: "take_slot c scope sid limit rows = (taken, rows')" by fastforce
  have "r \<in> set rows'" using other_take [OF Suc.prems, of limit] t by simp
  with Suc t show ?case by simp
qed simp

lemma other_claim:
  "r \<in> set rows \<Longrightarrow> \<not> slot_in (co_tenant c) scope sid r \<Longrightarrow> r \<in> set (snd (claim_scope c scope sid limit rows))"
  by (auto simp: claim_scope_def try_acquire_slot_def intro!: other_tries subsetD [OF ensure_subset] split: option.splits)

lemma other_claims:
  "r \<in> set rows \<Longrightarrow> claim_all c l claims rows = (True, rows') \<Longrightarrow>
    \<forall>(scope, sid, limit) \<in> set claims. \<not> slot_in (co_tenant c) scope sid r \<Longrightarrow> r \<in> set rows'"
proof (induction c l claims rows rule: claim_all.induct)
  case (2 c l scope sid limit claims rows)
  obtain taken rows1 where t: "claim_scope c scope sid limit rows = (taken, rows1)" by fastforce
  with 2(3) have taken: "taken" by (cases taken) simp_all
  have "r \<in> set rows1" using other_claim [OF 2(2), of c scope sid limit] 2(4) t by simp
  with 2 t taken show ?case by simp
qed simp

lemma claims_hold:
  "claim_all c l claims rows = (True, rows') \<Longrightarrow> distinct (map (\<lambda>(scope, sid, limit). (scope, sid)) claims) \<Longrightarrow>
    (scope, sid, Some n) \<in> set claims \<Longrightarrow> holds_in c scope sid n rows'"
proof (induction c l claims rows rule: claim_all.induct)
  case (2 c l scope1 sid1 limit claims rows)
  obtain taken rows1 where t: "claim_scope c scope1 sid1 limit rows = (taken, rows1)" by fastforce
  with 2(2) have taken: "taken" by (cases taken) simp_all
  with t 2(2) have rest: "claim_all c l claims rows1 = (True, rows')" by simp
  show ?case
  proof (cases "(scope, sid, Some n) \<in> set claims")
    case True
    with 2 t taken rest show ?thesis by simp
  next
    case False
    with 2(4) have e: "scope1 = scope" "sid1 = sid" "limit = Some n" by simp_all
    have "holds_in c scope sid n rows1" using t taken e by (auto intro: claim_holds)
    then obtain r where r: "r \<in> set rows1" "slot_in (co_tenant c) scope sid r" "int (sl_slot r) < n"
      "sl_attempt r = Some (co_attempt c)" "sl_expires r = Some (co_now c + max 1 (co_ttl c))"
      unfolding holds_in_def by blast
    have "r \<in> set rows'"
      by (rule other_claims [OF r(1) rest]) (use 2(3) r(2) e in \<open>auto simp: slot_in_def image_iff\<close>)
    with r show ?thesis unfolding holds_in_def by blast
  qed
qed simp

lemma claims_fail:
  "claim_all c l claims rows = (False, rows') \<Longrightarrow> co_attempt c \<noteq> [] \<Longrightarrow> r \<in> set rows' \<Longrightarrow>
    sl_tenant r = co_tenant c \<Longrightarrow> sl_attempt r \<noteq> Some (co_attempt c)"
proof (induction c l claims rows rule: claim_all.induct)
  case (2 c l scope sid limit claims rows)
  obtain taken rows1 where t: "claim_scope c scope sid limit rows = (taken, rows1)" by fastforce
  show ?case
  proof (cases taken)
    case True
    with 2 t show ?thesis by simp
  next
    case False
    then have "rows' = release_slots (co_tenant c) (co_attempt c) (co_at c) (Some l) rows1"
      using 2(2) t by simp
    with 2(3-5) show ?thesis by (auto simp: release_slots_def set_update_where split: if_splits)
  qed
qed simp

text \<open>
  Claiming concurrency is all or nothing: if it succeeds, the attempt holds a slot below the
  limit in every limited scope until the lease's end; if it fails, it holds no slot at all; and
  either way the slots other attempts hold are left as they are.
\<close>

theorem concurrency_all_or_nothing:
  assumes "try_acquire_concurrency c agent capability (Some l) rows = (granted, rows')" "co_attempt c \<noteq> []"
    and "xl_global l \<noteq> None"
  shows "(if granted
     then \<forall>(scope, sid, limit) \<in> set (claims_of l agent capability). \<forall>n. limit = Some n \<longrightarrow> holds_in c scope sid n rows'
     else \<forall>r \<in> set rows'. sl_tenant r = co_tenant c \<longrightarrow> sl_attempt r \<noteq> Some (co_attempt c)) \<and>
    (\<forall>a r. a \<noteq> co_attempt c \<longrightarrow> r \<in> set rows \<longrightarrow> held_by a (co_now c) r \<longrightarrow> r \<in> set rows')"
proof -
  have c: "claim_all c l (claims_of l agent capability) rows = (granted, rows')"
    using assms(1,3) by (simp add: try_acquire_concurrency_def)
  have d: "distinct (map (\<lambda>(scope, sid, limit). (scope, sid)) (claims_of l agent capability))"
    by (auto simp: claims_of_def split: option.split)
  have "holds_in c scope sid n rows'"
    if g: granted and m: "(scope, sid, Some n) \<in> set (claims_of l agent capability)" for scope sid n
  proof -
    have "claim_all c l (claims_of l agent capability) rows = (True, rows')" using c g by simp
    from claims_hold [OF this d m] show ?thesis .
  qed
  moreover have "r \<in> set rows'" if "a \<noteq> co_attempt c" "r \<in> set rows" "held_by a (co_now c) r" for a r
    using held_claims [OF that(2,3,1), of l "claims_of l agent capability"] c by simp
  ultimately show ?thesis using claims_fail [OF _ assms(2)] c by (auto split: if_splits)
qed

lemma concurrency_all_or_nothing_witness:
  "\<exists>rows'. try_acquire_concurrency (demo_claim ''a'') ''g'' None (Some demo_limits) [] = (True, rows') \<and>
    holds_in (demo_claim ''a'') ''agent'' ''g'' 1 rows'"
proof -
  obtain granted rows' where c: "try_acquire_concurrency (demo_claim ''a'') ''g'' None (Some demo_limits) [] = (granted, rows')"
    by fastforce
  have "fst (try_acquire_concurrency (demo_claim ''a'') ''g'' None (Some demo_limits) [])" by code_simp
  with c have "granted" by simp
  moreover have "co_attempt (demo_claim ''a'') \<noteq> []" "xl_global demo_limits \<noteq> None"
    "(''agent'', ''g'', Some 1) \<in> set (claims_of demo_limits ''g'' None)"
    by (simp_all add: demo_claim_def demo_limits_def claims_of_def)
  ultimately show ?thesis using concurrency_all_or_nothing [OF c] c by fastforce
qed

end
