(* ===== verification/Rate_Limiter.thy ===== *)
theory Rate_Limiter
  imports Prelude
begin

text \<open>
  The sliding window rate limiter of the HTTP routes, \<open>gateway/src/modules/auth/rate-limiter.ts\<close>:
  per key the times of the requests let through in the last window. Times are milliseconds; the
  clean-up timer is an operation of its own.
\<close>

record rate_limiter =
  rl_window :: nat
  rl_max :: nat
  rl_entries :: "(string, nat list) omap"

record check_result =
  cr_allowed :: bool
  cr_retry_after :: nat

definition new_limiter :: "int \<Rightarrow> int \<Rightarrow> string + rate_limiter" where
  "new_limiter window m =
    (if window \<le> 0 then Inl ''SlidingWindowRateLimiter requires a positive windowMs''
     else if m \<le> 0 then Inl ''SlidingWindowRateLimiter requires a positive max''
     else Inr \<lparr>rl_window = nat window, rl_max = nat m, rl_entries = []\<rparr>)"

text \<open>Shifting the samples that are not younger than the window.\<close>

definition drop_old :: "nat \<Rightarrow> nat \<Rightarrow> nat list \<Rightarrow> nat list" where
  "drop_old window now samples = dropWhile (\<lambda>t. int t \<le> int now - int window) samples"

definition samples_of :: "string \<Rightarrow> rate_limiter \<Rightarrow> nat list" where
  "samples_of key l = (case om_get (rl_entries l) key of None \<Rightarrow> [] | Some s \<Rightarrow> s)"

definition check :: "nat \<Rightarrow> string \<Rightarrow> rate_limiter \<Rightarrow> check_result \<times> rate_limiter" where
  "check now key l =
    (let samples = drop_old (rl_window l) now (samples_of key l) in
     if rl_max l \<le> length samples
     then (let oldest = (case samples of [] \<Rightarrow> now | t # _ \<Rightarrow> t)
           in (\<lparr>cr_allowed = False, cr_retry_after = oldest + rl_window l - now\<rparr>,
               l\<lparr>rl_entries := om_set key samples (rl_entries l)\<rparr>))
     else (\<lparr>cr_allowed = True, cr_retry_after = 0\<rparr>,
           l\<lparr>rl_entries := om_set key (samples @ [now]) (rl_entries l)\<rparr>))"

definition cleanup :: "nat \<Rightarrow> rate_limiter \<Rightarrow> rate_limiter" where
  "cleanup now l =
    l\<lparr>rl_entries := filter (\<lambda>e. snd e \<noteq> [])
      (map (\<lambda>(k, s). (k, drop_old (rl_window l) now s)) (rl_entries l))\<rparr>"

definition limiter_size :: "rate_limiter \<Rightarrow> nat" where
  "limiter_size l = length (rl_entries l)"

text \<open>The middleware: let the request through, or answer 429 with a delay in seconds.\<close>

datatype rate_response = NextHandler | TooManyRequests nat

definition rate_limit_middleware ::
  "string option \<Rightarrow> string option \<Rightarrow> nat \<Rightarrow> rate_limiter \<Rightarrow> rate_response \<times> rate_limiter" where
  "rate_limit_middleware pre client_ip now l =
    (let p = (case pre of None \<Rightarrow> [] | Some s \<Rightarrow> trim s) in
     case client_ip of
       None \<Rightarrow> (NextHandler, l)
     | Some ip \<Rightarrow>
         if ip = [] then (NextHandler, l)
         else (case check now (if p \<noteq> [] then p @ '':'' @ ip else ip) l of
                 (r, l') \<Rightarrow>
                   (if cr_allowed r then NextHandler
                    else TooManyRequests (max 1 ((cr_retry_after r + 999) div 1000)), l')))"

subsection \<open>The window is never exceeded\<close>

datatype limiter_op = Check nat string | Cleanup nat

fun op_time :: "limiter_op \<Rightarrow> nat" where
  "op_time (Check now key) = now"
| "op_time (Cleanup now) = now"

text \<open>Running operations; the result lists the times at which a key was let through.\<close>

fun run :: "string \<Rightarrow> rate_limiter \<Rightarrow> limiter_op list \<Rightarrow> nat list \<times> rate_limiter" where
  "run k l [] = ([], l)"
| "run k l (Cleanup now # ops) = run k (cleanup now l) ops"
| "run k l (Check now key # ops) =
    (case check now key l of
       (r, l') \<Rightarrow> (case run k l' ops of
         (ts, l'') \<Rightarrow> (if cr_allowed r \<and> key = k then now # ts else ts, l'')))"

lemma drop_old_filter:
  "sorted s \<Longrightarrow> drop_old window now s = filter (\<lambda>t. int now - int window < int t) s"
proof (induction s)
  case (Cons t s)
  then show ?case by (cases "int t \<le> int now - int window") (auto simp: drop_old_def intro!: filter_True [symmetric])
qed (simp add: drop_old_def)

lemma om_get_filter_map:
  "om_wf m \<Longrightarrow> om_get (filter (\<lambda>e. snd e \<noteq> []) (map (\<lambda>(k, s). (k, f s)) m)) k =
    (case om_get m k of None \<Rightarrow> None | Some s \<Rightarrow> if f s = [] then None else Some (f s))"
proof (induction m)
  case (Cons e m)
  obtain j s where e: "e = (j, s)" by (cases e)
  show ?case
  proof (cases "j = k")
    case True
    with Cons.prems e have "map_of (filter (\<lambda>e. snd e \<noteq> []) (map (\<lambda>(k, s). (k, f s)) m)) k = None"
      by (auto simp: map_of_eq_None_iff om_wf_def image_iff)
    with True e show ?thesis by (simp add: om_get_def)
  next
    case False
    with Cons e show ?thesis by (simp add: om_get_def om_wf_def)
  qed
qed (simp add: om_get_def)

lemma samples_cleanup:
  assumes "om_wf (rl_entries l)"
  shows "samples_of k (cleanup now l) = drop_old (rl_window l) now (samples_of k l)"
  using om_get_filter_map [OF assms, of "drop_old (rl_window l) now" k]
  by (cases "om_get (rl_entries l) k") (simp_all add: samples_of_def cleanup_def, simp add: drop_old_def)

lemma samples_check:
  "samples_of k (snd (check now key l)) =
    (if k = key then drop_old (rl_window l) now (samples_of k l) @ (if cr_allowed (fst (check now key l)) then [now] else [])
     else samples_of k l)"
  by (simp add: check_def Let_def samples_of_def)

lemma check_allowed:
  "cr_allowed (fst (check now key l)) \<longleftrightarrow> length (drop_old (rl_window l) now (samples_of key l)) < rl_max l"
  by (simp add: check_def Let_def not_less)

lemma limiter_kept [simp]:
  "rl_window (snd (check now key l)) = rl_window l" "rl_max (snd (check now key l)) = rl_max l"
  "rl_window (cleanup now l) = rl_window l" "rl_max (cleanup now l) = rl_max l"
  by (simp_all add: check_def cleanup_def Let_def)

lemma om_wf_cleanup [simp]: "om_wf (rl_entries l) \<Longrightarrow> om_wf (rl_entries (cleanup now l))"
  by (auto simp: om_wf_def cleanup_def distinct_map_filter split_def comp_def)

lemma om_wf_check [simp]: "om_wf (rl_entries l) \<Longrightarrow> om_wf (rl_entries (snd (check now key l)))"
  by (simp add: check_def Let_def)

definition in_window :: "nat \<Rightarrow> nat \<Rightarrow> nat list \<Rightarrow> nat list" where
  "in_window window t ts = filter (\<lambda>x. int t - int window < int x \<and> x \<le> t) ts"

text \<open>
  The invariant that ties the samples of a key to its history \<open>ts\<close> at the time \<open>now\<close>: the samples
  are what is younger than some cut-off no younger than the window.
\<close>

definition limiter_inv :: "string \<Rightarrow> nat list \<Rightarrow> nat \<Rightarrow> rate_limiter \<Rightarrow> bool" where
  "limiter_inv k ts now l \<longleftrightarrow> 0 < rl_window l \<and> om_wf (rl_entries l) \<and> sorted ts \<and> (\<forall>t \<in> set ts. t \<le> now) \<and>
    (\<exists>c. c \<le> int now - int (rl_window l) \<and> samples_of k l = filter (\<lambda>t. c < int t) ts) \<and>
    length (samples_of k l) \<le> rl_max l \<and>
    (\<forall>t. length (in_window (rl_window l) t ts) \<le> rl_max l)"

lemma inv_drop:
  assumes "limiter_inv k ts now l" "now \<le> now'"
  shows "drop_old (rl_window l) now' (samples_of k l) = filter (\<lambda>t. int now' - int (rl_window l) < int t) ts"
proof -
  obtain c where c: "c \<le> int now - int (rl_window l)" "samples_of k l = filter (\<lambda>t. c < int t) ts"
    using assms(1) by (auto simp: limiter_inv_def)
  have "sorted (samples_of k l)" using assms(1) c by (simp add: limiter_inv_def sorted_filter [where f = "\<lambda>x. x", simplified])
  then have "drop_old (rl_window l) now' (samples_of k l) =
      filter (\<lambda>t. int now' - int (rl_window l) < int t) (filter (\<lambda>t. c < int t) ts)"
    using c by (simp add: drop_old_filter)
  also have "\<dots> = filter (\<lambda>t. int now' - int (rl_window l) < int t) ts"
    using c(1) assms(2) by (auto intro!: filter_cong)
  finally show ?thesis .
qed

lemma inv_cleanup:
  assumes "limiter_inv k ts now l" "now \<le> now'"
  shows "limiter_inv k ts now' (cleanup now' l)"
proof -
  have s: "samples_of k (cleanup now' l) = filter (\<lambda>t. int now' - int (rl_window l) < int t) ts"
    using inv_drop [OF assms] assms(1) by (simp add: samples_cleanup limiter_inv_def)
  have "length (drop_old (rl_window l) now' (samples_of k l)) \<le> length (samples_of k l)"
    by (simp add: drop_old_def length_dropWhile_le)
  then have "length (samples_of k (cleanup now' l)) \<le> rl_max l"
    using assms(1) inv_drop [OF assms] s by (simp add: limiter_inv_def)
  with assms s show ?thesis unfolding limiter_inv_def by fastforce
qed

lemma inv_other:
  assumes "limiter_inv k ts now l" "now \<le> now'" "om_wf (rl_entries l')" "rl_window l' = rl_window l"
    "rl_max l' = rl_max l" "samples_of k l' = samples_of k l"
  shows "limiter_inv k ts now' l'"
proof -
  obtain c where c: "c \<le> int now - int (rl_window l)" "samples_of k l = filter (\<lambda>t. c < int t) ts"
    using assms(1) by (auto simp: limiter_inv_def)
  then have "c \<le> int now' - int (rl_window l') \<and> samples_of k l' = filter (\<lambda>t. c < int t) ts"
    using assms by simp
  moreover have "\<forall>t \<in> set ts. t \<le> now'" using assms(1,2) by (auto simp: limiter_inv_def)
  ultimately show ?thesis using assms(1,3-6) unfolding limiter_inv_def by (intro conjI exI) simp_all
qed

lemma inv_check:
  assumes inv: "limiter_inv k ts now l" and le: "now \<le> now'" and c: "check now' key l = (r, l')"
  shows "limiter_inv k (if cr_allowed r \<and> key = k then ts @ [now'] else ts) now' l'"
proof (cases "key = k")
  case False
  have "l' = snd (check now' key l)" using c by simp
  then have "limiter_inv k ts now' l'"
    using inv False by (intro inv_other [OF inv le]) (simp_all add: samples_check limiter_inv_def)
  with False show ?thesis by simp
next
  case True
  let ?w = "rl_window l" and ?s = "drop_old (rl_window l) now' (samples_of k l)"
  note d = inv_drop [OF inv le]
  have l': "l' = snd (check now' k l)" "r = fst (check now' k l)" using c True by simp_all
  have len: "length ?s \<le> rl_max l"
    using inv length_dropWhile_le [of "\<lambda>t. int t \<le> int now' - int ?w" "samples_of k l"]
    by (simp add: drop_old_def limiter_inv_def)
  have wf: "om_wf (rl_entries l')" "rl_window l' = ?w" "rl_max l' = rl_max l" "0 < ?w"
    using inv l' by (simp_all add: limiter_inv_def)
  have old: "sorted ts" "\<forall>t \<in> set ts. t \<le> now'" "\<forall>t. length (in_window ?w t ts) \<le> rl_max l"
    using inv le by (auto simp: limiter_inv_def)
  show ?thesis
  proof (cases "cr_allowed r")
    case False
    then have s: "samples_of k l' = ?s" using l' by (simp add: samples_check)
    have "\<exists>c. c \<le> int now' - int ?w \<and> samples_of k l' = filter (\<lambda>t. c < int t) ts"
      by (rule exI [of _ "int now' - int ?w"]) (simp add: s d)
    moreover have "length (samples_of k l') \<le> rl_max l" using s len by simp
    ultimately show ?thesis using False old wf unfolding limiter_inv_def by simp
  next
    case allowed: True
    then have small: "length ?s < rl_max l" using l' check_allowed [of now' k l] by simp
    have s: "samples_of k l' = ?s @ [now']" using l' allowed by (simp add: samples_check)
    have "length (in_window ?w t (ts @ [now'])) \<le> rl_max l" for t
    proof (cases "now' \<le> t")
      case True
      have "length (in_window ?w t ts) \<le> length (filter (\<lambda>x. int now' - int ?w < int x) ts)"
        unfolding in_window_def by (induction ts) (use True in auto)
      then show ?thesis using small d by (simp add: in_window_def)
    next
      case False
      then show ?thesis using old(3) by (simp add: in_window_def)
    qed
    moreover have "\<exists>c. c \<le> int now' - int ?w \<and> samples_of k l' = filter (\<lambda>t. c < int t) (ts @ [now'])"
      using s d wf(4) by (intro exI [of _ "int now' - int ?w"]) simp
    moreover have "length (samples_of k l') \<le> rl_max l" using s small by simp
    moreover have "sorted (ts @ [now'])" "\<forall>t \<in> set (ts @ [now']). t \<le> now'" using old by (simp_all add: sorted_append)
    ultimately show ?thesis using allowed True wf unfolding limiter_inv_def by simp
  qed
qed

lemma last_time: "sorted (map op_time ops @ [now]) \<Longrightarrow> last (0 # map op_time ops) \<le> now"
  by (cases ops rule: rev_cases) (auto simp: sorted_append)

lemma run_inv:
  "limiter_inv k ts now l \<Longrightarrow> sorted (now # map op_time ops) \<Longrightarrow> run k l ops = (ts', l') \<Longrightarrow>
    limiter_inv k (ts @ ts') (last (now # map op_time ops)) l'"
proof (induction k l ops arbitrary: ts now ts' l' rule: run.induct)
  case (1 k l)
  then show ?case by auto
next
  case (2 k l t ops)
  have "limiter_inv k ts t (cleanup t l)" using inv_cleanup 2(2,3) by simp
  from 2(1) [OF this] 2(3,4) show ?case by fastforce
next
  case (3 k l t key ops)
  obtain r l1 where c: "check t key l = (r, l1)" by fastforce
  obtain ts1 l2 where n: "run k l1 ops = (ts1, l2)" by fastforce
  have "limiter_inv k (if cr_allowed r \<and> key = k then ts @ [t] else ts) t l1"
    by (rule inv_check [OF 3(2) _ c]) (use 3(3) in simp)
  from 3(1) [OF c [symmetric] this _ n] 3(3,4) c n show ?case by (fastforce split: if_splits)
qed

lemma run_kept: "run k l ops = (ts, l') \<Longrightarrow> rl_window l' = rl_window l \<and> rl_max l' = rl_max l"
proof (induction k l ops arbitrary: ts l' rule: run.induct)
  case (3 k l t key ops)
  obtain r l1 where c: "check t key l = (r, l1)" by fastforce
  obtain ts1 l2 where n: "run k l1 ops = (ts1, l2)" by fastforce
  from 3(1) [OF c [symmetric] n] 3(2) c n limiter_kept(1,2) [of t key l] show ?case by simp
qed simp_all

lemma new_limiter_inv: "new_limiter window m = Inr l \<Longrightarrow> limiter_inv k [] 0 l"
  by (auto simp: new_limiter_def limiter_inv_def samples_of_def in_window_def split: if_splits
      intro: exI [of _ "- window"])

text \<open>
  The limit holds in every window: whatever checks of any keys and clean-ups run at
  non-decreasing times on a fresh limiter, in every window of the configured length at most the
  configured number of requests of a key are let through.
\<close>

theorem window_limit:
  assumes "new_limiter window m = Inr l" "sorted (map op_time ops)" "run k l ops = (ts, l')"
  shows "length (in_window (nat window) t ts) \<le> nat m"
proof -
  have l: "rl_window l = nat window" "rl_max l = nat m"
    using assms(1) by (auto simp: new_limiter_def split: if_splits)
  from run_inv [OF new_limiter_inv [OF assms(1)] _ assms(3)] assms(2)
  have "limiter_inv k ts (last (0 # map op_time ops)) l'" by simp
  then show ?thesis using run_kept [OF assms(3)] l by (simp add: limiter_inv_def)
qed

lemma window_limit_witness:
  "length (in_window 10 20 (fst (run ''a'' \<lparr>rl_window = 10, rl_max = 2, rl_entries = []\<rparr>
    [Check 11 ''a'', Check 12 ''b'', Check 13 ''a'', Cleanup 14, Check 20 ''a'']))) \<le> 2"
proof -
  let ?ops = "[Check 11 ''a'', Check 12 ''b'', Check 13 ''a'', Cleanup 14, Check 20 ''a'']"
  let ?l = "\<lparr>rl_window = 10, rl_max = 2, rl_entries = []\<rparr>"
  have n: "new_limiter 10 2 = Inr ?l" by (simp add: new_limiter_def)
  obtain ts l' where r: "run ''a'' ?l ?ops = (ts, l')" by fastforce
  have "sorted (map op_time ?ops)" by simp
  from window_limit [OF n this r, of 20] r show ?thesis by simp
qed

lemma retry_exact:
  assumes "limiter_inv k ts now0 l" "now0 \<le> now" "check now k l = (r, l')" "\<not> cr_allowed r"
    and "0 < rl_max l" "now \<le> later"
  shows "0 < cr_retry_after r \<and> (cr_allowed (fst (check later k l')) \<longleftrightarrow> now + cr_retry_after r \<le> later)"
proof -
  let ?s = "drop_old (rl_window l) now (samples_of k l)"
  have l': "l' = snd (check now k l)" "r = fst (check now k l)" using assms(3) by simp_all
  have inv': "limiter_inv k ts now l'" using inv_check [OF assms(1-3)] assms(4) by simp
  have s: "samples_of k l' = ?s" using l' assms(4) by (simp add: samples_check)
  have full: "rl_max l \<le> length ?s" using l' assms(4) check_allowed [of now k l] by simp
  have w: "rl_window l' = rl_window l" "rl_max l' = rl_max l" using l' by simp_all
  then have eq: "length ?s = rl_max l" using inv' s full by (simp add: limiter_inv_def)
  then obtain t rest where t: "?s = t # rest" using assms(5) by (cases ?s) auto
  have young: "int now - int (rl_window l) < int t"
    using t by (auto simp: drop_old_def dest: hd_dropWhile_not)
  have r: "cr_retry_after r = t + rl_window l - now"
    using l' full t by (simp add: check_def Let_def)
  have "drop_old (rl_window l) later ?s = (if int t \<le> int later - int (rl_window l) then drop_old (rl_window l) later rest else ?s)"
    using t by (simp add: drop_old_def)
  moreover have "length (drop_old (rl_window l) later rest) \<le> length rest"
    by (simp add: drop_old_def length_dropWhile_le)
  ultimately have "cr_allowed (fst (check later k l')) \<longleftrightarrow> int t \<le> int later - int (rl_window l)"
    using eq t by (auto simp: check_allowed s w)
  then show ?thesis using r young by auto
qed

text \<open>
  The announced delay is exact: whatever ran before, a refused request is told a positive
  delay; until it has passed the key is refused, and once it has passed (and nothing else used the
  key) a request of the key is let through.
\<close>

theorem retry_after_exact:
  assumes "new_limiter window m = Inr l0" "sorted (map op_time ops @ [now])" "run k l0 ops = (ts, l)"
    and "check now k l = (r, l')" "\<not> cr_allowed r" "now \<le> later"
  shows "0 < cr_retry_after r \<and> (cr_allowed (fst (check later k l')) \<longleftrightarrow> now + cr_retry_after r \<le> later)"
proof -
  have "limiter_inv k ([] @ ts) (last (0 # map op_time ops)) l"
    by (rule run_inv [OF new_limiter_inv [OF assms(1)] _ assms(3)]) (use assms(2) in \<open>simp add: sorted_append\<close>)
  moreover have "0 < rl_max l"
    using assms(1) run_kept [OF assms(3)] by (auto simp: new_limiter_def split: if_splits)
  ultimately show ?thesis using retry_exact [OF _ last_time [OF assms(2)] assms(4,5) _ assms(6)] by blast
qed

lemma retry_after_exact_witness:
  "cr_allowed (fst (check 21 ''a'' (snd (check 15 ''a'' (snd (run ''a'' \<lparr>rl_window = 10, rl_max = 1, rl_entries = []\<rparr> [Check 11 ''a''])))))) "
proof -
  let ?l = "\<lparr>rl_window = 10, rl_max = 1, rl_entries = []\<rparr>"
  have n: "new_limiter 10 1 = Inr ?l" by (simp add: new_limiter_def)
  obtain ts l where r: "run ''a'' ?l [Check 11 ''a''] = (ts, l)" by fastforce
  obtain c l' where c: "check 15 ''a'' l = (c, l')" by fastforce
  have "\<not> cr_allowed (fst (check 15 ''a'' (snd (run ''a'' ?l [Check 11 ''a'']))))"
    "cr_retry_after (fst (check 15 ''a'' (snd (run ''a'' ?l [Check 11 ''a''])))) = 6"
    by code_simp+
  note f = this [unfolded r snd_conv c fst_conv]
  have "sorted (map op_time [Check 11 ''a''] @ [15])" "15 \<le> (21::nat)" by simp_all
  from retry_after_exact [OF n this(1) r c f(1) this(2)] f(2)
  show ?thesis unfolding r snd_conv c by simp
qed

end
