(* ===== verification/Client_Ip.thy ===== *)
theory Client_Ip
  imports Json_Value Rate_Limiter "HOL-Library.Word"
begin

text \<open>
  The address of a client behind proxies, \<open>gateway/src/modules/auth/client-ip.ts\<close>. Of Node's \<open>net\<close>
  module \<open>isIP\<close> is modelled by its grammar and \<open>BlockList\<close> by its comparison: every address is a
  128-bit word, an IPv4 address the one mapped into IPv6, and a rule compares the leading bits.
\<close>

subsection \<open>Addresses\<close>

definition octet :: "string \<Rightarrow> nat option" where
  "octet s =
    (if s \<noteq> [] \<and> length s \<le> 3 \<and> list_all is_digit s \<and> (hd s = CHR ''0'' \<longrightarrow> length s = 1) \<and> digits_value s \<le> 255
     then Some (digits_value s) else None)"

definition ipv4_octets :: "string \<Rightarrow> nat list option" where
  "ipv4_octets s =
    (let ps = map octet (split_on CHR ''.'' s) in
     if length ps = 4 \<and> list_all (\<lambda>p. p \<noteq> None) ps then Some (map the ps) else None)"

definition is_hex :: "char \<Rightarrow> bool" where
  "is_hex c \<longleftrightarrow> is_digit c \<or> (97 \<le> (of_char (lower_char c) :: nat) \<and> (of_char (lower_char c) :: nat) \<le> 102)"

definition hex_group :: "string \<Rightarrow> nat option" where
  "hex_group s =
    (if s \<noteq> [] \<and> length s \<le> 4 \<and> list_all is_hex s
     then Some (foldl (\<lambda>v c. 16 * v + hex_value (lower_char c)) 0 s) else None)"

text \<open>Sixteen-bit groups between colons; the last one may be a dotted quad.\<close>

fun ipv6_groups :: "string list \<Rightarrow> nat list option" where
  "ipv6_groups [] = Some []"
| "ipv6_groups [s] =
    (case ipv4_octets s of
       Some [a, b, c, d] \<Rightarrow> Some [256 * a + b, 256 * c + d]
     | _ \<Rightarrow> map_option (\<lambda>g. [g]) (hex_group s))"
| "ipv6_groups (s # t # ss) =
    (case (hex_group s, ipv6_groups (t # ss)) of (Some g, Some gs) \<Rightarrow> Some (g # gs) | _ \<Rightarrow> None)"

definition colon_groups :: "string \<Rightarrow> nat list option" where
  "colon_groups s = (if s = [] then Some [] else ipv6_groups (split_on CHR '':'' s))"

fun split_gap :: "string \<Rightarrow> (string \<times> string) option" where
  "split_gap (c # d # s) =
    (if c = CHR '':'' \<and> d = CHR '':'' then Some ([], s)
     else map_option (\<lambda>(l, r). (c # l, r)) (split_gap (d # s)))"
| "split_gap _ = None"

definition ipv6_value :: "string \<Rightarrow> 128 word option" where
  "ipv6_value s =
    (let word = (\<lambda>gs. foldl (\<lambda>v g. push_bit 16 v + of_nat g) 0 gs) in
     case split_gap s of
       None \<Rightarrow> (case colon_groups s of Some gs \<Rightarrow> if length gs = 8 then Some (word gs) else None | None \<Rightarrow> None)
     | Some (l, r) \<Rightarrow>
         (case (colon_groups l, colon_groups r) of
            (Some gl, Some gr) \<Rightarrow>
              if length gl + length gr \<le> 7 \<and> CHR ''.'' \<notin> set l
              then Some (word (gl @ replicate (8 - (length gl + length gr)) 0 @ gr)) else None
          | _ \<Rightarrow> None))"

text \<open>An IPv4 address is mapped to \<open>::ffff:a.b.c.d\<close>.\<close>

definition ipv4_value :: "string \<Rightarrow> 128 word option" where
  "ipv4_value s = map_option (\<lambda>os. foldl (\<lambda>v b. push_bit 8 v + of_nat b) 0xFFFF os) (ipv4_octets s)"

definition zone_ok :: "string \<Rightarrow> bool" where
  "zone_ok s \<longleftrightarrow> (case index_of CHR ''%'' s of
      None \<Rightarrow> True
    | Some i \<Rightarrow> drop (Suc i) s \<noteq> [] \<and> list_all (\<lambda>c. is_digit c \<or> c \<in> set ''-.:'' \<or>
        97 \<le> (of_char (lower_char c) :: nat) \<and> (of_char (lower_char c) :: nat) \<le> 122) (drop (Suc i) s))"

definition before_zone :: "string \<Rightarrow> string" where
  "before_zone s = takeWhile (\<lambda>c. c \<noteq> CHR ''%'') s"

definition is_ip :: "string \<Rightarrow> nat" where
  "is_ip s =
    (if ipv4_octets s \<noteq> None then 4
     else if zone_ok s \<and> ipv6_value (before_zone s) \<noteq> None then 6
     else 0)"

datatype ip_family = IPv4 | IPv6

definition ip_family_of :: "string \<Rightarrow> ip_family option" where
  "ip_family_of s = (if is_ip s = 4 then Some IPv4 else if is_ip s = 6 then Some IPv6 else None)"

definition ip_word :: "string \<Rightarrow> ip_family \<Rightarrow> 128 word option" where
  "ip_word s f = (case f of IPv4 \<Rightarrow> ipv4_value s | IPv6 \<Rightarrow> ipv6_value (before_zone s))"

definition normalize_ip :: "string option \<Rightarrow> string option" where
  "normalize_ip raw =
    (case raw of None \<Rightarrow> None
     | Some r \<Rightarrow>
         if trim r = [] then None
         else (let w = before_zone (trim r) in
           if starts_with (map lower_char w) ''::ffff:'' \<and> is_ip (drop 7 w) = 4 then Some (drop 7 w) else Some w))"

text \<open>A text that is there, not empty, and an address.\<close>

definition valid_ip :: "string option \<Rightarrow> string option" where
  "valid_ip h = (case normalize_ip h of
     None \<Rightarrow> None | Some s \<Rightarrow> if s \<noteq> [] \<and> ip_family_of s \<noteq> None then Some s else None)"

subsection \<open>Trusted proxies\<close>

type_synonym proxy_rules = "(128 word \<times> nat) list"

definition prefix_match :: "128 word \<Rightarrow> nat \<Rightarrow> 128 word \<Rightarrow> bool" where
  "prefix_match net p x \<longleftrightarrow> drop_bit (128 - p) x = drop_bit (128 - p) net"

definition rules_check :: "proxy_rules \<Rightarrow> string \<Rightarrow> ip_family \<Rightarrow> bool" where
  "rules_check rules s f = (case ip_word s f of None \<Rightarrow> False | Some x \<Rightarrow> list_ex (\<lambda>(net, p). prefix_match net p x) rules)"

definition is_trusted_proxy :: "proxy_rules \<Rightarrow> string \<Rightarrow> bool" where
  "is_trusted_proxy rules ip =
    (case normalize_ip (Some ip) of
       None \<Rightarrow> False
     | Some s \<Rightarrow> if s = [] then False
                 else (case ip_family_of s of None \<Rightarrow> False | Some f \<Rightarrow> rules_check rules s f))"

datatype proxy_error =
  MissingIp string | InvalidIp string | InvalidPrefix string | PrefixTooBroad string | PrefixOutOfRange string
  | InvalidAddress string

text \<open>Digits that denote a number beyond the range of doubles give \<open>Infinity\<close>, which is no integer.\<close>

definition finite_number :: "string \<Rightarrow> bool" where
  "finite_number s \<longleftrightarrow> int (digits_value s) < 2 ^ 1024 - 2 ^ 970"

definition add_entry :: "string \<Rightarrow> proxy_error + (128 word \<times> nat)" where
  "add_entry entry =
    (case index_of CHR ''/'' entry of
       Some i \<Rightarrow>
         (case normalize_ip (Some (take i entry)) of
            None \<Rightarrow> Inl (MissingIp entry)
          | Some base \<Rightarrow>
              if base = [] then Inl (MissingIp entry)
              else (case ip_family_of base of
                 None \<Rightarrow> Inl (InvalidIp entry)
               | Some f \<Rightarrow>
                   (let prefix_raw = trim (drop (Suc i) entry); p = digits_value prefix_raw in
                    if prefix_raw = [] \<or> \<not> list_all is_digit prefix_raw then Inl (InvalidPrefix entry)
                    else if \<not> finite_number prefix_raw then Inl (InvalidPrefix entry)
                    else if p = 0 then Inl (PrefixTooBroad entry)
                    else if (case f of IPv4 \<Rightarrow> 32 | IPv6 \<Rightarrow> 128) < p then Inl (PrefixOutOfRange entry)
                    else (case ip_word base f of
                            None \<Rightarrow> Inl (InvalidIp entry)
                          | Some net \<Rightarrow> Inr (net, case f of IPv4 \<Rightarrow> p + 96 | IPv6 \<Rightarrow> p)))))
     | None \<Rightarrow>
         (case normalize_ip (Some entry) of
            None \<Rightarrow> Inl (InvalidAddress entry)
          | Some ip \<Rightarrow>
              if ip = [] then Inl (InvalidAddress entry)
              else (case ip_family_of ip of
                      None \<Rightarrow> Inl (InvalidAddress entry)
                    | Some f \<Rightarrow> (case ip_word ip f of
                        None \<Rightarrow> Inl (InvalidAddress entry) | Some x \<Rightarrow> Inr (x, 128)))))"

fun add_entries :: "string list \<Rightarrow> proxy_error + proxy_rules" where
  "add_entries [] = Inr []"
| "add_entries (e # es) =
    (case add_entry e of
       Inl err \<Rightarrow> Inl err
     | Inr r \<Rightarrow> (case add_entries es of Inl err \<Rightarrow> Inl err | Inr rs \<Rightarrow> Inr (r # rs)))"

definition create_trusted_proxies :: "string option \<Rightarrow> proxy_error + proxy_rules option" where
  "create_trusted_proxies raw =
    (let entries = (case raw of None \<Rightarrow> [] | Some r \<Rightarrow>
           filter (\<lambda>p. p \<noteq> []) (map trim (split_on CHR '','' (trim r)))) in
     if entries = [] then Inr None
     else (case add_entries entries of Inl e \<Rightarrow> Inl e | Inr rs \<Rightarrow> Inr (Some rs)))"

subsection \<open>Headers\<close>

definition last_index_of :: "char \<Rightarrow> string \<Rightarrow> nat option" where
  "last_index_of c s = map_option (\<lambda>i. length s - Suc i) (index_of c (rev s))"

definition extract_host :: "string \<Rightarrow> string option" where
  "extract_host value =
    (let t = trim value in
     if t = [] then None
     else (let u = (if hd t = CHR 0x22 \<and> last t = CHR 0x22 then trim (take (length t - 2) (drop 1 t)) else t) in
       if starts_with u ''[''
       then (case index_of CHR '']'' u of
               None \<Rightarrow> None
             | Some i \<Rightarrow> if i \<le> 1 then None
                         else (let inside = trim (take (i - 1) (drop 1 u)) in if inside = [] then None else Some inside))
       else if is_ip u \<noteq> 0 then Some u
       else (case last_index_of CHR '':'' u of
               None \<Rightarrow> Some u
             | Some i \<Rightarrow>
                 (let host = trim (take i u); port = trim (drop (Suc i) u) in
                  if port \<noteq> [] \<and> list_all is_digit port \<and> is_ip host = 4 then Some host else Some u))))"

text \<open>Splitting outside of double quotes.\<close>

fun split_unquoted :: "char \<Rightarrow> bool \<Rightarrow> string \<Rightarrow> string list" where
  "split_unquoted c q [] = [[]]"
| "split_unquoted c q (x # xs) =
    (if x \<noteq> CHR 0x22 \<and> \<not> q \<and> x = c then [] # split_unquoted c q xs
     else (case split_unquoted c (if x = CHR 0x22 then \<not> q else q) xs of [] \<Rightarrow> [[x]] | p # ps \<Rightarrow> (x # p) # ps))"

definition split_header :: "char \<Rightarrow> string \<Rightarrow> string list" where
  "split_header c value = filter (\<lambda>p. p \<noteq> []) (map trim (split_unquoted c False value))"

definition forwarded_for :: "string \<Rightarrow> string option" where
  "forwarded_for pair =
    (case index_of CHR ''='' pair of
       None \<Rightarrow> None
     | Some i \<Rightarrow> if i = 0 \<or> map lower_char (trim (take i pair)) \<noteq> ''for'' then None
                 else valid_ip (extract_host (trim (drop (Suc i) pair))))"

fun first_some :: "'a option list \<Rightarrow> 'a list" where
  "first_some [] = []"
| "first_some (None # xs) = first_some xs"
| "first_some (Some x # xs) = [x]"

definition parse_forwarded :: "string \<Rightarrow> string list" where
  "parse_forwarded value =
    concat (map (\<lambda>entry. first_some (map forwarded_for (split_header CHR '';'' entry))) (split_header CHR '','' value))"

definition parse_x_forwarded_for :: "string \<Rightarrow> string list" where
  "parse_x_forwarded_for value =
    concat (map (\<lambda>p. first_some [valid_ip (extract_host p)]) (split_on CHR '','' value))"

definition parse_x_real_ip :: "string \<Rightarrow> string list" where
  "parse_x_real_ip value = first_some [valid_ip (extract_host value)]"

subsection \<open>The client\<close>

definition header_ips :: "string option \<Rightarrow> string option \<Rightarrow> string option \<Rightarrow> string list" where
  "header_ips forwarded xff real_ip =
    (let ips = (\<lambda>f h. case h of None \<Rightarrow> [] | Some v \<Rightarrow> if v = [] then [] else f v) in
     if ips parse_forwarded forwarded \<noteq> [] then ips parse_forwarded forwarded
     else if ips parse_x_forwarded_for xff \<noteq> [] then ips parse_x_forwarded_for xff
     else ips parse_x_real_ip real_ip)"

text \<open>Trusted hops are taken off the right end of the chain, but never the last remaining one.\<close>

function strip_trusted :: "proxy_rules \<Rightarrow> string list \<Rightarrow> string list" where
  "strip_trusted rules chain =
    (if 1 < length chain \<and> is_trusted_proxy rules (last chain) then strip_trusted rules (butlast chain) else chain)"
  by pat_completeness auto
termination by (relation "measure (\<lambda>(rules, chain). length chain)") auto

declare strip_trusted.simps [simp del]

definition resolve_client_ip ::
  "string option \<Rightarrow> string option \<Rightarrow> string option \<Rightarrow> string option \<Rightarrow> proxy_rules option \<Rightarrow> string option" where
  "resolve_client_ip remote forwarded xff real_ip proxies =
    (case normalize_ip remote of
       None \<Rightarrow> None
     | Some peer \<Rightarrow>
         if peer = [] then None
         else (case proxies of
            None \<Rightarrow> Some peer
          | Some rules \<Rightarrow>
              if \<not> is_trusted_proxy rules peer then Some peer
              else (let ips = header_ips forwarded xff real_ip in
                if ips = [] then Some peer else Some (last (strip_trusted rules (ips @ [peer]))))))"

definition resolve_from_request ::
  "string option \<Rightarrow> string option \<Rightarrow> string option \<Rightarrow> string option \<Rightarrow> proxy_rules option
    \<Rightarrow> string option \<times> string option" where
  "resolve_from_request remote forwarded xff real_ip proxies =
    (normalize_ip remote, resolve_client_ip (normalize_ip remote) forwarded xff real_ip proxies)"

definition get_client_ip :: "string option \<Rightarrow> string option" where
  "get_client_ip v = normalize_ip v"

end
