(* ===== verification/Client_Ip_Facts.thy ===== *)
theory Client_Ip_Facts
  imports Client_Ip
begin

text \<open>
  Which hop is taken for the client, what a client can forge, and which addresses a subnet entry of the
  allowlist covers.
\<close>

subsection \<open>Dotted quads\<close>

lemma split_on_chars: "x \<in> set s \<Longrightarrow> x = c \<or> (\<exists>p \<in> set (split_on c s). x \<in> set p)"
proof (induction s)
  case (Cons y s)
  show ?case
  proof (cases "y = c")
    case False
    obtain p ps where "split_on c s = p # ps" by (cases "split_on c s") simp_all
    with Cons False show ?thesis by auto
  qed (use Cons in auto)
qed simp

lemma octet_some: "octet p = Some n \<Longrightarrow> p \<noteq> [] \<and> list_all is_digit p \<and> n \<le> 255"
  by (auto simp: octet_def split: if_splits)

definition quad_char :: "char \<Rightarrow> bool" where
  "quad_char c \<longleftrightarrow> is_digit c \<or> c = CHR ''.''"

lemma ipv4_octets_some:
  assumes "ipv4_octets s = Some os"
  shows "list_all quad_char s" "s \<noteq> []" "length os = 4" "\<forall>n \<in> set os. n \<le> 255" "is_digit (hd s)"
proof -
  let ?ps = "split_on CHR ''.'' s"
  from assms have l: "length ?ps = 4" and a: "\<forall>p \<in> set ?ps. octet p \<noteq> None" and os: "os = map (\<lambda>p. the (octet p)) ?ps"
    by (auto simp: ipv4_octets_def Let_def list_all_iff split: if_splits)
  show "list_all quad_char s"
    unfolding list_all_iff quad_char_def using split_on_chars [of _ s "CHR ''.''"] a octet_some
    by (metis (no_types, lifting) list_all_iff not_Some_eq)
  show "length os = 4" using l os by simp
  show "\<forall>n \<in> set os. n \<le> 255" using a os octet_some by fastforce
  show "s \<noteq> []" using l by auto
  then obtain y s' where s: "s = y # s'" by (cases s) auto
  have "hd ?ps \<in> set ?ps" by simp
  with a octet_some have "hd ?ps \<noteq> []" "list_all is_digit (hd ?ps)" by blast+
  then show "is_digit (hd s)" using s by (auto split: if_splits list.splits)
qed

lemma quad_char_plain:
  "quad_char c \<Longrightarrow> \<not> is_js_space c \<and> c \<noteq> CHR 0x22 \<and> c \<noteq> CHR ''['' \<and> c \<noteq> CHR ''%'' \<and> c \<noteq> CHR '':'' \<and> c \<noteq> CHR '','' \<and>
    c \<noteq> CHR '';'' \<and> c \<noteq> CHR ''=''"
  by (auto simp: quad_char_def is_digit_def is_js_space_def Let_def)

lemma quad_host:
  assumes "ipv4_octets s = Some os"
  shows "trim s = s" "extract_host s = Some s" "valid_ip (Some s) = Some s" "normalize_ip (Some s) = Some s"
    "is_ip s = 4" "before_zone s = s"
proof -
  note q = ipv4_octets_some [OF assms]
  have plain: "\<forall>c \<in> set s. \<not> is_js_space c \<and> c \<noteq> CHR 0x22 \<and> c \<noteq> CHR ''['' \<and> c \<noteq> CHR ''%'' \<and> c \<noteq> CHR '':''"
    using q(1) quad_char_plain by (auto simp: list_all_iff)
  show t: "trim s = s" using plain by (intro trim_plain) blast
  show ip: "is_ip s = 4" using assms by (simp add: is_ip_def)
  show b: "before_zone s = s" using plain by (auto simp: before_zone_def takeWhile_eq_all_conv)
  have h: "hd s \<noteq> CHR 0x22" "hd s \<noteq> CHR ''[''" "lower_char (hd s) \<noteq> CHR '':''"
    using plain q(2,5) by (auto simp: is_digit_def lower_char_def Let_def)
  show "extract_host s = Some s"
    using t ip q(2) h by (cases s) (auto simp: extract_host_def Let_def starts_with_def)
  have "\<not> starts_with (map lower_char s) ''::ffff:''" using h q(2) by (cases s) (auto simp: starts_with_def)
  then show n: "normalize_ip (Some s) = Some s" using t q(2) b by (simp add: normalize_ip_def Let_def)
  show "valid_ip (Some s) = Some s" using n q(2) ip by (simp add: valid_ip_def ip_family_of_def)
qed

text \<open>Writing a dotted quad and reading it back.\<close>

definition show_quad :: "nat \<Rightarrow> nat \<Rightarrow> nat \<Rightarrow> nat \<Rightarrow> string" where
  "show_quad a b c d = show_nat a @ ''.'' @ show_nat b @ ''.'' @ show_nat c @ ''.'' @ show_nat d"

lemma hd_show_nat: "10 \<le> n \<Longrightarrow> hd (show_nat n) \<noteq> CHR ''0''"
proof (induction n rule: show_nat.induct)
  case (1 n)
  show ?case
  proof (cases "n div 10 < 10")
    case True
    then have "show_nat n = [char_of (48 + n div 10), char_of (48 + n mod 10)]"
      using 1 by (simp add: show_nat.simps [of n] show_nat.simps [of "n div 10"])
    moreover have "n div 10 \<noteq> 0" using 1 by simp
    moreover have "char_of (48 + n div 10) \<noteq> CHR ''0''" if "n div 10 \<noteq> 0"
    proof
      assume "char_of (48 + n div 10) = CHR ''0''"
      then have "(of_char (char_of (48 + n div 10)) :: nat) = of_char (CHR ''0'')" by simp
      then show False using True that by simp
    qed
    ultimately show ?thesis by simp
  next
    case False
    with 1 show ?thesis by (simp add: show_nat.simps [of n] hd_append show_nat_not_Nil)
  qed
qed


lemma octet_show: "n \<le> 255 \<Longrightarrow> octet (show_nat n) = Some n"
proof -
  assume n: "n \<le> 255"
  have d: "list_all is_digit (show_nat n)" using show_nat_digits by (auto simp: list_all_iff is_digit_def)
  have l: "length (show_nat n) \<le> 3"
    using n by (simp add: show_nat.simps [of n] show_nat.simps [of "n div 10"] show_nat.simps [of "n div 100"] div_mult2_eq [symmetric])
  have z: "hd (show_nat n) = CHR ''0'' \<Longrightarrow> length (show_nat n) = 1"
    using hd_show_nat [of n] by (cases "n < 10") (simp_all add: show_nat.simps [of n])
  show ?thesis using d l z n by (simp add: octet_def digits_show show_nat_not_Nil)
qed

lemma ipv4_show_quad:
  assumes "a \<le> 255" "b \<le> 255" "c \<le> 255" "d \<le> 255"
  shows "ipv4_octets (show_quad a b c d) = Some [a, b, c, d]"
proof -
  have "CHR ''.'' \<notin> set (show_nat n)" for n
    using show_nat_digits [of "CHR ''.''" n] by auto
  then have "split_on CHR ''.'' (show_quad a b c d) = [show_nat a, show_nat b, show_nat c, show_nat d]"
    by (simp add: show_quad_def split_on_append split_on_plain)
  with assms show ?thesis by (simp add: ipv4_octets_def octet_show)
qed

subsection \<open>Chains of hops\<close>

lemma strip_trusted_append:
  assumes "\<exists>y \<in> set ys. \<not> is_trusted_proxy rules y"
  shows "strip_trusted rules (xs @ ys) = xs @ strip_trusted rules ys"
  using assms
proof (induction ys rule: rev_induct)
  case (snoc y ys)
  show ?case
  proof (cases "is_trusted_proxy rules y")
    case True
    with snoc.prems have u: "\<exists>y \<in> set ys. \<not> is_trusted_proxy rules y" by auto
    then have ne: "ys \<noteq> []" by auto
    have "strip_trusted rules (ys @ [y]) = strip_trusted rules ys"
      using True ne by (subst strip_trusted.simps) simp
    moreover have "strip_trusted rules (xs @ ys @ [y]) = strip_trusted rules (xs @ ys)"
      using True ne by (subst strip_trusted.simps) (simp add: butlast_append)
    ultimately show ?thesis using snoc.IH [OF u] by simp
  next
    case False
    then show ?thesis by (subst strip_trusted.simps, subst (2) strip_trusted.simps) simp
  qed
qed simp

lemma strip_trusted_not_Nil: "chain \<noteq> [] \<Longrightarrow> strip_trusted rules chain \<noteq> []"
proof (induction rules chain rule: strip_trusted.induct)
  case (1 rules chain)
  then show ?case by (subst strip_trusted.simps) (auto simp: butlast_conv_take)
qed

lemma last_strip_trusted:
  "chain \<noteq> [] \<Longrightarrow> last (strip_trusted rules chain) =
    (if list_all (is_trusted_proxy rules) chain then hd chain else last (filter (\<lambda>ip. \<not> is_trusted_proxy rules ip) chain))"
proof (induction chain rule: rev_induct)
  case (snoc y ys)
  show ?case
  proof (cases "is_trusted_proxy rules y \<and> ys \<noteq> []")
    case True
    then have "strip_trusted rules (ys @ [y]) = strip_trusted rules ys" by (subst strip_trusted.simps) simp
    with snoc True show ?thesis by (simp add: hd_append)
  next
    case False
    then have "strip_trusted rules (ys @ [y]) = ys @ [y]" by (subst strip_trusted.simps) auto
    with False show ?thesis by auto
  qed
qed simp

lemma xff_append: "parse_x_forwarded_for (a @ CHR '','' # b) = parse_x_forwarded_for a @ parse_x_forwarded_for b"
  by (simp add: parse_x_forwarded_for_def split_on_append)

text \<open>
  C36. What a client writes in front of the part of an \<open>X-Forwarded-For\<close> header that the proxies added does
  not matter as soon as one address of that part is not a trusted proxy: the resolved client is the
  hop nearest to the gateway that is not a trusted proxy.
\<close>

theorem client_ip_prefix_ignored:
  assumes "\<exists>ip \<in> set (parse_x_forwarded_for added). \<not> is_trusted_proxy rules ip"
  shows "resolve_client_ip remote None (Some (forged @ CHR '','' # added)) real_ip (Some rules) =
    resolve_client_ip remote None (Some added) real_ip (Some rules)"
proof -
  let ?p = "parse_x_forwarded_for added"
  have "parse_x_forwarded_for [] = []" by code_simp
  then have ne: "?p \<noteq> []" "added \<noteq> []" using assms by auto
  have "strip_trusted rules (parse_x_forwarded_for forged @ ?p @ [peer]) =
      parse_x_forwarded_for forged @ strip_trusted rules (?p @ [peer])" for peer
    using assms by (intro strip_trusted_append) auto
  moreover have "strip_trusted rules (?p @ [peer]) \<noteq> []" for peer by (rule strip_trusted_not_Nil) simp
  ultimately show ?thesis using ne
    by (simp add: resolve_client_ip_def header_ips_def xff_append Let_def split: option.split)
qed

lemma client_ip_prefix_ignored_witness:
  "resolve_client_ip (Some ''10.0.0.1'') None (Some ''6.6.6.6,1.2.3.4, 10.0.0.2'') None (Some [(281470849515520, 104)]) =
   resolve_client_ip (Some ''10.0.0.1'') None (Some ''1.2.3.4, 10.0.0.2'') None (Some [(281470849515520, 104)])"
proof -
  have "\<exists>ip \<in> set (parse_x_forwarded_for ''1.2.3.4, 10.0.0.2''). \<not> is_trusted_proxy [(281470849515520, 104)] ip" by code_simp
  from client_ip_prefix_ignored [OF this, of "Some ''10.0.0.1''" "''6.6.6.6''" None] show ?thesis by simp
qed

text \<open>
  The \<open>Forwarded\<close> header, however, takes precedence and is believed whole: behind a trusted proxy that
  only maintains \<open>X-Forwarded-For\<close>, a client that sends \<open>Forwarded: for=a.b.c.d\<close> is that address, and
  with a fresh one it is let through by the rate limiter however many requests it has made.
\<close>

theorem forwarded_header_evades_limit:
  assumes "normalize_ip remote = Some peer" "peer \<noteq> []" "is_trusted_proxy rules peer"
    and "ipv4_octets ip = Some os" "\<not> is_trusted_proxy rules ip"
    and "om_get (rl_entries l) (case pre of None \<Rightarrow> ip | Some p \<Rightarrow> if trim p = [] then ip else trim p @ '':'' @ ip) = None" "0 < rl_max l"
  shows "resolve_client_ip remote (Some (''for='' @ ip)) xff real_ip (Some rules) = Some ip \<and>
    fst (rate_limit_middleware pre (resolve_client_ip remote (Some (''for='' @ ip)) xff real_ip (Some rules)) now l) = NextHandler"
proof -
  note q = ipv4_octets_some [OF assms(4)] and h = quad_host [OF assms(4)]
  have plain: "\<forall>c \<in> set ip. c \<noteq> CHR 0x22 \<and> c \<noteq> CHR '','' \<and> c \<noteq> CHR '';'' \<and> c \<noteq> CHR ''='' \<and> \<not> is_js_space c"
    using q(1) quad_char_plain by (auto simp: list_all_iff)
  have u: "split_unquoted c False s = [s]" if "\<forall>x \<in> set s. x \<noteq> CHR 0x22 \<and> x \<noteq> c" for c s
    using that by (induction s) auto
  have t: "trim (''for='' @ ip) = ''for='' @ ip" using plain by (intro trim_plain) (auto simp: is_js_space_def Let_def)
  have "\<forall>x \<in> set (''for='' @ ip). x \<noteq> CHR 0x22 \<and> x \<noteq> c" if "c = CHR '','' \<or> c = CHR '';''" for c
    using plain that by auto
  then have "split_header c (''for='' @ ip) = [''for='' @ ip]" if "c = CHR '','' \<or> c = CHR '';''" for c
    unfolding split_header_def using that u [of "''for='' @ ip" c] t by simp
  moreover have "forwarded_for (''for='' @ ip) = Some ip"
  proof -
    have "trim ''for'' = ''for''" "map lower_char ''for'' = ''for''" by code_simp+
    moreover have "index_of CHR ''='' (''for='' @ ip) = Some 3" by simp
    moreover have "take 3 (''for='' @ ip) = ''for''" "drop (Suc 3) (''for='' @ ip) = ip" by simp_all
    ultimately show ?thesis using h(1-3) unfolding forwarded_for_def by (simp only: option.case) simp
  qed
  ultimately have p: "parse_forwarded (''for='' @ ip) = [ip]" by (simp add: parse_forwarded_def)
  have r: "resolve_client_ip remote (Some (''for='' @ ip)) xff real_ip (Some rules) = Some ip"
    using assms(1-3,5) p by (simp add: resolve_client_ip_def header_ips_def Let_def last_strip_trusted)
  moreover have "fst (rate_limit_middleware pre (Some ip) now l) = NextHandler"
    using assms(6,7) q(2) by (cases pre) (auto simp: rate_limit_middleware_def Let_def check_def samples_of_def drop_old_def)
  ultimately show ?thesis by simp
qed

lemma forwarded_header_evades_limit_witness:
  "\<exists>l. new_limiter 1000 1 = Inr l \<and> fst (rate_limit_middleware None
    (resolve_client_ip (Some ''10.0.0.1'') (Some ''for=6.6.6.6'') (Some ''1.2.3.4'') None (Some [(281470849515520, 104)])) 5 l) = NextHandler"
proof -
  have t: "normalize_ip (Some ''10.0.0.1'') = Some ''10.0.0.1''" "is_trusted_proxy [(281470849515520, 104)] ''10.0.0.1''"
    "ipv4_octets ''6.6.6.6'' = Some [6, 6, 6, 6]" "\<not> is_trusted_proxy [(281470849515520, 104)] ''6.6.6.6''" by code_simp+
  obtain l where l: "new_limiter 1000 1 = Inr l" "rl_entries l = []" "rl_max l = 1" by (simp add: new_limiter_def)
  then have "fst (rate_limit_middleware None (resolve_client_ip (Some ''10.0.0.1'') (Some (''for='' @ ''6.6.6.6''))
      (Some ''1.2.3.4'') None (Some [(281470849515520, 104)])) 5 l) = NextHandler"
    by (intro conjunct2 [OF forwarded_header_evades_limit [OF t(1) _ t(2-4)]]) (simp_all add: om_get_def)
  with l(1) show ?thesis by (intro exI [of _ l]) simp
qed

subsection \<open>Subnets\<close>

definition quad_number :: "nat list \<Rightarrow> nat" where
  "quad_number os = foldl (\<lambda>v b. 256 * v + b) 0 os"

lemma quad_word:
  assumes "length os = 4" "\<forall>n \<in> set os. n \<le> 255"
  shows "foldl (\<lambda>v b. push_bit 8 v + of_nat b) (0xFFFF :: 128 word) os = of_nat (65535 * 2 ^ 32 + quad_number os)"
    and "quad_number os < 2 ^ 32"
proof -
  from assms(1) obtain a b c d where os: "os = [a, b, c, d]"
    by (auto simp: length_Suc_conv eval_nat_numeral)
  show "foldl (\<lambda>v b. push_bit 8 v + of_nat b) (0xFFFF :: 128 word) os = of_nat (65535 * 2 ^ 32 + quad_number os)"
    by (simp add: os quad_number_def push_bit_eq_mult algebra_simps)
  show "quad_number os < 2 ^ 32" using assms(2) by (simp add: os quad_number_def)
qed

lemma ipv4_value_nat:
  assumes "ipv4_octets s = Some os"
  obtains w where "ipv4_value s = Some w" "unat w = 65535 * 2 ^ 32 + quad_number os" "quad_number os < 2 ^ 32"
proof -
  note q = quad_word [OF ipv4_octets_some(3,4) [OF assms]]
  from q(2) have "65535 * 2 ^ 32 + quad_number os < 2 ^ 128" by simp
  then have "unat (of_nat (65535 * 2 ^ 32 + quad_number os) :: 128 word) = 65535 * 2 ^ 32 + quad_number os"
    by (subst unat_of_nat) simp
  with that q(1,2) assms show ?thesis by (auto simp: ipv4_value_def)
qed

lemma div_eq_interval: "0 < (m::nat) \<Longrightarrow> x div m = b div m \<longleftrightarrow> b div m * m \<le> x \<and> x < b div m * m + m"
  by (metis add.commute div_nat_eqI dividend_less_times_div div_times_less_eq_dividend mult.commute mult_Suc)

lemma prefix_match_quads:
  assumes "unat x = 65535 * 2 ^ 32 + m" "unat net = 65535 * 2 ^ 32 + b" "p \<le> 32"
  shows "prefix_match net (p + 96) x \<longleftrightarrow> m div 2 ^ (32 - p) = b div 2 ^ (32 - p)"
proof -
  have e: "128 - (p + 96) = 32 - p" by simp
  have "(65535 * 2 ^ 32 + k) div 2 ^ (32 - p) = 65535 * 2 ^ p + k div 2 ^ (32 - p)" for k :: nat
  proof -
    have "(65535 * 2 ^ 32 :: nat) = 65535 * 2 ^ p * 2 ^ (32 - p)" using assms(3) by (simp flip: power_add)
    then show ?thesis by (metis div_mult_self3 power_not_zero zero_neq_numeral)
  qed
  moreover have "prefix_match net (p + 96) x \<longleftrightarrow> unat x div 2 ^ (32 - p) = unat net div 2 ^ (32 - p)"
    unfolding prefix_match_def e by (simp add: word_unat_eq_iff unat_drop_bit_eq) (simp add: drop_bit_eq_div)
  ultimately show ?thesis using assms(1,2) by simp
qed

text \<open>
  A subnet entry \<open>base/p\<close> of the proxy allowlist with an IPv4 base trusts exactly the aligned block of
  \<open>2^(32-p)\<close> addresses the base lies in; the prefix length is between 1 and 32.
\<close>

theorem subnet_is_interval:
  assumes "add_entry (base @ CHR ''/'' # show_nat p) = Inr rule" "ipv4_octets base = Some bs" "ipv4_octets ip = Some xs"
  shows "1 \<le> p \<and> p \<le> 32 \<and>
    (is_trusted_proxy [rule] ip \<longleftrightarrow>
      quad_number bs div 2 ^ (32 - p) * 2 ^ (32 - p) \<le> quad_number xs \<and>
      quad_number xs < quad_number bs div 2 ^ (32 - p) * 2 ^ (32 - p) + 2 ^ (32 - p))"
proof -
  note h = quad_host [OF assms(2)] and hx = quad_host [OF assms(3)]
  note q = ipv4_octets_some [OF assms(2)] and qx = ipv4_octets_some [OF assms(3)]
  have "CHR ''/'' \<notin> set base" using q(1) by (auto simp: list_all_iff quad_char_def is_digit_def)
  then have i: "index_of CHR ''/'' (base @ CHR ''/'' # s) = Some (length base)" for s by (induction base) auto
  have d: "list_all is_digit (show_nat p)" using show_nat_digits by (auto simp: list_all_iff is_digit_def)
  then have t: "trim (show_nat p) = show_nat p"
    by (intro trim_plain) (auto simp: list_all_iff is_digit_def is_js_space_def Let_def)
  have f: "ip_family_of base = Some IPv4" "ip_family_of ip = Some IPv4" using h hx by (simp_all add: ip_family_of_def)
  obtain net where net: "ipv4_value base = Some net" "unat net = 65535 * 2 ^ 32 + quad_number bs" by (rule ipv4_value_nat [OF assms(2)])
  obtain x where x: "ipv4_value ip = Some x" "unat x = 65535 * 2 ^ 32 + quad_number xs" by (rule ipv4_value_nat [OF assms(3)])
  from assms(1) have r: "1 \<le> p" "p \<le> 32" "rule = (net, p + 96)"
    using h(4) q(2) f(1) net(1) t d
    by (auto simp: add_entry_def i digits_show show_nat_not_Nil Let_def ip_word_def split: if_splits)
  have "is_trusted_proxy [rule] ip \<longleftrightarrow> prefix_match net (p + 96) x"
    using hx(4) qx(2) f(2) x(1) r(3) by (simp add: is_trusted_proxy_def rules_check_def ip_word_def)
  with prefix_match_quads [OF x(2) net(2) r(2)] r show ?thesis by (simp add: div_eq_interval)
qed

lemma subnet_is_interval_witness:
  "is_trusted_proxy [(281470681743360 + 10 * 2 ^ 24, 104)] ''10.255.0.1'' \<and> ipv4_octets ''10.255.0.1'' = Some [10, 255, 0, 1]"
proof -
  have "show_nat 8 = ''8''" by code_simp
  moreover have "add_entry (''10.0.0.0'' @ CHR ''/'' # ''8'') = Inr (281470681743360 + 10 * 2 ^ 24, 104)" by code_simp
  moreover have o: "ipv4_octets ''10.0.0.0'' = Some [10, 0, 0, 0]" "ipv4_octets ''10.255.0.1'' = Some [10, 255, 0, 1]" by code_simp+
  ultimately have "is_trusted_proxy [(281470681743360 + 10 * 2 ^ 24, 104)] ''10.255.0.1''"
    using subnet_is_interval [of "''10.0.0.0''" 8 "(281470681743360 + 10 * 2 ^ 24, 104)" "[10, 0, 0, 0]" "''10.255.0.1''" "[10, 255, 0, 1]"]
    by (simp add: quad_number_def)
  with o(2) show ?thesis by simp
qed

end
