(* ===== verification/Auth_Tokens.thy ===== *)
theory Auth_Tokens
  imports Identity_Scope Json_Value
begin

text \<open>
  Access tokens, \<open>gateway/src/modules/auth\<close>: \<open>auth-token-dal.ts\<close>, \<open>auth-token-service.ts\<close>,
  \<open>scopes.ts\<close>, \<open>claims.ts\<close> and \<open>http.ts\<close>. Byte buffers are lists of characters below 256, times are
  milliseconds, fresh ids, secrets and salts are arguments; the key derivation is a parameter.
\<close>

subsection \<open>Base64url\<close>

definition b64_char :: "nat \<Rightarrow> char" where
  "b64_char n = (if n < 26 then char_of (65 + n) else if n < 52 then char_of (71 + n)
     else if n < 62 then char_of (n - 4) else if n = 62 then CHR ''-'' else CHR ''_'')"

definition b64_value :: "char \<Rightarrow> nat option" where
  "b64_value c = (let n = of_char c in
     if 65 \<le> n \<and> n \<le> 90 then Some (n - 65) else if 97 \<le> n \<and> n \<le> 122 then Some (n - 71)
     else if 48 \<le> n \<and> n \<le> 57 then Some (n + 4) else if n = 45 \<or> n = 43 then Some 62
     else if n = 95 \<or> n = 47 then Some 63 else None)"

fun encode_base64url :: "string \<Rightarrow> string" where
  "encode_base64url [] = []"
| "encode_base64url [a] = (let x = of_char a in [b64_char (x div 4), b64_char (x mod 4 * 16)])"
| "encode_base64url [a, b] = (let x = of_char a; y = of_char b in
     [b64_char (x div 4), b64_char (x mod 4 * 16 + y div 16), b64_char (y mod 16 * 4)])"
| "encode_base64url (a # b # c # s) = (let x = of_char a; y = of_char b; z = of_char c in
     [b64_char (x div 4), b64_char (x mod 4 * 16 + y div 16), b64_char (y mod 16 * 4 + z div 64), b64_char (z mod 64)] @
     encode_base64url s)"

fun sextets_bytes :: "nat list \<Rightarrow> string" where
  "sextets_bytes (p # q # r # s # xs) =
    [char_of (p * 4 + q div 16), char_of (q mod 16 * 16 + r div 4), char_of (r mod 4 * 64 + s)] @ sextets_bytes xs"
| "sextets_bytes [p, q, r] = [char_of (p * 4 + q div 16), char_of (q mod 16 * 16 + r div 4)]"
| "sextets_bytes [p, q] = [char_of (p * 4 + q div 16)]"
| "sextets_bytes _ = []"

text \<open>\<open>Buffer.from(raw, "base64url")\<close> skips characters outside the alphabet; an empty result is malformed.\<close>

definition decode_base64url :: "string \<Rightarrow> string option" where
  "decode_base64url raw = (let buf = sextets_bytes (List.map_filter b64_value raw) in if buf = [] then None else Some buf)"

subsection \<open>Scopes and claims\<close>

datatype token_role = RoleAdmin | RoleClient | RoleNode

datatype token_kind = AdminToken | DeviceToken

record auth_claims =
  km_kind :: token_kind
  km_id :: string
  km_tenant :: "string option"
  km_device :: "string option"
  km_role :: token_role
  km_scopes :: "string list"
  km_issued :: nat
  km_expires :: "nat option option"

definition normalize_scopes :: "string list option \<Rightarrow> string list" where
  "normalize_scopes scopes = (case scopes of None \<Rightarrow> [] | Some ss \<Rightarrow> dedup (filter (\<lambda>s. s \<noteq> []) (map trim ss)))"

definition is_break_glass_admin :: "auth_claims \<Rightarrow> bool" where
  "is_break_glass_admin c \<longleftrightarrow> km_kind c = AdminToken"

definition has_any_required_scope :: "auth_claims \<Rightarrow> string list \<Rightarrow> bool" where
  "has_any_required_scope c required \<longleftrightarrow>
    required = [] \<or> is_break_glass_admin c \<or>
    (let scopes = normalize_scopes (Some (km_scopes c)) in ''*'' \<in> set scopes \<or> list_ex (\<lambda>s. s \<in> set scopes) required)"

datatype claims_error = ClaimsUnavailable | TenantTokenRequired | AdminAccessRequired

definition require_auth_claims :: "auth_claims option \<Rightarrow> claims_error + auth_claims" where
  "require_auth_claims raw = (case raw of None \<Rightarrow> Inl ClaimsUnavailable | Some c \<Rightarrow> Inr c)"

definition require_claims_tenant :: "auth_claims option \<Rightarrow> claims_error + string" where
  "require_claims_tenant raw =
    (case require_auth_claims raw of
       Inl e \<Rightarrow> Inl e
     | Inr c \<Rightarrow> (case require_tenant_id (km_tenant c) of None \<Rightarrow> Inl TenantTokenRequired | Some t \<Rightarrow> Inr t))"

definition require_operator_admin_access :: "auth_claims option \<Rightarrow> claims_error + auth_claims" where
  "require_operator_admin_access raw =
    (case require_auth_claims raw of
       Inl e \<Rightarrow> Inl e
     | Inr c \<Rightarrow> if km_role c = RoleAdmin \<or> has_any_required_scope c [''operator.admin''] then Inr c
                else Inl AdminAccessRequired)"

definition extract_bearer_token :: "string option \<Rightarrow> string option" where
  "extract_bearer_token header =
    (case header of None \<Rightarrow> None
     | Some h \<Rightarrow> (case split_on CHR '' '' h of
                    [scheme, value] \<Rightarrow> if scheme = ''Bearer'' \<and> value \<noteq> [] then Some value else None
                  | _ \<Rightarrow> None))"

subsection \<open>The token table\<close>

text \<open>
  An expiry is absent, a text that is no date (\<open>Some None\<close>), or a time. The scopes column is the value
  of its JSON text, \<open>None\<close> when the text does not parse.
\<close>

record auth_row =
  tk_id :: string
  tk_tenant :: "string option"
  tk_name :: string
  tk_role :: token_role
  tk_device :: "string option"
  tk_scopes :: "json option"
  tk_salt :: string
  tk_hash :: string
  tk_kdf :: string
  tk_issued :: nat
  tk_expires :: "nat option option"
  tk_revoked :: "nat option"
  tk_created_by :: string
  tk_created :: nat
  tk_updated :: nat

record token_listing =
  tl_id :: string
  tl_tenant :: "string option"
  tl_name :: string
  tl_role :: token_role
  tl_device :: "string option"
  tl_scopes :: "json option"
  tl_issued :: nat
  tl_expires :: "nat option option"
  tl_revoked :: "nat option"
  tl_created_by :: string
  tl_created :: nat
  tl_updated :: nat

definition to_list_row :: "auth_row \<Rightarrow> token_listing" where
  "to_list_row r = \<lparr>tl_id = tk_id r, tl_tenant = tk_tenant r, tl_name = tk_name r, tl_role = tk_role r,
     tl_device = tk_device r, tl_scopes = tk_scopes r, tl_issued = tk_issued r, tl_expires = tk_expires r,
     tl_revoked = tk_revoked r, tl_created_by = tk_created_by r, tl_created = tk_created r, tl_updated = tk_updated r\<rparr>"

definition list_for_tenant :: "string \<Rightarrow> auth_row list \<Rightarrow> token_listing list" where
  "list_for_tenant tenant db =
    map to_list_row (sort_key (\<lambda>r. if tk_revoked r = None then 0 else 1 :: nat)
      (sort_key (\<lambda>r. - int (tk_updated r)) (sort_key (\<lambda>r. - int (tk_issued r))
        (sort_key (\<lambda>r. - int (tk_created r)) (filter (\<lambda>r. tk_tenant r = Some tenant) db)))))"

definition token_by_id :: "string \<Rightarrow> auth_row list \<Rightarrow> auth_row option" where
  "token_by_id i db = find (\<lambda>r. tk_id r = i) db"

text \<open>The token id is the primary key; a second row with it is an error.\<close>

definition insert_token :: "auth_row \<Rightarrow> auth_row list \<Rightarrow> (auth_row \<times> auth_row list) option" where
  "insert_token r db = (if matches (\<lambda>x. tk_id x = tk_id r) db then None else Some (r, db @ [r]))"

record token_update =
  tu_id :: string
  tu_name :: string
  tu_role :: token_role
  tu_device :: "string option"
  tu_scopes :: "json option"
  tu_expires :: "nat option option"
  tu_updated :: nat

definition open_token :: "string \<Rightarrow> auth_row \<Rightarrow> bool" where
  "open_token i r \<longleftrightarrow> tk_id r = i \<and> tk_revoked r = None"

definition update_token_by_id :: "token_update \<Rightarrow> auth_row list \<Rightarrow> auth_row option \<times> auth_row list" where
  "update_token_by_id u db =
    (let db' = update_where (open_token (tu_id u)) (\<lambda>r. r\<lparr>tk_name := tu_name u, tk_role := tu_role u, tk_device := tu_device u,
           tk_scopes := tu_scopes u, tk_expires := tu_expires u, tk_updated := tu_updated u\<rparr>) db
     in if matches (open_token (tu_id u)) db then (token_by_id (tu_id u) db', db') else (None, db))"

definition revoke_row :: "string \<Rightarrow> nat \<Rightarrow> auth_row list \<Rightarrow> bool \<times> auth_row list" where
  "revoke_row i now db =
    (matches (open_token i) db \<and> i \<noteq> [], update_where (open_token i) (\<lambda>r. r\<lparr>tk_revoked := Some now, tk_updated := now\<rparr>) db)"

definition count_rows :: "(auth_row \<Rightarrow> bool) \<Rightarrow> auth_row list \<Rightarrow> nat" where
  "count_rows P db = length (filter (\<lambda>r. P r \<and> tk_revoked r = None) db)"

subsection \<open>The token service\<close>

record auth_env =
  ae_scrypt :: "string \<Rightarrow> string \<Rightarrow> string"

record provisioned_token =
  pt_token :: string
  pt_tenant :: "string option"
  pt_role :: token_role
  pt_scopes :: "string list option"
  pt_device :: "string option"
  pt_id :: "string option"

definition max_display_name :: nat where
  "max_display_name = 120"

definition trimmed_or_none :: "string option \<Rightarrow> string option" where
  "trimmed_or_none s = (case s of None \<Rightarrow> None | Some x \<Rightarrow> if trim x = [] then None else Some (trim x))"

definition normalize_display_name :: "string option \<Rightarrow> token_role \<Rightarrow> string option \<Rightarrow> string" where
  "normalize_display_name name role device =
    (case trimmed_or_none name of
       Some n \<Rightarrow> take max_display_name n
     | None \<Rightarrow> (case trimmed_or_none device of
         Some d \<Rightarrow> take max_display_name d
       | None \<Rightarrow> if role = RoleAdmin then ''Admin token'' else if role = RoleNode then ''Node token'' else ''Client token''))"

definition normalize_role_scopes :: "token_role \<Rightarrow> string list option \<Rightarrow> string list" where
  "normalize_role_scopes role scopes = (if role = RoleAdmin then [] else normalize_scopes scopes)"

definition parse_scopes :: "json option \<Rightarrow> string list" where
  "parse_scopes raw =
    (case raw of
       Some (JArr xs) \<Rightarrow> normalize_scopes (Some (List.map_filter (\<lambda>v. case v of JStr s \<Rightarrow> Some s | _ \<Rightarrow> None) xs))
     | _ \<Rightarrow> [])"

definition format_token :: "string \<Rightarrow> string \<Rightarrow> string" where
  "format_token i secret = ''tyrum-token.v1.'' @ i @ ''.'' @ secret"

definition parse_token :: "string \<Rightarrow> (string \<times> string) option" where
  "parse_token raw =
    (case split_on CHR ''.'' (trim raw) of
       [p, v, i, s] \<Rightarrow> if p = ''tyrum-token'' \<and> v = ''v1'' \<and> i \<noteq> [] \<and> s \<noteq> [] then Some (i, s) else None
     | _ \<Rightarrow> None)"

definition is_expired :: "nat option option \<Rightarrow> nat \<Rightarrow> bool" where
  "is_expired e now = (case e of Some (Some t) \<Rightarrow> t \<le> now | _ \<Rightarrow> False)"

definition kind_of_role :: "token_role \<Rightarrow> token_kind" where
  "kind_of_role r = (if r = RoleAdmin then AdminToken else DeviceToken)"

definition normalize_provisioned :: "provisioned_token list \<Rightarrow> (string \<times> auth_claims) list" where
  "normalize_provisioned entries =
    List.map_filter (\<lambda>(i, e). if trim (pt_token e) = [] then None
      else Some (trim (pt_token e),
        \<lparr>km_kind = kind_of_role (pt_role e), km_id = or_default (pt_id e) (''provisioned-'' @ show_nat (Suc i)),
         km_tenant = pt_tenant e, km_device = trimmed_or_none (pt_device e), km_role = pt_role e,
         km_scopes = normalize_role_scopes (pt_role e) (pt_scopes e), km_issued = 0, km_expires = None\<rparr>))
      (zip [0..<length entries] entries)"

definition expected :: "token_role option \<Rightarrow> string option \<Rightarrow> token_role \<Rightarrow> string option \<Rightarrow> bool" where
  "expected role device r d \<longleftrightarrow>
    (role = None \<or> role = Some r) \<and> (trimmed_or_none device = None \<or> trimmed_or_none device = d)"

definition authenticate_provisioned ::
  "(string \<times> auth_claims) list \<Rightarrow> string \<Rightarrow> token_role option \<Rightarrow> string option \<Rightarrow> auth_claims option" where
  "authenticate_provisioned ps candidate role device =
    map_option snd (find (\<lambda>(t, c). t = candidate \<and> expected role device (km_role c) (km_device c)) ps)"

definition row_claims :: "auth_row \<Rightarrow> auth_claims" where
  "row_claims r = \<lparr>km_kind = kind_of_role (tk_role r), km_id = tk_id r, km_tenant = tk_tenant r, km_device = tk_device r,
     km_role = tk_role r, km_scopes = parse_scopes (tk_scopes r), km_issued = tk_issued r, km_expires = tk_expires r\<rparr>"

definition secret_matches :: "auth_env \<Rightarrow> string \<Rightarrow> auth_row \<Rightarrow> bool" where
  "secret_matches env secret64 r \<longleftrightarrow>
    (case (decode_base64url secret64, decode_base64url (tk_salt r), decode_base64url (tk_hash r)) of
       (Some secret, Some salt, Some hash) \<Rightarrow> ae_scrypt env secret salt = hash
     | _ \<Rightarrow> False)"

definition authenticate ::
  "auth_env \<Rightarrow> (string \<times> auth_claims) list \<Rightarrow> nat \<Rightarrow> string option \<Rightarrow> token_role option \<Rightarrow> string option \<Rightarrow> auth_row list
    \<Rightarrow> auth_claims option" where
  "authenticate env ps now candidate role device db =
    (let raw = (case candidate of None \<Rightarrow> [] | Some c \<Rightarrow> trim c) in
     if raw = [] then None
     else case parse_token raw of
       None \<Rightarrow> authenticate_provisioned ps raw role device
     | Some (i, secret64) \<Rightarrow>
         (case token_by_id i db of
            None \<Rightarrow> authenticate_provisioned ps raw role device
          | Some r \<Rightarrow>
              if tk_revoked r \<noteq> None then None
              else if is_expired (tk_expires r) now then None
              else if tk_kdf r \<noteq> ''scrypt'' then None
              else if \<not> secret_matches env secret64 r then None
              else if \<not> expected role device (tk_role r) (tk_device r) then None
              else Some (row_claims r)))"

record issue_input =
  ii_tenant :: "string option"
  ii_name :: "string option"
  ii_role :: token_role
  ii_scopes :: "string list option"
  ii_device :: "string option"
  ii_ttl :: "int option"
  ii_created_by :: "string option"

definition expiry_of :: "int option \<Rightarrow> nat \<Rightarrow> nat option option" where
  "expiry_of ttl now = (case ttl of Some s \<Rightarrow> if 0 < s then Some (Some (now + nat s * 1000)) else None | None \<Rightarrow> None)"

definition issue_token ::
  "auth_env \<Rightarrow> string \<Rightarrow> string \<Rightarrow> string \<Rightarrow> nat \<Rightarrow> issue_input \<Rightarrow> auth_row list \<Rightarrow> ((string \<times> auth_row) \<times> auth_row list) option" where
  "issue_token env fresh secret salt now inp db =
    (let row = \<lparr>tk_id = fresh, tk_tenant = ii_tenant inp,
           tk_name = normalize_display_name (ii_name inp) (ii_role inp) (ii_device inp), tk_role = ii_role inp,
           tk_device = trimmed_or_none (ii_device inp),
           tk_scopes = Some (JArr (map JStr (normalize_role_scopes (ii_role inp) (ii_scopes inp)))),
           tk_salt = encode_base64url salt, tk_hash = encode_base64url (ae_scrypt env secret salt), tk_kdf = ''scrypt'',
           tk_issued = now, tk_expires = expiry_of (ii_ttl inp) now, tk_revoked = None,
           tk_created_by = (case ii_created_by inp of None \<Rightarrow> ''{}'' | Some c \<Rightarrow> c), tk_created = now, tk_updated = now\<rparr>
     in case insert_token row db of
          None \<Rightarrow> None
        | Some (r, db') \<Rightarrow> Some ((format_token fresh (encode_base64url secret), r), db'))"

text \<open>An absent member of the input is \<open>None\<close>, a null one \<open>Some None\<close>.\<close>

record update_input =
  ui_id :: string
  ui_name :: "string option"
  ui_role :: "token_role option"
  ui_device :: "string option option"
  ui_scopes :: "string list option"
  ui_expires :: "nat option option option"

definition get_token_by_id :: "string \<Rightarrow> auth_row list \<Rightarrow> auth_row option" where
  "get_token_by_id i db = (if trim i = [] then None else token_by_id (trim i) db)"

definition update_token :: "nat \<Rightarrow> update_input \<Rightarrow> auth_row list \<Rightarrow> auth_row option \<times> auth_row list" where
  "update_token now u db =
    (case get_token_by_id (ui_id u) db of
       None \<Rightarrow> (None, db)
     | Some current \<Rightarrow>
         if tk_revoked current \<noteq> None then (None, db)
         else (let role = (case ui_role u of None \<Rightarrow> tk_role current | Some r \<Rightarrow> r);
                   device = (case ui_device u of None \<Rightarrow> tk_device current | Some d \<Rightarrow> map_option trim d);
                   name = (case ui_name u of None \<Rightarrow> tk_name current | Some n \<Rightarrow> n)
               in update_token_by_id \<lparr>tu_id = tk_id current, tu_name = normalize_display_name (Some name) role device,
                    tu_role = role, tu_device = device,
                    tu_scopes = Some (JArr (map JStr (normalize_role_scopes role
                      (Some (case ui_scopes u of None \<Rightarrow> parse_scopes (tk_scopes current) | Some s \<Rightarrow> s))))),
                    tu_expires = (case ui_expires u of None \<Rightarrow> tk_expires current | Some e \<Rightarrow> e),
                    tu_updated = now\<rparr> db))"

definition revoke_token :: "nat \<Rightarrow> string \<Rightarrow> auth_row list \<Rightarrow> bool \<times> auth_row list" where
  "revoke_token now i db = (if trim i = [] then (False, db) else revoke_row (trim i) now db)"

definition list_tenant_tokens :: "string \<Rightarrow> auth_row list \<Rightarrow> token_listing list" where
  "list_tenant_tokens tenant db = (if trim tenant = [] then [] else list_for_tenant (trim tenant) db)"

definition count_provisioned :: "(auth_claims \<Rightarrow> bool) \<Rightarrow> (string \<times> auth_claims) list \<Rightarrow> nat" where
  "count_provisioned P ps = length (filter (\<lambda>(t, c). P c) ps)"

definition count_active_tenant_tokens :: "string \<Rightarrow> (string \<times> auth_claims) list \<Rightarrow> auth_row list \<Rightarrow> nat" where
  "count_active_tenant_tokens tenant ps db =
    count_rows (\<lambda>r. tk_tenant r = Some tenant) db + count_provisioned (\<lambda>c. km_tenant c = Some tenant) ps"

definition count_active_tenant_admin_tokens :: "string \<Rightarrow> (string \<times> auth_claims) list \<Rightarrow> auth_row list \<Rightarrow> nat" where
  "count_active_tenant_admin_tokens tenant ps db =
    count_rows (\<lambda>r. tk_tenant r = Some tenant \<and> tk_role r = RoleAdmin) db +
    count_provisioned (\<lambda>c. km_tenant c = Some tenant \<and> km_role c = RoleAdmin) ps"

definition count_active_system_tokens :: "(string \<times> auth_claims) list \<Rightarrow> auth_row list \<Rightarrow> nat" where
  "count_active_system_tokens ps db =
    count_rows (\<lambda>r. tk_tenant r = None) db + count_provisioned (\<lambda>c. km_tenant c = None \<and> km_role c = RoleAdmin) ps"

end
