(* ===== verification/Auth_Gate.thy ===== *)
theory Auth_Gate
  imports Auth_Tokens
begin

text \<open>
  The gate of the HTTP routes: \<open>gateway/src/modules/auth/middleware.ts\<close>,
  \<open>gateway/src/modules/authz\<close>, \<open>gateway/src/api/manifest.ts\<close>, \<open>app-path.ts\<close> and \<open>hono-route.ts\<close>. The
  manifest (a generated file) is an argument; of a request the model has what the two middlewares read.
  Audit events and log lines are not modelled.
\<close>

subsection \<open>The manifest\<close>

record http_operation =
  ho_method :: string
  ho_path :: string
  ho_auth :: string
  ho_scopes :: "string list option"

record ws_request =
  wq_type :: string
  wq_direction :: string
  wq_scopes :: "string list option"

definition split_path :: "string \<Rightarrow> string list" where
  "split_path path =
    (let slash = (\<lambda>c. c = CHR ''/''); t = rev (dropWhile slash (rev (dropWhile slash path))) in
     if t = [] then [] else split_on CHR ''/'' t)"

definition is_placeholder :: "string \<Rightarrow> bool" where
  "is_placeholder s \<longleftrightarrow> s = ''*'' \<or> starts_with s '':'' \<or>
    3 \<le> length s \<and> hd s = CHR ''{'' \<and> last s = CHR ''}'' \<and> CHR ''}'' \<notin> set (butlast (tl s))"

fun segments_match :: "string list \<Rightarrow> string list \<Rightarrow> bool" where
  "segments_match [] [] = True"
| "segments_match [] [m] \<longleftrightarrow> m = ''*''"
| "segments_match [] ms = False"
| "segments_match (i # is) [] = False"
| "segments_match (i # is) (m # ms) =
    (if i = [] \<or> m = [] then False
     else if m = ''*'' then ms = []
     else if i = m \<or> is_placeholder i \<or> is_placeholder m then segments_match is ms
     else False)"

definition manifest_path_matches :: "string \<Rightarrow> string \<Rightarrow> bool" where
  "manifest_path_matches path pattern = segments_match (split_path path) (split_path pattern)"

definition resolve_http_operation :: "http_operation list \<Rightarrow> string \<Rightarrow> string \<Rightarrow> http_operation option" where
  "resolve_http_operation manifest raw_method path =
    (let m = map upper_char raw_method;
         lookup = (\<lambda>k. find (\<lambda>o'. ho_method o' = k \<and> manifest_path_matches path (ho_path o')) manifest)
     in case lookup m of
          Some x \<Rightarrow> Some x
        | None \<Rightarrow> if m = ''HEAD'' \<or> m = ''OPTIONS'' then lookup ''GET'' else None)"

definition resolve_http_required_scopes :: "http_operation list \<Rightarrow> string \<Rightarrow> string \<Rightarrow> string list option" where
  "resolve_http_required_scopes manifest raw_method path =
    (case resolve_http_operation manifest raw_method path of
       None \<Rightarrow> None | Some x \<Rightarrow> if ho_auth x = ''public'' then None else ho_scopes x)"

text \<open>The map of the requests by type keeps the last one of a type.\<close>

definition resolve_ws_required_scopes :: "ws_request list \<Rightarrow> string \<Rightarrow> string list option" where
  "resolve_ws_required_scopes requests type =
    (case find (\<lambda>r. wq_type r = type) (rev requests) of
       None \<Rightarrow> None | Some r \<Rightarrow> if wq_direction r \<noteq> ''client_to_server'' then None else wq_scopes r)"

subsection \<open>Requests\<close>

text \<open>\<open>hr_routes\<close> are the paths of the matched routes, absent when the router does not expose them.\<close>

record http_request =
  hr_method :: string
  hr_path :: string
  hr_routes :: "string list option"
  hr_authorization :: "string option"
  hr_cookie :: "string option"

definition matches_path_prefix :: "string \<Rightarrow> string \<Rightarrow> bool" where
  "matches_path_prefix path pre \<longleftrightarrow> path = pre \<or> starts_with path (pre @ ''/'')"

definition oauth_callback_path :: "string \<Rightarrow> bool" where
  "oauth_callback_path path =
    (case rev (split_on CHR ''/'' path) of
       e # d # c # b # _ \<Rightarrow> e = ''callback'' \<and> d = ''oauth'' \<and> c \<noteq> [] \<and> b = ''providers''
     | _ \<Rightarrow> False)"

definition is_public_oauth_callback :: "http_request \<Rightarrow> bool" where
  "is_public_oauth_callback q \<longleftrightarrow> hr_method q = ''GET'' \<and>
    ((case hr_routes q of None \<Rightarrow> False
      | Some rs \<Rightarrow> list_ex (\<lambda>r. ends_with r ''/providers/:provider/oauth/callback'') rs) \<or>
     oauth_callback_path (hr_path q))"

definition is_public_path :: "http_request \<Rightarrow> bool" where
  "is_public_path q \<longleftrightarrow>
    hr_path q = ''/healthz'' \<or> matches_path_prefix (hr_path q) ''/benchmarks'' \<or> matches_path_prefix (hr_path q) ''/ui'' \<or>
    matches_path_prefix (hr_path q) ''/desktop-takeover/s'' \<or> hr_path q = ''/auth/cookie'' \<or> hr_path q = ''/auth/logout'' \<or>
    hr_method q = ''POST'' \<and> hr_path q = ''/ingress/telegram'' \<or>
    hr_method q = ''POST'' \<and> hr_path q = ''/ingress/googlechat'' \<or> is_public_oauth_callback q"

text \<open>The path of the last matched route that is not \<open>*\<close>, or the path of the request.\<close>

definition hono_route_path :: "http_request \<Rightarrow> string" where
  "hono_route_path q =
    (case hr_routes q of None \<Rightarrow> hr_path q
     | Some rs \<Rightarrow> (case rev (filter (\<lambda>r. r \<noteq> ''*'') rs) of [] \<Rightarrow> hr_path q | r # _ \<Rightarrow> r))"

subsection \<open>The middlewares\<close>

datatype gate_answer =
    Unavailable
  | Unauthorized
  | SystemTokenRequired
  | SystemTokenOnTenantRoute
  | RouteNotScoped
  | InsufficientScope
  | Admitted "auth_claims option"

definition auth_middleware ::
  "auth_env \<Rightarrow> ((string \<times> auth_claims) list \<times> auth_row list) option \<Rightarrow> nat \<Rightarrow> http_request \<Rightarrow> gate_answer" where
  "auth_middleware env tokens now q =
    (case tokens of
       None \<Rightarrow> Unavailable
     | Some (ps, db) \<Rightarrow>
         if is_public_path q then Admitted None
         else (let bearer = extract_bearer_token (hr_authorization q);
                   tok = (case bearer of Some b \<Rightarrow> Some b | None \<Rightarrow> hr_cookie q)
               in if tok = None \<or> tok = Some [] then Unauthorized
                  else (case authenticate env ps now tok None None db of
                     None \<Rightarrow> Unauthorized
                   | Some c \<Rightarrow>
                       (let system_route = matches_path_prefix (hr_path q) ''/system''; system_token = (km_tenant c = None) in
                        if system_route \<and> \<not> system_token then SystemTokenRequired
                        else if \<not> system_route \<and> system_token then SystemTokenOnTenantRoute
                        else Admitted (Some c)))))"

definition scope_middleware :: "(string \<Rightarrow> string \<Rightarrow> string list option) \<Rightarrow> http_request \<Rightarrow> auth_claims option \<Rightarrow> gate_answer" where
  "scope_middleware resolve q claims =
    (case claims of
       None \<Rightarrow> Admitted None
     | Some c \<Rightarrow>
         if km_kind c = AdminToken then Admitted claims
         else (let route = hono_route_path q;
                   first = resolve (hr_method q) route;
                   required = (if first = None \<and> route \<noteq> hr_path q then resolve (hr_method q) (hr_path q) else first)
               in case required of
                    None \<Rightarrow> RouteNotScoped
                  | Some scopes \<Rightarrow> if has_any_required_scope c scopes then Admitted claims else InsufficientScope))"

text \<open>A request passes the authentication first, then the scope check.\<close>

definition http_gate ::
  "auth_env \<Rightarrow> http_operation list \<Rightarrow> ((string \<times> auth_claims) list \<times> auth_row list) option \<Rightarrow> nat \<Rightarrow> http_request
    \<Rightarrow> gate_answer" where
  "http_gate env manifest tokens now q =
    (case auth_middleware env tokens now q of
       Admitted claims \<Rightarrow> scope_middleware (resolve_http_required_scopes manifest) q claims
     | x \<Rightarrow> x)"

end
