(* ===== verification/Auth_Facts.thy ===== *)
theory Auth_Facts
  imports Auth_Gate
begin

text \<open>
  What an accepted token proves, what issuing and revoking guarantee, and what a request that passes the
  gate has shown.
\<close>

subsection \<open>Base64url\<close>

lemma char_of_lt [simp]: "n < 256 \<Longrightarrow> (of_char (char_of n) :: nat) = n"
  by (simp add: of_char_of)

lemma b64_value_char: "n < 64 \<Longrightarrow> b64_value (b64_char n) = Some n"
  by (cases "n < 26"; cases "n < 52"; cases "n < 62"; cases "n = 62") (auto simp: b64_char_def b64_value_def Let_def)

lemma b64_char_plain: "n < 64 \<Longrightarrow> b64_char n \<noteq> CHR ''.'' \<and> \<not> is_js_space (b64_char n)"
proof -
  assume n: "n < 64"
  have "b64_value CHR ''.'' = None" "is_js_space c \<Longrightarrow> b64_value c = None" for c
    by (auto simp: b64_value_def is_js_space_def Let_def)
  with b64_value_char [OF n] show ?thesis by auto
qed

lemma pack: "b < k \<Longrightarrow> (a * k + b) div k = a" "b < k \<Longrightarrow> (a * k + b) mod k = (b :: nat)"
  by simp_all

text \<open>The sextets of one, two and three bytes.\<close>

lemma sextets:
  fixes x y z :: nat
  assumes "x < 256" "y < 256" "z < 256"
  shows "x div 4 < 64" "x mod 4 * 16 < 64" "x mod 4 * 16 + y div 16 < 64" "y mod 16 * 4 < 64" "y mod 16 * 4 + z div 64 < 64" "z mod 64 < 64"
    and "(x mod 4 * 16 + y div 16) div 16 = x mod 4" "(x mod 4 * 16 + y div 16) mod 16 = y div 16"
    and "(y mod 16 * 4 + z div 64) div 4 = y mod 16" "(y mod 16 * 4 + z div 64) mod 4 = z div 64"
    and "y div 16 mod 16 = y div 16" "z div 64 mod 4 = z div 64"
proof -
  have b: "y div 16 < 16" "z div 64 < 4" using assms by (simp_all add: div_less_iff_less_mult)
  have m: "x mod 4 < 4" "y mod 16 < 16" by simp_all
  show "x div 4 < 64" using assms by (simp add: div_less_iff_less_mult)
  show "x mod 4 * 16 < 64" "x mod 4 * 16 + y div 16 < 64" "y mod 16 * 4 < 64" "y mod 16 * 4 + z div 64 < 64" "z mod 64 < 64"
    using b m by linarith+
  show "(x mod 4 * 16 + y div 16) div 16 = x mod 4" "(x mod 4 * 16 + y div 16) mod 16 = y div 16"
    "(y mod 16 * 4 + z div 64) div 4 = y mod 16" "(y mod 16 * 4 + z div 64) mod 4 = z div 64"
    using pack b by blast+
  show "y div 16 mod 16 = y div 16" "z div 64 mod 4 = z div 64" using b by simp_all
qed

lemmas byte_sextets = sextets [OF nat_of_char_less_256 nat_of_char_less_256 nat_of_char_less_256]

lemma sextets_encode: "sextets_bytes (List.map_filter b64_value (encode_base64url s)) = s"
  by (induction s rule: encode_base64url.induct)
    (simp_all add: Let_def b64_value_char byte_sextets map_filter_simps)

lemma decode_encode: "decode_base64url (encode_base64url s) = (if s = [] then None else Some s)"
  by (simp add: decode_base64url_def sextets_encode Let_def)

lemma encode_chars: "set (encode_base64url s) \<subseteq> b64_char ` {..<64}"
  by (induction s rule: encode_base64url.induct) (auto simp: Let_def byte_sextets)

lemma encode_plain:
  assumes "c \<in> set (encode_base64url s)"
  shows "c \<noteq> CHR ''.'' \<and> \<not> is_js_space c"
proof -
  from assms encode_chars [of s] obtain n where n: "n < 64" "c = b64_char n" by auto
  show ?thesis unfolding n(2) by (rule b64_char_plain [OF n(1)])
qed

lemma encode_not_Nil: "s \<noteq> [] \<Longrightarrow> encode_base64url s \<noteq> []"
  by (cases s rule: encode_base64url.cases) (simp_all add: Let_def)

subsection \<open>Issuing\<close>

lemma dedup_distinct: "distinct xs \<Longrightarrow> dedup xs = xs"
proof -
  have "distinct (acc @ xs) \<Longrightarrow> foldl add_unique acc xs = acc @ xs" for acc
    by (induction xs arbitrary: acc) (auto simp: add_unique_def)
  from this [of "[]"] show "distinct xs \<Longrightarrow> dedup xs = xs" by (simp add: dedup_def)
qed

lemma normalize_scopes_idem: "normalize_scopes (Some (normalize_scopes ss)) = normalize_scopes ss"
proof (cases ss)
  case (Some xs)
  let ?n = "normalize_scopes (Some xs)"
  have "\<forall>s \<in> set ?n. trim s = s \<and> s \<noteq> []" "distinct ?n" by (auto simp: normalize_scopes_def)
  moreover from this have "map trim ?n = ?n" "filter (\<lambda>s. s \<noteq> []) ?n = ?n" by (simp_all add: map_idI)
  ultimately show ?thesis unfolding Some by (simp add: normalize_scopes_def [of "Some ?n"] dedup_distinct)
qed (simp add: normalize_scopes_def dedup_def)

lemma parse_written_scopes: "parse_scopes (Some (JArr (map JStr (normalize_role_scopes r ss)))) = normalize_role_scopes r ss"
proof -
  have "List.map_filter (\<lambda>v. case v of JStr s \<Rightarrow> Some s | _ \<Rightarrow> None) (map JStr xs) = xs" for xs
    by (induction xs) (simp_all add: map_filter_simps)
  then show ?thesis using normalize_scopes_idem
    by (simp add: parse_scopes_def normalize_role_scopes_def normalize_scopes_def dedup_def)
qed

lemma parse_format:
  assumes "CHR ''.'' \<notin> set i" "i \<noteq> []" "CHR ''.'' \<notin> set s" "s \<noteq> []" "\<forall>c \<in> set i \<union> set s. \<not> is_js_space c"
  shows "parse_token (format_token i s) = Some (i, s)" "trim (format_token i s) = format_token i s"
proof -
  have "\<forall>c \<in> set ''tyrum-token.v1.''. \<not> is_js_space c" by code_simp
  with assms(5) show t: "trim (format_token i s) = format_token i s"
    by (intro trim_plain) (auto simp: format_token_def is_js_space_def Let_def)
  have "split_on CHR ''.'' (''tyrum-token'' @ CHR ''.'' # ''v1'' @ CHR ''.'' # i @ CHR ''.'' # s) =
      [''tyrum-token'', ''v1'', i, s]"
    using assms(1,3) by (simp add: split_on_append split_on_plain del: append.simps)
  then show "parse_token (format_token i s) = Some (i, s)"
    using assms(2,4) t by (simp add: parse_token_def format_token_def)
qed

text \<open>
  C35. The token that issuing returns is accepted until it expires, and speaks for the tenant, role, device
  and scopes it was issued for.
\<close>

theorem issued_token_authenticates:
  assumes "issue_token env fresh secret salt now inp db = Some ((tok, row), db')"
    and "fresh \<noteq> []" "\<forall>c \<in> set fresh. c \<noteq> CHR ''.'' \<and> \<not> is_js_space c"
    and "secret \<noteq> []" "salt \<noteq> []" "ae_scrypt env secret salt \<noteq> []"
    and "\<not> is_expired (expiry_of (ii_ttl inp) now) later"
  shows "\<exists>c. authenticate env ps later (Some tok) None None db' = Some c \<and> km_id c = fresh \<and> km_tenant c = ii_tenant inp \<and>
    km_role c = ii_role inp \<and> km_device c = trimmed_or_none (ii_device inp) \<and>
    km_scopes c = normalize_role_scopes (ii_role inp) (ii_scopes inp)"
proof -
  from assms(1) have tok: "tok = format_token fresh (encode_base64url secret)"
    and db': "db' = db @ [row]" and new: "\<forall>x \<in> set db. tk_id x \<noteq> fresh"
    and row: "tk_id row = fresh" "tk_revoked row = None" "tk_kdf row = ''scrypt''" "tk_tenant row = ii_tenant inp"
      "tk_role row = ii_role inp" "tk_device row = trimmed_or_none (ii_device inp)" "tk_expires row = expiry_of (ii_ttl inp) now"
      "tk_salt row = encode_base64url salt" "tk_hash row = encode_base64url (ae_scrypt env secret salt)"
      "tk_scopes row = Some (JArr (map JStr (normalize_role_scopes (ii_role inp) (ii_scopes inp))))"
    by (auto simp: issue_token_def insert_token_def matches_iff Let_def split: if_splits)
  have dots: "CHR ''.'' \<notin> set fresh" "CHR ''.'' \<notin> set (encode_base64url secret)" using assms(3) encode_plain by blast+
  have plain: "\<forall>c \<in> set fresh \<union> set (encode_base64url secret). \<not> is_js_space c"
  proof
    fix c assume "c \<in> set fresh \<union> set (encode_base64url secret)"
    then show "\<not> is_js_space c" using assms(3) encode_plain by auto
  qed
  note p = parse_format [OF dots(1) assms(2) dots(2) encode_not_Nil [OF assms(4)] plain, folded tok]
  have "tok \<noteq> []" by (simp add: tok format_token_def)
  moreover have "token_by_id fresh db' = Some row"
    using new row(1) by (auto simp: token_by_id_def db' find_append find_None_iff split: option.split dest: find_in)
  moreover have "secret_matches env (encode_base64url secret) row"
    using assms(4-6) row by (simp add: secret_matches_def decode_encode)
  ultimately have "authenticate env ps later (Some tok) None None db' = Some (row_claims row)"
    using p row assms(7) by (simp add: authenticate_def Let_def expected_def trimmed_or_none_def)
  then show ?thesis using row by (simp add: row_claims_def parse_written_scopes)
qed

definition demo_auth_env :: auth_env where
  "demo_auth_env = \<lparr>ae_scrypt = (\<lambda>secret salt. salt @ secret)\<rparr>"

definition demo_issue :: issue_input where
  "demo_issue = \<lparr>ii_tenant = Some ''t1'', ii_name = None, ii_role = RoleClient, ii_scopes = Some ['' operator.read ''],
     ii_device = Some ''laptop'', ii_ttl = Some 60, ii_created_by = None\<rparr>"

theorem issued_token_authenticates_witness:
  "\<exists>tok row db' c. issue_token demo_auth_env ''id1'' ''key'' ''salt'' 1000 demo_issue [] = Some ((tok, row), db') \<and>
    authenticate demo_auth_env [] 60999 (Some tok) None None db' = Some c \<and>
    km_tenant c = Some ''t1'' \<and> km_device c = Some ''laptop'' \<and> km_scopes c = [''operator.read'']"
proof -
  have "issue_token demo_auth_env ''id1'' ''key'' ''salt'' 1000 demo_issue [] \<noteq> None"
    by (simp add: issue_token_def insert_token_def matches_iff Let_def)
  then obtain tok row db' where i: "issue_token demo_auth_env ''id1'' ''key'' ''salt'' 1000 demo_issue [] = Some ((tok, row), db')"
    by (metis not_None_eq prod.collapse)
  have p: "\<forall>c \<in> set ''id1''. c \<noteq> CHR ''.'' \<and> \<not> is_js_space c" by code_simp
  have e: "\<not> is_expired (expiry_of (ii_ttl demo_issue) 1000) 60999" by (simp add: is_expired_def expiry_of_def demo_issue_def)
  have n: "normalize_role_scopes (ii_role demo_issue) (ii_scopes demo_issue) = [''operator.read'']"
    "trimmed_or_none (ii_device demo_issue) = Some ''laptop''" "ii_tenant demo_issue = Some ''t1''" by code_simp+
  have k: "ae_scrypt demo_auth_env ''key'' ''salt'' \<noteq> []" by code_simp
  obtain c where c: "authenticate demo_auth_env [] 60999 (Some tok) None None db' = Some c" "km_tenant c = ii_tenant demo_issue"
    "km_device c = trimmed_or_none (ii_device demo_issue)"
    "km_scopes c = normalize_role_scopes (ii_role demo_issue) (ii_scopes demo_issue)"
    using issued_token_authenticates [OF i list.simps(3) p list.simps(3) list.simps(3) k e, of "[]"] by (elim exE conjE)
  show ?thesis by (intro exI conjI, rule i, rule c(1)) (simp_all only: c(2-4) n)
qed

subsection \<open>Histories\<close>

definition token_evolves :: "auth_row \<Rightarrow> auth_row \<Rightarrow> bool" where
  "token_evolves r r' \<longleftrightarrow> tk_id r' = tk_id r \<and> tk_tenant r' = tk_tenant r \<and> tk_salt r' = tk_salt r \<and> tk_hash r' = tk_hash r \<and>
    tk_kdf r' = tk_kdf r \<and> tk_issued r' = tk_issued r \<and> (tk_revoked r \<noteq> None \<longrightarrow> r' = r)"

lemma token_evolves_refl [simp]: "token_evolves r r"
  by (simp add: token_evolves_def)

lemma token_evolves_trans: "token_evolves a b \<Longrightarrow> token_evolves b c \<Longrightarrow> token_evolves a c"
  by (auto simp: token_evolves_def)

inductive token_step :: "auth_row list \<Rightarrow> auth_row list \<Rightarrow> bool" where
  token_issue: "issue_token env fresh secret salt now inp db = Some (r, db') \<Longrightarrow> token_step db db'"
| token_update: "token_step db (snd (update_token now u db))"
| token_revoke: "token_step db (snd (revoke_token now i db))"

definition token_ids_ok :: "auth_row list \<Rightarrow> bool" where
  "token_ids_ok db \<longleftrightarrow> distinct (map tk_id db)"

lemma ids_update: "(\<And>r. tk_id (f r) = tk_id r) \<Longrightarrow> token_ids_ok (update_where P f db) = token_ids_ok db"
  by (simp add: token_ids_ok_def map_update_where)

lemma token_step_evolves:
  assumes "token_step db db'" "token_ids_ok db"
  shows "table_evolves token_evolves db db' \<and> token_ids_ok db'"
  using assms
proof (cases rule: token_step.cases)
  case (token_issue env fresh secret salt now inp r)
  then obtain row where "db' = db @ [row]" "\<forall>x \<in> set db. tk_id x \<noteq> tk_id row"
    by (auto simp: issue_token_def insert_token_def matches_iff Let_def split: if_splits)
  with assms(2) show ?thesis by (auto simp: table_evolves_snoc token_ids_ok_def)
next
  case (token_update now u)
  then show ?thesis using assms(2)
    by (auto simp: update_token_def update_token_by_id_def Let_def ids_update open_token_def table_evolves_refl
        intro!: table_evolves_update split: option.splits if_splits) (simp_all add: token_evolves_def)
next
  case (token_revoke now i)
  then show ?thesis using assms(2)
    by (auto simp: revoke_token_def revoke_row_def ids_update open_token_def table_evolves_refl
        intro!: table_evolves_update split: if_splits) (simp_all add: token_evolves_def)
qed

lemma token_steps_evolve:
  "token_step\<^sup>*\<^sup>* db db' \<Longrightarrow> token_ids_ok db \<Longrightarrow> table_evolves token_evolves db db' \<and> token_ids_ok db'"
proof (induction rule: rtranclp_induct)
  case (step y z)
  then have y: "table_evolves token_evolves db y" "token_ids_ok y" by simp_all
  from token_step_evolves [OF step.hyps(2) y(2)] have z: "table_evolves token_evolves y z" "token_ids_ok z" by simp_all
  show ?case using table_evolves_trans [OF token_evolves_trans y(1) z(1)] z(2) by simp
qed (simp add: table_evolves_refl)

text \<open>
  C34. A revoked token is refused for ever: whatever tokens are issued, changed or revoked afterwards, no
  text with its id is accepted, whatever its secret, and the row is never changed again.
\<close>

theorem revoked_token_refused:
  assumes "fst (revoke_token now i db)" "token_step\<^sup>*\<^sup>* (snd (revoke_token now i db)) db'" "token_ids_ok db"
    and "parse_token candidate = Some (trim i, secret)"
  shows "authenticate env ps later (Some candidate) role device db' = None \<and>
    (\<exists>r. token_by_id (trim i) db' = Some r \<and> tk_revoked r = Some now)"
proof -
  let ?db = "snd (revoke_token now i db)"
  from assms(1) obtain r0 where r0: "r0 \<in> set db" "open_token (trim i) r0"
    by (auto simp: revoke_token_def revoke_row_def matches_iff split: if_splits)
  let ?r = "r0\<lparr>tk_revoked := Some now, tk_updated := now\<rparr>"
  have "?r \<in> set ?db" using assms(1) r0
    by (force simp: revoke_token_def revoke_row_def set_update_where split: if_splits)
  moreover have ok: "token_ids_ok ?db"
    using token_step_evolves [OF token_revoke assms(3)] by blast
  moreover note ev = token_steps_evolve [OF assms(2) ok]
  ultimately obtain r' where r': "r' \<in> set db'" "token_evolves ?r r'"
    unfolding table_evolves_def by (metis in_set_takeD list_all2_in_set1)
  then have eq: "r' = ?r" by (simp add: token_evolves_def)
  have "token_by_id (trim i) db' = Some ?r"
    unfolding token_by_id_def
  proof (rule find_only)
    show "?r \<in> set db'" using r'(1) eq by simp
    show "tk_id ?r = trim i" using r0(2) by (simp add: open_token_def)
    show "b = ?r" if "b \<in> set db'" "tk_id b = trim i" for b
      using ev that r'(1) eq r0(2) distinct_keys_eq [of tk_id db' b ?r] by (simp add: token_ids_ok_def open_token_def)
  qed
  moreover have "parse_token (trim candidate) = Some (trim i, secret)" using assms(4) by (simp add: parse_token_def)
  ultimately show ?thesis by (simp add: authenticate_def Let_def)
qed

definition demo_token :: auth_row where
  "demo_token = \<lparr>tk_id = ''id1'', tk_tenant = Some ''t1'', tk_name = ''Client token'', tk_role = RoleClient, tk_device = None,
     tk_scopes = Some (JArr [JStr ''operator.read'']), tk_salt = encode_base64url ''salt'', tk_hash = encode_base64url ''saltkey'',
     tk_kdf = ''scrypt'', tk_issued = 1000, tk_expires = None, tk_revoked = None, tk_created_by = ''{}'', tk_created = 1000,
     tk_updated = 1000\<rparr>"

theorem revoked_token_refused_witness:
  "fst (revoke_token 2000 ''id1'' [demo_token]) \<and>
   authenticate demo_auth_env [] 3000 (Some ''tyrum-token.v1.id1.a2V5'') None None [demo_token] \<noteq> None \<and>
   authenticate demo_auth_env [] 3000 (Some ''tyrum-token.v1.id1.a2V5'') None None
     (snd (revoke_token 2500 ''id1'' (snd (revoke_token 2000 ''id1'' [demo_token])))) = None"
proof -
  have f: "fst (revoke_token 2000 ''id1'' [demo_token])" by code_simp
  have a: "authenticate demo_auth_env [] 3000 (Some ''tyrum-token.v1.id1.a2V5'') None None [demo_token] \<noteq> None" by code_simp
  have st: "token_step\<^sup>*\<^sup>* (snd (revoke_token 2000 ''id1'' [demo_token]))
      (snd (revoke_token 2500 ''id1'' (snd (revoke_token 2000 ''id1'' [demo_token]))))"
    by (rule r_into_rtranclp) (rule token_revoke)
  have ok: "token_ids_ok [demo_token]" by (simp add: token_ids_ok_def)
  have p: "parse_token ''tyrum-token.v1.id1.a2V5'' = Some (trim ''id1'', ''a2V5'')" by code_simp
  show ?thesis using f a revoked_token_refused [OF f st ok p] by blast
qed

subsection \<open>The gate\<close>

definition presented_token :: "http_request \<Rightarrow> string option" where
  "presented_token q = (case extract_bearer_token (hr_authorization q) of Some b \<Rightarrow> Some b | None \<Rightarrow> hr_cookie q)"

text \<open>What makes a text speak for claims: a row of the table, unrevoked and unexpired, or a provisioned token.\<close>

definition speaks_for :: "auth_env \<Rightarrow> (string \<times> auth_claims) list \<Rightarrow> auth_row list \<Rightarrow> nat \<Rightarrow> string \<Rightarrow> auth_claims \<Rightarrow> bool" where
  "speaks_for env ps db now tok c \<longleftrightarrow>
    (trim tok, c) \<in> set ps \<or>
    (\<exists>r \<in> set db. c = row_claims r \<and> tk_revoked r = None \<and> \<not> is_expired (tk_expires r) now \<and>
      (\<exists>s. parse_token tok = Some (tk_id r, s) \<and> secret_matches env s r))"

lemma parse_token_trim [simp]: "parse_token (trim s) = parse_token s"
  by (simp add: parse_token_def)

lemma provisioned_in: "authenticate_provisioned ps t role device = Some c \<Longrightarrow> (t, c) \<in> set ps"
  by (auto simp: authenticate_provisioned_def find_Some_iff in_set_conv_nth)

lemma authenticate_speaks:
  assumes "authenticate env ps now (Some tok) role device db = Some c"
  shows "speaks_for env ps db now tok c"
proof (cases "parse_token tok")
  case None
  with assms show ?thesis by (auto simp: authenticate_def speaks_for_def Let_def dest: provisioned_in split: if_splits)
next
  case (Some p)
  obtain i s where p: "p = (i, s)" by (cases p)
  show ?thesis
  proof (cases "token_by_id i db")
    case None
    with assms Some p show ?thesis
      by (auto simp: authenticate_def speaks_for_def Let_def dest: provisioned_in split: if_splits)
  next
    case (Some r)
    then have "r \<in> set db" "tk_id r = i" by (auto simp: token_by_id_def find_Some_iff)
    with assms Some \<open>parse_token tok = Some p\<close> p show ?thesis
      by (auto simp: authenticate_def speaks_for_def Let_def split: if_splits)
  qed
qed

lemma scoped:
  assumes "scope_middleware resolve q (Some c) = Admitted claims"
  shows "claims = Some c \<and> (km_kind c = AdminToken \<or>
    (\<exists>p \<in> {hono_route_path q, hr_path q}. \<exists>scopes. resolve (hr_method q) p = Some scopes \<and> has_any_required_scope c scopes))"
proof (cases "km_kind c = AdminToken")
  case True
  with assms show ?thesis by (simp add: scope_middleware_def)
next
  case False
  let ?r = "resolve (hr_method q)"
  define req where "req = (if ?r (hono_route_path q) = None \<and> hono_route_path q \<noteq> hr_path q then ?r (hr_path q) else ?r (hono_route_path q))"
  have eq: "scope_middleware resolve q (Some c) = (case req of None \<Rightarrow> RouteNotScoped
    | Some scopes \<Rightarrow> if has_any_required_scope c scopes then Admitted (Some c) else InsufficientScope)"
    using False by (simp only: scope_middleware_def req_def Let_def option.case if_False)
  show ?thesis
  proof (cases req)
    case None
    with assms eq show ?thesis by simp
  next
    case (Some scopes)
    with assms eq have h: "has_any_required_scope c scopes" and "claims = Some c" by (simp_all split: if_splits)
    moreover have "?r (hono_route_path q) = Some scopes \<or> ?r (hr_path q) = Some scopes"
      using Some unfolding req_def by (simp split: if_splits)
    ultimately show ?thesis by blast
  qed
qed

text \<open>
  C33. A request passes the gate only with the authority it needs: either its path is public and it carries no
  claims, or the token it presents (the bearer token before the cookie) is provisioned or belongs to an
  unrevoked, unexpired row whose secret it proves; a token without a tenant reaches exactly the paths
  under \<open>/system\<close>; and, unless it is an administrator token, the manifest names the scopes of the
  route or of the path and the token has one of them.
\<close>

theorem admitted_request_authorized:
  assumes "http_gate env manifest (Some (ps, db)) now q = Admitted claims"
  shows "(claims = None \<and> is_public_path q) \<or>
    (\<exists>c tok. claims = Some c \<and> \<not> is_public_path q \<and> presented_token q = Some tok \<and> speaks_for env ps db now tok c \<and>
      (matches_path_prefix (hr_path q) ''/system'' \<longleftrightarrow> km_tenant c = None) \<and>
      (km_kind c = AdminToken \<or>
        (\<exists>p \<in> {hono_route_path q, hr_path q}. \<exists>scopes.
          resolve_http_required_scopes manifest (hr_method q) p = Some scopes \<and> has_any_required_scope c scopes)))"
proof (cases "is_public_path q")
  case True
  with assms show ?thesis by (simp add: http_gate_def auth_middleware_def scope_middleware_def)
next
  case False
  obtain c where mw: "auth_middleware env (Some (ps, db)) now q = Admitted (Some c)"
    and sc: "scope_middleware (resolve_http_required_scopes manifest) q (Some c) = Admitted claims"
    using assms False by (auto simp: http_gate_def auth_middleware_def Let_def split: option.splits if_splits)
  from mw False obtain tok where tok: "presented_token q = Some tok" "authenticate env ps now (Some tok) None None db = Some c"
    and sys: "matches_path_prefix (hr_path q) ''/system'' \<longleftrightarrow> km_tenant c = None"
    by (auto simp: auth_middleware_def presented_token_def Let_def split: option.splits if_splits)
  note scoped [OF sc]
  with False tok(1) sys authenticate_speaks [OF tok(2)] show ?thesis
    by (intro disjI2 exI [of _ c] exI [of _ tok]) simp
qed

definition demo_claims :: auth_claims where
  "demo_claims = \<lparr>km_kind = DeviceToken, km_id = ''provisioned-1'', km_tenant = Some ''t1'', km_device = None, km_role = RoleClient,
     km_scopes = [''operator.read''], km_issued = 0, km_expires = None\<rparr>"

definition demo_http_request :: http_request where
  "demo_http_request = \<lparr>hr_method = ''GET'', hr_path = ''/agents/7'', hr_routes = Some [''*'', ''/agents/:id''],
     hr_authorization = Some ''Bearer sesame'', hr_cookie = None\<rparr>"

theorem admitted_request_authorized_witness:
  "speaks_for demo_auth_env [(''sesame'', demo_claims)] [] 5 ''sesame'' demo_claims \<and>
   http_gate demo_auth_env [\<lparr>ho_method = ''GET'', ho_path = ''/agents/{id}'', ho_auth = ''required'', ho_scopes = Some [''operator.read'']\<rparr>]
     (Some ([(''sesame'', demo_claims)], [])) 5 demo_http_request = Admitted (Some demo_claims) \<and>
   http_gate demo_auth_env [\<lparr>ho_method = ''GET'', ho_path = ''/agents/{id}'', ho_auth = ''required'', ho_scopes = Some [''operator.admin'']\<rparr>]
     (Some ([(''sesame'', demo_claims)], [])) 5 demo_http_request = InsufficientScope"
proof -
  let ?m = "[\<lparr>ho_method = ''GET'', ho_path = ''/agents/{id}'', ho_auth = ''required'', ho_scopes = Some [''operator.read'']\<rparr>]"
  have g: "http_gate demo_auth_env ?m (Some ([(''sesame'', demo_claims)], [])) 5 demo_http_request = Admitted (Some demo_claims)"
    by code_simp
  have r: "http_gate demo_auth_env [\<lparr>ho_method = ''GET'', ho_path = ''/agents/{id}'', ho_auth = ''required'', ho_scopes = Some [''operator.admin'']\<rparr>]
     (Some ([(''sesame'', demo_claims)], [])) 5 demo_http_request = InsufficientScope" by code_simp
  have t: "presented_token demo_http_request = Some ''sesame''" by code_simp
  from admitted_request_authorized [OF g] t
  have "speaks_for demo_auth_env [(''sesame'', demo_claims)] [] 5 ''sesame'' demo_claims" by simp
  with g r show ?thesis by blast
qed

subsection \<open>The path of the OAuth callback\<close>

text \<open>
  A GET request whose path ends like an OAuth callback is public whatever route it matched, so it passes
  the gate without a token: the test of the path runs also when the matched routes are known and none of
  them is the callback.
\<close>

theorem callback_path_exempt:
  assumes "hr_method q = ''GET''" "hr_path q = pre @ ''/providers/'' @ p @ ''/oauth/callback''" "p \<noteq> []" "CHR ''/'' \<notin> set p"
  shows "http_gate env manifest (Some tokens) now q = Admitted None"
proof -
  have "split_on CHR ''/'' (pre @ CHR ''/'' # ''providers'' @ CHR ''/'' # p @ CHR ''/'' # ''oauth'' @ CHR ''/'' # ''callback'') =
      split_on CHR ''/'' pre @ [''providers'', p, ''oauth'', ''callback'']"
    using assms(4) by (simp add: split_on_append split_on_plain del: append.simps)
  then have "oauth_callback_path (hr_path q)" using assms(2,3) by (simp add: oauth_callback_path_def)
  with assms(1) have "is_public_path q" by (simp add: is_public_path_def is_public_oauth_callback_def)
  then show ?thesis by (cases tokens) (simp add: http_gate_def auth_middleware_def scope_middleware_def)
qed

theorem callback_path_exempt_witness:
  "http_gate demo_auth_env [] (Some ([], [])) 5 (demo_http_request\<lparr>hr_path := ''/system/providers/x/oauth/callback'', hr_routes := Some [''/system/*'']\<rparr>) =
     Admitted None \<and>
   http_gate demo_auth_env [] (Some ([], [])) 5 (demo_http_request\<lparr>hr_path := ''/system/providers/x/oauth'', hr_routes := Some [''/system/*'']\<rparr>) =
     Unauthorized"
proof -
  let ?q = "demo_http_request\<lparr>hr_path := ''/system/providers/x/oauth/callback'', hr_routes := Some [''/system/*'']\<rparr>"
  have "http_gate demo_auth_env [] (Some ([], [])) 5 ?q = Admitted None"
    by (rule callback_path_exempt [of ?q "''/system''" "''x''"]) (simp_all add: demo_http_request_def)
  moreover have "http_gate demo_auth_env [] (Some ([], [])) 5
      (demo_http_request\<lparr>hr_path := ''/system/providers/x/oauth'', hr_routes := Some [''/system/*'']\<rparr>) = Unauthorized" by code_simp
  ultimately show ?thesis ..
qed

end
