(* ===== verification/Channel_Queue.thy ===== *)
theory Channel_Queue
  imports Match_Target Json_Value Table
begin

text \<open>
  The inbound queue of the channels, \<open>gateway/src/modules/channels\<close>: \<open>interface.ts\<close>,
  \<open>inbox-dal-types.ts\<close>, \<open>inbox-dal-helpers.ts\<close>, \<open>inbox-dal-enqueue.ts\<close> and \<open>inbox-dal.ts\<close>, and the
  signals of \<open>conversation-queue/queue-signal-dal.ts\<close>. A payload is a JSON value; the schema of normalized
  messages (zod) is a parameter that reads one and writes one. Row ids are drawn from a counter, as
  \<open>AUTOINCREMENT\<close> does; deleting an inbox row deletes its replies (\<open>ON DELETE CASCADE\<close>).
\<close>

subsection \<open>Sources\<close>

datatype source_error = PartEmpty string | PartHasColon string | SourceEmpty | SourceForm

definition normalize_identity_part :: "string \<Rightarrow> string \<Rightarrow> source_error + string" where
  "normalize_identity_part kind value =
    (if trim value = [] then Inl (PartEmpty kind)
     else if CHR '':'' \<in> set (trim value) then Inl (PartHasColon kind)
     else Inr (trim value))"

definition normalize_account_id :: "string \<Rightarrow> source_error + string" where
  "normalize_account_id value = (if trim value = [] then Inr ''default'' else normalize_identity_part ''account'' value)"

definition build_source_key :: "string \<Rightarrow> string \<Rightarrow> source_error + string" where
  "build_source_key connector account =
    (case normalize_identity_part ''connector'' connector of
       Inl e \<Rightarrow> Inl e
     | Inr c \<Rightarrow>
         if trim account = [] then Inl (PartEmpty ''account'')
         else (case normalize_account_id account of Inl e \<Rightarrow> Inl e | Inr a \<Rightarrow> Inr (c @ '':'' @ a)))"

definition parse_source_key :: "string \<Rightarrow> source_error + (string \<times> string)" where
  "parse_source_key source =
    (let t = trim source in
     if t = [] then Inl SourceEmpty
     else (case index_of CHR '':'' t of
             None \<Rightarrow> (case normalize_identity_part ''connector'' t of Inl e \<Rightarrow> Inl e | Inr c \<Rightarrow> Inr (c, ''default''))
           | Some i \<Rightarrow>
               (let connector = take i t; account = drop (Suc i) t in
                if trim account = [] then Inl (PartEmpty ''account'')
                else (case (normalize_identity_part ''connector'' connector, normalize_account_id account) of
                        (Inl e, _) \<Rightarrow> Inl e
                      | (Inr c, Inl e) \<Rightarrow> Inl e
                      | (Inr c, Inr a) \<Rightarrow> Inr (c, a)))))"

subsection \<open>Messages\<close>

datatype thread_kind = PrivateThread | GroupThread | SupergroupThread | ChannelThread | OtherThread

datatype container_kind = DmContainer | GroupContainer | ChannelContainer

definition container_kind_of :: "thread_kind \<Rightarrow> container_kind" where
  "container_kind_of k = (case k of PrivateThread \<Rightarrow> DmContainer | ChannelThread \<Rightarrow> ChannelContainer | _ \<Rightarrow> GroupContainer)"

record channel_thread =
  th_id :: string
  th_kind :: thread_kind
  th_title :: "string option"
  th_username :: "string option"
  th_pii :: "string list"

record message_content =
  mc_text :: "string option"
  mc_attachments :: "json list"

record message_sender =
  ms_id :: string
  ms_bot :: bool
  ms_first_name :: "string option"
  ms_last_name :: "string option"
  ms_username :: "string option"
  ms_language :: "string option"

record message_envelope =
  me_id :: string
  me_received :: nat
  me_channel :: string
  me_account :: string
  me_kind :: container_kind
  me_container :: string
  me_sender :: string
  me_display :: "string option"
  me_content :: message_content
  me_provenance :: "string list"

record thread_message =
  tm_thread :: channel_thread
  tm_id :: string
  tm_thread_id :: string
  tm_source :: string
  tm_content :: message_content
  tm_sender :: "message_sender option"
  tm_time :: nat
  tm_edited :: "nat option"
  tm_pii :: "string list"
  tm_envelope :: "message_envelope option"

record channel_env =
  ce_parse :: "json \<Rightarrow> thread_message option"
  ce_print :: "thread_message \<Rightarrow> json"

subsection \<open>Tables\<close>

datatype inbox_status = InQueued | InProcessing | InCompleted | InFailed

datatype overflow_policy = DropOldest | DropNewest | SummarizeDropped

record inbox_row =
  xi_id :: nat
  xi_tenant :: string
  xi_source :: string
  xi_thread :: string
  xi_message :: string
  xi_key :: string
  xi_mode :: string
  xi_received :: nat
  xi_payload :: json
  xi_status :: inbox_status
  xi_attempt :: nat
  xi_owner :: "string option"
  xi_expires :: "nat option"
  xi_processed :: "nat option"
  xi_error :: "string option"
  xi_reply :: "string option"
  xi_workspace :: string
  xi_conversation :: string
  xi_channel_thread :: string

record dedupe_row =
  dd_key :: "string \<times> string \<times> string \<times> string \<times> string"
  dd_inbox :: "nat option"
  dd_expires :: nat

datatype outbox_status = OutQueued | OutSending | OutSent | OutFailed

record outbox_row =
  xo_id :: nat
  xo_tenant :: string
  xo_inbox :: nat
  xo_source :: string
  xo_thread :: string
  xo_dedupe :: string
  xo_chunk :: nat
  xo_text :: string
  xo_attachments :: "json list"
  xo_parse_mode :: "string option"
  xo_status :: outbox_status
  xo_attempt :: nat
  xo_owner :: "string option"
  xo_expires :: "nat option"
  xo_approval :: "string option"
  xo_created :: nat
  xo_sent :: "nat option"
  xo_error :: "string option"
  xo_response :: json
  xo_workspace :: string
  xo_conversation :: string
  xo_channel_thread :: string

record channel_signal =
  sg_kind :: string
  sg_inbox :: "nat option"
  sg_mode :: string
  sg_text :: string
  sg_created :: nat

record channel_db =
  cd_inbox :: "inbox_row list"
  cd_dedupe :: "dedupe_row list"
  cd_outbox :: "outbox_row list"
  cd_signals :: "(string \<times> string, channel_signal) omap"
  cd_next_inbox :: nat
  cd_next_outbox :: nat

definition delete_inbox :: "(inbox_row \<Rightarrow> bool) \<Rightarrow> channel_db \<Rightarrow> channel_db" where
  "delete_inbox P db = db\<lparr>cd_inbox := filter (\<lambda>r. \<not> P r) (cd_inbox db),
     cd_outbox := filter (\<lambda>w. \<not> matches (\<lambda>r. P r \<and> xi_tenant r = xo_tenant w \<and> xi_id r = xo_inbox w) (cd_inbox db)) (cd_outbox db)\<rparr>"

definition last_row :: "'r list \<Rightarrow> 'r option" where
  "last_row rows = first_row (rev rows)"

definition inbox_by_id :: "nat \<Rightarrow> channel_db \<Rightarrow> inbox_row option" where
  "inbox_by_id i db = find (\<lambda>r. xi_id r = i) (cd_inbox db)"

definition same_message :: "string \<Rightarrow> string \<Rightarrow> string \<Rightarrow> string \<Rightarrow> inbox_row \<Rightarrow> bool" where
  "same_message tenant source thread message r \<longleftrightarrow>
    xi_tenant r = tenant \<and> xi_source r = source \<and> xi_thread r = thread \<and> xi_message r = message"

text \<open>\<open>ORDER BY received_at_ms, inbox_id\<close>; the descending order is its reverse, ids being unique.\<close>

definition by_age :: "inbox_row list \<Rightarrow> inbox_row list" where
  "by_age rows = order_by xi_received xi_id rows"

definition get_by_dedupe_key :: "string \<Rightarrow> string \<Rightarrow> string \<Rightarrow> string \<Rightarrow> channel_db \<Rightarrow> inbox_row option" where
  "get_by_dedupe_key tenant source thread message db =
    last_row (by_age (filter (same_message tenant source thread message) (cd_inbox db)))"

subsection \<open>Overflow\<close>

definition queue_modes :: "string list" where
  "queue_modes = [''collect'', ''followup'', ''steer'', ''steer_backlog'', ''interrupt'']"

definition normalize_queue_mode :: "string option \<Rightarrow> string" where
  "normalize_queue_mode raw =
    (let m = (case raw of None \<Rightarrow> [] | Some r \<Rightarrow> map lower_char (trim r)) in if m \<in> set queue_modes then m else ''collect'')"

definition extract_text :: "thread_message \<Rightarrow> string \<times> nat" where
  "extract_text m =
    (let c = (case tm_envelope m of Some e \<Rightarrow> me_content e | None \<Rightarrow> tm_content m) in
     ((case mc_text c of None \<Rightarrow> [] | Some t \<Rightarrow> trim t), length (mc_attachments c)))"

text \<open>The ellipsis, as UTF-8.\<close>

definition ellipsis :: string where
  "ellipsis = [CHR 0xE2, CHR 0x80, CHR 0xA6]"

definition summarize_text :: "string \<Rightarrow> string" where
  "summarize_text value =
    (let t = squeeze False (trim value) in if length t \<le> 200 then t else take 197 t @ ellipsis)"

definition overflow_line :: "string \<times> nat \<Rightarrow> string" where
  "overflow_line item =
    (case item of (text, attachments) \<Rightarrow>
       let parts = (if text \<noteq> [] then [summarize_text text] else []) @
             (if 0 < attachments then [''attachments='' @ show_nat attachments] else [])
       in ''- '' @ (if parts \<noteq> [] then join '' '' parts else ''(no text)''))"

definition overflow_summary_text :: "nat \<Rightarrow> (string \<times> nat) list \<Rightarrow> string" where
  "overflow_summary_text cap dropped =
    join [CHR 0x0A]
      ([''Queue overflow: dropped '' @ show_nat (length dropped) @ '' message(s) (cap='' @ show_nat cap @ '').'', [],
        ''Dropped messages (oldest first):''] @
       map overflow_line (take 5 dropped) @
       (if 5 < length dropped then [''- '' @ ellipsis @ '' (+'' @ show_nat (length dropped - 5) @ '' more)''] else []))"

definition queued_for :: "string \<Rightarrow> string \<Rightarrow> inbox_row \<Rightarrow> bool" where
  "queued_for tenant key r \<longleftrightarrow> xi_tenant r = tenant \<and> xi_status r = InQueued \<and> xi_key r = key"

definition count_queued :: "string \<Rightarrow> string \<Rightarrow> channel_db \<Rightarrow> nat" where
  "count_queued tenant key db = length (filter (queued_for tenant key) (cd_inbox db))"

definition queued_id :: "nat \<Rightarrow> inbox_row \<Rightarrow> bool" where
  "queued_id i r \<longleftrightarrow> xi_id r = i \<and> xi_status r = InQueued"

fun drop_queued :: "nat list \<Rightarrow> channel_db \<Rightarrow> nat list \<times> channel_db" where
  "drop_queued [] db = ([], db)"
| "drop_queued (i # ids) db =
    (let hit = length (filter (queued_id i) (cd_inbox db)) = 1 in
     case drop_queued ids (delete_inbox (queued_id i) db) of (ds, db') \<Rightarrow> ((if hit then i # ds else ds), db'))"

definition object_or_empty :: "json \<Rightarrow> json" where
  "object_or_empty v = (case v of JObj m \<Rightarrow> v | _ \<Rightarrow> JObj [])"

record dropped_message =
  dm_id :: nat
  dm_thread :: string
  dm_message :: string
  dm_received :: nat

definition dropped_of :: "inbox_row \<Rightarrow> dropped_message" where
  "dropped_of r = \<lparr>dm_id = xi_id r, dm_thread = xi_thread r, dm_message = xi_message r, dm_received = xi_received r\<rparr>"

record overflow_input =
  ov_tenant :: string
  ov_workspace :: string
  ov_conversation :: string
  ov_channel_thread :: string
  ov_key :: string
  ov_cap :: nat
  ov_policy :: overflow_policy

definition summary_payload :: "channel_env \<Rightarrow> nat \<Rightarrow> string \<Rightarrow> overflow_input \<Rightarrow> inbox_row list \<Rightarrow> json" where
  "summary_payload env now mid inp rows =
    (let first = hd rows;
         text = overflow_summary_text (ov_cap inp)
           (map (\<lambda>r. case ce_parse env (object_or_empty (xi_payload r)) of Some m \<Rightarrow> extract_text m | None \<Rightarrow> ([], 0)) rows);
         base = ce_parse env (object_or_empty (xi_payload first));
         address = (case parse_source_key (xi_source first) of Inr a \<Rightarrow> a | Inl e \<Rightarrow> (''telegram'', ''default''));
         thread = (case base of Some m \<Rightarrow> tm_thread m
           | None \<Rightarrow> \<lparr>th_id = xi_thread first, th_kind = OtherThread, th_title = None, th_username = None, th_pii = []\<rparr>);
         content = \<lparr>mc_text = Some text, mc_attachments = []\<rparr>
     in ce_print env
       \<lparr>tm_thread = thread, tm_id = mid, tm_thread_id = th_id thread,
        tm_source = (case base of Some m \<Rightarrow> tm_source m | None \<Rightarrow> ''telegram''), tm_content = content,
        tm_sender = Some \<lparr>ms_id = ''system'', ms_bot = True, ms_first_name = None, ms_last_name = None,
          ms_username = Some ''tyrum'', ms_language = None\<rparr>,
        tm_time = now, tm_edited = None, tm_pii = [''message_text''],
        tm_envelope = Some \<lparr>me_id = mid, me_received = now, me_channel = fst address, me_account = snd address,
          me_kind = container_kind_of (th_kind thread), me_container = th_id thread, me_sender = ''system'',
          me_display = Some ''Tyrum'', me_content = content, me_provenance = [''system'']\<rparr>\<rparr>)"

definition new_inbox_row ::
  "nat \<Rightarrow> string \<Rightarrow> string \<Rightarrow> string \<Rightarrow> string \<Rightarrow> string \<Rightarrow> string \<Rightarrow> nat \<Rightarrow> json \<Rightarrow> string \<Rightarrow> string \<Rightarrow> string \<Rightarrow> inbox_row" where
  "new_inbox_row i tenant source thread message key mode received payload workspace conversation channel_thread =
    \<lparr>xi_id = i, xi_tenant = tenant, xi_source = source, xi_thread = thread, xi_message = message, xi_key = key,
     xi_mode = mode, xi_received = received, xi_payload = payload, xi_status = InQueued, xi_attempt = 0, xi_owner = None,
     xi_expires = None, xi_processed = None, xi_error = None, xi_reply = None, xi_workspace = workspace,
     xi_conversation = conversation, xi_channel_thread = channel_thread\<rparr>"

definition insert_inbox :: "inbox_row \<Rightarrow> channel_db \<Rightarrow> channel_db" where
  "insert_inbox r db = db\<lparr>cd_inbox := cd_inbox db @ [r], cd_next_inbox := Suc (cd_next_inbox db)\<rparr>"

definition insert_summary ::
  "channel_env \<Rightarrow> nat \<Rightarrow> string \<Rightarrow> overflow_input \<Rightarrow> inbox_row list \<Rightarrow> channel_db \<Rightarrow> (nat \<times> string) \<times> channel_db" where
  "insert_summary env now uuid inp rows db =
    (let mid = ''queue_overflow:'' @ uuid; first = hd rows; i = cd_next_inbox db in
     ((i, mid), insert_inbox (new_inbox_row i (ov_tenant inp) (xi_source first) (xi_thread first) mid (ov_key inp) ''followup''
        (xi_received (last rows)) (summary_payload env now mid inp rows) (ov_workspace inp) (ov_conversation inp)
        (ov_channel_thread inp)) db))"

record overflow_state =
  os_dropped :: "dropped_message list"
  os_summary :: "(nat \<times> string) option"
  os_db :: channel_db

text \<open>One round of the loop; \<open>None\<close> when there is nothing to drop.\<close>

definition overflow_round :: "channel_env \<Rightarrow> nat \<Rightarrow> string \<Rightarrow> overflow_input \<Rightarrow> overflow_state \<Rightarrow> overflow_state option" where
  "overflow_round env now uuid inp s =
    (let db = os_db s;
         oldest = by_age (filter (queued_for (ov_tenant inp) (ov_key inp)) (cd_inbox db));
         overflow = count_queued (ov_tenant inp) (ov_key inp) db - ov_cap inp;
         policy = (if ov_policy inp = SummarizeDropped \<and> os_summary s \<noteq> None then DropOldest else ov_policy inp);
         rows = (case policy of DropOldest \<Rightarrow> take overflow oldest | DropNewest \<Rightarrow> take overflow (rev oldest)
           | SummarizeDropped \<Rightarrow> take (overflow + 1) oldest)
     in if rows = [] then None
        else (case drop_queued (map xi_id rows) db of
          (ids, db') \<Rightarrow>
            (let gone = filter (\<lambda>r. xi_id r \<in> set ids) rows; s' = s\<lparr>os_dropped := os_dropped s @ map dropped_of gone, os_db := db'\<rparr> in
             if policy = SummarizeDropped \<and> gone \<noteq> [] \<and> os_summary s = None
             then (case insert_summary env now uuid inp gone db' of
                     (sm, db'') \<Rightarrow> Some (s'\<lparr>os_summary := Some sm, os_db := db''\<rparr>))
             else Some s')))"

fun overflow_rounds :: "nat \<Rightarrow> channel_env \<Rightarrow> nat \<Rightarrow> string \<Rightarrow> overflow_input \<Rightarrow> overflow_state \<Rightarrow> overflow_state" where
  "overflow_rounds 0 env now uuid inp s = s"
| "overflow_rounds (Suc n) env now uuid inp s =
    (if count_queued (ov_tenant inp) (ov_key inp) (os_db s) \<le> ov_cap inp then s
     else (case overflow_round env now uuid inp s of
             None \<Rightarrow> s
           | Some s' \<Rightarrow> overflow_rounds n env now uuid inp s'))"

record overflow_result =
  or_cap :: nat
  or_policy :: overflow_policy
  or_before :: nat
  or_after :: nat
  or_dropped :: "dropped_message list"
  or_summary :: "(nat \<times> string) option"

definition apply_overflow ::
  "channel_env \<Rightarrow> nat \<Rightarrow> string \<Rightarrow> overflow_input \<Rightarrow> channel_db \<Rightarrow> overflow_result option \<times> channel_db" where
  "apply_overflow env now uuid inp db =
    (let before = count_queued (ov_tenant inp) (ov_key inp) db in
     if before \<le> ov_cap inp then (None, db)
     else (let s = overflow_rounds 5 env now uuid inp \<lparr>os_dropped = [], os_summary = None, os_db = db\<rparr> in
       (Some \<lparr>or_cap = ov_cap inp, or_policy = ov_policy inp, or_before = before,
          or_after = count_queued (ov_tenant inp) (ov_key inp) (os_db s), or_dropped = os_dropped s,
          or_summary = os_summary s\<rparr>, os_db s)))"

subsection \<open>Enqueuing\<close>

record inbox_config =
  cf_ttl :: "int option"
  cf_cap :: "int option"
  cf_policy :: "string option"

definition dedupe_ttl :: "inbox_config \<Rightarrow> nat" where
  "dedupe_ttl c = (case cf_ttl c of None \<Rightarrow> 7 * 24 * 60 * 60 * 1000 | Some t \<Rightarrow> nat (max 1 t))"

definition queue_cap :: "inbox_config \<Rightarrow> nat" where
  "queue_cap c = (case cf_cap c of None \<Rightarrow> 100 | Some n \<Rightarrow> nat (max 1 n))"

definition queue_policy :: "inbox_config \<Rightarrow> overflow_policy" where
  "queue_policy c =
    (if cf_policy c = Some ''drop_newest'' then DropNewest
     else if cf_policy c = Some ''summarize_dropped'' then SummarizeDropped else DropOldest)"

record enqueue_input =
  eq_tenant :: string
  eq_workspace :: string
  eq_conversation :: string
  eq_channel_thread :: string
  eq_channel :: string
  eq_account :: string
  eq_source :: string
  eq_container :: string
  eq_message :: string
  eq_key :: string
  eq_mode :: string
  eq_received :: nat
  eq_payload :: json
  eq_ttl :: nat
  eq_expires :: nat
  eq_cap :: nat
  eq_policy :: overflow_policy

definition message_key :: "enqueue_input \<Rightarrow> string \<times> string \<times> string \<times> string \<times> string" where
  "message_key e = (eq_tenant e, eq_channel e, eq_account e, eq_container e, eq_message e)"

text \<open>The row returned for a message whose inbox row is gone.\<close>

definition synthetic_row :: "enqueue_input \<Rightarrow> nat \<Rightarrow> inbox_row" where
  "synthetic_row e i =
    (new_inbox_row i (eq_tenant e) (eq_source e) (eq_container e) (eq_message e) (eq_key e) (eq_mode e) (eq_received e)
      (eq_payload e) (eq_workspace e) (eq_conversation e) (eq_channel_thread e))\<lparr>xi_status := InCompleted\<rparr>"

definition set_dedupe_inbox :: "enqueue_input \<Rightarrow> nat \<Rightarrow> channel_db \<Rightarrow> channel_db" where
  "set_dedupe_inbox e i db =
    db\<lparr>cd_dedupe := update_where (\<lambda>d. dd_key d = message_key e) (\<lambda>d. d\<lparr>dd_inbox := Some i\<rparr>) (cd_dedupe db)\<rparr>"

text \<open>\<open>None\<close>: the message is new and its key is now taken.\<close>

definition try_dedupe_acquire :: "enqueue_input \<Rightarrow> channel_db \<Rightarrow> inbox_row option \<times> channel_db" where
  "try_dedupe_acquire e db =
    (let live = filter (\<lambda>d. \<not> dd_expires d \<le> eq_received e) (cd_dedupe db); k = message_key e;
         stale = (\<lambda>d. dd_key d = k \<and> dd_expires d \<le> eq_received e)
     in if \<not> matches (\<lambda>d. dd_key d = k) live
        then (None, db\<lparr>cd_dedupe := live @ [\<lparr>dd_key = k, dd_inbox = None, dd_expires = eq_expires e\<rparr>]\<rparr>)
        else if length (filter stale live) = 1
        then (None, db\<lparr>cd_dedupe := update_where stale (\<lambda>d. d\<lparr>dd_inbox := None, dd_expires := eq_expires e\<rparr>) live\<rparr>)
        else (let db1 = db\<lparr>cd_dedupe := live\<rparr>;
                  pointer = (case find (\<lambda>d. dd_key d = k) live of None \<Rightarrow> None | Some d \<Rightarrow> dd_inbox d)
              in case (case pointer of None \<Rightarrow> None | Some i \<Rightarrow> inbox_by_id i db1) of
                   Some r \<Rightarrow> (Some r, db1)
                 | None \<Rightarrow>
                     (case get_by_dedupe_key (eq_tenant e) (eq_source e) (eq_container e) (eq_message e) db1 of
                        Some r \<Rightarrow> (Some r, set_dedupe_inbox e (xi_id r) db1)
                      | None \<Rightarrow> (Some (synthetic_row e (case pointer of None \<Rightarrow> 0 | Some i \<Rightarrow> i)), db1))))"

text \<open>The returned id is the one of the returned row in both cases.\<close>

definition insert_inbox_row :: "enqueue_input \<Rightarrow> channel_db \<Rightarrow> (nat \<times> inbox_row) \<times> channel_db" where
  "insert_inbox_row e db =
    (case last_row (by_age (filter (\<lambda>r. same_message (eq_tenant e) (eq_source e) (eq_container e) (eq_message e) r \<and>
            eq_received e \<le> xi_received r + eq_ttl e) (cd_inbox db))) of
       Some r \<Rightarrow> ((xi_id r, r), set_dedupe_inbox e (xi_id r) db)
     | None \<Rightarrow>
         (let i = cd_next_inbox db;
              r = new_inbox_row i (eq_tenant e) (eq_source e) (eq_container e) (eq_message e) (eq_key e) (eq_mode e)
                (eq_received e) (eq_payload e) (eq_workspace e) (eq_conversation e) (eq_channel_thread e)
          in ((i, r), set_dedupe_inbox e i (insert_inbox r db))))"

record enqueue_result =
  er_row :: inbox_row
  er_deduped :: bool
  er_overflow :: "overflow_result option"

definition overflow_of :: "enqueue_input \<Rightarrow> overflow_input" where
  "overflow_of e = \<lparr>ov_tenant = eq_tenant e, ov_workspace = eq_workspace e, ov_conversation = eq_conversation e,
     ov_channel_thread = eq_channel_thread e, ov_key = eq_key e, ov_cap = eq_cap e, ov_policy = eq_policy e\<rparr>"

definition execute_enqueue ::
  "channel_env \<Rightarrow> nat \<Rightarrow> string \<Rightarrow> enqueue_input \<Rightarrow> channel_db \<Rightarrow> enqueue_result \<times> channel_db" where
  "execute_enqueue env now uuid e db =
    (case try_dedupe_acquire e db of
       (Some r, db1) \<Rightarrow> (\<lparr>er_row = r, er_deduped = True, er_overflow = None\<rparr>, db1)
     | (None, db1) \<Rightarrow>
         (case insert_inbox_row e db1 of
            ((i, r), db2) \<Rightarrow>
              if xi_id r \<noteq> i then (\<lparr>er_row = r, er_deduped = True, er_overflow = None\<rparr>, db2)
              else (case (if eq_cap e = 0 then (None, db2) else apply_overflow env now uuid (overflow_of e) db2) of
                      (ov, db3) \<Rightarrow>
                        (\<lparr>er_row = (case inbox_by_id i db3 of None \<Rightarrow> synthetic_row e i | Some r' \<Rightarrow> r'),
                          er_deduped = False, er_overflow = ov\<rparr>, db3))))"

text \<open>
  \<open>ChannelInboxDal.enqueue\<close> up to its transaction: the conversation the message belongs to is an
  argument (tenant, workspace, conversation, channel thread).
\<close>

record message_input =
  mi_source :: string
  mi_thread :: string
  mi_message :: string
  mi_key :: string
  mi_mode :: "string option"
  mi_received :: nat
  mi_payload :: json

definition enqueue_message ::
  "channel_env \<Rightarrow> inbox_config \<Rightarrow> nat \<Rightarrow> string \<Rightarrow> string \<times> string \<times> string \<times> string \<Rightarrow> message_input \<Rightarrow> channel_db
    \<Rightarrow> (source_error + enqueue_result) \<times> channel_db" where
  "enqueue_message env cfg now uuid conv m db =
    (if CHR '':'' \<notin> set (trim (mi_source m)) then (Inl SourceForm, db)
     else (case parse_source_key (trim (mi_source m)) of
       Inl e \<Rightarrow> (Inl e, db)
     | Inr (channel, account) \<Rightarrow>
         (case build_source_key channel account of
            Inl e \<Rightarrow> (Inl e, db)
          | Inr source \<Rightarrow>
              (case conv of (tenant, workspace, conversation, channel_thread) \<Rightarrow>
                (case execute_enqueue env now uuid
                    \<lparr>eq_tenant = tenant, eq_workspace = workspace, eq_conversation = conversation,
                     eq_channel_thread = channel_thread, eq_channel = channel, eq_account = account, eq_source = source,
                     eq_container = trim (mi_thread m), eq_message = trim (mi_message m), eq_key = mi_key m,
                     eq_mode = normalize_queue_mode (mi_mode m), eq_received = mi_received m, eq_payload = mi_payload m,
                     eq_ttl = dedupe_ttl cfg, eq_expires = mi_received m + max 1 (dedupe_ttl cfg), eq_cap = queue_cap cfg,
                     eq_policy = queue_policy cfg\<rparr> db of
                   (r, db') \<Rightarrow> (Inr r, db'))))))"

subsection \<open>Working on messages\<close>

definition inbox_claimable :: "nat \<Rightarrow> inbox_row \<Rightarrow> bool" where
  "inbox_claimable now r \<longleftrightarrow> xi_status r = InQueued \<or>
    xi_status r = InProcessing \<and> (case xi_expires r of None \<Rightarrow> False | Some t \<Rightarrow> t \<le> now)"

definition inbox_taken :: "string \<Rightarrow> nat \<Rightarrow> int \<Rightarrow> inbox_row \<Rightarrow> inbox_row" where
  "inbox_taken owner now ttl r = r\<lparr>xi_status := InProcessing, xi_owner := Some owner,
     xi_expires := Some (now + nat (max 1 ttl)), xi_attempt := Suc (xi_attempt r)\<rparr>"

definition claim_next_message :: "string \<Rightarrow> nat \<Rightarrow> int \<Rightarrow> channel_db \<Rightarrow> inbox_row option \<times> channel_db" where
  "claim_next_message owner now ttl db =
    (case first_row (by_age (filter (inbox_claimable now) (cd_inbox db))) of
       None \<Rightarrow> (None, db)
     | Some c \<Rightarrow>
         (let hit = (\<lambda>r. xi_id r = xi_id c \<and> inbox_claimable now r);
              db' = db\<lparr>cd_inbox := update_where hit (inbox_taken owner now ttl) (cd_inbox db)\<rparr>
          in if length (filter hit (cd_inbox db)) \<noteq> 1 then (None, db') else (inbox_by_id (xi_id c) db', db')))"

definition inbox_held :: "nat \<Rightarrow> string \<Rightarrow> inbox_row \<Rightarrow> bool" where
  "inbox_held i owner r \<longleftrightarrow> xi_id r = i \<and> xi_owner r = Some owner \<and> xi_status r = InProcessing"

definition update_held :: "nat \<Rightarrow> string \<Rightarrow> (inbox_row \<Rightarrow> inbox_row) \<Rightarrow> channel_db \<Rightarrow> bool \<times> channel_db" where
  "update_held i owner f db =
    (length (filter (inbox_held i owner) (cd_inbox db)) = 1,
     db\<lparr>cd_inbox := update_where (inbox_held i owner) f (cd_inbox db)\<rparr>)"

definition requeue_message :: "nat \<Rightarrow> string \<Rightarrow> channel_db \<Rightarrow> bool \<times> channel_db" where
  "requeue_message i owner db =
    update_held i owner (\<lambda>r. r\<lparr>xi_status := InQueued, xi_owner := None, xi_expires := None\<rparr>) db"

text \<open>A completed row without replies waiting is deleted.\<close>

definition sweep_completed :: "nat \<Rightarrow> channel_db \<Rightarrow> channel_db" where
  "sweep_completed i db =
    delete_inbox (\<lambda>r. xi_id r = i \<and> xi_status r = InCompleted \<and> \<not> matches (\<lambda>w. xo_inbox w = i) (cd_outbox db)) db"

definition mark_completed :: "nat \<Rightarrow> nat \<Rightarrow> string \<Rightarrow> string \<Rightarrow> channel_db \<Rightarrow> bool \<times> channel_db" where
  "mark_completed now i owner reply db =
    (case update_held i owner (\<lambda>r. r\<lparr>xi_status := InCompleted, xi_owner := None, xi_expires := None,
         xi_processed := Some now, xi_error := None, xi_reply := Some reply\<rparr>) db of
       (ok, db') \<Rightarrow> if ok then (True, sweep_completed i db') else (False, db'))"

definition mark_message_failed :: "nat \<Rightarrow> nat \<Rightarrow> string \<Rightarrow> string \<Rightarrow> channel_db \<Rightarrow> bool \<times> channel_db" where
  "mark_message_failed now i owner err db =
    update_held i owner (\<lambda>r. r\<lparr>xi_status := InFailed, xi_owner := None, xi_expires := None,
      xi_processed := Some now, xi_error := Some err\<rparr>) db"

definition list_queued_for_key :: "string \<Rightarrow> string \<Rightarrow> nat \<Rightarrow> nat \<Rightarrow> int \<Rightarrow> string option \<Rightarrow> channel_db \<Rightarrow> inbox_row list" where
  "list_queued_for_key tenant key from_ms to_ms limit mode db =
    (if limit \<le> 0 then []
     else take (nat (max 1 limit)) (by_age (filter (\<lambda>r. queued_for tenant key r \<and> from_ms \<le> xi_received r \<and> xi_received r \<le> to_ms \<and>
       (case mode of None \<Rightarrow> True | Some m \<Rightarrow> trim m = [] \<or> xi_mode r = trim m)) (cd_inbox db))))"

fun claim_batch :: "nat list \<Rightarrow> string \<Rightarrow> nat \<Rightarrow> int \<Rightarrow> channel_db \<Rightarrow> nat \<times> channel_db" where
  "claim_batch [] owner now ttl db = (0, db)"
| "claim_batch (i # ids) owner now ttl db =
    (case claim_batch ids owner now ttl
        (db\<lparr>cd_inbox := update_where (queued_id i) (inbox_taken owner now ttl) (cd_inbox db)\<rparr>) of
       (n, db') \<Rightarrow> (length (filter (queued_id i) (cd_inbox db)) + n, db'))"

text \<open>Messages of the same conversation that arrived within the debounce window join their leader.\<close>

definition claim_debounced_batch :: "int \<Rightarrow> int \<Rightarrow> string \<Rightarrow> nat \<Rightarrow> int \<Rightarrow> inbox_row \<Rightarrow> channel_db \<Rightarrow> inbox_row list \<times> channel_db" where
  "claim_debounced_batch debounce max_batch owner now ttl leader db =
    (if debounce \<le> 0 \<or> xi_mode leader \<noteq> ''collect'' then ([leader], db)
     else (let ids = map xi_id (list_queued_for_key (xi_tenant leader) (xi_key leader) (xi_received leader)
               (xi_received leader + nat debounce) (max 0 (max_batch - 1)) (Some ''collect'') db)
           in if ids = [] then ([leader], db)
              else (case claim_batch ids owner now ttl db of
                (n, db') \<Rightarrow> (leader # List.map_filter (\<lambda>i. case inbox_by_id i db' of
                    Some r \<Rightarrow> if xi_status r = InProcessing \<and> xi_owner r = Some owner then Some r else None
                  | None \<Rightarrow> None) ids, db'))))"

subsection \<open>Signals\<close>

definition set_signal :: "string \<Rightarrow> string \<Rightarrow> channel_signal \<Rightarrow> channel_db \<Rightarrow> channel_db" where
  "set_signal tenant key sg db = db\<lparr>cd_signals := om_set (tenant, key) sg (cd_signals db)\<rparr>"

definition clear_signal :: "string \<Rightarrow> string \<Rightarrow> channel_db \<Rightarrow> channel_db" where
  "clear_signal tenant key db = db\<lparr>cd_signals := om_del (tenant, key) (cd_signals db)\<rparr>"

definition claim_signal :: "string \<Rightarrow> string \<Rightarrow> channel_db \<Rightarrow> channel_signal option \<times> channel_db" where
  "claim_signal tenant key db =
    (case om_get (cd_signals db) (tenant, key) of
       None \<Rightarrow> (None, db)
     | Some sg \<Rightarrow>
         (let db' = clear_signal tenant key db;
              db'' = (if sg_kind sg = ''steer'' \<and> sg_mode sg = ''steer'' \<and> sg_inbox sg \<noteq> None
                then delete_inbox (\<lambda>r. xi_tenant r = tenant \<and> Some (xi_id r) = sg_inbox sg \<and>
                  (xi_status r = InQueued \<or> xi_status r = InProcessing)) db'
                else db')
          in (Some (sg\<lparr>sg_kind := if sg_kind sg = ''interrupt'' then ''interrupt'' else ''steer''\<rparr>), db'')))"

text \<open>
  What \<open>TelegramChannelQueue.enqueue\<close> does after the message is filed: a message that steers or
  interrupts a conversation someone is working on leaves a signal, and an interrupt empties the queue.
\<close>

definition signal_active_run :: "nat \<Rightarrow> string \<Rightarrow> string \<Rightarrow> nat option \<Rightarrow> enqueue_result \<Rightarrow> channel_db \<Rightarrow> channel_db" where
  "signal_active_run now key text lease res db =
    (let r = er_row res; mode = xi_mode r; active = (case lease of None \<Rightarrow> False | Some t \<Rightarrow> now < t) in
     if \<not> er_deduped res \<and> xi_status r = InQueued \<and> active \<and> mode \<in> set [''steer'', ''steer_backlog'', ''interrupt'']
     then (let db' = set_signal (xi_tenant r) key \<lparr>sg_kind = (if mode = ''interrupt'' then ''interrupt'' else ''steer''),
                 sg_inbox = Some (xi_id r), sg_mode = mode, sg_text = text, sg_created = now\<rparr> db
           in if mode = ''interrupt''
              then delete_inbox (\<lambda>x. queued_for (xi_tenant r) key x \<and> xi_id x \<noteq> xi_id r) db'
              else db')
     else db)"

end
