(* ===== verification/Channel_Outbox.thy ===== *)
theory Channel_Outbox
  imports Channel_Queue Approvals
begin

text \<open>
  The replies of the channels: \<open>gateway/src/modules/channels/outbox-dal.ts\<close>,
  \<open>send-policy-override-dal.ts\<close>, the policy gate and the filing of replies at the end of
  \<open>telegram-batch-processor.ts\<close>, and the delivery half of \<open>telegram-processor.ts\<close>. Connectors are a
  function from a source key to the outcome of sending.
\<close>

subsection \<open>The outbox\<close>

record outbox_input =
  xn_tenant :: string
  xn_inbox :: nat
  xn_source :: string
  xn_thread :: string
  xn_dedupe :: string
  xn_chunk :: nat
  xn_text :: "string option"
  xn_attachments :: "json list option"
  xn_parse_mode :: "string option"
  xn_approval :: "string option"
  xn_workspace :: string
  xn_conversation :: string
  xn_channel_thread :: string

definition outbox_by_key :: "string \<Rightarrow> string \<Rightarrow> channel_db \<Rightarrow> outbox_row option" where
  "outbox_by_key tenant key db = find (\<lambda>w. xo_tenant w = tenant \<and> xo_dedupe w = key) (cd_outbox db)"

definition new_outbox_row :: "nat \<Rightarrow> nat \<Rightarrow> outbox_input \<Rightarrow> outbox_row" where
  "new_outbox_row now i n =
    \<lparr>xo_id = i, xo_tenant = xn_tenant n, xo_inbox = xn_inbox n, xo_source = xn_source n, xo_thread = xn_thread n,
     xo_dedupe = xn_dedupe n, xo_chunk = xn_chunk n, xo_text = (case xn_text n of None \<Rightarrow> [] | Some t \<Rightarrow> t),
     xo_attachments = (case xn_attachments n of None \<Rightarrow> [] | Some a \<Rightarrow> a), xo_parse_mode = xn_parse_mode n,
     xo_status = OutQueued, xo_attempt = 0, xo_owner = None, xo_expires = None, xo_approval = xn_approval n, xo_created = now,
     xo_sent = None, xo_error = None, xo_response = JNull, xo_workspace = xn_workspace n,
     xo_conversation = xn_conversation n, xo_channel_thread = xn_channel_thread n\<rparr>"

text \<open>\<open>None\<close> when the inbox row is gone: the foreign key refuses the reply. The flag is \<open>deduped\<close>.\<close>

definition enqueue_reply :: "nat \<Rightarrow> outbox_input \<Rightarrow> channel_db \<Rightarrow> (outbox_row \<times> bool) option \<times> channel_db" where
  "enqueue_reply now n db =
    (case outbox_by_key (xn_tenant n) (xn_dedupe n) db of
       Some w \<Rightarrow> (Some (w, True), db)
     | None \<Rightarrow>
         if matches (\<lambda>r. xi_tenant r = xn_tenant n \<and> xi_id r = xn_inbox n) (cd_inbox db)
         then (let w = new_outbox_row now (cd_next_outbox db) n in
           (Some (w, False), db\<lparr>cd_outbox := cd_outbox db @ [w], cd_next_outbox := Suc (cd_next_outbox db)\<rparr>))
         else (None, db))"

definition list_for_inbox :: "string \<Rightarrow> nat \<Rightarrow> channel_db \<Rightarrow> outbox_row list" where
  "list_for_inbox tenant i db =
    order_by xo_chunk xo_id (filter (\<lambda>w. xo_tenant w = tenant \<and> xo_inbox w = i) (cd_outbox db))"

definition outbox_claimable :: "nat \<Rightarrow> outbox_row \<Rightarrow> bool" where
  "outbox_claimable now w \<longleftrightarrow> xo_approval w = None \<and>
    (xo_status w = OutQueued \<or>
     xo_status w = OutSending \<and> (case xo_expires w of None \<Rightarrow> False | Some t \<Rightarrow> t \<le> now))"

definition outbox_taken :: "string \<Rightarrow> nat \<Rightarrow> int \<Rightarrow> outbox_row \<Rightarrow> outbox_row" where
  "outbox_taken owner now ttl w = w\<lparr>xo_status := OutSending, xo_owner := Some owner,
     xo_expires := Some (now + nat (max 1 ttl)), xo_attempt := Suc (xo_attempt w)\<rparr>"

definition take_candidate :: "string \<Rightarrow> nat \<Rightarrow> int \<Rightarrow> outbox_row option \<Rightarrow> channel_db \<Rightarrow> outbox_row option \<times> channel_db" where
  "take_candidate owner now ttl candidate db =
    (case candidate of
       None \<Rightarrow> (None, db)
     | Some c \<Rightarrow>
         (let hit = (\<lambda>w. xo_id w = xo_id c \<and> outbox_claimable now w);
              db' = db\<lparr>cd_outbox := update_where hit (outbox_taken owner now ttl) (cd_outbox db)\<rparr>
          in if length (filter hit (cd_outbox db)) \<noteq> 1 then (None, db')
             else (find (\<lambda>w. xo_id w = xo_id c) (cd_outbox db'), db')))"

definition claim_next_for_inbox :: "nat \<Rightarrow> string \<Rightarrow> nat \<Rightarrow> int \<Rightarrow> channel_db \<Rightarrow> outbox_row option \<times> channel_db" where
  "claim_next_for_inbox i owner now ttl db =
    take_candidate owner now ttl
      (first_row (order_by xo_chunk xo_id (filter (\<lambda>w. xo_inbox w = i \<and> outbox_claimable now w) (cd_outbox db)))) db"

text \<open>The replies that have the least chunk index among the claimable ones of their message.\<close>

definition leading_reply :: "nat \<Rightarrow> outbox_row list \<Rightarrow> outbox_row \<Rightarrow> bool" where
  "leading_reply now ws w \<longleftrightarrow> outbox_claimable now w \<and>
    list_all (\<lambda>v. xo_inbox v = xo_inbox w \<and> outbox_claimable now v \<longrightarrow> xo_chunk w \<le> xo_chunk v) ws"

definition claim_next_global :: "string \<Rightarrow> nat \<Rightarrow> int \<Rightarrow> channel_db \<Rightarrow> outbox_row option \<times> channel_db" where
  "claim_next_global owner now ttl db =
    take_candidate owner now ttl
      (first_row (order_by xo_created xo_id (filter (leading_reply now (cd_outbox db)) (cd_outbox db)))) db"

definition update_outbox :: "(outbox_row \<Rightarrow> bool) \<Rightarrow> (outbox_row \<Rightarrow> outbox_row) \<Rightarrow> channel_db \<Rightarrow> nat \<times> channel_db" where
  "update_outbox P f db = (length (filter P (cd_outbox db)), db\<lparr>cd_outbox := update_where P f (cd_outbox db)\<rparr>)"

definition set_approval_for_inbox :: "nat \<Rightarrow> string \<Rightarrow> channel_db \<Rightarrow> nat \<times> channel_db" where
  "set_approval_for_inbox i approval db =
    update_outbox (\<lambda>w. xo_inbox w = i \<and> xo_status w = OutQueued \<and> xo_approval w = None)
      (\<lambda>w. w\<lparr>xo_approval := Some approval\<rparr>) db"

definition clear_approval :: "string \<Rightarrow> channel_db \<Rightarrow> nat \<times> channel_db" where
  "clear_approval approval db =
    update_outbox (\<lambda>w. xo_approval w = Some approval \<and> xo_status w = OutQueued) (\<lambda>w. w\<lparr>xo_approval := None\<rparr>) db"

definition reply_failed :: "nat \<Rightarrow> string \<Rightarrow> outbox_row \<Rightarrow> outbox_row" where
  "reply_failed now err w = w\<lparr>xo_status := OutFailed, xo_owner := None, xo_expires := None, xo_sent := Some now,
     xo_error := Some err\<rparr>"

definition fail_by_approval :: "nat \<Rightarrow> string \<Rightarrow> string \<Rightarrow> channel_db \<Rightarrow> nat \<times> channel_db" where
  "fail_by_approval now approval err db =
    update_outbox (\<lambda>w. xo_approval w = Some approval \<and> xo_status w \<noteq> OutSent) (reply_failed now err) db"

definition outbox_held :: "nat \<Rightarrow> string \<Rightarrow> outbox_row \<Rightarrow> bool" where
  "outbox_held i owner w \<longleftrightarrow> xo_id w = i \<and> xo_owner w = Some owner \<and> xo_status w = OutSending"

definition mark_sent :: "nat \<Rightarrow> string \<Rightarrow> channel_db \<Rightarrow> bool \<times> channel_db" where
  "mark_sent i owner db =
    (length (filter (outbox_held i owner) (cd_outbox db)) = 1,
     db\<lparr>cd_outbox := filter (\<lambda>w. \<not> outbox_held i owner w) (cd_outbox db)\<rparr>)"

definition mark_reply_failed :: "nat \<Rightarrow> nat \<Rightarrow> string \<Rightarrow> string \<Rightarrow> channel_db \<Rightarrow> bool \<times> channel_db" where
  "mark_reply_failed now i owner err db =
    (case update_outbox (outbox_held i owner) (reply_failed now err) db of (n, db') \<Rightarrow> (n = 1, db'))"

subsection \<open>Send policy overrides\<close>

datatype send_policy = SendOn | SendOff

record send_override =
  so_tenant :: string
  so_key :: string
  so_policy :: string
  so_updated :: nat

definition default_tenant :: string where
  "default_tenant = ''00000000-0000-4000-8000-000000000001''"

definition override_at :: "string option \<Rightarrow> string \<Rightarrow> send_override \<Rightarrow> bool" where
  "override_at tenant key v \<longleftrightarrow> so_tenant v = or_default tenant default_tenant \<and> so_key v = key"

definition get_send_override :: "string option \<Rightarrow> string \<Rightarrow> send_override list \<Rightarrow> send_policy option" where
  "get_send_override tenant key vs =
    (case find (override_at tenant key) vs of
       None \<Rightarrow> None
     | Some v \<Rightarrow> if so_policy v = ''on'' then Some SendOn else if so_policy v = ''off'' then Some SendOff else None)"

definition upsert_send_override :: "nat \<Rightarrow> string option \<Rightarrow> string \<Rightarrow> send_policy \<Rightarrow> send_override list \<Rightarrow> send_override list" where
  "upsert_send_override now tenant key p vs =
    (let text = (case p of SendOn \<Rightarrow> ''on'' | SendOff \<Rightarrow> ''off'') in
     if matches (override_at tenant key) vs
     then update_where (override_at tenant key) (\<lambda>v. v\<lparr>so_policy := text, so_updated := now\<rparr>) vs
     else vs @ [\<lparr>so_tenant = or_default tenant default_tenant, so_key = key, so_policy = text, so_updated = now\<rparr>])"

definition clear_send_override :: "string option \<Rightarrow> string \<Rightarrow> send_override list \<Rightarrow> bool \<times> send_override list" where
  "clear_send_override tenant key vs =
    (length (filter (override_at tenant key) vs) = 1, filter (\<lambda>v. \<not> override_at tenant key v) vs)"

subsection \<open>From a reply to the outbox\<close>

datatype send_decision = SendAllow | SendDeny | SendApproval

text \<open>
  The gate of a batch. The policy service, when there is one, answers with a decision or an error; the
  operator's override and observe-only mode come after it.
\<close>

datatype egress_gate = GateSend | GateApproval | GateDenied | GateNoApprovals

definition egress_gate_of :: "(send_decision option \<times> bool) option \<Rightarrow> send_policy option \<Rightarrow> bool \<Rightarrow> bool \<Rightarrow> egress_gate" where
  "egress_gate_of policy over has_content approvals =
    (let observed = (case policy of
           None \<Rightarrow> SendAllow
         | Some (answer, observe_only) \<Rightarrow>
             if observe_only then SendAllow else (case answer of None \<Rightarrow> SendApproval | Some d \<Rightarrow> d));
         decision = (if over = Some SendOn then SendAllow else observed);
         enforcing = (case policy of None \<Rightarrow> False | Some (_, observe_only) \<Rightarrow> \<not> observe_only)
     in if enforcing \<and> decision = SendDeny then GateDenied
        else if decision = SendApproval \<and> has_content
        then (if approvals then GateApproval else GateNoApprovals)
        else GateSend)"

definition reply_input :: "inbox_row \<Rightarrow> json list \<Rightarrow> nat \<Rightarrow> string \<Rightarrow> outbox_input" where
  "reply_input leader attachments i text =
    \<lparr>xn_tenant = xi_tenant leader, xn_inbox = xi_id leader, xn_source = xi_source leader, xn_thread = xi_thread leader,
     xn_dedupe = xi_source leader @ '':'' @ xi_thread leader @ '':'' @ xi_message leader @ '':reply:'' @ show_nat i,
     xn_chunk = i, xn_text = Some text, xn_attachments = Some (if i = 0 then attachments else []),
     xn_parse_mode = Some ''HTML'', xn_approval = None, xn_workspace = xi_workspace leader,
     xn_conversation = xi_conversation leader, xn_channel_thread = xi_channel_thread leader\<rparr>"

text \<open>
  The filing of a reply is a sequence of transactions: a reply per chunk, then the approval for all of
  them, then the messages of the batch. The first component is false when a reply was refused.
\<close>

fun file_chunks :: "nat \<Rightarrow> inbox_row \<Rightarrow> json list \<Rightarrow> nat \<Rightarrow> string list \<Rightarrow> channel_db \<Rightarrow> bool \<times> channel_db" where
  "file_chunks now leader attachments i [] db = (True, db)"
| "file_chunks now leader attachments i (t # ts) db =
    (case enqueue_reply now (reply_input leader attachments i t) db of
       (None, db') \<Rightarrow> (False, db')
     | (Some _, db') \<Rightarrow> file_chunks now leader attachments (Suc i) ts db')"

fun complete_all :: "nat \<Rightarrow> string \<Rightarrow> string \<Rightarrow> inbox_row list \<Rightarrow> channel_db \<Rightarrow> channel_db" where
  "complete_all now owner reply [] db = db"
| "complete_all now owner reply (r # rs) db = complete_all now owner reply rs (snd (mark_completed now (xi_id r) owner reply db))"

fun fail_all :: "nat \<Rightarrow> string \<Rightarrow> string \<Rightarrow> inbox_row list \<Rightarrow> channel_db \<Rightarrow> channel_db" where
  "fail_all now owner err [] db = db"
| "fail_all now owner err (r # rs) db = fail_all now owner err rs (snd (mark_message_failed now (xi_id r) owner err db))"

definition file_reply ::
  "nat \<Rightarrow> string \<Rightarrow> inbox_row list \<Rightarrow> string \<Rightarrow> string list \<Rightarrow> json list \<Rightarrow> (send_decision option \<times> bool) option
    \<Rightarrow> send_policy option \<Rightarrow> string option \<Rightarrow> channel_db \<Rightarrow> bool \<times> channel_db" where
  "file_reply now owner rows reply chunks attachments policy over approval db =
    (let leader = hd rows; content = chunks \<noteq> [] \<or> attachments \<noteq> [] in
     if over = Some SendOff \<or> \<not> content then (True, complete_all now owner reply rows db)
     else (case egress_gate_of policy over content (approval \<noteq> None) of
       GateDenied \<Rightarrow> (True, fail_all now owner ''policy denied outbound send'' rows db)
     | GateNoApprovals \<Rightarrow> (True, fail_all now owner ''approval required but approvals are unavailable'' rows db)
     | gate \<Rightarrow>
         (case file_chunks now leader attachments 0 (if chunks = [] then [[]] else chunks) db of
            (False, db') \<Rightarrow> (False, db')
          | (True, db') \<Rightarrow>
              (let db'' = (if gate = GateApproval then snd (set_approval_for_inbox (xi_id leader) (the approval) db') else db')
               in (True, complete_all now owner reply rows db'')))))"

subsection \<open>Delivery\<close>

text \<open>\<open>sc_send\<close>: no connector, or an error, or the response of the message sent.\<close>

record send_channel =
  sc_send :: "string \<Rightarrow> string \<Rightarrow> outbox_row \<Rightarrow> (string + json) option"

record channel_world =
  cw_db :: channel_db
  cw_overrides :: "send_override list"
  cw_approvals :: approvals_db
  cw_delivered :: "outbox_row list"

definition conversation_override :: "nat \<Rightarrow> channel_world \<Rightarrow> send_policy option" where
  "conversation_override i w =
    (case inbox_by_id i (cw_db w) of
       None \<Rightarrow> None
     | Some r \<Rightarrow> if xi_key r = [] then None else get_send_override None (xi_key r) (cw_overrides w))"

text \<open>
  \<open>sendNextOutbox\<close>. The messages sent are collected; a source that does not parse is an exception after
  the claim, and leaves the reply leased.
\<close>

definition send_next :: "send_channel \<Rightarrow> string \<Rightarrow> nat \<Rightarrow> int \<Rightarrow> channel_world \<Rightarrow> (source_error + bool) \<times> channel_world" where
  "send_next chan owner now ttl w =
    (case claim_next_global owner now ttl (cw_db w) of
       (None, db) \<Rightarrow> (Inr False, w\<lparr>cw_db := db\<rparr>)
     | (Some next, db) \<Rightarrow>
         (let w1 = w\<lparr>cw_db := db\<rparr>; fail = (\<lambda>err. w1\<lparr>cw_db := snd (mark_reply_failed now (xo_id next) owner err db)\<rparr>) in
          if conversation_override (xo_inbox next) w1 = Some SendOff then (Inr True, fail ''send disabled by operator'')
          else (case parse_source_key (xo_source next) of
            Inl e \<Rightarrow> (Inl e, w1)
          | Inr (connector, account) \<Rightarrow>
              (case sc_send chan connector account next of
                 None \<Rightarrow> (Inr True, fail (''no egress connector registered for source '' @ quoted connector))
               | Some (Inl err) \<Rightarrow> (Inr True, fail err)
               | Some (Inr resp) \<Rightarrow>
                   (let w2 = w1\<lparr>cw_delivered := cw_delivered w @ [next]\<rparr> in
                    case mark_sent (xo_id next) owner db of
                      (False, db') \<Rightarrow> (Inr True, w2\<lparr>cw_db := db'\<rparr>)
                    | (True, db') \<Rightarrow> (Inr True, w2\<lparr>cw_db := sweep_completed (xo_inbox next) db'\<rparr>))))))"

definition pending_approval :: "channel_db \<Rightarrow> outbox_row option" where
  "pending_approval db =
    first_row (order_by xo_created xo_id (filter (\<lambda>w. xo_approval w \<noteq> None \<and> xo_status w = OutQueued) (cd_outbox db)))"

definition closing_reason :: "approval \<Rightarrow> approvals_db \<Rightarrow> string" where
  "closing_reason a ad =
    (let status = (case ap_status a of Denied \<Rightarrow> ''denied'' | Expired \<Rightarrow> ''expired'' | _ \<Rightarrow> ''cancelled'') in
     or_default (case latest_review ad a of None \<Rightarrow> None | Some r \<Rightarrow> rv_reason r) (''approval '' @ status))"

text \<open>\<open>processOutboxOnce\<close> of a processor that has the approval store.\<close>

definition process_outbox ::
  "send_channel \<Rightarrow> (approval \<Rightarrow> string) \<Rightarrow> string \<Rightarrow> nat \<Rightarrow> int \<Rightarrow> channel_world \<Rightarrow> (source_error + bool) \<times> channel_world" where
  "process_outbox chan fresh owner now ttl w =
    (case pending_approval (cw_db w) of
       None \<Rightarrow> send_next chan owner now ttl w
     | Some p \<Rightarrow>
         (case xo_approval p of
            None \<Rightarrow> send_next chan owner now ttl w
          | Some [] \<Rightarrow> send_next chan owner now ttl w
          | Some (c # cs) \<Rightarrow>
              (let aid = c # cs; release = (\<lambda>w. w\<lparr>cw_db := snd (clear_approval aid (cw_db w))\<rparr>);
                   close = (\<lambda>err w. w\<lparr>cw_db := snd (fail_by_approval now aid err (cw_db w))\<rparr>)
               in case conversation_override (xo_inbox p) w of
                    Some SendOn \<Rightarrow> (Inr True, release w)
                  | Some SendOff \<Rightarrow> (Inr True, close ''send disabled by operator'' w)
                  | None \<Rightarrow>
                      (let ad = snd (expire_stale_approvals fresh (xo_tenant p) now (cw_approvals w));
                           w' = w\<lparr>cw_approvals := ad\<rparr>
                       in case get_approval (xo_tenant p) aid ad of
                            None \<Rightarrow> send_next chan owner now ttl w'
                          | Some a \<Rightarrow>
                              if ap_status a = Approved then (Inr True, release w')
                              else if ap_status a \<in> set [Denied, Expired, Cancelled] then (Inr True, close (closing_reason a ad) w')
                              else send_next chan owner now ttl w'))))"

end
