(* ===== verification/Channel_Facts.thy ===== *)
theory Channel_Facts
  imports Channel_Outbox
begin

text \<open>
  What the inbound queue guarantees: its length, what becomes of the messages it drops, and that a
  message is taken in once.
\<close>

subsection \<open>Queues\<close>

definition channel_wf :: "channel_db \<Rightarrow> bool" where
  "channel_wf db \<longleftrightarrow> distinct (map xi_id (cd_inbox db)) \<and> (\<forall>r \<in> set (cd_inbox db). xi_id r < cd_next_inbox db) \<and>
    distinct (map xo_id (cd_outbox db)) \<and> (\<forall>w \<in> set (cd_outbox db). xo_id w < cd_next_outbox db)"

lemma by_age_filter: "by_age (filter P rows) = filter P (by_age rows)"
  by (simp add: by_age_def order_by_def filter_sort)

lemma set_by_age [simp]: "set (by_age rows) = set rows"
  by (simp add: by_age_def)

lemma length_by_age [simp]: "length (by_age rows) = length rows"
  by (simp add: by_age_def order_by_def)

lemma distinct_by_age: "distinct (map xi_id rows) \<Longrightarrow> distinct (map xi_id (by_age rows))"
  by (simp add: distinct_map by_age_def order_by_def)

lemma inbox_delete [simp]:
  "cd_inbox (delete_inbox P db) = filter (\<lambda>r. \<not> P r) (cd_inbox db)" "cd_dedupe (delete_inbox P db) = cd_dedupe db"
  "cd_next_inbox (delete_inbox P db) = cd_next_inbox db" "cd_next_outbox (delete_inbox P db) = cd_next_outbox db"
  "set (cd_outbox (delete_inbox P db)) \<subseteq> set (cd_outbox db)"
  by (auto simp: delete_inbox_def)

lemma drop_queued_inbox:
  "cd_inbox (snd (drop_queued ids db)) = filter (\<lambda>r. \<not> (xi_status r = InQueued \<and> xi_id r \<in> set ids)) (cd_inbox db)"
  by (induction ids arbitrary: db) (auto simp: queued_id_def Let_def case_prod_beta intro!: filter_cong)

lemma drop_queued_dedupe [simp]: "cd_dedupe (snd (drop_queued ids db)) = cd_dedupe db"
  by (induction ids arbitrary: db) (simp_all add: Let_def case_prod_beta)

lemma drop_queued_next [simp]:
  "cd_next_inbox (snd (drop_queued ids db)) = cd_next_inbox db" "cd_next_outbox (snd (drop_queued ids db)) = cd_next_outbox db"
  by (induction ids arbitrary: db) (simp_all add: Let_def case_prod_beta)

lemma drop_queued_ids:
  "distinct (map xi_id (cd_inbox db)) \<Longrightarrow> distinct ids \<Longrightarrow> (\<And>i. i \<in> set ids \<Longrightarrow> \<exists>r \<in> set (cd_inbox db). queued_id i r) \<Longrightarrow>
    fst (drop_queued ids db) = ids"
proof (induction ids arbitrary: db)
  case (Cons i ids)
  obtain r where r: "r \<in> set (cd_inbox db)" "queued_id i r" using Cons.prems(3) by fastforce
  have le: "length (filter (queued_id i) (cd_inbox db)) \<le> 1"
    using Cons.prems(1) by (rule at_most_one) (simp add: queued_id_def)
  moreover have "r \<in> set (filter (queued_id i) (cd_inbox db))" using r by simp
  then have "0 < length (filter (queued_id i) (cd_inbox db))" by (rule length_pos_if_in_set)
  ultimately have one: "length (filter (queued_id i) (cd_inbox db)) = 1" by linarith
  have "fst (drop_queued ids (delete_inbox (queued_id i) db)) = ids"
  proof (rule Cons.IH)
    show "distinct (map xi_id (cd_inbox (delete_inbox (queued_id i) db)))" using Cons.prems(1) by (simp add: distinct_map_filter)
    show "distinct ids" using Cons.prems(2) by simp
    fix j assume j: "j \<in> set ids"
    then obtain x where "x \<in> set (cd_inbox db)" "queued_id j x" using Cons.prems(3) by fastforce
    moreover have "i \<noteq> j" using j Cons.prems(2) by auto
    ultimately show "\<exists>x \<in> set (cd_inbox (delete_inbox (queued_id i) db)). queued_id j x" by (auto simp: queued_id_def)
  qed
  with one show ?case by (simp add: Let_def case_prod_beta)
qed simp

text \<open>Dropping some rows of a queue: what is left and what is reported.\<close>

lemma drop_rows:
  assumes "distinct (map xi_id (cd_inbox db))" "set rows \<subseteq> set (filter (queued_for t k) (cd_inbox db))" "distinct (map xi_id rows)"
  shows "fst (drop_queued (map xi_id rows) db) = map xi_id rows"
    and "cd_inbox (snd (drop_queued (map xi_id rows) db)) = filter (\<lambda>r. r \<notin> set rows) (cd_inbox db)"
    and "count_queued t k (snd (drop_queued (map xi_id rows) db)) + length rows = count_queued t k db"
proof -
  have eq: "xi_status r = InQueued \<and> xi_id r \<in> xi_id ` set rows \<longleftrightarrow> r \<in> set rows" if "r \<in> set (cd_inbox db)" for r
  proof
    assume "xi_status r = InQueued \<and> xi_id r \<in> xi_id ` set rows"
    then obtain q where q: "q \<in> set rows" "xi_id q = xi_id r" by auto
    with assms(2) have "q \<in> set (cd_inbox db)" by auto
    from distinct_keys_eq [OF assms(1) this that q(2)] q(1) show "r \<in> set rows" by simp
  next
    assume "r \<in> set rows"
    with assms(2) show "xi_status r = InQueued \<and> xi_id r \<in> xi_id ` set rows" by (auto simp: queued_for_def)
  qed
  show ids: "fst (drop_queued (map xi_id rows) db) = map xi_id rows"
    using assms by (intro drop_queued_ids) (auto simp: queued_for_def queued_id_def)
  show inbox: "cd_inbox (snd (drop_queued (map xi_id rows) db)) = filter (\<lambda>r. r \<notin> set rows) (cd_inbox db)"
    unfolding drop_queued_inbox using eq by (intro filter_cong) auto
  have d: "distinct (filter (queued_for t k) (cd_inbox db))" using assms(1) by (simp add: distinct_map)
  have dr: "distinct rows" using assms(3) by (simp add: distinct_map)
  have "set (filter (queued_for t k) (filter (\<lambda>r. r \<notin> set rows) (cd_inbox db))) = set (filter (queued_for t k) (cd_inbox db)) - set rows"
    by auto
  moreover have "distinct (filter (queued_for t k) (filter (\<lambda>r. r \<notin> set rows) (cd_inbox db)))" using assms(1) by (simp add: distinct_map)
  ultimately have "length (filter (queued_for t k) (filter (\<lambda>r. r \<notin> set rows) (cd_inbox db))) =
      length (filter (queued_for t k) (cd_inbox db)) - length rows"
    using assms(2) by (metis d dr distinct_card card_Diff_subset List.finite_set)
  moreover have "length rows \<le> length (filter (queued_for t k) (cd_inbox db))"
    using assms(2) d dr by (metis distinct_card card_mono List.finite_set)
  ultimately show "count_queued t k (snd (drop_queued (map xi_id rows) db)) + length rows = count_queued t k db"
    unfolding count_queued_def inbox by simp
qed

lemma overflow_round_drops:
  fixes s :: overflow_state and inp :: overflow_input
  defines "t \<equiv> ov_tenant inp" and "k \<equiv> ov_key inp" and "n \<equiv> count_queued (ov_tenant inp) (ov_key inp) (os_db s)"
  assumes d: "distinct (map xi_id (cd_inbox (os_db s)))" and cap: "0 < ov_cap inp" "ov_cap inp < n" and sm: "os_summary s = None"
  obtains s' where "overflow_round env now uuid inp s = Some s'" "count_queued t k (os_db s') = ov_cap inp"
    "\<And>r. r \<in> set (cd_inbox (os_db s)) \<Longrightarrow> r \<in> set (cd_inbox (os_db s')) \<or> queued_for t k r \<and> dropped_of r \<in> set (os_dropped s')"
proof -
  let ?db = "os_db s"
  let ?q = "by_age (filter (queued_for t k) (cd_inbox ?db))"
  define rows where "rows = (case ov_policy inp of DropOldest \<Rightarrow> take (n - ov_cap inp) ?q | DropNewest \<Rightarrow> take (n - ov_cap inp) (rev ?q)
    | SummarizeDropped \<Rightarrow> take (n - ov_cap inp + 1) ?q)"
  have len: "length ?q = n" by (simp add: n_def t_def k_def count_queued_def)
  have sub: "set rows \<subseteq> set (filter (queued_for t k) (cd_inbox ?db))"
    unfolding rows_def by (cases "ov_policy inp") (auto dest: in_set_takeD)
  have dq: "distinct (map xi_id ?q)" using d by (intro distinct_by_age) (simp add: distinct_map_filter)
  then have dr: "distinct (map xi_id rows)"
    unfolding rows_def by (cases "ov_policy inp") (simp_all add: take_map [symmetric] rev_map [symmetric] distinct_take)
  have lr: "length rows = (if ov_policy inp = SummarizeDropped then n - ov_cap inp + 1 else n - ov_cap inp)"
    using len cap unfolding rows_def by (cases "ov_policy inp") simp_all
  with cap have ne: "rows \<noteq> []" by (auto split: if_splits)
  note dropped = drop_rows [OF d sub dr]
  let ?db' = "snd (drop_queued (map xi_id rows) ?db)"
  have gone: "filter (\<lambda>r. xi_id r \<in> set (fst (drop_queued (map xi_id rows) ?db))) rows = rows"
    unfolding dropped(1) by (simp add: filter_id_conv)
  have all: "r \<in> set (cd_inbox ?db') \<or> queued_for t k r \<and> dropped_of r \<in> dropped_of ` set rows" if "r \<in> set (cd_inbox ?db)" for r
    using that sub unfolding dropped(2) by auto
  show ?thesis
  proof (cases "ov_policy inp = SummarizeDropped")
    case True
    let ?db2 = "snd (insert_summary env now uuid inp rows ?db')"
    have r: "overflow_round env now uuid inp s = Some (s\<lparr>os_dropped := os_dropped s @ map dropped_of rows,
        os_summary := Some (fst (insert_summary env now uuid inp rows ?db')), os_db := ?db2\<rparr>)"
      using True sm ne gone unfolding overflow_round_def rows_def n_def t_def k_def by (simp add: Let_def case_prod_beta)
    have "count_queued t k ?db2 = Suc (count_queued t k ?db')"
      by (simp add: insert_summary_def insert_inbox_def new_inbox_row_def count_queued_def queued_for_def t_def k_def Let_def)
    moreover have "count_queued t k ?db' + length rows = n" using dropped(3) by (simp add: n_def t_def k_def)
    ultimately have "count_queued t k ?db2 = ov_cap inp" using lr True cap by simp
    moreover have "set (cd_inbox ?db') \<subseteq> set (cd_inbox ?db2)" by (auto simp: insert_summary_def insert_inbox_def Let_def)
    ultimately show ?thesis using that [OF r] all by fastforce
  next
    case False
    have r: "overflow_round env now uuid inp s = Some (s\<lparr>os_dropped := os_dropped s @ map dropped_of rows, os_db := ?db'\<rparr>)"
      using False ne gone unfolding overflow_round_def rows_def n_def t_def k_def by (simp add: Let_def case_prod_beta)
    have "count_queued t k ?db' + length rows = n" using dropped(3) by (simp add: n_def t_def k_def)
    then have "count_queued t k ?db' = ov_cap inp" using lr False cap by simp
    then show ?thesis using that [OF r] all by fastforce
  qed
qed

lemma apply_overflow_caps:
  assumes "distinct (map xi_id (cd_inbox db))" "0 < ov_cap inp" "apply_overflow env now uuid inp db = (ov, db')"
  shows "count_queued (ov_tenant inp) (ov_key inp) db' \<le> ov_cap inp \<and>
    (\<forall>r \<in> set (cd_inbox db). r \<in> set (cd_inbox db') \<or>
      queued_for (ov_tenant inp) (ov_key inp) r \<and> (\<exists>x. ov = Some x \<and> dropped_of r \<in> set (or_dropped x)))"
proof (cases "count_queued (ov_tenant inp) (ov_key inp) db \<le> ov_cap inp")
  case True
  with assms(3) show ?thesis by (simp add: apply_overflow_def Let_def)
next
  case False
  let ?s = "\<lparr>os_dropped = [], os_summary = None, os_db = db\<rparr>"
  obtain s' where s': "overflow_round env now uuid inp ?s = Some s'"
    "count_queued (ov_tenant inp) (ov_key inp) (os_db s') = ov_cap inp"
    "\<And>r. r \<in> set (cd_inbox db) \<Longrightarrow> r \<in> set (cd_inbox (os_db s')) \<or> queued_for (ov_tenant inp) (ov_key inp) r \<and> dropped_of r \<in> set (os_dropped s')"
    by (rule overflow_round_drops [of ?s inp env now uuid]) (use assms(1,2) False in auto)
  have still: "overflow_rounds m env now uuid inp s' = s'" for m using s'(2) by (cases m) simp_all
  have "overflow_rounds (Suc m) env now uuid inp ?s = s'" for m using False s'(1) by (simp add: still)
  from this [of 4] have "overflow_rounds 5 env now uuid inp ?s = s'" by simp
  with assms(3) False obtain y where y: "db' = os_db s'" "ov = Some y" "or_dropped y = os_dropped s'" by (auto simp: apply_overflow_def Let_def)
  show ?thesis using s'(2,3) by (simp add: y)
qed

subsection \<open>Keeping the tables\<close>

lemma channel_wfD:
  "channel_wf db \<Longrightarrow> distinct (map xi_id (cd_inbox db))" "channel_wf db \<Longrightarrow> r \<in> set (cd_inbox db) \<Longrightarrow> xi_id r < cd_next_inbox db"
  "channel_wf db \<Longrightarrow> distinct (map xo_id (cd_outbox db))" "channel_wf db \<Longrightarrow> w \<in> set (cd_outbox db) \<Longrightarrow> xo_id w < cd_next_outbox db"
  by (auto simp: channel_wf_def)

lemma set_dedupe_simps [simp]:
  "cd_inbox (set_dedupe_inbox e i db) = cd_inbox db" "cd_outbox (set_dedupe_inbox e i db) = cd_outbox db"
  "cd_next_inbox (set_dedupe_inbox e i db) = cd_next_inbox db" "cd_next_outbox (set_dedupe_inbox e i db) = cd_next_outbox db"
  by (simp_all add: set_dedupe_inbox_def)

lemma acquire_simps [simp]:
  "cd_inbox (snd (try_dedupe_acquire e db)) = cd_inbox db" "cd_outbox (snd (try_dedupe_acquire e db)) = cd_outbox db"
  "cd_next_inbox (snd (try_dedupe_acquire e db)) = cd_next_inbox db" "cd_next_outbox (snd (try_dedupe_acquire e db)) = cd_next_outbox db"
  by (simp_all add: try_dedupe_acquire_def Let_def split: option.split)

lemma wf_delete: "channel_wf db \<Longrightarrow> channel_wf (delete_inbox P db)"
  by (auto simp: channel_wf_def delete_inbox_def distinct_map_filter)

lemma wf_drop: "channel_wf db \<Longrightarrow> channel_wf (snd (drop_queued ids db))"
  by (induction ids arbitrary: db) (simp_all add: Let_def case_prod_beta wf_delete)

lemma wf_insert_inbox: "channel_wf db \<Longrightarrow> xi_id r = cd_next_inbox db \<Longrightarrow> channel_wf (insert_inbox r db)"
  by (force simp: channel_wf_def insert_inbox_def)

lemma wf_dedupe [simp]: "channel_wf (set_dedupe_inbox e i db) = channel_wf db" "channel_wf (snd (try_dedupe_acquire e db)) = channel_wf db"
  by (simp_all add: channel_wf_def)

lemma wf_inbox_update: "channel_wf db \<Longrightarrow> (\<And>r. xi_id (f r) = xi_id r) \<Longrightarrow> channel_wf (db\<lparr>cd_inbox := update_where P f (cd_inbox db)\<rparr>)"
  by (auto simp: channel_wf_def map_update_where set_update_where)

lemma wf_outbox_update: "channel_wf db \<Longrightarrow> (\<And>w. xo_id (f w) = xo_id w) \<Longrightarrow> channel_wf (db\<lparr>cd_outbox := update_where P f (cd_outbox db)\<rparr>)"
  by (auto simp: channel_wf_def map_update_where set_update_where)

text \<open>What happens to the outbox when messages are filed or dropped: some rows go, none is changed.\<close>

definition thins :: "channel_db \<Rightarrow> channel_db \<Rightarrow> bool" where
  "thins db db' \<longleftrightarrow> channel_wf db' \<and> set (cd_outbox db') \<subseteq> set (cd_outbox db) \<and> cd_next_outbox db' = cd_next_outbox db"

lemma thins_refl: "channel_wf db \<Longrightarrow> thins db db"
  by (simp add: thins_def)

lemma thins_trans: "thins a b \<Longrightarrow> thins b c \<Longrightarrow> thins a c"
  by (auto simp: thins_def)

lemma thins_delete: "channel_wf db \<Longrightarrow> thins db (delete_inbox P db)"
  using inbox_delete(5) [of P db] by (simp add: thins_def wf_delete)

lemma thins_drop: "channel_wf db \<Longrightarrow> thins db (snd (drop_queued ids db))"
proof (induction ids arbitrary: db)
  case (Cons i ids)
  from thins_trans [OF thins_delete Cons.IH [OF wf_delete]] Cons.prems show ?case by (simp add: Let_def case_prod_beta)
qed (simp add: thins_refl)

lemma thins_insert: "channel_wf db \<Longrightarrow> xi_id r = cd_next_inbox db \<Longrightarrow> thins db (insert_inbox r db)"
  by (simp add: thins_def wf_insert_inbox) (simp add: insert_inbox_def)

lemma thins_summary: "channel_wf db \<Longrightarrow> thins db (snd (insert_summary env now uuid inp rows db))"
  unfolding insert_summary_def Let_def snd_conv by (rule thins_insert) (simp_all add: new_inbox_row_def)

lemma thins_round: "overflow_round env now uuid inp s = Some s' \<Longrightarrow> channel_wf (os_db s) \<Longrightarrow> thins (os_db s) (os_db s')"
proof -
  assume wf: "channel_wf (os_db s)" and r: "overflow_round env now uuid inp s = Some s'"
  have "thins (os_db s) (snd (drop_queued ids (os_db s)))" for ids using wf by (rule thins_drop)
  moreover from this have "thins (os_db s) (snd (insert_summary env now uuid inp rows (snd (drop_queued ids (os_db s)))))" for ids rows
    by (rule thins_trans) (rule thins_summary, simp add: wf_drop wf)
  ultimately show ?thesis using r
    by (auto simp: overflow_round_def Let_def case_prod_beta split: if_splits)
qed

lemma thins_rounds: "channel_wf (os_db s) \<Longrightarrow> thins (os_db s) (os_db (overflow_rounds n env now uuid inp s))"
proof (induction n arbitrary: s)
  case (Suc n)
  show ?case
  proof (cases "overflow_round env now uuid inp s")
    case (Some s')
    have t: "thins (os_db s) (os_db s')" using Some Suc.prems by (rule thins_round)
    then have "channel_wf (os_db s')" by (simp add: thins_def)
    from thins_trans [OF t Suc.IH [OF this]] Some Suc.prems show ?thesis by (simp add: thins_refl)
  qed (simp add: thins_refl Suc.prems)
qed (simp add: thins_refl)

lemma thins_overflow: "channel_wf db \<Longrightarrow> thins db (snd (apply_overflow env now uuid inp db))"
  using thins_rounds [of "\<lparr>os_dropped = [], os_summary = None, os_db = db\<rparr>"] by (simp add: apply_overflow_def Let_def thins_refl)

lemma thins_insert_row: "channel_wf db \<Longrightarrow> thins db (snd (insert_inbox_row e db))"
proof -
  assume wf: "channel_wf db"
  have "thins db (insert_inbox (new_inbox_row (cd_next_inbox db) t so th m k mo rec p ws cv ct) db)" for t so th m k mo rec p ws cv ct
    using wf by (rule thins_insert) (simp add: new_inbox_row_def)
  moreover have "thins a (set_dedupe_inbox e i b) = thins a b" for a b i by (simp add: thins_def)
  ultimately show ?thesis using wf by (simp add: insert_inbox_row_def Let_def thins_refl split: option.split)
qed

lemma thins_enqueue: "channel_wf db \<Longrightarrow> thins db (snd (execute_enqueue env now uuid e db))"
proof -
  assume wf: "channel_wf db"
  let ?a = "snd (try_dedupe_acquire e db)"
  have a: "thins db ?a" using wf by (simp add: thins_def)
  have b: "thins db (snd (insert_inbox_row e ?a))" by (rule thins_trans [OF a thins_insert_row]) (simp add: wf)
  then have "channel_wf (snd (insert_inbox_row e ?a))" by (simp add: thins_def)
  from thins_trans [OF b thins_overflow [OF this]] a b show ?thesis
    by (auto simp: execute_enqueue_def Let_def case_prod_beta split: option.splits)
qed

text \<open>
  C31. After a message has been taken in, at most \<open>cap\<close> messages wait in its conversation, whatever the
  overflow policy, and every message there was before is either untouched or a waiting message of this
  conversation that the result reports as dropped.
\<close>

theorem queue_stays_capped:
  assumes "channel_wf db" "execute_enqueue env now uuid e db = (res, db')" "\<not> er_deduped res" "0 < eq_cap e"
  shows "count_queued (eq_tenant e) (eq_key e) db' \<le> eq_cap e \<and>
    (\<forall>r \<in> set (cd_inbox db). r \<in> set (cd_inbox db') \<or>
      queued_for (eq_tenant e) (eq_key e) r \<and> (\<exists>ov. er_overflow res = Some ov \<and> dropped_of r \<in> set (or_dropped ov)))"
proof -
  let ?a = "snd (try_dedupe_acquire e db)"
  obtain i r db2 where ins: "insert_inbox_row e ?a = ((i, r), db2)" by (metis prod.collapse)
  obtain ov db3 where ap: "apply_overflow env now uuid (overflow_of e) db2 = (ov, db3)" by fastforce
  have "thins ?a db2" using thins_insert_row [of ?a e] assms(1) ins by simp
  then have wf: "channel_wf db2" by (simp add: thins_def)
  have "r' \<in> set (cd_inbox db2)" if "r' \<in> set (cd_inbox db)" for r'
    using that ins by (auto simp: insert_inbox_row_def insert_inbox_def Let_def split: option.splits)
  moreover have "db' = db3 \<and> er_overflow res = ov"
    using assms(2-4) ins ap by (auto simp: execute_enqueue_def case_prod_beta split: option.splits if_splits)
  moreover have "count_queued (eq_tenant e) (eq_key e) db3 \<le> eq_cap e \<and>
      (\<forall>r \<in> set (cd_inbox db2). r \<in> set (cd_inbox db3) \<or>
        queued_for (eq_tenant e) (eq_key e) r \<and> (\<exists>x. ov = Some x \<and> dropped_of r \<in> set (or_dropped x)))"
    using apply_overflow_caps [OF channel_wfD(1) [OF wf] _ ap] assms(4) by (simp add: overflow_of_def)
  ultimately show ?thesis by blast
qed

subsection \<open>Histories\<close>

text \<open>
  What processors and the intake do to the tables. A filed message was received before \<open>x\<close>; only
  approvals in \<open>may\<close> are cleared.
\<close>

inductive channel_step :: "string set \<Rightarrow> nat \<Rightarrow> channel_db \<Rightarrow> channel_db \<Rightarrow> bool" for may x where
  cs_enqueue: "eq_received e < x \<Longrightarrow> channel_step may x db (snd (execute_enqueue env now uuid e db))"
| cs_claim: "channel_step may x db (snd (claim_next_message owner now ttl db))"
| cs_batch: "channel_step may x db (snd (claim_batch ids owner now ttl db))"
| cs_requeue: "channel_step may x db (snd (requeue_message i owner db))"
| cs_complete: "channel_step may x db (snd (mark_completed now i owner reply db))"
| cs_fail: "channel_step may x db (snd (mark_message_failed now i owner err db))"
| cs_sweep: "channel_step may x db (sweep_completed i db)"
| cs_signal: "channel_step may x db (signal_active_run now key txt lease res db)"
| cs_clear_signal: "channel_step may x db (clear_signal tenant key db)"
| cs_claim_signal: "channel_step may x db (snd (claim_signal tenant key db))"
| cs_reply: "channel_step may x db (snd (enqueue_reply now n db))"
| cs_take_inbox: "channel_step may x db (snd (claim_next_for_inbox i owner now ttl db))"
| cs_take: "channel_step may x db (snd (claim_next_global owner now ttl db))"
| cs_approval: "channel_step may x db (snd (set_approval_for_inbox i a db))"
| cs_clear: "a \<in> may \<Longrightarrow> channel_step may x db (snd (clear_approval a db))"
| cs_close: "channel_step may x db (snd (fail_by_approval now a err db))"
| cs_sent: "channel_step may x db (snd (mark_sent i owner db))"
| cs_reply_failed: "channel_step may x db (snd (mark_reply_failed now i owner err db))"

text \<open>A key stays taken until \<open>x\<close>.\<close>

definition reserved :: "string \<times> string \<times> string \<times> string \<times> string \<Rightarrow> nat \<Rightarrow> channel_db \<Rightarrow> bool" where
  "reserved k x db \<longleftrightarrow> (\<exists>d \<in> set (cd_dedupe db). dd_key d = k \<and> x \<le> dd_expires d)"

lemma bex_update_where: "(\<And>d. Q (f d) = Q d) \<Longrightarrow> (\<exists>d \<in> set (update_where P f xs). Q d) = (\<exists>d \<in> set xs. Q d)"
  by (auto simp: update_where_def)

lemma reserved_set_dedupe [simp]: "reserved k x (set_dedupe_inbox e i db) = reserved k x db"
  by (simp add: reserved_def set_dedupe_inbox_def bex_update_where)

lemma reserved_cong: "cd_dedupe db' = cd_dedupe db \<Longrightarrow> reserved k x db' = reserved k x db"
  by (simp add: reserved_def)

lemma acquire_cases:
  obtains (taken) "fst (try_dedupe_acquire e db) = None" "\<forall>d \<in> set (cd_dedupe db). dd_key d = message_key e \<longrightarrow> dd_expires d \<le> eq_received e"
    "snd (try_dedupe_acquire e db) = db\<lparr>cd_dedupe := filter (\<lambda>d. \<not> dd_expires d \<le> eq_received e) (cd_dedupe db) @
      [\<lparr>dd_key = message_key e, dd_inbox = None, dd_expires = eq_expires e\<rparr>]\<rparr>"
  | (known) r i where "fst (try_dedupe_acquire e db) = Some r"
    "snd (try_dedupe_acquire e db) \<in>
      {db\<lparr>cd_dedupe := filter (\<lambda>d. \<not> dd_expires d \<le> eq_received e) (cd_dedupe db)\<rparr>,
       set_dedupe_inbox e i (db\<lparr>cd_dedupe := filter (\<lambda>d. \<not> dd_expires d \<le> eq_received e) (cd_dedupe db)\<rparr>)}"
proof (cases "matches (\<lambda>d. dd_key d = message_key e) (filter (\<lambda>d. \<not> dd_expires d \<le> eq_received e) (cd_dedupe db))")
  case False
  then show ?thesis by (intro taken) (auto simp: try_dedupe_acquire_def Let_def matches_iff)
next
  case True
  let ?live = "filter (\<lambda>d. \<not> dd_expires d \<le> eq_received e) (cd_dedupe db)"
  have "filter (\<lambda>d. dd_key d = message_key e \<and> dd_expires d \<le> eq_received e) ?live = []" by (auto simp: filter_empty_conv)
  note eq = try_dedupe_acquire_def [of e db] True this
  show ?thesis
  proof (cases "fst (try_dedupe_acquire e db)")
    case None
    with eq show ?thesis by (simp add: Let_def split: option.splits)
  next
    case (Some r)
    with eq have "snd (try_dedupe_acquire e db) \<in> {db\<lparr>cd_dedupe := ?live\<rparr>, set_dedupe_inbox e (xi_id r) (db\<lparr>cd_dedupe := ?live\<rparr>)}"
      by (simp add: Let_def split: option.splits)
    then show ?thesis by (rule known [OF Some])
  qed
qed

lemma reserved_acquire:
  assumes "reserved k x db" "eq_received e < x"
  shows "reserved k x (snd (try_dedupe_acquire e db))"
proof -
  have l: "reserved k x (db\<lparr>cd_dedupe := filter (\<lambda>d. \<not> dd_expires d \<le> eq_received e) (cd_dedupe db)\<rparr>)"
    using assms by (force simp: reserved_def)
  show ?thesis
  proof (cases rule: acquire_cases [of e db])
    case taken
    with l show ?thesis by (auto simp: reserved_def)
  next
    case (known r i)
    with l show ?thesis by auto
  qed
qed

lemma dedupe_simps [simp]:
  "cd_dedupe (insert_inbox r db) = cd_dedupe db" "cd_dedupe (clear_signal t k db) = cd_dedupe db"
  "cd_dedupe (set_signal t k sg db) = cd_dedupe db"
  by (simp_all add: insert_inbox_def clear_signal_def set_signal_def)

lemma dedupe_overflow [simp]: "cd_dedupe (snd (apply_overflow env now uuid inp db)) = cd_dedupe db"
proof -
  have r: "overflow_round env now uuid inp s = Some s' \<Longrightarrow> cd_dedupe (os_db s') = cd_dedupe (os_db s)" for s s'
    by (auto simp: overflow_round_def insert_summary_def Let_def case_prod_beta split: if_splits)
  have "cd_dedupe (os_db (overflow_rounds n env now uuid inp s)) = cd_dedupe (os_db s)" for n s
    by (induction n arbitrary: s) (auto simp: r split: option.split)
  then show ?thesis by (simp add: apply_overflow_def Let_def)
qed

lemma reserved_insert_row [simp]: "reserved k x (snd (insert_inbox_row e db)) = reserved k x db"
proof -
  have "reserved k x (insert_inbox r db) = reserved k x db" for r by (rule reserved_cong) simp
  then show ?thesis by (simp add: insert_inbox_row_def Let_def split: option.split)
qed

lemma reserved_overflow [simp]: "reserved k x (snd (apply_overflow env now uuid inp db)) = reserved k x db"
  by (rule reserved_cong) simp

lemma reserved_enqueue: "reserved k x db \<Longrightarrow> eq_received e < x \<Longrightarrow> reserved k x (snd (execute_enqueue env now uuid e db))"
proof -
  assume r: "reserved k x db" "eq_received e < x"
  let ?a = "snd (try_dedupe_acquire e db)"
  have a: "reserved k x ?a" using r by (rule reserved_acquire)
  then show ?thesis by (simp add: execute_enqueue_def case_prod_beta split: option.split)
qed

lemma batch_dedupe [simp]: "cd_dedupe (snd (claim_batch ids owner now ttl db)) = cd_dedupe db"
  by (induction ids arbitrary: db) (simp_all add: case_prod_beta)

lemma reserved_step:
  assumes "channel_step may x db db'" "reserved k x db"
  shows "reserved k x db'"
  using assms(1)
proof cases
  case cs_enqueue
  then show ?thesis using assms(2) reserved_enqueue by blast
qed (use assms(2) in \<open>auto simp: reserved_def claim_next_message_def requeue_message_def update_held_def mark_completed_def
    sweep_completed_def mark_message_failed_def signal_active_run_def claim_signal_def enqueue_reply_def claim_next_for_inbox_def
    claim_next_global_def take_candidate_def set_approval_for_inbox_def clear_approval_def fail_by_approval_def update_outbox_def
    mark_sent_def mark_reply_failed_def Let_def split: option.splits\<close>)

lemma reserved_steps: "(channel_step may x)\<^sup>*\<^sup>* db db' \<Longrightarrow> reserved k x db \<Longrightarrow> reserved k x db'"
  by (induction rule: rtranclp_induct) (auto intro: reserved_step)

text \<open>
  C30. A message is taken in once: once it has been filed, and until its key expires, the same message (same
  tenant, channel, account, container and message id) is recognised as a duplicate and changes no
  message, whatever else happens to the queues in between, even if its row was dropped or completed
  and deleted.
\<close>

theorem duplicate_message_ignored:
  assumes "execute_enqueue env now uuid e db = (res, db1)" "\<not> er_deduped res"
    and "(channel_step may (eq_expires e))\<^sup>*\<^sup>* db1 db2"
    and "message_key e' = message_key e" "eq_received e' < eq_expires e"
  shows "er_deduped (fst (execute_enqueue env' now' uuid' e' db2)) \<and>
    cd_inbox (snd (execute_enqueue env' now' uuid' e' db2)) = cd_inbox db2"
proof -
  let ?a = "try_dedupe_acquire e db"
  have "fst ?a = None" using assms(1,2) by (auto simp: execute_enqueue_def case_prod_beta split: option.splits)
  then have "reserved (message_key e) (eq_expires e) (snd ?a)"
    by (cases rule: acquire_cases [of e db]) (simp_all add: reserved_def)
  then have "reserved (message_key e) (eq_expires e) (snd (execute_enqueue env now uuid e db))"
    using \<open>fst ?a = None\<close> by (simp add: execute_enqueue_def case_prod_beta)
  then have "reserved (message_key e) (eq_expires e) db1" using assms(1) by simp
  with assms(3) have "reserved (message_key e) (eq_expires e) db2" by (rule reserved_steps)
  then obtain d where d: "d \<in> set (cd_dedupe db2)" "dd_key d = message_key e'" "eq_received e' < dd_expires d"
    using assms(4,5) by (force simp: reserved_def)
  obtain r where "fst (try_dedupe_acquire e' db2) = Some r"
  proof (cases rule: acquire_cases [of e' db2])
    case taken
    with d show thesis by auto
  qed
  then show ?thesis by (simp add: execute_enqueue_def case_prod_beta)
qed

text \<open>
  A message whose row is still there but whose key has expired (as at the very end of the window) is not
  filed again, yet reported as new: the test for this case compares an id with itself.
\<close>

theorem window_duplicate_reported_new:
  assumes "channel_wf db" "r \<in> set (cd_inbox db)" "same_message (eq_tenant e) (eq_source e) (eq_container e) (eq_message e) r"
    and "eq_received e \<le> xi_received r + eq_ttl e" "\<forall>d \<in> set (cd_dedupe db). dd_key d = message_key e \<longrightarrow> dd_expires d \<le> eq_received e"
    and "count_queued (eq_tenant e) (eq_key e) db \<le> eq_cap e"
    and "execute_enqueue env now uuid e db = (res, db')"
  shows "\<not> er_deduped res \<and> er_row res \<in> set (cd_inbox db) \<and> cd_inbox db' = cd_inbox db"
proof -
  obtain a where a: "try_dedupe_acquire e db = (None, a)" "cd_inbox a = cd_inbox db"
  proof (cases rule: acquire_cases [of e db])
    case taken
    then show ?thesis using that [of "snd (try_dedupe_acquire e db)"] by (metis acquire_simps(1) prod.collapse)
  next
    case (known q i)
    then have "fst (try_dedupe_acquire e db) \<noteq> None" by simp
    moreover have "\<not> matches (\<lambda>d. dd_key d = message_key e) (filter (\<lambda>d. \<not> dd_expires d \<le> eq_received e) (cd_dedupe db))"
      using assms(5) by (auto simp: matches_iff)
    ultimately show ?thesis by (simp add: try_dedupe_acquire_def Let_def)
  qed
  let ?same = "\<lambda>r. same_message (eq_tenant e) (eq_source e) (eq_container e) (eq_message e) r \<and> eq_received e \<le> xi_received r + eq_ttl e"
  obtain q where q: "last_row (by_age (filter ?same (cd_inbox a))) = Some q"
  proof (cases "last_row (by_age (filter ?same (cd_inbox a)))")
    case None
    then have "filter ?same (cd_inbox db) = []" using a(2) by (simp add: last_row_def by_age_def)
    with assms(2-4) show ?thesis by (auto simp: filter_empty_conv)
  qed (use that in blast)
  then have qin: "q \<in> set (cd_inbox db)" using a(2) by (auto simp: last_row_def dest: first_row_in)
  have ins: "insert_inbox_row e a = ((xi_id q, q), set_dedupe_inbox e (xi_id q) a)" by (simp add: insert_inbox_row_def q)
  have c: "count_queued (eq_tenant e) (eq_key e) (set_dedupe_inbox e (xi_id q) a) \<le> eq_cap e"
    using assms(6) a(2) by (simp add: count_queued_def)
  have "find (\<lambda>x. xi_id x = xi_id q) (cd_inbox db) = Some q"
    using qin distinct_keys_eq [OF channel_wfD(1) [OF assms(1)]] by (intro find_only) auto
  with assms(7) a ins c qin show ?thesis
    by (auto simp: execute_enqueue_def apply_overflow_def overflow_of_def inbox_by_id_def Let_def split: if_splits)
qed

subsection \<open>An instance\<close>

definition demo_channel_env :: channel_env where
  "demo_channel_env = \<lparr>ce_parse = (\<lambda>v. None), ce_print = (\<lambda>m. JNull)\<rparr>"

definition demo_row :: "nat \<Rightarrow> inbox_row" where
  "demo_row i = new_inbox_row i ''t1'' ''telegram:default'' ''7'' (show_nat i) ''agent:k'' ''collect'' i (JObj []) ''ws'' ''cv'' ''ct''"

definition demo_channel_db :: channel_db where
  "demo_channel_db = \<lparr>cd_inbox = [demo_row 1, demo_row 2], cd_dedupe = [], cd_outbox = [], cd_signals = [], cd_next_inbox = 3,
     cd_next_outbox = 1\<rparr>"

definition demo_enqueue :: "nat \<Rightarrow> string \<Rightarrow> enqueue_input" where
  "demo_enqueue now m = \<lparr>eq_tenant = ''t1'', eq_workspace = ''ws'', eq_conversation = ''cv'', eq_channel_thread = ''ct'',
     eq_channel = ''telegram'', eq_account = ''default'', eq_source = ''telegram:default'', eq_container = ''7'', eq_message = m,
     eq_key = ''agent:k'', eq_mode = ''collect'', eq_received = now, eq_payload = JObj [], eq_ttl = 10, eq_expires = now + 10,
     eq_cap = 2, eq_policy = SummarizeDropped\<rparr>"

lemma demo_channel_wf: "channel_wf demo_channel_db"
  by (simp add: demo_channel_db_def channel_wf_def demo_row_def new_inbox_row_def)

theorem queue_stays_capped_witness:
  "count_queued ''t1'' ''agent:k'' demo_channel_db = 2 \<and>
   \<not> er_deduped (fst (execute_enqueue demo_channel_env 5 ''u'' (demo_enqueue 5 ''n'') demo_channel_db)) \<and>
   count_queued ''t1'' ''agent:k'' (snd (execute_enqueue demo_channel_env 5 ''u'' (demo_enqueue 5 ''n'') demo_channel_db)) \<le> 2"
proof -
  let ?x = "execute_enqueue demo_channel_env 5 ''u'' (demo_enqueue 5 ''n'') demo_channel_db"
  have d: "\<not> er_deduped (fst ?x)" "count_queued ''t1'' ''agent:k'' demo_channel_db = 2" by code_simp+
  have s: "eq_tenant (demo_enqueue 5 ''n'') = ''t1''" "eq_key (demo_enqueue 5 ''n'') = ''agent:k''" "eq_cap (demo_enqueue 5 ''n'') = 2"
    by (simp_all add: demo_enqueue_def)
  have "?x = (fst ?x, snd ?x)" by simp
  from queue_stays_capped [OF demo_channel_wf this d(1)] d s show ?thesis by simp
qed

theorem duplicate_message_ignored_witness:
  "er_deduped (fst (execute_enqueue demo_channel_env 9 ''v'' (demo_enqueue 9 ''n'')
     (snd (claim_next_message ''w1'' 6 60 (snd (execute_enqueue demo_channel_env 5 ''u'' (demo_enqueue 5 ''n'') demo_channel_db))))))"
proof -
  let ?x = "execute_enqueue demo_channel_env 5 ''u'' (demo_enqueue 5 ''n'') demo_channel_db"
  have d: "\<not> er_deduped (fst ?x)" by code_simp
  have x: "?x = (fst ?x, snd ?x)" by simp
  have st: "(channel_step {} (eq_expires (demo_enqueue 5 ''n'')))\<^sup>*\<^sup>* (snd ?x) (snd (claim_next_message ''w1'' 6 60 (snd ?x)))"
    by (rule r_into_rtranclp) (rule cs_claim)
  show ?thesis
    by (rule conjunct1 [OF duplicate_message_ignored [OF x d st]]) (simp_all add: demo_enqueue_def message_key_def)
qed

theorem window_duplicate_reported_new_witness:
  "er_deduped (fst (execute_enqueue demo_channel_env 11 ''u'' (demo_enqueue 11 ''1'') demo_channel_db)) = False \<and>
   cd_inbox (snd (execute_enqueue demo_channel_env 11 ''u'' (demo_enqueue 11 ''1'') demo_channel_db)) = cd_inbox demo_channel_db"
proof -
  let ?e = "demo_enqueue 11 ''1''"
  have m: "demo_row 1 \<in> set (cd_inbox demo_channel_db)" "same_message (eq_tenant ?e) (eq_source ?e) (eq_container ?e) (eq_message ?e) (demo_row 1)"
    "eq_received ?e \<le> xi_received (demo_row 1) + eq_ttl ?e" "\<forall>d \<in> set (cd_dedupe demo_channel_db). dd_key d = message_key ?e \<longrightarrow> dd_expires d \<le> eq_received ?e"
    "count_queued (eq_tenant ?e) (eq_key ?e) demo_channel_db \<le> eq_cap ?e"
    by code_simp+
  let ?x = "execute_enqueue demo_channel_env 11 ''u'' ?e demo_channel_db"
  have "?x = (fst ?x, snd ?x)" by simp
  from window_duplicate_reported_new [OF demo_channel_wf m this] show ?thesis by simp
qed

end
