(* ===== verification/Channel_Replies.thy ===== *)
theory Channel_Replies
  imports Channel_Facts
begin

text \<open>
  What holds a reply back until its approval is given, and where that fails: a reply can be sent in the
  moment between its filing and the setting of its approval.
\<close>

subsection \<open>Replies waiting for an approval\<close>

definition keeps :: "string set \<Rightarrow> outbox_row \<Rightarrow> outbox_row \<Rightarrow> bool" where
  "keeps may w w' \<longleftrightarrow> xo_id w' = xo_id w \<and>
    (\<forall>a. a \<notin> may \<longrightarrow> xo_approval w = Some a \<longrightarrow> xo_status w \<in> {OutQueued, OutFailed} \<longrightarrow>
      xo_approval w' = Some a \<and> xo_status w' \<in> {OutQueued, OutFailed})"

definition follows :: "string set \<Rightarrow> channel_db \<Rightarrow> channel_db \<Rightarrow> bool" where
  "follows may db db' \<longleftrightarrow> channel_wf db' \<and> cd_next_outbox db \<le> cd_next_outbox db' \<and>
    (\<forall>w' \<in> set (cd_outbox db'). cd_next_outbox db \<le> xo_id w' \<or> (\<exists>w \<in> set (cd_outbox db). keeps may w w'))"

lemma keeps_refl [simp]: "keeps may w w"
  by (simp add: keeps_def)

lemma keeps_trans: "keeps may a b \<Longrightarrow> keeps may b c \<Longrightarrow> keeps may a c"
  by (auto simp: keeps_def)

lemma follows_trans:
  assumes "follows may a b" "follows may b c"
  shows "follows may a c"
  unfolding follows_def
proof (intro conjI ballI)
  show "channel_wf c" "cd_next_outbox a \<le> cd_next_outbox c" using assms by (auto simp: follows_def)
  fix w assume "w \<in> set (cd_outbox c)"
  with assms(2) consider "cd_next_outbox b \<le> xo_id w" | v where "v \<in> set (cd_outbox b)" "keeps may v w" by (auto simp: follows_def)
  then show "cd_next_outbox a \<le> xo_id w \<or> (\<exists>u \<in> set (cd_outbox a). keeps may u w)"
  proof cases
    case 1
    with assms(1) show ?thesis by (auto simp: follows_def)
  next
    case 2
    with assms(1) consider "cd_next_outbox a \<le> xo_id v" | u where "u \<in> set (cd_outbox a)" "keeps may u v" by (auto simp: follows_def)
    then show ?thesis
    proof cases
      case 1
      with 2(2) show ?thesis by (simp add: keeps_def)
    next
      case (2 u)
      with \<open>keeps may v w\<close> keeps_trans show ?thesis by blast
    qed
  qed
qed

lemma follows_thins: "thins db db' \<Longrightarrow> follows may db db'"
  by (auto simp: thins_def follows_def intro: keeps_refl)

lemma follows_refl: "channel_wf db \<Longrightarrow> follows may db db"
  by (rule follows_thins) (rule thins_refl)

lemma follows_update:
  assumes "channel_wf db" "\<And>w. xo_id (f w) = xo_id w" "\<And>w. P w \<Longrightarrow> keeps may w (f w)"
  shows "follows may db (db\<lparr>cd_outbox := update_where P f (cd_outbox db)\<rparr>)"
proof -
  have "\<exists>w \<in> set (cd_outbox db). keeps may w w'" if "w' \<in> set (update_where P f (cd_outbox db))" for w'
  proof -
    from that obtain w where "w \<in> set (cd_outbox db)" "w' = (if P w then f w else w)" by (auto simp: update_where_def)
    moreover from this assms(3) have "keeps may w w'" by simp
    ultimately show ?thesis by blast
  qed
  then show ?thesis using wf_outbox_update [OF assms(1,2)] by (simp add: follows_def)
qed

lemma follows_take: "channel_wf db \<Longrightarrow> follows may db (snd (take_candidate owner now ttl c db))"
proof (cases c)
  case (Some w)
  assume "channel_wf db"
  then have "follows may db (db\<lparr>cd_outbox := update_where (\<lambda>v. xo_id v = xo_id w \<and> outbox_claimable now v)
      (outbox_taken owner now ttl) (cd_outbox db)\<rparr>)"
    by (rule follows_update) (auto simp: outbox_taken_def keeps_def outbox_claimable_def)
  then show ?thesis by (simp add: take_candidate_def Some Let_def)
qed (simp add: take_candidate_def follows_refl)

lemma thins_inbox_update: "channel_wf db \<Longrightarrow> (\<And>r. xi_id (f r) = xi_id r) \<Longrightarrow> thins db (db\<lparr>cd_inbox := update_where P f (cd_inbox db)\<rparr>)"
  by (simp add: thins_def wf_inbox_update)

lemma thins_held: "channel_wf db \<Longrightarrow> (\<And>r. xi_id (f r) = xi_id r) \<Longrightarrow> thins db (snd (update_held i owner f db))"
  by (simp add: update_held_def thins_inbox_update)

lemma thins_sweep: "channel_wf db \<Longrightarrow> thins db (sweep_completed i db)"
  unfolding sweep_completed_def by (rule thins_delete)

lemma thins_signals: "channel_wf db \<Longrightarrow> thins db (set_signal t k sg db)" "channel_wf db \<Longrightarrow> thins db (clear_signal t k db)"
  by (simp_all add: thins_def set_signal_def clear_signal_def channel_wf_def)

lemma thins_batch: "channel_wf db \<Longrightarrow> thins db (snd (claim_batch ids owner now ttl db))"
proof (induction ids arbitrary: db)
  case (Cons i ids)
  let ?db = "db\<lparr>cd_inbox := update_where (queued_id i) (inbox_taken owner now ttl) (cd_inbox db)\<rparr>"
  have t: "thins db ?db" using Cons.prems by (rule thins_inbox_update) (simp add: inbox_taken_def)
  then have "channel_wf ?db" by (simp add: thins_def)
  from thins_trans [OF t Cons.IH [OF this]] show ?case by (simp add: case_prod_beta)
qed (simp add: thins_refl)

lemma thins_complete: "channel_wf db \<Longrightarrow> thins db (snd (mark_completed now i owner reply db))"
proof -
  assume wf: "channel_wf db"
  let ?u = "update_held i owner (\<lambda>r. r\<lparr>xi_status := InCompleted, xi_owner := None, xi_expires := None,
         xi_processed := Some now, xi_error := None, xi_reply := Some reply\<rparr>) db"
  have t: "thins db (snd ?u)" using wf by (rule thins_held) simp
  then have "channel_wf (snd ?u)" by (simp add: thins_def)
  from thins_trans [OF t thins_sweep [OF this]] t show ?thesis by (simp add: mark_completed_def case_prod_beta)
qed

lemma thins_signal_run: "channel_wf db \<Longrightarrow> thins db (signal_active_run now key txt lease res db)"
proof -
  assume wf: "channel_wf db"
  have "thins db (set_signal t k sg db)" for t k sg using wf by (rule thins_signals)
  moreover from this have "thins db (delete_inbox P (set_signal t k sg db))" for P t k sg
    by (rule thins_trans) (rule thins_delete, use wf in \<open>simp add: set_signal_def channel_wf_def\<close>)
  ultimately show ?thesis using wf by (simp add: signal_active_run_def Let_def thins_refl)
qed

lemma thins_claim_signal: "channel_wf db \<Longrightarrow> thins db (snd (claim_signal tenant key db))"
proof -
  assume wf: "channel_wf db"
  have "thins db (clear_signal tenant key db)" using wf by (rule thins_signals)
  moreover from this have "thins db (delete_inbox P (clear_signal tenant key db))" for P
    by (rule thins_trans) (rule thins_delete, use wf in \<open>simp add: clear_signal_def channel_wf_def\<close>)
  ultimately show ?thesis using wf by (simp add: claim_signal_def Let_def thins_refl split: option.split)
qed

lemma follows_reply: "channel_wf db \<Longrightarrow> follows may db (snd (enqueue_reply now n db))"
proof -
  assume wf: "channel_wf db"
  let ?w = "new_outbox_row now (cd_next_outbox db) n"
  have i: "xo_id ?w = cd_next_outbox db" by (simp add: new_outbox_row_def)
  have "channel_wf (db\<lparr>cd_outbox := cd_outbox db @ [?w], cd_next_outbox := Suc (cd_next_outbox db)\<rparr>)"
    using wf i by (force simp: channel_wf_def)
  then have "follows may db (db\<lparr>cd_outbox := cd_outbox db @ [?w], cd_next_outbox := Suc (cd_next_outbox db)\<rparr>)"
    using i by (auto simp: follows_def) (metis keeps_refl)
  then show ?thesis using wf by (simp add: enqueue_reply_def Let_def follows_refl split: option.split)
qed

lemma step_follows:
  assumes "channel_step may x db db'" "channel_wf db"
  shows "follows may db db'"
  using assms(1)
proof cases
  case cs_enqueue
  then show ?thesis using follows_thins thins_enqueue assms(2) by blast
next
  case (cs_claim owner now ttl)
  have "thins db (db\<lparr>cd_inbox := update_where P (inbox_taken owner now ttl) (cd_inbox db)\<rparr>)" for P
    using assms(2) by (rule thins_inbox_update) (simp add: inbox_taken_def)
  then show ?thesis unfolding cs_claim
    by (intro follows_thins) (simp add: claim_next_message_def Let_def thins_refl assms(2) split: option.split)
next
  case cs_batch
  then show ?thesis using follows_thins thins_batch assms(2) by blast
next
  case cs_requeue
  then show ?thesis unfolding cs_requeue requeue_message_def by (intro follows_thins thins_held assms(2)) simp
next
  case cs_complete
  then show ?thesis using follows_thins thins_complete assms(2) by blast
next
  case cs_fail
  then show ?thesis unfolding cs_fail mark_message_failed_def by (intro follows_thins thins_held assms(2)) simp
next
  case cs_sweep
  then show ?thesis using follows_thins thins_sweep assms(2) by blast
next
  case cs_signal
  then show ?thesis using follows_thins thins_signal_run assms(2) by blast
next
  case cs_clear_signal
  then show ?thesis using follows_thins thins_signals(2) assms(2) by blast
next
  case cs_claim_signal
  then show ?thesis using follows_thins thins_claim_signal assms(2) by blast
next
  case cs_reply
  then show ?thesis using follows_reply assms(2) by blast
next
  case cs_take_inbox
  then show ?thesis unfolding cs_take_inbox claim_next_for_inbox_def by (intro follows_take assms(2))
next
  case cs_take
  then show ?thesis unfolding cs_take claim_next_global_def by (intro follows_take assms(2))
next
  case cs_approval
  show ?thesis unfolding cs_approval set_approval_for_inbox_def update_outbox_def snd_conv
    by (rule follows_update [OF assms(2)]) (auto simp: keeps_def)
next
  case cs_clear
  then show ?thesis unfolding cs_clear clear_approval_def update_outbox_def snd_conv
    by (intro follows_update [OF assms(2)]) (auto simp: keeps_def)
next
  case cs_close
  show ?thesis unfolding cs_close fail_by_approval_def update_outbox_def snd_conv
    by (rule follows_update [OF assms(2)]) (auto simp: keeps_def reply_failed_def)
next
  case (cs_sent i owner)
  have "channel_wf (snd (mark_sent i owner db))" using assms(2) by (auto simp: channel_wf_def mark_sent_def distinct_map_filter)
  then show ?thesis unfolding cs_sent by (intro follows_thins) (auto simp: thins_def mark_sent_def)
next
  case cs_reply_failed
  show ?thesis unfolding cs_reply_failed mark_reply_failed_def update_outbox_def case_prod_beta snd_conv
    by (rule follows_update [OF assms(2)]) (auto simp: keeps_def reply_failed_def outbox_held_def)
qed

lemma steps_follow: "(channel_step may x)\<^sup>*\<^sup>* db db' \<Longrightarrow> channel_wf db \<Longrightarrow> follows may db db'"
proof (induction rule: rtranclp_induct)
  case (step y z)
  then have y: "follows may db y" by simp
  then have "channel_wf y" by (simp add: follows_def)
  from follows_trans [OF y step_follows [OF step.hyps(2) this]] show ?case .
qed (simp add: follows_refl)

lemma take_candidate_claimable:
  assumes "take_candidate owner now ttl c db = (Some w, db')"
  shows "\<exists>v \<in> set (cd_outbox db). xo_id v = xo_id w \<and> outbox_claimable now v"
proof (cases c)
  case (Some u)
  let ?hit = "\<lambda>v. xo_id v = xo_id u \<and> outbox_claimable now v"
  from assms Some have "length (filter ?hit (cd_outbox db)) = 1" and f: "find (\<lambda>v. xo_id v = xo_id u) (cd_outbox db') = Some w"
    by (auto simp: take_candidate_def Let_def split: if_splits)
  then have "filter ?hit (cd_outbox db) \<noteq> []" by (metis length_0_conv zero_neq_one)
  then obtain v where "v \<in> set (cd_outbox db)" "?hit v" unfolding filter_empty_conv by blast
  moreover have "xo_id w = xo_id u" using find_in [OF f] by simp
  ultimately show ?thesis by auto
qed (use assms in \<open>simp add: take_candidate_def\<close>)

text \<open>
  C28. A reply that waits for an approval is not sent: whatever any number of processors do, as long as the
  approval is not cleared, the reply stays queued (or is failed, or goes with its message), and neither
  way of claiming ever hands it out.
\<close>

theorem approval_holds_reply:
  assumes "channel_wf db" "w \<in> set (cd_outbox db)" "xo_approval w = Some a" "xo_status w = OutQueued" "a \<notin> may"
    and "(channel_step may x)\<^sup>*\<^sup>* db db'"
  shows "(\<forall>v \<in> set (cd_outbox db'). xo_id v = xo_id w \<longrightarrow> xo_approval v = Some a \<and> xo_status v \<in> {OutQueued, OutFailed}) \<and>
    (\<forall>v. fst (claim_next_global owner now ttl db') = Some v \<longrightarrow> xo_id v \<noteq> xo_id w) \<and>
    (\<forall>i v. fst (claim_next_for_inbox i owner now ttl db') = Some v \<longrightarrow> xo_id v \<noteq> xo_id w)"
proof -
  have f: "follows may db db'" using assms(6,1) by (rule steps_follow)
  have held: "xo_approval v = Some a \<and> xo_status v \<in> {OutQueued, OutFailed}" if v: "v \<in> set (cd_outbox db')" "xo_id v = xo_id w" for v
  proof -
    have "xo_id w < cd_next_outbox db" using assms(1,2) by (rule channel_wfD(4))
    with f v obtain u where u: "u \<in> set (cd_outbox db)" "keeps may u v" by (fastforce simp: follows_def)
    then have "xo_id u = xo_id w" using v(2) by (simp add: keeps_def)
    then have "u = w" using distinct_keys_eq [OF channel_wfD(3) [OF assms(1)] u(1) assms(2)] by simp
    with u(2) assms(3-5) show ?thesis by (auto simp: keeps_def)
  qed
  have "xo_id v \<noteq> xo_id w" if "take_candidate owner now ttl c db' = (Some v, db2)" for c v db2
    using take_candidate_claimable [OF that] held by (auto simp: outbox_claimable_def)
  then have "fst (take_candidate owner now ttl c db') = Some v \<Longrightarrow> xo_id v \<noteq> xo_id w" for c v by (metis prod.collapse)
  with held show ?thesis unfolding claim_next_global_def claim_next_for_inbox_def by blast
qed

subsection \<open>Delivery\<close>

lemma send_next_steps: "(channel_step may x)\<^sup>*\<^sup>* (cw_db w) (cw_db (snd (send_next chan owner now ttl w)))"
proof -
  obtain c db where c: "claim_next_global owner now ttl (cw_db w) = (c, db)" by fastforce
  have one: "(channel_step may x)\<^sup>*\<^sup>* (cw_db w) db" using cs_take [of may x "cw_db w" owner now ttl] c by (simp add: r_into_rtranclp)
  have fail: "(channel_step may x)\<^sup>*\<^sup>* (cw_db w) (snd (mark_reply_failed now i owner err db))" for i err
    using one cs_reply_failed by (rule rtranclp.rtrancl_into_rtrancl)
  have sent: "(channel_step may x)\<^sup>*\<^sup>* (cw_db w) (snd (mark_sent i owner db))" for i
    using one cs_sent by (rule rtranclp.rtrancl_into_rtrancl)
  have swept: "(channel_step may x)\<^sup>*\<^sup>* (cw_db w) (sweep_completed j (snd (mark_sent i owner db)))" for i j
    using sent cs_sweep by (rule rtranclp.rtrancl_into_rtrancl)
  show ?thesis using one fail sent swept
    by (simp add: send_next_def c Let_def case_prod_beta split: option.split sum.split bool.split)
qed

lemma send_next_delivers:
  "cw_delivered (snd (send_next chan owner now ttl w)) = cw_delivered w \<or>
    (\<exists>v. fst (claim_next_global owner now ttl (cw_db w)) = Some v \<and> cw_delivered (snd (send_next chan owner now ttl w)) = cw_delivered w @ [v])"
  by (simp add: send_next_def Let_def case_prod_beta split: option.split sum.split bool.split)

lemma send_next_other [simp]:
  "cw_approvals (snd (send_next chan owner now ttl w)) = cw_approvals w"
  by (simp add: send_next_def Let_def case_prod_beta split: option.split sum.split bool.split)

text \<open>The approval of a waiting reply changes only in the release branch.\<close>

lemma waiting_kept:
  assumes "follows may db db'" "channel_wf db" "v \<in> set (cd_outbox db)" "xo_approval v = Some a" "xo_status v = OutQueued" "a \<notin> may"
    and "u \<in> set (cd_outbox db')" "xo_id u = xo_id v"
  shows "xo_approval u = Some a"
proof -
  have "xo_id v < cd_next_outbox db" using assms(2,3) by (rule channel_wfD(4))
  with assms(1,7,8) obtain y where y: "y \<in> set (cd_outbox db)" "keeps may y u" by (fastforce simp: follows_def)
  then have "xo_id y = xo_id v" using assms(8) by (simp add: keeps_def)
  then have "y = v" using distinct_keys_eq [OF channel_wfD(3) [OF assms(2)] y(1) assms(3)] by simp
  with y(2) assms(4-6) show ?thesis by (auto simp: keeps_def)
qed

lemma send_next_follows: "channel_wf (cw_db w) \<Longrightarrow> follows may (cw_db w) (cw_db (snd (send_next chan owner now ttl w)))"
  using send_next_steps [of may 0] by (rule steps_follow)

text \<open>
  C29. A round of the processor releases a waiting reply only with authority: the operator has switched
  sending on for the conversation, or the approval store, after its expiry sweep, holds the approval as
  approved; and the round that releases it sends nothing.
\<close>

theorem release_authorized:
  assumes "channel_wf (cw_db w)" "v \<in> set (cd_outbox (cw_db w))" "xo_approval v = Some a" "xo_status v = OutQueued"
    and "process_outbox chan fresh owner now ttl w = (r, w')"
    and "u \<in> set (cd_outbox (cw_db w'))" "xo_id u = xo_id v" "xo_approval u = None"
  shows "cw_delivered w' = cw_delivered w \<and>
    (\<exists>p \<in> set (cd_outbox (cw_db w)). xo_approval p = Some a \<and>
      (conversation_override (xo_inbox p) w = Some SendOn \<or>
       (\<exists>ap. get_approval (xo_tenant p) a (cw_approvals w') = Some ap \<and> ap_status ap = Approved)))"
proof (rule ccontr)
  assume n: "\<not> ?thesis"
  have f: False if "follows may (cw_db w) (cw_db w')" "a \<notin> may" for may
    using waiting_kept [OF that(1) assms(1-4) that(2) assms(6,7)] assms(8) by simp
  have close: "follows {} (cw_db w) (snd (fail_by_approval now i err (cw_db w)))" for i err
    using step_follows [OF cs_close assms(1)] .
  have release: "follows {i} (cw_db w) (snd (clear_approval i (cw_db w)))" for i
    using step_follows [OF cs_clear assms(1)] by blast
  have send: "w' \<noteq> snd (send_next chan owner now ttl z)" if "cw_db z = cw_db w" for z
    using send_next_follows [of z "{}"] assms(1) that f [of "{}"] by auto
  obtain p i where p: "pending_approval (cw_db w) = Some p" and i: "xo_approval p = Some i" "i \<noteq> []"
    using assms(5) send [of w] by (auto simp: process_outbox_def split: option.splits list.splits)
  have pin: "p \<in> set (cd_outbox (cw_db w))"
    using first_row_in [OF p [unfolded pending_approval_def]] by simp
  let ?ad = "snd (expire_stale_approvals fresh (xo_tenant p) now (cw_approvals w))"
  note unfolded = assms(5) [unfolded process_outbox_def p option.case i(1)]
  have "i = a"
  proof (rule ccontr)
    assume "i \<noteq> a"
    then have "w' \<noteq> w\<lparr>cw_db := snd (clear_approval i (cw_db w))\<rparr>" "w' \<noteq> w\<lparr>cw_approvals := ?ad, cw_db := snd (clear_approval i (cw_db w))\<rparr>"
      using f [of "{i}"] release by auto
    moreover have "w' \<noteq> w\<lparr>cw_db := snd (fail_by_approval now i err (cw_db w))\<rparr>" "w' \<noteq> w\<lparr>cw_approvals := ?ad, cw_db := snd (fail_by_approval now i err (cw_db w))\<rparr>" for err
      using f [of "{}"] close by auto
    ultimately show False using unfolded i(2) send [of "w\<lparr>cw_approvals := ?ad\<rparr>"]
      by (cases i) (auto simp: Let_def split: option.splits send_policy.splits if_splits)
  qed
  then show False using unfolded i n pin send [of "w\<lparr>cw_approvals := ?ad\<rparr>"] f [of "{}"] close
    by (cases i) (auto simp: Let_def split: option.splits send_policy.splits if_splits)
qed

text \<open>
  The oldest reply that waits for an approval holds up all others: as long as it is undecided, a round
  releases no reply, even one whose own approval has been given.
\<close>

theorem undecided_approval_blocks:
  assumes "channel_wf (cw_db w)" "pending_approval (cw_db w) = Some p" "xo_approval p = Some i" "i \<noteq> []"
    and "conversation_override (xo_inbox p) w = None"
    and "get_approval (xo_tenant p) i (snd (expire_stale_approvals fresh (xo_tenant p) now (cw_approvals w))) = Some ap"
    and "ap_status ap \<notin> {Approved, Denied, Expired, Cancelled}"
    and "v \<in> set (cd_outbox (cw_db w))" "xo_approval v = Some a" "xo_status v = OutQueued"
    and "u \<in> set (cd_outbox (cw_db (snd (process_outbox chan fresh owner now ttl w))))" "xo_id u = xo_id v"
  shows "xo_approval u = Some a"
proof -
  let ?w = "w\<lparr>cw_approvals := snd (expire_stale_approvals fresh (xo_tenant p) now (cw_approvals w))\<rparr>"
  have "process_outbox chan fresh owner now ttl w = send_next chan owner now ttl ?w"
    using assms(2-7) by (cases i) (simp_all add: process_outbox_def Let_def)
  then have "follows {} (cw_db w) (cw_db (snd (process_outbox chan fresh owner now ttl w)))"
    using send_next_follows [of ?w "{}"] assms(1) by simp
  from waiting_kept [OF this assms(1,8-10) _ assms(11,12)] show ?thesis by simp
qed

subsection \<open>Filing a reply\<close>

text \<open>
  C32. A reply that needs an approval is filed without it, and the approval is set in a later transaction. A
  processor that runs in between sends the reply, and setting the approval then changes nothing.
\<close>

theorem approval_set_too_late:
  assumes "channel_wf db" "list_all (\<lambda>z. \<not> outbox_claimable now' z) (cd_outbox db)"
    and "enqueue_reply now n db = (Some (v, False), db1)" "xn_approval n = None"
    and "conversation_override (xn_inbox n) (w\<lparr>cw_db := db1\<rparr>) \<noteq> Some SendOff"
    and "parse_source_key (xn_source n) = Inr (connector, account)"
    and "sc_send chan connector account (outbox_taken other now' ttl v) = Some (Inr resp)"
  shows "let w' = snd (send_next chan other now' ttl (w\<lparr>cw_db := db1\<rparr>)) in
    cw_delivered w' = cw_delivered w @ [outbox_taken other now' ttl v] \<and> fst (set_approval_for_inbox (xn_inbox n) a (cw_db w')) = 0"
proof -
  let ?w = "w\<lparr>cw_db := db1\<rparr>" and ?t = "outbox_taken other now' ttl v"
  have v: "v = new_outbox_row now (cd_next_outbox db) n" "cd_outbox db1 = cd_outbox db @ [v]" "cd_inbox db1 = cd_inbox db"
    using assms(3) by (auto simp: enqueue_reply_def Let_def split: option.splits if_splits)
  have vf: "xo_id v = cd_next_outbox db" "xo_status v = OutQueued" "xo_approval v = None" "xo_inbox v = xn_inbox n" "xo_source v = xn_source n"
    using assms(4) by (simp_all add: v(1) new_outbox_row_def)
  have old: "\<not> outbox_claimable now' z" "xo_id z \<noteq> xo_id v" if "z \<in> set (cd_outbox db)" for z
    using assms(1,2) that vf(1) channel_wfD(4) [OF assms(1) that] by (auto simp: list_all_iff)
  have cl: "outbox_claimable now' v" using vf by (simp add: outbox_claimable_def)
  have "leading_reply now' (cd_outbox db1) z \<longleftrightarrow> z = v" if "z \<in> set (cd_outbox db1)" for z
    using that old(1) cl unfolding v(2) leading_reply_def by (auto simp: list_all_iff)
  then have "filter (leading_reply now' (cd_outbox db1)) (cd_outbox db1) = filter (\<lambda>z. z = v) (cd_outbox db1)" by (rule filter_cong [OF refl])
  also have "\<dots> = [v]" using old(2) unfolding v(2) by (auto simp: filter_empty_conv)
  finally have lead: "first_row (order_by xo_created xo_id (filter (leading_reply now' (cd_outbox db1)) (cd_outbox db1))) = Some v"
    by (simp add: order_by_def first_row_def)
  have hit: "filter (\<lambda>z. xo_id z = xo_id v \<and> outbox_claimable now' z) (cd_outbox db1) = [v]"
    using old cl unfolding v(2) by (auto simp: filter_empty_conv)
  let ?db2 = "db1\<lparr>cd_outbox := update_where (\<lambda>z. xo_id z = xo_id v \<and> outbox_claimable now' z) (outbox_taken other now' ttl) (cd_outbox db1)\<rparr>"
  have out2: "cd_outbox ?db2 = cd_outbox db @ [?t]"
    using old cl unfolding v(2) by (auto simp: update_where_def intro: map_idI)
  have "find (\<lambda>z. xo_id z = xo_id v) (cd_outbox db @ [?t]) = Some ?t"
    using old(2) by (auto simp: find_append find_None_iff outbox_taken_def split: option.split dest: find_in)
  then have claim: "claim_next_global other now' ttl db1 = (Some ?t, ?db2)"
    unfolding claim_next_global_def lead take_candidate_def option.case Let_def using hit out2 by simp
  have ids: "xo_id ?t = xo_id v" "xo_inbox ?t = xn_inbox n" "xo_source ?t = xn_source n" "outbox_held (xo_id v) other ?t"
    using vf by (simp_all add: outbox_taken_def outbox_held_def)
  have held: "filter (outbox_held (xo_id v) other) (cd_outbox db @ [?t]) = [?t]"
    using old(2) ids(4) by (auto simp: filter_empty_conv outbox_held_def)
  have rest: "filter (\<lambda>z. \<not> outbox_held (xo_id v) other z) (cd_outbox db @ [?t]) = cd_outbox db"
    using old(2) ids(4) by (auto simp: outbox_held_def intro: filter_True)
  have sent: "mark_sent (xo_id v) other ?db2 = (True, ?db2\<lparr>cd_outbox := cd_outbox db\<rparr>)"
    unfolding mark_sent_def out2 held rest by simp
  have "conversation_override (xn_inbox n) (?w\<lparr>cw_db := ?db2\<rparr>) = conversation_override (xn_inbox n) ?w"
    by (simp add: conversation_override_def inbox_by_id_def split: option.split)
  then have over: "conversation_override (xn_inbox n) (?w\<lparr>cw_db := ?db2\<rparr>) \<noteq> Some SendOff" using assms(5) by simp
  have next': "snd (send_next chan other now' ttl ?w) =
      ?w\<lparr>cw_db := sweep_completed (xn_inbox n) (?db2\<lparr>cd_outbox := cd_outbox db\<rparr>), cw_delivered := cw_delivered w @ [?t]\<rparr>"
    using over assms(6,7) by (simp add: send_next_def claim ids(1-3) sent Let_def)
  have "set (cd_outbox (sweep_completed (xn_inbox n) (?db2\<lparr>cd_outbox := cd_outbox db\<rparr>))) \<subseteq> set (cd_outbox db)"
    by (auto simp: sweep_completed_def delete_inbox_def)
  then have "filter (\<lambda>z. xo_inbox z = xn_inbox n \<and> xo_status z = OutQueued \<and> xo_approval z = None)
      (cd_outbox (sweep_completed (xn_inbox n) (?db2\<lparr>cd_outbox := cd_outbox db\<rparr>))) = []"
    using old(1) by (auto simp: filter_empty_conv outbox_claimable_def)
  then show ?thesis unfolding Let_def next' by (simp add: set_approval_for_inbox_def update_outbox_def)
qed

subsection \<open>An instance\<close>

definition demo_reply :: "nat \<Rightarrow> string \<Rightarrow> outbox_input" where
  "demo_reply i txt = reply_input (demo_row 1) [] i txt"

definition demo_channel_world :: channel_world where
  "demo_channel_world =
    \<lparr>cw_db = snd (set_approval_for_inbox 1 ''a1'' (snd (enqueue_reply 10 (demo_reply 0 ''hello'') demo_channel_db))),
     cw_overrides = [], cw_approvals = \<lparr>ad_approvals = [], ad_reviews = []\<rparr>, cw_delivered = []\<rparr>"

definition demo_waiting :: outbox_row where
  "demo_waiting = hd (cd_outbox (cw_db demo_channel_world))"

definition demo_send :: send_channel where
  "demo_send = \<lparr>sc_send = (\<lambda>connector account reply. if connector = ''telegram'' then Some (Inr JNull) else None)\<rparr>"

lemma demo_waiting_facts:
  "channel_wf (cw_db demo_channel_world)" "demo_waiting \<in> set (cd_outbox (cw_db demo_channel_world))"
  "xo_approval demo_waiting = Some ''a1''" "xo_status demo_waiting = OutQueued" "channel_wf demo_channel_db"
  by code_simp+

theorem approval_holds_reply_witness:
  "fst (claim_next_global ''w2'' 20 60 (snd (claim_next_global ''w1'' 15 60 (cw_db demo_channel_world)))) \<noteq> Some demo_waiting \<and>
   xo_status demo_waiting = OutQueued"
proof -
  have "(channel_step {} 0)\<^sup>*\<^sup>* (cw_db demo_channel_world) (snd (claim_next_global ''w1'' 15 60 (cw_db demo_channel_world)))"
    by (rule r_into_rtranclp) (rule cs_take)
  from approval_holds_reply [OF demo_waiting_facts(1-4) _ this, of "''w2''" 20 60] demo_waiting_facts(4) show ?thesis by blast
qed

definition demo_settled :: "channel_world" where
  "demo_settled = demo_channel_world\<lparr>cw_overrides := upsert_send_override 5 None ''agent:k'' SendOn []\<rparr>"

theorem release_authorized_witness:
  "\<exists>p \<in> set (cd_outbox (cw_db demo_settled)). xo_approval p = Some ''a1'' \<and> conversation_override (xo_inbox p) demo_settled = Some SendOn"
proof -
  let ?o = "process_outbox demo_send (\<lambda>a. ''r'') ''w1'' 20 60 demo_settled"
  have db: "cw_db demo_settled = cw_db demo_channel_world" by (simp add: demo_settled_def)
  have u: "hd (cd_outbox (cw_db (snd ?o))) \<in> set (cd_outbox (cw_db (snd ?o)))" "xo_id (hd (cd_outbox (cw_db (snd ?o)))) = xo_id demo_waiting"
    "xo_approval (hd (cd_outbox (cw_db (snd ?o)))) = None" "cw_approvals (snd ?o) = \<lparr>ad_approvals = [], ad_reviews = []\<rparr>"
    by code_simp+
  have none: "get_approval t a \<lparr>ad_approvals = [], ad_reviews = []\<rparr> = None" for t a by (simp add: get_approval_def)
  have "?o = (fst ?o, snd ?o)" by simp
  from release_authorized [OF demo_waiting_facts(1-4) [folded db] this u(1-3)] u(4) none show ?thesis by auto
qed

definition demo_verdict :: "string \<Rightarrow> approval_status \<Rightarrow> approval" where
  "demo_verdict i st = (new_approval i 5 demo_approval_params)\<lparr>ap_tenant := ''t1'', ap_status := st, ap_expires_at := None\<rparr>"

definition demo_two :: channel_world where
  "demo_two = demo_channel_world\<lparr>cw_db := snd (set_approval_for_inbox 2 ''a2'' (snd (enqueue_reply 11 (reply_input (demo_row 2) [] 0 ''bye'')
      (cw_db demo_channel_world)))),
     cw_approvals := \<lparr>ad_approvals = [demo_verdict ''a1'' AwaitingHuman, demo_verdict ''a2'' Approved], ad_reviews = []\<rparr>\<rparr>"

theorem undecided_approval_blocks_witness:
  "map ap_status (ad_approvals (cw_approvals demo_two)) = [AwaitingHuman, Approved] \<and>
   xo_approval (cd_outbox (cw_db (snd (process_outbox demo_send (\<lambda>a. ''r'') ''w1'' 20 60 demo_two))) ! 1) = Some ''a2''"
proof -
  let ?w = "snd (process_outbox demo_send (\<lambda>a. ''r'') ''w1'' 20 60 demo_two)"
  let ?v = "cd_outbox (cw_db demo_two) ! 1" and ?u = "cd_outbox (cw_db ?w) ! 1"
  let ?ad = "snd (expire_stale_approvals (\<lambda>a. ''r'') ''t1'' 20 (cw_approvals demo_two))"
  have w: "channel_wf (cw_db demo_two)" by code_simp
  have p: "pending_approval (cw_db demo_two) = Some demo_waiting" "xo_tenant demo_waiting = ''t1''" by code_simp+
  have o: "conversation_override (xo_inbox demo_waiting) demo_two = None" by code_simp
  have g: "get_approval (xo_tenant demo_waiting) ''a1'' (snd (expire_stale_approvals (\<lambda>a. ''r'') (xo_tenant demo_waiting) 20 (cw_approvals demo_two))) =
      Some (demo_verdict ''a1'' AwaitingHuman)" by code_simp
  have st: "ap_status (demo_verdict ''a1'' AwaitingHuman) \<notin> {Approved, Denied, Expired, Cancelled}" by code_simp
  have v: "?v \<in> set (cd_outbox (cw_db demo_two))" "xo_approval ?v = Some ''a2''" "xo_status ?v = OutQueued" by code_simp+
  have u: "?u \<in> set (cd_outbox (cw_db ?w))" "xo_id ?u = xo_id ?v" by code_simp+
  have m: "map ap_status (ad_approvals (cw_approvals demo_two)) = [AwaitingHuman, Approved]" by code_simp
  from undecided_approval_blocks [OF w p(1) demo_waiting_facts(3) list.simps(3) o g st v u] m show ?thesis by blast
qed

theorem approval_set_too_late_witness:
  "map xo_text (cw_delivered (snd (send_next demo_send ''w2'' 12 60
     (demo_channel_world\<lparr>cw_db := snd (enqueue_reply 10 (demo_reply 0 ''hello'') demo_channel_db)\<rparr>)))) = [''hello'']"
proof -
  let ?n = "demo_reply 0 ''hello''"
  let ?v = "new_outbox_row 10 1 ?n" and ?db = "snd (enqueue_reply 10 ?n demo_channel_db)"
  have n: "list_all (\<lambda>z. \<not> outbox_claimable 12 z) (cd_outbox demo_channel_db)" "enqueue_reply 10 ?n demo_channel_db = (Some (?v, False), ?db)"
    "xn_approval ?n = None" "conversation_override (xn_inbox ?n) (demo_channel_world\<lparr>cw_db := ?db\<rparr>) \<noteq> Some SendOff"
    "parse_source_key (xn_source ?n) = Inr (''telegram'', ''default'')" by code_simp+
  have s: "sc_send demo_send ''telegram'' ''default'' (outbox_taken ''w2'' 12 60 ?v) = Some (Inr JNull)" by (simp add: demo_send_def)
  have e: "cw_delivered demo_channel_world = []" "xo_text (outbox_taken ''w2'' 12 60 ?v) = ''hello''" by code_simp+
  from approval_set_too_late [OF demo_waiting_facts(5) n s] e show ?thesis by (simp add: Let_def)
qed

end
