(* ===== verification/Channel_Polling.thy ===== *)
theory Channel_Polling
  imports Leases
begin

text \<open>
  The state of Telegram polling, \<open>gateway/src/modules/channels/telegram-polling-state-dal.ts\<close>: a row per
  account with a lease, the cursor of updates and the last error. Its lease keeps the promise of
  \<open>lease_table\<close>; the cursor is guarded by the owner.
\<close>

datatype polling_status = PollIdle | PollRunning | PollError

record polling_row =
  pg_key :: "string \<times> string"
  pg_bot :: "string option"
  pg_next :: "int option"
  pg_status :: polling_status
  pg_owner :: "string option"
  pg_expires :: "int option"
  pg_polled :: "int option"
  pg_error_at :: "int option"
  pg_error :: "string option"
  pg_created :: int
  pg_updated :: int

definition get_polling :: "string \<times> string \<Rightarrow> polling_row list \<Rightarrow> polling_row option" where
  "get_polling k rows = find (\<lambda>r. pg_key r = k) rows"

definition list_polling :: "string \<Rightarrow> polling_row list \<Rightarrow> polling_row list" where
  "list_polling tenant rows = sort_key (\<lambda>r. snd (pg_key r)) (filter (\<lambda>r. fst (pg_key r) = tenant) rows)"

definition polling_free :: "string \<Rightarrow> int \<Rightarrow> polling_row \<Rightarrow> bool" where
  "polling_free owner now r \<longleftrightarrow> (case pg_expires r of None \<Rightarrow> True | Some x \<Rightarrow> x \<le> now) \<or> pg_owner r = Some owner"

definition try_acquire_polling :: "string \<times> string \<Rightarrow> string \<Rightarrow> int \<Rightarrow> int \<Rightarrow> polling_row list \<Rightarrow> bool \<times> polling_row list" where
  "try_acquire_polling k owner now ttl rows =
    (let expires = now + max 1 ttl in
     if \<not> matches (\<lambda>r. pg_key r = k) rows
     then (True, rows @ [\<lparr>pg_key = k, pg_bot = None, pg_next = None, pg_status = PollIdle, pg_owner = Some owner,
       pg_expires = Some expires, pg_polled = None, pg_error_at = None, pg_error = None, pg_created = now, pg_updated = now\<rparr>])
     else (0 < length (filter (\<lambda>r. pg_key r = k \<and> polling_free owner now r) rows),
       update_where (\<lambda>r. pg_key r = k \<and> polling_free owner now r)
         (\<lambda>r. r\<lparr>pg_owner := Some owner, pg_expires := Some expires, pg_updated := now\<rparr>) rows))"

definition by_owner :: "string \<times> string \<Rightarrow> string \<Rightarrow> (polling_row \<Rightarrow> polling_row) \<Rightarrow> polling_row list \<Rightarrow> polling_row list" where
  "by_owner k owner f rows = update_where (\<lambda>r. pg_key r = k \<and> pg_owner r = Some owner) f rows"

definition coalesce :: "'a option \<Rightarrow> 'a option \<Rightarrow> 'a option" where
  "coalesce a b = (case a of None \<Rightarrow> b | Some x \<Rightarrow> a)"

definition mark_running ::
  "string \<times> string \<Rightarrow> string \<Rightarrow> string option \<Rightarrow> int option \<Rightarrow> int option \<Rightarrow> int \<Rightarrow> polling_row list \<Rightarrow> polling_row list" where
  "mark_running k owner who cursor polled now rows =
    by_owner k owner (\<lambda>r. r\<lparr>pg_status := PollRunning, pg_bot := coalesce who (pg_bot r), pg_next := coalesce cursor (pg_next r),
      pg_polled := coalesce polled (pg_polled r), pg_error_at := None, pg_error := None,
      pg_updated := (case polled of Some t \<Rightarrow> t | None \<Rightarrow> now)\<rparr>) rows"

definition renew_polling :: "string \<times> string \<Rightarrow> string \<Rightarrow> int \<Rightarrow> int \<Rightarrow> polling_row list \<Rightarrow> bool \<times> polling_row list" where
  "renew_polling k owner now ttl rows =
    (matches (\<lambda>r. pg_key r = k \<and> pg_owner r = Some owner) rows,
     by_owner k owner (\<lambda>r. r\<lparr>pg_expires := Some (now + max 1 ttl), pg_updated := now\<rparr>) rows)"

definition update_cursor :: "string \<times> string \<Rightarrow> string \<Rightarrow> string option \<Rightarrow> int \<Rightarrow> int \<Rightarrow> polling_row list \<Rightarrow> polling_row list" where
  "update_cursor k owner who cursor polled rows =
    by_owner k owner (\<lambda>r. r\<lparr>pg_status := PollRunning, pg_bot := coalesce who (pg_bot r), pg_next := Some cursor,
      pg_polled := Some polled, pg_error_at := None, pg_error := None, pg_updated := polled\<rparr>) rows"

definition reset_cursor :: "string \<times> string \<Rightarrow> string \<Rightarrow> string \<Rightarrow> int \<Rightarrow> polling_row list \<Rightarrow> polling_row list" where
  "reset_cursor k owner who polled rows =
    by_owner k owner (\<lambda>r. r\<lparr>pg_bot := Some who, pg_next := None, pg_status := PollRunning, pg_polled := Some polled,
      pg_error_at := None, pg_error := None, pg_updated := polled\<rparr>) rows"

definition mark_polling_error :: "string \<times> string \<Rightarrow> string \<Rightarrow> int \<Rightarrow> string \<Rightarrow> polling_row list \<Rightarrow> polling_row list" where
  "mark_polling_error k owner at msg rows =
    by_owner k owner (\<lambda>r. r\<lparr>pg_status := PollError, pg_error_at := Some at, pg_error := Some msg, pg_updated := at\<rparr>) rows"

definition release_polling :: "int \<Rightarrow> string \<times> string \<Rightarrow> string \<Rightarrow> polling_row list \<Rightarrow> polling_row list" where
  "release_polling now k owner rows =
    by_owner k owner (\<lambda>r. r\<lparr>pg_status := PollIdle, pg_owner := None, pg_expires := None, pg_updated := now\<rparr>) rows"

subsection \<open>The lease\<close>

definition polling_ok :: "polling_row list \<Rightarrow> bool" where
  "polling_ok rows \<longleftrightarrow> distinct (map pg_key rows) \<and> (\<forall>r \<in> set rows. pg_owner r = None \<longleftrightarrow> pg_expires r = None)"

definition polling_holder :: "string \<times> string \<Rightarrow> polling_row list \<Rightarrow> (string \<times> int) option" where
  "polling_holder k rows =
    (case get_polling k rows of None \<Rightarrow> None
     | Some r \<Rightarrow> (case (pg_owner r, pg_expires r) of (Some u, Some x) \<Rightarrow> Some (u, x) | _ \<Rightarrow> None))"

lemma polling_ok_update:
  "polling_ok rows \<Longrightarrow> (\<And>r. pg_key (f r) = pg_key r) \<Longrightarrow> (\<And>r. P r \<Longrightarrow> pg_owner r = None \<longleftrightarrow> pg_expires r = None \<Longrightarrow> pg_owner (f r) = None \<longleftrightarrow> pg_expires (f r) = None) \<Longrightarrow>
    polling_ok (update_where P f rows)"
  by (auto simp: polling_ok_def map_update_where set_update_where)

lemma polling_row_ok: "polling_ok rows \<Longrightarrow> get_polling k rows = Some r \<Longrightarrow> pg_owner r = None \<longleftrightarrow> pg_expires r = None"
  by (auto simp: polling_ok_def get_polling_def dest: find_in)

interpretation polling: lease_table polling_ok polling_holder try_acquire_polling "release_polling now"
proof
  fix s :: "polling_row list" and k j :: "string \<times> string" and u t ttl
  assume ok: "polling_ok s"
  then have d: "distinct (map pg_key s)" by (simp add: polling_ok_def)
  have none: "matches (\<lambda>r. pg_key r = k) s \<longleftrightarrow> get_polling k s \<noteq> None" for k
    by (auto simp: matches_iff find_None_iff get_polling_def)
  show "polling_ok (snd (try_acquire_polling k u t ttl s))"
  proof (cases "matches (\<lambda>r. pg_key r = k) s")
    case True
    with ok show ?thesis by (simp add: try_acquire_polling_def Let_def polling_ok_update)
  next
    case False
    with ok show ?thesis by (auto simp: try_acquire_polling_def Let_def polling_ok_def matches_iff)
  qed
  show "polling_ok (release_polling now k u s)"
    unfolding release_polling_def by_owner_def by (rule polling_ok_update [OF ok]) simp_all
  show granted: "fst (try_acquire_polling k u t ttl s) \<longleftrightarrow>
      (case polling_holder k s of None \<Rightarrow> True | Some (v, x) \<Rightarrow> x \<le> t \<or> v = u)" for k
  proof (cases "get_polling k s")
    case (Some r)
    have "length (filter (\<lambda>r. pg_key r = k \<and> polling_free u t r) s) = (if polling_free u t r then 1 else 0)"
      using keyed_update_count [OF d Some [unfolded get_polling_def]] .
    with Some polling_row_ok [OF ok Some] show ?thesis
      by (auto simp: try_acquire_polling_def Let_def none polling_holder_def polling_free_def split: option.splits)
  qed (simp add: try_acquire_polling_def Let_def none polling_holder_def)
  show "polling_holder j (snd (try_acquire_polling k u t ttl s)) =
      (if j = k \<and> fst (try_acquire_polling k u t ttl s) then Some (u, t + max 1 ttl) else polling_holder j s)"
  proof (cases "get_polling k s")
    case None
    then show ?thesis
      by (auto simp: try_acquire_polling_def Let_def none polling_holder_def get_polling_def find_append split: option.splits)
  next
    case (Some r)
    let ?f = "\<lambda>r. r\<lparr>pg_owner := Some u, pg_expires := Some (t + max 1 ttl), pg_updated := t\<rparr>"
    have "get_polling j (update_where (\<lambda>r. pg_key r = k \<and> polling_free u t r) ?f s) =
        map_option (\<lambda>r. if j = k \<and> polling_free u t r then ?f r else r) (get_polling j s)"
      unfolding get_polling_def by (rule keyed_find_update) simp
    then show ?thesis
      unfolding granted using Some polling_row_ok [OF ok Some]
      by (cases "get_polling j s")
        (auto simp: try_acquire_polling_def Let_def none polling_holder_def polling_free_def split: option.splits)
  qed
  show "polling_holder j (release_polling now k u s) =
      (if j = k \<and> map_option fst (polling_holder k s) = Some u then None else polling_holder j s)"
  proof -
    let ?f = "\<lambda>r. r\<lparr>pg_status := PollIdle, pg_owner := None, pg_expires := None, pg_updated := now\<rparr>"
    have "get_polling j (release_polling now k u s) =
        map_option (\<lambda>r. if j = k \<and> pg_owner r = Some u then ?f r else r) (get_polling j s)"
      unfolding get_polling_def release_polling_def by_owner_def by (rule keyed_find_update) simp
    then show ?thesis using polling_row_ok [OF ok]
      by (cases "get_polling j s") (auto simp: polling_holder_def split: option.splits)
  qed
qed

subsection \<open>The cursor\<close>

text \<open>What anybody but \<open>u\<close> does before \<open>x\<close>.\<close>

inductive polling_other :: "string \<Rightarrow> int \<Rightarrow> polling_row list \<Rightarrow> polling_row list \<Rightarrow> bool" for u x where
  po_acquire: "v \<noteq> u \<Longrightarrow> now < x \<Longrightarrow> polling_other u x rows (snd (try_acquire_polling k v now ttl rows))"
| po_running: "v \<noteq> u \<Longrightarrow> polling_other u x rows (mark_running k v who cursor polled now rows)"
| po_renew: "v \<noteq> u \<Longrightarrow> polling_other u x rows (snd (renew_polling k v now ttl rows))"
| po_cursor: "v \<noteq> u \<Longrightarrow> polling_other u x rows (update_cursor k v who i polled rows)"
| po_reset: "v \<noteq> u \<Longrightarrow> polling_other u x rows (reset_cursor k v b polled rows)"
| po_error: "v \<noteq> u \<Longrightarrow> polling_other u x rows (mark_polling_error k v now msg rows)"
| po_release: "v \<noteq> u \<Longrightarrow> polling_other u x rows (release_polling now k v rows)"

lemma get_by_owner: "(\<And>r. pg_key (f r) = pg_key r) \<Longrightarrow> get_polling j rows = Some r \<Longrightarrow> pg_owner r = Some u \<Longrightarrow> v \<noteq> u \<Longrightarrow>
    get_polling j (by_owner k v f rows) = Some r"
  using keyed_find_update [of pg_key f j k "\<lambda>r. pg_owner r = Some v" rows] by (simp add: get_polling_def by_owner_def)

lemma polling_other_keeps:
  assumes "polling_other u x rows rows'" "get_polling j rows = Some r" "pg_owner r = Some u" "pg_expires r = Some x"
  shows "get_polling j rows' = Some r"
  using assms(1)
proof cases
  case (po_acquire v now k ttl)
  show ?thesis
  proof (cases "matches (\<lambda>r. pg_key r = k) rows")
    case True
    let ?f = "\<lambda>r. r\<lparr>pg_owner := Some v, pg_expires := Some (now + max 1 ttl), pg_updated := now\<rparr>"
    have "get_polling j (update_where (\<lambda>r. pg_key r = k \<and> polling_free v now r) ?f rows) =
        map_option (\<lambda>r. if j = k \<and> polling_free v now r then ?f r else r) (get_polling j rows)"
      unfolding get_polling_def by (rule keyed_find_update) simp
    with True po_acquire assms(2-4) show ?thesis by (auto simp: try_acquire_polling_def Let_def polling_free_def)
  next
    case False
    with po_acquire assms(2) show ?thesis by (simp add: try_acquire_polling_def Let_def get_polling_def find_append)
  qed
qed (use assms(2,3) in \<open>simp_all add: mark_running_def renew_polling_def update_cursor_def reset_cursor_def
    mark_polling_error_def release_polling_def get_by_owner\<close>)

lemma polling_other_ok: "polling_other u x rows rows' \<Longrightarrow> polling_ok rows \<Longrightarrow> polling_ok rows'"
proof (induction rule: polling_other.induct)
  case (po_acquire v now rows k ttl)
  then show ?case by (simp add: polling.acquire_ok)
next
  case (po_renew v rows k now ttl)
  show ?case unfolding renew_polling_def by_owner_def snd_conv
    by (rule polling_ok_update [OF po_renew(2)]) auto
qed (simp_all add: mark_running_def renew_polling_def update_cursor_def reset_cursor_def mark_polling_error_def
    release_polling_def by_owner_def polling_ok_update)

text \<open>
  While a poller holds the lease of an account, nothing other pollers do touches the account's row: the
  cursor it reads is the one it wrote, and nobody else acquires the lease.
\<close>

theorem polling_row_exclusive:
  assumes "polling_ok rows" "try_acquire_polling k u now ttl rows = (True, rows1)"
    and "(polling_other u (now + max 1 ttl))\<^sup>*\<^sup>* rows1 rows2" "v \<noteq> u" "later < now + max 1 ttl"
  shows "get_polling k rows2 = get_polling k rows1 \<and> map_option pg_owner (get_polling k rows2) = Some (Some u) \<and>
    \<not> fst (try_acquire_polling k v later ttl' rows2)"
proof -
  have ok1: "polling_ok rows1" using polling.acquire_ok [OF assms(1), of k u now ttl] assms(2) by simp
  have "polling_holder k rows1 = Some (u, now + max 1 ttl)"
    using polling.acquire_holder [OF assms(1), of k k u now ttl] assms(2) by simp
  then obtain r where r: "get_polling k rows1 = Some r" "pg_owner r = Some u" "pg_expires r = Some (now + max 1 ttl)"
    by (auto simp: polling_holder_def split: option.splits)
  have keep: "get_polling k rows2 = Some r"
    using assms(3)
  proof (induction rule: rtranclp_induct)
    case (step y z)
    from polling_other_keeps [OF step.hyps(2) step.IH r(2,3)] show ?case .
  qed (rule r(1))
  have "polling_ok rows2" using assms(3)
    by (induction rule: rtranclp_induct) (simp_all add: ok1 polling_other_ok)
  from polling.acquire_granted [OF this, of k v later ttl'] keep r assms(4,5) show ?thesis
    by (simp add: polling_holder_def)
qed

theorem polling_row_exclusive_witness:
  "\<exists>rows1. try_acquire_polling (''t1'', ''default'') ''w1'' 10 60 [] = (True, rows1) \<and>
    \<not> fst (try_acquire_polling (''t1'', ''default'') ''w2'' 69 60 (update_cursor (''t1'', ''default'') ''w2'' None 7 30 rows1))"
proof -
  let ?k = "(''t1'', ''default'')"
  let ?r = "snd (try_acquire_polling ?k ''w1'' 10 60 [])"
  have ok: "polling_ok []" by (simp add: polling_ok_def)
  have a: "try_acquire_polling ?k ''w1'' 10 60 [] = (True, ?r)" by (simp add: try_acquire_polling_def matches_def)
  have st: "(polling_other ''w1'' (10 + max 1 60))\<^sup>*\<^sup>* ?r (update_cursor ?k ''w2'' None 7 30 ?r)"
    by (rule r_into_rtranclp) (rule po_cursor, simp)
  have v: "''w2'' \<noteq> ''w1''" "(69::int) < 10 + max 1 60" by simp_all
  from polling_row_exclusive [OF ok a st v] a show ?thesis by blast
qed

end
