(* ===== verification/Workflow_Run.thy ===== *)
theory Workflow_Run
  imports Match_Target Postcondition Approvals Policy_Service Leases
begin

text \<open>
  Workflow runs, the steps they consist of and the transactions of the runner:
  \<open>gateway/src/modules/workflow-run/dal.ts\<close>, \<open>runner-shared.ts\<close>, \<open>review/review-init.ts\<close> and
  \<open>runtime-execution/src/engine/turn-state.ts\<close>. Tables are lists of rows, times are milliseconds, JSON
  columns are the values of their text. Each database transaction is one function on the world; an
  exception in it (the left summand) rolls its tables back, while the policy service, which uses its own
  connection, keeps what it did.
\<close>

subsection \<open>Rows\<close>

datatype run_status = RunQueued | RunRunning | RunPaused | RunSucceeded | RunFailed | RunCancelled

datatype step_status =
  StepQueued | StepRunning | StepPaused | StepSucceeded | StepFailed | StepCancelled | StepSkipped

record wf_run =
  rn_tenant :: string
  rn_id :: string
  rn_agent :: string
  rn_workspace :: string
  rn_key :: string
  rn_conversation :: "string option"
  rn_status :: run_status
  rn_trigger :: json
  rn_plan :: "string option"
  rn_request :: "string option"
  rn_input :: "json option"
  rn_budgets :: "json option"
  rn_policy_snapshot :: "string option"
  rn_attempt :: nat
  rn_current_step :: "nat option"
  rn_created_at :: nat
  rn_updated_at :: nat
  rn_started_at :: "nat option"
  rn_finished_at :: "nat option"
  rn_blocked_reason :: "string option"
  rn_blocked_detail :: "string option"
  rn_budget_overridden_at :: "nat option"
  rn_lease_owner :: "string option"
  rn_lease_expires :: "nat option"
  rn_checkpoint :: "json option"
  rn_progress_at :: "nat option"
  rn_progress :: "json option"

record wf_step =
  rs_tenant :: string
  rs_id :: string
  rs_run :: string
  rs_index :: nat
  rs_status :: step_status
  rs_action :: action_primitive
  rs_created_at :: nat
  rs_updated_at :: nat
  rs_started_at :: "nat option"
  rs_finished_at :: "nat option"
  rs_idempotency_key :: "string option"
  rs_postcondition :: "json option"
  rs_result :: "json option"
  rs_error :: "string option"
  rs_artifacts :: json
  rs_metadata :: "json option"
  rs_cost :: "json option"
  rs_policy_snapshot :: "string option"
  rs_attempts :: nat
  rs_max_attempts :: int
  rs_timeout :: int

record wf_turn =
  tn_tenant :: string
  tn_id :: string
  tn_lease_owner :: "string option"
  tn_lease_expires :: "nat option"
  tn_checkpoint :: "json option"
  tn_progress_at :: "nat option"
  tn_progress :: "json option"

record wf_world =
  ww_runs :: "wf_run list"
  ww_steps :: "wf_step list"
  ww_turns :: "wf_turn list"
  ww_leases :: lease_db
  ww_approvals :: approvals_db
  ww_policy :: "service option"

datatype wf_error =
    ApprovalFailed approval_error
  | PolicyFailed service_error
  | StepNotFound string
  | DuplicateWorkflowRow

subsection \<open>Creating runs\<close>

record run_params =
  np_tenant :: string
  np_agent :: string
  np_workspace :: string
  np_key :: string
  np_conversation :: "string option"
  np_trigger :: json
  np_plan :: "string option"
  np_request :: "string option"
  np_input :: "json option"
  np_budgets :: "json option"
  np_policy_snapshot :: "string option"
  np_id :: "string option"
  np_status :: "run_status option"
  np_attempt :: "nat option"
  np_current_step :: "nat option"
  np_created_at :: "nat option"
  np_updated_at :: "nat option"
  np_started_at :: "nat option"
  np_finished_at :: "nat option"
  np_blocked_reason :: "string option"
  np_blocked_detail :: "string option"
  np_budget_overridden_at :: "nat option"
  np_lease_owner :: "string option"
  np_lease_expires :: "nat option"
  np_checkpoint :: "json option"
  np_progress_at :: "nat option"
  np_progress :: "json option"

record step_params =
  sp_action :: action_primitive
  sp_status :: "step_status option"
  sp_idempotency_key :: "string option"
  sp_postcondition :: "json option"
  sp_step_metadata :: "json option"
  sp_policy_snapshot :: "string option"
  sp_max_attempts :: "int option"
  sp_timeout :: "int option"

definition new_run :: "string \<Rightarrow> nat \<Rightarrow> run_params \<Rightarrow> wf_run" where
  "new_run fresh now p =
    (let created = (case np_created_at p of None \<Rightarrow> now | Some t \<Rightarrow> t) in
     \<lparr>rn_tenant = np_tenant p, rn_id = or_default (np_id p) fresh, rn_agent = np_agent p,
      rn_workspace = np_workspace p, rn_key = np_key p, rn_conversation = np_conversation p,
      rn_status = (case np_status p of None \<Rightarrow> RunQueued | Some s \<Rightarrow> s), rn_trigger = np_trigger p,
      rn_plan = np_plan p, rn_request = np_request p, rn_input = np_input p, rn_budgets = np_budgets p,
      rn_policy_snapshot = np_policy_snapshot p,
      rn_attempt = (case np_attempt p of None \<Rightarrow> 1 | Some n \<Rightarrow> n), rn_current_step = np_current_step p,
      rn_created_at = created, rn_updated_at = (case np_updated_at p of None \<Rightarrow> created | Some t \<Rightarrow> t),
      rn_started_at = np_started_at p, rn_finished_at = np_finished_at p,
      rn_blocked_reason = np_blocked_reason p, rn_blocked_detail = np_blocked_detail p,
      rn_budget_overridden_at = np_budget_overridden_at p, rn_lease_owner = np_lease_owner p,
      rn_lease_expires = np_lease_expires p, rn_checkpoint = np_checkpoint p,
      rn_progress_at = np_progress_at p, rn_progress = np_progress p\<rparr>)"

definition new_step :: "string \<Rightarrow> string \<Rightarrow> string \<Rightarrow> nat \<Rightarrow> nat \<Rightarrow> step_params \<Rightarrow> wf_step" where
  "new_step fresh tenant run index created p =
    \<lparr>rs_tenant = tenant, rs_id = fresh, rs_run = run, rs_index = index,
     rs_status = (case sp_status p of None \<Rightarrow> StepQueued | Some s \<Rightarrow> s), rs_action = sp_action p,
     rs_created_at = created, rs_updated_at = created, rs_started_at = None, rs_finished_at = None,
     rs_idempotency_key = (case sp_idempotency_key p of Some k \<Rightarrow> Some k | None \<Rightarrow> at_idempotency_key (sp_action p)),
     rs_postcondition = (case sp_postcondition p of
        Some v \<Rightarrow> Some v
      | None \<Rightarrow> (case at_postcondition (sp_action p) of
                  Some v \<Rightarrow> if falsy v then None else Some v | None \<Rightarrow> None)),
     rs_result = None, rs_error = None, rs_artifacts = JArr [], rs_metadata = sp_step_metadata p, rs_cost = None,
     rs_policy_snapshot = sp_policy_snapshot p, rs_attempts = 0,
     rs_max_attempts = (case sp_max_attempts p of None \<Rightarrow> 1 | Some n \<Rightarrow> n),
     rs_timeout = (case sp_timeout p of None \<Rightarrow> 60000 | Some n \<Rightarrow> n)\<rparr>"

definition insert_run :: "wf_run \<Rightarrow> wf_world \<Rightarrow> (wf_error + wf_run) \<times> wf_world" where
  "insert_run r w =
    (if matches (\<lambda>x. (rn_tenant x, rn_id x) = (rn_tenant r, rn_id r)) (ww_runs w) then (Inl DuplicateWorkflowRow, w)
     else (Inr r, w\<lparr>ww_runs := ww_runs w @ [r]\<rparr>))"

text \<open>Primary key and the unique index over run and step index.\<close>

definition insert_step :: "wf_step \<Rightarrow> wf_world \<Rightarrow> wf_error + wf_world" where
  "insert_step s w =
    (if matches (\<lambda>x. (rs_tenant x, rs_id x) = (rs_tenant s, rs_id s) \<or>
          (rs_tenant x, rs_run x, rs_index x) = (rs_tenant s, rs_run s, rs_index s)) (ww_steps w)
     then Inl DuplicateWorkflowRow
     else Inr (w\<lparr>ww_steps := ww_steps w @ [s]\<rparr>))"

fun insert_steps ::
  "(nat \<Rightarrow> string) \<Rightarrow> string \<Rightarrow> string \<Rightarrow> nat \<Rightarrow> nat \<Rightarrow> step_params list \<Rightarrow> wf_world \<Rightarrow> wf_error + wf_world" where
  "insert_steps fresh tenant run created index [] w = Inr w"
| "insert_steps fresh tenant run created index (p # ps) w =
    (case insert_step (new_step (fresh index) tenant run index created p) w of
       Inl e \<Rightarrow> Inl e
     | Inr w' \<Rightarrow> insert_steps fresh tenant run created (Suc index) ps w')"

definition steps_of :: "string \<Rightarrow> string \<Rightarrow> wf_world \<Rightarrow> wf_step list" where
  "steps_of tenant run w = sort_key rs_index (filter (\<lambda>s. rs_tenant s = tenant \<and> rs_run s = run) (ww_steps w))"

definition create_run_with_steps ::
  "string \<Rightarrow> (nat \<Rightarrow> string) \<Rightarrow> nat \<Rightarrow> run_params \<Rightarrow> step_params list \<Rightarrow> nat option \<Rightarrow> wf_world
    \<Rightarrow> (wf_error + wf_run \<times> wf_step list) \<times> wf_world" where
  "create_run_with_steps fresh_run fresh_step now p ps steps_created w =
    (case insert_run (new_run fresh_run now p) w of
       (Inl e, _) \<Rightarrow> (Inl e, w)
     | (Inr r, w1) \<Rightarrow>
         (case insert_steps fresh_step (np_tenant p) (rn_id r)
                 (case steps_created of None \<Rightarrow> rn_created_at r | Some t \<Rightarrow> t) 0 ps w1 of
            Inl e \<Rightarrow> (Inl e, w)
          | Inr w2 \<Rightarrow> (Inr (r, steps_of (np_tenant p) (rn_id r) w2), w2)))"

definition get_run :: "string \<Rightarrow> string \<Rightarrow> wf_world \<Rightarrow> wf_run option" where
  "get_run tenant run w = find (\<lambda>r. rn_tenant r = tenant \<and> rn_id r = run) (ww_runs w)"

text \<open>\<open>createQueuedWorkflowRunFromActions\<close> hands on these parameters only.\<close>

definition queued_params :: "run_params \<Rightarrow> run_params" where
  "queued_params p = p\<lparr>np_status := None, np_attempt := None, np_current_step := None, np_created_at := None,
     np_updated_at := None, np_started_at := None, np_finished_at := None, np_blocked_reason := None,
     np_blocked_detail := None, np_budget_overridden_at := None, np_lease_owner := None,
     np_lease_expires := None, np_checkpoint := None, np_progress_at := None, np_progress := None\<rparr>"

definition create_queued_run ::
  "string \<Rightarrow> (nat \<Rightarrow> string) \<Rightarrow> nat \<Rightarrow> run_params \<Rightarrow> action_primitive list \<Rightarrow> wf_world
    \<Rightarrow> (wf_error + string) \<times> wf_world" where
  "create_queued_run fresh_run fresh_step now p actions w =
    (let i = or_default (np_id p) fresh_run;
         step = (\<lambda>a. \<lparr>sp_action = a, sp_status = None, sp_idempotency_key = None, sp_postcondition = None,
           sp_step_metadata = None, sp_policy_snapshot = np_policy_snapshot p, sp_max_attempts = None,
           sp_timeout = None\<rparr>)
     in case create_run_with_steps fresh_run fresh_step now ((queued_params p)\<lparr>np_id := Some i\<rparr>) (map step actions) None w of
          (Inl e, w') \<Rightarrow> (Inl e, w')
        | (Inr _, w') \<Rightarrow> (Inr i, w'))"

text \<open>\<open>queueScopedWorkflowRunFromActions\<close>: the run is pinned to a snapshot of the effective bundle.\<close>

definition queue_scoped_run ::
  "platform \<Rightarrow> string \<Rightarrow> string \<Rightarrow> (nat \<Rightarrow> string) \<Rightarrow> nat \<Rightarrow> policy_bundle option \<Rightarrow> run_params
    \<Rightarrow> action_primitive list \<Rightarrow> service \<Rightarrow> wf_world \<Rightarrow> (wf_error + string) \<times> service \<times> wf_world" where
  "queue_scoped_run pl fresh_snap fresh_run fresh_step now playbook p actions sv w =
    (case load_effective_bundle pl playbook (np_tenant p) (Some (np_agent p)) sv of
       (Inl e, sv1) \<Rightarrow> (Inl (PolicyFailed e), sv1, w)
     | (Inr eff, sv1) \<Rightarrow>
         (case service_snapshot pl fresh_snap now (np_tenant p) (ef_bundle eff) sv1 of
            (snap, sv2) \<Rightarrow>
              (case create_queued_run fresh_run fresh_step now (p\<lparr>np_policy_snapshot := Some (sn_id snap)\<rparr>) actions w of
                 (r, w') \<Rightarrow> (r, sv2, w'))))"

subsection \<open>Statuses\<close>

definition is_terminal_run :: "run_status \<Rightarrow> bool" where
  "is_terminal_run s \<longleftrightarrow> s = RunCancelled \<or> s = RunFailed \<or> s = RunSucceeded"

definition is_live_step :: "step_status \<Rightarrow> bool" where
  "is_live_step s \<longleftrightarrow> s = StepQueued \<or> s = StepRunning \<or> s = StepPaused"

definition is_retryable_action :: "action_primitive \<Rightarrow> bool" where
  "is_retryable_action a \<longleftrightarrow>
    (case at_idempotency_key a of None \<Rightarrow> False | Some k \<Rightarrow> trim k \<noteq> []) \<or> \<not> requires_postcondition (at_kind a)"

definition approval_pause_reason :: "approval_kind \<Rightarrow> string" where
  "approval_pause_reason k = (if k = Budget then ''budget'' else if k = Policy then ''policy'' else ''approval'')"

definition normalize_resume_source :: "json \<Rightarrow> string option" where
  "normalize_resume_source context = normalize_token (field (coerce_record (Some context)) ''source'')"

definition list_runnable :: "string option \<Rightarrow> wf_world \<Rightarrow> wf_run list" where
  "list_runnable only w =
    (let runnable = (\<lambda>r. rn_status r = RunQueued \<or> rn_status r = RunRunning) in
     case only of
       Some i \<Rightarrow>
         if trim i \<noteq> []
         then (case find (\<lambda>r. rn_id r = trim i \<and> runnable r) (ww_runs w) of None \<Rightarrow> [] | Some r \<Rightarrow> [r])
         else order_by rn_created_at rn_id (filter runnable (ww_runs w))
     | None \<Rightarrow> order_by rn_created_at rn_id (filter runnable (ww_runs w)))"

text \<open>\<open>ORDER BY created_at DESC LIMIT 1\<close>.\<close>

definition newest :: "approval list \<Rightarrow> approval option" where
  "newest as = first_row (sort_key (\<lambda>a. - int (ap_created_at a)) as)"

definition latest_approval_for_step :: "string \<Rightarrow> string \<Rightarrow> approvals_db \<Rightarrow> string option" where
  "latest_approval_for_step tenant step db =
    map_option ap_id (newest (filter (\<lambda>a. ap_tenant a = tenant \<and> ap_step a = Some step) (ad_approvals db)))"

definition run_id_for_resume_token :: "string \<Rightarrow> string \<Rightarrow> wf_world \<Rightarrow> string option" where
  "run_id_for_resume_token tenant tok w =
    (let step_of = (\<lambda>a. find (\<lambda>s. rs_tenant s = ap_tenant a \<and> ap_step a = Some (rs_id s)) (ww_steps w)) in
     case newest (filter (\<lambda>a. ap_tenant a = tenant \<and> ap_resume_token a = Some tok \<and> step_of a \<noteq> None)
            (ad_approvals (ww_approvals w))) of
       None \<Rightarrow> None
     | Some a \<Rightarrow> (case step_of a of None \<Rightarrow> None
                  | Some s \<Rightarrow> if trim (rs_run s) = [] then None else Some (trim (rs_run s))))"

subsection \<open>Updates\<close>

definition run_is :: "string \<Rightarrow> string \<Rightarrow> wf_run \<Rightarrow> bool" where
  "run_is tenant run r \<longleftrightarrow> rn_tenant r = tenant \<and> rn_id r = run"

definition step_is :: "string \<Rightarrow> string \<Rightarrow> wf_step \<Rightarrow> bool" where
  "step_is tenant step s \<longleftrightarrow> rs_tenant s = tenant \<and> rs_id s = step"

definition set_run :: "string \<Rightarrow> string \<Rightarrow> (wf_run \<Rightarrow> wf_run) \<Rightarrow> wf_world \<Rightarrow> wf_world" where
  "set_run tenant run f w = w\<lparr>ww_runs := update_where (run_is tenant run) f (ww_runs w)\<rparr>"

definition set_step :: "string \<Rightarrow> string \<Rightarrow> (wf_step \<Rightarrow> wf_step) \<Rightarrow> wf_world \<Rightarrow> wf_world" where
  "set_step tenant step f w = w\<lparr>ww_steps := update_where (step_is tenant step) f (ww_steps w)\<rparr>"

definition sql_coalesce :: "'a option \<Rightarrow> 'a option \<Rightarrow> 'a option" where
  "sql_coalesce a b = (case a of None \<Rightarrow> b | Some _ \<Rightarrow> a)"

definition record_run_progress :: "string \<Rightarrow> string \<Rightarrow> nat option \<Rightarrow> json option \<Rightarrow> wf_world \<Rightarrow> wf_world" where
  "record_run_progress tenant run at progress =
    set_run tenant run (\<lambda>r. r\<lparr>rn_progress_at := at, rn_progress := progress\<rparr>)"

definition clear_run_lease :: "string \<Rightarrow> string \<Rightarrow> wf_world \<Rightarrow> wf_world" where
  "clear_run_lease tenant run = set_run tenant run (\<lambda>r. r\<lparr>rn_lease_owner := None, rn_lease_expires := None\<rparr>)"

definition set_turn :: "string \<Rightarrow> string \<Rightarrow> (wf_turn \<Rightarrow> wf_turn) \<Rightarrow> wf_world \<Rightarrow> wf_world" where
  "set_turn tenant turn f w =
    w\<lparr>ww_turns := update_where (\<lambda>t. tn_tenant t = tenant \<and> tn_id t = turn) f (ww_turns w)\<rparr>"

text \<open>\<open>updateTurnRuntimeStateTx\<close>: a patch sets the columns it has; an absent member is \<open>None\<close>.\<close>

record turn_patch =
  pt_lease_owner :: "string option option"
  pt_lease_expires :: "nat option option"
  pt_checkpoint :: "json option option"
  pt_progress_at :: "nat option option"
  pt_progress :: "json option option"

definition no_patch :: turn_patch where
  "no_patch = \<lparr>pt_lease_owner = None, pt_lease_expires = None, pt_checkpoint = None, pt_progress_at = None,
     pt_progress = None\<rparr>"

definition patch_or :: "'a option \<Rightarrow> 'a \<Rightarrow> 'a" where
  "patch_or p old = (case p of None \<Rightarrow> old | Some v \<Rightarrow> v)"

definition update_turn_state :: "string \<Rightarrow> string \<Rightarrow> turn_patch \<Rightarrow> wf_world \<Rightarrow> wf_world" where
  "update_turn_state tenant turn p =
    set_turn tenant turn (\<lambda>t. t\<lparr>tn_lease_owner := patch_or (pt_lease_owner p) (tn_lease_owner t),
      tn_lease_expires := patch_or (pt_lease_expires p) (tn_lease_expires t),
      tn_checkpoint := patch_or (pt_checkpoint p) (tn_checkpoint t),
      tn_progress_at := patch_or (pt_progress_at p) (tn_progress_at t),
      tn_progress := patch_or (pt_progress p) (tn_progress t)\<rparr>)"

definition set_turn_lease :: "string \<Rightarrow> string \<Rightarrow> string option \<Rightarrow> nat option \<Rightarrow> wf_world \<Rightarrow> wf_world" where
  "set_turn_lease tenant turn owner expires =
    update_turn_state tenant turn (no_patch\<lparr>pt_lease_owner := Some owner, pt_lease_expires := Some expires\<rparr>)"

definition clear_turn_lease :: "string \<Rightarrow> string \<Rightarrow> wf_world \<Rightarrow> wf_world" where
  "clear_turn_lease tenant turn = set_turn_lease tenant turn None None"

definition set_turn_checkpoint :: "string \<Rightarrow> string \<Rightarrow> json option \<Rightarrow> wf_world \<Rightarrow> wf_world" where
  "set_turn_checkpoint tenant turn checkpoint =
    update_turn_state tenant turn (no_patch\<lparr>pt_checkpoint := Some checkpoint\<rparr>)"

definition record_turn_progress :: "string \<Rightarrow> string \<Rightarrow> nat option \<Rightarrow> json option \<Rightarrow> wf_world \<Rightarrow> wf_world" where
  "record_turn_progress tenant turn at progress =
    update_turn_state tenant turn (no_patch\<lparr>pt_progress_at := Some at, pt_progress := Some progress\<rparr>)"

subsection \<open>Reviewed approvals\<close>

text \<open>The ids drawn while a transaction runs; \<open>wd_clock\<close> is the later clock reading of the budget check.\<close>

record wf_draw =
  wd_attempt :: string
  wd_approval :: string
  wd_review :: string
  wd_snapshot :: string
  wd_token :: string
  wd_clock :: nat

definition status_for_mode :: "review_mode \<Rightarrow> approval_status" where
  "status_for_mode m = (if m = AutoReview then Queued else AwaitingHuman)"

definition enriched_context ::
  "platform \<Rightarrow> wf_draw \<Rightarrow> nat \<Rightarrow> approval_params \<Rightarrow> service option \<Rightarrow> json option \<times> service option" where
  "enriched_context pl d now p psv =
    (let context = app_context p in
     case psv of
       None \<Rightarrow> (context, None)
     | Some sv \<Rightarrow>
         if (case context of None \<Rightarrow> None | Some c \<Rightarrow> extract_policy_snapshot_id c) \<noteq> None then (context, psv)
         else (case load_effective_bundle pl None (app_tenant p) (Some (app_agent p)) sv of
                 (Inl e, sv1) \<Rightarrow> (context, Some sv1)
               | (Inr eff, sv1) \<Rightarrow>
                   (case service_snapshot pl (wd_snapshot d) now (app_tenant p) (ef_bundle eff) sv1 of
                      (snap, sv2) \<Rightarrow>
                        (Some (with_policy_snapshot_context (case context of None \<Rightarrow> JNull | Some c \<Rightarrow> c) (sn_id snap)
                           (app_agent p) (app_workspace p)), Some sv2))))"

definition init_input :: "approval \<Rightarrow> approval_status \<Rightarrow> transition_input" where
  "init_input a s =
    \<lparr>ti_tenant = ap_tenant a, ti_id = ap_id a, ti_status = s,
     ti_reviewer = (if s = Queued then GuardianReviewer else SystemReviewer), ti_reviewer_id = None,
     ti_review_state = (if s = Queued then ReviewQueued else RequestedHuman),
     ti_reason = Some (if s = Queued then ''Queued for guardian review.'' else ''Awaiting human review.''),
     ti_risk_level = None, ti_risk_score = None, ti_evidence = None, ti_payload = None, ti_allowed = Some [s]\<rparr>"

definition create_reviewed_approval ::
  "platform \<Rightarrow> wf_draw \<Rightarrow> nat \<Rightarrow> approval_params \<Rightarrow> service option \<Rightarrow> approvals_db
    \<Rightarrow> (approval_error + approval) \<times> service option \<times> approvals_db" where
  "create_reviewed_approval pl d now p psv db =
    (case resolve_auto_review_mode pl (app_tenant p) (Some (app_agent p)) psv of
       (mode, psv1) \<Rightarrow>
         (case enriched_context pl d now p psv1 of
            (context, psv2) \<Rightarrow>
              (let s = status_for_mode mode in
               case create_approval (wd_approval d) now (p\<lparr>app_status := Some s, app_context := context\<rparr>) db of
                 (Inl e, db1) \<Rightarrow> (Inl e, psv2, db1)
               | (Inr a, db1) \<Rightarrow>
                   if latest_review db1 a \<noteq> None \<or> ap_status a \<noteq> Queued \<and> ap_status a \<noteq> AwaitingHuman
                   then (Inr a, psv2, db1)
                   else (case transition_with_review (wd_review d) now (init_input a s) db1 of
                           (Inl e, db2) \<Rightarrow> (Inl e, psv2, db2)
                         | (Inr None, db2) \<Rightarrow> (Inr a, psv2, db2)
                         | (Inr (Some (a', _)), db2) \<Rightarrow> (Inr a', psv2, db2)))))"

end
