(* ===== verification/Workflow_Runner.thy ===== *)
theory Workflow_Runner
  imports Workflow_Run
begin

text \<open>
  The runner of workflow runs: \<open>runner-claim.ts\<close>, \<open>runner-execution.ts\<close>, \<open>runner-control.ts\<close> and
  \<open>runner.ts\<close> of \<open>gateway/src/modules/workflow-run\<close>. A worker claims the next step of a run in one
  transaction, executes it outside of any transaction, and files the result in a second one;
  approvals resume a paused run and operators cancel it in transactions of their own.
\<close>

subsection \<open>Environment\<close>

text \<open>What the runner is given: the policy platform, the redaction and the effects of the built-in tools.\<close>

record wf_env =
  we_platform :: platform
  we_redact_text :: "string \<Rightarrow> string"
  we_redact :: "json \<Rightarrow> json"
  we_tool_effect :: "string \<Rightarrow> tool_effect option"

definition transaction :: "(wf_world \<Rightarrow> (wf_error + 'a) \<times> wf_world) \<Rightarrow> wf_world \<Rightarrow> (wf_error + 'a) \<times> wf_world" where
  "transaction f w =
    (case f w of (Inl e, w') \<Rightarrow> (Inl e, w\<lparr>ww_policy := ww_policy w'\<rparr>) | (Inr x, w') \<Rightarrow> (Inr x, w'))"

fun approval_kind_text :: "approval_kind \<Rightarrow> string" where
  "approval_kind_text WorkflowStep = ''workflow_step''"
| "approval_kind_text Intent = ''intent''"
| "approval_kind_text Retry = ''retry''"
| "approval_kind_text Policy = ''policy''"
| "approval_kind_text Budget = ''budget''"
| "approval_kind_text Takeover = ''takeover''"
| "approval_kind_text ConnectorSend = ''connector.send''"
| "approval_kind_text WorkIntervention = ''work.intervention''"

subsection \<open>Pausing and failing a run\<close>

record pause_request =
  pz_kind :: approval_kind
  pz_prompt :: string
  pz_detail :: string
  pz_context :: "json option"
  pz_expires_at :: "nat option"

definition pause_approval_params :: "wf_env \<Rightarrow> wf_draw \<Rightarrow> wf_run \<Rightarrow> wf_step \<Rightarrow> pause_request \<Rightarrow> approval_params" where
  "pause_approval_params env d run step p =
    \<lparr>app_tenant = rn_tenant run, app_agent = rn_agent run, app_workspace = rn_workspace run,
     app_key = ''workflow:'' @ rn_id run @ '':step:'' @ show_nat (rs_index step) @ '':'' @ approval_kind_text (pz_kind p),
     app_prompt = pz_prompt p, app_motivation = Some (we_redact_text env (pz_detail p)),
     app_kind = Some (pz_kind p), app_status = None,
     app_context = Some (we_redact env (case pz_context p of
        Some c \<Rightarrow> c
      | None \<Rightarrow> JObj [(''source'', JStr ''workflow-run''), (''kind'', JStr (approval_kind_text (pz_kind p)))])),
     app_expires_at = pz_expires_at p, app_conversation = None, app_plan = None, app_turn = None,
     app_turn_item = None, app_step = Some (rs_id step), app_work_item = None, app_work_item_task = None,
     app_resume_token = Some (''resume-'' @ wd_token d)\<rparr>"

definition pause_run ::
  "wf_env \<Rightarrow> wf_draw \<Rightarrow> nat \<Rightarrow> wf_run \<Rightarrow> wf_step \<Rightarrow> pause_request \<Rightarrow> wf_world \<Rightarrow> (wf_error + unit) \<times> wf_world" where
  "pause_run env d now run step p w =
    (case create_reviewed_approval (we_platform env) d now (pause_approval_params env d run step p)
            (ww_policy w) (ww_approvals w) of
       (Inl e, psv, _) \<Rightarrow> (Inl (ApprovalFailed e), w\<lparr>ww_policy := psv\<rparr>)
     | (Inr a, psv, db) \<Rightarrow>
         (let t = rn_tenant run; i = rn_id run; reason = approval_pause_reason (pz_kind p)
          in (Inr (), record_run_progress t i (Some now) (Some (JObj
                [(''kind'', JStr ''workflow_run.paused''), (''workflow_run_step_id'', JStr (rs_id step)),
                 (''approval_id'', JStr (ap_id a)), (''paused_reason'', JStr reason)]))
               (clear_turn_lease t i (clear_run_lease t i
                 (set_run t i (\<lambda>r. r\<lparr>rn_status := RunPaused, rn_blocked_reason := Some reason,
                    rn_blocked_detail := Some (we_redact_text env (pz_detail p)), rn_updated_at := now\<rparr>)
                   (w\<lparr>ww_policy := psv, ww_approvals := db\<rparr>)))))))"

record prepared_result =
  pr_result :: "json option"
  pr_metadata :: "json option"
  pr_artifacts :: json
  pr_cost :: json
  pr_error :: "string option"
  pr_pause :: "pause_request option"
  pr_pause_detail :: "string option"
  pr_postcondition_error :: "string option"

definition fail_run ::
  "wf_env \<Rightarrow> wf_run \<Rightarrow> wf_step \<Rightarrow> string \<Rightarrow> nat \<Rightarrow> prepared_result option \<Rightarrow> wf_world \<Rightarrow> wf_world" where
  "fail_run env run step err now prepared w =
    (let t = rn_tenant run; i = rn_id run;
         w1 = set_step t (rs_id step) (\<lambda>s. s\<lparr>rs_status := StepFailed, rs_updated_at := now,
                rs_finished_at := sql_coalesce (rs_finished_at s) (Some now),
                rs_error := Some (we_redact_text env err),
                rs_result := sql_coalesce (Option.bind prepared pr_result) (rs_result s),
                rs_metadata := sql_coalesce (Option.bind prepared pr_metadata) (rs_metadata s),
                rs_artifacts := (case prepared of None \<Rightarrow> rs_artifacts s | Some q \<Rightarrow> pr_artifacts q),
                rs_cost := sql_coalesce (map_option pr_cost prepared) (rs_cost s)\<rparr>) w;
         w2 = w1\<lparr>ww_steps := update_where (\<lambda>s. rs_tenant s = t \<and> rs_run s = i \<and> rs_id s \<noteq> rs_id step \<and>
                  is_live_step (rs_status s))
                (\<lambda>s. s\<lparr>rs_status := StepCancelled, rs_updated_at := now,
                  rs_finished_at := sql_coalesce (rs_finished_at s) (Some now)\<rparr>) (ww_steps w1)\<rparr>;
         w3 = set_run t i (\<lambda>r. r\<lparr>rn_status := RunFailed, rn_blocked_reason := None,
                rn_blocked_detail := Some (we_redact_text env err), rn_updated_at := now,
                rn_finished_at := sql_coalesce (rn_finished_at r) (Some now)\<rparr>) w2
     in record_run_progress t i (Some now) (Some (JObj [(''kind'', JStr ''workflow_run.failed''),
          (''workflow_run_step_id'', JStr (rs_id step)), (''error'', JStr err)]))
          (clear_turn_lease t i (clear_run_lease t i w3)))"

subsection \<open>Claiming a step\<close>

record step_claim =
  cm_run :: wf_run
  cm_step :: wf_step
  cm_attempt_id :: string
  cm_attempt :: nat

definition retry_request :: "wf_step \<Rightarrow> pause_request" where
  "retry_request step =
    \<lparr>pz_kind = Retry, pz_prompt = ''Retry required - step is not idempotent'',
     pz_detail = ''Step was interrupted while running and is state-changing without an idempotency key. Approve to retry.'',
     pz_context = Some (JObj [(''action_type'', JStr (kind_text (at_kind (rs_action step)))),
       (''attempt_count'', JNum (int (rs_attempts step))), (''max_attempts'', JNum (rs_max_attempts step))]),
     pz_expires_at = None\<rparr>"

text \<open>\<open>recoverRunningStep\<close>: the step queued again, or nothing when the run was failed or paused.\<close>

definition recover_running_step ::
  "wf_env \<Rightarrow> wf_draw \<Rightarrow> nat \<Rightarrow> wf_run \<Rightarrow> wf_step \<Rightarrow> wf_world \<Rightarrow> (wf_error + wf_step option) \<times> wf_world" where
  "recover_running_step env d now run step w =
    (if max 1 (rs_max_attempts step) \<le> int (rs_attempts step)
     then (Inr None, fail_run env run step ''max attempts exhausted during recovery'' now None w)
     else if \<not> is_retryable_action (rs_action step)
     then (case pause_run env d now run step (retry_request step) w of
             (Inl e, w') \<Rightarrow> (Inl e, w') | (Inr _, w') \<Rightarrow> (Inr None, w'))
     else (Inr (Some (step\<lparr>rs_status := StepQueued\<rparr>)),
           w\<lparr>ww_steps := update_where (\<lambda>s. step_is (rn_tenant run) (rs_id step) s \<and> rs_status s = StepRunning)
               (\<lambda>s. s\<lparr>rs_status := StepQueued, rs_updated_at := now\<rparr>) (ww_steps w)\<rparr>))"

definition max_duration :: "json option \<Rightarrow> int option" where
  "max_duration budgets =
    (case coerce_record budgets of
       None \<Rightarrow> None
     | Some m \<Rightarrow> (case om_get m ''max_duration_ms'' of
                    Some (JNum n) \<Rightarrow> if 0 < n then Some n else None | _ \<Rightarrow> None))"

definition budget_request :: "json \<Rightarrow> wf_step \<Rightarrow> int \<Rightarrow> int \<Rightarrow> pause_request" where
  "budget_request budgets step elapsed limit =
    \<lparr>pz_kind = Budget, pz_prompt = ''Budget exceeded - continue execution?'',
     pz_detail = ''elapsed_ms='' @ show_int elapsed @ '' > max_duration_ms='' @ show_int limit,
     pz_context = Some (JObj [(''budgets'', budgets), (''spent'', JObj [(''elapsed_ms'', JNum elapsed)]),
       (''next_step_index'', JNum (int (rs_index step)))]), pz_expires_at = None\<rparr>"

definition maybe_pause_for_budget ::
  "wf_env \<Rightarrow> wf_draw \<Rightarrow> nat \<Rightarrow> wf_run \<Rightarrow> wf_step \<Rightarrow> wf_world \<Rightarrow> (wf_error + bool) \<times> wf_world" where
  "maybe_pause_for_budget env d now run step w =
    (case (rn_budgets run, rn_budget_overridden_at run, max_duration (rn_budgets run), rn_started_at run) of
       (Some budgets, None, Some limit, Some started) \<Rightarrow>
         (let elapsed = max 0 (int (wd_clock d) - int started)
          in if elapsed \<le> limit then (Inr False, w)
             else (case pause_run env d now run step (budget_request budgets step elapsed limit) w of
                     (Inl e, w') \<Rightarrow> (Inl e, w') | (Inr _, w') \<Rightarrow> (Inr True, w')))
     | _ \<Rightarrow> (Inr False, w))"

definition run_tool_call :: "wf_env \<Rightarrow> wf_run \<Rightarrow> action_call \<Rightarrow> tool_call" where
  "run_tool_call env run c =
    \<lparr>tc_tenant = rn_tenant run, tc_agent = rn_agent run, tc_workspace = Some (rn_workspace run),
     tc_tool = cl_tool c, tc_match_target = cl_target c, tc_url = cl_url c, tc_secret_scopes = None,
     tc_provenance = Some \<lparr>pv_source = ''workflow'', pv_trusted = True\<rparr>,
     tc_effect = we_tool_effect env (cl_tool c), tc_role_allowed = None\<rparr>"

definition policy_pause_request :: "string \<Rightarrow> action_call \<Rightarrow> pause_request" where
  "policy_pause_request sid c =
    \<lparr>pz_kind = Policy, pz_prompt = ''Policy approval required to continue execution'',
     pz_detail = ''policy requires approval for '' @ quoted (cl_tool c) @ '' ('' @
       (if cl_target c = [] then ''unknown'' else cl_target c) @ '')'',
     pz_context = Some (JObj ([(''source'', JStr ''workflow-run-policy''), (''policy_snapshot_id'', JStr sid),
       (''tool_id'', JStr (cl_tool c)), (''tool_match_target'', JStr (cl_target c))] @
       (case cl_url c of None \<Rightarrow> [] | Some u \<Rightarrow> [(''url'', JStr u)]))), pz_expires_at = None\<rparr>"

definition latest_step_approval :: "wf_run \<Rightarrow> wf_step \<Rightarrow> wf_world \<Rightarrow> approval option" where
  "latest_step_approval run step w =
    (case latest_approval_for_step (rn_tenant run) (rs_id step) (ww_approvals w) of
       None \<Rightarrow> None | Some i \<Rightarrow> get_approval (rn_tenant run) i (ww_approvals w))"

definition maybe_pause_for_policy ::
  "wf_env \<Rightarrow> wf_draw \<Rightarrow> nat \<Rightarrow> wf_run \<Rightarrow> wf_step \<Rightarrow> wf_world \<Rightarrow> (wf_error + bool) \<times> wf_world" where
  "maybe_pause_for_policy env d now run step w =
    (case (ww_policy w, rn_policy_snapshot run) of
       (Some sv, Some sid) \<Rightarrow>
         if sid = [] \<or> at_kind (rs_action step) = Decide then (Inr False, w)
         else (let c = tool_call_from_action (rs_action step) in
           case evaluate_tool_call_from_snapshot (we_platform env) now sid (run_tool_call env run c) sv of
             (Inl e, sv1) \<Rightarrow> (Inl (PolicyFailed e), w\<lparr>ww_policy := Some sv1\<rparr>)
           | (Inr ev, sv1) \<Rightarrow>
               (let w1 = w\<lparr>ww_policy := Some sv1\<rparr> in
                if pe_decision ev = Allow \<or> is_observe_only sv1 then (Inr False, w1)
                else if pe_decision ev = Deny
                then (Inr True, fail_run env run step (''policy denied '' @ cl_tool c) now None w1)
                else if map_option ap_status (latest_step_approval run step w1) = Some Approved then (Inr False, w1)
                else (case pause_run env d now run step (policy_pause_request sid c) w1 of
                        (Inl e, w') \<Rightarrow> (Inl e, w') | (Inr _, w') \<Rightarrow> (Inr True, w'))))
     | _ \<Rightarrow> (Inr False, w))"

definition lease_available :: "string \<Rightarrow> nat \<Rightarrow> wf_run \<Rightarrow> bool" where
  "lease_available worker now r \<longleftrightarrow>
    rn_lease_owner r = None \<or> rn_lease_owner r = Some worker \<or>
    (case rn_lease_expires r of None \<Rightarrow> False | Some t \<Rightarrow> t \<le> now)"

definition run_lease_ttl :: nat where
  "run_lease_ttl = 30000"

text \<open>The first step that is not settled.\<close>

definition next_step_of :: "wf_run \<Rightarrow> wf_world \<Rightarrow> wf_step option" where
  "next_step_of r w = find (\<lambda>s. is_live_step (rs_status s)) (steps_of (rn_tenant r) (rn_id r) w)"

text \<open>A run without an open step has succeeded.\<close>

definition complete_run :: "nat \<Rightarrow> wf_run \<Rightarrow> wf_world \<Rightarrow> wf_world" where
  "complete_run now r w =
    (let t = rn_tenant r; i = rn_id r;
         last_index = foldr max (map rs_index (steps_of t i w)) 0
     in clear_run_lease t i (w\<lparr>ww_runs := update_where
          (\<lambda>x. run_is t i x \<and> (rn_status x = RunQueued \<or> rn_status x = RunRunning))
          (\<lambda>x. x\<lparr>rn_status := RunSucceeded, rn_updated_at := now,
             rn_finished_at := sql_coalesce (rn_finished_at x) (Some now), rn_current_step := Some last_index\<rparr>)
          (ww_runs w)\<rparr>))"

definition claimed_progress :: "wf_draw \<Rightarrow> wf_step \<Rightarrow> json" where
  "claimed_progress d step = JObj [(''kind'', JStr ''workflow_run.claimed''), (''step_index'', JNum (int (rs_index step))),
     (''workflow_run_step_id'', JStr (rs_id step)), (''attempt_id'', JStr (wd_attempt d))]"

text \<open>The updates of a granted claim: the step, the run, the turn and the progress records.\<close>

definition is_queued_step :: "string \<Rightarrow> string \<Rightarrow> wf_step \<Rightarrow> bool" where
  "is_queued_step t sid s \<longleftrightarrow> step_is t sid s \<and> rs_status s = StepQueued"

definition start_step :: "wf_draw \<Rightarrow> string \<Rightarrow> nat \<Rightarrow> wf_run \<Rightarrow> wf_step \<Rightarrow> wf_world \<Rightarrow> wf_world" where
  "start_step d worker now run step w =
    (let t = rn_tenant run; i = rn_id run;
         w1 = w\<lparr>ww_steps := update_where (is_queued_step t (rs_id step)) (\<lambda>s. s\<lparr>rs_status := StepRunning,
                rs_updated_at := now, rs_started_at := sql_coalesce (rs_started_at s) (Some now),
                rs_attempts := Suc (rs_attempts s), rs_error := None\<rparr>) (ww_steps w)\<rparr>;
         w2 = set_run t i (\<lambda>r. r\<lparr>rn_status := RunRunning, rn_updated_at := now,
                rn_started_at := sql_coalesce (rn_started_at r) (Some now),
                rn_current_step := Some (rs_index step), rn_lease_owner := Some worker,
                rn_lease_expires := Some (now + run_lease_ttl)\<rparr>) w1
     in record_run_progress t i (Some now) (Some (claimed_progress d step))
          (record_turn_progress t i (Some now) (Some (claimed_progress d step))
            (set_turn_lease t i (Some worker) (Some (now + run_lease_ttl)) w2)))"

text \<open>The last part of the claim: the workspace lease for command lines, then the conditional update.\<close>

definition take_step ::
  "wf_draw \<Rightarrow> string \<Rightarrow> nat \<Rightarrow> wf_run \<Rightarrow> wf_step \<Rightarrow> wf_world \<Rightarrow> step_claim option \<times> wf_world" where
  "take_step d worker now run step w =
    (let t = rn_tenant run; needed = (at_kind (rs_action step) = CLI);
         (ok, leases) = (if needed
            then try_acquire_workspace_lease (t, rn_workspace run) worker (int now) (int run_lease_ttl) (ww_leases w)
            else (True, ww_leases w));
         w1 = w\<lparr>ww_leases := leases\<rparr>
     in if \<not> ok then (None, w1)
        else if length (filter (is_queued_step t (rs_id step)) (ww_steps w1)) \<noteq> 1
        then (None, if needed then w1\<lparr>ww_leases := release_workspace_lease (t, rn_workspace run) worker (ww_leases w1)\<rparr>
                    else w1)
        else (Some \<lparr>cm_run = run, cm_step = step\<lparr>rs_status := StepRunning, rs_attempts := Suc (rs_attempts step)\<rparr>,
                    cm_attempt_id = wd_attempt d, cm_attempt = Suc (rs_attempts step)\<rparr>,
              start_step d worker now run step w1))"

definition claim_step ::
  "wf_env \<Rightarrow> wf_draw \<Rightarrow> string \<Rightarrow> nat \<Rightarrow> wf_run \<Rightarrow> wf_step \<Rightarrow> wf_world \<Rightarrow> (wf_error + step_claim option) \<times> wf_world" where
  "claim_step env d worker now run step w =
    (case maybe_pause_for_budget env d now run step w of
       (Inl e, w1) \<Rightarrow> (Inl e, w1)
     | (Inr True, w1) \<Rightarrow> (Inr None, w1)
     | (Inr False, w1) \<Rightarrow>
         (case maybe_pause_for_policy env d now run step w1 of
            (Inl e, w2) \<Rightarrow> (Inl e, w2)
          | (Inr True, w2) \<Rightarrow> (Inr None, w2)
          | (Inr False, w2) \<Rightarrow> (case take_step d worker now run step w2 of (c, w3) \<Rightarrow> (Inr c, w3))))"

definition claim_next_body ::
  "wf_env \<Rightarrow> wf_draw \<Rightarrow> string \<Rightarrow> string \<Rightarrow> string \<Rightarrow> nat \<Rightarrow> wf_world \<Rightarrow> (wf_error + step_claim option) \<times> wf_world" where
  "claim_next_body env d tenant i worker now w =
    (case get_run tenant i w of
       None \<Rightarrow> (Inr None, w)
     | Some run \<Rightarrow>
         if rn_status run = RunPaused \<or> is_terminal_run (rn_status run) \<or> \<not> lease_available worker now run
         then (Inr None, w)
         else (case next_step_of run w of
                 None \<Rightarrow> (Inr None, complete_run now run w)
               | Some step \<Rightarrow>
                   if rs_status step = StepPaused then (Inr None, w)
                   else if rs_status step = StepRunning
                   then (case recover_running_step env d now run step w of
                           (Inl e, w1) \<Rightarrow> (Inl e, w1)
                         | (Inr None, w1) \<Rightarrow> (Inr None, w1)
                         | (Inr (Some step'), w1) \<Rightarrow> claim_step env d worker now run step' w1)
                   else claim_step env d worker now run step w))"

definition claim_next_step ::
  "wf_env \<Rightarrow> wf_draw \<Rightarrow> string \<Rightarrow> string \<Rightarrow> string \<Rightarrow> nat \<Rightarrow> wf_world \<Rightarrow> (wf_error + step_claim option) \<times> wf_world" where
  "claim_next_step env d tenant i worker now = transaction (claim_next_body env d tenant i worker now)"

subsection \<open>Executing a claim\<close>

text \<open>What an executor answers beside success, error and a result value.\<close>

record step_payload =
  py_result :: "json option"
  py_evidence :: "evaluation_context option"
  py_evidence_json :: json
  py_artifacts :: "json list option"
  py_cost :: "(string, json) omap option"
  py_pause :: "pause_request option"

definition no_payload :: step_payload where
  "no_payload = \<lparr>py_result = None, py_evidence = None, py_evidence_json = JNull, py_artifacts = None, py_cost = None,
     py_pause = None\<rparr>"

definition payload_of :: "step_payload step_result \<Rightarrow> step_payload" where
  "payload_of r = (case sr_value r of None \<Rightarrow> no_payload | Some p \<Rightarrow> p)"

definition postcondition_outcome :: "json \<Rightarrow> evaluation_context option \<Rightarrow> string option \<times> string option" where
  "postcondition_outcome raw evidence =
    (case evaluate_postcondition raw
            (case evidence of Some c \<Rightarrow> c | None \<Rightarrow> \<lparr>ec_http = None, ec_json = None, ec_dom = None\<rparr>) of
       Inr report \<Rightarrow> (None, if po_passed report then None else Some ''postcondition failed'')
     | Inl (PostconditionError MissingEvidence msg) \<Rightarrow> (Some (''postcondition missing evidence: '' @ msg), None)
     | Inl (PostconditionError _ msg) \<Rightarrow> (None, Some (''postcondition error: '' @ msg)))"

definition build_prepared_result ::
  "wf_env \<Rightarrow> step_payload step_result \<Rightarrow> json option \<Rightarrow> nat \<Rightarrow> nat \<Rightarrow> prepared_result" where
  "build_prepared_result env r postcondition wall_start wall_now =
    (let p = payload_of r;
         duration = JNum (int (wall_now - wall_start));
         cost = (case py_cost p of
            None \<Rightarrow> [(''duration_ms'', duration)]
          | Some m \<Rightarrow> om_set ''duration_ms''
              (case om_get m ''duration_ms'' of None \<Rightarrow> duration | Some JNull \<Rightarrow> duration | Some v \<Rightarrow> v) m);
         (pause_detail, post_error) = (case postcondition of
            Some raw \<Rightarrow> if sr_success r then postcondition_outcome raw (py_evidence p) else (None, None)
          | None \<Rightarrow> (None, None))
     in \<lparr>pr_result = map_option (we_redact env) (py_result p),
         pr_metadata = (if py_evidence p = None then None else Some (we_redact env (py_evidence_json p))),
         pr_artifacts = we_redact env (JArr (case py_artifacts p of None \<Rightarrow> [] | Some as \<Rightarrow> as)),
         pr_cost = we_redact env (JObj cost), pr_error = sr_error r, pr_pause = py_pause p,
         pr_pause_detail = pause_detail, pr_postcondition_error = post_error\<rparr>)"

definition store_result :: "prepared_result \<Rightarrow> wf_step \<Rightarrow> wf_step" where
  "store_result q s = s\<lparr>rs_result := pr_result q, rs_metadata := pr_metadata q, rs_artifacts := pr_artifacts q,
     rs_cost := Some (pr_cost q)\<rparr>"

definition persist_paused_step ::
  "wf_env \<Rightarrow> wf_draw \<Rightarrow> nat \<Rightarrow> step_claim \<Rightarrow> prepared_result \<Rightarrow> pause_request \<Rightarrow> wf_world \<Rightarrow> (wf_error + unit) \<times> wf_world" where
  "persist_paused_step env d now c q p w =
    pause_run env d now (cm_run c) (cm_step c) p
      (set_step (rn_tenant (cm_run c)) (rs_id (cm_step c))
        (\<lambda>s. (store_result q s)\<lparr>rs_status := StepPaused, rs_updated_at := now, rs_error := None\<rparr>) w)"

definition takeover_request :: "step_claim \<Rightarrow> string \<Rightarrow> pause_request" where
  "takeover_request c detail =
    \<lparr>pz_kind = Takeover, pz_prompt = ''Takeover required to continue workflow'', pz_detail = detail,
     pz_context = Some (JObj [(''source'', JStr ''workflow-run''), (''workflow_run_id'', JStr (rn_id (cm_run c))),
       (''workflow_run_step_id'', JStr (rs_id (cm_step c)))]), pz_expires_at = None\<rparr>"

definition requeue_step :: "wf_env \<Rightarrow> nat \<Rightarrow> step_claim \<Rightarrow> prepared_result \<Rightarrow> string \<Rightarrow> wf_world \<Rightarrow> wf_world" where
  "requeue_step env now c q err w =
    (let t = rn_tenant (cm_run c); i = rn_id (cm_run c) in
     record_run_progress t i (Some now) (Some (JObj [(''kind'', JStr ''workflow_run.retry_queued''),
         (''workflow_run_step_id'', JStr (rs_id (cm_step c))), (''error'', JStr err)]))
       (clear_turn_lease t i (clear_run_lease t i
         (set_run t i (\<lambda>r. r\<lparr>rn_status := RunQueued, rn_updated_at := now\<rparr>)
           (set_step t (rs_id (cm_step c)) (\<lambda>s. (store_result q s)\<lparr>rs_status := StepQueued, rs_updated_at := now,
              rs_error := Some (we_redact_text env err)\<rparr>) w)))))"

definition finish_step :: "nat \<Rightarrow> step_claim \<Rightarrow> prepared_result \<Rightarrow> wf_world \<Rightarrow> wf_world" where
  "finish_step now c q w =
    (let t = rn_tenant (cm_run c); i = rn_id (cm_run c); index = rs_index (cm_step c);
         last_step = (filter (\<lambda>s. rs_tenant s = t \<and> rs_run s = i \<and> index < rs_index s) (ww_steps w) = [])
     in record_run_progress t i (Some now) (Some (JObj
          [(''kind'', JStr (if last_step then ''workflow_run.completed'' else ''workflow_run.step_completed'')),
           (''workflow_run_step_id'', JStr (rs_id (cm_step c))), (''step_index'', JNum (int index))]))
       (clear_turn_lease t i (clear_run_lease t i
         (set_run t i (\<lambda>r. r\<lparr>rn_status := (if last_step then RunSucceeded else RunQueued), rn_updated_at := now,
            rn_finished_at := (if last_step then sql_coalesce (rn_finished_at r) (Some now) else rn_finished_at r),
            rn_current_step := Some index\<rparr>)
           (set_step t (rs_id (cm_step c)) (\<lambda>s. (store_result q s)\<lparr>rs_status := StepSucceeded, rs_updated_at := now,
              rs_finished_at := sql_coalesce (rs_finished_at s) (Some now), rs_error := None\<rparr>) w)))))"

text \<open>A text that is there and not empty.\<close>

definition given :: "string option \<Rightarrow> string option" where
  "given v = (case v of Some s \<Rightarrow> if s = [] then None else Some s | None \<Rightarrow> None)"

definition commit_body ::
  "wf_env \<Rightarrow> wf_draw \<Rightarrow> nat \<Rightarrow> step_claim \<Rightarrow> bool \<Rightarrow> prepared_result \<Rightarrow> wf_world \<Rightarrow> (wf_error + unit) \<times> wf_world" where
  "commit_body env d now c success q w =
    (case get_run (rn_tenant (cm_run c)) (rn_id (cm_run c)) w of
       None \<Rightarrow> (Inr (), w)
     | Some current \<Rightarrow>
         if is_terminal_run (rn_status current) then (Inr (), w)
         else (case pr_pause q of
                 Some p \<Rightarrow> persist_paused_step env d now c q p w
               | None \<Rightarrow>
                   (case given (pr_pause_detail q) of
                      Some detail \<Rightarrow> persist_paused_step env d now c q (takeover_request c detail) w
                    | None \<Rightarrow>
                        if \<not> success \<or> given (pr_postcondition_error q) \<noteq> None
                        then (let err = (case pr_postcondition_error q of Some e \<Rightarrow> e
                                | None \<Rightarrow> (case pr_error q of Some e \<Rightarrow> e | None \<Rightarrow> ''step failed''))
                              in if int (cm_attempt c) < max 1 (rs_max_attempts (cm_step c)) \<and>
                                    is_retryable_action (rs_action (cm_step c))
                                 then (Inr (), requeue_step env now c q err w)
                                 else (Inr (), fail_run env (cm_run c) (cm_step c) err now (Some q) w))
                        else (Inr (), finish_step now c q w))))"

definition commit_claim ::
  "wf_env \<Rightarrow> wf_draw \<Rightarrow> nat \<Rightarrow> nat \<Rightarrow> nat \<Rightarrow> step_claim \<Rightarrow> string + step_payload step_result \<Rightarrow> wf_world
    \<Rightarrow> (wf_error + unit) \<times> wf_world" where
  "commit_claim env d wall_start wall_now now c outcome w =
    (let r = execute_with_timeout outcome;
         q = build_prepared_result env r (rs_postcondition (cm_step c)) wall_start wall_now
     in transaction (commit_body env d now c (sr_success r) q) w)"

record exec_context =
  ex_tenant :: string
  ex_turn :: string
  ex_step :: string
  ex_attempt :: string
  ex_approval :: "string option"
  ex_agent :: string
  ex_key :: string
  ex_workspace :: string
  ex_policy_snapshot :: "string option"

definition build_execution_context :: "step_claim \<Rightarrow> wf_world \<Rightarrow> exec_context" where
  "build_execution_context c w =
    (let run = cm_run c in
     \<lparr>ex_tenant = rn_tenant run, ex_turn = rn_id run, ex_step = rs_id (cm_step c), ex_attempt = cm_attempt_id c,
      ex_approval = latest_approval_for_step (rn_tenant run) (rs_id (cm_step c)) (ww_approvals w),
      ex_agent = rn_agent run, ex_key = (case rn_conversation run of None \<Rightarrow> rn_key run | Some k \<Rightarrow> k),
      ex_workspace = rn_workspace run, ex_policy_snapshot = rn_policy_snapshot run\<rparr>)"

text \<open>The executor is given the action, the plan, the step index, the time limit and the context.\<close>

type_synonym executor =
  "action_primitive \<Rightarrow> string \<Rightarrow> nat \<Rightarrow> int \<Rightarrow> exec_context \<Rightarrow> string + step_payload step_result"

definition execute_claim ::
  "wf_env \<Rightarrow> executor \<Rightarrow> wf_draw \<Rightarrow> nat \<Rightarrow> nat \<Rightarrow> nat \<Rightarrow> step_claim \<Rightarrow> wf_world \<Rightarrow> (wf_error + unit) \<times> wf_world" where
  "execute_claim env exec d wall_start wall_now now c w =
    commit_claim env d wall_start wall_now now c
      (exec (rs_action (cm_step c)) (case rn_plan (cm_run c) of None \<Rightarrow> rn_id (cm_run c) | Some p \<Rightarrow> p)
         (rs_index (cm_step c)) (max 1 (rs_timeout (cm_step c))) (build_execution_context c w)) w"

subsection \<open>A tick of a worker\<close>

fun claim_first ::
  "wf_env \<Rightarrow> (nat \<Rightarrow> wf_draw) \<Rightarrow> string \<Rightarrow> nat \<Rightarrow> nat \<Rightarrow> wf_run list \<Rightarrow> wf_world
    \<Rightarrow> (wf_error + step_claim option) \<times> wf_world" where
  "claim_first env draws worker now k [] w = (Inr None, w)"
| "claim_first env draws worker now k (r # rs) w =
    (case claim_next_step env (draws k) (rn_tenant r) (rn_id r) worker now w of
       (Inl e, w') \<Rightarrow> (Inl e, w')
     | (Inr (Some c), w') \<Rightarrow> (Inr (Some c), w')
     | (Inr None, w') \<Rightarrow> claim_first env draws worker now (Suc k) rs w')"

definition worker_tick ::
  "wf_env \<Rightarrow> executor \<Rightarrow> (nat \<Rightarrow> wf_draw) \<Rightarrow> wf_draw \<Rightarrow> string \<Rightarrow> string option \<Rightarrow> nat \<Rightarrow> nat \<Rightarrow> wf_world
    \<Rightarrow> (wf_error + bool) \<times> wf_world" where
  "worker_tick env exec draws d worker only now later w =
    (case claim_first env draws worker now 0 (list_runnable only w) w of
       (Inl e, w1) \<Rightarrow> (Inl e, w1)
     | (Inr None, w1) \<Rightarrow> (Inr False, w1)
     | (Inr (Some c), w1) \<Rightarrow>
         (case execute_claim env exec d now later later c w1 of
            (Inl e, w2) \<Rightarrow> (Inl e, w2) | (Inr _, w2) \<Rightarrow> (Inr True, w2)))"

subsection \<open>Cancelling and resuming\<close>

datatype cancel_answer = CancelDone | CancelTerminal | CancelNotFound

definition cancel_run :: "nat \<Rightarrow> string \<Rightarrow> string option \<Rightarrow> wf_world \<Rightarrow> cancel_answer \<times> wf_world" where
  "cancel_run now run_id reason w =
    (let i = trim run_id in
     if i = [] then (CancelNotFound, w)
     else case find (\<lambda>r. rn_id r = i) (ww_runs w) of
       None \<Rightarrow> (CancelNotFound, w)
     | Some run \<Rightarrow>
         if is_terminal_run (rn_status run) then (CancelTerminal, w)
         else (let t = rn_tenant run;
                   w1 = set_run t i (\<lambda>r. r\<lparr>rn_status := RunCancelled, rn_blocked_reason := None,
                          rn_blocked_detail := reason, rn_updated_at := now,
                          rn_finished_at := sql_coalesce (rn_finished_at r) (Some now)\<rparr>) w;
                   w2 = w1\<lparr>ww_steps := update_where (\<lambda>s. rs_tenant s = t \<and> rs_run s = i \<and> is_live_step (rs_status s))
                          (\<lambda>s. s\<lparr>rs_status := StepCancelled, rs_updated_at := now,
                             rs_finished_at := sql_coalesce (rs_finished_at s) (Some now)\<rparr>) (ww_steps w1)\<rparr>
               in (CancelDone, record_run_progress t i (Some now) (Some (JObj
                     [(''kind'', JStr ''workflow_run.cancelled''),
                      (''reason'', case reason of None \<Rightarrow> JNull | Some x \<Rightarrow> JStr x)]))
                    (clear_run_lease t i w2))))"

definition should_resume :: "approval \<Rightarrow> bool" where
  "should_resume a \<longleftrightarrow> ap_status a = Approved \<or>
    (ap_status a = Denied \<or> ap_status a = Expired) \<and>
    normalize_resume_source (ap_context a) = Some ''llm-step-tool-execution''"

definition resume_reason :: "approval_status \<Rightarrow> string" where
  "resume_reason s = (if s = Expired then ''approval timed out''
     else if s = Denied then ''approval denied'' else ''approval cancelled'')"

definition resume_update :: "nat \<Rightarrow> approval \<Rightarrow> string \<Rightarrow> string \<Rightarrow> wf_run \<Rightarrow> wf_world \<Rightarrow> wf_world" where
  "resume_update now a step_id i run w =
    (let t = ap_tenant a in
     record_run_progress t i (Some now) (Some (JObj
         [(''kind'', JStr ''workflow_run.resumed''), (''approval_id'', JStr (ap_id a))]))
       (clear_run_lease t i
         (set_run t i (\<lambda>r. r\<lparr>rn_status := RunQueued, rn_blocked_reason := None, rn_blocked_detail := None,
            rn_budget_overridden_at := (if rn_blocked_reason run = Some ''budget''
              then sql_coalesce (rn_budget_overridden_at r) (Some now) else rn_budget_overridden_at r),
            rn_updated_at := now\<rparr>)
           (set_step t step_id (\<lambda>s. s\<lparr>rs_status := StepQueued, rs_updated_at := now, rs_error := None\<rparr>) w))))"

definition resume_body :: "nat \<Rightarrow> approval \<Rightarrow> string \<Rightarrow> string \<Rightarrow> wf_world \<Rightarrow> (wf_error + unit) \<times> wf_world" where
  "resume_body now a step_id i w =
    (if find (step_is (ap_tenant a) step_id) (ww_steps w) = None then (Inl (StepNotFound step_id), w)
     else case get_run (ap_tenant a) i w of
       None \<Rightarrow> (Inr (), w)
     | Some run \<Rightarrow>
         if is_terminal_run (rn_status run) then (Inr (), w)
         else (Inr (), resume_update now a step_id i run w))"

definition resume_run :: "nat \<Rightarrow> string \<Rightarrow> wf_world \<Rightarrow> (wf_error + string option) \<times> wf_world" where
  "resume_run now resume_token w =
    (let tok = trim resume_token in
     if tok = [] then (Inr None, w)
     else case newest (filter (\<lambda>a. ap_resume_token a = Some tok) (ad_approvals (ww_approvals w))) of
       None \<Rightarrow> (Inr None, w)
     | Some a \<Rightarrow>
         (case ap_step a of
            None \<Rightarrow> (Inr None, w)
          | Some step_id \<Rightarrow>
              if ap_tenant a = [] \<or> step_id = [] then (Inr None, w)
              else (case run_id_for_resume_token (ap_tenant a) tok w of
                 None \<Rightarrow> (Inr None, w)
               | Some i \<Rightarrow>
                   if should_resume a
                   then (case transaction (resume_body now a step_id i) w of
                           (Inl e, w') \<Rightarrow> (Inl e, w') | (Inr _, w') \<Rightarrow> (Inr (Some i), w'))
                   else if ap_status a = Denied \<or> ap_status a = Expired \<or> ap_status a = Cancelled
                   then (Inr (Some i), snd (cancel_run now i (Some (resume_reason (ap_status a))) w))
                   else (Inr None, w))))"

end
