(* ===== verification/Workflow_Facts.thy ===== *)
theory Workflow_Facts
  imports Workflow_Runner
begin

text \<open>
  What the runner guarantees and what it does not. Every transaction touches the rows of one run only
  (\<open>touches\<close>) and does nothing to a run that has ended. The events of \<open>wf_event\<close> are the transactions
  of any number of workers in any order; a commit may come arbitrarily late after its claim.
\<close>

named_theorems wf_proj \<open>what an update leaves alone\<close>

subsection \<open>Projections\<close>

lemma set_run_proj [wf_proj, simp]:
  "ww_steps (set_run t i f w) = ww_steps w" "ww_approvals (set_run t i f w) = ww_approvals w"
  "ww_policy (set_run t i f w) = ww_policy w" "ww_runs (set_run t i f w) = update_where (run_is t i) f (ww_runs w)"
  "ww_leases (set_run t i f w) = ww_leases w"
  by (simp_all add: set_run_def)

lemma set_step_proj [wf_proj, simp]:
  "ww_runs (set_step t s f w) = ww_runs w" "ww_approvals (set_step t s f w) = ww_approvals w"
  "ww_policy (set_step t s f w) = ww_policy w" "ww_steps (set_step t s f w) = update_where (step_is t s) f (ww_steps w)"
  "ww_leases (set_step t s f w) = ww_leases w"
  by (simp_all add: set_step_def)

lemma turn_proj [wf_proj, simp]:
  "ww_runs (update_turn_state t i p w) = ww_runs w" "ww_steps (update_turn_state t i p w) = ww_steps w"
  "ww_approvals (update_turn_state t i p w) = ww_approvals w" "ww_policy (update_turn_state t i p w) = ww_policy w"
  "ww_leases (update_turn_state t i p w) = ww_leases w"
  by (simp_all add: update_turn_state_def set_turn_def)

lemma turn_ops_proj [wf_proj, simp]:
  "ww_runs (clear_turn_lease t i w) = ww_runs w" "ww_steps (clear_turn_lease t i w) = ww_steps w"
  "ww_approvals (clear_turn_lease t i w) = ww_approvals w" "ww_policy (clear_turn_lease t i w) = ww_policy w"
  "ww_runs (set_turn_lease t i u x w) = ww_runs w" "ww_steps (set_turn_lease t i u x w) = ww_steps w"
  "ww_runs (record_turn_progress t i a p w) = ww_runs w" "ww_steps (record_turn_progress t i a p w) = ww_steps w"
  by (simp_all add: clear_turn_lease_def set_turn_lease_def record_turn_progress_def)

subsection \<open>Transactions touch one run\<close>

definition run_key :: "wf_run \<Rightarrow> string \<times> string" where
  "run_key r = (rn_tenant r, rn_id r)"

definition step_key :: "wf_step \<Rightarrow> string \<times> string" where
  "step_key s = (rs_tenant s, rs_id s)"

definition step_run :: "wf_step \<Rightarrow> string \<times> string" where
  "step_run s = (rs_tenant s, rs_run s)"

text \<open>What never changes of a step.\<close>

definition same_step :: "wf_step \<Rightarrow> wf_step \<Rightarrow> bool" where
  "same_step s s' \<longleftrightarrow> step_key s' = step_key s \<and> step_run s' = step_run s \<and> rs_index s' = rs_index s \<and>
    rs_action s' = rs_action s \<and> rs_max_attempts s' = rs_max_attempts s \<and> rs_postcondition s' = rs_postcondition s"

definition run_stays :: "string \<times> string \<Rightarrow> wf_run \<Rightarrow> wf_run \<Rightarrow> bool" where
  "run_stays k r r' \<longleftrightarrow> run_key r' = run_key r \<and> (run_key r \<noteq> k \<longrightarrow> r' = r)"

definition step_stays :: "string \<times> string \<Rightarrow> wf_step \<Rightarrow> wf_step \<Rightarrow> bool" where
  "step_stays k s s' \<longleftrightarrow> same_step s s' \<and> (step_run s \<noteq> k \<longrightarrow> s' = s)"

definition touches :: "string \<Rightarrow> string \<Rightarrow> wf_world \<Rightarrow> wf_world \<Rightarrow> bool" where
  "touches t i w w' \<longleftrightarrow> list_all2 (run_stays (t, i)) (ww_runs w) (ww_runs w') \<and>
    list_all2 (step_stays (t, i)) (ww_steps w) (ww_steps w')"

lemma same_step_refl [simp]: "same_step s s"
  by (simp add: same_step_def)

lemma stays_refl [simp]: "run_stays k r r" "step_stays k s s"
  by (simp_all add: run_stays_def step_stays_def)

lemma touches_same: "ww_runs w' = ww_runs w \<Longrightarrow> ww_steps w' = ww_steps w \<Longrightarrow> touches t i w w'"
  by (simp add: touches_def list.rel_refl)

lemma stays_trans:
  "run_stays k a b \<Longrightarrow> run_stays k b c \<Longrightarrow> run_stays k a c"
  "step_stays k x y \<Longrightarrow> step_stays k y z \<Longrightarrow> step_stays k x z"
  by (auto simp: run_stays_def step_stays_def same_step_def)

lemma touches_trans [trans]:
  assumes "touches t i w w'" "touches t i w' w''"
  shows "touches t i w w''"
proof -
  have "transp (list_all2 (run_stays (t, i)))" "transp (list_all2 (step_stays (t, i)))"
    by (intro list.rel_transp transpI; blast intro: stays_trans)+
  with assms show ?thesis unfolding touches_def by (blast dest: transpD)
qed

lemma touches_cong:
  "touches t i w w' \<Longrightarrow> ww_runs v = ww_runs w' \<Longrightarrow> ww_steps v = ww_steps w' \<Longrightarrow> touches t i w v"
  by (simp add: touches_def)

lemma list_all2_in_set2: "list_all2 R xs ys \<Longrightarrow> y \<in> set ys \<Longrightarrow> \<exists>x \<in> set xs. R x y"
  by (metis in_set_conv_nth list_all2_conv_all_nth)

lemma list_all2_update: "(\<And>x. x \<in> set xs \<Longrightarrow> P x \<Longrightarrow> R x (f x)) \<Longrightarrow> (\<And>x. \<not> P x \<Longrightarrow> R x x) \<Longrightarrow>
    list_all2 R xs (update_where P f xs)"
  by (simp add: update_where_def list_all2_map2 list_all2_same)

lemma touches_runs:
  assumes "\<And>r. P r \<Longrightarrow> run_key r = (t, i)" "\<And>r. run_key (f r) = run_key r"
  shows "touches t i w (w\<lparr>ww_runs := update_where P f (ww_runs w)\<rparr>)"
  using assms by (auto simp: touches_def list.rel_refl run_stays_def intro!: list_all2_update)

lemma touches_set_run: "(\<And>r. run_key (f r) = run_key r) \<Longrightarrow> touches t i w (set_run t i f w)"
  unfolding set_run_def by (rule touches_runs) (simp_all add: run_is_def run_key_def)

text \<open>All rows with the id of the step belong to the run.\<close>

definition owned :: "string \<Rightarrow> string \<Rightarrow> string \<Rightarrow> wf_world \<Rightarrow> bool" where
  "owned t i sid w \<longleftrightarrow> (\<forall>s \<in> set (ww_steps w). step_key s = (t, sid) \<longrightarrow> step_run s = (t, i))"

lemma touches_steps:
  assumes "\<And>s. s \<in> set (ww_steps w) \<Longrightarrow> P s \<Longrightarrow> step_run s = (t, i)" "\<And>s. same_step s (f s)"
  shows "touches t i w (w\<lparr>ww_steps := update_where P f (ww_steps w)\<rparr>)"
  using assms by (auto simp: touches_def list.rel_refl step_stays_def intro!: list_all2_update)

lemma touches_set_step: "owned t i sid w \<Longrightarrow> (\<And>s. same_step s (f s)) \<Longrightarrow> touches t i w (set_step t sid f w)"
  unfolding set_step_def by (rule touches_steps) (auto simp: owned_def step_is_def step_key_def)

lemma touches_owned: "touches t i w w' \<Longrightarrow> owned t' i' sid w \<Longrightarrow> owned t' i' sid w'"
proof -
  assume "touches t i w w'" and o: "owned t' i' sid w"
  then have l: "list_all2 (step_stays (t, i)) (ww_steps w) (ww_steps w')" by (simp add: touches_def)
  show "owned t' i' sid w'"
    unfolding owned_def
  proof (intro ballI impI)
    fix s' assume "s' \<in> set (ww_steps w')" and k: "step_key s' = (t', sid)"
    with l obtain s where "s \<in> set (ww_steps w)" "step_stays (t, i) s s'" by (meson list_all2_in_set2)
    with o k show "step_run s' = (t', i')" by (auto simp: owned_def step_stays_def same_step_def)
  qed
qed

lemma touches_progress: "touches t i w w' \<Longrightarrow> touches t i w (record_run_progress t i a p w')"
  unfolding record_run_progress_def
  by (rule touches_trans) (auto intro: touches_set_run simp: run_key_def)

lemma touches_clear_lease: "touches t i w w' \<Longrightarrow> touches t i w (clear_run_lease t i w')"
  unfolding clear_run_lease_def
  by (rule touches_trans) (auto intro: touches_set_run simp: run_key_def)

lemma touches_turn: "touches t i w w' \<Longrightarrow> touches t i w (clear_turn_lease t' i' w')"
  by (erule touches_cong) simp_all

lemmas touches_intros = touches_progress touches_clear_lease touches_turn

subsection \<open>The operations\<close>

lemma touches_pause:
  assumes "pause_run env d now run step p w = (r, w')"
  shows "touches (rn_tenant run) (rn_id run) w w'"
proof -
  let ?f = "\<lambda>r. r\<lparr>rn_status := RunPaused, rn_blocked_reason := Some (approval_pause_reason (pz_kind p)),
     rn_blocked_detail := Some (we_redact_text env (pz_detail p)), rn_updated_at := now\<rparr>"
  have u: "touches (rn_tenant run) (rn_id run) w
      (set_run (rn_tenant run) (rn_id run) ?f (w\<lparr>ww_policy := psv, ww_approvals := db\<rparr>))" for psv db
    by (rule touches_trans [OF touches_same touches_set_run]) (simp_all add: run_key_def)
  from assms show ?thesis
    by (auto simp: pause_run_def Let_def touches_same split: prod.splits sum.splits intro!: touches_intros u)
qed

lemma touches_fail:
  assumes "owned (rn_tenant run) (rn_id run) (rs_id step) w"
  shows "touches (rn_tenant run) (rn_id run) w (fail_run env run step err now q w)"
  unfolding fail_run_def Let_def
proof (intro touches_intros touches_trans [OF _ touches_set_run] touches_trans [OF touches_set_step touches_steps] assms)
qed (auto simp: run_key_def same_step_def step_key_def step_run_def)

lemma touches_recover:
  assumes "owned (rn_tenant run) (rn_id run) (rs_id step) w" "recover_running_step env d now run step w = (r, w')"
  shows "touches (rn_tenant run) (rn_id run) w w'"
proof -
  have "touches (rn_tenant run) (rn_id run) w (w\<lparr>ww_steps := update_where (\<lambda>s. step_is (rn_tenant run) (rs_id step) s \<and>
      rs_status s = StepRunning) (\<lambda>s. s\<lparr>rs_status := StepQueued, rs_updated_at := now\<rparr>) (ww_steps w)\<rparr>)"
    using assms(1) by (intro touches_steps)
      (auto simp: owned_def step_is_def step_key_def same_step_def step_run_def)
  then show ?thesis using assms touches_fail
    by (auto simp: recover_running_step_def split: prod.splits sum.splits if_splits dest: touches_pause)
qed

lemma touches_budget:
  "maybe_pause_for_budget env d now run step w = (r, w') \<Longrightarrow> touches (rn_tenant run) (rn_id run) w w'"
  by (auto simp: maybe_pause_for_budget_def Let_def touches_same
      split: option.splits prod.splits sum.splits if_splits dest: touches_pause)

lemma owned_policy [simp]: "owned t i s (w\<lparr>ww_policy := p\<rparr>) \<longleftrightarrow> owned t i s w"
  by (simp add: owned_def)

lemma touches_from_policy: "touches t i (w\<lparr>ww_policy := p\<rparr>) w' \<Longrightarrow> touches t i w w'"
  by (simp add: touches_def)

lemma touches_policy:
  assumes "owned (rn_tenant run) (rn_id run) (rs_id step) w" "maybe_pause_for_policy env d now run step w = (r, w')"
  shows "touches (rn_tenant run) (rn_id run) w w'"
  using assms
  by (auto simp: maybe_pause_for_policy_def Let_def touches_same
      split: option.splits prod.splits sum.splits if_splits dest!: touches_pause
      intro: touches_from_policy touches_from_policy [OF touches_fail])

lemma owned_leases [simp]: "owned t i s (w\<lparr>ww_leases := l\<rparr>) \<longleftrightarrow> owned t i s w"
  by (simp add: owned_def)

lemma touches_start:
  assumes "owned (rn_tenant run) (rn_id run) (rs_id step) w"
  shows "touches (rn_tenant run) (rn_id run) w (start_step d worker now run step w)"
  unfolding start_step_def Let_def
  by (rule touches_progress, rule touches_cong [OF touches_trans [OF touches_steps touches_set_run]])
    (use assms in \<open>auto simp: owned_def is_queued_step_def step_is_def step_key_def same_step_def step_run_def run_key_def\<close>)

lemma touches_take:
  assumes "owned (rn_tenant run) (rn_id run) (rs_id step) w"
  shows "touches (rn_tenant run) (rn_id run) w (snd (take_step d worker now run step w))"
proof -
  have "touches (rn_tenant run) (rn_id run) w (start_step d worker now run step (w\<lparr>ww_leases := l\<rparr>))" for l
    by (rule touches_trans [OF touches_same touches_start]) (use assms in simp_all)
  with touches_start [OF assms] show ?thesis
    unfolding take_step_def Let_def by (auto split: prod.split if_splits intro: touches_same)
qed

lemma touches_complete: "touches (rn_tenant r) (rn_id r) w (complete_run now r w)"
  unfolding complete_run_def Let_def
  by (intro touches_clear_lease touches_runs) (auto simp: run_is_def run_key_def)

lemma touches_claim_step:
  assumes "owned (rn_tenant run) (rn_id run) (rs_id step) w"
  shows "touches (rn_tenant run) (rn_id run) w (snd (claim_step env d worker now run step w))"
proof -
  obtain r1 w1 where 1: "maybe_pause_for_budget env d now run step w = (r1, w1)" by fastforce
  obtain r2 w2 where 2: "maybe_pause_for_policy env d now run step w1 = (r2, w2)" by fastforce
  obtain r3 w3 where 3: "take_step d worker now run step w2 = (r3, w3)" by fastforce
  have t1: "touches (rn_tenant run) (rn_id run) w w1" by (rule touches_budget [OF 1])
  have o1: "owned (rn_tenant run) (rn_id run) (rs_id step) w1" by (rule touches_owned [OF t1 assms])
  have t2: "touches (rn_tenant run) (rn_id run) w1 w2" by (rule touches_policy [OF o1 2])
  have t3: "touches (rn_tenant run) (rn_id run) w2 w3"
    using touches_take [OF touches_owned [OF t2 o1], of d worker now] 3 by simp
  show ?thesis using touches_trans [OF t1 t2] touches_trans [OF touches_trans [OF t1 t2] t3] t1
    by (auto simp: claim_step_def 1 2 3 split: sum.split bool.split)
qed

text \<open>The key columns of the tables identify rows, and references are trimmed.\<close>

definition wf_keys :: "wf_world \<Rightarrow> bool" where
  "wf_keys w \<longleftrightarrow> distinct (map run_key (ww_runs w)) \<and> distinct (map step_key (ww_steps w)) \<and>
    (\<forall>s \<in> set (ww_steps w). trim (rs_run s) = rs_run s)"

lemma touches_keys:
  assumes "touches t i w w'" "wf_keys w"
  shows "wf_keys w'"
proof -
  have "map run_key (ww_runs w') = map run_key (ww_runs w)" "map step_key (ww_steps w') = map step_key (ww_steps w)"
    "map rs_run (ww_steps w') = map rs_run (ww_steps w)"
    using assms(1) by (auto simp: touches_def list_all2_conv_all_nth run_stays_def step_stays_def same_step_def
        step_run_def intro!: nth_equalityI)
  moreover have "(\<forall>s \<in> set x. trim (rs_run s) = rs_run s) \<longleftrightarrow> (\<forall>i \<in> set (map rs_run x). trim i = i)" for x
    by simp
  ultimately show ?thesis using assms(2) unfolding wf_keys_def by metis
qed

lemma owned_of_step:
  assumes "wf_keys w" "s \<in> set (ww_steps w)"
  shows "owned (rs_tenant s) (rs_run s) (rs_id s) w"
  unfolding owned_def
proof (intro ballI impI)
  fix s' assume "s' \<in> set (ww_steps w)" "step_key s' = (rs_tenant s, rs_id s)"
  then have "s' = s" using assms
    by (metis (no_types, lifting) distinct_map inj_onD step_key_def wf_keys_def)
  then show "step_run s' = (rs_tenant s, rs_run s)" by (simp add: step_run_def)
qed

lemma get_run_some: "get_run t i w = Some r \<Longrightarrow> r \<in> set (ww_runs w) \<and> run_key r = (t, i)"
  unfolding get_run_def by (drule find_in) (simp add: run_key_def)

lemma next_step_some: "next_step_of r w = Some s \<Longrightarrow>
    s \<in> set (ww_steps w) \<and> step_run s = (rn_tenant r, rn_id r) \<and> is_live_step (rs_status s)"
  unfolding next_step_of_def by (drule find_in) (simp add: steps_of_def step_run_def)

lemma claim_next_touches:
  assumes "wf_keys w"
  shows "touches t i w (snd (claim_next_body env d t i worker now w))"
proof (cases "get_run t i w")
  case (Some run)
  then have k: "rn_tenant run = t" "rn_id run = i" using get_run_some by (auto simp: run_key_def)
  show ?thesis
  proof (cases "next_step_of run w")
    case None
    with Some show ?thesis using touches_complete [of run w now] k
      by (auto simp: claim_next_body_def touches_same)
  next
    case (Some step)
    then have o: "owned t i (rs_id step) w"
      using owned_of_step [OF assms, of step] next_step_some [OF Some] k by (auto simp: step_run_def)
    obtain r1 w1 where 1: "recover_running_step env d now run step w = (r1, w1)" by fastforce
    have t1: "touches t i w w1" using touches_recover [OF _ 1] o k by simp
    have recovered: "rs_id s' = rs_id step" if "r1 = Inr (Some s')" for s'
      using that 1 by (auto simp: recover_running_step_def split: if_splits prod.splits sum.splits)
    have t2: "touches t i w (snd (claim_step env d worker now run s' w1))" if "r1 = Inr (Some s')" for s'
      using touches_claim_step [of run s' w1 env d worker now] touches_owned [OF t1 o] k recovered [OF that]
      by (simp add: touches_trans [OF t1])
    have t3: "touches t i w (snd (claim_step env d worker now run step w))"
      using touches_claim_step [of run step w env d worker now] o k by simp
    show ?thesis using \<open>get_run t i w = Some run\<close> Some t1 t2 t3
      by (auto simp: claim_next_body_def 1 touches_same split: sum.split option.split)
  qed
qed (simp add: claim_next_body_def touches_same)

lemma same_step_store [simp]: "same_step s (store_result q s)" "same_step s ((store_result q s)\<lparr>rs_status := x\<rparr>)"
  by (simp_all add: same_step_def store_result_def step_key_def step_run_def)

lemma touches_persist:
  assumes "owned (rn_tenant (cm_run c)) (rn_id (cm_run c)) (rs_id (cm_step c)) w"
    "persist_paused_step env d now c q p w = (r, w')"
  shows "touches (rn_tenant (cm_run c)) (rn_id (cm_run c)) w w'"
  by (rule touches_trans [OF touches_set_step touches_pause [OF assms(2) [unfolded persist_paused_step_def]]])
    (use assms(1) in \<open>simp_all add: same_step_def store_result_def step_key_def step_run_def\<close>)

lemma touches_requeue:
  assumes "owned (rn_tenant (cm_run c)) (rn_id (cm_run c)) (rs_id (cm_step c)) w"
  shows "touches (rn_tenant (cm_run c)) (rn_id (cm_run c)) w (requeue_step env now c q err w)"
  unfolding requeue_step_def Let_def
  by (intro touches_intros touches_trans [OF touches_set_step touches_set_run])
    (use assms in \<open>simp_all add: same_step_def store_result_def step_key_def step_run_def run_key_def\<close>)

lemma touches_finish:
  assumes "owned (rn_tenant (cm_run c)) (rn_id (cm_run c)) (rs_id (cm_step c)) w"
  shows "touches (rn_tenant (cm_run c)) (rn_id (cm_run c)) w (finish_step now c q w)"
  unfolding finish_step_def Let_def
  by (intro touches_intros touches_trans [OF touches_set_step touches_set_run])
    (use assms in \<open>simp_all add: same_step_def store_result_def step_key_def step_run_def run_key_def\<close>)

lemma touches_commit:
  assumes "owned (rn_tenant (cm_run c)) (rn_id (cm_run c)) (rs_id (cm_step c)) w"
  shows "touches (rn_tenant (cm_run c)) (rn_id (cm_run c)) w (snd (commit_body env d now c ok q w))"
proof -
  have p: "touches (rn_tenant (cm_run c)) (rn_id (cm_run c)) w (snd (persist_paused_step env d now c q p w))" for p
    by (cases "persist_paused_step env d now c q p w") (simp add: touches_persist [OF assms])
  show ?thesis
    using p touches_requeue [OF assms] touches_finish [OF assms] touches_fail [OF assms]
    by (simp add: commit_body_def touches_same Let_def split: option.split)
qed

lemma touches_transaction:
  "touches t i w (snd (f w)) \<Longrightarrow> touches t i w (snd (transaction f w))"
  by (auto simp: transaction_def touches_same split: prod.split sum.split)

lemma transaction_idle: "f w = (Inr x, w) \<Longrightarrow> transaction f w = (Inr x, w)"
  by (simp add: transaction_def)

lemma touches_set_run_steps:
  assumes "\<And>r. run_key (f r) = run_key r" "\<And>s. P s \<Longrightarrow> step_run s = (t, i)" "\<And>s. same_step s (g s)"
  shows "touches t i w ((set_run t i f w)\<lparr>ww_steps := update_where P g (ww_steps w)\<rparr>)"
proof -
  have "touches t i w ((set_run t i f w)\<lparr>ww_steps := update_where P g (ww_steps (set_run t i f w))\<rparr>)"
    by (rule touches_trans [OF touches_set_run touches_steps]) (use assms in auto)
  then show ?thesis by simp
qed

lemma touches_cancel:
  "\<exists>t. touches t (trim i) w (snd (cancel_run now i reason w)) \<and>
    (\<forall>r. get_run t (trim i) w = Some r \<and> is_terminal_run (rn_status r) \<longrightarrow> snd (cancel_run now i reason w) = w)"
proof (cases "trim i = [] \<or> find (\<lambda>r. rn_id r = trim i) (ww_runs w) = None")
  case False
  then obtain run where f: "find (\<lambda>r. rn_id r = trim i) (ww_runs w) = Some run" and ne: "trim i \<noteq> []" by auto
  from find_in [OF f] have id: "rn_id run = trim i" by simp
  let ?t = "rn_tenant run"
  have "touches ?t (trim i) w (snd (cancel_run now i reason w))"
    unfolding cancel_run_def Let_def
    by (auto simp: f ne touches_same run_key_def step_run_def same_step_def step_key_def
        intro!: touches_intros touches_set_run_steps)
  moreover have "get_run ?t (trim i) w = Some run"
    using f by (auto simp: get_run_def find_Some_iff)
  ultimately show ?thesis using f ne by (intro exI [of _ ?t]) (auto simp: cancel_run_def)
qed (auto simp: cancel_run_def Let_def touches_same split: option.split)

text \<open>The run a resume token leads to is the run of the step its approval names.\<close>

lemma newest_in: "newest xs = Some a \<Longrightarrow> a \<in> set xs"
  by (auto simp: newest_def dest: first_row_in)

lemma newest_filter: "newest xs = Some a \<Longrightarrow> P a \<Longrightarrow> newest (filter P xs) = Some a"
  by (simp add: newest_def first_row_def filter_sort [symmetric] split: list.splits)

lemma resume_step_run:
  assumes "newest (filter (\<lambda>a. ap_resume_token a = Some tok) (ad_approvals (ww_approvals w))) = Some a"
    and "ap_step a = Some sid" "find (step_is (ap_tenant a) sid) (ww_steps w) = Some s"
    and "run_id_for_resume_token (ap_tenant a) tok w = Some i"
  shows "i = trim (rs_run s)"
proof -
  let ?step_of = "\<lambda>a. find (\<lambda>s. rs_tenant s = ap_tenant a \<and> ap_step a = Some (rs_id s)) (ww_steps w)"
  have "(\<lambda>s. rs_tenant s = ap_tenant a \<and> ap_step a = Some (rs_id s)) = step_is (ap_tenant a) sid"
    using assms(2) by (auto simp: step_is_def fun_eq_iff)
  then have so: "?step_of a = Some s" using assms(3) by simp
  have "newest (filter (\<lambda>a'. ap_tenant a' = ap_tenant a \<and> ap_resume_token a' = Some tok \<and> ?step_of a' \<noteq> None)
      (ad_approvals (ww_approvals w))) = Some a"
    using newest_filter [OF assms(1), of "\<lambda>a'. ap_tenant a' = ap_tenant a \<and> ?step_of a' \<noteq> None"] so newest_in [OF assms(1)]
    by (simp add: conj_commute conj_left_commute)
  then show ?thesis using assms(4) so by (simp add: run_id_for_resume_token_def Let_def split: if_splits)
qed

lemma touches_resume_update:
  assumes "owned (ap_tenant a) i sid w"
  shows "touches (ap_tenant a) i w (resume_update now a sid i run w)"
  unfolding resume_update_def Let_def
  by (intro touches_intros touches_trans [OF touches_set_step touches_set_run])
    (use assms in \<open>simp_all add: same_step_def step_key_def step_run_def run_key_def\<close>)

definition frames :: "string \<Rightarrow> string \<Rightarrow> wf_world \<Rightarrow> wf_world \<Rightarrow> bool" where
  "frames t i w w' \<longleftrightarrow> touches t i w w' \<and>
    (\<forall>r. get_run t i w = Some r \<and> is_terminal_run (rn_status r) \<longrightarrow> ww_runs w' = ww_runs w \<and> ww_steps w' = ww_steps w)"

lemma frames_same: "ww_runs w' = ww_runs w \<Longrightarrow> ww_steps w' = ww_steps w \<Longrightarrow> frames t i w w'"
  by (simp add: frames_def touches_same)

lemma frames_claim:
  assumes "wf_keys w"
  shows "frames t i w (snd (claim_next_step env d t i worker now w))"
proof -
  have "claim_next_body env d t i worker now w = (Inr None, w)" if "get_run t i w = Some r" "is_terminal_run (rn_status r)" for r
    using that by (simp add: claim_next_body_def)
  then show ?thesis using touches_transaction [of t i w "claim_next_body env d t i worker now"] claim_next_touches [OF assms]
    by (auto simp: frames_def claim_next_step_def transaction_idle)
qed

text \<open>A claim that can be committed: its step is there and belongs to its run.\<close>

definition claim_ok :: "step_claim \<Rightarrow> wf_world \<Rightarrow> bool" where
  "claim_ok c w \<longleftrightarrow> (\<exists>s \<in> set (ww_steps w). step_key s = (rn_tenant (cm_run c), rs_id (cm_step c)) \<and>
    step_run s = run_key (cm_run c))"

lemma claim_owned: "claim_ok c w \<Longrightarrow> wf_keys w \<Longrightarrow>
    owned (rn_tenant (cm_run c)) (rn_id (cm_run c)) (rs_id (cm_step c)) w"
  using owned_of_step [of w] by (fastforce simp: claim_ok_def step_key_def step_run_def run_key_def)

lemma frames_commit:
  assumes "claim_ok c w" "wf_keys w"
  shows "frames (rn_tenant (cm_run c)) (rn_id (cm_run c)) w (snd (commit_claim env d t0 t1 now c outcome w))"
proof -
  have "commit_body env d now c ok q w = (Inr (), w)"
    if "get_run (rn_tenant (cm_run c)) (rn_id (cm_run c)) w = Some r" "is_terminal_run (rn_status r)" for ok q r
    using that by (simp add: commit_body_def)
  moreover have "touches (rn_tenant (cm_run c)) (rn_id (cm_run c)) w (snd (transaction (commit_body env d now c ok q) w))"
    for ok q by (intro touches_transaction touches_commit claim_owned [OF assms])
  ultimately show ?thesis by (auto simp: frames_def commit_claim_def Let_def transaction_idle)
qed

lemma resume_cases:
  obtains (idle) "snd (resume_run now tok w) = w"
  | (cancel) i reason where "snd (resume_run now tok w) = snd (cancel_run now i reason w)"
  | (resume) a sid i where "newest (filter (\<lambda>a. ap_resume_token a = Some (trim tok)) (ad_approvals (ww_approvals w))) = Some a"
      "ap_step a = Some sid" "run_id_for_resume_token (ap_tenant a) (trim tok) w = Some i" "should_resume a"
      "snd (resume_run now tok w) = snd (transaction (resume_body now a sid i) w)"
proof (cases "newest (filter (\<lambda>a. ap_resume_token a = Some (trim tok)) (ad_approvals (ww_approvals w)))")
  case (Some a)
  note n = this
  show ?thesis
  proof (cases "ap_step a")
    case (Some sid)
    note s = this
    show ?thesis
    proof (cases "run_id_for_resume_token (ap_tenant a) (trim tok) w")
      case (Some i)
      note r = this
      consider "trim tok = [] \<or> ap_tenant a = [] \<or> sid = []" | "should_resume a" "trim tok \<noteq> []" "ap_tenant a \<noteq> []" "sid \<noteq> []"
        | "\<not> should_resume a" "trim tok \<noteq> []" "ap_tenant a \<noteq> []" "sid \<noteq> []" by blast
      then show ?thesis
      proof cases
        case 1 then show ?thesis by (intro idle) (auto simp: resume_run_def Let_def n s)
      next
        case 2 then show ?thesis
          by (intro resume [OF n s r]) (simp_all add: resume_run_def Let_def n s r split: prod.split sum.split)
      next
        case 3
        show ?thesis
        proof (cases "ap_status a = Denied \<or> ap_status a = Expired \<or> ap_status a = Cancelled")
          case True
          with 3 show ?thesis by (intro cancel) (simp add: resume_run_def Let_def n s r)
        next
          case False
          with 3 show ?thesis by (intro idle) (simp add: resume_run_def Let_def n s r)
        qed
      qed
    qed (use idle n s in \<open>simp add: resume_run_def Let_def\<close>)
  qed (use idle n in \<open>simp add: resume_run_def Let_def\<close>)
qed (use idle in \<open>simp add: resume_run_def Let_def\<close>)

lemma frames_resume:
  assumes "wf_keys w"
  shows "\<exists>t i. frames t i w (snd (resume_run now tok w))"
proof (cases rule: resume_cases [of now tok w])
    case idle
    then show ?thesis by (metis frames_same)
  next
    case (cancel i reason)
    with touches_cancel [of i w now reason] show ?thesis by (auto simp: frames_def) metis
  next
    case (resume a sid i)
    have "frames (ap_tenant a) i w (snd (transaction (resume_body now a sid i) w))"
    proof (cases "find (step_is (ap_tenant a) sid) (ww_steps w)")
      case (Some s)
      from find_in [OF Some] have s: "s \<in> set (ww_steps w)" "rs_tenant s = ap_tenant a" "rs_id s = sid"
        by (simp_all add: step_is_def)
      have "i = rs_run s"
        using resume_step_run [OF resume(1,2) Some resume(3)] assms s(1) by (simp add: wf_keys_def)
      with owned_of_step [OF assms s(1)] s have o: "owned (ap_tenant a) i sid w" by simp
      show ?thesis using Some touches_resume_update [OF o]
        by (auto simp: frames_def resume_body_def transaction_def touches_same split: option.split)
    qed (simp add: resume_body_def transaction_def frames_same)
    with resume(5) show ?thesis by metis
qed

subsection \<open>Events\<close>

inductive wf_event :: "wf_world \<Rightarrow> wf_world \<Rightarrow> bool" where
  event_claim: "wf_event w (snd (claim_next_step env d t i worker now w))"
| event_commit: "claim_ok c w \<Longrightarrow> wf_event w (snd (commit_claim env d t0 t1 now c outcome w))"
| event_cancel: "wf_event w (snd (cancel_run now i reason w))"
| event_resume: "wf_event w (snd (resume_run now tok w))"
| event_create: "trim fresh_run = fresh_run \<Longrightarrow>
    wf_event w (snd (create_run_with_steps fresh_run fresh_step now p ps steps_created w))"
| event_other: "ww_runs w' = ww_runs w \<Longrightarrow> ww_steps w' = ww_steps w \<Longrightarrow> wf_event w w'"

definition adds :: "wf_world \<Rightarrow> wf_world \<Rightarrow> bool" where
  "adds w w' \<longleftrightarrow> (\<exists>rs ss. ww_runs w' = ww_runs w @ rs \<and> ww_steps w' = ww_steps w @ ss \<and>
    (\<forall>s \<in> set ss. \<forall>r \<in> set (ww_runs w). step_run s \<noteq> run_key r))"

lemma or_default_trimmed: "trim d = d \<Longrightarrow> trim (or_default s d) = or_default s d"
  by (simp add: or_default_def split: option.split)

lemma insert_steps_adds:
  assumes "insert_steps fresh t i created k ps w = Inr w'" "trim i = i" "distinct (map step_key (ww_steps w))"
  shows "\<exists>ss. ww_runs w' = ww_runs w \<and> ww_steps w' = ww_steps w @ ss \<and> (\<forall>s \<in> set ss. step_run s = (t, i)) \<and>
    distinct (map step_key (ww_steps w'))"
  using assms
proof (induction fresh t i created k ps w rule: insert_steps.induct)
  case (2 fresh t i created k p ps w)
  let ?s = "new_step (fresh k) t i k created p"
  from "2.prems"(1) obtain w1 where w1: "insert_step ?s w = Inr w1" "insert_steps fresh t i created (Suc k) ps w1 = Inr w'"
    by (auto split: sum.splits)
  then have i: "w1 = w\<lparr>ww_steps := ww_steps w @ [?s]\<rparr>" "\<forall>x \<in> set (ww_steps w). step_key x \<noteq> step_key ?s"
    by (auto simp: insert_step_def matches_iff step_key_def split: if_splits)
  have "distinct (map step_key (ww_steps w1))" using i "2.prems"(3) by auto
  from "2.IH" [OF w1(1,2) "2.prems"(2) this] obtain ss where
    "ww_runs w' = ww_runs w1" "ww_steps w' = ww_steps w1 @ ss" "\<forall>s \<in> set ss. step_run s = (t, i)"
    "distinct (map step_key (ww_steps w'))" by blast
  moreover have "step_run ?s = (t, i)" by (simp add: step_run_def new_step_def)
  ultimately show ?case using i(1) by (intro exI [of _ "?s # ss"]) auto
qed auto

lemma create_adds:
  assumes "trim fresh_run = fresh_run" "wf_keys w"
  shows "adds w (snd (create_run_with_steps fresh_run fs now p ps sc w)) \<and>
    wf_keys (snd (create_run_with_steps fresh_run fs now p ps sc w))"
proof (cases "create_run_with_steps fresh_run fs now p ps sc w")
  case (Pair x w2)
  let ?r = "new_run fresh_run now p"
  show ?thesis
  proof (cases x)
    case (Inl e)
    with Pair have "w2 = w" by (auto simp: create_run_with_steps_def split: prod.splits sum.splits)
    with Pair assms show ?thesis by (auto simp: adds_def)
  next
    case (Inr y)
    with Pair obtain w1 created where new: "\<not> matches (\<lambda>x. (rn_tenant x, rn_id x) = (rn_tenant ?r, rn_id ?r)) (ww_runs w)"
      and w1: "w1 = w\<lparr>ww_runs := ww_runs w @ [?r]\<rparr>" and s: "insert_steps fs (np_tenant p) (rn_id ?r) created 0 ps w1 = Inr w2"
      by (auto simp: create_run_with_steps_def insert_run_def split: prod.splits sum.splits if_splits)
    have t: "trim (rn_id ?r) = rn_id ?r" "run_key ?r = (np_tenant p, rn_id ?r)"
      using or_default_trimmed [OF assms(1)] by (simp_all add: new_run_def run_key_def Let_def)
    from insert_steps_adds [OF s t(1)] assms(2) w1 obtain ss where ss: "ww_runs w2 = ww_runs w @ [?r]"
      "ww_steps w2 = ww_steps w @ ss" "\<forall>s \<in> set ss. step_run s = run_key ?r" "distinct (map step_key (ww_steps w2))"
      by (auto simp: wf_keys_def t(2))
    have fresh: "\<forall>r \<in> set (ww_runs w). run_key r \<noteq> run_key ?r" using new by (auto simp: matches_iff run_key_def)
    have "adds w w2" using ss fresh by (auto simp: adds_def)
    moreover have "wf_keys w2" using ss fresh assms(2) t
      by (auto simp: wf_keys_def step_run_def run_key_def)
    ultimately show ?thesis using Pair by simp
  qed
qed

lemma event_cases:
  assumes "wf_event w w'" "wf_keys w"
  obtains (frames) t i where "frames t i w w'" | (adds) "adds w w'" "wf_keys w'"
  using assms
proof (cases rule: wf_event.cases)
  case (event_claim env d t i worker now)
  show ?thesis by (rule frames [of t i]) (simp add: event_claim frames_claim [OF assms(2)])
next
  case (event_commit c env d t0 t1 now outcome)
  show ?thesis
    by (rule frames [of "rn_tenant (cm_run c)" "rn_id (cm_run c)"])
      (simp add: event_commit(1) frames_commit [OF event_commit(2) assms(2)])
next
  case (event_cancel now i reason)
  from touches_cancel [of i w now reason] obtain t where "frames t (trim i) w (snd (cancel_run now i reason w))"
    by (auto simp: frames_def)
  with event_cancel show ?thesis by (intro frames [of t "trim i"]) simp
next
  case (event_resume now tok)
  from frames_resume [OF assms(2), of now tok] obtain t i where "frames t i w (snd (resume_run now tok w))" by blast
  with event_resume show ?thesis by (intro frames [of t i]) simp
next
  case (event_create fresh_run fs now p ps sc)
  from create_adds [OF event_create(2) assms(2), of fs now p ps sc] show ?thesis
    by (intro adds) (simp_all add: event_create(1))
next
  case event_other
  then show ?thesis by (intro frames [of "[]" "[]"]) (simp add: frames_same)
qed

subsection \<open>Runs that have ended\<close>

definition of_run :: "wf_run \<Rightarrow> wf_step \<Rightarrow> bool" where
  "of_run r s \<longleftrightarrow> step_run s = run_key r"

lemma get_run_unique: "wf_keys w \<Longrightarrow> r \<in> set (ww_runs w) \<Longrightarrow> get_run (rn_tenant r) (rn_id r) w = Some r"
proof -
  assume k: "wf_keys w" "r \<in> set (ww_runs w)"
  then obtain r' where f: "get_run (rn_tenant r) (rn_id r) w = Some r'"
    by (cases "get_run (rn_tenant r) (rn_id r) w") (auto simp: get_run_def find_None_iff)
  have "inj_on run_key (set (ww_runs w))" using k by (simp add: wf_keys_def distinct_map)
  then have "r' = r" using get_run_some [OF f] k(2)
    by (intro inj_onD [of run_key "set (ww_runs w)"]) (simp_all add: run_key_def)
  with f show ?thesis by simp
qed

lemma stays_filter: "list_all2 (step_stays k) xs ys \<Longrightarrow> run_key r \<noteq> k \<Longrightarrow> filter (of_run r) ys = filter (of_run r) xs"
  by (induction rule: list_all2_induct) (auto simp: step_stays_def same_step_def of_run_def)

lemma frozen_step:
  assumes "wf_event w w'" "wf_keys w" "r \<in> set (ww_runs w)" "is_terminal_run (rn_status r)"
  shows "wf_keys w' \<and> r \<in> set (ww_runs w') \<and> filter (of_run r) (ww_steps w') = filter (of_run r) (ww_steps w)"
  using assms(1,2)
proof (cases rule: event_cases)
  case (frames t i)
  then have t: "touches t i w w'" by (simp add: frames_def)
  show ?thesis
  proof (cases "run_key r = (t, i)")
    case True
    then have "get_run t i w = Some r" using get_run_unique [OF assms(2,3)] by (simp add: run_key_def)
    with frames assms(4) have "ww_runs w' = ww_runs w" "ww_steps w' = ww_steps w" by (auto simp: frames_def)
    with assms(2,3) show ?thesis by (simp add: wf_keys_def)
  next
    case False
    have l: "list_all2 (run_stays (t, i)) (ww_runs w) (ww_runs w')" "list_all2 (step_stays (t, i)) (ww_steps w) (ww_steps w')"
      using t by (simp_all add: touches_def)
    from list_all2_in_set1 [OF l(1) assms(3)] obtain r' where "r' \<in> set (ww_runs w')" "run_stays (t, i) r r'" ..
    with False have "r \<in> set (ww_runs w')" by (simp add: run_stays_def)
    with stays_filter [OF l(2) False] touches_keys [OF t assms(2)] show ?thesis by simp
  qed
next
  case adds
  then show ?thesis using assms(3) by (auto simp: adds_def of_run_def)
qed

text \<open>
  C25. A run that has succeeded, failed or been cancelled is never changed again, nor is any of its steps:
  whatever claims, commits, resumptions, cancellations and creations follow, in whatever order, and
  however late a worker files the result of a claim.
\<close>

theorem ended_runs_frozen:
  assumes "wf_event\<^sup>*\<^sup>* w w'" "wf_keys w" "r \<in> set (ww_runs w)" "is_terminal_run (rn_status r)"
  shows "r \<in> set (ww_runs w') \<and> filter (of_run r) (ww_steps w') = filter (of_run r) (ww_steps w)"
proof -
  have "wf_keys w' \<and> r \<in> set (ww_runs w') \<and> filter (of_run r) (ww_steps w') = filter (of_run r) (ww_steps w)"
    using assms(1)
  proof (induction rule: rtranclp_induct)
    case (step y z)
    with frozen_step [OF step(2), of r] assms(4) show ?case by auto
  qed (use assms in auto)
  then show ?thesis by simp
qed

text \<open>Whatever a claim hands out can be committed, at any later time.\<close>

lemma claim_returns_ok:
  assumes "claim_next_step env d t i worker now w = (Inr (Some c), w')" "wf_keys w"
  shows "claim_ok c w'"
proof -
  from assms(1) have b: "claim_next_body env d t i worker now w = (Inr (Some c), w')"
    by (auto simp: claim_next_step_def transaction_def split: prod.splits sum.splits)
  then obtain run step where r: "get_run t i w = Some run" and s: "next_step_of run w = Some step"
    by (auto simp: claim_next_body_def split: option.splits if_splits)
  have taken: "cm_run c = run \<and> rs_id (cm_step c) = rs_id s'"
    if "claim_step env d worker now run s' v = (Inr (Some c), v')" for s' v v'
    using that by (auto simp: claim_step_def take_step_def Let_def split: prod.splits sum.splits bool.splits if_splits)
  have "cm_run c = run \<and> rs_id (cm_step c) = rs_id step"
    using b r s taken by (fastforce simp: claim_next_body_def recover_running_step_def
        split: if_splits prod.splits sum.splits option.splits)
  moreover from next_step_some [OF s] get_run_some [OF r] obtain s' where
    "s' \<in> set (ww_steps w')" "step_stays (t, i) step s'" "step_run step = run_key run"
    using claim_next_touches [OF assms(2), of t i env d worker now] b list_all2_in_set1
    unfolding touches_def run_key_def by (metis snd_conv prod.inject)
  ultimately show ?thesis
    by (auto simp: claim_ok_def step_stays_def same_step_def step_key_def step_run_def run_key_def intro!: bexI [of _ s'])
qed

end
