(* ===== verification/Workflow_Claims.thy ===== *)
theory Workflow_Claims
  imports Workflow_Facts
begin

text \<open>
  Claims of workflow steps: what a claim requires (leases, policy verdicts, approvals), what it gives,
  and what a late or repeated transaction does to steps that are already settled.
\<close>

subsection \<open>What a granted claim means\<close>

lemma policy_passes:
  assumes "maybe_pause_for_policy env d now run step w = (Inr False, w')" "ww_policy w = Some sv"
    "rn_policy_snapshot run = Some sid" "sid \<noteq> []" "at_kind (rs_action step) \<noteq> Decide"
  obtains ev sv' where "evaluate_tool_call_from_snapshot (we_platform env) now sid
      (run_tool_call env run (tool_call_from_action (rs_action step))) sv = (Inr ev, sv')"
    "pe_decision ev = Allow \<or> is_observe_only sv' \<or>
     pe_decision ev = RequireApproval \<and> map_option ap_status (latest_step_approval run step w) = Some Approved"
proof -
  obtain x sv' where e: "evaluate_tool_call_from_snapshot (we_platform env) now sid
      (run_tool_call env run (tool_call_from_action (rs_action step))) sv = (x, sv')" by fastforce
  then obtain ev where x: "x = Inr ev"
    using assms by (cases x) (simp_all add: maybe_pause_for_policy_def Let_def)
  have "latest_step_approval run step (w\<lparr>ww_policy := Some sv'\<rparr>) = latest_step_approval run step w"
    by (simp add: latest_step_approval_def split: option.split)
  moreover have "pe_decision ev \<noteq> Allow \<Longrightarrow> pe_decision ev \<noteq> Deny \<Longrightarrow> pe_decision ev = RequireApproval"
    by (cases "pe_decision ev") simp_all
  ultimately have "pe_decision ev = Allow \<or> is_observe_only sv' \<or>
     pe_decision ev = RequireApproval \<and> map_option ap_status (latest_step_approval run step w) = Some Approved"
    using assms e x by (auto simp: maybe_pause_for_policy_def Let_def split: if_splits prod.splits sum.splits)
  with e x that show ?thesis by blast
qed

definition policy_permits :: "wf_env \<Rightarrow> nat \<Rightarrow> wf_run \<Rightarrow> wf_step \<Rightarrow> wf_world \<Rightarrow> bool" where
  "policy_permits env now run step w \<longleftrightarrow>
    (case (ww_policy w, rn_policy_snapshot run) of
       (Some sv, Some sid) \<Rightarrow> sid = [] \<or> at_kind (rs_action step) = Decide \<or>
         (\<exists>ev sv'. evaluate_tool_call_from_snapshot (we_platform env) now sid
             (run_tool_call env run (tool_call_from_action (rs_action step))) sv = (Inr ev, sv') \<and>
           (pe_decision ev = Allow \<or> is_observe_only sv' \<or>
            pe_decision ev = RequireApproval \<and> map_option ap_status (latest_step_approval run step w) = Some Approved))
     | _ \<Rightarrow> True)"

lemma policy_passes_permits:
  "maybe_pause_for_policy env d now run step w = (Inr False, w') \<Longrightarrow> policy_permits env now run step w"
  unfolding policy_permits_def by (auto split: option.split elim: policy_passes)

lemma budget_passes: "maybe_pause_for_budget env d now run step w = (Inr False, w') \<Longrightarrow> w' = w"
  by (auto simp: maybe_pause_for_budget_def Let_def split: option.splits if_splits prod.splits sum.splits)

definition within_budget :: "wf_draw \<Rightarrow> wf_run \<Rightarrow> bool" where
  "within_budget d run \<longleftrightarrow>
    (case (rn_budget_overridden_at run, max_duration (rn_budgets run), rn_started_at run) of
       (None, Some limit, Some started) \<Rightarrow> max 0 (int (wd_clock d) - int started) \<le> limit
     | _ \<Rightarrow> True)"

lemma budget_passes_within:
  "maybe_pause_for_budget env d now run step w = (Inr False, w') \<Longrightarrow> within_budget d run"
  by (cases "rn_budgets run") (auto simp: maybe_pause_for_budget_def within_budget_def Let_def max_duration_def coerce_record_def
      split: option.splits if_splits prod.splits sum.splits)

lemma claim_step_some:
  assumes "claim_step env d worker now run step w = (Inr (Some c), w')"
  obtains w2 where "policy_permits env now run step w" "within_budget d run" "maybe_pause_for_policy env d now run step w = (Inr False, w2)"
    "take_step d worker now run step w2 = (Some c, w')"
proof -
  from assms obtain w1 w2 where "maybe_pause_for_budget env d now run step w = (Inr False, w1)"
    "maybe_pause_for_policy env d now run step w1 = (Inr False, w2)" "take_step d worker now run step w2 = (Some c, w')"
    by (auto simp: claim_step_def split: prod.splits sum.splits bool.splits)
  with budget_passes budget_passes_within policy_passes_permits that show ?thesis by metis
qed

lemma claim_next_some:
  assumes "claim_next_step env d t i worker now w = (Inr (Some c), w')"
  obtains run step v where "get_run t i w = Some run" "next_step_of run w = Some step"
    "lease_available worker now run" "\<not> is_terminal_run (rn_status run)" "rn_status run \<noteq> RunPaused"
    "rs_status step = StepQueued \<and> v = w \<and> claim_step env d worker now run step v = (Inr (Some c), w') \<or>
     rs_status step = StepRunning \<and> int (rs_attempts step) < max 1 (rs_max_attempts step) \<and>
       is_retryable_action (rs_action step) \<and>
       recover_running_step env d now run step w = (Inr (Some (step\<lparr>rs_status := StepQueued\<rparr>)), v) \<and>
       claim_step env d worker now run (step\<lparr>rs_status := StepQueued\<rparr>) v = (Inr (Some c), w')"
proof -
  from assms have b: "claim_next_body env d t i worker now w = (Inr (Some c), w')"
    by (auto simp: claim_next_step_def transaction_def split: prod.splits sum.splits)
  then obtain run step where r: "get_run t i w = Some run" "next_step_of run w = Some step"
    and a: "lease_available worker now run" "\<not> is_terminal_run (rn_status run)" "rn_status run \<noteq> RunPaused"
      "rs_status step \<noteq> StepPaused"
    by (auto simp: claim_next_body_def split: option.splits if_splits)
  have live: "is_live_step (rs_status step)" using next_step_some [OF r(2)] by simp
  show ?thesis
  proof (cases "rs_status step = StepRunning")
    case True
    obtain x v where x: "recover_running_step env d now run step w = (x, v)" by fastforce
    with b r a True obtain s' where s': "x = Inr (Some s')" "claim_step env d worker now run s' v = (Inr (Some c), w')"
      by (auto simp: claim_next_body_def split: sum.splits option.splits)
    then have "s' = step\<lparr>rs_status := StepQueued\<rparr>" "int (rs_attempts step) < max 1 (rs_max_attempts step)"
      "is_retryable_action (rs_action step)"
      using x by (auto simp: recover_running_step_def split: if_splits prod.splits sum.splits)
    with that [OF r a(1-3), of v] x s' True show ?thesis by simp
  next
    case False
    with live a(4) have q: "rs_status step = StepQueued" by (auto simp: is_live_step_def)
    with b r a have "claim_step env d worker now run step w = (Inr (Some c), w')"
      by (simp add: claim_next_body_def)
    with that [OF r a(1-3), of w] q show ?thesis by simp
  qed
qed


lemma recovered_step:
  "recover_running_step env d now run step w = (Inr (Some s'), v) \<Longrightarrow>
    s' = step\<lparr>rs_status := StepQueued\<rparr> \<and> ww_runs v = ww_runs w \<and> ww_policy v = ww_policy w \<and>
    ww_approvals v = ww_approvals w \<and> ww_leases v = ww_leases w"
  by (auto simp: recover_running_step_def split: if_splits prod.splits sum.splits)

text \<open>The step as it is offered to the claim: queued, possibly after a recovery.\<close>

lemma claim_next_granted:
  assumes "claim_next_step env d t i worker now w = (Inr (Some c), w')"
  obtains run step v where "get_run t i w = Some run" "next_step_of run w = Some step"
    "lease_available worker now run" "\<not> is_terminal_run (rn_status run)" "rn_status run \<noteq> RunPaused"
    "claim_step env d worker now run (step\<lparr>rs_status := StepQueued\<rparr>) v = (Inr (Some c), w')"
    "ww_runs v = ww_runs w" "ww_policy v = ww_policy w" "ww_approvals v = ww_approvals w" "ww_leases v = ww_leases w"
    "rs_status step = StepQueued \<or> rs_status step = StepRunning \<and>
      int (rs_attempts step) < max 1 (rs_max_attempts step) \<and> is_retryable_action (rs_action step)"
proof -
  from claim_next_some [OF assms] obtain run step v where a: "get_run t i w = Some run" "next_step_of run w = Some step"
    "lease_available worker now run" "\<not> is_terminal_run (rn_status run)" "rn_status run \<noteq> RunPaused"
    and o: "rs_status step = StepQueued \<and> v = w \<and> claim_step env d worker now run step v = (Inr (Some c), w') \<or>
     rs_status step = StepRunning \<and> int (rs_attempts step) < max 1 (rs_max_attempts step) \<and>
       is_retryable_action (rs_action step) \<and>
       recover_running_step env d now run step w = (Inr (Some (step\<lparr>rs_status := StepQueued\<rparr>)), v) \<and>
       claim_step env d worker now run (step\<lparr>rs_status := StepQueued\<rparr>) v = (Inr (Some c), w')" .
  from o show ?thesis
  proof
    assume q: "rs_status step = StepQueued \<and> v = w \<and> claim_step env d worker now run step v = (Inr (Some c), w')"
    then have "step = step\<lparr>rs_status := StepQueued\<rparr>" by (cases step) simp
    with q have "claim_step env d worker now run (step\<lparr>rs_status := StepQueued\<rparr>) v = (Inr (Some c), w')"
      by metis
    with q show ?thesis by (intro that [OF a, of v]) simp_all
  next
    assume r: "rs_status step = StepRunning \<and> int (rs_attempts step) < max 1 (rs_max_attempts step) \<and>
       is_retryable_action (rs_action step) \<and>
       recover_running_step env d now run step w = (Inr (Some (step\<lparr>rs_status := StepQueued\<rparr>)), v) \<and>
       claim_step env d worker now run (step\<lparr>rs_status := StepQueued\<rparr>) v = (Inr (Some c), w')"
    then have "ww_runs v = ww_runs w \<and> ww_policy v = ww_policy w \<and> ww_approvals v = ww_approvals w \<and> ww_leases v = ww_leases w"
      using recovered_step by blast
    with r show ?thesis by (intro that [OF a, of v]) auto
  qed
qed

subsection \<open>Claims are exclusive\<close>

lemma get_run_set_run:
  "(\<And>r. run_key (f r) = run_key r) \<Longrightarrow> get_run t i (set_run t i f w) = map_option f (get_run t i w)"
  unfolding get_run_def set_run_proj
  by (subst find_update_where)
    (auto simp: run_is_def run_key_def intro!: map_option_cong dest: find_in)

lemma get_run_cong: "ww_runs w' = ww_runs w \<Longrightarrow> get_run t i w' = get_run t i w"
  by (simp add: get_run_def)

lemma policy_passes_runs:
  "maybe_pause_for_policy env d now run step w = (Inr False, w') \<Longrightarrow>
    ww_runs w' = ww_runs w \<and> ww_steps w' = ww_steps w \<and> ww_leases w' = ww_leases w \<and> ww_approvals w' = ww_approvals w"
  by (auto simp: maybe_pause_for_policy_def Let_def split: option.splits if_splits prod.splits sum.splits)

lemma get_run_start:
  "get_run (rn_tenant run) (rn_id run) (start_step d worker now run step w) =
    map_option (\<lambda>r. r\<lparr>rn_status := RunRunning, rn_updated_at := now,
      rn_started_at := sql_coalesce (rn_started_at r) (Some now), rn_current_step := Some (rs_index step),
      rn_lease_owner := Some worker, rn_lease_expires := Some (now + run_lease_ttl),
      rn_progress_at := Some now, rn_progress := Some (claimed_progress d step)\<rparr>)
    (get_run (rn_tenant run) (rn_id run) w)"
proof -
  have "get_run (rn_tenant run) (rn_id run) (w\<lparr>ww_steps := ss\<rparr>) = get_run (rn_tenant run) (rn_id run) w" for ss
    by (rule get_run_cong) simp
  moreover have "get_run t i (record_turn_progress t' i' a p (set_turn_lease t' i' u x v)) = get_run t i v"
    for t i t' i' a p u x v by (rule get_run_cong) simp
  ultimately show ?thesis
    unfolding start_step_def Let_def record_run_progress_def
    by (simp add: get_run_set_run run_key_def option.map_comp comp_def)
qed

lemma take_step_some:
  assumes "take_step d worker now run step w = (Some c, w')"
  obtains l where "w' = start_step d worker now run step (w\<lparr>ww_leases := l\<rparr>)" "cm_run c = run"
    "cm_step c = step\<lparr>rs_status := StepRunning, rs_attempts := Suc (rs_attempts step)\<rparr>"
    "cm_attempt c = Suc (rs_attempts step)"
    "at_kind (rs_action step) = CLI \<Longrightarrow>
      try_acquire_workspace_lease (rn_tenant run, rn_workspace run) worker (int now) (int run_lease_ttl) (ww_leases w) = (True, l)"
    "length (filter (is_queued_step (rn_tenant run) (rs_id step)) (ww_steps w)) = 1"
proof -
  obtain ok l where l: "(if at_kind (rs_action step) = CLI
            then try_acquire_workspace_lease (rn_tenant run, rn_workspace run) worker (int now) (int run_lease_ttl) (ww_leases w)
            else (True, ww_leases w)) = (ok, l)" by fastforce
  with assms have ok: "ok" by (simp add: take_step_def Let_def split: if_splits)
  with assms l have one: "length (filter (is_queued_step (rn_tenant run) (rs_id step)) (ww_steps w)) = 1"
    by (simp add: take_step_def Let_def split: if_splits)
  show ?thesis
  proof (rule that)
    show "at_kind (rs_action step) = CLI \<Longrightarrow>
      try_acquire_workspace_lease (rn_tenant run, rn_workspace run) worker (int now) (int run_lease_ttl) (ww_leases w) = (True, l)"
      using l ok by simp
  qed (use assms l ok one in \<open>auto simp: take_step_def Let_def\<close>)
qed

lemma claim_next_leases:
  assumes "claim_next_step env d t i worker now w = (Inr (Some c), w')"
  obtains r where "get_run t i w' = Some r" "rn_lease_owner r = Some worker" "rn_lease_expires r = Some (now + run_lease_ttl)"
    "rn_status r = RunRunning"
proof -
  from claim_next_granted [OF assms] obtain run step v where r: "get_run t i w = Some run"
    and v: "ww_runs v = ww_runs w" and c: "claim_step env d worker now run (step\<lparr>rs_status := StepQueued\<rparr>) v = (Inr (Some c), w')" .
  let ?s = "step\<lparr>rs_status := StepQueued\<rparr>"
  from get_run_some [OF r] have k: "rn_tenant run = t" "rn_id run = i" by (auto simp: run_key_def)
  from claim_step_some [OF c] obtain w2 where p: "maybe_pause_for_policy env d now run ?s v = (Inr False, w2)"
    and tk: "take_step d worker now run ?s w2 = (Some c, w')" .
  from take_step_some [OF tk] obtain l where w': "w' = start_step d worker now run ?s (w2\<lparr>ww_leases := l\<rparr>)" .
  have "get_run t i (w2\<lparr>ww_leases := l\<rparr>) = Some run"
    using r v policy_passes_runs [OF p] get_run_cong [of "w2\<lparr>ww_leases := l\<rparr>" w] by simp
  with get_run_start [of run d worker now ?s "w2\<lparr>ww_leases := l\<rparr>"] that k w' show ?thesis by simp
qed

lemma claim_refused:
  assumes "get_run t i w = Some r" "rn_lease_owner r = Some u" "rn_lease_expires r = Some x" "u \<noteq> worker" "now < x"
  shows "claim_next_step env d t i worker now w = (Inr None, w)"
  using assms by (simp add: claim_next_step_def claim_next_body_def transaction_def lease_available_def)

fun claim_attempts :: "(wf_env \<times> wf_draw \<times> string \<times> nat) list \<Rightarrow> string \<Rightarrow> string \<Rightarrow> wf_world
    \<Rightarrow> (wf_error + step_claim option) list \<times> wf_world" where
  "claim_attempts [] t i w = ([], w)"
| "claim_attempts ((env, d, worker, now) # as) t i w =
    (case claim_next_step env d t i worker now w of
       (x, w1) \<Rightarrow> (case claim_attempts as t i w1 of (xs, w2) \<Rightarrow> (x # xs, w2)))"

text \<open>
  Once a worker has claimed a step of a run, no other worker gets a step of that run during the next
  thirty seconds: whatever its policy, clock and draws, every attempt is turned away and changes nothing.
\<close>

theorem claimed_run_exclusive:
  assumes "claim_next_step env d t i worker now w = (Inr (Some c), w')"
    and "\<forall>(env', d', other, at) \<in> set attempts. other \<noteq> worker \<and> at < now + 30000"
  shows "claim_attempts attempts t i w' = (replicate (length attempts) (Inr None), w')"
proof -
  from claim_next_leases [OF assms(1)] obtain r where r: "get_run t i w' = Some r" "rn_lease_owner r = Some worker"
    "rn_lease_expires r = Some (now + run_lease_ttl)" .
  have "claim_next_step env' d' t i other at w' = (Inr None, w')" if "other \<noteq> worker" "at < now + 30000" for env' d' other at
    using that by (intro claim_refused [OF r]) (simp_all add: run_lease_ttl_def)
  with assms(2) show ?thesis by (induction attempts) auto
qed

subsection \<open>Claims are authorized\<close>

lemma policy_permits_cong:
  assumes "rs_action s' = rs_action s" "rs_id s' = rs_id s" "ww_policy v = ww_policy w" "ww_approvals v = ww_approvals w"
  shows "policy_permits env now run s' v = policy_permits env now run s w"
proof -
  have "latest_step_approval run s' v = latest_step_approval run s w"
    using assms by (simp add: latest_step_approval_def split: option.split)
  then show ?thesis unfolding policy_permits_def using assms by (simp cong: option.case_cong)
qed

text \<open>
  C24. A worker only ever gets a step when the run is neither paused nor over and free or its own, the time
  budget is kept or was overridden, and the pinned policy allows the action, or asks for an approval
  and the latest approval of the step is granted (or policy is only observing). The step is the first
  unsettled one; a command line comes with the lease of the workspace.
\<close>

theorem claim_authorized:
  assumes "claim_next_step env d t i worker now w = (Inr (Some c), w')"
  shows "\<exists>run step. get_run t i w = Some run \<and> next_step_of run w = Some step \<and> cm_run c = run \<and>
    cm_step c = step\<lparr>rs_status := StepRunning, rs_attempts := Suc (rs_attempts step)\<rparr> \<and>
    cm_attempt c = Suc (rs_attempts step) \<and>
    rn_status run \<noteq> RunPaused \<and> \<not> is_terminal_run (rn_status run) \<and> lease_available worker now run \<and>
    within_budget d run \<and> policy_permits env now run step w \<and>
    (rs_status step = StepQueued \<or>
     rs_status step = StepRunning \<and> int (rs_attempts step) < max 1 (rs_max_attempts step) \<and>
     is_retryable_action (rs_action step)) \<and>
    (at_kind (rs_action step) = CLI \<longrightarrow>
      fst (try_acquire_workspace_lease (t, rn_workspace run) worker (int now) (int run_lease_ttl) (ww_leases w)))"
proof -
  from claim_next_granted [OF assms] obtain run step v where a: "get_run t i w = Some run" "next_step_of run w = Some step"
      "lease_available worker now run" "\<not> is_terminal_run (rn_status run)" "rn_status run \<noteq> RunPaused"
    and c: "claim_step env d worker now run (step\<lparr>rs_status := StepQueued\<rparr>) v = (Inr (Some c), w')"
    and v: "ww_policy v = ww_policy w" "ww_approvals v = ww_approvals w" "ww_leases v = ww_leases w"
    and st: "rs_status step = StepQueued \<or> rs_status step = StepRunning \<and>
      int (rs_attempts step) < max 1 (rs_max_attempts step) \<and> is_retryable_action (rs_action step)" .
  define s' where s': "s' = step\<lparr>rs_status := StepQueued\<rparr>"
  note c = c [folded s']
  from claim_step_some [OF c] obtain w2 where p: "policy_permits env now run s' v" "within_budget d run"
    "maybe_pause_for_policy env d now run s' v = (Inr False, w2)" "take_step d worker now run s' w2 = (Some c, w')" .
  from take_step_some [OF p(4)] obtain l where cl: "cm_run c = run" "cm_attempt c = Suc (rs_attempts s')"
    "cm_step c = s'\<lparr>rs_status := StepRunning, rs_attempts := Suc (rs_attempts s')\<rparr>"
    "at_kind (rs_action s') = CLI \<Longrightarrow> try_acquire_workspace_lease (rn_tenant run, rn_workspace run) worker (int now)
       (int run_lease_ttl) (ww_leases w2) = (True, l)" by blast
  have "rn_tenant run = t" using get_run_some [OF a(1)] by (simp add: run_key_def)
  moreover have "ww_leases w2 = ww_leases w" using policy_passes_runs [OF p(3)] v(3) by simp
  moreover have "policy_permits env now run step w"
    using p(1) policy_permits_cong [of s' step v w] s' v by simp
  ultimately show ?thesis using a st p(2) cl s' by auto
qed

lemma run_op_steps [simp]:
  "ww_steps (record_run_progress t i a p w) = ww_steps w" "ww_steps (clear_run_lease t i w) = ww_steps w"
  by (simp_all add: record_run_progress_def clear_run_lease_def)

subsection \<open>A concrete run\<close>

definition demo_wf_env :: wf_env where
  "demo_wf_env = \<lparr>we_platform = demo_platform, we_redact_text = id, we_redact = id, we_tool_effect = (\<lambda>_. None)\<rparr>"

definition demo_wf_draw :: wf_draw where
  "demo_wf_draw = \<lparr>wd_attempt = ''x1'', wd_approval = ''a1'', wd_review = ''v1'', wd_snapshot = ''p1'', wd_token = ''k1'',
     wd_clock = 5\<rparr>"

definition demo_wf_params :: run_params where
  "demo_wf_params = \<lparr>np_tenant = ''t'', np_agent = ''g'', np_workspace = ''w'', np_key = ''k'', np_conversation = None,
     np_trigger = JNull, np_plan = None, np_request = None, np_input = None, np_budgets = None,
     np_policy_snapshot = None, np_id = None, np_status = None, np_attempt = None, np_current_step = None,
     np_created_at = None, np_updated_at = None, np_started_at = None, np_finished_at = None,
     np_blocked_reason = None, np_blocked_detail = None, np_budget_overridden_at = None, np_lease_owner = None,
     np_lease_expires = None, np_checkpoint = None, np_progress_at = None, np_progress = None\<rparr>"

definition demo_wf_action :: action_primitive where
  "demo_wf_action = \<lparr>at_kind = Research, at_args = [], at_postcondition = None, at_idempotency_key = None\<rparr>"

definition demo_wf_step :: "string \<Rightarrow> nat \<Rightarrow> wf_step" where
  "demo_wf_step i k = new_step i ''t'' ''r'' k 0 \<lparr>sp_action = demo_wf_action, sp_status = None, sp_idempotency_key = None,
     sp_postcondition = None, sp_step_metadata = None, sp_policy_snapshot = None, sp_max_attempts = Some 3,
     sp_timeout = Some 1\<rparr>"

definition demo_wf_world :: "run_status \<Rightarrow> wf_step list \<Rightarrow> wf_world" where
  "demo_wf_world st ss = \<lparr>ww_runs = [(new_run ''r'' 0 demo_wf_params)\<lparr>rn_status := st\<rparr>], ww_steps = ss, ww_turns = [],
     ww_leases = no_leases, ww_approvals = \<lparr>ad_approvals = [], ad_reviews = []\<rparr>, ww_policy = None\<rparr>"

lemmas demo_wf_simps = demo_wf_env_def demo_wf_draw_def demo_wf_params_def demo_wf_action_def demo_wf_step_def
  demo_wf_world_def new_run_def new_step_def Let_def or_default_def

lemma demo_wf_keys: "wf_keys (demo_wf_world st [demo_wf_step ''s0'' 0, demo_wf_step ''s1'' 1])"
  by (simp add: wf_keys_def demo_wf_simps run_key_def step_key_def) code_simp

lemma demo_wf_claim:
  "\<exists>c w'. claim_next_step demo_wf_env demo_wf_draw ''t'' ''r'' ''A'' 7 (demo_wf_world RunQueued [demo_wf_step ''s0'' 0]) =
    (Inr (Some c), w')"
  by (simp add: claim_next_step_def transaction_def claim_next_body_def demo_wf_simps get_run_def is_terminal_run_def
      lease_available_def next_step_of_def steps_of_def is_live_step_def claim_step_def maybe_pause_for_budget_def
      maybe_pause_for_policy_def take_step_def is_queued_step_def step_is_def)

lemma ended_runs_frozen_witness:
  "let w = demo_wf_world RunFailed [demo_wf_step ''s0'' 0, demo_wf_step ''s1'' 1];
       w' = snd (cancel_run 9 ''r'' None (snd (claim_next_step demo_wf_env demo_wf_draw ''t'' ''r'' ''A'' 7 w)))
   in (new_run ''r'' 0 demo_wf_params)\<lparr>rn_status := RunFailed\<rparr> \<in> set (ww_runs w')"
proof -
  let ?w = "demo_wf_world RunFailed [demo_wf_step ''s0'' 0, demo_wf_step ''s1'' 1]"
  let ?w1 = "snd (claim_next_step demo_wf_env demo_wf_draw ''t'' ''r'' ''A'' 7 ?w)"
  have "wf_event\<^sup>*\<^sup>* ?w (snd (cancel_run 9 ''r'' None ?w1))"
    by (rule rtranclp_trans [OF r_into_rtranclp r_into_rtranclp]) (rule event_claim event_cancel)+
  moreover have "(new_run ''r'' 0 demo_wf_params)\<lparr>rn_status := RunFailed\<rparr> \<in> set (ww_runs ?w)"
    "is_terminal_run (rn_status ((new_run ''r'' 0 demo_wf_params)\<lparr>rn_status := RunFailed\<rparr>))"
    by (simp_all add: demo_wf_world_def is_terminal_run_def)
  ultimately show ?thesis using ended_runs_frozen [OF _ demo_wf_keys] by (simp add: Let_def)
qed

lemma claimed_run_exclusive_witness:
  "\<exists>w'. claim_attempts [(demo_wf_env, demo_wf_draw, ''B'', 8), (demo_wf_env, demo_wf_draw, ''C'', 30006)] ''t'' ''r'' w' =
    ([Inr None, Inr None], w')"
proof -
  from demo_wf_claim obtain c w' where c: "claim_next_step demo_wf_env demo_wf_draw ''t'' ''r'' ''A'' 7
    (demo_wf_world RunQueued [demo_wf_step ''s0'' 0]) = (Inr (Some c), w')" by blast
  have "\<forall>(env', d', other, at) \<in> set [(demo_wf_env, demo_wf_draw, ''B'', 8), (demo_wf_env, demo_wf_draw, ''C'', 30006)].
      other \<noteq> ''A'' \<and> at < (7::nat) + 30000" by simp
  from claimed_run_exclusive [OF c this] show ?thesis by (auto simp: numeral_2_eq_2)
qed

lemma claim_authorized_witness:
  "\<exists>run step c w'. claim_next_step demo_wf_env demo_wf_draw ''t'' ''r'' ''A'' 7
      (demo_wf_world RunQueued [demo_wf_step ''s0'' 0]) = (Inr (Some c), w') \<and> cm_run c = run \<and>
    next_step_of run (demo_wf_world RunQueued [demo_wf_step ''s0'' 0]) = Some step \<and> cm_attempt c = Suc (rs_attempts step)"
proof -
  from demo_wf_claim obtain c w' where c: "claim_next_step demo_wf_env demo_wf_draw ''t'' ''r'' ''A'' 7
    (demo_wf_world RunQueued [demo_wf_step ''s0'' 0]) = (Inr (Some c), w')" by blast
  from claim_authorized [OF c] c show ?thesis by blast
qed

end
