(* ===== verification/Workflow_Gaps.thy ===== *)
theory Workflow_Gaps
  imports Workflow_Claims
begin

text \<open>
  What the runner of \<open>gateway/src/modules/workflow-run\<close> does not guard against: results that arrive
  after the lease was lost, resume tokens that are presented twice, and a second pause of the same kind.
\<close>

subsection \<open>Late results\<close>

text \<open>The statuses of the rows with the id of a step; there is one such row at most.\<close>

definition step_statuses :: "string \<Rightarrow> string \<Rightarrow> wf_world \<Rightarrow> step_status list" where
  "step_statuses t sid w = map rs_status (filter (step_is t sid) (ww_steps w))"

lemma step_statuses_update:
  assumes "\<And>s. step_is t sid s \<Longrightarrow> step_is t sid (f s) \<and> rs_status (f s) = x"
    "ww_steps w' = update_where (step_is t sid) f (ww_steps w)"
  shows "step_statuses t sid w' = map (\<lambda>_. x) (step_statuses t sid w)"
proof -
  have "map rs_status (filter (step_is t sid) (update_where (step_is t sid) f ss)) =
      map (\<lambda>_. x) (map rs_status (filter (step_is t sid) ss))" for ss
    by (induction ss) (auto simp: update_where_def assms(1))
  then show ?thesis by (simp add: step_statuses_def assms(2))
qed

lemma run_lease_cleared:
  "get_run t i (record_run_progress t i a p (clear_turn_lease t' i' (clear_run_lease t i (set_run t i f w)))) =
    map_option (\<lambda>r. (f r)\<lparr>rn_lease_owner := None, rn_lease_expires := None, rn_progress_at := a, rn_progress := p\<rparr>)
      (get_run t i w)"
  if "\<And>r. run_key (f r) = run_key r" for f
proof -
  have "get_run t i (clear_turn_lease t' i' v) = get_run t i v" for v by (rule get_run_cong) simp
  with that show ?thesis
    unfolding record_run_progress_def clear_run_lease_def
    by (simp add: get_run_set_run run_key_def option.map_comp comp_def)
qed

lemma get_run_set_step [simp]: "get_run t i (set_step t' s f w) = get_run t i w"
  by (rule get_run_cong) simp

lemma commit_failure:
  assumes "get_run (rn_tenant (cm_run c)) (rn_id (cm_run c)) w = Some run" "\<not> is_terminal_run (rn_status run)"
    and "int (cm_attempt c) < rs_max_attempts (cm_step c)" "is_retryable_action (rs_action (cm_step c))"
  obtains q where "commit_claim env d t0 t1 now c (Inl msg) w = (Inr (), requeue_step env now c q msg w)"
proof -
  let ?q = "build_prepared_result env (execute_with_timeout (Inl msg)) (rs_postcondition (cm_step c)) t0 t1"
  have "pr_pause ?q = None" "pr_pause_detail ?q = None" "pr_postcondition_error ?q = None" "pr_error ?q = Some msg"
    by (simp_all add: build_prepared_result_def execute_with_timeout_def payload_of_def no_payload_def Let_def
        split: option.split prod.split)
  then have "commit_claim env d t0 t1 now c (Inl msg) w = (Inr (), requeue_step env now c ?q msg w)"
    using assms by (simp add: commit_claim_def commit_body_def transaction_def Let_def given_def execute_with_timeout_def)
  then show ?thesis by (rule that)
qed

text \<open>
  A result is filed without a look at the lease or the attempt it belongs to: when a worker that lost
  its lease reports a failure after another worker has finished the step, and the claim had attempts
  left (so \<open>max_attempts\<close> is above one, which no caller in the repository sets), the step is queued again,
  whatever its status, and so executed once more; the lease of the worker that may be at the next step
  is taken away.
\<close>

theorem late_failure_requeues:
  assumes "get_run (rn_tenant (cm_run c)) (rn_id (cm_run c)) w = Some run" "\<not> is_terminal_run (rn_status run)"
    and "int (cm_attempt c) < rs_max_attempts (cm_step c)" "is_retryable_action (rs_action (cm_step c))"
    and "snd (commit_claim env d t0 t1 now c (Inl msg) w) = w'"
  shows "step_statuses (rn_tenant (cm_run c)) (rs_id (cm_step c)) w' =
      map (\<lambda>_. StepQueued) (step_statuses (rn_tenant (cm_run c)) (rs_id (cm_step c)) w) \<and>
    (\<exists>r. get_run (rn_tenant (cm_run c)) (rn_id (cm_run c)) w' = Some r \<and> rn_status r = RunQueued \<and> rn_lease_owner r = None)"
proof -
  from commit_failure [OF assms(1-4)] assms(5) obtain q where w': "w' = requeue_step env now c q msg w" by (metis snd_conv)
  have "step_statuses (rn_tenant (cm_run c)) (rs_id (cm_step c)) w' =
      map (\<lambda>_. StepQueued) (step_statuses (rn_tenant (cm_run c)) (rs_id (cm_step c)) w)"
    unfolding w' requeue_step_def Let_def
    by (rule step_statuses_update [rotated]) (auto simp: step_is_def store_result_def)
  moreover have "get_run (rn_tenant (cm_run c)) (rn_id (cm_run c)) w' \<noteq> None \<and>
      (\<forall>r. get_run (rn_tenant (cm_run c)) (rn_id (cm_run c)) w' = Some r \<longrightarrow> rn_status r = RunQueued \<and> rn_lease_owner r = None)"
    unfolding w' requeue_step_def Let_def by (subst run_lease_cleared, simp add: run_key_def)+ (use assms(1) in auto)
  ultimately show ?thesis by blast
qed

definition demo_late_claim :: step_claim where
  "demo_late_claim = \<lparr>cm_run = new_run ''r'' 0 demo_wf_params, cm_step = demo_wf_step ''s0'' 0, cm_attempt_id = ''x1'', cm_attempt = 1\<rparr>"

definition demo_progressed :: wf_world where
  "demo_progressed = demo_wf_world RunRunning [(demo_wf_step ''s0'' 0)\<lparr>rs_status := StepSucceeded\<rparr>,
     (demo_wf_step ''s1'' 1)\<lparr>rs_status := StepRunning\<rparr>]"

text \<open>The first step has succeeded and the second is running; a late failure starts the first one again.\<close>

lemma late_failure_requeues_witness:
  "step_statuses ''t'' ''s0'' demo_progressed = [StepSucceeded] \<and>
   step_statuses ''t'' ''s0'' (snd (commit_claim demo_wf_env demo_wf_draw 0 0 9 demo_late_claim (Inl ''timeout'') demo_progressed)) =
     [StepQueued]"
proof -
  have s: "step_statuses ''t'' ''s0'' demo_progressed = [StepSucceeded]"
    by (simp add: step_statuses_def demo_progressed_def demo_wf_simps step_is_def)
  have "get_run (rn_tenant (cm_run demo_late_claim)) (rn_id (cm_run demo_late_claim)) demo_progressed =
      Some ((new_run ''r'' 0 demo_wf_params)\<lparr>rn_status := RunRunning\<rparr>)"
    by (simp add: get_run_def demo_late_claim_def demo_progressed_def demo_wf_simps)
  from late_failure_requeues [OF this, of demo_wf_env demo_wf_draw 0 0 9 "''timeout''"] s show ?thesis
    by (simp add: is_terminal_run_def demo_late_claim_def demo_wf_simps is_retryable_action_def requires_postcondition_def)
qed

subsection \<open>Repeated resumption\<close>

text \<open>
  Presenting a granted resume token again, at any later time before the run is over, queues the step of
  the approval again even when it has long succeeded, and takes the lease away from whoever works on
  the run. The approval engine delivers its actions at least once.
\<close>

theorem resume_replay_requeues:
  assumes "newest (filter (\<lambda>a. ap_resume_token a = Some tok) (ad_approvals (ww_approvals w))) = Some a"
    and "trim tok = tok" "tok \<noteq> []" "ap_tenant a \<noteq> []" "ap_step a = Some sid" "sid \<noteq> []" "ap_status a = Approved"
    and "run_id_for_resume_token (ap_tenant a) tok w = Some i" "get_run (ap_tenant a) i w = Some run"
    and "\<not> is_terminal_run (rn_status run)" "step_statuses (ap_tenant a) sid w \<noteq> []"
  shows "fst (resume_run now tok w) = Inr (Some i) \<and>
    step_statuses (ap_tenant a) sid (snd (resume_run now tok w)) = map (\<lambda>_. StepQueued) (step_statuses (ap_tenant a) sid w) \<and>
    (\<exists>r. get_run (ap_tenant a) i (snd (resume_run now tok w)) = Some r \<and> rn_status r = RunQueued \<and> rn_lease_owner r = None)"
proof -
  have "find (step_is (ap_tenant a) sid) (ww_steps w) \<noteq> None"
    using assms(11) by (auto simp: step_statuses_def find_None_iff filter_empty_conv)
  then have r: "resume_run now tok w = (Inr (Some i), resume_update now a sid i run w)"
    using assms(1-10) by (simp add: resume_run_def Let_def should_resume_def resume_body_def transaction_def)
  have "step_statuses (ap_tenant a) sid (resume_update now a sid i run w) = map (\<lambda>_. StepQueued) (step_statuses (ap_tenant a) sid w)"
    unfolding resume_update_def Let_def
    by (rule step_statuses_update [where f = "\<lambda>s. s\<lparr>rs_status := StepQueued, rs_updated_at := now, rs_error := None\<rparr>"])
      (simp_all add: step_is_def)
  moreover have "\<exists>r. get_run (ap_tenant a) i (resume_update now a sid i run w) = Some r \<and> rn_status r = RunQueued \<and> rn_lease_owner r = None"
    unfolding resume_update_def Let_def record_run_progress_def clear_run_lease_def
    by (simp add: get_run_set_run run_key_def assms(9))
  ultimately show ?thesis by (simp add: r)
qed

subsection \<open>Approval keys are per kind\<close>

text \<open>
  The approval key names the run, the step and the kind of pause only. When a step pauses a second time
  for the same kind of reason, the old, already decided approval is returned: the run is paused, but no
  approval is created and nothing is open that could resume it.
\<close>

theorem second_pause_unanswerable:
  assumes "pause_run env d now run step p w = (Inr (), w')"
    and "get_approval_by_key (rn_tenant run) (app_key (pause_approval_params env d run step p)) (ww_approvals w) = Some a"
    and "is_approval_terminal_status (ap_status a)" "get_run (rn_tenant run) (rn_id run) w = Some r"
  shows "ww_approvals w' = ww_approvals w \<and>
    (\<exists>r'. get_run (rn_tenant run) (rn_id run) w' = Some r' \<and> rn_status r' = RunPaused)"
proof -
  let ?p = "pause_approval_params env d run step p"
  obtain x psv db where x: "create_reviewed_approval (we_platform env) d now ?p (ww_policy w) (ww_approvals w) = (x, psv, db)"
    by (metis prod_cases3)
  with assms(1) obtain a' where a': "x = Inr a'" by (cases x) (auto simp: pause_run_def)
  have t: "app_tenant ?p = rn_tenant run" by (simp add: pause_approval_params_def)
  have "get_approval_by_key (ap_tenant (new_approval (wd_approval d) now (?p\<lparr>app_status := s, app_context := cx\<rparr>)))
      (ap_key (new_approval (wd_approval d) now (?p\<lparr>app_status := s, app_context := cx\<rparr>))) (ww_approvals w) = Some a" for s cx
    using assms(2) t by (simp add: get_approval_by_key_def new_approval_def)
  then have c: "create_approval (wd_approval d) now (?p\<lparr>app_status := s, app_context := cx\<rparr>) (ww_approvals w) = (Inr y, db')
      \<Longrightarrow> y = a \<and> db' = ww_approvals w"
    "create_approval (wd_approval d) now (?p\<lparr>app_status := s, app_context := cx\<rparr>) (ww_approvals w) = (Inl e, db')
      \<Longrightarrow> db' = ww_approvals w" for s cx y e db'
    by (auto simp: create_approval_def Let_def split: option.splits)
  have "ap_status a \<noteq> Queued" "ap_status a \<noteq> AwaitingHuman"
    using assms(3) by (auto simp: is_approval_terminal_status_def)
  with x a' have "db = ww_approvals w"
    by (auto simp: create_reviewed_approval_def Let_def split: prod.splits sum.splits if_splits dest: c)
  with assms(1) x a' have w': "w' = record_run_progress (rn_tenant run) (rn_id run) (Some now) (Some (JObj
          [(''kind'', JStr ''workflow_run.paused''), (''workflow_run_step_id'', JStr (rs_id step)),
           (''approval_id'', JStr (ap_id a')), (''paused_reason'', JStr (approval_pause_reason (pz_kind p)))]))
      (clear_turn_lease (rn_tenant run) (rn_id run) (clear_run_lease (rn_tenant run) (rn_id run)
        (set_run (rn_tenant run) (rn_id run) (\<lambda>r. r\<lparr>rn_status := RunPaused, rn_blocked_reason := Some (approval_pause_reason (pz_kind p)),
           rn_blocked_detail := Some (we_redact_text env (pz_detail p)), rn_updated_at := now\<rparr>)
          (w\<lparr>ww_policy := psv, ww_approvals := ww_approvals w\<rparr>))))"
    by (simp add: pause_run_def Let_def)
  have "get_run (rn_tenant run) (rn_id run) (w\<lparr>ww_policy := psv, ww_approvals := ww_approvals w\<rparr>) = Some r"
    using assms(4) by (simp add: get_run_def)
  then have "\<exists>r'. get_run (rn_tenant run) (rn_id run) w' = Some r' \<and> rn_status r' = RunPaused"
    unfolding w' by (subst run_lease_cleared) (auto simp: run_key_def)
  moreover have "ww_approvals w' = ww_approvals w"
    unfolding w' by (simp add: record_run_progress_def clear_run_lease_def)
  ultimately show ?thesis by simp
qed


definition demo_wf_approval :: approval where
  "demo_wf_approval = \<lparr>ap_tenant = ''t'', ap_id = ''a0'', ap_key = ''workflow:r:step:0:retry'', ap_agent = ''g'',
     ap_workspace = ''w'', ap_kind = Retry, ap_status = Approved, ap_prompt = ''p'', ap_motivation = ''m'',
     ap_context = JNull, ap_created_at = 3, ap_expires_at = None, ap_latest_review = None, ap_conversation = None,
     ap_plan = None, ap_turn = None, ap_turn_item = None, ap_step = Some ''s0'', ap_work_item = None,
     ap_work_item_task = None, ap_resume_token = Some ''k''\<rparr>"

definition demo_approved :: wf_world where
  "demo_approved = demo_progressed\<lparr>ww_approvals := \<lparr>ad_approvals = [demo_wf_approval], ad_reviews = []\<rparr>\<rparr>"

lemma resume_replay_requeues_witness:
  "step_statuses ''t'' ''s0'' demo_approved = [StepSucceeded] \<and>
   step_statuses ''t'' ''s0'' (snd (resume_run 9 ''k'' demo_approved)) = [StepQueued]"
proof -
  have s: "step_statuses ''t'' ''s0'' demo_approved = [StepSucceeded]" by code_simp
  have h: "newest (filter (\<lambda>a. ap_resume_token a = Some ''k'') (ad_approvals (ww_approvals demo_approved))) = Some demo_wf_approval"
    "run_id_for_resume_token (ap_tenant demo_wf_approval) ''k'' demo_approved = Some ''r''" by code_simp+
  have g: "get_run (ap_tenant demo_wf_approval) ''r'' demo_approved = Some ((new_run ''r'' 0 demo_wf_params)\<lparr>rn_status := RunRunning\<rparr>)"
    by (simp add: get_run_def demo_approved_def demo_progressed_def demo_wf_simps demo_wf_approval_def)
  have k: "trim ''k'' = ''k''" by code_simp
  show ?thesis using resume_replay_requeues [OF h(1) k _ _ _ _ _ h(2) g, of "''s0''" 9] s
    by (simp add: demo_wf_approval_def is_terminal_run_def)
qed

lemma second_pause_unanswerable_witness:
  "let run = new_run ''r'' 0 demo_wf_params; step = demo_wf_step ''s0'' 0;
       w' = snd (pause_run demo_wf_env demo_wf_draw 9 run step (retry_request step) demo_approved)
   in ad_approvals (ww_approvals w') = [demo_wf_approval] \<and> map_option rn_status (get_run ''t'' ''r'' w') = Some RunPaused"
proof -
  let ?run = "new_run ''r'' 0 demo_wf_params" and ?step = "demo_wf_step ''s0'' 0"
  let ?w' = "snd (pause_run demo_wf_env demo_wf_draw 9 ?run ?step (retry_request ?step) demo_approved)"
  have "fst (pause_run demo_wf_env demo_wf_draw 9 ?run ?step (retry_request ?step) demo_approved) = Inr ()" by code_simp
  then have p: "pause_run demo_wf_env demo_wf_draw 9 ?run ?step (retry_request ?step) demo_approved = (Inr (), ?w')"
    by (metis prod.collapse)
  have k: "get_approval_by_key (rn_tenant ?run) (app_key (pause_approval_params demo_wf_env demo_wf_draw ?run ?step
      (retry_request ?step))) (ww_approvals demo_approved) = Some demo_wf_approval" by code_simp
  have g: "get_run (rn_tenant ?run) (rn_id ?run) demo_approved = Some (?run\<lparr>rn_status := RunRunning\<rparr>)"
    by (simp add: get_run_def demo_approved_def demo_progressed_def demo_wf_simps)
  have r: "rn_tenant ?run = ''t''" "rn_id ?run = ''r''" by (simp_all add: demo_wf_simps)
  have "is_approval_terminal_status (ap_status demo_wf_approval)"
    by (simp add: demo_wf_approval_def is_approval_terminal_status_def)
  from second_pause_unanswerable [OF p k this g] r show ?thesis by (auto simp: Let_def demo_approved_def)
qed

end
