(* ===== verification/Workflow_Order.thy ===== *)
theory Workflow_Order
  imports Workflow_Claims
begin

text \<open>
  The steps of a run are done in order. \<open>order_inv\<close> is the invariant; it is kept by every claim,
  cancellation and creation, by commits of claims that are still current (\<open>current\<close>) and by
  resumptions of steps that are not settled (\<open>resumable\<close>). \<open>Workflow_Gaps\<close> shows what happens without
  these two conditions, which the code does not check.
\<close>

subsection \<open>The steps of a run that is not over\<close>

definition in_progress :: "step_status \<Rightarrow> bool" where
  "in_progress s \<longleftrightarrow> is_live_step s \<or> s = StepSucceeded"

definition steps_live :: "string \<times> string \<Rightarrow> wf_step list \<Rightarrow> bool" where
  "steps_live k ss \<longleftrightarrow> (\<forall>s \<in> set ss. step_run s = k \<longrightarrow> in_progress (rs_status s) \<and>
    (\<forall>s' \<in> set ss. step_run s' = k \<and> rs_index s < rs_index s' \<and> rs_status s' \<noteq> StepQueued \<longrightarrow> rs_status s = StepSucceeded))"

definition all_succeeded :: "string \<times> string \<Rightarrow> wf_step list \<Rightarrow> bool" where
  "all_succeeded k ss \<longleftrightarrow> (\<forall>s \<in> set ss. step_run s = k \<longrightarrow> rs_status s = StepSucceeded)"

definition run_ok :: "run_status \<Rightarrow> string \<times> string \<Rightarrow> wf_step list \<Rightarrow> bool" where
  "run_ok st k ss \<longleftrightarrow> (st = RunSucceeded \<longrightarrow> all_succeeded k ss) \<and> (\<not> is_terminal_run st \<longrightarrow> steps_live k ss)"

definition order_inv :: "wf_world \<Rightarrow> bool" where
  "order_inv w \<longleftrightarrow> wf_keys w \<and> distinct (map (\<lambda>s. (step_run s, rs_index s)) (ww_steps w)) \<and>
    (\<forall>s \<in> set (ww_steps w). step_run s \<in> run_key ` set (ww_runs w)) \<and>
    (\<forall>r \<in> set (ww_runs w). run_ok (rn_status r) (run_key r) (ww_steps w))"

lemma all_succeeded_live: "all_succeeded k ss \<Longrightarrow> steps_live k ss"
  by (auto simp: all_succeeded_def steps_live_def in_progress_def)

lemma steps_live_update:
  assumes "steps_live k ss" "s0 \<in> set ss" "step_run s0 = k" "\<And>s. s \<in> set ss \<Longrightarrow> P s \<Longrightarrow> s = s0"
    and "\<And>s. same_step s (f s)" "rs_status (f s0) = v" "in_progress v"
    and "v \<noteq> StepSucceeded \<Longrightarrow> rs_status s0 \<noteq> StepSucceeded"
    and "v \<noteq> StepQueued \<Longrightarrow> \<forall>s \<in> set ss. step_run s = k \<and> rs_index s < rs_index s0 \<longrightarrow> rs_status s = StepSucceeded"
  shows "steps_live k (update_where P f ss)"
proof -
  define g where "g = (\<lambda>s. if P s then f s else s)"
  have g: "step_run (g s) = step_run s" "rs_index (g s) = rs_index s" for s
    using assms(5) by (auto simp: g_def same_step_def)
  have st: "rs_status (g s) = (if s = s0 \<and> P s0 then v else rs_status s)" if "s \<in> set ss" for s
  proof (cases "P s")
    case True
    with assms(4) [OF that] have "s = s0" by blast
    with True assms(6) show ?thesis by (simp add: g_def)
  qed (auto simp: g_def)
  have old: "in_progress (rs_status s)" if "s \<in> set ss" "step_run s = k" for s
    using assms(1) that unfolding steps_live_def by blast
  have before: "rs_status s = StepSucceeded" if "s \<in> set ss" "step_run s = k" "s' \<in> set ss" "step_run s' = k"
    "rs_index s < rs_index s'" "rs_status s' \<noteq> StepQueued" for s s'
    using assms(1) that unfolding steps_live_def by blast
  have "rs_status (g s) = StepSucceeded" if s: "s \<in> set ss" "step_run s = k" "s' \<in> set ss" "step_run s' = k"
    "rs_index s < rs_index s'" and q: "rs_status (g s') \<noteq> StepQueued" for s s'
  proof (cases "s' = s0 \<and> P s0")
    case True
    with s q assms(9) have "rs_status s = StepSucceeded" "s \<noteq> s0" by (auto simp: st)
    with s show ?thesis by (simp add: st)
  next
    case False
    with s q have "rs_status s' \<noteq> StepQueued" by (auto simp: st)
    from before [OF s this] have "rs_status s = StepSucceeded" .
    with assms(8) s show ?thesis by (auto simp: st)
  qed
  moreover have "in_progress (rs_status (g s))" if "s \<in> set ss" "step_run s = k" for s
    using old(1) [OF that] assms(7) that by (auto simp: st)
  moreover have "set (update_where P f ss) = g ` set ss" by (simp add: set_update_where g_def)
  ultimately show ?thesis by (simp add: steps_live_def g) blast
qed

text \<open>What a transaction must leave behind for the run it is about.\<close>

definition all_status :: "string \<times> string \<Rightarrow> (run_status \<Rightarrow> bool) \<Rightarrow> wf_world \<Rightarrow> bool" where
  "all_status k P w \<longleftrightarrow> (\<forall>r \<in> set (ww_runs w). run_key r = k \<longrightarrow> P (rn_status r))"

definition broken_off :: "run_status \<Rightarrow> bool" where
  "broken_off s \<longleftrightarrow> s = RunFailed \<or> s = RunCancelled"

definition safe_at :: "string \<times> string \<Rightarrow> wf_world \<Rightarrow> bool" where
  "safe_at k w \<longleftrightarrow> steps_live k (ww_steps w) \<and> all_status k (\<lambda>s. s \<noteq> RunSucceeded) w \<or> all_status k broken_off w \<or>
    all_succeeded k (ww_steps w)"

lemma safe_run_ok: "safe_at (run_key r) w \<Longrightarrow> r \<in> set (ww_runs w) \<Longrightarrow> run_ok (rn_status r) (run_key r) (ww_steps w)"
  by (auto simp: safe_at_def all_status_def run_ok_def broken_off_def is_terminal_run_def dest: all_succeeded_live)

lemma touches_run_ok:
  assumes "touches t i w w'" "k \<noteq> (t, i)" "run_ok st k (ww_steps w)"
  shows "run_ok st k (ww_steps w')"
proof -
  have l: "list_all2 (step_stays (t, i)) (ww_steps w) (ww_steps w')" using assms(1) by (simp add: touches_def)
  have "s \<in> set (ww_steps w)" if "s \<in> set (ww_steps w')" "step_run s = k" for s
  proof -
    from list_all2_in_set2 [OF l that(1)] obtain x where "x \<in> set (ww_steps w)" "step_stays (t, i) x s" ..
    with that(2) assms(2) show ?thesis by (auto simp: step_stays_def same_step_def)
  qed
  with assms(3) show ?thesis unfolding run_ok_def steps_live_def all_succeeded_def by blast
qed

lemma order_inv_touches:
  assumes "order_inv w" "touches t i w w'" "safe_at (t, i) w'"
  shows "order_inv w'"
proof -
  have l: "list_all2 (run_stays (t, i)) (ww_runs w) (ww_runs w')" "list_all2 (step_stays (t, i)) (ww_steps w) (ww_steps w')"
    using assms(2) by (simp_all add: touches_def)
  have "map (\<lambda>s. (step_run s, rs_index s)) (ww_steps w') = map (\<lambda>s. (step_run s, rs_index s)) (ww_steps w)"
    "map run_key (ww_runs w') = map run_key (ww_runs w)" "map step_run (ww_steps w') = map step_run (ww_steps w)"
    using l by (auto simp: list_all2_conv_all_nth step_stays_def same_step_def run_stays_def intro!: nth_equalityI)
  moreover have e: "(\<forall>s \<in> set x. step_run s \<in> run_key ` set y) \<longleftrightarrow> set (map step_run x) \<subseteq> set (map run_key y)" for x y by auto
  ultimately have "distinct (map (\<lambda>s. (step_run s, rs_index s)) (ww_steps w'))"
    "\<forall>s \<in> set (ww_steps w'). step_run s \<in> run_key ` set (ww_runs w')"
    using assms(1) unfolding order_inv_def e by simp_all
  moreover have "run_ok (rn_status r) (run_key r) (ww_steps w')" if r: "r \<in> set (ww_runs w')" for r
  proof (cases "run_key r = (t, i)")
    case True with safe_run_ok assms(3) r show ?thesis by metis
  next
    case False
    from list_all2_in_set2 [OF l(1) r] obtain r0 where "r0 \<in> set (ww_runs w)" "run_stays (t, i) r0 r" ..
    with False have "r \<in> set (ww_runs w)" by (auto simp: run_stays_def)
    with assms(1) touches_run_ok [OF assms(2) False] show ?thesis by (simp add: order_inv_def)
  qed
  ultimately show ?thesis using touches_keys [OF assms(2)] assms(1) by (simp add: order_inv_def)
qed

subsection \<open>The operations\<close>

lemma all_status_set_run:
  "(\<And>r. run_key (f r) = run_key r) \<Longrightarrow> (\<And>r. P (rn_status (f r))) \<Longrightarrow> all_status (t, i) P (set_run t i f w)"
  by (auto simp: all_status_def set_update_where run_is_def run_key_def split: if_splits)

lemma all_status_same:
  "(\<And>r. run_key (f r) = run_key r) \<Longrightarrow> (\<And>r. rn_status (f r) = rn_status r) \<Longrightarrow> all_status k P w \<Longrightarrow> all_status k P (set_run t i f w)"
  by (fastforce simp: all_status_def set_update_where split: if_splits)

lemma all_status_progress [simp]: "all_status k P w \<Longrightarrow> all_status k P (record_run_progress t i a p w)"
  unfolding record_run_progress_def by (rule all_status_same) (simp_all add: run_key_def)

lemma all_status_clear [simp]: "all_status k P w \<Longrightarrow> all_status k P (clear_run_lease t i w)"
  unfolding clear_run_lease_def by (rule all_status_same) (simp_all add: run_key_def)

lemma all_status_turn [simp]:
  "all_status k P (clear_turn_lease t i w) = all_status k P w"
  "all_status k P (record_turn_progress t i a p w) = all_status k P w"
  "all_status k P (set_turn_lease t i u x w) = all_status k P w"
  "all_status k P (w\<lparr>ww_steps := ss\<rparr>) = all_status k P w"
  by (simp_all add: all_status_def)

lemma pause_safe:
  assumes "pause_run env d now run step p w = (Inr (), w')" "steps_live (rn_tenant run, rn_id run) (ww_steps w)"
  shows "safe_at (rn_tenant run, rn_id run) w'"
proof -
  have "ww_steps w' = ww_steps w"
    using assms(1) by (auto simp: pause_run_def Let_def split: prod.splits sum.splits)
  moreover have "all_status (rn_tenant run, rn_id run) (\<lambda>s. s \<noteq> RunSucceeded) w'"
    using assms(1) by (auto simp: pause_run_def Let_def run_key_def split: prod.splits sum.splits
        intro!: all_status_progress all_status_clear all_status_set_run)
  ultimately show ?thesis using assms(2) by (simp add: safe_at_def)
qed

lemma fail_safe: "safe_at (rn_tenant run, rn_id run) (fail_run env run step err now q w)"
proof -
  have "all_status (rn_tenant run, rn_id run) broken_off (fail_run env run step err now q w)"
    unfolding fail_run_def Let_def
    by (intro all_status_progress) (simp add: all_status_set_run run_key_def broken_off_def)
  then show ?thesis by (simp add: safe_at_def)
qed


text \<open>A step and what comes before and after it.\<close>

lemma order_live:
  assumes "order_inv w" "get_run t i w = Some run" "\<not> is_terminal_run (rn_status run)"
  shows "steps_live (t, i) (ww_steps w)"
  using assms get_run_some [OF assms(2)] by (auto simp: order_inv_def run_ok_def)

lemma keys_unique:
  "wf_keys w \<Longrightarrow> s \<in> set (ww_steps w) \<Longrightarrow> s' \<in> set (ww_steps w) \<Longrightarrow> step_key s = step_key s' \<Longrightarrow> s = s'"
  unfolding wf_keys_def by (meson distinct_keys_eq)

lemma steps_live_set:
  assumes "steps_live k (ww_steps w)" "wf_keys w" "s0 \<in> set (ww_steps w)" "step_run s0 = k" "\<And>s. P s \<Longrightarrow> step_key s = step_key s0"
    and "\<And>s. same_step s (f s)" "rs_status (f s0) = v" "in_progress v" "v \<noteq> StepSucceeded \<Longrightarrow> rs_status s0 \<noteq> StepSucceeded"
    and "v \<noteq> StepQueued \<Longrightarrow> rs_status s0 \<noteq> StepQueued \<or>
      (\<forall>s \<in> set (ww_steps w). step_run s = k \<and> rs_index s < rs_index s0 \<longrightarrow> rs_status s = StepSucceeded)"
  shows "steps_live k (update_where P f (ww_steps w))"
proof (rule steps_live_update [OF assms(1,3,4) _ assms(6-9)])
  show "s = s0" if "s \<in> set (ww_steps w)" "P s" for s
    using keys_unique [OF assms(2) that(1) assms(3)] assms(5) that by blast
  assume "v \<noteq> StepQueued"
  with assms(10) assms(1,3,4) show "\<forall>s \<in> set (ww_steps w). step_run s = k \<and> rs_index s < rs_index s0 \<longrightarrow> rs_status s = StepSucceeded"
    unfolding steps_live_def by blast
qed assumption

lemma find_sorted_first:
  assumes "find P (sort_key f xs) = Some x" "y \<in> set xs" "f y < f x"
  shows "\<not> P y"
proof -
  from assms(1) obtain k where k: "k < length (sort_key f xs)" "sort_key f xs ! k = x"
    "\<And>j. j < k \<Longrightarrow> \<not> P (sort_key f xs ! j)" by (auto simp: find_Some_iff)
  from assms(2) obtain j where j: "j < length (sort_key f xs)" "sort_key f xs ! j = y"
    by (metis in_set_conv_nth set_sort)
  have "j < k"
  proof (rule ccontr)
    assume "\<not> j < k"
    then have "map f (sort_key f xs) ! k \<le> map f (sort_key f xs) ! j"
      using j k by (intro sorted_nth_mono) auto
    with j k assms(3) show False by simp
  qed
  with k(3) j(2) show ?thesis by blast
qed

lemma next_step_first:
  assumes "steps_live (rn_tenant r, rn_id r) (ww_steps w)" "next_step_of r w = Some s0"
  shows "\<forall>s \<in> set (ww_steps w). step_run s = (rn_tenant r, rn_id r) \<and> rs_index s < rs_index s0 \<longrightarrow> rs_status s = StepSucceeded"
proof (intro ballI impI)
  fix s assume s: "s \<in> set (ww_steps w)" "step_run s = (rn_tenant r, rn_id r) \<and> rs_index s < rs_index s0"
  with find_sorted_first [OF assms(2) [unfolded next_step_of_def steps_of_def], of s] have "\<not> is_live_step (rs_status s)"
    by (auto simp: step_run_def)
  with assms(1) s show "rs_status s = StepSucceeded" by (auto simp: steps_live_def in_progress_def)
qed

lemma next_step_none:
  assumes "steps_live (rn_tenant r, rn_id r) (ww_steps w)" "next_step_of r w = None"
  shows "all_succeeded (rn_tenant r, rn_id r) (ww_steps w)"
  using assms by (auto simp: next_step_of_def steps_of_def find_None_iff steps_live_def all_succeeded_def
      in_progress_def step_run_def)

lemma safe_of_live:
  "steps_live k (ww_steps w) \<Longrightarrow> get_run (fst k) (snd k) w = Some r \<Longrightarrow> wf_keys w \<Longrightarrow> rn_status r \<noteq> RunSucceeded \<Longrightarrow> safe_at k w"
proof -
  assume a: "steps_live k (ww_steps w)" "get_run (fst k) (snd k) w = Some r" "wf_keys w" "rn_status r \<noteq> RunSucceeded"
  have "r' = r" if "r' \<in> set (ww_runs w)" "run_key r' = k" for r'
    using get_run_unique [OF a(3) that(1)] a(2) that(2) by (auto simp: run_key_def)
  with a show ?thesis by (auto simp: safe_at_def all_status_def)
qed


subsection \<open>Claims\<close>

lemma start_step_steps:
  "ww_steps (start_step d worker now run step w) = update_where (is_queued_step (rn_tenant run) (rs_id step))
    (\<lambda>s. s\<lparr>rs_status := StepRunning, rs_updated_at := now, rs_started_at := sql_coalesce (rs_started_at s) (Some now),
       rs_attempts := Suc (rs_attempts s), rs_error := None\<rparr>) (ww_steps w)"
  by (simp add: start_step_def Let_def)

lemma take_safe:
  assumes "take_step d worker now run step w = (c, w')" "steps_live (rn_tenant run, rn_id run) (ww_steps w)" "wf_keys w"
    and "s0 \<in> set (ww_steps w)" "step_key s0 = (rn_tenant run, rs_id step)" "step_run s0 = (rn_tenant run, rn_id run)"
    and "rs_status s0 \<noteq> StepSucceeded" "get_run (rn_tenant run) (rn_id run) w = Some r" "\<not> is_terminal_run (rn_status r)"
    and "\<forall>s \<in> set (ww_steps w). step_run s = (rn_tenant run, rn_id run) \<and> rs_index s < rs_index s0 \<longrightarrow> rs_status s = StepSucceeded"
  shows "safe_at (rn_tenant run, rn_id run) w'"
proof (cases c)
  case None
  with assms(1) have "ww_steps w' = ww_steps w" "ww_runs w' = ww_runs w"
    by (auto simp: take_step_def Let_def split: if_splits prod.splits)
  moreover from this have "wf_keys w'" "get_run (rn_tenant run) (rn_id run) w' = Some r"
    using assms(3,8) by (simp_all add: wf_keys_def get_run_def)
  ultimately show ?thesis using assms(2,9) by (intro safe_of_live [of _ _ r]) (auto simp: is_terminal_run_def)
next
  case (Some x)
  with assms(1) take_step_some obtain l where w': "w' = start_step d worker now run step (w\<lparr>ww_leases := l\<rparr>)" by metis
  have "steps_live (rn_tenant run, rn_id run) (ww_steps w')"
    unfolding w' start_step_steps
    using assms by (simp, intro steps_live_set [of _ w s0])
      (auto simp: is_queued_step_def step_is_def step_key_def same_step_def step_run_def in_progress_def is_live_step_def)
  moreover have "all_status (rn_tenant run, rn_id run) (\<lambda>s. s \<noteq> RunSucceeded) w'"
    unfolding w' start_step_def Let_def
    by (intro all_status_progress) (simp add: all_status_set_run run_key_def)
  ultimately show ?thesis by (simp add: safe_at_def)
qed


lemma budget_steps:
  "maybe_pause_for_budget env d now run step w = (Inr True, w') \<Longrightarrow> steps_live (rn_tenant run, rn_id run) (ww_steps w) \<Longrightarrow>
    safe_at (rn_tenant run, rn_id run) w'"
  by (auto simp: maybe_pause_for_budget_def Let_def intro: pause_safe split: option.splits if_splits prod.splits sum.splits)

lemma policy_steps:
  "maybe_pause_for_policy env d now run step w = (Inr True, w') \<Longrightarrow> steps_live (rn_tenant run, rn_id run) (ww_steps w) \<Longrightarrow>
    safe_at (rn_tenant run, rn_id run) w'"
  by (auto simp: maybe_pause_for_policy_def Let_def fail_safe intro: pause_safe split: option.splits if_splits prod.splits sum.splits)

lemma claim_step_safe:
  assumes "claim_step env d worker now run step w = (Inr c, w')" "steps_live (rn_tenant run, rn_id run) (ww_steps w)" "wf_keys w"
    and "s0 \<in> set (ww_steps w)" "step_key s0 = (rn_tenant run, rs_id step)" "step_run s0 = (rn_tenant run, rn_id run)"
    and "rs_status s0 \<noteq> StepSucceeded" "get_run (rn_tenant run) (rn_id run) w = Some r" "\<not> is_terminal_run (rn_status r)"
    and "\<forall>s \<in> set (ww_steps w). step_run s = (rn_tenant run, rn_id run) \<and> rs_index s < rs_index s0 \<longrightarrow> rs_status s = StepSucceeded"
  shows "safe_at (rn_tenant run, rn_id run) w'"
proof -
  obtain r1 w1 where 1: "maybe_pause_for_budget env d now run step w = (r1, w1)" by fastforce
  obtain r2 w2 where 2: "maybe_pause_for_policy env d now run step w1 = (r2, w2)" by fastforce
  obtain r3 w3 where 3: "take_step d worker now run step w2 = (r3, w3)" by fastforce
  consider "r1 = Inr True" "w' = w1" | "r1 = Inr False" "r2 = Inr True" "w' = w2" | "r1 = Inr False" "r2 = Inr False" "w' = w3"
    using assms(1) 1 2 3 by (auto simp: claim_step_def split: sum.splits bool.splits)
  then show ?thesis
  proof cases
    case 1 with budget_steps \<open>maybe_pause_for_budget env d now run step w = (r1, w1)\<close> assms(2) show ?thesis by blast
  next
    case 2
    with \<open>maybe_pause_for_budget env d now run step w = (r1, w1)\<close> budget_passes have "w1 = w" by blast
    with 2 policy_steps \<open>maybe_pause_for_policy env d now run step w1 = (r2, w2)\<close> assms(2) show ?thesis by blast
  next
    case 3
    with \<open>maybe_pause_for_budget env d now run step w = (r1, w1)\<close> budget_passes have "w1 = w" by blast
    with 3 policy_passes_runs \<open>maybe_pause_for_policy env d now run step w1 = (r2, w2)\<close>
    have w2: "ww_runs w2 = ww_runs w" "ww_steps w2 = ww_steps w" by blast+
    then have "wf_keys w2" "get_run (rn_tenant run) (rn_id run) w2 = Some r"
      using assms(3,8) by (simp_all add: wf_keys_def get_run_def)
    with take_safe [OF \<open>take_step d worker now run step w2 = (r3, w3)\<close>, of s0 r] w2 assms 3 show ?thesis by simp
  qed
qed

lemma transaction_cases:
  obtains (rolled_back) e where "fst (transaction f w) = Inl e" "ww_runs (snd (transaction f w)) = ww_runs w" "ww_steps (snd (transaction f w)) = ww_steps w"
  | (commit) x w' where "f w = (Inr x, w')" "transaction f w = (Inr x, w')"
proof (cases "f w")
  case (Pair x w')
  then show ?thesis using that by (cases x) (simp_all add: transaction_def)
qed

lemma recover_safe:
  assumes "recover_running_step env d now run step w = (Inr x, w')" "steps_live (rn_tenant run, rn_id run) (ww_steps w)" "wf_keys w"
    and "step \<in> set (ww_steps w)" "step_run step = (rn_tenant run, rn_id run)" "rs_status step \<noteq> StepSucceeded"
  shows "x = None \<longrightarrow> safe_at (rn_tenant run, rn_id run) w'"
    and "x \<noteq> None \<longrightarrow> steps_live (rn_tenant run, rn_id run) (ww_steps w')"
proof -
  show "x = None \<longrightarrow> safe_at (rn_tenant run, rn_id run) w'"
    using assms by (auto simp: recover_running_step_def fail_safe intro: pause_safe split: if_splits prod.splits sum.splits)
  have "rs_tenant step = rn_tenant run" using assms(5) by (simp add: step_run_def)
  then have "steps_live (rn_tenant run, rn_id run) (update_where (\<lambda>s. step_is (rn_tenant run) (rs_id step) s \<and> rs_status s = StepRunning)
      (\<lambda>s. s\<lparr>rs_status := StepQueued, rs_updated_at := now\<rparr>) (ww_steps w))"
    using assms by (intro steps_live_set [of _ w step])
      (auto simp: step_is_def step_key_def same_step_def step_run_def in_progress_def is_live_step_def)
  then show "x \<noteq> None \<longrightarrow> steps_live (rn_tenant run, rn_id run) (ww_steps w')"
    using assms(1) by (auto simp: recover_running_step_def split: if_splits prod.splits sum.splits)
qed


lemma order_inv_same: "order_inv w \<Longrightarrow> ww_runs w' = ww_runs w \<Longrightarrow> ww_steps w' = ww_steps w \<Longrightarrow> order_inv w'"
  by (simp add: order_inv_def wf_keys_def)

lemma order_keys: "order_inv w \<Longrightarrow> wf_keys w"
  by (simp add: order_inv_def)

lemma claim_body_safe:
  assumes "claim_next_body env d t i worker now w = (Inr x, w')" "order_inv w" "w' \<noteq> w"
  shows "safe_at (t, i) w'"
proof -
  from assms(1,3) obtain run where r: "get_run t i w = Some run" and nt: "\<not> is_terminal_run (rn_status run)"
    by (auto simp: claim_next_body_def split: option.splits if_splits)
  have k: "rn_tenant run = t" "rn_id run = i" using get_run_some [OF r] by (auto simp: run_key_def)
  have live: "steps_live (t, i) (ww_steps w)" by (rule order_live [OF assms(2) r nt])
  note wk = order_keys [OF assms(2)]
  show ?thesis
  proof (cases "next_step_of run w")
    case None
    with next_step_none [of run w] live k have "all_succeeded (t, i) (ww_steps w)" by simp
    moreover have "w' = w \<or> w' = complete_run now run w"
      using assms(1) r None by (auto simp: claim_next_body_def split: if_splits)
    moreover have "ww_steps (complete_run now run w) = ww_steps w" by (simp add: complete_run_def Let_def)
    ultimately show ?thesis using assms(3) by (auto simp: safe_at_def)
  next
    case (Some step)
    note n = next_step_some [OF Some]
    have f: "\<forall>s \<in> set (ww_steps w). step_run s = (t, i) \<and> rs_index s < rs_index step \<longrightarrow> rs_status s = StepSucceeded"
      using next_step_first [OF _ Some] live k by simp
    have ns: "rs_status step \<noteq> StepSucceeded" using n by (auto simp: is_live_step_def)
    have key: "step_key step = (t, rs_id step)" "step_run step = (t, i)" using n k by (auto simp: step_key_def step_run_def)
    obtain y v where y: "recover_running_step env d now run step w = (y, v)" by fastforce
    consider "rs_status step = StepRunning" "y = Inr None" "w' = v"
      | s' where "rs_status step = StepRunning" "y = Inr (Some s')" "claim_step env d worker now run s' v = (Inr x, w')"
      | "claim_step env d worker now run step w = (Inr x, w')"
      using assms(1,3) r Some y by (auto simp: claim_next_body_def split: if_splits sum.splits option.splits)
    then show ?thesis
    proof cases
      case 1
      with recover_safe(1) [of env d now run step w None v] y live k wk n ns show ?thesis by simp
    next
      case 2
      with y have rec: "recover_running_step env d now run step w = (Inr (Some s'), v)" by simp
      have lv: "steps_live (t, i) (ww_steps v)" using recover_safe(2) [OF rec] live k wk n ns by simp
      from recovered_step [OF rec] have s': "s' = step\<lparr>rs_status := StepQueued\<rparr>" "ww_runs v = ww_runs w" by auto
      have tv: "touches t i w v"
        using touches_recover [OF _ rec] owned_of_step [OF wk, of step] n k key by (simp add: step_run_def)
      then have "list_all2 (step_stays (t, i)) (ww_steps w) (ww_steps v)" by (simp add: touches_def)
      from list_all2_in_set1 [OF this, of step] n obtain s0 where s0: "s0 \<in> set (ww_steps v)" "step_stays (t, i) step s0" by blast
      then have same: "step_key s0 = (t, rs_id step)" "step_run s0 = (t, i)" "rs_index s0 = rs_index step"
        using key by (auto simp: step_stays_def same_step_def)
      have vs: "ww_steps v = update_where (\<lambda>s. step_is t (rs_id step) s \<and> rs_status s = StepRunning)
          (\<lambda>s. s\<lparr>rs_status := StepQueued, rs_updated_at := now\<rparr>) (ww_steps w)"
        using rec k by (auto simp: recover_running_step_def split: if_splits prod.splits sum.splits)
      have old: "\<exists>s1 \<in> set (ww_steps w). step_key s1 = step_key s \<and> step_run s1 = step_run s \<and> rs_index s1 = rs_index s \<and>
          (s = s1 \<or> s1 = step \<and> rs_status s = StepQueued)" if "s \<in> set (ww_steps v)" for s
      proof -
        from that vs obtain s1 where s1: "s1 \<in> set (ww_steps w)" and e: "s = (if step_is t (rs_id step) s1 \<and> rs_status s1 = StepRunning
            then s1\<lparr>rs_status := StepQueued, rs_updated_at := now\<rparr> else s1)" by (auto simp: set_update_where)
        have "s1 = step" if "step_is t (rs_id step) s1"
          using keys_unique [OF wk s1, of step] n key that by (simp add: step_is_def step_key_def)
        with s1 e show ?thesis by (intro bexI [of _ s1]) (auto simp: step_key_def step_run_def)
      qed
      have "rs_status s0 \<noteq> StepSucceeded"
        using old [OF s0(1)] keys_unique [OF wk, of _ step] n same key ns by auto
      moreover have "\<forall>s \<in> set (ww_steps v). step_run s = (t, i) \<and> rs_index s < rs_index s0 \<longrightarrow> rs_status s = StepSucceeded"
      proof (intro ballI impI)
        fix s assume s: "s \<in> set (ww_steps v)" "step_run s = (t, i) \<and> rs_index s < rs_index s0"
        from old [OF s(1)] s(2) same(3) f show "rs_status s = StepSucceeded" by auto
      qed
      moreover have "get_run t i v = Some run" using r s'(2) by (simp add: get_run_def)
      ultimately show ?thesis
        using claim_step_safe [OF 2(3), of s0 run] lv touches_keys [OF tv wk] s0(1) same k s'(1) nt by simp
    next
      case 3
      with claim_step_safe [OF 3, of step run] live wk n key ns r nt f k show ?thesis by simp
    qed
  qed
qed

lemma claim_order:
  assumes "order_inv w"
  shows "order_inv (snd (claim_next_step env d t i worker now w))"
proof (cases rule: transaction_cases [of "claim_next_body env d t i worker now" w])
  case (rolled_back e) then show ?thesis unfolding claim_next_step_def by (intro order_inv_same [OF assms])
next
  case (commit x w')
  show ?thesis
  proof (cases "w' = w")
    case False
    have "touches t i w w'" using claim_next_touches [OF order_keys [OF assms], of t i env d worker now] commit(1) by simp
    with claim_body_safe [OF commit(1) assms False] assms order_inv_touches commit(2) show ?thesis
      by (simp add: claim_next_step_def)
  qed (use commit(2) assms in \<open>simp add: claim_next_step_def\<close>)
qed


subsection \<open>Commits of current claims\<close>

text \<open>The step is still running in the attempt the claim was made for.\<close>

definition current :: "step_claim \<Rightarrow> wf_world \<Rightarrow> bool" where
  "current c w \<longleftrightarrow> (\<exists>s \<in> set (ww_steps w). step_key s = (rn_tenant (cm_run c), rs_id (cm_step c)) \<and>
    step_run s = run_key (cm_run c) \<and> rs_index s = rs_index (cm_step c) \<and> rs_status s = StepRunning \<and>
    rs_attempts s = cm_attempt c)"

lemma current_ok: "current c w \<Longrightarrow> claim_ok c w"
  by (auto simp: current_def claim_ok_def)

lemma steps_live_settle:
  assumes "steps_live k (ww_steps w)" "wf_keys w" "s0 \<in> set (ww_steps w)" "step_key s0 = (t, sid)" "step_run s0 = k"
    and "\<And>s. same_step s (f s)" "rs_status (f s0) = v" "in_progress v" "rs_status s0 \<noteq> StepSucceeded"
    and "v \<noteq> StepQueued \<Longrightarrow> rs_status s0 \<noteq> StepQueued"
  shows "steps_live k (update_where (step_is t sid) f (ww_steps w))"
  using assms by (intro steps_live_set [of _ w s0]) (auto simp: step_is_def step_key_def)

lemma commit_body_safe:
  assumes "commit_body env d now c ok q w = (Inr (), w')" "order_inv w" "current c w" "w' \<noteq> w"
  shows "safe_at (run_key (cm_run c)) w'"
proof -
  let ?t = "rn_tenant (cm_run c)" and ?i = "rn_id (cm_run c)" and ?sid = "rs_id (cm_step c)"
  from assms(1,4) obtain run where r: "get_run ?t ?i w = Some run" and nt: "\<not> is_terminal_run (rn_status run)"
    by (auto simp: commit_body_def split: option.splits if_splits)
  note wk = order_keys [OF assms(2)]
  have live: "steps_live (?t, ?i) (ww_steps w)" by (rule order_live [OF assms(2) r nt])
  from assms(3) obtain s0 where s0: "s0 \<in> set (ww_steps w)" "step_key s0 = (?t, ?sid)" "step_run s0 = (?t, ?i)"
    "rs_index s0 = rs_index (cm_step c)" "rs_status s0 = StepRunning" by (auto simp: current_def run_key_def)
  have settle: "steps_live (?t, ?i) (update_where (step_is ?t ?sid) f (ww_steps w))"
    if "\<And>s. same_step s (f s)" "\<And>s. rs_status (f s) = v" "in_progress v" for f v
    by (rule steps_live_settle [OF live wk s0(1-3)]) (use that s0(5) in auto)
  have persist: "safe_at (?t, ?i) w'" if "persist_paused_step env d now c q p w = (Inr (), w')" for p
    by (rule pause_safe [OF that [unfolded persist_paused_step_def]], simp, rule settle [where v = StepPaused])
      (auto simp: in_progress_def is_live_step_def same_step_def store_result_def step_key_def step_run_def)
  have requeue: "safe_at (?t, ?i) (requeue_step env now c q err w)" for err
  proof -
    have "steps_live (?t, ?i) (ww_steps (requeue_step env now c q err w))"
      unfolding requeue_step_def Let_def by (simp, rule settle [where v = StepQueued])
        (auto simp: in_progress_def is_live_step_def same_step_def store_result_def step_key_def step_run_def)
    moreover have "all_status (?t, ?i) (\<lambda>s. s \<noteq> RunSucceeded) (requeue_step env now c q err w)"
      unfolding requeue_step_def Let_def by (intro all_status_progress) (simp add: all_status_set_run run_key_def)
    ultimately show ?thesis by (simp add: safe_at_def)
  qed
  have finish: "safe_at (?t, ?i) (finish_step now c q w)"
  proof (cases "filter (\<lambda>s. rs_tenant s = ?t \<and> rs_run s = ?i \<and> rs_index (cm_step c) < rs_index s) (ww_steps w) = []")
    case False
    have "steps_live (?t, ?i) (ww_steps (finish_step now c q w))"
      unfolding finish_step_def Let_def by (simp, rule settle [where v = StepSucceeded])
        (auto simp: in_progress_def is_live_step_def same_step_def store_result_def step_key_def step_run_def)
    moreover have "all_status (?t, ?i) (\<lambda>s. s \<noteq> RunSucceeded) (finish_step now c q w)"
      using False unfolding finish_step_def Let_def by (intro all_status_progress) (simp add: all_status_set_run run_key_def)
    ultimately show ?thesis by (simp add: safe_at_def)
  next
    case True
    have "rs_status s = StepSucceeded" if s: "s \<in> set (ww_steps w)" "step_run s = (?t, ?i)" "s \<noteq> s0" for s
    proof -
      have "\<not> rs_index s0 < rs_index s" using True s s0(4) by (auto simp: filter_empty_conv step_run_def)
      moreover have "rs_index s \<noteq> rs_index s0"
      proof
        assume "rs_index s = rs_index s0"
        then have "(step_run s, rs_index s) = (step_run s0, rs_index s0)" using s s0 by simp
        moreover have "inj_on (\<lambda>s. (step_run s, rs_index s)) (set (ww_steps w))"
          using assms(2) by (simp add: order_inv_def distinct_map)
        ultimately show False using s s0(1) by (meson inj_onD)
      qed
      ultimately show ?thesis using live s s0 unfolding steps_live_def by (metis linorder_neqE_nat step_status.distinct(1))
    qed
    note others = this
    let ?f = "\<lambda>s. (store_result q s)\<lparr>rs_status := StepSucceeded, rs_updated_at := now,
        rs_finished_at := sql_coalesce (rs_finished_at s) (Some now), rs_error := None\<rparr>"
    have steps: "ww_steps (finish_step now c q w) = update_where (step_is ?t ?sid) ?f (ww_steps w)"
      by (simp add: finish_step_def Let_def)
    have "all_succeeded (?t, ?i) (ww_steps (finish_step now c q w))"
      unfolding all_succeeded_def
    proof (intro ballI impI)
      fix s assume "s \<in> set (ww_steps (finish_step now c q w))" and k: "step_run s = (?t, ?i)"
      then obtain s1 where s1: "s1 \<in> set (ww_steps w)" and s: "s = (if step_is ?t ?sid s1 then ?f s1 else s1)"
        unfolding steps set_update_where by blast
      show "rs_status s = StepSucceeded"
      proof (cases "step_is ?t ?sid s1")
        case False
        then have "s1 \<noteq> s0" using s0(2) by (auto simp: step_is_def step_key_def)
        with False s k s1 others show ?thesis by simp
      qed (simp add: s)
    qed
    then show ?thesis by (simp add: safe_at_def)
  qed
  have b: "commit_body env d now c ok q w = (Inr (), w')" by (rule assms(1))
  show ?thesis unfolding run_key_def
  proof (cases "pr_pause q")
    case (Some p)
    with b r nt have "persist_paused_step env d now c q p w = (Inr (), w')" by (simp add: commit_body_def)
    then show "safe_at (?t, ?i) w'" by (rule persist)
  next
    case None
    note np = this
    show "safe_at (?t, ?i) w'"
    proof (cases "given (pr_pause_detail q)")
      case (Some detail)
      with b r nt np have "persist_paused_step env d now c q (takeover_request c detail) w = (Inr (), w')"
        by (simp add: commit_body_def)
      then show ?thesis by (rule persist)
    next
      case None
      with b r nt np have "(\<exists>err. w' = requeue_step env now c q err w) \<or>
          (\<exists>err. w' = fail_run env (cm_run c) (cm_step c) err now (Some q) w) \<or> w' = finish_step now c q w"
        unfolding commit_body_def Let_def by (simp split: if_splits) metis+
      with requeue finish fail_safe [of "cm_run c"] show ?thesis by blast
    qed
  qed
qed

lemma commit_order:
  assumes "order_inv w" "current c w"
  shows "order_inv (snd (commit_claim env d t0 t1 now c outcome w))"
proof -
  let ?b = "commit_body env d now c (sr_success (execute_with_timeout outcome))
    (build_prepared_result env (execute_with_timeout outcome) (rs_postcondition (cm_step c)) t0 t1)"
  have e: "commit_claim env d t0 t1 now c outcome w = transaction ?b w" by (simp add: commit_claim_def Let_def)
  show ?thesis
  proof (cases rule: transaction_cases [of ?b w])
    case (rolled_back e) then show ?thesis unfolding e by (intro order_inv_same [OF assms(1)])
  next
    case (commit x w')
    show ?thesis
    proof (cases "w' = w")
      case False
      have "touches (rn_tenant (cm_run c)) (rn_id (cm_run c)) w w'"
        using touches_commit [OF claim_owned [OF current_ok [OF assms(2)] order_keys [OF assms(1)]], of env d now] commit(1) by (metis snd_conv)
      with commit_body_safe [OF _ assms False] commit show ?thesis
        unfolding e using order_inv_touches [OF assms(1)] by (simp add: run_key_def)
    qed (use commit(2) assms in \<open>simp add: e\<close>)
  qed
qed


subsection \<open>Cancelling, resuming and creating\<close>

lemma cancel_order:
  assumes "order_inv w"
  shows "order_inv (snd (cancel_run now i reason w))"
proof (cases "snd (cancel_run now i reason w) = w")
  case False
  then obtain run where f: "find (\<lambda>r. rn_id r = trim i) (ww_runs w) = Some run" and ne: "trim i \<noteq> []"
    and nt: "\<not> is_terminal_run (rn_status run)"
    by (auto simp: cancel_run_def Let_def split: option.splits if_splits)
  have id: "rn_id run = trim i" using find_in [OF f] by simp
  have "touches (rn_tenant run) (trim i) w (snd (cancel_run now i reason w))"
    unfolding cancel_run_def Let_def
    by (auto simp: f ne nt run_key_def step_run_def same_step_def step_key_def intro!: touches_intros touches_set_run_steps)
  moreover have "all_status (rn_tenant run, trim i) broken_off (snd (cancel_run now i reason w))"
    unfolding cancel_run_def Let_def
    by (simp add: f ne nt) (intro all_status_progress all_status_clear, simp add: all_status_set_run run_key_def broken_off_def)
  ultimately show ?thesis by (intro order_inv_touches [OF assms]) (auto simp: safe_at_def)
qed (use assms in simp)

text \<open>The step of the approval is not settled, as is the case when the token is presented for the first time.\<close>

definition resumable :: "string \<Rightarrow> wf_world \<Rightarrow> bool" where
  "resumable tok w \<longleftrightarrow> (\<forall>a sid s. newest (filter (\<lambda>a. ap_resume_token a = Some (trim tok)) (ad_approvals (ww_approvals w))) = Some a \<and>
    ap_step a = Some sid \<and> find (step_is (ap_tenant a) sid) (ww_steps w) = Some s \<longrightarrow> rs_status s \<noteq> StepSucceeded)"

lemma resume_body_order:
  assumes "order_inv w" "find (step_is (ap_tenant a) sid) (ww_steps w) = Some s" "rs_status s \<noteq> StepSucceeded"
    and "rs_run s = i"
  shows "order_inv (snd (transaction (resume_body now a sid i) w))"
proof (cases "get_run (ap_tenant a) i w")
  case None
  with assms show ?thesis by (simp add: resume_body_def transaction_def)
next
  case (Some run)
  from find_in [OF assms(2)] assms(4) have s: "s \<in> set (ww_steps w)" "step_key s = (ap_tenant a, sid)" "step_run s = (ap_tenant a, i)"
    by (auto simp: step_is_def step_key_def step_run_def)
  show ?thesis
  proof (cases "is_terminal_run (rn_status run)")
    case True
    with assms Some show ?thesis by (simp add: resume_body_def transaction_def)
  next
    case False
    let ?w' = "resume_update now a sid i run w"
    have "steps_live (ap_tenant a, i) (ww_steps ?w')"
      unfolding resume_update_def Let_def
      by (simp, rule steps_live_settle [OF order_live [OF assms(1) Some False] order_keys [OF assms(1)] s, where v = StepQueued])
        (auto simp: assms(3) in_progress_def is_live_step_def same_step_def step_key_def step_run_def)
    moreover have "all_status (ap_tenant a, i) (\<lambda>s. s \<noteq> RunSucceeded) ?w'"
      unfolding resume_update_def Let_def
      by (intro all_status_progress all_status_clear) (simp add: all_status_set_run run_key_def)
    moreover have "owned (ap_tenant a) i sid w"
      using owned_of_step [OF order_keys [OF assms(1)] s(1)] s by (simp add: step_key_def step_run_def)
    ultimately have "order_inv ?w'"
      using order_inv_touches [OF assms(1) touches_resume_update] by (simp add: safe_at_def)
    with assms Some False show ?thesis by (simp add: resume_body_def transaction_def)
  qed
qed

lemma resume_order:
  assumes "order_inv w" "resumable tok w"
  shows "order_inv (snd (resume_run now tok w))"
proof (cases rule: resume_cases [of now tok w])
  case idle with assms show ?thesis by simp
next
  case (cancel i reason) with cancel_order assms show ?thesis by simp
next
  case (resume a sid i)
  show ?thesis
  proof (cases "find (step_is (ap_tenant a) sid) (ww_steps w)")
    case None
    with resume(5) assms(1) show ?thesis by (simp add: resume_body_def transaction_def order_inv_same)
  next
    case (Some s)
    from find_in [OF Some] have "s \<in> set (ww_steps w)" by simp
    then have "i = rs_run s" using resume_step_run [OF resume(1,2) Some resume(3)] order_keys [OF assms(1)]
      by (simp add: wf_keys_def)
    moreover have "rs_status s \<noteq> StepSucceeded" using assms(2) resume(1,2) Some unfolding resumable_def by blast
    ultimately show ?thesis using resume_body_order [OF assms(1) Some] resume(5) by simp
  qed
qed

lemma insert_steps_queued:
  assumes "insert_steps fresh t i created k ps w = Inr w'" "\<forall>p \<in> set ps. sp_status p = None"
    and "distinct (map (\<lambda>s. (step_run s, rs_index s)) (ww_steps w))"
  shows "(\<exists>ss. ww_steps w' = ww_steps w @ ss \<and> (\<forall>s \<in> set ss. step_run s = (t, i) \<and> rs_status s = StepQueued)) \<and>
    ww_runs w' = ww_runs w \<and> distinct (map (\<lambda>s. (step_run s, rs_index s)) (ww_steps w'))"
  using assms
proof (induction fresh t i created k ps w rule: insert_steps.induct)
  case (2 fresh t i created k p ps w)
  let ?s = "new_step (fresh k) t i k created p"
  from "2.prems"(1) obtain w1 where w1: "insert_step ?s w = Inr w1" "insert_steps fresh t i created (Suc k) ps w1 = Inr w'"
    by (auto split: sum.splits)
  then have e: "w1 = w\<lparr>ww_steps := ww_steps w @ [?s]\<rparr>"
    and n: "\<forall>x \<in> set (ww_steps w). (step_run x, rs_index x) \<noteq> (step_run ?s, rs_index ?s)"
    by (auto simp: insert_step_def matches_iff step_run_def split: if_splits)
  have "distinct (map (\<lambda>s. (step_run s, rs_index s)) (ww_steps w1))" using e n "2.prems"(3) by auto
  from "2.IH" [OF w1 _ this] "2.prems"(2) obtain ss where
    "ww_steps w' = ww_steps w1 @ ss" "\<forall>s \<in> set ss. step_run s = (t, i) \<and> rs_status s = StepQueued" "ww_runs w' = ww_runs w1"
    "distinct (map (\<lambda>s. (step_run s, rs_index s)) (ww_steps w'))" by auto
  moreover have "step_run ?s = (t, i)" "rs_status ?s = StepQueued" using "2.prems"(2) by (simp_all add: step_run_def new_step_def)
  ultimately show ?case using e by (intro conjI exI [of _ "?s # ss"]) auto
qed simp

lemma create_order:
  assumes "order_inv w" "trim fresh = fresh" "\<forall>p \<in> set ps. sp_status p = None" "np_status np = None"
  shows "order_inv (snd (create_run_with_steps fresh fs now np ps sc w))"
proof (cases "create_run_with_steps fresh fs now np ps sc w")
  case (Pair x w2)
  let ?r = "new_run fresh now np"
  show ?thesis
  proof (cases x)
    case (Inl e)
    with Pair have "w2 = w" by (auto simp: create_run_with_steps_def split: prod.splits sum.splits)
    with Pair assms show ?thesis by simp
  next
    case (Inr y)
    with Pair obtain w1 created where new: "\<not> matches (\<lambda>x. (rn_tenant x, rn_id x) = (rn_tenant ?r, rn_id ?r)) (ww_runs w)"
      and w1: "w1 = w\<lparr>ww_runs := ww_runs w @ [?r]\<rparr>" and s: "insert_steps fs (np_tenant np) (rn_id ?r) created 0 ps w1 = Inr w2"
      by (auto simp: create_run_with_steps_def insert_run_def split: prod.splits sum.splits if_splits)
    have k: "run_key ?r = (np_tenant np, rn_id ?r)" "rn_status ?r = RunQueued"
      using assms(4) by (simp_all add: new_run_def run_key_def Let_def)
    have fresh: "\<forall>r \<in> set (ww_runs w). run_key r \<noteq> run_key ?r" using new by (auto simp: matches_iff run_key_def)
    have other: "\<forall>s \<in> set (ww_steps w). step_run s \<noteq> run_key ?r"
    proof
      fix s assume "s \<in> set (ww_steps w)"
      with assms(1) obtain r where "r \<in> set (ww_runs w)" "step_run s = run_key r" unfolding order_inv_def by blast
      with fresh show "step_run s \<noteq> run_key ?r" by simp
    qed
    from insert_steps_queued [OF s assms(3)] assms(1) w1 obtain ss where ss: "ww_steps w2 = ww_steps w @ ss"
      "\<forall>s \<in> set ss. step_run s = run_key ?r \<and> rs_status s = StepQueued" "ww_runs w2 = ww_runs w @ [?r]"
      "distinct (map (\<lambda>s. (step_run s, rs_index s)) (ww_steps w2))" by (auto simp: order_inv_def k)
    have "wf_keys w2" using create_adds [OF assms(2) order_keys [OF assms(1)], of fs now np ps sc] Pair by simp
    moreover have "run_ok (rn_status r) (run_key r) (ww_steps w2)" if "r \<in> set (ww_runs w)" for r
    proof -
      have "run_ok (rn_status r) (run_key r) (ww_steps w)" using that assms(1) by (simp add: order_inv_def)
      moreover have "{s \<in> set (ww_steps w2). step_run s = run_key r} = {s \<in> set (ww_steps w). step_run s = run_key r}"
        using ss fresh that by auto
      ultimately show ?thesis unfolding run_ok_def all_succeeded_def steps_live_def by blast
    qed
    moreover have "run_ok RunQueued (run_key ?r) (ww_steps w2)"
      using ss other by (auto simp: run_ok_def steps_live_def in_progress_def is_live_step_def)
    ultimately show ?thesis using ss assms(1) k(2) Pair by (auto simp: order_inv_def)
  qed
qed

subsection \<open>Timely schedules\<close>

text \<open>
  Schedules in which every result is filed while its claim is current and every resume token is
  presented before its step is settled: claims, results, cancellations, resumptions and creations by
  any number of workers in any order.
\<close>

inductive timely :: "wf_world \<Rightarrow> wf_world \<Rightarrow> bool" where
  timely_claim: "timely w (snd (claim_next_step env d t i worker now w))"
| timely_commit: "current c w \<Longrightarrow> timely w (snd (commit_claim env d t0 t1 now c outcome w))"
| timely_cancel: "timely w (snd (cancel_run now i reason w))"
| timely_resume: "resumable tok w \<Longrightarrow> timely w (snd (resume_run now tok w))"
| timely_create: "trim fresh = fresh \<Longrightarrow> timely w (snd (create_queued_run fresh fs now np actions w))"
| timely_other: "ww_runs w' = ww_runs w \<Longrightarrow> ww_steps w' = ww_steps w \<Longrightarrow> timely w w'"

lemma timely_order: "timely w w' \<Longrightarrow> order_inv w \<Longrightarrow> order_inv w'"
proof (induction rule: timely.induct)
  case (timely_create fresh w fs now np actions)
  have "np_status ((queued_params np)\<lparr>np_id := Some (or_default (np_id np) fresh)\<rparr>) = None" by (simp add: queued_params_def)
  from create_order [OF timely_create(2,1) _ this] show ?case
    unfolding create_queued_run_def Let_def
    by (simp split: prod.split sum.split) (metis (no_types, lifting) list.set_map imageE snd_conv step_params.select_convs(2))
qed (auto intro: claim_order commit_order cancel_order resume_order order_inv_same)

text \<open>
  C26. In a timely schedule the steps of a run are worked on strictly in order: a step is started only after
  all earlier ones have succeeded, and a run that is marked as succeeded has completed every step.
\<close>

theorem workflow_steps_in_order:
  assumes "timely\<^sup>*\<^sup>* w0 w" "ww_runs w0 = []" "ww_steps w0 = []" "r \<in> set (ww_runs w)"
    and "s \<in> set (ww_steps w)" "of_run r s"
  shows "(rn_status r = RunSucceeded \<longrightarrow> rs_status s = StepSucceeded) \<and>
    (\<not> is_terminal_run (rn_status r) \<longrightarrow> (\<forall>s' \<in> set (ww_steps w). of_run r s' \<and> rs_index s < rs_index s' \<and>
       rs_status s' \<noteq> StepQueued \<longrightarrow> rs_status s = StepSucceeded))"
proof -
  have "order_inv w0" by (simp add: order_inv_def wf_keys_def assms(2,3))
  with assms(1) have "order_inv w" by (induction rule: rtranclp_induct) (blast intro: timely_order)+
  with assms(4-6) show ?thesis
    by (auto simp: order_inv_def run_ok_def all_succeeded_def steps_live_def of_run_def)
qed


text \<open>A run with one step is created, claimed and committed.\<close>

definition demo_empty :: wf_world where
  "demo_empty = (demo_wf_world RunQueued [])\<lparr>ww_runs := []\<rparr>"

definition demo_run_created :: wf_world where
  "demo_run_created = snd (create_queued_run ''r'' (\<lambda>_. ''s0'') 0 demo_wf_params [demo_wf_action] demo_empty)"

definition demo_running :: wf_world where
  "demo_running = snd (claim_next_step demo_wf_env demo_wf_draw ''t'' ''r'' ''A'' 7 demo_run_created)"

definition demo_current :: step_claim where
  "demo_current = the (projr (fst (claim_next_step demo_wf_env demo_wf_draw ''t'' ''r'' ''A'' 7 demo_run_created)))"

definition demo_completed :: wf_world where
  "demo_completed = snd (commit_claim demo_wf_env demo_wf_draw 7 8 8 demo_current
     (Inr \<lparr>sr_success = True, sr_value = None, sr_error = None\<rparr>) demo_running)"

lemma demo_run_created_eq:
  "demo_run_created = demo_wf_world RunQueued [(demo_wf_step ''s0'' 0)\<lparr>rs_max_attempts := 1, rs_timeout := 60000\<rparr>]"
proof -
  have "trim ''r'' = ''r''" by code_simp
  then show ?thesis
    by (simp add: demo_run_created_def demo_empty_def create_queued_run_def create_run_with_steps_def insert_run_def
        insert_step_def matches_def demo_wf_simps queued_params_def)
qed

lemma demo_run_claimed:
  "claim_next_step demo_wf_env demo_wf_draw ''t'' ''r'' ''A'' 7 demo_run_created =
    (let step = (demo_wf_step ''s0'' 0)\<lparr>rs_max_attempts := 1, rs_timeout := 60000\<rparr>; run = new_run ''r'' 0 demo_wf_params in
     (Inr (Some \<lparr>cm_run = run, cm_step = step\<lparr>rs_status := StepRunning, rs_attempts := 1\<rparr>, cm_attempt_id = ''x1'', cm_attempt = 1\<rparr>),
      start_step demo_wf_draw ''A'' 7 run step demo_run_created))"
  unfolding demo_run_created_eq
  by (simp add: claim_next_step_def transaction_def claim_next_body_def demo_wf_simps get_run_def is_terminal_run_def
      lease_available_def next_step_of_def steps_of_def is_live_step_def claim_step_def maybe_pause_for_budget_def
      maybe_pause_for_policy_def take_step_def is_queued_step_def step_is_def)

lemma demo_is_current: "current demo_current demo_running"
  unfolding demo_current_def demo_running_def demo_run_claimed
  by (simp add: Let_def current_def start_step_steps demo_run_created_eq set_update_where)
    (simp add: demo_wf_simps is_queued_step_def step_is_def step_key_def step_run_def run_key_def)

lemma demo_done:
  "\<exists>r s. ww_runs demo_completed = [r] \<and> ww_steps demo_completed = [s] \<and> rn_status r = RunSucceeded \<and> of_run r s"
  unfolding demo_completed_def demo_current_def demo_running_def demo_run_claimed
  by (simp add: Let_def commit_claim_def commit_body_def transaction_def start_step_def demo_run_created_eq demo_wf_simps
    record_run_progress_def clear_run_lease_def update_where_def run_is_def record_turn_progress_def set_turn_lease_def
    get_run_def build_prepared_result_def payload_of_def no_payload_def given_def finish_step_def store_result_def of_run_def
    step_is_def is_queued_step_def step_run_def run_key_def is_terminal_run_def execute_with_timeout_def sql_coalesce_def)

lemma workflow_steps_in_order_witness:
  "map rs_status (ww_steps demo_completed) = [StepSucceeded]"
proof -
  have "timely demo_empty demo_run_created" unfolding demo_run_created_def by (rule timely_create) code_simp
  moreover have "timely demo_run_created demo_running" unfolding demo_running_def by (rule timely_claim)
  moreover have "timely demo_running demo_completed" unfolding demo_completed_def by (rule timely_commit [OF demo_is_current])
  ultimately have "timely\<^sup>*\<^sup>* demo_empty demo_completed" by (meson converse_rtranclp_into_rtranclp rtranclp.rtrancl_refl)
  moreover from demo_done obtain r s where d: "ww_runs demo_completed = [r]" "ww_steps demo_completed = [s]"
    "rn_status r = RunSucceeded" "of_run r s" by blast
  moreover have "ww_runs demo_empty = []" "ww_steps demo_empty = []" by (simp_all add: demo_empty_def demo_wf_world_def)
  ultimately have "rs_status s = StepSucceeded" using workflow_steps_in_order [of demo_empty demo_completed r s] by simp
  with d show ?thesis by simp
qed

end
