(* ===== verification/Workflow_Slow.thy ===== *)
theory Workflow_Slow
  imports Workflow_Gaps Workflow_Order
begin

text \<open>
  Steps that take longer than the lease of their run: the lease is 30 seconds and is not renewed while
  the executor works (\<open>runner-claim.ts\<close>, \<open>runner-execution.ts\<close>), a step may take 60 seconds by default,
  and it has one attempt by default.
\<close>

subsection \<open>Steps updated in place\<close>

lemma sort_key_map: "(\<And>x. k (g x) = k x) \<Longrightarrow> sort_key k (map g xs) = map g (sort_key k xs)"
proof (induction xs)
  case (Cons x xs)
  have "insort_key k (g x) (map g ys) = map g (insort_key k x ys)" for ys
    by (induction ys) (simp_all add: Cons.prems)
  with Cons show ?case by simp
qed simp

lemma find_map_same: "(\<And>x. P (g x) = P x) \<Longrightarrow> find P (map g xs) = map_option g (find P xs)"
  by (induction xs) auto

text \<open>An update that keeps a step open keeps the run's next step, in its updated form.\<close>

definition keeps_open :: "(wf_step \<Rightarrow> wf_step) \<Rightarrow> bool" where
  "keeps_open g \<longleftrightarrow> (\<forall>s. rs_tenant (g s) = rs_tenant s \<and> rs_run (g s) = rs_run s \<and> rs_index (g s) = rs_index s \<and>
    is_live_step (rs_status (g s)) = is_live_step (rs_status s))"

lemma next_step_update:
  assumes "keeps_open g" "ww_steps w' = map g (ww_steps w)" "rn_tenant r' = rn_tenant r" "rn_id r' = rn_id r"
  shows "next_step_of r' w' = map_option g (next_step_of r w)"
proof -
  have g: "rs_tenant (g s) = rs_tenant s" "rs_run (g s) = rs_run s" "rs_index (g s) = rs_index s"
    "is_live_step (rs_status (g s)) = is_live_step (rs_status s)" for s
    using assms(1) by (simp_all add: keeps_open_def)
  have "steps_of t i w' = map g (steps_of t i w)" for t i
    using sort_key_map [of rs_index g, OF g(3)] by (simp add: steps_of_def assms(2) filter_map comp_def g(1,2))
  then show ?thesis by (simp add: next_step_of_def assms(3,4) find_map_same g(4))
qed

lemma update_where_map: "update_where P f xs = map (\<lambda>x. if P x then f x else x) xs"
  by (simp add: update_where_def)

subsection \<open>The state after a claim\<close>

lemma claimed_state:
  assumes "claim_next_step env d t i worker now w = (Inr (Some c), w1)"
  obtains run s where "get_run t i w1 = Some run" "rn_status run = RunRunning" "rn_lease_owner run = Some worker"
    "rn_lease_expires run = Some (now + run_lease_ttl)" "next_step_of run w1 = Some s" "rs_status s = StepRunning"
    "rs_id s = rs_id (cm_step c)" "rs_attempts s = cm_attempt c" "rs_max_attempts s = rs_max_attempts (cm_step c)"
    "0 < cm_attempt c" "rn_tenant (cm_run c) = t" "rn_id (cm_run c) = i"
proof -
  from claim_next_some [OF assms] obtain run step v where r: "get_run t i w = Some run" "next_step_of run w = Some step"
    and o: "rs_status step = StepQueued \<and> v = w \<and> claim_step env d worker now run step v = (Inr (Some c), w1) \<or>
     rs_status step = StepRunning \<and> int (rs_attempts step) < max 1 (rs_max_attempts step) \<and>
       is_retryable_action (rs_action step) \<and>
       recover_running_step env d now run step w = (Inr (Some (step\<lparr>rs_status := StepQueued\<rparr>)), v) \<and>
       claim_step env d worker now run (step\<lparr>rs_status := StepQueued\<rparr>) v = (Inr (Some c), w1)" .
  from get_run_some [OF r(1)] have k: "rn_tenant run = t" "rn_id run = i" by (auto simp: run_key_def)
  have st: "rs_tenant step = t" using next_step_some [OF r(2)] k by (simp add: step_run_def)
  define g1 where "g1 = (\<lambda>s. if rs_status step = StepRunning \<and> step_is t (rs_id step) s \<and> rs_status s = StepRunning
    then s\<lparr>rs_status := StepQueued, rs_updated_at := now\<rparr> else s)"
  define s0 where "s0 = step\<lparr>rs_status := StepQueued\<rparr>"
  have "ww_steps v = map g1 (ww_steps w) \<and> claim_step env d worker now run s0 v = (Inr (Some c), w1)"
  proof (cases "rs_status step = StepRunning")
    case True
    with o have "recover_running_step env d now run step w = (Inr (Some s0), v)"
      and c: "claim_step env d worker now run s0 v = (Inr (Some c), w1)" by (auto simp: s0_def)
    then have "ww_steps v = update_where (\<lambda>s. step_is t (rs_id step) s \<and> rs_status s = StepRunning)
        (\<lambda>s. s\<lparr>rs_status := StepQueued, rs_updated_at := now\<rparr>) (ww_steps w)"
      by (auto simp: recover_running_step_def k split: if_splits prod.splits sum.splits)
    with c True show ?thesis by (simp add: update_where_map g1_def)
  next
    case False
    with o have "v = w" "rs_status step = StepQueued" "claim_step env d worker now run step v = (Inr (Some c), w1)" by auto
    moreover from this(2) have "s0 = step" by (cases step) (simp add: s0_def)
    ultimately show ?thesis by (simp add: g1_def)
  qed
  then have v: "ww_steps v = map g1 (ww_steps w)" and c: "claim_step env d worker now run s0 v = (Inr (Some c), w1)" by auto
  from claim_step_some [OF c] obtain w2 where p: "maybe_pause_for_policy env d now run s0 v = (Inr False, w2)"
    and tk: "take_step d worker now run s0 w2 = (Some c, w1)" .
  from take_step_some [OF tk] obtain l where w1: "w1 = start_step d worker now run s0 (w2\<lparr>ww_leases := l\<rparr>)"
    and cm: "cm_run c = run" "cm_step c = s0\<lparr>rs_status := StepRunning, rs_attempts := Suc (rs_attempts s0)\<rparr>"
      "cm_attempt c = Suc (rs_attempts s0)" by metis
  define g2 where "g2 = (\<lambda>s. if is_queued_step t (rs_id step) s then s\<lparr>rs_status := StepRunning, rs_updated_at := now,
    rs_started_at := sql_coalesce (rs_started_at s) (Some now), rs_attempts := Suc (rs_attempts s), rs_error := None\<rparr> else s)"
  have steps: "ww_steps w1 = map (g2 \<circ> g1) (ww_steps w)"
    using policy_passes_runs [OF p] v by (simp add: w1 start_step_steps update_where_map k s0_def g2_def)
  have "keeps_open (g2 \<circ> g1)"
    by (auto simp: keeps_open_def g1_def g2_def is_queued_step_def is_live_step_def)
  from claim_next_leases [OF assms] obtain run' where run': "get_run t i w1 = Some run'"
    "rn_lease_owner run' = Some worker" "rn_lease_expires run' = Some (now + run_lease_ttl)" "rn_status run' = RunRunning" .
  from get_run_some [OF run'(1)] k have "rn_tenant run' = rn_tenant run" "rn_id run' = rn_id run"
    by (auto simp: run_key_def)
  from next_step_update [OF \<open>keeps_open (g2 \<circ> g1)\<close> steps this] r(2)
  have n: "next_step_of run' w1 = Some (g2 (g1 step))" by simp
  have "rs_status step = StepQueued \<or> rs_status step = StepRunning" using o by blast
  then have "g2 (g1 step) = step\<lparr>rs_status := StepRunning, rs_updated_at := now,
    rs_started_at := sql_coalesce (rs_started_at step) (Some now), rs_attempts := Suc (rs_attempts step), rs_error := None\<rparr>"
    using st by (auto simp: g1_def g2_def is_queued_step_def step_is_def)
  with n run' show ?thesis by (intro that [of run' "g2 (g1 step)"]) (simp_all add: cm s0_def k)
qed

subsection \<open>A slow step\<close>

lemma get_run_steps: "get_run t i (w\<lparr>ww_steps := ss\<rparr>) = get_run t i w"
  by (rule get_run_cong) simp

lemma fail_run_run:
  "get_run (rn_tenant run) (rn_id run) w = Some r \<Longrightarrow>
    \<exists>r'. get_run (rn_tenant run) (rn_id run) (fail_run env run step err now q w) = Some r' \<and> rn_status r' = RunFailed"
  unfolding fail_run_def Let_def
  by (subst run_lease_cleared, simp add: run_key_def) (simp only: get_run_steps get_run_set_step, simp)

lemma fail_run_steps:
  obtains g f where "ww_steps (fail_run env run step err now q w) =
      update_where (\<lambda>s. rs_tenant s = rn_tenant run \<and> rs_run s = rn_id run \<and> rs_id s \<noteq> rs_id step \<and> is_live_step (rs_status s)) g
        (update_where (step_is (rn_tenant run) (rs_id step)) f (ww_steps w))"
    "\<forall>s. step_key (g s) = step_key s" "\<forall>s. step_key (f s) = step_key s \<and> rs_status (f s) = StepFailed"
proof (rule that)
  show "ww_steps (fail_run env run step err now q w) =
      update_where (\<lambda>s. rs_tenant s = rn_tenant run \<and> rs_run s = rn_id run \<and> rs_id s \<noteq> rs_id step \<and> is_live_step (rs_status s))
        (\<lambda>s. s\<lparr>rs_status := StepCancelled, rs_updated_at := now, rs_finished_at := sql_coalesce (rs_finished_at s) (Some now)\<rparr>)
        (update_where (step_is (rn_tenant run) (rs_id step)) (\<lambda>s. s\<lparr>rs_status := StepFailed, rs_updated_at := now,
          rs_finished_at := sql_coalesce (rs_finished_at s) (Some now), rs_error := Some (we_redact_text env err),
          rs_result := sql_coalesce (Option.bind q pr_result) (rs_result s),
          rs_metadata := sql_coalesce (Option.bind q pr_metadata) (rs_metadata s),
          rs_artifacts := (case q of None \<Rightarrow> rs_artifacts s | Some q \<Rightarrow> pr_artifacts q),
          rs_cost := sql_coalesce (map_option pr_cost q) (rs_cost s)\<rparr>) (ww_steps w))"
    by (simp add: fail_run_def Let_def)
qed (simp_all add: step_key_def)

lemma filter_step_other:
  assumes "\<And>s. step_key (g s) = step_key s"
  shows "filter (step_is t k) (update_where (\<lambda>s. rs_tenant s = t \<and> rs_run s = i \<and> rs_id s \<noteq> k \<and> P s) g ss) =
    filter (step_is t k) ss"
proof (induction ss)
  case (Cons a ss)
  have "step_is t k (g a) = step_is t k a" using assms [of a] by (auto simp: step_is_def step_key_def)
  with Cons show ?case by (auto simp: update_where_def step_is_def)
qed (simp add: update_where_def)

lemma fail_run_step:
  "step_statuses (rn_tenant run) (rs_id step) (fail_run env run step err now q w) =
    map (\<lambda>_. StepFailed) (step_statuses (rn_tenant run) (rs_id step) w)"
proof -
  obtain g f where u: "ww_steps (fail_run env run step err now q w) =
      update_where (\<lambda>s. rs_tenant s = rn_tenant run \<and> rs_run s = rn_id run \<and> rs_id s \<noteq> rs_id step \<and> is_live_step (rs_status s)) g
        (update_where (step_is (rn_tenant run) (rs_id step)) f (ww_steps w))"
    and g: "\<forall>s. step_key (g s) = step_key s" and f: "\<forall>s. step_key (f s) = step_key s \<and> rs_status (f s) = StepFailed"
    by (rule fail_run_steps)
  have "step_statuses (rn_tenant run) (rs_id step) (w\<lparr>ww_steps := update_where (step_is (rn_tenant run) (rs_id step)) f (ww_steps w)\<rparr>) =
      map (\<lambda>_. StepFailed) (step_statuses (rn_tenant run) (rs_id step) w)"
    by (rule step_statuses_update [where f = f]) (use f in \<open>simp_all add: step_is_def step_key_def\<close>)
  then show ?thesis by (simp add: step_statuses_def u filter_step_other g)
qed

text \<open>
  C27. A step that outlives the lease of its run loses the run. The lease is thirty seconds and the step
  was on its last attempt (its only one by default); when it is still being executed as the lease
  expires, and nothing else has happened to the run, the next worker that looks at the run (or the same one,
  at any time) gets nothing and marks the step and the run as failed; whatever the executor then
  reports, a success included, is dropped.
\<close>

theorem slow_step_fails_run:
  assumes "claim_next_step env d t i worker now w = (Inr (Some c), w1)"
    and "rs_max_attempts (cm_step c) \<le> int (cm_attempt c)"
    and "get_run t i w2 = get_run t i w1" "steps_of t i w2 = steps_of t i w1"
    and "now + 30000 \<le> later \<or> other = worker"
  shows "\<exists>w3. claim_next_step env' d' t i other later w2 = (Inr None, w3) \<and>
    map_option rn_status (get_run t i w3) = Some RunFailed \<and>
    set (step_statuses t (rs_id (cm_step c)) w3) = {StepFailed} \<and>
    (\<forall>env'' d'' t0 t1 at outcome. commit_claim env'' d'' t0 t1 at c outcome w3 = (Inr (), w3))"
proof -
  obtain run s where r: "get_run t i w1 = Some run" "rn_status run = RunRunning" "rn_lease_owner run = Some worker"
    "rn_lease_expires run = Some (now + run_lease_ttl)" and n: "next_step_of run w1 = Some s"
    and s: "rs_status s = StepRunning" "rs_id s = rs_id (cm_step c)" "rs_attempts s = cm_attempt c"
      "rs_max_attempts s = rs_max_attempts (cm_step c)" "0 < cm_attempt c"
    and k: "rn_tenant (cm_run c) = t" "rn_id (cm_run c) = i"
    by (rule claimed_state [OF assms(1)])
  from get_run_some [OF r(1)] have kr: "rn_tenant run = t" "rn_id run = i" by (auto simp: run_key_def)
  let ?w3 = "fail_run env' run s ''max attempts exhausted during recovery'' later None w2"
  have g: "get_run t i w2 = Some run" using assms(3) r(1) by simp
  have n2: "next_step_of run w2 = Some s" using n assms(4) by (simp add: next_step_of_def kr)
  have "lease_available other later run" using assms(5) r(3,4) by (auto simp: lease_available_def run_lease_ttl_def)
  moreover have "recover_running_step env' d' later run s w2 = (Inr None, ?w3)"
    using s assms(2) by (simp add: recover_running_step_def)
  ultimately have a: "claim_next_step env' d' t i other later w2 = (Inr None, ?w3)"
    using g n2 r(2) s(1) by (simp add: claim_next_step_def transaction_def claim_next_body_def is_terminal_run_def)
  obtain r3 where r3: "get_run t i ?w3 = Some r3" "rn_status r3 = RunFailed"
    using fail_run_run [of run w2 run] g kr by metis
  have "s \<in> set (ww_steps w2)" "rs_tenant s = t" using next_step_some [OF n2] by (simp_all add: step_run_def kr)
  then have "step_statuses t (rs_id s) w2 \<noteq> []" by (auto simp: step_statuses_def filter_empty_conv step_is_def)
  then have "set (step_statuses t (rs_id s) ?w3) = {StepFailed}"
    using fail_run_step [of run s env' "''max attempts exhausted during recovery''" later None w2]
    by (cases "step_statuses t (rs_id s) w2") (auto simp: kr)
  moreover have "commit_claim env'' d'' t0 t1 at c outcome ?w3 = (Inr (), ?w3)" for env'' d'' t0 t1 at outcome
    using r3 by (simp add: commit_claim_def Let_def transaction_def commit_body_def k is_terminal_run_def)
  ultimately show ?thesis using a r3 s(2) by auto
qed

text \<open>A run as \<open>createQueuedRun\<close> makes it; its step succeeds 30 seconds after the claim, in vain.\<close>

lemma slow_step_fails_run_witness:
  "\<exists>w3. claim_next_step demo_wf_env demo_wf_draw ''t'' ''r'' ''B'' 30007 demo_running = (Inr None, w3) \<and>
    map_option rn_status (get_run ''t'' ''r'' w3) = Some RunFailed \<and>
    commit_claim demo_wf_env demo_wf_draw 7 30008 30008 demo_current
      (Inr \<lparr>sr_success = True, sr_value = None, sr_error = None\<rparr>) w3 = (Inr (), w3)"
proof -
  have c: "claim_next_step demo_wf_env demo_wf_draw ''t'' ''r'' ''A'' 7 demo_run_created = (Inr (Some demo_current), demo_running)"
    by (simp add: demo_current_def demo_running_def demo_run_claimed Let_def)
  have "rs_max_attempts (cm_step demo_current) \<le> int (cm_attempt demo_current)"
    by (simp add: demo_current_def demo_run_claimed Let_def)
  from slow_step_fails_run [OF c this refl refl, of 30007 "''B''" demo_wf_env demo_wf_draw] show ?thesis by auto
qed

end
