(* ===== verification/Spec2Isabelle.thy ===== *)
theory Spec2Isabelle
  imports Postcondition Match_Paths Policy_Service Task_Results Approval_Resolve Task_Leases Plan_Service Plan_Machine Leases Client_Ip_Facts Auth_Facts Channel_Replies Channel_Polling Workflow_Slow
begin

text \<open>
  A model of the core of tyrum, a gateway that runs an autonomous agent under human control: what a tool
  call may do (policy), who has to agree (approvals and reviews), what is done (plans, workflow runs,
  work items and tasks), and what is kept of it (the audit log). Paths below are under
  \<open>src/packages\<close>; \<open>gateway\<close> stands for \<open>gateway/src/modules\<close>.

  \<^bold>\<open>Parts and their interplay.\<close> A plan request is gated by request policy and wallet limits and runs
  through a state machine; its outcome is filed in the hash-chained audit log. Workflow runs are
  pinned to a snapshot of the effective policy bundle; a worker claims a step only when budget, policy
  and leases permit it, and otherwise pauses the run for an approval. Approvals are resolved by people
  or expire; a resolution may create policy overrides and queues one continuation action, which a
  processor delivers at least once to the runner. Work items and their tasks are a board with limits
  and dependencies; remote task results come back through a registry of promises. Messages reach the
  agent through a queue per conversation, and its replies leave through an outbox that approvals hold.

  \<^bold>\<open>Theories.\<close>
  \<^item> \<open>Prelude\<close>, \<open>Table\<close>: strings, insertion-ordered maps, the interfaces (locales) the components
    share, and tables as lists of rows. \<open>Json_Value\<close>, \<open>Js_Value\<close>: JSON values, property access
    with inherited members, canonical text. \<open>Actions\<close>: the action primitives
    (\<open>contracts/src/planner.ts\<close>).
  \<^item> \<open>Policy_Wildcard\<close>, \<open>Policy_Domain\<close>, \<open>Policy_Tool_Id\<close>, \<open>Policy_Tool_Eval\<close>, \<open>Policy_Merge\<close>,
    \<open>Policy_Override_Store\<close>, \<open>Policy_Stores\<close>, \<open>Policy_Service\<close>: \<open>runtime-policy/src\<close> and
    \<open>gateway/policy\<close>. The pattern matcher is a while loop; the other files are functions on bundles,
    caches and tables. Lemmas: what the matcher decides, which verdict wins, that caches do not change
    a decision, the history of overrides.
  \<^item> \<open>Match_Target\<close>, \<open>Match_Paths\<close>: the text that rules are matched against
    (\<open>gateway/policy/match-target.ts\<close>, \<open>gateway/execution/engine/tool-call.ts\<close>). \<open>Postcondition\<close>:
    \<open>contracts/src/postcondition.ts\<close>.
  \<^item> \<open>Approvals\<close>, \<open>Approval_Actions\<close>, \<open>Approval_Resolve\<close>: \<open>gateway/approval\<close> and
    \<open>gateway/review/dal.ts\<close>. A transition reads and then updates under a condition; interleavings are
    sequences of commits. Lemmas: history of approvals and actions, leases of actions, one winner.
  \<^item> \<open>Workflow_Run\<close>, \<open>Workflow_Runner\<close> (the rows and transactions of \<open>gateway/workflow-run\<close>),
    \<open>Workflow_Facts\<close> (every transaction touches one run; ended runs are frozen), \<open>Workflow_Claims\<close>
    (what a granted claim means), \<open>Workflow_Order\<close> (steps are done in order in timely schedules),
    \<open>Workflow_Gaps\<close> (what happens in schedules that are not), \<open>Workflow_Slow\<close> (steps that outlive
    the lease of their run).
  \<^item> \<open>Leases\<close>: workspace and conversation leases, concurrency slots and the time limit of steps
    (\<open>gateway/workspace/lease.ts\<close>, \<open>gateway/execution\<close>), with the statements of other files that write
    the lease tables. \<open>Task_Results\<close>: \<open>runtime-execution/src/task-result-registry.ts\<close>.
  \<^item> \<open>Work_Items\<close>, \<open>Work_Tasks\<close>: \<open>gateway/workboard\<close>: transition table, limits, readiness, leases of
    tasks, the depth-first cycle check. \<open>Task_Leases\<close>: the requeueing of orphaned tasks, and what
    happens to a lease and to a task with a deleted dependency over histories of the board.
  \<^item> \<open>Policy_Engine\<close>, \<open>Plan_Machine\<close>, \<open>Plan_Service\<close>, \<open>Audit_Log\<close>: \<open>gateway/planner\<close>,
    \<open>gateway/wallet\<close>, \<open>gateway/audit\<close>, \<open>routes/audit.ts\<close>. \<open>Identity_Scope\<close>,
    \<open>Identity_Coherence\<close>: tenants, agents and workspaces with their caches (\<open>gateway/identity\<close>).
  \<^item> \<open>Redaction\<close>: \<open>gateway/redaction\<close>. \<open>Rate_Limiter\<close>: \<open>gateway/auth/rate-limiter.ts\<close>.
  \<^item> \<open>Client_Ip\<close>, \<open>Client_Ip_Facts\<close>: the address of a client behind proxies
    (\<open>gateway/auth/client-ip.ts\<close>), what can be forged of it and what a subnet entry covers.
    \<open>Auth_Tokens\<close>, \<open>Auth_Gate\<close>, \<open>Auth_Facts\<close>: access tokens and the two middlewares every HTTP
    request passes (\<open>gateway/auth\<close>, \<open>gateway/authz\<close>, \<open>api/manifest.ts\<close>): what an admitted request has
    shown, what issuing and revoking guarantee.
  \<^item> \<open>Channel_Queue\<close> (source keys, messages, the inbound queue with its deduplication, leases and
    overflow policies), \<open>Channel_Outbox\<close> (replies, sending, the round of the processor that looks after
    approvals): \<open>gateway/channels\<close>. \<open>Channel_Facts\<close>: the queue's length and duplicates;
    \<open>Channel_Replies\<close>: what an approval holds back and who may release it. \<open>Channel_Polling\<close>: the lease
    and the cursor of the Telegram poller.

  \<^bold>\<open>Conventions.\<close> Database rows are records, tables lists in insertion order, JSON columns the values of
  their text; a transaction is one function on the state and an exception in it leaves the tables as
  they were. Times are milliseconds given as arguments, fresh ids are arguments, integers of the
  language are \<open>nat\<close> or \<open>int\<close> (32-bit columns are written out where they matter: \<open>max_step\<close>).
  Cryptographic hashes, the URL parser, locale collation, executors and the like are parameters;
  what is used of them (for example that a hash does not collide on two given texts) is said in the
  theorem.

  \<^bold>\<open>Bounds and fuel.\<close> The matcher's loop ends by a lexicographic measure. The cycle search gets one
  unit of fuel more than there are tasks: a path without repetition is no longer. The polling
  acquisition of a lease gets one round per poll interval of waiting plus two, which is enough when a
  sleep takes at least as long as asked. The tick of the
  action processor has the batch size as bound, which the code has too. Retries of unique names are
  ten, as in the code, and so are the five rounds of the overflow loop. All other functions are structurally recursive.

  \<^bold>\<open>Not modelled.\<close> Everything whose behaviour is input and output (the connectors of channels, devices, models, user
  interfaces, routes and wire protocol, storage backends), the agent's prompt assembly and memory, the
  floating point risk classifier, the remaining stores of the work board and its dispatcher loops,
  and zod parsing beyond what the types of the rows say. In the modelled parts: logging and metrics,
  the order of rows the database leaves open (the oldest row is taken), and Unicode case folding.
\<close>

end
